(* ===== verification/Prelude.thy ===== *)
theory Prelude
  imports Main "HOL-Library.Word" "HOL-Library.Sublist"
begin

text \<open>
  Shared vocabulary of the development: machine integers at the widths the C code uses,
  results with an error or a fault, C strings, and the little-endian layout of a 32-bit
  word. The collections \<open>io_simps\<close>, \<open>inv_intros\<close> and \<open>frame_simps\<close> gather the facts the
  component theories hand to \<open>simp\<close> and \<open>auto\<close>.
\<close>

unbundle bit_operations_syntax

section \<open>Collections of facts\<close>

named_theorems io_simps \<open>evaluation of the system-call loops\<close>
named_theorems inv_intros \<open>an operation keeps an invariant\<close>
named_theorems frame_simps \<open>what an operation leaves unchanged\<close>

section \<open>Types\<close>

type_synonym byte = "8 word"
type_synonym u16 = "16 word"
type_synonym u32 = "32 word"

text \<open>
  The \<open>errno\<close> values the code tests for. Every other value only ever reaches
  \<open>strerror\<close>, so it is kept as a number.
\<close>

datatype errno = EINTR | EAGAIN | EBADF | ENOENT | EEXIST | ECONNABORTED | Eother nat

text \<open>
  Why a computation stops without returning: \<open>Fault\<close> marks a step the C standard leaves
  undefined (a null or dangling pointer, an access past the end of an object), \<open>Exit\<close> a
  call of \<open>exit\<close>, \<open>Abort\<close> a failed assertion or \<open>FATAL\<close>.
\<close>

datatype fault = NullDeref | UseAfterFree | OutOfBounds

datatype stop = Fault fault | Exit int | Abort

type_synonym 'a res = "stop + 'a"

section \<open>Sequencing computations that may stop\<close>

definition seq :: "'a res \<Rightarrow> ('a \<Rightarrow> 'b res) \<Rightarrow> 'b res" where
  "seq m f = (case m of Inl e \<Rightarrow> Inl e | Inr x \<Rightarrow> f x)"

lemma seq_Inl [simp]: "seq (Inl e) f = Inl e"
  by (simp add: seq_def)

lemma seq_Inr [simp]: "seq (Inr x) f = f x"
  by (simp add: seq_def)

lemma seq_eq_Inr: "seq m f = Inr y \<longleftrightarrow> (\<exists>x. m = Inr x \<and> f x = Inr y)"
  by (cases m) auto

lemma seq_cong [fundef_cong]:
  "m = m' \<Longrightarrow> (\<And>x. m' = Inr x \<Longrightarrow> f x = g x) \<Longrightarrow> seq m f = seq m' g"
  by (cases m') auto

lemma seq_assoc: "seq (seq m f) g = seq m (\<lambda>x. seq (f x) g)"
  by (cases m) simp_all

lemma seq_split:
  "P (seq m f) \<longleftrightarrow> (\<forall>e. m = Inl e \<longrightarrow> P (Inl e)) \<and> (\<forall>x. m = Inr x \<longrightarrow> P (f x))"
  by (cases m) auto

text \<open>
  A computation is safe for a postcondition when it returns a value with it or ends the
  program by \<open>exit\<close>: it neither faults nor aborts.
\<close>

definition safe_res :: "('a \<Rightarrow> bool) \<Rightarrow> 'a res \<Rightarrow> bool" where
  "safe_res P m = (case m of Inr x \<Rightarrow> P x | Inl (Exit _) \<Rightarrow> True | Inl _ \<Rightarrow> False)"

lemma safe_res_simps [simp]:
  "safe_res P (Inr x) = P x" "safe_res P (Inl (Exit c))" "\<not> safe_res P (Inl (Fault e))"
  "\<not> safe_res P (Inl Abort)"
  by (simp_all add: safe_res_def)

lemma safe_res_seq:
  "safe_res P m \<Longrightarrow> (\<And>x. P x \<Longrightarrow> safe_res Q (f x)) \<Longrightarrow> safe_res Q (seq m f)"
  by (cases m) (auto simp: safe_res_def split: stop.splits)

lemma safe_res_seq_eq:
  "safe_res P m \<Longrightarrow> (\<And>x. m = Inr x \<Longrightarrow> P x \<Longrightarrow> safe_res Q (f x)) \<Longrightarrow> safe_res Q (seq m f)"
  by (cases m) (auto simp: safe_res_def split: stop.splits)

lemma safe_res_mono: "safe_res P m \<Longrightarrow> (\<And>x. P x \<Longrightarrow> Q x) \<Longrightarrow> safe_res Q m"
  by (cases m) (auto simp: safe_res_def split: stop.splits)

lemma safe_res_mono_eq: "safe_res P m \<Longrightarrow> (\<And>x. m = Inr x \<Longrightarrow> P x \<Longrightarrow> Q x) \<Longrightarrow> safe_res Q m"
  by (cases m) (auto simp: safe_res_def split: stop.splits)

lemma safe_res_not_fault: "safe_res P m \<Longrightarrow> m \<noteq> Inl (Fault e)"
  by auto

section \<open>C strings\<close>

text \<open>
  A C string inside an array of bytes ends at the first zero byte; an array without one
  makes every string function read past its end.
\<close>

definition c_string :: "byte list \<Rightarrow> byte list option" where
  "c_string bs = (if 0 \<in> set bs then Some (takeWhile (\<lambda>b. b \<noteq> 0) bs) else None)"

definition str_of_bytes :: "byte list \<Rightarrow> string" where
  "str_of_bytes bs = map (\<lambda>b. char_of (unat b)) bs"

definition bytes_of_str :: "string \<Rightarrow> byte list" where
  "bytes_of_str s = map of_char s"

text \<open>\<open>strchr\<close>: the suffix that starts at the first occurrence, if any.\<close>

definition strchr :: "string \<Rightarrow> char \<Rightarrow> string option" where
  "strchr s c = (case dropWhile (\<lambda>x. x \<noteq> c) s of [] \<Rightarrow> None | t \<Rightarrow> Some t)"

text \<open>\<open>isspace\<close> in the C locale.\<close>

definition is_space :: "byte \<Rightarrow> bool" where
  "is_space b \<longleftrightarrow> b = 32 \<or> 9 \<le> b \<and> b \<le> 13"

lemma strchr_None_iff [simp]: "strchr s c = None \<longleftrightarrow> c \<notin> set s"
proof (cases "c \<in> set s")
  case True
  then have "dropWhile (\<lambda>x. x \<noteq> c) s \<noteq> []"
    by auto
  with True show ?thesis
    by (cases "dropWhile (\<lambda>x. x \<noteq> c) s") (auto simp: strchr_def)
next
  case False
  then have d: "dropWhile (\<lambda>x. x \<noteq> c) s = []"
    by auto
  show ?thesis
    using False by (simp add: strchr_def d)
qed

lemma strchr_SomeD:
  assumes "strchr s c = Some t"
  shows "s = takeWhile (\<lambda>x. x \<noteq> c) s @ t \<and> (\<exists>u. t = c # u)"
proof -
  from assms have t: "t = dropWhile (\<lambda>x. x \<noteq> c) s" and "t \<noteq> []"
    by (auto simp: strchr_def split: list.splits)
  then have "hd t = c"
    using hd_dropWhile by blast
  with \<open>t \<noteq> []\<close> have "\<exists>u. t = c # u"
    by (cases t) auto
  with t show ?thesis by simp
qed

lemma length_str_of_bytes [simp]: "length (str_of_bytes bs) = length bs"
  by (simp add: str_of_bytes_def)

lemma length_bytes_of_str [simp]: "length (bytes_of_str s) = length s"
  by (simp add: bytes_of_str_def)

lemma bytes_of_str_append [simp]: "bytes_of_str (s @ t) = bytes_of_str s @ bytes_of_str t"
  by (simp add: bytes_of_str_def)

lemma unat_of_char_byte [simp]: "unat (of_char c :: byte) = of_char c"
proof -
  have "unat (of_char c :: byte) = unat (of_nat (of_char c) :: byte)"
    by (simp only: of_nat_of_char)
  also have "\<dots> = take_bit LENGTH(8) (of_char c)"
    by (simp only: unsigned_of_nat of_nat_id)
  also have "\<dots> = of_char c"
    using nat_of_char_less_256 [of c] by (intro take_bit_nat_eq_self) simp
  finally show ?thesis .
qed

lemma str_of_bytes_of_str [simp]: "str_of_bytes (bytes_of_str s) = s"
  by (simp add: str_of_bytes_def bytes_of_str_def comp_def)

section \<open>The little-endian layout of 32-bit words\<close>

definition le32 :: "u32 \<Rightarrow> byte list" where
  "le32 w = [ucast w, ucast (drop_bit 8 w), ucast (drop_bit 16 w), ucast (drop_bit 24 w)]"

fun of_le32 :: "byte list \<Rightarrow> u32" where
  "of_le32 (a # b # c # d # _) =
     ucast a OR push_bit 8 (ucast b) OR push_bit 16 (ucast c) OR push_bit 24 (ucast d)"
| "of_le32 _ = 0"

lemma length_le32 [simp]: "length (le32 w) = 4"
  by (simp add: le32_def)

lemma of_le32_le32 [simp]: "of_le32 (le32 w @ rest) = w"
proof (rule bit_word_eqI)
  fix n
  assume "n < LENGTH(32)"
  then have "n < 8 \<or> 8 \<le> n \<and> n < 16 \<or> 16 \<le> n \<and> n < 24 \<or> 24 \<le> n \<and> n < 32"
    by auto
  then show "bit (of_le32 (le32 w @ rest)) n = bit w n"
    by (auto simp: le32_def bit_simps)
qed

lemma of_le32_le32_Nil [simp]: "of_le32 (le32 w) = w"
  using of_le32_le32 [of w "[]"] by simp

lemma not_bit_byte [simp]: "8 \<le> n \<Longrightarrow> \<not> bit (b :: byte) n"
  by (auto dest: bit_imp_le_length)

lemma le32_of_le32:
  assumes "length bs = 4"
  shows "le32 (of_le32 bs) = bs"
proof -
  from assms obtain a b c d where bs: "bs = [a, b, c, d]"
    by (auto simp: numeral_eq_Suc length_Suc_conv)
  have "ucast (of_le32 bs) = a" "ucast (drop_bit 8 (of_le32 bs)) = b"
    "ucast (drop_bit 16 (of_le32 bs)) = c" "ucast (drop_bit 24 (of_le32 bs)) = d"
    unfolding bs by (auto intro!: bit_word_eqI simp: bit_simps)
  then show ?thesis
    by (simp add: le32_def bs)
qed

text \<open>Sixteen bits: the layout of a number, and how the code reads it into an \<open>unsigned int\<close>.\<close>

definition le16 :: "nat \<Rightarrow> byte list" where "le16 n = [of_nat n, of_nat (n div 256)]"

fun of_le16 :: "byte list \<Rightarrow> u32" where
  "of_le16 (a # b # _) = ucast a OR push_bit 8 (ucast b)"
| "of_le16 _ = 0"

lemma length_le16 [simp]: "length (le16 n) = 2"
  by (simp add: le16_def)

lemma of_le16_le16:
  assumes "n < 65536"
  shows "of_le16 (le16 n @ rest) = of_nat n"
proof (rule bit_word_eqI)
  fix i
  assume i: "i < LENGTH(32)"
  have high: "\<not> bit n i" if "16 \<le> i"
  proof -
    have "take_bit 16 n = n" using assms by (simp add: take_bit_nat_eq_self_iff)
    then show ?thesis using that by (metis bit_take_bit_iff not_less)
  qed
  have d: "bit (n div 256) j = bit n (j + 8)" for j
    using bit_drop_bit_eq [of 8 n] by (simp add: drop_bit_eq_div fun_eq_iff add.commute)
  from i show "bit (of_le16 (le16 n @ rest)) i = bit (of_nat n :: u32) i"
    using high by (cases "i < 8"; cases "i < 16") (auto simp: le16_def bit_simps d)
qed

section \<open>Numbers in words\<close>

lemma unat_u32: "n < 2 ^ 32 \<Longrightarrow> unat (of_nat n :: u32) = n"
  by (simp add: unsigned_of_nat take_bit_nat_eq_self)

section \<open>Lists\<close>

lemma take_append_drop_take: "take n xs @ take m (drop n xs) = take (n + m) xs"
  by (simp add: take_add)

end
