(* ===== verification/Sysio.thy ===== *)
theory Sysio
  imports Prelude
begin

text \<open>
  The system calls behind \<open>adb_read\<close> and \<open>adb_write\<close> (\<open>include/sysdeps.h\<close>) and the
  loops of \<open>src/transport.c\<close> that call them until a whole object has gone through:
  \<open>readx\<close>, \<open>writex\<close>, \<open>read_packet\<close>, \<open>write_packet\<close>, \<open>transport_read_action\<close> and
  \<open>transport_write_action\<close>.

  The kernel is not part of the repository. What it will answer is an argument of every
  definition: a list of answers, one per system call that returns, in order. A read is
  answered by a chunk of bytes (the empty chunk is end of file) of which it takes no more
  than it asked for, or by an error; a write by the number of bytes the kernel has room
  for, or by an error. A list that is used up means that the next call does not return.
\<close>

section \<open>Answers of the kernel\<close>

datatype rd_answer = Chunk "byte list" | RdErr errno

datatype wr_answer = Room nat | WrErr errno

text \<open>The value of one call: \<open>Got\<close> for a result \<open>r \<ge> 0\<close>, \<open>Failed\<close> for \<open>r < 0\<close>.\<close>

datatype 'a sysret = Got 'a | Failed errno

fun sys_read :: "nat \<Rightarrow> rd_answer list \<Rightarrow> (byte list sysret \<times> rd_answer list) option" where
  "sys_read n [] = None"
| "sys_read n (RdErr e # k) = Some (Failed e, k)"
| "sys_read n (Chunk bs # k) =
     Some (Got (take n bs), if length bs \<le> n then k else Chunk (drop n bs) # k)"

fun sys_write :: "byte list \<Rightarrow> wr_answer list \<Rightarrow> (nat sysret \<times> wr_answer list) option" where
  "sys_write bs [] = None"
| "sys_write bs (WrErr e # k) = Some (Failed e, k)"
| "sys_write bs (Room n # k) = Some (Got (min n (length bs)), k)"

text \<open>\<open>TEMP_FAILURE_RETRY\<close> repeats a call for as long as it fails with \<open>EINTR\<close>.\<close>

fun adb_read :: "nat \<Rightarrow> rd_answer list \<Rightarrow> (byte list sysret \<times> rd_answer list) option" where
  "adb_read n (RdErr EINTR # k) = adb_read n k"
| "adb_read n k = sys_read n k"

fun adb_write :: "byte list \<Rightarrow> wr_answer list \<Rightarrow> (nat sysret \<times> wr_answer list) option" where
  "adb_write bs (WrErr EINTR # k) = adb_write bs k"
| "adb_write bs k = sys_write bs k"

lemma adb_read_progress:
  "adb_read n k = Some (Got bs, k') \<Longrightarrow>
     length bs \<le> n \<and> (length k' < length k \<or> length k' \<le> length k \<and> length bs = n)"
  by (induction n k rule: adb_read.induct) (auto split: if_splits)

lemma adb_read_error_progress:
  "adb_read n k = Some (Failed e, k') \<Longrightarrow> length k' < length k \<and> e \<noteq> EINTR"
  by (induction n k rule: adb_read.induct) (auto split: if_splits)

lemma adb_write_progress:
  "adb_write bs k = Some (r, k') \<Longrightarrow> length k' < length k \<and> r \<noteq> Failed EINTR"
  by (induction bs k rule: adb_write.induct) (auto split: if_splits)

lemma adb_write_bound: "adb_write bs k = Some (Got n, k') \<Longrightarrow> n \<le> length bs"
  by (induction bs k rule: adb_write.induct) auto

section \<open>Reading until an object is complete\<close>

text \<open>
  The loop \<open>while(len > 0)\<close> of \<open>readx\<close>. The result is \<open>None\<close> when a call does not
  return, \<open>Some (None, k)\<close> for the return value -1 and \<open>Some (Some bs, k)\<close> for 0 with
  \<open>bs\<close> in the buffer.
\<close>

function readx :: "nat \<Rightarrow> rd_answer list \<Rightarrow> (byte list option \<times> rd_answer list) option" where
  "readx len k =
     (if len = 0 then Some (Some [], k)
      else case adb_read len k of
        None \<Rightarrow> None
      | Some (Got bs, k') \<Rightarrow>
          if bs \<noteq> [] then
            (case readx (len - length bs) k' of
               None \<Rightarrow> None
             | Some (r, k'') \<Rightarrow> Some (map_option ((@) bs) r, k''))
          else Some (None, k')
      | Some (Failed e, k') \<Rightarrow> if e = EINTR then readx len k' else Some (None, k'))"
  by pat_completeness auto
termination
proof (relation "measure (\<lambda>(len, k). len + length k)", goal_cases)
  case 1
  show ?case by simp
next
  case (2 len k p r k' bs)
  then show ?case
    using adb_read_progress [of len k bs k'] by (cases bs) auto
next
  case (3 len k p r k' e)
  then show ?case
    using adb_read_error_progress [of len k e k'] by auto
qed

declare readx.simps [simp del]

text \<open>
  The bytes a descriptor delivers before end of file or an error that is not \<open>EINTR\<close>,
  and whether such an end is reached within the answers.
\<close>

fun stream :: "rd_answer list \<Rightarrow> byte list" where
  "stream [] = []"
| "stream (Chunk bs # k) = (if bs = [] then [] else bs @ stream k)"
| "stream (RdErr e # k) = (if e = EINTR then stream k else [])"

fun ends :: "rd_answer list \<Rightarrow> bool" where
  "ends [] = False"
| "ends (Chunk bs # k) = (bs = [] \<or> ends k)"
| "ends (RdErr e # k) = (e \<noteq> EINTR \<or> ends k)"

lemma adb_read_Got_stream:
  "adb_read n k = Some (Got bs, k') \<Longrightarrow> n \<noteq> 0 \<Longrightarrow> bs \<noteq> [] \<Longrightarrow>
     stream k = bs @ stream k' \<and> ends k = ends k'"
  by (induction n k rule: adb_read.induct) (auto split: if_splits)

lemma adb_read_end_stream:
  "adb_read n k = Some (r, k') \<Longrightarrow> n \<noteq> 0 \<Longrightarrow> r = Got [] \<or> r = Failed e \<Longrightarrow>
     stream k = [] \<and> ends k"
  by (induction n k rule: adb_read.induct) (auto split: if_splits)

lemma adb_read_None_stream: "adb_read n k = None \<Longrightarrow> stream k = [] \<and> \<not> ends k"
  by (induction n k rule: adb_read.induct) auto

text \<open>
  What \<open>readx\<close> returns, for every way the kernel cuts the stream into chunks and
  interrupts the calls.
\<close>

lemma readx_enough:
  assumes "len \<le> length (stream k)"
  shows "\<exists>k'. readx len k = Some (Some (take len (stream k)), k') \<and>
    stream k' = drop len (stream k) \<and> ends k' = ends k"
  using assms
proof (induction len k rule: readx.induct)
  case (1 len k)
  show ?case
  proof (cases "len = 0")
    case True
    then show ?thesis by (simp add: readx.simps [of 0 k])
  next
    case False
    consider (none) "adb_read len k = None"
      | (got) bs k' where "adb_read len k = Some (Got bs, k')"
      | (fail) e k' where "adb_read len k = Some (Failed e, k')"
      by (metis not_None_eq surj_pair sysret.exhaust)
    then show ?thesis
    proof cases
      case none
      with False "1.prems" adb_read_None_stream [OF none] show ?thesis by simp
    next
      case got
      have ne: "bs \<noteq> []"
        using False "1.prems" adb_read_end_stream [OF got] by auto
      have st: "stream k = bs @ stream k'" and en: "ends k = ends k'"
        using adb_read_Got_stream [OF got False ne] by auto
      have le: "length bs \<le> len"
        using adb_read_progress [OF got] by simp
      from "1.prems" st have "len - length bs \<le> length (stream k')" by simp
      with "1.IH"(1) [OF False got refl refl ne] obtain k'' where
        "readx (len - length bs) k' = Some (Some (take (len - length bs) (stream k')), k'')"
        "stream k'' = drop (len - length bs) (stream k')" "ends k'' = ends k'"
        by blast
      with False got ne st en le show ?thesis
        by (simp add: readx.simps [of len k])
    next
      case fail
      with False "1.prems" adb_read_end_stream [OF fail False] show ?thesis by auto
    qed
  qed
qed

lemma readx_short:
  assumes "length (stream k) < len"
  shows "if ends k then \<exists>k'. readx len k = Some (None, k') else readx len k = None"
  using assms
proof (induction len k rule: readx.induct)
  case (1 len k)
  from "1.prems" have len: "len \<noteq> 0" by simp
  consider (none) "adb_read len k = None"
    | (got) bs k' where "adb_read len k = Some (Got bs, k')"
    | (fail) e k' where "adb_read len k = Some (Failed e, k')"
    by (metis not_None_eq surj_pair sysret.exhaust)
  then show ?case
  proof cases
    case none
    with len adb_read_None_stream [OF none] show ?thesis
      by (simp add: readx.simps [of len k])
  next
    case got
    show ?thesis
    proof (cases "bs = []")
      case True
      with got len adb_read_end_stream [OF got len] show ?thesis
        by (simp add: readx.simps [of len k])
    next
      case False
      have st: "stream k = bs @ stream k'" and en: "ends k = ends k'"
        using adb_read_Got_stream [OF got len False] by auto
      from "1.prems" st have "length (stream k') < len - length bs" by simp
      with "1.IH"(1) [OF len got refl refl False] got len False en show ?thesis
        by (auto simp: readx.simps [of len k] split: if_splits)
    qed
  next
    case fail
    with len adb_read_end_stream [OF fail len] adb_read_error_progress [OF fail] show ?thesis
      by (auto simp: readx.simps [of len k])
  qed
qed

lemma readx_SomeD:
  assumes "readx len k = Some (Some bs, k')"
  shows "len \<le> length (stream k) \<and> bs = take len (stream k) \<and>
    stream k' = drop len (stream k) \<and> ends k' = ends k"
proof (cases "len \<le> length (stream k)")
  case True
  with readx_enough [OF True] assms show ?thesis by auto
next
  case False
  with readx_short [of k len] assms show ?thesis by (auto split: if_splits)
qed

lemma readx_length: "readx len k = Some (Some bs, k') \<Longrightarrow> length bs = len"
  by (auto dest: readx_SomeD)

section \<open>Writing until an object is gone\<close>

text \<open>
  The loop of \<open>writex\<close>. The first component is what reached the descriptor; the second is
  the return value (\<open>True\<close> for 0, \<open>False\<close> for -1), or \<open>None\<close> when a call does not return.
\<close>

function writex :: "byte list \<Rightarrow> wr_answer list \<Rightarrow> byte list \<times> bool option \<times> wr_answer list" where
  "writex bs k =
     (if bs = [] then ([], Some True, k)
      else case adb_write bs k of
        None \<Rightarrow> ([], None, [])
      | Some (Got n, k') \<Rightarrow>
          if n > 0 then
            (case writex (drop n bs) k' of (out, r, k'') \<Rightarrow> (take n bs @ out, r, k''))
          else ([], Some False, k')
      | Some (Failed e, k') \<Rightarrow> if e = EINTR then writex bs k' else ([], Some False, k'))"
  by pat_completeness auto
termination
  by (relation "measure (\<lambda>(bs, k). length k)") (auto dest: adb_write_progress)

declare writex.simps [simp del]

text \<open>What leaves is always a prefix of the object, and all of it exactly on success.\<close>

lemma writex_prefix:
  "writex bs k = (out, r, k') \<Longrightarrow>
     (\<exists>rest. bs = out @ rest \<and> (r = Some True \<longleftrightarrow> rest = []))"
proof (induction bs k arbitrary: out r k' rule: writex.induct)
  case (1 bs k)
  show ?case
  proof (cases "bs = []")
    case True
    with "1.prems" show ?thesis by (simp add: writex.simps [of "[]" k])
  next
    case False
    consider (none) "adb_write bs k = None"
      | (got) n k1 where "adb_write bs k = Some (Got n, k1)"
      | (fail) e k1 where "adb_write bs k = Some (Failed e, k1)"
      by (metis not_None_eq surj_pair sysret.exhaust)
    then show ?thesis
    proof cases
      case none
      with False "1.prems" show ?thesis by (auto simp: writex.simps [of bs k])
    next
      case got
      show ?thesis
      proof (cases "n > 0")
        case True
        obtain out1 r1 k2 where w: "writex (drop n bs) k1 = (out1, r1, k2)"
          by (cases "writex (drop n bs) k1")
        with "1.IH"(1) [OF False got refl refl True] obtain rest where
          rest: "drop n bs = out1 @ rest" "r1 = Some True \<longleftrightarrow> rest = []" by blast
        from w False got True "1.prems" have "out = take n bs @ out1" "r = r1"
          by (auto simp: writex.simps [of bs k])
        with rest show ?thesis
          by (metis append.assoc append_take_drop_id)
      next
        case n0: False
        with False got "1.prems" show ?thesis by (auto simp: writex.simps [of bs k])
      qed
    next
      case fail
      with False "1.prems" adb_write_progress [OF fail] show ?thesis
        by (auto simp: writex.simps [of bs k])
    qed
  qed
qed

lemma writex_complete: "writex bs k = (out, Some True, k') \<Longrightarrow> out = bs"
  using writex_prefix by fastforce

lemma writex_EINTR: "bs \<noteq> [] \<Longrightarrow> writex bs (WrErr EINTR # k) = writex bs k"
  by (simp add: writex.simps [of bs "WrErr EINTR # k"] writex.simps [of bs k])

lemma writex_Room:
  "bs \<noteq> [] \<Longrightarrow> 0 < n \<Longrightarrow> writex bs (Room n # k) =
     (case writex (drop (min n (length bs)) bs) k of
        (out, r, k') \<Rightarrow> (take (min n (length bs)) bs @ out, r, k'))"
  by (subst writex.simps) simp

text \<open>A kernel that keeps accepting at least one byte takes the whole object.\<close>

lemma writex_progress:
  "\<forall>a \<in> set k. \<exists>n. a = Room (Suc n) \<or> a = WrErr EINTR \<Longrightarrow>
   length bs \<le> length (filter (\<lambda>a. a \<noteq> WrErr EINTR) k) \<Longrightarrow>
     \<exists>k'. writex bs k = (bs, Some True, k')"
proof (induction k arbitrary: bs)
  case Nil
  then show ?case by (simp add: writex.simps)
next
  case (Cons a k)
  from Cons.prems(1) have k: "\<forall>a \<in> set k. \<exists>n. a = Room (Suc n) \<or> a = WrErr EINTR" by simp
  show ?case
  proof (cases "bs = [] \<or> a = WrErr EINTR")
    case True
    then show ?thesis
    proof (cases "bs = []")
      case False
      with True have a: "a = WrErr EINTR" by simp
      with Cons.prems(2) Cons.IH [OF k, of bs] obtain k' where "writex bs k = (bs, Some True, k')"
        by auto
      with a False show ?thesis
        by (simp add: writex_EINTR)
    qed (simp add: writex.simps)
  next
    case False
    with Cons.prems(1) obtain n where a: "a = Room (Suc n)" by auto
    let ?m = "min (Suc n) (length bs)"
    from False a Cons.prems(2) have "length (drop ?m bs) \<le> length (filter (\<lambda>a. a \<noteq> WrErr EINTR) k)"
      by (cases bs) auto
    from Cons.IH [OF k this] obtain k' where "writex (drop ?m bs) k = (drop ?m bs, Some True, k')"
      by blast
    with a False show ?thesis
      using writex_Room [of bs "Suc n" k] by simp
  qed
qed

section \<open>Addresses and registration messages on a pipe\<close>

text \<open>
  Packets cross between the main thread and the I/O threads by address: \<open>read_packet\<close> and
  \<open>write_packet\<close> move the four bytes of a pointer of the 32-bit target. The registration
  socket carries a \<open>tmsg\<close>, an address and an action, in eight bytes.
\<close>

type_synonym addr = u32

record tmsg =
  tm_transport :: addr
  tm_action :: u32

definition read_packet :: "rd_answer list \<Rightarrow> (addr option \<times> rd_answer list) option" where
  "read_packet k = map_option (map_prod (map_option of_le32) id) (readx 4 k)"

definition write_packet :: "addr \<Rightarrow> wr_answer list \<Rightarrow> byte list \<times> bool option \<times> wr_answer list" where
  "write_packet p k = writex (le32 p) k"

definition transport_read_action :: "rd_answer list \<Rightarrow> (tmsg option \<times> rd_answer list) option" where
  "transport_read_action k =
     map_option (map_prod (map_option
       (\<lambda>bs. \<lparr>tm_transport = of_le32 bs, tm_action = of_le32 (drop 4 bs)\<rparr>)) id) (readx 8 k)"

definition transport_write_action ::
    "tmsg \<Rightarrow> wr_answer list \<Rightarrow> byte list \<times> bool option \<times> wr_answer list" where
  "transport_write_action m k = writex (le32 (tm_transport m) @ le32 (tm_action m)) k"

end
