(* ===== verification/Packet.thy ===== *)
theory Packet
  imports Sysio
begin

text \<open>
  The packets of the protocol (\<open>struct amessage\<close> and \<open>struct apacket\<close> of \<open>include/adb.h\<close>),
  their allocation (\<open>get_apacket\<close> of \<open>src/adb.c\<close>), and the header and payload checks of
  \<open>src/transport.c\<close>: the part of \<open>send_packet\<close> that completes a header,
  \<open>check_header\<close> and \<open>check_data\<close>.
\<close>

section \<open>Packets\<close>

definition MAX_PAYLOAD :: nat where "MAX_PAYLOAD = 4096"

definition A_SYNC :: u32 where "A_SYNC = 0x434e5953"
definition A_CNXN :: u32 where "A_CNXN = 0x4e584e43"
definition A_OPEN :: u32 where "A_OPEN = 0x4e45504f"
definition A_OKAY :: u32 where "A_OKAY = 0x59414b4f"
definition A_CLSE :: u32 where "A_CLSE = 0x45534c43"
definition A_WRTE :: u32 where "A_WRTE = 0x45545257"
definition A_AUTH :: u32 where "A_AUTH = 0x48545541"
definition A_VERSION :: u32 where "A_VERSION = 0x01000000"

lemmas command_defs = A_SYNC_def A_CNXN_def A_OPEN_def A_OKAY_def A_CLSE_def A_WRTE_def A_AUTH_def

record amessage =
  command :: u32
  arg0 :: u32
  arg1 :: u32
  data_length :: u32
  data_check :: u32
  magic :: u32

text \<open>
  \<open>pkt_ptr\<close> is the offset of \<open>p->ptr\<close> in \<open>p->data\<close>; the link \<open>p->next\<close> is the order of
  the lists packets are kept in.
\<close>

record apacket =
  pkt_len :: u32
  pkt_ptr :: nat
  msg :: amessage
  data :: "byte list"

definition wf_packet :: "apacket \<Rightarrow> bool" where
  "wf_packet p \<longleftrightarrow> length (data p) = MAX_PAYLOAD"

text \<open>
  \<open>get_apacket\<close> clears everything but the payload, which keeps the contents \<open>junk\<close> of the
  memory that \<open>malloc\<close> returns.
\<close>

definition zero_msg :: amessage where
  "zero_msg = \<lparr>command = 0, arg0 = 0, arg1 = 0, data_length = 0, data_check = 0, magic = 0\<rparr>"

definition get_apacket :: "byte list \<Rightarrow> apacket" where
  "get_apacket junk = \<lparr>pkt_len = 0, pkt_ptr = 0, msg = zero_msg, data = junk\<rparr>"

text \<open>Copying into an array that lies at the start of \<open>dst\<close>, as \<open>memcpy\<close> and \<open>read\<close> do.\<close>

definition blit :: "byte list \<Rightarrow> byte list \<Rightarrow> byte list res" where
  "blit src dst =
     (if length src \<le> length dst then Inr (src @ drop (length src) dst)
      else Inl (Fault OutOfBounds))"

lemma blit_eq_Inr: "blit src dst = Inr r \<longleftrightarrow> length src \<le> length dst \<and> r = src @ drop (length src) dst"
  by (auto simp: blit_def)

section \<open>Checksums and headers\<close>

text \<open>The loop \<open>while(count-- > 0) sum += *x++\<close> of \<open>send_packet\<close> and \<open>check_data\<close>.\<close>

fun data_sum :: "nat \<Rightarrow> byte list \<Rightarrow> u32 \<Rightarrow> u32 res" where
  "data_sum 0 x acc = Inr acc"
| "data_sum (Suc count) (b # x) acc = data_sum count x (acc + ucast b)"
| "data_sum (Suc count) [] acc = Inl (Fault OutOfBounds)"

definition payload_sum :: "byte list \<Rightarrow> u32" where
  "payload_sum bs = (\<Sum>b \<leftarrow> bs. ucast b)"

lemma data_sum_eq: "n \<le> length x \<Longrightarrow> data_sum n x s = Inr (s + payload_sum (take n x))"
  by (induction n x s rule: data_sum.induct) (auto simp: payload_sum_def)

lemma data_sum_fault: "length x < n \<Longrightarrow> data_sum n x s = Inl (Fault OutOfBounds)"
  by (induction n x s rule: data_sum.induct) auto

definition packet_seal :: "apacket \<Rightarrow> apacket res" where
  "packet_seal p =
     (let p1 = p\<lparr>msg := (msg p)\<lparr>magic := command (msg p) XOR 0xffffffff\<rparr>\<rparr> in
      seq (data_sum (unat (data_length (msg p1))) (data p1) 0)
        (\<lambda>acc. Inr (p1\<lparr>msg := (msg p1)\<lparr>data_check := acc\<rparr>\<rparr>)))"

text \<open>\<open>True\<close> stands for the return value 0 of the two checks, \<open>False\<close> for -1.\<close>

definition check_header :: "apacket \<Rightarrow> bool" where
  "check_header p \<longleftrightarrow>
     magic (msg p) = command (msg p) XOR 0xffffffff \<and>
     unat (data_length (msg p)) \<le> MAX_PAYLOAD"

definition check_data :: "apacket \<Rightarrow> bool res" where
  "check_data p =
     seq (data_sum (unat (data_length (msg p))) (data p) 0)
       (\<lambda>acc. Inr (acc = data_check (msg p)))"

text \<open>The payload a header announces.\<close>

definition payload :: "apacket \<Rightarrow> byte list" where
  "payload p = take (unat (data_length (msg p))) (data p)"

definition sealed :: "apacket \<Rightarrow> bool" where
  "sealed p \<longleftrightarrow> wf_packet p \<and> check_header p \<and> data_check (msg p) = payload_sum (payload p)"

lemma length_payload:
  "wf_packet p \<Longrightarrow> unat (data_length (msg p)) \<le> MAX_PAYLOAD \<Longrightarrow>
     length (payload p) = unat (data_length (msg p))"
  by (simp add: payload_def wf_packet_def)

lemma check_data_eq:
  "wf_packet p \<Longrightarrow> unat (data_length (msg p)) \<le> MAX_PAYLOAD \<Longrightarrow>
     check_data p = Inr (payload_sum (payload p) = data_check (msg p))"
  by (simp add: check_data_def data_sum_eq wf_packet_def payload_def)

lemma packet_seal_sealed:
  assumes "wf_packet p" "unat (data_length (msg p)) \<le> MAX_PAYLOAD"
  shows "\<exists>q. packet_seal p = Inr q \<and> sealed q \<and> data q = data p \<and> payload q = payload p \<and>
    command (msg q) = command (msg p) \<and> arg0 (msg q) = arg0 (msg p) \<and>
    arg1 (msg q) = arg1 (msg p) \<and> data_length (msg q) = data_length (msg p)"
  using assms
  by (simp add: packet_seal_def data_sum_eq wf_packet_def sealed_def check_header_def payload_def
      Let_def)

lemma packet_seal_overrun:
  "wf_packet p \<Longrightarrow> MAX_PAYLOAD < unat (data_length (msg p)) \<Longrightarrow>
     packet_seal p = Inl (Fault OutOfBounds)"
  by (simp add: packet_seal_def data_sum_fault wf_packet_def Let_def)

section \<open>The header on the wire\<close>

text \<open>
  The target is little endian and \<open>fix_endians\<close> does nothing, so the six words of the
  header leave in their memory layout.
\<close>

definition enc_msg :: "amessage \<Rightarrow> byte list" where
  "enc_msg m = le32 (command m) @ le32 (arg0 m) @ le32 (arg1 m) @
     le32 (data_length m) @ le32 (data_check m) @ le32 (magic m)"

definition dec_msg :: "byte list \<Rightarrow> amessage" where
  "dec_msg bs = \<lparr>command = of_le32 bs, arg0 = of_le32 (drop 4 bs), arg1 = of_le32 (drop 8 bs),
     data_length = of_le32 (drop 12 bs), data_check = of_le32 (drop 16 bs),
     magic = of_le32 (drop 20 bs)\<rparr>"

lemma length_enc_msg [simp]: "length (enc_msg m) = 24"
  by (simp add: enc_msg_def)

lemma drop_le32 [simp]: "drop (4 + n) (le32 w @ bs) = drop n bs"
  by simp

lemma dec_enc_msg [simp]: "dec_msg (enc_msg m) = m"
proof -
  have d4: "drop 4 (enc_msg m) = le32 (arg0 m) @ drop 8 (enc_msg m)"
    and d8: "drop 8 (enc_msg m) = le32 (arg1 m) @ drop 12 (enc_msg m)"
    and d12: "drop 12 (enc_msg m) = le32 (data_length m) @ drop 16 (enc_msg m)"
    and d16: "drop 16 (enc_msg m) = le32 (data_check m) @ drop 20 (enc_msg m)"
    and d20: "drop 20 (enc_msg m) = le32 (magic m) @ []"
    by (simp_all add: enc_msg_def)
  have "of_le32 (enc_msg m) = command m"
    by (simp add: enc_msg_def)
  with d4 d8 d12 d16 d20 show ?thesis
    by (intro amessage.equality) (simp_all add: dec_msg_def)
qed

lemma enc_dec_msg:
  assumes "length bs = 24"
  shows "enc_msg (dec_msg bs) = bs"
proof -
  obtain a b c d e f where bs: "bs = a @ b @ c @ d @ e @ f"
    and "length a = 4" "length b = 4" "length c = 4" "length d = 4" "length e = 4" "length f = 4"
  proof
    have "bs = concat (map (\<lambda>i. take 4 (drop (4 * i) bs)) [0..<6])"
      using assms by (auto simp: numeral_eq_Suc length_Suc_conv)
    then show "bs = take 4 bs @ take 4 (drop 4 bs) @ take 4 (drop 8 bs) @ take 4 (drop 12 bs) @
        take 4 (drop 16 bs) @ take 4 (drop 20 bs)"
      by (simp add: upt_rec)
  qed (use assms in simp_all)
  moreover have "of_le32 (x @ y) = of_le32 x" if "length x = 4" for x y
    using that by (auto simp: numeral_eq_Suc length_Suc_conv)
  ultimately show ?thesis
    by (simp add: enc_msg_def dec_msg_def le32_of_le32)
qed

end
