(* ===== verification/Link.thy ===== *)
theory Link
  imports Packet
begin

text \<open>
  Moving packets over the wire: \<open>remote_read\<close> and \<open>remote_write\<close> of
  \<open>src/transport_local.c\<close> (a TCP or QEMU socket) and of \<open>src/transport_usb.c\<close>, on top of
  \<open>usb_read\<close> and \<open>usb_write\<close> of \<open>src/usb_linux_client.c\<close> with their FunctionFS and legacy
  implementations.

  The locale \<open>byte_reader\<close> is what a packet reader relies on to be safe: a read of \<open>n\<close>
  bytes that succeeds delivers the next \<open>n\<close> bytes of the stream however the kernel cut it.
  All three readers provide it. A \<open>byte_source\<close> moreover succeeds whenever the stream has
  the bytes, which the socket and the FunctionFS endpoint do, and the round trip of packets
  is proved once from it. \<open>packet_writer\<close> is the matching promise of the writers.
\<close>

section \<open>USB endpoints\<close>

text \<open>
  \<open>bulk_read\<close>, with the number of bytes still missing for its first argument: a
  \<open>do ... while\<close> loop that also goes round on a read of zero bytes.
\<close>

function bulk_read :: "nat \<Rightarrow> rd_answer list \<Rightarrow> (byte list option \<times> rd_answer list) option" where
  "bulk_read missing k =
     (case adb_read missing k of
        None \<Rightarrow> None
      | Some (Failed e, k') \<Rightarrow>
          if e \<noteq> EINTR then Some (None, k')
          else if 0 < missing then bulk_read missing k' else Some (Some [], k')
      | Some (Got bs, k') \<Rightarrow>
          if length bs < missing then
            (case bulk_read (missing - length bs) k' of
               None \<Rightarrow> None
             | Some (r, k'') \<Rightarrow> Some (map_option ((@) bs) r, k''))
          else Some (Some bs, k'))"
  by pat_completeness auto
termination
proof (relation "measure (\<lambda>(missing, k). length k)", goal_cases)
  case 1
  show ?case by simp
next
  case (2 missing k p r k' bs)
  then show ?case
    using adb_read_progress [of missing k bs k'] by auto
next
  case (3 missing k p r k' e)
  then show ?case
    using adb_read_error_progress [of missing k e k'] by auto
qed

declare bulk_read.simps [simp del]

function bulk_write :: "byte list \<Rightarrow> wr_answer list \<Rightarrow> byte list \<times> bool option \<times> wr_answer list" where
  "bulk_write bs k =
     (case adb_write bs k of
        None \<Rightarrow> ([], None, [])
      | Some (Failed e, k') \<Rightarrow>
          if e \<noteq> EINTR then ([], Some False, k')
          else if bs \<noteq> [] then bulk_write bs k' else ([], Some True, k')
      | Some (Got n, k') \<Rightarrow>
          if n < length bs then
            (case bulk_write (drop n bs) k' of (out, r, k'') \<Rightarrow> (take n bs @ out, r, k''))
          else (bs, Some True, k'))"
  by pat_completeness auto
termination
  by (relation "measure (\<lambda>(bs, k). length k)") (auto dest: adb_write_progress)

declare bulk_write.simps [simp del]

text \<open>
  The two implementations behind the function pointers of \<open>struct usb_handle\<close>. The
  FunctionFS one fails unless \<open>bulk_read\<close> returns the length asked for; the legacy one
  makes a single call.
\<close>

datatype usb_impl = Ffs | Legacy

definition usb_ffs_read :: "nat \<Rightarrow> rd_answer list \<Rightarrow> (byte list option \<times> rd_answer list) option" where
  "usb_ffs_read len k =
     (case bulk_read len k of
        Some (Some bs, k') \<Rightarrow> Some (if length bs \<noteq> len then None else Some bs, k')
      | r \<Rightarrow> r)"

definition usb_adb_read :: "nat \<Rightarrow> rd_answer list \<Rightarrow> (byte list option \<times> rd_answer list) option" where
  "usb_adb_read len k =
     (case adb_read len k of
        None \<Rightarrow> None
      | Some (Got bs, k') \<Rightarrow> Some (if length bs \<noteq> len then None else Some bs, k')
      | Some (Failed e, k') \<Rightarrow> Some (None, k'))"

definition usb_read :: "usb_impl \<Rightarrow> nat \<Rightarrow> rd_answer list \<Rightarrow> (byte list option \<times> rd_answer list) option" where
  "usb_read u = (case u of Ffs \<Rightarrow> usb_ffs_read | Legacy \<Rightarrow> usb_adb_read)"

definition usb_ffs_write :: "byte list \<Rightarrow> wr_answer list \<Rightarrow> byte list \<times> bool option \<times> wr_answer list" where
  "usb_ffs_write bs k =
     (case bulk_write bs k of
        (out, Some True, k') \<Rightarrow> (out, Some (length out = length bs), k')
      | r \<Rightarrow> r)"

definition usb_adb_write :: "byte list \<Rightarrow> wr_answer list \<Rightarrow> byte list \<times> bool option \<times> wr_answer list" where
  "usb_adb_write bs k =
     (case adb_write bs k of
        None \<Rightarrow> ([], None, [])
      | Some (Got n, k') \<Rightarrow> (take n bs, Some (n = length bs), k')
      | Some (Failed e, k') \<Rightarrow> ([], Some False, k'))"

definition usb_write :: "usb_impl \<Rightarrow> byte list \<Rightarrow> wr_answer list \<Rightarrow> byte list \<times> bool option \<times> wr_answer list" where
  "usb_write u = (case u of Ffs \<Rightarrow> usb_ffs_write | Legacy \<Rightarrow> usb_adb_write)"

section \<open>Packets over a socket\<close>

definition local_remote_read ::
    "apacket \<Rightarrow> rd_answer list \<Rightarrow> (apacket option \<times> rd_answer list) option res" where
  "local_remote_read p k =
     (case readx 24 k of
        None \<Rightarrow> Inr None
      | Some (None, k) \<Rightarrow> Inr (Some (None, k))
      | Some (Some h, k) \<Rightarrow>
          let p = p\<lparr>msg := dec_msg h\<rparr> in
          if \<not> check_header p then Inr (Some (None, k))
          else case readx (unat (data_length (msg p))) k of
            None \<Rightarrow> Inr None
          | Some (None, k) \<Rightarrow> Inr (Some (None, k))
          | Some (Some bs, k) \<Rightarrow>
              seq (blit bs (data p)) (\<lambda>d.
              let p = p\<lparr>data := d\<rparr> in
              seq (check_data p) (\<lambda>ok.
              Inr (Some (if ok then Some p else None, k)))))"

text \<open>
  \<open>writex(t->sfd, &p->msg, sizeof(amessage) + length)\<close>: the header and, right behind it in
  \<open>struct apacket\<close>, the payload.
\<close>

definition local_remote_write ::
    "apacket \<Rightarrow> wr_answer list \<Rightarrow> (byte list \<times> bool option \<times> wr_answer list) res" where
  "local_remote_write p k =
     (if unat (data_length (msg p)) \<le> length (data p)
      then Inr (writex (enc_msg (msg p) @ payload p) k)
      else Inl (Fault OutOfBounds))"

section \<open>Packets over USB\<close>

definition usb_remote_read ::
    "usb_impl \<Rightarrow> apacket \<Rightarrow> rd_answer list \<Rightarrow> (apacket option \<times> rd_answer list) option res" where
  "usb_remote_read u p k =
     (case usb_read u 24 k of
        None \<Rightarrow> Inr None
      | Some (None, k) \<Rightarrow> Inr (Some (None, k))
      | Some (Some h, k) \<Rightarrow>
          let p = p\<lparr>msg := dec_msg h\<rparr> in
          if \<not> check_header p then Inr (Some (None, k))
          else case (if data_length (msg p) \<noteq> 0
                     then usb_read u (unat (data_length (msg p))) k else Some (Some [], k)) of
            None \<Rightarrow> Inr None
          | Some (None, k) \<Rightarrow> Inr (Some (None, k))
          | Some (Some bs, k) \<Rightarrow>
              seq (blit bs (data p)) (\<lambda>d.
              let p = p\<lparr>data := d\<rparr> in
              seq (check_data p) (\<lambda>ok.
              Inr (Some (if ok then Some p else None, k)))))"

definition usb_remote_write ::
    "usb_impl \<Rightarrow> apacket \<Rightarrow> wr_answer list \<Rightarrow> (byte list \<times> bool option \<times> wr_answer list) res" where
  "usb_remote_write u p k =
     (case usb_write u (enc_msg (msg p)) k of
        (out, Some True, k') \<Rightarrow>
          if data_length (msg p) = 0 then Inr (out, Some True, k')
          else if unat (data_length (msg p)) \<le> length (data p) then
            (case usb_write u (payload p) k' of (out2, r, k'') \<Rightarrow> Inr (out @ out2, r, k''))
          else Inl (Fault OutOfBounds)
      | (out, r, k') \<Rightarrow> Inr (out, r, k'))"

section \<open>What a packet reader relies on\<close>

text \<open>Both readers are this one, with \<open>rd\<close> for the read of \<open>n\<close> bytes.\<close>

definition packet_read ::
    "(nat \<Rightarrow> 'k \<Rightarrow> (byte list option \<times> 'k) option) \<Rightarrow> apacket \<Rightarrow> 'k \<Rightarrow>
     (apacket option \<times> 'k) option res" where
  "packet_read rd p k =
     (case rd 24 k of
        None \<Rightarrow> Inr None
      | Some (None, k) \<Rightarrow> Inr (Some (None, k))
      | Some (Some h, k) \<Rightarrow>
          let p = p\<lparr>msg := dec_msg h\<rparr> in
          if \<not> check_header p then Inr (Some (None, k))
          else case rd (unat (data_length (msg p))) k of
            None \<Rightarrow> Inr None
          | Some (None, k) \<Rightarrow> Inr (Some (None, k))
          | Some (Some bs, k) \<Rightarrow>
              seq (blit bs (data p)) (\<lambda>d.
              let p = p\<lparr>data := d\<rparr> in
              seq (check_data p) (\<lambda>ok.
              Inr (Some (if ok then Some p else None, k)))))"

text \<open>Reading packets one after the other, as \<open>output_thread\<close> does, each into a new packet.\<close>

fun packets_read ::
    "(apacket \<Rightarrow> 'k \<Rightarrow> (apacket option \<times> 'k) option res) \<Rightarrow> apacket list \<Rightarrow> 'k \<Rightarrow>
     (apacket list \<times> 'k) option" where
  "packets_read r [] k = Some ([], k)"
| "packets_read r (p # ps) k =
     (case r p k of
        Inr (Some (Some q, k')) \<Rightarrow> map_option (map_prod ((#) q) id) (packets_read r ps k')
      | _ \<Rightarrow> None)"

text \<open>The bytes of a packet on the wire, and packets that agree in header and payload.\<close>

definition wire :: "apacket \<Rightarrow> byte list" where
  "wire p = enc_msg (msg p) @ payload p"

definition same_packet :: "apacket \<Rightarrow> apacket \<Rightarrow> bool" where
  "same_packet p q \<longleftrightarrow> msg p = msg q \<and> payload p = payload q"

locale byte_reader =
  fixes rd :: "nat \<Rightarrow> 'k \<Rightarrow> (byte list option \<times> 'k) option"
    and str :: "'k \<Rightarrow> byte list"
  assumes rd_SomeD: "rd n k = Some (Some bs, k') \<Longrightarrow>
      n \<le> length (str k) \<and> bs = take n (str k) \<and> str k' = drop n (str k)"
begin

lemma packet_read_safe:
  assumes "wf_packet q"
  shows "\<exists>r. packet_read rd q k = Inr r \<and>
    (\<forall>q' k'. r = Some (Some q', k') \<longrightarrow> sealed q' \<and> str k = wire q' @ str k')"
proof -
  consider (stop) "\<nexists>h k1 bs k2. rd 24 k = Some (Some h, k1) \<and>
      check_header (q\<lparr>msg := dec_msg h\<rparr>) \<and>
      rd (unat (data_length (dec_msg h))) k1 = Some (Some bs, k2)"
    | (body) h k1 bs k2 where "rd 24 k = Some (Some h, k1)"
      "check_header (q\<lparr>msg := dec_msg h\<rparr>)"
      "rd (unat (data_length (dec_msg h))) k1 = Some (Some bs, k2)"
    by blast
  then show ?thesis
  proof cases
    case stop
    then show ?thesis
      by (auto simp: packet_read_def Let_def split: option.split prod.split)
  next
    case body
    from rd_SomeD [OF body(1)] have h: "24 \<le> length (str k)" "h = take 24 (str k)"
      "str k1 = drop 24 (str k)" by auto
    from rd_SomeD [OF body(3)] have b: "length bs = unat (data_length (dec_msg h))"
      "bs @ str k2 = str k1" by auto
    from body(2) have dl: "unat (data_length (dec_msg h)) \<le> MAX_PAYLOAD"
      by (simp add: check_header_def)
    define q' where "q' = q\<lparr>msg := dec_msg h, data := bs @ drop (length bs) (data q)\<rparr>"
    have len: "length bs \<le> length (data q)"
      using b dl assms by (simp add: wf_packet_def)
    have pay: "payload q' = bs"
      using b(1) by (simp add: q'_def payload_def)
    have wfq: "wf_packet q'"
      using len assms by (simp add: q'_def wf_packet_def)
    have cd: "check_data q' = Inr (payload_sum bs = data_check (dec_msg h))"
      using check_data_eq [OF wfq] dl pay by (simp add: q'_def)
    have eq: "packet_read rd q k =
        Inr (Some (if payload_sum bs = data_check (dec_msg h) then Some q' else None, k2))"
      using body len cd by (simp add: packet_read_def blit_def q'_def Let_def)
    have enc: "enc_msg (dec_msg h) = h"
      using h(1,2) by (intro enc_dec_msg) simp
    have "str k = wire q' @ str k2"
      using h b(2) pay enc by (simp add: wire_def q'_def)
    moreover have "sealed q'" if "payload_sum bs = data_check (dec_msg h)"
      using that pay wfq body(2) by (simp add: sealed_def q'_def check_header_def)
    ultimately show ?thesis
      using eq by auto
  qed
qed

end

text \<open>A source also delivers the bytes whenever there are enough of them.\<close>

locale byte_source = byte_reader +
  assumes rd_enough: "n \<le> length (str k) \<Longrightarrow> \<exists>bs k'. rd n k = Some (Some bs, k')"
begin

lemma rd_append:
  assumes "str k = bs @ rest"
  shows "\<exists>k'. rd (length bs) k = Some (Some bs, k') \<and> str k' = rest"
  using rd_enough [of "length bs" k] rd_SomeD [of "length bs" k] assms by fastforce

lemma packet_read_sealed:
  assumes "sealed p" and "wf_packet q" and "str k = wire p @ rest"
  shows "\<exists>q' k'. packet_read rd q k = Inr (Some (Some q', k')) \<and> sealed q' \<and>
    same_packet q' p \<and> str k' = rest"
proof -
  from assms(1) have wf: "wf_packet p" and hd: "check_header p"
    and sum: "data_check (msg p) = payload_sum (payload p)"
    by (auto simp: sealed_def)
  from hd have dl: "unat (data_length (msg p)) \<le> MAX_PAYLOAD"
    by (simp add: check_header_def)
  have lp: "length (payload p) = unat (data_length (msg p))"
    using wf dl by (rule length_payload)
  from assms(3) have "str k = enc_msg (msg p) @ (payload p @ rest)"
    by (simp add: wire_def)
  from rd_append [OF this] obtain k1 where
    k1: "rd 24 k = Some (Some (enc_msg (msg p)), k1)" "str k1 = payload p @ rest"
    by auto
  from rd_append [OF k1(2)] lp obtain k2 where
    k2: "rd (unat (data_length (msg p))) k1 = Some (Some (payload p), k2)" "str k2 = rest"
    by auto
  define q' where "q' = q\<lparr>msg := msg p, data := payload p @ drop (length (payload p)) (data q)\<rparr>"
  have len: "length (payload p) \<le> length (data q)"
    using lp dl assms(2) by (simp add: wf_packet_def)
  have pay: "payload q' = payload p"
    using lp by (simp add: q'_def payload_def)
  have wfq: "wf_packet q'"
    using len assms(2) by (simp add: q'_def wf_packet_def)
  have seal: "sealed q'"
    using hd sum pay wfq by (simp add: sealed_def q'_def check_header_def)
  have "check_data q' = Inr True"
    using check_data_eq [OF wfq] dl pay sum by (simp add: q'_def)
  then have "packet_read rd q k = Inr (Some (Some q', k2))"
    using k1(1) k2(1) hd len
    by (simp add: packet_read_def blit_def check_header_def q'_def Let_def)
  with seal pay k2(2) show ?thesis
    by (auto simp: same_packet_def q'_def)
qed

lemma packets_read_sealed:
  assumes "list_all sealed ps" and "list_all wf_packet qs" and "length qs = length ps"
    and "str k = concat (map wire ps) @ rest"
  shows "\<exists>qs' k'. packets_read (packet_read rd) qs k = Some (qs', k') \<and>
    list_all2 same_packet qs' ps \<and> str k' = rest"
  using assms
proof (induction ps arbitrary: qs k)
  case Nil
  then show ?case by simp
next
  case (Cons p ps)
  from Cons.prems(3) obtain q qs0 where qs: "qs = q # qs0"
    by (cases qs) auto
  from Cons.prems(4) have "str k = wire p @ (concat (map wire ps) @ rest)" by simp
  with packet_read_sealed [of p q k] Cons.prems(1,2) qs obtain q' k1 where
    q': "packet_read rd q k = Inr (Some (Some q', k1))" "same_packet q' p"
      "str k1 = concat (map wire ps) @ rest"
    by auto
  with Cons.IH [of qs0 k1] Cons.prems qs obtain qs' k2 where
    "packets_read (packet_read rd) qs0 k1 = Some (qs', k2)"
    "list_all2 same_packet qs' ps" "str k2 = rest"
    by auto
  with q' qs show ?case by auto
qed

end

section \<open>The socket as a source of bytes\<close>

interpretation sock: byte_source readx stream
  using readx_enough by unfold_locales (blast dest: readx_SomeD)+

lemma local_remote_read_eq: "local_remote_read = packet_read readx"
  by (intro ext) (simp add: local_remote_read_def packet_read_def)

section \<open>The FunctionFS endpoint as a source of bytes\<close>

text \<open>A read of zero bytes does not end this stream; only an error does.\<close>

fun ustream :: "rd_answer list \<Rightarrow> byte list" where
  "ustream [] = []"
| "ustream (Chunk bs # k) = bs @ ustream k"
| "ustream (RdErr e # k) = (if e = EINTR then ustream k else [])"

lemma adb_read_Got_ustream:
  "adb_read n k = Some (Got bs, k') \<Longrightarrow> ustream k = bs @ ustream k'"
  by (induction n k rule: adb_read.induct) (auto split: if_splits)

lemma adb_read_fail_ustream: "adb_read n k = Some (Failed e, k') \<Longrightarrow> ustream k = []"
  by (induction n k rule: adb_read.induct) (auto split: if_splits)

lemma adb_read_None_ustream: "adb_read n k = None \<Longrightarrow> ustream k = []"
  by (induction n k rule: adb_read.induct) auto

lemma bulk_read_Got:
  "adb_read n k = Some (Got bs, k') \<Longrightarrow> bulk_read n k =
     (if length bs < n then
        (case bulk_read (n - length bs) k' of
           None \<Rightarrow> None | Some (r, k'') \<Rightarrow> Some (map_option ((@) bs) r, k''))
      else Some (Some bs, k'))"
  by (subst bulk_read.simps) simp

lemma bulk_read_Failed: "adb_read n k = Some (Failed e, k') \<Longrightarrow> bulk_read n k = Some (None, k')"
  using adb_read_error_progress [of n k e k'] by (subst bulk_read.simps) simp

lemma bulk_read_None: "adb_read n k = None \<Longrightarrow> bulk_read n k = None"
  by (subst bulk_read.simps) simp

lemma bulk_read_SomeD:
  "bulk_read n k = Some (Some bs, k') \<Longrightarrow>
     n \<le> length (ustream k) \<and> bs = take n (ustream k) \<and> ustream k' = drop n (ustream k)"
proof (induction n k arbitrary: bs k' rule: bulk_read.induct)
  case (1 n k)
  consider (none) "adb_read n k = None"
    | (got) cs k1 where "adb_read n k = Some (Got cs, k1)"
    | (fail) e k1 where "adb_read n k = Some (Failed e, k1)"
    by (metis not_None_eq surj_pair sysret.exhaust)
  then show ?case
  proof cases
    case got
    note st = adb_read_Got_ustream [OF got]
    have le: "length cs \<le> n" using adb_read_progress [OF got] by simp
    show ?thesis
    proof (cases "length cs < n")
      case True
      with "1.prems" bulk_read_Got [OF got] obtain ds where
        ds: "bulk_read (n - length cs) k1 = Some (Some ds, k')" "bs = cs @ ds"
        by (auto split: option.splits)
      from "1.IH"(1) [OF got refl refl True ds(1)] st le ds(2) show ?thesis by auto
    next
      case False
      with "1.prems" bulk_read_Got [OF got] st le show ?thesis by simp
    qed
  qed (use "1.prems" bulk_read_None bulk_read_Failed in auto)
qed

lemma bulk_read_enough:
  "0 < n \<Longrightarrow> n \<le> length (ustream k) \<Longrightarrow> \<exists>bs k'. bulk_read n k = Some (Some bs, k')"
proof (induction n k rule: bulk_read.induct)
  case (1 n k)
  consider (none) "adb_read n k = None"
    | (got) cs k1 where "adb_read n k = Some (Got cs, k1)"
    | (fail) e k1 where "adb_read n k = Some (Failed e, k1)"
    by (metis not_None_eq surj_pair sysret.exhaust)
  then show ?case
  proof cases
    case none
    with "1.prems" adb_read_None_ustream show ?thesis by fastforce
  next
    case got
    show ?thesis
    proof (cases "length cs < n")
      case True
      with "1.prems" adb_read_Got_ustream [OF got]
      have "0 < n - length cs" "n - length cs \<le> length (ustream k1)" by simp_all
      from "1.IH"(1) [OF got refl refl True this] obtain ds k2 where
        "bulk_read (n - length cs) k1 = Some (Some ds, k2)" by blast
      with True bulk_read_Got [OF got] show ?thesis by auto
    next
      case False
      with bulk_read_Got [OF got] show ?thesis by simp
    qed
  next
    case fail
    with "1.prems" adb_read_fail_ustream show ?thesis by fastforce
  qed
qed

lemma usb_ffs_read_SomeD:
  assumes "usb_ffs_read n k = Some (Some bs, k')"
  shows "n \<le> length (ustream k) \<and> bs = take n (ustream k) \<and> ustream k' = drop n (ustream k)"
proof (rule bulk_read_SomeD)
  show "bulk_read n k = Some (Some bs, k')"
    using assms by (auto simp: usb_ffs_read_def split: option.splits if_splits)
qed

text \<open>\<open>remote_read\<close> makes no call for an empty payload.\<close>

definition ffs_rd :: "nat \<Rightarrow> rd_answer list \<Rightarrow> (byte list option \<times> rd_answer list) option" where
  "ffs_rd n k = (if n \<noteq> 0 then usb_ffs_read n k else Some (Some [], k))"

interpretation ffs: byte_source ffs_rd ustream
proof
  fix n k bs k'
  assume "ffs_rd n k = Some (Some bs, k')"
  then show "n \<le> length (ustream k) \<and> bs = take n (ustream k) \<and> ustream k' = drop n (ustream k)"
    by (cases "n = 0") (auto simp: ffs_rd_def dest: usb_ffs_read_SomeD)
next
  fix n k
  assume n: "n \<le> length (ustream k)"
  show "\<exists>bs k'. ffs_rd n k = Some (Some bs, k')"
  proof (cases "n = 0")
    case False
    with n bulk_read_enough obtain bs k' where b: "bulk_read n k = Some (Some bs, k')" by blast
    from bulk_read_SomeD [OF b] n False b show ?thesis
      by (simp add: ffs_rd_def usb_ffs_read_def)
  qed (simp add: ffs_rd_def)
qed

text \<open>The legacy endpoint reads what the stream has, when its one call delivers it all.\<close>

definition legacy_rd :: "nat \<Rightarrow> rd_answer list \<Rightarrow> (byte list option \<times> rd_answer list) option" where
  "legacy_rd n k = (if n \<noteq> 0 then usb_adb_read n k else Some (Some [], k))"

interpretation legacy: byte_reader legacy_rd ustream
  by unfold_locales
    (auto simp: legacy_rd_def usb_adb_read_def adb_read_Got_ustream
      split: if_splits option.splits sysret.splits)

lemma usb_remote_read_Legacy_eq: "usb_remote_read Legacy = packet_read legacy_rd"
proof (intro ext)
  fix p k
  have "(if data_length m \<noteq> 0 then usb_read Legacy (unat (data_length m)) k else Some (Some [], k)) =
      legacy_rd (unat (data_length m)) k" for m :: amessage and k
    by (simp add: usb_read_def legacy_rd_def unat_eq_0)
  moreover have "usb_read Legacy 24 k = legacy_rd 24 k" for k
    by (simp add: usb_read_def legacy_rd_def)
  ultimately show "usb_remote_read Legacy p k = packet_read legacy_rd p k"
    unfolding usb_remote_read_def packet_read_def by presburger
qed

lemma usb_remote_read_Ffs_eq: "usb_remote_read Ffs = packet_read ffs_rd"
proof (intro ext)
  fix p k
  have "(if data_length m \<noteq> 0 then usb_read Ffs (unat (data_length m)) k else Some (Some [], k)) =
      ffs_rd (unat (data_length m)) k" for m :: amessage and k
    by (simp add: usb_read_def ffs_rd_def unat_eq_0)
  moreover have "usb_read Ffs 24 k = ffs_rd 24 k" for k
    by (simp add: usb_read_def ffs_rd_def)
  ultimately show "usb_remote_read Ffs p k = packet_read ffs_rd p k"
    unfolding usb_remote_read_def packet_read_def by presburger
qed

section \<open>Sending packets one after the other\<close>

fun packets_write ::
    "(apacket \<Rightarrow> wr_answer list \<Rightarrow> (byte list \<times> bool option \<times> wr_answer list) res) \<Rightarrow>
     apacket list \<Rightarrow> wr_answer list \<Rightarrow> (byte list \<times> wr_answer list) option" where
  "packets_write w [] k = Some ([], k)"
| "packets_write w (p # ps) k =
     (case w p k of
        Inr (out, Some True, k') \<Rightarrow> map_option (map_prod ((@) out) id) (packets_write w ps k')
      | _ \<Rightarrow> None)"

locale packet_writer =
  fixes wr :: "apacket \<Rightarrow> wr_answer list \<Rightarrow> (byte list \<times> bool option \<times> wr_answer list) res"
  assumes wr_wire: "wf_packet p \<Longrightarrow> check_header p \<Longrightarrow> wr p k = Inr (out, Some True, k') \<Longrightarrow>
      out = wire p"
begin

lemma packets_write_wire:
  "list_all sealed ps \<Longrightarrow> packets_write wr ps k = Some (out, k') \<Longrightarrow> out = concat (map wire ps)"
proof (induction ps arbitrary: k out)
  case (Cons p ps)
  from Cons.prems(2) obtain o1 k1 o2 where
    1: "wr p k = Inr (o1, Some True, k1)" "packets_write wr ps k1 = Some (o2, k')" "out = o1 @ o2"
    by (auto split: sum.splits option.splits bool.splits)
  with Cons.prems(1) wr_wire [OF _ _ 1(1)] Cons.IH [OF _ 1(2)] show ?case
    by (simp add: sealed_def)
qed simp

end

lemma bulk_write_complete: "bulk_write bs k = (out, Some True, k') \<Longrightarrow> out = bs"
proof (induction bs k arbitrary: out k' rule: bulk_write.induct)
  case (1 bs k)
  consider (none) "adb_write bs k = None"
    | (got) n k1 where "adb_write bs k = Some (Got n, k1)"
    | (fail) e k1 where "adb_write bs k = Some (Failed e, k1)"
    by (metis not_None_eq surj_pair sysret.exhaust)
  then show ?case
  proof cases
    case got
    show ?thesis
    proof (cases "n < length bs")
      case True
      obtain o1 r1 k2 where w: "bulk_write (drop n bs) k1 = (o1, r1, k2)"
        by (cases "bulk_write (drop n bs) k1")
      with "1.prems" got True have "r1 = Some True" "out = take n bs @ o1"
        by (simp_all add: bulk_write.simps [of bs k])
      with "1.IH"(1) [OF got refl refl True] w show ?thesis by simp
    next
      case False
      with "1.prems" got show ?thesis by (simp add: bulk_write.simps [of bs k])
    qed
  next
    case fail
    with "1.prems" adb_write_progress [OF fail] show ?thesis
      by (simp add: bulk_write.simps [of bs k])
  next
    case none
    with "1.prems" show ?thesis by (simp add: bulk_write.simps [of bs k])
  qed
qed

lemma usb_write_complete: "usb_write u bs k = (out, Some True, k') \<Longrightarrow> out = bs"
  by (cases u)
    (auto simp: usb_write_def usb_ffs_write_def usb_adb_write_def
      split: prod.splits option.splits bool.splits sysret.splits dest: bulk_write_complete)

interpretation sockw: packet_writer local_remote_write
  by unfold_locales
    (auto simp: local_remote_write_def wire_def split: if_splits dest: writex_complete)

lemma usb_remote_write_wire:
  assumes "usb_remote_write u p k = Inr (out, Some True, k')"
  shows "out = wire p"
proof -
  from assms obtain o1 k1 where u1: "usb_write u (enc_msg (msg p)) k = (o1, Some True, k1)"
    by (auto simp: usb_remote_write_def split: prod.splits option.splits bool.splits)
  with assms usb_write_complete [OF u1] show ?thesis
    by (auto simp: usb_remote_write_def wire_def payload_def split: if_splits prod.splits
        dest: usb_write_complete)
qed

interpretation usbw: packet_writer "usb_remote_write u" for u
  by unfold_locales (rule usb_remote_write_wire)

section \<open>Properties\<close>

text \<open>
  C11: what the sender puts on a socket with \<open>remote_write\<close>, the receiver gets with
  \<open>remote_read\<close>: for every list of sealed packets, however the kernel splits the writes,
  cuts the stream into chunks or interrupts the calls, the packets arrive in order with the
  same header and payload, and the bytes behind them stay in the stream.
\<close>

theorem local_link_roundtrip:
  assumes "list_all sealed ps"
    and "packets_write local_remote_write ps w = Some (out, w')"
    and "list_all wf_packet qs" and "length qs = length ps"
    and "stream k = out @ rest"
  shows "\<exists>qs' k'. packets_read local_remote_read qs k = Some (qs', k') \<and>
    list_all2 same_packet qs' ps \<and> stream k' = rest"
  using assms sock.packets_read_sealed [of ps qs k rest] sockw.packets_write_wire [of ps w out w']
  by (simp add: local_remote_read_eq)

definition demo_packet :: apacket where
  "demo_packet = \<lparr>pkt_len = 0, pkt_ptr = 0,
     msg = \<lparr>command = A_WRTE, arg0 = 1, arg1 = 2, data_length = 3, data_check = 6,
       magic = A_WRTE XOR 0xffffffff\<rparr>,
     data = [1, 2, 3] @ replicate 4093 0\<rparr>"

lemma demo_packet_facts:
  "wf_packet demo_packet" "sealed demo_packet" "length (wire demo_packet) = 27"
  "payload demo_packet = [1, 2, 3]" "wf_packet (get_apacket (replicate 4096 7))"
  "unat (data_length (msg demo_packet)) = 3" "data_length (msg demo_packet) \<noteq> 0"
  "length (data demo_packet) = 4096"
  by (simp_all add: demo_packet_def wf_packet_def sealed_def check_header_def payload_def
      MAX_PAYLOAD_def payload_sum_def wire_def get_apacket_def)

lemma local_link_roundtrip_witness:
  "\<exists>qs' k'. packets_read local_remote_read [get_apacket (replicate 4096 7)]
      [Chunk (take 10 (wire demo_packet)), RdErr EINTR, Chunk (drop 10 (wire demo_packet) @ [9])] =
      Some (qs', k') \<and> list_all2 same_packet qs' [demo_packet] \<and> stream k' = [9]"
proof (rule local_link_roundtrip)
  show "packets_write local_remote_write [demo_packet] [Room 64] = Some (wire demo_packet, [])"
    using demo_packet_facts
    by (simp add: local_remote_write_def writex_Room wire_def writex.simps [of "[]"])
  show "stream [Chunk (take 10 (wire demo_packet)), RdErr EINTR,
      Chunk (drop 10 (wire demo_packet) @ [9])] = wire demo_packet @ [9]"
    using demo_packet_facts(3) by auto
qed (simp_all add: demo_packet_facts)

text \<open>
  C12: the same round trip over the FunctionFS endpoints, where a transfer of zero bytes does
  not end the stream.
\<close>

theorem ffs_link_roundtrip:
  assumes "list_all sealed ps"
    and "packets_write (usb_remote_write Ffs) ps w = Some (out, w')"
    and "list_all wf_packet qs" and "length qs = length ps"
    and "ustream k = out @ rest"
  shows "\<exists>qs' k'. packets_read (usb_remote_read Ffs) qs k = Some (qs', k') \<and>
    list_all2 same_packet qs' ps \<and> ustream k' = rest"
  using assms ffs.packets_read_sealed [of ps qs k rest] usbw.packets_write_wire [of ps Ffs w out w']
  by (simp add: usb_remote_read_Ffs_eq)

lemma ffs_link_roundtrip_witness:
  "\<exists>qs' k'. packets_read (usb_remote_read Ffs) [get_apacket (replicate 4096 7)]
      [Chunk (take 10 (wire demo_packet)), Chunk [], Chunk (drop 10 (wire demo_packet))] =
      Some (qs', k') \<and> list_all2 same_packet qs' [demo_packet] \<and> ustream k' = []"
proof (rule ffs_link_roundtrip)
  show "packets_write (usb_remote_write Ffs) [demo_packet] [Room 64, Room 64] =
      Some (wire demo_packet, [])"
    using demo_packet_facts(4,6,7,8)
    by (simp add: usb_remote_write_def usb_write_def usb_ffs_write_def wire_def
        bulk_write.simps [of "enc_msg m" for m] bulk_write.simps [of "[1, 2, 3]"])
  show "ustream [Chunk (take 10 (wire demo_packet)), Chunk [],
      Chunk (drop 10 (wire demo_packet))] = wire demo_packet @ []"
    by simp
qed (simp_all add: demo_packet_facts)

text \<open>
  C31: \<open>remote_read\<close> of the socket transport is safe on any input. Whatever the peer sends and
  however the calls end, no byte is read or stored outside the packet, and a packet that is
  accepted is sealed (magic word, length bound and checksum are right) and is what the
  stream carried.
\<close>

theorem local_remote_read_safe:
  assumes "wf_packet q"
  shows "\<exists>r. local_remote_read q k = Inr r \<and>
    (\<forall>q' k'. r = Some (Some q', k') \<longrightarrow> sealed q' \<and> stream k = wire q' @ stream k')"
  unfolding local_remote_read_eq by (rule sock.packet_read_safe [OF assms])

lemma local_remote_read_safe_witness:
  "\<exists>r. local_remote_read (get_apacket (replicate 4096 7)) [Chunk (replicate 4120 255)] = Inr r \<and>
    (\<forall>q' k'. r = Some (Some q', k') \<longrightarrow> sealed q' \<and>
       stream [Chunk (replicate 4120 255)] = wire q' @ stream k')"
  by (rule local_remote_read_safe) (rule demo_packet_facts)

text \<open>
  The same safety over USB, for the FunctionFS and for the legacy implementation of the
  endpoint.
\<close>

theorem usb_remote_read_safe:
  assumes "wf_packet q"
  shows "\<exists>r. usb_remote_read u q k = Inr r \<and>
    (\<forall>q' k'. r = Some (Some q', k') \<longrightarrow> sealed q' \<and> ustream k = wire q' @ ustream k')"
proof (cases u)
  case Ffs
  then show ?thesis
    using ffs.packet_read_safe [OF assms] by (simp add: usb_remote_read_Ffs_eq)
next
  case Legacy
  then show ?thesis
    using legacy.packet_read_safe [OF assms] by (simp add: usb_remote_read_Legacy_eq)
qed

lemma usb_remote_read_safe_witness:
  "\<exists>r. usb_remote_read Legacy (get_apacket (replicate 4096 7)) [Chunk (wire demo_packet)] = Inr r \<and>
    (\<forall>q' k'. r = Some (Some q', k') \<longrightarrow> sealed q' \<and>
       ustream [Chunk (wire demo_packet)] = wire q' @ ustream k')"
  by (rule usb_remote_read_safe) (rule demo_packet_facts)

text \<open>
  Addresses cross the socket pair between the main thread and an I/O thread intact. A
  writer that reports success has put exactly the four bytes of each address on the pipe, so
  the reader that finds the bytes of two packets gets the two addresses in order.
\<close>

theorem packet_pipe_roundtrip:
  assumes "write_packet a w = (out1, Some True, w1)" and "write_packet b w1 = (out2, Some True, w2)"
    and "stream k = out1 @ out2 @ rest"
  shows "\<exists>k1 k2. read_packet k = Some (Some a, k1) \<and> read_packet k1 = Some (Some b, k2) \<and>
    stream k2 = rest"
proof -
  from assms(1,2) have o: "out1 = le32 a" "out2 = le32 b"
    by (auto simp: write_packet_def dest: writex_complete)
  with assms(3) sock.rd_append [of k "le32 a"] obtain k1 where
    "readx 4 k = Some (Some (le32 a), k1)" "stream k1 = le32 b @ rest" by auto
  moreover from this(2) sock.rd_append [of k1 "le32 b"] obtain k2 where
    "readx 4 k1 = Some (Some (le32 b), k2)" "stream k2 = rest" by auto
  ultimately show ?thesis
    by (simp add: read_packet_def)
qed

lemma packet_pipe_roundtrip_witness:
  "\<exists>k1 k2. read_packet [Chunk [0, 16, 0], RdErr EINTR, Chunk [32, 8, 16, 0, 32]] = Some (Some 0x20001000, k1) \<and>
     read_packet k1 = Some (Some 0x20001008, k2) \<and> stream k2 = []"
proof (rule packet_pipe_roundtrip)
  show "write_packet 0x20001000 [Room 4, Room 3, Room 1] = ([0, 16, 0, 32], Some True, [Room 3, Room 1])"
    by (simp add: write_packet_def le32_def writex.simps [of "_ # _"] writex.simps [of "[]"])
  show "write_packet 0x20001008 [Room 3, Room 1] = ([8, 16, 0, 32], Some True, [])"
    by (simp add: write_packet_def le32_def writex.simps [of "_ # _"] writex.simps [of "[]"])
qed simp

end
