(* ===== verification/Usb_Client.thy ===== *)
theory Usb_Client
  imports Link
begin

text \<open>
  Opening and closing the USB endpoints (\<open>src/usb_linux_client.c\<close>): the three FunctionFS
  descriptors or the one of the older driver, the thread that opens them again whenever
  they have been closed, and \<open>usb_kick\<close>. A step relation interleaves that thread with the kicks of
  the transports. The descriptor tables that are written to the control endpoint are byte
  lists.
\<close>

section \<open>Descriptor tables\<close>

definition le32n :: "nat \<Rightarrow> byte list" where "le32n n = le32 (of_nat n)"

definition MAX_PACKET_SIZE_FS :: nat where "MAX_PACKET_SIZE_FS = 64"
definition MAX_PACKET_SIZE_HS :: nat where "MAX_PACKET_SIZE_HS = 512"

text \<open>
  \<open>struct usb_interface_descriptor\<close> and \<open>struct usb_endpoint_descriptor_no_audio\<close>, packed; the
  fields that the initialisers leave out are 0.
\<close>

definition intf_desc :: "byte list" where
  "intf_desc = [9, 4, 0, 0, 2, 0xff, 0x42, 1, 1]"

definition ep_desc :: "byte \<Rightarrow> nat \<Rightarrow> byte list" where
  "ep_desc address maxp = [7, 5, address, 2] @ le16 maxp @ [0]"

definition speed_descs :: "nat \<Rightarrow> byte list" where
  "speed_descs maxp = intf_desc @ ep_desc 1 maxp @ ep_desc (2 OR 0x80) maxp"

definition descriptors :: "byte list" where
  "descriptors =
     (let fs = speed_descs MAX_PACKET_SIZE_FS; hs = speed_descs MAX_PACKET_SIZE_HS in
      le32n 1 @ le32n (16 + length fs + length hs) @ le32n 3 @ le32n 3 @ fs @ hs)"

definition STR_INTERFACE :: string where "STR_INTERFACE = ''ADB Interface''"

definition strings :: "byte list" where
  "strings =
     (let lang0 = le16 0x0409 @ bytes_of_str STR_INTERFACE @ [0] in
      le32n 2 @ le32n (16 + length lang0) @ le32n 1 @ le32n 1 @ lang0)"

section \<open>The handle\<close>

text \<open>\<open>struct usb_handle\<close>; the three function pointers are those of \<open>impl\<close>.\<close>

record usb_handle =
  impl :: usb_impl
  legacy_fd :: int
  control :: int
  bulk_out :: int
  bulk_in :: int

text \<open>
  Where the open thread is: waiting for the handle to be closed, trying to open it, or about to
  register a transport.
\<close>

datatype uphase = UWait | UOpening | URegister

text \<open>
  The handle with the descriptors of USB endpoints that are open, the closed numbers that were not among them,
  what was written to the control endpoint, the threads' position, and the
  number of registered transports that have not been kicked.
\<close>

record usbst =
  handle :: usb_handle
  open_fds :: "int list"
  stray :: "int list"
  ctl_out :: "byte list list"
  phase :: uphase
  live :: nat

definition uset :: "(usb_handle \<Rightarrow> usb_handle) \<Rightarrow> usbst \<Rightarrow> usbst" where
  "uset f s = s\<lparr>handle := f (handle s)\<rparr>"

text \<open>\<open>open\<close> returned \<open>fd\<close>.\<close>

definition uopen :: "int \<Rightarrow> usbst \<Rightarrow> usbst" where
  "uopen fd s = (if fd < 0 then s else s\<lparr>open_fds := fd # open_fds s\<rparr>)"

definition uclose :: "int \<Rightarrow> usbst \<Rightarrow> usbst" where
  "uclose fd s =
     (if fd \<in> set (open_fds s) then s\<lparr>open_fds := remove1 fd (open_fds s)\<rparr> else s\<lparr>stray := fd # stray s\<rparr>)"

section \<open>FunctionFS\<close>

text \<open>What the system calls of \<open>init_functionfs\<close> answer.\<close>

record ffs_answers =
  open_ep0 :: int
  descs_ok :: bool
  strings_ok :: bool
  open_out :: int
  open_in :: int

definition ffs_err :: "usbst \<Rightarrow> usbst" where
  "ffs_err s =
     (let s = (if bulk_in (handle s) > 0 then uset (\<lambda>h. h\<lparr>bulk_in := -1\<rparr>) (uclose (bulk_in (handle s)) s) else s);
          s = (if bulk_out (handle s) > 0 then uset (\<lambda>h. h\<lparr>bulk_out := -1\<rparr>) (uclose (bulk_out (handle s)) s) else s) in
      if control (handle s) > 0 then uset (\<lambda>h. h\<lparr>control := -1\<rparr>) (uclose (control (handle s)) s) else s)"

definition init_functionfs :: "ffs_answers \<Rightarrow> usbst \<Rightarrow> usbst" where
  "init_functionfs ans s =
     (let s = uset (\<lambda>h. h\<lparr>control := open_ep0 ans\<rparr>) (uopen (open_ep0 ans) s) in
      if control (handle s) < 0 then ffs_err s
      else if \<not> descs_ok ans then ffs_err s
      else
        let s = s\<lparr>ctl_out := ctl_out s @ [descriptors]\<rparr> in
        if \<not> strings_ok ans then ffs_err s
        else
          let s = s\<lparr>ctl_out := ctl_out s @ [strings]\<rparr>;
              s = uset (\<lambda>h. h\<lparr>bulk_out := open_out ans\<rparr>) (uopen (open_out ans) s) in
          if bulk_out (handle s) < 0 then ffs_err s
          else
            let s = uset (\<lambda>h. h\<lparr>bulk_in := open_in ans\<rparr>) (uopen (open_in ans) s) in
            if bulk_in (handle s) < 0 then ffs_err s else s)"

definition usb_ffs_kick :: "usbst \<Rightarrow> usbst" where
  "usb_ffs_kick s =
     (let h = handle s;
          s = uclose (bulk_in h) (uclose (bulk_out h) (uclose (control h) s)) in
      uset (\<lambda>h. h\<lparr>control := -1, bulk_out := -1, bulk_in := -1\<rparr>) s)"

definition usb_ffs_init :: "usb_handle" where
  "usb_ffs_init = \<lparr>impl = Ffs, legacy_fd = 0, control = -1, bulk_out = -1, bulk_in = 0\<rparr>"

section \<open>The older driver\<close>

definition usb_adb_kick :: "usbst \<Rightarrow> usbst" where
  "usb_adb_kick s = uset (\<lambda>h. h\<lparr>legacy_fd := -1\<rparr>) (uclose (legacy_fd (handle s)) s)"

definition usb_adb_init :: "usb_handle" where
  "usb_adb_init = \<lparr>impl = Legacy, legacy_fd = -1, control = 0, bulk_out = 0, bulk_in = 0\<rparr>"

definition usb_init :: "bool \<Rightarrow> usb_handle" where
  "usb_init ffs_exists = (if ffs_exists then usb_ffs_init else usb_adb_init)"

definition usb_kick :: "usbst \<Rightarrow> usbst" where
  "usb_kick s = (case impl (handle s) of Ffs \<Rightarrow> usb_ffs_kick s | Legacy \<Rightarrow> usb_adb_kick s)"

section \<open>The open thread\<close>

text \<open>The condition on which the thread waits.\<close>

definition needs_opening :: "usb_handle \<Rightarrow> bool" where
  "needs_opening h = (case impl h of Ffs \<Rightarrow> control h = -1 | Legacy \<Rightarrow> legacy_fd h = -1)"

text \<open>One round of the inner loop of \<open>usb_ffs_open_thread\<close>.\<close>

definition ffs_round :: "ffs_answers \<Rightarrow> usbst \<Rightarrow> usbst" where
  "ffs_round ans s =
     (let s = init_functionfs ans s in
      if control (handle s) \<ge> 0 then s\<lparr>phase := URegister\<rparr> else s)"

text \<open>One round of the inner loop of \<open>usb_adb_open_thread\<close>, with the answers for both device names.\<close>

definition adb_round :: "int \<Rightarrow> int \<Rightarrow> usbst \<Rightarrow> usbst" where
  "adb_round fd1 fd2 s =
     (let fd = (if fd1 < 0 then fd2 else fd1) in
      if fd < 0 then s else (uset (\<lambda>h. h\<lparr>legacy_fd := fd\<rparr>) (uopen fd s))\<lparr>phase := URegister\<rparr>)"

text \<open>The kernel returns -1, or a number that is not in use; \<open>used\<close> are the other descriptors of the process.\<close>

definition fresh_fd :: "int set \<Rightarrow> usbst \<Rightarrow> int \<Rightarrow> bool" where
  "fresh_fd used s fd \<longleftrightarrow> fd = -1 \<or> 0 \<le> fd \<and> fd \<notin> used \<and> fd \<notin> set (open_fds s)"

definition fresh_ffs :: "int set \<Rightarrow> usbst \<Rightarrow> ffs_answers \<Rightarrow> bool" where
  "fresh_ffs used s ans \<longleftrightarrow> fresh_fd used s (open_ep0 ans) \<and> fresh_fd used s (open_out ans) \<and> fresh_fd used s (open_in ans) \<and>
     (open_out ans = -1 \<or> open_out ans \<noteq> open_ep0 ans) \<and>
     (open_in ans = -1 \<or> open_in ans \<noteq> open_ep0 ans \<and> open_in ans \<noteq> open_out ans)"

inductive usb_step :: "int set \<Rightarrow> usbst \<Rightarrow> usbst \<Rightarrow> bool" for used where
  wake: "phase s = UWait \<Longrightarrow> needs_opening (handle s) \<Longrightarrow> usb_step used s (s\<lparr>phase := UOpening\<rparr>)"
| ffs: "phase s = UOpening \<Longrightarrow> impl (handle s) = Ffs \<Longrightarrow> fresh_ffs used s ans \<Longrightarrow> usb_step used s (ffs_round ans s)"
| adb: "phase s = UOpening \<Longrightarrow> impl (handle s) = Legacy \<Longrightarrow> fresh_fd used s fd1 \<Longrightarrow> fresh_fd used s fd2 \<Longrightarrow>
    usb_step used s (adb_round fd1 fd2 s)"
| register: "phase s = URegister \<Longrightarrow> usb_step used s (s\<lparr>phase := UWait, live := live s + 1\<rparr>)"
| kick: "live s > 0 \<Longrightarrow> usb_step used s ((usb_kick s)\<lparr>live := live s - 1\<rparr>)"

definition usb_start :: "bool \<Rightarrow> usbst" where
  "usb_start ffs_exists = \<lparr>handle = usb_init ffs_exists, open_fds = [], stray = [], ctl_out = [], phase = UWait, live = 0\<rparr>"

inductive_cases usb_stepE: "usb_step used s s'"

section \<open>The invariant\<close>

definition endpoints :: "usb_handle \<Rightarrow> int list" where
  "endpoints h = (case impl h of Ffs \<Rightarrow> [bulk_in h, bulk_out h, control h] | Legacy \<Rightarrow> [legacy_fd h])"

definition closed :: "usbst \<Rightarrow> bool" where
  "closed s \<longleftrightarrow> open_fds s = [] \<and>
     (case impl (handle s) of
        Ffs \<Rightarrow> control (handle s) = -1 \<and> bulk_out (handle s) = -1 \<and> bulk_in (handle s) \<le> 0
      | Legacy \<Rightarrow> legacy_fd (handle s) = -1)"

definition opened :: "usbst \<Rightarrow> bool" where
  "opened s \<longleftrightarrow> open_fds s = endpoints (handle s) \<and> distinct (endpoints (handle s)) \<and> (\<forall>fd \<in> set (endpoints (handle s)). 0 < fd)"

definition uinv :: "usbst \<Rightarrow> bool" where
  "uinv s \<longleftrightarrow> stray s = [] \<and>
     (case phase s of
        UWait \<Rightarrow> live s = 0 \<and> closed s \<or> live s = 1 \<and> opened s
      | UOpening \<Rightarrow> live s = 0 \<and> closed s
      | URegister \<Rightarrow> live s = 0 \<and> opened s)"

lemma open_closed_frame [simp]:
  "closed (s\<lparr>phase := p\<rparr>) = closed s" "closed (s\<lparr>live := n\<rparr>) = closed s"
  "opened (s\<lparr>phase := p\<rparr>) = opened s" "opened (s\<lparr>live := n\<rparr>) = opened s"
  by (simp_all add: closed_def opened_def split: usb_impl.split)

lemma uinv_start: "uinv (usb_start b)"
  by (simp add: uinv_def usb_start_def usb_init_def usb_ffs_init_def usb_adb_init_def closed_def)

lemmas usb_simps = uset_def uopen_def uclose_def endpoints_def closed_def opened_def

lemma needs_opening_closed: "opened s \<Longrightarrow> \<not> needs_opening (handle s)"
  by (auto simp: usb_simps needs_opening_def split: usb_impl.splits)

lemma usb_kick_closes: "opened s \<Longrightarrow> closed (usb_kick s) \<and> stray (usb_kick s) = stray s \<and> phase (usb_kick s) = phase s"
  by (cases "impl (handle s)") (simp_all add: usb_kick_def usb_ffs_kick_def usb_adb_kick_def Let_def usb_simps)

text \<open>
  Opening either succeeds with all three endpoints or leaves nothing open.
\<close>

lemma init_functionfs_all_or_nothing:
  assumes "closed s" and "impl (handle s) = Ffs" and "fresh_ffs used s ans" and "0 \<in> used"
  shows "impl (handle (init_functionfs ans s)) = Ffs \<and> stray (init_functionfs ans s) = stray s \<and>
    phase (init_functionfs ans s) = phase s \<and> live (init_functionfs ans s) = live s \<and>
    (if control (handle (init_functionfs ans s)) \<ge> 0 then opened (init_functionfs ans s) else closed (init_functionfs ans s))"
proof -
  note simps = init_functionfs_def ffs_err_def usb_simps Let_def
  have f: "open_ep0 ans = -1 \<or> 0 < open_ep0 ans" "open_out ans = -1 \<or> 0 < open_out ans" "open_in ans = -1 \<or> 0 < open_in ans"
    using assms(3,4) by (auto simp: fresh_ffs_def fresh_fd_def order_less_le)
  consider "open_ep0 ans = -1" | "0 < open_ep0 ans" "\<not> descs_ok ans \<or> \<not> strings_ok ans"
    | "0 < open_ep0 ans" "descs_ok ans" "strings_ok ans" "open_out ans = -1"
    | "0 < open_ep0 ans" "descs_ok ans" "strings_ok ans" "0 < open_out ans" "open_in ans = -1"
    | "0 < open_ep0 ans" "descs_ok ans" "strings_ok ans" "0 < open_out ans" "0 < open_in ans"
    using f by blast
  then show ?thesis
  proof cases
    case 1
    with assms(1,2) show ?thesis by (simp add: simps)
  next
    case 2
    with assms(1,2) show ?thesis by (auto simp: simps)
  next
    case 3
    with assms(1,2) show ?thesis by (simp add: simps)
  next
    case 4
    with assms(1-3) show ?thesis by (auto simp: simps fresh_ffs_def)
  next
    case 5
    with assms(1-3) show ?thesis by (auto simp: simps fresh_ffs_def)
  qed
qed

lemma uinv_step: "usb_step used s s' \<Longrightarrow> 0 \<in> used \<Longrightarrow> uinv s \<Longrightarrow> uinv s'"
proof (induction rule: usb_step.induct)
  case (wake s)
  then show ?case using needs_opening_closed [of s] by (auto simp: uinv_def)
next
  case (ffs s ans)
  then have "closed s" "live s = 0" "stray s = []" by (simp_all add: uinv_def)
  with init_functionfs_all_or_nothing [of s used ans] ffs show ?case
    by (auto simp: ffs_round_def Let_def uinv_def split: if_splits)
next
  case (adb s fd1 fd2)
  then show ?case
    by (auto simp: adb_round_def Let_def uinv_def usb_simps fresh_fd_def order_less_le)
next
  case (register s)
  then show ?case by (simp add: uinv_def)
next
  case (kick s)
  then have "phase s = UWait" "live s = 1" "opened s" "stray s = []"
    by (auto simp: uinv_def split: uphase.splits)
  with usb_kick_closes [of s] show ?case by (simp add: uinv_def)
qed

lemma uinv_reachable: "(usb_step used)\<^sup>*\<^sup>* (usb_start b) s \<Longrightarrow> 0 \<in> used \<Longrightarrow> uinv s"
  by (induction rule: rtranclp_induct) (auto intro: uinv_start uinv_step)

text \<open>
  C39: In a process whose descriptor 0 is in use, however the open thread and the kicks of the transports interleave and
  whichever system calls fail, no descriptor of a USB endpoint is leaked or closed twice, at most one transport is alive, and it has
  all its endpoints open. (Without descriptor 0 in use this fails, see \<open>usb_descriptor_zero\<close>.)
\<close>

theorem usb_endpoints_safe:
  assumes "(usb_step used)\<^sup>*\<^sup>* (usb_start b) s" and "0 \<in> used"
  shows "stray s = [] \<and> live s \<le> 1 \<and> distinct (open_fds s) \<and>
    set (open_fds s) = (if live s = 1 \<or> phase s = URegister then set (endpoints (handle s)) else {}) \<and>
    (live s = 1 \<longrightarrow> (\<forall>fd \<in> set (endpoints (handle s)). 0 < fd))"
  using uinv_reachable [OF assms] by (auto simp: uinv_def opened_def closed_def split: uphase.splits)

text \<open>
  A run: the endpoints are opened at the second attempt, after the input endpoint failed at the first; a transport is
  registered and kicked.
\<close>

definition ans_ok :: "ffs_answers" where
  "ans_ok = \<lparr>open_ep0 = 3, descs_ok = True, strings_ok = True, open_out = 4, open_in = 5\<rparr>"

definition ans_half :: "ffs_answers" where
  "ans_half = ans_ok\<lparr>open_in := -1\<rparr>"

definition usb_after :: "ffs_answers list \<Rightarrow> usbst" where
  "usb_after as = fold ffs_round as ((usb_start True)\<lparr>phase := UOpening\<rparr>)"

lemma usb_demo:
  "impl (handle (usb_after [ans_half])) = Ffs" "phase (usb_after [ans_half]) = UOpening" "open_fds (usb_after [ans_half]) = []"
  "phase (usb_after [ans_half, ans_ok]) = URegister" "open_fds (usb_after [ans_half, ans_ok]) = [5, 4, 3]"
  "live (usb_after [ans_half, ans_ok]) = 0"
  by (simp_all add: usb_after_def usb_start_def usb_init_def usb_ffs_init_def ffs_round_def init_functionfs_def ffs_err_def
      ans_half_def ans_ok_def usb_simps Let_def)

lemma usb_demo_run:
  "(usb_step {0, 1, 2})\<^sup>*\<^sup>* (usb_start True) ((usb_after [ans_half, ans_ok])\<lparr>phase := UWait, live := 1\<rparr>)"
proof -
  let ?S = "usb_step {0, 1, 2}" and ?s1 = "usb_after []" and ?s2 = "usb_after [ans_half]" and ?s3 = "usb_after [ans_half, ans_ok]"
  have "?S (usb_start True) ?s1"
    unfolding usb_after_def fold.simps id_apply
    by (rule usb_step.wake) (simp_all add: usb_start_def usb_init_def usb_ffs_init_def needs_opening_def)
  moreover have "?S ?s1 (ffs_round ans_half ?s1)"
    by (rule usb_step.ffs) (simp_all add: usb_after_def usb_start_def usb_init_def usb_ffs_init_def fresh_ffs_def fresh_fd_def
        ans_half_def ans_ok_def)
  moreover have "?S ?s2 (ffs_round ans_ok ?s2)"
    by (rule usb_step.ffs) (simp_all add: usb_demo fresh_ffs_def fresh_fd_def ans_ok_def)
  moreover have "?S ?s3 (?s3\<lparr>phase := UWait, live := live ?s3 + 1\<rparr>)" by (rule usb_step.register) (simp add: usb_demo)
  moreover have "ffs_round ans_half ?s1 = ?s2" "ffs_round ans_ok ?s2 = ?s3" by (simp_all add: usb_after_def)
  ultimately show ?thesis
    by (metis usb_demo(6) add_0 rtranclp.rtrancl_into_rtrancl rtranclp.rtrancl_refl)
qed

theorem usb_endpoints_safe_witness:
  "\<exists>s. (usb_step {0, 1, 2})\<^sup>*\<^sup>* (usb_start True) s \<and> stray s = [] \<and> live s = 1 \<and> set (open_fds s) = set (endpoints (handle s)) \<and>
     open_fds s = [5, 4, 3]"
  using usb_endpoints_safe [OF usb_demo_run] usb_demo_run
  by (intro exI [of _ "(usb_after [ans_half, ans_ok])\<lparr>phase := UWait, live := 1\<rparr>"]) (simp add: usb_demo(5))

text \<open>
  In a process that was started without standard input the first endpoint can get the number 0, which the cleanup takes for
  one that is not open: when the next endpoint cannot be opened, it stays open, and the thread registers a
  transport without its bulk endpoints.
\<close>

theorem usb_descriptor_zero:
  assumes "0 \<notin> used"
  shows "\<exists>s. (usb_step used)\<^sup>*\<^sup>* (usb_start True) s \<and> live s = 1 \<and> open_fds s = [0] \<and> bulk_out (handle s) = -1"
proof -
  define ans where "ans = \<lparr>open_ep0 = 0, descs_ok = True, strings_ok = True, open_out = -1, open_in = -1\<rparr>"
  let ?S = "usb_step used" and ?s1 = "(usb_start True)\<lparr>phase := UOpening\<rparr>"
  have s1: "?S (usb_start True) ?s1"
    by (rule usb_step.wake) (simp_all add: usb_start_def usb_init_def usb_ffs_init_def needs_opening_def)
  have s2: "?S ?s1 (ffs_round ans ?s1)"
    by (rule usb_step.ffs) (use assms in \<open>simp_all add: usb_start_def usb_init_def usb_ffs_init_def fresh_ffs_def fresh_fd_def ans_def\<close>)
  have f: "phase (ffs_round ans ?s1) = URegister" "live (ffs_round ans ?s1) = 0" "open_fds (ffs_round ans ?s1) = [0]"
      "bulk_out (handle (ffs_round ans ?s1)) = -1"
    by (simp_all add: usb_start_def usb_init_def usb_ffs_init_def ffs_round_def init_functionfs_def ffs_err_def ans_def usb_simps Let_def)
  let ?s3 = "(ffs_round ans ?s1)\<lparr>phase := UWait, live := live (ffs_round ans ?s1) + 1\<rparr>"
  have "?S (ffs_round ans ?s1) ?s3" by (rule usb_step.register [OF f(1)])
  with s1 s2 have "?S\<^sup>*\<^sup>* (usb_start True) ?s3" by (meson rtranclp.rtrancl_into_rtrancl rtranclp.rtrancl_refl)
  with f show ?thesis by (intro exI [of _ ?s3]) simp
qed

theorem usb_descriptor_zero_witness:
  "\<exists>s. (usb_step {1, 2})\<^sup>*\<^sup>* (usb_start True) s \<and> live s = 1 \<and> open_fds s = [0] \<and> bulk_out (handle s) = -1"
  by (rule usb_descriptor_zero) simp

text \<open>The way back to a working transport.\<close>

lemma new_numbers:
  assumes "finite (used :: int set)"
  obtains a where "0 < a" "a \<notin> used" "a + 1 \<notin> used" "a + 2 \<notin> used"
proof -
  let ?m = "Max (insert 0 used)"
  have le: "x \<le> ?m" if "x \<in> used" for x using assms that by simp
  have m: "0 \<le> ?m" using assms by simp
  show thesis
  proof (rule that [of "?m + 1"])
    show "0 < ?m + 1" using m by simp
    show "?m + 1 \<notin> used" using le [of "?m + 1"] by linarith
    show "?m + 1 + 1 \<notin> used" using le [of "?m + 1 + 1"] by linarith
    show "?m + 1 + 2 \<notin> used" using le [of "?m + 1 + 2"] by linarith
  qed
qed

lemma closed_reopens:
  assumes "closed s" and "phase s = UOpening" and "live s = 0" and "finite used" and z: "0 \<in> used"
  shows "\<exists>s'. (usb_step used)\<^sup>*\<^sup>* s s' \<and> live s' = 1"
proof -
  obtain a where a: "0 < a" "a \<notin> used" "a + 1 \<notin> used" "a + 2 \<notin> used" by (rule new_numbers [OF assms(4)])
  have "\<exists>s1. usb_step used s s1 \<and> phase s1 = URegister \<and> live s1 = 0"
  proof (cases "impl (handle s)")
    case Ffs
    define ans where "ans = \<lparr>open_ep0 = a, descs_ok = True, strings_ok = True, open_out = a + 1, open_in = a + 2\<rparr>"
    have fr: "fresh_ffs used s ans" using assms(1) a by (simp add: fresh_ffs_def fresh_fd_def ans_def closed_def)
    have "control (handle (init_functionfs ans s)) = a"
      using a(1) by (simp add: init_functionfs_def ans_def usb_simps Let_def)
    with init_functionfs_all_or_nothing [OF assms(1) Ffs fr z] usb_step.ffs [OF assms(2) Ffs fr] assms(3) a(1)
    show ?thesis by (auto simp: ffs_round_def Let_def)
  next
    case Legacy
    have "fresh_fd used s a" using assms(1) a by (simp add: fresh_fd_def closed_def)
    from usb_step.adb [OF assms(2) Legacy this this] assms(3) a(1) show ?thesis
      by (auto simp: adb_round_def Let_def usb_simps)
  qed
  then obtain s1 where s1: "usb_step used s s1" "phase s1 = URegister" "live s1 = 0" by blast
  have "usb_step used s1 (s1\<lparr>phase := UWait, live := live s1 + 1\<rparr>)" by (rule usb_step.register [OF s1(2)])
  with s1(1) have "(usb_step used)\<^sup>*\<^sup>* s (s1\<lparr>phase := UWait, live := live s1 + 1\<rparr>)"
    by (meson converse_rtranclp_into_rtranclp r_into_rtranclp)
  then show ?thesis using s1(3) by (intro exI [of _ "s1\<lparr>phase := UWait, live := live s1 + 1\<rparr>"]) simp
qed

text \<open>
  From every reachable state the daemon can get back to a transport over USB with all endpoints
  open: after a kick the open thread wakes up, and as soon as the kernel lets it open the
  endpoints it registers the next transport.
\<close>

theorem usb_reconnects:
  assumes "(usb_step used)\<^sup>*\<^sup>* (usb_start b) s" and "finite used" and "0 \<in> used"
  shows "\<exists>s'. (usb_step used)\<^sup>*\<^sup>* s s' \<and> live s' = 1 \<and> opened s'"
proof -
  note inv = uinv_reachable [OF assms(1,3)]
  have "\<exists>s'. (usb_step used)\<^sup>*\<^sup>* s s' \<and> live s' = 1"
  proof (cases "phase s")
    case UWait
    show ?thesis
    proof (cases "live s = 1")
      case False
      with UWait inv have c: "closed s" "live s = 0" by (auto simp: uinv_def)
      then have "needs_opening (handle s)" by (auto simp: closed_def needs_opening_def split: usb_impl.splits)
      then have w: "usb_step used s (s\<lparr>phase := UOpening\<rparr>)" by (rule usb_step.wake [OF UWait])
      obtain s' where "(usb_step used)\<^sup>*\<^sup>* (s\<lparr>phase := UOpening\<rparr>) s'" "live s' = 1"
        using closed_reopens [of "s\<lparr>phase := UOpening\<rparr>" used] c assms(2,3) by auto
      with w show ?thesis by (meson converse_rtranclp_into_rtranclp)
    qed blast
  next
    case UOpening
    with inv closed_reopens [of s used] assms(2,3) show ?thesis by (simp add: uinv_def)
  next
    case URegister
    with inv have "live s = 0" by (simp add: uinv_def)
    with usb_step.register [OF URegister] show ?thesis
      by (intro exI [of _ "s\<lparr>phase := UWait, live := live s + 1\<rparr>"]) auto
  qed
  then obtain s' where s': "(usb_step used)\<^sup>*\<^sup>* s s'" "live s' = 1" by blast
  with assms have "uinv s'" by (meson uinv_reachable rtranclp_trans)
  with s' show ?thesis by (auto simp: uinv_def split: uphase.splits)
qed

theorem usb_reconnects_witness: "\<exists>s'. (usb_step {0, 1, 2})\<^sup>*\<^sup>* (usb_start False) s' \<and> live s' = 1 \<and> opened s'"
  using usb_reconnects [of "{0, 1, 2}" False "usb_start False"] by simp

section \<open>The tables\<close>

text \<open>
  The format of \<open>include/functionfs.h\<close>: every descriptor starts with its length, every string ends with
  a zero byte.
\<close>

fun split_descs :: "nat \<Rightarrow> byte list \<Rightarrow> byte list list option" where
  "split_descs 0 bs = (if bs = [] then Some [] else None)"
| "split_descs (Suc k) bs =
     (case bs of
        [] \<Rightarrow> None
      | n # _ \<Rightarrow>
          if unat n = 0 \<or> length bs < unat n then None
          else map_option (\<lambda>ds. take (unat n) bs # ds) (split_descs k (drop (unat n) bs)))"

lemma tables_self_describing:
  "take 4 (drop 4 descriptors) = le32n (length descriptors) \<and> take 4 (drop 4 strings) = le32n (length strings) \<and>
   split_descs 6 (drop 16 descriptors) =
     Some [intf_desc, ep_desc 1 64, ep_desc 130 64, intf_desc, ep_desc 1 512, ep_desc 130 512] \<and>
   drop 18 strings = bytes_of_str STR_INTERFACE @ [0]"
  by code_simp

end
