(* ===== verification/Ring_Lists.thy ===== *)
theory Ring_Lists
  imports Prelude
begin

text \<open>
  The circular doubly linked lists of the program. The same structure is written out in
  \<open>src/list.c\<close> (\<open>struct listnode\<close>), \<open>src/fdevent.c\<close> (the pending list), \<open>src/sockets.c\<close>
  (the local and the closing sockets) and \<open>src/transport.c\<close> (the disconnect callbacks), each
  time with its own order of assignments. The \<open>next\<close> and \<open>prev\<close> fields of all nodes form a
  pair of maps from addresses to pointers; \<open>None\<close> is the null pointer.

  The locale \<open>ring_list\<close> is the contract of an insertion and a removal: the ring with
  sentinel \<open>s\<close> and elements \<open>xs\<close> becomes the ring of \<open>xs @ [x]\<close>, or of \<open>remove1 x xs\<close>, and
  nodes outside it keep their links. All four implementations provide it.
\<close>

section \<open>Nodes and links\<close>

record links =
  nxt :: "nat \<Rightarrow> nat option"
  prv :: "nat \<Rightarrow> nat option"

definition set_nxt :: "nat \<Rightarrow> nat option \<Rightarrow> links \<Rightarrow> links" where
  "set_nxt a v l = l\<lparr>nxt := (nxt l)(a := v)\<rparr>"

definition set_prv :: "nat \<Rightarrow> nat option \<Rightarrow> links \<Rightarrow> links" where
  "set_prv a v l = l\<lparr>prv := (prv l)(a := v)\<rparr>"

text \<open>Following a pointer: a null pointer is a fault.\<close>

fun ptr :: "nat option \<Rightarrow> nat res" where
  "ptr None = Inl (Fault NullDeref)"
| "ptr (Some a) = Inr a"

lemma set_link_simps [simp]:
  "nxt (set_nxt a v l) = (nxt l)(a := v)" "prv (set_nxt a v l) = prv l"
  "nxt (set_prv a v l) = nxt l" "prv (set_prv a v l) = (prv l)(a := v)"
  by (simp_all add: set_nxt_def set_prv_def)

section \<open>The operations, as each file writes them\<close>

subsection \<open>\<open>src/list.c\<close>\<close>

definition list_init :: "nat \<Rightarrow> links \<Rightarrow> links" where
  "list_init node l = set_prv node (Some node) (set_nxt node (Some node) l)"

definition list_add_tail :: "nat \<Rightarrow> nat \<Rightarrow> links \<Rightarrow> links res" where
  "list_add_tail head item l =
     (let l = set_nxt item (Some head) l;
          l = set_prv item (prv l head) l in
      seq (ptr (prv l head)) (\<lambda>q.
      let l = set_nxt q (Some item) l in
      Inr (set_prv head (Some item) l)))"

definition list_remove :: "nat \<Rightarrow> links \<Rightarrow> links res" where
  "list_remove item l =
     seq (ptr (nxt l item)) (\<lambda>n.
     let l = set_prv n (prv l item) l in
     seq (ptr (prv l item)) (\<lambda>p.
     Inr (set_nxt p (nxt l item) l)))"

subsection \<open>\<open>src/fdevent.c\<close>\<close>

definition fdevent_plist_enqueue :: "nat \<Rightarrow> nat \<Rightarrow> links \<Rightarrow> links res" where
  "fdevent_plist_enqueue list node l =
     (let l = set_nxt node (Some list) l;
          l = set_prv node (prv l list) l in
      seq (ptr (prv l node)) (\<lambda>q.
      let l = set_nxt q (Some node) l in
      Inr (set_prv list (Some node) l)))"

definition fdevent_plist_remove :: "nat \<Rightarrow> links \<Rightarrow> links res" where
  "fdevent_plist_remove node l =
     seq (ptr (prv l node)) (\<lambda>p.
     let l = set_nxt p (nxt l node) l in
     seq (ptr (nxt l node)) (\<lambda>n.
     let l = set_prv n (prv l node) l in
     Inr (set_prv node None (set_nxt node None l))))"

definition fdevent_plist_dequeue :: "nat \<Rightarrow> links \<Rightarrow> (nat option \<times> links) res" where
  "fdevent_plist_dequeue list l =
     seq (ptr (nxt l list)) (\<lambda>node.
     if node = list then Inr (None, l)
     else
       let l = set_nxt list (nxt l node) l in
       seq (ptr (nxt l list)) (\<lambda>n.
       let l = set_prv n (Some list) l in
       Inr (Some node, set_prv node None (set_nxt node None l))))"

subsection \<open>\<open>src/sockets.c\<close>\<close>

definition insert_local_socket_links :: "nat \<Rightarrow> nat \<Rightarrow> links \<Rightarrow> links res" where
  "insert_local_socket_links list s l =
     (let l = set_nxt s (Some list) l in
      seq (ptr (nxt l s)) (\<lambda>n.
      let l = set_prv s (prv l n) l in
      seq (ptr (prv l s)) (\<lambda>p.
      let l = set_nxt p (Some s) l in
      seq (ptr (nxt l s)) (\<lambda>n.
      Inr (set_prv n (Some s) l)))))"

definition remove_socket_links :: "nat \<Rightarrow> links \<Rightarrow> links res" where
  "remove_socket_links s l =
     (if prv l s \<noteq> None \<and> nxt l s \<noteq> None then
        seq (ptr (prv l s)) (\<lambda>p.
        let l = set_nxt p (nxt l s) l in
        seq (ptr (nxt l s)) (\<lambda>n.
        let l = set_prv n (prv l s) l in
        Inr (set_prv s None (set_nxt s None l))))
      else Inr l)"

subsection \<open>\<open>src/transport.c\<close>\<close>

definition add_transport_disconnect :: "nat \<Rightarrow> nat \<Rightarrow> links \<Rightarrow> links res" where
  "add_transport_disconnect disconnects dis l =
     (let l = set_nxt dis (Some disconnects) l in
      seq (ptr (nxt l dis)) (\<lambda>n.
      let l = set_prv dis (prv l n) l in
      seq (ptr (prv l dis)) (\<lambda>p.
      let l = set_nxt p (Some dis) l in
      seq (ptr (nxt l dis)) (\<lambda>n.
      Inr (set_prv n (Some dis) l)))))"

definition remove_transport_disconnect :: "nat \<Rightarrow> links \<Rightarrow> links res" where
  "remove_transport_disconnect dis l =
     seq (ptr (prv l dis)) (\<lambda>p.
     let l = set_nxt p (nxt l dis) l in
     seq (ptr (nxt l dis)) (\<lambda>n.
     let l = set_prv n (prv l dis) l in
     Inr (set_nxt dis (Some dis) (set_prv dis (Some dis) l))))"

section \<open>Rings\<close>

fun chain :: "(nat \<Rightarrow> nat option) \<Rightarrow> nat \<Rightarrow> nat list \<Rightarrow> nat \<Rightarrow> bool" where
  "chain f x [] y \<longleftrightarrow> f x = Some y"
| "chain f x (a # as) y \<longleftrightarrow> f x = Some a \<and> chain f a as y"

definition ring :: "links \<Rightarrow> nat \<Rightarrow> nat list \<Rightarrow> bool" where
  "ring l s xs \<longleftrightarrow> distinct (s # xs) \<and> chain (nxt l) s xs s \<and> chain (prv l) s (rev xs) s"

lemma chain_append: "chain f x (as @ b # bs) y \<longleftrightarrow> chain f x as b \<and> chain f b bs y"
  by (induction as arbitrary: x) auto

lemma chain_cong: "(\<And>a. a \<in> set (x # xs) \<Longrightarrow> f a = g a) \<Longrightarrow> chain f x xs y = chain g x xs y"
  by (induction xs arbitrary: x) auto

lemma chain_upd [simp]: "a \<notin> set (x # xs) \<Longrightarrow> chain (f(a := v)) x xs y = chain f x xs y"
  by (rule chain_cong) auto

lemma chain_last: "chain f x (as @ [b]) y \<longleftrightarrow> chain f x as b \<and> f b = Some y"
  by (simp add: chain_append)

lemma ring_Nil_iff: "ring l s [] \<longleftrightarrow> nxt l s = Some s \<and> prv l s = Some s"
  by (auto simp: ring_def)

lemma ring_cong:
  "(\<And>a. a \<in> set (s # xs) \<Longrightarrow> nxt l a = nxt l' a \<and> prv l a = prv l' a) \<Longrightarrow> ring l s xs = ring l' s xs"
  unfolding ring_def by (intro conj_cong refl chain_cong) auto

text \<open>The neighbours of a node that splits the ring.\<close>

lemma ring_split:
  "ring l s (as @ x # bs) \<longleftrightarrow> distinct (s # as @ x # bs) \<and>
     chain (nxt l) s as x \<and> chain (nxt l) x bs s \<and>
     chain (prv l) s (rev bs) x \<and> chain (prv l) x (rev as) s"
  by (simp add: ring_def chain_append)

definition pred_of :: "nat \<Rightarrow> nat list \<Rightarrow> nat" where
  "pred_of s as = (if as = [] then s else last as)"

definition succ_of :: "nat \<Rightarrow> nat list \<Rightarrow> nat" where
  "succ_of s bs = (if bs = [] then s else hd bs)"

lemma chain_first: "chain f x bs y \<Longrightarrow> f x = Some (succ_of y bs)"
  by (cases bs) (simp_all add: succ_of_def)

lemma ring_neighbours:
  assumes "ring l s (as @ x # bs)"
  shows "prv l x = Some (pred_of s as)" and "nxt l x = Some (succ_of s bs)"
    and "nxt l (pred_of s as) = Some x" and "prv l (succ_of s bs) = Some x"
proof -
  from assms have c: "chain (nxt l) s as x" "chain (nxt l) x bs s" "chain (prv l) s (rev bs) x"
    "chain (prv l) x (rev as) s"
    by (auto simp: ring_split)
  show "prv l x = Some (pred_of s as)"
    using chain_first [OF c(4)] by (auto simp: pred_of_def succ_of_def hd_rev)
  show "nxt l x = Some (succ_of s bs)"
    using chain_first [OF c(2)] .
  show "nxt l (pred_of s as) = Some x"
    using c(1) by (cases as rule: rev_cases) (auto simp: pred_of_def chain_last)
  show "prv l (succ_of s bs) = Some x"
    using c(3) by (cases bs) (auto simp: succ_of_def chain_last)
qed

lemma pred_of_in: "pred_of s as \<in> set (s # as)"
  by (simp add: pred_of_def)

lemma succ_of_in: "succ_of s bs \<in> set (s # bs)"
  by (cases bs) (simp_all add: succ_of_def)

text \<open>Linking a new node before the sentinel, and taking a node out.\<close>

lemma chain_link_last:
  assumes "chain f s xs s" and "distinct (s # xs)" and "x \<notin> set (s # xs)"
  shows "chain (f(pred_of s xs := Some x, x := Some s)) s (xs @ [x]) s"
proof (cases xs rule: rev_cases)
  case Nil
  with assms show ?thesis by (auto simp: pred_of_def)
next
  case (snoc ys b)
  with assms show ?thesis
    by (auto simp: pred_of_def chain_append)
qed

lemma chain_unlink:
  assumes "chain f s as x" and "chain f x bs t" and "distinct (s # as @ x # bs)"
  shows "chain (f(pred_of s as := f x)) s (as @ bs) t"
proof -
  from assms(2) have fx: "f x = Some (succ_of t bs)" by (rule chain_first)
  show ?thesis
  proof (cases bs)
    case Nil
    with assms fx show ?thesis
      by (cases as rule: rev_cases) (auto simp: pred_of_def succ_of_def chain_append)
  next
    case (Cons b cs)
    with assms fx show ?thesis
      by (cases as rule: rev_cases) (auto simp: pred_of_def succ_of_def chain_append)
  qed
qed

lemma chain_restart:
  "chain f s xs t \<Longrightarrow> s \<notin> set xs \<Longrightarrow> x \<notin> set (s # xs) \<Longrightarrow>
     chain (f(x := f s, s := v)) x xs t"
  by (cases xs) auto

lemma ring_link:
  assumes "ring l s xs" and "x \<notin> set (s # xs)"
    and "nxt l' = (nxt l)(pred_of s xs := Some x, x := Some s)"
    and "prv l' = (prv l)(x := prv l s, s := Some x)"
  shows "ring l' s (xs @ [x])"
proof -
  from assms(1) have d: "distinct (s # xs)" and n: "chain (nxt l) s xs s"
    and p: "chain (prv l) s (rev xs) s"
    by (auto simp: ring_def)
  have "chain (nxt l') s (xs @ [x]) s"
    unfolding assms(3) using n d assms(2) by (rule chain_link_last)
  moreover have "chain (prv l') x (rev xs) s"
    unfolding assms(4) using p d assms(2) by (intro chain_restart) auto
  then have "chain (prv l') s (x # rev xs) s"
    by (simp add: assms(4))
  ultimately show ?thesis
    using d assms(2) by (simp add: ring_def)
qed

lemma ring_unlink:
  assumes "ring l s (as @ x # bs)"
    and "\<And>a. a \<noteq> x \<Longrightarrow> nxt l' a = ((nxt l)(pred_of s as := nxt l x)) a"
    and "\<And>a. a \<noteq> x \<Longrightarrow> prv l' a = ((prv l)(succ_of s bs := prv l x)) a"
  shows "ring l' s (as @ bs)"
proof -
  from assms(1) have d: "distinct (s # as @ x # bs)" and c: "chain (nxt l) s as x"
    "chain (nxt l) x bs s" "chain (prv l) s (rev bs) x" "chain (prv l) x (rev as) s"
    by (auto simp: ring_split)
  have e: "pred_of s (rev bs) = succ_of s bs"
    by (simp add: pred_of_def succ_of_def last_rev)
  have "chain ((nxt l)(pred_of s as := nxt l x)) s (as @ bs) s"
    using c(1,2) d by (rule chain_unlink)
  moreover have "chain ((prv l)(succ_of s bs := prv l x)) s (rev bs @ rev as) s"
    using c(3,4) d unfolding e [symmetric] by (intro chain_unlink) auto
  moreover have "chain (nxt l') s (as @ bs) s = chain ((nxt l)(pred_of s as := nxt l x)) s (as @ bs) s"
    by (rule chain_cong, rule assms(2)) (use d in auto)
  moreover have "chain (prv l') s (rev bs @ rev as) s =
      chain ((prv l)(succ_of s bs := prv l x)) s (rev bs @ rev as) s"
    by (rule chain_cong, rule assms(3)) (use d in auto)
  ultimately show ?thesis
    using d by (simp add: ring_def)
qed

text \<open>The last node, which the sentinel's \<open>prev\<close> points to.\<close>

lemma ring_last: "ring l s xs \<Longrightarrow> prv l s = Some (pred_of s xs)"
  using chain_first [of "prv l" s "rev xs" s]
  by (auto simp: ring_def pred_of_def succ_of_def hd_rev)

lemma ring_member:
  assumes "ring l s xs" and "x \<in> set xs"
  obtains as bs where "xs = as @ x # bs" "x \<notin> set as" "remove1 x xs = as @ bs"
    "prv l x = Some (pred_of s as)" "nxt l x = Some (succ_of s bs)"
    "pred_of s as \<in> set (s # xs) - {x}" "succ_of s bs \<in> set (s # xs) - {x}"
proof -
  from assms(2) obtain as bs where xs: "xs = as @ x # bs" "x \<notin> set as"
    by (meson split_list_first)
  with assms(1) have "x \<notin> set bs" "x \<noteq> s" by (auto simp: ring_def)
  with xs assms(1) show thesis
    using ring_neighbours [of l s as x bs] pred_of_in [of s as] succ_of_in [of s bs]
    by (intro that [of as bs]) (auto simp: remove1_append)
qed

section \<open>The contract\<close>

locale ring_list =
  fixes add :: "nat \<Rightarrow> nat \<Rightarrow> links \<Rightarrow> links res"
    and del :: "nat \<Rightarrow> links \<Rightarrow> links res"
  assumes add_ring: "ring l s xs \<Longrightarrow> x \<notin> set (s # xs) \<Longrightarrow>
      \<exists>l'. add s x l = Inr l' \<and> ring l' s (xs @ [x]) \<and>
        (\<forall>a. a \<notin> set (x # s # xs) \<longrightarrow> nxt l' a = nxt l a \<and> prv l' a = prv l a)"
    and del_ring: "ring l s xs \<Longrightarrow> x \<in> set xs \<Longrightarrow>
      \<exists>l'. del x l = Inr l' \<and> ring l' s (remove1 x xs) \<and>
        (\<forall>a. a \<notin> set (s # xs) \<longrightarrow> nxt l' a = nxt l a \<and> prv l' a = prv l a)"
begin

text \<open>Inserting a list of nodes puts them at the end, in their order.\<close>

lemma add_all:
  assumes "ring l s xs" and "distinct ys" and "set ys \<inter> set (s # xs) = {}"
  shows "\<exists>l'. fold (\<lambda>y m. seq m (add s y)) ys (Inr l) = Inr l' \<and> ring l' s (xs @ ys)"
  using assms
proof (induction ys arbitrary: l xs)
  case (Cons y ys)
  from Cons.prems obtain l1 where "add s y l = Inr l1" "ring l1 s (xs @ [y])"
    using add_ring [of l s xs y] by auto
  with Cons.prems Cons.IH [of l1 "xs @ [y]"] show ?case by auto
qed simp

text \<open>Two rings without a common node do not disturb each other, so a node can move.\<close>

lemma move:
  assumes "ring l s xs" and "ring l t ys" and "set (s # xs) \<inter> set (t # ys) = {}" and "x \<in> set xs"
  shows "\<exists>l1 l2. del x l = Inr l1 \<and> add t x l1 = Inr l2 \<and>
    ring l2 s (remove1 x xs) \<and> ring l2 t (ys @ [x])"
proof -
  from del_ring [OF assms(1,4)] obtain l1 where l1: "del x l = Inr l1" "ring l1 s (remove1 x xs)"
    and f1: "\<And>a. a \<notin> set (s # xs) \<Longrightarrow> nxt l1 a = nxt l a \<and> prv l1 a = prv l a"
    by blast
  have "ring l1 t ys"
    using assms(2) ring_cong [of t ys l1 l] f1 assms(3) by (metis disjoint_iff)
  moreover have "x \<notin> set (t # ys)"
    using assms(3,4) by auto
  ultimately obtain l2 where l2: "add t x l1 = Inr l2" "ring l2 t (ys @ [x])"
    and f2: "\<And>a. a \<notin> set (x # t # ys) \<Longrightarrow> nxt l2 a = nxt l1 a \<and> prv l2 a = prv l1 a"
    using add_ring [of l1 t ys x] by blast
  have "x \<notin> set (s # remove1 x xs)"
    using assms(1,4) by (auto simp: ring_def)
  then have "ring l2 s (remove1 x xs)"
    using l1(2) f2 assms(3) ring_cong [of s "remove1 x xs" l2 l1] set_remove1_subset [of x xs]
    by (metis disjoint_iff list.set_intros(1,2) set_ConsD subsetD)
  with l1(1) l2 show ?thesis by blast
qed

end

section \<open>The four implementations\<close>

interpretation listnode: ring_list list_add_tail list_remove
proof
  fix l s xs x
  assume r: "ring l s xs" and x: "x \<notin> set (s # xs)"
  define l' where "l' = set_prv s (Some x) (set_nxt (pred_of s xs) (Some x)
      (set_prv x (prv l s) (set_nxt x (Some s) l)))"
  have "pred_of s xs \<noteq> x" using x pred_of_in [of s xs] by auto
  then have "ring l' s (xs @ [x])"
    using x by (intro ring_link [OF r x]) (auto simp: l'_def fun_eq_iff)
  with ring_last [OF r] x pred_of_in [of s xs]
  show "\<exists>l'. list_add_tail s x l = Inr l' \<and> ring l' s (xs @ [x]) \<and>
      (\<forall>a. a \<notin> set (x # s # xs) \<longrightarrow> nxt l' a = nxt l a \<and> prv l' a = prv l a)"
    by (intro exI [of _ l']) (auto simp: list_add_tail_def Let_def l'_def)
next
  fix l s xs x
  assume r: "ring l s xs" and x: "x \<in> set xs"
  from r x obtain as bs where m: "xs = as @ x # bs" "remove1 x xs = as @ bs"
    "prv l x = Some (pred_of s as)" "nxt l x = Some (succ_of s bs)"
    "pred_of s as \<in> set (s # xs) - {x}" "succ_of s bs \<in> set (s # xs) - {x}"
    by (rule ring_member)
  define l' where "l' = set_nxt (pred_of s as) (nxt l x) (set_prv (succ_of s bs) (prv l x) l)"
  have "ring l' s (as @ bs)"
    using r unfolding m(1) by (rule ring_unlink) (simp_all add: l'_def)
  with m show "\<exists>l'. list_remove x l = Inr l' \<and> ring l' s (remove1 x xs) \<and>
      (\<forall>a. a \<notin> set (s # xs) \<longrightarrow> nxt l' a = nxt l a \<and> prv l' a = prv l a)"
    by (intro exI [of _ l']) (auto simp: list_remove_def Let_def l'_def)
qed

text \<open>The other three insertions do the same assignments in another order.\<close>

lemma insert_eq_list_add_tail:
  assumes "ring l s xs" and "x \<notin> set (s # xs)"
  shows "fdevent_plist_enqueue s x l = list_add_tail s x l"
    and "insert_local_socket_links s x l = list_add_tail s x l"
    and "add_transport_disconnect s x l = list_add_tail s x l"
proof -
  from ring_last [OF assms(1)] pred_of_in [of s xs] assms(2) obtain q where
    q: "prv l s = Some q" "q \<noteq> x" "s \<noteq> x"
    by auto
  show "fdevent_plist_enqueue s x l = list_add_tail s x l"
    using q by (simp add: fdevent_plist_enqueue_def list_add_tail_def Let_def)
  show "insert_local_socket_links s x l = list_add_tail s x l"
    using q by (simp add: insert_local_socket_links_def list_add_tail_def Let_def)
  show "add_transport_disconnect s x l = list_add_tail s x l"
    using q by (simp add: add_transport_disconnect_def list_add_tail_def Let_def)
qed

text \<open>Their removals also reset the links of the node that leaves.\<close>

lemma remove_ring_general:
  assumes r: "ring l s xs" and x: "x \<in> set xs"
    and del: "\<And>p n. prv l x = Some p \<Longrightarrow> nxt l x = Some n \<Longrightarrow> p \<noteq> x \<Longrightarrow> n \<noteq> x \<Longrightarrow>
      del x l = Inr (set_nxt x v (set_prv x w (set_prv n (Some p) (set_nxt p (Some n) l))))"
  shows "\<exists>l'. del x l = Inr l' \<and> ring l' s (remove1 x xs) \<and>
    (\<forall>a. a \<notin> set (s # xs) \<longrightarrow> nxt l' a = nxt l a \<and> prv l' a = prv l a)"
proof -
  from r x obtain as bs where m: "xs = as @ x # bs" "remove1 x xs = as @ bs"
    "prv l x = Some (pred_of s as)" "nxt l x = Some (succ_of s bs)"
    "pred_of s as \<in> set (s # xs) - {x}" "succ_of s bs \<in> set (s # xs) - {x}"
    by (rule ring_member)
  define l' where "l' = set_nxt x v (set_prv x w (set_prv (succ_of s bs) (Some (pred_of s as))
      (set_nxt (pred_of s as) (Some (succ_of s bs)) l)))"
  have "ring l' s (as @ bs)"
    using r unfolding m(1) by (rule ring_unlink) (simp_all add: l'_def m(3,4))
  moreover have "del x l = Inr l'"
    using del [OF m(3,4)] m(5,6) by (simp add: l'_def)
  ultimately show ?thesis
    using m(2,5,6) x by (auto simp: l'_def)
qed

lemma set_link_commute:
  "set_prv a v (set_nxt b w l) = set_nxt b w (set_prv a v l)"
  by (simp add: set_nxt_def set_prv_def)

interpretation plist: ring_list fdevent_plist_enqueue fdevent_plist_remove
proof
  fix l s xs x
  assume "ring l s xs" "x \<notin> set (s # xs)"
  then show "\<exists>l'. fdevent_plist_enqueue s x l = Inr l' \<and> ring l' s (xs @ [x]) \<and>
      (\<forall>a. a \<notin> set (x # s # xs) \<longrightarrow> nxt l' a = nxt l a \<and> prv l' a = prv l a)"
    using listnode.add_ring [of l s xs x] insert_eq_list_add_tail(1) [of l s xs x] by simp
next
  fix l s xs x
  assume "ring l s xs" "x \<in> set xs"
  then show "\<exists>l'. fdevent_plist_remove x l = Inr l' \<and> ring l' s (remove1 x xs) \<and>
      (\<forall>a. a \<notin> set (s # xs) \<longrightarrow> nxt l' a = nxt l a \<and> prv l' a = prv l a)"
    by (rule remove_ring_general [where v = None and w = None])
      (auto simp: fdevent_plist_remove_def Let_def set_link_commute)
qed

interpretation sock_ring: ring_list insert_local_socket_links remove_socket_links
proof
  fix l s xs x
  assume "ring l s xs" "x \<notin> set (s # xs)"
  then show "\<exists>l'. insert_local_socket_links s x l = Inr l' \<and> ring l' s (xs @ [x]) \<and>
      (\<forall>a. a \<notin> set (x # s # xs) \<longrightarrow> nxt l' a = nxt l a \<and> prv l' a = prv l a)"
    using listnode.add_ring [of l s xs x] insert_eq_list_add_tail(2) [of l s xs x] by simp
next
  fix l s xs x
  assume "ring l s xs" "x \<in> set xs"
  then show "\<exists>l'. remove_socket_links x l = Inr l' \<and> ring l' s (remove1 x xs) \<and>
      (\<forall>a. a \<notin> set (s # xs) \<longrightarrow> nxt l' a = nxt l a \<and> prv l' a = prv l a)"
    by (rule remove_ring_general [where v = None and w = None])
      (auto simp: remove_socket_links_def Let_def set_link_commute)
qed

interpretation disc_ring: ring_list add_transport_disconnect remove_transport_disconnect
proof
  fix l s xs x
  assume "ring l s xs" "x \<notin> set (s # xs)"
  then show "\<exists>l'. add_transport_disconnect s x l = Inr l' \<and> ring l' s (xs @ [x]) \<and>
      (\<forall>a. a \<notin> set (x # s # xs) \<longrightarrow> nxt l' a = nxt l a \<and> prv l' a = prv l a)"
    using listnode.add_ring [of l s xs x] insert_eq_list_add_tail(3) [of l s xs x] by simp
next
  fix l s xs x
  assume "ring l s xs" "x \<in> set xs"
  then show "\<exists>l'. remove_transport_disconnect x l = Inr l' \<and> ring l' s (remove1 x xs) \<and>
      (\<forall>a. a \<notin> set (s # xs) \<longrightarrow> nxt l' a = nxt l a \<and> prv l' a = prv l a)"
    by (rule remove_ring_general [where v = "Some x" and w = "Some x"])
      (auto simp: remove_transport_disconnect_def Let_def set_link_commute)
qed

text \<open>Taking the first node, as the event loop does.\<close>

lemma plist_dequeue_empty: "ring l s [] \<Longrightarrow> fdevent_plist_dequeue s l = Inr (None, l)"
  by (simp add: ring_Nil_iff fdevent_plist_dequeue_def)

lemma plist_dequeue_Cons:
  assumes r: "ring l s (x # xs)"
  shows "\<exists>l'. fdevent_plist_dequeue s l = Inr (Some x, l') \<and> ring l' s xs \<and>
    (\<forall>a. a \<notin> set (s # x # xs) \<longrightarrow> nxt l' a = nxt l a \<and> prv l' a = prv l a)"
proof -
  have n: "nxt l s = Some x" "prv l x = Some s" "nxt l x = Some (succ_of s xs)"
    using ring_neighbours [of l s "[]" x xs] r by (simp_all add: pred_of_def)
  have x: "x \<noteq> s" "succ_of s xs \<noteq> x"
    using r succ_of_in [of s xs] by (auto simp: ring_def)
  define l' where "l' = set_prv x None (set_nxt x None
      (set_prv (succ_of s xs) (Some s) (set_nxt s (nxt l x) l)))"
  have "ring l' s ([] @ xs)"
    by (rule ring_unlink [of l s "[]" x xs]) (use r n x in \<open>simp_all add: l'_def pred_of_def\<close>)
  moreover have "fdevent_plist_dequeue s l = Inr (Some x, l')"
    using n x by (simp add: fdevent_plist_dequeue_def Let_def l'_def)
  ultimately show ?thesis
    using succ_of_in [of s xs] by (auto simp: l'_def)
qed

section \<open>Properties\<close>

text \<open>
  C32: \<open>remove_socket\<close> followed by \<open>insert_local_socket\<close> moves a socket from the list of local
  sockets to the end of the closing list: both stay circular lists, linked in both
  directions, of the expected elements, and no null pointer is followed.
\<close>

theorem socket_lists_move:
  assumes "ring l s xs" and "ring l t ys" and "set (s # xs) \<inter> set (t # ys) = {}" and "x \<in> set xs"
  shows "\<exists>l1 l2. remove_socket_links x l = Inr l1 \<and> insert_local_socket_links t x l1 = Inr l2 \<and>
    ring l2 s (remove1 x xs) \<and> ring l2 t (ys @ [x])"
  using assms by (rule sock_ring.move)

definition demo_links :: links where
  "demo_links = \<lparr>nxt = [0 \<mapsto> 2, 2 \<mapsto> 3, 3 \<mapsto> 0, 1 \<mapsto> 1], prv = [0 \<mapsto> 3, 3 \<mapsto> 2, 2 \<mapsto> 0, 1 \<mapsto> 1]\<rparr>"

lemma socket_lists_move_witness:
  "\<exists>l1 l2. remove_socket_links 2 demo_links = Inr l1 \<and> insert_local_socket_links 1 2 l1 = Inr l2 \<and>
     ring l2 0 [3] \<and> ring l2 1 [2]"
  using socket_lists_move [of demo_links 0 "[2, 3]" 1 "[]" 2] by (simp add: ring_def demo_links_def)

text \<open>
  The pending list is a queue. Events enqueued in some order on an empty list are
  dequeued in the same order, first the oldest, and the list of the rest stays intact.
\<close>

theorem plist_fifo:
  assumes "ring l s []" and "distinct (s # x # xs)"
  shows "\<exists>l1 l2. fold (\<lambda>y m. seq m (fdevent_plist_enqueue s y)) (x # xs) (Inr l) = Inr l1 \<and>
    fdevent_plist_dequeue s l1 = Inr (Some x, l2) \<and> ring l2 s xs"
proof -
  from plist.add_all [OF assms(1), of "x # xs"] assms(2) obtain l1 where
    "fold (\<lambda>y m. seq m (fdevent_plist_enqueue s y)) (x # xs) (Inr l) = Inr l1" "ring l1 s (x # xs)"
    by auto
  with plist_dequeue_Cons [of l1 s x xs] show ?thesis by blast
qed

lemma plist_fifo_witness:
  "\<exists>l1 l2. fold (\<lambda>y m. seq m (fdevent_plist_enqueue 1 y)) [7, 5, 6] (Inr demo_links) = Inr l1 \<and>
     fdevent_plist_dequeue 1 l1 = Inr (Some 7, l2) \<and> ring l2 1 [5, 6]"
  using plist_fifo [of demo_links 1 7 "[5, 6]"] by (simp add: ring_def demo_links_def)

end
