(* ===== verification/Fdevent.thy ===== *)
theory Fdevent
  imports Ring_Lists Sysio
begin

text \<open>
  The event loop, \<open>src/fdevent.c\<close> in the variant that is built (\<open>USE_SELECT\<close>): the table of
  registered descriptors, the sets given to \<open>select\<close>, the list of pending events, and the
  operations that other components call (\<open>fdevent_install\<close>, \<open>fdevent_set\<close>,
  \<open>fdevent_remove\<close> and the functions built from them).

  The invariant \<open>fd_inv\<close> ties the four together. Every operation keeps it and, in a state
  that has it, none faults or aborts; the step relation \<open>fd_step\<close> closes this under every
  sequence of operations.

  What \<open>select\<close> and \<open>fcntl\<close> answer are arguments. Memory for the descriptor table and for
  new events is always granted.
\<close>

section \<open>Events and states\<close>

definition FDE_READ :: u16 where "FDE_READ = 0x0001"
definition FDE_WRITE :: u16 where "FDE_WRITE = 0x0002"
definition FDE_ERROR :: u16 where "FDE_ERROR = 0x0004"
definition FDE_DONT_CLOSE :: u16 where "FDE_DONT_CLOSE = 0x0080"
definition FDE_EVENTMASK :: u16 where "FDE_EVENTMASK = 0x00ff"
definition FDE_STATEMASK :: u16 where "FDE_STATEMASK = 0xff00"
definition FDE_ACTIVE :: u16 where "FDE_ACTIVE = 0x0100"
definition FDE_PENDING :: u16 where "FDE_PENDING = 0x0200"
definition FDE_CREATED :: u16 where "FDE_CREATED = 0x0400"

lemmas fde_defs = FDE_READ_def FDE_WRITE_def FDE_ERROR_def FDE_DONT_CLOSE_def FDE_EVENTMASK_def
  FDE_STATEMASK_def FDE_ACTIVE_def FDE_PENDING_def FDE_CREATED_def

text \<open>The functions of the program that are installed as callbacks.\<close>

datatype fd_func = NoFunc | fdevent_subproc_event_func | local_socket_event_func
  | TransportSocketEvents | TransportRegistrationFunc | ListenerEventFunc | SsListenerEventFunc
  | jdwp_process_event | jdwp_control_event | AdbAuthEvent

text \<open>\<open>struct fdevent\<close>, without the links, which \<open>plinks\<close> keeps for all events.\<close>

record fdevent =
  fde_fd :: int
  force_eof :: bool
  fde_state :: u16
  fde_events :: u16
  fde_func :: fd_func
  fde_arg :: nat

definition fdevent_zero :: fdevent where
  "fdevent_zero = \<lparr>fde_fd = 0, force_eof = False, fde_state = 0, fde_events = 0,
     fde_func = NoFunc, fde_arg = 0\<rparr>"

text \<open>
  The static variables of the file. \<open>fdes\<close> is the memory of the events by address;
  \<open>fd_table\<close> has length \<open>fd_table_max\<close>; \<open>closed\<close> records the descriptors given to
  \<open>adb_close\<close>. Address 0 is the sentinel \<open>list_pending\<close>.
\<close>

definition list_pending :: nat where "list_pending = 0"

record fdst =
  fdes :: "nat \<Rightarrow> fdevent"
  plinks :: links
  fd_table :: "nat option list"
  read_fds :: "nat set"
  write_fds :: "nat set"
  error_fds :: "nat set"
  select_n :: nat
  closed :: "int list"

definition fd_start :: fdst where
  "fd_start = \<lparr>fdes = (\<lambda>_. fdevent_zero),
     plinks = \<lparr>nxt = (\<lambda>_. None)(list_pending := Some list_pending),
               prv = (\<lambda>_. None)(list_pending := Some list_pending)\<rparr>,
     fd_table = [], read_fds = {}, write_fds = {}, error_fds = {}, select_n = 0, closed = []\<rparr>"

definition upd_fde :: "nat \<Rightarrow> (fdevent \<Rightarrow> fdevent) \<Rightarrow> fdst \<Rightarrow> fdst" where
  "upd_fde a f st = st\<lparr>fdes := (fdes st)(a := f (fdes st a))\<rparr>"

text \<open>An \<open>fd_set\<close> has room for \<open>FD_SETSIZE\<close> descriptors; the macros do not check.\<close>

definition FD_SETSIZE :: nat where "FD_SETSIZE = 1024"

definition fd_put :: "bool \<Rightarrow> int \<Rightarrow> nat set \<Rightarrow> nat set res" where
  "fd_put b fd S =
     (if 0 \<le> fd \<and> fd < int FD_SETSIZE
      then Inr (if b then insert (nat fd) S else S - {nat fd})
      else Inl (Fault OutOfBounds))"

definition table_at :: "fdst \<Rightarrow> int \<Rightarrow> nat option res" where
  "table_at st i =
     (if 0 \<le> i \<and> i < int (length (fd_table st)) then Inr (fd_table st ! nat i)
      else Inl (Fault OutOfBounds))"

section \<open>The \<open>select\<close> back end\<close>

definition fdevent_init :: "fdst \<Rightarrow> fdst" where
  "fdevent_init st = st\<lparr>read_fds := {}, write_fds := {}, error_fds := {}\<rparr>"

definition fdevent_connect :: "nat \<Rightarrow> fdst \<Rightarrow> fdst" where
  "fdevent_connect a st =
     (if fde_fd (fdes st a) \<ge> int (select_n st)
      then st\<lparr>select_n := nat (fde_fd (fdes st a)) + 1\<rparr> else st)"

text \<open>The loop that looks for the highest descriptor in use, from index \<open>i\<close>.\<close>

fun highest_used :: "nat option list \<Rightarrow> nat \<Rightarrow> nat \<Rightarrow> nat \<Rightarrow> nat res" where
  "highest_used table 0 i n = Inr n"
| "highest_used table (Suc k) i n =
     (if i < length table
      then highest_used table k (Suc i) (if table ! i \<noteq> None then i else n)
      else Inl (Fault OutOfBounds))"

definition fdevent_disconnect :: "nat \<Rightarrow> fdst \<Rightarrow> fdst res" where
  "fdevent_disconnect a st =
     (let fd = fde_fd (fdes st a) in
      seq (fd_put False fd (read_fds st)) (\<lambda>r.
      seq (fd_put False fd (write_fds st)) (\<lambda>w.
      seq (fd_put False fd (error_fds st)) (\<lambda>e.
      seq (highest_used (fd_table st) (select_n st) 0 0) (\<lambda>n.
      Inr (st\<lparr>read_fds := r, write_fds := w, error_fds := e, select_n := n + 1\<rparr>))))))"

definition fdevent_update :: "nat \<Rightarrow> u16 \<Rightarrow> fdst \<Rightarrow> fdst res" where
  "fdevent_update a events st =
     (let fd = fde_fd (fdes st a) in
      seq (fd_put (events AND FDE_READ \<noteq> 0) fd (read_fds st)) (\<lambda>r.
      seq (fd_put (events AND FDE_WRITE \<noteq> 0) fd (write_fds st)) (\<lambda>w.
      seq (fd_put (events AND FDE_ERROR \<noteq> 0) fd (error_fds st)) (\<lambda>e.
      Inr (upd_fde a (\<lambda>f. f\<lparr>fde_state := (fde_state f AND FDE_STATEMASK) OR events\<rparr>)
        (st\<lparr>read_fds := r, write_fds := w, error_fds := e\<rparr>))))))"

text \<open>\<open>bad\<close> holds the descriptors for which \<open>fcntl\<close> fails.\<close>

fun fd_check_from :: "nat option list \<Rightarrow> nat set \<Rightarrow> nat \<Rightarrow> nat \<Rightarrow> nat set \<Rightarrow> int \<Rightarrow>
    (nat set \<times> int) res" where
  "fd_check_from table bad 0 i fds n = Inr (fds, n)"
| "fd_check_from table bad (Suc k) i fds n =
     (if i < length table then
        if table ! i = None then fd_check_from table bad k (Suc i) fds n
        else if i \<in> bad then
          seq (fd_put True (int i) fds) (\<lambda>fds. fd_check_from table bad k (Suc i) fds (n + 1))
        else fd_check_from table bad k (Suc i) fds n
      else Inl (Fault OutOfBounds))"

definition fdevent_fd_check :: "nat set \<Rightarrow> nat set \<Rightarrow> fdst \<Rightarrow> (nat set \<times> int) res" where
  "fdevent_fd_check bad fds st = fd_check_from (fd_table st) bad (select_n st) 0 fds 0"

text \<open>One descriptor of the loop over the sets that \<open>select\<close> returned.\<close>

definition fdevent_mark :: "nat \<Rightarrow> u16 \<Rightarrow> fdst \<Rightarrow> fdst res" where
  "fdevent_mark i events st =
     (if events \<noteq> 0 then
        seq (table_at st (int i)) (\<lambda>fde.
        case fde of
          None \<Rightarrow> Inl Abort
        | Some a \<Rightarrow>
            let st = upd_fde a (\<lambda>f. f\<lparr>fde_events := fde_events f OR events\<rparr>) st in
            if fde_state (fdes st a) AND FDE_PENDING \<noteq> 0 then Inr st
            else
              let st = upd_fde a (\<lambda>f. f\<lparr>fde_state := fde_state f OR FDE_PENDING\<rparr>) st in
              seq (fdevent_plist_enqueue list_pending a (plinks st)) (\<lambda>l.
              Inr (st\<lparr>plinks := l\<rparr>)))
      else Inr st)"

definition events_of :: "nat \<Rightarrow> nat set \<Rightarrow> nat set \<Rightarrow> nat set \<Rightarrow> u16" where
  "events_of i r w e =
     (if i \<in> r then FDE_READ else 0) OR (if i \<in> w then FDE_WRITE else 0) OR
     (if i \<in> e then FDE_ERROR else 0)"

definition count_of :: "nat \<Rightarrow> nat set \<Rightarrow> nat set \<Rightarrow> nat set \<Rightarrow> int" where
  "count_of i r w e = of_bool (i \<in> r) + of_bool (i \<in> w) + of_bool (i \<in> e)"

fun process_from :: "nat \<Rightarrow> nat \<Rightarrow> int \<Rightarrow> nat set \<Rightarrow> nat set \<Rightarrow> nat set \<Rightarrow> fdst \<Rightarrow> fdst res" where
  "process_from 0 i n r w e st = Inr st"
| "process_from (Suc k) i n r w e st =
     (if n > 0 then
        if i < FD_SETSIZE then
          seq (fdevent_mark i (events_of i r w e) st) (\<lambda>st.
          process_from k (Suc i) (n - count_of i r w e) r w e st)
        else Inl (Fault OutOfBounds)
      else Inr st)"

datatype sel_answer = Sel int "nat set" "nat set" "nat set" | SelErr errno

definition fdevent_process :: "sel_answer \<Rightarrow> nat set \<Rightarrow> fdst \<Rightarrow> fdst res" where
  "fdevent_process answer bad st =
     (case answer of
        Sel n r w e \<Rightarrow>
          if n \<le> 0 then
            seq (fdevent_fd_check bad r st) (\<lambda>(r, n). process_from (select_n st) 0 n r w e st)
          else process_from (select_n st) 0 n r w e st
      | SelErr err \<Rightarrow>
          if err = EBADF then
            seq (fdevent_fd_check bad {} st) (\<lambda>(r, n). process_from (select_n st) 0 n r {} {} st)
          else Inr st)"

section \<open>The descriptor table\<close>

function grow :: "nat \<Rightarrow> int \<Rightarrow> nat" where
  "grow m fd = (if 0 < m \<and> int m \<le> fd then grow (m * 2) fd else m)"
  by pat_completeness auto
termination
  by (relation "measure (\<lambda>(m, fd). nat fd + 1 - m)") auto

declare grow.simps [simp del]

definition fdevent_register :: "nat \<Rightarrow> fdst \<Rightarrow> fdst res" where
  "fdevent_register a st =
     (let fd = fde_fd (fdes st a) in
      if fd < 0 then Inl Abort
      else if fd \<ge> int (length (fd_table st)) then
        if fd > 32000 then Inl Abort
        else
          let oldmax = length (fd_table st);
              st = (if oldmax = 0 then fdevent_init st else st);
              newmax = grow (if oldmax = 0 then 256 else oldmax) fd;
              table = fd_table st @ replicate (newmax - oldmax) None in
          Inr (st\<lparr>fd_table := table[nat fd := Some a]\<rparr>)
      else Inr (st\<lparr>fd_table := (fd_table st)[nat fd := Some a]\<rparr>))"

definition fdevent_unregister :: "nat \<Rightarrow> fdst \<Rightarrow> fdst res" where
  "fdevent_unregister a st =
     (let fd = fde_fd (fdes st a) in
      if fd < 0 \<or> fd \<ge> int (length (fd_table st)) then Inl Abort
      else if fd_table st ! nat fd \<noteq> Some a then Inl Abort
      else
        let st = st\<lparr>fd_table := (fd_table st)[nat fd := None]\<rparr> in
        Inr (if fde_state (fdes st a) AND FDE_DONT_CLOSE = 0
             then st\<lparr>closed := closed st @ [fd]\<rparr> else st))"

section \<open>The interface\<close>

definition fdevent_install :: "nat \<Rightarrow> int \<Rightarrow> fd_func \<Rightarrow> nat \<Rightarrow> fdst \<Rightarrow> fdst res" where
  "fdevent_install a fd func arg st =
     (let st = upd_fde a (\<lambda>_. fdevent_zero\<lparr>fde_state := FDE_ACTIVE, fde_fd := fd,
            force_eof := False, fde_func := func, fde_arg := arg\<rparr>)
            (st\<lparr>plinks := set_prv a None (set_nxt a None (plinks st))\<rparr>) in
      seq (fdevent_register a st) (\<lambda>st.
      let st = fdevent_connect a st in
      Inr (upd_fde a (\<lambda>f. f\<lparr>fde_state := fde_state f OR FDE_ACTIVE\<rparr>) st)))"

text \<open>\<open>a\<close> is the address that \<open>malloc\<close> returns.\<close>

definition fdevent_create :: "nat \<Rightarrow> int \<Rightarrow> fd_func \<Rightarrow> nat \<Rightarrow> fdst \<Rightarrow> fdst res" where
  "fdevent_create a fd func arg st =
     seq (fdevent_install a fd func arg st) (\<lambda>st.
     Inr (upd_fde a (\<lambda>f. f\<lparr>fde_state := fde_state f OR FDE_CREATED\<rparr>) st))"

definition fdevent_remove :: "nat \<Rightarrow> fdst \<Rightarrow> fdst res" where
  "fdevent_remove a st =
     seq (if fde_state (fdes st a) AND FDE_PENDING \<noteq> 0
          then seq (fdevent_plist_remove a (plinks st)) (\<lambda>l. Inr (st\<lparr>plinks := l\<rparr>))
          else Inr st) (\<lambda>st.
     seq (if fde_state (fdes st a) AND FDE_ACTIVE \<noteq> 0
          then seq (fdevent_disconnect a st) (fdevent_unregister a)
          else Inr st) (\<lambda>st.
     Inr (upd_fde a (\<lambda>f. f\<lparr>fde_state := 0, fde_events := 0\<rparr>) st)))"

definition fdevent_destroy :: "nat option \<Rightarrow> fdst \<Rightarrow> fdst res" where
  "fdevent_destroy p st =
     (case p of
        None \<Rightarrow> Inr st
      | Some a \<Rightarrow>
          if fde_state (fdes st a) AND FDE_CREATED = 0 then Inl Abort else fdevent_remove a st)"

definition fdevent_set :: "nat \<Rightarrow> u32 \<Rightarrow> fdst \<Rightarrow> fdst res" where
  "fdevent_set a evs st =
     (let events = ucast evs AND FDE_EVENTMASK in
      if fde_state (fdes st a) AND FDE_EVENTMASK = events then Inr st
      else
        seq (if fde_state (fdes st a) AND FDE_ACTIVE \<noteq> 0 then fdevent_update a events st
             else Inr st) (\<lambda>st.
        let st = upd_fde a (\<lambda>f. f\<lparr>fde_state := (fde_state f AND FDE_STATEMASK) OR events\<rparr>) st in
        if fde_state (fdes st a) AND FDE_PENDING \<noteq> 0 then
          let st = upd_fde a (\<lambda>f. f\<lparr>fde_events := fde_events f AND NOT events\<rparr>) st in
          if fde_events (fdes st a) = 0 then
            seq (fdevent_plist_remove a (plinks st)) (\<lambda>l.
            Inr (upd_fde a (\<lambda>f. f\<lparr>fde_state := fde_state f AND NOT FDE_PENDING\<rparr>)
              (st\<lparr>plinks := l\<rparr>)))
          else Inr st
        else Inr st))"

definition fdevent_add :: "nat \<Rightarrow> u32 \<Rightarrow> fdst \<Rightarrow> fdst res" where
  "fdevent_add a evs st =
     fdevent_set a (ucast (fde_state (fdes st a) AND FDE_EVENTMASK) OR
       (evs AND ucast FDE_EVENTMASK)) st"

definition fdevent_del :: "nat \<Rightarrow> u32 \<Rightarrow> fdst \<Rightarrow> fdst res" where
  "fdevent_del a evs st =
     fdevent_set a (ucast (fde_state (fdes st a) AND FDE_EVENTMASK) AND
       NOT (evs AND ucast FDE_EVENTMASK)) st"

section \<open>Running the callbacks\<close>

text \<open>
  \<open>fdevent_call_fdfunc\<close>: the call of \<open>fde->func\<close> is a parameter, the behaviour of the
  callbacks on the whole state, of which the event state is a part.
\<close>

definition fdevent_call_fdfunc ::
    "(fd_func \<Rightarrow> int \<Rightarrow> u16 \<Rightarrow> nat \<Rightarrow> fdst \<Rightarrow> fdst res) \<Rightarrow> nat \<Rightarrow> fdst \<Rightarrow> fdst res" where
  "fdevent_call_fdfunc call a st =
     (let events = fde_events (fdes st a);
          st = upd_fde a (\<lambda>f. f\<lparr>fde_events := 0\<rparr>) st in
      if fde_state (fdes st a) AND FDE_PENDING = 0 then Inr st
      else
        let st = upd_fde a (\<lambda>f. f\<lparr>fde_state := fde_state f AND NOT FDE_PENDING\<rparr>) st in
        call (fde_func (fdes st a)) (fde_fd (fdes st a)) events (fde_arg (fdes st a)) st)"

text \<open>
  \<open>fdevent_subproc_event_func\<close>. The descriptor is non-blocking, so a read that finds too
  little fails; \<open>k\<close> are the answers to the reads, \<open>rcount\<close> what \<open>FIONREAD\<close> reports.
\<close>

definition subproc_event ::
    "(fd_func \<Rightarrow> int \<Rightarrow> u16 \<Rightarrow> nat \<Rightarrow> fdst \<Rightarrow> fdst res) \<Rightarrow> rd_answer list \<Rightarrow> (int \<Rightarrow> int) \<Rightarrow>
     int \<Rightarrow> u16 \<Rightarrow> fdst \<Rightarrow> fdst res" where
  "subproc_event call k rcount fd ev st =
     (if fd < 0 \<or> fd \<ge> int (length (fd_table st)) then Inl Abort
      else
        seq (ptr (fd_table st ! nat fd)) (\<lambda>fde.
        seq (fdevent_add fde (ucast FDE_READ) st) (\<lambda>st.
        if ev AND FDE_READ \<noteq> 0 then
          (case readx 4 k of
             Some (Some bs, _) \<Rightarrow>
               let subproc_fd = sint (of_le32 bs) in
               if subproc_fd < 0 \<or> subproc_fd \<ge> int (length (fd_table st)) then Inr st
               else (case fd_table st ! nat subproc_fd of
                   None \<Rightarrow> Inr st
                 | Some sub \<Rightarrow>
                     if fde_fd (fdes st sub) \<noteq> subproc_fd then Inr st
                     else
                       let st = upd_fde sub (\<lambda>f. f\<lparr>force_eof := True\<rparr>) st in
                       if rcount subproc_fd \<noteq> 0 then Inr st
                       else
                         let st = upd_fde sub (\<lambda>f. f\<lparr>fde_events := fde_events f OR FDE_READ\<rparr>) st in
                         if fde_state (fdes st sub) AND FDE_PENDING \<noteq> 0 then Inr st
                         else
                           let st = upd_fde sub (\<lambda>f. f\<lparr>fde_state := fde_state f OR FDE_PENDING\<rparr>) st in
                           fdevent_call_fdfunc call sub st)
           | _ \<Rightarrow> Inl Abort)
        else Inr st)))"

text \<open>\<open>sp\<close> is the result of \<open>adb_socketpair\<close>; the second descriptor is \<open>SHELL_EXIT_NOTIFY_FD\<close>.\<close>

definition fdevent_subproc_setup :: "(int \<times> int) option \<Rightarrow> nat \<Rightarrow> fdst \<Rightarrow> (fdst \<times> int) res" where
  "fdevent_subproc_setup sp a st =
     (case sp of
        None \<Rightarrow> Inl Abort
      | Some (s0, s1) \<Rightarrow>
          seq (fdevent_create a s0 fdevent_subproc_event_func 0 st) (\<lambda>st.
          seq (fdevent_add a (ucast FDE_READ) st) (\<lambda>st. Inr (st, s1))))"

text \<open>The inner loop of \<open>fdevent_loop\<close>; \<open>None\<close> when the callbacks keep it running forever.\<close>

partial_function (option) fdevent_drain ::
    "(fd_func \<Rightarrow> int \<Rightarrow> u16 \<Rightarrow> nat \<Rightarrow> fdst \<Rightarrow> fdst res) \<Rightarrow> fdst \<Rightarrow> fdst res option" where
  "fdevent_drain call st =
     (case fdevent_plist_dequeue list_pending (plinks st) of
        Inl e \<Rightarrow> Some (Inl e)
      | Inr (None, l) \<Rightarrow> Some (Inr (st\<lparr>plinks := l\<rparr>))
      | Inr (Some fde, l) \<Rightarrow>
          (case fdevent_call_fdfunc call fde (st\<lparr>plinks := l\<rparr>) of
             Inl e \<Rightarrow> Some (Inl e)
           | Inr st' \<Rightarrow> fdevent_drain call st'))"

text \<open>One turn of the outer loop.\<close>

definition fdevent_turn ::
    "(fd_func \<Rightarrow> int \<Rightarrow> u16 \<Rightarrow> nat \<Rightarrow> fdst \<Rightarrow> fdst res) \<Rightarrow> sel_answer \<Rightarrow> nat set \<Rightarrow> fdst \<Rightarrow>
     fdst res option" where
  "fdevent_turn call answer bad st =
     (case fdevent_process answer bad st of
        Inl e \<Rightarrow> Some (Inl e)
      | Inr st \<Rightarrow> fdevent_drain call st)"

section \<open>Bits\<close>

lemma fde_test [simp]:
  "(x :: u16) AND FDE_READ = 0 \<longleftrightarrow> \<not> bit x 0"
  "x AND FDE_WRITE = 0 \<longleftrightarrow> \<not> bit x 1"
  "x AND FDE_ERROR = 0 \<longleftrightarrow> \<not> bit x 2"
  "x AND FDE_DONT_CLOSE = 0 \<longleftrightarrow> \<not> bit x 7"
  "x AND FDE_ACTIVE = 0 \<longleftrightarrow> \<not> bit x 8"
  "x AND FDE_PENDING = 0 \<longleftrightarrow> \<not> bit x 9"
  "x AND FDE_CREATED = 0 \<longleftrightarrow> \<not> bit x 10"
  using and_exp_eq_0_iff_not_bit [of x 0] and_exp_eq_0_iff_not_bit [of x 1]
    and_exp_eq_0_iff_not_bit [of x 2] and_exp_eq_0_iff_not_bit [of x 7]
    and_exp_eq_0_iff_not_bit [of x 8] and_exp_eq_0_iff_not_bit [of x 9]
    and_exp_eq_0_iff_not_bit [of x 10]
  by (simp_all add: fde_defs)

lemma bit_masks [simp]:
  "bit FDE_EVENTMASK 0" "bit FDE_EVENTMASK (Suc 0)" "bit FDE_EVENTMASK 2" "bit FDE_EVENTMASK 7"
  "\<not> bit FDE_EVENTMASK 8" "\<not> bit FDE_EVENTMASK 9" "\<not> bit FDE_EVENTMASK 10"
  "\<not> bit FDE_STATEMASK 0" "\<not> bit FDE_STATEMASK (Suc 0)" "\<not> bit FDE_STATEMASK 2"
  "\<not> bit FDE_STATEMASK 7" "bit FDE_STATEMASK 8" "bit FDE_STATEMASK 9" "bit FDE_STATEMASK 10"
  "bit FDE_ACTIVE 8" "\<not> bit FDE_ACTIVE 9" "\<not> bit FDE_ACTIVE 0" "\<not> bit FDE_ACTIVE (Suc 0)"
  "\<not> bit FDE_ACTIVE 2" "\<not> bit FDE_ACTIVE 7" "\<not> bit FDE_ACTIVE 10"
  "\<not> bit FDE_PENDING 8" "bit FDE_PENDING 9" "\<not> bit FDE_PENDING 0" "\<not> bit FDE_PENDING (Suc 0)"
  "\<not> bit FDE_PENDING 2" "\<not> bit FDE_PENDING 7" "\<not> bit FDE_PENDING 10"
  "\<not> bit FDE_CREATED 8" "\<not> bit FDE_CREATED 9" "\<not> bit FDE_CREATED 0"
  "\<not> bit FDE_CREATED (Suc 0)" "\<not> bit FDE_CREATED 2" "bit FDE_CREATED 10"
  by (simp_all add: fde_defs)

lemma bit_u16_ops [simp]:
  "bit ((x :: u16) AND y) n = (bit x n \<and> bit y n)"
  "bit (x OR y) n = (bit x n \<or> bit y n)"
  by (simp_all add: bit_and_iff bit_or_iff)

lemma bit_u16_not [simp]:
  "bit (NOT (x :: u16)) 0 = (\<not> bit x 0)" "bit (NOT x) (Suc 0) = (\<not> bit x (Suc 0))"
  "bit (NOT x) 2 = (\<not> bit x 2)" "bit (NOT x) 7 = (\<not> bit x 7)" "bit (NOT x) 8 = (\<not> bit x 8)"
  "bit (NOT x) 9 = (\<not> bit x 9)" "bit (NOT x) 10 = (\<not> bit x 10)"
  by (simp_all add: bit_not_iff)

lemma remask: "((x :: u16) AND m OR e) AND m OR e = x AND m OR e"
  by (rule bit_word_eqI) auto

text \<open>Updates of different fields in one order.\<close>

lemma upd_order:
  "f\<lparr>fde_events := e, fde_state := s\<rparr> = f\<lparr>fde_state := s, fde_events := e\<rparr>"
  "st\<lparr>fdes := h, read_fds := R\<rparr> = st\<lparr>read_fds := R, fdes := h\<rparr>"
  "st\<lparr>fdes := h, write_fds := R\<rparr> = st\<lparr>write_fds := R, fdes := h\<rparr>"
  "st\<lparr>fdes := h, error_fds := R\<rparr> = st\<lparr>error_fds := R, fdes := h\<rparr>"
  "st\<lparr>fdes := h, plinks := l\<rparr> = st\<lparr>plinks := l, fdes := h\<rparr>"
  "st\<lparr>read_fds := R, plinks := l\<rparr> = st\<lparr>plinks := l, read_fds := R\<rparr>"
  "st\<lparr>write_fds := R, plinks := l\<rparr> = st\<lparr>plinks := l, write_fds := R\<rparr>"
  "st\<lparr>error_fds := R, plinks := l\<rparr> = st\<lparr>plinks := l, error_fds := R\<rparr>"
  by simp_all

section \<open>The invariant\<close>

abbreviation active :: "fdst \<Rightarrow> nat \<Rightarrow> bool" where
  "active st a \<equiv> bit (fde_state (fdes st a)) 8"

abbreviation pending :: "fdst \<Rightarrow> nat \<Rightarrow> bool" where
  "pending st a \<equiv> bit (fde_state (fdes st a)) 9"

text \<open>The event registered for a descriptor.\<close>

definition reg :: "fdst \<Rightarrow> nat \<Rightarrow> nat option" where
  "reg st i = (if i < length (fd_table st) then fd_table st ! i else None)"

text \<open>A set given to \<open>select\<close> holds the descriptors whose event asks for bit \<open>n\<close>.\<close>

definition watches :: "fdst \<Rightarrow> nat \<Rightarrow> nat set" where
  "watches st n = {i. \<exists>a. reg st i = Some a \<and> bit (fde_state (fdes st a)) n}"

definition fd_inv :: "fdst \<Rightarrow> nat list \<Rightarrow> bool" where
  "fd_inv st xs \<longleftrightarrow>
     ring (plinks st) list_pending xs \<and>
     (\<forall>a. a \<in> set xs \<longleftrightarrow> pending st a) \<and>
     (\<forall>a. pending st a \<longleftrightarrow> fde_events (fdes st a) \<noteq> 0) \<and>
     (\<forall>a. pending st a \<longrightarrow> active st a) \<and>
     (\<forall>a. active st a \<longrightarrow> 0 \<le> fde_fd (fdes st a) \<and> reg st (nat (fde_fd (fdes st a))) = Some a) \<and>
     (\<forall>i a. reg st i = Some a \<longrightarrow> active st a \<and> fde_fd (fdes st a) = int i \<and> i < select_n st) \<and>
     read_fds st = watches st 0 \<and> write_fds st = watches st 1 \<and> error_fds st = watches st 2 \<and>
     select_n st \<le> length (fd_table st) \<and> select_n st \<le> FD_SETSIZE \<and>
     \<not> active st list_pending"

lemma upd_fde_simps [simp]:
  "fdes (upd_fde a f st) = (fdes st)(a := f (fdes st a))"
  "plinks (upd_fde a f st) = plinks st" "fd_table (upd_fde a f st) = fd_table st"
  "read_fds (upd_fde a f st) = read_fds st" "write_fds (upd_fde a f st) = write_fds st"
  "error_fds (upd_fde a f st) = error_fds st" "select_n (upd_fde a f st) = select_n st"
  "closed (upd_fde a f st) = closed st" "reg (upd_fde a f st) = reg st"
  by (simp_all add: upd_fde_def reg_def fun_eq_iff)

lemma reg_simps [simp]:
  "reg (st\<lparr>plinks := l\<rparr>) = reg st" "reg (st\<lparr>read_fds := s\<rparr>) = reg st"
  "reg (st\<lparr>write_fds := s\<rparr>) = reg st" "reg (st\<lparr>error_fds := s\<rparr>) = reg st"
  "reg (st\<lparr>select_n := n\<rparr>) = reg st" "reg (st\<lparr>closed := c\<rparr>) = reg st"
  by (simp_all add: reg_def fun_eq_iff)

lemma fd_inv_start: "fd_inv fd_start []"
  by (simp add: fd_inv_def fd_start_def ring_Nil_iff fdevent_zero_def reg_def watches_def)

lemma fd_invD:
  assumes "fd_inv st xs"
  shows "ring (plinks st) list_pending xs" "a \<in> set xs \<longleftrightarrow> pending st a"
    "pending st a \<longleftrightarrow> fde_events (fdes st a) \<noteq> 0" "pending st a \<Longrightarrow> active st a"
    "active st a \<Longrightarrow> 0 \<le> fde_fd (fdes st a) \<and> reg st (nat (fde_fd (fdes st a))) = Some a"
    "reg st i = Some a \<Longrightarrow> active st a \<and> fde_fd (fdes st a) = int i \<and> i < select_n st"
    "read_fds st = watches st 0" "write_fds st = watches st 1" "error_fds st = watches st 2"
    "select_n st \<le> length (fd_table st)" "select_n st \<le> FD_SETSIZE" "\<not> active st list_pending"
  using assms unfolding fd_inv_def by blast+

text \<open>The descriptor of an active event is in range for the table and the sets.\<close>

lemma active_range:
  assumes "fd_inv st xs" and "active st a"
  shows "0 \<le> fde_fd (fdes st a)" "nat (fde_fd (fdes st a)) < select_n st"
    "nat (fde_fd (fdes st a)) < length (fd_table st)" "fde_fd (fdes st a) < int FD_SETSIZE"
    "fd_table st ! nat (fde_fd (fdes st a)) = Some a"
proof -
  note r = fd_invD(5) [OF assms]
  from r fd_invD(6) [OF assms(1)] have s: "nat (fde_fd (fdes st a)) < select_n st" by blast
  with fd_invD(10,11) [OF assms(1)] r show "0 \<le> fde_fd (fdes st a)"
    "nat (fde_fd (fdes st a)) < select_n st" "nat (fde_fd (fdes st a)) < length (fd_table st)"
    "fde_fd (fdes st a) < int FD_SETSIZE" "fd_table st ! nat (fde_fd (fdes st a)) = Some a"
    by (auto simp: reg_def)
qed

text \<open>Two active events have different descriptors.\<close>

lemma active_inj:
  "fd_inv st xs \<Longrightarrow> active st a \<Longrightarrow> active st b \<Longrightarrow> fde_fd (fdes st a) = fde_fd (fdes st b) \<Longrightarrow> a = b"
  by (metis fd_invD(5) option.inject)

text \<open>One change of an active event, with its effect on the sets and the pending list.\<close>

definition put :: "bool \<Rightarrow> nat \<Rightarrow> nat set \<Rightarrow> nat set" where
  "put b i S = (if b then insert i S else S - {i})"

lemma fd_put_eq: "0 \<le> fd \<Longrightarrow> fd < int FD_SETSIZE \<Longrightarrow> fd_put b fd S = Inr (put b (nat fd) S)"
  by (simp add: fd_put_def put_def)

lemma watches_upd:
  assumes "fd_inv st xs" and "active st a"
  shows "watches (upd_fde a f st) n =
    put (bit (fde_state (f (fdes st a))) n) (nat (fde_fd (fdes st a))) (watches st n)"
proof (rule set_eqI)
  fix i
  have ra: "reg st (nat (fde_fd (fdes st a))) = Some a"
    using fd_invD(5) [OF assms] by simp
  have "i = nat (fde_fd (fdes st a))" if "reg st i = Some a"
    using fd_invD(6) [OF assms(1) that] by simp
  with ra show "i \<in> watches (upd_fde a f st) n \<longleftrightarrow>
      i \<in> put (bit (fde_state (f (fdes st a))) n) (nat (fde_fd (fdes st a))) (watches st n)"
    by (cases "reg st i"; cases "reg st i = Some a") (auto simp: watches_def put_def)
qed

lemma watches_frame:
  "fdes st' = fdes st \<Longrightarrow> reg st' = reg st \<Longrightarrow> watches st' n = watches st n"
  by (simp add: watches_def)

lemma watches_upd_inactive:
  assumes "fd_inv st xs" and "\<not> active st a"
  shows "watches (upd_fde a f st) n = watches st n"
proof (rule set_eqI)
  fix i
  have "reg st i \<noteq> Some a"
    using fd_invD(6) [OF assms(1)] assms(2) by blast
  then show "i \<in> watches (upd_fde a f st) n \<longleftrightarrow> i \<in> watches st n"
    by (auto simp: watches_def)
qed

lemma put_same:
  assumes "fd_inv st xs" and "active st a"
  shows "put (bit (fde_state (fdes st a)) n) (nat (fde_fd (fdes st a))) (watches st n) = watches st n"
proof -
  have "nat (fde_fd (fdes st a)) \<in> watches st n \<longleftrightarrow> bit (fde_state (fdes st a)) n"
    using fd_invD(5) [OF assms] by (simp add: watches_def)
  then show ?thesis
    by (auto simp: put_def)
qed

lemma fd_inv_upd:
  assumes inv: "fd_inv st xs" and act: "active st a"
    and keep: "fde_fd (f (fdes st a)) = fde_fd (fdes st a)" "bit (fde_state (f (fdes st a))) 8"
    and pend: "bit (fde_state (f (fdes st a))) 9 \<longleftrightarrow> fde_events (f (fdes st a)) \<noteq> 0"
    and rg: "ring l list_pending ys"
      "set ys = (if bit (fde_state (f (fdes st a))) 9 then insert a (set xs) else set xs - {a})"
    and sets: "r = put (bit (fde_state (f (fdes st a))) 0) (nat (fde_fd (fdes st a))) (read_fds st)"
      "w = put (bit (fde_state (f (fdes st a))) 1) (nat (fde_fd (fdes st a))) (write_fds st)"
      "e = put (bit (fde_state (f (fdes st a))) 2) (nat (fde_fd (fdes st a))) (error_fds st)"
  shows "fd_inv ((upd_fde a f st)\<lparr>plinks := l, read_fds := r, write_fds := w, error_fds := e\<rparr>) ys"
proof -
  let ?st = "(upd_fde a f st)\<lparr>plinks := l, read_fds := r, write_fds := w, error_fds := e\<rparr>"
  note D = fd_invD [OF inv]
  have "watches ?st n = watches (upd_fde a f st) n" for n
    by (rule watches_frame) simp_all
  then have W: "watches ?st n =
      put (bit (fde_state (f (fdes st a))) n) (nat (fde_fd (fdes st a))) (watches st n)" for n
    using watches_upd [OF inv act] by simp
  show ?thesis
    unfolding fd_inv_def W
    using rg pend keep sets D(2) D(3) D(4) D(5) D(6) D(7,8,9,10,11,12) act
    by (intro conjI allI impI) (auto split: if_splits)
qed

text \<open>The same with the sets unchanged, for the bits of the state above the events.\<close>

lemma fd_inv_upd_pending:
  assumes inv: "fd_inv st xs" and act: "active st a"
    and keep: "fde_fd (f (fdes st a)) = fde_fd (fdes st a)" "bit (fde_state (f (fdes st a))) 8"
      "\<And>n. n \<in> {0, 1, 2} \<Longrightarrow> bit (fde_state (f (fdes st a))) n = bit (fde_state (fdes st a)) n"
    and pend: "bit (fde_state (f (fdes st a))) 9 \<longleftrightarrow> fde_events (f (fdes st a)) \<noteq> 0"
    and rg: "ring l list_pending ys"
      "set ys = (if bit (fde_state (f (fdes st a))) 9 then insert a (set xs) else set xs - {a})"
  shows "fd_inv ((upd_fde a f st)\<lparr>plinks := l\<rparr>) ys"
proof -
  have "fd_inv ((upd_fde a f st)\<lparr>plinks := l, read_fds := read_fds st, write_fds := write_fds st,
      error_fds := error_fds st\<rparr>) ys"
    by (rule fd_inv_upd [where f = f, OF inv act keep(1,2) pend rg])
      (use put_same [OF inv act] fd_invD(7,8,9) [OF inv] keep(3) in simp_all)
  then show ?thesis
    by (simp add: upd_fde_def)
qed

text \<open>An event that is not registered can hold anything but a registration.\<close>

lemma fd_inv_upd_inactive:
  assumes inv: "fd_inv st xs" and act: "\<not> active st a"
    and keep: "\<not> bit (fde_state (f (fdes st a))) 8" "\<not> bit (fde_state (f (fdes st a))) 9"
      "fde_events (f (fdes st a)) = 0"
  shows "fd_inv (upd_fde a f st) xs"
proof -
  note D = fd_invD [OF inv]
  have p: "\<not> pending st a" using D(4) act by blast
  show ?thesis
    unfolding fd_inv_def watches_upd_inactive [OF inv act]
    using keep act p D(1) D(2) D(3) D(4) D(5) D(6) D(7,8,9,10,11,12)
    by (intro conjI allI impI) (auto split: if_splits)
qed

section \<open>Changing the events of interest\<close>

text \<open>
  The bits of the event after \<open>fdevent_set\<close> and what it leaves alone. A pending event
  loses the events that are now set.
\<close>

definition after_set :: "nat \<Rightarrow> u16 \<Rightarrow> fdst \<Rightarrow> fdevent" where
  "after_set a events st =
     (let f = fdes st a; ev = fde_events f AND NOT events;
          s = (fde_state f AND FDE_STATEMASK) OR events in
      if pending st a then
        f\<lparr>fde_events := ev, fde_state := (if ev = 0 then s AND NOT FDE_PENDING else s)\<rparr>
      else f\<lparr>fde_state := s\<rparr>)"

lemma fdevent_set_active:
  assumes inv: "fd_inv st xs" and act: "active st a"
    and ev: "events = ucast evs AND FDE_EVENTMASK"
    and new: "fde_state (fdes st a) AND FDE_EVENTMASK \<noteq> events"
  shows "\<exists>st'. fdevent_set a evs st = Inr st' \<and>
    fd_inv st' (if pending st a \<and> fde_events (fdes st a) AND NOT events = 0 then remove1 a xs else xs) \<and>
    fdes st' = (fdes st)(a := after_set a events st) \<and> reg st' = reg st \<and> closed st' = closed st"
proof -
  note A = active_range [OF inv act]
  note D = fd_invD [OF inv]
  define i where "i = nat (fde_fd (fdes st a))"
  define F where "F = (\<lambda>_ :: fdevent. after_set a events st)"
  define S where "S = (\<lambda>l. (upd_fde a F st)\<lparr>plinks := l, read_fds := put (bit events 0) i (read_fds st),
    write_fds := put (bit events 1) i (write_fds st),
    error_fds := put (bit events 2) i (error_fds st)\<rparr>)"
  have b: "\<not> bit events 8" "\<not> bit events 9" by (simp_all add: ev)
  have F: "fde_fd (F f) = fde_fd (fdes st a)" "bit (fde_state (F f)) 8"
    "n \<in> {0, 1, 2} \<Longrightarrow> bit (fde_state (F f)) n = bit events n"
    "bit (fde_state (F f)) 9 \<longleftrightarrow> fde_events (F f) \<noteq> 0"
    "bit (fde_state (F f)) 9 \<longleftrightarrow> pending st a \<and> fde_events (fdes st a) AND NOT events \<noteq> 0" for f n
    using b act D(3) [of a]
    by (auto simp: F_def after_set_def Let_def)
  have S: "fd_inv (S l) ys" if "ring l list_pending ys"
    "set ys = (if bit (fde_state (F f)) 9 then insert a (set xs) else set xs - {a})" for l ys f
    unfolding S_def
    by (rule fd_inv_upd [where f = F, OF inv act F(1,2,4) that(1)])
      (use that(2) F(3,5) in \<open>simp_all add: i_def\<close>)
  have Sf: "fdes (S l) = (fdes st)(a := after_set a events st)" "reg (S l) = reg st"
    "closed (S l) = closed st" for l
    by (simp_all add: S_def F_def)
  have set_eq: "fdevent_set a evs st =
      (if pending st a then
         if fde_events (fdes st a) AND NOT events = 0
         then seq (fdevent_plist_remove a (plinks st)) (\<lambda>l. Inr (S l)) else Inr (S (plinks st))
       else Inr (S (plinks st)))"
    using A(1,4) act b new unfolding fdevent_set_def ev [symmetric] Let_def
    by (simp add: fdevent_update_def fd_put_eq S_def F_def i_def after_set_def Let_def upd_fde_def
        remask upd_order)
  show ?thesis
  proof (cases "pending st a \<and> fde_events (fdes st a) AND NOT events = 0")
    case True
    with D(2) obtain l where l: "fdevent_plist_remove a (plinks st) = Inr l"
      "ring l list_pending (remove1 a xs)"
      using plist.del_ring [OF D(1), of a] by blast
    have "set (remove1 a xs) = set xs - {a}"
      using D(1) by (simp add: ring_def)
    with l True set_eq S [OF l(2)] F(5) Sf show ?thesis by auto
  next
    case False
    have "set xs = (if bit (fde_state (F f)) 9 then insert a (set xs) else set xs - {a})" for f
      using False F(5) D(2) [of a] by auto
    with False set_eq S [OF D(1)] Sf show ?thesis by auto
  qed
qed

lemma fdevent_set_inactive:
  assumes inv: "fd_inv st xs" and act: "\<not> active st a"
    and ev: "events = ucast evs AND FDE_EVENTMASK"
    and new: "fde_state (fdes st a) AND FDE_EVENTMASK \<noteq> events"
  shows "\<exists>st'. fdevent_set a evs st = Inr st' \<and> fd_inv st' xs \<and>
    fdes st' = (fdes st)(a := after_set a events st) \<and> reg st' = reg st \<and> closed st' = closed st"
proof -
  note D = fd_invD [OF inv]
  have p: "\<not> pending st a" using D(4) act by blast
  have b: "\<not> bit events 8" "\<not> bit events 9" by (simp_all add: ev)
  define F where "F = (\<lambda>_ :: fdevent. after_set a events st)"
  have "fd_inv (upd_fde a F st) xs"
    by (rule fd_inv_upd_inactive [OF inv act]) (use act p b D(3) [of a] in \<open>simp_all add: F_def after_set_def Let_def\<close>)
  moreover have "fdevent_set a evs st = Inr (upd_fde a F st)"
    using act p b new unfolding fdevent_set_def ev [symmetric] Let_def
    by (simp add: F_def after_set_def Let_def upd_fde_def)
  ultimately show ?thesis
    by (simp add: F_def)
qed

definition set_list :: "nat \<Rightarrow> u16 \<Rightarrow> fdst \<Rightarrow> nat list \<Rightarrow> nat list" where
  "set_list a events st xs =
     (if fde_state (fdes st a) AND FDE_EVENTMASK \<noteq> events \<and> pending st a \<and>
         fde_events (fdes st a) AND NOT events = 0 then remove1 a xs else xs)"

lemma fdevent_set_spec:
  assumes inv: "fd_inv st xs" and ev: "events = ucast evs AND FDE_EVENTMASK"
  shows "\<exists>st'. fdevent_set a evs st = Inr st' \<and> fd_inv st' (set_list a events st xs) \<and>
    fdes st' = (if fde_state (fdes st a) AND FDE_EVENTMASK = events then fdes st
                else (fdes st)(a := after_set a events st)) \<and>
    reg st' = reg st \<and> closed st' = closed st"
proof (cases "fde_state (fdes st a) AND FDE_EVENTMASK = events")
  case True
  then show ?thesis
    using inv by (simp add: fdevent_set_def Let_def ev set_list_def)
next
  case False
  show ?thesis
  proof (cases "active st a")
    case True
    then show ?thesis
      using fdevent_set_active [OF inv True ev False] False by (simp add: set_list_def)
  next
    case na: False
    then have "\<not> pending st a" using fd_invD(4) [OF inv] by blast
    then show ?thesis
      using fdevent_set_inactive [OF inv na ev False] False by (simp add: set_list_def)
  qed
qed

lemma length_set_list: "length (set_list a e st xs) \<le> length xs"
  by (auto simp: set_list_def length_remove1)

section \<open>Registering and removing events\<close>

lemma grow_greater: "0 < m \<Longrightarrow> fd < int (grow m fd)"
  by (induction m fd rule: grow.induct) (subst grow.simps, auto)

lemma grow_ge: "m \<le> grow m fd"
  by (induction m fd rule: grow.induct) (subst grow.simps, auto)

lemma fdevent_register_eq:
  assumes "0 \<le> fde_fd (fdes st a)" "fde_fd (fdes st a) < int FD_SETSIZE"
    and "fd_table st = [] \<Longrightarrow> read_fds st = {} \<and> write_fds st = {} \<and> error_fds st = {}"
  shows "\<exists>t. fdevent_register a st = Inr (st\<lparr>fd_table := t\<rparr>) \<and>
    nat (fde_fd (fdes st a)) < length t \<and> length (fd_table st) \<le> length t \<and>
    (\<forall>i. (if i < length t then t ! i else None) =
       (if i = nat (fde_fd (fdes st a)) then Some a else reg st i))"
proof (cases "fde_fd (fdes st a) \<ge> int (length (fd_table st))")
  case False
  with assms(1) show ?thesis
    by (intro exI [of _ "(fd_table st)[nat (fde_fd (fdes st a)) := Some a]"])
      (auto simp: fdevent_register_def Let_def reg_def)
next
  case True
  define m where "m = (if length (fd_table st) = 0 then 256 else length (fd_table st))"
  define g where "g = grow m (fde_fd (fdes st a))"
  define t where "t = (fd_table st @ replicate (g - length (fd_table st)) None)
      [nat (fde_fd (fdes st a)) := Some a]"
  have g: "fde_fd (fdes st a) < int g" "length (fd_table st) \<le> g"
    using grow_greater [of m "fde_fd (fdes st a)"] grow_ge [of m "fde_fd (fdes st a)"]
    by (auto simp: g_def m_def split: if_splits)
  have "(if fd_table st = [] then fdevent_init st else st) = st"
    using assms(3) by (simp add: fdevent_init_def)
  then have "fdevent_register a st = Inr (st\<lparr>fd_table := t\<rparr>)"
    using True assms(1,2) unfolding fdevent_register_def Let_def
    by (simp add: FD_SETSIZE_def t_def g_def m_def)
  moreover have "nat (fde_fd (fdes st a)) < length t" "length (fd_table st) \<le> length t"
    using g assms(1) by (auto simp: t_def)
  moreover have "(if i < length t then t ! i else None) =
      (if i = nat (fde_fd (fdes st a)) then Some a else reg st i)" for i
    using g assms(1) by (auto simp: t_def reg_def nth_append nth_list_update)
  ultimately show ?thesis by blast
qed

lemma fdevent_install_spec:
  assumes inv: "fd_inv st xs" and a: "a \<noteq> list_pending" "\<not> active st a"
    and fd: "0 \<le> fd" "fd < int FD_SETSIZE" "reg st (nat fd) = None"
  shows "\<exists>st'. fdevent_install a fd func arg st = Inr st' \<and> fd_inv st' xs \<and>
    fdes st' = (fdes st)(a := fdevent_zero\<lparr>fde_state := FDE_ACTIVE, fde_fd := fd, fde_func := func,
      fde_arg := arg\<rparr>) \<and>
    reg st' = (reg st)(nat fd := Some a) \<and> closed st' = closed st"
proof -
  note D = fd_invD [OF inv]
  define F where "F = fdevent_zero\<lparr>fde_state := FDE_ACTIVE, fde_fd := fd, fde_func := func, fde_arg := arg\<rparr>"
  have F: "fde_state F = FDE_ACTIVE" "fde_events F = 0" "fde_fd F = fd"
    by (simp_all add: F_def fdevent_zero_def)
  have ax: "a \<notin> set xs" using D(2,4) a(2) by blast
  define l where "l = set_prv a None (set_nxt a None (plinks st))"
  have "ring l list_pending xs = ring (plinks st) list_pending xs"
    by (rule ring_cong) (use ax a(1) in \<open>auto simp: l_def\<close>)
  then have rl: "ring l list_pending xs" using D(1) by simp
  define st1 where "st1 = upd_fde a (\<lambda>_. F) (st\<lparr>plinks := l\<rparr>)"
  have "fd_table st1 = [] \<Longrightarrow> read_fds st1 = {} \<and> write_fds st1 = {} \<and> error_fds st1 = {}"
    using D(7,8,9) by (simp add: st1_def watches_def reg_def)
  then obtain t where t: "fdevent_register a st1 = Inr (st1\<lparr>fd_table := t\<rparr>)"
    "nat fd < length t" "length (fd_table st) \<le> length t"
    "\<And>i. (if i < length t then t ! i else None) = (if i = nat fd then Some a else reg st i)"
    using fdevent_register_eq [of st1 a] fd F by (auto simp: st1_def)
  define n where "n = (if fd \<ge> int (select_n st) then nat fd + 1 else select_n st)"
  define st2 where "st2 = st1\<lparr>fd_table := t, select_n := n\<rparr>"
  have "FDE_ACTIVE OR FDE_ACTIVE = FDE_ACTIVE" by simp
  then have eq: "fdevent_install a fd func arg st = Inr st2"
    unfolding fdevent_install_def
    using t(1) fd(1) F by (simp add: Let_def st1_def [symmetric, unfolded l_def F_def]
        fdevent_connect_def st2_def n_def upd_fde_def st1_def l_def F_def fdevent_zero_def)
  have r: "reg st2 = (reg st)(nat fd := Some a)"
  proof
    fix i
    show "reg st2 i = ((reg st)(nat fd := Some a)) i"
      using t(4) [of i] by (simp add: reg_def [of "st1\<lparr>fd_table := t\<rparr>"] st2_def split: if_splits)
  qed
  have f2: "fdes st2 = (fdes st)(a := F)"
    by (simp add: st2_def st1_def)
  have sn: "select_n st2 = n" by (simp add: st2_def)
  have na: "reg st i \<noteq> Some a" for i using D(6) a(2) by blast
  have w: "watches st2 k = watches st k" if "\<not> bit FDE_ACTIVE k" for k
  proof (rule set_eqI)
    fix i
    show "i \<in> watches st2 k \<longleftrightarrow> i \<in> watches st k"
      using that na [of i] fd(3) F by (cases "reg st i") (auto simp: watches_def r f2)
  qed
  have "fd_inv st2 xs"
    unfolding fd_inv_def
  proof (intro conjI allI impI)
    show "ring (plinks st2) list_pending xs" using rl by (simp add: st2_def st1_def)
    show "b \<in> set xs \<longleftrightarrow> pending st2 b" for b using D(2) [of b] ax F by (auto simp: f2)
    show "pending st2 b \<longleftrightarrow> fde_events (fdes st2 b) \<noteq> 0" for b using D(3) [of b] F by (simp add: f2)
    show "pending st2 b \<Longrightarrow> active st2 b" for b using D(4) [of b] F by (simp add: f2 split: if_splits)
    show "0 \<le> fde_fd (fdes st2 b)" "reg st2 (nat (fde_fd (fdes st2 b))) = Some b" if "active st2 b" for b
      using that D(5) [of b] F fd(1,3) by (auto simp: f2 r split: if_splits)
    show "active st2 b" "fde_fd (fdes st2 b) = int i" "i < select_n st2" if "reg st2 i = Some b" for i b
      using that D(6) [of i b] na [of i] F fd(1) sn
      by (auto simp: f2 r n_def split: if_splits)
    show "read_fds st2 = watches st2 0" using D(7) w by (simp add: st2_def st1_def)
    show "write_fds st2 = watches st2 1" using D(8) w by (simp add: st2_def st1_def)
    show "error_fds st2 = watches st2 2" using D(9) w by (simp add: st2_def st1_def)
    show "select_n st2 \<le> length (fd_table st2)" using D(10) t(2,3) by (simp add: st2_def n_def)
    show "select_n st2 \<le> FD_SETSIZE" using D(11) fd(2) by (auto simp: st2_def n_def)
    show "\<not> active st2 list_pending" using D(12) a(1) by (simp add: f2)
  qed
  with eq f2 r show ?thesis
    by (auto simp: F_def st2_def st1_def)
qed

lemma highest_used_spec:
  assumes "i + k \<le> length table"
  shows "\<exists>m. highest_used table k i n = Inr m \<and>
    (\<forall>j. i \<le> j \<and> j < i + k \<and> table ! j \<noteq> None \<longrightarrow> j \<le> m) \<and> (m = n \<or> i \<le> m \<and> m < i + k)"
  using assms
proof (induction table k i n rule: highest_used.induct)
  case (2 table k i n)
  then obtain m where m: "highest_used table k (Suc i) (if table ! i \<noteq> None then i else n) = Inr m"
    "\<forall>j. Suc i \<le> j \<and> j < Suc i + k \<and> table ! j \<noteq> None \<longrightarrow> j \<le> m"
    "m = (if table ! i \<noteq> None then i else n) \<or> Suc i \<le> m \<and> m < Suc i + k"
    by auto
  have "j \<le> m" if "i \<le> j" "j < i + Suc k" "table ! j \<noteq> None" for j
    using that m(2,3) by (cases "j = i") auto
  with m "2.prems" show ?case by auto
qed simp

lemma fdevent_disconnect_spec:
  assumes inv: "fd_inv st xs" and act: "active st a"
  shows "\<exists>n. fdevent_disconnect a (st\<lparr>plinks := l\<rparr>) = Inr (st\<lparr>plinks := l,
      read_fds := put False (nat (fde_fd (fdes st a))) (read_fds st),
      write_fds := put False (nat (fde_fd (fdes st a))) (write_fds st),
      error_fds := put False (nat (fde_fd (fdes st a))) (error_fds st), select_n := n\<rparr>) \<and>
    n \<le> select_n st \<and> (\<forall>i. reg st i \<noteq> None \<longrightarrow> i < n)"
proof -
  note A = active_range [OF inv act]
  note D = fd_invD [OF inv]
  from highest_used_spec [of 0 "select_n st" "fd_table st" 0] D(10) obtain m where
    m: "highest_used (fd_table st) (select_n st) 0 0 = Inr m"
    "\<And>j. j < select_n st \<Longrightarrow> fd_table st ! j \<noteq> None \<Longrightarrow> j \<le> m"
    "m = 0 \<or> m < select_n st" by auto
  have "i < m + 1" if "reg st i \<noteq> None" for i
    using that D(6) [of i] m(2) [of i] by (auto simp: reg_def split: if_splits)
  moreover have "m + 1 \<le> select_n st" using m(3) A(2) by auto
  ultimately show ?thesis
    using A(1,4) m(1) by (auto simp: fdevent_disconnect_def Let_def fd_put_eq)
qed

text \<open>The effect of \<open>fdevent_remove\<close>: the event is blank, its descriptor free and closed.\<close>

definition after_remove :: "nat \<Rightarrow> fdst \<Rightarrow> fdevent" where
  "after_remove a st = (fdes st a)\<lparr>fde_state := 0, fde_events := 0\<rparr>"

lemma fdevent_remove_inactive:
  assumes inv: "fd_inv st xs" and act: "\<not> active st a"
  shows "fdevent_remove a st = Inr (upd_fde a (\<lambda>f. f\<lparr>fde_state := 0, fde_events := 0\<rparr>) st) \<and>
    fd_inv (upd_fde a (\<lambda>f. f\<lparr>fde_state := 0, fde_events := 0\<rparr>) st) xs \<and> a \<notin> set xs"
proof -
  have "\<not> pending st a" "a \<notin> set xs" using fd_invD(2,4) [OF inv] act by blast+
  with act show ?thesis
    using fd_inv_upd_inactive [OF inv act] by (simp add: fdevent_remove_def)
qed

lemma fdevent_remove_active:
  assumes inv: "fd_inv st xs" and act: "active st a"
  shows "\<exists>st'. fdevent_remove a st = Inr st' \<and> fd_inv st' (remove1 a xs) \<and>
    fdes st' = (fdes st)(a := after_remove a st) \<and>
    reg st' = (reg st)(nat (fde_fd (fdes st a)) := None) \<and>
    closed st' = closed st @ (if bit (fde_state (fdes st a)) 7 then [] else [fde_fd (fdes st a)])"
proof -
  note A = active_range [OF inv act]
  note D = fd_invD [OF inv]
  define i where "i = nat (fde_fd (fdes st a))"
  have d: "distinct xs" using D(1) by (simp add: ring_def)
  obtain l where l: "ring l list_pending (remove1 a xs)"
    "(if pending st a then seq (fdevent_plist_remove a (plinks st)) (\<lambda>l. Inr (st\<lparr>plinks := l\<rparr>))
      else Inr st) = Inr (st\<lparr>plinks := l\<rparr>)"
  proof (cases "pending st a")
    case True
    with D(2) plist.del_ring [OF D(1), of a] that show ?thesis by auto
  next
    case False
    with D(2) have "remove1 a xs = xs" by (simp add: remove1_idem)
    with False D(1) that [of "plinks st"] show ?thesis by simp
  qed
  from fdevent_disconnect_spec [OF inv act, of l] obtain n where n:
    "fdevent_disconnect a (st\<lparr>plinks := l\<rparr>) = Inr (st\<lparr>plinks := l,
      read_fds := put False i (read_fds st), write_fds := put False i (write_fds st),
      error_fds := put False i (error_fds st), select_n := n\<rparr>)"
    "n \<le> select_n st" "\<And>j. reg st j \<noteq> None \<Longrightarrow> j < n" by (auto simp: i_def)
  define st1 where "st1 = st\<lparr>plinks := l, read_fds := put False i (read_fds st),
      write_fds := put False i (write_fds st), error_fds := put False i (error_fds st),
      select_n := n, fd_table := (fd_table st)[i := None],
      closed := closed st @ (if bit (fde_state (fdes st a)) 7 then [] else [fde_fd (fdes st a)])\<rparr>"
  define st2 where "st2 = upd_fde a (\<lambda>f. f\<lparr>fde_state := 0, fde_events := 0\<rparr>) st1"
  have eq: "fdevent_remove a st = Inr st2"
    using l(2) n(1) A act
    by (auto simp: fdevent_remove_def fdevent_unregister_def Let_def i_def st1_def st2_def upd_fde_def)
  have r: "reg st2 = (reg st)(i := None)"
    by (auto simp: reg_def st1_def st2_def fun_eq_iff)
  have f: "fdes st2 = (fdes st)(a := after_remove a st)"
    by (simp add: st2_def st1_def after_remove_def)
  have sn: "select_n st2 = n" by (simp add: st2_def st1_def)
  have F: "fde_state (after_remove a st) = 0" "fde_events (after_remove a st) = 0"
    by (simp_all add: after_remove_def)
  have ri: "reg st j = Some a \<longleftrightarrow> j = i" for j
    using D(5) [OF act] D(6) [of j a] by (auto simp: i_def)
  have w: "watches st2 k = put False i (watches st k)" for k
  proof (rule set_eqI)
    fix j
    show "j \<in> watches st2 k \<longleftrightarrow> j \<in> put False i (watches st k)"
      using ri [of j] by (cases "reg st j") (auto simp: watches_def r f F put_def)
  qed
  have "fd_inv st2 (remove1 a xs)"
    unfolding fd_inv_def
  proof (intro conjI allI impI)
    show "ring (plinks st2) list_pending (remove1 a xs)" using l(1) by (simp add: st2_def st1_def)
    show "b \<in> set (remove1 a xs) \<longleftrightarrow> pending st2 b" for b using D(2) [of b] d F by (simp add: f)
    show "pending st2 b \<longleftrightarrow> fde_events (fdes st2 b) \<noteq> 0" for b using D(3) [of b] F by (simp add: f)
    show "pending st2 b \<Longrightarrow> active st2 b" for b using D(4) [of b] F by (simp add: f split: if_splits)
    show "0 \<le> fde_fd (fdes st2 b)" "reg st2 (nat (fde_fd (fdes st2 b))) = Some b" if "active st2 b" for b
      using that D(5) [of b] F ri [of "nat (fde_fd (fdes st b))"] by (auto simp: f r split: if_splits)
    show "active st2 b" "fde_fd (fdes st2 b) = int j" "j < select_n st2" if "reg st2 j = Some b" for j b
      using that D(6) [of j b] ri [of j] n(3) [of j] sn
      by (auto simp: f r split: if_splits)
    show "read_fds st2 = watches st2 0" using D(7) w by (simp add: st2_def st1_def)
    show "write_fds st2 = watches st2 1" using D(8) w by (simp add: st2_def st1_def)
    show "error_fds st2 = watches st2 2" using D(9) w by (simp add: st2_def st1_def)
    show "select_n st2 \<le> length (fd_table st2)" using D(10) n(2) by (simp add: st2_def st1_def)
    show "select_n st2 \<le> FD_SETSIZE" using D(11) n(2) by (simp add: st2_def st1_def)
    show "\<not> active st2 list_pending" using D(12) F by (auto simp: f)
  qed
  with eq f r show ?thesis
    by (auto simp: i_def st2_def st1_def)
qed

section \<open>Collecting what \<open>select\<close> reports\<close>

lemma events_of_bits [simp]:
  "bit (events_of i r w e) 0 = (i \<in> r)" "bit (events_of i r w e) (Suc 0) = (i \<in> w)"
  "bit (events_of i r w e) 2 = (i \<in> e)"
  by (simp_all add: events_of_def fde_defs)

lemma events_of_0_iff: "events_of i r w e = 0 \<longleftrightarrow> i \<notin> r \<and> i \<notin> w \<and> i \<notin> e"
  by (auto simp: events_of_def fde_defs split: if_splits)

lemma count_of_nonneg: "0 \<le> count_of i r w e"
  by (simp add: count_of_def)

lemma count_of_0_iff: "count_of i r w e = 0 \<longleftrightarrow> events_of i r w e = 0"
  by (auto simp: events_of_0_iff count_of_def)

text \<open>An event that gets events it did not have goes to the end of the pending list.\<close>

lemma fdevent_mark_spec:
  assumes inv: "fd_inv st xs" and ev: "events \<noteq> 0 \<Longrightarrow> reg st i = Some a"
  shows "\<exists>st'. fdevent_mark i events st = Inr st' \<and>
    fd_inv st' (if events \<noteq> 0 \<and> \<not> pending st a then xs @ [a] else xs) \<and>
    fdes st' = (if events = 0 then fdes st else (fdes st)(a := (fdes st a)\<lparr>
      fde_events := fde_events (fdes st a) OR events,
      fde_state := fde_state (fdes st a) OR FDE_PENDING\<rparr>)) \<and>
    reg st' = reg st \<and> closed st' = closed st \<and> select_n st' = select_n st"
proof (cases "events = 0")
  case True
  with inv show ?thesis by (simp add: fdevent_mark_def)
next
  case False
  note r = ev [OF False]
  note D = fd_invD [OF inv]
  from D(6) [OF r] have act: "active st a" by simp
  from r have t: "table_at st (int i) = Inr (Some a)"
    by (auto simp: table_at_def reg_def split: if_splits)
  have nz: "fde_events (fdes st a) OR events \<noteq> 0" using False by (simp add: or_eq_0_iff)
  define F where "F = (\<lambda>f :: fdevent. f\<lparr>fde_events := fde_events f OR events, fde_state := fde_state f OR FDE_PENDING\<rparr>)"
  have inv': "fd_inv ((upd_fde a F st)\<lparr>plinks := l\<rparr>) ys"
    if "ring l list_pending ys" "set ys = insert a (set xs)" for l ys
    by (rule fd_inv_upd_pending [where f = F, OF inv act _ _ _ _ that(1)])
      (use act nz that(2) in \<open>auto simp: F_def\<close>)
  show ?thesis
  proof (cases "pending st a")
    case True
    have "fde_state (fdes st a) OR FDE_PENDING = fde_state (fdes st a)"
    proof (rule bit_word_eqI)
      fix n
      show "bit (fde_state (fdes st a) OR FDE_PENDING) n = bit (fde_state (fdes st a)) n"
        using True bit_exp_iff [of 9 n, where 'a = "16 word"] by (cases "n = 9") (auto simp: FDE_PENDING_def)
    qed
    then have "fdevent_mark i events st = Inr ((upd_fde a F st)\<lparr>plinks := plinks st\<rparr>)"
      using False t True by (simp add: fdevent_mark_def Let_def F_def upd_fde_def)
    moreover have "set xs = insert a (set xs)" using True D(2) by auto
    ultimately show ?thesis
      using inv' [OF D(1)] True False by (simp add: F_def)
  next
    case np: False
    with D(2,12) act have "a \<notin> set (list_pending # xs)" by auto
    then obtain l where l: "fdevent_plist_enqueue list_pending a (plinks st) = Inr l"
      "ring l list_pending (xs @ [a])"
      using plist.add_ring [OF D(1)] by blast
    then have "fdevent_mark i events st = Inr ((upd_fde a F st)\<lparr>plinks := l\<rparr>)"
      using False t np by (simp add: fdevent_mark_def Let_def F_def upd_fde_def upd_order)
    with l inv' [OF l(2)] np False show ?thesis by (simp add: F_def)
  qed
qed

text \<open>
  The loop of \<open>fdevent_process\<close>. When the count \<open>n\<close> is right, every reported event reaches
  its object and the newly pending ones follow in the order of their descriptors.
\<close>

definition marked :: "u16 \<Rightarrow> fdevent \<Rightarrow> fdevent" where
  "marked events f = (if events = 0 then f else
     f\<lparr>fde_events := fde_events f OR events, fde_state := fde_state f OR FDE_PENDING\<rparr>)"

lemma process_done:
  "n = (\<Sum>j = i..<i + k. count_of j r w e) \<Longrightarrow> n \<le> 0 \<Longrightarrow> i \<le> j \<Longrightarrow> j < i + k \<Longrightarrow>
     events_of j r w e = 0"
proof -
  assume n: "n = (\<Sum>j = i..<i + k. count_of j r w e)" "n \<le> 0" and j: "i \<le> j" "j < i + k"
  then have "(\<Sum>j = i..<i + k. count_of j r w e) = 0"
    by (simp add: count_of_nonneg antisym sum_nonneg)
  then have "count_of j r w e = 0"
    using j by (simp add: sum_nonneg_eq_0_iff count_of_nonneg)
  then show ?thesis
    by (simp add: count_of_0_iff)
qed

lemma process_from_safe:
  assumes "fd_inv st xs" and "\<And>j. events_of j r w e \<noteq> 0 \<Longrightarrow> reg st j \<noteq> None"
    and "i + k \<le> FD_SETSIZE"
  shows "\<exists>st' ys. process_from k i n r w e st = Inr st' \<and> fd_inv st' (xs @ ys) \<and>
    reg st' = reg st \<and> closed st' = closed st \<and> select_n st' = select_n st \<and>
    (n = (\<Sum>j = i..<i + k. count_of j r w e) \<longrightarrow>
      (\<forall>j a. reg st j = Some a \<longrightarrow>
         fdes st' a = (if i \<le> j \<and> j < i + k then marked (events_of j r w e) (fdes st a) else fdes st a)))"
  using assms
proof (induction k i n r w e st arbitrary: xs rule: process_from.induct)
  case (1 i n r w e st)
  then show ?case by (auto intro: exI [of _ "[]"])
next
  case (2 k i n r w e st)
  show ?case
  proof (cases "n > 0")
    case False
    then show ?thesis
      using "2.prems"(1) process_done [where n = n and i = i and k = "Suc k" and r = r and w = w and e = e]
      by (auto simp: marked_def intro!: exI [of _ "[]"])
  next
    case True
    define a where "a = the (reg st i)"
    define ev where "ev = events_of i r w e"
    have ra: "ev \<noteq> 0 \<Longrightarrow> reg st i = Some a"
      using "2.prems"(2) [of i] by (auto simp: a_def ev_def)
    define ys1 where "ys1 = (if ev \<noteq> 0 \<and> \<not> pending st a then [a] else [])"
    have "(if ev \<noteq> 0 \<and> \<not> pending st a then xs @ [a] else xs) = xs @ ys1"
      by (simp add: ys1_def)
    with fdevent_mark_spec [where events = ev, OF "2.prems"(1) ra] obtain st1 where
      st1: "fdevent_mark i ev st = Inr st1" "fd_inv st1 (xs @ ys1)" "reg st1 = reg st"
        "closed st1 = closed st" "select_n st1 = select_n st"
        "fdes st1 = (if ev = 0 then fdes st else (fdes st)(a := marked ev (fdes st a)))"
      by (auto simp: marked_def)
    have i: "i < FD_SETSIZE" using "2.prems"(3) by simp
    have "\<And>j. events_of j r w e \<noteq> 0 \<Longrightarrow> reg st1 j \<noteq> None" "Suc i + k \<le> FD_SETSIZE"
      using "2.prems"(2,3) st1(3) by auto
    from "2.IH" [OF True i st1(1) [unfolded ev_def] st1(2) this] obtain st2 ys2 where
      st2: "process_from k (Suc i) (n - count_of i r w e) r w e st1 = Inr st2"
        "fd_inv st2 ((xs @ ys1) @ ys2)" "reg st2 = reg st1" "closed st2 = closed st1"
        "select_n st2 = select_n st1"
        "n - count_of i r w e = (\<Sum>j = Suc i..<Suc i + k. count_of j r w e) \<Longrightarrow>
         (\<forall>j b. reg st1 j = Some b \<longrightarrow> fdes st2 b =
           (if Suc i \<le> j \<and> j < Suc i + k then marked (events_of j r w e) (fdes st1 b) else fdes st1 b))"
      by blast
    have "fdes st2 b = (if i \<le> j \<and> j < i + Suc k then marked (events_of j r w e) (fdes st b) else fdes st b)"
      if n: "n = (\<Sum>j = i..<i + Suc k. count_of j r w e)" and b: "reg st j = Some b" for j b
    proof -
      have "n = count_of i r w e + (\<Sum>j = Suc i..<i + Suc k. count_of j r w e)"
        unfolding n by (rule sum.atLeast_Suc_lessThan) simp
      with st2(6) st1(3) b have s: "fdes st2 b =
          (if Suc i \<le> j \<and> j < Suc i + k then marked (events_of j r w e) (fdes st1 b) else fdes st1 b)"
        by simp
      have ne: "b \<noteq> a" if "j \<noteq> i" "ev \<noteq> 0"
        using fd_invD(6) [OF "2.prems"(1) b] fd_invD(6) [OF "2.prems"(1) ra] that by auto
      have eq: "b = a" if "j = i" "ev \<noteq> 0" using ra that b by simp
      show ?thesis
        using s st1(6) ne eq by (cases "j = i") (auto simp: ev_def [symmetric] marked_def split: if_splits)
    qed
    with st1 st2 True i show ?thesis
      by (intro exI [of _ st2] exI [of _ "ys1 @ ys2"]) (simp add: ev_def)
  qed
qed

lemma fd_check_from_spec:
  assumes "i + k \<le> length table" and "i + k \<le> FD_SETSIZE"
  shows "fd_check_from table bad k i fds n =
    Inr (fds \<union> {j. i \<le> j \<and> j < i + k \<and> table ! j \<noteq> None \<and> j \<in> bad},
         n + int (card {j. i \<le> j \<and> j < i + k \<and> table ! j \<noteq> None \<and> j \<in> bad}))"
  using assms
proof (induction table bad k i fds n rule: fd_check_from.induct)
  case (2 table bad k i fds n)
  let ?P = "\<lambda>j. table ! j \<noteq> None \<and> j \<in> bad"
  have split: "{j. i \<le> j \<and> j < i + Suc k \<and> ?P j} =
      (if ?P i then insert i {j. Suc i \<le> j \<and> j < Suc i + k \<and> ?P j}
       else {j. Suc i \<le> j \<and> j < Suc i + k \<and> ?P j})"
    by (auto simp: le_less Suc_le_eq)
  have fin: "finite {j. Suc i \<le> j \<and> j < Suc i + k \<and> ?P j}"
    by (rule finite_subset [of _ "{..< Suc i + k}"]) auto
  show ?case
    using 2 fin unfolding split by (auto simp: fd_put_def FD_SETSIZE_def)
qed auto

text \<open>
  What the manual of \<open>select\<close> promises: the sets shrink to ready descriptors and the result
  is the number of bits left in them.
\<close>

definition select_ok :: "fdst \<Rightarrow> sel_answer \<Rightarrow> bool" where
  "select_ok st answer \<longleftrightarrow>
     (case answer of
        Sel n r w e \<Rightarrow> r \<subseteq> read_fds st \<and> w \<subseteq> write_fds st \<and> e \<subseteq> error_fds st \<and>
          n = (\<Sum>j = 0..<select_n st. count_of j r w e)
      | SelErr _ \<Rightarrow> True)"

text \<open>
  The events a registered descriptor is to get. Descriptors that \<open>fcntl\<close> refuses are
  reported as readable after \<open>EBADF\<close>, and when \<open>select\<close> found nothing.
\<close>

definition reported :: "sel_answer \<Rightarrow> nat set \<Rightarrow> nat \<Rightarrow> u16" where
  "reported answer bad j =
     (case answer of
        Sel n r w e \<Rightarrow> if n > 0 then events_of j r w e else if j \<in> bad then FDE_READ else 0
      | SelErr err \<Rightarrow> if err = EBADF \<and> j \<in> bad then FDE_READ else 0)"

lemma watches_range: "fd_inv st xs \<Longrightarrow> j \<in> watches st n \<Longrightarrow> j < select_n st \<and> reg st j \<noteq> None"
  using fd_invD(6) [of st xs j] by (auto simp: watches_def)

lemma process_bad:
  assumes inv: "fd_inv st xs"
  shows "\<exists>st' ys. seq (fdevent_fd_check bad {} st) (\<lambda>(r, n). process_from (select_n st) 0 n r {} {} st) =
      Inr st' \<and> fd_inv st' (xs @ ys) \<and> reg st' = reg st \<and> closed st' = closed st \<and>
    (\<forall>j a. reg st j = Some a \<longrightarrow> fdes st' a = marked (if j \<in> bad then FDE_READ else 0) (fdes st a))"
proof -
  note D = fd_invD [OF inv]
  define r where "r = {j. j < select_n st \<and> fd_table st ! j \<noteq> None \<and> j \<in> bad}"
  have fin: "finite r" by (rule finite_subset [of _ "{..< select_n st}"]) (auto simp: r_def)
  have chk: "fdevent_fd_check bad {} st = Inr (r, int (card r))"
    using fd_check_from_spec [of 0 "select_n st" "fd_table st" bad "{}" 0] D(10,11)
    by (simp add: fdevent_fd_check_def r_def)
  have reg_r: "j \<in> r \<longleftrightarrow> reg st j \<noteq> None \<and> j \<in> bad" for j
    using D(6) [of j] D(10) by (auto simp: r_def reg_def split: if_splits)
  have "(\<Sum>j = 0..<select_n st. count_of j r {} {}) = int (card ({0..<select_n st} \<inter> r))"
    by (simp add: count_of_def of_bool_def sum.If_cases Int_def)
  moreover have "{0..<select_n st} \<inter> r = r" by (auto simp: r_def)
  ultimately have cnt: "int (card r) = (\<Sum>j = 0..<0 + select_n st. count_of j r {} {})" by simp
  have "\<And>j. events_of j r {} {} \<noteq> 0 \<Longrightarrow> reg st j \<noteq> None"
    using reg_r by (auto simp: events_of_0_iff)
  from process_from_safe [where r = r and w = "{}" and e = "{}" and i = 0 and k = "select_n st" and n = "int (card r)", OF inv this] D(11) cnt obtain st' ys where
    st': "process_from (select_n st) 0 (int (card r)) r {} {} st = Inr st'" "fd_inv st' (xs @ ys)"
      "reg st' = reg st" "closed st' = closed st"
      "\<And>j a. reg st j = Some a \<Longrightarrow> fdes st' a =
        (if 0 \<le> j \<and> j < 0 + select_n st then marked (events_of j r {} {}) (fdes st a) else fdes st a)"
    by auto
  have "fdes st' a = marked (if j \<in> bad then FDE_READ else 0) (fdes st a)" if "reg st j = Some a" for j a
    using st'(5) [OF that] D(6) [OF that] that reg_r [of j] by (simp add: events_of_def)
  with st' chk show ?thesis by auto
qed

lemma fdevent_process_spec:
  assumes inv: "fd_inv st xs" and ok: "select_ok st answer"
  shows "\<exists>st' ys. fdevent_process answer bad st = Inr st' \<and> fd_inv st' (xs @ ys) \<and>
    reg st' = reg st \<and> closed st' = closed st \<and>
    (\<forall>j a. reg st j = Some a \<longrightarrow> fdes st' a = marked (reported answer bad j) (fdes st a))"
proof (cases answer)
  case (SelErr err)
  then show ?thesis
  proof (cases "err = EBADF")
    case True
    with SelErr process_bad [OF inv, of bad] show ?thesis
      by (simp add: fdevent_process_def reported_def)
  next
    case False
    with SelErr inv show ?thesis
      by (auto simp: fdevent_process_def reported_def marked_def intro!: exI [of _ "[]"])
  qed
next
  case (Sel n r w e)
  note D = fd_invD [OF inv]
  from ok Sel have sub: "r \<subseteq> watches st 0" "w \<subseteq> watches st 1" "e \<subseteq> watches st 2"
    and n: "n = (\<Sum>j = 0..<select_n st. count_of j r w e)"
    using D(7,8,9) by (auto simp: select_ok_def)
  have rg: "reg st j \<noteq> None \<and> j < select_n st" if "events_of j r w e \<noteq> 0" for j
    using that sub watches_range [OF inv] by (auto simp: events_of_0_iff)
  show ?thesis
  proof (cases "n > 0")
    case True
    from process_from_safe [OF inv, where r = r and w = w and e = e and i = 0 and k = "select_n st" and n = n] rg D(11) n obtain st' ys where
      st': "process_from (select_n st) 0 n r w e st = Inr st'" "fd_inv st' (xs @ ys)"
        "reg st' = reg st" "closed st' = closed st"
        "\<And>j a. reg st j = Some a \<Longrightarrow> fdes st' a =
          (if j < select_n st then marked (events_of j r w e) (fdes st a) else fdes st a)"
      by auto
    with True Sel D(6) show ?thesis
      by (auto simp: fdevent_process_def reported_def)
  next
    case False
    have "events_of j r w e = 0" for j
      using rg [of j] process_done [where n = n and i = 0 and k = "select_n st" and r = r and w = w and e = e]
        n False by auto
    then have "r = {}" "w = {}" "e = {}" by (auto simp: events_of_0_iff)
    with False Sel process_bad [OF inv, of bad] show ?thesis
      by (simp add: fdevent_process_def reported_def)
  qed
qed

section \<open>Sequences of operations\<close>

text \<open>
  The calls other components make. An event is installed only while it is not registered,
  on a descriptor in the range of \<open>fd_set\<close> that no other event has; an event is destroyed
  only after \<open>fdevent_create\<close>.
\<close>

datatype fd_op = OpInstall nat int fd_func nat | OpCreate nat int fd_func nat
  | OpRemove nat | OpDestroy nat | OpSet nat u32 | OpAdd nat u32 | OpDel nat u32

definition can_install :: "nat \<Rightarrow> int \<Rightarrow> fdst \<Rightarrow> bool" where
  "can_install a fd st \<longleftrightarrow> a \<noteq> list_pending \<and> \<not> active st a \<and>
     0 \<le> fd \<and> fd < int FD_SETSIZE \<and> reg st (nat fd) = None"

fun op_ok :: "fd_op \<Rightarrow> fdst \<Rightarrow> bool" where
  "op_ok (OpInstall a fd f x) st \<longleftrightarrow> can_install a fd st"
| "op_ok (OpCreate a fd f x) st \<longleftrightarrow> can_install a fd st"
| "op_ok (OpDestroy a) st \<longleftrightarrow> bit (fde_state (fdes st a)) 10"
| "op_ok _ st \<longleftrightarrow> True"

fun do_op :: "fd_op \<Rightarrow> fdst \<Rightarrow> fdst res" where
  "do_op (OpInstall a fd f x) st = fdevent_install a fd f x st"
| "do_op (OpCreate a fd f x) st = fdevent_create a fd f x st"
| "do_op (OpRemove a) st = fdevent_remove a st"
| "do_op (OpDestroy a) st = fdevent_destroy (Some a) st"
| "do_op (OpSet a e) st = fdevent_set a e st"
| "do_op (OpAdd a e) st = fdevent_add a e st"
| "do_op (OpDel a e) st = fdevent_del a e st"

lemma fdevent_create_spec:
  assumes inv: "fd_inv st xs" and ok: "can_install a fd st"
  shows "\<exists>st'. fdevent_create a fd func arg st = Inr st' \<and> fd_inv st' xs"
proof -
  from fdevent_install_spec [OF inv, of a fd func arg] ok [unfolded can_install_def] obtain st1 where
    st1: "fdevent_install a fd func arg st = Inr st1" "fd_inv st1 xs"
      "fdes st1 a = fdevent_zero\<lparr>fde_state := FDE_ACTIVE, fde_fd := fd, fde_func := func, fde_arg := arg\<rparr>"
    by auto
  let ?F = "\<lambda>f :: fdevent. f\<lparr>fde_state := fde_state f OR FDE_CREATED\<rparr>"
  have f: "fde_state (fdes st1 a) = FDE_ACTIVE" "fde_events (fdes st1 a) = 0"
    using st1(3) by (simp_all add: fdevent_zero_def)
  have "a \<notin> set xs"
    using fd_invD(2) [OF st1(2), of a] f by auto
  then have "fd_inv ((upd_fde a ?F st1)\<lparr>plinks := plinks st1\<rparr>) xs"
    by (intro fd_inv_upd_pending [where f = ?F, OF st1(2) _ _ _ _ _ fd_invD(1) [OF st1(2)]])
      (use f in auto)
  with st1 show ?thesis by (simp add: fdevent_create_def upd_fde_def)
qed

lemma fdevent_remove_inv:
  assumes "fd_inv st xs"
  shows "\<exists>st'. fdevent_remove a st = Inr st' \<and> fd_inv st' (remove1 a xs)"
proof (cases "active st a")
  case True
  from fdevent_remove_active [OF assms True] show ?thesis by blast
next
  case False
  from fdevent_remove_inactive [OF assms False] show ?thesis
    by (auto simp: remove1_idem)
qed

lemma fdevent_set_inv: "fd_inv st xs \<Longrightarrow> \<exists>st' ys. fdevent_set a evs st = Inr st' \<and> fd_inv st' ys \<and> length ys \<le> length xs"
  using fdevent_set_spec [of st xs] length_set_list by blast

text \<open>No operation faults or aborts, none adds to the pending list, and all keep the invariant.\<close>

lemma do_op_inv:
  assumes "fd_inv st xs" and "op_ok op st"
  shows "\<exists>st' ys. do_op op st = Inr st' \<and> fd_inv st' ys \<and> length ys \<le> length xs"
proof (cases op)
  case (OpInstall a fd f x)
  with fdevent_install_spec [OF assms(1), of a fd f x] assms(2) show ?thesis
    by (auto simp: can_install_def)
next
  case (OpCreate a fd f x)
  with fdevent_create_spec [OF assms(1), of a fd f x] assms(2) show ?thesis by auto
next
  case (OpRemove a)
  with fdevent_remove_inv [OF assms(1), of a] show ?thesis
    by (auto simp: length_remove1 intro!: exI [of _ "remove1 a xs"])
next
  case (OpDestroy a)
  with fdevent_remove_inv [OF assms(1), of a] assms(2) show ?thesis
    by (auto simp: fdevent_destroy_def length_remove1 intro!: exI [of _ "remove1 a xs"])
qed (use fdevent_set_inv [OF assms(1)] in \<open>simp_all add: fdevent_add_def fdevent_del_def\<close>)

section \<open>Calling the callbacks\<close>

text \<open>The state a callback sees: its event is no longer pending and has no events left.\<close>

definition called :: "nat \<Rightarrow> fdst \<Rightarrow> fdst" where
  "called a st = upd_fde a (\<lambda>f. f\<lparr>fde_state := fde_state f AND NOT FDE_PENDING, fde_events := 0\<rparr>) st"

lemma fdevent_call_fdfunc_eq:
  "pending st a \<Longrightarrow> fdevent_call_fdfunc call a st =
     call (fde_func (fdes st a)) (fde_fd (fdes st a)) (fde_events (fdes st a)) (fde_arg (fdes st a))
       (called a st)"
  by (simp add: fdevent_call_fdfunc_def Let_def called_def upd_fde_def upd_order)

lemma called_inv:
  assumes inv: "fd_inv st xs" and act: "active st a" and rg: "ring l list_pending ys"
    and ys: "set ys = set xs - {a}"
  shows "fd_inv (called a (st\<lparr>plinks := l\<rparr>)) ys"
proof -
  let ?F = "\<lambda>f :: fdevent. f\<lparr>fde_state := fde_state f AND NOT FDE_PENDING, fde_events := 0\<rparr>"
  have "fd_inv ((upd_fde a ?F st)\<lparr>plinks := l\<rparr>) ys"
    by (rule fd_inv_upd_pending [where f = ?F, OF inv act _ _ _ _ rg]) (use act in \<open>auto simp: ys\<close>)
  then show ?thesis
    by (simp add: called_def upd_fde_def upd_order)
qed

lemma mark_pending_inv:
  assumes inv: "fd_inv st xs" and p: "pending st a"
  shows "fd_inv (upd_fde a (\<lambda>f. f\<lparr>fde_events := fde_events f OR ev\<rparr>) st) xs"
proof -
  note D = fd_invD [OF inv]
  let ?F = "\<lambda>f :: fdevent. f\<lparr>fde_events := fde_events f OR ev\<rparr>"
  have "a \<in> set xs" "fde_events (fdes st a) \<noteq> 0" using p D(2) [of a] D(3) [of a] by auto
  then have "fd_inv ((upd_fde a ?F st)\<lparr>plinks := plinks st\<rparr>) xs"
    by (intro fd_inv_upd_pending [where f = ?F, OF inv D(4) [OF p] _ _ _ _ D(1)])
      (use p D(4) [OF p] in \<open>auto simp: or_eq_0_iff\<close>)
  then show ?thesis by (simp add: upd_fde_def)
qed

text \<open>Marking an event pending for the call and the reset inside the call cancel out.\<close>

lemma called_undoes:
  assumes "\<not> pending st a" and "pending st a \<longleftrightarrow> fde_events (fdes st a) \<noteq> 0"
  shows "called a (upd_fde a (\<lambda>f. f\<lparr>fde_state := fde_state f OR FDE_PENDING\<rparr>)
    (upd_fde a (\<lambda>f. f\<lparr>fde_events := fde_events f OR ev\<rparr>) st)) = st"
proof -
  have "(s OR m) AND NOT m = s" if "s AND m = 0" for s m :: u16
  proof (rule bit_word_eqI)
    fix n
    assume "n < LENGTH(16)"
    moreover have "\<not> bit (s AND m) n" using that by simp
    ultimately show "bit ((s OR m) AND NOT m) n = bit s n"
      by (auto simp: bit_not_iff)
  qed
  from this [of _ FDE_PENDING] have "(s OR FDE_PENDING) AND NOT FDE_PENDING = s" if "\<not> bit s 9" for s :: u16
    using that by simp
  then show ?thesis
    using assms by (intro fdst.equality ext fdevent.equality) (simp_all add: called_def)
qed

lemma dequeue_Cons:
  assumes inv: "fd_inv st (a # xs)"
  shows "\<exists>l. fdevent_plist_dequeue list_pending (plinks st) = Inr (Some a, l) \<and>
    fdevent_call_fdfunc call a (st\<lparr>plinks := l\<rparr>) =
      call (fde_func (fdes st a)) (fde_fd (fdes st a)) (fde_events (fdes st a)) (fde_arg (fdes st a))
        (called a (st\<lparr>plinks := l\<rparr>)) \<and>
    fd_inv (called a (st\<lparr>plinks := l\<rparr>)) xs"
proof -
  note D = fd_invD [OF inv]
  have p: "pending st a" using D(2) [of a] by simp
  from plist_dequeue_Cons [OF D(1)] obtain l where
    l: "fdevent_plist_dequeue list_pending (plinks st) = Inr (Some a, l)" "ring l list_pending xs"
    by blast
  have "set xs = set (a # xs) - {a}" using D(1) by (auto simp: ring_def)
  from called_inv [OF inv D(4) [OF p] l(2) this] l(1) p
    fdevent_call_fdfunc_eq [of "st\<lparr>plinks := l\<rparr>" a call]
  show ?thesis by simp
qed

lemma dequeue_Nil: "fd_inv st [] \<Longrightarrow> fdevent_plist_dequeue list_pending (plinks st) = Inr (None, plinks st)"
  using fd_invD(1) by (rule plist_dequeue_empty)

text \<open>
  What the loop asks of a callback: it keeps the invariant, does not stop the program and
  makes no event pending; that is the work of \<open>fdevent_process\<close> alone.
\<close>

locale fd_callbacks =
  fixes call :: "fd_func \<Rightarrow> int \<Rightarrow> u16 \<Rightarrow> nat \<Rightarrow> fdst \<Rightarrow> fdst res"
  assumes call_ok: "fd_inv st xs \<Longrightarrow>
    \<exists>st' ys. call f fd ev arg st = Inr st' \<and> fd_inv st' ys \<and> length ys \<le> length xs"
begin

lemma drain_returns: "fd_inv st xs \<Longrightarrow> \<exists>st'. fdevent_drain call st = Some (Inr st') \<and> fd_inv st' []"
proof (induction xs arbitrary: st rule: length_induct)
  case (1 xs)
  show ?case
  proof (cases xs)
    case Nil
    with "1.prems" show ?thesis
      using dequeue_Nil [of st] by (subst fdevent_drain.simps) simp
  next
    case (Cons a ys)
    from dequeue_Cons [OF "1.prems" [unfolded Cons], of call] obtain l where l:
      "fdevent_plist_dequeue list_pending (plinks st) = Inr (Some a, l)"
      "fdevent_call_fdfunc call a (st\<lparr>plinks := l\<rparr>) =
        call (fde_func (fdes st a)) (fde_fd (fdes st a)) (fde_events (fdes st a)) (fde_arg (fdes st a))
          (called a (st\<lparr>plinks := l\<rparr>))"
      "fd_inv (called a (st\<lparr>plinks := l\<rparr>)) ys"
      by blast
    from call_ok [OF l(3)] l(2) obtain st1 zs where
      st1: "fdevent_call_fdfunc call a (st\<lparr>plinks := l\<rparr>) = Inr st1" "fd_inv st1 zs" "length zs \<le> length ys"
      by metis
    with "1.IH" Cons obtain st' where "fdevent_drain call st1 = Some (Inr st')" "fd_inv st' []"
      by (metis le_imp_less_Suc length_Cons)
    with l(1) st1(1) show ?thesis
      by (subst fdevent_drain.simps) simp
  qed
qed

lemma turn_returns:
  assumes "fd_inv st xs" and "select_ok st answer"
  shows "\<exists>st'. fdevent_turn call answer bad st = Some (Inr st') \<and> fd_inv st' []"
proof -
  from fdevent_process_spec [OF assms, of bad] obtain st1 ys where
    "fdevent_process answer bad st = Inr st1" "fd_inv st1 (xs @ ys)" by blast
  with drain_returns [of st1] show ?thesis
    by (simp add: fdevent_turn_def)
qed

text \<open>The handler of shell exits keeps the contract when the callbacks it passes on to do.\<close>

lemma subproc_event_ok:
  assumes inv: "fd_inv st xs" and fd: "0 \<le> fd" "reg st (nat fd) \<noteq> None" and k: "4 \<le> length (stream k)"
  shows "\<exists>st' ys. subproc_event call k rcount fd ev st = Inr st' \<and> fd_inv st' ys \<and> length ys \<le> length xs"
proof -
  from fd(2) obtain fde where fde: "nat fd < length (fd_table st)" "fd_table st ! nat fd = Some fde"
    by (auto simp: reg_def split: if_splits)
  from fde(1) fd(1) have fdlt: "fd < int (length (fd_table st))" by linarith
  from fdevent_set_inv [OF inv] obtain st1 ys where st1: "fdevent_add fde (ucast FDE_READ) st = Inr st1"
    "fd_inv st1 ys" "length ys \<le> length xs"
    unfolding fdevent_add_def by blast
  from readx_enough [OF k] obtain bs k' where bs: "readx 4 k = Some (Some bs, k')" by blast
  define sfd where "sfd = sint (of_le32 bs)"
  have start: "subproc_event call k rcount fd ev st = Inr st1 \<Longrightarrow> ?thesis" using st1 by blast
  show ?thesis
  proof (cases "ev AND FDE_READ \<noteq> 0 \<and> \<not> (sfd < 0 \<or> sfd \<ge> int (length (fd_table st1)))")
    case False
    then show ?thesis
      using start fd fde st1(1) bs by (auto simp: subproc_event_def Let_def sfd_def)
  next
    case True
    show ?thesis
    proof (cases "fd_table st1 ! nat sfd")
      case None
      then show ?thesis
        using start True fd fde st1(1) bs by (auto simp: subproc_event_def Let_def sfd_def)
    next
      case (Some sub)
      with True have r: "reg st1 (nat sfd) = Some sub" by (auto simp: reg_def)
      note D = fd_invD [OF st1(2)]
      from D(6) [OF r] True have act: "active st1 sub" "fde_fd (fdes st1 sub) = sfd" by auto
      define st2 where "st2 = upd_fde sub (\<lambda>f. f\<lparr>force_eof := True\<rparr>) st1"
      have mem: "set ys = (if pending st1 sub then insert sub (set ys) else set ys - {sub})"
        using D(2) [of sub] by auto
      have "fd_inv ((upd_fde sub (\<lambda>f. f\<lparr>force_eof := True\<rparr>) st1)\<lparr>plinks := plinks st1\<rparr>) ys"
        by (rule fd_inv_upd_pending [where f = "\<lambda>f. f\<lparr>force_eof := True\<rparr>", OF st1(2) act(1) _ _ _ _ D(1)])
          (use act(1) D(3) mem in simp_all)
      then have inv2: "fd_inv st2 ys" by (simp add: st2_def upd_fde_def)
      have act2: "active st2 sub" using act(1) by (simp add: st2_def)
      have eq: "subproc_event call k rcount fd ev st =
          (if rcount sfd \<noteq> 0 then Inr st2
           else
             let st = upd_fde sub (\<lambda>f. f\<lparr>fde_events := fde_events f OR FDE_READ\<rparr>) st2 in
             if fde_state (fdes st sub) AND FDE_PENDING \<noteq> 0 then Inr st
             else fdevent_call_fdfunc call sub
               (upd_fde sub (\<lambda>f. f\<lparr>fde_state := fde_state f OR FDE_PENDING\<rparr>) st))"
        using True fd(1) fde fdlt st1(1) bs Some act(2)
        by (simp add: subproc_event_def Let_def sfd_def [symmetric] st2_def)
      note D2 = fd_invD [OF inv2]
      consider (data) "rcount sfd \<noteq> 0" | (pend) "rcount sfd = 0" "pending st2 sub"
        | (run) "rcount sfd = 0" "\<not> pending st2 sub" by blast
      then show ?thesis
      proof cases
        case data
        with eq inv2 st1(3) show ?thesis by auto
      next
        case pend
        with eq mark_pending_inv [OF inv2 pend(2), of FDE_READ] st1(3) show ?thesis by auto
      next
        case run
        let ?S = "upd_fde sub (\<lambda>f. f\<lparr>fde_state := fde_state f OR FDE_PENDING\<rparr>)
            (upd_fde sub (\<lambda>f. f\<lparr>fde_events := fde_events f OR FDE_READ\<rparr>) st2)"
        have "called sub ?S = st2"
          using run(2) D2(3) [of sub] by (rule called_undoes)
        with eq run fdevent_call_fdfunc_eq [of ?S sub call] call_ok [OF inv2] st1(3) show ?thesis
          by (simp add: Let_def) (metis order_trans)
      qed
    qed
  qed
qed

end

text \<open>
  Every callback of the program changes the event state only through the operations above.
  Whatever operations it chooses, among those whose condition holds, it meets the contract.
\<close>

fun run_ops :: "fd_op list \<Rightarrow> fdst \<Rightarrow> fdst res" where
  "run_ops [] st = Inr st"
| "run_ops (op # ops) st =
     (if op_ok op st then seq (do_op op st) (run_ops ops) else run_ops ops st)"

lemma run_ops_inv:
  "fd_inv st xs \<Longrightarrow> \<exists>st' ys. run_ops ops st = Inr st' \<and> fd_inv st' ys \<and> length ys \<le> length xs"
proof (induction ops arbitrary: st xs)
  case (Cons op ops)
  show ?case
  proof (cases "op_ok op st")
    case True
    with do_op_inv [OF Cons.prems] obtain st1 ys where
      st1: "do_op op st = Inr st1" "fd_inv st1 ys" "length ys \<le> length xs" by blast
    from Cons.IH [OF st1(2)] st1 True show ?thesis by fastforce
  next
    case False
    with Cons show ?thesis by simp
  qed
qed auto

interpretation handlers: fd_callbacks "\<lambda>f fd ev arg st. run_ops (h f fd ev arg st) st" for h
  by unfold_locales (rule run_ops_inv)

section \<open>Reachable states\<close>

text \<open>
  All states of the event loop: an operation of the interface, a poll, and the dispatch of
  one pending event up to the entry of its callback, whose operations then follow.
\<close>

inductive fd_reach :: "fdst \<Rightarrow> bool" where
  reach_start: "fd_reach fd_start"
| reach_op: "fd_reach st \<Longrightarrow> op_ok op st \<Longrightarrow> do_op op st = Inr st' \<Longrightarrow> fd_reach st'"
| reach_poll: "fd_reach st \<Longrightarrow> select_ok st answer \<Longrightarrow> fdevent_process answer bad st = Inr st' \<Longrightarrow>
    fd_reach st'"
| reach_dispatch: "fd_reach st \<Longrightarrow> fdevent_plist_dequeue list_pending (plinks st) = Inr (Some a, l) \<Longrightarrow>
    fdevent_call_fdfunc (\<lambda>_ _ _ _ st. Inr st) a (st\<lparr>plinks := l\<rparr>) = Inr st' \<Longrightarrow> fd_reach st'"

lemma fd_reach_inv: "fd_reach st \<Longrightarrow> \<exists>xs. fd_inv st xs"
proof (induction rule: fd_reach.induct)
  case reach_start
  show ?case using fd_inv_start by blast
next
  case (reach_op st op st')
  then show ?case using do_op_inv by fastforce
next
  case (reach_poll st answer bad st')
  then obtain xs where "fd_inv st xs" by blast
  from fdevent_process_spec [OF this reach_poll.hyps(2), of bad] reach_poll.hyps(3) show ?case by auto
next
  case (reach_dispatch st a l st')
  then obtain xs where xs: "fd_inv st xs" by blast
  then obtain b ys where "xs = b # ys"
    using reach_dispatch.hyps(2) dequeue_Nil [of st] by (cases xs) auto
  with xs reach_dispatch.hyps dequeue_Cons [of st b ys "\<lambda>_ _ _ _ st. Inr st"] show ?case by auto
qed

section \<open>Properties\<close>

text \<open>
  C13: the event loop is safe. In every state that operations, polls and dispatches can reach,
  the table, the sets for \<open>select\<close> and the pending list agree (\<open>fd_inv\<close>); every operation
  whose condition holds, and every poll, returns: no abort on an inconsistent table, no null
  link, no index out of the table or of an \<open>fd_set\<close>.
\<close>

theorem fd_reach_safe:
  assumes "fd_reach st"
  shows "(\<exists>xs. fd_inv st xs) \<and>
    (\<forall>op. op_ok op st \<longrightarrow> (\<exists>st'. do_op op st = Inr st')) \<and>
    (\<forall>answer bad. select_ok st answer \<longrightarrow> (\<exists>st'. fdevent_process answer bad st = Inr st'))"
proof -
  from fd_reach_inv [OF assms] obtain xs where xs: "fd_inv st xs" by blast
  with do_op_inv [OF xs] fdevent_process_spec [OF xs] show ?thesis by blast
qed

definition demo_fd :: fdst where
  "demo_fd = (case do_op (OpInstall 1 5 local_socket_event_func 0) fd_start of Inr st \<Rightarrow> st)"

lemma demo_fd_reach: "fd_reach demo_fd" "\<exists>xs. fd_inv demo_fd xs" "active demo_fd 1"
  "fde_fd (fdes demo_fd 1) = 5" "reg demo_fd = [5 \<mapsto> 1]" "fde_state (fdes demo_fd 1) = FDE_ACTIVE"
proof -
  have "op_ok (OpInstall 1 5 local_socket_event_func 0) fd_start"
    by (simp add: can_install_def fd_start_def fdevent_zero_def FD_SETSIZE_def reg_def list_pending_def)
  moreover from fdevent_install_spec [OF fd_inv_start, of 1 5 local_socket_event_func 0] calculation
  obtain st where st: "do_op (OpInstall 1 5 local_socket_event_func 0) fd_start = Inr st" "fd_inv st []"
    "fdes st 1 = fdevent_zero\<lparr>fde_state := FDE_ACTIVE, fde_fd := 5, fde_func := local_socket_event_func,
      fde_arg := 0\<rparr>" "reg st = (reg fd_start)(5 := Some 1)"
    by (auto simp: can_install_def)
  moreover have "demo_fd = st" using st(1) by (simp add: demo_fd_def)
  moreover have "reg fd_start = Map.empty" by (simp add: reg_def fd_start_def fun_eq_iff)
  ultimately show "fd_reach demo_fd" "\<exists>xs. fd_inv demo_fd xs" "active demo_fd 1"
    "fde_fd (fdes demo_fd 1) = 5" "reg demo_fd = [5 \<mapsto> 1]" "fde_state (fdes demo_fd 1) = FDE_ACTIVE"
    using reach_op [OF reach_start, of "OpInstall 1 5 local_socket_event_func 0" st]
    by (auto simp: fdevent_zero_def)
qed

lemma fd_reach_safe_witness:
  "(\<exists>xs. fd_inv demo_fd xs) \<and> (\<exists>st'. do_op (OpAdd 1 1) demo_fd = Inr st') \<and>
   (\<exists>st'. fdevent_process (SelErr EBADF) {5} demo_fd = Inr st')"
proof -
  have "op_ok (OpAdd 1 1) demo_fd" "select_ok demo_fd (SelErr EBADF)"
    by (simp_all add: select_ok_def)
  with fd_reach_safe [OF demo_fd_reach(1)] show ?thesis by blast
qed

text \<open>
  \<open>fdevent_set\<close> makes \<open>select\<close> watch exactly what was asked. Afterwards the descriptor of
  a registered event is in the read, write and error set according to the three bits of the
  argument, and every other descriptor is where it was.
\<close>

theorem fdevent_set_watches:
  assumes "fd_inv st xs" and "active st a"
  shows "\<exists>st' ys. fdevent_set a evs st = Inr st' \<and> fd_inv st' ys \<and>
    (let i = nat (fde_fd (fdes st a)) in
     read_fds st' = (if bit evs 0 then insert i (read_fds st) else read_fds st - {i}) \<and>
     write_fds st' = (if bit evs 1 then insert i (write_fds st) else write_fds st - {i}) \<and>
     error_fds st' = (if bit evs 2 then insert i (error_fds st) else error_fds st - {i}))"
proof -
  define events :: u16 where "events = ucast evs AND FDE_EVENTMASK"
  have ev: "bit events 0 = bit evs 0" "bit events 1 = bit evs 1" "bit events 2 = bit evs 2"
    by (simp_all add: events_def bit_simps)
  from fdevent_set_spec [OF assms(1) events_def, of a] obtain st' where
    st': "fdevent_set a evs st = Inr st'" "fd_inv st' (set_list a events st xs)" "reg st' = reg st"
    "fdes st' = (if fde_state (fdes st a) AND FDE_EVENTMASK = events then fdes st
                 else (fdes st)(a := after_set a events st))" by blast
  define F where "F = (\<lambda>_ :: fdevent. fdes st' a)"
  have "fdes st' = fdes (upd_fde a F st)"
    using st'(4) by (auto simp: F_def fun_eq_iff)
  then have w: "watches st' n = put (bit (fde_state (fdes st' a)) n) (nat (fde_fd (fdes st a))) (watches st n)" for n
    using watches_upd [OF assms, of F n] watches_frame [of st' "upd_fde a F st" n] st'(3) by (simp add: F_def)
  have b: "bit (fde_state (fdes st' a)) n = bit events n" if "n \<in> {0, 1, 2}" for n
  proof (cases "fde_state (fdes st a) AND FDE_EVENTMASK = events")
    case True
    then have "bit events n = bit (fde_state (fdes st a) AND FDE_EVENTMASK) n" by simp
    with True st'(4) that show ?thesis by auto
  next
    case False
    with st'(4) that show ?thesis by (auto simp: after_set_def Let_def)
  qed
  show ?thesis
    using st'(1,2) fd_invD(7,8,9) [OF st'(2)] fd_invD(7,8,9) [OF assms(1)] w [of 0] w [of 1] w [of 2]
      b [of 0] b [of 1] b [of 2] ev
    by (auto simp: Let_def put_def)
qed

lemma fdevent_set_watches_witness:
  "\<exists>st' ys. fdevent_set 1 3 demo_fd = Inr st' \<and> fd_inv st' ys \<and>
     read_fds st' = insert 5 (read_fds demo_fd) \<and> write_fds st' = insert 5 (write_fds demo_fd) \<and>
     error_fds st' = error_fds demo_fd - {5}"
  using fdevent_set_watches [of demo_fd _ 1 3] demo_fd_reach by (auto simp: Let_def)

text \<open>
  A pending event loses exactly the events that are still wanted. The comment in
  \<open>fdevent_set\<close> announces the opposite, but when an event with pending events \<open>e\<close> is set to a
  new mask that contains all of \<open>e\<close>, it leaves the pending list and its callback is not
  called for them.
\<close>

theorem fdevent_set_drops_wanted:
  assumes "fd_inv st xs" and "pending st a"
    and "fde_state (fdes st a) AND FDE_EVENTMASK \<noteq> ucast evs AND FDE_EVENTMASK"
    and "fde_events (fdes st a) AND NOT (ucast evs AND FDE_EVENTMASK) = 0"
  shows "\<exists>st'. fdevent_set a evs st = Inr st' \<and> \<not> pending st' a \<and>
    fde_events (fdes st' a) = 0 \<and> fd_inv st' (remove1 a xs)"
proof -
  define events :: u16 where "events = ucast evs AND FDE_EVENTMASK"
  from fdevent_set_spec [OF assms(1) events_def, of a] obtain st' where
    st': "fdevent_set a evs st = Inr st'" "fd_inv st' (set_list a events st xs)"
    "fdes st' a = after_set a events st" using assms(3) by (auto simp: events_def)
  with assms(2,3,4) show ?thesis
    by (auto simp: set_list_def after_set_def Let_def simp flip: events_def)
qed

lemma demo_pending:
  "\<exists>st xs. fd_inv st xs \<and> pending st 1 \<and> fde_state (fdes st 1) = FDE_ACTIVE OR FDE_PENDING \<and>
     fde_events (fdes st 1) = FDE_READ \<and> xs = [1]"
proof -
  obtain xs where xs: "fd_inv demo_fd xs" using demo_fd_reach(2) by blast
  have p: "\<not> pending demo_fd a" for a
  proof (cases "a = 1")
    case False
    with demo_fd_reach(5) fd_invD(4,5) [OF xs, of a] show ?thesis by (auto split: if_splits)
  qed (use demo_fd_reach(6) in simp)
  then have "xs = []" using fd_invD(2) [OF xs] by (cases xs) auto
  moreover have "fde_events (fdes demo_fd 1) = 0" using fd_invD(3) [OF xs, of 1] p by simp
  ultimately show ?thesis
    using fdevent_process_spec [OF xs, of "SelErr EBADF" "{5}"] fdevent_mark_spec [OF xs, of FDE_READ 5 1]
      demo_fd_reach(5,6) p xs
    by (auto simp: FDE_READ_def)
qed

lemma fdevent_set_drops_wanted_witness:
  "\<exists>st. \<exists>st'. fdevent_set 1 1 st = Inr st' \<and> \<not> pending st' 1 \<and> fde_events (fdes st' 1) = 0"
proof -
  from demo_pending obtain st xs where st: "fd_inv st xs" "pending st 1"
    "fde_state (fdes st 1) = FDE_ACTIVE OR FDE_PENDING" "fde_events (fdes st 1) = FDE_READ" by blast
  have "fde_state (fdes st 1) AND FDE_EVENTMASK \<noteq> ucast (1 :: u32) AND FDE_EVENTMASK"
    "fde_events (fdes st 1) AND NOT (ucast (1 :: u32) AND FDE_EVENTMASK) = 0"
    using st(3,4) by (simp_all add: fde_defs)
  from fdevent_set_drops_wanted [OF st(1,2) this] show ?thesis by blast
qed

text \<open>
  \<open>fdevent_process\<close> delivers what \<open>select\<close> reports. With an answer as its manual describes
  it, every registered event collects exactly the events reported for its descriptor and is
  pending if there are any; after \<open>EBADF\<close> the descriptors that \<open>fcntl\<close> refuses get a read
  event. Nothing is registered, closed or removed from the pending list.
\<close>

theorem fdevent_process_reports:
  assumes "fd_inv st xs" and "select_ok st answer"
  shows "\<exists>st' ys. fdevent_process answer bad st = Inr st' \<and> fd_inv st' (xs @ ys) \<and>
    reg st' = reg st \<and> closed st' = closed st \<and>
    (\<forall>j a. reg st j = Some a \<longrightarrow>
       fde_events (fdes st' a) = fde_events (fdes st a) OR reported answer bad j \<and>
       (pending st' a \<longleftrightarrow> pending st a \<or> reported answer bad j \<noteq> 0))"
proof -
  from fdevent_process_spec [OF assms, of bad] obtain st' ys where
    st': "fdevent_process answer bad st = Inr st'" "fd_inv st' (xs @ ys)" "reg st' = reg st"
    "closed st' = closed st"
    "\<And>j a. reg st j = Some a \<Longrightarrow> fdes st' a = marked (reported answer bad j) (fdes st a)" by blast
  then show ?thesis
    by (intro exI [of _ st'] exI [of _ ys]) (auto simp: marked_def)
qed

lemma fdevent_process_reports_witness:
  "\<exists>st'. fdevent_process (SelErr EBADF) {5} demo_fd = Inr st' \<and> pending st' 1 \<and> closed st' = closed demo_fd"
proof -
  obtain xs where "fd_inv demo_fd xs" using demo_fd_reach(2) by blast
  from fdevent_process_reports [OF this, of "SelErr EBADF" "{5}"] show ?thesis
    using demo_fd_reach(5) by (auto simp: select_ok_def reported_def FDE_READ_def)
qed

text \<open>
  \<open>fdevent_remove\<close> undoes \<open>fdevent_install\<close>. After it the event is not registered, not
  pending and watched by no set, and its descriptor has been closed exactly once, unless
  \<open>FDE_DONT_CLOSE\<close> was set.
\<close>

theorem fdevent_remove_releases:
  assumes "fd_inv st xs" and "active st a"
  shows "\<exists>st'. fdevent_remove a st = Inr st' \<and> fd_inv st' (remove1 a xs) \<and>
    fde_state (fdes st' a) = 0 \<and> reg st' = (reg st)(nat (fde_fd (fdes st a)) := None) \<and>
    nat (fde_fd (fdes st a)) \<notin> read_fds st' \<union> write_fds st' \<union> error_fds st' \<and>
    closed st' = closed st @
      (if fde_state (fdes st a) AND FDE_DONT_CLOSE \<noteq> 0 then [] else [fde_fd (fdes st a)])"
proof -
  from fdevent_remove_active [OF assms] obtain st' where
    st': "fdevent_remove a st = Inr st'" "fd_inv st' (remove1 a xs)"
    "fdes st' = (fdes st)(a := after_remove a st)"
    "reg st' = (reg st)(nat (fde_fd (fdes st a)) := None)"
    "closed st' = closed st @ (if bit (fde_state (fdes st a)) 7 then [] else [fde_fd (fdes st a)])"
    by blast
  with fd_invD(7,8,9) [OF st'(2)] show ?thesis
    by (auto simp: watches_def after_remove_def)
qed

lemma fdevent_remove_releases_witness:
  "\<exists>st'. fdevent_remove 1 demo_fd = Inr st' \<and> reg st' 5 = None \<and> closed st' = closed demo_fd @ [5]"
proof -
  obtain xs where "fd_inv demo_fd xs" using demo_fd_reach(2) by blast
  from fdevent_remove_releases [OF this demo_fd_reach(3)] show ?thesis
    using demo_fd_reach(4,6) by auto
qed

text \<open>
  C30: a turn of \<open>fdevent_loop\<close> always comes back to \<open>select\<close>. Whatever operations the
  callbacks choose, the inner loop ends with an empty pending list, and no callback makes it
  run forever.
\<close>

theorem fdevent_turn_returns:
  assumes "fd_reach st" and "select_ok st answer"
  shows "\<exists>st'. fdevent_turn (\<lambda>f fd ev arg st. run_ops (h f fd ev arg st) st) answer bad st =
      Some (Inr st') \<and> fd_inv st' []"
proof -
  from fd_reach_inv [OF assms(1)] obtain xs where "fd_inv st xs" by blast
  then show ?thesis using assms(2) by (rule handlers.turn_returns)
qed

lemma fdevent_turn_returns_witness:
  "\<exists>st'. fdevent_turn (\<lambda>f fd ev arg st. run_ops [OpRemove 1, OpInstall 2 7 f 0] st)
      (SelErr EBADF) {5} demo_fd = Some (Inr st') \<and> fd_inv st' []"
  using fdevent_turn_returns [OF demo_fd_reach(1), of "SelErr EBADF" "\<lambda>f fd ev arg st. [OpRemove 1, OpInstall 2 7 f 0]"]
  by (simp add: select_ok_def)

end
