(* ===== verification/Sockets.thy ===== *)
theory Sockets
  imports Fdevent Packet
begin

text \<open>
  The sockets of \<open>src/sockets.c\<close>, together with the two kinds that \<open>src/jdwp_service.c\<close>
  adds: local sockets (a descriptor), remote sockets (a stream of the peer device), smart
  sockets (a client that has not yet named a service) and the two JDWP sockets. They are
  heap objects that point at each other, are closed by each other and free themselves, so
  the model keeps an explicit heap in which every access to a freed object is a fault.

  Function pointers are constructors that a dispatch function interprets. A socket that is
  closed closes its peer first; the recursion of \<open>run_close\<close> ends because the peer's own
  pointer back has been cleared.
\<close>

section \<open>State\<close>

datatype enqueue_fn = LocalEnqueue | RemoteEnqueue | SmartEnqueue | JdwpEnqueue | TrackerEnqueue

datatype ready_fn = LocalReady | LocalReadyNotify | RemoteReady | SmartReady | JdwpReady | TrackerReady

datatype close_fn = LocalClose | LocalCloseNotify | RemoteClose | SmartClose | JdwpClose | TrackerClose

text \<open>
  \<open>struct asocket\<close>. The queue from \<open>pkt_first\<close> to \<open>pkt_last\<close> is the list \<open>pkts\<close>; \<open>pass\<close> and
  \<open>need_update\<close> belong to \<open>JdwpSocket\<close> and \<open>JdwpTracker\<close>.
\<close>

record asocket =
  sid :: u32
  closing :: bool
  exit_on_close :: bool
  peer :: "nat option"
  sfd :: int
  write_fd :: int
  pkts :: "apacket list"
  enqueue_op :: enqueue_fn
  ready_op :: ready_fn
  close_op :: close_fn
  transport :: "nat option"
  pass :: bool
  need_update :: bool

text \<open>What sockets and transports do to the rest of the program and to the kernel, in order.\<close>

datatype effect =
    Sent nat apacket
  | FdOp fd_op
  | CloseFd int
  | WriteFd int "byte list"
  | SendFd int int
  | Shutdown int
  | UsbKick "nat option"
  | UsbClose "nat option"
  | InputThread nat
  | OutputThread nat

text \<open>
  The state. \<open>slist\<close> and \<open>clist\<close> are the elements of \<open>local_socket_list\<close> and
  \<open>local_socket_closing_list\<close> in order, \<open>trackers\<close> those of \<open>_jdwp_trackers_list\<close>,
  \<open>remotes t\<close> the sockets whose disconnect callbacks are on transport \<open>t\<close>.

  The environment: the answers to writes on non-blocking descriptors, the transports whose
  pipe accepts a packet, the contents of fresh memory, the transport (or error) that
  \<open>acquire_one_transport\<close> returns, which transports are offline, and the process ids on
  \<open>_jdwp_list\<close> in order (negative while a process has not told its own).
\<close>

record sworld =
  heap :: "asocket option list"
  slist :: "nat list"
  clist :: "nat list"
  trackers :: "nat list"
  remotes :: "nat \<Rightarrow> nat list"
  next_id :: u32
  effects :: "effect list"
  wscript :: "wr_answer list"
  pipe_ok :: "nat \<Rightarrow> bool"
  fresh :: "byte list"
  acquire :: "string + nat"
  offline :: "nat \<Rightarrow> bool"
  jdwp_pids :: "int list"

text \<open>The address of the event inside the socket at address \<open>a\<close>.\<close>

definition fde_of :: "nat \<Rightarrow> nat" where "fde_of a = Suc a"

definition emit :: "effect \<Rightarrow> sworld \<Rightarrow> sworld" where
  "emit e st = st\<lparr>effects := effects st @ [e]\<rparr>"

definition sock :: "nat \<Rightarrow> sworld \<Rightarrow> asocket res" where
  "sock a st =
     (if a < length (heap st) then
        (case heap st ! a of None \<Rightarrow> Inl (Fault UseAfterFree) | Some s \<Rightarrow> Inr s)
      else Inl (Fault UseAfterFree))"

definition upd :: "nat \<Rightarrow> (asocket \<Rightarrow> asocket) \<Rightarrow> sworld \<Rightarrow> sworld res" where
  "upd a f st = seq (sock a st) (\<lambda>s. Inr (st\<lparr>heap := (heap st)[a := Some (f s)]\<rparr>))"

definition free_sock :: "nat \<Rightarrow> sworld \<Rightarrow> sworld res" where
  "free_sock a st = seq (sock a st) (\<lambda>_. Inr (st\<lparr>heap := (heap st)[a := None]\<rparr>))"

definition zero_sock :: asocket where
  "zero_sock = \<lparr>sid = 0, closing = False, exit_on_close = False, peer = None, sfd = 0, write_fd = 0,
     pkts = [], enqueue_op = LocalEnqueue, ready_op = LocalReady, close_op = LocalClose,
     transport = None, pass = False, need_update = False\<rparr>"

definition alloc :: "asocket \<Rightarrow> sworld \<Rightarrow> nat \<times> sworld" where
  "alloc s st = (length (heap st), st\<lparr>heap := heap st @ [Some s]\<rparr>)"

section \<open>Sending packets\<close>

definition send_packet :: "apacket \<Rightarrow> nat option \<Rightarrow> sworld \<Rightarrow> sworld res" where
  "send_packet p t st =
     seq (packet_seal p) (\<lambda>p.
     case t of
       None \<Rightarrow> Inl (Exit (-1))
     | Some t \<Rightarrow> if pipe_ok st t then Inr (emit (Sent t p) st) else Inl (Exit (-1)))"

definition command_packet :: "u32 \<Rightarrow> u32 \<Rightarrow> u32 \<Rightarrow> sworld \<Rightarrow> apacket" where
  "command_packet c a0 a1 st =
     (let p = get_apacket (fresh st) in
      p\<lparr>msg := (msg p)\<lparr>command := c, arg0 := a0, arg1 := a1\<rparr>\<rparr>)"

section \<open>Status messages\<close>

definition hex_digit :: "nat \<Rightarrow> byte" where
  "hex_digit n = (if n < 10 then of_nat (48 + n) else of_nat (87 + n))"

text \<open>\<open>snprintf("%04x")\<close> of a number below \<open>0x10000\<close>.\<close>

definition hex4 :: "nat \<Rightarrow> byte list" where
  "hex4 n = [hex_digit (n div 4096 mod 16), hex_digit (n div 256 mod 16), hex_digit (n div 16 mod 16),
     hex_digit (n mod 16)]"

text \<open>The two \<open>writex\<close> of \<open>sendfailmsg\<close> put this on the descriptor.\<close>

definition failmsg :: "string \<Rightarrow> byte list" where
  "failmsg reason =
     (let len = min (length reason) 0xffff in
      bytes_of_str ''FAIL'' @ hex4 len @ take len (bytes_of_str reason))"

definition sendfailmsg :: "int \<Rightarrow> string \<Rightarrow> sworld \<Rightarrow> sworld" where
  "sendfailmsg fd reason st = emit (WriteFd fd (failmsg reason)) st"

section \<open>Lists of debuggable processes\<close>

fun dec_digits :: "nat \<Rightarrow> byte list" where
  "dec_digits n = (if n < 10 then [of_nat (48 + n)] else dec_digits (n div 10) @ [of_nat (48 + n mod 10)])"

declare dec_digits.simps [simp del]

text \<open>
  The loop of \<open>jdwp_process_list\<close> with \<open>room = end - p\<close>: a line that does not fit together with
  the final zero byte ends it.
\<close>

fun pid_lines :: "nat \<Rightarrow> int list \<Rightarrow> byte list" where
  "pid_lines room [] = []"
| "pid_lines room (pid # pids) =
     (if pid < 0 then pid_lines room pids
      else
        let line = dec_digits (nat pid) @ [10] in
        if length line \<ge> room then []
        else line @ pid_lines (room - length line) pids)"

definition jdwp_process_list :: "int list \<Rightarrow> nat \<Rightarrow> byte list" where
  "jdwp_process_list pids bufferlen = pid_lines bufferlen pids"

definition jdwp_process_list_msg :: "int list \<Rightarrow> nat \<Rightarrow> byte list" where
  "jdwp_process_list_msg pids bufferlen =
     (let body = jdwp_process_list pids (bufferlen - 4) in hex4 (length body) @ body)"

lemma length_pid_lines: "0 < room \<Longrightarrow> length (pid_lines room pids) < room"
  by (induction room pids rule: pid_lines.induct) (auto simp: Let_def)

lemma length_jdwp_process_list: "0 < n \<Longrightarrow> length (jdwp_process_list pids n) < n"
  by (simp add: jdwp_process_list_def length_pid_lines)

lemma length_jdwp_process_list_msg: "4 < n \<Longrightarrow> length (jdwp_process_list_msg pids n) < n"
  using length_jdwp_process_list [of "n - 4" pids] by (simp add: jdwp_process_list_msg_def Let_def hex4_def)

section \<open>The lists of local sockets\<close>

text \<open>The loop over \<open>local_socket_list\<close> in \<open>find_local_socket\<close>.\<close>

fun find_from :: "nat list \<Rightarrow> u32 \<Rightarrow> sworld \<Rightarrow> nat option res" where
  "find_from [] i st = Inr None"
| "find_from (a # as) i st =
     seq (sock a st) (\<lambda>s. if sid s = i then Inr (Some a) else find_from as i st)"

definition find_local_socket :: "u32 \<Rightarrow> sworld \<Rightarrow> nat option res" where
  "find_local_socket i st = find_from (slist st) i st"

definition install_local_socket :: "nat \<Rightarrow> sworld \<Rightarrow> sworld res" where
  "install_local_socket a st =
     seq (upd a (\<lambda>s. s\<lparr>sid := next_id st\<rparr>) st) (\<lambda>st.
     Inr (st\<lparr>next_id := next_id st + 1, slist := slist st @ [a]\<rparr>))"

definition remove_socket :: "nat \<Rightarrow> sworld \<Rightarrow> sworld res" where
  "remove_socket a st =
     (if a \<in> set (slist st) \<or> a \<in> set (clist st) then
        upd a (\<lambda>s. s\<lparr>sid := 0\<rparr>) (st\<lparr>slist := remove1 a (slist st), clist := remove1 a (clist st)\<rparr>)
      else Inr st)"

section \<open>Closing\<close>

definition local_socket_destroy :: "nat \<Rightarrow> sworld \<Rightarrow> sworld res" where
  "local_socket_destroy a st =
     seq (sock a st) (\<lambda>s.
     let st = emit (FdOp (OpRemove (fde_of a))) st;
         st = (if write_fd s \<noteq> sfd s then emit (CloseFd (write_fd s)) st else st) in
     seq (remove_socket a st) (\<lambda>st.
     seq (free_sock a st) (\<lambda>st.
     if exit_on_close s then Inl (Exit 1) else Inr st)))"

definition remove_disconnect :: "nat option \<Rightarrow> nat \<Rightarrow> sworld \<Rightarrow> sworld res" where
  "remove_disconnect t a st =
     (case t of
        None \<Rightarrow> Inl (Fault NullDeref)
      | Some t \<Rightarrow> Inr (st\<lparr>remotes := (remotes st)(t := remove1 a (remotes st t))\<rparr>))"

text \<open>What follows in \<open>local_socket_close_locked\<close> once the peer is gone.\<close>

definition close_rest :: "nat \<Rightarrow> sworld \<Rightarrow> sworld res" where
  "close_rest a st =
     seq (sock a st) (\<lambda>s.
     if closing s \<or> pkts s = [] then local_socket_destroy a st
     else
       seq (upd a (\<lambda>s. s\<lparr>closing := True\<rparr>) st) (\<lambda>st.
       let st = emit (FdOp (OpDel (fde_of a) 1)) st in
       seq (remove_socket a st) (\<lambda>st.
       Inr (st\<lparr>clist := clist st @ [a]\<rparr>))))"

definition has_peer :: "nat \<Rightarrow> sworld \<Rightarrow> bool" where
  "has_peer a st = (case sock a st of Inl _ \<Rightarrow> False | Inr s \<Rightarrow> peer s \<noteq> None)"

lemma sock_upd_same: "upd a f st = Inr st' \<Longrightarrow> sock a st' = map_sum id f (sock a st)"
  by (auto simp: upd_def seq_eq_Inr sock_def split: option.splits if_splits)

lemma has_peer_upd_None: "upd a (\<lambda>s. s\<lparr>peer := None\<rparr>) st = Inr st' \<Longrightarrow> \<not> has_peer a st'"
  by (cases "sock a st") (auto simp: has_peer_def dest!: sock_upd_same)

lemma has_peer_upd_keep:
  "upd a (\<lambda>s. s\<lparr>ready_op := r, close_op := c\<rparr>) st = Inr st' \<Longrightarrow> has_peer a st' = has_peer a st"
  by (cases "sock a st") (auto simp: has_peer_def dest!: sock_upd_same)

lemma has_peerI: "sock a st = Inr s \<Longrightarrow> peer s = Some q \<Longrightarrow> has_peer a st"
  by (simp add: has_peer_def)

lemma heap_emit [simp]: "heap (emit e st) = heap st" "sock a (emit e st) = sock a st"
  "has_peer a (emit e st) = has_peer a st"
  by (simp_all add: emit_def sock_def has_peer_def)

lemma heap_sendfailmsg [simp]: "has_peer a (sendfailmsg fd r st) = has_peer a st"
  "sock a (sendfailmsg fd r st) = sock a st"
  by (simp_all add: sendfailmsg_def)

text \<open>
  \<open>run_close f a\<close> is the body of the close function \<open>f\<close> on socket \<open>a\<close>:
  \<open>local_socket_close(_locked)\<close>, \<open>local_socket_close_notify\<close>, \<open>remote_socket_close\<close>,
  \<open>smart_socket_close\<close>, \<open>jdwp_socket_close\<close>, \<open>jdwp_tracker_close\<close>.
\<close>

function run_close :: "close_fn \<Rightarrow> nat \<Rightarrow> sworld \<Rightarrow> sworld res" where
  "run_close LocalClose a st =
     seq (sock a st) (\<lambda>s.
     seq (case peer s of
            None \<Rightarrow> Inr st
          | Some q \<Rightarrow>
              seq (upd q (\<lambda>s. s\<lparr>peer := None\<rparr>) st) (\<lambda>st.
              seq (sock q st) (\<lambda>qs.
              seq (run_close (close_op qs) q st) (\<lambda>st.
              upd a (\<lambda>s. s\<lparr>peer := None\<rparr>) st)))) (\<lambda>st.
     close_rest a st))"
| "run_close LocalCloseNotify a st =
     seq (upd a (\<lambda>s. s\<lparr>ready_op := LocalReady, close_op := LocalClose\<rparr>) st) (\<lambda>st.
     seq (sock a st) (\<lambda>s.
     run_close LocalClose a (sendfailmsg (sfd s) ''closed'' st)))"
| "run_close RemoteClose a st =
     seq (sock a st) (\<lambda>s.
     seq (case peer s of
            None \<Rightarrow> Inr (0, st)
          | Some q \<Rightarrow>
              seq (sock q st) (\<lambda>qs.
              seq (upd q (\<lambda>s. s\<lparr>peer := None\<rparr>) st) (\<lambda>st.
              seq (sock q st) (\<lambda>qs'.
              seq (run_close (close_op qs') q st) (\<lambda>st.
              Inr (sid qs, st)))))) (\<lambda>(a0, st).
     seq (sock a st) (\<lambda>s.
     seq (send_packet (command_packet A_CLSE a0 (sid s) st) (transport s) st) (\<lambda>st.
     seq (remove_disconnect (transport s) a st) (\<lambda>st.
     free_sock a st)))))"
| "run_close SmartClose a st =
     seq (sock a st) (\<lambda>s.
     seq (case peer s of
            None \<Rightarrow> Inr st
          | Some q \<Rightarrow>
              seq (upd q (\<lambda>s. s\<lparr>peer := None\<rparr>) st) (\<lambda>st.
              seq (sock q st) (\<lambda>qs.
              seq (run_close (close_op qs) q st) (\<lambda>st.
              upd a (\<lambda>s. s\<lparr>peer := None\<rparr>) st)))) (\<lambda>st.
     free_sock a st))"
| "run_close JdwpClose a st =
     seq (sock a st) (\<lambda>s.
     seq (remove_socket a st) (\<lambda>st.
     seq (case peer s of
            None \<Rightarrow> Inr st
          | Some q \<Rightarrow>
              seq (upd q (\<lambda>s. s\<lparr>peer := None\<rparr>) st) (\<lambda>st.
              seq (sock q st) (\<lambda>qs.
              run_close (close_op qs) q st))) (\<lambda>st.
     free_sock a st)))"
| "run_close TrackerClose a st =
     seq (sock a st) (\<lambda>s.
     seq (case peer s of
            None \<Rightarrow> Inr st
          | Some q \<Rightarrow>
              seq (upd q (\<lambda>s. s\<lparr>peer := None\<rparr>) st) (\<lambda>st.
              seq (sock q st) (\<lambda>qs.
              run_close (close_op qs) q st))) (\<lambda>st.
     seq (remove_socket a st) (\<lambda>st.
     free_sock a (st\<lparr>trackers := remove1 a (trackers st)\<rparr>))))"
  by pat_completeness auto
termination
  by (relation "measure (\<lambda>(f, a, st). (if has_peer a st then 2 else 0) +
        (if f = LocalCloseNotify then 1 else 0))")
    (auto dest: has_peer_upd_None has_peer_upd_keep simp: has_peerI)

text \<open>\<open>s->close(s)\<close>\<close>

definition sock_close :: "nat \<Rightarrow> sworld \<Rightarrow> sworld res" where
  "sock_close a st = seq (sock a st) (\<lambda>s. run_close (close_op s) a st)"

text \<open>The close functions by the names the code gives them.\<close>

definition local_socket_close :: "nat \<Rightarrow> sworld \<Rightarrow> sworld res" where
  "local_socket_close = run_close LocalClose"

definition local_socket_close_notify :: "nat \<Rightarrow> sworld \<Rightarrow> sworld res" where
  "local_socket_close_notify = run_close LocalCloseNotify"

definition remote_socket_close :: "nat \<Rightarrow> sworld \<Rightarrow> sworld res" where
  "remote_socket_close = run_close RemoteClose"

definition smart_socket_close :: "nat \<Rightarrow> sworld \<Rightarrow> sworld res" where
  "smart_socket_close = run_close SmartClose"

definition jdwp_socket_close :: "nat \<Rightarrow> sworld \<Rightarrow> sworld res" where
  "jdwp_socket_close = run_close JdwpClose"

definition jdwp_tracker_close :: "nat \<Rightarrow> sworld \<Rightarrow> sworld res" where
  "jdwp_tracker_close = run_close TrackerClose"

definition remote_socket_disconnect :: "nat \<Rightarrow> sworld \<Rightarrow> sworld res" where
  "remote_socket_disconnect a st =
     seq (sock a st) (\<lambda>s.
     seq (case peer s of
            None \<Rightarrow> Inr st
          | Some q \<Rightarrow> seq (upd q (\<lambda>s. s\<lparr>peer := None\<rparr>) st) (sock_close q)) (\<lambda>st.
     seq (sock a st) (\<lambda>s.
     seq (remove_disconnect (transport s) a st) (free_sock a))))"

text \<open>
  \<open>run_transport_disconnects\<close> keeps the next callback before it calls one. No callback adds
  one, so the list at the start is the list it walks.
\<close>

fun run_disconnects :: "nat list \<Rightarrow> sworld \<Rightarrow> sworld res" where
  "run_disconnects [] st = Inr st"
| "run_disconnects (a # as) st = seq (remote_socket_disconnect a st) (run_disconnects as)"

definition run_transport_disconnects :: "nat \<Rightarrow> sworld \<Rightarrow> sworld res" where
  "run_transport_disconnects t st = run_disconnects (remotes st t) st"

section \<open>Data for a socket\<close>

text \<open>
  The loop \<open>while(p->len > 0)\<close> around \<open>adb_write\<close>: what was written, what is left, and why it
  stopped. The descriptor does not block, so when the answers are used up the next call
  fails with \<open>EAGAIN\<close>.
\<close>

datatype wstop = Done | Again | Broken

function push :: "byte list \<Rightarrow> wr_answer list \<Rightarrow> byte list \<times> byte list \<times> wstop \<times> wr_answer list" where
  "push bs k =
     (if bs = [] then ([], [], Done, k)
      else case adb_write bs k of
        None \<Rightarrow> ([], bs, Again, [])
      | Some (Got n, k') \<Rightarrow>
          if n > 0 then
            (case push (drop n bs) k' of (out, rest, r, k'') \<Rightarrow> (take n bs @ out, rest, r, k''))
          else ([], bs, Broken, k')
      | Some (Failed e, k') \<Rightarrow> ([], bs, if e = EAGAIN then Again else Broken, k'))"
  by pat_completeness auto
termination
  by (relation "measure (\<lambda>(bs, k). length k)") (auto dest: adb_write_progress)

declare push.simps [simp del]

text \<open>The bytes from \<open>p->ptr\<close> on, \<open>p->len\<close> of them, which must lie in the packet.\<close>

definition unsent :: "apacket \<Rightarrow> byte list" where
  "unsent p = take (unat (pkt_len p)) (drop (pkt_ptr p) (data p))"

definition in_packet :: "apacket \<Rightarrow> bool" where
  "in_packet p \<longleftrightarrow> pkt_ptr p + unat (pkt_len p) \<le> length (data p)"

definition advance :: "nat \<Rightarrow> apacket \<Rightarrow> apacket" where
  "advance n p = p\<lparr>pkt_ptr := pkt_ptr p + n, pkt_len := pkt_len p - of_nat n\<rparr>"

definition local_enqueue_tail :: "nat \<Rightarrow> apacket \<Rightarrow> sworld \<Rightarrow> (int \<times> sworld) res" where
  "local_enqueue_tail a p st =
     seq (upd a (\<lambda>s. s\<lparr>pkts := pkts s @ [p]\<rparr>) st) (\<lambda>st.
     Inr (1, emit (FdOp (OpAdd (fde_of a) 2)) st))"

definition local_socket_enqueue :: "nat \<Rightarrow> apacket \<Rightarrow> sworld \<Rightarrow> (int \<times> sworld) res" where
  "local_socket_enqueue a p st =
     (let p = p\<lparr>pkt_ptr := 0\<rparr> in
      seq (sock a st) (\<lambda>s.
      if pkts s \<noteq> [] then local_enqueue_tail a p st
      else if \<not> in_packet p then Inl (Fault OutOfBounds)
      else (case push (unsent p) (wscript st) of (out, rest, stop, k) \<Rightarrow>
        let st = emit (WriteFd (write_fd s) out) (st\<lparr>wscript := k\<rparr>);
            p = advance (length out) p in
        if stop = Broken then seq (sock_close a st) (\<lambda>st. Inr (1, st))
        else if pkt_len p = 0 then Inr (0, st)
        else local_enqueue_tail a p st)))"

definition remote_socket_enqueue :: "nat \<Rightarrow> apacket \<Rightarrow> sworld \<Rightarrow> (int \<times> sworld) res" where
  "remote_socket_enqueue a p st =
     seq (sock a st) (\<lambda>s.
     seq (ptr (peer s)) (\<lambda>q.
     seq (sock q st) (\<lambda>qs.
     let p = p\<lparr>msg := (msg p)\<lparr>command := A_WRTE, arg0 := sid qs, arg1 := sid s,
           data_length := pkt_len p\<rparr>\<rparr> in
     seq (send_packet p (transport s) st) (\<lambda>st. Inr (1, st)))))"

text \<open>\<open>jdwp_socket_enqueue\<close> and \<open>jdwp_tracker_enqueue\<close> refuse data.\<close>

definition jdwp_socket_enqueue :: "nat \<Rightarrow> apacket \<Rightarrow> sworld \<Rightarrow> (int \<times> sworld) res" where
  "jdwp_socket_enqueue a p st =
     seq (sock a st) (\<lambda>s.
     seq (ptr (peer s)) (\<lambda>q.
     seq (sock_close q st) (\<lambda>st. Inr (-1, st))))"

subsection \<open>Smart sockets\<close>

fun unhex_digit :: "byte \<Rightarrow> u32 option" where
  "unhex_digit c =
     (if 48 \<le> c \<and> c \<le> 57 then Some (ucast c - 48)
      else if 97 \<le> c \<and> c \<le> 102 then Some (ucast c - 97 + 10)
      else if 65 \<le> c \<and> c \<le> 70 then Some (ucast c - 65 + 10)
      else None)"

fun unhex_from :: "byte list \<Rightarrow> nat \<Rightarrow> u32 \<Rightarrow> u32 res" where
  "unhex_from s 0 n = Inr n"
| "unhex_from [] (Suc len) n = Inl (Fault OutOfBounds)"
| "unhex_from (c # s) (Suc len) n =
     (case unhex_digit c of
        None \<Rightarrow> Inr 0xffffffff
      | Some d \<Rightarrow> unhex_from s len (push_bit 4 n OR d))"

definition unhex :: "byte list \<Rightarrow> nat \<Rightarrow> u32 res" where
  "unhex s len = unhex_from s len 0"

definition connect_to_remote :: "nat \<Rightarrow> byte list \<Rightarrow> sworld \<Rightarrow> sworld res" where
  "connect_to_remote a destination st =
     seq (sock a st) (\<lambda>s.
     let p = command_packet A_OPEN (sid s) 0 st; len = length destination + 1 in
     if len > MAX_PAYLOAD - 1 then Inl (Exit (-1))
     else
       seq (blit (destination @ [0]) (data p)) (\<lambda>d.
       send_packet (p\<lparr>msg := (msg p)\<lparr>data_length := of_nat len\<rparr>, data := d\<rparr>) (transport s) st))"

definition smart_fail :: "nat \<Rightarrow> sworld \<Rightarrow> (int \<times> sworld) res" where
  "smart_fail a st = seq (sock_close a st) (\<lambda>st. Inr (-1, st))"

text \<open>\<open>sendfailmsg(s->peer->fd, reason); goto fail;\<close>\<close>

definition smart_refuse :: "nat \<Rightarrow> string \<Rightarrow> sworld \<Rightarrow> (int \<times> sworld) res" where
  "smart_refuse a reason st =
     seq (sock a st) (\<lambda>s.
     seq (ptr (peer s)) (\<lambda>q.
     seq (sock q st) (\<lambda>qs.
     smart_fail a (sendfailmsg (sfd qs) reason st))))"

text \<open>Handing the client over to the transport \<open>t\<close>, with the service named in \<open>d\<close> after the length.\<close>

definition smart_connect :: "nat \<Rightarrow> nat \<Rightarrow> byte list \<Rightarrow> sworld \<Rightarrow> (int \<times> sworld) res" where
  "smart_connect a t d st =
     seq (sock a st) (\<lambda>s.
     seq (ptr (peer s)) (\<lambda>q.
     seq (upd q (\<lambda>s. s\<lparr>ready_op := LocalReadyNotify, close_op := LocalCloseNotify, peer := None,
            transport := Some t\<rparr>) st) (\<lambda>st.
     case c_string (drop 4 d) of
       None \<Rightarrow> Inl (Fault OutOfBounds)
     | Some name \<Rightarrow>
         seq (connect_to_remote q name st) (\<lambda>st.
         seq (upd a (\<lambda>s. s\<lparr>peer := None\<rparr>) st) (\<lambda>st.
         seq (sock_close a st) (\<lambda>st. Inr (1, st)))))))"

text \<open>The request is collected in the first packet; \<open>smart_merge\<close> appends to it.\<close>

definition smart_merge :: "apacket \<Rightarrow> apacket \<Rightarrow> apacket res" where
  "smart_merge p0 p =
     (if unat (pkt_len p) \<le> length (data p) \<and> unat (pkt_len p0) + unat (pkt_len p) \<le> length (data p0)
      then Inr (p0\<lparr>data := take (unat (pkt_len p0)) (data p0) @ take (unat (pkt_len p)) (data p) @
              drop (unat (pkt_len p0) + unat (pkt_len p)) (data p0),
            pkt_len := pkt_len p0 + pkt_len p\<rparr>)
      else Inl (Fault OutOfBounds))"

definition smart_request :: "nat \<Rightarrow> apacket \<Rightarrow> sworld \<Rightarrow> (int \<times> sworld) res" where
  "smart_request a p st =
     (if pkt_len p < 4 then Inr (0, st)
      else
        seq (unhex (data p) 4) (\<lambda>len.
        if len < 1 \<or> len > 1024 then smart_fail a st
        else if len + 4 > pkt_len p then Inr (0, st)
        else if unat (len + 4) \<ge> length (data p) then Inl (Fault OutOfBounds)
        else
          let d = (data p)[unat (len + 4) := 0] in
          seq (sock a st) (\<lambda>s.
          case (case transport s of Some t \<Rightarrow> Inr t | None \<Rightarrow> acquire st) of
            Inl err \<Rightarrow> smart_refuse a err st
          | Inr t \<Rightarrow>
              seq (upd a (\<lambda>s. s\<lparr>transport := Some t, pkts := [p\<lparr>data := d\<rparr>]\<rparr>) st) (\<lambda>st.
              if offline st t then smart_refuse a ''device offline (x)'' st
              else smart_connect a t d st))))"

definition smart_socket_enqueue :: "nat \<Rightarrow> apacket \<Rightarrow> sworld \<Rightarrow> (int \<times> sworld) res" where
  "smart_socket_enqueue a p st =
     seq (sock a st) (\<lambda>s.
     case pkts s of
       [] \<Rightarrow> seq (upd a (\<lambda>s. s\<lparr>pkts := [p]\<rparr>) st) (smart_request a p)
     | p0 # _ \<Rightarrow>
         if pkt_len p0 + pkt_len p > of_nat MAX_PAYLOAD then smart_fail a st
         else
           seq (smart_merge p0 p) (\<lambda>p.
           seq (upd a (\<lambda>s. s\<lparr>pkts := [p]\<rparr>) st) (smart_request a p)))"

text \<open>\<open>s->enqueue(s, p)\<close>\<close>

definition sock_enqueue :: "nat \<Rightarrow> apacket \<Rightarrow> sworld \<Rightarrow> (int \<times> sworld) res" where
  "sock_enqueue a p st =
     seq (sock a st) (\<lambda>s.
     case enqueue_op s of
       LocalEnqueue \<Rightarrow> local_socket_enqueue a p st
     | RemoteEnqueue \<Rightarrow> remote_socket_enqueue a p st
     | SmartEnqueue \<Rightarrow> smart_socket_enqueue a p st
     | JdwpEnqueue \<Rightarrow> jdwp_socket_enqueue a p st
     | TrackerEnqueue \<Rightarrow> jdwp_socket_enqueue a p st)"

section \<open>Readiness\<close>

definition local_socket_ready :: "nat \<Rightarrow> sworld \<Rightarrow> sworld" where
  "local_socket_ready a st = emit (FdOp (OpAdd (fde_of a) 1)) st"

definition local_socket_ready_notify :: "nat \<Rightarrow> sworld \<Rightarrow> sworld res" where
  "local_socket_ready_notify a st =
     seq (upd a (\<lambda>s. s\<lparr>ready_op := LocalReady, close_op := LocalClose\<rparr>) st) (\<lambda>st.
     seq (sock a st) (\<lambda>s.
     Inr (local_socket_ready a (emit (WriteFd (sfd s) (bytes_of_str ''OKAY'')) st))))"

definition remote_socket_ready :: "nat \<Rightarrow> sworld \<Rightarrow> sworld res" where
  "remote_socket_ready a st =
     seq (sock a st) (\<lambda>s.
     seq (ptr (peer s)) (\<lambda>q.
     seq (sock q st) (\<lambda>qs.
     send_packet (command_packet A_OKAY (sid qs) (sid s) st) (transport s) st)))"

text \<open>A packet filled with a process list, as the JDWP sockets make it.\<close>

definition list_packet :: "byte list \<Rightarrow> sworld \<Rightarrow> apacket res" where
  "list_packet bs st =
     (let p = get_apacket (fresh st) in
      seq (blit bs (data p)) (\<lambda>d. Inr (p\<lparr>data := d, pkt_len := of_nat (length bs)\<rparr>)))"

definition jdwp_socket_ready :: "nat \<Rightarrow> sworld \<Rightarrow> sworld res" where
  "jdwp_socket_ready a st =
     seq (sock a st) (\<lambda>s.
     if \<not> pass s then
       seq (list_packet (jdwp_process_list (jdwp_pids st) MAX_PAYLOAD) st) (\<lambda>p.
       seq (ptr (peer s)) (\<lambda>q.
       seq (sock_enqueue q p st) (\<lambda>(_, st).
       upd a (\<lambda>s. s\<lparr>pass := True\<rparr>) st)))
     else seq (ptr (peer s)) (\<lambda>q. sock_close q st))"

definition jdwp_tracker_ready :: "nat \<Rightarrow> sworld \<Rightarrow> sworld res" where
  "jdwp_tracker_ready a st =
     seq (sock a st) (\<lambda>s.
     if need_update s then
       seq (upd a (\<lambda>s. s\<lparr>need_update := False\<rparr>) st) (\<lambda>st.
       seq (list_packet (jdwp_process_list_msg (jdwp_pids st) MAX_PAYLOAD) st) (\<lambda>p.
       seq (ptr (peer s)) (\<lambda>q.
       seq (sock_enqueue q p st) (\<lambda>(_, st). Inr st))))
     else Inr st)"

text \<open>\<open>s->ready(s)\<close>\<close>

definition sock_ready :: "nat \<Rightarrow> sworld \<Rightarrow> sworld res" where
  "sock_ready a st =
     seq (sock a st) (\<lambda>s.
     case ready_op s of
       LocalReady \<Rightarrow> Inr (local_socket_ready a st)
     | LocalReadyNotify \<Rightarrow> local_socket_ready_notify a st
     | RemoteReady \<Rightarrow> remote_socket_ready a st
     | SmartReady \<Rightarrow> Inr st
     | JdwpReady \<Rightarrow> jdwp_socket_ready a st
     | TrackerReady \<Rightarrow> jdwp_tracker_ready a st)"

section \<open>Creating sockets\<close>

definition create_local_socket_pair :: "int \<Rightarrow> int \<Rightarrow> sworld \<Rightarrow> (nat \<times> sworld) res" where
  "create_local_socket_pair rfd wfd st =
     (case alloc (zero_sock\<lparr>sfd := rfd, write_fd := wfd, enqueue_op := LocalEnqueue,
             ready_op := LocalReady, close_op := LocalClose\<rparr>) st of (a, st) \<Rightarrow>
      seq (install_local_socket a st) (\<lambda>st.
      Inr (a, emit (FdOp (OpInstall (fde_of a) rfd local_socket_event_func a)) st)))"

definition create_local_socket :: "int \<Rightarrow> sworld \<Rightarrow> (nat \<times> sworld) res" where
  "create_local_socket fd st =
     (case alloc (zero_sock\<lparr>sfd := fd, write_fd := fd, enqueue_op := LocalEnqueue,
             ready_op := LocalReady, close_op := LocalClose\<rparr>) st of (a, st) \<Rightarrow>
      seq (install_local_socket a st) (\<lambda>st.
      Inr (a, emit (FdOp (OpInstall (fde_of a) fd local_socket_event_func a)) st)))"

definition create_remote_socket :: "u32 \<Rightarrow> nat \<Rightarrow> sworld \<Rightarrow> nat \<times> sworld" where
  "create_remote_socket i t st =
     (case alloc (zero_sock\<lparr>sid := i, enqueue_op := RemoteEnqueue, ready_op := RemoteReady,
             close_op := RemoteClose, transport := Some t\<rparr>) st of (a, st) \<Rightarrow>
      (a, st\<lparr>remotes := (remotes st)(t := remotes st t @ [a])\<rparr>))"

definition create_smart_socket :: "sworld \<Rightarrow> nat \<times> sworld" where
  "create_smart_socket st =
     alloc (zero_sock\<lparr>enqueue_op := SmartEnqueue, ready_op := SmartReady, close_op := SmartClose\<rparr>) st"

definition connect_to_smartsocket :: "nat \<Rightarrow> sworld \<Rightarrow> sworld res" where
  "connect_to_smartsocket a st =
     (case create_smart_socket st of (ss, st) \<Rightarrow>
      seq (upd a (\<lambda>s. s\<lparr>peer := Some ss\<rparr>) st) (\<lambda>st.
      seq (upd ss (\<lambda>s. s\<lparr>peer := Some a\<rparr>) st) (sock_ready a)))"

definition create_jdwp_service_socket :: "sworld \<Rightarrow> (nat \<times> sworld) res" where
  "create_jdwp_service_socket st =
     (case alloc zero_sock st of (a, st) \<Rightarrow>
      seq (install_local_socket a st) (\<lambda>st.
      seq (upd a (\<lambda>s. s\<lparr>ready_op := JdwpReady, enqueue_op := JdwpEnqueue, close_op := JdwpClose,
             pass := False\<rparr>) st) (\<lambda>st. Inr (a, st))))"

definition create_jdwp_tracker_service_socket :: "sworld \<Rightarrow> (nat \<times> sworld) res" where
  "create_jdwp_tracker_service_socket st =
     (case alloc zero_sock st of (a, st) \<Rightarrow>
      seq (install_local_socket a (st\<lparr>trackers := trackers st @ [a]\<rparr>)) (\<lambda>st.
      seq (upd a (\<lambda>s. s\<lparr>ready_op := TrackerReady, enqueue_op := TrackerEnqueue,
             close_op := TrackerClose, need_update := True\<rparr>) st) (\<lambda>st. Inr (a, st))))"

text \<open>\<open>jdwp_process_list_updated\<close>: the list goes to the peer of every tracker.\<close>

fun update_trackers :: "nat list \<Rightarrow> sworld \<Rightarrow> sworld res" where
  "update_trackers [] st = Inr st"
| "update_trackers (a # as) st =
     seq (sock a st) (\<lambda>s.
     seq (list_packet (jdwp_process_list_msg (jdwp_pids st) 1024) st) (\<lambda>p.
     seq (ptr (peer s)) (\<lambda>q.
     seq (sock_enqueue q p st) (\<lambda>(_, st). update_trackers as st))))"

definition jdwp_process_list_updated :: "sworld \<Rightarrow> sworld res" where
  "jdwp_process_list_updated st = update_trackers (trackers st) st"

section \<open>Events on a local socket\<close>

text \<open>The outer loop over the queue: what was written, what stays queued, why it stopped.\<close>

fun drain_pkts :: "apacket list \<Rightarrow> wr_answer list \<Rightarrow>
    (byte list \<times> apacket list \<times> wstop \<times> wr_answer list) res" where
  "drain_pkts [] k = Inr ([], [], Done, k)"
| "drain_pkts (p # ps) k =
     (if \<not> in_packet p then Inl (Fault OutOfBounds)
      else case push (unsent p) k of (out, rest, stop, k) \<Rightarrow>
        if stop = Done then
          seq (drain_pkts ps k) (\<lambda>(out', ps', stop', k'). Inr (out @ out', ps', stop', k'))
        else Inr (out, advance (length out) p # ps, stop, k))"

definition local_socket_write_event :: "nat \<Rightarrow> sworld \<Rightarrow> sworld res" where
  "local_socket_write_event a st =
     seq (sock a st) (\<lambda>s.
     seq (drain_pkts (pkts s) (wscript st)) (\<lambda>(out, ps, stop, k).
     seq (upd a (\<lambda>s. s\<lparr>pkts := ps\<rparr>) (emit (WriteFd (write_fd s) out) (st\<lparr>wscript := k\<rparr>))) (\<lambda>st.
     case stop of
       Again \<Rightarrow> Inr st
     | Broken \<Rightarrow> sock_close a st
     | Done \<Rightarrow>
         if closing s then sock_close a st
         else
           seq (ptr (peer s)) (\<lambda>q. sock_ready q (emit (FdOp (OpDel (fde_of a) 2)) st)))))"

text \<open>
  Reading: up to \<open>MAX_PAYLOAD\<close> bytes, until the descriptor would block, fails or ends. The
  last result of \<open>adb_read\<close> is kept, since the test for a forced end looks at it.
\<close>

function gather :: "nat \<Rightarrow> int \<Rightarrow> rd_answer list \<Rightarrow> byte list \<times> bool \<times> int \<times> rd_answer list" where
  "gather avail r k =
     (if avail = 0 then ([], False, r, k)
      else case adb_read avail k of
        None \<Rightarrow> ([], False, -1, [])
      | Some (Got bs, k') \<Rightarrow>
          if bs \<noteq> [] then
            (case gather (avail - length bs) (int (length bs)) k' of
               (out, eof, r', k'') \<Rightarrow> (bs @ out, eof, r', k''))
          else ([], True, 0, k')
      | Some (Failed e, k') \<Rightarrow> ([], e \<noteq> EAGAIN, -1, k'))"
  by pat_completeness auto
termination
proof (relation "measure (\<lambda>(avail, r, k). avail + length k)", goal_cases)
  case 1
  show ?case by simp
next
  case (2 avail r k p s k' bs)
  then show ?case
    using adb_read_progress [of avail k bs k'] by (cases bs) auto
qed

declare gather.simps [simp del]

definition local_socket_read_event :: "bool \<Rightarrow> rd_answer list \<Rightarrow> nat \<Rightarrow> sworld \<Rightarrow> sworld res" where
  "local_socket_read_event force k a st =
     (case gather MAX_PAYLOAD 0 k of (bs, is_eof, r, k') \<Rightarrow>
      let finish = (\<lambda>r st. seq (sock a st) (\<lambda>_.
            if force \<and> r = 0 \<or> is_eof then sock_close a st else Inr st)) in
      seq (sock a st) (\<lambda>s.
      case peer s of
        None \<Rightarrow> finish r st
      | Some q \<Rightarrow>
          if bs = [] then finish r st
          else
            seq (list_packet bs st) (\<lambda>p.
            seq (sock_enqueue q p st) (\<lambda>(r, st).
            if r < 0 then Inr st
            else if r > 0 then
              seq (sock a st) (\<lambda>_. finish r (emit (FdOp (OpDel (fde_of a) 1)) st))
            else finish r st))))"

definition local_socket_event :: "u16 \<Rightarrow> bool \<Rightarrow> rd_answer list \<Rightarrow> nat \<Rightarrow> sworld \<Rightarrow> sworld res" where
  "local_socket_event ev force k a st =
     (if ev AND FDE_WRITE \<noteq> 0 then local_socket_write_event a st
      else if ev AND FDE_READ \<noteq> 0 then local_socket_read_event force k a st
      else Inr st)"

section \<open>Closing all sockets of a transport\<close>

fun find_bound :: "nat \<Rightarrow> nat list \<Rightarrow> sworld \<Rightarrow> nat option res" where
  "find_bound t [] st = Inr None"
| "find_bound t (a # as) st =
     seq (sock a st) (\<lambda>s.
     if transport s = Some t then Inr (Some a)
     else case peer s of
       None \<Rightarrow> find_bound t as st
     | Some q \<Rightarrow>
         seq (sock q st) (\<lambda>qs.
         if transport qs = Some t then Inr (Some a) else find_bound t as st))"

lemma find_bound_in: "find_bound t as st = Inr (Some a) \<Longrightarrow> a \<in> set as"
  by (induction t as st rule: find_bound.induct)
    (auto simp: seq_eq_Inr split: if_splits option.splits)

text \<open>
  A relation between states that every elementary step of a close function satisfies holds
  between the states before and after any close function.
\<close>

locale close_rel =
  fixes R :: "sworld \<Rightarrow> sworld \<Rightarrow> bool"
  assumes R_refl: "R st st"
    and R_trans: "R st st' \<Longrightarrow> R st' st'' \<Longrightarrow> R st st''"
    and R_put: "sock a st = Inr s \<Longrightarrow> closing s \<longrightarrow> closing s' \<Longrightarrow> peer s' = peer s \<or> peer s' = None \<Longrightarrow>
      R st (st\<lparr>heap := (heap st)[a := Some s']\<rparr>)"
    and R_del: "sock a st = Inr s \<Longrightarrow> R st (st\<lparr>heap := (heap st)[a := None]\<rparr>)"
    and R_emit: "R st (emit e st)"
    and R_lists: "R st (st\<lparr>slist := remove1 a (slist st), clist := c\<rparr>)"
    and R_clist: "R st (st\<lparr>clist := c\<rparr>)"
    and R_trackers: "R st (st\<lparr>trackers := remove1 a (trackers st)\<rparr>)"
    and R_remotes: "R st (st\<lparr>remotes := (remotes st)(t := remove1 a (remotes st t))\<rparr>)"
begin

lemma R_thin:
  assumes "\<And>s. closing s \<longrightarrow> closing (f s)" and "\<And>s. peer (f s) = peer s \<or> peer (f s) = None"
    and "upd a f st = Inr st'"
  shows "R st st'"
proof -
  from assms(3) obtain s where "sock a st = Inr s" "st' = st\<lparr>heap := (heap st)[a := Some (f s)]\<rparr>"
    by (auto simp: upd_def seq_eq_Inr)
  with R_put [OF _ assms(1,2)] show ?thesis by blast
qed

lemma R_unpeer: "upd a (\<lambda>s. s\<lparr>peer := None\<rparr>) st = Inr st' \<Longrightarrow> R st st'"
  by (rule R_thin [of "\<lambda>s. s\<lparr>peer := None\<rparr>"]) simp_all

lemma R_mark: "upd a (\<lambda>s. s\<lparr>closing := True\<rparr>) st = Inr st' \<Longrightarrow> R st st'"
  by (rule R_thin [of "\<lambda>s. s\<lparr>closing := True\<rparr>"]) simp_all

lemma R_plain: "upd a (\<lambda>s. s\<lparr>ready_op := LocalReady, close_op := LocalClose\<rparr>) st = Inr st' \<Longrightarrow> R st st'"
  by (rule R_thin [of "\<lambda>s. s\<lparr>ready_op := LocalReady, close_op := LocalClose\<rparr>"]) simp_all

lemma R_sid: "upd a (\<lambda>s. s\<lparr>sid := 0\<rparr>) st = Inr st' \<Longrightarrow> R st st'"
  by (rule R_thin [of "\<lambda>s. s\<lparr>sid := 0\<rparr>"]) simp_all

lemmas R_upd = R_unpeer R_mark R_plain R_sid

lemma R_free: "free_sock a st = Inr st' \<Longrightarrow> R st st'"
  by (auto simp: free_sock_def seq_eq_Inr R_del)

lemma R_remove: "remove_socket a st = Inr st' \<Longrightarrow> R st st'"
  by (auto simp: remove_socket_def R_refl split: if_splits dest!: R_sid intro: R_trans [OF R_lists])

lemma R_send: "send_packet p t st = Inr st' \<Longrightarrow> R st st'"
  by (auto simp: send_packet_def seq_eq_Inr R_emit split: option.splits if_splits)

lemma R_disconnect: "remove_disconnect t a st = Inr st' \<Longrightarrow> R st st'"
  by (auto simp: remove_disconnect_def R_remotes split: option.splits)

lemma R_destroy:
  assumes "local_socket_destroy a st = Inr st'"
  shows "R st st'"
proof -
  from assms obtain s where s: "sock a st = Inr s"
    by (auto simp: local_socket_destroy_def seq_eq_Inr)
  define st1 where "st1 = (let st = emit (FdOp (OpRemove (fde_of a))) st in
      if write_fd s \<noteq> sfd s then emit (CloseFd (write_fd s)) st else st)"
  from assms s obtain st2 where "remove_socket a st1 = Inr st2" "free_sock a st2 = Inr st'"
    unfolding local_socket_destroy_def st1_def Let_def by (auto simp: seq_eq_Inr split: if_splits)
  moreover have "R st st1"
    using R_trans [OF R_emit R_emit] R_emit by (simp add: st1_def Let_def)
  ultimately show ?thesis
    using R_remove R_free R_trans by meson
qed

lemma R_close_rest:
  assumes "close_rest a st = Inr st'"
  shows "R st st'"
proof -
  from assms obtain s where "sock a st = Inr s" by (auto simp: close_rest_def seq_eq_Inr)
  show ?thesis
  proof (cases "closing s \<or> pkts s = []")
    case True
    with assms \<open>sock a st = Inr s\<close> R_destroy show ?thesis by (simp add: close_rest_def)
  next
    case False
    with assms \<open>sock a st = Inr s\<close> obtain st1 st2 where
      "upd a (\<lambda>s. s\<lparr>closing := True\<rparr>) st = Inr st1"
      "remove_socket a (emit (FdOp (OpDel (fde_of a) 1)) st1) = Inr st2"
      "st' = st2\<lparr>clist := clist st2 @ [a]\<rparr>"
      by (auto simp: close_rest_def seq_eq_Inr Let_def)
    then show ?thesis
      using R_upd R_emit R_remove R_clist R_trans by metis
  qed
qed

lemma R_run_close: "run_close f a st = Inr st' \<Longrightarrow> R st st'"
proof (induction f a st arbitrary: st' rule: run_close.induct)
  case (1 a st)
  from "1.prems" obtain s st1 where s: "sock a st = Inr s" and rest: "close_rest a st1 = Inr st'"
    and p: "(case peer s of None \<Rightarrow> Inr st | Some q \<Rightarrow>
      seq (upd q (\<lambda>s. s\<lparr>peer := None\<rparr>) st) (\<lambda>st. seq (sock q st) (\<lambda>qs.
      seq (run_close (close_op qs) q st) (upd a (\<lambda>s. s\<lparr>peer := None\<rparr>))))) = Inr st1"
    by (auto simp: seq_eq_Inr)
  have "R st st1"
  proof (cases "peer s")
    case (Some q)
    with p obtain st2 qs st3 where "upd q (\<lambda>s. s\<lparr>peer := None\<rparr>) st = Inr st2" "sock q st2 = Inr qs"
      "run_close (close_op qs) q st2 = Inr st3" "upd a (\<lambda>s. s\<lparr>peer := None\<rparr>) st3 = Inr st1"
      by (auto simp: seq_eq_Inr)
    with "1.IH" [OF s Some] show ?thesis using R_upd R_trans by meson
  qed (use p R_refl in simp)
  with rest show ?case using R_close_rest R_trans by meson
next
  case (2 a st)
  from "2.prems" obtain s st1 where "upd a (\<lambda>s. s\<lparr>ready_op := LocalReady, close_op := LocalClose\<rparr>) st = Inr st1"
    "sock a st1 = Inr s" "run_close LocalClose a (sendfailmsg (sfd s) ''closed'' st1) = Inr st'"
    by (auto simp: seq_eq_Inr)
  with "2.IH" show ?case
    unfolding sendfailmsg_def using R_upd R_emit R_trans by meson
next
  case (3 a st)
  from "3.prems" obtain s a0 st1 s' st2 st3 where s: "sock a st = Inr s"
    and rest: "send_packet (command_packet A_CLSE a0 (sid (s' :: asocket)) st1) (transport s') st1 = Inr st2"
      "remove_disconnect (transport s') a st2 = Inr st3" "free_sock a st3 = Inr st'"
    and p: "(case peer s of None \<Rightarrow> Inr (0, st) | Some q \<Rightarrow> seq (sock q st) (\<lambda>qs.
      seq (upd q (\<lambda>s. s\<lparr>peer := None\<rparr>) st) (\<lambda>st. seq (sock q st) (\<lambda>qs'.
      seq (run_close (close_op qs') q st) (\<lambda>st. Inr (sid qs, st)))))) = Inr (a0, st1)"
    by (auto simp: seq_eq_Inr)
  have "R st st1"
  proof (cases "peer s")
    case (Some q)
    with p obtain qs st4 qs' where "sock q st = Inr qs" "upd q (\<lambda>s. s\<lparr>peer := None\<rparr>) st = Inr st4"
      "sock q st4 = Inr qs'" "run_close (close_op qs') q st4 = Inr st1"
      by (auto simp: seq_eq_Inr)
    with "3.IH" [OF s Some] show ?thesis using R_upd R_trans by meson
  qed (use p R_refl in simp)
  with rest show ?case using R_send R_disconnect R_free R_trans by meson
next
  case (4 a st)
  from "4.prems" obtain s st1 where s: "sock a st = Inr s" and rest: "free_sock a st1 = Inr st'"
    and p: "(case peer s of None \<Rightarrow> Inr st | Some q \<Rightarrow>
      seq (upd q (\<lambda>s. s\<lparr>peer := None\<rparr>) st) (\<lambda>st. seq (sock q st) (\<lambda>qs.
      seq (run_close (close_op qs) q st) (upd a (\<lambda>s. s\<lparr>peer := None\<rparr>))))) = Inr st1"
    by (auto simp: seq_eq_Inr)
  have "R st st1"
  proof (cases "peer s")
    case (Some q)
    with p obtain st2 qs st3 where "upd q (\<lambda>s. s\<lparr>peer := None\<rparr>) st = Inr st2" "sock q st2 = Inr qs"
      "run_close (close_op qs) q st2 = Inr st3" "upd a (\<lambda>s. s\<lparr>peer := None\<rparr>) st3 = Inr st1"
      by (auto simp: seq_eq_Inr)
    with "4.IH" [OF s Some] show ?thesis using R_upd R_trans by meson
  qed (use p R_refl in simp)
  with rest show ?case using R_free R_trans by meson
next
  case (5 a st)
  from "5.prems" obtain s st0 st1 where s: "sock a st = Inr s" and rm: "remove_socket a st = Inr st0"
    and rest: "free_sock a st1 = Inr st'"
    and p: "(case peer s of None \<Rightarrow> Inr st0 | Some q \<Rightarrow>
      seq (upd q (\<lambda>s. s\<lparr>peer := None\<rparr>) st0) (\<lambda>st. seq (sock q st) (\<lambda>qs.
      run_close (close_op qs) q st))) = Inr st1"
    by (auto simp: seq_eq_Inr)
  have "R st0 st1"
  proof (cases "peer s")
    case (Some q)
    with p obtain st2 qs where "upd q (\<lambda>s. s\<lparr>peer := None\<rparr>) st0 = Inr st2" "sock q st2 = Inr qs"
      "run_close (close_op qs) q st2 = Inr st1"
      by (auto simp: seq_eq_Inr)
    with "5.IH" [OF s rm Some] show ?thesis using R_upd R_trans by meson
  qed (use p R_refl in simp)
  with rest rm show ?case using R_remove R_free R_trans by meson
next
  case (6 a st)
  from "6.prems" obtain s st1 st2 where s: "sock a st = Inr s" and rm: "remove_socket a st1 = Inr st2"
    and rest: "free_sock a (st2\<lparr>trackers := remove1 a (trackers st2)\<rparr>) = Inr st'"
    and p: "(case peer s of None \<Rightarrow> Inr st | Some q \<Rightarrow>
      seq (upd q (\<lambda>s. s\<lparr>peer := None\<rparr>) st) (\<lambda>st. seq (sock q st) (\<lambda>qs.
      run_close (close_op qs) q st))) = Inr st1"
    by (auto simp: seq_eq_Inr)
  have "R st st1"
  proof (cases "peer s")
    case (Some q)
    with p obtain st3 qs where "upd q (\<lambda>s. s\<lparr>peer := None\<rparr>) st = Inr st3" "sock q st3 = Inr qs"
      "run_close (close_op qs) q st3 = Inr st1"
      by (auto simp: seq_eq_Inr)
    with "6.IH" [OF s Some] show ?thesis using R_upd R_trans by meson
  qed (use p R_refl in simp)
  with rest rm show ?case using R_remove R_free R_trackers R_trans by meson
qed

end

text \<open>No close function adds to the list of local sockets.\<close>

lemma subseq_remove1 [simp]: "subseq (remove1 a xs) xs"
  by (induction xs) auto

lemma emit_fields [simp]:
  "slist (emit e st) = slist st" "clist (emit e st) = clist st" "trackers (emit e st) = trackers st"
  "remotes (emit e st) = remotes st" "next_id (emit e st) = next_id st"
  "wscript (emit e st) = wscript st" "pipe_ok (emit e st) = pipe_ok st" "fresh (emit e st) = fresh st"
  "acquire (emit e st) = acquire st" "offline (emit e st) = offline st"
  "jdwp_pids (emit e st) = jdwp_pids st"
  "effects (emit e st) = effects st @ [e]"
  by (simp_all add: emit_def)

interpretation shrink: close_rel "\<lambda>st st'. subseq (slist st') (slist st)"
  by unfold_locales (auto intro: subseq_order.order_trans)

interpretation tshrink: close_rel "\<lambda>st st'. subseq (trackers st') (trackers st)"
  by unfold_locales (auto intro: subseq_order.order_trans)

interpretation rshrink: close_rel "\<lambda>st st'. \<forall>t. set (remotes st' t) \<subseteq> set (remotes st t)"
  by unfold_locales (auto dest: set_remove1_subset [THEN subsetD])

text \<open>They leave the environment alone and only append to the effects.\<close>

definition same_env :: "sworld \<Rightarrow> sworld \<Rightarrow> bool" where
  "same_env st st' \<longleftrightarrow> next_id st' = next_id st \<and> wscript st' = wscript st \<and> pipe_ok st' = pipe_ok st \<and>
     fresh st' = fresh st \<and> acquire st' = acquire st \<and> offline st' = offline st \<and>
     jdwp_pids st' = jdwp_pids st \<and>
     prefix (effects st) (effects st')"

interpretation env: close_rel same_env
  by unfold_locales (auto simp: same_env_def intro: prefix_order.trans)

lemma upd_slist: "upd a f st = Inr st' \<Longrightarrow> slist st' = slist st"
  by (auto simp: upd_def seq_eq_Inr)

lemma free_slist: "free_sock a st = Inr st' \<Longrightarrow> slist st' = slist st"
  by (auto simp: free_sock_def seq_eq_Inr)

lemma remove_socket_slist: "remove_socket a st = Inr st' \<Longrightarrow> slist st' = remove1 a (slist st)"
  by (auto simp: remove_socket_def remove1_idem dest: upd_slist split: if_splits)

lemma close_rest_slist: "close_rest a st = Inr st' \<Longrightarrow> slist st' = remove1 a (slist st)"
  by (auto simp: close_rest_def local_socket_destroy_def seq_eq_Inr Let_def
      dest!: remove_socket_slist upd_slist free_slist split: if_splits)

lemma run_close_LocalClose_shrinks:
  assumes "run_close LocalClose a st = Inr st'" and "a \<in> set (slist st)"
  shows "length (slist st') < length (slist st)"
proof -
  from assms(1) obtain st1 where st1: "subseq (slist st1) (slist st)" "close_rest a st1 = Inr st'"
    by (auto simp: seq_eq_Inr split: option.splits) (metis shrink.R_run_close upd_slist)
  from close_rest_slist [OF st1(2)] have r: "slist st' = remove1 a (slist st1)" .
  show ?thesis
  proof (cases "a \<in> set (slist st1)")
    case True
    then have "length (slist st') < length (slist st1)"
      using r length_pos_if_in_set [OF True] by (simp add: length_remove1)
    with st1(1) show ?thesis using list_emb_length by fastforce
  next
    case False
    with assms(2) st1(1) have "length (slist st1) \<noteq> length (slist st)"
      using subseq_same_length by fastforce
    moreover have "length (slist st1) \<le> length (slist st)"
      using st1(1) by (rule list_emb_length)
    ultimately show ?thesis using r False by (simp add: remove1_idem)
  qed
qed

function close_all_sockets :: "nat \<Rightarrow> sworld \<Rightarrow> sworld res" where
  "close_all_sockets t st =
     seq (find_bound t (slist st) st) (\<lambda>r.
     case r of
       None \<Rightarrow> Inr st
     | Some a \<Rightarrow> seq (run_close LocalClose a st) (close_all_sockets t))"
  by pat_completeness auto
termination
  by (relation "measure (\<lambda>(t, st). length (slist st))")
    (auto simp del: run_close.simps dest: find_bound_in run_close_LocalClose_shrinks)

declare close_all_sockets.simps [simp del]

end
