(* ===== verification/Socket_Safety.thy ===== *)
theory Socket_Safety
  imports Sockets
begin

text \<open>
  The invariant of the socket layer and what rests on it: in a state that has it, no
  operation follows a null or dangling pointer. Peers point at each other, a socket that is
  on a list is alive, and each kind of socket has the functions that belong to it.

  Closing a socket takes its peer along. In between, pointers dangle: \<open>sinv_except\<close> is the
  invariant with a set of sockets excused from having a proper peer.
\<close>

section \<open>Reading and writing the heap\<close>

definition hp :: "sworld \<Rightarrow> nat \<Rightarrow> asocket option" where
  "hp st a = (if a < length (heap st) then heap st ! a else None)"

definition setk :: "nat \<Rightarrow> asocket option \<Rightarrow> sworld \<Rightarrow> sworld" where
  "setk a v st = st\<lparr>heap := (heap st)[a := v]\<rparr>"

lemma sock_hp: "sock a st = (case hp st a of None \<Rightarrow> Inl (Fault UseAfterFree) | Some s \<Rightarrow> Inr s)"
  by (simp add: sock_def hp_def)

lemma sock_Inr [simp]: "sock a st = Inr s \<longleftrightarrow> hp st a = Some s"
  by (simp add: sock_hp split: option.splits)

lemma sock_Some: "hp st a = Some s \<Longrightarrow> sock a st = Inr s"
  by simp

lemma hp_fields [simp]:
  "hp (emit e st) = hp st" "hp (st\<lparr>slist := l\<rparr>) = hp st" "hp (st\<lparr>clist := l\<rparr>) = hp st"
  "hp (st\<lparr>trackers := l\<rparr>) = hp st" "hp (st\<lparr>remotes := r\<rparr>) = hp st" "hp (st\<lparr>wscript := k\<rparr>) = hp st"
  "hp (st\<lparr>next_id := n\<rparr>) = hp st" "hp (sendfailmsg fd x st) = hp st"
  by (simp_all add: hp_def fun_eq_iff emit_def sendfailmsg_def)

lemma setk_fields [simp]:
  "slist (setk a v st) = slist st" "clist (setk a v st) = clist st" "trackers (setk a v st) = trackers st"
  "remotes (setk a v st) = remotes st" "next_id (setk a v st) = next_id st"
  "effects (setk a v st) = effects st" "wscript (setk a v st) = wscript st"
  "pipe_ok (setk a v st) = pipe_ok st" "fresh (setk a v st) = fresh st"
  "acquire (setk a v st) = acquire st" "offline (setk a v st) = offline st"
  "jdwp_pids (setk a v st) = jdwp_pids st"
  "length (heap (setk a v st)) = length (heap st)"
  by (simp_all add: setk_def)

lemma hp_setk: "hp st a \<noteq> None \<Longrightarrow> hp (setk a v st) = (hp st)(a := v)"
  by (auto simp: hp_def setk_def fun_eq_iff split: if_splits)

lemma upd_Some: "hp st a = Some s \<Longrightarrow> upd a f st = Inr (setk a (Some (f s)) st)"
  by (simp add: upd_def sock_Some setk_def)

lemma free_Some: "hp st a = Some s \<Longrightarrow> free_sock a st = Inr (setk a None st)"
  by (simp add: free_sock_def sock_Some setk_def)

section \<open>The invariant\<close>

definition listed :: "asocket \<Rightarrow> bool" where
  "listed s \<longleftrightarrow> close_op s \<noteq> RemoteClose \<and> close_op s \<noteq> SmartClose"

text \<open>The functions of a socket belong together.\<close>

definition ops_ok :: "asocket \<Rightarrow> bool" where
  "ops_ok s \<longleftrightarrow>
     (case close_op s of
        LocalClose \<Rightarrow> enqueue_op s = LocalEnqueue \<and> ready_op s = LocalReady
      | LocalCloseNotify \<Rightarrow> enqueue_op s = LocalEnqueue \<and> ready_op s = LocalReadyNotify
      | RemoteClose \<Rightarrow> enqueue_op s = RemoteEnqueue \<and> ready_op s = RemoteReady
      | SmartClose \<Rightarrow> enqueue_op s = SmartEnqueue \<and> ready_op s = SmartReady
      | JdwpClose \<Rightarrow> enqueue_op s = JdwpEnqueue \<and> ready_op s = JdwpReady
      | TrackerClose \<Rightarrow> enqueue_op s = TrackerEnqueue \<and> ready_op s = TrackerReady)"

lemma ops_ok_upd [simp]:
  "ops_ok (s\<lparr>peer := x\<rparr>) = ops_ok s" "ops_ok (s\<lparr>sid := i\<rparr>) = ops_ok s"
  "ops_ok (s\<lparr>closing := b\<rparr>) = ops_ok s" "ops_ok (s\<lparr>pkts := ps\<rparr>) = ops_ok s"
  "ops_ok (s\<lparr>transport := t\<rparr>) = ops_ok s" "ops_ok (s\<lparr>pass := b\<rparr>) = ops_ok s"
  "ops_ok (s\<lparr>need_update := b\<rparr>) = ops_ok s" "ops_ok (s\<lparr>exit_on_close := b\<rparr>) = ops_ok s"
  by (simp_all add: ops_ok_def split: close_fn.splits)

lemma ops_ok_local:
  "ops_ok s \<Longrightarrow> close_op s = LocalCloseNotify \<or> close_op s = LocalClose \<Longrightarrow>
     ops_ok (s\<lparr>ready_op := LocalReady, close_op := LocalClose\<rparr>)"
  by (auto simp: ops_ok_def)

definition local_kind :: "asocket \<Rightarrow> bool" where
  "local_kind s \<longleftrightarrow> close_op s = LocalClose \<or> close_op s = LocalCloseNotify"

definition pkt_ok :: "apacket \<Rightarrow> bool" where
  "pkt_ok p \<longleftrightarrow> wf_packet p \<and> in_packet p"

text \<open>
  What holds of one socket by itself. A local socket that waits for its connection and one
  that is closing have no peer; a JDWP socket has no queue.
\<close>

definition sock_ok :: "asocket \<Rightarrow> bool" where
  "sock_ok s \<longleftrightarrow> ops_ok s \<and> (\<forall>p \<in> set (pkts s). pkt_ok p) \<and>
     (close_op s = LocalCloseNotify \<longrightarrow> peer s = None) \<and>
     (closing s \<longrightarrow> peer s = None \<and> pkts s \<noteq> [] \<and> local_kind s) \<and>
     (close_op s = RemoteClose \<longrightarrow> transport s \<noteq> None) \<and>
     (close_op s = JdwpClose \<or> close_op s = TrackerClose \<longrightarrow> pkts s = []) \<and>
     (close_op s = SmartClose \<longrightarrow> length (pkts s) \<le> 1 \<and> (\<forall>p \<in> set (pkts s). pkt_ptr p = 0))"

lemma sock_ok_no_peer: "sock_ok s \<Longrightarrow> sock_ok (s\<lparr>peer := None\<rparr>)"
  by (simp add: sock_ok_def local_kind_def)

text \<open>
  Peers: both ends point at each other, one is on the list of local sockets and the other
  is not; a smart socket serves a local socket. Only local sockets may be without a peer.
\<close>

definition peer_ok :: "sworld \<Rightarrow> nat \<Rightarrow> asocket \<Rightarrow> bool" where
  "peer_ok st a s \<longleftrightarrow>
     (case peer s of
        None \<Rightarrow> local_kind s
      | Some q \<Rightarrow> (\<exists>t. hp st q = Some t \<and> peer t = Some a \<and> listed s \<noteq> listed t \<and>
          (close_op s = SmartClose \<longrightarrow> close_op t = LocalClose)))"

definition sinv_except :: "nat set \<Rightarrow> sworld \<Rightarrow> bool" where
  "sinv_except X st \<longleftrightarrow>
     distinct (slist st @ clist st) \<and>
     (\<forall>a. a \<in> set (slist st) \<union> set (clist st) \<longleftrightarrow> (\<exists>s. hp st a = Some s \<and> listed s)) \<and>
     (\<forall>a s. hp st a = Some s \<longrightarrow> sock_ok s) \<and>
     (\<forall>a s. hp st a = Some s \<longrightarrow> (closing s \<longleftrightarrow> a \<in> set (clist st))) \<and>
     distinct (trackers st) \<and>
     (\<forall>a. a \<in> set (trackers st) \<longleftrightarrow> (\<exists>s. hp st a = Some s \<and> close_op s = TrackerClose)) \<and>
     (\<forall>t. distinct (remotes st t)) \<and>
     (\<forall>t a. a \<in> set (remotes st t) \<longleftrightarrow>
        (\<exists>s. hp st a = Some s \<and> close_op s = RemoteClose \<and> transport s = Some t)) \<and>
     length (fresh st) = MAX_PAYLOAD \<and>
     (\<forall>a s. a \<notin> X \<longrightarrow> hp st a = Some s \<longrightarrow> peer_ok st a s)"

abbreviation sinv :: "sworld \<Rightarrow> bool" where
  "sinv \<equiv> sinv_except {}"

lemma sinvD:
  assumes "sinv_except X st"
  shows "distinct (slist st @ clist st)"
    "a \<in> set (slist st) \<union> set (clist st) \<longleftrightarrow> (\<exists>s. hp st a = Some s \<and> listed s)"
    "hp st a = Some s \<Longrightarrow> sock_ok s" "hp st a = Some s \<Longrightarrow> closing s \<longleftrightarrow> a \<in> set (clist st)"
    "distinct (trackers st)"
    "a \<in> set (trackers st) \<longleftrightarrow> (\<exists>s. hp st a = Some s \<and> close_op s = TrackerClose)"
    "distinct (remotes st t)"
    "a \<in> set (remotes st t) \<longleftrightarrow>
       (\<exists>s. hp st a = Some s \<and> close_op s = RemoteClose \<and> transport s = Some t)"
    "length (fresh st) = MAX_PAYLOAD"
    "a \<notin> X \<Longrightarrow> hp st a = Some s \<Longrightarrow> peer_ok st a s"
  using assms unfolding sinv_except_def by blast+

text \<open>The invariant does not look at effects, answers or counters.\<close>

lemma sinv_frame:
  assumes "hp st' = hp st" "slist st' = slist st" "clist st' = clist st" "trackers st' = trackers st"
    "remotes st' = remotes st" "fresh st' = fresh st"
  shows "sinv_except X st' = sinv_except X st"
  by (simp only: sinv_except_def peer_ok_def assms)

lemma sinv_emit [simp]: "sinv_except X (emit e st) = sinv_except X st"
  by (rule sinv_frame) simp_all

lemma sinv_mono: "sinv_except X st \<Longrightarrow> X \<subseteq> Y \<Longrightarrow> sinv_except Y st"
  unfolding sinv_except_def by blast

section \<open>A socket goes\<close>

text \<open>
  How a state changes when the close function of a socket without peer has run: the socket
  has left its lists and is free, or it lingers on the closing list until its queue is
  written.
\<close>

definition env_same :: "sworld \<Rightarrow> sworld \<Rightarrow> bool" where
  "env_same st st' \<longleftrightarrow> fresh st' = fresh st \<and> jdwp_pids st' = jdwp_pids st \<and>
     pipe_ok st' = pipe_ok st \<and> wscript st' = wscript st \<and> next_id st' = next_id st \<and>
     acquire st' = acquire st \<and> offline st' = offline st"

definition freed :: "nat \<Rightarrow> asocket \<Rightarrow> sworld \<Rightarrow> sworld \<Rightarrow> bool" where
  "freed a s st st' \<longleftrightarrow> hp st' = (hp st)(a := None) \<and>
     slist st' = remove1 a (slist st) \<and> clist st' = remove1 a (clist st) \<and>
     trackers st' = (if close_op s = TrackerClose then remove1 a (trackers st) else trackers st) \<and>
     (\<forall>t. remotes st' t =
       (if close_op s = RemoteClose \<and> transport s = Some t then remove1 a (remotes st t)
        else remotes st t)) \<and>
     env_same st st'"

definition linger_form :: "asocket \<Rightarrow> asocket \<Rightarrow> bool" where
  "linger_form s s' \<longleftrightarrow> s' = s\<lparr>closing := True, sid := 0, peer := None\<rparr> \<or>
     s' = s\<lparr>closing := True, sid := 0, peer := None, ready_op := LocalReady, close_op := LocalClose\<rparr>"

definition lingers :: "nat \<Rightarrow> asocket \<Rightarrow> sworld \<Rightarrow> sworld \<Rightarrow> bool" where
  "lingers a s st st' \<longleftrightarrow> local_kind s \<and> \<not> closing s \<and> pkts s \<noteq> [] \<and>
     (\<exists>s'. linger_form s s' \<and> hp st' = (hp st)(a := Some s')) \<and>
     slist st' = remove1 a (slist st) \<and> clist st' = clist st @ [a] \<and>
     trackers st' = trackers st \<and> remotes st' = remotes st \<and> env_same st st'"

definition gone :: "nat \<Rightarrow> asocket \<Rightarrow> sworld \<Rightarrow> sworld \<Rightarrow> bool" where
  "gone a s st st' \<longleftrightarrow> freed a s st st' \<or> lingers a s st st'"

lemma freed_inv:
  assumes inv: "sinv_except X st" and s: "hp st a = Some s" and f: "freed a s st st'"
    and pt: "\<And>b t. hp st b = Some t \<Longrightarrow> peer t = Some a \<Longrightarrow> b \<in> X"
  shows "sinv_except (X - {a}) st'"
proof -
  note D = sinvD [OF inv]
  from f have hp: "hp st' = (hp st)(a := None)" and sl: "slist st' = remove1 a (slist st)"
    and cl: "clist st' = remove1 a (clist st)"
    and tr: "trackers st' = (if close_op s = TrackerClose then remove1 a (trackers st) else trackers st)"
    and rm: "\<And>t. remotes st' t = (if close_op s = RemoteClose \<and> transport s = Some t
      then remove1 a (remotes st t) else remotes st t)"
    and env: "env_same st st'"
    by (auto simp: freed_def)
  have d: "distinct (slist st)" "distinct (clist st)" "set (slist st) \<inter> set (clist st) = {}"
    using D(1) by auto
  show ?thesis
    unfolding sinv_except_def
  proof (intro conjI allI impI)
    show "distinct (slist st' @ clist st')"
      using d by (auto simp: sl cl)
    show "b \<in> set (slist st') \<union> set (clist st') \<longleftrightarrow> (\<exists>t. hp st' b = Some t \<and> listed t)" for b
      using D(2) [of b] d by (auto simp: sl cl hp)
    show "sock_ok t" if "hp st' b = Some t" for b t
      using D(3) [of b t] that by (auto simp: hp split: if_splits)
    show "closing t \<longleftrightarrow> b \<in> set (clist st')" if "hp st' b = Some t" for b t
      using D(4) [of b t] that d by (auto simp: hp cl split: if_splits)
    show "distinct (trackers st')" using D(5) by (simp add: tr)
    show "b \<in> set (trackers st') \<longleftrightarrow> (\<exists>t. hp st' b = Some t \<and> close_op t = TrackerClose)" for b
      using D(5) D(6) [of b] s by (auto simp: tr hp)
    show "distinct (remotes st' t)" for t using D(7) [of t] by (simp add: rm)
    show "b \<in> set (remotes st' t) \<longleftrightarrow>
        (\<exists>u. hp st' b = Some u \<and> close_op u = RemoteClose \<and> transport u = Some t)" for t b
      using D(7) [of t] D(8) [of b t] s by (auto simp: rm hp)
    show "length (fresh st') = MAX_PAYLOAD"
      using D(9) env by (simp_all add: env_same_def)
    show "peer_ok st' b t" if b: "b \<notin> X - {a}" "hp st' b = Some t" for b t
    proof -
      from b(2) have h: "b \<noteq> a" "hp st b = Some t" by (auto simp: hp split: if_splits)
      with b(1) have "b \<notin> X" by auto
      with D(10) h have "peer_ok st b t" "peer t \<noteq> Some a" using pt by blast+
      then show ?thesis by (auto simp: peer_ok_def hp split: option.splits)
    qed
  qed
qed

lemma lingers_inv:
  assumes inv: "sinv_except X st" and s: "hp st a = Some s" and l: "lingers a s st st'"
    and pt: "\<And>b t. hp st b = Some t \<Longrightarrow> peer t = Some a \<Longrightarrow> b \<in> X"
  shows "sinv_except (X - {a}) st'"
proof -
  note D = sinvD [OF inv]
  from l obtain s' where f: "linger_form s s'" and hp: "hp st' = (hp st)(a := Some s')" and sl: "slist st' = remove1 a (slist st)"
    and cl: "clist st' = clist st @ [a]" and tr: "trackers st' = trackers st"
    and rm: "remotes st' = remotes st" and env: "env_same st st'"
    and k: "local_kind s" "\<not> closing s" "pkts s \<noteq> []"
    by (auto simp: lingers_def)
  have ok: "sock_ok s" using D(3) s by blast
  have a: "a \<in> set (slist st)" "a \<notin> set (clist st)"
    using D(2) [of a] D(4) [OF s] s k by (auto simp: listed_def local_kind_def)
  have d: "distinct (slist st)" "distinct (clist st)" "set (slist st) \<inter> set (clist st) = {}"
    using D(1) by auto
  have s': "listed s'" "peer s' = None" "closing s'" "local_kind s'"
    using f k by (auto simp: linger_form_def listed_def local_kind_def)
  have ok': "sock_ok s'"
    using ok k f ops_ok_local [of s] by (auto simp: linger_form_def sock_ok_def local_kind_def ops_ok_def)
  show ?thesis
    unfolding sinv_except_def
  proof (intro conjI allI impI)
    show "distinct (slist st' @ clist st')"
      using d a by (auto simp: sl cl)
    show "b \<in> set (slist st') \<union> set (clist st') \<longleftrightarrow> (\<exists>t. hp st' b = Some t \<and> listed t)" for b
      using D(2) [of b] d s' by (auto simp: sl cl hp)
    show "sock_ok t" if "hp st' b = Some t" for b t
      using D(3) [of b t] that ok' by (auto simp: hp split: if_splits)
    show "closing t \<longleftrightarrow> b \<in> set (clist st')" if "hp st' b = Some t" for b t
      using D(4) [of b t] that d s' by (auto simp: hp cl split: if_splits)
    show "distinct (trackers st')" using D(5) by (simp add: tr)
    show "b \<in> set (trackers st') \<longleftrightarrow> (\<exists>t. hp st' b = Some t \<and> close_op t = TrackerClose)" for b
      using D(6) [of b] s s' k by (auto simp: tr hp local_kind_def)
    show "distinct (remotes st' t)" for t using D(7) [of t] by (simp add: rm)
    show "b \<in> set (remotes st' t) \<longleftrightarrow>
        (\<exists>u. hp st' b = Some u \<and> close_op u = RemoteClose \<and> transport u = Some t)" for t b
      using D(8) [of b t] s s' k by (auto simp: rm hp local_kind_def)
    show "length (fresh st') = MAX_PAYLOAD"
      using D(9) env by (simp_all add: env_same_def)
    show "peer_ok st' b t" if b: "b \<notin> X - {a}" "hp st' b = Some t" for b t
    proof (cases "b = a")
      case True
      with b(2) s' show ?thesis by (simp add: hp peer_ok_def)
    next
      case False
      with b have h: "hp st b = Some t" "b \<notin> X" by (auto simp: hp)
      with D(10) have "peer_ok st b t" "peer t \<noteq> Some a" using pt by blast+
      then show ?thesis by (auto simp: peer_ok_def hp split: option.splits)
    qed
  qed
qed

lemma gone_inv:
  "sinv_except X st \<Longrightarrow> hp st a = Some s \<Longrightarrow> gone a s st st' \<Longrightarrow>
   (\<And>b t. hp st b = Some t \<Longrightarrow> peer t = Some a \<Longrightarrow> b \<in> X) \<Longrightarrow> sinv_except (X - {a}) st'"
  using freed_inv lingers_inv unfolding gone_def by blast

section \<open>Changing one socket\<close>

lemma setk_inv:
  assumes inv: "sinv_except X st" and s: "hp st a = Some s" and ok: "sock_ok s'"
    and keep: "closing s' = closing s" "listed s' = listed s"
      "close_op s' = TrackerClose \<longleftrightarrow> close_op s = TrackerClose"
      "close_op s' = RemoteClose \<longleftrightarrow> close_op s = RemoteClose"
      "close_op s = RemoteClose \<Longrightarrow> transport s' = transport s"
    and others: "\<And>b t. b \<notin> X \<Longrightarrow> b \<noteq> a \<Longrightarrow> hp st b = Some t \<Longrightarrow> peer t = Some a \<Longrightarrow>
      peer s' = peer s \<and> (close_op t = SmartClose \<longrightarrow> close_op s' = LocalClose)"
    and self: "a \<notin> X \<Longrightarrow> peer_ok (setk a (Some s') st) a s'"
  shows "sinv_except X (setk a (Some s') st)"
proof -
  note D = sinvD [OF inv]
  let ?st = "setk a (Some s') st"
  have hp: "hp ?st = (hp st)(a := Some s')" using s by (simp add: hp_setk)
  show ?thesis
    unfolding sinv_except_def
  proof (intro conjI allI impI)
    show "distinct (slist ?st @ clist ?st)" using D(1) by simp
    show "b \<in> set (slist ?st) \<union> set (clist ?st) \<longleftrightarrow> (\<exists>t. hp ?st b = Some t \<and> listed t)" for b
      using D(2) [of b] s keep(2) by (auto simp: hp)
    show "sock_ok t" if "hp ?st b = Some t" for b t
      using D(3) [of b t] that ok by (auto simp: hp split: if_splits)
    show "closing t \<longleftrightarrow> b \<in> set (clist ?st)" if "hp ?st b = Some t" for b t
      using D(4) [of b t] D(4) [OF s] that keep(1) by (auto simp: hp split: if_splits)
    show "distinct (trackers ?st)" using D(5) by simp
    show "b \<in> set (trackers ?st) \<longleftrightarrow> (\<exists>t. hp ?st b = Some t \<and> close_op t = TrackerClose)" for b
      using D(6) [of b] s keep(3) by (auto simp: hp)
    show "distinct (remotes ?st t)" for t using D(7) by simp
    show "b \<in> set (remotes ?st t) \<longleftrightarrow>
        (\<exists>u. hp ?st b = Some u \<and> close_op u = RemoteClose \<and> transport u = Some t)" for t b
      using D(8) [of b t] s keep(4,5) by (auto simp: hp)
    show "length (fresh ?st) = MAX_PAYLOAD"
      using D(9) by simp_all
    show "peer_ok ?st b t" if b: "b \<notin> X" "hp ?st b = Some t" for b t
    proof (cases "b = a")
      case True
      with b self show ?thesis by (simp add: hp)
    next
      case False
      with b have h: "hp st b = Some t" by (simp add: hp)
      with D(10) b have "peer_ok st b t" by blast
      with others [OF b(1) False h] h False s keep(2) show ?thesis
        by (auto simp: peer_ok_def hp split: option.splits)
    qed
  qed
qed

text \<open>The peer of a socket, in a state with the invariant.\<close>

lemma peer_of:
  assumes "sinv_except X st" "a \<notin> X" "hp st a = Some s" "peer s = Some q"
  obtains t where "hp st q = Some t" "peer t = Some a" "q \<noteq> a" "listed s \<noteq> listed t"
    "close_op s = SmartClose \<Longrightarrow> close_op t = LocalClose"
proof -
  from sinvD(10) [OF assms(1,2,3)] assms(4) obtain t where
    t: "hp st q = Some t" "peer t = Some a" "listed s \<noteq> listed t"
    "close_op s = SmartClose \<longrightarrow> close_op t = LocalClose"
    by (auto simp: peer_ok_def)
  moreover have "q \<noteq> a" using t assms(3) by auto
  ultimately show thesis using that by blast
qed

lemma only_peer_points:
  assumes "sinv st" "hp st a = Some s" "hp st b = Some t" "peer t = Some a"
  shows "peer s = Some b"
  using peer_of [of "{}" st b t a] assms by (metis empty_iff option.inject)

section \<open>Closing a socket without peer\<close>

lemma env_same_refl [simp]: "env_same st st"
  by (simp add: env_same_def)

lemma remove_socket_Some:
  assumes "hp st a = Some s"
  shows "\<exists>st'. remove_socket a st = Inr st' \<and>
    hp st' = (hp st)(a := Some (if a \<in> set (slist st) \<union> set (clist st) then s\<lparr>sid := 0\<rparr> else s)) \<and>
    slist st' = remove1 a (slist st) \<and> clist st' = remove1 a (clist st) \<and>
    trackers st' = trackers st \<and> remotes st' = remotes st \<and> env_same st st'"
proof (cases "a \<in> set (slist st) \<union> set (clist st)")
  case True
  let ?st = "st\<lparr>slist := remove1 a (slist st), clist := remove1 a (clist st)\<rparr>"
  have "hp ?st a = Some s" using assms by simp
  from upd_Some [OF this, of "\<lambda>s. s\<lparr>sid := 0\<rparr>"] True assms show ?thesis
    by (auto simp: remove_socket_def hp_setk env_same_def)
next
  case False
  with assms show ?thesis
    by (auto simp: remove_socket_def remove1_idem fun_eq_iff)
qed

lemma destroy_safe:
  assumes s: "hp st a = Some s" and k: "close_op s \<noteq> RemoteClose" "close_op s \<noteq> TrackerClose"
  shows "safe_res (freed a s st) (local_socket_destroy a st)"
proof -
  define st1 where "st1 = (let st = emit (FdOp (OpRemove (fde_of a))) st in
      if write_fd s \<noteq> sfd s then emit (CloseFd (write_fd s)) st else st)"
  have st1: "hp st1 = hp st" "slist st1 = slist st" "clist st1 = clist st" "trackers st1 = trackers st"
    "remotes st1 = remotes st" "env_same st st1"
    by (simp_all add: st1_def Let_def env_same_def)
  from remove_socket_Some [of st1 a s] s st1(1) obtain st2 where
    st2: "remove_socket a st1 = Inr st2" "hp st2 a \<noteq> None" "\<And>b. b \<noteq> a \<Longrightarrow> hp st2 b = hp st1 b"
    "slist st2 = remove1 a (slist st1)" "clist st2 = remove1 a (clist st1)" "trackers st2 = trackers st1"
    "remotes st2 = remotes st1" "env_same st1 st2"
    by auto
  from st2(2) obtain s2 where "hp st2 a = Some s2" by blast
  with free_Some [of st2 a] have fr: "free_sock a st2 = Inr (setk a None st2)" by blast
  have eq: "local_socket_destroy a st = (if exit_on_close s then Inl (Exit 1) else Inr (setk a None st2))"
    using s st2(1) fr unfolding local_socket_destroy_def st1_def Let_def by (simp add: sock_Some)
  have "hp (setk a None st2) = (hp st)(a := None)"
    using hp_setk [OF st2(2), of None] st2(3) st1(1) by (auto simp: fun_eq_iff)
  then have "freed a s st (setk a None st2)"
    using st1 st2 k by (auto simp: freed_def env_same_def)
  with eq show ?thesis by simp
qed

lemma close_rest_safe:
  assumes inv: "sinv_except X st" and s: "hp st a = Some s" and k: "listed s" "close_op s \<noteq> TrackerClose"
    and p: "peer s = None"
  shows "safe_res (gone a s st) (close_rest a st)"
proof (cases "closing s \<or> pkts s = []")
  case True
  have "safe_res (freed a s st) (local_socket_destroy a st)"
    using s k by (intro destroy_safe) (auto simp: listed_def)
  with True s show ?thesis
    by (auto simp: close_rest_def gone_def sock_Some elim: safe_res_mono)
next
  case False
  note D = sinvD [OF inv]
  have ok: "sock_ok s" using D(3) s by blast
  with False k have lk: "local_kind s"
    by (cases "close_op s") (auto simp: sock_ok_def listed_def local_kind_def)
  have a: "a \<in> set (slist st)" "a \<notin> set (clist st)"
    using D(2) [of a] D(4) [OF s] s k False by auto
  let ?st1 = "emit (FdOp (OpDel (fde_of a) 1)) (setk a (Some (s\<lparr>closing := True\<rparr>)) st)"
  have h1: "hp ?st1 = (hp st)(a := Some (s\<lparr>closing := True\<rparr>))" using s by (simp add: hp_setk)
  from remove_socket_Some [of ?st1 a "s\<lparr>closing := True\<rparr>"] h1 a obtain st2 where
    st2: "remove_socket a ?st1 = Inr st2" "hp st2 = (hp st)(a := Some (s\<lparr>closing := True, sid := 0\<rparr>))"
    "slist st2 = remove1 a (slist st)" "clist st2 = clist st" "trackers st2 = trackers st"
    "remotes st2 = remotes st" "env_same ?st1 st2"
    by (auto simp: remove1_idem)
  have eq: "close_rest a st = Inr (st2\<lparr>clist := clist st2 @ [a]\<rparr>)"
    using s False st2(1) upd_Some [OF s] by (simp add: close_rest_def sock_Some Let_def)
  have "linger_form s (s\<lparr>closing := True, sid := 0\<rparr>)"
    unfolding linger_form_def using p by (intro disjI1 asocket.equality) simp_all
  then have "lingers a s st (st2\<lparr>clist := clist st2 @ [a]\<rparr>)"
    using False lk st2 by (auto simp: lingers_def env_same_def)
  with eq show ?thesis by (simp add: gone_def)
qed

lemma send_command_safe:
  assumes "length (fresh st) = MAX_PAYLOAD"
  shows "safe_res (\<lambda>st'. hp st' = hp st \<and> slist st' = slist st \<and> clist st' = clist st \<and>
      trackers st' = trackers st \<and> remotes st' = remotes st \<and> env_same st st')
    (send_packet (command_packet c a0 a1 st) t st)"
proof -
  have "wf_packet (command_packet c a0 a1 st)" "unat (data_length (msg (command_packet c a0 a1 st))) \<le> MAX_PAYLOAD"
    using assms by (simp_all add: command_packet_def get_apacket_def wf_packet_def zero_msg_def Let_def)
  from packet_seal_sealed [OF this] obtain q where "packet_seal (command_packet c a0 a1 st) = Inr q"
    by blast
  then show ?thesis
    by (simp add: send_packet_def env_same_def split: option.splits)
qed

text \<open>The end of \<open>remote_socket_close\<close>: the message, the callback, the memory.\<close>

lemma remote_finish_safe:
  assumes s: "hp st a = Some s" and k: "close_op s = RemoteClose" "transport s \<noteq> None"
    and l: "a \<notin> set (slist st)" "a \<notin> set (clist st)" and fr: "length (fresh st) = MAX_PAYLOAD"
  shows "safe_res (freed a s st)
    (seq (send_packet (command_packet A_CLSE a0 (sid s) st) (transport s) st) (\<lambda>st.
     seq (remove_disconnect (transport s) a st) (free_sock a)))"
proof (rule safe_res_seq [OF send_command_safe [OF fr]])
  fix st1
  assume st1: "hp st1 = hp st \<and> slist st1 = slist st \<and> clist st1 = clist st \<and>
    trackers st1 = trackers st \<and> remotes st1 = remotes st \<and> env_same st st1"
  from k(2) obtain t where t: "transport s = Some t" by blast
  let ?st2 = "st1\<lparr>remotes := (remotes st1)(t := remove1 a (remotes st1 t))\<rparr>"
  have "hp ?st2 a = Some s" using st1 s by simp
  from free_Some [OF this] hp_setk [of ?st2 a None] s st1 k t l
  show "safe_res (freed a s st) (seq (remove_disconnect (transport s) a st1) (free_sock a))"
    by (auto simp: remove_disconnect_def freed_def env_same_def remove1_idem)
qed

lemma sinv_remote:
  assumes "sinv_except X st" and "hp st a = Some s" and "close_op s = RemoteClose"
  shows "transport s \<noteq> None" "a \<notin> set (slist st)" "a \<notin> set (clist st)"
    "length (fresh st) = MAX_PAYLOAD"
  using sinvD(2) [OF assms(1), of a] sinvD(3) [OF assms(1,2)] sinvD(9) [OF assms(1)] assms(2,3)
  by (auto simp: listed_def sock_ok_def)

lemma leaf_close:
  assumes inv: "sinv_except X st" and s: "hp st a = Some s" and p: "peer s = None"
  shows "safe_res (gone a s st) (run_close (close_op s) a st)"
proof -
  note D = sinvD [OF inv]
  have ok: "sock_ok s" using D(3) s by blast
  have l: "\<not> listed s \<Longrightarrow> a \<notin> set (slist st)" "\<not> listed s \<Longrightarrow> a \<notin> set (clist st)"
    using D(2) [of a] s by auto
  show ?thesis
  proof (cases "close_op s")
    case LocalClose
    with close_rest_safe [OF inv s _ _ p] s p show ?thesis
      by (simp add: sock_Some listed_def)
  next
    case LocalCloseNotify
    let ?s = "s\<lparr>ready_op := LocalReady, close_op := LocalClose\<rparr>"
    let ?st = "sendfailmsg (sfd ?s) ''closed'' (setk a (Some ?s) st)"
    have "sinv_except (insert a X) (setk a (Some ?s) st)"
      by (rule setk_inv [OF sinv_mono [OF inv] s])
        (use ok LocalCloseNotify ops_ok_local [of s] in \<open>auto simp: sock_ok_def listed_def local_kind_def\<close>)
    then have i: "sinv_except (insert a X) ?st" by (simp add: sendfailmsg_def)
    have h: "hp ?st = (hp st)(a := Some ?s)" using s by (simp add: hp_setk)
    have "safe_res (gone a ?s ?st) (close_rest a ?st)"
      by (rule close_rest_safe [OF i]) (use h p in \<open>simp_all add: listed_def\<close>)
    then have "safe_res (gone a s st) (close_rest a ?st)"
    proof (rule safe_res_mono)
      fix st'
      assume "gone a ?s ?st st'"
      then consider "freed a ?s ?st st'" | "lingers a ?s ?st st'" by (auto simp: gone_def)
      then show "gone a s st st'"
      proof cases
        case 1
        then have "freed a s st st'"
          unfolding freed_def h env_same_def using LocalCloseNotify by (simp add: sendfailmsg_def)
        then show ?thesis by (simp add: gone_def)
      next
        case 2
        have f: "linger_form ?s s' \<Longrightarrow> linger_form s s'" for s'
          by (auto simp: linger_form_def)
        from 2 have "lingers a s st st'"
          unfolding lingers_def h env_same_def using LocalCloseNotify f
          by (auto simp: sendfailmsg_def local_kind_def)
        then show ?thesis by (simp add: gone_def)
      qed
    qed
    moreover have "run_close (close_op s) a st = close_rest a ?st"
      using LocalCloseNotify s p h upd_Some [OF s]
      by (simp add: sock_Some)
    ultimately show ?thesis by simp
  next
    case RemoteClose
    with remote_finish_safe [OF s _ sinv_remote [OF inv s], of 0] s p show ?thesis
      by (auto simp: sock_Some gone_def elim!: safe_res_mono)
  next
    case SmartClose
    with s p l free_Some [OF s] hp_setk [of st a None] show ?thesis
      by (auto simp: sock_Some gone_def freed_def env_same_def remove1_idem listed_def)
  next
    case JdwpClose
    from remove_socket_Some [OF s] obtain st2 where
      st2: "remove_socket a st = Inr st2" "hp st2 a \<noteq> None" "\<And>b. b \<noteq> a \<Longrightarrow> hp st2 b = hp st b"
      "slist st2 = remove1 a (slist st)" "clist st2 = remove1 a (clist st)" "trackers st2 = trackers st"
      "remotes st2 = remotes st" "env_same st st2" by auto
    then have "hp (setk a None st2) = (hp st)(a := None)"
      using hp_setk [OF st2(2), of None] by (auto simp: fun_eq_iff)
    moreover from st2(2) free_Some [of st2 a] have "free_sock a st2 = Inr (setk a None st2)" by blast
    ultimately show ?thesis
      using JdwpClose s p st2 by (auto simp: sock_Some gone_def freed_def env_same_def)
  next
    case TrackerClose
    from remove_socket_Some [OF s] obtain st2 where
      st2: "remove_socket a st = Inr st2" "hp st2 a \<noteq> None" "\<And>b. b \<noteq> a \<Longrightarrow> hp st2 b = hp st b"
      "slist st2 = remove1 a (slist st)" "clist st2 = remove1 a (clist st)" "trackers st2 = trackers st"
      "remotes st2 = remotes st" "env_same st st2" by auto
    let ?st3 = "st2\<lparr>trackers := remove1 a (trackers st2)\<rparr>"
    have "hp (setk a None ?st3) = (hp st)(a := None)"
      using hp_setk [of ?st3 a None] st2(2,3) by (auto simp: fun_eq_iff)
    moreover from st2(2) free_Some [of ?st3 a] have "free_sock a ?st3 = Inr (setk a None ?st3)" by auto
    ultimately show ?thesis
      using TrackerClose s p st2 by (auto simp: sock_Some gone_def freed_def env_same_def)
  qed
qed

section \<open>Closing a socket with its peer\<close>

text \<open>The first half, common to all close functions: the peer forgets the socket and goes.\<close>

definition peer_gone :: "nat \<Rightarrow> asocket \<Rightarrow> sworld \<Rightarrow> bool" where
  "peer_gone a s st \<longleftrightarrow> sinv_except {a} st \<and> hp st a = Some s \<and>
     (\<forall>b t. hp st b = Some t \<longrightarrow> peer t \<noteq> Some a)"

lemma close_peer_remotes:
  assumes inv: "sinv st" and s: "hp st a = Some s" and q: "peer s = Some q"
    and Q: "\<And>st1. peer_gone a s st1 \<Longrightarrow> (\<not> listed s \<longrightarrow> remotes st1 = remotes st) \<Longrightarrow> safe_res P (rest st1)"
  shows "safe_res P (seq (upd q (\<lambda>s. s\<lparr>peer := None\<rparr>) st) (\<lambda>st. seq (sock q st) (\<lambda>qs.
    seq (run_close (close_op qs) q st) rest)))"
proof -
  note D = sinvD [OF inv]
  from inv s q obtain t where t: "hp st q = Some t" "peer t = Some a" "q \<noteq> a" "listed s \<noteq> listed t"
    by (auto elim: peer_of)
  let ?t = "t\<lparr>peer := None\<rparr>"
  let ?st = "setk q (Some ?t) st"
  have h: "hp ?st = (hp st)(q := Some ?t)" using t(1) by (simp add: hp_setk)
  have pts: "b = a" if "hp st b = Some u" "peer u = Some q" for b u
    using only_peer_points [OF inv t(1) that] t(2) by simp
  have i0: "sinv_except {a, q} ?st"
    by (rule setk_inv [OF sinv_mono [OF inv] t(1)])
      (use D(3) [OF t(1)] sock_ok_no_peer pts t(2) in \<open>auto simp: listed_def\<close>)
  have eq: "seq (upd q (\<lambda>s. s\<lparr>peer := None\<rparr>) st) (\<lambda>st. seq (sock q st) (\<lambda>qs.
      seq (run_close (close_op qs) q st) rest)) = seq (run_close (close_op ?t) q ?st) rest"
    using upd_Some [OF t(1)] h by (simp add: sock_Some)
  have "safe_res (gone q ?t ?st) (run_close (close_op ?t) q ?st)"
    by (rule leaf_close [OF i0]) (simp_all add: h)
  then show ?thesis
    unfolding eq
  proof (rule safe_res_seq)
    fix st1
    assume g: "gone q ?t ?st st1"
    have "sinv_except ({a, q} - {q}) st1"
      by (rule gone_inv [OF i0 _ g]) (use pts h t(3) in \<open>auto split: if_splits\<close>)
    then have i1: "sinv_except {a} st1" using t(3) by (simp add: insert_Diff_if)
    from g have h1: "hp st1 b = hp st b" if "b \<noteq> q" for b
      using that h by (auto simp: gone_def freed_def lingers_def)
    from g have hq: "hp st1 q = Some u \<Longrightarrow> peer u = None" for u
      by (auto simp: gone_def freed_def lingers_def linger_form_def)
    have "peer u \<noteq> Some a" if "hp st1 b = Some u" for b u
    proof (cases "b = q")
      case False
      with that h1 have "hp st b = Some u" by simp
      with only_peer_points [OF inv s this] q False show ?thesis by auto
    qed (use that hq in auto)
    moreover have "remotes st1 = remotes st" if "\<not> listed s"
      using g t(4) that by (auto simp: gone_def freed_def lingers_def listed_def)
    ultimately show "safe_res P (rest st1)"
      using i1 h1 [of a] t(3) s Q [of st1] by (auto simp: peer_gone_def)
  qed
qed

lemma close_peer:
  assumes "sinv st" and "hp st a = Some s" and "peer s = Some q"
    and Q: "\<And>st1. peer_gone a s st1 \<Longrightarrow> safe_res P (rest st1)"
  shows "safe_res P (seq (upd q (\<lambda>s. s\<lparr>peer := None\<rparr>) st) (\<lambda>st. seq (sock q st) (\<lambda>qs.
    seq (run_close (close_op qs) q st) rest)))"
  using assms(1,2,3) by (rule close_peer_remotes) (rule Q)

lemma peer_gone_freed:
  "peer_gone a s st \<Longrightarrow> freed a s st st' \<Longrightarrow> sinv st'"
  using freed_inv [of "{a}" st a s st'] by (auto simp: peer_gone_def)

lemma local_finish_safe:
  assumes g: "peer_gone a s st" and k: "listed s" "close_op s \<noteq> TrackerClose"
  shows "safe_res sinv (seq (upd a (\<lambda>s. s\<lparr>peer := None\<rparr>) st) (close_rest a))"
proof -
  from g have i: "sinv_except {a} st" and s: "hp st a = Some s"
    and pts: "\<And>b t. hp st b = Some t \<Longrightarrow> peer t \<noteq> Some a"
    by (auto simp: peer_gone_def)
  let ?s = "s\<lparr>peer := None\<rparr>"
  let ?st = "setk a (Some ?s) st"
  have h: "hp ?st = (hp st)(a := Some ?s)" using s by (simp add: hp_setk)
  have i1: "sinv_except {a} ?st"
    by (rule setk_inv [OF i s]) (use sinvD(3) [OF i s] sock_ok_no_peer pts in \<open>auto simp: listed_def\<close>)
  have "safe_res (gone a ?s ?st) (close_rest a ?st)"
    by (rule close_rest_safe [OF i1]) (use k h in \<open>auto simp: listed_def\<close>)
  then have "safe_res sinv (close_rest a ?st)"
  proof (rule safe_res_mono)
    fix st'
    assume "gone a ?s ?st st'"
    have "sinv_except ({a} - {a}) st'"
      by (rule gone_inv [OF i1 _ \<open>gone a ?s ?st st'\<close>]) (use h pts in \<open>auto split: if_splits\<close>)
    then show "sinv st'" by simp
  qed
  then show ?thesis using upd_Some [OF s] by simp
qed

lemma gone_no_peer_inv:
  assumes "sinv st" "hp st a = Some s" "peer s = None" "gone a s st st'"
  shows "sinv st'"
proof -
  have "sinv_except ({} - {a}) st'"
    by (rule gone_inv [OF assms(1,2,4)]) (use only_peer_points [OF assms(1,2)] assms(3) in force)
  then show ?thesis by simp
qed

lemma peer_gone_listed:
  assumes "peer_gone a s st" "listed s"
  shows "a \<in> set (slist st) \<union> set (clist st)"
  using assms sinvD(2) [of "{a}" st a] by (auto simp: peer_gone_def)

lemma jdwp_close_safe:
  assumes inv: "sinv st" and s: "hp st a = Some s" and k: "close_op s = JdwpClose"
  shows "safe_res sinv (run_close JdwpClose a st)"
proof (cases "peer s")
  case None
  have "safe_res (gone a s st) (run_close JdwpClose a st)"
    using leaf_close [OF inv s None] k by simp
  then show ?thesis
    using gone_no_peer_inv [OF inv s None] by (rule safe_res_mono)
next
  case (Some q)
  note D = sinvD [OF inv]
  from inv s Some obtain t where t: "hp st q = Some t" "peer t = Some a" "q \<noteq> a" "listed s \<noteq> listed t"
    by (auto elim: peer_of)
  from inv t(1,2) s have "close_op t = SmartClose \<Longrightarrow> close_op s = LocalClose"
    by (auto elim: peer_of)
  with t(4) k have rt: "close_op t = RemoteClose" by (auto simp: listed_def)
  note R = sinv_remote [OF inv t(1) rt]
  have a: "a \<in> set (slist st)" "a \<notin> set (clist st)"
    using D(2) [of a] D(4) [OF s] D(3) [OF s] s k by (auto simp: listed_def sock_ok_def local_kind_def)
  from remove_socket_Some [OF s] obtain st0 where
    st0: "remove_socket a st = Inr st0" "hp st0 = (hp st)(a := Some (s\<lparr>sid := 0\<rparr>))"
    "slist st0 = remove1 a (slist st)" "clist st0 = clist st" "trackers st0 = trackers st"
    "remotes st0 = remotes st" "env_same st st0" using a by (auto simp: remove1_idem)
  define t' where "t' = t\<lparr>peer := None\<rparr>"
  define stq where "stq = setk q (Some t') st0"
  have h: "hp stq = (hp st)(a := Some (s\<lparr>sid := 0\<rparr>), q := Some t')"
    using hp_setk [of st0 q "Some t'"] st0(2) t(1,3) by (simp add: stq_def)
  have t': "close_op t' = RemoteClose" "transport t' = transport t" "peer t' = None"
    using rt by (simp_all add: t'_def)
  have eq: "run_close JdwpClose a st =
      seq (seq (send_packet (command_packet A_CLSE 0 (sid t') stq) (transport t') stq) (\<lambda>st.
        seq (remove_disconnect (transport t') q st) (free_sock q))) (free_sock a)"
    using s Some st0(1) upd_Some [of st0 q t "\<lambda>s. s\<lparr>peer := None\<rparr>"] st0(2) t h t'
    by (simp add: sock_Some stq_def [symmetric] t'_def [symmetric])
  have "safe_res (freed q t' stq) (seq (send_packet (command_packet A_CLSE 0 (sid t') stq) (transport t') stq) (\<lambda>st.
      seq (remove_disconnect (transport t') q st) (free_sock q)))"
    by (rule remote_finish_safe) (use h t' R st0 in \<open>auto simp: stq_def env_same_def dest: in_set_remove1\<close>)
  then show ?thesis
    unfolding eq
  proof (rule safe_res_seq)
    fix st1
    assume f: "freed q t' stq st1"
    have h1: "hp st1 = (hp st)(a := Some (s\<lparr>sid := 0\<rparr>), q := None)"
      using f h by (simp add: freed_def)
    then have "hp st1 a = Some (s\<lparr>sid := 0\<rparr>)" using t(3) by simp
    note fr = free_Some [OF this] hp_setk [of st1 a None]
    define stA where "stA = (setk q None st)\<lparr>remotes := remotes st1\<rparr>"
    have i1: "sinv_except {a, q} (setk q (Some t') st)"
      unfolding t'_def
      by (rule setk_inv [OF sinv_mono [OF inv] t(1)])
        (use D(3) [OF t(1)] sock_ok_no_peer only_peer_points [OF inv t(1)] t(2) in \<open>auto simp: listed_def\<close>)
    have hA: "hp stA = (hp st)(q := None)" using t(1) by (simp add: stA_def hp_setk)
    have fq: "freed q t' (setk q (Some t') st) stA"
      using f R t(1) t' st0(6) hA
      by (auto simp: freed_def hp_setk stA_def stq_def env_same_def remove1_idem)
    have "sinv_except ({a, q} - {q}) stA"
    proof (rule freed_inv [OF i1 _ fq])
      show "hp (setk q (Some t') st) q = Some t'" using t(1) by (simp add: hp_setk)
      show "b \<in> {a, q}" if "hp (setk q (Some t') st) b = Some u" "peer u = Some q" for b u
        using that t(1,2) only_peer_points [OF inv t(1), of b u] by (cases "b = q") (auto simp: hp_setk)
    qed
    then have i2: "sinv_except {a} stA" using t(3) by (simp add: insert_Diff_if)
    have fa: "freed a s stA (setk a None st1)"
      using fr h1 hA t(3) f R st0 k a t'(1)
      by (auto simp: freed_def stA_def stq_def env_same_def remove1_idem fun_eq_iff)
    have "sinv_except ({a} - {a}) (setk a None st1)"
    proof (rule freed_inv [OF i2 _ fa])
      show "hp stA a = Some s" using s t(3) hA by simp
      show "b \<in> {a}" if "hp stA b = Some u" "peer u = Some a" for b u
        using that hA only_peer_points [OF inv s, of b u] Some by (cases "b = q") auto
    qed
    then have "sinv (setk a None st1)" by simp
    with fr show "safe_res sinv (free_sock a st1)" by simp
  qed
qed

lemma local_close_safe:
  assumes inv: "sinv st" and s: "hp st a = Some s" and k: "listed s" "close_op s \<noteq> TrackerClose"
  shows "safe_res sinv (run_close LocalClose a st)"
proof (cases "peer s")
  case None
  have "run_close LocalClose a st = close_rest a st"
    using s None by (simp add: sock_Some)
  moreover have "safe_res sinv (close_rest a st)"
    using close_rest_safe [OF inv s k None] gone_no_peer_inv [OF inv s None] by (rule safe_res_mono)
  ultimately show ?thesis by simp
next
  case (Some q)
  have "run_close LocalClose a st = seq (upd q (\<lambda>s. s\<lparr>peer := None\<rparr>) st) (\<lambda>st. seq (sock q st) (\<lambda>qs.
      seq (run_close (close_op qs) q st) (\<lambda>st. seq (upd a (\<lambda>s. s\<lparr>peer := None\<rparr>) st) (close_rest a))))"
    using s Some by (simp add: sock_Some seq_assoc)
  then show ?thesis
    using close_peer [OF inv s Some local_finish_safe [OF _ k]] by simp
qed

lemma sock_close_safe:
  assumes inv: "sinv st" and s: "hp st a = Some s"
  shows "safe_res sinv (sock_close a st)"
proof -
  have eq: "sock_close a st = run_close (close_op s) a st"
    using s by (simp add: sock_close_def sock_Some)
  show ?thesis
  proof (cases "peer s")
    case None
    show ?thesis
      unfolding eq using leaf_close [OF inv s None] gone_no_peer_inv [OF inv s None] by (rule safe_res_mono)
  next
    case (Some q)
    show ?thesis
    proof (cases "close_op s")
      case LocalClose
      then show ?thesis unfolding eq using local_close_safe [OF inv s] by (simp add: listed_def)
    next
      case LocalCloseNotify
      with sinvD(3) [OF inv s] Some show ?thesis by (simp add: sock_ok_def)
    next
      case RemoteClose
      from inv s Some obtain t where t: "hp st q = Some t" by (auto elim: peer_of)
      have e: "run_close (close_op s) a st = seq (upd q (\<lambda>s. s\<lparr>peer := None\<rparr>) st) (\<lambda>st. seq (sock q st) (\<lambda>qs.
          seq (run_close (close_op qs) q st) (\<lambda>st. seq (sock a st) (\<lambda>s.
          seq (send_packet (command_packet A_CLSE (sid t) (sid s) st) (transport s) st) (\<lambda>st.
          seq (remove_disconnect (transport s) a st) (free_sock a))))))"
        using RemoteClose s Some t by (simp add: sock_Some seq_assoc)
      have r: "safe_res sinv (seq (sock a st1) (\<lambda>s.
          seq (send_packet (command_packet A_CLSE (sid t) (sid s) st1) (transport s) st1) (\<lambda>st.
          seq (remove_disconnect (transport s) a st) (free_sock a))))" if g: "peer_gone a s st1" for st1
      proof -
        from g have i: "sinv_except {a} st1" and h: "hp st1 a = Some s" by (auto simp: peer_gone_def)
        from remote_finish_safe [OF h RemoteClose sinv_remote [OF i h RemoteClose], of "sid t"]
          peer_gone_freed [OF g] h show ?thesis
          by (auto simp: sock_Some elim: safe_res_mono)
      qed
      show ?thesis
        unfolding eq e by (rule close_peer [OF inv s Some r])
    next
      case SmartClose
      have e: "run_close (close_op s) a st = seq (upd q (\<lambda>s. s\<lparr>peer := None\<rparr>) st) (\<lambda>st. seq (sock q st) (\<lambda>qs.
          seq (run_close (close_op qs) q st) (\<lambda>st. seq (upd a (\<lambda>s. s\<lparr>peer := None\<rparr>) st) (free_sock a))))"
        using SmartClose s Some by (simp add: sock_Some seq_assoc)
      have r: "safe_res sinv (seq (upd a (\<lambda>s. s\<lparr>peer := None\<rparr>) st1) (free_sock a))"
        if g: "peer_gone a s st1" for st1
      proof -
        from g have i: "sinv_except {a} st1" and h: "hp st1 a = Some s" by (auto simp: peer_gone_def)
        let ?st = "setk a (Some (s\<lparr>peer := None\<rparr>)) st1"
        have h2: "hp ?st a = Some (s\<lparr>peer := None\<rparr>)" using h by (simp add: hp_setk)
        have l: "a \<notin> set (slist st1)" "a \<notin> set (clist st1)"
          using sinvD(2) [OF i, of a] h SmartClose by (auto simp: listed_def)
        have "freed a s st1 (setk a None ?st)"
          using hp_setk [of ?st a None] hp_setk [of st1 a] h h2 l SmartClose
          by (simp add: freed_def env_same_def remove1_idem)
        with peer_gone_freed [OF g] upd_Some [OF h] free_Some [OF h2] show ?thesis by simp
      qed
      show ?thesis
        unfolding eq e by (rule close_peer [OF inv s Some r])
    next
      case JdwpClose
      then show ?thesis unfolding eq using jdwp_close_safe [OF inv s] by simp
    next
      case TrackerClose
      have e: "run_close (close_op s) a st = seq (upd q (\<lambda>s. s\<lparr>peer := None\<rparr>) st) (\<lambda>st. seq (sock q st) (\<lambda>qs.
          seq (run_close (close_op qs) q st) (\<lambda>st. seq (remove_socket a st) (\<lambda>st.
          free_sock a (st\<lparr>trackers := remove1 a (trackers st)\<rparr>)))))"
        using TrackerClose s Some by (simp add: sock_Some seq_assoc)
      have r: "safe_res sinv (seq (remove_socket a st1) (\<lambda>st.
          free_sock a (st\<lparr>trackers := remove1 a (trackers st)\<rparr>)))"
        if g: "peer_gone a s st1" for st1
      proof -
        from g have i: "sinv_except {a} st1" and h: "hp st1 a = Some s" by (auto simp: peer_gone_def)
        from remove_socket_Some [OF h] obtain st2 where
          st2: "remove_socket a st1 = Inr st2" "hp st2 a \<noteq> None" "\<And>b. b \<noteq> a \<Longrightarrow> hp st2 b = hp st1 b"
          "slist st2 = remove1 a (slist st1)" "clist st2 = remove1 a (clist st1)"
          "trackers st2 = trackers st1" "remotes st2 = remotes st1" "env_same st1 st2" by auto
        let ?st = "st2\<lparr>trackers := remove1 a (trackers st2)\<rparr>"
        have "hp (setk a None ?st) = (hp st1)(a := None)"
          using hp_setk [of ?st a None] st2(2,3) by (auto simp: fun_eq_iff)
        then have "freed a s st1 (setk a None ?st)"
          using st2 TrackerClose by (simp add: freed_def env_same_def)
        moreover from st2(2) free_Some [of ?st a] have "free_sock a ?st = Inr (setk a None ?st)" by auto
        ultimately show ?thesis using peer_gone_freed [OF g] st2(1) by simp
      qed
      show ?thesis
        unfolding eq e by (rule close_peer [OF inv s Some r])
    qed
  qed
qed

section \<open>Sending\<close>

text \<open>What a step leaves alone when it only talks to the outside.\<close>

definition quiet :: "sworld \<Rightarrow> sworld \<Rightarrow> bool" where
  "quiet st st' \<longleftrightarrow> hp st' = hp st \<and> slist st' = slist st \<and> clist st' = clist st \<and>
     trackers st' = trackers st \<and> remotes st' = remotes st \<and> fresh st' = fresh st \<and>
     jdwp_pids st' = jdwp_pids st"

lemma quiet_inv: "quiet st st' \<Longrightarrow> sinv_except X st \<Longrightarrow> sinv_except X st'"
  using sinv_frame [of st' st X] by (auto simp: quiet_def)

lemma quiet_hp: "quiet st st' \<Longrightarrow> hp st' = hp st"
  by (simp add: quiet_def)

lemma quiet_simps [simp]:
  "quiet st st" "quiet st (emit e st)" "quiet st (st\<lparr>wscript := k\<rparr>)" "quiet st (sendfailmsg fd r st)"
  by (simp_all add: quiet_def sendfailmsg_def)

lemma quiet_trans: "quiet st st' \<Longrightarrow> quiet st' st'' \<Longrightarrow> quiet st st''"
  by (simp add: quiet_def)

lemma send_packet_safe:
  assumes "wf_packet p" and "unat (data_length (msg p)) \<le> MAX_PAYLOAD"
  shows "safe_res (quiet st) (send_packet p t st)"
proof -
  from packet_seal_sealed [OF assms] obtain q where "packet_seal p = Inr q" by blast
  then show ?thesis by (simp add: send_packet_def split: option.splits)
qed

lemma send_command_quiet:
  "length (fresh st) = MAX_PAYLOAD \<Longrightarrow> safe_res (quiet st) (send_packet (command_packet c a0 a1 st) t st)"
  by (rule send_packet_safe) (simp_all add: command_packet_def get_apacket_def wf_packet_def zero_msg_def Let_def)

lemma wf_packet_simps [simp]:
  "wf_packet (p\<lparr>msg := m\<rparr>) = wf_packet p" "wf_packet (p\<lparr>pkt_ptr := n\<rparr>) = wf_packet p"
  "wf_packet (p\<lparr>pkt_len := l\<rparr>) = wf_packet p"
  by (simp_all add: wf_packet_def)

text \<open>A packet as one socket hands it to another.\<close>

definition handed :: "apacket \<Rightarrow> bool" where
  "handed p \<longleftrightarrow> wf_packet p \<and> pkt_ptr p = 0 \<and> unat (pkt_len p) \<le> MAX_PAYLOAD"

lemma list_packet_handed:
  assumes "length (fresh st) = MAX_PAYLOAD" and "length bs \<le> MAX_PAYLOAD"
  shows "\<exists>p. list_packet bs st = Inr p \<and> handed p \<and> unat (pkt_len p) = length bs"
proof -
  have "unat (of_nat (length bs) :: u32) = length bs"
    using assms(2) by (simp add: unat_of_nat MAX_PAYLOAD_def)
  with assms show ?thesis
    by (simp add: list_packet_def get_apacket_def blit_def Let_def handed_def wf_packet_def)
qed

section \<open>Handing data to a socket\<close>

lemma push_split:
  "push bs k = (out, rest, stop, k') \<Longrightarrow> bs = out @ rest \<and> (stop = Done \<longleftrightarrow> rest = [])"
proof (induction bs k arbitrary: out rest stop k' rule: push.induct)
  case (1 bs k)
  show ?case
  proof (cases "bs = []")
    case True
    with "1.prems" show ?thesis by (simp add: push.simps [of "[]" k])
  next
    case False
    consider (none) "adb_write bs k = None"
      | (got) n k1 where "adb_write bs k = Some (Got n, k1)"
      | (fail) e k1 where "adb_write bs k = Some (Failed e, k1)"
      by (metis not_None_eq surj_pair sysret.exhaust)
    then show ?thesis
    proof cases
      case got
      show ?thesis
      proof (cases "n > 0")
        case True
        obtain o1 r1 s1 k2 where p: "push (drop n bs) k1 = (o1, r1, s1, k2)"
          by (cases "push (drop n bs) k1")
        from "1.IH" [OF False got refl refl True p] have "drop n bs = o1 @ r1" "s1 = Done \<longleftrightarrow> r1 = []"
          by auto
        moreover from p False got True "1.prems" have "out = take n bs @ o1" "rest = r1" "stop = s1"
          by (auto simp: push.simps [of bs k])
        ultimately show ?thesis by (metis append.assoc append_take_drop_id)
      next
        case n0: False
        with False got "1.prems" show ?thesis by (auto simp: push.simps [of bs k])
      qed
    qed (use False "1.prems" in \<open>auto simp: push.simps [of bs k] split: if_splits\<close>)
  qed
qed

lemma length_unsent: "in_packet p \<Longrightarrow> length (unsent p) = unat (pkt_len p)"
  by (simp add: unsent_def in_packet_def)

lemma advance_ok:
  assumes "in_packet p" and "n \<le> unat (pkt_len p)"
  shows "in_packet (advance n p)" "unat (pkt_len (advance n p)) = unat (pkt_len p) - n"
    "unsent (advance n p) = drop n (unsent p)" "wf_packet (advance n p) = wf_packet p"
proof -
  have "n < 2 ^ LENGTH(32)"
    using assms(2) unsigned_less [of "pkt_len p", where 'a = nat] by simp
  then have n: "unat (of_nat n :: u32) = n"
    by (simp add: unsigned_of_nat take_bit_nat_eq_self)
  then have "unat (pkt_len p - of_nat n) = unat (pkt_len p) - n"
    using assms(2) by (simp add: unat_sub word_le_nat_alt)
  then show "unat (pkt_len (advance n p)) = unat (pkt_len p) - n"
    by (simp add: advance_def)
  then show "in_packet (advance n p)" "unsent (advance n p) = drop n (unsent p)"
    using assms by (auto simp: in_packet_def advance_def unsent_def drop_take add.commute)
  show "wf_packet (advance n p) = wf_packet p" by (simp add: advance_def)
qed

text \<open>Setting fields that do not matter to the peer.\<close>

lemma upd_inv:
  assumes inv: "sinv_except X st" and s: "hp st a = Some s" and ok: "sock_ok (f s)"
    and keep: "closing (f s) = closing s" "close_op (f s) = close_op s" "peer (f s) = peer s"
      "close_op s = RemoteClose \<Longrightarrow> transport (f s) = transport s"
  shows "upd a f st = Inr (setk a (Some (f s)) st)" "sinv_except X (setk a (Some (f s)) st)"
    "hp (setk a (Some (f s)) st) = (hp st)(a := Some (f s))"
proof -
  show "upd a f st = Inr (setk a (Some (f s)) st)" by (rule upd_Some [OF s])
  show hp: "hp (setk a (Some (f s)) st) = (hp st)(a := Some (f s))" using s by (simp add: hp_setk)
  have others: "close_op (f s) = LocalClose" if b: "b \<notin> X" "hp st b = Some t" "peer t = Some a" "close_op t = SmartClose"
    for b t
  proof -
    from b sinvD(10) [OF inv b(1,2)] s have "close_op s = LocalClose" by (auto simp: peer_ok_def)
    then show ?thesis by (simp add: keep)
  qed
  have self: "peer_ok (setk a (Some (f s)) st) a (f s)" if "a \<notin> X"
    using sinvD(10) [OF inv that s] s keep
    by (auto simp: peer_ok_def hp listed_def local_kind_def split: option.splits)
  show "sinv_except X (setk a (Some (f s)) st)"
    by (rule setk_inv [OF inv s ok]) (use keep others self in \<open>auto simp: listed_def\<close>)
qed

lemma local_tail_safe:
  assumes inv: "sinv st" and s: "hp st a = Some s" "local_kind s" and p: "pkt_ok p"
  shows "safe_res (\<lambda>(r, st'). sinv st' \<and> r = 1) (local_enqueue_tail a p st)"
proof -
  let ?f = "\<lambda>s. s\<lparr>pkts := pkts s @ [p]\<rparr>"
  have "sock_ok (?f s)"
    using sinvD(3) [OF inv s(1)] s(2) p by (auto simp: sock_ok_def local_kind_def)
  from upd_inv [where f = ?f, OF inv s(1) this] show ?thesis
    by (simp add: local_enqueue_tail_def)
qed

lemma local_socket_enqueue_safe:
  assumes inv: "sinv st" and s: "hp st a = Some s" "local_kind s" and p: "handed p"
  shows "safe_res (\<lambda>(r, st'). sinv st' \<and> (r = 0 \<or> r = 1) \<and> (r = 0 \<longrightarrow> hp st' a = Some s))
    (local_socket_enqueue a p st)"
proof -
  have ip: "in_packet (p\<lparr>pkt_ptr := 0\<rparr>)" "wf_packet (p\<lparr>pkt_ptr := 0\<rparr>)"
    using p by (auto simp: handed_def in_packet_def wf_packet_def)
  show ?thesis
  proof (cases "pkts s = []")
    case False
    have "safe_res (\<lambda>(r, st'). sinv st' \<and> r = 1) (local_enqueue_tail a (p\<lparr>pkt_ptr := 0\<rparr>) st)"
      by (rule local_tail_safe [OF inv s]) (use ip in \<open>simp add: pkt_ok_def\<close>)
    with False s show ?thesis
      by (auto simp: local_socket_enqueue_def Let_def sock_Some elim!: safe_res_mono)
  next
    case True
    obtain out rest stop k where ps: "push (unsent (p\<lparr>pkt_ptr := 0\<rparr>)) (wscript st) = (out, rest, stop, k)"
      by (cases "push (unsent (p\<lparr>pkt_ptr := 0\<rparr>)) (wscript st)")
    define st1 where "st1 = emit (WriteFd (write_fd s) out) (st\<lparr>wscript := k\<rparr>)"
    define p1 where "p1 = advance (length out) (p\<lparr>pkt_ptr := 0\<rparr>)"
    have q: "quiet st st1" by (simp add: st1_def quiet_def)
    have i1: "sinv st1" and h1: "hp st1 = hp st" using quiet_inv [OF q inv] q by (auto simp: quiet_def)
    have "length out \<le> unat (pkt_len p)"
      using push_split [OF ps] length_unsent [OF ip(1)] by (metis apacket.simps(9) le_add1 length_append apacket.surjective apacket.select_convs(1) apacket.update_convs(2))
    with advance_ok [OF ip(1), of "length out"] ip(2) have "pkt_ok p1"
      by (simp add: pkt_ok_def p1_def)
    from local_tail_safe [OF i1 _ s(2) this] s(1) h1
    have tail: "safe_res (\<lambda>(r, st'). sinv st' \<and> r = 1) (local_enqueue_tail a p1 st1)" by simp
    have eq: "local_socket_enqueue a p st =
        (if stop = Broken then seq (sock_close a st1) (\<lambda>st. Inr (1, st))
         else if pkt_len p1 = 0 then Inr (0, st1) else local_enqueue_tail a p1 st1)"
      using True s ip ps by (simp add: local_socket_enqueue_def Let_def sock_Some st1_def p1_def)
    have close: "safe_res (\<lambda>(r, st'). sinv st' \<and> r = 1) (seq (sock_close a st1) (\<lambda>st. Inr (1 :: int, st)))"
      by (rule safe_res_seq [OF sock_close_safe [OF i1]]) (use s(1) h1 in auto)
    show ?thesis
      unfolding eq using tail close i1 h1 s(1) by (auto elim!: safe_res_mono)
  qed
qed

lemma remote_peer:
  assumes inv: "sinv st" and s: "hp st a = Some s" "\<not> local_kind s"
  shows "\<exists>q t. peer s = Some q \<and> hp st q = Some t \<and> peer t = Some a \<and> q \<noteq> a \<and>
    (\<not> listed s \<longrightarrow> listed t) \<and> (close_op s = SmartClose \<longrightarrow> close_op t = LocalClose) \<and>
    (close_op s = JdwpClose \<or> close_op s = TrackerClose \<longrightarrow> close_op t = RemoteClose)"
proof -
  from sinvD(10) [OF inv _ s(1)] s(2) obtain q where q: "peer s = Some q"
    by (auto simp: peer_ok_def split: option.splits)
  from inv s(1) q obtain t where t: "hp st q = Some t" "peer t = Some a" "q \<noteq> a" "listed s \<noteq> listed t"
    "close_op s = SmartClose \<longrightarrow> close_op t = LocalClose"
    by (auto elim: peer_of)
  from inv t(1,2) s(1) have "close_op t = SmartClose \<longrightarrow> close_op s = LocalClose"
    by (auto elim: peer_of)
  with t(4) have "close_op s = JdwpClose \<or> close_op s = TrackerClose \<longrightarrow> close_op t = RemoteClose"
    by (auto simp: listed_def)
  with q t show ?thesis by blast
qed

lemma remote_socket_enqueue_safe:
  assumes inv: "sinv st" and s: "hp st a = Some s" "close_op s = RemoteClose" and p: "handed p"
  shows "safe_res (\<lambda>(r, st'). quiet st st' \<and> r = 1) (remote_socket_enqueue a p st)"
proof -
  have "\<not> local_kind s" using s(2) by (simp add: local_kind_def)
  from remote_peer [OF inv s(1) this] obtain q t where q: "peer s = Some q" "hp st q = Some t"
    by blast
  show ?thesis
    using s q p unfolding remote_socket_enqueue_def
    by (auto simp: sock_Some Let_def handed_def intro!: safe_res_seq [OF send_packet_safe])
qed

lemma jdwp_socket_enqueue_safe:
  assumes inv: "sinv st" and s: "hp st a = Some s" "\<not> local_kind s"
  shows "safe_res (\<lambda>(r, st'). sinv st' \<and> r = -1) (jdwp_socket_enqueue a p st)"
proof -
  from remote_peer [OF inv s] obtain q t where q: "peer s = Some q" "hp st q = Some t" by blast
  show ?thesis
    using s q sock_close_safe [OF inv q(2)] unfolding jdwp_socket_enqueue_def
    by (auto simp: sock_Some intro!: safe_res_seq)
qed

subsection \<open>Requests to a smart socket\<close>

lemma unhex_safe: "len \<le> length s \<Longrightarrow> \<exists>n. unhex s len = Inr n"
proof -
  have "len \<le> length s \<Longrightarrow> \<exists>n. unhex_from s len m = Inr n" for m
    by (induction s len m rule: unhex_from.induct) (auto split: option.splits)
  then show "len \<le> length s \<Longrightarrow> \<exists>n. unhex s len = Inr n" by (simp add: unhex_def)
qed

lemma smart_fail_safe:
  assumes "sinv st" and "hp st a = Some s"
  shows "safe_res (\<lambda>(r, st'). sinv st' \<and> r = -1) (smart_fail a st)"
  unfolding smart_fail_def
  by (rule safe_res_seq [OF sock_close_safe [OF assms]]) auto

lemma smart_refuse_safe:
  assumes inv: "sinv st" and s: "hp st a = Some s" "close_op s = SmartClose"
  shows "safe_res (\<lambda>(r, st'). sinv st' \<and> r = -1) (smart_refuse a reason st)"
proof -
  have "\<not> local_kind s" using s(2) by (simp add: local_kind_def)
  from remote_peer [OF inv s(1) this] obtain q t where q: "peer s = Some q" "hp st q = Some t" by blast
  have "sinv (sendfailmsg (sfd t) reason st)"
    using inv by (rule quiet_inv [rotated]) simp
  from smart_fail_safe [OF this, of a s] s q show ?thesis
    by (simp add: smart_refuse_def sock_Some)
qed

lemma connect_to_remote_safe:
  assumes "length (fresh st) = MAX_PAYLOAD" and "hp st a = Some s"
  shows "safe_res (quiet st) (connect_to_remote a name st)"
proof (cases "length name + 1 > MAX_PAYLOAD - 1")
  case False
  have l: "unat (of_nat (length name + 1) :: u32) = length name + 1"
    by (rule unat_u32) (use False in \<open>simp add: MAX_PAYLOAD_def\<close>)
  show ?thesis
    using False assms l unfolding connect_to_remote_def
    by (auto simp: sock_Some Let_def command_packet_def get_apacket_def blit_def wf_packet_def MAX_PAYLOAD_def
        intro!: send_packet_safe)
qed (use assms in \<open>simp add: connect_to_remote_def sock_Some Let_def\<close>)

lemma smart_connect_safe:
  assumes inv: "sinv st" and s: "hp st a = Some s" "close_op s = SmartClose"
    and q: "peer s = Some q" and d: "c_string (drop 4 d) \<noteq> None"
  shows "safe_res (\<lambda>(r, st'). sinv st' \<and> r = 1 \<and> hp st' q \<noteq> None) (smart_connect a t d st)"
proof -
  note D = sinvD [OF inv]
  have "\<not> local_kind s" using s(2) by (simp add: local_kind_def)
  from remote_peer [OF inv s(1) this] q s(2) obtain u where
    u: "hp st q = Some u" "peer u = Some a" "q \<noteq> a" "close_op u = LocalClose" by auto
  define u' where "u' = u\<lparr>ready_op := LocalReadyNotify, close_op := LocalCloseNotify, peer := None, transport := Some t\<rparr>"
  have u': "sock_ok u'" "closing u' = closing u" "listed u'" "peer u' = None" "local_kind u'"
    "close_op u' = LocalCloseNotify"
    using D(3) [OF u(1)] u(2,4) by (auto simp: u'_def sock_ok_def ops_ok_def listed_def local_kind_def)
  have nc: "\<not> closing u" using D(3) [OF u(1)] u(2) by (auto simp: sock_ok_def)
  have pts: "b = a" if "hp st b = Some v" "peer v = Some q" for b v
    using only_peer_points [OF inv u(1) that] u(2) by simp
  have i1: "sinv_except {a} (setk q (Some u') st)"
    by (rule setk_inv [OF sinv_mono [OF inv] u(1) u'(1)])
      (use u u' pts in \<open>auto simp: listed_def peer_ok_def\<close>)
  define st1 where "st1 = setk q (Some u') st"
  have h1: "hp st1 = (hp st)(q := Some u')" using u(1) by (simp add: st1_def hp_setk)
  from d obtain name where name: "c_string (drop 4 d) = Some name" by blast
  have eq: "smart_connect a t d st = seq (connect_to_remote q name st1) (\<lambda>st.
      seq (upd a (\<lambda>s. s\<lparr>peer := None\<rparr>) st) (\<lambda>st. seq (sock_close a st) (\<lambda>st. Inr (1, st))))"
    using s q u name upd_Some [OF u(1)]
    by (simp add: smart_connect_def sock_Some st1_def u'_def)
  show ?thesis
    unfolding eq
  proof (rule safe_res_seq [OF connect_to_remote_safe])
    show "length (fresh st1) = MAX_PAYLOAD" using D(9) by (simp add: st1_def)
    show "hp st1 q = Some u'" by (simp add: h1)
    fix st2
    assume q2: "quiet st1 st2"
    then have i2: "sinv_except {a} st2" and h2: "hp st2 = (hp st)(q := Some u')"
      using quiet_inv [OF q2, of "{a}"] i1 h1 by (auto simp: st1_def quiet_def)
    have sa: "hp st2 a = Some s" using h2 s u(3) by simp
    let ?s = "s\<lparr>peer := None\<rparr>"
    let ?st = "setk a (Some ?s) st2"
    have h3: "hp ?st = (hp st2)(a := Some ?s)" using sa by (simp add: hp_setk)
    have none: "peer v \<noteq> Some a" if "hp ?st b = Some v" for b v
    proof (cases "b = a \<or> b = q")
      case False
      with that h3 h2 have "hp st b = Some v" by simp
      with only_peer_points [OF inv s(1) this] q False show ?thesis by auto
    qed (use that h3 h2 u' u(3) in auto)
    have none2: "peer v \<noteq> Some a" if "b \<noteq> a" "hp st2 b = Some v" for b v
      using none [of b v] that h3 by simp
    have i3: "sinv_except {a} ?st"
      by (rule setk_inv [OF i2 sa])
        (use sinvD(3) [OF i2 sa] sock_ok_no_peer none2 in \<open>auto simp: listed_def\<close>)
    have "safe_res (gone a ?s ?st) (sock_close a ?st)"
      using leaf_close [OF i3, of a ?s] h3 by (simp add: sock_close_def sock_Some)
    then have "safe_res (\<lambda>st'. sinv st' \<and> hp st' q \<noteq> None) (sock_close a ?st)"
    proof (rule safe_res_mono)
      fix st'
      assume g: "gone a ?s ?st st'"
      have "sinv_except ({a} - {a}) st'"
        by (rule gone_inv [OF i3 _ g]) (use h3 none in auto)
      moreover have "hp st' q = Some u'"
        using g h3 h2 u(3) by (auto simp: gone_def freed_def lingers_def)
      ultimately show "sinv st' \<and> hp st' q \<noteq> None" by simp
    qed
    then show "safe_res (\<lambda>(r, st'). sinv st' \<and> r = 1 \<and> hp st' q \<noteq> None)
        (seq (upd a (\<lambda>s. s\<lparr>peer := None\<rparr>) st2) (\<lambda>st. seq (sock_close a st) (\<lambda>st. Inr (1 :: int, st))))"
      using upd_Some [OF sa] by (auto intro!: safe_res_seq)
  qed
qed

lemma c_string_set_zero:
  assumes "4 \<le> i" and "i < length d"
  shows "c_string (drop 4 (d[i := 0])) \<noteq> None"
proof -
  have "drop 4 (d[i := 0]) ! (i - 4) = 0" using assms by simp
  moreover have "i - 4 < length (drop 4 (d[i := 0]))" using assms by simp
  ultimately have "0 \<in> set (drop 4 (d[i := 0]))" by (metis nth_mem)
  then show ?thesis by (simp add: c_string_def)
qed

text \<open>After a smart socket took data, its client is gone only if the result is negative.\<close>

definition client_ok :: "nat \<Rightarrow> int \<times> sworld \<Rightarrow> bool" where
  "client_ok q = (\<lambda>(r, st). sinv st \<and> (0 \<le> r \<longrightarrow> hp st q \<noteq> None))"

lemma smart_request_safe:
  assumes inv: "sinv st" and s: "hp st a = Some s" "close_op s = SmartClose" and p: "handed p"
    and q: "peer s = Some q"
  shows "safe_res (client_ok q) (smart_request a p st)"
proof -
  have "\<not> local_kind s" using s(2) by (simp add: local_kind_def)
  from remote_peer [OF inv s(1) this] q obtain t where t: "hp st q = Some t" "q \<noteq> a" by auto
  have len: "length (data p) = MAX_PAYLOAD" using p by (simp add: handed_def wf_packet_def)
  then obtain n where n: "unhex (data p) 4 = Inr n" using unhex_safe [of 4 "data p"] by (auto simp: MAX_PAYLOAD_def)
  have fail: "safe_res (client_ok q) (smart_fail a st)"
    by (rule safe_res_mono [OF smart_fail_safe [OF inv s(1)]]) (auto simp: client_ok_def)
  have keep: "client_ok q (0, st)" using inv t by (simp add: client_ok_def)
  show ?thesis
  proof (cases "pkt_len p < 4 \<or> n < 1 \<or> n > 1024 \<or> n + 4 > pkt_len p")
    case True
    then show ?thesis
      using n fail keep by (auto simp: smart_request_def)
  next
    case False
    then have n0: "unat n \<le> 1024" by (auto simp: word_less_nat_alt not_less)
    then have n1: "unat (n + 4) = unat n + 4" "unat n \<le> 1024"
      by (simp_all add: unat_word_ariths)
    then have n2: "unat (n + 4) < length (data p)" using len by (simp add: MAX_PAYLOAD_def)
    let ?d = "(data p)[unat (n + 4) := 0]"
    have cs: "c_string (drop 4 ?d) \<noteq> None"
      by (rule c_string_set_zero) (use n1 len in \<open>auto simp: MAX_PAYLOAD_def\<close>)
    have ip: "pkt_ok (p\<lparr>data := ?d\<rparr>)"
      using p by (auto simp: pkt_ok_def handed_def in_packet_def wf_packet_def)
    define go where "go = (\<lambda>t. seq (upd a (\<lambda>s. s\<lparr>transport := Some t, pkts := [p\<lparr>data := ?d\<rparr>]\<rparr>) st) (\<lambda>st.
        if offline st t then smart_refuse a ''device offline (x)'' st else smart_connect a t ?d st))"
    have go: "safe_res (client_ok q) (go t)" for t
    proof -
      let ?f = "\<lambda>s. s\<lparr>transport := Some t, pkts := [p\<lparr>data := ?d\<rparr>]\<rparr>"
      have "sock_ok (?f s)"
        using sinvD(3) [OF inv s(1)] s(2) ip p by (auto simp: sock_ok_def handed_def local_kind_def)
      note U = upd_inv [where f = ?f, OF inv s(1) this]
      have i: "sinv (setk a (Some (?f s)) st)" and h: "hp (setk a (Some (?f s)) st) a = Some (?f s)"
        and e: "upd a ?f st = Inr (setk a (Some (?f s)) st)"
        using U s(2) by auto
      show ?thesis
        using smart_refuse_safe [OF i h, of "''device offline (x)''"]
          smart_connect_safe [OF i h, of q ?d t] s(2) q cs e unfolding go_def
        by (auto simp: client_ok_def elim!: safe_res_mono)
    qed
    have "smart_request a p st = (case (case transport s of Some t \<Rightarrow> Inr t | None \<Rightarrow> acquire st) of
        Inl err \<Rightarrow> smart_refuse a err st | Inr t \<Rightarrow> go t)"
      using False n n2 s(1) unfolding go_def
      by (simp add: smart_request_def sock_Some Let_def)
    moreover have "safe_res (client_ok q) (smart_refuse a err st)" for err
      by (rule safe_res_mono [OF smart_refuse_safe [OF inv s]]) (auto simp: client_ok_def)
    ultimately show ?thesis using go by (simp split: sum.splits)
  qed
qed

lemma smart_socket_enqueue_safe:
  assumes inv: "sinv st" and s: "hp st a = Some s" "close_op s = SmartClose" and p: "handed p"
    and q: "peer s = Some q"
  shows "safe_res (client_ok q) (smart_socket_enqueue a p st)"
proof -
  have sok: "sock_ok s" using sinvD(3) [OF inv s(1)] .
  have set1: "safe_res (client_ok q) (seq (upd a (\<lambda>s. s\<lparr>pkts := [p']\<rparr>) st) (smart_request a p'))"
    if p': "handed p'" for p'
  proof -
    let ?f = "\<lambda>s. s\<lparr>pkts := [p']\<rparr>"
    have "sock_ok (?f s)"
      using sok s(2) p' by (auto simp: sock_ok_def handed_def local_kind_def pkt_ok_def in_packet_def wf_packet_def)
    note U = upd_inv [where f = ?f, OF inv s(1) this]
    have i: "sinv (setk a (Some (?f s)) st)" and h: "hp (setk a (Some (?f s)) st) a = Some (?f s)"
      and e: "upd a ?f st = Inr (setk a (Some (?f s)) st)"
      using U by auto
    from smart_request_safe [OF i h _ p', of q] s(2) q e show ?thesis by simp
  qed
  show ?thesis
  proof (cases "pkts s")
    case Nil
    with set1 [OF p] s(1) show ?thesis by (simp add: smart_socket_enqueue_def sock_Some)
  next
    case (Cons p0 ps)
    then have p0: "wf_packet p0" "unat (pkt_len p0) \<le> MAX_PAYLOAD" "pkt_ptr p0 = 0"
      using sok s(2) by (auto simp: sock_ok_def pkt_ok_def in_packet_def wf_packet_def)
    have sum: "unat (pkt_len p0 + pkt_len p) = unat (pkt_len p0) + unat (pkt_len p)"
      using p0(2) p by (simp add: handed_def MAX_PAYLOAD_def unat_word_ariths)
    show ?thesis
    proof (cases "pkt_len p0 + pkt_len p > of_nat MAX_PAYLOAD")
      case True
      have "safe_res (client_ok q) (smart_fail a st)"
        by (rule safe_res_mono [OF smart_fail_safe [OF inv s(1)]]) (auto simp: client_ok_def)
      with True Cons s(1) show ?thesis by (simp add: smart_socket_enqueue_def sock_Some)
    next
      case False
      then have le: "unat (pkt_len p0) + unat (pkt_len p) \<le> MAX_PAYLOAD"
        using sum by (simp add: word_less_nat_alt MAX_PAYLOAD_def)
      then obtain p' where p': "smart_merge p0 p = Inr p'" "handed p'"
        using p0 p sum by (auto simp: smart_merge_def handed_def wf_packet_def)
      with False Cons s(1) set1 [OF p'(2)] show ?thesis by (simp add: smart_socket_enqueue_def sock_Some)
    qed
  qed
qed

text \<open>Data from a local socket to its peer, a remote or a smart socket.\<close>

lemma enqueue_to_peer_safe:
  assumes inv: "sinv st" and s: "hp st a = Some s" "\<not> listed s" and p: "handed p" and q: "peer s = Some q"
  shows "safe_res (client_ok q) (sock_enqueue a p st)"
proof -
  have ok: "ops_ok s" using sinvD(3) [OF inv s(1)] by (simp add: sock_ok_def)
  have "\<not> local_kind s" using s(2) by (auto simp: local_kind_def listed_def)
  from remote_peer [OF inv s(1) this] q obtain t where t: "hp st q = Some t" by auto
  show ?thesis
  proof (cases "close_op s = RemoteClose")
    case True
    have "safe_res (client_ok q) (remote_socket_enqueue a p st)"
      using remote_socket_enqueue_safe [OF inv s(1) True p]
      by (rule safe_res_mono) (use t inv quiet_hp quiet_inv in \<open>fastforce simp: client_ok_def\<close>)
    with True ok s(1) show ?thesis by (simp add: sock_enqueue_def sock_Some ops_ok_def)
  next
    case False
    with s(2) have k: "close_op s = SmartClose" by (simp add: listed_def)
    with smart_socket_enqueue_safe [OF inv s(1) k p q] ok s(1) show ?thesis
      by (simp add: sock_enqueue_def sock_Some ops_ok_def)
  qed
qed

section \<open>Readiness\<close>

text \<open>A JDWP socket that is ready sends to its peer, a remote socket.\<close>

lemma jdwp_peer:
  assumes inv: "sinv st" and s: "hp st a = Some s" "close_op s = JdwpClose \<or> close_op s = TrackerClose"
  shows "\<exists>q t. peer s = Some q \<and> hp st q = Some t \<and> close_op t = RemoteClose \<and> enqueue_op t = RemoteEnqueue"
proof -
  have "\<not> local_kind s" using s(2) by (auto simp: local_kind_def)
  from remote_peer [OF inv s(1) this] s(2) obtain q t where
    "peer s = Some q" "hp st q = Some t" "close_op t = RemoteClose" by blast
  moreover from this sinvD(3) [OF inv, of q t] have "enqueue_op t = RemoteEnqueue"
    by (simp add: sock_ok_def ops_ok_def)
  ultimately show ?thesis by blast
qed

lemma jdwp_send_safe:
  assumes inv: "sinv st" and s: "hp st a = Some s" "close_op s = JdwpClose \<or> close_op s = TrackerClose"
    and bs: "length bs \<le> MAX_PAYLOAD"
  shows "safe_res (\<lambda>(r, st'). quiet st st')
    (seq (list_packet bs st) (\<lambda>p. seq (ptr (peer s)) (\<lambda>q. sock_enqueue q p st)))"
proof -
  from jdwp_peer [OF inv s] obtain q t where q: "peer s = Some q" "hp st q = Some t"
    "close_op t = RemoteClose" "enqueue_op t = RemoteEnqueue" by blast
  from list_packet_handed [OF sinvD(9) [OF inv] bs] obtain p where
    p: "list_packet bs st = Inr p" "handed p" by blast
  have "safe_res (\<lambda>(r, st'). quiet st st') (remote_socket_enqueue q p st)"
    by (rule safe_res_mono [OF remote_socket_enqueue_safe [OF inv q(2,3) p(2)]]) auto
  with p q show ?thesis by (simp add: sock_enqueue_def sock_Some)
qed

lemma seq_pair_snd: "seq m (\<lambda>(r, st). f st) = seq m (\<lambda>x. f (snd x))"
  by (cases m) auto

lemma process_list_fits:
  "length (jdwp_process_list pids MAX_PAYLOAD) \<le> MAX_PAYLOAD"
  "length (jdwp_process_list_msg pids MAX_PAYLOAD) \<le> MAX_PAYLOAD"
  "length (jdwp_process_list_msg pids 1024) \<le> MAX_PAYLOAD"
  using length_jdwp_process_list [of MAX_PAYLOAD pids] length_jdwp_process_list_msg [of MAX_PAYLOAD pids]
    length_jdwp_process_list_msg [of 1024 pids]
  by (simp_all add: MAX_PAYLOAD_def)

lemma jdwp_ready_safe:
  assumes inv: "sinv st" and s: "hp st a = Some s" "close_op s = JdwpClose"
  shows "safe_res sinv (jdwp_socket_ready a st)"
proof (cases "pass s")
  case True
  from jdwp_peer [OF inv s(1)] s(2) obtain q t where "peer s = Some q" "hp st q = Some t" by blast
  with True s sock_close_safe [OF inv, of q t] show ?thesis
    by (simp add: jdwp_socket_ready_def sock_Some)
next
  case False
  have "jdwp_socket_ready a st = seq (seq (list_packet (jdwp_process_list (jdwp_pids st) MAX_PAYLOAD) st) (\<lambda>p. seq (ptr (peer s)) (\<lambda>q.
      sock_enqueue q p st))) (\<lambda>x. upd a (\<lambda>s. s\<lparr>pass := True\<rparr>) (snd x))"
    using s False by (simp add: jdwp_socket_ready_def sock_Some seq_assoc seq_pair_snd)
  moreover have "safe_res sinv (seq (seq (list_packet (jdwp_process_list (jdwp_pids st) MAX_PAYLOAD) st) (\<lambda>p. seq (ptr (peer s)) (\<lambda>q.
      sock_enqueue q p st))) (\<lambda>x. upd a (\<lambda>s. s\<lparr>pass := True\<rparr>) (snd x)))"
  proof (rule safe_res_seq [OF jdwp_send_safe [OF inv s(1)]])
    fix x :: "int \<times> sworld"
    assume "case x of (r, st') \<Rightarrow> quiet st st'"
    then have q: "quiet st (snd x)" by (cases x) simp
    have "sock_ok (s\<lparr>pass := True\<rparr>)" using sinvD(3) [OF inv s(1)] by (simp add: sock_ok_def local_kind_def)
    from upd_inv [where f = "\<lambda>s. s\<lparr>pass := True\<rparr>", OF quiet_inv [OF q inv] _ this] s(1) quiet_hp [OF q]
    show "safe_res sinv (upd a (\<lambda>s. s\<lparr>pass := True\<rparr>) (snd x))" by simp
  qed (use s(2) process_list_fits(1) in auto)
  ultimately show ?thesis by simp
qed

lemma tracker_ready_safe:
  assumes inv: "sinv st" and s: "hp st a = Some s" "close_op s = TrackerClose"
  shows "safe_res sinv (jdwp_tracker_ready a st)"
proof (cases "need_update s")
  case False
  with inv s show ?thesis by (simp add: jdwp_tracker_ready_def sock_Some)
next
  case True
  let ?f = "\<lambda>s. s\<lparr>need_update := False\<rparr>"
  have "sock_ok (?f s)" using sinvD(3) [OF inv s(1)] by (simp add: sock_ok_def local_kind_def)
  note U = upd_inv [where f = ?f, OF inv s(1) this]
  let ?st = "setk a (Some (?f s)) st"
  have i: "sinv ?st" and h: "hp ?st a = Some (?f s)" and e: "upd a ?f st = Inr ?st"
    using U by auto
  have "jdwp_tracker_ready a st = seq (seq (list_packet (jdwp_process_list_msg (jdwp_pids ?st) MAX_PAYLOAD) ?st) (\<lambda>p. seq (ptr (peer (?f s))) (\<lambda>q.
      sock_enqueue q p ?st))) (\<lambda>x. Inr (snd x))"
    using s True e by (simp add: jdwp_tracker_ready_def sock_Some seq_assoc seq_pair_snd)
  moreover have "safe_res sinv (seq (seq (list_packet (jdwp_process_list_msg (jdwp_pids ?st) MAX_PAYLOAD) ?st) (\<lambda>p. seq (ptr (peer (?f s))) (\<lambda>q.
      sock_enqueue q p ?st))) (\<lambda>x. Inr (snd x)))"
    by (rule safe_res_seq [OF jdwp_send_safe [OF i h]])
      (use s(2) process_list_fits(2) quiet_inv [OF _ i] in auto)
  ultimately show ?thesis by simp
qed

lemma remote_ready_safe:
  assumes inv: "sinv st" and s: "hp st a = Some s" "close_op s = RemoteClose"
  shows "safe_res (quiet st) (remote_socket_ready a st)"
proof -
  have "\<not> local_kind s" using s(2) by (simp add: local_kind_def)
  from remote_peer [OF inv s(1) this] obtain q t where q: "peer s = Some q" "hp st q = Some t" by blast
  show ?thesis
    using s q send_command_quiet [OF sinvD(9) [OF inv]] by (simp add: remote_socket_ready_def sock_Some)
qed

lemma ready_notify_safe:
  assumes inv: "sinv st" and s: "hp st a = Some s" "close_op s = LocalCloseNotify"
  shows "safe_res sinv (local_socket_ready_notify a st)"
proof -
  let ?s = "s\<lparr>ready_op := LocalReady, close_op := LocalClose\<rparr>"
  have ok: "sock_ok s" using sinvD(3) [OF inv s(1)] .
  then have p: "peer s = None" using s(2) by (simp add: sock_ok_def)
  have none: "peer t \<noteq> Some a" if "hp st b = Some t" for b t
    using only_peer_points [OF inv s(1) that] p by auto
  have "sinv (setk a (Some ?s) st)"
    by (rule setk_inv [OF inv s(1)])
      (use ok s p ops_ok_local [of s] none in
        \<open>auto simp: sock_ok_def listed_def local_kind_def peer_ok_def\<close>)
  moreover have "hp (setk a (Some ?s) st) a = Some ?s" using s(1) by (simp add: hp_setk)
  ultimately show ?thesis
    using upd_Some [OF s(1)] by (simp add: local_socket_ready_notify_def sock_Some local_socket_ready_def)
qed

lemma sock_ready_safe:
  assumes inv: "sinv st" and s: "hp st a = Some s"
  shows "safe_res sinv (sock_ready a st)"
proof -
  have ok: "ops_ok s" using sinvD(3) [OF inv s] by (simp add: sock_ok_def)
  have q: "safe_res sinv m" if "safe_res (quiet st) m" for m
    using that by (rule safe_res_mono) (use quiet_inv [OF _ inv] in blast)
  show ?thesis
    using ok s inv ready_notify_safe [OF inv s] q [OF remote_ready_safe [OF inv s]]
      jdwp_ready_safe [OF inv s] tracker_ready_safe [OF inv s]
    by (cases "close_op s") (simp_all add: ops_ok_def sock_ready_def sock_Some local_socket_ready_def)
qed

section \<open>Events\<close>

lemma drain_pkts_safe:
  assumes "\<forall>p \<in> set ps. pkt_ok p"
  shows "\<exists>out ps' stop k'. drain_pkts ps k = Inr (out, ps', stop, k') \<and>
    (\<forall>p \<in> set ps'. pkt_ok p) \<and> (stop = Done \<longleftrightarrow> ps' = []) \<and>
    concat (map unsent ps) = out @ concat (map unsent ps')"
  using assms
proof (induction ps arbitrary: k)
  case (Cons p ps)
  then have p: "in_packet p" "wf_packet p" by (auto simp: pkt_ok_def)
  obtain out rest stop k1 where ps: "push (unsent p) k = (out, rest, stop, k1)"
    by (cases "push (unsent p) k")
  note S = push_split [OF ps]
  show ?case
  proof (cases "stop = Done")
    case True
    from Cons obtain out' ps' stop' k' where
      "drain_pkts ps k1 = Inr (out', ps', stop', k')" "\<forall>p \<in> set ps'. pkt_ok p"
      "stop' = Done \<longleftrightarrow> ps' = []" "concat (map unsent ps) = out' @ concat (map unsent ps')"
      by (metis list.set_intros(2))
    with True ps p S show ?thesis by auto
  next
    case False
    have le: "length out \<le> unat (pkt_len p)"
      using S length_unsent [OF p(1)] by (metis le_add1 length_append)
    have "unsent (advance (length out) p) = rest"
      using advance_ok(3) [OF p(1) le] S by simp
    with False ps p S Cons.prems advance_ok [OF p(1) le] show ?thesis by (auto simp: pkt_ok_def)
  qed
qed auto

text \<open>
  Writing: when the queue is empty the peer is told; a socket that waits for its connection
  has none, which is excluded here.
\<close>

lemma closing_drained:
  assumes inv: "sinv st" and s: "hp st a = Some s" "closing s"
    and h1: "hp st1 = (hp st)(a := Some (s\<lparr>pkts := []\<rparr>))" "slist st1 = slist st" "clist st1 = clist st"
      "trackers st1 = trackers st" "remotes st1 = remotes st" "fresh st1 = fresh st"
  shows "safe_res sinv (sock_close a st1)"
proof -
  have ok: "sock_ok s" using sinvD(3) [OF inv s(1)] .
  with s(2) have p: "peer s = None" "local_kind s" by (auto simp: sock_ok_def)
  have fin: "sinv st'" if "freed a u st2 st'" "hp st2 = (hp st)(a := Some u)" "close_op u = LocalClose"
    "slist st2 = slist st" "clist st2 = clist st"
    "trackers st2 = trackers st" "remotes st2 = remotes st" "fresh st2 = fresh st" for u st2 st'
  proof -
    define st3 where "st3 = st\<lparr>pipe_ok := pipe_ok st', wscript := wscript st', next_id := next_id st',
      acquire := acquire st', offline := offline st', jdwp_pids := jdwp_pids st'\<rparr>"
    have i3: "sinv st3" using sinv_frame [of st3 st "{}"] inv by (simp add: st3_def hp_def fun_eq_iff)
    have "hp st3 = hp st" by (simp add: st3_def hp_def fun_eq_iff)
    moreover have "freed a s st3 st'"
      using that p \<open>hp st3 = hp st\<close> by (auto simp: freed_def st3_def env_same_def local_kind_def)
    ultimately show ?thesis
      using gone_no_peer_inv [OF i3, of a s st'] s(1) p(1) by (simp add: gone_def)
  qed
  show ?thesis
  proof (cases "close_op s = LocalClose")
    case True
    let ?u = "s\<lparr>pkts := []\<rparr>"
    have "sock_close a st1 = local_socket_destroy a st1"
      using True h1(1) p by (simp add: sock_close_def sock_Some close_rest_def)
    moreover have "safe_res (freed a ?u st1) (local_socket_destroy a st1)"
      by (rule destroy_safe) (use h1(1) True in simp_all)
    ultimately show ?thesis
      using fin [of ?u st1] h1 True by (auto elim!: safe_res_mono)
  next
    case False
    with p(2) have k: "close_op s = LocalCloseNotify" by (simp add: local_kind_def)
    let ?u = "s\<lparr>pkts := [], ready_op := LocalReady, close_op := LocalClose\<rparr>"
    let ?st = "sendfailmsg (sfd ?u) ''closed'' (setk a (Some ?u) st1)"
    have h2: "hp ?st = (hp st)(a := Some ?u)" using h1(1) by (simp add: hp_setk)
    have "sock_close a st1 = local_socket_destroy a ?st"
      using k h1(1) p upd_Some [of st1 a "s\<lparr>pkts := []\<rparr>"] h2
      by (simp add: sock_close_def sock_Some close_rest_def)
    moreover have "safe_res (freed a ?u ?st) (local_socket_destroy a ?st)"
      by (rule destroy_safe) (use h2 in simp_all)
    ultimately show ?thesis
      using fin [of ?u ?st] h1 h2 by (auto simp: sendfailmsg_def elim!: safe_res_mono)
  qed
qed

lemma write_event_safe:
  assumes inv: "sinv st" and s: "hp st a = Some s" "local_kind s" "peer s \<noteq> None \<or> closing s"
  shows "safe_res sinv (local_socket_write_event a st)"
proof -
  have ok: "sock_ok s" using sinvD(3) [OF inv s(1)] .
  then obtain out ps stop k where d: "drain_pkts (pkts s) (wscript st) = Inr (out, ps, stop, k)"
    "\<forall>p \<in> set ps. pkt_ok p" "stop = Done \<longleftrightarrow> ps = []"
    using drain_pkts_safe [of "pkts s" "wscript st"] by (auto simp: sock_ok_def)
  define st1 where "st1 = emit (WriteFd (write_fd s) out) (st\<lparr>wscript := k\<rparr>)"
  have q1: "quiet st st1" by (simp add: st1_def quiet_def)
  have s1: "hp st1 a = Some s" using quiet_hp [OF q1] s(1) by simp
  let ?f = "\<lambda>s. s\<lparr>pkts := ps\<rparr>"
  let ?st = "setk a (Some (?f s)) st1"
  have h: "hp ?st = (hp st)(a := Some (?f s))" using s1 quiet_hp [OF q1] by (simp add: hp_setk)
  have eq: "local_socket_write_event a st = (case stop of Again \<Rightarrow> Inr ?st | Broken \<Rightarrow> sock_close a ?st
      | Done \<Rightarrow> if closing s then sock_close a ?st
          else seq (ptr (peer s)) (\<lambda>q. sock_ready q (emit (FdOp (OpDel (fde_of a) 2)) ?st)))"
    using s(1) d(1) upd_Some [OF s1, of ?f] by (simp add: local_socket_write_event_def sock_Some flip: st1_def)
  show ?thesis
  proof (cases "closing s \<and> stop = Done")
    case True
    have "safe_res sinv (sock_close a ?st)"
      by (rule closing_drained [OF inv s(1)]) (use True d(3) h q1 in \<open>simp_all add: quiet_def\<close>)
    with True eq show ?thesis by simp
  next
    case False
    have "sock_ok (?f s)" using ok s(2) d(2,3) False by (auto simp: sock_ok_def local_kind_def)
    from upd_inv [where f = ?f, OF quiet_inv [OF q1 inv] s1 this] have i: "sinv ?st" by simp
    have close: "safe_res sinv (sock_close a ?st)"
      by (rule sock_close_safe [OF i, of a "?f s"]) (simp add: h)
    have ready: "safe_res sinv (sock_ready q (emit (FdOp (OpDel (fde_of a) 2)) ?st))" if q: "peer s = Some q" for q
    proof -
      from inv s(1) q obtain t where t: "hp st q = Some t" "q \<noteq> a" by (auto elim: peer_of)
      show ?thesis by (rule sock_ready_safe [of _ _ t]) (use i h t in auto)
    qed
    show ?thesis
      unfolding eq using False s(3) i close ready by (auto split: wstop.splits)
  qed
qed

lemma gather_length: "length (fst (gather avail r k)) \<le> avail"
proof (induction avail r k rule: gather.induct)
  case (1 avail r k)
  then show ?case
    using adb_read_progress [of avail k]
    by (subst gather.simps) (fastforce split: option.splits sysret.splits prod.splits)
qed

lemma read_event_safe:
  assumes inv: "sinv st" and s: "hp st a = Some s" "local_kind s"
  shows "safe_res sinv (local_socket_read_event force k a st)"
proof -
  obtain bs eof r k' where g: "gather MAX_PAYLOAD 0 k = (bs, eof, r, k')"
    by (cases "gather MAX_PAYLOAD 0 k")
  have len: "length bs \<le> MAX_PAYLOAD" using gather_length [of MAX_PAYLOAD 0 k] g by simp
  define finish where "finish = (\<lambda>(r :: int) st. seq (sock a st) (\<lambda>_.
      if force \<and> r = 0 \<or> eof then sock_close a st else Inr st))"
  have fin: "safe_res sinv (finish r st')" if "sinv st'" "hp st' a \<noteq> None" for r st'
    using that sock_close_safe [of st' a] by (auto simp: finish_def sock_Some)
  show ?thesis
  proof (cases "peer s = None \<or> bs = []")
    case True
    then have "local_socket_read_event force k a st = finish r st"
      using s g by (auto simp: local_socket_read_event_def sock_Some finish_def split: option.splits)
    with fin [OF inv, of r] s show ?thesis by simp
  next
    case False
    then obtain q where q: "peer s = Some q" "bs \<noteq> []" by auto
    from inv s(1) q(1) obtain t where t: "hp st q = Some t" "peer t = Some a" "listed s \<noteq> listed t"
      by (auto elim: peer_of)
    from list_packet_handed [OF sinvD(9) [OF inv] len] obtain p where
      p: "list_packet bs st = Inr p" "handed p" by blast
    have eq: "local_socket_read_event force k a st = seq (sock_enqueue q p st) (\<lambda>(r, st).
        if r < 0 then Inr st
        else if r > 0 then seq (sock a st) (\<lambda>_. finish r (emit (FdOp (OpDel (fde_of a) 1)) st))
        else finish r st)"
      using s g q p unfolding finish_def by (simp add: local_socket_read_event_def sock_Some)
    have nl: "\<not> listed t" using t(3) s(2) by (auto simp: listed_def local_kind_def)
    show ?thesis
      unfolding eq
    proof (rule safe_res_seq [OF enqueue_to_peer_safe [OF inv t(1) nl p(2) t(2)]])
      fix x
      assume "client_ok a x"
      then show "safe_res sinv (case x of (r, st) \<Rightarrow> if r < 0 then Inr st
          else if r > 0 then seq (sock a st) (\<lambda>_. finish r (emit (FdOp (OpDel (fde_of a) 1)) st))
          else finish r st)"
        using fin by (cases x) (auto simp: client_ok_def sock_Some)
    qed
  qed
qed

section \<open>Disconnecting a transport\<close>

lemma remote_disconnect_safe:
  assumes inv: "sinv st" and s: "hp st a = Some s" "close_op s = RemoteClose"
  shows "safe_res (\<lambda>st'. sinv st' \<and> (\<forall>t. set (remotes st' t) = set (remotes st t) - {a}))
    (remote_socket_disconnect a st)"
proof -
  have "\<not> local_kind s" using s(2) by (simp add: local_kind_def)
  from remote_peer [OF inv s(1) this] s(2) obtain q u where
    q: "peer s = Some q" "hp st q = Some u" "q \<noteq> a" "listed u"
    by (auto simp: listed_def)
  define keep where "keep = (\<lambda>st' :: sworld. \<forall>t. set (remotes st' t) = set (remotes st t) - {a})"
  have tail: "safe_res (\<lambda>st'. sinv st' \<and> keep st') (seq (sock a st1) (\<lambda>s.
      seq (remove_disconnect (transport s) a st1) (free_sock a)))"
    if g: "peer_gone a s st1" and k: "remotes st1 = remotes st" for st1
  proof -
    from g have i: "sinv_except {a} st1" and h: "hp st1 a = Some s" by (auto simp: peer_gone_def)
    note R = sinv_remote [OF i h s(2)]
    from R(1) obtain t where t: "transport s = Some t" by blast
    let ?st = "st1\<lparr>remotes := (remotes st1)(t := remove1 a (remotes st1 t))\<rparr>"
    have "hp ?st a = Some s" using h by simp
    note F = free_Some [OF this]
    have "freed a s st1 (setk a None ?st)"
      using hp_setk [of ?st a None] h R s(2) t by (auto simp: freed_def env_same_def remove1_idem)
    then have i': "sinv (setk a None ?st)" by (rule peer_gone_freed [OF g])
    have "a \<notin> set (remotes st u)" if "u \<noteq> t" for u using sinvD(8) [OF inv, of a u] s(1) t that by auto
    then have "keep (setk a None ?st)"
      using sinvD(7) [OF inv, of t] k by (auto simp: keep_def)
    with i' F h t show ?thesis
      by (auto simp: sock_Some remove_disconnect_def)
  qed
  have eq: "remote_socket_disconnect a st = seq (upd q (\<lambda>s. s\<lparr>peer := None\<rparr>) st) (\<lambda>st. seq (sock q st) (\<lambda>qs.
      seq (run_close (close_op qs) q st) (\<lambda>st. seq (sock a st) (\<lambda>s.
      seq (remove_disconnect (transport s) a st) (free_sock a)))))"
    using s q by (simp add: remote_socket_disconnect_def sock_Some sock_close_def seq_assoc)
  have "safe_res (\<lambda>st'. sinv st' \<and> keep st') (remote_socket_disconnect a st)"
    unfolding eq by (rule close_peer_remotes [OF inv s(1) q(1)]) (use tail s(2) in \<open>auto simp: listed_def\<close>)
  then show ?thesis by (simp add: keep_def)
qed

lemma run_disconnects_safe:
  assumes "sinv st" and "distinct as" and "set as \<subseteq> set (remotes st t)"
  shows "safe_res (\<lambda>st'. sinv st' \<and> (\<forall>t. set (remotes st' t) = set (remotes st t) - set as)) (run_disconnects as st)"
  using assms
proof (induction as arbitrary: st)
  case (Cons a as)
  from Cons.prems(1,3) sinvD(8) [OF Cons.prems(1), of a t] obtain s where
    s: "hp st a = Some s" "close_op s = RemoteClose" by auto
  have "safe_res (\<lambda>st'. sinv st' \<and> (\<forall>t. set (remotes st' t) = set (remotes st t) - set (a # as)))
      (seq (remote_socket_disconnect a st) (run_disconnects as))"
  proof (rule safe_res_seq [OF remote_disconnect_safe [OF Cons.prems(1) s]])
    fix st'
    assume "sinv st' \<and> (\<forall>t. set (remotes st' t) = set (remotes st t) - {a})"
    then have i: "sinv st'" and k: "\<And>t. set (remotes st' t) = set (remotes st t) - {a}" by blast+
    have "set as \<subseteq> set (remotes st' t)" using Cons.prems(2,3) by (auto simp: k)
    from Cons.IH [OF i _ this] Cons.prems(2)
    have "safe_res (\<lambda>st''. sinv st'' \<and> (\<forall>t. set (remotes st'' t) = set (remotes st' t) - set as)) (run_disconnects as st')"
      by simp
    then show "safe_res (\<lambda>st'. sinv st' \<and> (\<forall>t. set (remotes st' t) = set (remotes st t) - set (a # as))) (run_disconnects as st')"
      by (rule safe_res_mono) (auto simp: k)
  qed
  then show ?case by simp
qed simp

text \<open>No callback of a transport that goes offline touches a freed socket.\<close>

lemma run_transport_disconnects_all:
  "sinv st \<Longrightarrow> safe_res (\<lambda>st'. sinv st' \<and> (\<forall>u. set (remotes st' u) = set (remotes st u) - set (remotes st t)))
     (run_transport_disconnects t st)"
  unfolding run_transport_disconnects_def
  by (rule run_disconnects_safe [of _ _ t]) (auto intro: sinvD)

lemma run_transport_disconnects_safe: "sinv st \<Longrightarrow> safe_res sinv (run_transport_disconnects t st)"
  by (rule safe_res_mono [OF run_transport_disconnects_all]) auto

text \<open>
  \<open>close_all_sockets\<close> calls \<open>local_socket_close_locked\<close> on whatever is in the list. That is
  right for local sockets and for \<open>jdwp\<close>, but not for \<open>track-jdwp\<close>.
\<close>

lemma find_bound_safe:
  assumes inv: "sinv st" and "set as \<subseteq> set (slist st)"
  shows "\<exists>r. find_bound t as st = Inr r"
  using assms(2)
proof (induction as)
  case (Cons a as)
  then obtain s where s: "hp st a = Some s" using sinvD(2) [OF inv, of a] by auto
  have "\<exists>u. hp st q = Some u" if "peer s = Some q" for q
    using inv s that by (auto elim: peer_of)
  with Cons s show ?case by (auto simp: sock_Some split: option.splits)
qed simp

lemma local_close_no_new_trackers:
  assumes inv: "sinv st" and "trackers st = []" and s: "hp st a = Some s" "listed s" "close_op s \<noteq> TrackerClose"
  shows "safe_res (\<lambda>st'. sinv st' \<and> trackers st' = []) (run_close LocalClose a st)"
proof -
  have "trackers st' = []" if "run_close LocalClose a st = Inr st'" for st'
    using tshrink.R_run_close [OF that] assms(2) by simp
  with local_close_safe [OF inv s] show ?thesis
    by (cases "run_close LocalClose a st") (auto simp: safe_res_def split: stop.splits)
qed

lemma close_all_sockets_safe:
  assumes "sinv st" and "trackers st = []"
  shows "safe_res sinv (close_all_sockets t st)"
  using assms
proof (induction t st rule: close_all_sockets.induct)
  case (1 t st)
  note D = sinvD [OF "1.prems"(1)]
  from find_bound_safe [OF "1.prems"(1), of "slist st" t] obtain r where
    r: "find_bound t (slist st) st = Inr r" by auto
  show ?case
  proof (cases r)
    case None
    with r "1.prems" show ?thesis by (simp add: close_all_sockets.simps [of t st])
  next
    case (Some a)
    with r find_bound_in have "a \<in> set (slist st)" by blast
    with D(2) [of a] obtain s where s: "hp st a = Some s" "listed s" by auto
    with D(6) [of a] "1.prems"(2) have "close_op s \<noteq> TrackerClose" by auto
    from local_close_no_new_trackers [OF "1.prems" s this]
    have "safe_res sinv (seq (run_close LocalClose a st) (close_all_sockets t))"
      by (rule safe_res_seq_eq) (use "1.IH" [OF r Some] in blast)
    then show ?thesis
      using r Some by (simp add: close_all_sockets.simps [of t st] del: run_close.simps)
  qed
qed

section \<open>Connecting sockets\<close>

text \<open>A new listed socket, still without a peer.\<close>

lemma new_listed_inv:
  assumes inv: "sinv st" and a: "hp st a = None"
    and s: "sock_ok s" "listed s" "\<not> closing s" "peer s = None"
    and st': "hp st' = (hp st)(a := Some s)" "slist st' = slist st @ [a]" "clist st' = clist st"
      "trackers st' = (if close_op s = TrackerClose then trackers st @ [a] else trackers st)"
      "remotes st' = remotes st" "fresh st' = fresh st"
  shows "sinv_except {a} st'" and "local_kind s \<Longrightarrow> sinv st'"
    and "hp st' b = Some t \<Longrightarrow> peer t \<noteq> Some a"
proof -
  note D = sinvD [OF inv]
  have al: "a \<notin> set (slist st)" "a \<notin> set (clist st)" using D(2) [of a] a by auto
  have at: "a \<notin> set (trackers st)" using D(6) [of a] a by auto
  have ar: "a \<notin> set (remotes st t)" for t using D(8) [of a t] a by auto
  have none: "peer t \<noteq> Some a" if "hp st b = Some t" for b t
    using D(10) [of b t] that a by (auto simp: peer_ok_def)
  then show "hp st' b = Some t \<Longrightarrow> peer t \<noteq> Some a" using s by (auto simp: st' split: if_splits)
  have pk: "peer_ok st' b t" if "b \<noteq> a" "hp st' b = Some t" for b t
    using D(10) [of b t] that none [of b t] a by (auto simp: st' peer_ok_def split: option.splits)
  show i: "sinv_except {a} st'"
    unfolding sinv_except_def
  proof (intro conjI allI impI)
    show "distinct (slist st' @ clist st')" using D(1) al by (auto simp: st')
    show "b \<in> set (slist st') \<union> set (clist st') \<longleftrightarrow> (\<exists>t. hp st' b = Some t \<and> listed t)" for b
      using D(2) [of b] s by (auto simp: st')
    show "sock_ok t" if "hp st' b = Some t" for b t
      using D(3) [of b t] that s by (auto simp: st' split: if_splits)
    show "closing t \<longleftrightarrow> b \<in> set (clist st')" if "hp st' b = Some t" for b t
      using D(4) [of b t] that s al by (auto simp: st' split: if_splits)
    show "distinct (trackers st')" using D(5) at by (simp add: st')
    show "b \<in> set (trackers st') \<longleftrightarrow> (\<exists>t. hp st' b = Some t \<and> close_op t = TrackerClose)" for b
      using D(6) [of b] at by (auto simp: st')
    show "distinct (remotes st' t)" for t using D(7) by (simp add: st')
    show "b \<in> set (remotes st' t) \<longleftrightarrow>
        (\<exists>u. hp st' b = Some u \<and> close_op u = RemoteClose \<and> transport u = Some t)" for t b
      using D(8) [of b t] ar s by (auto simp: st' listed_def)
    show "length (fresh st') = MAX_PAYLOAD"
      using D(9) by (simp_all add: st')
    show "peer_ok st' b t" if "b \<notin> {a}" "hp st' b = Some t" for b t using pk that by simp
  qed
  show "sinv st'" if "local_kind s"
  proof -
    have "peer_ok st' a s" using that s by (simp add: peer_ok_def)
    with i show ?thesis unfolding sinv_except_def by (auto simp: st'(1))
  qed
qed

text \<open>Linking a listed socket without peer to a new remote or smart socket.\<close>

lemma link_inv:
  assumes inv: "sinv_except {a} st" and s: "hp st a = Some s" "listed s" "\<not> closing s"
    and none: "\<And>b t. hp st b = Some t \<Longrightarrow> peer t \<noteq> Some a"
    and q: "hp st q = None"
    and s': "sock_ok s'" "peer s' = Some q" "\<not> closing s'" "listed s'"
      "close_op s' = TrackerClose \<longleftrightarrow> close_op s = TrackerClose"
    and r: "sock_ok r" "\<not> listed r" "peer r = Some a" "\<not> closing r"
      "close_op r = SmartClose \<longrightarrow> close_op s' = LocalClose"
    and st': "hp st' = (hp st)(a := Some s', q := Some r)" "slist st' = slist st" "clist st' = clist st"
      "trackers st' = trackers st"
      "\<And>t. remotes st' t = (if close_op r = RemoteClose \<and> transport r = Some t then remotes st t @ [q]
        else remotes st t)"
      "fresh st' = fresh st"
  shows "sinv st'"
proof -
  note D = sinvD [OF inv]
  have qa: "q \<noteq> a" using q s by auto
  have ql: "q \<notin> set (slist st)" "q \<notin> set (clist st)" using D(2) [of q] q by auto
  have qt: "q \<notin> set (trackers st)" using D(6) [of q] q by auto
  have qr: "q \<notin> set (remotes st t)" for t using D(8) [of q t] q by auto
  show ?thesis
    unfolding sinv_except_def
  proof (intro conjI allI impI)
    show "distinct (slist st' @ clist st')" using D(1) by (auto simp: st')
    show "b \<in> set (slist st') \<union> set (clist st') \<longleftrightarrow> (\<exists>t. hp st' b = Some t \<and> listed t)" for b
      using D(2) [of b] s s' r qa ql by (auto simp: st')
    show "sock_ok t" if "hp st' b = Some t" for b t
      using D(3) [of b t] that s' r by (auto simp: st' split: if_splits)
    show "closing t \<longleftrightarrow> b \<in> set (clist st')" if "hp st' b = Some t" for b t
      using D(4) [of b t] D(4) [OF s(1)] that s s' r ql by (auto simp: st' split: if_splits)
    show "distinct (trackers st')" using D(5) by (simp add: st')
    show "b \<in> set (trackers st') \<longleftrightarrow> (\<exists>t. hp st' b = Some t \<and> close_op t = TrackerClose)" for b
      using D(6) [of b] s s' r qt qa by (auto simp: st' listed_def)
    show "distinct (remotes st' t)" for t using D(7) [of t] qr by (simp add: st')
    show "b \<in> set (remotes st' t) \<longleftrightarrow>
        (\<exists>u. hp st' b = Some u \<and> close_op u = RemoteClose \<and> transport u = Some t)" for t b
      using D(8) [of b t] s s' qr qa by (auto simp: st' listed_def)
    show "length (fresh st') = MAX_PAYLOAD"
      using D(9) by (simp_all add: st')
    show "peer_ok st' b t" if b: "hp st' b = Some t" for b t
    proof (cases "b = a \<or> b = q")
      case True
      then show ?thesis using b s' r qa by (auto simp: st' peer_ok_def listed_def split: if_splits)
    next
      case False
      with b have h: "hp st b = Some t" by (simp add: st')
      with False D(10) [of b t] have "peer_ok st b t" by simp
      moreover have "peer t \<noteq> Some a" using none h by blast
      moreover have "peer t \<noteq> Some q" using \<open>peer_ok st b t\<close> q by (auto simp: peer_ok_def)
      ultimately show ?thesis by (auto simp: st' peer_ok_def split: option.splits)
    qed
  qed
qed

section \<open>Example states\<close>

text \<open>The state at the start of the program, and one connected pair of sockets.\<close>

definition start_world :: sworld where
  "start_world = \<lparr>heap = [], slist = [], clist = [], trackers = [], remotes = (\<lambda>_. []), next_id = 1,
     effects = [], wscript = [], pipe_ok = (\<lambda>_. True), fresh = replicate MAX_PAYLOAD 0,
     acquire = Inr 0, offline = (\<lambda>_. False), jdwp_pids = []\<rparr>"

definition demo_local :: asocket where
  "demo_local = zero_sock\<lparr>sid := 1, peer := Some 1, sfd := 7, write_fd := 7\<rparr>"

definition demo_remote :: asocket where
  "demo_remote = zero_sock\<lparr>sid := 40, peer := Some 0, transport := Some 0, enqueue_op := RemoteEnqueue,
     ready_op := RemoteReady, close_op := RemoteClose\<rparr>"

definition demo_world :: sworld where
  "demo_world = start_world\<lparr>heap := [Some demo_local, Some demo_remote], slist := [0], next_id := 2,
     remotes := (\<lambda>_. [])(0 := [1])\<rparr>"

lemma start_inv: "sinv start_world"
  by (simp add: sinv_except_def start_world_def hp_def)

lemma demo_hp: "hp demo_world a = (if a = 0 then Some demo_local else if a = 1 then Some demo_remote else None)"
  by (simp add: hp_def demo_world_def less_Suc_eq)

lemma demo_inv: "sinv demo_world"
proof -
  have "peer_ok demo_world 0 demo_local" "peer_ok demo_world 1 demo_remote"
    by (simp_all add: peer_ok_def demo_hp demo_local_def demo_remote_def zero_sock_def listed_def)
  then have "\<forall>a s. hp demo_world a = Some s \<longrightarrow> peer_ok demo_world a s" by (simp add: demo_hp)
  then show ?thesis
    unfolding sinv_except_def
    by (auto simp: demo_hp) (auto simp: demo_world_def start_world_def demo_local_def demo_remote_def zero_sock_def listed_def
      sock_ok_def ops_ok_def local_kind_def split: if_splits)
qed

end
