(* ===== verification/Socket_Flow.thy ===== *)
theory Socket_Flow
  imports Socket_Safety
begin

text \<open>
  What the socket layer promises its users: closing is safe in every order, the bytes handed
  to a local socket reach its descriptor once and in order however the writes are cut up, and
  the length prefixes it prints can be read back. Three flaws are recorded as theorems.
\<close>

section \<open>Closing and events\<close>

text \<open>
  C14: Closing any live socket, of whatever kind and with whatever peer, touches no freed memory
  and follows no null pointer; the invariant of the socket layer holds afterwards.
\<close>

theorem socket_close_safe:
  assumes "sinv st" and "hp st a = Some s"
  shows "safe_res sinv (sock_close a st)"
  using assms by (rule sock_close_safe)

theorem socket_close_safe_witness: "safe_res sinv (sock_close 1 demo_world)"
  using socket_close_safe [OF demo_inv, of 1 demo_remote] by (simp add: demo_hp)

text \<open>
  C15: The event handler of a local socket is safe whatever is read or written and whichever
  call fails, provided a writable event comes only to a socket that has a peer or is closing.
\<close>

theorem local_socket_event_safe:
  assumes "sinv st" and "hp st a = Some s" and "local_kind s"
    and "ev AND FDE_WRITE \<noteq> 0 \<longrightarrow> peer s \<noteq> None \<or> closing s"
  shows "safe_res sinv (local_socket_event ev force k a st)"
  using write_event_safe [OF assms(1-3)] read_event_safe [OF assms(1-3)] assms(1,4)
  by (simp add: local_socket_event_def)

theorem local_socket_event_safe_witness:
  "safe_res sinv (local_socket_event FDE_READ True [Chunk [65, 66], Chunk []] 0 demo_world)"
  using local_socket_event_safe [OF demo_inv, of 0 demo_local FDE_READ True "[Chunk [65, 66], Chunk []]"]
  by (simp add: demo_hp demo_local_def zero_sock_def local_kind_def)

section \<open>The bytes of a local socket\<close>

text \<open>What was written to a descriptor, and what is still queued for it.\<close>

fun written :: "int \<Rightarrow> effect list \<Rightarrow> byte list" where
  "written fd [] = []"
| "written fd (WriteFd f bs # es) = (if f = fd then bs else []) @ written fd es"
| "written fd (_ # es) = written fd es"

definition backlog :: "asocket \<Rightarrow> byte list" where
  "backlog s = concat (map unsent (pkts s))"

lemma written_append [simp]: "written fd (es @ es') = written fd es @ written fd es'"
  by (induction fd es rule: written.induct) simp_all

lemma close_rest_closing:
  assumes "close_rest a st = Inr st'" and "hp st' a = Some s'"
  shows "closing s'"
proof -
  from assms(1) obtain s where s: "hp st a = Some s" by (auto simp: close_rest_def seq_eq_Inr)
  show ?thesis
  proof (cases "closing s \<or> pkts s = []")
    case True
    with assms(1) s obtain st2 where "free_sock a st2 = Inr st'"
      by (auto simp: close_rest_def local_socket_destroy_def seq_eq_Inr Let_def split: if_splits)
    then obtain s2 where "hp st2 a = Some s2" "st' = setk a None st2"
      by (auto simp: free_sock_def seq_eq_Inr setk_def)
    with assms(2) show ?thesis by (simp add: hp_setk)
  next
    case False
    let ?st1 = "emit (FdOp (OpDel (fde_of a) 1)) (setk a (Some (s\<lparr>closing := True\<rparr>)) st)"
    have h: "hp ?st1 a = Some (s\<lparr>closing := True\<rparr>)" using s by (simp add: hp_setk)
    from remove_socket_Some [OF h] obtain st2 u where st2: "remove_socket a ?st1 = Inr st2"
      "hp st2 a = Some u" "closing u"
      by auto
    with False assms s show ?thesis
      by (auto simp: close_rest_def upd_Some sock_Some)
  qed
qed

lemma local_close_closing:
  assumes "run_close f a st = Inr st'" and "f = LocalClose \<or> f = LocalCloseNotify" and "hp st' a = Some s'"
  shows "closing s'"
proof -
  have l: "closing s'" if "run_close LocalClose a st1 = Inr st'" for st1
  proof -
    from that obtain st2 where "close_rest a st2 = Inr st'" by (auto simp: seq_eq_Inr)
    then show ?thesis using assms(3) by (rule close_rest_closing)
  qed
  from assms(2) show ?thesis
  proof
    assume "f = LocalClose"
    with assms(1) l show ?thesis by simp
  next
    assume "f = LocalCloseNotify"
    with assms(1) obtain st1 where "run_close LocalClose a st1 = Inr st'"
      by (auto simp del: run_close.simps(1) simp: seq_eq_Inr)
    then show ?thesis by (rule l)
  qed
qed

lemma sock_close_closing:
  "sock_close a st = Inr st' \<Longrightarrow> hp st a = Some s \<Longrightarrow> local_kind s \<Longrightarrow> hp st' a = Some s' \<Longrightarrow> closing s'"
  by (auto simp: sock_close_def local_kind_def sock_Some simp del: run_close.simps dest: local_close_closing)

lemma sock_closing_freed:
  assumes inv: "sinv st" and s: "hp st a = Some s" "closing s" "local_kind s"
    and c: "sock_close a st1 = Inr st'" and h: "hp st1 = (hp st)(a := Some (s\<lparr>pkts := ps\<rparr>))"
  shows "hp st' a = None"
proof -
  have p: "peer s = None" using sinvD(3) [OF inv s(1)] s(2) by (simp add: sock_ok_def)
  have r: "hp st' a = None" if "close_rest a st2 = Inr st'" "hp st2 a = Some u" "closing u" for st2 u
  proof -
    from that obtain st3 where "free_sock a st3 = Inr st'"
      by (auto simp: close_rest_def local_socket_destroy_def seq_eq_Inr Let_def split: if_splits)
    then show ?thesis by (auto simp: free_sock_def seq_eq_Inr hp_def)
  qed
  have h1: "hp st1 a = Some (s\<lparr>pkts := ps\<rparr>)" using h by simp
  show ?thesis
  proof (cases "close_op s = LocalClose")
    case True
    with c h1 p have "close_rest a st1 = Inr st'" by (simp add: sock_close_def sock_Some)
    from r [OF this h1] s(2) show ?thesis by simp
  next
    case False
    with s(3) have k: "close_op s = LocalCloseNotify" by (simp add: local_kind_def)
    let ?u = "s\<lparr>pkts := ps, ready_op := LocalReady, close_op := LocalClose\<rparr>"
    let ?st2 = "sendfailmsg (sfd ?u) ''closed'' (setk a (Some ?u) st1)"
    have h2: "hp ?st2 a = Some ?u" using h1 by (simp add: hp_setk)
    from c h1 h2 p k upd_Some [OF h1, of "\<lambda>s. s\<lparr>ready_op := LocalReady, close_op := LocalClose\<rparr>"]
    have "close_rest a ?st2 = Inr st'" by (simp add: sock_close_def sock_Some)
    from r [OF this h2] s(2) show ?thesis by simp
  qed
qed

section \<open>A transport goes away\<close>

















section \<open>Bytes on their way to the descriptor\<close>

text \<open>
  A packet for a socket with an empty queue: \<open>out\<close> is written at once; if that is not all of it, the rest is
  queued and the socket asks to be told when it can write again.
\<close>

definition after_push :: "byte list \<Rightarrow> wr_answer list \<Rightarrow> asocket \<Rightarrow> sworld \<Rightarrow> sworld" where
  "after_push out k s st = emit (WriteFd (write_fd s) out) (st\<lparr>wscript := k\<rparr>)"

lemma enqueue_shape:
  assumes s: "hp st a = Some s" "pkts s = []" and p: "in_packet (p\<lparr>pkt_ptr := 0\<rparr>)"
    and ps: "push (take (unat (pkt_len p)) (data p)) (wscript st) = (out, rest, stop, k)"
  shows "local_socket_enqueue a p st =
      (if stop = Broken then seq (sock_close a (after_push out k s st)) (\<lambda>st. Inr (1, st))
       else if rest = [] then Inr (0, after_push out k s st)
       else Inr (1, emit (FdOp (OpAdd (fde_of a) 2))
         (setk a (Some (s\<lparr>pkts := [advance (length out) (p\<lparr>pkt_ptr := 0\<rparr>)]\<rparr>)) (after_push out k s st))))"
    "unsent (advance (length out) (p\<lparr>pkt_ptr := 0\<rparr>)) = rest" "take (unat (pkt_len p)) (data p) = out @ rest"
    "in_packet (advance (length out) (p\<lparr>pkt_ptr := 0\<rparr>))"
proof -
  let ?p = "p\<lparr>pkt_ptr := 0\<rparr>" and ?st1 = "after_push out k s st"
  have whole: "unsent ?p = take (unat (pkt_len p)) (data p)" by (simp add: unsent_def)
  note S = push_split [OF ps]
  have len: "length out \<le> unat (pkt_len ?p)"
    using S length_unsent [OF p] whole by (metis le_add1 length_append)
  note A = advance_ok [OF p len]
  have "pkt_len (advance (length out) ?p) = 0 \<longleftrightarrow> rest = []"
    using A(2) len S length_unsent [OF p] whole unat_eq_zero [of "pkt_len (advance (length out) ?p)"]
    by (simp only: whole) (metis diff_is_0_eq diff_self_eq_0 length_0_conv length_append add_diff_cancel_left')
  moreover have h: "hp ?st1 a = Some s" using s(1) by (simp add: after_push_def)
  ultimately show "local_socket_enqueue a p st =
      (if stop = Broken then seq (sock_close a ?st1) (\<lambda>st. Inr (1, st))
       else if rest = [] then Inr (0, ?st1)
       else Inr (1, emit (FdOp (OpAdd (fde_of a) 2)) (setk a (Some (s\<lparr>pkts := [advance (length out) ?p]\<rparr>)) ?st1)))"
    using s p ps whole by (simp add: local_socket_enqueue_def Let_def sock_Some local_enqueue_tail_def
        upd_Some [OF h] flip: after_push_def)
  show "unsent (advance (length out) ?p) = rest" "take (unat (pkt_len p)) (data p) = out @ rest"
    "in_packet (advance (length out) ?p)"
    using A(1,3) S whole by simp_all
qed

lemma enqueue_queued:
  assumes s: "hp st a = Some s" "pkts s \<noteq> []"
  shows "local_socket_enqueue a p st = Inr (1, emit (FdOp (OpAdd (fde_of a) 2))
    (setk a (Some (s\<lparr>pkts := pkts s @ [p\<lparr>pkt_ptr := 0\<rparr>]\<rparr>)) st))"
  using assms by (simp add: local_socket_enqueue_def sock_Some local_enqueue_tail_def upd_Some [OF s(1)])

text \<open>
  C18: Handing a packet to a local socket that stays open adds its bytes, once and at the end,
  to what was written to the descriptor followed by what is queued for it.
\<close>

theorem local_enqueue_in_order:
  assumes inv: "sinv st" and s: "hp st a = Some s" "local_kind s" and p: "handed p"
    and r: "local_socket_enqueue a p st = Inr (r, st')" and s': "hp st' a = Some s'" "closing s' = closing s"
  shows "written (write_fd s) (effects st') @ backlog s' =
    written (write_fd s) (effects st) @ backlog s @ take (unat (pkt_len p)) (data p)"
proof (cases "pkts s = []")
  case False
  with enqueue_queued [OF s(1)] r s(1) s'(1) show ?thesis
    by (auto simp: hp_setk backlog_def unsent_def)
next
  case True
  have ip: "in_packet (p\<lparr>pkt_ptr := 0\<rparr>)" using p by (auto simp: handed_def in_packet_def wf_packet_def)
  obtain out rest stop k where ps: "push (take (unat (pkt_len p)) (data p)) (wscript st) = (out, rest, stop, k)"
    by (cases "push (take (unat (pkt_len p)) (data p)) (wscript st)")
  note E = enqueue_shape [OF s(1) True ip ps]
  have h1: "hp (after_push out k s st) = hp st" by (simp add: after_push_def)
  have nb: "stop \<noteq> Broken"
  proof
    assume "stop = Broken"
    with E(1) r have "seq (sock_close a (after_push out k s st)) (\<lambda>st. Inr (1, st)) = Inr (r, st')" by simp
    then have c: "sock_close a (after_push out k s st) = Inr st'" by (auto simp: seq_eq_Inr)
    have "closing s" using sock_close_closing [OF c _ s(2) s'(1)] h1 s(1) s'(2) by simp
    with True sinvD(3) [OF inv s(1)] show False by (simp add: sock_ok_def)
  qed
  with E(1) r s'(1) s(1) h1 True E(2,3) show ?thesis
    by (auto simp: hp_setk backlog_def after_push_def split: if_splits)
qed

lemma send_packet_written: "send_packet p t st = Inr st' \<Longrightarrow> written fd (effects st') = written fd (effects st)"
  by (auto simp: send_packet_def seq_eq_Inr split: option.splits if_splits)

lemma ready_of_peer_quiet:
  assumes "sock_ready q st = Inr st'" and "hp st q = Some t" and "\<not> listed t" and "sock_ok t"
  shows "written fd (effects st') = written fd (effects st) \<and> hp st' = hp st"
proof -
  have "ready_op t = RemoteReady \<or> ready_op t = SmartReady"
    using assms(3,4) by (auto simp: listed_def sock_ok_def ops_ok_def)
  with assms(1,2) show ?thesis
    by (auto simp: sock_ready_def sock_Some remote_socket_ready_def seq_eq_Inr dest: send_packet_written)
      (auto simp: send_packet_def seq_eq_Inr split: option.splits if_splits)
qed

text \<open>
  A writable event moves bytes from the queue of a local socket to its descriptor and
  changes nothing else about the stream: as long as the socket does not close, what was
  written followed by what is queued stays the same.
\<close>

theorem write_event_in_order:
  assumes inv: "sinv st" and s: "hp st a = Some s" "local_kind s"
    and r: "local_socket_write_event a st = Inr st'" and s': "hp st' a = Some s'" "closing s' = closing s"
  shows "written (write_fd s) (effects st') @ backlog s' = written (write_fd s) (effects st) @ backlog s"
proof -
  have ok: "sock_ok s" using sinvD(3) [OF inv s(1)] .
  then obtain out ps stop k where d: "drain_pkts (pkts s) (wscript st) = Inr (out, ps, stop, k)"
    "concat (map unsent (pkts s)) = out @ concat (map unsent ps)"
    using drain_pkts_safe [of "pkts s" "wscript st"] by (auto simp: sock_ok_def)
  define st1 where "st1 = emit (WriteFd (write_fd s) out) (st\<lparr>wscript := k\<rparr>)"
  have s1: "hp st1 a = Some s" and h1: "hp st1 = hp st" using s(1) by (simp_all add: st1_def)
  let ?s = "s\<lparr>pkts := ps\<rparr>"
  let ?st = "setk a (Some ?s) st1"
  have h: "hp ?st = (hp st)(a := Some ?s)" using s1 h1 by (simp add: hp_setk)
  have eq: "local_socket_write_event a st = (case stop of Again \<Rightarrow> Inr ?st | Broken \<Rightarrow> sock_close a ?st
      | Done \<Rightarrow> if closing s then sock_close a ?st
          else seq (ptr (peer s)) (\<lambda>q. sock_ready q (emit (FdOp (OpDel (fde_of a) 2)) ?st)))"
    using s(1) d(1) upd_Some [OF s1, of "\<lambda>s. s\<lparr>pkts := ps\<rparr>"]
    by (simp add: local_socket_write_event_def sock_Some flip: st1_def)
  have stay: False if "sock_close a ?st = Inr st'"
  proof (cases "closing s")
    case True
    from sock_closing_freed [OF inv s(1) True s(2) that h] s'(1) show False by simp
  next
    case False
    have "local_kind ?s" "hp ?st a = Some ?s" using s(2) h by (simp_all add: local_kind_def)
    from sock_close_closing [OF that this(2,1) s'(1)] s'(2) False show False by simp
  qed
  have fin: ?thesis if "hp st' a = Some ?s" "written (write_fd s) (effects st') = written (write_fd s) (effects ?st)"
    using that s'(1) d(2) by (simp add: backlog_def st1_def)
  show ?thesis
  proof (cases stop)
    case Again
    with eq r have "st' = ?st" by simp
    with h show ?thesis by (intro fin) simp_all
  next
    case Broken
    with eq r stay show ?thesis by simp
  next
    case Done
    with eq r stay have nc: "\<not> closing s" by auto
    with Done eq r obtain q where q: "peer s = Some q"
      "sock_ready q (emit (FdOp (OpDel (fde_of a) 2)) ?st) = Inr st'"
      by (cases "peer s") auto
    from inv s(1) q(1) obtain t where t: "hp st q = Some t" "q \<noteq> a" "listed s \<noteq> listed t"
      by (auto elim: peer_of)
    have "\<not> listed t" using t(3) s(2) by (auto simp: listed_def local_kind_def)
    from ready_of_peer_quiet [OF q(2) _ this sinvD(3) [OF inv t(1)], of "write_fd s"] t h show ?thesis
      by (intro fin) simp_all
  qed
qed

text \<open>An example: a socket with three bytes queued that is asked to take two more.\<close>

definition demo_bytes :: "byte list \<Rightarrow> apacket" where
  "demo_bytes bs = (get_apacket (bs @ replicate (MAX_PAYLOAD - length bs) 0))\<lparr>pkt_len := of_nat (length bs)\<rparr>"

definition busy_local :: asocket where
  "busy_local = demo_local\<lparr>pkts := [demo_bytes [1, 2, 3]]\<rparr>"

definition busy_world :: sworld where
  "busy_world = (setk 0 (Some busy_local) demo_world)\<lparr>wscript := [Room 2, WrErr EAGAIN]\<rparr>"

lemma demo_bytes_ok: "length bs \<le> MAX_PAYLOAD \<Longrightarrow> handed (demo_bytes bs) \<and> pkt_ok (demo_bytes bs)"
  using unat_u32 [of "length bs"]
  by (auto simp: demo_bytes_def handed_def pkt_ok_def wf_packet_def in_packet_def get_apacket_def MAX_PAYLOAD_def)

lemma busy_hp: "hp busy_world = (hp demo_world)(0 := Some busy_local)"
  by (simp add: busy_world_def hp_setk demo_hp)

lemma busy_inv: "sinv busy_world"
proof -
  let ?f = "\<lambda>s. s\<lparr>pkts := [demo_bytes [1, 2, 3]]\<rparr>"
  have "sock_ok (?f demo_local)"
    using demo_bytes_ok [of "[1, 2, 3]"]
    by (simp add: sock_ok_def demo_local_def zero_sock_def ops_ok_def local_kind_def MAX_PAYLOAD_def)
  from upd_inv(2) [where f = ?f, OF demo_inv _ this, of 0]
  have "sinv (setk 0 (Some busy_local) demo_world)" by (simp add: demo_hp busy_local_def)
  then show ?thesis unfolding busy_world_def by (rule quiet_inv [rotated]) simp
qed

lemma busy_local_facts: "hp busy_world 0 = Some busy_local" "local_kind busy_local" "write_fd busy_local = 7"
  "closing busy_local = False" "backlog busy_local = [1, 2, 3]" "pkts busy_local = [demo_bytes [1, 2, 3]]"
  "effects busy_world = []" "wscript busy_world = [Room 2, WrErr EAGAIN]"
proof -
  show "hp busy_world 0 = Some busy_local" by (simp add: busy_hp)
qed (simp_all add: busy_local_def demo_local_def zero_sock_def local_kind_def backlog_def demo_bytes_def
    unsent_def get_apacket_def busy_world_def demo_world_def start_world_def)

theorem local_enqueue_in_order_witness:
  "\<exists>r st' s'. local_socket_enqueue 0 (demo_bytes [4, 5]) busy_world = Inr (r, st') \<and> hp st' 0 = Some s' \<and>
    written 7 (effects st') @ backlog s' = [1, 2, 3, 4, 5]"
proof -
  let ?p = "(demo_bytes [4, 5])\<lparr>pkt_ptr := 0\<rparr>"
  let ?s = "busy_local\<lparr>pkts := pkts busy_local @ [?p]\<rparr>"
  let ?st = "emit (FdOp (OpAdd (fde_of 0) 2)) (setk 0 (Some ?s) busy_world)"
  have r: "local_socket_enqueue 0 (demo_bytes [4, 5]) busy_world = Inr (1, ?st)"
    by (simp add: local_socket_enqueue_def sock_Some busy_local_facts local_enqueue_tail_def
        upd_Some [OF busy_local_facts(1)])
  have h: "hp ?st 0 = Some ?s" by (simp add: hp_setk busy_local_facts)
  have c: "closing ?s = closing busy_local" by simp
  have len: "handed (demo_bytes [4, 5])" using demo_bytes_ok [of "[4, 5]"] by (simp add: MAX_PAYLOAD_def)
  have "take (unat (pkt_len (demo_bytes [4, 5]))) (data (demo_bytes [4, 5])) = [4, 5]"
    by (simp add: demo_bytes_def get_apacket_def)
  with local_enqueue_in_order [OF busy_inv busy_local_facts(1,2) len r h c] r h show ?thesis
    by (auto simp: busy_local_facts(3,5,7))
qed

theorem write_event_in_order_witness:
  "\<exists>st' s'. local_socket_write_event 0 busy_world = Inr st' \<and> hp st' 0 = Some s' \<and>
    written 7 (effects st') @ backlog s' = [1, 2, 3]"
proof -
  have u: "unsent (demo_bytes [1, 2, 3]) = [1, 2, 3]" "in_packet (demo_bytes [1, 2, 3])"
    by (simp_all add: demo_bytes_def unsent_def get_apacket_def in_packet_def)
  have d: "drain_pkts [demo_bytes [1, 2, 3]] [Room 2, WrErr EAGAIN] =
      Inr ([1, 2], [advance 2 (demo_bytes [1, 2, 3])], Again, [])"
    by (simp add: u push.simps numeral_2_eq_2)
  let ?s = "busy_local\<lparr>pkts := [advance 2 (demo_bytes [1, 2, 3])]\<rparr>"
  let ?st1 = "emit (WriteFd 7 [1, 2]) (busy_world\<lparr>wscript := []\<rparr>)"
  have s1: "hp ?st1 0 = Some busy_local" by (simp add: busy_local_facts)
  have r: "local_socket_write_event 0 busy_world = Inr (setk 0 (Some ?s) ?st1)"
    using d upd_Some [OF s1, of "\<lambda>s. s\<lparr>pkts := [advance 2 (demo_bytes [1, 2, 3])]\<rparr>"]
    by (simp add: local_socket_write_event_def sock_Some busy_local_facts)
  have h: "hp (setk 0 (Some ?s) ?st1) 0 = Some ?s" using s1 by (simp add: hp_setk)
  have c: "closing ?s = closing busy_local" by simp
  from write_event_in_order [OF busy_inv busy_local_facts(1,2) r h c] r h show ?thesis
    by (auto simp: busy_local_facts(3,5,7))
qed

section \<open>Length prefixes\<close>

lemma unhex_hex_digit: "n < 16 \<Longrightarrow> unhex_digit (hex_digit n) = Some (of_nat n)"
proof -
  assume "n < 16"
  then have "n \<in> set [0..<16]" by simp
  moreover have "\<forall>n \<in> set [0..<16]. unhex_digit (hex_digit n) = Some (of_nat n)" by code_simp
  ultimately show ?thesis by blast
qed

lemma nibbles: "n < 65536 \<Longrightarrow>
  push_bit 4 (push_bit 4 (push_bit 4 (of_nat (n div 4096 mod 16)) OR of_nat (n div 256 mod 16)) OR
    of_nat (n div 16 mod 16)) OR of_nat (n mod 16) = (of_nat n :: u32)"
proof -
  have or: "push_bit 4 m OR of_nat (k mod 16) = of_nat (16 * a + k mod 16)"
    if "m = of_nat a" for m :: u32 and a k
  proof -
    have "push_bit 4 m OR of_nat (k mod 16) = push_bit 4 m + (of_nat (k mod 16) :: u32)"
    proof (rule disjunctive_add [symmetric])
      fix i
      show "\<not> bit (push_bit 4 m) i \<or> \<not> bit (of_nat (k mod 16) :: u32) i"
      proof (cases "i < 4")
        case False
        have "k mod 16 = take_bit 4 k" by (simp add: take_bit_eq_mod)
        then have "\<not> bit (of_nat (k mod 16) :: u32) i"
          using False by (simp add: bit_of_nat_iff bit_take_bit_iff)
        then show ?thesis by blast
      qed (simp add: bit_push_bit_iff)
    qed
    also have "\<dots> = of_nat (16 * a + k mod 16)" by (simp add: that push_bit_eq_mult)
    finally show ?thesis .
  qed
  assume n: "n < 65536"
  have z: "of_nat (n div 4096 mod 16) = push_bit 4 0 OR (of_nat (n div 4096 mod 16) :: u32)" by simp
  have "push_bit 4 (push_bit 4 (push_bit 4 (of_nat (n div 4096 mod 16)) OR of_nat (n div 256 mod 16)) OR
    of_nat (n div 16 mod 16)) OR of_nat (n mod 16) =
    (of_nat (16 * (16 * (16 * (n div 4096 mod 16) + n div 256 mod 16) + n div 16 mod 16) + n mod 16) :: u32)"
    by (intro or [where k = n] or [where k = "n div 16"] or [where k = "n div 256"] refl)
  also have "16 * (16 * (16 * (n div 4096 mod 16) + n div 256 mod 16) + n div 16 mod 16) + n mod 16 = n"
  proof -
    have d: "n div 256 = n div 16 div 16" "n div 4096 = n div 256 div 16"
      using div_mult2_eq [of n 16 16] div_mult2_eq [of n 256 16] by simp_all
    have "n div 4096 mod 16 = n div 4096" using n by simp
    moreover have "16 * (n div 4096) + n div 256 mod 16 = n div 256" unfolding d(2) by simp
    moreover have "16 * (n div 256) + n div 16 mod 16 = n div 16" unfolding d(1) by simp
    moreover have "16 * (n div 16) + n mod 16 = n" by simp
    ultimately show ?thesis by metis
  qed
  finally show ?thesis .
qed

lemma unhex_hex4: "n < 65536 \<Longrightarrow> unhex (hex4 n @ rest) 4 = Inr (of_nat n)"
proof -
  assume "n < 65536"
  have "unhex (hex4 n @ rest) 4 = unhex_from (hex4 n @ rest) (Suc (Suc (Suc (Suc 0)))) 0"
    unfolding unhex_def by (rule arg_cong [where f = "\<lambda>l. unhex_from (hex4 n @ rest) l 0"]) simp
  also have "\<dots> = Inr (of_nat n)"
    using nibbles [OF \<open>n < 65536\<close>] by (simp add: hex4_def unhex_hex_digit del: unhex_digit.simps of_nat_mod)
  finally show ?thesis .
qed

text \<open>
  Both messages with a length in front, a refusal and the list of debuggable processes,
  announce the length of what follows: the four characters that \<open>snprintf("%04x")\<close> prints are
  read back by \<open>unhex\<close>, and a message never exceeds the buffer it is made for.
\<close>

theorem length_prefix_roundtrip:
  assumes "length reason \<le> 0xffff" and "4 < bufferlen" and "bufferlen \<le> 0x10000"
  shows "failmsg reason = bytes_of_str ''FAIL'' @ drop 4 (failmsg reason) \<and>
    unhex (drop 4 (failmsg reason)) 4 = Inr (of_nat (length reason)) \<and>
    drop 8 (failmsg reason) = bytes_of_str reason \<and>
    unhex (jdwp_process_list_msg pids bufferlen) 4 =
      Inr (of_nat (length (drop 4 (jdwp_process_list_msg pids bufferlen)))) \<and>
    length (jdwp_process_list_msg pids bufferlen) < bufferlen"
proof -
  have l4: "length (hex4 n) = 4" for n by (simp add: hex4_def)
  have f: "failmsg reason = bytes_of_str ''FAIL'' @ hex4 (length reason) @ bytes_of_str reason"
    using assms(1) by (simp add: failmsg_def Let_def)
  have d: "drop 4 (failmsg reason) = hex4 (length reason) @ bytes_of_str reason" by (simp add: f)
  have "drop 8 (failmsg reason) = bytes_of_str reason" by (simp add: f l4)
  moreover have "unhex (drop 4 (failmsg reason)) 4 = Inr (of_nat (length reason))"
    unfolding d by (rule unhex_hex4) (use assms(1) in simp)
  moreover have "length (jdwp_process_list pids (bufferlen - 4)) < bufferlen - 4"
    using assms(2) by (intro length_jdwp_process_list) simp
  then have "unhex (jdwp_process_list_msg pids bufferlen) 4 =
      Inr (of_nat (length (drop 4 (jdwp_process_list_msg pids bufferlen))))"
    using assms(3) unhex_hex4 [of "length (jdwp_process_list pids (bufferlen - 4))"]
    by (simp add: jdwp_process_list_msg_def Let_def l4)
  ultimately show ?thesis
    using length_jdwp_process_list_msg [OF assms(2), of pids] by (simp add: d f)
qed

theorem length_prefix_roundtrip_witness:
  "drop 8 (failmsg ''device offline (x)'') = bytes_of_str ''device offline (x)'' \<and>
   length (jdwp_process_list_msg [4660, -1, 7] 1024) < 1024"
  using length_prefix_roundtrip [of "''device offline (x)''" 1024 "[4660, -1, 7]"] by simp

section \<open>Two flaws\<close>

text \<open>
  C34: A client that waits for its connection has no peer. If the other side sends data for it
  before it confirms the connection and the client does not take the data at once, the data is
  queued; when the client becomes writable the handler calls \<open>s->peer->ready\<close> through the null
  pointer.
\<close>

theorem early_data_faults:
  assumes inv: "sinv st" and s: "hp st a = Some s" "close_op s = LocalCloseNotify" "pkts s = []"
    and p: "handed p" "0 < unat (pkt_len p)" and block: "wscript st = []"
  shows "\<exists>st1. sock_enqueue a p st = Inr (1, st1) \<and> sinv st1 \<and>
    local_socket_write_event a (st1\<lparr>wscript := [Room (unat (pkt_len p))]\<rparr>) = Inl (Fault NullDeref)"
proof -
  have ok: "sock_ok s" using sinvD(3) [OF inv s(1)] .
  with s have e: "enqueue_op s = LocalEnqueue" and pn: "peer s = None" and nc: "\<not> closing s"
    by (auto simp: sock_ok_def ops_ok_def)
  let ?p = "p\<lparr>pkt_ptr := 0\<rparr>"
  have ip: "in_packet ?p" using p by (auto simp: handed_def in_packet_def wf_packet_def)
  have ne: "unsent ?p \<noteq> []" using length_unsent [OF ip] p(2) by auto
  define st1 where "st1 = emit (WriteFd (write_fd s) []) (st\<lparr>wscript := []\<rparr>)"
  have s1: "hp st1 a = Some s" using s(1) by (simp add: st1_def)
  have i1: "sinv st1" by (rule quiet_inv [OF _ inv]) (simp add: st1_def quiet_def)
  have adv: "advance 0 ?p = ?p" by (simp add: advance_def)
  let ?s = "s\<lparr>pkts := [?p]\<rparr>"
  let ?st = "emit (FdOp (OpAdd (fde_of a) 2)) (setk a (Some ?s) st1)"
  have "pkt_len p \<noteq> 0" using p(2) by auto
  then have enq: "sock_enqueue a p st = Inr (1, ?st)"
    using s e ip ne block s1
    by (simp add: sock_enqueue_def sock_Some local_socket_enqueue_def push.simps Let_def st1_def [symmetric]
        adv local_enqueue_tail_def upd_Some)
  have "pkt_ok ?p" using ip p(1) by (simp add: pkt_ok_def handed_def)
  then have "safe_res (\<lambda>(r, st'). sinv st' \<and> r = 1) (local_enqueue_tail a ?p st1)"
    by (intro local_tail_safe [OF i1 s1]) (use s(2) in \<open>simp_all add: local_kind_def\<close>)
  then have i2: "sinv ?st" using s1 s(3) by (simp add: local_enqueue_tail_def upd_Some)
  let ?k = "[Room (unat (pkt_len p))]"
  have "push (unsent ?p) ?k = (unsent ?p, [], Done, [])"
    using ne length_unsent [OF ip] p(2) by (simp add: push.simps)
  then have d: "drain_pkts [?p] ?k = Inr (unsent ?p, [], Done, [])" using ip by simp
  have h2: "hp (?st\<lparr>wscript := ?k\<rparr>) a = Some ?s" using s1 by (simp add: hp_setk)
  have "local_socket_write_event a (?st\<lparr>wscript := ?k\<rparr>) = Inl (Fault NullDeref)"
    using d h2 pn nc by (simp add: local_socket_write_event_def sock_Some upd_Some)
  with enq i2 show ?thesis by blast
qed

definition waiting_world :: sworld where
  "waiting_world = start_world\<lparr>heap := [Some (demo_local\<lparr>peer := None, ready_op := LocalReadyNotify,
     close_op := LocalCloseNotify\<rparr>)], slist := [0], next_id := 2\<rparr>"

lemma waiting_inv: "sinv waiting_world"
  unfolding sinv_except_def
  by (auto simp: waiting_world_def hp_def start_world_def demo_local_def zero_sock_def sock_ok_def ops_ok_def
      local_kind_def listed_def peer_ok_def split: if_splits)

theorem early_data_faults_witness:
  "\<exists>st1. sock_enqueue 0 (demo_bytes [9]) waiting_world = Inr (1, st1) \<and>
    local_socket_write_event 0 (st1\<lparr>wscript := [Room 1]\<rparr>) = Inl (Fault NullDeref)"
proof -
  have "handed (demo_bytes [9])" using demo_bytes_ok [of "[9]"] by (simp add: MAX_PAYLOAD_def)
  moreover have "unat (pkt_len (demo_bytes [9])) = 1" by (simp add: demo_bytes_def)
  ultimately show ?thesis
    using early_data_faults [OF waiting_inv, of 0 "demo_local\<lparr>peer := None, ready_op := LocalReadyNotify,
      close_op := LocalCloseNotify\<rparr>" "demo_bytes [9]"]
    by (auto simp: waiting_world_def hp_def start_world_def demo_local_def zero_sock_def)
qed

text \<open>A \<open>track-jdwp\<close> socket and its remote peer.\<close>

definition tracker_sock :: asocket where
  "tracker_sock = zero_sock\<lparr>sid := 1, peer := Some 1, enqueue_op := TrackerEnqueue, ready_op := TrackerReady,
     close_op := TrackerClose\<rparr>"

definition tracker_world :: sworld where
  "tracker_world = demo_world\<lparr>heap := [Some tracker_sock, Some demo_remote], trackers := [0]\<rparr>"

lemma tracker_inv: "sinv tracker_world"
proof -
  have h: "hp tracker_world a = (if a = 0 then Some tracker_sock else if a = 1 then Some demo_remote else None)" for a
    by (simp add: hp_def tracker_world_def less_Suc_eq)
  have "peer_ok tracker_world 0 tracker_sock" "peer_ok tracker_world 1 demo_remote"
    by (simp_all add: peer_ok_def h tracker_sock_def demo_remote_def zero_sock_def listed_def)
  then have "\<forall>a s. hp tracker_world a = Some s \<longrightarrow> peer_ok tracker_world a s" by (simp add: h)
  then show ?thesis
    unfolding sinv_except_def
    by (auto simp: h) (auto simp: tracker_world_def demo_world_def start_world_def tracker_sock_def demo_remote_def
      zero_sock_def listed_def sock_ok_def ops_ok_def local_kind_def split: if_splits)
qed

text \<open>
  \<open>close_all_sockets\<close> closes every socket of a transport with
  \<open>local_socket_close_locked\<close>, whatever its kind. A \<open>track-jdwp\<close> socket is freed that way
  without leaving the list of trackers: there is a proper state in which closing the sockets
  of a transport succeeds and the next change of the process list uses freed memory.
\<close>

theorem tracker_dangles_after_close_all:
  "\<exists>st'. sinv tracker_world \<and> close_all_sockets 0 tracker_world = Inr st' \<and>
    jdwp_process_list_updated st' = Inl (Fault UseAfterFree)"
proof -
  have "\<exists>st'. run_close LocalClose 0 tracker_world = Inr st' \<and> slist st' = [] \<and> trackers st' = [0] \<and> hp st' 0 = None"
    by (simp add: tracker_world_def demo_world_def start_world_def tracker_sock_def demo_remote_def zero_sock_def
        sock_def upd_def send_packet_def command_packet_def get_apacket_def packet_seal_def zero_msg_def Let_def
        emit_def remove_disconnect_def free_sock_def close_rest_def local_socket_destroy_def remove_socket_def hp_def)
  then obtain st' where c: "run_close LocalClose 0 tracker_world = Inr st'"
    and st': "slist st' = []" "trackers st' = [0]" "hp st' 0 = None" by blast
  have "find_bound 0 (slist tracker_world) tracker_world = Inr (Some 0)"
    by (simp add: tracker_world_def demo_world_def start_world_def tracker_sock_def demo_remote_def zero_sock_def sock_def)
  then have "close_all_sockets 0 tracker_world = close_all_sockets 0 st'"
    using c by (simp add: close_all_sockets.simps [of 0 tracker_world] del: run_close.simps)
  also have "\<dots> = Inr st'" by (simp add: close_all_sockets.simps [of 0 st'] st'(1))
  finally have "close_all_sockets 0 tracker_world = Inr st'" .
  moreover have "jdwp_process_list_updated st' = Inl (Fault UseAfterFree)"
    by (simp add: jdwp_process_list_updated_def st' sock_hp)
  ultimately show ?thesis using tracker_inv by blast
qed

end
