(* ===== verification/Jdwp.thy ===== *)
theory Jdwp
  imports Socket_Safety
begin

text \<open>
  The control connections of debuggable processes (\<open>src/jdwp_service.c\<close>): a process connects
  to the control socket, tells its pid in four hexadecimal characters, and then receives a
  descriptor for every debugger that attaches. The sockets of the services \<open>jdwp\<close> and
  \<open>track-jdwp\<close> are in \<open>Sockets\<close>; here is the process list they read, and the descriptors
  that wait for a process.
\<close>

section \<open>State\<close>

definition MAX_OUT_FDS :: nat where "MAX_OUT_FDS = 4"

text \<open>
  \<open>struct JdwpProcess\<close>. A process is identified by the address \<open>jfde\<close> of its event;
  \<open>in_buff\<close> holds the \<open>in_len\<close> characters read so far.
\<close>

record jdwp_process =
  jpid :: int
  jsocket :: int
  jfde :: nat
  in_buff :: "byte list"
  out_fds :: "int list"
  out_count :: nat

record jworld =
  procs :: "jdwp_process list"
  next_fde :: nat
  listen_socket :: int
  jsw :: sworld

definition jemit :: "effect \<Rightarrow> jworld \<Rightarrow> jworld" where
  "jemit e w = w\<lparr>jsw := emit e (jsw w)\<rparr>"

text \<open>The process list is what the service sockets print.\<close>

definition set_procs :: "jdwp_process list \<Rightarrow> jworld \<Rightarrow> jworld" where
  "set_procs ps w = w\<lparr>procs := ps, jsw := (jsw w)\<lparr>jdwp_pids := map jpid ps\<rparr>\<rparr>"

definition proc_at :: "nat \<Rightarrow> jworld \<Rightarrow> jdwp_process res" where
  "proc_at a w =
     (case find (\<lambda>p. jfde p = a) (procs w) of None \<Rightarrow> Inl (Fault UseAfterFree) | Some p \<Rightarrow> Inr p)"

definition put_proc :: "jdwp_process \<Rightarrow> jworld \<Rightarrow> jworld" where
  "put_proc p w = set_procs (map (\<lambda>q. if jfde q = jfde p then p else q) (procs w)) w"

definition list_updated :: "jworld \<Rightarrow> jworld res" where
  "list_updated w = seq (jdwp_process_list_updated (jsw w)) (\<lambda>sw. Inr (w\<lparr>jsw := sw\<rparr>))"

section \<open>Processes come and go\<close>

definition jdwp_process_free :: "nat \<Rightarrow> jworld \<Rightarrow> jworld res" where
  "jdwp_process_free a w =
     seq (proc_at a w) (\<lambda>p.
     let w = set_procs (filter (\<lambda>q. jfde q \<noteq> a) (procs w)) w;
         w = (if jsocket p \<ge> 0 then jemit (CloseFd (jsocket p)) w else w);
         w = jemit (FdOp (OpDestroy a)) w;
         w = fold (\<lambda>fd. jemit (CloseFd fd)) (take (out_count p) (out_fds p)) w in
     list_updated w)"

text \<open>
  The code sets \<open>FDE_DONT_CLOSE\<close> in the state of the new event itself. In the \<open>select\<close> variant, which is
  compiled, \<open>fdevent_add\<close> with this flag does the same, because the flag selects none of the three sets; the \<open>epoll\<close> variant would
  differ (\<open>Polling\<close>). Memory for the process is granted.
\<close>

definition jdwp_process_alloc :: "int \<Rightarrow> jworld \<Rightarrow> jworld" where
  "jdwp_process_alloc fd w =
     (let a = next_fde w;
          p = \<lparr>jpid = -1, jsocket = fd, jfde = a, in_buff = [], out_fds = replicate MAX_OUT_FDS 0,
            out_count = 0\<rparr>;
          w = jemit (FdOp (OpCreate a fd jdwp_process_event a)) w;
          w = jemit (FdOp (OpAdd a (ucast FDE_DONT_CLOSE))) w;
          w = set_procs (procs w @ [p]) (w\<lparr>next_fde := a + 1\<rparr>) in
      jemit (FdOp (OpAdd a (ucast FDE_READ))) w)"

section \<open>Reading the pid\<close>

text \<open>\<open>sscanf(temp, "%04x", &pid)\<close>: blanks, a sign, \<open>0x\<close>, then digits.\<close>

fun scan_digits :: "byte list \<Rightarrow> nat \<Rightarrow> nat" where
  "scan_digits [] n = n"
| "scan_digits (c # s) n =
     (case unhex_digit c of None \<Rightarrow> n | Some d \<Rightarrow> scan_digits s (16 * n + unat d))"

fun scan_unsigned :: "byte list \<Rightarrow> nat option" where
  "scan_unsigned (z # x # s) =
     (if z = 48 \<and> (x = 120 \<or> x = 88) then
        (case s of
           [] \<Rightarrow> None
         | d # _ \<Rightarrow> if unhex_digit d = None then None else Some (scan_digits s 0))
      else if unhex_digit z = None then None else Some (scan_digits (z # x # s) 0))"
| "scan_unsigned [z] = (if unhex_digit z = None then None else Some (scan_digits [z] 0))"
| "scan_unsigned [] = None"

definition scan_pid :: "byte list \<Rightarrow> int option" where
  "scan_pid temp =
     (case dropWhile is_space (takeWhile (\<lambda>b. b \<noteq> 0) temp) of
        [] \<Rightarrow> None
      | c # s \<Rightarrow>
          if c = 45 then map_option (\<lambda>n. - int n) (scan_unsigned s)
          else if c = 43 then map_option int (scan_unsigned s)
          else map_option int (scan_unsigned (c # s)))"

datatype pidstop = Complete | Wait | Gone

text \<open>
  The loop around \<open>recv\<close>, which repeats the call on \<open>EINTR\<close> as \<open>adb_read\<close> does. The socket
  does not block: when the answers are used up, the next call fails with \<open>EAGAIN\<close>.
\<close>

function recv_pid :: "byte list \<Rightarrow> rd_answer list \<Rightarrow> byte list \<times> pidstop \<times> rd_answer list" where
  "recv_pid buf k =
     (if length buf \<ge> 4 then (buf, Complete, k)
      else case adb_read (4 - length buf) k of
        None \<Rightarrow> (buf, Wait, [])
      | Some (Failed e, k') \<Rightarrow> (buf, if e = EAGAIN then Wait else Gone, k')
      | Some (Got bs, k') \<Rightarrow> if bs = [] then (buf, Gone, k') else recv_pid (buf @ bs) k')"
  by pat_completeness auto
termination
  by (relation "measure (\<lambda>(buf, k). 4 - length buf)") (auto simp: length_greater_0_conv [symmetric] simp del: length_greater_0_conv)

declare recv_pid.simps [simp del]

fun weight :: "rd_answer list \<Rightarrow> nat" where
  "weight [] = 0"
| "weight (Chunk bs # k) = Suc (length bs) + weight k"
| "weight (RdErr e # k) = Suc (weight k)"

lemma adb_read_weight:
  "adb_read n k = Some (Got bs, k') \<Longrightarrow> bs \<noteq> [] \<Longrightarrow> weight k' < weight k"
  by (induction n k rule: adb_read.induct) (auto split: if_splits)

text \<open>Once the pid is known, input is dropped; the result says whether the connection ended.\<close>

function recv_rest :: "rd_answer list \<Rightarrow> bool" where
  "recv_rest k =
     (case adb_read 32 k of
        None \<Rightarrow> False
      | Some (Failed e, k') \<Rightarrow> e \<noteq> EAGAIN
      | Some (Got bs, k') \<Rightarrow> if bs = [] then True else recv_rest k')"
  by pat_completeness auto
termination
  by (relation "measure weight") (auto dest: adb_read_weight)

declare recv_rest.simps [simp del]

section \<open>Events of a process\<close>

text \<open>The half of \<open>jdwp_process_event\<close> for \<open>FDE_READ\<close>; the flag says whether it goes on.\<close>

definition jdwp_read_event :: "rd_answer list \<Rightarrow> nat \<Rightarrow> jworld \<Rightarrow> (bool \<times> jworld) res" where
  "jdwp_read_event k a w =
     seq (proc_at a w) (\<lambda>p.
     if jpid p < 0 then
       (case recv_pid (in_buff p) k of (buf, stop, k') \<Rightarrow>
        let p = p\<lparr>in_buff := buf\<rparr> in
        case stop of
          Wait \<Rightarrow> Inr (False, put_proc p w)
        | Gone \<Rightarrow> seq (jdwp_process_free a (put_proc p w)) (\<lambda>w. Inr (False, w))
        | Complete \<Rightarrow>
            (case scan_pid buf of
               None \<Rightarrow> seq (jdwp_process_free a (put_proc p w)) (\<lambda>w. Inr (False, w))
             | Some pid \<Rightarrow>
                 seq (list_updated (put_proc (p\<lparr>jpid := pid\<rparr>) w)) (\<lambda>w. Inr (True, w))))
     else if recv_rest k then seq (jdwp_process_free a w) (\<lambda>w. Inr (False, w))
     else Inr (False, w))"

text \<open>
  The answers while a descriptor is sent: \<open>F_GETFL\<close>, \<open>F_SETFL\<close>, \<open>sendmsg\<close> (repeated on
  \<open>EINTR\<close>), and the second \<open>F_SETFL\<close>.
\<close>

record send_answers =
  getfl_ok :: bool
  setfl_ok :: bool
  sent_ok :: bool
  reset_ok :: bool

text \<open>\<open>for(n = 1; n < out_count; n++) out_fds[n - 1] = out_fds[n];\<close>\<close>

definition shift_fds :: "nat \<Rightarrow> int list \<Rightarrow> int list" where
  "shift_fds count fds = take (count - 1) (tl fds) @ drop (count - 1) fds"

definition jdwp_write_event :: "send_answers \<Rightarrow> nat \<Rightarrow> jworld \<Rightarrow> jworld res" where
  "jdwp_write_event ans a w =
     seq (proc_at a w) (\<lambda>p.
     if out_count p = 0 then Inr w
     else if out_fds p = [] then Inl (Fault OutOfBounds)
     else
       let fd = hd (out_fds p) in
       if \<not> getfl_ok ans \<or> \<not> setfl_ok ans \<or> \<not> sent_ok ans then jdwp_process_free a w
       else
         let w = jemit (CloseFd fd) (jemit (SendFd (jsocket p) fd) w);
             p = p\<lparr>out_fds := shift_fds (out_count p) (out_fds p)\<rparr>;
             w = put_proc p w in
         if \<not> reset_ok ans then jdwp_process_free a w
         else
           let p = p\<lparr>out_count := out_count p - 1\<rparr>; w = put_proc p w in
           Inr (if out_count p = 0 then jemit (FdOp (OpDel a (ucast FDE_WRITE))) w else w))"

definition jdwp_process_event :: "u16 \<Rightarrow> rd_answer list \<Rightarrow> send_answers \<Rightarrow> nat \<Rightarrow> jworld \<Rightarrow> jworld res" where
  "jdwp_process_event ev k ans a w =
     seq (if ev AND FDE_READ \<noteq> 0 then jdwp_read_event k a w else Inr (True, w)) (\<lambda>(go_on, w).
     if go_on \<and> ev AND FDE_WRITE \<noteq> 0 then jdwp_write_event ans a w else Inr w)"

section \<open>Debuggers attach\<close>

text \<open>The result is the descriptor or -1; \<open>fds\<close> is what \<open>adb_socketpair\<close> gives.\<close>

definition create_jdwp_connection_fd :: "(int \<times> int) option \<Rightarrow> int \<Rightarrow> jworld \<Rightarrow> (int \<times> jworld) res" where
  "create_jdwp_connection_fd fds pid w =
     (case find (\<lambda>p. jpid p = pid) (procs w) of
        None \<Rightarrow> Inr (-1, w)
      | Some p \<Rightarrow>
          if out_count p \<ge> MAX_OUT_FDS then Inr (-1, w)
          else case fds of
            None \<Rightarrow> Inr (-1, w)
          | Some (fd0, fd1) \<Rightarrow>
              if out_count p \<ge> length (out_fds p) then Inl (Fault OutOfBounds)
              else
                let w = put_proc (p\<lparr>out_fds := (out_fds p)[out_count p := fd1],
                      out_count := out_count p + 1\<rparr>) w in
                Inr (fd0, if out_count p = 0 then jemit (FdOp (OpAdd (jfde p) (ucast FDE_WRITE))) w else w))"

section \<open>The control socket\<close>

text \<open>\<open>accept\<close> is repeated on \<open>EINTR\<close>; the list holds its answers.\<close>

fun jdwp_accept :: "(errno + int) list \<Rightarrow> int option" where
  "jdwp_accept [] = None"
| "jdwp_accept (Inl e # k) = (if e = EINTR then jdwp_accept k else None)"
| "jdwp_accept (Inr s # k) = Some s"

definition jdwp_control_event :: "u16 \<Rightarrow> (errno + int) list \<Rightarrow> jworld \<Rightarrow> jworld" where
  "jdwp_control_event ev k w =
     (if ev AND FDE_READ \<noteq> 0 then
        (case jdwp_accept k of None \<Rightarrow> w | Some s \<Rightarrow> jdwp_process_alloc s w)
      else w)"

text \<open>\<open>s\<close> is the result of \<open>socket\<close>; the flags are the successes of \<open>bind\<close> and \<open>listen\<close>.\<close>

definition jdwp_control_init :: "nat \<Rightarrow> int \<Rightarrow> bool \<Rightarrow> bool \<Rightarrow> jworld \<Rightarrow> int \<times> jworld" where
  "jdwp_control_init socknamelen s bind_ok listen_ok w =
     (if socknamelen \<ge> 108 then (-1, w)
      else if s < 0 then (-1, w)
      else if \<not> bind_ok \<or> \<not> listen_ok then (-1, jemit (CloseFd s) w)
      else
        let a = next_fde w;
            w = w\<lparr>listen_socket := s, next_fde := a + 1\<rparr>;
            w = jemit (FdOp (OpCreate a s fd_func.jdwp_control_event a)) w in
        (0, jemit (FdOp (OpAdd a (ucast FDE_READ))) w))"

definition init_jdwp :: "int \<Rightarrow> bool \<Rightarrow> bool \<Rightarrow> jworld \<Rightarrow> int \<times> jworld" where
  "init_jdwp s bind_ok listen_ok w =
     (let w = set_procs [] (w\<lparr>jsw := (jsw w)\<lparr>trackers := []\<rparr>\<rparr>) in
      jdwp_control_init 13 s bind_ok listen_ok w)"

section \<open>The invariant\<close>

definition proc_ok :: "jdwp_process \<Rightarrow> bool" where
  "proc_ok p \<longleftrightarrow> length (out_fds p) = MAX_OUT_FDS \<and> out_count p \<le> MAX_OUT_FDS \<and> length (in_buff p) \<le> 4"

definition jinv :: "jworld \<Rightarrow> bool" where
  "jinv w \<longleftrightarrow> sinv (jsw w) \<and> jdwp_pids (jsw w) = map jpid (procs w) \<and> distinct (map jfde (procs w)) \<and>
     (\<forall>p \<in> set (procs w). proc_ok p \<and> jfde p < next_fde w)"

lemma jinvD:
  assumes "jinv w"
  shows "sinv (jsw w)" "jdwp_pids (jsw w) = map jpid (procs w)" "distinct (map jfde (procs w))"
    "p \<in> set (procs w) \<Longrightarrow> proc_ok p" "p \<in> set (procs w) \<Longrightarrow> jfde p < next_fde w"
  using assms by (auto simp: jinv_def)

lemma sinv_pids [simp]: "sinv_except X (st\<lparr>jdwp_pids := ps\<rparr>) = sinv_except X st"
  by (rule sinv_frame) (simp_all add: hp_def fun_eq_iff)

lemma jemit_fields [simp]:
  "procs (jemit e w) = procs w" "next_fde (jemit e w) = next_fde w"
  "listen_socket (jemit e w) = listen_socket w" "jsw (jemit e w) = emit e (jsw w)"
  by (simp_all add: jemit_def)

lemma jinv_jemit [simp]: "jinv (jemit e w) = jinv w"
  by (simp add: jinv_def)

lemma jinv_fold_jemit [simp]: "jinv (fold (\<lambda>fd. jemit (f fd)) fds w) = jinv w"
  "procs (fold (\<lambda>fd. jemit (f fd)) fds w) = procs w"
  by (induction fds arbitrary: w) simp_all

lemma set_procs_fields [simp]:
  "procs (set_procs ps w) = ps" "next_fde (set_procs ps w) = next_fde w"
  "jsw (set_procs ps w) = (jsw w)\<lparr>jdwp_pids := map jpid ps\<rparr>"
  by (simp_all add: set_procs_def)

lemma jinv_set_procs:
  "jinv w \<Longrightarrow> distinct (map jfde ps) \<Longrightarrow> (\<And>p. p \<in> set ps \<Longrightarrow> proc_ok p \<and> jfde p < next_fde w) \<Longrightarrow>
   jinv (set_procs ps w)"
  by (simp add: jinv_def)

lemma find_jfde:
  assumes "distinct (map jfde ps)" and "p \<in> set ps"
  shows "find (\<lambda>q. jfde q = jfde p) ps = Some p"
  using assms by (induction ps) auto

lemma proc_at_Inr: "proc_at a w = Inr p \<Longrightarrow> p \<in> set (procs w) \<and> jfde p = a"
  by (auto simp: proc_at_def find_Some_iff in_set_conv_nth split: option.splits)

lemma proc_at_mem: "jinv w \<Longrightarrow> p \<in> set (procs w) \<Longrightarrow> proc_at (jfde p) w = Inr p"
  using find_jfde [of "procs w" p] by (simp add: proc_at_def jinv_def)

lemma proc_at_jemit [simp]: "proc_at a (jemit e w) = proc_at a w"
  by (simp add: proc_at_def)

lemma put_proc_jfdes: "map jfde (procs (put_proc p w)) = map jfde (procs w)"
  by (simp add: put_proc_def)

lemma jinv_put_proc:
  assumes "jinv w" and "proc_ok p"
  shows "jinv (put_proc p w)"
  unfolding put_proc_def
proof (rule jinv_set_procs [OF assms(1)])
  show "distinct (map jfde (map (\<lambda>q. if jfde q = jfde p then p else q) (procs w)))"
    using put_proc_jfdes [of p w] jinvD(3) [OF assms(1)]
    unfolding put_proc_def set_procs_fields by metis
  show "proc_ok q \<and> jfde q < next_fde w"
    if "q \<in> set (map (\<lambda>q. if jfde q = jfde p then p else q) (procs w))" for q
    using that assms(2) jinvD(4,5) [OF assms(1)] by (auto split: if_splits) metis
qed

lemma proc_at_put_proc:
  assumes "proc_at (jfde p) w = Inr q"
  shows "proc_at (jfde p) (put_proc p w) = Inr p"
proof -
  have "find (\<lambda>r. jfde r = jfde p) (map (\<lambda>q. if jfde q = jfde p then p else q) ps) = Some p"
    if "find (\<lambda>r. jfde r = jfde p) ps = Some q" for ps
    using that by (induction ps) (auto split: if_splits)
  with assms show ?thesis
    by (auto simp: proc_at_def put_proc_def split: option.splits)
qed

section \<open>Every tracker is told\<close>

lemma update_trackers_safe:
  assumes "sinv st" and "set as \<subseteq> set (trackers st)"
  shows "safe_res (quiet st) (update_trackers as st)"
  using assms
proof (induction as arbitrary: st)
  case (Cons a as)
  from Cons.prems sinvD(6) [OF Cons.prems(1), of a] obtain s where
    s: "hp st a = Some s" "close_op s = TrackerClose" by auto
  have "update_trackers (a # as) st =
      seq (seq (list_packet (jdwp_process_list_msg (jdwp_pids st) 1024) st) (\<lambda>p. seq (ptr (peer s)) (\<lambda>q.
        sock_enqueue q p st))) (\<lambda>x. update_trackers as (snd x))"
    using s by (simp add: sock_Some seq_assoc seq_pair_snd)
  also have "safe_res (quiet st) \<dots>"
  proof (rule safe_res_seq [OF jdwp_send_safe [OF Cons.prems(1) s(1)]])
    fix x :: "int \<times> sworld"
    assume "case x of (r, st') \<Rightarrow> quiet st st'"
    then have q: "quiet st (snd x)" by (cases x) simp
    have "safe_res (quiet (snd x)) (update_trackers as (snd x))"
    proof (rule Cons.IH [OF quiet_inv [OF q Cons.prems(1)]])
      show "set as \<subseteq> set (trackers (snd x))" using Cons.prems(2) q by (simp add: quiet_def)
    qed
    then show "safe_res (quiet st) (update_trackers as (snd x))"
      by (rule safe_res_mono) (use q quiet_trans in blast)
  qed (use s(2) process_list_fits(3) in auto)
  finally show ?case .
qed simp

lemma list_updated_safe:
  assumes "jinv w"
  shows "safe_res (\<lambda>w'. jinv w' \<and> procs w' = procs w \<and> next_fde w' = next_fde w) (list_updated w)"
proof -
  have "safe_res (quiet (jsw w)) (update_trackers (trackers (jsw w)) (jsw w))"
    using jinvD(1) [OF assms] by (rule update_trackers_safe) simp
  then show ?thesis
    unfolding list_updated_def jdwp_process_list_updated_def
    by (rule safe_res_seq)
      (use assms quiet_inv [of "jsw w" _ "{}"] in \<open>auto simp: jinv_def quiet_def\<close>)
qed

section \<open>Operations keep the invariant\<close>

lemma jdwp_process_free_safe:
  assumes inv: "jinv w" and p: "p \<in> set (procs w)"
  shows "safe_res (\<lambda>w'. jinv w' \<and> procs w' = filter (\<lambda>q. jfde q \<noteq> jfde p) (procs w))
    (jdwp_process_free (jfde p) w)"
proof -
  have "jinv (set_procs (filter (\<lambda>q. jfde q \<noteq> jfde p) (procs w)) w)"
    by (rule jinv_set_procs [OF inv]) (use jinvD(3,4,5) [OF inv] in \<open>auto simp: distinct_map_filter\<close>)
  then show ?thesis
    unfolding jdwp_process_free_def
    by (auto simp: proc_at_mem [OF inv p] Let_def intro!: safe_res_mono [OF list_updated_safe])
qed

lemma jdwp_process_alloc_inv: "jinv w \<Longrightarrow> jinv (jdwp_process_alloc fd w)"
  by (auto simp: jdwp_process_alloc_def Let_def jinv_def proc_ok_def MAX_OUT_FDS_def)

lemma recv_pid_length: "recv_pid buf k = (buf', stop, k') \<Longrightarrow> length buf \<le> 4 \<Longrightarrow> length buf' \<le> 4"
proof (induction buf k arbitrary: buf' stop k' rule: recv_pid.induct)
  case (1 buf k)
  then show ?case
    using adb_read_progress [of "4 - length buf" k]
    by (subst (asm) recv_pid.simps) (auto split: if_splits option.splits sysret.splits)
qed

lemma free_after_put:
  assumes inv: "jinv w" and p: "p \<in> set (procs w)" and q: "proc_ok q" "jfde q = jfde p"
  shows "safe_res jinv (jdwp_process_free (jfde p) (put_proc q w))"
proof -
  have "q \<in> set (procs (put_proc q w))" using p q(2) by (auto simp: put_proc_def)
  from jdwp_process_free_safe [OF jinv_put_proc [OF inv q(1)] this] show ?thesis
    by (auto simp: q(2) elim: safe_res_mono)
qed

lemma jdwp_read_event_safe:
  assumes inv: "jinv w" and p: "p \<in> set (procs w)"
  shows "safe_res (\<lambda>(go_on, w'). jinv w' \<and> (go_on \<longrightarrow> (\<exists>q \<in> set (procs w'). jfde q = jfde p)))
    (jdwp_read_event k (jfde p) w)"
proof (cases "jpid p < 0")
  case False
  have "safe_res (\<lambda>(go_on, w'). jinv w' \<and> \<not> go_on) (seq (jdwp_process_free (jfde p) w) (\<lambda>w. Inr (False, w)))"
    by (rule safe_res_seq [OF jdwp_process_free_safe [OF inv p]]) simp
  with False inv show ?thesis
    by (auto simp: jdwp_read_event_def proc_at_mem [OF inv p] elim!: safe_res_mono)
next
  case True
  obtain buf stop k' where r: "recv_pid (in_buff p) k = (buf, stop, k')"
    by (cases "recv_pid (in_buff p) k")
  let ?p = "p\<lparr>in_buff := buf\<rparr>"
  have ok: "proc_ok ?p" "proc_ok (?p\<lparr>jpid := n\<rparr>)" for n
    using recv_pid_length [OF r] jinvD(4) [OF inv p] by (auto simp: proc_ok_def)
  have free: "safe_res (\<lambda>(go_on, w'). jinv w' \<and> \<not> go_on)
      (seq (jdwp_process_free (jfde p) (put_proc ?p w)) (\<lambda>w. Inr (False, w)))"
    by (rule safe_res_seq [OF free_after_put [OF inv p ok(1)]]) simp_all
  have upd: "safe_res (\<lambda>(go_on, w'). jinv w' \<and> (\<exists>q \<in> set (procs w'). jfde q = jfde p))
      (seq (list_updated (put_proc (?p\<lparr>jpid := n\<rparr>) w)) (\<lambda>w. Inr (True, w)))" for n
  proof (rule safe_res_seq [OF list_updated_safe [OF jinv_put_proc [OF inv ok(2)]]])
    fix w'
    assume "jinv w' \<and> procs w' = procs (put_proc (?p\<lparr>jpid := n\<rparr>) w) \<and>
      next_fde w' = next_fde (put_proc (?p\<lparr>jpid := n\<rparr>) w)"
    moreover have "jfde p \<in> set (map jfde (procs (put_proc (?p\<lparr>jpid := n\<rparr>) w)))"
      using put_proc_jfdes [of "?p\<lparr>jpid := n\<rparr>" w] p by simp
    ultimately show "safe_res (\<lambda>(go_on, w'). jinv w' \<and> (\<exists>q \<in> set (procs w'). jfde q = jfde p)) (Inr (True, w'))"
      by auto
  qed
  show ?thesis
  proof (cases stop)
    case Complete
    show ?thesis
    proof (cases "scan_pid buf")
      case None
      with True r Complete free show ?thesis
        by (auto simp: jdwp_read_event_def proc_at_mem [OF inv p] Let_def elim!: safe_res_mono)
    next
      case (Some n)
      with True r Complete safe_res_mono [OF upd [of n]] show ?thesis
        by (auto simp: jdwp_read_event_def proc_at_mem [OF inv p] Let_def)
    qed
  next
    case Wait
    with True r jinv_put_proc [OF inv ok(1)] show ?thesis
      by (simp add: jdwp_read_event_def proc_at_mem [OF inv p] Let_def)
  next
    case Gone
    with True r free show ?thesis
      by (auto simp: jdwp_read_event_def proc_at_mem [OF inv p] Let_def elim!: safe_res_mono)
  qed
qed

lemma proc_ok_shift:
  "proc_ok p \<Longrightarrow> proc_ok (p\<lparr>out_fds := shift_fds (out_count p) (out_fds p)\<rparr>)"
  by (auto simp: proc_ok_def shift_fds_def MAX_OUT_FDS_def)

lemma jdwp_write_event_safe:
  assumes inv: "jinv w" and p: "p \<in> set (procs w)"
  shows "safe_res jinv (jdwp_write_event ans (jfde p) w)"
proof -
  have ok: "proc_ok p" using jinvD(4) [OF inv p] .
  then have ne: "out_fds p \<noteq> []" by (auto simp: proc_ok_def MAX_OUT_FDS_def)
  define w1 where "w1 = jemit (CloseFd (hd (out_fds p))) (jemit (SendFd (jsocket p) (hd (out_fds p))) w)"
  have i1: "jinv w1" and p1: "p \<in> set (procs w1)" using inv p by (simp_all add: w1_def)
  let ?p = "p\<lparr>out_fds := shift_fds (out_count p) (out_fds p)\<rparr>"
  have okp: "proc_ok ?p" using proc_ok_shift [OF ok] .
  have f1: "safe_res jinv (jdwp_process_free (jfde p) w)"
    using jdwp_process_free_safe [OF inv p] by (auto elim: safe_res_mono)
  have f2: "safe_res jinv (jdwp_process_free (jfde p) (put_proc ?p w1))"
    by (rule free_after_put [OF i1 p1 okp]) simp
  have "jinv (put_proc (?p\<lparr>out_count := n\<rparr>) (put_proc ?p w1))" if "n \<le> out_count p" for n
    using that okp by (intro jinv_put_proc i1 okp) (simp add: proc_ok_def)
  with f1 f2 inv ne show ?thesis
    by (simp add: jdwp_write_event_def proc_at_mem [OF inv p] Let_def w1_def [symmetric])
qed

text \<open>
  C33: An event on a process connection is handled without a fault, whatever the process sends
  and whichever system call fails: the four characters of the pid and the four slots for
  descriptors are never exceeded, no freed process is touched, and the invariant holds
  afterwards.
\<close>

theorem jdwp_process_event_safe:
  assumes "jinv w" and "p \<in> set (procs w)"
  shows "safe_res jinv (Jdwp.jdwp_process_event ev k ans (jfde p) w)"
proof -
  have "safe_res (\<lambda>(go_on, w'). jinv w' \<and> (go_on \<longrightarrow> (\<exists>q \<in> set (procs w'). jfde q = jfde p)))
      (if ev AND FDE_READ \<noteq> 0 then jdwp_read_event k (jfde p) w else Inr (True, w))"
    using jdwp_read_event_safe [OF assms] assms by auto
  then show ?thesis
    unfolding Jdwp.jdwp_process_event_def
  proof (rule safe_res_seq)
    fix x :: "bool \<times> jworld"
    assume "case x of (go_on, w') \<Rightarrow> jinv w' \<and> (go_on \<longrightarrow> (\<exists>q \<in> set (procs w'). jfde q = jfde p))"
    then show "safe_res jinv (case x of (go_on, w) \<Rightarrow>
        if go_on \<and> ev AND FDE_WRITE \<noteq> 0 then jdwp_write_event ans (jfde p) w else Inr w)"
      using jdwp_write_event_safe [of "snd x" _ ans] by (cases x) (auto, metis+)
  qed
qed

section \<open>Descriptors for a process\<close>

text \<open>The descriptors that wait for a process, in the order in which debuggers attached.\<close>

definition waiting :: "nat \<Rightarrow> jworld \<Rightarrow> int list" where
  "waiting a w =
     (case find (\<lambda>p. jfde p = a) (procs w) of None \<Rightarrow> [] | Some p \<Rightarrow> take (out_count p) (out_fds p))"

lemma waiting_proc_at: "proc_at a w = Inr p \<Longrightarrow> waiting a w = take (out_count p) (out_fds p)"
  by (simp add: waiting_def proc_at_def split: option.splits)

lemma waiting_jemit [simp]: "waiting a (jemit e w) = waiting a w"
  by (simp add: waiting_def)

lemma waiting_put_proc:
  "proc_at (jfde p) w = Inr q \<Longrightarrow> waiting (jfde p) (put_proc p w) = take (out_count p) (out_fds p)"
  by (rule waiting_proc_at) (rule proc_at_put_proc)

lemma effects_put_proc [simp]: "effects (jsw (put_proc p w)) = effects (jsw w)"
  by (simp add: put_proc_def)

lemma attach_queues:
  assumes inv: "jinv w" and f: "find (\<lambda>p. jpid p = pid) (procs w) = Some p"
    and room: "length (waiting (jfde p) w) < MAX_OUT_FDS"
  shows "\<exists>w'. create_jdwp_connection_fd (Some (fd0, fd1)) pid w = Inr (fd0, w') \<and> jinv w' \<and>
    waiting (jfde p) w' = waiting (jfde p) w @ [fd1]"
proof -
  from f have p: "p \<in> set (procs w)" by (auto simp: find_Some_iff)
  note at = proc_at_mem [OF inv p]
  have ok: "proc_ok p" using jinvD(4) [OF inv p] .
  with room waiting_proc_at [OF at] have c: "out_count p < MAX_OUT_FDS" by (simp add: proc_ok_def)
  let ?p = "p\<lparr>out_fds := (out_fds p)[out_count p := fd1], out_count := out_count p + 1\<rparr>"
  have okp: "proc_ok ?p" using ok c by (simp add: proc_ok_def)
  have "proc_at (jfde ?p) w = Inr p" using at by simp
  from waiting_put_proc [OF this] have "waiting (jfde p) (put_proc ?p w) = waiting (jfde p) w @ [fd1]"
    using c ok waiting_proc_at [OF at] by (simp add: proc_ok_def take_Suc_conv_app_nth)
  then show ?thesis
    using f c ok jinv_put_proc [OF inv okp] unfolding create_jdwp_connection_fd_def
    by (cases "out_count p = 0") (simp_all add: Let_def proc_ok_def)
qed

lemma write_sends:
  assumes inv: "jinv w" and p: "p \<in> set (procs w)" and q: "waiting (jfde p) w = fd # fds"
    and ans: "getfl_ok ans" "setfl_ok ans" "sent_ok ans" "reset_ok ans"
  shows "\<exists>w'. jdwp_write_event ans (jfde p) w = Inr w' \<and> jinv w' \<and> waiting (jfde p) w' = fds \<and>
    prefix (effects (jsw w) @ [SendFd (jsocket p) fd, CloseFd fd]) (effects (jsw w'))"
proof -
  note at = proc_at_mem [OF inv p]
  have ok: "proc_ok p" using jinvD(4) [OF inv p] .
  from q waiting_proc_at [OF at] have t: "take (out_count p) (out_fds p) = fd # fds" by simp
  then obtain rest where r: "out_fds p = fd # rest"
    by (cases "out_fds p"; cases "out_count p") auto
  from t obtain n where n: "out_count p = Suc n" by (cases "out_count p") auto
  let ?w1 = "jemit (CloseFd fd) (jemit (SendFd (jsocket p) fd) w)"
  let ?p = "p\<lparr>out_fds := shift_fds (out_count p) (out_fds p)\<rparr>"
  let ?q = "?p\<lparr>out_count := n\<rparr>"
  have okp: "proc_ok ?p" using proc_ok_shift [OF ok] .
  have okq: "proc_ok ?q" using okp n by (simp add: proc_ok_def)
  have i: "jinv (put_proc ?q (put_proc ?p ?w1))"
    by (intro jinv_put_proc okp okq) (simp add: inv)
  have "proc_at (jfde ?p) ?w1 = Inr p" using at by simp
  from proc_at_put_proc [OF this] have a1: "proc_at (jfde ?q) (put_proc ?p ?w1) = Inr ?p" by simp
  have "waiting (jfde p) (put_proc ?q (put_proc ?p ?w1)) = fds"
    using waiting_put_proc [OF a1] t r n ok by (simp add: shift_fds_def proc_ok_def MAX_OUT_FDS_def)
  moreover have "jdwp_write_event ans (jfde p) w =
      Inr (if n = 0 then jemit (FdOp (OpDel (jfde p) (ucast FDE_WRITE))) (put_proc ?q (put_proc ?p ?w1))
        else put_proc ?q (put_proc ?p ?w1))"
    using at n r ans by (simp add: jdwp_write_event_def Let_def)
  ultimately show ?thesis
    using i by (cases "n = 0") simp_all
qed

text \<open>
  The descriptors for a process are a queue of at most four: attaching a debugger appends
  the far end of the new pair to it, and a writable event sends the first one to the process,
  closes it here and leaves the others in order.
\<close>

theorem jdwp_descriptors_fifo:
  assumes "jinv w" and "find (\<lambda>p. jpid p = pid) (procs w) = Some p"
    and "getfl_ok ans" "setfl_ok ans" "sent_ok ans" "reset_ok ans"
  shows "(length (waiting (jfde p) w) < MAX_OUT_FDS \<longrightarrow>
      (\<exists>w'. create_jdwp_connection_fd (Some (fd0, fd1)) pid w = Inr (fd0, w') \<and> jinv w' \<and>
        waiting (jfde p) w' = waiting (jfde p) w @ [fd1])) \<and>
    (\<forall>fd fds. waiting (jfde p) w = fd # fds \<longrightarrow>
      (\<exists>w'. jdwp_write_event ans (jfde p) w = Inr w' \<and> jinv w' \<and> waiting (jfde p) w' = fds \<and>
        prefix (effects (jsw w) @ [SendFd (jsocket p) fd, CloseFd fd]) (effects (jsw w'))))"
  using attach_queues [OF assms(1,2), of fd0 fd1] write_sends [OF assms(1) _ _ assms(3-6), of p] assms(2)
  by (auto simp: find_Some_iff)

text \<open>An example: one process that has told its pid 4660, with one descriptor waiting.\<close>

definition demo_proc :: jdwp_process where
  "demo_proc = \<lparr>jpid = 4660, jsocket = 9, jfde = 0, in_buff = [49, 50, 51, 52], out_fds = [21, 0, 0, 0],
     out_count = 1\<rparr>"

definition demo_jworld :: jworld where
  "demo_jworld = \<lparr>procs = [demo_proc], next_fde = 1, listen_socket = 3,
     jsw = demo_world\<lparr>jdwp_pids := [4660]\<rparr>\<rparr>"

definition demo_answers :: send_answers where
  "demo_answers = \<lparr>getfl_ok = True, setfl_ok = True, sent_ok = True, reset_ok = True\<rparr>"

lemma demo_jinv: "jinv demo_jworld"
  by (simp add: jinv_def demo_jworld_def demo_proc_def demo_inv proc_ok_def MAX_OUT_FDS_def)

lemma demo_find: "find (\<lambda>p. jpid p = 4660) (procs demo_jworld) = Some demo_proc"
  "demo_proc \<in> set (procs demo_jworld)" "waiting (jfde demo_proc) demo_jworld = [21]"
  by (simp_all add: demo_jworld_def demo_proc_def waiting_def)

theorem jdwp_descriptors_fifo_witness:
  "(\<exists>w'. create_jdwp_connection_fd (Some (30, 31)) 4660 demo_jworld = Inr (30, w') \<and> jinv w' \<and>
      waiting 0 w' = [21, 31]) \<and>
   (\<exists>w'. jdwp_write_event demo_answers 0 demo_jworld = Inr w' \<and> waiting 0 w' = [] \<and>
      prefix [SendFd 9 21, CloseFd 21] (effects (jsw w')))"
  using jdwp_descriptors_fifo [OF demo_jinv demo_find(1), of demo_answers 30 31]
  by (simp add: demo_answers_def demo_find(3) MAX_OUT_FDS_def)
    (auto simp: demo_proc_def demo_jworld_def demo_world_def start_world_def)

theorem jdwp_process_event_safe_witness:
  "safe_res jinv (Jdwp.jdwp_process_event 3 [Chunk [1], Chunk []] demo_answers 0 demo_jworld)"
  using jdwp_process_event_safe [OF demo_jinv demo_find(2), of 3 "[Chunk [1], Chunk []]" demo_answers]
  by (simp add: demo_proc_def)

section \<open>Two flaws\<close>

text \<open>
  When the second \<open>fcntl\<close> fails after a descriptor has been sent, the process is freed
  before \<open>out_count\<close> is decremented: the last slot of the array, whose contents were already
  moved or closed, is closed once more. With one descriptor waiting, that very descriptor is
  closed twice.
\<close>

theorem jdwp_reset_failure_closes_twice:
  assumes "jinv w" and "p \<in> set (procs w)" and "waiting (jfde p) w = [fd]" and "0 \<le> jsocket p"
    and "trackers (jsw w) = []"
    and "getfl_ok ans" "setfl_ok ans" "sent_ok ans" "\<not> reset_ok ans"
  shows "\<exists>w'. jdwp_write_event ans (jfde p) w = Inr w' \<and> effects (jsw w') = effects (jsw w) @
    [SendFd (jsocket p) fd, CloseFd fd, CloseFd (jsocket p), FdOp (OpDestroy (jfde p)), CloseFd fd]"
proof -
  note at = proc_at_mem [OF assms(1,2)]
  have ok: "proc_ok p" using jinvD(4) [OF assms(1,2)] .
  from assms(3) waiting_proc_at [OF at] have t: "take (out_count p) (out_fds p) = [fd]" by simp
  then obtain rest where r: "out_fds p = fd # rest"
    by (cases "out_fds p"; cases "out_count p") auto
  from t r have c: "out_count p = 1"
    using ok by (auto simp: proc_ok_def MAX_OUT_FDS_def take_Cons' split: if_splits)
  let ?w1 = "jemit (CloseFd fd) (jemit (SendFd (jsocket p) fd) w)"
  let ?p = "p\<lparr>out_fds := fd # rest\<rparr>"
  have "proc_at (jfde ?p) ?w1 = Inr p" using at by simp
  from proc_at_put_proc [OF this] have "proc_at (jfde p) (put_proc ?p ?w1) = Inr ?p" by simp
  moreover have "trackers (jsw (put_proc ?p ?w1)) = []" using assms(5) by (simp add: put_proc_def)
  ultimately show ?thesis
    using at r c assms(4-9)
    by (simp add: jdwp_write_event_def Let_def shift_fds_def jdwp_process_free_def list_updated_def
        jdwp_process_list_updated_def)
qed

theorem jdwp_reset_failure_closes_twice_witness:
  "\<exists>w'. jdwp_write_event (demo_answers\<lparr>reset_ok := False\<rparr>) 0 demo_jworld = Inr w' \<and>
     effects (jsw w') = [SendFd 9 21, CloseFd 21, CloseFd 9, FdOp (OpDestroy 0), CloseFd 21]"
  using jdwp_reset_failure_closes_twice
    [OF demo_jinv demo_find(2), of 21 "demo_answers\<lparr>reset_ok := False\<rparr>"] demo_find(3)
  by (simp add: demo_proc_def demo_answers_def demo_jworld_def demo_world_def start_world_def)

text \<open>
  A process whose four characters scan as a negative number, such as \<open>-001\<close>, stays in the
  list without a pid: every further readable event decodes the same four characters again and
  leaves the input where it is, so a level-triggered loop calls the handler forever.
\<close>

theorem jdwp_negative_pid_never_read:
  assumes "jinv w" and "p \<in> set (procs w)" and "jpid p < 0" and "length (in_buff p) = 4"
    and "scan_pid (in_buff p) = Some n" and "n < 0" and "trackers (jsw w) = []"
  shows "\<exists>w'. (\<forall>k. Jdwp.jdwp_process_event FDE_READ k ans (jfde p) w = Inr w') \<and> jinv w' \<and>
    (\<exists>q \<in> set (procs w'). jfde q = jfde p \<and> jpid q = n \<and> in_buff q = in_buff p) \<and> trackers (jsw w') = []"
proof -
  note at = proc_at_mem [OF assms(1,2)]
  have ok: "proc_ok (p\<lparr>jpid := n\<rparr>)" using jinvD(4) [OF assms(1,2)] by (simp add: proc_ok_def)
  let ?w = "put_proc (p\<lparr>jpid := n\<rparr>) w"
  have r: "recv_pid (in_buff p) k = (in_buff p, Complete, k)" for k
    using assms(4) by (subst recv_pid.simps) simp
  have t: "trackers (jsw ?w) = []" using assms(7) by (simp add: put_proc_def)
  then have "list_updated ?w = Inr ?w" by (simp add: list_updated_def jdwp_process_list_updated_def)
  then have "Jdwp.jdwp_process_event FDE_READ k ans (jfde p) w = Inr ?w" for k
    using assms(3,5) at r [of k]
    by (simp add: Jdwp.jdwp_process_event_def jdwp_read_event_def Let_def fde_defs)
  moreover have "p\<lparr>jpid := n\<rparr> \<in> set (procs ?w)" using assms(2) by (auto simp: put_proc_def)
  ultimately show ?thesis
    using jinv_put_proc [OF assms(1) ok] t by (intro exI [of _ ?w] conjI bexI [of _ "p\<lparr>jpid := n\<rparr>"]) simp_all
qed

definition demo_negative :: jworld where
  "demo_negative = put_proc (demo_proc\<lparr>jpid := -1, in_buff := [45, 48, 48, 49]\<rparr>) demo_jworld"

theorem jdwp_negative_pid_never_read_witness:
  "\<exists>w'. (\<forall>k. Jdwp.jdwp_process_event FDE_READ k demo_answers 0 demo_negative = Inr w') \<and> jinv w'"
proof -
  let ?p = "demo_proc\<lparr>jpid := -1, in_buff := [45, 48, 48, 49]\<rparr>"
  have i: "jinv demo_negative"
    unfolding demo_negative_def by (rule jinv_put_proc [OF demo_jinv]) (simp add: demo_proc_def proc_ok_def MAX_OUT_FDS_def)
  have m: "?p \<in> set (procs demo_negative)"
    by (simp add: demo_negative_def put_proc_def demo_jworld_def)
  have sc: "scan_pid (in_buff ?p) = Some (-1)" by code_simp
  have "trackers (jsw demo_negative) = []"
    by (simp add: demo_negative_def put_proc_def demo_jworld_def demo_world_def start_world_def)
  from jdwp_negative_pid_never_read [OF i m _ _ sc _ this, of demo_answers] show ?thesis
    by (auto simp: demo_proc_def)
qed

end
