(* ===== verification/Services.thy ===== *)
theory Services
  imports Jdwp
begin

text \<open>
  Services (\<open>src/services.c\<close>, \<open>src/backup_service.c\<close>): from the name a host asks for to the
  pair of descriptors the daemon reads from and writes to. What the kernel answers is a record
  of its own; the service threads and child processes that get started are listed.
\<close>

section \<open>Names and numbers\<close>

definition starts :: "string \<Rightarrow> byte list \<Rightarrow> bool" where
  "starts s name \<longleftrightarrow> prefix (bytes_of_str s) name"

definition after :: "string \<Rightarrow> byte list \<Rightarrow> byte list" where
  "after s name = drop (length s) name"

definition is_digit :: "byte \<Rightarrow> bool" where
  "is_digit b \<longleftrightarrow> 48 \<le> b \<and> b \<le> 57"

fun dec_value :: "byte list \<Rightarrow> nat \<Rightarrow> nat" where
  "dec_value [] n = n"
| "dec_value (c # s) n = (if is_digit c then dec_value s (10 * n + unat (c - 48)) else n)"

text \<open>
  \<open>sscanf(s, "%d", &n)\<close>: the end of the string before a conversion gives \<open>EOF\<close>, another
  character gives 0, a number gives 1. \<open>atoi\<close> reads the same numbers and returns 0 otherwise.
\<close>

datatype scanned = ScanEOF | ScanNone | Scanned int

definition scan_dec :: "byte list \<Rightarrow> scanned" where
  "scan_dec s =
     (case dropWhile is_space s of
        [] \<Rightarrow> ScanEOF
      | c # r \<Rightarrow>
          let (neg, ds) = (if c = 45 then (True, r) else if c = 43 then (False, r) else (False, c # r)) in
          if ds \<noteq> [] \<and> is_digit (hd ds) then
            Scanned (if neg then - int (dec_value ds 0) else int (dec_value ds 0))
          else ScanNone)"

definition atoi :: "byte list \<Rightarrow> int" where
  "atoi s = (case scan_dec s of Scanned n \<Rightarrow> n | _ \<Rightarrow> 0)"

section \<open>Answers and state\<close>

datatype local_namespace = Reserved | Abstract | Filesystem

text \<open>
  The answers of the kernel: client connections, \<open>open\<close>, the successive results of \<open>pipe\<close>,
  the start of a thread, \<open>adb_socketpair\<close>, the pseudo terminal, \<open>fork\<close>, \<open>malloc\<close>,
  \<open>getuid\<close>, and what an uninitialised variable holds.
\<close>

record svc_env =
  loopback_client :: "int \<Rightarrow> int"
  local_client :: "byte list \<Rightarrow> local_namespace \<Rightarrow> int"
  dev_open :: "byte list \<Rightarrow> int"
  pipes :: "(int \<times> int) option list"
  thread_ok :: bool
  sockpair :: "(int \<times> int) option"
  open_ptmx :: int
  grant_ok :: bool
  fork_pid :: int
  malloc_ok :: bool
  getuid :: int
  recovery_mode :: bool
  junk_int :: int

datatype service = FramebufferService | RecoverService int | LogService "byte list" | FileSyncService
  | RemountService | RebootService "byte list" | RestartTcpService int | RestartUsbService
  | SubprocWaiter int | BackupWaiter int

text \<open>A running service thread has its function and its two descriptors.\<close>

record vworld =
  jw :: jworld
  threads :: "(service \<times> int \<times> int) list"
  children :: "byte list list list"

definition vemit :: "effect \<Rightarrow> vworld \<Rightarrow> vworld" where
  "vemit e v = v\<lparr>jw := jemit e (jw v)\<rparr>"

definition close_fds :: "int list \<Rightarrow> vworld \<Rightarrow> vworld" where
  "close_fds fds v = fold (\<lambda>fd. vemit (CloseFd fd)) fds v"

definition start_thread :: "service \<Rightarrow> int \<Rightarrow> int \<Rightarrow> vworld \<Rightarrow> vworld" where
  "start_thread s rfd wfd v = v\<lparr>threads := threads v @ [(s, rfd, wfd)]\<rparr>"

definition pipe_answer :: "nat \<Rightarrow> svc_env \<Rightarrow> (int \<times> int) option" where
  "pipe_answer n env = (if n < length (pipes env) then pipes env ! n else None)"

type_synonym svc_result = "int \<times> (int \<times> int) option \<times> vworld"

section \<open>Service threads\<close>

definition create_service_thread :: "svc_env \<Rightarrow> service \<Rightarrow> vworld \<Rightarrow> svc_result" where
  "create_service_thread env s v =
     (case (pipe_answer 0 env, pipe_answer 1 env) of
        (Some (svc_to_fw0, svc_to_fw1), Some (fw_to_svc0, fw_to_svc1)) \<Rightarrow>
          if thread_ok env then
            (0, Some (svc_to_fw0, fw_to_svc1), start_thread s fw_to_svc0 svc_to_fw1 v)
          else (-1, None, close_fds [svc_to_fw0, svc_to_fw1, fw_to_svc0, fw_to_svc1] v)
      | _ \<Rightarrow> (-1, None, v))"

text \<open>The variant with a pseudo terminal; the result of the parent and the pid.\<close>

definition SHELL_COMMAND :: string where "SHELL_COMMAND = ''/bin/sh''"

definition create_subprocess :: "svc_env \<Rightarrow> byte list list \<Rightarrow> vworld \<Rightarrow> int \<times> int \<times> vworld" where
  "create_subprocess env argv v =
     (let ptm = open_ptmx env in
      if ptm < 0 then (-1, junk_int env, v)
      else if \<not> grant_ok env then (-1, junk_int env, close_fds [ptm] v)
      else if fork_pid env < 0 then (-1, fork_pid env, close_fds [ptm] v)
      else (ptm, fork_pid env, v\<lparr>children := children v @ [argv]\<rparr>))"

definition create_subproc_thread :: "svc_env \<Rightarrow> byte list option \<Rightarrow> vworld \<Rightarrow> int \<times> vworld" where
  "create_subproc_thread env name v =
     (let sh = bytes_of_str SHELL_COMMAND;
          argv = (case name of Some n \<Rightarrow> [sh, bytes_of_str ''-c'', n] | None \<Rightarrow> [sh, bytes_of_str ''-'']);
          (ret_fd, pid, v) = create_subprocess env argv v in
      if thread_ok env then (ret_fd, start_thread (SubprocWaiter pid) ret_fd ret_fd v)
      else (-1, close_fds [ret_fd] v))"

section \<open>Backup\<close>

text \<open>The two loops over the arguments: counting them, and storing them.\<close>

definition next_arg :: "byte list \<Rightarrow> byte list" where
  "next_arg p = drop 1 (dropWhile (\<lambda>b. b \<noteq> 58) p)"

lemma length_next_arg: "p \<noteq> [] \<Longrightarrow> length (next_arg p) < length p"
  using length_dropWhile_le [of "\<lambda>b. b \<noteq> 58" p] by (cases p) (auto simp: next_arg_def)

function count_args :: "byte list \<Rightarrow> nat" where
  "count_args p = (if p = [] then 0 else Suc (count_args (next_arg p)))"
  by pat_completeness auto
termination
  by (relation "measure length") (auto simp: length_next_arg)

function store_args :: "byte list \<Rightarrow> byte list list" where
  "store_args p = (if p = [] then [] else takeWhile (\<lambda>b. b \<noteq> 58) p # store_args (next_arg p))"
  by pat_completeness auto
termination
  by (relation "measure length") (auto simp: length_next_arg)

declare count_args.simps [simp del] store_args.simps [simp del]

datatype backup_op = BACKUP | RESTORE

text \<open>
  \<open>bu_args\<close> has room for the counted arguments and the final null pointer; storing past it is
  a fault. The child gets the number of its pipe as text.
\<close>

definition bu_args :: "backup_op \<Rightarrow> byte list \<Rightarrow> int \<Rightarrow> byte list list res" where
  "bu_args op args child_pipe =
     (let room = 3 + count_args args + 1;
          argv = [bytes_of_str ''bu'', dec_digits (nat child_pipe),
            bytes_of_str (case op of BACKUP \<Rightarrow> ''backup'' | RESTORE \<Rightarrow> ''restore'')] @ store_args args in
      if length argv + 1 > room then Inl (Fault OutOfBounds) else Inr argv)"

definition backup_service :: "svc_env \<Rightarrow> backup_op \<Rightarrow> byte list \<Rightarrow> vworld \<Rightarrow> svc_result res" where
  "backup_service env op args v =
     (case (pipe_answer 0 env, pipe_answer 1 env, pipe_answer 2 env) of
        (Some (up0, up1), Some (down0, down1), Some (dummy0, dummy1)) \<Rightarrow>
          if \<not> malloc_ok env then Inr (-1, None, close_fds [up0, up1, down0, down1, dummy0, dummy1] v)
          else
            seq (bu_args op args (if op = BACKUP then up1 else down0)) (\<lambda>argv.
            if fork_pid env < 0 then
              Inr (-1, None, close_fds [up0, up1, down0, down1, dummy0, dummy1] v)
            else
              let v = v\<lparr>children := children v @ [argv]\<rparr>;
                  (parent_fd, dummy_fd, v) =
                    (if op = BACKUP then (up0, dummy1, close_fds [up1, down0, down1] v)
                     else (dummy0, down1, close_fds [down0, up0, up1] v)) in
              if thread_ok env then
                Inr (0, Some (parent_fd, dummy_fd),
                  start_thread (BackupWaiter (fork_pid env)) parent_fd parent_fd v)
              else Inr (-1, None, close_fds [parent_fd, dummy_fd] v))
      | _ \<Rightarrow> Inr (-1, None, v))"

section \<open>Finding a service\<close>

definition both :: "int \<Rightarrow> vworld \<Rightarrow> svc_result" where
  "both ret v = (ret, if ret \<ge> 0 then Some (ret, ret) else None, v)"

definition LOG_FILE_DIR :: string where "LOG_FILE_DIR = ''/dev/log/''"

definition get_log_file_path :: "byte list \<Rightarrow> byte list" where
  "get_log_file_path log_name = bytes_of_str LOG_FILE_DIR @ log_name"

definition service_to_fd :: "svc_env \<Rightarrow> byte list \<Rightarrow> vworld \<Rightarrow> svc_result res" where
  "service_to_fd env name v =
     (if starts ''tcp:'' name then
        let rest = after ''tcp:'' name; port = atoi rest in
        if 58 \<in> set rest then Inr (-1, None, v) else Inr (both (loopback_client env port) v)
      else if starts ''local:'' name then
        Inr (both (local_client env (after ''local:'' name) Reserved) v)
      else if starts ''localreserved:'' name then
        Inr (both (local_client env (after ''localreserved:'' name) Reserved) v)
      else if starts ''localabstract:'' name then
        Inr (both (local_client env (after ''localabstract:'' name) Abstract) v)
      else if starts ''localfilesystem:'' name then
        Inr (both (local_client env (after ''localfilesystem:'' name) Filesystem) v)
      else if starts ''dev:'' name then Inr (both (dev_open env (after ''dev:'' name)) v)
      else if starts ''framebuffer:'' name then Inr (create_service_thread env FramebufferService v)
      else if recovery_mode env \<and> starts ''recover:'' name then
        Inr (create_service_thread env (RecoverService (atoi (after ''recover:'' name))) v)
      else if starts ''jdwp:'' name then
        seq (create_jdwp_connection_fd (sockpair env) (atoi (after ''jdwp:'' name)) (jw v)) (\<lambda>(ret, w).
        Inr (both ret (v\<lparr>jw := w\<rparr>)))
      else if starts ''log:'' name then
        Inr (create_service_thread env (LogService (get_log_file_path (after ''log:'' name))) v)
      else if starts ''shell:'' name then
        let cmd = after ''shell:'' name;
            (ret, v) = create_subproc_thread env (if cmd = [] then None else Some cmd) v in
        Inr (both ret v)
      else if starts ''sync:'' name then Inr (create_service_thread env FileSyncService v)
      else if starts ''remount:'' name then Inr (create_service_thread env RemountService v)
      else if starts ''reboot:'' name then
        if malloc_ok env then Inr (create_service_thread env (RebootService (after ''reboot:'' name)) v)
        else Inr (-1, None, v)
      else if starts ''backup:'' name then
        if malloc_ok env then backup_service env BACKUP (after ''backup:'' name) v else Inr (-1, None, v)
      else if starts ''restore:'' name then backup_service env RESTORE [] v
      else if starts ''tcpip:'' name then
        let port = (case scan_dec (after ''tcpip:'' name) of
              ScanEOF \<Rightarrow> junk_int env | ScanNone \<Rightarrow> 0 | Scanned n \<Rightarrow> n) in
        Inr (create_service_thread env (RestartTcpService port) v)
      else if starts ''usb:'' name then Inr (create_service_thread env RestartUsbService v)
      else Inr (-1, None, v))"

text \<open>
  \<open>create_local_service_socket\<close> of \<open>src/sockets.c\<close>: the socket for a service, or \<open>None\<close>. The
  two JDWP services have sockets of their own. The descriptors of \<open>service_to_fd\<close> are
  read after a result that is not negative; if they were not set that is undefined.
\<close>

definition with_socks :: "(sworld \<Rightarrow> ('a \<times> sworld) res) \<Rightarrow> vworld \<Rightarrow> ('a \<times> vworld) res" where
  "with_socks f v = seq (f (jsw (jw v))) (\<lambda>(x, st). Inr (x, v\<lparr>jw := (jw v)\<lparr>jsw := st\<rparr>\<rparr>))"

definition create_local_service_socket :: "svc_env \<Rightarrow> byte list \<Rightarrow> vworld \<Rightarrow> (nat option \<times> vworld) res" where
  "create_local_service_socket env name v =
     (if name = bytes_of_str ''jdwp'' then
        seq (with_socks create_jdwp_service_socket v) (\<lambda>(a, v). Inr (Some a, v))
      else if name = bytes_of_str ''track-jdwp'' then
        seq (with_socks create_jdwp_tracker_service_socket v) (\<lambda>(a, v). Inr (Some a, v))
      else
        seq (service_to_fd env name v) (\<lambda>(ret, fds, v).
        if ret < 0 then Inr (None, v)
        else case fds of
          None \<Rightarrow> Inl (Fault OutOfBounds)
        | Some (rfd, wfd) \<Rightarrow>
            seq (with_socks (if rfd = wfd then create_local_socket rfd
                 else create_local_socket_pair rfd wfd) v) (\<lambda>(a, v).
            if starts ''root:'' name \<and> getuid env \<noteq> 0 \<or> starts ''usb:'' name \<or> starts ''tcpip:'' name then
              seq (with_socks (\<lambda>st. seq (upd a (\<lambda>s. s\<lparr>exit_on_close := True\<rparr>) st) (\<lambda>st. Inr ((), st))) v)
                (\<lambda>(_, v). Inr (Some a, v))
            else Inr (Some a, v))))"

section \<open>The descriptors of a service\<close>

lemma vemit_fields [simp]: "jw (vemit e v) = jemit e (jw v)" "threads (vemit e v) = threads v"
  "children (vemit e v) = children v"
  by (simp_all add: vemit_def)

lemma close_fds_fields [simp]:
  "jinv (jw (close_fds fds v)) = jinv (jw v)" "threads (close_fds fds v) = threads v"
  by (induction fds arbitrary: v) (simp_all add: close_fds_def)

lemma start_thread_fields [simp]: "jw (start_thread s r w v) = jw v"
  "threads (start_thread s r w v) = threads v @ [(s, r, w)]"
  by (simp_all add: start_thread_def)

lemma length_store_args: "length (store_args p) = count_args p"
proof (induction p rule: count_args.induct)
  case (1 p)
  then show ?case
    by (subst store_args.simps, subst count_args.simps) simp
qed

lemma bu_args_fit: "\<exists>argv. bu_args op args fd = Inr argv"
  by (simp add: bu_args_def length_store_args)

text \<open>The kernel returns descriptors that are not negative.\<close>

definition env_ok :: "svc_env \<Rightarrow> bool" where
  "env_ok env \<longleftrightarrow> (\<forall>a b. Some (a, b) \<in> set (pipes env) \<longrightarrow> 0 \<le> a \<and> 0 \<le> b) \<and>
     (\<forall>a b. sockpair env = Some (a, b) \<longrightarrow> 0 \<le> a \<and> 0 \<le> b)"

text \<open>What a caller may rely on.\<close>

definition svc_ok :: "svc_result \<Rightarrow> bool" where
  "svc_ok r \<longleftrightarrow> (case r of (ret, fds, v) \<Rightarrow>
     (0 \<le> ret \<longleftrightarrow> fds \<noteq> None) \<and> (\<forall>a b. fds = Some (a, b) \<longrightarrow> 0 \<le> a \<and> 0 \<le> b) \<and> jinv (jw v))"

lemma pipe_answer_ok: "env_ok env \<Longrightarrow> pipe_answer n env = Some (a, b) \<Longrightarrow> 0 \<le> a \<and> 0 \<le> b"
  by (auto simp: env_ok_def pipe_answer_def split: if_splits) (metis nth_mem)+

lemma both_ok: "jinv (jw v) \<Longrightarrow> svc_ok (both ret v)"
  by (simp add: svc_ok_def both_def)

lemma create_service_thread_ok:
  assumes "env_ok env" and "jinv (jw v)"
  shows "svc_ok (create_service_thread env s v)"
  using assms pipe_answer_ok [OF assms(1), of 0] pipe_answer_ok [OF assms(1), of 1]
  by (auto simp: create_service_thread_def svc_ok_def split: option.splits)

lemma create_subproc_thread_ok:
  "jinv (jw v) \<Longrightarrow> jinv (jw (snd (create_subproc_thread env name v)))"
  by (auto simp: create_subproc_thread_def create_subprocess_def Let_def split: option.splits)

lemma backup_service_ok:
  assumes "env_ok env" and "jinv (jw v)"
  shows "\<exists>r. backup_service env op args v = Inr r \<and> svc_ok r"
proof (cases "(pipe_answer 0 env, pipe_answer 1 env, pipe_answer 2 env)")
  case (fields p0 p1 p2)
  from bu_args_fit obtain argv where b: "\<And>fd. bu_args op args fd = Inr (argv fd)" by metis
  show ?thesis
    using assms fields b pipe_answer_ok [OF assms(1), of 0] pipe_answer_ok [OF assms(1), of 1]
      pipe_answer_ok [OF assms(1), of 2]
    by (auto simp: backup_service_def svc_ok_def Let_def split: option.splits)
qed

lemma attach_ok:
  assumes "env_ok env" and "jinv w"
  shows "\<exists>ret w'. create_jdwp_connection_fd (sockpair env) pid w = Inr (ret, w') \<and> jinv w'"
proof (cases "find (\<lambda>p. jpid p = pid) (procs w)")
  case (Some p)
  then have p: "p \<in> set (procs w)" by (auto simp: find_Some_iff)
  show ?thesis
  proof (cases "out_count p < MAX_OUT_FDS \<and> sockpair env \<noteq> None")
    case True
    then obtain fd0 fd1 where fds: "sockpair env = Some (fd0, fd1)" by auto
    have "length (waiting (jfde p) w) < MAX_OUT_FDS"
      using True waiting_proc_at [OF proc_at_mem [OF assms(2) p]] by (simp add: min_less_iff_disj)
    from attach_queues [OF assms(2) Some this, of fd0 fd1] fds show ?thesis by auto
  next
    case False
    with Some assms(2) show ?thesis
      by (auto simp: create_jdwp_connection_fd_def split: option.splits)
  qed
next
  case None
  with assms(2) show ?thesis by (simp add: create_jdwp_connection_fd_def)
qed

definition svc_fine :: "svc_result res \<Rightarrow> bool" where
  "svc_fine m \<longleftrightarrow> (\<exists>r. m = Inr r \<and> svc_ok r)"

lemma svc_fine_if: "(c \<Longrightarrow> svc_fine m) \<Longrightarrow> (\<not> c \<Longrightarrow> svc_fine n) \<Longrightarrow> svc_fine (if c then m else n)"
  by simp

lemma svc_fine_Inr: "svc_ok r \<Longrightarrow> svc_fine (Inr r)"
  by (simp add: svc_fine_def)

lemma service_to_fd_ok:
  assumes "env_ok env" and "jinv (jw v)"
  shows "svc_fine (service_to_fd env name v)"
proof -
  have fail: "svc_ok (-1, None, v)" using assms(2) by (simp add: svc_ok_def)
  have attach: "svc_fine (seq (create_jdwp_connection_fd (sockpair env) pid (jw v))
      (\<lambda>(ret, w). Inr (both ret (v\<lparr>jw := w\<rparr>))))" for pid
    using attach_ok [OF assms, of pid] by (auto intro!: svc_fine_Inr both_ok)
  have shell: "svc_fine (case create_subproc_thread env n v of (ret, v) \<Rightarrow> Inr (both ret v))" for n
    using create_subproc_thread_ok [OF assms(2), of env n]
    by (auto intro!: svc_fine_Inr both_ok split: prod.splits)
  have backup: "svc_fine (backup_service env op args v)" for op args
    using backup_service_ok [OF assms] by (simp add: svc_fine_def)
  show ?thesis
    unfolding service_to_fd_def Let_def
    by (intro svc_fine_if svc_fine_Inr fail attach shell backup both_ok assms create_service_thread_ok)
qed

text \<open>
  Every name gets an answer without a fault. The result of \<open>service_to_fd\<close> is negative
  exactly when the two descriptors were not set, so the caller never reads them
  uninitialised, and descriptors that were set are valid; the arguments of a backup fit into
  the array that was allocated for them.
\<close>

theorem service_to_fd_sets_descriptors:
  assumes "env_ok env" and "jinv (jw v)"
  shows "\<exists>ret fds v'. service_to_fd env name v = Inr (ret, fds, v') \<and> (0 \<le> ret \<longleftrightarrow> fds \<noteq> None) \<and>
    (\<forall>a b. fds = Some (a, b) \<longrightarrow> 0 \<le> a \<and> 0 \<le> b) \<and> jinv (jw v')"
  using service_to_fd_ok [OF assms, of name] by (auto simp: svc_fine_def svc_ok_def)

definition demo_env :: svc_env where
  "demo_env = \<lparr>loopback_client = (\<lambda>_. 11), local_client = (\<lambda>_ _. 12), dev_open = (\<lambda>_. -1),
     pipes = [Some (3, 4), Some (5, 6), Some (7, 8)], thread_ok = True, sockpair = Some (30, 31),
     open_ptmx = 14, grant_ok = True, fork_pid = 100, malloc_ok = True, getuid = 0,
     recovery_mode = False, junk_int = 77\<rparr>"

definition demo_vworld :: vworld where
  "demo_vworld = \<lparr>jw = demo_jworld, threads = [], children = []\<rparr>"

lemma demo_env_ok: "env_ok demo_env" "jinv (jw demo_vworld)"
  by (auto simp: env_ok_def demo_env_def demo_vworld_def demo_jinv)

theorem service_to_fd_sets_descriptors_witness:
  "\<exists>ret fds v'. service_to_fd demo_env (bytes_of_str ''backup:-f:all'') demo_vworld = Inr (ret, fds, v') \<and>
    (0 \<le> ret \<longleftrightarrow> fds \<noteq> None) \<and> jinv (jw v')"
  using service_to_fd_sets_descriptors [OF demo_env_ok, of "bytes_of_str ''backup:-f:all''"] by blast

section \<open>Two flaws\<close>

text \<open>
  After \<open>tcpip:\<close> with nothing but blanks behind it \<open>sscanf\<close> returns \<open>EOF\<close>, not 0: the test
  for a failed conversion does not fire, and the service is started on whatever the
  uninitialised variable holds.
\<close>

theorem tcpip_without_port_is_junk:
  assumes "\<forall>b \<in> set rest. is_space b" and "thread_ok env"
    and "pipe_answer 0 env = Some (a, b)" and "pipe_answer 1 env = Some (c, d)"
  shows "\<exists>v'. service_to_fd env (bytes_of_str ''tcpip:'' @ rest) v = Inr (0, Some (a, d), v') \<and>
    threads v' = threads v @ [(RestartTcpService (junk_int env), c, b)]"
proof -
  have "scan_dec rest = ScanEOF"
  proof -
    have "dropWhile is_space rest = []" using assms(1) by simp
    then show ?thesis by (simp only: scan_dec_def list.case)
  qed
  then show ?thesis
    using assms(2-4) by (simp add: service_to_fd_def starts_def after_def bytes_of_str_def
        create_service_thread_def Let_def)
qed

theorem tcpip_without_port_is_junk_witness:
  "\<exists>v'. service_to_fd demo_env (bytes_of_str ''tcpip:'') demo_vworld = Inr (0, Some (3, 6), v') \<and>
    threads v' = [(RestartTcpService 77, 5, 4)]"
  using tcpip_without_port_is_junk [of "[]" demo_env 3 4 5 6 demo_vworld]
  by (simp add: demo_env_def demo_vworld_def pipe_answer_def)

text \<open>
  A shell that could not be started is not noticed in time: \<open>create_subproc_thread\<close> starts
  the thread that waits for the child although there is none, with the descriptor -1, and only
  then returns the failure.
\<close>

theorem failed_shell_starts_waiter:
  assumes "open_ptmx env < 0" and "thread_ok env"
  shows "\<exists>v'. service_to_fd env (bytes_of_str ''shell:'' @ cmd) v = Inr (-1, None, v') \<and>
    threads v' = threads v @ [(SubprocWaiter (junk_int env), -1, -1)] \<and> children v' = children v"
  using assms by (simp add: service_to_fd_def starts_def after_def bytes_of_str_def
      create_subproc_thread_def create_subprocess_def start_thread_def both_def Let_def)

theorem failed_shell_starts_waiter_witness:
  "\<exists>v'. service_to_fd (demo_env\<lparr>open_ptmx := -1\<rparr>) (bytes_of_str ''shell:ls'') demo_vworld = Inr (-1, None, v') \<and>
    threads v' = [(SubprocWaiter 77, -1, -1)]"
  using failed_shell_starts_waiter [of "demo_env\<lparr>open_ptmx := -1\<rparr>" "bytes_of_str ''ls''" demo_vworld]
  by (auto simp: demo_env_def demo_vworld_def bytes_of_str_def)

section \<open>The socket of a service\<close>

text \<open>A socket that has just been created: on the list, without a peer, and nobody's peer.\<close>

definition new_sock :: "nat \<Rightarrow> sworld \<Rightarrow> sworld \<Rightarrow> bool" where
  "new_sock a st st' \<longleftrightarrow> (\<exists>s. hp st a = None \<and> hp st' = (hp st)(a := Some s) \<and> sock_ok s \<and> listed s \<and>
     \<not> closing s \<and> peer s = None \<and> close_op s \<noteq> LocalCloseNotify) \<and>
     sinv_except {a} st' \<and> (\<forall>b t. hp st' b = Some t \<longrightarrow> peer t \<noteq> Some a) \<and>
     jdwp_pids st' = jdwp_pids st"

lemma dec_digits_facts:
  "dec_digits n \<noteq> [] \<and> (\<forall>b \<in> set (dec_digits n). is_digit b) \<and> dec_value (dec_digits n @ s) m = dec_value s (m * 10 ^ length (dec_digits n) + n)"
proof (induction n arbitrary: s m rule: dec_digits.induct)
  case (1 n)
  have d: "is_digit (of_nat (48 + k)) \<and> unat ((of_nat (48 + k) :: byte) - 48) = k" if "k < 10" for k
  proof -
    have "unat (of_nat (48 + k) :: byte) = 48 + k" using that by (simp only: unsigned_of_nat) (simp add: take_bit_nat_eq_self)
    moreover have "unat ((of_nat (48 + k) :: byte) - 48) = unat (of_nat k :: byte)" by simp
    moreover have "unat (of_nat k :: byte) = k" using that by (simp only: unsigned_of_nat) (simp add: take_bit_nat_eq_self)
    ultimately show ?thesis using that by (simp add: is_digit_def word_le_nat_alt)
  qed
  show ?case
  proof (cases "n < 10")
    case True
    then show ?thesis using d [OF True] by (simp add: dec_digits.simps [of n] algebra_simps)
  next
    case False
    then show ?thesis
      using 1 [of "of_nat (48 + n mod 10) # s" m] d [of "n mod 10"]
      by (simp add: dec_digits.simps [of n] algebra_simps)
  qed
qed

lemma length_dec_digits: "n < 10 ^ Suc k \<Longrightarrow> length (dec_digits n) \<le> Suc k"
proof (induction k arbitrary: n)
  case (Suc k)
  then have "length (dec_digits (n div 10)) \<le> Suc k" by (intro Suc.IH) (simp add: less_mult_imp_div_less)
  then show ?case by (simp add: dec_digits.simps [of n])
qed (simp add: dec_digits.simps)

lemma hp_alloc:
  "hp (st\<lparr>heap := heap st @ [Some s]\<rparr>) = (hp st)(length (heap st) := Some s)"
  "hp st (length (heap st)) = None"
  by (auto simp: hp_def fun_eq_iff nth_append less_Suc_eq)

lemma zero_sock_simps [simp]:
  "peer zero_sock = None" "closing zero_sock = False" "pkts zero_sock = []" "sid zero_sock = 0"
  "enqueue_op zero_sock = LocalEnqueue" "ready_op zero_sock = LocalReady" "close_op zero_sock = LocalClose"
  "transport zero_sock = None"
  by (simp_all add: zero_sock_def)

lemma install_local_socket_Some:
  "hp st a = Some s \<Longrightarrow> install_local_socket a st =
    Inr ((setk a (Some (s\<lparr>sid := next_id st\<rparr>)) st)\<lparr>next_id := next_id st + 1, slist := slist st @ [a]\<rparr>)"
  by (simp add: install_local_socket_def upd_Some)

lemma new_sockI:
  assumes "sinv st" and "hp st a = None" and "sock_ok s" "listed s" "\<not> closing s" "peer s = None"
    "close_op s \<noteq> LocalCloseNotify"
    and "hp st' = (hp st)(a := Some s)" "slist st' = slist st @ [a]" "clist st' = clist st"
      "trackers st' = (if close_op s = TrackerClose then trackers st @ [a] else trackers st)"
      "remotes st' = remotes st" "fresh st' = fresh st" "jdwp_pids st' = jdwp_pids st"
  shows "new_sock a st st'"
  using new_listed_inv(1,3) [OF assms(1-6,8-13)] assms unfolding new_sock_def by blast

lemma create_local_socket_new:
  assumes inv: "sinv st"
  shows "\<exists>a st'. create_local_socket fd st = Inr (a, st') \<and> new_sock a st st' \<and>
    (\<exists>s. hp st' a = Some s \<and> close_op s = LocalClose)"
    "\<exists>a st'. create_local_socket_pair rfd wfd st = Inr (a, st') \<and> new_sock a st st' \<and>
    (\<exists>s. hp st' a = Some s \<and> close_op s = LocalClose)"
proof -
  let ?a = "length (heap st)"
  have gen: "\<exists>st'. install_local_socket ?a (st\<lparr>heap := heap st @ [Some s]\<rparr>) = Inr st' \<and> new_sock ?a st (emit e st') \<and>
      (\<exists>s. hp st' ?a = Some s \<and> close_op s = LocalClose)"
    if "s = zero_sock\<lparr>sfd := r, write_fd := w, enqueue_op := LocalEnqueue, ready_op := LocalReady, close_op := LocalClose\<rparr>"
    for s r w e
  proof -
    let ?st1 = "st\<lparr>heap := heap st @ [Some s]\<rparr>"
    have h: "hp ?st1 ?a = Some s" by (simp add: hp_alloc)
    note I = install_local_socket_Some [OF h]
    have "hp (setk ?a (Some (s\<lparr>sid := next_id st\<rparr>)) ?st1) = (hp st)(?a := Some (s\<lparr>sid := next_id st\<rparr>))"
      using h by (simp add: hp_setk hp_alloc)
    then show ?thesis
      unfolding I using that
      by (auto intro!: new_sockI [OF inv hp_alloc(2), of "s\<lparr>sid := next_id st\<rparr>"]
          simp: sock_ok_def ops_ok_def local_kind_def listed_def)
  qed
  show "\<exists>a st'. create_local_socket fd st = Inr (a, st') \<and> new_sock a st st' \<and>
    (\<exists>s. hp st' a = Some s \<and> close_op s = LocalClose)"
    using gen [where r = fd and w = fd, OF refl] by (fastforce simp: create_local_socket_def alloc_def)
  show "\<exists>a st'. create_local_socket_pair rfd wfd st = Inr (a, st') \<and> new_sock a st st' \<and>
    (\<exists>s. hp st' a = Some s \<and> close_op s = LocalClose)"
    using gen [where r = rfd and w = wfd, OF refl] by (fastforce simp: create_local_socket_pair_def alloc_def)
qed

lemma create_jdwp_new:
  assumes inv: "sinv st"
  shows "\<exists>a st'. create_jdwp_service_socket st = Inr (a, st') \<and> new_sock a st st'"
    "\<exists>a st'. create_jdwp_tracker_service_socket st = Inr (a, st') \<and> new_sock a st st'"
proof -
  let ?a = "length (heap st)"
  let ?z = "zero_sock\<lparr>sid := next_id st\<rparr>"
  have h: "hp (st\<lparr>heap := heap st @ [Some zero_sock]\<rparr>) ?a = Some zero_sock" by (simp add: hp_alloc)
  let ?st1 = "(setk ?a (Some ?z) (st\<lparr>heap := heap st @ [Some zero_sock]\<rparr>))\<lparr>next_id := next_id st + 1, slist := slist st @ [?a]\<rparr>"
  have h1: "hp ?st1 ?a = Some ?z" "hp ?st1 = (hp st)(?a := Some ?z)"
    using h by (simp_all add: hp_setk hp_alloc)
  let ?f = "\<lambda>s. s\<lparr>ready_op := JdwpReady, enqueue_op := JdwpEnqueue, close_op := JdwpClose, pass := False\<rparr>"
  have e: "create_jdwp_service_socket st = Inr (?a, setk ?a (Some (?f ?z)) ?st1)"
    using install_local_socket_Some [OF h] upd_Some [OF h1(1), of ?f]
    by (simp add: create_jdwp_service_socket_def alloc_def)
  have "hp (setk ?a (Some (?f ?z)) ?st1) = (hp st)(?a := Some (?f ?z))"
    using h1 by (simp add: hp_setk)
  then have "new_sock ?a st (setk ?a (Some (?f ?z)) ?st1)"
    by (intro new_sockI [OF inv hp_alloc(2), of "?f ?z"])
      (simp_all add: sock_ok_def ops_ok_def local_kind_def listed_def)
  with e show "\<exists>a st'. create_jdwp_service_socket st = Inr (a, st') \<and> new_sock a st st'" by blast
  let ?t0 = "(st\<lparr>heap := heap st @ [Some zero_sock]\<rparr>)\<lparr>trackers := trackers st @ [?a]\<rparr>"
  have k: "hp ?t0 ?a = Some zero_sock" "hp ?t0 = (hp st)(?a := Some zero_sock)" by (simp_all add: hp_alloc)
  let ?st2 = "(setk ?a (Some ?z) ?t0)\<lparr>next_id := next_id st + 1, slist := slist st @ [?a]\<rparr>"
  have k1: "hp ?st2 ?a = Some ?z" "hp ?st2 = (hp st)(?a := Some ?z)"
    using k by (simp_all add: hp_setk)
  let ?g = "\<lambda>s. s\<lparr>ready_op := TrackerReady, enqueue_op := TrackerEnqueue, close_op := TrackerClose, need_update := True\<rparr>"
  have e': "create_jdwp_tracker_service_socket st = Inr (?a, setk ?a (Some (?g ?z)) ?st2)"
    using install_local_socket_Some [OF k(1)] upd_Some [OF k1(1), of ?g]
    by (simp add: create_jdwp_tracker_service_socket_def alloc_def)
  have "hp (setk ?a (Some (?g ?z)) ?st2) = (hp st)(?a := Some (?g ?z))"
    using k1 by (simp add: hp_setk)
  then have "new_sock ?a st (setk ?a (Some (?g ?z)) ?st2)"
    by (intro new_sockI [OF inv hp_alloc(2), of "?g ?z"])
      (simp_all add: sock_ok_def ops_ok_def local_kind_def listed_def)
  with e' show "\<exists>a st'. create_jdwp_tracker_service_socket st = Inr (a, st') \<and> new_sock a st st'" by blast
qed

lemma new_sock_upd:
  assumes new: "new_sock a st st1" and ok: "\<And>s. sock_ok s \<Longrightarrow> sock_ok (f s)"
    and keep: "\<And>s. closing (f s) = closing s" "\<And>s. close_op (f s) = close_op s" "\<And>s. peer (f s) = peer s"
      "\<And>s. transport (f s) = transport s"
  shows "\<exists>st2. upd a f st1 = Inr st2 \<and> new_sock a st st2"
proof -
  from new obtain s where s: "hp st a = None" "hp st1 = (hp st)(a := Some s)" "sock_ok s" "listed s"
    "\<not> closing s" "peer s = None" "close_op s \<noteq> LocalCloseNotify"
    and i: "sinv_except {a} st1" and n: "\<And>b t. hp st1 b = Some t \<Longrightarrow> peer t \<noteq> Some a"
    and j: "jdwp_pids st1 = jdwp_pids st"
    unfolding new_sock_def by blast
  have h: "hp st1 a = Some s" using s(2) by simp
  note U = upd_inv [where f = f, OF i h ok [OF s(3)] keep(1,2,3) keep(4)]
  have "peer t \<noteq> Some a" if "hp (setk a (Some (f s)) st1) b = Some t" for b t
    using that n [of b t] s(6) keep(3) [of s] by (auto simp: U(3) split: if_splits)
  then show ?thesis
    using U s ok keep j unfolding new_sock_def by (auto simp: listed_def)
qed

text \<open>The part of the invariant that is about the process list.\<close>

definition jprocs_ok :: "jworld \<Rightarrow> bool" where
  "jprocs_ok w \<longleftrightarrow> jdwp_pids (jsw w) = map jpid (procs w) \<and> distinct (map jfde (procs w)) \<and>
     (\<forall>p \<in> set (procs w). proc_ok p \<and> jfde p < next_fde w)"

lemma jinv_alt: "jinv w \<longleftrightarrow> sinv (jsw w) \<and> jprocs_ok w"
  by (simp add: jinv_def jprocs_ok_def)

lemma jprocs_ok_jsw: "jprocs_ok w \<Longrightarrow> jdwp_pids st = jdwp_pids (jsw w) \<Longrightarrow> jprocs_ok (w\<lparr>jsw := st\<rparr>)"
  by (simp add: jprocs_ok_def)

definition service_socket :: "nat option \<times> vworld \<Rightarrow> bool" where
  "service_socket r \<longleftrightarrow> (case r of
     (None, v) \<Rightarrow> jinv (jw v)
   | (Some a, v) \<Rightarrow> jprocs_ok (jw v) \<and> (\<exists>st. sinv st \<and> new_sock a st (jsw (jw v))))"

lemma with_socks_new:
  assumes "jinv (jw v)" and "\<exists>a st'. f (jsw (jw v)) = Inr (a, st') \<and> new_sock a (jsw (jw v)) st'"
  shows "\<exists>a v'. with_socks f v = Inr (a, v') \<and> service_socket (Some a, v')"
proof -
  from assms(2) obtain a st' where f: "f (jsw (jw v)) = Inr (a, st')" and n: "new_sock a (jsw (jw v)) st'"
    by blast
  have "jprocs_ok ((jw v)\<lparr>jsw := st'\<rparr>)"
    by (rule jprocs_ok_jsw) (use assms(1) n in \<open>simp_all add: jinv_alt new_sock_def\<close>)
  with f n assms(1) show ?thesis
    by (auto simp: with_socks_def service_socket_def jinv_alt)
qed

lemma create_local_service_socket_ok:
  assumes env: "env_ok env" and inv: "jinv (jw v)"
  shows "\<exists>r. create_local_service_socket env name v = Inr r \<and> service_socket r"
proof -
  have i: "sinv (jsw (jw v))" using inv by (simp add: jinv_alt)
  consider (jdwp) "name = bytes_of_str ''jdwp''"
    | (track) "name \<noteq> bytes_of_str ''jdwp''" "name = bytes_of_str ''track-jdwp''"
    | (other) "name \<noteq> bytes_of_str ''jdwp''" "name \<noteq> bytes_of_str ''track-jdwp''" by blast
  then show ?thesis
  proof cases
    case jdwp
    with with_socks_new [where f = create_jdwp_service_socket, OF inv create_jdwp_new(1) [OF i]] show ?thesis
      by (auto simp: create_local_service_socket_def)
  next
    case track
    with with_socks_new [where f = create_jdwp_tracker_service_socket, OF inv create_jdwp_new(2) [OF i]] show ?thesis
      by (auto simp: create_local_service_socket_def)
  next
    case other
    from service_to_fd_ok [OF env inv, of name] obtain ret fds v1 where
      r: "service_to_fd env name v = Inr (ret, fds, v1)" and ok: "svc_ok (ret, fds, v1)"
      by (auto simp: svc_fine_def)
    show ?thesis
    proof (cases "ret < 0")
      case True
      with other r ok show ?thesis
        by (simp add: create_local_service_socket_def service_socket_def svc_ok_def)
    next
      case False
      with ok obtain rfd wfd where fds: "fds = Some (rfd, wfd)" and inv1: "jinv (jw v1)"
        by (auto simp: svc_ok_def)
      from inv1 have i1: "sinv (jsw (jw v1))" by (simp add: jinv_alt)
      let ?f = "if rfd = wfd then create_local_socket rfd else create_local_socket_pair rfd wfd"
      have "\<exists>a st'. ?f (jsw (jw v1)) = Inr (a, st') \<and> new_sock a (jsw (jw v1)) st'"
      proof (cases "rfd = wfd")
        case True
        with create_local_socket_new(1) [OF i1, of rfd] show ?thesis by auto
      next
        case False
        with create_local_socket_new(2) [OF i1, of rfd wfd] show ?thesis by auto
      qed
      from with_socks_new [where f = ?f, OF inv1 this] obtain a v2 where
        a: "with_socks ?f v1 = Inr (a, v2)" and s2: "service_socket (Some a, v2)" by blast
      from s2 obtain st where st: "sinv st" "new_sock a st (jsw (jw v2))" "jprocs_ok (jw v2)"
        by (auto simp: service_socket_def)
      have "\<exists>st2. upd a (\<lambda>s. s\<lparr>exit_on_close := True\<rparr>) (jsw (jw v2)) = Inr st2 \<and> new_sock a st st2"
        by (rule new_sock_upd [OF st(2)]) (simp_all add: sock_ok_def local_kind_def)
      then obtain st2 where st2: "upd a (\<lambda>s. s\<lparr>exit_on_close := True\<rparr>) (jsw (jw v2)) = Inr st2"
        "new_sock a st st2" by blast
      let ?v = "v2\<lparr>jw := (jw v2)\<lparr>jsw := st2\<rparr>\<rparr>"
      have "jprocs_ok ((jw v2)\<lparr>jsw := st2\<rparr>)"
        by (rule jprocs_ok_jsw [OF st(3)]) (use st(2) st2(2) in \<open>simp add: new_sock_def\<close>)
      then have sv: "service_socket (Some a, ?v)" using st(1) st2(2) by (auto simp: service_socket_def)
      have e: "with_socks (\<lambda>st. seq (upd a (\<lambda>s. s\<lparr>exit_on_close := True\<rparr>) st) (\<lambda>st. Inr ((), st))) v2 = Inr ((), ?v)"
        using st2(1) by (simp add: with_socks_def)
      have "create_local_service_socket env name v = Inr (Some a, ?v) \<or>
          create_local_service_socket env name v = Inr (Some a, v2)"
        unfolding create_local_service_socket_def using False other r fds a e by simp
      with sv s2 show ?thesis by auto
    qed
  qed
qed

end
