(* ===== verification/Mounts.thy ===== *)
theory Mounts
  imports Services
begin

text \<open>
  Reading the table of mounted file systems, \<open>/proc/mounts\<close>: \<open>remount_ro_done\<close> and \<open>remount_ro\<close> of
  \<open>src/android_reboot.c\<close>, \<open>find_mount\<close> of \<open>src/remount_service.c\<close>. The conversions of \<open>scanf\<close> that the
  code uses are functions from the text to what they stored and the text behind it.
\<close>

section \<open>Conversions of scanf\<close>

text \<open>\<open>%s\<close> with a maximal width; \<open>None\<close> is the end of the input.\<close>

definition scan_str :: "nat \<Rightarrow> byte list \<Rightarrow> (byte list \<times> byte list) option" where
  "scan_str w s =
     (let s = dropWhile is_space s; f = take w (takeWhile (\<lambda>b. \<not> is_space b) s) in
      if s = [] then None else Some (f, drop (length f) s))"

text \<open>\<open>%d\<close>, whose value is not used: whether digits were found.\<close>

definition scan_num :: "byte list \<Rightarrow> (bool \<times> byte list) option" where
  "scan_num s =
     (let s = dropWhile is_space s in
      if s = [] then None
      else
        let s = (if hd s = 43 \<or> hd s = 45 then tl s else s) in
        Some (takeWhile is_digit s \<noteq> [], dropWhile is_digit s))"

text \<open>The two numbers at the end of both formats; the number of conversions done and the rest.\<close>

definition scan_tail :: "int \<Rightarrow> byte list \<Rightarrow> int \<times> byte list" where
  "scan_tail n s =
     (case scan_num s of
        None \<Rightarrow> (n, [])
      | Some (ok, s) \<Rightarrow>
          if \<not> ok then (n, s)
          else case scan_num s of
            None \<Rightarrow> (n + 1, [])
          | Some (ok, s) \<Rightarrow> if \<not> ok then (n + 1, s) else (n + 2, dropWhile is_space s))"

text \<open>
  \<open>"%255s %255s %255s %255s %d %d\n"\<close>: the result of \<open>fscanf\<close> (-1 for \<open>EOF\<close>), the device, the options and
  the rest.
\<close>

definition scan_mount :: "byte list \<Rightarrow> int \<times> byte list \<times> byte list \<times> byte list" where
  "scan_mount s =
     (case scan_str 255 s of
        None \<Rightarrow> (-1, [], [], [])
      | Some (dev, s) \<Rightarrow>
          case scan_str 255 s of
            None \<Rightarrow> (1, dev, [], [])
          | Some (dir, s) \<Rightarrow>
              case scan_str 255 s of
                None \<Rightarrow> (2, dev, [], [])
              | Some (type, s) \<Rightarrow>
                  case scan_str 255 s of
                    None \<Rightarrow> (3, dev, [], [])
                  | Some (opts, s) \<Rightarrow> case scan_tail 4 s of (n, s) \<Rightarrow> (n, dev, opts, s))"

text \<open>\<open>"%255s %255s %*s %*s %d %d\n"\<close>: the result, the device and the directory.\<close>

definition scan_mount_dir :: "byte list \<Rightarrow> int \<times> byte list \<times> byte list" where
  "scan_mount_dir s =
     (case scan_str 255 s of
        None \<Rightarrow> (-1, [], [])
      | Some (dev, s) \<Rightarrow>
          case scan_str 255 s of
            None \<Rightarrow> (1, dev, [])
          | Some (dir, s) \<Rightarrow>
              case scan_str (length s) s of
                None \<Rightarrow> (2, dev, dir)
              | Some (_, s) \<Rightarrow>
                  case scan_str (length s) s of
                    None \<Rightarrow> (2, dev, dir)
                  | Some (_, s) \<Rightarrow> (fst (scan_tail 2 s), dev, dir))"

section \<open>Waiting until everything is read-only\<close>

fun strstr :: "byte list \<Rightarrow> byte list \<Rightarrow> bool" where
  "strstr [] p = (p = [])"
| "strstr (c # s) p = (prefix p (c # s) \<or> strstr s p)"

lemma scan_str_shorter: "0 < w \<Longrightarrow> scan_str w s = Some (f, r) \<Longrightarrow> length r < length s"
proof -
  assume w: "0 < w" and s: "scan_str w s = Some (f, r)"
  let ?s = "dropWhile is_space s"
  from s have ne: "?s \<noteq> []" and r: "r = drop (length (take w (takeWhile (\<lambda>b. \<not> is_space b) ?s))) ?s"
    by (auto simp: scan_str_def Let_def split: if_splits)
  from ne have "\<not> is_space (hd ?s)" by (rule hd_dropWhile)
  with ne w have "0 < length (take w (takeWhile (\<lambda>b. \<not> is_space b) ?s))" by (cases ?s) auto
  with ne r have "length r < length ?s" by (cases ?s) (auto simp: min_def)
  then show ?thesis using length_dropWhile_le [of is_space s] by simp
qed

lemma scan_num_shorter: "scan_num s = Some (ok, r) \<Longrightarrow> length r \<le> length s"
proof -
  assume s: "scan_num s = Some (ok, r)"
  define t where "t = dropWhile is_space s"
  define u where "u = (if hd t = 43 \<or> hd t = 45 then tl t else t)"
  have "r = dropWhile is_digit u"
    using s by (auto simp: scan_num_def Let_def t_def u_def split: if_splits)
  then have "length r \<le> length u" by (simp add: length_dropWhile_le)
  also have "\<dots> \<le> length t" by (cases t) (auto simp: u_def)
  also have "\<dots> \<le> length s" by (simp add: t_def length_dropWhile_le)
  finally show ?thesis .
qed

lemma scan_tail_shorter: "scan_tail n s = (m, r) \<Longrightarrow> length r \<le> length s"
  by (auto simp: scan_tail_def split: option.splits prod.splits if_splits
      dest!: scan_num_shorter intro: order_trans [OF length_dropWhile_le] order_trans)

lemma scan_mount_shorter: "scan_mount s = (m, dev, opts, r) \<Longrightarrow> m \<noteq> -1 \<Longrightarrow> length r < length s"
  by (auto simp: scan_mount_def split: option.splits prod.splits
      dest!: scan_str_shorter [rotated] scan_tail_shorter)

text \<open>The loop over the entries; \<open>True\<close> when a writable file system on a block device is found.\<close>

function found_rw_fs :: "byte list \<Rightarrow> bool" where
  "found_rw_fs s =
     (case scan_mount s of (m, dev, opts, rest) \<Rightarrow>
        if m = 6 \<and> take 10 dev = bytes_of_str ''/dev/block'' \<and> strstr (takeWhile (\<lambda>b. b \<noteq> 0) opts) (bytes_of_str ''rw'') then True
        else if m \<noteq> -1 then found_rw_fs rest
        else False)"
  by pat_completeness auto
termination
  by (relation "measure length") (auto dest: scan_mount_shorter [OF sym])

declare found_rw_fs.simps [simp del]

text \<open>\<open>None\<close>: the memory or the file is not there.\<close>

definition remount_ro_done :: "byte list option \<Rightarrow> bool" where
  "remount_ro_done mounts = (case mounts of None \<Rightarrow> True | Some s \<Rightarrow> \<not> found_rw_fs s)"

text \<open>
  The waiting loop of \<open>remount_ro\<close>: \<open>mounts n\<close> is what the \<open>n\<close>-th look finds; the result is the number of
  times it sleeps.
\<close>

function wait_ro :: "(nat \<Rightarrow> byte list option) \<Rightarrow> nat \<Rightarrow> nat" where
  "wait_ro mounts cnt = (if \<not> remount_ro_done (mounts cnt) \<and> cnt < 50 then wait_ro mounts (cnt + 1) else cnt)"
  by pat_completeness auto
termination
  by (relation "measure (\<lambda>(m, cnt). 50 - cnt)") auto

declare wait_ro.simps [simp del]

section \<open>Finding the device of a directory\<close>

text \<open>\<open>strtok\<close> with a newline: the non-empty lines.\<close>

fun lines_of :: "byte list \<Rightarrow> byte list \<Rightarrow> byte list list" where
  "lines_of cur [] = (if cur = [] then [] else [rev cur])"
| "lines_of cur (b # s) =
     (if b = 10 then if cur = [] then lines_of [] s else rev cur # lines_of [] s
      else lines_of (b # cur) s)"

fun search_mounts :: "byte list \<Rightarrow> byte list list \<Rightarrow> byte list option" where
  "search_mounts dir [] = None"
| "search_mounts dir (t # ts) =
     (case scan_mount_dir t of (res, dev, mdir) \<Rightarrow>
        if res = 4 \<and> dir = mdir then Some dev else search_mounts dir ts)"

text \<open>
  \<open>memory\<close> is what the fresh buffer of 4096 bytes happens to hold, \<open>got\<close> the bytes of the only read
  (\<open>None\<close>: the file is not opened), of which there are at most 4095.
\<close>

definition find_mount :: "byte list \<Rightarrow> byte list option \<Rightarrow> byte list \<Rightarrow> byte list option" where
  "find_mount memory got dir =
     (case got of
        None \<Rightarrow> None
      | Some bs \<Rightarrow>
          let buf = take 4095 bs @ take (4095 - length bs) (drop (length bs) memory) @ [0] in
          search_mounts dir (lines_of [] (takeWhile (\<lambda>b. b \<noteq> 0) buf)))"

section \<open>What the kernel writes\<close>

record mount_entry =
  mdev :: "byte list"
  mdir :: "byte list"
  mtype :: "byte list"
  mopts :: "byte list"

definition mount_line :: "mount_entry \<Rightarrow> byte list" where
  "mount_line e = mdev e @ [32] @ mdir e @ [32] @ mtype e @ [32] @ mopts e @ [32, 48, 32, 48]"

definition mounts_text :: "mount_entry list \<Rightarrow> byte list" where
  "mounts_text es = concat (map (\<lambda>e. mount_line e @ [10]) es)"

definition field_ok :: "byte list \<Rightarrow> bool" where
  "field_ok f \<longleftrightarrow> f \<noteq> [] \<and> length f \<le> 255 \<and> (\<forall>b\<in>set f. \<not> is_space b \<and> b \<noteq> 0)"

definition entry_ok :: "mount_entry \<Rightarrow> bool" where
  "entry_ok e \<longleftrightarrow> field_ok (mdev e) \<and> field_ok (mdir e) \<and> field_ok (mtype e) \<and> field_ok (mopts e)"

lemma scan_str_field:
  assumes f: "field_ok f" and w: "length f \<le> w" and r: "is_space b"
  shows "scan_str w (f @ b # r) = Some (f, b # r)" "scan_str w (32 # f @ b # r) = Some (f, b # r)"
proof -
  have d: "dropWhile is_space (f @ b # r) = f @ b # r"
    using f by (cases f) (auto simp: field_ok_def)
  have "dropWhile is_space (32 # f @ b # r) = f @ b # r"
    using d by (simp add: is_space_def)
  moreover have "takeWhile (\<lambda>b. \<not> is_space b) (f @ b # r) = f"
    using f r by (subst takeWhile_append2) (auto simp: field_ok_def)
  moreover have "take w f = f" using w by simp
  ultimately show "scan_str w (f @ b # r) = Some (f, b # r)" "scan_str w (32 # f @ b # r) = Some (f, b # r)"
    using d by (simp_all add: scan_str_def Let_def)
qed

lemma space_32 [simp]: "is_space 32"
  by (simp add: is_space_def)

lemma scan_zeros: "scan_tail n (32 # 48 # 32 # 48 # 10 # r) = (n + 2, dropWhile is_space r)" "scan_tail n [32, 48, 32, 48] = (n + 2, [])"
  by (simp_all add: scan_tail_def scan_num_def is_space_def is_digit_def)

lemma field_length: "field_ok f \<Longrightarrow> length f \<le> 255" by (simp add: field_ok_def)

lemma scan_mount_line:
  assumes "entry_ok e"
  shows "scan_mount (mount_line e @ 10 # r) = (6, mdev e, mopts e, dropWhile is_space r)"
  using assms by (simp add: entry_ok_def mount_line_def scan_mount_def scan_str_field field_length scan_zeros)

lemma scan_dir_line:
  assumes "entry_ok e" shows "scan_mount_dir (mount_line e) = (4, mdev e, mdir e)"
  using assms by (simp add: entry_ok_def mount_line_def scan_mount_dir_def scan_str_field field_length scan_zeros)

lemma text_start: "\<forall>e\<in>set es. entry_ok e \<Longrightarrow> dropWhile is_space (mounts_text es) = mounts_text es"
  by (cases es; cases "mdev (hd es)") (auto simp: mounts_text_def mount_line_def entry_ok_def field_ok_def)

lemma strip_zero: "field_ok f \<Longrightarrow> takeWhile (\<lambda>b. b \<noteq> 0) f = f"
  by (auto simp: field_ok_def takeWhile_eq_all_conv)

lemma found_rw_fs_text:
  assumes "\<forall>e\<in>set es. entry_ok e"
  shows "found_rw_fs (mounts_text es) \<longleftrightarrow>
    (\<exists>e\<in>set es. take 10 (mdev e) = bytes_of_str ''/dev/block'' \<and> strstr (mopts e) (bytes_of_str ''rw''))"
  using assms
proof (induction es)
  case Nil
  show ?case by (simp add: mounts_text_def found_rw_fs.simps [of "[]"] scan_mount_def scan_str_def)
next
  case (Cons e es)
  then have "scan_mount (mounts_text (e # es)) = (6, mdev e, mopts e, mounts_text es)"
    using scan_mount_line [of e "mounts_text es"] text_start [of es] by (simp add: mounts_text_def)
  moreover have "field_ok (mopts e)" using Cons.prems by (simp add: entry_ok_def)
  ultimately show ?case
    using Cons by (auto simp: found_rw_fs.simps [of "mounts_text (e # es)"] strip_zero)
qed

lemma wait_ro_steps:
  "cnt \<le> 50 \<Longrightarrow> cnt \<le> wait_ro m cnt \<and> wait_ro m cnt \<le> 50 \<and> (\<forall>j. cnt \<le> j \<and> j < wait_ro m cnt \<longrightarrow> \<not> remount_ro_done (m j)) \<and>
   (wait_ro m cnt < 50 \<longrightarrow> remount_ro_done (m (wait_ro m cnt)))"
proof (induction m cnt rule: wait_ro.induct)
  case (1 m cnt)
  show ?case
  proof (cases "\<not> remount_ro_done (m cnt) \<and> cnt < 50")
    case True
    have "wait_ro m cnt = wait_ro m (cnt + 1)" using True by (subst wait_ro.simps) simp
    moreover have "cnt \<le> j \<longleftrightarrow> j = cnt \<or> cnt + 1 \<le> j" for j by auto
    ultimately show ?thesis using True 1 by auto
  next
    case False
    have "wait_ro m cnt = cnt" using False by (subst wait_ro.simps) auto
    with False 1 show ?thesis by auto
  qed
qed

text \<open>
  Before a reboot the daemon waits for the file systems to become read-only, and never for long: it
  looks at the table until no writable file system on a block device is left, pausing at most
  fifty times, whatever the kernel reports.
\<close>

theorem remount_wait_bounded:
  "wait_ro mounts 0 \<le> 50 \<and> (\<forall>j < wait_ro mounts 0. \<not> remount_ro_done (mounts j)) \<and>
   (wait_ro mounts 0 < 50 \<longrightarrow> remount_ro_done (mounts (wait_ro mounts 0)))"
  using wait_ro_steps [of 0 mounts] by simp

definition demo_rw :: mount_entry where
  "demo_rw = \<lparr>mdev = bytes_of_str ''/dev/block/1'', mdir = bytes_of_str ''/system'', mtype = bytes_of_str ''ext4'', mopts = bytes_of_str ''rw''\<rparr>"

definition demo_proc_entry :: mount_entry where
  "demo_proc_entry = \<lparr>mdev = bytes_of_str ''proc'', mdir = bytes_of_str ''/proc'', mtype = bytes_of_str ''proc'', mopts = bytes_of_str ''rw''\<rparr>"

lemma demo_mounts_ok: "\<forall>e\<in>set [demo_rw, demo_proc_entry]. entry_ok e"
  by (simp add: demo_rw_def demo_proc_entry_def entry_ok_def field_ok_def bytes_of_str_def is_space_def)

theorem remount_wait_bounded_witness:
  "wait_ro (\<lambda>n. if n < 3 then Some (mounts_text [demo_rw]) else Some (mounts_text [demo_proc_entry])) 0 = 3"
proof -
  let ?m = "\<lambda>n :: nat. if n < 3 then Some (mounts_text [demo_rw]) else Some (mounts_text [demo_proc_entry])"
  have d: "remount_ro_done (?m n) \<longleftrightarrow> \<not> n < 3" for n
    using demo_mounts_ok found_rw_fs_text [of "[demo_rw]"] found_rw_fs_text [of "[demo_proc_entry]"]
    by (simp add: remount_ro_done_def) (simp add: demo_rw_def demo_proc_entry_def bytes_of_str_def)
  define w where "w = wait_ro ?m 0"
  have w: "\<forall>j < w. j < 3" "w < 50 \<longrightarrow> \<not> w < 3"
    using remount_wait_bounded [of ?m] unfolding d w_def [symmetric] by simp_all
  from w(1) have "\<not> 3 < w" by auto
  with w(2) show ?thesis unfolding w_def [symmetric] by simp
qed

text \<open>
  The look at the table is right: on a table as the kernel writes it, every writable file system on
  a block device is seen, and nothing else stops the wait.
\<close>

theorem remount_ro_done_iff:
  assumes "\<forall>e\<in>set es. entry_ok e"
  shows "remount_ro_done (Some (mounts_text es)) \<longleftrightarrow>
    (\<forall>e\<in>set es. take 10 (mdev e) = bytes_of_str ''/dev/block'' \<longrightarrow> \<not> strstr (mopts e) (bytes_of_str ''rw''))"
  using found_rw_fs_text [OF assms] by (auto simp: remount_ro_done_def)

theorem remount_ro_done_iff_witness: "\<not> remount_ro_done (Some (mounts_text [demo_rw, demo_proc_entry]))"
  using remount_ro_done_iff [OF demo_mounts_ok] by (simp add: demo_rw_def bytes_of_str_def)

section \<open>The device of a directory\<close>

lemma line_plain: "entry_ok e \<Longrightarrow> \<forall>b\<in>set (mount_line e). b \<noteq> 10 \<and> b \<noteq> 0"
  by (auto simp: mount_line_def entry_ok_def field_ok_def is_space_def)

lemma lines_of_cur: "\<forall>b\<in>set l. b \<noteq> 10 \<Longrightarrow> lines_of cur (l @ s) = lines_of (rev l @ cur) s"
  by (induction l arbitrary: cur) auto

lemma lines_of_line:
  assumes "entry_ok e" shows "lines_of [] (mount_line e @ 10 # s) = mount_line e # lines_of [] s"
  using line_plain [OF assms] by (subst lines_of_cur) (auto simp: mount_line_def)

lemma lines_of_text: "\<forall>e\<in>set es. entry_ok e \<Longrightarrow> lines_of [] (mounts_text es) = map mount_line es"
  by (induction es) (simp_all add: mounts_text_def lines_of_line)

lemma search_mounts_text:
  "\<forall>e\<in>set es. entry_ok e \<Longrightarrow>
   search_mounts dir (map mount_line es) = map_option mdev (find (\<lambda>e. mdir e = dir) es)"
  by (induction es) (auto simp: scan_dir_line)

text \<open>
  \<open>find_mount\<close> returns the device of the first entry for the directory, when the table fits into the
  buffer and the byte behind it happens to be zero.
\<close>

theorem find_mount_first:
  assumes "\<forall>e\<in>set es. entry_ok e" and "length (mounts_text es) \<le> 4095" and "length memory = 4096"
    and "memory ! length (mounts_text es) = 0"
  shows "find_mount memory (Some (mounts_text es)) dir = map_option mdev (find (\<lambda>e. mdir e = dir) es)"
proof -
  let ?t = "mounts_text es"
  have plain: "\<forall>b\<in>set ?t. b \<noteq> 0" using assms(1) by (auto simp: mounts_text_def dest: line_plain)
  have "takeWhile (\<lambda>b. b \<noteq> 0) (take (4095 - length ?t) (drop (length ?t) memory) @ [0]) = []"
    using assms(2-4) by (cases "length ?t = 4095") (auto simp: takeWhile_eq_Nil_iff hd_append hd_drop_conv_nth)
  then have "takeWhile (\<lambda>b. b \<noteq> 0) (?t @ take (4095 - length ?t) (drop (length ?t) memory) @ [0]) = ?t"
    using plain by (subst takeWhile_append2) auto
  then show ?thesis
    using assms(2) lines_of_text [OF assms(1)] search_mounts_text [OF assms(1)] by (simp add: find_mount_def)
qed

theorem find_mount_first_witness:
  "find_mount (replicate 4096 0) (Some (mounts_text [demo_proc_entry, demo_rw])) (bytes_of_str ''/system'') =
     Some (bytes_of_str ''/dev/block/1'')"
proof -
  have "length (mounts_text [demo_proc_entry, demo_rw]) \<le> 4095"
    by (simp add: mounts_text_def mount_line_def demo_proc_entry_def demo_rw_def)
  then have "find_mount (replicate 4096 0) (Some (mounts_text [demo_proc_entry, demo_rw])) (bytes_of_str ''/system'') =
    map_option mdev (find (\<lambda>e. mdir e = bytes_of_str ''/system'') [demo_proc_entry, demo_rw])"
    using demo_mounts_ok by (intro find_mount_first) auto
  then show ?thesis by (simp add: demo_proc_entry_def demo_rw_def bytes_of_str_def)
qed

end
