(* ===== verification/Service_Threads.thy ===== *)
theory Service_Threads
  imports Mounts
begin

text \<open>
  The bodies of the service threads: \<open>recover_service\<close>, the restart services, \<open>reboot_service\<close> and the
  waiter of \<open>src/services.c\<close>, \<open>log_service\<close>, \<open>remount_service\<close>, \<open>framebuffer_service\<close>, \<open>android_reboot\<close> and
  the waiter of \<open>src/backup_service.c\<close>. A thread has the two descriptors of its service; what the kernel
  answers on each descriptor is a list, as in the system-call loops, and every byte sent and
  every descriptor opened or closed is recorded.
\<close>

section \<open>Running a thread\<close>

text \<open>A thread returns, waits for ever in a call, or does something undefined.\<close>

datatype misuse = Uninitialised | OverRun

datatype 'a run = Ret 'a | Hang | Undef misuse

definition bindr :: "'a run \<Rightarrow> ('a \<Rightarrow> 'b run) \<Rightarrow> 'b run" where
  "bindr m f = (case m of Ret x \<Rightarrow> f x | Hang \<Rightarrow> Hang | Undef u \<Rightarrow> Undef u)"

lemma bindr_simps [simp]: "bindr (Ret x) f = f x" "bindr Hang f = Hang" "bindr (Undef u) f = Undef u"
  by (simp_all add: bindr_def)

lemma bindr_cong [fundef_cong]: "m = m' \<Longrightarrow> (\<And>x. m' = Ret x \<Longrightarrow> f x = g x) \<Longrightarrow> bindr m f = bindr m' g"
  by (cases m') auto

lemma bindr_Ret: "bindr m f = Ret y \<longleftrightarrow> (\<exists>x. m = Ret x \<and> f x = Ret y)"
  by (cases m) auto

datatype act = Synced | RemountAll | Paused nat | Spawned "byte list list" | Waited int
  | Rebooted u32 "byte list" | Mounted "byte list" | Created string

datatype fd_event = Opens int | Closes int

record tworld =
  rk :: "int \<Rightarrow> rd_answer list"
  wk :: "int \<Rightarrow> wr_answer list"
  sent :: "int \<Rightarrow> byte list"
  fdlog :: "fd_event list"
  acts :: "act list"
  system_ro :: int

definition readx_on :: "int \<Rightarrow> nat \<Rightarrow> tworld \<Rightarrow> (byte list option \<times> tworld) run" where
  "readx_on fd n w =
     (case readx n (rk w fd) of None \<Rightarrow> Hang | Some (r, k) \<Rightarrow> Ret (r, w\<lparr>rk := (rk w)(fd := k)\<rparr>))"

definition writex_on :: "int \<Rightarrow> byte list \<Rightarrow> tworld \<Rightarrow> (bool \<times> tworld) run" where
  "writex_on fd bs w =
     (case writex bs (wk w fd) of (out, r, k) \<Rightarrow>
        (case r of
           None \<Rightarrow> Hang
         | Some ok \<Rightarrow> Ret (ok, w\<lparr>wk := (wk w)(fd := k), sent := (sent w)(fd := sent w fd @ out)\<rparr>)))"

definition close_on :: "int \<Rightarrow> tworld \<Rightarrow> tworld" where
  "close_on fd w = w\<lparr>fdlog := fdlog w @ [Closes fd]\<rparr>"

text \<open>A call that opens a file: it answers with a new descriptor or with a negative number.\<close>

definition open_on :: "int \<Rightarrow> tworld \<Rightarrow> tworld" where
  "open_on fd w = (if fd < 0 then w else w\<lparr>fdlog := fdlog w @ [Opens fd]\<rparr>)"

definition act_on :: "act \<Rightarrow> tworld \<Rightarrow> tworld" where
  "act_on a w = w\<lparr>acts := acts w @ [a]\<rparr>"

definition text_line :: "string \<Rightarrow> byte list" where
  "text_line s = bytes_of_str s @ [10]"

text \<open>A message to the client, whose result is not looked at, and the two closes at the end.\<close>

definition say :: "int \<Rightarrow> byte list \<Rightarrow> tworld \<Rightarrow> tworld run" where
  "say fd bs w = bindr (writex_on fd bs w) (\<lambda>(_, w). Ret w)"

definition close_both :: "int \<Rightarrow> int \<Rightarrow> tworld \<Rightarrow> tworld" where
  "close_both rfd wfd w = close_on wfd (close_on rfd w)"

text \<open>
  The answers of the kernel and the C library that are not reads and writes, and what uninitialised
  variables happen to hold.
\<close>

record tenv =
  t_malloc :: bool
  creat_update :: int
  creat_begin :: int
  t_getuid :: int
  stack_value :: "byte list"
  t_fork :: int
  t_exec :: bool
  external_storage :: "byte list option"
  sysrq :: int
  proc_mounts :: "nat \<Rightarrow> byte list option"
  reboot_ret :: int
  strerror :: "byte list"
  log_open :: int
  heap :: "byte list"
  mount_ret :: int
  fb_pipe :: "(int \<times> int) option"
  wait_results :: "int list"
  notify_fd :: int

section \<open>Starting a shell without a terminal\<close>

text \<open>
  The variant of \<open>create_subprocess\<close> without a pseudo terminal: the child gets the end of file on its
  input at once, and its output through a pipe, whose reading end is returned.
\<close>

definition create_subprocess_pipe :: "svc_env \<Rightarrow> byte list list \<Rightarrow> vworld \<Rightarrow> int \<times> int \<times> vworld" where
  "create_subprocess_pipe env argv v =
     (case pipe_answer 0 env of
        None \<Rightarrow> (-1, junk_int env, v)
      | Some (in0, in1) \<Rightarrow>
          case pipe_answer 1 env of
            None \<Rightarrow> (-1, junk_int env, close_fds [in0, in1] v)
          | Some (out0, out1) \<Rightarrow>
              if fork_pid env < 0 then (-1, fork_pid env, close_fds [in0, in1, out0, out1] v)
              else (out0, fork_pid env, close_fds [in0, in1, out1] (v\<lparr>children := children v @ [argv]\<rparr>)))"

lemma children_close_fds [simp]: "children (close_fds ds v) = children v"
  by (induction ds arbitrary: v) (simp_all add: close_fds_def vemit_def)

lemma create_subprocess_pipe_child:
  assumes "\<And>a b. pipe_answer 1 env = Some (a, b) \<Longrightarrow> 0 \<le> a"
  shows "children (snd (snd (create_subprocess_pipe env argv v))) =
    children v @ (if fst (create_subprocess_pipe env argv v) = -1 then [] else [argv])"
proof (cases "pipe_answer 1 env")
  case (Some p)
  then show ?thesis
    using assms [of "fst p" "snd p"] by (cases p) (simp add: create_subprocess_pipe_def split: option.split)
qed (simp add: create_subprocess_pipe_def split: option.split)

section \<open>Receiving an update\<close>

text \<open>The copying loop; the result is what is left of \<open>count\<close>.\<close>

function recover_loop :: "int \<Rightarrow> int \<Rightarrow> nat \<Rightarrow> tworld \<Rightarrow> (nat \<times> tworld) run" where
  "recover_loop rfd fd count w =
     (if count > 0 then
        let xfer = (if count > 4096 then 4096 else count) in
        bindr (readx_on rfd xfer w) (\<lambda>(r, w).
        case r of
          None \<Rightarrow> Ret (count, w)
        | Some buf \<Rightarrow>
            bindr (writex_on fd buf w) (\<lambda>(ok, w).
            if \<not> ok then Ret (count, w) else recover_loop rfd fd (count - xfer) w))
      else Ret (0, w))"
  by pat_completeness auto
termination
  by (relation "measure (\<lambda>(rfd, fd, count, w). count)") auto

declare recover_loop.simps [simp del]

definition recover_service :: "tenv \<Rightarrow> u32 \<Rightarrow> int \<Rightarrow> int \<Rightarrow> tworld \<Rightarrow> tworld run" where
  "recover_service env count rfd wfd w =
     (if \<not> t_malloc env then Ret (close_both rfd wfd w)
      else
        let fd = creat_update env in
        if fd < 0 then Ret (close_both rfd wfd w)
        else
          bindr (recover_loop rfd fd (unat count) (open_on fd (act_on (Created ''/tmp/update'') w))) (\<lambda>(left, w).
          bindr (say wfd (bytes_of_str (if left = 0 then ''OKAY'' else ''FAIL'')) w) (\<lambda>w.
          let w = act_on (Created ''/tmp/update.begin'') (close_both rfd wfd (close_on fd w)) in
          Ret (close_on (creat_begin env) (open_on (creat_begin env) w)))))"

section \<open>Restarting\<close>

text \<open>
  The property that would say whether the build is debuggable is not read: the array keeps what the
  stack holds, and an array without a zero is read past its end.
\<close>

definition restart_root_service :: "tenv \<Rightarrow> int \<Rightarrow> int \<Rightarrow> tworld \<Rightarrow> tworld run" where
  "restart_root_service env rfd wfd w =
     (if t_getuid env = 0 then
        bindr (say wfd (text_line ''adbd is already running as root'') w) (\<lambda>w. Ret (close_both rfd wfd w))
      else
        case c_string (stack_value env) of
          None \<Rightarrow> Undef OverRun
        | Some value \<Rightarrow>
            bindr (say wfd (text_line
              (if value \<noteq> bytes_of_str ''1'' then ''adbd cannot run as root in production builds''
               else ''restarting adbd as root'')) w) (\<lambda>w. Ret (close_both rfd wfd w)))"

definition restart_tcp_service :: "int \<Rightarrow> int \<Rightarrow> int \<Rightarrow> tworld \<Rightarrow> tworld run" where
  "restart_tcp_service port rfd wfd w =
     bindr (say wfd
       (if port \<le> 0 then text_line ''invalid port''
        else bytes_of_str ''restarting in TCP mode port: '' @ dec_digits (nat port) @ [10]) w)
       (\<lambda>w. Ret (close_both rfd wfd w))"

definition restart_usb_service :: "int \<Rightarrow> int \<Rightarrow> tworld \<Rightarrow> tworld run" where
  "restart_usb_service rfd wfd w =
     bindr (say wfd (text_line ''restarting in USB mode'') w) (\<lambda>w. Ret (close_both rfd wfd w))"

section \<open>Rebooting\<close>

definition ANDROID_RB_RESTART :: u32 where "ANDROID_RB_RESTART = 0xDEAD0001"
definition ANDROID_RB_POWEROFF :: u32 where "ANDROID_RB_POWEROFF = 0xDEAD0002"
definition ANDROID_RB_RESTART2 :: u32 where "ANDROID_RB_RESTART2 = 0xDEAD0003"
definition ANDROID_RB_FLAG_NO_SYNC :: u32 where "ANDROID_RB_FLAG_NO_SYNC = 1"
definition ANDROID_RB_FLAG_NO_REMOUNT_RO :: u32 where "ANDROID_RB_FLAG_NO_REMOUNT_RO = 2"

definition remount_ro :: "tenv \<Rightarrow> tworld \<Rightarrow> tworld" where
  "remount_ro env w =
     (let fd = sysrq env in
      if fd < 0 then w
      else act_on (Paused (wait_ro (proc_mounts env) 0)) (close_on fd (act_on RemountAll (open_on fd w))))"

definition android_reboot :: "tenv \<Rightarrow> u32 \<Rightarrow> u32 \<Rightarrow> byte list \<Rightarrow> tworld \<Rightarrow> int \<times> tworld" where
  "android_reboot env cmd flags arg w =
     (let w = (if flags AND ANDROID_RB_FLAG_NO_SYNC = 0 then act_on Synced w else w);
          w = (if flags AND ANDROID_RB_FLAG_NO_REMOUNT_RO = 0 then remount_ro env w else w) in
      if cmd = ANDROID_RB_RESTART \<or> cmd = ANDROID_RB_POWEROFF then (reboot_ret env, act_on (Rebooted cmd []) w)
      else if cmd = ANDROID_RB_RESTART2 then (reboot_ret env, act_on (Rebooted cmd arg) w)
      else (-1, w))"

definition reboot_tail :: "tenv \<Rightarrow> byte list \<Rightarrow> int \<Rightarrow> tworld \<Rightarrow> tworld run" where
  "reboot_tail env arg wfd w =
     (case android_reboot env ANDROID_RB_RESTART2 0 arg w of (ret, w) \<Rightarrow>
      if ret < 0 then say wfd (take 99 (bytes_of_str ''reboot failed: '' @ strerror env @ [10])) w else Ret w)"

text \<open>
  The variant with \<open>fork\<close>. A child whose \<open>execl\<close> fails goes on after the block like its parent: it
  reboots the machine itself, closing descriptors of its own process only, and ends with its only thread. The parent waits for it. A negative
  \<open>t_fork\<close> means that there is no child.
\<close>

definition reboot_service :: "tenv \<Rightarrow> byte list \<Rightarrow> int \<Rightarrow> int \<Rightarrow> tworld \<Rightarrow> tworld run" where
  "reboot_service env arg rfd wfd w =
     (let w = act_on Synced w; pid = t_fork env in
      bindr (if pid > 0 then
               let w = act_on (Spawned (map bytes_of_str [''/system/bin/vdc'', ''volume'', ''unmount''] @
                     (case external_storage env of None \<Rightarrow> [] | Some dir \<Rightarrow> [dir, bytes_of_str ''force'']))) w in
               bindr (if t_exec env then Ret w
                      else bindr (reboot_tail env arg wfd w) (\<lambda>v. Ret (v\<lparr>fdlog := fdlog w\<rparr>)))
                 (\<lambda>w. Ret (act_on (Waited pid) w))
             else Ret w) (\<lambda>w.
      bindr (reboot_tail env arg wfd w) (\<lambda>w.
      Ret (close_both rfd wfd w))))"

section \<open>Logs\<close>

definition LOGGER_ENTRY_MAX_LEN :: nat where "LOGGER_ENTRY_MAX_LEN = 5 * 1024"
definition logger_entry_size :: nat where "logger_entry_size = 20"

definition write_log_entry :: "int \<Rightarrow> byte list \<Rightarrow> tworld \<Rightarrow> tworld run" where
  "write_log_entry fd buf w =
     (let sz = logger_entry_size + unat (of_le16 buf) in
      if sz > length buf then Undef OverRun else say fd (take sz buf) w)"

text \<open>
  The reading loop. Each answer of the log device is one entry, which goes to the start of the buffer
  \<open>buf\<close>; the zero behind the message is stored where the length in the entry says.
\<close>

fun log_loop :: "int \<Rightarrow> rd_answer list \<Rightarrow> byte list \<Rightarrow> tworld \<Rightarrow> tworld run" where
  "log_loop wfd [] buf w = Hang"
| "log_loop wfd (RdErr e # k) buf w = (if e = EINTR \<or> e = EAGAIN then log_loop wfd k buf w else Ret w)"
| "log_loop wfd (Chunk bs # k) buf w =
     (let bs = take LOGGER_ENTRY_MAX_LEN bs in
      if bs = [] then Ret w
      else
        let buf = bs @ drop (length bs) buf; i = logger_entry_size + unat (of_le16 buf) in
        if i \<ge> length buf then Undef OverRun
        else
          let buf = buf[i := 0] in
          bindr (write_log_entry wfd buf w) (\<lambda>w. log_loop wfd k buf w))"

text \<open>
  A log that cannot be opened jumps over the initialisation of \<open>buf\<close>, which is then freed. The descriptor of
  the log itself is never closed.
\<close>

definition log_service :: "tenv \<Rightarrow> int \<Rightarrow> int \<Rightarrow> tworld \<Rightarrow> tworld run" where
  "log_service env rfd wfd w =
     (let logfd = log_open env in
      if logfd < 0 then Undef Uninitialised
      else if \<not> t_malloc env then Ret (close_both wfd rfd (open_on logfd w))
      else
        bindr (log_loop wfd (rk w logfd) (heap env) (open_on logfd w)) (\<lambda>w. Ret (close_both wfd rfd w)))"

section \<open>Remounting\<close>

text \<open>The result and the new value of \<open>system_ro\<close>; the table is read once.\<close>

definition remount_system :: "tenv \<Rightarrow> tworld \<Rightarrow> int \<times> tworld" where
  "remount_system env w =
     (if system_ro w = 0 then (0, w)
      else
        case find_mount (heap env) (if t_malloc env then proc_mounts env 0 else None) (bytes_of_str ''/system'') of
          None \<Rightarrow> (-1, w)
        | Some dev \<Rightarrow> (mount_ret env, act_on (Mounted dev) w\<lparr>system_ro := mount_ret env\<rparr>))"

definition remount_service :: "tenv \<Rightarrow> int \<Rightarrow> int \<Rightarrow> tworld \<Rightarrow> tworld run" where
  "remount_service env rfd wfd w =
     (let (ret, w) = remount_system env w in
      bindr (say wfd (if ret = 0 then text_line ''remount succeeded''
        else take 199 (bytes_of_str ''remount failed: '' @ strerror env @ [10])) w)
        (\<lambda>w. Ret (close_both rfd wfd w)))"

section \<open>The screen\<close>

record fbinfo =
  version :: u32
  bpp :: u32
  fb_size :: u32
  width :: u32
  height :: u32
  red_offset :: u32
  red_length :: u32
  blue_offset :: u32
  blue_length :: u32
  green_offset :: u32
  green_length :: u32
  alpha_offset :: u32
  alpha_length :: u32

definition fbinfo_bytes :: "fbinfo \<Rightarrow> byte list" where
  "fbinfo_bytes i = concat (map le32 [version i, bpp i, fb_size i, width i, height i, red_offset i, red_length i,
     blue_offset i, blue_length i, green_offset i, green_length i, alpha_offset i, alpha_length i])"

definition DDMS_RAWIMAGE_VERSION :: u32 where "DDMS_RAWIMAGE_VERSION = 1"

text \<open>The switch over the pixel format; the product is computed in 32 bits.\<close>

definition fb_format :: "u32 \<Rightarrow> u32 \<Rightarrow> u32 \<Rightarrow> fbinfo option" where
  "fb_format w h f =
     (let info = (\<lambda>bits per ro rl go gl bo bl ao al.
            \<lparr>version = DDMS_RAWIMAGE_VERSION, bpp = bits, fb_size = w * h * per, width = w, height = h,
             red_offset = ro, red_length = rl, blue_offset = bo, blue_length = bl,
             green_offset = go, green_length = gl, alpha_offset = ao, alpha_length = al\<rparr>) in
      if f = 1 then Some (info 32 4 0 8 8 8 16 8 24 8)
      else if f = 2 then Some (info 32 4 0 8 8 8 16 8 24 0)
      else if f = 3 then Some (info 24 3 0 8 8 8 16 8 24 0)
      else if f = 4 then Some (info 16 2 11 5 5 6 0 5 0 0)
      else if f = 5 then Some (info 32 4 16 8 8 8 0 8 24 8)
      else None)"

text \<open>
  The loop over the blocks of 640 bytes, from \<open>i\<close>, which is unsigned. It ends because every round takes 640 bytes off
  what the source delivers.
\<close>

lemma readx_on_shrinks:
  "readx_on fd n w = Ret (Some buf, w') \<Longrightarrow> length (stream (rk w fd)) = n + length (stream (rk w' fd))"
  by (auto simp: readx_on_def split: option.splits dest!: readx_SomeD)

lemma writex_on_rk: "writex_on fd bs w = Ret (ok, w') \<Longrightarrow> rk w' = rk w"
  by (auto simp: writex_on_def split: option.splits prod.splits)

function copy_blocks :: "int \<Rightarrow> int \<Rightarrow> u32 \<Rightarrow> u32 \<Rightarrow> tworld \<Rightarrow> (bool \<times> tworld) run" where
  "copy_blocks src wfd sz i w =
     (if i < sz then
        bindr (readx_on src 640 w) (\<lambda>(r, w).
        case r of
          None \<Rightarrow> Ret (False, w)
        | Some buf \<Rightarrow>
            bindr (writex_on wfd buf w) (\<lambda>(ok, w).
            if \<not> ok then Ret (False, w) else copy_blocks src wfd sz (i + 640) w))
      else Ret (True, w))"
  by pat_completeness auto
termination
  by (relation "measure (\<lambda>(src, wfd, sz, i, w). length (stream (rk w src)))") (auto dest!: readx_on_shrinks writex_on_rk)

declare copy_blocks.simps [simp del]

definition copy_image :: "int \<Rightarrow> int \<Rightarrow> u32 \<Rightarrow> tworld \<Rightarrow> tworld run" where
  "copy_image src wfd sz w =
     bindr (copy_blocks src wfd sz 0 w) (\<lambda>(ok, w).
     if \<not> ok then Ret w
     else
       bindr (readx_on src (unat (sz mod 640)) w) (\<lambda>(r, w).
       case r of
         None \<Rightarrow> Ret w
       | Some buf \<Rightarrow> bindr (writex_on wfd buf w) (\<lambda>(_, w). Ret w)))"

definition read_u32 :: "int \<Rightarrow> tworld \<Rightarrow> (u32 option \<times> tworld) run" where
  "read_u32 fd w = bindr (readx_on fd 4 w) (\<lambda>(r, w). Ret (map_option of_le32 r, w))"

text \<open>
  A pipe: a read sees the end of the file only when no process holds the writing end, so as long as this process does, that is not
  among the answers of the kernel.
\<close>

definition holds :: "fd_event list \<Rightarrow> int \<Rightarrow> bool" where
  "holds es fd = fold (\<lambda>e b. case e of Opens d \<Rightarrow> d = fd \<or> b | Closes d \<Rightarrow> d \<noteq> fd \<and> b) es False"

definition pipe_answers :: "rd_answer list \<Rightarrow> rd_answer list" where
  "pipe_answers k = filter (\<lambda>a. a \<noteq> Chunk []) k"

definition pipe_view :: "int \<Rightarrow> int \<Rightarrow> tworld \<Rightarrow> tworld" where
  "pipe_view rd wr w = (if holds (fdlog w) wr then w\<lparr>rk := (rk w)(rd := pipe_answers (rk w rd))\<rparr> else w)"

text \<open>Everything between the fork and the label \<open>done\<close>.\<close>

definition send_screen :: "int \<Rightarrow> int \<Rightarrow> tworld \<Rightarrow> tworld run" where
  "send_screen src wfd w =
     bindr (read_u32 src w) (\<lambda>(r, w). case r of None \<Rightarrow> Ret w | Some wd \<Rightarrow>
     bindr (read_u32 src w) (\<lambda>(r, w). case r of None \<Rightarrow> Ret w | Some ht \<Rightarrow>
     bindr (read_u32 src w) (\<lambda>(r, w). case r of None \<Rightarrow> Ret w | Some f \<Rightarrow>
     case fb_format wd ht f of
       None \<Rightarrow> Ret w
     | Some info \<Rightarrow>
         bindr (writex_on wfd (fbinfo_bytes info) w) (\<lambda>(ok, w).
         if \<not> ok then Ret w else copy_image src wfd (fb_size info) w))))"

definition framebuffer_service :: "tenv \<Rightarrow> int \<Rightarrow> int \<Rightarrow> tworld \<Rightarrow> tworld run" where
  "framebuffer_service env rfd wfd w =
     (if \<not> t_malloc env then Undef Uninitialised
      else case fb_pipe env of
        None \<Rightarrow> Undef Uninitialised
      | Some (fd0, fd1) \<Rightarrow>
          let w = w\<lparr>fdlog := fdlog w @ [Opens fd0, Opens fd1]\<rparr>; pid = t_fork env in
          bindr (if pid < 0 then Ret w
                 else send_screen fd0 wfd (pipe_view fd0 fd1 (act_on (Spawned [bytes_of_str ''screencap'']) w))) (\<lambda>w.
          let w = (if pid > 0 then act_on (Waited pid) w else w) in
          Ret (close_on wfd (close_on rfd (close_on fd1 (close_on fd0 w))))))"

section \<open>Waiting for children\<close>

text \<open>The results of \<open>waitpid\<close>; every way the child can end leaves the loop.\<close>

fun wait_for :: "int \<Rightarrow> int list \<Rightarrow> bool" where
  "wait_for pid [] = False"
| "wait_for pid (p # ps) = (if p = pid then True else wait_for pid ps)"

definition subproc_waiter_service :: "tenv \<Rightarrow> int \<Rightarrow> int \<Rightarrow> int \<Rightarrow> tworld \<Rightarrow> tworld run" where
  "subproc_waiter_service env pid rfd wfd w =
     (if \<not> wait_for pid (wait_results env) then Hang
      else if notify_fd env \<ge> 0 then say (notify_fd env) (le32 (of_int rfd)) (act_on (Waited pid) w)
      else Ret (act_on (Waited pid) w))"

definition backup_child_waiter :: "int \<Rightarrow> int \<Rightarrow> tworld \<Rightarrow> tworld run" where
  "backup_child_waiter pid fd w = Ret (close_on fd (act_on (Waited pid) w))"

section \<open>The threads\<close>

text \<open>\<open>service_bootstrap_func\<close>: calls the function of the thread; the file service is an argument here.\<close>

definition service_bootstrap_func ::
  "(int \<Rightarrow> tworld \<Rightarrow> tworld run) \<Rightarrow> tenv \<Rightarrow> service \<times> int \<times> int \<Rightarrow> tworld \<Rightarrow> tworld run" where
  "service_bootstrap_func sync env = (\<lambda>(s, rfd, wfd) w.
     case s of
       FramebufferService \<Rightarrow> framebuffer_service env rfd wfd w
     | RecoverService count \<Rightarrow> recover_service env (of_int count) rfd wfd w
     | LogService path \<Rightarrow> log_service env rfd wfd w
     | FileSyncService \<Rightarrow> sync rfd w
     | RemountService \<Rightarrow> remount_service env rfd wfd w
     | RebootService arg \<Rightarrow> reboot_service env arg rfd wfd w
     | RestartTcpService port \<Rightarrow> restart_tcp_service port rfd wfd w
     | RestartUsbService \<Rightarrow> restart_usb_service rfd wfd w
     | SubprocWaiter pid \<Rightarrow> subproc_waiter_service env pid rfd wfd w
     | BackupWaiter pid \<Rightarrow> backup_child_waiter pid rfd w)"

end
