(* ===== verification/Service_Delivery.thy ===== *)
theory Service_Delivery
  imports Service_Threads
begin

text \<open>
  What the service threads deliver: an update is stored completely or reported as failed, a log is
  copied entry by entry, a screen is sent when its size is a multiple of the block. The locale
  \<open>service_body\<close> is the contract of all threads that own their two descriptors: they close them, and never a
  descriptor that is not theirs.
\<close>

section \<open>One system call\<close>

lemma writex_one_room: "bs \<noteq> [] \<Longrightarrow> length bs \<le> n \<Longrightarrow> writex bs (Room n # k) = (bs, Some True, k)"
  by (cases n) (simp_all add: writex_Room min_absorb2 writex.simps [of "[]"])

lemma writex_on_room:
  assumes "wk w fd = Room n # k" and "bs \<noteq> []" and "length bs \<le> n"
  shows "writex_on fd bs w = Ret (True, w\<lparr>wk := (wk w)(fd := k), sent := (sent w)(fd := sent w fd @ bs)\<rparr>)"
  using assms by (simp add: writex_on_def writex_one_room)

lemma readx_on_enough:
  assumes "n \<le> length (stream (rk w fd))"
  obtains k where "readx_on fd n w = Ret (Some (take n (stream (rk w fd))), w\<lparr>rk := (rk w)(fd := k)\<rparr>)"
    "stream k = drop n (stream (rk w fd))" "ends k = ends (rk w fd)"
  using readx_enough [OF assms] that by (auto simp: readx_on_def)

lemma readx_on_short:
  assumes "length (stream (rk w fd)) < n"
  shows "if ends (rk w fd) then \<exists>k. readx_on fd n w = Ret (None, w\<lparr>rk := (rk w)(fd := k)\<rparr>) else readx_on fd n w = Hang"
  using readx_short [OF assms] by (auto simp: readx_on_def split: if_splits)

text \<open>\<open>returns P m\<close>: whatever \<open>m\<close> returns satisfies \<open>P\<close>.\<close>

definition returns :: "('a \<Rightarrow> bool) \<Rightarrow> 'a run \<Rightarrow> bool" where
  "returns P m = (case m of Ret x \<Rightarrow> P x | _ \<Rightarrow> True)"

lemma returns_simps [simp]: "returns P (Ret x) = P x" "returns P Hang" "returns P (Undef u)"
  by (simp_all add: returns_def)

lemma returns_bindr: "returns P m \<Longrightarrow> (\<And>x. P x \<Longrightarrow> returns Q (f x)) \<Longrightarrow> returns Q (bindr m f)"
  by (cases m) simp_all

lemma returnsD: "returns P m \<Longrightarrow> m = Ret x \<Longrightarrow> P x"
  by simp

lemma fdlog_simps [simp]: "fdlog (act_on a w) = fdlog w" "fdlog (close_on fd w) = fdlog w @ [Closes fd]"
  "fdlog (close_both rfd wfd w) = fdlog w @ [Closes rfd, Closes wfd]"
  "fdlog (open_on fd w) = fdlog w @ (if fd < 0 then [] else [Opens fd])" "fdlog (pipe_view rd wr w) = fdlog w"
  by (simp_all add: act_on_def close_on_def close_both_def open_on_def pipe_view_def)

lemma open_on_fields [simp]: "rk (open_on fd w) = rk w" "wk (open_on fd w) = wk w" "sent (open_on fd w) = sent w"
  by (simp_all add: open_on_def)

text \<open>The steps that open and close nothing.\<close>

lemma quiet_readx: "returns (\<lambda>(r, w'). fdlog w' = fdlog w) (readx_on fd n w)"
  by (auto simp: readx_on_def split: option.splits)

lemma quiet_writex: "returns (\<lambda>(ok, w'). fdlog w' = fdlog w) (writex_on fd bs w)"
  by (auto simp: writex_on_def split: option.splits prod.splits)

lemma quiet_read:
  "(\<And>r w'. fdlog w' = fdlog w \<Longrightarrow> returns Q (f (r, w'))) \<Longrightarrow> returns Q (bindr (readx_on fd n w) f)"
  by (rule returns_bindr [OF quiet_readx]) auto

lemma quiet_write:
  "(\<And>ok w'. fdlog w' = fdlog w \<Longrightarrow> returns Q (f (ok, w'))) \<Longrightarrow> returns Q (bindr (writex_on fd bs w) f)"
  by (rule returns_bindr [OF quiet_writex]) auto

lemma quiet_say: "(\<And>w'. fdlog w' = fdlog w \<Longrightarrow> returns Q (f w')) \<Longrightarrow> returns Q (bindr (say fd bs w) f)"
  unfolding say_def by (rule returns_bindr [where P = "\<lambda>w'. fdlog w' = fdlog w"]) (auto intro: quiet_write)

lemma quiet_read_u32:
  "(\<And>r w'. fdlog w' = fdlog w \<Longrightarrow> returns Q (f (r, w'))) \<Longrightarrow> returns Q (bindr (read_u32 fd w) f)"
  unfolding read_u32_def by (rule returns_bindr [where P = "\<lambda>(r, w'). fdlog w' = fdlog w"]) (auto intro: quiet_read)

lemmas quiet_binds = quiet_read quiet_write quiet_say quiet_read_u32

section \<open>Descriptors\<close>

text \<open>
  The descriptors of the process while a service runs, from those that are open at its start. The kernel never answers an open with
  a descriptor that is open; a service must not close one that is not.
\<close>

fun after_events :: "fd_event list \<Rightarrow> int set \<Rightarrow> int set" where
  "after_events [] F = F"
| "after_events (Opens fd # es) F = after_events es (insert fd F)"
| "after_events (Closes fd # es) F = after_events es (F - {fd})"

fun kernel_ok :: "fd_event list \<Rightarrow> int set \<Rightarrow> bool" where
  "kernel_ok [] F \<longleftrightarrow> True"
| "kernel_ok (Opens fd # es) F \<longleftrightarrow> fd \<notin> F \<and> kernel_ok es (insert fd F)"
| "kernel_ok (Closes fd # es) F \<longleftrightarrow> kernel_ok es (F - {fd})"

fun closes_ok :: "fd_event list \<Rightarrow> int set \<Rightarrow> bool" where
  "closes_ok [] F \<longleftrightarrow> True"
| "closes_ok (Opens fd # es) F \<longleftrightarrow> closes_ok es (insert fd F)"
| "closes_ok (Closes fd # es) F \<longleftrightarrow> (fd < 0 \<or> fd \<in> F) \<and> closes_ok es (F - {fd})"

text \<open>
  A service that was given \<open>rfd\<close> and \<open>wfd\<close> ends with both closed, all others as they were, and \<open>left\<close> still open.
\<close>

definition tidy :: "int set \<Rightarrow> int \<Rightarrow> int \<Rightarrow> fd_event list \<Rightarrow> bool" where
  "tidy left rfd wfd es \<longleftrightarrow>
     (\<forall>F. (\<forall>d \<in> F. 0 \<le> d) \<longrightarrow> rfd \<in> F \<longrightarrow> wfd \<in> F \<longrightarrow> rfd \<noteq> wfd \<longrightarrow> kernel_ok es F \<longrightarrow>
        closes_ok es F \<and> after_events es F = F - {rfd, wfd} \<union> left)"

definition tidies :: "int set \<Rightarrow> int \<Rightarrow> int \<Rightarrow> tworld \<Rightarrow> tworld \<Rightarrow> bool" where
  "tidies left rfd wfd w w' \<longleftrightarrow> (\<exists>es. fdlog w' = fdlog w @ es \<and> tidy left rfd wfd es)"

lemma tidies_pair: "fdlog w' = fdlog w @ [Closes rfd, Closes wfd] \<Longrightarrow> tidies {} rfd wfd w w'"
  "fdlog w' = fdlog w @ [Closes wfd, Closes rfd] \<Longrightarrow> tidies {} rfd wfd w w'"
  by (auto simp: tidies_def tidy_def)

locale service_body =
  fixes body :: "tenv \<Rightarrow> int \<Rightarrow> int \<Rightarrow> tworld \<Rightarrow> tworld run"
    and left :: "tenv \<Rightarrow> int set"
  assumes closes: "returns (tidies (left env) rfd wfd w) (body env rfd wfd w)"
begin

lemma leaves:
  assumes "body env rfd wfd w = Ret w'" and "\<forall>d \<in> F. 0 \<le> d" and "rfd \<in> F" and "wfd \<in> F" and "rfd \<noteq> wfd"
  shows "\<exists>es. fdlog w' = fdlog w @ es \<and>
    (kernel_ok es F \<longrightarrow> closes_ok es F \<and> after_events es F = F - {rfd, wfd} \<union> left env)"
proof -
  from returnsD [OF closes assms(1)] obtain es where "fdlog w' = fdlog w @ es" "tidy (left env) rfd wfd es"
    by (auto simp: tidies_def)
  with assms(2-5) show ?thesis unfolding tidy_def by blast
qed

end








lemma remount_system_fdlog [simp]: "fdlog (snd (remount_system env w)) = fdlog w"
  by (auto simp: remount_system_def split: option.splits)




interpretation restart_root: service_body restart_root_service "\<lambda>_. {}"
  by unfold_locales (auto simp: restart_root_service_def intro!: quiet_binds tidies_pair(1) split: option.split)









definition demo_tworld :: "(int \<Rightarrow> rd_answer list) \<Rightarrow> (int \<Rightarrow> wr_answer list) \<Rightarrow> tworld" where
  "demo_tworld r w = \<lparr>rk = r, wk = w, sent = (\<lambda>_. []), fdlog = [], acts = [], system_ro = 1\<rparr>"

definition demo_tenv :: tenv where
  "demo_tenv = \<lparr>t_malloc = True, creat_update = 20, creat_begin = 21, t_getuid = 0, stack_value = [0], t_fork = 100, t_exec = True,
     external_storage = None, sysrq = -1, proc_mounts = (\<lambda>_. None), reboot_ret = 0, strerror = [], log_open = 7,
     heap = replicate 5121 0, mount_ret = 0, fb_pipe = Some (8, 9), wait_results = [100], notify_fd = 4\<rparr>"


section \<open>Updates\<close>

lemma recover_loop_stores:
  "rfd \<noteq> fd \<Longrightarrow> n \<le> length (stream (rk w rfd)) \<Longrightarrow> n \<le> 4096 * m \<Longrightarrow> wk w fd = replicate m (Room 4096) \<Longrightarrow>
   \<exists>w'. recover_loop rfd fd n w = Ret (0, w') \<and> sent w' fd = sent w fd @ take n (stream (rk w rfd)) \<and>
     (\<forall>d. d \<noteq> fd \<longrightarrow> sent w' d = sent w d \<and> wk w' d = wk w d)"
proof (induction n arbitrary: w m rule: less_induct)
  case (less n)
  show ?case
  proof (cases "n = 0")
    case True
    then show ?thesis by (simp add: recover_loop.simps)
  next
    case False
    define x where "x = (if n > 4096 then 4096 else n)"
    have x: "0 < x" "x \<le> n" "x \<le> 4096" "n - x \<le> 4096 * (m - 1)" using False less.prems(3) by (auto simp: x_def)
    from False less.prems(3) obtain m' where m: "m = Suc m'" by (cases m) auto
    let ?s = "stream (rk w rfd)"
    obtain k where k: "readx_on rfd x w = Ret (Some (take x ?s), w\<lparr>rk := (rk w)(rfd := k)\<rparr>)" "stream k = drop x ?s"
      using readx_on_enough [of x w rfd] less.prems(2) x by auto
    let ?w1 = "w\<lparr>rk := (rk w)(rfd := k)\<rparr>"
    let ?w2 = "?w1\<lparr>wk := (wk ?w1)(fd := replicate m' (Room 4096)), sent := (sent ?w1)(fd := sent ?w1 fd @ take x ?s)\<rparr>"
    have wr: "writex_on fd (take x ?s) ?w1 = Ret (True, ?w2)"
      by (rule writex_on_room [where n = 4096]) (use less.prems x m in auto)
    have "recover_loop rfd fd n w = recover_loop rfd fd (n - x) ?w2"
      using False k(1) wr by (subst recover_loop.simps) (simp add: x_def [symmetric])
    moreover obtain w' where "recover_loop rfd fd (n - x) ?w2 = Ret (0, w')"
      "sent w' fd = sent ?w2 fd @ take (n - x) (stream (rk ?w2 rfd))"
      "\<forall>d. d \<noteq> fd \<longrightarrow> sent w' d = sent ?w2 d \<and> wk w' d = wk ?w2 d"
      using less.IH [of "n - x" ?w2 m', OF _ less.prems(1)] less.prems(2) x k(2) m by (auto simp: diff_le_mono)
    moreover have "take x ?s @ take (n - x) (drop x ?s) = take n ?s"
      using x take_append_drop_take [of x ?s "n - x"] by simp
    ultimately show ?thesis using k(2) less.prems(1) by auto
  qed
qed

lemma recover_loop_short:
  "rfd \<noteq> fd \<Longrightarrow> length (stream (rk w rfd)) < n \<Longrightarrow> ends (rk w rfd) \<Longrightarrow> n \<le> 4096 * m \<Longrightarrow> wk w fd = replicate m (Room 4096) \<Longrightarrow>
   \<exists>left w'. recover_loop rfd fd n w = Ret (left, w') \<and> 0 < left \<and> (\<forall>d. d \<noteq> fd \<longrightarrow> sent w' d = sent w d \<and> wk w' d = wk w d)"
proof (induction n arbitrary: w m rule: less_induct)
  case (less n)
  define x where "x = (if n > 4096 then 4096 else n)"
  have x: "0 < x" "x \<le> n" "x \<le> 4096" "n - x \<le> 4096 * (m - 1)" using less.prems(2,4) by (auto simp: x_def)
  from less.prems(2,4) obtain m' where m: "m = Suc m'" by (cases m) auto
  let ?s = "stream (rk w rfd)"
  show ?case
  proof (cases "x \<le> length ?s")
    case True
    obtain k where k: "readx_on rfd x w = Ret (Some (take x ?s), w\<lparr>rk := (rk w)(rfd := k)\<rparr>)" "stream k = drop x ?s"
      "ends k = ends (rk w rfd)"
      using readx_on_enough [OF True] by auto
    let ?w1 = "w\<lparr>rk := (rk w)(rfd := k)\<rparr>"
    let ?w2 = "?w1\<lparr>wk := (wk ?w1)(fd := replicate m' (Room 4096)), sent := (sent ?w1)(fd := sent ?w1 fd @ take x ?s)\<rparr>"
    have wr: "writex_on fd (take x ?s) ?w1 = Ret (True, ?w2)"
      by (rule writex_on_room [where n = 4096]) (use less.prems x m True in auto)
    have "recover_loop rfd fd n w = recover_loop rfd fd (n - x) ?w2"
      using x k(1) wr by (subst recover_loop.simps) (simp add: x_def [symmetric])
    moreover have "\<exists>left w'. recover_loop rfd fd (n - x) ?w2 = Ret (left, w') \<and> 0 < left \<and>
        (\<forall>d. d \<noteq> fd \<longrightarrow> sent w' d = sent ?w2 d \<and> wk w' d = wk ?w2 d)"
      using less.IH [of "n - x" ?w2 m', OF _ less.prems(1)] less.prems(2,3) x k m True by (auto simp: diff_less_mono)
    ultimately show ?thesis by auto
  next
    case False
    then obtain k where "readx_on rfd x w = Ret (None, w\<lparr>rk := (rk w)(rfd := k)\<rparr>)"
      using readx_on_short [of w rfd x] less.prems(3) by auto
    then have "recover_loop rfd fd n w = Ret (n, w\<lparr>rk := (rk w)(rfd := k)\<rparr>)"
      using x by (subst recover_loop.simps) (simp add: x_def [symmetric])
    then show ?thesis using less.prems(2) by auto
  qed
qed

lemma say_room: "wk w fd = Room n # k \<Longrightarrow> bs \<noteq> [] \<Longrightarrow> length bs \<le> n \<Longrightarrow>
  say fd bs w = Ret (w\<lparr>wk := (wk w)(fd := k), sent := (sent w)(fd := sent w fd @ bs)\<rparr>)"
  by (simp add: say_def writex_on_room)

text \<open>
  An update is stored or reported: when the client sends as many bytes as it announced, exactly these
  are in the file and it is told \<open>OKAY\<close>; when it stops early, it is told \<open>FAIL\<close>. How the kernel cuts the
  stream makes no difference.
\<close>

theorem recover_service_outcome:
  assumes "t_malloc env" and fd: "creat_update env = fd" "0 \<le> fd" and d: "distinct [rfd, wfd, fd]"
    and room: "wk w fd = replicate m (Room 4096)" "unat count \<le> 4096 * m" "wk w wfd = Room 4 # k"
    and enough: "unat count \<le> length (stream (rk w rfd)) \<or> ends (rk w rfd)"
  shows "\<exists>w'. recover_service env count rfd wfd w = Ret w' \<and>
    (if unat count \<le> length (stream (rk w rfd))
     then sent w' fd = sent w fd @ take (unat count) (stream (rk w rfd)) \<and> sent w' wfd = sent w wfd @ bytes_of_str ''OKAY''
     else sent w' wfd = sent w wfd @ bytes_of_str ''FAIL'')"
proof -
  let ?w = "open_on fd (act_on (Created ''/tmp/update'') w)"
  have w: "rk ?w = rk w" "wk ?w = wk w" "sent ?w = sent w" by (simp_all add: act_on_def)
  define n where "n = unat count"
  have "\<exists>left w'. recover_loop rfd fd n ?w = Ret (left, w') \<and> wk w' wfd = Room 4 # k \<and> sent w' wfd = sent w wfd \<and>
    (left = 0 \<longleftrightarrow> n \<le> length (stream (rk w rfd))) \<and>
    (left = 0 \<longrightarrow> sent w' fd = sent w fd @ take n (stream (rk w rfd)))"
  proof (cases "n \<le> length (stream (rk w rfd))")
    case True
    then show ?thesis
      using recover_loop_stores [of rfd fd n ?w m] d room w by (auto simp: n_def)
  next
    case False
    then show ?thesis
      using recover_loop_short [of rfd fd ?w n m] d room w enough by (auto simp: n_def)
  qed
  then obtain left w' where l: "recover_loop rfd fd n ?w = Ret (left, w')" "wk w' wfd = Room 4 # k" "sent w' wfd = sent w wfd"
    "left = 0 \<longleftrightarrow> n \<le> length (stream (rk w rfd))" "left = 0 \<longrightarrow> sent w' fd = sent w fd @ take n (stream (rk w rfd))"
    by blast
  define msg where "msg = bytes_of_str (if left = 0 then ''OKAY'' else ''FAIL'')"
  have "say wfd msg w' = Ret (w'\<lparr>wk := (wk w')(wfd := k), sent := (sent w')(wfd := sent w' wfd @ msg)\<rparr>)"
    by (rule say_room [OF l(2)]) (auto simp: msg_def bytes_of_str_def)
  with l d assms(1) fd show ?thesis
    by (auto simp: recover_service_def Let_def msg_def n_def close_on_def close_both_def act_on_def)
qed

theorem recover_service_outcome_witness:
  "\<exists>w'. recover_service demo_tenv 3 5 6 (demo_tworld (\<lambda>_. [Chunk [1, 2], RdErr EINTR, Chunk [3, 4]])
      (\<lambda>fd. if fd = 20 then [Room 4096] else [Room 4])) = Ret w' \<and>
    sent w' 20 = [1, 2, 3] \<and> sent w' 6 = bytes_of_str ''OKAY''"
  using recover_service_outcome [of demo_tenv 20 5 6 "demo_tworld (\<lambda>_. [Chunk [1, 2], RdErr EINTR, Chunk [3, 4]])
      (\<lambda>fd. if fd = 20 then [Room 4096] else [Room 4])" 1 3 "[]"]
  by (simp add: demo_tenv_def demo_tworld_def)

section \<open>The screen\<close>

text \<open>One round of the copying loop, when the source has a block and the client takes it.\<close>

lemma copy_block:
  assumes "src \<noteq> wfd" and "i < sz" and "640 \<le> length (stream (rk w src))" and "wk w wfd = Room 640 # k"
  obtains w' where "copy_blocks src wfd sz i w = copy_blocks src wfd sz (i + 640) w'"
    "stream (rk w' src) = drop 640 (stream (rk w src))" "ends (rk w' src) = ends (rk w src)" "wk w' wfd = k"
    "sent w' wfd = sent w wfd @ take 640 (stream (rk w src))"
proof -
  let ?s = "stream (rk w src)"
  obtain q where q: "readx_on src 640 w = Ret (Some (take 640 ?s), w\<lparr>rk := (rk w)(src := q)\<rparr>)" "stream q = drop 640 ?s"
    "ends q = ends (rk w src)"
    using readx_on_enough [OF assms(3)] by auto
  let ?w1 = "w\<lparr>rk := (rk w)(src := q)\<rparr>"
  let ?w2 = "?w1\<lparr>wk := (wk ?w1)(wfd := k), sent := (sent ?w1)(wfd := sent ?w1 wfd @ take 640 ?s)\<rparr>"
  have "writex_on wfd (take 640 ?s) ?w1 = Ret (True, ?w2)"
    by (rule writex_on_room [where n = 640]) (use assms in auto)
  with q assms(2) show thesis by (intro that [of ?w2]) (simp_all add: copy_blocks.simps [of src wfd sz i w])
qed

lemma next_block:
  assumes "unat sz + 640 < 2 ^ 32" and "i < sz"
  shows "unat (i + 640 :: u32) = unat i + 640"
proof -
  have "unat i < unat sz" using assms(2) by (simp add: word_less_nat_alt)
  with assms(1) show ?thesis by (simp add: unat_word_ariths)
qed

lemma copy_blocks_all:
  "src \<noteq> wfd \<Longrightarrow> unat sz + 640 < 2 ^ 32 \<Longrightarrow> unat sz \<le> unat i + 640 * b \<Longrightarrow> b = 0 \<or> unat i + 640 * (b - 1) < unat sz \<Longrightarrow>
   640 * b \<le> length (stream (rk w src)) \<Longrightarrow> wk w wfd = replicate m (Room 640) \<Longrightarrow> b \<le> m \<Longrightarrow>
   \<exists>w'. copy_blocks src wfd sz i w = Ret (True, w') \<and> sent w' wfd = sent w wfd @ take (640 * b) (stream (rk w src)) \<and>
     stream (rk w' src) = drop (640 * b) (stream (rk w src)) \<and> wk w' wfd = replicate (m - b) (Room 640)"
proof (induction b arbitrary: i w m)
  case 0
  then have "\<not> i < sz" by (simp add: word_less_nat_alt)
  then show ?case using 0 by (simp add: copy_blocks.simps)
next
  case (Suc b)
  then obtain m' where m: "m = Suc m'" by (cases m) auto
  have i: "i < sz" using Suc.prems(4) by (simp add: word_less_nat_alt)
  note u = next_block [OF Suc.prems(2) i]
  obtain w' where w': "copy_blocks src wfd sz i w = copy_blocks src wfd sz (i + 640) w'"
    "stream (rk w' src) = drop 640 (stream (rk w src))" "wk w' wfd = replicate m' (Room 640)"
    "sent w' wfd = sent w wfd @ take 640 (stream (rk w src))"
    using copy_block [OF Suc.prems(1) i, of w "replicate m' (Room 640)"] Suc.prems m by auto
  have "\<exists>w2. copy_blocks src wfd sz (i + 640) w' = Ret (True, w2) \<and>
      sent w2 wfd = sent w' wfd @ take (640 * b) (stream (rk w' src)) \<and>
      stream (rk w2 src) = drop (640 * b) (stream (rk w' src)) \<and> wk w2 wfd = replicate (m' - b) (Room 640)"
    by (rule Suc.IH) (use Suc.prems u w' m in \<open>auto simp: gr0_conv_Suc\<close>)
  then show ?case using w' m by (auto simp: take_append_drop_take add.commute)
qed

lemma copy_blocks_hang:
  "src \<noteq> wfd \<Longrightarrow> unat sz + 640 < 2 ^ 32 \<Longrightarrow> \<not> ends (rk w src) \<Longrightarrow> length (stream (rk w src)) < 640 * b \<Longrightarrow>
   unat i + 640 * (b - 1) < unat sz \<Longrightarrow> wk w wfd = replicate m (Room 640) \<Longrightarrow> b \<le> m \<Longrightarrow>
   copy_blocks src wfd sz i w = Hang"
proof (induction b arbitrary: i w m)
  case (Suc b)
  have i: "i < sz" using Suc.prems(5) by (simp add: word_less_nat_alt)
  show ?case
  proof (cases "640 \<le> length (stream (rk w src))")
    case True
    then have b: "b \<noteq> 0" using Suc.prems(4) by auto
    obtain m' where m: "m = Suc m'" using Suc.prems(7) by (cases m) auto
    obtain w' where "copy_blocks src wfd sz i w = copy_blocks src wfd sz (i + 640) w'"
      "stream (rk w' src) = drop 640 (stream (rk w src))" "ends (rk w' src) = ends (rk w src)"
      "wk w' wfd = replicate m' (Room 640)"
      using copy_block [OF Suc.prems(1) i True, of "replicate m' (Room 640)"] Suc.prems(6) m by auto
    with Suc.IH [of w' "i + 640" m'] Suc.prems next_block [OF Suc.prems(2) i] b m show ?thesis
      by (cases b) auto
  next
    case False
    then have "readx_on src 640 w = Hang" using readx_on_short [of w src 640] Suc.prems(3) by simp
    with i show ?thesis by (simp add: copy_blocks.simps)
  qed
qed simp

text \<open>The header of an image: the three numbers are read, the description goes to the client.\<close>

lemma read_u32_stream:
  assumes "stream (rk w fd) = le32 x @ rest"
  obtains k where "read_u32 fd w = Ret (Some x, w\<lparr>rk := (rk w)(fd := k)\<rparr>)" "stream k = rest" "ends k = ends (rk w fd)"
proof -
  obtain k where "readx_on fd 4 w = Ret (Some (take 4 (stream (rk w fd))), w\<lparr>rk := (rk w)(fd := k)\<rparr>)"
    "stream k = drop 4 (stream (rk w fd))" "ends k = ends (rk w fd)"
    by (rule readx_on_enough [of 4 w fd]) (use assms in auto)
  with assms show thesis by (intro that [of k]) (simp_all add: read_u32_def)
qed

lemma length_fbinfo [simp]: "length (fbinfo_bytes i) = 52"
  by (simp add: fbinfo_bytes_def)

lemma send_screen_header:
  assumes s: "stream (rk w src) = le32 wd @ le32 ht @ le32 f @ pixels" and i: "fb_format wd ht f = Some info"
    and d: "src \<noteq> wfd" and k: "wk w wfd = Room 640 # k"
  obtains w' where "send_screen src wfd w = copy_image src wfd (fb_size info) w'" "stream (rk w' src) = pixels"
    "ends (rk w' src) = ends (rk w src)" "wk w' wfd = k" "sent w' wfd = sent w wfd @ fbinfo_bytes info"
proof -
  obtain k1 where k1: "read_u32 src w = Ret (Some wd, w\<lparr>rk := (rk w)(src := k1)\<rparr>)" "stream k1 = le32 ht @ le32 f @ pixels"
    "ends k1 = ends (rk w src)" by (rule read_u32_stream [OF s])
  let ?w1 = "w\<lparr>rk := (rk w)(src := k1)\<rparr>"
  obtain k2 where k2: "read_u32 src ?w1 = Ret (Some ht, ?w1\<lparr>rk := (rk ?w1)(src := k2)\<rparr>)" "stream k2 = le32 f @ pixels"
    "ends k2 = ends k1" using read_u32_stream [of ?w1 src ht "le32 f @ pixels"] k1 by auto
  let ?w2 = "?w1\<lparr>rk := (rk ?w1)(src := k2)\<rparr>"
  obtain k3 where k3: "read_u32 src ?w2 = Ret (Some f, ?w2\<lparr>rk := (rk ?w2)(src := k3)\<rparr>)" "stream k3 = pixels"
    "ends k3 = ends k2" using read_u32_stream [of ?w2 src f pixels] k2 by auto
  let ?w3 = "?w2\<lparr>rk := (rk ?w2)(src := k3)\<rparr>"
  let ?w4 = "?w3\<lparr>wk := (wk ?w3)(wfd := k), sent := (sent ?w3)(wfd := sent ?w3 wfd @ fbinfo_bytes info)\<rparr>"
  have "writex_on wfd (fbinfo_bytes info) ?w3 = Ret (True, ?w4)"
    by (rule writex_on_room [where n = 640]) (use k length_fbinfo [of info] in \<open>auto simp del: length_fbinfo\<close>)
  then have "send_screen src wfd w = copy_image src wfd (fb_size info) ?w4"
    using k1(1) k2(1) k3(1) i by (simp add: send_screen_def)
  then show thesis by (rule that) (use k1 k2 k3 in simp_all)
qed

text \<open>
  The service holds the writing end of the pipe while it reads, so the end of the image is never announced to it.
\<close>

lemma holds_new: "holds (es @ [Opens a, Opens b]) b"
  by (simp add: holds_def)

lemma pipe_never_ends: "\<forall>e. RdErr e \<in> set k \<longrightarrow> e = EINTR \<Longrightarrow> \<not> ends (pipe_answers k)"
  by (induction k rule: ends.induct) (auto simp: pipe_answers_def)

definition reading :: "int \<Rightarrow> int \<Rightarrow> tworld \<Rightarrow> tworld" where
  "reading fd0 fd1 w =
     (act_on (Spawned [bytes_of_str ''screencap'']) (w\<lparr>fdlog := fdlog w @ [Opens fd0, Opens fd1]\<rparr>))
       \<lparr>rk := (rk w)(fd0 := pipe_answers (rk w fd0))\<rparr>"

lemma framebuffer_reads:
  assumes "t_malloc env" and "fb_pipe env = Some (fd0, fd1)" and "0 < t_fork env"
  shows "framebuffer_service env rfd wfd w = bindr (send_screen fd0 wfd (reading fd0 fd1 w)) (\<lambda>w.
    Ret (close_on wfd (close_on rfd (close_on fd1 (close_on fd0 (act_on (Waited (t_fork env)) w))))))"
  using assms holds_new [of "fdlog w" fd0 fd1]
  by (simp add: framebuffer_service_def pipe_view_def reading_def act_on_def)

text \<open>
  A screen whose size is a multiple of 640 bytes reaches the client: the description, then every byte
  of the image, in order.
\<close>

theorem framebuffer_sends_image:
  assumes env: "t_malloc env" "fb_pipe env = Some (src, src1)" "0 < t_fork env" and d: "src \<noteq> wfd"
    and s: "stream (pipe_answers (rk w src)) = le32 wd @ le32 ht @ le32 f @ pixels" and i: "fb_format wd ht f = Some info"
    and len: "length pixels = unat (fb_size info)" "unat (fb_size info) + 640 < 2 ^ 32" "unat (fb_size info) mod 640 = 0"
    and room: "wk w wfd = replicate m (Room 640)" "unat (fb_size info) div 640 < m"
  shows "\<exists>w'. framebuffer_service env rfd wfd w = Ret w' \<and> sent w' wfd = sent w wfd @ fbinfo_bytes info @ pixels"
proof -
  let ?sz = "fb_size info" and ?w = "reading src src1 w"
  define b where "b = unat ?sz div 640"
  have b: "unat ?sz = 640 * b" using len(3) by (auto simp: b_def)
  obtain m' where m: "m = Suc m'" "b \<le> m'" using room(2) by (cases m) (auto simp: b_def)
  obtain w1 where w1: "send_screen src wfd ?w = copy_image src wfd ?sz w1" "stream (rk w1 src) = pixels"
    "wk w1 wfd = replicate m' (Room 640)" "sent w1 wfd = sent w wfd @ fbinfo_bytes info"
    using send_screen_header [of ?w src wd ht f pixels info wfd "replicate m' (Room 640)"] s i d room m
    by (auto simp: act_on_def reading_def)
  have "b = 0 \<or> unat (0 :: u32) + 640 * (b - 1) < unat ?sz" using b by (cases b) auto
  then obtain w2 where w2: "copy_blocks src wfd ?sz 0 w1 = Ret (True, w2)" "sent w2 wfd = sent w1 wfd @ pixels"
    using copy_blocks_all [of src wfd ?sz 0 b w1 m'] d len(1,2) w1 b m(2) by auto
  have "?sz mod 640 = 0" using len(3) by (simp add: unat_mod word_unat_eq_iff)
  then have "copy_image src wfd ?sz w1 = Ret w2"
    using w2(1) by (simp add: copy_image_def readx_on_def writex_on_def readx.simps [of 0] writex.simps [of "[]"])
  with framebuffer_reads [OF env, of rfd wfd w] w1 w2 show ?thesis
    by (auto simp: close_on_def act_on_def)
qed

text \<open>
  C26: A screen whose size is not a multiple of 640 bytes is never delivered completely, although the program that takes it delivers
  every byte and the client takes all it is sent: the copying loop already takes the last, partial block as a whole one, for
  which there are not enough bytes; and because the service itself holds the writing end of the pipe, it never
  sees the end of the image and waits for ever. (The image is smaller than 4 GB less a block, and no read fails.)
\<close>

theorem framebuffer_hangs:
  assumes env: "t_malloc env" "fb_pipe env = Some (src, src1)" "0 < t_fork env" and d: "src \<noteq> wfd"
    and s: "stream (pipe_answers (rk w src)) = le32 wd @ le32 ht @ le32 f @ pixels" "\<forall>e. RdErr e \<in> set (rk w src) \<longrightarrow> e = EINTR"
    and i: "fb_format wd ht f = Some info"
    and len: "length pixels = unat (fb_size info)" "unat (fb_size info) + 640 < 2 ^ 32" "unat (fb_size info) mod 640 \<noteq> 0"
    and room: "wk w wfd = replicate m (Room 640)" "unat (fb_size info) div 640 + 1 < m"
  shows "framebuffer_service env rfd wfd w = Hang"
proof -
  let ?sz = "fb_size info" and ?w = "reading src src1 w"
  define b where "b = unat ?sz div 640 + 1"
  have b: "unat ?sz < 640 * b" "640 * (b - 1) < unat ?sz"
    using len(3) mult_div_mod_eq [of 640 "unat ?sz"] mod_less_divisor [of 640 "unat ?sz"] unfolding b_def
    by (simp_all del: mult_div_mod_eq, linarith)
  obtain m' where m: "m = Suc m'" "b \<le> m'" using room(2) by (cases m) (auto simp: b_def)
  obtain w1 where w1: "send_screen src wfd ?w = copy_image src wfd ?sz w1" "stream (rk w1 src) = pixels"
    "ends (rk w1 src) = ends (pipe_answers (rk w src))" "wk w1 wfd = replicate m' (Room 640)"
    using send_screen_header [of ?w src wd ht f pixels info wfd "replicate m' (Room 640)"] s(1) i d room m
    by (auto simp: act_on_def reading_def)
  have "copy_blocks src wfd ?sz 0 w1 = Hang"
    by (rule copy_blocks_hang [of _ _ _ _ b _ m']) (use d len w1 b m pipe_never_ends [OF s(2)] in auto)
  with w1 framebuffer_reads [OF env, of rfd wfd w] show ?thesis by (simp add: copy_image_def)
qed

text \<open>A child that writes a screen of 640 by 1 pixels, and one of a single pixel.\<close>

definition demo_screen :: "nat \<Rightarrow> nat \<Rightarrow> tworld" where
  "demo_screen n m = demo_tworld
     (\<lambda>fd. if fd = 8 then [Chunk (le32 (of_nat n) @ le32 1 @ le32 1 @ replicate (4 * n) 7)] else [])
     (\<lambda>fd. replicate m (Room 640))"

theorem framebuffer_sends_image_witness:
  "\<exists>w' info. framebuffer_service demo_tenv 5 6 (demo_screen 640 10) = Ret w' \<and> fb_format 640 1 1 = Some info \<and>
     sent w' 6 = fbinfo_bytes info @ replicate 2560 7"
proof -
  obtain info where i: "fb_format 640 1 1 = Some info" "fb_size info = 2560" by (simp add: fb_format_def Let_def)
  have "\<exists>w'. framebuffer_service demo_tenv 5 6 (demo_screen 640 10) = Ret w' \<and>
    sent w' 6 = sent (demo_screen 640 10) 6 @ fbinfo_bytes info @ replicate 2560 7"
    by (rule framebuffer_sends_image [where src = 8 and ?src1.0 = 9 and wd = 640 and ht = 1 and f = 1 and m = 10])
      (use i in \<open>simp_all add: demo_tenv_def demo_screen_def demo_tworld_def le32_def pipe_answers_def\<close>)
  with i show ?thesis by (auto simp: demo_screen_def demo_tworld_def)
qed

theorem framebuffer_hangs_witness: "framebuffer_service demo_tenv 5 6 (demo_screen 1 10) = Hang"
proof -
  obtain info where i: "fb_format 1 1 1 = Some info" "fb_size info = 4" by (simp add: fb_format_def Let_def)
  show ?thesis
    by (rule framebuffer_hangs [where src = 8 and ?src1.0 = 9 and wd = 1 and ht = 1 and f = 1 and m = 10 and pixels = "replicate 4 7" and info = info])
      (use i in \<open>simp_all add: demo_tenv_def demo_screen_def demo_tworld_def le32_def pipe_answers_def\<close>)
qed

section \<open>Logs\<close>

definition log_entry_ok :: "byte list \<Rightarrow> bool" where
  "log_entry_ok e \<longleftrightarrow> length e = logger_entry_size + unat (of_le16 e) \<and> length e \<le> LOGGER_ENTRY_MAX_LEN"

lemma of_le16_append: "2 \<le> length e \<Longrightarrow> of_le16 (e @ r) = of_le16 e"
  by (cases e rule: of_le16.cases) auto

lemma log_loop_copies:
  "\<forall>e\<in>set es. log_entry_ok e \<Longrightarrow> length buf = 5121 \<Longrightarrow> wk w wfd = replicate (length es) (Room 5120) \<Longrightarrow>
   err \<noteq> EINTR \<Longrightarrow> err \<noteq> EAGAIN \<Longrightarrow>
   \<exists>w'. log_loop wfd (map Chunk es @ [RdErr err]) buf w = Ret w' \<and> sent w' wfd = sent w wfd @ concat es \<and> fdlog w' = fdlog w"
proof (induction es arbitrary: buf w)
  case (Cons e es)
  let ?buf = "(e @ drop (length e) buf)[length e := 0]"
  let ?w = "w\<lparr>wk := (wk w)(wfd := replicate (length es) (Room 5120)), sent := (sent w)(wfd := sent w wfd @ e)\<rparr>"
  have e: "length e = 20 + unat (of_le16 e)" "length e \<le> 5120"
    using Cons.prems(1) by (simp_all add: log_entry_ok_def logger_entry_size_def LOGGER_ENTRY_MAX_LEN_def)
  have l: "of_le16 (e @ r) = of_le16 e" for r using e by (intro of_le16_append) simp
  have buf: "?buf = e @ (drop (length e) buf)[0 := 0]" by (simp add: list_update_append)
  have "say wfd e w = Ret ?w"
    by (rule say_room [where n = 5120]) (use Cons.prems(3) e in auto)
  then have "write_log_entry wfd ?buf w = Ret ?w"
    using e l buf by (simp add: write_log_entry_def logger_entry_size_def)
  then have "log_loop wfd (map Chunk (e # es) @ [RdErr err]) buf w = log_loop wfd (map Chunk es @ [RdErr err]) ?buf ?w"
    using e l Cons.prems(2) by (auto simp: Let_def LOGGER_ENTRY_MAX_LEN_def logger_entry_size_def)
  moreover obtain w' where "log_loop wfd (map Chunk es @ [RdErr err]) ?buf ?w = Ret w'"
    "sent w' wfd = sent ?w wfd @ concat es" "fdlog w' = fdlog ?w"
    using Cons.IH [of ?buf ?w] Cons.prems e by auto
  ultimately show ?case by auto
qed auto

text \<open>
  The log service copies a log entry by entry: every entry the device hands out, whatever its length,
  reaches the client unchanged, and the zero stored behind a message is never part of it. It
  closes its two descriptors, but not the log.
\<close>

theorem log_service_copies:
  assumes "t_malloc env" and "0 \<le> log_open env" and "length (heap env) = 5121"
    and "rk w (log_open env) = map Chunk es @ [RdErr err]" and "err \<noteq> EINTR" "err \<noteq> EAGAIN"
    and "\<forall>e\<in>set es. log_entry_ok e" and "wk w wfd = replicate (length es) (Room 5120)"
  shows "\<exists>w'. log_service env rfd wfd w = Ret w' \<and> sent w' wfd = sent w wfd @ concat es \<and> fdlog w' = fdlog w @ [Opens (log_open env), Closes wfd, Closes rfd]"
proof -
  let ?w = "open_on (log_open env) w"
  have "wk ?w wfd = replicate (length es) (Room 5120)" using assms(8) by simp
  then obtain w' where "log_loop wfd (map Chunk es @ [RdErr err]) (heap env) ?w = Ret w'" "sent w' wfd = sent w wfd @ concat es"
      "fdlog w' = fdlog ?w"
    using log_loop_copies [OF assms(7,3) _ assms(5,6), of ?w] by auto
  then show ?thesis
    using assms(1,2,4) by (auto simp: log_service_def close_both_def close_on_def)
qed

theorem log_service_copies_witness:
  "\<exists>w'. log_service demo_tenv 5 6 (demo_tworld (\<lambda>_. [Chunk (le16 3 @ replicate 18 1 @ [65, 66, 67]), RdErr EBADF]) (\<lambda>_. [Room 5120])) = Ret w' \<and>
     sent w' 6 = le16 3 @ replicate 18 1 @ [65, 66, 67] \<and> fdlog w' = [Opens 7, Closes 6, Closes 5]"
  using log_service_copies [of demo_tenv "demo_tworld (\<lambda>_. [Chunk (le16 3 @ replicate 18 1 @ [65, 66, 67]), RdErr EBADF]) (\<lambda>_. [Room 5120])"
      "[le16 3 @ replicate 18 1 @ [65, 66, 67]]" EBADF 6 5] of_le16_le16 [of 3]
  by (simp add: demo_tenv_def demo_tworld_def log_entry_ok_def logger_entry_size_def LOGGER_ENTRY_MAX_LEN_def)

end
