(* ===== verification/Base64.thy ===== *)
theory Base64
  imports Prelude
begin

text \<open>
  Base 64 (\<open>src/base64.c\<close>): the encoder \<open>adb_b64_ntop\<close> and the decoder \<open>adb_b64_pton\<close>, which
  the authentication uses to read public keys. The target of the decoder is an array of a
  given size, and every store is an update at an index that must lie inside it.
\<close>

section \<open>The alphabet\<close>

definition Base64 :: "byte list" where
  "Base64 = bytes_of_str ''ABCDEFGHIJKLMNOPQRSTUVWXYZabcdefghijklmnopqrstuvwxyz0123456789+/''"

definition Pad64 :: byte where "Pad64 = 61"

text \<open>\<open>strchr(Base64, ch) - Base64\<close>\<close>

definition b64_pos :: "byte \<Rightarrow> byte option" where
  "b64_pos ch =
     (case find (\<lambda>i. Base64 ! i = ch) [0..<length Base64] of None \<Rightarrow> None | Some i \<Rightarrow> Some (of_nat i))"

section \<open>Encoding\<close>

text \<open>The four digits of a group; the failed assertion of a digit above 63 aborts.\<close>

definition digits :: "byte \<Rightarrow> byte \<Rightarrow> byte \<Rightarrow> byte list" where
  "digits a b c = [drop_bit 2 a, push_bit 4 (a AND 3) + drop_bit 4 b, push_bit 2 (b AND 0xf) + drop_bit 6 c,
     c AND 0x3f]"

definition b64_char :: "byte \<Rightarrow> byte" where
  "b64_char d = Base64 ! unat d"

fun ntop_from :: "byte list \<Rightarrow> byte list \<Rightarrow> nat \<Rightarrow> byte list option res" where
  "ntop_from (a # b # c # src) target targsize =
     (let out = digits a b c in
      if \<not> (\<forall>d \<in> set out. d < 64) then Inl Abort
      else if length target + 4 > targsize then Inr None
      else ntop_from src (target @ map b64_char out) targsize)"
| "ntop_from [a, b] target targsize =
     (let out = take 3 (digits a b 0) in
      if \<not> (\<forall>d \<in> set out. d < 64) then Inl Abort
      else if length target + 4 > targsize then Inr None
      else let target = target @ map b64_char out @ [Pad64] in
        Inr (if length target \<ge> targsize then None else Some target))"
| "ntop_from [a] target targsize =
     (let out = take 3 (digits a 0 0) in
      if \<not> (\<forall>d \<in> set out. d < 64) then Inl Abort
      else if length target + 4 > targsize then Inr None
      else let target = target @ map b64_char (take 2 out) @ [Pad64, Pad64] in
        Inr (if length target \<ge> targsize then None else Some target))"
| "ntop_from [] target targsize = Inr (if length target \<ge> targsize then None else Some target)"

definition adb_b64_ntop :: "byte list \<Rightarrow> nat \<Rightarrow> byte list option res" where
  "adb_b64_ntop src targsize = ntop_from src [] targsize"

section \<open>Decoding\<close>

datatype pton_stop = PtonErr | PtonPad "byte list" nat nat "byte list" | PtonEnd nat nat "byte list"

text \<open>\<open>target[i] = v\<close> and \<open>target[i] |= v\<close>; outside the target they are a fault.\<close>

definition put_byte :: "nat \<Rightarrow> byte \<Rightarrow> byte list \<Rightarrow> byte list res" where
  "put_byte i v target = (if i < length target then Inr (target[i := v]) else Inl (Fault OutOfBounds))"

definition or_byte :: "nat \<Rightarrow> byte \<Rightarrow> byte list \<Rightarrow> byte list res" where
  "or_byte i v target = (if i < length target then Inr (target[i := target ! i OR v]) else Inl (Fault OutOfBounds))"

fun pton_loop :: "byte list \<Rightarrow> nat \<Rightarrow> nat \<Rightarrow> byte list \<Rightarrow> pton_stop res" where
  "pton_loop [] state ti target = Inr (PtonEnd state ti target)"
| "pton_loop (ch # src) state ti target =
     (if is_space ch then pton_loop src state ti target
      else if ch = Pad64 then Inr (PtonPad src state ti target)
      else case b64_pos ch of
        None \<Rightarrow> Inr PtonErr
      | Some v \<Rightarrow>
          if state = 0 then
            if ti \<ge> length target then Inr PtonErr
            else seq (put_byte ti (push_bit 2 v) target) (pton_loop src 1 ti)
          else if state = 1 then
            if ti + 1 \<ge> length target then Inr PtonErr
            else seq (or_byte ti (drop_bit 4 v) target) (\<lambda>target.
              seq (put_byte (ti + 1) (push_bit 4 (v AND 0xf)) target) (pton_loop src 2 (ti + 1)))
          else if state = 2 then
            if ti + 1 \<ge> length target then Inr PtonErr
            else seq (or_byte ti (drop_bit 2 v) target) (\<lambda>target.
              seq (put_byte (ti + 1) (push_bit 6 (v AND 3)) target) (pton_loop src 3 (ti + 1)))
          else
            if ti \<ge> length target then Inr PtonErr
            else seq (or_byte ti v target) (pton_loop src 0 (ti + 1)))"

text \<open>
  After a pad character: in state 2 another one must follow, then nothing but blanks, and the
  bits that do not belong to a whole byte must be zero. Reading a slot outside the target
  would be a fault.
\<close>

definition pton_pad :: "byte list \<Rightarrow> nat \<Rightarrow> nat \<Rightarrow> byte list \<Rightarrow> (nat \<times> byte list) option res" where
  "pton_pad src state ti target =
     (let last = (\<lambda>src. if \<not> (\<forall>ch \<in> set src. is_space ch) then Inr None
            else if ti \<ge> length target then Inl (Fault OutOfBounds)
            else if target ! ti \<noteq> 0 then Inr None else Inr (Some (ti, target))) in
      if state = 0 \<or> state = 1 then Inr None
      else if state = 2 then
        (case dropWhile is_space src of
           [] \<Rightarrow> Inr None
         | ch # src \<Rightarrow> if ch \<noteq> Pad64 then Inr None else last src)
      else last src)"

definition adb_b64_pton :: "byte list \<Rightarrow> byte list \<Rightarrow> (nat \<times> byte list) option res" where
  "adb_b64_pton src target =
     seq (pton_loop src 0 0 target) (\<lambda>r.
     case r of
       PtonErr \<Rightarrow> Inr None
     | PtonPad src state ti target \<Rightarrow> pton_pad src state ti target
     | PtonEnd state ti target \<Rightarrow> if state \<noteq> 0 then Inr None else Inr (Some (ti, target)))"

section \<open>The decoder stays inside its target\<close>

text \<open>
  Between two characters at most the slot at \<open>ti\<close> is partly filled, and it exists unless a
  group has just ended.
\<close>

definition pton_fine :: "nat \<Rightarrow> pton_stop res \<Rightarrow> bool" where
  "pton_fine sz r \<longleftrightarrow> (case r of
      Inl _ \<Rightarrow> False
    | Inr PtonErr \<Rightarrow> True
    | Inr (PtonPad _ state ti target) \<Rightarrow> length target = sz \<and> ti \<le> sz \<and> (state \<noteq> 0 \<longrightarrow> ti < sz)
    | Inr (PtonEnd state ti target) \<Rightarrow> length target = sz \<and> ti \<le> sz)"

lemma store_byte [simp]:
  "i < length target \<Longrightarrow> put_byte i v target = Inr (target[i := v])"
  "i < length target \<Longrightarrow> or_byte i v target = Inr (target[i := target ! i OR v])"
  by (simp_all add: put_byte_def or_byte_def)

lemma pton_loop_bounds:
  assumes "ti \<le> length target" and "state \<noteq> 0 \<Longrightarrow> ti < length target"
  shows "pton_fine (length target) (pton_loop src state ti target)"
  using assms
proof (induction src arbitrary: state ti target)
  case Nil
  then show ?case by (simp add: pton_fine_def)
next
  case (Cons ch src)
  have step: "pton_fine (length target) (pton_loop src state' ti' target')"
    if "length target' = length target" "ti' \<le> length target" "state' \<noteq> 0 \<Longrightarrow> ti' < length target"
    for state' ti' target'
    using Cons.IH [of ti' target' state'] that by simp
  have err: "pton_fine (length target) (Inr PtonErr)"
    "pton_fine (length target) (Inr (PtonPad src state ti target))"
    using Cons.prems by (simp_all add: pton_fine_def)
  show ?case
    using Cons.prems err by (auto split: option.splits intro!: step)
qed

lemma pton_bounds:
  "\<exists>r. adb_b64_pton src target = Inr r \<and>
    (\<forall>n target'. r = Some (n, target') \<longrightarrow> n \<le> length target \<and> length target' = length target)"
proof -
  from pton_loop_bounds [of 0 target 0 src] obtain r where r: "pton_loop src 0 0 target = Inr r"
    "pton_fine (length target) (Inr r)" by (cases "pton_loop src 0 0 target") (auto simp: pton_fine_def)
  show ?thesis
  proof (cases r)
    case PtonErr
    with r show ?thesis by (simp add: adb_b64_pton_def)
  next
    case (PtonPad rest state ti t)
    with r have "length t = length target" "ti \<le> length target" "state \<noteq> 0 \<longrightarrow> ti < length target"
      by (auto simp: pton_fine_def)
    with r(1) PtonPad show ?thesis
      by (cases "state = 0 \<or> state = 1") (auto simp: adb_b64_pton_def pton_pad_def Let_def split: list.splits)
  next
    case (PtonEnd state ti t)
    with r show ?thesis by (auto simp: adb_b64_pton_def pton_fine_def)
  qed
qed

text \<open>
  C35: Whatever the text and the size of the target, the decoder neither stores nor reads outside it, which would be a
  fault: it rejects the text or returns a count within the size of the target, whose size is unchanged.
\<close>

theorem b64_pton_bounds:
  "case adb_b64_pton src target of
     Inl _ \<Rightarrow> False
   | Inr None \<Rightarrow> True
   | Inr (Some (n, target')) \<Rightarrow> n \<le> length target \<and> length target' = length target"
  using pton_bounds [of src target] by (auto split: option.splits)

text \<open>A text that fills the target to its end, and one digit more, which the check of the first state stops.\<close>

theorem b64_pton_bounds_witness:
  "adb_b64_pton (bytes_of_str ''QUJD'') (replicate 3 0) = Inr (Some (3, [65, 66, 67])) \<and>
   adb_b64_pton (bytes_of_str ''QUJDQ'') (replicate 3 0) = Inr None \<and>
   (case adb_b64_pton (bytes_of_str ''QUJDQ'') (replicate 3 0) of Inl _ \<Rightarrow> False | Inr _ \<Rightarrow> True)"
proof -
  have "adb_b64_pton (bytes_of_str ''QUJD'') (replicate 3 0) = Inr (Some (3, [65, 66, 67]))"
    "adb_b64_pton (bytes_of_str ''QUJDQ'') (replicate 3 0) = Inr None" by code_simp+
  with b64_pton_bounds [of "bytes_of_str ''QUJDQ''" "replicate 3 0"] show ?thesis by simp
qed

section \<open>Decoding what was encoded\<close>

lemma Base64_eq: "Base64 = [65, 66, 67, 68, 69, 70, 71, 72, 73, 74, 75, 76, 77, 78, 79, 80, 81, 82, 83, 84, 85, 86,
     87, 88, 89, 90, 97, 98, 99, 100, 101, 102, 103, 104, 105, 106, 107, 108, 109, 110,
     111, 112, 113, 114, 115, 116, 117, 118, 119, 120, 121, 122, 48, 49, 50, 51, 52, 53,
     54, 55, 56, 57, 43, 47]"
  by code_simp

lemma Base64_distinct: "distinct Base64" "length Base64 = 64"
  by (simp_all add: Base64_eq)

lemma Base64_printable: "b \<in> set Base64 \<Longrightarrow> \<not> is_space b \<and> b \<noteq> Pad64"
  by (auto simp: Base64_eq is_space_def Pad64_def)

lemma b64_char_facts:
  assumes "d < 64"
  shows "\<not> is_space (b64_char d)" "b64_char d \<noteq> Pad64" "b64_pos (b64_char d) = Some d"
proof -
  have n: "unat d < length Base64" using assms by (simp add: word_less_nat_alt Base64_distinct)
  then show "\<not> is_space (b64_char d)" "b64_char d \<noteq> Pad64"
    using Base64_printable [of "Base64 ! unat d"] by (simp_all add: b64_char_def)
  have "find (\<lambda>i. Base64 ! i = Base64 ! unat d) [0..<length Base64] = Some (unat d)"
    unfolding find_Some_iff
    using n Base64_distinct(1) by (intro exI [of _ "unat d"]) (auto simp: nth_eq_iff_index_eq)
  then show "b64_pos (b64_char d) = Some d" by (simp add: b64_pos_def b64_char_def)
qed

lemma byte_eqI:
  assumes "bit x 0 = bit y 0" "bit x 1 = bit y 1" "bit x 2 = bit y 2" "bit x 3 = bit y 3"
    "bit x 4 = bit y 4" "bit x 5 = bit y 5" "bit x 6 = bit y 6" "bit x 7 = bit y 7"
  shows "(x :: byte) = y"
proof (rule bit_word_eqI)
  fix n
  assume "n < LENGTH(8)"
  then have "n \<in> {0, 1, 2, 3, 4, 5, 6, 7}" by auto
  with assms show "bit x n = bit y n" by blast
qed

lemma byte_add_or: "(x :: byte) AND y = 0 \<Longrightarrow> x + y = x OR y"
  by (rule disjunctive_add) (metis bit_and_iff bit_0_eq bot_apply bot_bool_def)

lemma digits_or:
  "push_bit 4 (a AND 3) + drop_bit 4 b = (push_bit 4 (a AND 3) OR drop_bit 4 b :: byte)"
  "push_bit 2 (b AND 0xf) + drop_bit 6 c = (push_bit 2 (b AND 0xf) OR drop_bit 6 c :: byte)"
  by (rule byte_add_or, rule bit_word_eqI, auto simp: bit_simps)+

lemma digits_small: "d \<in> set (digits a b c) \<Longrightarrow> d < 64"
proof -
  have lt: "x < 64" if "x AND 0x3f = x" for x :: byte
    using that and_mask_less' [of 6 x] by (simp add: mask_eq_exp_minus_1)
  have "drop_bit 2 a AND 0x3f = drop_bit 2 a" "(push_bit 4 (a AND 3) OR drop_bit 4 b) AND 0x3f = push_bit 4 (a AND 3) OR drop_bit 4 b"
    "(push_bit 2 (b AND 0xf) OR drop_bit 6 c) AND 0x3f = push_bit 2 (b AND 0xf) OR drop_bit 6 c"
    "(c AND 0x3f) AND 0x3f = c AND 0x3f"
    by (rule byte_eqI; simp add: bit_simps)+
  then show "d \<in> set (digits a b c) \<Longrightarrow> d < 64"
    unfolding digits_def digits_or using lt by auto
qed

text \<open>The decoder puts the bits of a group back where they came from.\<close>

lemma digits_join:
  fixes a b c :: byte
  defines "d0 \<equiv> drop_bit 2 a" and "d1 \<equiv> push_bit 4 (a AND 3) + drop_bit 4 b"
    and "d2 \<equiv> push_bit 2 (b AND 0xf) + drop_bit 6 c" and "d3 \<equiv> c AND 0x3f"
  shows "push_bit 2 d0 OR drop_bit 4 d1 = a"
    "push_bit 4 (d1 AND 0xf) OR drop_bit 2 d2 = b"
    "push_bit 6 (d2 AND 3) OR d3 = c"
  unfolding d0_def d1_def d2_def d3_def digits_or by (rule byte_eqI; simp add: bit_simps)+

lemma digits_tail:
  fixes a b :: byte
  shows "push_bit 4 ((push_bit 4 (a AND 3) + drop_bit 4 0) AND 0xf) = (0 :: byte)"
    "push_bit 6 ((push_bit 2 (b AND 0xf) + drop_bit 6 0) AND 3) = (0 :: byte)"
  unfolding digits_or by (rule byte_eqI; simp add: bit_simps)+

lemma pton_digit:
  assumes "d < 64"
  shows "pton_loop (b64_char d # src) state ti target =
    (if state = 0 then
       if ti \<ge> length target then Inr PtonErr
       else pton_loop src 1 ti (target[ti := push_bit 2 d])
     else if state = 1 then
       if ti + 1 \<ge> length target then Inr PtonErr
       else pton_loop src 2 (ti + 1) (target[ti := target ! ti OR drop_bit 4 d, ti + 1 := push_bit 4 (d AND 0xf)])
     else if state = 2 then
       if ti + 1 \<ge> length target then Inr PtonErr
       else pton_loop src 3 (ti + 1) (target[ti := target ! ti OR drop_bit 2 d, ti + 1 := push_bit 6 (d AND 3)])
     else
       if ti \<ge> length target then Inr PtonErr
       else pton_loop src 0 (ti + 1) (target[ti := target ! ti OR d]))"
proof -
  note f = b64_char_facts [OF assms]
  show ?thesis
    unfolding pton_loop.simps(2) f(3) option.case using f(1,2)
    by (simp only: if_False, intro if_cong refl) (simp_all add: put_byte_def or_byte_def del: push_bit_and)
qed

lemma pton_two:
  assumes "d0 < 64" "d1 < 64" "push_bit 2 d0 OR drop_bit 4 d1 = a" and "ti + 1 < length target"
  shows "pton_loop (b64_char d0 # b64_char d1 # src) 0 ti target =
    pton_loop src 2 (ti + 1) (target[ti := a, ti + 1 := push_bit 4 (d1 AND 0xf)])"
  using assms by (simp add: pton_digit del: pton_loop.simps push_bit_and)

lemma pton_three:
  assumes "d0 < 64" "d1 < 64" "push_bit 2 d0 OR drop_bit 4 d1 = a"
    and "d2 < 64" "push_bit 4 (d1 AND 0xf) OR drop_bit 2 d2 = b" and "ti + 2 < length target"
  shows "pton_loop (b64_char d0 # b64_char d1 # b64_char d2 # src) 0 ti target =
    pton_loop src 3 (ti + 2) (target[ti := a, ti + 1 := b, ti + 2 := push_bit 6 (d2 AND 3)])"
  using assms pton_two [OF assms(1-3), of ti target "b64_char d2 # src"]
  by (simp add: pton_digit del: pton_loop.simps push_bit_and)

lemma pton_four:
  assumes "d0 < 64" "d1 < 64" "push_bit 2 d0 OR drop_bit 4 d1 = a"
    and "d2 < 64" "push_bit 4 (d1 AND 0xf) OR drop_bit 2 d2 = b"
    and "d3 < 64" "push_bit 6 (d2 AND 3) OR d3 = c" and "ti + 2 < length target"
  shows "pton_loop (b64_char d0 # b64_char d1 # b64_char d2 # b64_char d3 # src) 0 ti target =
    pton_loop src 0 (ti + 3) (target[ti := a, ti + 1 := b, ti + 2 := c])"
  using assms pton_three [OF assms(1-5), of ti target "b64_char d3 # src"]
  by (simp add: pton_digit eval_nat_numeral del: pton_loop.simps push_bit_and)

lemma pton_group:
  assumes "ti + 2 < length target"
  shows "pton_loop (map b64_char (digits a b c) @ src) 0 ti target =
    pton_loop src 0 (ti + 3) (target[ti := a, ti + 1 := b, ti + 2 := c])"
proof -
  have d: "drop_bit 2 a < 64" "push_bit 4 (a AND 3) + drop_bit 4 b < 64"
    "push_bit 2 (b AND 0xf) + drop_bit 6 c < 64" "c AND 0x3f < 64"
    by (rule digits_small [of _ a b c], simp only: digits_def list.set insert_iff, simp)+
  show ?thesis
    unfolding digits_def list.map append.simps
    by (rule pton_four [OF d(1,2) digits_join(1) d(3) digits_join(2) d(4) digits_join(3) assms])
qed

lemma pton_tail_two:
  assumes "ti + 2 < length target"
  shows "pton_loop (map b64_char (take 3 (digits a b 0)) @ src) 0 ti target =
    pton_loop src 3 (ti + 2) (target[ti := a, ti + 1 := b, ti + 2 := 0])"
proof -
  have d: "drop_bit 2 a < 64" "push_bit 4 (a AND 3) + drop_bit 4 b < 64"
    "push_bit 2 (b AND 0xf) + drop_bit 6 0 < (64 :: byte)"
    by (rule digits_small [of _ a b 0], simp only: digits_def list.set insert_iff, simp)+
  have t: "take 3 (digits a b 0) = [drop_bit 2 a, push_bit 4 (a AND 3) + drop_bit 4 b,
      push_bit 2 (b AND 0xf) + drop_bit 6 0]"
    by (simp only: digits_def take_Suc_Cons take_0 eval_nat_numeral BitM.simps)
  show ?thesis
    unfolding t list.map append.simps
    using pton_three [OF d(1,2) digits_join(1) d(3) digits_join(2) assms, of src]
    unfolding digits_tail(2) .
qed

lemma pton_tail_one:
  assumes "ti + 1 < length target"
  shows "pton_loop (map b64_char (take 2 (digits a 0 0)) @ src) 0 ti target =
    pton_loop src 2 (ti + 1) (target[ti := a, ti + 1 := 0])"
proof -
  have d: "drop_bit 2 a < 64" "push_bit 4 (a AND 3) + drop_bit 4 0 < (64 :: byte)"
    by (rule digits_small [of _ a 0 0], simp only: digits_def list.set insert_iff, simp)+
  have t: "take 2 (digits a 0 0) = [drop_bit 2 a, push_bit 4 (a AND 3) + drop_bit 4 0]"
    by (simp only: digits_def take_Suc_Cons take_0 eval_nat_numeral BitM.simps)
  show ?thesis
    unfolding t list.map append.simps
    using pton_two [OF d(1,2) digits_join(1) assms, of src] unfolding digits_tail(1) .
qed

text \<open>The encoder without the size of its target.\<close>

fun b64_enc :: "byte list \<Rightarrow> byte list" where
  "b64_enc (a # b # c # src) = map b64_char (digits a b c) @ b64_enc src"
| "b64_enc [a, b] = map b64_char (take 3 (digits a b 0)) @ [Pad64]"
| "b64_enc [a] = map b64_char (take 2 (digits a 0 0)) @ [Pad64, Pad64]"
| "b64_enc [] = []"

lemma length_b64_enc: "length (b64_enc src) = 4 * ((length src + 2) div 3)"
proof (induction src rule: b64_enc.induct)
  case (1 a b c src)
  have "(length src + 5) div 3 = Suc ((length src + 2) div 3)" by simp
  with 1 show ?case by (simp add: digits_def add.commute)
qed (simp_all add: digits_def)

lemma digits_all: "\<forall>d \<in> set (digits a b c). d < 64" "\<forall>d \<in> set (take n (digits a b c)). d < 64"
  using digits_small [of _ a b c] in_set_takeD [of _ n "digits a b c"] by blast+

lemma ntop_from_eq:
  "ntop_from src target targsize =
     Inr (if length target + length (b64_enc src) < targsize then Some (target @ b64_enc src) else None)"
proof (induction src target targsize rule: ntop_from.induct)
  case (1 a b c src target targsize)
  have "length (digits a b c) = 4" by (simp add: digits_def)
  with 1 digits_all(1) [of a b c] show ?case by (auto simp: Let_def)
next
  case (2 a b target targsize)
  have "length (digits a b 0) = 4" by (simp add: digits_def)
  with digits_all(2) [of 3 a b 0] show ?case by (auto simp: Let_def)
next
  case (3 a target targsize)
  have "length (digits a 0 0) = 4" by (simp add: digits_def)
  with digits_all(2) [of 3 a 0 0] show ?case by (auto simp: Let_def)
qed simp

lemma pton_enc:
  assumes "ti + length src < length target"
  shows "\<exists>target'. length target' = length target \<and> take ti target' = take ti target \<and>
    take (length src) (drop ti target') = src \<and>
    (pton_loop (b64_enc src) 0 ti target = Inr (PtonEnd 0 (ti + length src) target') \<or>
     target' ! (ti + length src) = 0 \<and>
     (pton_loop (b64_enc src) 0 ti target = Inr (PtonPad [] 3 (ti + length src) target') \<or>
      pton_loop (b64_enc src) 0 ti target = Inr (PtonPad [Pad64] 2 (ti + length src) target')))"
  using assms
proof (induction src arbitrary: ti target rule: b64_enc.induct)
  case (1 a b c src)
  let ?t = "target[ti := a, ti + 1 := b, ti + 2 := c]"
  from 1 obtain target' where t: "length target' = length ?t" "take (ti + 3) target' = take (ti + 3) ?t"
    "take (length src) (drop (ti + 3) target') = src"
    "pton_loop (b64_enc src) 0 (ti + 3) ?t = Inr (PtonEnd 0 (ti + 3 + length src) target') \<or>
     target' ! (ti + 3 + length src) = 0 \<and>
     (pton_loop (b64_enc src) 0 (ti + 3) ?t = Inr (PtonPad [] 3 (ti + 3 + length src) target') \<or>
      pton_loop (b64_enc src) 0 (ti + 3) ?t = Inr (PtonPad [Pad64] 2 (ti + 3 + length src) target'))"
    using "1.IH" [of "ti + 3" ?t] by auto
  have tk: "take ti target' = take ti target"
    using arg_cong [OF t(2), of "take ti"] by (simp add: min_def)
  have "take 3 (drop ti target') = [a, b, c]"
    using arg_cong [OF t(2), of "drop ti"] "1.prems"
    by (simp add: drop_take eval_nat_numeral take_Suc_conv_app_nth)
  then have d: "take (3 + length src) (drop ti target') = a # b # c # src"
    using t(3) unfolding take_add by (simp add: add.commute)
  have l: "length (a # b # c # src) = 3 + length src" by simp
  have p: "pton_loop (b64_enc (a # b # c # src)) 0 ti target = pton_loop (b64_enc src) 0 (ti + 3) ?t"
    using pton_group [of ti target a b c "b64_enc src"] "1.prems" by simp
  show ?case
    unfolding l p using t(1,4) tk d by (intro exI [of _ target'] conjI) (simp_all only: length_list_update add.assoc)
next
  case (2 a b)
  let ?t = "target[ti := a, ti + 1 := b, ti + 2 := 0]"
  have "pton_loop (b64_enc [a, b]) 0 ti target = Inr (PtonPad [] 3 (ti + 2) ?t)"
    using pton_tail_two [of ti target a b "[Pad64]"] 2 by (simp add: Pad64_def is_space_def)
  with 2 show ?case
    by (intro exI [of _ ?t]) (auto simp: eval_nat_numeral take_Suc_conv_app_nth)
next
  case (3 a)
  let ?t = "target[ti := a, ti + 1 := 0]"
  have "pton_loop (b64_enc [a]) 0 ti target = Inr (PtonPad [Pad64] 2 (ti + 1) ?t)"
    using pton_tail_one [of ti target a "[Pad64, Pad64]"] 3 by (simp add: Pad64_def is_space_def)
  with 3 show ?case
    by (intro exI [of _ ?t]) (auto simp: take_Suc_conv_app_nth)
qed auto

lemma enc_dec:
  assumes "length src < length target"
  shows "\<exists>target'. adb_b64_pton (b64_enc src) target = Inr (Some (length src, target')) \<and>
    take (length src) target' = src"
proof -
  from pton_enc [of 0 src target] assms obtain target' where t: "length target' = length target"
    "take (length src) target' = src"
    "pton_loop (b64_enc src) 0 0 target = Inr (PtonEnd 0 (length src) target') \<or>
     target' ! length src = 0 \<and>
     (pton_loop (b64_enc src) 0 0 target = Inr (PtonPad [] 3 (length src) target') \<or>
      pton_loop (b64_enc src) 0 0 target = Inr (PtonPad [Pad64] 2 (length src) target'))"
    by auto
  have "\<not> is_space Pad64" by (simp add: Pad64_def is_space_def)
  with t assms have "adb_b64_pton (b64_enc src) target = Inr (Some (length src, target'))"
    by (auto simp: adb_b64_pton_def pton_pad_def)
  with t(2) show ?thesis by blast
qed

text \<open>
  Decoding inverts encoding. Whenever the target of the encoder is large enough it returns
  the text, and the decoder, given a target one byte larger than the data, returns the number
  of bytes and has stored exactly the original data.
\<close>

theorem b64_roundtrip:
  assumes "4 * ((length src + 2) div 3) < targsize" and "length src < length target"
  shows "\<exists>enc target'. adb_b64_ntop src targsize = Inr (Some enc) \<and>
    adb_b64_pton enc target = Inr (Some (length src, target')) \<and> take (length src) target' = src"
  using assms(1) enc_dec [OF assms(2)] by (auto simp: adb_b64_ntop_def ntop_from_eq length_b64_enc)

theorem b64_roundtrip_witness:
  "\<exists>enc target'. adb_b64_ntop [1, 2, 3, 255] 9 = Inr (Some enc) \<and>
    adb_b64_pton enc (replicate 5 0) = Inr (Some (4, target')) \<and> take 4 target' = [1, 2, 3, 255]"
proof -
  have l: "length [1, 2, 3, 255 :: byte] = 4" by simp
  show ?thesis using b64_roundtrip [of "[1, 2, 3, 255]" 9 "replicate 5 0"] unfolding l by simp
qed

end
