(* ===== verification/Utils.thy ===== *)
theory Utils
  imports Prelude
begin

text \<open>
  The bounded string builder of \<open>src/utils.c\<close> and \<open>load_file\<close> (\<open>src/load_file.c\<close>). A buffer is the array
  it lies in, with the offset \<open>p\<close> where the next text goes and the offset \<open>e\<close> of its end. Every
  store is checked against the array.
\<close>

section \<open>Stores\<close>

definition store_at :: "byte list \<Rightarrow> int \<Rightarrow> byte \<Rightarrow> byte list res" where
  "store_at buf i b = (if 0 \<le> i \<and> i < int (length buf) then Inr (buf[nat i := b]) else Inl (Fault OutOfBounds))"

text \<open>\<open>memcpy(buf + i, data, n)\<close>.\<close>

definition memcpy :: "byte list \<Rightarrow> int \<Rightarrow> byte list \<Rightarrow> int \<Rightarrow> byte list res" where
  "memcpy buf i data n =
     (if 0 \<le> i \<and> i + n \<le> int (length buf) \<and> n \<le> int (length data)
      then Inr (take (nat i) buf @ take (nat n) data @ drop (nat (i + n)) buf)
      else Inl (Fault OutOfBounds))"

section \<open>The string builder\<close>

definition buff_addc :: "int \<Rightarrow> byte \<Rightarrow> byte list \<times> int \<Rightarrow> (byte list \<times> int) res" where
  "buff_addc e c = (\<lambda>(buf, p).
     let avail = e - p in
     if avail \<le> 0 then Inr (buf, p)
     else if avail = 1 then seq (store_at buf p 0) (\<lambda>buf. Inr (buf, p + 1))
     else seq (store_at buf p c) (\<lambda>buf. seq (store_at buf (p + 1) 0) (\<lambda>buf. Inr (buf, p + 1))))"

text \<open>The store of the terminating zero, the same in \<open>buff_addb\<close> and \<open>buff_add\<close>.\<close>

definition ensure_zero :: "int \<Rightarrow> byte list \<times> int \<Rightarrow> (byte list \<times> int) res" where
  "ensure_zero e = (\<lambda>(buf, p). seq (store_at buf (if p \<ge> e then p - 1 else p) 0) (\<lambda>buf. Inr (buf, p)))"

definition buff_addb :: "int \<Rightarrow> byte list \<Rightarrow> int \<Rightarrow> byte list \<times> int \<Rightarrow> (byte list \<times> int) res" where
  "buff_addb e data len = (\<lambda>(buf, p).
     let avail = e - p in
     if avail \<le> 0 \<or> len \<le> 0 then Inr (buf, p)
     else
       let len = (if len > avail then avail else len) in
       seq (memcpy buf p data len) (\<lambda>buf. ensure_zero e (buf, p + len)))"

text \<open>A string argument is the list of its characters without the final zero.\<close>

definition buff_adds :: "int \<Rightarrow> byte list \<Rightarrow> byte list \<times> int \<Rightarrow> (byte list \<times> int) res" where
  "buff_adds e s = buff_addb e s (int (length s))"

text \<open>
  \<open>vsnprintf(buf + p, avail, ...)\<close>: the text it formats, cut to \<open>avail - 1\<close> characters, and a zero are
  stored; the result is the length of the whole text. \<open>None\<close> is a format that fails.
\<close>

definition vsnprintf :: "byte list option \<Rightarrow> int \<Rightarrow> byte list \<times> int \<Rightarrow> (byte list \<times> int) res" where
  "vsnprintf t avail = (\<lambda>(buf, p).
     case t of
       None \<Rightarrow> Inr (buf, -1)
     | Some txt \<Rightarrow>
         let s = take (nat (avail - 1)) txt @ [0] in
         seq (memcpy buf p s (int (length s))) (\<lambda>buf. Inr (buf, int (length txt))))"

definition buff_add :: "int \<Rightarrow> byte list option \<Rightarrow> byte list \<times> int \<Rightarrow> (byte list \<times> int) res" where
  "buff_add e t = (\<lambda>(buf, p).
     let avail = e - p in
     if avail > 0 then
       seq (vsnprintf t avail (buf, p)) (\<lambda>(buf, nn).
       let nn = (if nn < 0 then avail else if nn > avail then avail else nn) in
       ensure_zero e (buf, p + nn))
     else Inr (buf, p))"

text \<open>Sequences of additions, and the text each one means to add.\<close>

datatype addition = AddC byte | AddS "byte list" | AddB "byte list" int | AddF "byte list option"

fun run_addition :: "int \<Rightarrow> addition \<Rightarrow> byte list \<times> int \<Rightarrow> (byte list \<times> int) res" where
  "run_addition e (AddC c) st = buff_addc e c st"
| "run_addition e (AddS s) st = buff_adds e s st"
| "run_addition e (AddB d n) st = buff_addb e d n st"
| "run_addition e (AddF t) st = buff_add e t st"

fun run_additions :: "int \<Rightarrow> addition list \<Rightarrow> byte list \<times> int \<Rightarrow> (byte list \<times> int) res" where
  "run_additions e [] st = Inr st"
| "run_additions e (a # ads) st = seq (run_addition e a st) (run_additions e ads)"

fun added :: "addition \<Rightarrow> byte list" where
  "added (AddC c) = [c]"
| "added (AddS s) = s"
| "added (AddB d n) = take (nat n) d"
| "added (AddF t) = (case t of None \<Rightarrow> [] | Some txt \<Rightarrow> txt)"

fun addition_ok :: "addition \<Rightarrow> bool" where
  "addition_ok (AddB d n) \<longleftrightarrow> n \<le> int (length d)"
| "addition_ok (AddF t) \<longleftrightarrow> t \<noteq> None"
| "addition_ok _ \<longleftrightarrow> True"

section \<open>What the buffer holds\<close>

text \<open>
  \<open>holds buf0 s e txt (buf, p)\<close>: the buffer from \<open>s\<close> to \<open>e\<close> in \<open>buf\<close> has the text \<open>txt\<close>, cut to its room, and
  nothing else of \<open>buf0\<close> has changed.
\<close>

definition fits :: "nat \<Rightarrow> nat \<Rightarrow> byte list \<Rightarrow> byte list" where
  "fits s e txt = take (e - s - 1) txt"

definition holds :: "byte list \<Rightarrow> nat \<Rightarrow> nat \<Rightarrow> byte list \<Rightarrow> byte list \<times> int \<Rightarrow> bool" where
  "holds buf0 s e txt = (\<lambda>(buf, p).
     \<exists>rest. buf = take s buf0 @ fits s e txt @ rest @ drop e buf0 \<and>
       length rest = e - s - length (fits s e txt) \<and> (txt \<noteq> [] \<longrightarrow> hd rest = 0) \<and>
       p = (if length txt < e - s then int (s + length txt) else int e))"

text \<open>One step on the free part \<open>rest\<close> of the buffer: \<open>new\<close> goes there, with a zero behind it.\<close>

lemma store_at_end: "store_at (xs @ y # ys) (int (length xs)) b = Inr (xs @ b # ys)"
  by (simp add: store_at_def)

lemma memcpy_at:
  assumes "n = int (length new)" and "length new \<le> length rest" and "take (length new) data = new"
  shows "memcpy (xs @ rest @ ys) (int (length xs)) data n = Inr (xs @ new @ drop (length new) rest @ ys)"
proof -
  have "length new \<le> length data" using assms(3) by (metis length_take min.cobounded1 min_def)
  then show ?thesis using assms by (simp add: memcpy_def nat_add_distrib)
qed


definition appended :: "byte list \<Rightarrow> byte list \<Rightarrow> byte list \<Rightarrow> byte list \<Rightarrow> byte list \<times> int" where
  "appended xs rest ys t =
     (xs @ take (length rest - 1) t @ 0 # drop (Suc (min (length t) (length rest - 1))) rest @ ys,
      int (length xs + min (length t) (length rest)))"

lemma ensure_zero_inside:
  assumes "p = int (length xs)" and "e = p + int (length (y # r))"
  shows "ensure_zero e (xs @ y # r @ ys, p) = Inr (xs @ 0 # r @ ys, p)"
  using store_at_end [of xs y "r @ ys" 0] assms by (simp add: ensure_zero_def)

lemma ensure_zero_full:
  assumes "e = int (length xs) + 1"
  shows "ensure_zero e (xs @ y # ys, e) = Inr (xs @ 0 # ys, e)"
  using store_at_end [of xs y ys 0] assms by (simp add: ensure_zero_def)

lemma buff_addc_appends:
  assumes "rest \<noteq> []"
  shows "buff_addc (int (length xs + length rest)) c (xs @ rest @ ys, int (length xs)) = Inr (appended xs rest ys [c])"
proof (cases rest rule: remdups_adj.cases)
  case (2 y)
  then show ?thesis using store_at_end [of xs y ys 0] by (simp add: buff_addc_def appended_def)
next
  case (3 y z r)
  then show ?thesis
    using store_at_end [of xs y "z # r @ ys" c] store_at_end [of "xs @ [c]" z "r @ ys" 0]
    by (simp add: buff_addc_def appended_def add.commute)
qed (use assms in simp)

lemma buff_addb_appends:
  assumes "rest \<noteq> []" and "t = take (nat len) data" and "t \<noteq> []" and "len \<le> int (length data)"
  shows "buff_addb (int (length xs + length rest)) data len (xs @ rest @ ys, int (length xs)) =
    Inr (appended xs rest ys t)"
proof -
  have len: "len = int (length t)" "0 < length t" using assms by auto
  then have data: "take (length t) data = t" using assms(2) by (metis nat_int)
  show ?thesis
  proof (cases "length t < length rest")
    case True
    then obtain y r where r: "drop (length t) rest = y # r" by (cases "drop (length t) rest") auto
    have rest: "length rest = length t + Suc (length r)" "drop (Suc (length t)) rest = r"
      using True arg_cong [OF r, of length] arg_cong [OF r, of tl] by (simp_all add: drop_Suc tl_drop)
    have "memcpy (xs @ rest @ ys) (int (length xs)) data len = Inr (xs @ t @ y # r @ ys)"
      using memcpy_at [OF len(1) _ data, of rest xs ys] r True by simp
    moreover have "ensure_zero (int (length xs + length rest)) (xs @ t @ y # r @ ys, int (length xs) + len) =
      Inr (xs @ t @ 0 # r @ ys, int (length xs) + len)"
      using ensure_zero_inside [of "int (length xs) + len" "xs @ t" _ y r ys] len rest by (simp add: add_ac)
    ultimately show ?thesis
      using len rest True by (simp add: buff_addb_def appended_def)
  next
    case False
    let ?n = "length rest - 1"
    have t: "take (length rest) t = take ?n t @ [t ! ?n]"
      using False assms(1) take_Suc_conv_app_nth [of ?n t] by (cases rest) auto
    have "memcpy (xs @ rest @ ys) (int (length xs)) data (int (length rest)) = Inr (xs @ take (length rest) t @ ys)"
      using memcpy_at [of "int (length rest)" "take (length rest) t" rest data xs ys] False
        arg_cong [OF data, of "take (length rest)"] by (simp add: min_def)
    moreover have "ensure_zero (int (length xs + length rest)) (xs @ take (length rest) t @ ys, int (length xs + length rest)) =
      Inr (xs @ take ?n t @ 0 # ys, int (length xs + length rest))"
      using ensure_zero_full [of "int (length xs + length rest)" "xs @ take ?n t" "t ! ?n" ys] False assms(1) t
      by (cases rest) simp_all
    moreover have "buff_addb (int (length xs + length rest)) data len (xs @ rest @ ys, int (length xs)) =
      seq (memcpy (xs @ rest @ ys) (int (length xs)) data (int (length rest)))
        (\<lambda>b. ensure_zero (int (length xs + length rest)) (b, int (length xs + length rest)))"
      using len False assms(1) by (auto simp: buff_addb_def Let_def)
    ultimately show ?thesis
      using False assms(1) by (cases rest) (simp_all add: appended_def min_def)
  qed
qed

lemma buff_add_appends:
  assumes "rest \<noteq> []"
  shows "buff_add (int (length xs + length rest)) (Some t) (xs @ rest @ ys, int (length xs)) = Inr (appended xs rest ys t)"
proof -
  let ?n = "length rest - 1" and ?e = "int (length xs + length rest)"
  let ?s = "take ?n t @ [0]" and ?b = "fst (appended xs rest ys t)"
  have n: "nat (?e - int (length xs) - 1) = ?n" "length ?s \<le> length rest" using assms by (cases rest; simp)+
  then have m: "memcpy (xs @ rest @ ys) (int (length xs)) ?s (int (length ?s)) = Inr ?b"
    using memcpy_at [OF refl n(2) take_all [OF order_refl], of xs ys] assms by (simp add: appended_def)
  let ?p = "int (length xs + min (length t) (length rest))"
  have "ensure_zero ?e (?b, ?p) = Inr (?b, ?p)"
  proof (cases "length t < length rest")
    case True
    then show ?thesis
      using ensure_zero_inside [of ?p "xs @ t" ?e 0 "drop (Suc (length t)) rest" ys] by (simp add: appended_def)
  next
    case False
    then show ?thesis
      using ensure_zero_full [of ?e "xs @ take ?n t" 0 ys] assms by (cases rest) (simp_all add: appended_def)
  qed
  then show ?thesis
    using assms m n by (simp add: buff_add_def vsnprintf_def min_def) (auto simp: appended_def min_def)
qed


lemma appended_holds:
  assumes "holds buf0 s e txt (buf, p)" and "p < int e" and "s < e" "e \<le> length buf0"
  obtains xs rest where "buf = xs @ rest @ drop e buf0" "p = int (length xs)" "e = length xs + length rest" "rest \<noteq> []"
    "\<And>t. holds buf0 s e (txt @ t) (appended xs rest (drop e buf0) t)"
proof -
  from assms(1,2) have l: "length txt < e - s" and p: "p = int (s + length txt)"
    by (auto simp: holds_def split: if_splits)
  then have f: "fits s e txt = txt" by (simp add: fits_def)
  with assms(1) obtain rest where r: "buf = (take s buf0 @ txt) @ rest @ drop e buf0" "length rest = e - s - length txt"
    by (auto simp: holds_def)
  have "holds buf0 s e (txt @ t) (appended (take s buf0 @ txt) rest (drop e buf0) t)" for t
    unfolding holds_def appended_def fits_def prod.case
    by (rule exI [of _ "0 # drop (Suc (min (length t) (length rest - 1))) rest"])
      (use r(2) l assms(3,4) in \<open>simp add: min_def; linarith\<close>)
  with r p l assms(3,4) show thesis by (intro that [of "take s buf0 @ txt" rest]) auto
qed

lemma holds_full: "holds buf0 s e txt (buf, p) \<Longrightarrow> int e \<le> p \<Longrightarrow> s < e \<Longrightarrow> holds buf0 s e (txt @ t) (buf, p) \<and> e - s \<le> length txt"
  by (auto simp: holds_def fits_def split: if_splits)

lemma run_addition_holds:
  assumes h: "holds buf0 s e txt (buf, p)" and s: "s < e" "e \<le> length buf0" and a: "addition_ok a"
  shows "\<exists>st. run_addition (int e) a (buf, p) = Inr st \<and> holds buf0 s e (txt @ added a) st"
proof (cases "p < int e")
  case True
  obtain xs rest where x: "buf = xs @ rest @ drop e buf0" "p = int (length xs)" "e = length xs + length rest" "rest \<noteq> []"
    and step: "\<And>t. holds buf0 s e (txt @ t) (appended xs rest (drop e buf0) t)"
    using appended_holds [OF h True s] by metis
  have "run_addition (int e) a (buf, p) = Inr (appended xs rest (drop e buf0) (added a))"
    if "added a \<noteq> [] \<or> (\<exists>t. a = AddF t)"
    using that a x(1,2,3) buff_addc_appends [OF x(4)] buff_addb_appends [OF x(4)] buff_add_appends [OF x(4)]
    by (cases a) (auto simp: buff_adds_def simp del: of_nat_add)
  moreover have "run_addition (int e) a (buf, p) = Inr (buf, p)"
    if "\<not> (added a \<noteq> [] \<or> (\<exists>t. a = AddF t))"
    using that True a by (cases a) (auto simp: buff_adds_def buff_addb_def)
  ultimately show ?thesis using step [of "added a"] h
    by (cases "added a \<noteq> [] \<or> (\<exists>t. a = AddF t)") force+
next
  case False
  then have "run_addition (int e) a (buf, p) = Inr (buf, p)"
    by (cases a) (simp_all add: buff_addc_def buff_adds_def buff_addb_def buff_add_def)
  then show ?thesis using holds_full [OF h _ s(1), of "added a"] False by simp
qed

lemma run_additions_holds:
  "holds buf0 s e txt st \<Longrightarrow> s < e \<Longrightarrow> e \<le> length buf0 \<Longrightarrow> list_all addition_ok ads \<Longrightarrow>
   \<exists>st'. run_additions (int e) ads st = Inr st' \<and> holds buf0 s e (txt @ concat (map added ads)) st'"
proof (induction ads arbitrary: st "txt")
  case (Cons a ads)
  then obtain st' where "run_addition (int e) a st = Inr st'" "holds buf0 s e (txt @ added a) st'"
    using run_addition_holds [of buf0 s e "txt" "fst st" "snd st" a] by auto
  with Cons.IH [of "txt @ added a" st'] Cons.prems show ?case by auto
qed simp

text \<open>
  The string builder keeps to its buffer: any sequence of additions, whatever their number and
  size, leaves the bytes before and behind the buffer alone, and the buffer holds the texts one
  after the other, cut to its room and followed by a zero.
\<close>

theorem buff_additions_bounded:
  assumes "s < e" and "e \<le> length buf" and "list_all addition_ok ads" and "concat (map added ads) \<noteq> []"
  shows "\<exists>junk p. run_additions (int e) ads (buf, int s) =
    Inr (take s buf @ take (e - s - 1) (concat (map added ads)) @ 0 # junk @ drop e buf, p) \<and>
    length junk = e - s - 1 - length (take (e - s - 1) (concat (map added ads))) \<and> int s \<le> p \<and> p \<le> int e"
proof -
  let ?t = "concat (map added ads)"
  have "buf = take s buf @ take (e - s) (drop s buf) @ drop e buf"
    using assms(1) take_add [of s "e - s" buf] by (metis append_assoc append_take_drop_id le_add_diff_inverse less_imp_le_nat)
  then have "holds buf s e [] (buf, int s)"
    unfolding holds_def fits_def prod.case using assms(1,2) by (intro exI [of _ "take (e - s) (drop s buf)"]) simp
  from run_additions_holds [OF this assms(1-3)]
  obtain buf' p where r: "run_additions (int e) ads (buf, int s) = Inr (buf', p)" "holds buf s e ?t (buf', p)"
    by auto
  from r(2) obtain rest where b: "buf' = take s buf @ take (e - s - 1) ?t @ rest @ drop e buf"
    "length rest = e - s - length (take (e - s - 1) ?t)" "hd rest = 0" "int s \<le> p" "p \<le> int e"
    using assms(1,4) by (auto simp: holds_def fits_def split: if_splits)
  have "rest \<noteq> []" using b(2) assms(1) by auto
  then have "rest = 0 # tl rest" using b(3) by (metis list.collapse)
  with r b show ?thesis using assms(1) by (intro exI [of _ "tl rest"] exI [of _ p]) auto
qed

theorem buff_additions_bounded_witness:
  "\<exists>junk p. run_additions 4 [AddC 97, AddS [98, 99], AddF (Some [100])] ([9, 1, 2, 3, 8], int 1) =
    Inr ([9, 97, 98, 0] @ junk @ [8], p) \<and> junk = []"
  using buff_additions_bounded [of 1 4 "[9, 1, 2, 3, 8]" "[AddC 97, AddS [98, 99], AddF (Some [100])]"] by auto

section \<open>Loading a file\<close>

text \<open>
  What the calls return: \<open>open\<close>, the two \<open>lseek\<close>, \<open>malloc\<close> of a number of bytes, and the bytes of the only
  \<open>read\<close>. The result is the array with its size, if any, and the descriptors closed.
\<close>

record file_calls =
  opened :: int
  seek_end :: int
  seek_start :: int
  malloc_ok :: "u32 \<Rightarrow> bool"
  read_bytes :: "int \<Rightarrow> byte list option"

definition load_file :: "file_calls \<Rightarrow> (byte list \<times> u32) option \<times> int list" where
  "load_file c =
     (let fd = opened c in
      if fd < 0 then (None, [])
      else
        let sz = seek_end c in
        if sz < 0 then (None, [fd])
        else if seek_start c \<noteq> 0 then (None, [fd])
        else if \<not> malloc_ok c (of_int (sz + 1)) then (None, [fd])
        else
          case read_bytes c sz of
            None \<Rightarrow> (None, [fd])
          | Some bs \<Rightarrow> if int (length bs) \<noteq> sz then (None, [fd]) else (Some (bs @ [0], of_int sz), [fd]))"

text \<open>
  \<open>load_file\<close> returns all or nothing: an array of exactly the size the file had when it was measured,
  all of it read and a zero behind it, and in every case the descriptor that was opened is closed
  once.
\<close>

theorem load_file_all_or_nothing:
  "snd (load_file c) = (if opened c < 0 then [] else [opened c]) \<and>
   (case fst (load_file c) of
      None \<Rightarrow> opened c < 0 \<or> seek_end c < 0 \<or> seek_start c \<noteq> 0 \<or> \<not> malloc_ok c (of_int (seek_end c + 1)) \<or>
        (\<nexists>bs. read_bytes c (seek_end c) = Some bs \<and> int (length bs) = seek_end c)
    | Some (data, sz) \<Rightarrow> read_bytes c (seek_end c) = Some (butlast data) \<and> last data = 0 \<and>
        int (length data) = seek_end c + 1 \<and> sz = of_int (seek_end c))"
  by (auto simp: load_file_def Let_def split: option.splits)

end
