(* ===== verification/Auth.thy ===== *)
theory Auth
  imports Base64
begin

text \<open>
  The keys of the hosts that may connect (\<open>src/adb_auth_client.c\<close>): reading them from the key
  files, and checking a signature against them. \<open>RSA_verify\<close> is not part of the repository: it
  is an argument, applied to a key, a signature and the token that was signed.
\<close>

section \<open>Key files\<close>

definition RSANUMBYTES :: nat where "RSANUMBYTES = 256"

definition RSANUMWORDS :: u32 where "RSANUMWORDS = 64"

text \<open>\<open>sizeof(RSAPublicKey)\<close>: two words, two arrays of 64 words, and the exponent.\<close>

definition KEY_SIZE :: nat where "KEY_SIZE = 524"

text \<open>
  One line as \<open>fgets\<close> delivers it. The key is decoded into zeroed memory with four bytes to
  spare; it is kept when it has the right size and number of words.
\<close>

definition read_key :: "byte list \<Rightarrow> byte list option res" where
  "read_key buf =
     (let line = takeWhile (\<lambda>b. b \<noteq> 0) buf; text = takeWhile (\<lambda>b. b \<noteq> 32 \<and> b \<noteq> 9) line in
      seq (adb_b64_pton text (replicate (KEY_SIZE + 4) 0)) (\<lambda>r.
      case r of
        None \<Rightarrow> Inr None
      | Some (ret, target) \<Rightarrow>
          if ret \<noteq> KEY_SIZE then Inr None
          else if of_le32 target \<noteq> RSANUMWORDS then Inr None
          else Inr (Some (take KEY_SIZE target))))"

fun read_keys :: "byte list list \<Rightarrow> byte list list \<Rightarrow> byte list list res" where
  "read_keys [] keys = Inr keys"
| "read_keys (buf # lines) keys =
     seq (read_key buf) (\<lambda>r. read_keys lines (case r of None \<Rightarrow> keys | Some k \<Rightarrow> keys @ [k]))"

text \<open>The two key files in order; \<open>None\<close> for one that \<open>stat\<close> does not find.\<close>

fun reload_from :: "byte list list option list \<Rightarrow> byte list list \<Rightarrow> byte list list res" where
  "reload_from [] keys = Inr keys"
| "reload_from (None # files) keys = reload_from files keys"
| "reload_from (Some lines # files) keys = seq (read_keys lines keys) (reload_from files)"

definition adb_auth_reload_keys :: "byte list list option list \<Rightarrow> byte list list res" where
  "adb_auth_reload_keys files = reload_from files []"

section \<open>Checking a signature\<close>

type_synonym rsa_verify = "byte list \<Rightarrow> byte list \<Rightarrow> byte list \<Rightarrow> bool"

fun verify_from :: "rsa_verify \<Rightarrow> byte list list \<Rightarrow> byte list \<Rightarrow> byte list \<Rightarrow> bool" where
  "verify_from RSA_verify [] sig token = False"
| "verify_from RSA_verify (key # keys) sig token =
     (if RSA_verify key sig token then True else verify_from RSA_verify keys sig token)"

definition adb_auth_verify :: "rsa_verify \<Rightarrow> byte list list \<Rightarrow> byte list \<Rightarrow> byte list \<Rightarrow> bool" where
  "adb_auth_verify RSA_verify keys token sig =
     (if length sig \<noteq> RSANUMBYTES then False else verify_from RSA_verify keys sig token)"

lemma verify_from_iff: "verify_from v keys sig token \<longleftrightarrow> (\<exists>key \<in> set keys. v key sig token)"
  by (induction keys) auto

section \<open>What the list holds\<close>

definition key_ok :: "byte list \<Rightarrow> bool" where
  "key_ok k \<longleftrightarrow> length k = KEY_SIZE \<and> of_le32 k = RSANUMWORDS"

lemma of_le32_take: "4 \<le> n \<Longrightarrow> of_le32 (take n bs) = of_le32 bs"
proof -
  assume "4 \<le> n"
  then obtain m where "n = Suc (Suc (Suc (Suc m)))"
    by (metis Suc_le_D numeral_eq_Suc pred_numeral_simps(2) Suc_le_mono One_nat_def BitM.simps eval_nat_numeral)
  then show ?thesis
    by (cases bs; cases "tl bs"; cases "tl (tl bs)"; cases "tl (tl (tl bs))") auto
qed

text \<open>
  What a line of a key file must be for a key to be loaded from it: the text up to the first blank decodes to exactly the
  bytes of a key, which announces 64 words.
\<close>

definition key_text :: "byte list \<Rightarrow> byte list" where
  "key_text buf = takeWhile (\<lambda>b. b \<noteq> 32 \<and> b \<noteq> 9) (takeWhile (\<lambda>b. b \<noteq> 0) buf)"

definition key_line :: "byte list \<Rightarrow> byte list \<Rightarrow> bool" where
  "key_line buf k \<longleftrightarrow> key_ok k \<and>
     (\<exists>target. adb_b64_pton (key_text buf) (replicate (KEY_SIZE + 4) 0) = Inr (Some (length k, target)) \<and> prefix k target)"

lemma read_key_iff: "\<exists>r. read_key buf = Inr r \<and> (\<forall>k. r = Some k \<longleftrightarrow> key_line buf k)"
proof -
  from pton_bounds [of "key_text buf" "replicate (KEY_SIZE + 4) 0"] obtain r where
    r: "adb_b64_pton (key_text buf) (replicate (KEY_SIZE + 4) 0) = Inr r"
    "\<forall>n t. r = Some (n, t) \<longrightarrow> length t = KEY_SIZE + 4" by auto
  have pre: "prefix k t \<longleftrightarrow> k = take (length k) t" for k t :: "byte list"
    by (metis prefix_def append_eq_conv_conj append_take_drop_id)
  show ?thesis
    using r by (cases r)
      (auto simp: read_key_def key_line_def key_ok_def Let_def of_le32_take KEY_SIZE_def pre key_text_def)
qed

lemma read_keys_iff:
  "\<exists>keys'. read_keys lines keys = Inr keys' \<and> (\<forall>k. k \<in> set keys' \<longleftrightarrow> k \<in> set keys \<or> (\<exists>buf \<in> set lines. key_line buf k))"
proof (induction lines arbitrary: keys)
  case (Cons buf lines)
  from read_key_iff [of buf] obtain r where r: "read_key buf = Inr r" "\<forall>k. r = Some k \<longleftrightarrow> key_line buf k" by blast
  let ?ks = "case r of None \<Rightarrow> keys | Some k \<Rightarrow> keys @ [k]"
  have ks: "k \<in> set ?ks \<longleftrightarrow> k \<in> set keys \<or> key_line buf k" for k
    using r(2) [rule_format, of k] by (auto split: option.split)
  from Cons [of ?ks] obtain keys' where "read_keys lines ?ks = Inr keys'"
    "\<forall>k. k \<in> set keys' \<longleftrightarrow> (k \<in> set keys \<or> key_line buf k) \<or> (\<exists>buf \<in> set lines. key_line buf k)" unfolding ks by blast
  with r(1) show ?case by (intro exI [of _ keys']) (simp add: disj_assoc)
qed simp

lemma reload_from_iff:
  "\<exists>keys'. reload_from files keys = Inr keys' \<and>
    (\<forall>k. k \<in> set keys' \<longleftrightarrow> k \<in> set keys \<or> (\<exists>lines. Some lines \<in> set files \<and> (\<exists>buf \<in> set lines. key_line buf k)))"
proof (induction files keys rule: reload_from.induct)
  case (3 lines files keys)
  from read_keys_iff [of lines keys] obtain keys1 where
    k: "read_keys lines keys = Inr keys1" "\<forall>k. k \<in> set keys1 \<longleftrightarrow> k \<in> set keys \<or> (\<exists>buf \<in> set lines. key_line buf k)" by blast
  from "3.IH" [OF k(1)] obtain keys' where k': "reload_from files keys1 = Inr keys'"
    "\<forall>k. k \<in> set keys' \<longleftrightarrow> k \<in> set keys1 \<or> (\<exists>lines. Some lines \<in> set files \<and> (\<exists>buf \<in> set lines. key_line buf k))" by blast
  with k have "\<forall>x. x \<in> set keys' \<longleftrightarrow> x \<in> set keys \<or> (\<exists>ls. Some ls \<in> set (Some lines # files) \<and> (\<exists>buf \<in> set ls. key_line buf x))"
    by (simp only: list.set insert_iff option.inject) blast
  with k(1) k'(1) show ?case by simp
qed auto

lemma reload_from_ok:
  "\<forall>k \<in> set keys. key_ok k \<Longrightarrow> \<exists>keys'. reload_from files keys = Inr keys' \<and> (\<forall>k \<in> set keys'. key_ok k)"
  using reload_from_iff [of files keys] by (auto simp: key_line_def)

lemma b64_enc_chars: "c \<in> set (b64_enc src) \<Longrightarrow> c \<in> set Base64 \<or> c = Pad64"
proof -
  have "b64_char d \<in> set Base64" if "d < 64" for d
    using that by (simp add: b64_char_def word_less_nat_alt Base64_distinct)
  then show "c \<in> set (b64_enc src) \<Longrightarrow> c \<in> set Base64 \<or> c = Pad64"
    using digits_all by (induction src rule: b64_enc.induct) fastforce+
qed

lemma b64_text_char: "c \<in> set (b64_enc src) \<Longrightarrow> c \<noteq> 0 \<and> c \<noteq> 32 \<and> c \<noteq> 9"
proof -
  have "b \<in> set Base64 \<Longrightarrow> b \<noteq> 0 \<and> b \<noteq> 32 \<and> b \<noteq> 9" for b by (auto simp: Base64_eq)
  then show "c \<in> set (b64_enc src) \<Longrightarrow> c \<noteq> 0 \<and> c \<noteq> 32 \<and> c \<noteq> 9"
    using b64_enc_chars [of c src] by (auto simp: Pad64_def)
qed

text \<open>
  A key survives being written to a key file: the line that holds its encoding, a blank
  and any comment is read back as that very key.
\<close>

theorem key_line_roundtrip:
  assumes "key_ok k" and "adb_b64_ntop k targsize = Inr (Some text)" and "sep = 32 \<or> sep = 9"
  shows "read_key (text @ sep # comment) = Inr (Some k)"
proof -
  have tx: "text = b64_enc k"
    using assms(2) by (auto simp: adb_b64_ntop_def ntop_from_eq split: if_splits)
  have len: "length k = KEY_SIZE" using assms(1) by (simp add: key_ok_def)
  have "takeWhile (\<lambda>b. b \<noteq> 0) (text @ sep # comment) = text @ takeWhile (\<lambda>b. b \<noteq> 0) (sep # comment)"
    using b64_text_char [of _ k] by (simp add: tx takeWhile_append2)
  moreover have "takeWhile (\<lambda>b. b \<noteq> 32 \<and> b \<noteq> 9) (text @ takeWhile (\<lambda>b. b \<noteq> 0) (sep # comment)) = text"
    using b64_text_char [of _ k] assms(3) by (subst takeWhile_append2) (auto simp: tx)
  ultimately have cut: "takeWhile (\<lambda>b. b \<noteq> 32 \<and> b \<noteq> 9) (takeWhile (\<lambda>b. b \<noteq> 0) (text @ sep # comment)) = text"
    by simp
  from enc_dec [of k "replicate (KEY_SIZE + 4) 0"] len obtain t where
    t: "adb_b64_pton text (replicate (KEY_SIZE + 4) 0) = Inr (Some (KEY_SIZE, t))" "take KEY_SIZE t = k"
    by (auto simp: tx)
  have "of_le32 t = RSANUMWORDS"
    using assms(1) t(2) of_le32_take [of KEY_SIZE t] by (simp add: key_ok_def KEY_SIZE_def)
  with cut t show ?thesis by (simp add: read_key_def Let_def)
qed

theorem key_line_roundtrip_witness:
  "\<exists>text. read_key (text @ 32 # bytes_of_str ''me@host'') = Inr (Some (64 # replicate 523 0))"
proof -
  let ?k = "64 # replicate 523 (0 :: byte)"
  have "replicate 523 (0 :: byte) = 0 # 0 # 0 # replicate 520 0" by (simp flip: replicate_Suc)
  then have k: "key_ok ?k" by (simp add: key_ok_def KEY_SIZE_def RSANUMWORDS_def)
  have "adb_b64_ntop ?k 701 = Inr (Some (b64_enc ?k))"
    by (simp add: adb_b64_ntop_def ntop_from_eq length_b64_enc del: b64_enc.simps)
  from key_line_roundtrip [OF k this, of 32 "bytes_of_str ''me@host''"] show ?thesis by blast
qed

text \<open>
  C19: Loading the key files, however damaged they are, ends without a fault, and the keys on the list afterwards are exactly
  those that some line of a file decodes to: in full, no shorter or longer, and announcing 64 words.
  A signature is accepted exactly when it has the length of a signature and one of those keys verifies it.
\<close>

theorem auth_accepts_only_loaded_keys:
  "\<exists>keys. adb_auth_reload_keys files = Inr keys \<and>
    (\<forall>k. k \<in> set keys \<longleftrightarrow> (\<exists>lines. Some lines \<in> set files \<and> (\<exists>buf \<in> set lines. key_line buf k))) \<and>
    (\<forall>v token sig. adb_auth_verify v keys token sig \<longleftrightarrow>
      length sig = RSANUMBYTES \<and> (\<exists>k \<in> set keys. v k sig token))"
  using reload_from_iff [of files "[]"]
  by (auto simp: adb_auth_reload_keys_def adb_auth_verify_def verify_from_iff)

definition demo_key :: "byte list" where "demo_key = 64 # replicate 523 0"

definition demo_key_file :: "byte list list" where
  "demo_key_file = [b64_enc demo_key @ 32 # bytes_of_str ''me@host'']"

lemma demo_key_ok: "key_ok demo_key"
proof -
  have "replicate 523 (0 :: byte) = 0 # 0 # 0 # replicate 520 0" by (simp flip: replicate_Suc)
  then show ?thesis by (simp add: demo_key_def key_ok_def KEY_SIZE_def RSANUMWORDS_def)
qed

lemma demo_key_line: "key_line (b64_enc demo_key @ 32 # bytes_of_str ''me@host'') k \<longleftrightarrow> k = demo_key"
proof -
  let ?line = "b64_enc demo_key @ 32 # bytes_of_str ''me@host''"
  have "length demo_key = 524" by (simp add: demo_key_def)
  then have "adb_b64_ntop demo_key 701 = Inr (Some (b64_enc demo_key))"
    by (simp add: adb_b64_ntop_def ntop_from_eq length_b64_enc)
  from key_line_roundtrip [OF demo_key_ok this, of 32 "bytes_of_str ''me@host''"] have "read_key ?line = Inr (Some demo_key)" by simp
  with read_key_iff [of ?line] show ?thesis by (metis sum.inject(2) option.inject)
qed

text \<open>A file with a complete key and a file with a truncated one: only the first is loaded.\<close>

theorem auth_accepts_only_loaded_keys_witness:
  "\<exists>keys. adb_auth_reload_keys [Some demo_key_file, None, Some [bytes_of_str ''QUJD junk'']] = Inr keys \<and> set keys = {demo_key}"
proof -
  have t: "key_text (bytes_of_str ''QUJD junk'') = b64_enc [65, 66, 67]" by code_simp
  from enc_dec [of "[65, 66, 67]" "replicate (KEY_SIZE + 4) 0"] obtain t' where
    "adb_b64_pton (b64_enc [65, 66, 67]) (replicate (KEY_SIZE + 4) 0) = Inr (Some (3, t'))"
    by (auto simp: KEY_SIZE_def simp del: b64_enc.simps replicate.simps)
  then have no: "key_line (bytes_of_str ''QUJD junk'') k \<longleftrightarrow> False" for k
    unfolding key_line_def t key_ok_def by (auto simp: KEY_SIZE_def)
  show ?thesis
    using auth_accepts_only_loaded_keys [of "[Some demo_key_file, None, Some [bytes_of_str ''QUJD junk'']]"]
    by (auto simp: demo_key_file_def demo_key_line no set_eq_iff conj_disj_distribR ex_disj_distrib)
qed

end
