(* ===== verification/Adb.thy ===== *)
theory Adb
  imports Services Auth
begin

text \<open>
  The protocol engine (\<open>src/adb.c\<close>): what the daemon does with every packet that arrives on a
  transport, and the messages of the handshake and of the authentication. The daemon is
  built with \<open>ADB_HOST=0\<close>, so \<open>HOST\<close> is 0 and the host's half of the authentication
  (\<open>adb_auth_sign\<close>, \<open>adb_auth_nextkey\<close>, \<open>adb_auth_get_userkey\<close>) are the stubs of
  \<open>include/adb_auth.h\<close>.
\<close>

section \<open>Transports and the state of the daemon\<close>

definition CS_ANY :: int where "CS_ANY = -1"
definition CS_OFFLINE :: int where "CS_OFFLINE = 0"
definition CS_BOOTLOADER :: int where "CS_BOOTLOADER = 1"
definition CS_DEVICE :: int where "CS_DEVICE = 2"
definition CS_HOST :: int where "CS_HOST = 3"
definition CS_RECOVERY :: int where "CS_RECOVERY = 4"
definition CS_NOPERM :: int where "CS_NOPERM = 5"
definition CS_SIDELOAD :: int where "CS_SIDELOAD = 6"

lemmas CS_defs = CS_ANY_def CS_OFFLINE_def CS_BOOTLOADER_def CS_DEVICE_def CS_HOST_def CS_RECOVERY_def
  CS_NOPERM_def CS_SIDELOAD_def

definition TOKEN_SIZE :: nat where "TOKEN_SIZE = 20"

datatype transport_type = kTransportUsb | kTransportLocal | kTransportAny | kTransportHost

text \<open>
  \<open>struct atransport\<close>. The functions of a transport follow from its type; \<open>key\<close> is only used by
  the host; the disconnect callbacks are \<open>remotes\<close> of the socket layer;
  \<open>auth_fde\<close> is the descriptor the event \<open>auth_fde\<close> is installed on.
\<close>

record atransport =
  fd_read :: int
  fd_write :: int
  transport_read :: int
  transport_write :: int
  ref_count :: int
  sync_token :: u32
  connection_state :: int
  online :: bool
  ttype :: transport_type
  usb :: "nat option"
  tsfd :: int
  serial :: "byte list option"
  product :: "byte list option"
  tmodel :: "byte list option"
  device :: "byte list option"
  devpath :: "byte list option"
  adb_port :: int
  kicked :: bool
  token :: "byte list"
  auth_fde :: "int option"
  failed_auth_attempts :: u32

text \<open>
  The daemon: the services and everything below them, the transports by address (\<open>None\<close> once
  freed), the next free address, the list they are on, the messages in the registration pipe
  and whether it accepts more, the authentication, and the answers of the kernel it asks for: reading \<open>/dev/urandom\<close> (\<open>None\<close> when it cannot be opened, otherwise the buffer and
  whether all of it was read), and whether the framework accepts a message.
\<close>

record adbd =
  vw :: vworld
  trans :: "nat \<Rightarrow> atransport option"
  transport_list :: "nat list"
  next_trans :: nat
  reg_pipe :: "(nat \<times> int) list"
  reg_ok :: bool
  auth_enabled :: bool
  device_banner :: "byte list"
  framework_fd :: int
  key_list :: "byte list list"
  urandom :: "(byte list \<times> bool) option list"
  fw_write_ok :: bool
  slept_ms :: nat

definition ws :: "adbd \<Rightarrow> sworld" where "ws w = jsw (jw (vw w))"

definition set_ws :: "sworld \<Rightarrow> adbd \<Rightarrow> adbd" where
  "set_ws st w = w\<lparr>vw := (vw w)\<lparr>jw := (jw (vw w))\<lparr>jsw := st\<rparr>\<rparr>\<rparr>"

text \<open>Running an operation of the socket layer.\<close>

definition on_socks :: "(sworld \<Rightarrow> sworld res) \<Rightarrow> adbd \<Rightarrow> adbd res" where
  "on_socks f w = seq (f (ws w)) (\<lambda>st. Inr (set_ws st w))"

definition tget :: "nat \<Rightarrow> adbd \<Rightarrow> atransport res" where
  "tget t w = (case trans w t of None \<Rightarrow> Inl (Fault UseAfterFree) | Some x \<Rightarrow> Inr x)"

definition tupd :: "nat \<Rightarrow> (atransport \<Rightarrow> atransport) \<Rightarrow> adbd \<Rightarrow> adbd res" where
  "tupd t f w = seq (tget t w) (\<lambda>x. Inr (w\<lparr>trans := (trans w)(t := Some (f x))\<rparr>))"

text \<open>The socket layer looks at the connection state of a transport through \<open>offline\<close>.\<close>

definition set_state :: "nat \<Rightarrow> int \<Rightarrow> adbd \<Rightarrow> adbd res" where
  "set_state t cs w =
     seq (tupd t (\<lambda>x. x\<lparr>connection_state := cs\<rparr>) w) (\<lambda>w.
     Inr (set_ws ((ws w)\<lparr>offline := (offline (ws w))(t := (cs = CS_OFFLINE))\<rparr>) w))"

section \<open>Messages\<close>

definition handle_online :: "nat \<Rightarrow> adbd \<Rightarrow> adbd res" where
  "handle_online t w = tupd t (\<lambda>x. x\<lparr>online := True\<rparr>) w"

definition handle_offline :: "nat \<Rightarrow> adbd \<Rightarrow> adbd res" where
  "handle_offline t w =
     seq (tupd t (\<lambda>x. x\<lparr>online := False\<rparr>) w) (on_socks (run_transport_disconnects t))"

definition send_ready :: "u32 \<Rightarrow> u32 \<Rightarrow> nat \<Rightarrow> sworld \<Rightarrow> sworld res" where
  "send_ready local remote t st = send_packet (command_packet A_OKAY local remote st) (Some t) st"

definition send_close :: "u32 \<Rightarrow> u32 \<Rightarrow> nat \<Rightarrow> sworld \<Rightarrow> sworld res" where
  "send_close local remote t st = send_packet (command_packet A_CLSE local remote st) (Some t) st"

text \<open>The banner and the three properties, as the successive \<open>snprintf\<close> leave them.\<close>

definition connect_data :: "byte list \<Rightarrow> byte list" where
  "connect_data banner = banner @ bytes_of_str ''::ro.product.name=occam;ro.product.model=Nexus 4;ro.product.device=mako;''"

text \<open>The count includes the final zero byte. Past the end of the buffer the count would wrap.\<close>

definition fill_connect_data :: "byte list \<Rightarrow> byte list \<Rightarrow> (byte list \<times> nat) res" where
  "fill_connect_data banner buf =
     (let text = connect_data banner in
      seq (blit (text @ [0]) buf) (\<lambda>buf. Inr (buf, length text + 1)))"

definition send_connect :: "nat \<Rightarrow> adbd \<Rightarrow> adbd res" where
  "send_connect t w =
     (let cp = command_packet A_CNXN A_VERSION (of_nat MAX_PAYLOAD) (ws w) in
      seq (fill_connect_data (device_banner w) (data cp)) (\<lambda>(d, len).
      on_socks (send_packet (cp\<lparr>msg := (msg cp)\<lparr>data_length := of_nat len\<rparr>, data := d\<rparr>) (Some t)) w))"

definition ADB_AUTH_TOKEN :: u32 where "ADB_AUTH_TOKEN = 1"
definition ADB_AUTH_SIGNATURE :: u32 where "ADB_AUTH_SIGNATURE = 2"
definition ADB_AUTH_RSAPUBLICKEY :: u32 where "ADB_AUTH_RSAPUBLICKEY = 3"

text \<open>\<open>adb_auth_generate_token\<close>: the result of the read, and whether it was complete.\<close>

definition adb_auth_generate_token :: "nat \<Rightarrow> adbd \<Rightarrow> (bool \<times> adbd) res" where
  "adb_auth_generate_token t w =
     (case urandom w of
        Some (bs, ok) # k \<Rightarrow>
          seq (tupd t (\<lambda>x. x\<lparr>token := bs\<rparr>) (w\<lparr>urandom := k\<rparr>)) (\<lambda>w. Inr (ok, w))
      | _ \<Rightarrow> seq (tget t w) (\<lambda>_. Inr (False, w\<lparr>urandom := tl (urandom w)\<rparr>)))"

definition send_auth_request :: "nat \<Rightarrow> adbd \<Rightarrow> adbd res" where
  "send_auth_request t w =
     seq (adb_auth_generate_token t w) (\<lambda>(ok, w).
     if \<not> ok then Inr w
     else
       seq (tget t w) (\<lambda>x.
       let p = command_packet A_AUTH ADB_AUTH_TOKEN 0 (ws w) in
       seq (blit (token x) (data p)) (\<lambda>d.
       on_socks (send_packet (p\<lparr>msg := (msg p)\<lparr>data_length := of_nat (length (token x))\<rparr>, data := d\<rparr>)
         (Some t)) w)))"

text \<open>
  The host's stubs: signing returns 0 and there is no user key, so neither of the two
  functions sends anything.
\<close>

definition send_auth_response :: "nat \<Rightarrow> adbd \<Rightarrow> adbd res" where
  "send_auth_response t w = (let ret = (0 :: int) in if ret = 0 then Inr w else Inl Abort)"

definition send_auth_publickey :: "nat \<Rightarrow> adbd \<Rightarrow> adbd res" where
  "send_auth_publickey t w = (let ret = (0 :: int) in if ret = 0 then Inr w else Inl Abort)"

definition adb_auth_verified :: "nat \<Rightarrow> adbd \<Rightarrow> adbd res" where
  "adb_auth_verified t w = seq (handle_online t w) (send_connect t)"

text \<open>The address of the event \<open>auth_fde\<close> inside the transport at address \<open>t\<close>.\<close>

definition auth_fde_of :: "nat \<Rightarrow> nat" where "auth_fde_of t = Suc t"

text \<open>\<open>key[len - 1]\<close> with a length of 0 lies in front of the payload.\<close>

definition adb_auth_confirm_key :: "apacket \<Rightarrow> nat \<Rightarrow> adbd \<Rightarrow> adbd res" where
  "adb_auth_confirm_key p t w =
     (let len = unat (data_length (msg p)) in
      if framework_fd w < 0 then Inr w
      else if len = 0 \<or> len > length (data p) then Inl (Fault OutOfBounds)
      else if data p ! (len - 1) \<noteq> 0 then Inr w
      else
        let text = bytes_of_str ''PK'' @ takeWhile (\<lambda>b. b \<noteq> 0) (data p) in
        if length text \<ge> MAX_PAYLOAD then Inr w
        else if \<not> fw_write_ok w then Inr w
        else
          seq (on_socks (\<lambda>st. Inr (emit (WriteFd (framework_fd w) text) st)) w) (\<lambda>w.
          seq (tupd t (\<lambda>x. x\<lparr>auth_fde := Some (framework_fd w)\<rparr>) w) (\<lambda>w.
          on_socks (\<lambda>st. Inr (emit (FdOp (OpAdd (auth_fde_of t) 1))
            (emit (FdOp (OpInstall (auth_fde_of t) (framework_fd w) AdbAuthEvent t)) st))) w)))"

text \<open>
  The framework answers; \<open>r\<close> is the result of \<open>unix_read\<close>, \<open>files\<close> the key files at that time.
\<close>

definition adb_auth_event ::
  "u16 \<Rightarrow> byte list sysret \<Rightarrow> byte list list option list \<Rightarrow> nat \<Rightarrow> adbd \<Rightarrow> adbd res" where
  "adb_auth_event ev r files t w =
     (if ev AND FDE_READ = 0 then Inr w
      else case r of
        Failed e \<Rightarrow>
          seq (tupd t (\<lambda>x. x\<lparr>auth_fde := None\<rparr>) w) (\<lambda>w.
          on_socks (\<lambda>st. Inr (emit (FdOp (OpRemove (auth_fde_of t))) st)) (w\<lparr>framework_fd := -1\<rparr>))
      | Got bs \<Rightarrow>
          if bs = bytes_of_str ''OK'' then
            seq (adb_auth_reload_keys files) (\<lambda>keys. adb_auth_verified t (w\<lparr>key_list := keys\<rparr>))
          else Inr w)"

text \<open>A new framework connection replaces the old one.\<close>

definition adb_auth_listener :: "(errno + int) \<Rightarrow> adbd \<Rightarrow> adbd" where
  "adb_auth_listener s w = (case s of Inl _ \<Rightarrow> w | Inr fd \<Rightarrow> w\<lparr>framework_fd := fd\<rparr>)"

section \<open>The banner of the other side\<close>

definition qual_overwrite :: "byte list \<Rightarrow> byte list option" where
  "qual_overwrite src = (if src = [] then None else Some src)"

text \<open>\<open>strtok_r\<close> with one separator: the non-empty pieces between separators.\<close>

fun pieces :: "byte \<Rightarrow> byte list \<Rightarrow> byte list list" where
  "pieces c [] = [[]]"
| "pieces c (x # xs) =
     (if x = c then [] # pieces c xs
      else case pieces c xs of [] \<Rightarrow> [[x]] | p # ps \<Rightarrow> (x # p) # ps)"

definition tokens :: "byte \<Rightarrow> byte list \<Rightarrow> byte list list" where
  "tokens c s = filter (\<lambda>t. t \<noteq> []) (pieces c s)"

definition set_qual :: "byte list \<Rightarrow> atransport \<Rightarrow> atransport" where
  "set_qual key x =
     (if 61 \<in> set key then
        let k = takeWhile (\<lambda>b. b \<noteq> 61) key; v = drop 1 (dropWhile (\<lambda>b. b \<noteq> 61) key) in
        if k = bytes_of_str ''ro.product.name'' then x\<lparr>product := qual_overwrite v\<rparr>
        else if k = bytes_of_str ''ro.product.model'' then x\<lparr>tmodel := qual_overwrite v\<rparr>
        else if k = bytes_of_str ''ro.product.device'' then x\<lparr>device := qual_overwrite v\<rparr>
        else x
      else x)"

definition banner_props :: "byte list \<Rightarrow> byte list list" where
  "banner_props s =
     (let r = dropWhile (\<lambda>b. b \<noteq> 58) s in
      if r = [] then []
      else
        let r = dropWhile (\<lambda>b. b \<noteq> 58) (drop 1 r) in
        if r = [] then [] else tokens 59 (drop 1 r))"

definition banner_state :: "byte list \<Rightarrow> int" where
  "banner_state type =
     (if type = bytes_of_str ''bootloader'' then CS_BOOTLOADER
      else if type = bytes_of_str ''device'' then CS_DEVICE
      else if type = bytes_of_str ''recovery'' then CS_RECOVERY
      else if type = bytes_of_str ''sideload'' then CS_SIDELOAD
      else CS_HOST)"

definition parse_banner :: "byte list \<Rightarrow> nat \<Rightarrow> adbd \<Rightarrow> adbd res" where
  "parse_banner d t w =
     (case c_string d of
        None \<Rightarrow> Inl (Fault OutOfBounds)
      | Some s \<Rightarrow>
          seq (tupd t (\<lambda>x. fold set_qual (banner_props s) x) w) (\<lambda>w.
          set_state t (banner_state (takeWhile (\<lambda>b. b \<noteq> 58) s)) w))"

text \<open>\<open>connection_state_name\<close> of a transport, or of none.\<close>

definition connection_state_name :: "atransport option \<Rightarrow> string" where
  "connection_state_name t =
     (case t of
        None \<Rightarrow> ''unknown''
      | Some x \<Rightarrow>
          if connection_state x = CS_BOOTLOADER then ''bootloader''
          else if connection_state x = CS_DEVICE then ''device''
          else if connection_state x = CS_OFFLINE then ''offline''
          else ''unknown'')"

section \<open>Packets that arrive\<close>

definition handle_sync :: "apacket \<Rightarrow> nat \<Rightarrow> adbd \<Rightarrow> adbd res" where
  "handle_sync p t w =
     (if arg0 (msg p) \<noteq> 0 then on_socks (send_packet p (Some t)) w
      else
        seq (set_state t CS_OFFLINE w) (\<lambda>w.
        seq (handle_offline t w) (\<lambda>w.
        on_socks (send_packet p (Some t)) w)))"

definition handle_cnxn :: "apacket \<Rightarrow> nat \<Rightarrow> adbd \<Rightarrow> adbd res" where
  "handle_cnxn p t w =
     seq (tget t w) (\<lambda>x.
     seq (if connection_state x \<noteq> CS_OFFLINE
          then seq (set_state t CS_OFFLINE w) (handle_offline t) else Inr w) (\<lambda>w.
     seq (parse_banner (data p) t w) (\<lambda>w.
     if \<not> auth_enabled w then seq (handle_online t w) (send_connect t)
     else send_auth_request t w)))"

definition handle_auth :: "rsa_verify \<Rightarrow> apacket \<Rightarrow> nat \<Rightarrow> adbd \<Rightarrow> adbd res" where
  "handle_auth RSA_verify p t w =
     (if arg0 (msg p) = ADB_AUTH_TOKEN then send_auth_publickey t w
      else if arg0 (msg p) = ADB_AUTH_SIGNATURE then
        seq (tget t w) (\<lambda>x.
        if adb_auth_verify RSA_verify (key_list w) (token x) (payload p) then
          seq (adb_auth_verified t w) (tupd t (\<lambda>x. x\<lparr>failed_auth_attempts := 0\<rparr>))
        else
          let w = (if failed_auth_attempts x > 10 then w\<lparr>slept_ms := slept_ms w + 1000\<rparr> else w) in
          seq (tupd t (\<lambda>x. x\<lparr>failed_auth_attempts := failed_auth_attempts x + 1\<rparr>) w) (send_auth_request t))
      else if arg0 (msg p) = ADB_AUTH_RSAPUBLICKEY then adb_auth_confirm_key p t w
      else Inr w)"

text \<open>\<open>s->peer = create_remote_socket(id, t); s->peer->peer = s;\<close>\<close>

definition connect_remote :: "nat \<Rightarrow> u32 \<Rightarrow> nat \<Rightarrow> sworld \<Rightarrow> (nat \<times> sworld) res" where
  "connect_remote a i t st =
     (case create_remote_socket i t st of (q, st) \<Rightarrow>
      seq (upd a (\<lambda>s. s\<lparr>peer := Some q\<rparr>) st) (\<lambda>st.
      seq (upd q (\<lambda>s. s\<lparr>peer := Some a\<rparr>) st) (\<lambda>st. Inr (q, st))))"

definition open_name :: "apacket \<Rightarrow> byte list res" where
  "open_name p =
     (let n = unat (data_length (msg p)); i = (if n > 0 then n - 1 else 0) in
      if i \<ge> length (data p) then Inl (Fault OutOfBounds)
      else Inr (takeWhile (\<lambda>b. b \<noteq> 0) ((data p)[i := 0])))"

definition handle_open :: "svc_env \<Rightarrow> apacket \<Rightarrow> nat \<Rightarrow> adbd \<Rightarrow> adbd res" where
  "handle_open env p t w =
     seq (tget t w) (\<lambda>x.
     if \<not> online x then Inr w
     else
       seq (open_name p) (\<lambda>name.
       seq (create_local_service_socket env name (vw w)) (\<lambda>(r, v).
       let w = w\<lparr>vw := v\<rparr> in
       case r of
         None \<Rightarrow> on_socks (send_close 0 (arg0 (msg p)) t) w
       | Some a \<Rightarrow>
           on_socks (\<lambda>st.
             seq (connect_remote a (arg0 (msg p)) t st) (\<lambda>(q, st).
             seq (sock a st) (\<lambda>s.
             seq (sock q st) (\<lambda>qs.
             seq (send_ready (sid s) (sid qs) t st) (sock_ready a))))) w)))"

definition handle_okay :: "apacket \<Rightarrow> nat \<Rightarrow> sworld \<Rightarrow> sworld res" where
  "handle_okay p t st =
     seq (find_local_socket (arg1 (msg p)) st) (\<lambda>r.
     case r of
       None \<Rightarrow> Inr st
     | Some a \<Rightarrow>
         seq (sock a st) (\<lambda>s.
         seq (if peer s = None then seq (connect_remote a (arg0 (msg p)) t st) (\<lambda>(q, st). Inr st)
              else Inr st) (sock_ready a)))"

definition handle_clse :: "apacket \<Rightarrow> sworld \<Rightarrow> sworld res" where
  "handle_clse p st =
     seq (find_local_socket (arg1 (msg p)) st) (\<lambda>r.
     case r of None \<Rightarrow> Inr st | Some a \<Rightarrow> sock_close a st)"

definition handle_wrte :: "apacket \<Rightarrow> nat \<Rightarrow> sworld \<Rightarrow> sworld res" where
  "handle_wrte p t st =
     seq (find_local_socket (arg1 (msg p)) st) (\<lambda>r.
     case r of
       None \<Rightarrow> Inr st
     | Some a \<Rightarrow>
         let rid = arg0 (msg p); p = p\<lparr>pkt_len := data_length (msg p)\<rparr> in
         seq (sock_enqueue a p st) (\<lambda>(r, st).
         if r = 0 then seq (sock a st) (\<lambda>s. send_ready (sid s) rid t st) else Inr st))"

text \<open>Operations on sockets happen only while the transport is online.\<close>

definition if_online :: "nat \<Rightarrow> (sworld \<Rightarrow> sworld res) \<Rightarrow> adbd \<Rightarrow> adbd res" where
  "if_online t f w = seq (tget t w) (\<lambda>x. if online x then on_socks f w else Inr w)"

definition handle_packet :: "svc_env \<Rightarrow> rsa_verify \<Rightarrow> apacket \<Rightarrow> nat \<Rightarrow> adbd \<Rightarrow> adbd res" where
  "handle_packet env RSA_verify p t w =
     (let c = command (msg p) in
      if c = A_SYNC then handle_sync p t w
      else if c = A_CNXN then handle_cnxn p t w
      else if c = A_AUTH then handle_auth RSA_verify p t w
      else if c = A_OPEN then handle_open env p t w
      else if c = A_OKAY then if_online t (handle_okay p t) w
      else if c = A_CLSE then if_online t (handle_clse p) w
      else if c = A_WRTE then if_online t (handle_wrte p t) w
      else Inr w)"

end
