(* ===== verification/Adb_Safety.thy ===== *)
theory Adb_Safety
  imports Adb
begin

text \<open>
  What the protocol engine guarantees: a packet that the link layer accepted is handled
  without a fault in every state of the daemon, apart from two kinds of packet for which the
  code does read outside the payload; no service starts on a transport that is not online;
  with authentication enabled a transport comes online only by a signature that one of the
  loaded keys verifies or by a confirmation of the framework.
\<close>

section \<open>Operations on sockets leave the process list alone\<close>

named_theorems pids \<open>an operation keeps the list of process ids\<close>

lemma upd_pids [pids]: "upd a f st = Inr st' \<Longrightarrow> jdwp_pids st' = jdwp_pids st"
  by (auto simp: upd_def seq_eq_Inr)

lemma free_pids [pids]: "free_sock a st = Inr st' \<Longrightarrow> jdwp_pids st' = jdwp_pids st"
  by (auto simp: free_sock_def seq_eq_Inr)

lemma send_packet_pids [pids]: "send_packet p t st = Inr st' \<Longrightarrow> jdwp_pids st' = jdwp_pids st"
  by (auto simp: send_packet_def seq_eq_Inr split: option.splits if_splits)

lemma sendfailmsg_pids [simp]: "jdwp_pids (sendfailmsg fd r st) = jdwp_pids st"
  by (simp add: sendfailmsg_def)

lemma run_close_pids [pids]: "run_close f a st = Inr st' \<Longrightarrow> jdwp_pids st' = jdwp_pids st"
  by (drule env.R_run_close) (simp add: same_env_def)

lemma sock_close_pids [pids]: "sock_close a st = Inr st' \<Longrightarrow> jdwp_pids st' = jdwp_pids st"
  by (auto simp: sock_close_def seq_eq_Inr simp del: run_close.simps dest: run_close_pids)

lemma local_tail_pids [pids]: "local_enqueue_tail a p st = Inr (r, st') \<Longrightarrow> jdwp_pids st' = jdwp_pids st"
  by (auto simp: local_enqueue_tail_def seq_eq_Inr dest: pids)

lemma local_enqueue_pids [pids]: "local_socket_enqueue a p st = Inr (r, st') \<Longrightarrow> jdwp_pids st' = jdwp_pids st"
  by (auto simp: local_socket_enqueue_def seq_eq_Inr Let_def split: if_splits prod.splits dest!: pids)

lemma remote_enqueue_pids [pids]: "remote_socket_enqueue a p st = Inr (r, st') \<Longrightarrow> jdwp_pids st' = jdwp_pids st"
  by (auto simp: remote_socket_enqueue_def seq_eq_Inr Let_def dest!: pids)

lemma jdwp_enqueue_pids [pids]: "jdwp_socket_enqueue a p st = Inr (r, st') \<Longrightarrow> jdwp_pids st' = jdwp_pids st"
  by (auto simp: jdwp_socket_enqueue_def seq_eq_Inr dest!: pids)

lemma smart_fail_pids [pids]: "smart_fail a st = Inr (r, st') \<Longrightarrow> jdwp_pids st' = jdwp_pids st"
  by (auto simp: smart_fail_def seq_eq_Inr dest!: pids)

lemma smart_refuse_pids [pids]: "smart_refuse a x st = Inr (r, st') \<Longrightarrow> jdwp_pids st' = jdwp_pids st"
  by (auto simp: smart_refuse_def seq_eq_Inr dest!: pids)

lemma connect_to_remote_pids [pids]: "connect_to_remote a d st = Inr st' \<Longrightarrow> jdwp_pids st' = jdwp_pids st"
  by (auto simp: connect_to_remote_def seq_eq_Inr Let_def split: if_splits dest!: pids)

lemma smart_connect_pids [pids]: "smart_connect a t d st = Inr (r, st') \<Longrightarrow> jdwp_pids st' = jdwp_pids st"
  by (auto simp: smart_connect_def seq_eq_Inr split: option.splits dest!: pids)

lemma smart_request_pids [pids]: "smart_request a p st = Inr (r, st') \<Longrightarrow> jdwp_pids st' = jdwp_pids st"
  by (auto simp: smart_request_def seq_eq_Inr Let_def split: if_splits option.splits sum.splits dest!: pids)

lemma smart_enqueue_pids [pids]:
  assumes "smart_socket_enqueue a p st = Inr (r, st')"
  shows "jdwp_pids st' = jdwp_pids st"
proof -
  from assms obtain s where s: "sock a st = Inr s" by (auto simp: smart_socket_enqueue_def seq_eq_Inr)
  show ?thesis
  proof (cases "pkts s")
    case Nil
    with assms s show ?thesis by (auto simp: smart_socket_enqueue_def seq_eq_Inr dest!: pids)
  next
    case (Cons p0 ps)
    with assms s show ?thesis
      by (auto simp: smart_socket_enqueue_def seq_eq_Inr split: if_splits dest!: pids)
  qed
qed

lemma sock_enqueue_pids [pids]:
  assumes "sock_enqueue a p st = Inr (r, st')"
  shows "jdwp_pids st' = jdwp_pids st"
proof -
  from assms obtain s where s: "sock a st = Inr s" by (auto simp: sock_enqueue_def seq_eq_Inr)
  with assms show ?thesis
    by (cases "enqueue_op s") (simp_all add: sock_enqueue_def, (erule pids)+)
qed

lemma ready_notify_pids [pids]: "local_socket_ready_notify a st = Inr st' \<Longrightarrow> jdwp_pids st' = jdwp_pids st"
  by (auto simp: local_socket_ready_notify_def local_socket_ready_def seq_eq_Inr dest!: upd_pids)

lemma remote_ready_pids [pids]: "remote_socket_ready a st = Inr st' \<Longrightarrow> jdwp_pids st' = jdwp_pids st"
  by (auto simp: remote_socket_ready_def seq_eq_Inr dest!: send_packet_pids)

lemma jdwp_ready_pids [pids]: "jdwp_socket_ready a st = Inr st' \<Longrightarrow> jdwp_pids st' = jdwp_pids st"
  by (auto simp: jdwp_socket_ready_def seq_eq_Inr split: if_splits
      dest!: upd_pids sock_enqueue_pids sock_close_pids)

lemma tracker_ready_pids [pids]: "jdwp_tracker_ready a st = Inr st' \<Longrightarrow> jdwp_pids st' = jdwp_pids st"
  by (auto simp: jdwp_tracker_ready_def seq_eq_Inr split: if_splits dest!: upd_pids sock_enqueue_pids)

lemma sock_ready_pids [pids]:
  assumes "sock_ready a st = Inr st'"
  shows "jdwp_pids st' = jdwp_pids st"
proof -
  from assms obtain s where s: "sock a st = Inr s" by (auto simp: sock_ready_def seq_eq_Inr)
  with assms show ?thesis
    by (cases "ready_op s")
      (auto simp: sock_ready_def local_socket_ready_def
        dest: ready_notify_pids remote_ready_pids jdwp_ready_pids tracker_ready_pids)
qed

lemma remote_disconnect_pids [pids]: "remote_socket_disconnect a st = Inr st' \<Longrightarrow> jdwp_pids st' = jdwp_pids st"
  by (auto simp: remote_socket_disconnect_def remove_disconnect_def seq_eq_Inr split: option.splits dest!: pids)

lemma run_disconnects_pids: "run_disconnects as st = Inr st' \<Longrightarrow> jdwp_pids st' = jdwp_pids st"
  by (induction as arbitrary: st) (auto simp: seq_eq_Inr dest!: remote_disconnect_pids)

lemma transport_disconnects_pids [pids]:
  "run_transport_disconnects t st = Inr st' \<Longrightarrow> jdwp_pids st' = jdwp_pids st"
  by (simp add: run_transport_disconnects_def run_disconnects_pids)

section \<open>The invariant of the daemon\<close>

definition ainv :: "adbd \<Rightarrow> bool" where
  "ainv w \<longleftrightarrow> jinv (jw (vw w)) \<and> (\<forall>t x. trans w t = Some x \<longrightarrow> length (token x) = TOKEN_SIZE) \<and>
     (\<forall>bs ok. Some (bs, ok) \<in> set (urandom w) \<longrightarrow> length bs = TOKEN_SIZE) \<and>
     length (connect_data (device_banner w)) < MAX_PAYLOAD"

lemma ainvD:
  assumes "ainv w"
  shows "jinv (jw (vw w))" "sinv (ws w)" "trans w t = Some x \<Longrightarrow> length (token x) = TOKEN_SIZE"
    "Some (bs, ok) \<in> set (urandom w) \<Longrightarrow> length bs = TOKEN_SIZE"
    "length (connect_data (device_banner w)) < MAX_PAYLOAD"
  using assms by (auto simp: ainv_def ws_def jinv_def)

lemma set_ws_fields [simp]:
  "ws (set_ws st w) = st" "trans (set_ws st w) = trans w" "urandom (set_ws st w) = urandom w"
  "device_banner (set_ws st w) = device_banner w" "auth_enabled (set_ws st w) = auth_enabled w"
  "key_list (set_ws st w) = key_list w" "framework_fd (set_ws st w) = framework_fd w"
  "jw (vw (set_ws st w)) = (jw (vw w))\<lparr>jsw := st\<rparr>"
  by (simp_all add: ws_def set_ws_def)

lemma ainv_set_ws: "ainv w \<Longrightarrow> sinv st \<Longrightarrow> jdwp_pids st = jdwp_pids (ws w) \<Longrightarrow> ainv (set_ws st w)"
  by (simp add: ainv_def jinv_def ws_def)

text \<open>An operation keeps the invariant and the set of live transports.\<close>

definition keeps :: "adbd \<Rightarrow> adbd \<Rightarrow> bool" where
  "keeps w w' \<longleftrightarrow> ainv w' \<and> dom (trans w') = dom (trans w)"

lemma keeps_refl: "ainv w \<Longrightarrow> keeps w w"
  by (simp add: keeps_def)

lemma keeps_trans: "keeps w w' \<Longrightarrow> keeps w' w'' \<Longrightarrow> keeps w w''"
  by (simp add: keeps_def)

lemma keeps_seq:
  assumes "safe_res (keeps w) m" and "\<And>w'. keeps w w' \<Longrightarrow> safe_res (keeps w') (f w')"
  shows "safe_res (keeps w) (seq m f)"
  by (rule safe_res_seq [OF assms(1)])
    (use assms(2) keeps_trans in \<open>blast intro: safe_res_mono\<close>)

lemma on_socks_keeps:
  assumes "ainv w" and "safe_res sinv (f (ws w))" and "\<And>st. f (ws w) = Inr st \<Longrightarrow> jdwp_pids st = jdwp_pids (ws w)"
  shows "safe_res (keeps w) (on_socks f w)"
  unfolding on_socks_def
  by (rule safe_res_seq_eq [OF assms(2)]) (use assms in \<open>simp add: keeps_def ainv_set_ws\<close>)

lemma tget_dom: "t \<in> dom (trans w) \<Longrightarrow> \<exists>x. trans w t = Some x \<and> tget t w = Inr x"
  by (auto simp: tget_def)

lemma tupd_keeps:
  assumes "ainv w" and "t \<in> dom (trans w)" and "\<And>x. length (token x) = TOKEN_SIZE \<Longrightarrow> length (token (f x)) = TOKEN_SIZE"
  shows "safe_res (keeps w) (tupd t f w)"
proof -
  from tget_dom [OF assms(2)] obtain x where x: "trans w t = Some x" "tget t w = Inr x" by blast
  with assms(1,3) ainvD(3) [OF assms(1) x(1)] show ?thesis
    by (auto simp: tupd_def keeps_def ainv_def)
qed

lemma sinv_offline [simp]: "sinv_except X (st\<lparr>offline := g\<rparr>) = sinv_except X st"
  by (rule sinv_frame) (simp_all add: hp_def fun_eq_iff)

lemma set_state_keeps:
  assumes "ainv w" and "t \<in> dom (trans w)"
  shows "safe_res (keeps w) (set_state t cs w)"
  unfolding set_state_def
proof (rule keeps_seq [OF tupd_keeps [OF assms]])
  fix w'
  assume k: "keeps w w'"
  then have "ainv w'" by (simp add: keeps_def)
  then show "safe_res (keeps w')
      (Inr (set_ws ((ws w')\<lparr>offline := (offline (ws w'))(t := (cs = CS_OFFLINE))\<rparr>) w'))"
    using ainvD(2) by (simp add: keeps_def ainv_set_ws)
qed simp

lemma keepsD: "keeps w w' \<Longrightarrow> ainv w'" "keeps w w' \<Longrightarrow> t \<in> dom (trans w) \<Longrightarrow> t \<in> dom (trans w')"
  by (auto simp: keeps_def)

section \<open>Messages\<close>

lemma quiet_sinv: "sinv st \<Longrightarrow> safe_res (quiet st) m \<Longrightarrow> safe_res sinv m"
  by (erule safe_res_mono) (rule quiet_inv)

lemma send_keeps:
  assumes "ainv w" and "wf_packet p" and "unat (data_length (msg p)) \<le> MAX_PAYLOAD"
  shows "safe_res (keeps w) (on_socks (send_packet p (Some t)) w)"
  by (rule on_socks_keeps [OF assms(1)])
    (use quiet_sinv [OF ainvD(2) [OF assms(1)] send_packet_safe [OF assms(2,3)]] send_packet_pids in blast)+

lemma command_packet_ok:
  "length (fresh st) = MAX_PAYLOAD \<Longrightarrow> wf_packet (command_packet c a b st)"
  "data_length (msg (command_packet c a b st)) = 0" "data (command_packet c a b st) = fresh st"
  by (simp_all add: command_packet_def get_apacket_def wf_packet_def zero_msg_def Let_def)

lemma send_data_keeps:
  assumes inv: "ainv w" and len: "length bs \<le> MAX_PAYLOAD"
  shows "\<exists>d. blit bs (data (command_packet c a b (ws w))) = Inr d \<and>
    safe_res (keeps w) (on_socks (send_packet
      ((command_packet c a b (ws w))\<lparr>msg := (msg (command_packet c a b (ws w)))\<lparr>data_length := of_nat (length bs)\<rparr>,
        data := d\<rparr>) (Some t)) w)"
proof -
  have f: "length (fresh (ws w)) = MAX_PAYLOAD" using sinvD(9) [OF ainvD(2) [OF inv]] .
  have u: "unat (of_nat (length bs) :: u32) = length bs"
    by (rule unat_u32) (use len in \<open>simp add: MAX_PAYLOAD_def\<close>)
  have "blit bs (fresh (ws w)) = Inr (bs @ drop (length bs) (fresh (ws w)))"
    using len f by (simp add: blit_def)
  then show ?thesis
    using send_keeps [OF inv] len f u by (simp add: command_packet_ok wf_packet_def)
qed

lemma handle_online_keeps: "ainv w \<Longrightarrow> t \<in> dom (trans w) \<Longrightarrow> safe_res (keeps w) (handle_online t w)"
  unfolding handle_online_def by (rule tupd_keeps) simp_all

lemma handle_offline_keeps:
  assumes "ainv w" and "t \<in> dom (trans w)"
  shows "safe_res (keeps w) (handle_offline t w)"
  unfolding handle_offline_def
proof (rule keeps_seq [OF tupd_keeps [OF assms]])
  show "safe_res (keeps w') (on_socks (run_transport_disconnects t) w')" if "keeps w w'" for w'
    using that by (intro on_socks_keeps run_transport_disconnects_safe ainvD(2))
      (auto simp: keeps_def dest: transport_disconnects_pids)
qed simp

lemma send_connect_keeps:
  assumes "ainv w"
  shows "safe_res (keeps w) (send_connect t w)"
proof -
  let ?bs = "connect_data (device_banner w) @ [0]"
  have "length ?bs \<le> MAX_PAYLOAD" using ainvD(5) [OF assms] by simp
  from send_data_keeps [OF assms this, of A_CNXN A_VERSION "of_nat MAX_PAYLOAD" t] show ?thesis
    by (auto simp: send_connect_def fill_connect_data_def Let_def)
qed

lemma generate_token_keeps:
  assumes inv: "ainv w" and t: "t \<in> dom (trans w)"
  shows "safe_res (\<lambda>(ok, w'). keeps w w') (adb_auth_generate_token t w)"
proof (cases "\<exists>bs ok k. urandom w = Some (bs, ok) # k")
  case True
  then obtain bs ok k where u: "urandom w = Some (bs, ok) # k" by blast
  let ?w = "w\<lparr>urandom := k\<rparr>"
  have len: "length bs = TOKEN_SIZE" using ainvD(4) [OF inv, of bs ok] u by simp
  have "ainv ?w" using inv u by (auto simp: ainv_def)
  from tupd_keeps [OF this, of t "\<lambda>x. x\<lparr>token := bs\<rparr>"] t len
  have "safe_res (keeps ?w) (tupd t (\<lambda>x. x\<lparr>token := bs\<rparr>) ?w)" by simp
  then have "safe_res (keeps w) (tupd t (\<lambda>x. x\<lparr>token := bs\<rparr>) ?w)"
    by (rule safe_res_mono) (simp add: keeps_def)
  then have "safe_res (\<lambda>(ok, w'). keeps w w') (seq (tupd t (\<lambda>x. x\<lparr>token := bs\<rparr>) ?w) (\<lambda>w. Inr (ok, w)))"
    by (rule safe_res_seq) simp
  then show ?thesis by (simp add: adb_auth_generate_token_def u)
next
  case False
  then have e: "adb_auth_generate_token t w = seq (tget t w) (\<lambda>_. Inr (False, w\<lparr>urandom := tl (urandom w)\<rparr>))"
    by (auto simp: adb_auth_generate_token_def split: list.splits option.splits)
  have "set (tl (urandom w)) \<subseteq> set (urandom w)" by (cases "urandom w") auto
  then have "ainv (w\<lparr>urandom := tl (urandom w)\<rparr>)" using inv unfolding ainv_def by (simp; blast)
  with e tget_dom [OF t] show ?thesis by (auto simp: keeps_def)
qed

lemma send_auth_request_keeps:
  assumes inv: "ainv w" and t: "t \<in> dom (trans w)"
  shows "safe_res (keeps w) (send_auth_request t w)"
  unfolding send_auth_request_def
proof (rule safe_res_seq [OF generate_token_keeps [OF assms]])
  fix r :: "bool \<times> adbd"
  assume "case r of (ok, w') \<Rightarrow> keeps w w'"
  then obtain ok w1 where r: "r = (ok, w1)" and k: "keeps w w1" by (cases r) simp
  from keepsD [OF k] t have i: "ainv w1" and t1: "t \<in> dom (trans w1)" by blast+
  from tget_dom [OF t1] obtain x where x: "trans w1 t = Some x" "tget t w1 = Inr x" by blast
  have "length (token x) \<le> MAX_PAYLOAD"
    using ainvD(3) [OF i x(1)] by (simp add: TOKEN_SIZE_def MAX_PAYLOAD_def)
  from send_data_keeps [OF i this, of A_AUTH ADB_AUTH_TOKEN 0 t] k
  show "safe_res (keeps w) (case r of (ok, w) \<Rightarrow> if \<not> ok then Inr w else
      seq (tget t w) (\<lambda>x. let p = command_packet A_AUTH ADB_AUTH_TOKEN 0 (ws w) in
        seq (blit (token x) (data p)) (\<lambda>d.
        on_socks (send_packet (p\<lparr>msg := (msg p)\<lparr>data_length := of_nat (length (token x))\<rparr>, data := d\<rparr>)
          (Some t)) w)))"
    by (auto simp: r x Let_def intro: safe_res_mono keeps_trans)
qed

lemma adb_auth_verified_keeps:
  "ainv w \<Longrightarrow> t \<in> dom (trans w) \<Longrightarrow> safe_res (keeps w) (adb_auth_verified t w)"
  unfolding adb_auth_verified_def
  by (rule keeps_seq [OF handle_online_keeps]) (auto intro: send_connect_keeps keepsD)

section \<open>Packets for sockets\<close>

lemma find_from_ok:
  "(\<And>a. a \<in> set as \<Longrightarrow> hp st a \<noteq> None) \<Longrightarrow>
   \<exists>r. find_from as i st = Inr r \<and>
     (\<forall>a. r = Some a \<longrightarrow> a \<in> set as \<and> (\<exists>s. hp st a = Some s \<and> sid s = i))"
proof (induction as)
  case (Cons b as)
  then obtain s where s: "hp st b = Some s" by (metis list.set_intros(1) not_None_eq)
  from Cons.IH Cons.prems obtain r where "find_from as i st = Inr r"
    "\<forall>a. r = Some a \<longrightarrow> a \<in> set as \<and> (\<exists>s. hp st a = Some s \<and> sid s = i)" by force
  then show ?case using s by (cases "sid s = i") (auto simp: sock_Some)
qed simp

lemma find_local_ok:
  assumes "sinv st"
  shows "\<exists>r. find_local_socket i st = Inr r \<and>
    (\<forall>a. r = Some a \<longrightarrow> a \<in> set (slist st) \<and> (\<exists>s. hp st a = Some s \<and> listed s \<and> \<not> closing s \<and> sid s = i))"
proof -
  note D = sinvD [OF assms]
  have "hp st a \<noteq> None" if "a \<in> set (slist st)" for a using D(2) [of a] that by auto
  from find_from_ok [OF this, where i = i] obtain r where r: "find_local_socket i st = Inr r"
    "\<And>a. r = Some a \<Longrightarrow> a \<in> set (slist st) \<and> (\<exists>s. hp st a = Some s \<and> sid s = i)"
    unfolding find_local_socket_def by blast
  have "listed s \<and> \<not> closing s" if "a \<in> set (slist st)" "hp st a = Some s" for a s
    using D(1) D(2) [of a] D(4) [OF that(2)] that by auto
  with r show ?thesis by blast
qed

lemma connect_remote_links:
  assumes s: "hp st a = Some s"
  shows "\<exists>st' q r. connect_remote a i t st = Inr (q, st') \<and> hp st q = None \<and>
    hp st' = (hp st)(a := Some (s\<lparr>peer := Some q\<rparr>), q := Some r) \<and>
    sock_ok r \<and> \<not> listed r \<and> peer r = Some a \<and> \<not> closing r \<and> close_op r = RemoteClose \<and> transport r = Some t \<and>
    slist st' = slist st \<and> clist st' = clist st \<and> trackers st' = trackers st \<and> fresh st' = fresh st \<and>
    remotes st' = (remotes st)(t := remotes st t @ [q]) \<and> jdwp_pids st' = jdwp_pids st"
proof -
  define q where "q = length (heap st)"
  define r0 where "r0 = zero_sock\<lparr>sid := i, enqueue_op := RemoteEnqueue, ready_op := RemoteReady,
    close_op := RemoteClose, transport := Some t\<rparr>"
  define st1 where "st1 = st\<lparr>heap := heap st @ [Some r0], remotes := (remotes st)(t := remotes st t @ [q])\<rparr>"
  have n: "hp st q = None" unfolding q_def by (rule hp_alloc)
  with s have qa: "q \<noteq> a" by auto
  have h1: "hp st1 = (hp st)(q := Some r0)"
    using hp_alloc(1) [of st r0] by (simp add: st1_def q_def hp_def fun_eq_iff)
  define st2 where "st2 = setk a (Some (s\<lparr>peer := Some q\<rparr>)) st1"
  have h2: "hp st2 = (hp st1)(a := Some (s\<lparr>peer := Some q\<rparr>))"
    unfolding st2_def by (rule hp_setk) (use s qa in \<open>simp add: h1\<close>)
  have h2q: "hp st2 q = Some r0" using qa by (simp add: h2 h1)
  define st3 where "st3 = setk q (Some (r0\<lparr>peer := Some a\<rparr>)) st2"
  have h3: "hp st3 = (hp st2)(q := Some (r0\<lparr>peer := Some a\<rparr>))"
    unfolding st3_def by (rule hp_setk) (simp add: h2q)
  have c: "create_remote_socket i t st = (q, st1)"
    by (simp add: create_remote_socket_def alloc_def q_def st1_def r0_def)
  have u1: "upd a (\<lambda>s. s\<lparr>peer := Some q\<rparr>) st1 = Inr st2"
    unfolding st2_def by (rule upd_Some) (use s qa in \<open>simp add: h1\<close>)
  have u2: "upd q (\<lambda>s. s\<lparr>peer := Some a\<rparr>) st2 = Inr st3"
    unfolding st3_def by (rule upd_Some [OF h2q])
  have e: "connect_remote a i t st = Inr (q, st3)" by (simp add: connect_remote_def c u1 u2)
  have f: "hp st3 = (hp st)(a := Some (s\<lparr>peer := Some q\<rparr>), q := Some (r0\<lparr>peer := Some a\<rparr>))"
    using qa by (auto simp: h3 h2 h1 fun_eq_iff)
  have "sock_ok (r0\<lparr>peer := Some a\<rparr>) \<and> \<not> listed (r0\<lparr>peer := Some a\<rparr>)"
    by (simp add: r0_def sock_ok_def ops_ok_def listed_def local_kind_def)
  then show ?thesis
    by (intro exI [of _ st3] exI [of _ q] exI [of _ "r0\<lparr>peer := Some a\<rparr>"] conjI)
      (use e n f in \<open>simp_all add: st3_def st2_def st1_def setk_def r0_def\<close>)
qed

text \<open>A socket that was just connected to the other side, or has just become ready, is in order.\<close>

lemma linked_inv:
  assumes inv: "sinv_except {a} st" and s: "hp st a = Some s" "listed s" "\<not> closing s"
    and none: "\<forall>b t. hp st b = Some t \<longrightarrow> peer t \<noteq> Some a" and notify: "close_op s \<noteq> LocalCloseNotify"
  shows "\<exists>st' q qs. connect_remote a i t st = Inr (q, st') \<and> sinv st' \<and>
    hp st' a = Some (s\<lparr>peer := Some q\<rparr>) \<and> hp st' q = Some qs \<and> jdwp_pids st' = jdwp_pids st"
proof -
  from connect_remote_links [OF s(1), of i t] obtain st' q r
    where e: "connect_remote a i t st = Inr (q, st')" and n: "hp st q = None"
      and h: "hp st' = (hp st)(a := Some (s\<lparr>peer := Some q\<rparr>), q := Some r)"
      and r: "sock_ok r" "\<not> listed r" "peer r = Some a" "\<not> closing r" "close_op r = RemoteClose" "transport r = Some t"
      and o: "slist st' = slist st" "clist st' = clist st" "trackers st' = trackers st" "fresh st' = fresh st"
        "remotes st' = (remotes st)(t := remotes st t @ [q])" "jdwp_pids st' = jdwp_pids st" by blast
  have ok: "sock_ok (s\<lparr>peer := Some q\<rparr>)"
    using sinvD(3) [OF inv s(1)] s(3) notify by (simp add: sock_ok_def local_kind_def)
  have "sinv st'"
    by (rule link_inv [OF inv s none [rule_format] n ok _ _ _ _ r(1-4) _ h o(1-3) _ o(4)])
      (use s r o(5) in \<open>simp_all add: listed_def\<close>)
  moreover have "q \<noteq> a" using n s(1) by auto
  ultimately show ?thesis
    by (intro exI [of _ st'] exI [of _ q] exI [of _ r] conjI) (simp_all add: e h o)
qed

text \<open>A packet as the input thread hands it to the main thread.\<close>

definition arrived :: "apacket \<Rightarrow> bool" where
  "arrived p \<longleftrightarrow> wf_packet p \<and> pkt_ptr p = 0 \<and> unat (data_length (msg p)) \<le> MAX_PAYLOAD"

lemma safe_res_pids:
  assumes "safe_res sinv m" and "\<And>st. m = Inr st \<Longrightarrow> jdwp_pids st = ps"
  shows "safe_res (\<lambda>st. sinv st \<and> jdwp_pids st = ps) m"
  using assms by (auto simp: safe_res_def split: sum.splits)

lemma on_socks_keeps':
  assumes "ainv w" and "safe_res (\<lambda>st. sinv st \<and> jdwp_pids st = jdwp_pids (ws w)) (f (ws w))"
  shows "safe_res (keeps w) (on_socks f w)"
  unfolding on_socks_def
  by (rule safe_res_seq [OF assms(2)]) (use assms(1) in \<open>simp add: keeps_def ainv_set_ws\<close>)

lemma sock_ready_ok:
  assumes "sinv st" and "hp st a = Some s"
  shows "safe_res (\<lambda>st'. sinv st' \<and> jdwp_pids st' = jdwp_pids st) (sock_ready a st)"
  by (rule safe_res_pids [OF sock_ready_safe [OF assms]]) (rule sock_ready_pids)

lemma handle_clse_ok:
  assumes inv: "sinv st"
  shows "safe_res (\<lambda>st'. sinv st' \<and> jdwp_pids st' = jdwp_pids st) (handle_clse p st)"
proof -
  from find_local_ok [OF inv, of "arg1 (msg p)"] obtain r
    where r: "find_local_socket (arg1 (msg p)) st = Inr r" "\<And>a. r = Some a \<Longrightarrow> \<exists>s. hp st a = Some s" by blast
  show ?thesis
  proof (cases r)
    case None
    with r inv show ?thesis by (simp add: handle_clse_def)
  next
    case (Some a)
    with r obtain s where "hp st a = Some s" by blast
    from safe_res_pids [OF sock_close_safe [OF inv this], of "jdwp_pids st"] r(1) Some show ?thesis
      by (simp add: handle_clse_def sock_close_pids)
  qed
qed

lemma sock_enqueue_listed:
  assumes inv: "sinv st" and s: "hp st a = Some s" "listed s" and p: "handed p"
  shows "safe_res (\<lambda>(r, st'). sinv st' \<and> (r = 0 \<longrightarrow> hp st' a = Some s)) (sock_enqueue a p st)"
proof -
  have ok: "ops_ok s" using sinvD(3) [OF inv s(1)] by (simp add: sock_ok_def)
  have l: "safe_res (\<lambda>(r, st'). sinv st' \<and> (r = 0 \<longrightarrow> hp st' a = Some s)) (local_socket_enqueue a p st)"
    if "local_kind s"
    by (rule safe_res_mono [OF local_socket_enqueue_safe [OF inv s(1) that p]]) auto
  have j: "safe_res (\<lambda>(r, st'). sinv st' \<and> (r = 0 \<longrightarrow> hp st' a = Some s)) (jdwp_socket_enqueue a p st)"
    if "\<not> local_kind s"
    by (rule safe_res_mono [OF jdwp_socket_enqueue_safe [OF inv s(1) that]]) auto
  show ?thesis
    using ok s l j
    by (cases "close_op s") (simp_all add: ops_ok_def sock_enqueue_def sock_Some local_kind_def listed_def)
qed

lemma handle_wrte_ok:
  assumes inv: "sinv st" and p: "arrived p"
  shows "safe_res (\<lambda>st'. sinv st' \<and> jdwp_pids st' = jdwp_pids st) (handle_wrte p t st)"
proof -
  from find_local_ok [OF inv, of "arg1 (msg p)"] obtain r
    where r: "find_local_socket (arg1 (msg p)) st = Inr r"
      "\<And>a. r = Some a \<Longrightarrow> \<exists>s. hp st a = Some s \<and> listed s" by blast
  show ?thesis
  proof (cases r)
    case None
    with r inv show ?thesis by (simp add: handle_wrte_def)
  next
    case (Some a)
    with r obtain s where s: "hp st a = Some s" "listed s" by blast
    have h: "handed (p\<lparr>pkt_len := data_length (msg p)\<rparr>)" using p by (simp add: arrived_def handed_def)
    have "safe_res (\<lambda>st'. sinv st' \<and> jdwp_pids st' = jdwp_pids st)
        (seq (sock_enqueue a (p\<lparr>pkt_len := data_length (msg p)\<rparr>) st) (\<lambda>(r, st).
           if r = 0 then seq (sock a st) (\<lambda>s. send_ready (sid s) (arg0 (msg p)) t st) else Inr st))"
    proof (rule safe_res_seq_eq [OF sock_enqueue_listed [OF inv s h]])
      fix x
      assume x: "case x of (r, st') \<Rightarrow> sinv st' \<and> (r = 0 \<longrightarrow> hp st' a = Some s)"
        and e: "sock_enqueue a (p\<lparr>pkt_len := data_length (msg p)\<rparr>) st = Inr x"
      obtain r st' where [simp]: "x = (r, st')" by (cases x)
      have i: "sinv st'" and hs: "r = 0 \<Longrightarrow> hp st' a = Some s" using x by auto
      have j: "jdwp_pids st' = jdwp_pids st" by (rule sock_enqueue_pids [of a _ st r]) (use e in simp)
      have "safe_res (\<lambda>st''. sinv st'' \<and> jdwp_pids st'' = jdwp_pids st) (send_ready (sid s) (arg0 (msg p)) t st')"
        unfolding send_ready_def
        by (rule safe_res_mono [OF send_command_quiet [OF sinvD(9) [OF i]]])
          (use quiet_inv [OF _ i] j in \<open>auto simp: quiet_def\<close>)
      with i hs j show "safe_res (\<lambda>st'. sinv st' \<and> jdwp_pids st' = jdwp_pids st)
          (case x of (r, st) \<Rightarrow> if r = 0 then seq (sock a st) (\<lambda>s. send_ready (sid s) (arg0 (msg p)) t st) else Inr st)"
        by (auto simp: sock_Some)
    qed
    with r(1) Some show ?thesis by (simp add: handle_wrte_def Let_def)
  qed
qed

text \<open>
  A socket whose connection was still being made: the packet links it to the other side and
  turns its functions into those of a connected socket; only after both is it in order.
\<close>

lemma okay_notify:
  assumes inv: "sinv_except {a} st" and s: "hp st a = Some s" "listed s" "\<not> closing s"
    and none: "\<forall>b t. hp st b = Some t \<longrightarrow> peer t \<noteq> Some a" and notify: "close_op s = LocalCloseNotify"
  shows "\<exists>st1 q st2. connect_remote a i t st = Inr (q, st1) \<and> sock_ready a st1 = Inr st2 \<and>
    sinv st2 \<and> jdwp_pids st2 = jdwp_pids st"
proof -
  from connect_remote_links [OF s(1), of i t] obtain st' q r
    where e: "connect_remote a i t st = Inr (q, st')" and n: "hp st q = None"
      and h: "hp st' = (hp st)(a := Some (s\<lparr>peer := Some q\<rparr>), q := Some r)"
      and r: "sock_ok r" "\<not> listed r" "peer r = Some a" "\<not> closing r" "close_op r = RemoteClose" "transport r = Some t"
      and o: "slist st' = slist st" "clist st' = clist st" "trackers st' = trackers st" "fresh st' = fresh st"
        "remotes st' = (remotes st)(t := remotes st t @ [q])" "jdwp_pids st' = jdwp_pids st" by blast
  have qa: "q \<noteq> a" using n s(1) by auto
  let ?f = "\<lambda>s. s\<lparr>ready_op := LocalReady, close_op := LocalClose\<rparr>"
  let ?s = "?f (s\<lparr>peer := Some q\<rparr>)"
  have ha: "hp st' a = Some (s\<lparr>peer := Some q\<rparr>)" using qa by (simp add: h)
  have sok: "sock_ok s" using sinvD(3) [OF inv s(1)] .
  then have rdy: "ready_op s = LocalReadyNotify" using notify by (simp add: sock_ok_def ops_ok_def)
  define st1 where "st1 = setk a (Some ?s) st'"
  define st2 where "st2 = local_socket_ready a (emit (WriteFd (sfd ?s) (bytes_of_str ''OKAY'')) st1)"
  have u: "upd a ?f st' = Inr st1" unfolding st1_def by (rule upd_Some [OF ha])
  have h1: "hp st1 = (hp st')(a := Some ?s)" unfolding st1_def by (rule hp_setk) (simp add: ha)
  have "sock_ready a st' = Inr st2"
    using ha u h1 rdy by (simp add: sock_ready_def sock_Some local_socket_ready_notify_def st2_def)
  moreover have h2: "hp st2 = (hp st)(a := Some ?s, q := Some r)"
    using qa by (auto simp: st2_def local_socket_ready_def h1 h fun_eq_iff)
  have o2: "slist st2 = slist st" "clist st2 = clist st" "trackers st2 = trackers st" "fresh st2 = fresh st"
    "remotes st2 = (remotes st)(t := remotes st t @ [q])" "jdwp_pids st2 = jdwp_pids st"
    by (simp_all add: st2_def st1_def setk_def local_socket_ready_def o)
  have ok: "sock_ok ?s"
    using sok s(3) notify ops_ok_local [of s] by (auto simp: sock_ok_def local_kind_def ops_ok_def)
  have "sinv st2"
    by (rule link_inv [OF inv s none [rule_format] n ok _ _ _ _ r(1-4) _ h2 o2(1-3) _ o2(4)])
      (use s r o2(5) notify in \<open>simp_all add: listed_def\<close>)
  ultimately show ?thesis using e o2(6) by blast
qed

lemma handle_okay_ok:
  assumes inv: "sinv st"
  shows "safe_res (\<lambda>st'. sinv st' \<and> jdwp_pids st' = jdwp_pids st) (handle_okay p t st)"
proof -
  from find_local_ok [OF inv, of "arg1 (msg p)"] obtain r
    where r: "find_local_socket (arg1 (msg p)) st = Inr r"
      "\<And>a. r = Some a \<Longrightarrow> \<exists>s. hp st a = Some s \<and> listed s \<and> \<not> closing s" by blast
  show ?thesis
  proof (cases r)
    case None
    with r inv show ?thesis by (simp add: handle_okay_def)
  next
    case (Some a)
    with r obtain s where s: "hp st a = Some s" "listed s" "\<not> closing s" by blast
    show ?thesis
    proof (cases "peer s")
      case (Some q)
      with s r(1) \<open>r = Some a\<close> sock_ready_ok [OF inv s(1)] show ?thesis
        by (simp add: handle_okay_def sock_Some)
    next
      case None
      have ex: "sinv_except {a} st" using inv unfolding sinv_except_def by blast
      have none: "\<forall>b u. hp st b = Some u \<longrightarrow> peer u \<noteq> Some a"
        using only_peer_points [OF inv s(1)] None by auto
      have e: "handle_okay p t st = seq (connect_remote a (arg0 (msg p)) t st) (\<lambda>(q, st). sock_ready a st)"
        using s(1) r(1) \<open>r = Some a\<close> None by (simp add: handle_okay_def sock_Some seq_assoc split_def)
      show ?thesis
      proof (cases "close_op s = LocalCloseNotify")
        case False
        from linked_inv [where i = "arg0 (msg p)" and t = t, OF ex s none False] obtain st' q
          where c: "connect_remote a (arg0 (msg p)) t st = Inr (q, st')" and i: "sinv st'"
            and h: "hp st' a = Some (s\<lparr>peer := Some q\<rparr>)" and j: "jdwp_pids st' = jdwp_pids st" by blast
        from sock_ready_ok [OF i h] e c j show ?thesis by simp
      next
        case True
        from okay_notify [where i = "arg0 (msg p)" and t = t, OF ex s none True] show ?thesis
          unfolding e by (auto)
      qed
    qed
  qed
qed

lemma on_new_socket_keeps:
  assumes "ainv w" and "jprocs_ok (jw v)"
    and "safe_res (\<lambda>st. sinv st \<and> jdwp_pids st = jdwp_pids (jsw (jw v))) (f (jsw (jw v)))"
  shows "safe_res (keeps w) (on_socks f (w\<lparr>vw := v\<rparr>))"
proof -
  have "ws (w\<lparr>vw := v\<rparr>) = jsw (jw v)" by (simp add: ws_def)
  moreover have "keeps w (set_ws st (w\<lparr>vw := v\<rparr>))" if "sinv st \<and> jdwp_pids st = jdwp_pids (jsw (jw v))" for st
    using that assms(1,2) by (simp add: keeps_def ainv_def jinv_alt jprocs_ok_jsw)
  ultimately show ?thesis
    unfolding on_socks_def by (auto intro: safe_res_seq [OF assms(3)])
qed

lemma open_name_ok: "arrived p \<Longrightarrow> \<exists>name. open_name p = Inr name"
  by (auto simp: open_name_def arrived_def wf_packet_def Let_def MAX_PAYLOAD_def)

lemma handle_open_keeps:
  assumes inv: "ainv w" and env: "env_ok env" and t: "t \<in> dom (trans w)" and p: "arrived p"
  shows "safe_res (keeps w) (handle_open env p t w)"
proof -
  from tget_dom [OF t] obtain x where x: "tget t w = Inr x" by blast
  from open_name_ok [OF p] obtain name where name: "open_name p = Inr name" by blast
  from create_local_service_socket_ok [OF env ainvD(1) [OF inv], of name] obtain r v
    where c: "create_local_service_socket env name (vw w) = Inr (r, v)" and o: "service_socket (r, v)" by auto
  show ?thesis
  proof (cases r)
    case None
    with o have j: "jprocs_ok (jw v)" "sinv (jsw (jw v))" by (simp_all add: service_socket_def jinv_alt)
    have "safe_res (\<lambda>st. sinv st \<and> jdwp_pids st = jdwp_pids (jsw (jw v))) (send_close 0 (arg0 (msg p)) t (jsw (jw v)))"
      unfolding send_close_def
      by (rule safe_res_mono [OF send_command_quiet [OF sinvD(9) [OF j(2)]]])
        (use quiet_inv [OF _ j(2)] in \<open>auto simp: quiet_def\<close>)
    from on_new_socket_keeps [where f = "send_close 0 (arg0 (msg p)) t", OF inv j(1) this] c x name None keeps_refl [OF inv] show ?thesis
      by (simp add: handle_open_def)
  next
    case (Some a)
    let ?st = "jsw (jw v)"
    let ?f = "\<lambda>st. seq (connect_remote a (arg0 (msg p)) t st) (\<lambda>(q, st). seq (sock a st) (\<lambda>s. seq (sock q st) (\<lambda>qs.
       seq (send_ready (sid s) (sid qs) t st) (sock_ready a))))"
    from o Some obtain st0 where j: "jprocs_ok (jw v)" and n: "new_sock a st0 ?st"
      by (auto simp: service_socket_def)
    from n obtain s where s: "hp ?st a = Some s" "listed s" "\<not> closing s" "close_op s \<noteq> LocalCloseNotify"
      and i: "sinv_except {a} ?st" and none: "\<forall>b u. hp ?st b = Some u \<longrightarrow> peer u \<noteq> Some a"
      unfolding new_sock_def by auto
    from linked_inv [where i = "arg0 (msg p)" and t = t, OF i s(1-3) none s(4)] obtain st' q qs
      where l: "connect_remote a (arg0 (msg p)) t ?st = Inr (q, st')" and i': "sinv st'"
        and h: "hp st' a = Some (s\<lparr>peer := Some q\<rparr>)" "hp st' q = Some qs"
        and ps: "jdwp_pids st' = jdwp_pids ?st" by blast
    have "safe_res (\<lambda>st. sinv st \<and> jdwp_pids st = jdwp_pids ?st)
        (seq (send_ready (sid s) (sid qs) t st') (sock_ready a))"
      unfolding send_ready_def
    proof (rule safe_res_seq [OF send_command_quiet [OF sinvD(9) [OF i']]])
      fix st2
      assume q2: "quiet st' st2"
      then have "hp st2 a = Some (s\<lparr>peer := Some q\<rparr>)" using h by (simp add: quiet_def)
      from sock_ready_ok [OF quiet_inv [OF q2 i'] this] q2 ps
      show "safe_res (\<lambda>st. sinv st \<and> jdwp_pids st = jdwp_pids ?st) (sock_ready a st2)"
        by (simp add: quiet_def)
    qed
    then have *: "safe_res (\<lambda>st. sinv st \<and> jdwp_pids st = jdwp_pids ?st) (?f ?st)"
      using h by (simp add: l sock_Some)
    from on_new_socket_keeps [where f = ?f, OF inv j *] c x name Some keeps_refl [OF inv] show ?thesis
      by (simp add: handle_open_def)
  qed
qed

section \<open>Every packet\<close>

lemma handle_sync_keeps:
  assumes inv: "ainv w" and t: "t \<in> dom (trans w)" and p: "arrived p"
  shows "safe_res (keeps w) (handle_sync p t w)"
proof -
  have send: "safe_res (keeps w') (on_socks (send_packet p (Some t)) w')" if "keeps w w'" for w'
    using send_keeps [OF keepsD(1) [OF that]] p by (simp add: arrived_def)
  have "safe_res (keeps w) (seq (set_state t CS_OFFLINE w) (\<lambda>w. seq (handle_offline t w) (on_socks (send_packet p (Some t)))))"
    by (rule keeps_seq [OF set_state_keeps [OF inv t]], rule keeps_seq)
      (use keepsD t send keeps_trans handle_offline_keeps in blast)+
  with send [OF keeps_refl [OF inv]] show ?thesis by (simp add: handle_sync_def)
qed

lemma parse_banner_keeps:
  assumes inv: "ainv w" and t: "t \<in> dom (trans w)" and z: "0 \<in> set d"
  shows "safe_res (keeps w) (parse_banner d t w)"
proof -
  from z obtain b where b: "c_string d = Some b" by (auto simp: c_string_def)
  have tok: "token (fold set_qual qs x) = token x" for qs x
    by (induction qs arbitrary: x) (auto simp: set_qual_def Let_def)
  have "safe_res (keeps w) (seq (tupd t (\<lambda>x. fold set_qual (banner_props b) x) w)
      (set_state t (banner_state (takeWhile (\<lambda>b. b \<noteq> 58) b))))"
    by (rule keeps_seq [OF tupd_keeps [OF inv t]]) (use tok t keepsD set_state_keeps in auto)
  then show ?thesis by (simp add: parse_banner_def b)
qed

lemma handle_cnxn_keeps:
  assumes inv: "ainv w" and t: "t \<in> dom (trans w)" and z: "0 \<in> set (data p)"
  shows "safe_res (keeps w) (handle_cnxn p t w)"
proof -
  from tget_dom [OF t] obtain x where x: "tget t w = Inr x" by blast
  have off: "safe_res (keeps w) (seq (set_state t CS_OFFLINE w) (handle_offline t))"
    by (rule keeps_seq [OF set_state_keeps [OF inv t]]) (use keepsD t handle_offline_keeps in blast)
  have last: "safe_res (keeps w') (if \<not> auth_enabled w' then seq (handle_online t w') (send_connect t)
      else send_auth_request t w')" if "ainv w'" "t \<in> dom (trans w')" for w'
    using adb_auth_verified_keeps [OF that] send_auth_request_keeps [OF that]
    by (simp add: adb_auth_verified_def)
  have "safe_res (keeps w') (seq (parse_banner (data p) t w') (\<lambda>w.
      if \<not> auth_enabled w then seq (handle_online t w) (send_connect t) else send_auth_request t w))"
    if "keeps w w'" for w'
    by (rule keeps_seq [OF parse_banner_keeps last]) (use keepsD that t z in blast)+
  then show ?thesis
    unfolding handle_cnxn_def x seq_Inr
    by (rule keeps_seq [rotated]) (use off keeps_refl [OF inv] in auto)
qed

lemma confirm_key_keeps:
  assumes inv: "ainv w" and t: "t \<in> dom (trans w)" and p: "arrived p"
    and len: "data_length (msg p) \<noteq> 0 \<or> framework_fd w < 0"
  shows "safe_res (keeps w) (adb_auth_confirm_key p t w)"
proof -
  have emit: "safe_res (keeps v) (on_socks (\<lambda>st. Inr (emit e st)) v)" if "ainv v" for e v
    by (rule on_socks_keeps' [OF that]) (use ainvD(2) [OF that] quiet_inv [of "ws v" "emit e (ws v)"] in simp)
  have emit2: "safe_res (keeps v) (on_socks (\<lambda>st. Inr (emit e2 (emit e1 st))) v)" if "ainv v" for e1 e2 v
    by (rule on_socks_keeps' [OF that])
      (use ainvD(2) [OF that] quiet_inv [of "ws v" "emit e1 (ws v)"] quiet_inv [of "emit e1 (ws v)" "emit e2 (emit e1 (ws v))"] in simp)
  have "safe_res (keeps w) (seq (on_socks (\<lambda>st. Inr (emit e st)) w) (\<lambda>w.
      seq (tupd t (\<lambda>x. x\<lparr>auth_fde := Some (framework_fd w)\<rparr>) w) (\<lambda>w.
      on_socks (\<lambda>st. Inr (emit (FdOp (OpAdd (auth_fde_of t) 1))
        (emit (FdOp (OpInstall (auth_fde_of t) (framework_fd w) AdbAuthEvent t)) st))) w)))" for e
    by (intro keeps_seq [OF emit [OF inv]] keeps_seq [OF tupd_keeps] emit2) (use keepsD t in auto)
  moreover have "unat (data_length (msg p)) \<le> length (data p)"
    using p by (simp add: arrived_def wf_packet_def)
  moreover have "unat (data_length (msg p)) = 0 \<longleftrightarrow> data_length (msg p) = 0"
    by (simp add: unat_eq_0)
  ultimately show ?thesis
    using len keeps_refl [OF inv] by (auto simp: adb_auth_confirm_key_def Let_def)
qed

lemma handle_auth_keeps:
  assumes inv: "ainv w" and t: "t \<in> dom (trans w)" and p: "arrived p"
    and len: "arg0 (msg p) = ADB_AUTH_RSAPUBLICKEY \<Longrightarrow> data_length (msg p) \<noteq> 0 \<or> framework_fd w < 0"
  shows "safe_res (keeps w) (handle_auth RSA_verify p t w)"
proof -
  from tget_dom [OF t] obtain x where x: "tget t w = Inr x" by blast
  let ?n = "\<lambda>x. x\<lparr>failed_auth_attempts := failed_auth_attempts x + 1\<rparr>"
  have good: "safe_res (keeps w) (seq (adb_auth_verified t w) (tupd t (\<lambda>x. x\<lparr>failed_auth_attempts := 0\<rparr>)))"
    by (rule keeps_seq [OF adb_auth_verified_keeps [OF inv t]], rule tupd_keeps) (use keepsD t in auto)
  have bad: "safe_res (keeps w) (seq (tupd t ?n w') (send_auth_request t))"
    if "keeps w w'" for w'
  proof (rule safe_res_mono [OF keeps_seq])
    show "safe_res (keeps w') (tupd t ?n w')"
      by (rule tupd_keeps) (use keepsD that t in auto)
    show "safe_res (keeps w'') (send_auth_request t w'')" if "keeps w' w''" for w''
      by (rule send_auth_request_keeps) (use keepsD that \<open>keeps w w'\<close> t in blast)+
    show "keeps w w''" if "keeps w' w''" for w'' using keeps_trans \<open>keeps w w'\<close> that .
  qed
  have slow: "keeps w (w\<lparr>slept_ms := n\<rparr>)" for n using inv by (simp add: keeps_def ainv_def)
  show ?thesis
    using good bad [OF keeps_refl [OF inv]] bad [OF slow] confirm_key_keeps [OF inv t p] len keeps_refl [OF inv]
    by (auto simp: handle_auth_def x send_auth_publickey_def Let_def)
qed

lemma if_online_keeps:
  assumes "ainv w" and "t \<in> dom (trans w)"
    and "safe_res (\<lambda>st. sinv st \<and> jdwp_pids st = jdwp_pids (ws w)) (f (ws w))"
  shows "safe_res (keeps w) (if_online t f w)"
  using tget_dom [OF assms(2)] on_socks_keeps' [where f = f, OF assms(1,3)] keeps_refl [OF assms(1)]
  by (auto simp: if_online_def)

text \<open>
  What a packet has to satisfy to be handled without a fault, besides having passed the
  checks of the link layer.
\<close>

definition acceptable :: "apacket \<Rightarrow> adbd \<Rightarrow> bool" where
  "acceptable p w \<longleftrightarrow>
     (command (msg p) = A_CNXN \<longrightarrow> 0 \<in> set (data p)) \<and>
     (command (msg p) = A_AUTH \<and> arg0 (msg p) = ADB_AUTH_RSAPUBLICKEY \<longrightarrow>
        data_length (msg p) \<noteq> 0 \<or> framework_fd w < 0)"

lemma handle_packet_keeps:
  assumes inv: "ainv w" and env: "env_ok env" and t: "t \<in> dom (trans w)" and p: "arrived p" "acceptable p w"
  shows "safe_res (keeps w) (handle_packet env RSA_verify p t w)"
proof -
  note i = ainvD(2) [OF inv]
  note online = if_online_keeps [OF inv t]
  show ?thesis
    using handle_sync_keeps [OF inv t p(1)] handle_cnxn_keeps [OF inv t] handle_auth_keeps [OF inv t p(1)]
      handle_open_keeps [OF inv env t p(1)] online [of "handle_okay p t", OF handle_okay_ok [OF i]]
      online [of "handle_clse p", OF handle_clse_ok [OF i]]
      online [of "handle_wrte p t", OF handle_wrte_ok [OF i p(1)]] keeps_refl [OF inv] p(2)
    by (simp add: handle_packet_def Let_def acceptable_def)
qed

text \<open>The packets of a transport, in the order in which they arrive, each with the services' answers.\<close>

fun handle_packets :: "rsa_verify \<Rightarrow> (svc_env \<times> apacket) list \<Rightarrow> nat \<Rightarrow> adbd \<Rightarrow> adbd res" where
  "handle_packets RSA_verify [] t w = Inr w"
| "handle_packets RSA_verify ((env, p) # ps) t w =
     seq (handle_packet env RSA_verify p t w) (handle_packets RSA_verify ps t)"

section \<open>Who comes online\<close>

definition is_online :: "nat \<Rightarrow> adbd \<Rightarrow> bool" where
  "is_online t w = (case trans w t of None \<Rightarrow> False | Some x \<Rightarrow> online x)"

section \<open>The handshake\<close>

lemma send_connect_eq:
  assumes f: "length (fresh (ws w)) = MAX_PAYLOAD" and len: "length (connect_data (device_banner w)) < MAX_PAYLOAD"
    and ok: "pipe_ok (ws w) t"
  shows "\<exists>cp. send_connect t w = Inr (set_ws (emit (Sent t cp) (ws w)) w) \<and> sealed cp \<and>
    command (msg cp) = A_CNXN \<and> arg0 (msg cp) = A_VERSION \<and>
    payload cp = connect_data (device_banner w) @ [0]"
proof -
  let ?bs = "connect_data (device_banner w) @ [0]"
  define cp where "cp = command_packet A_CNXN A_VERSION (of_nat MAX_PAYLOAD) (ws w)"
  define d where "d = ?bs @ drop (length ?bs) (data cp)"
  define cq where "cq = cp\<lparr>msg := (msg cp)\<lparr>data_length := of_nat (length ?bs)\<rparr>, data := d\<rparr>"
  have dl: "length (data cp) = MAX_PAYLOAD" using f by (simp add: cp_def command_packet_ok)
  have u: "unat (of_nat (length ?bs) :: u32) = length ?bs"
    by (rule unat_u32) (use len in \<open>simp add: MAX_PAYLOAD_def\<close>)
  have wf: "wf_packet cq" "unat (data_length (msg cq)) \<le> MAX_PAYLOAD"
    using len dl u by (simp_all add: cq_def wf_packet_def d_def)
  have pl: "payload cq = ?bs" using u by (simp add: payload_def cq_def d_def)
  have cm: "command (msg cq) = A_CNXN" "arg0 (msg cq) = A_VERSION"
    by (simp_all add: cq_def cp_def command_packet_def Let_def)
  from packet_seal_sealed [OF wf] obtain q where q: "packet_seal cq = Inr q" "sealed q" "payload q = payload cq"
    "command (msg q) = command (msg cq)" "arg0 (msg q) = arg0 (msg cq)" by blast
  have "fill_connect_data (device_banner w) (data cp) = Inr (d, length ?bs)"
    using len dl by (simp add: fill_connect_data_def blit_def Let_def d_def)
  then have "send_connect t w = on_socks (send_packet cq (Some t)) w"
    unfolding send_connect_def cp_def [symmetric] cq_def by (simp add: Let_def)
  also have "\<dots> = Inr (set_ws (emit (Sent t q) (ws w)) w)"
    using q(1) ok by (simp add: on_socks_def send_packet_def)
  finally show ?thesis using q pl cm by auto
qed

lemma takeWhile_until: "c \<notin> set xs \<Longrightarrow> takeWhile (\<lambda>b. b \<noteq> c) (xs @ c # ys) = xs"
  by (induction xs) auto

lemma dropWhile_until: "c \<notin> set xs \<Longrightarrow> dropWhile (\<lambda>b. b \<noteq> c) (xs @ c # ys) = c # ys"
  by (induction xs) auto

lemma connect_data_props:
  assumes "58 \<notin> set b"
  shows "banner_props (connect_data b) = [bytes_of_str ''ro.product.name=occam'',
    bytes_of_str ''ro.product.model=Nexus 4'', bytes_of_str ''ro.product.device=mako'']"
proof -
  let ?r = "bytes_of_str ''ro.product.name=occam;ro.product.model=Nexus 4;ro.product.device=mako;''"
  have e: "connect_data b = b @ 58 # 58 # ?r" by (simp add: connect_data_def bytes_of_str_def)
  have "tokens 59 ?r = [bytes_of_str ''ro.product.name=occam'',
    bytes_of_str ''ro.product.model=Nexus 4'', bytes_of_str ''ro.product.device=mako'']"
    by (simp add: bytes_of_str_def tokens_def)
  then show ?thesis
    using assms by (simp add: e banner_props_def dropWhile_until)
qed

text \<open>
  C17: The handshake. When a host connects to a daemon that does not ask for a key, the
  daemon goes online and answers with one packet, correctly sealed; and the banner in
  it, read by the banner parser, yields the state the banner names and the three product
  properties the daemon has put there.
\<close>

theorem handshake_roundtrip:
  assumes "ainv w" and "\<not> auth_enabled w" and "pipe_ok (ws w) t"
    and "trans w t = Some x" and "connection_state x = CS_OFFLINE" and "c_string (data p) = Some s"
    and "58 \<notin> set (device_banner w)" and "0 \<notin> set (device_banner w)" and "trans v u = Some y"
  shows "\<exists>w' cp v'. handle_cnxn p t w = Inr w' \<and> is_online t w' \<and> sealed cp \<and> command (msg cp) = A_CNXN \<and>
    effects (ws w') = effects (ws w) @ [Sent t cp] \<and>
    parse_banner (payload cp) u v = Inr v' \<and>
    trans v' u = Some (y\<lparr>product := Some (bytes_of_str ''occam''), tmodel := Some (bytes_of_str ''Nexus 4''),
      device := Some (bytes_of_str ''mako''), connection_state := banner_state (device_banner w)\<rparr>)"
proof -
  note D = ainvD [OF assms(1)]
  let ?cs = "banner_state (takeWhile (\<lambda>b. b \<noteq> 58) s)"
  define w1 where "w1 = set_ws ((ws w)\<lparr>offline := (offline (ws w))(t := (?cs = CS_OFFLINE))\<rparr>)
    (w\<lparr>trans := (trans w)(t := Some ((fold set_qual (banner_props s) x)\<lparr>connection_state := ?cs\<rparr>))\<rparr>)"
  define w2 where "w2 = w1\<lparr>trans := (trans w1)(t := Some ((fold set_qual (banner_props s) x)
    \<lparr>connection_state := ?cs, online := True\<rparr>))\<rparr>"
  have e1: "parse_banner (data p) t w = Inr w1"
    using assms(4,6) by (simp add: parse_banner_def tupd_def tget_def set_state_def w1_def ws_def set_ws_def)
  have e2: "handle_online t w1 = Inr w2"
    by (simp add: handle_online_def tupd_def tget_def w2_def) (simp add: w1_def)
  have same: "device_banner w2 = device_banner w" "auth_enabled w1 = auth_enabled w"
    "ws w2 = (ws w)\<lparr>offline := (offline (ws w))(t := (?cs = CS_OFFLINE))\<rparr>"
    by (simp_all add: w2_def w1_def ws_def set_ws_def)
  have "length (fresh (ws w2)) = MAX_PAYLOAD" "length (connect_data (device_banner w2)) < MAX_PAYLOAD" "pipe_ok (ws w2) t"
    using sinvD(9) [OF D(2)] D(5) assms(3) by (simp_all add: same)
  from send_connect_eq [OF this] obtain cp where cp: "send_connect t w2 = Inr (set_ws (emit (Sent t cp) (ws w2)) w2)"
    "sealed cp" "command (msg cp) = A_CNXN" "payload cp = connect_data (device_banner w) @ [0]"
    by (auto simp: same)
  have h: "handle_cnxn p t w = Inr (set_ws (emit (Sent t cp) (ws w2)) w2)"
    using assms(2,4,5) e1 e2 cp(1) by (simp add: handle_cnxn_def tget_def same)
  have on: "is_online t (set_ws (emit (Sent t cp) (ws w2)) w2)" by (simp add: is_online_def w2_def)
  have eff: "effects (ws (set_ws (emit (Sent t cp) (ws w2)) w2)) = effects (ws w) @ [Sent t cp]"
    by (simp add: same emit_def)
  have nz: "0 \<notin> set (connect_data (device_banner w))"
    using assms(8) by (simp add: connect_data_def bytes_of_str_def)
  have cs: "c_string (payload cp) = Some (connect_data (device_banner w))"
    using takeWhile_until [OF nz, of "[]"] by (simp add: c_string_def cp(4))
  have tw: "takeWhile (\<lambda>b. b \<noteq> 58) (connect_data (device_banner w)) = device_banner w"
    using takeWhile_until [OF assms(7)] by (simp add: connect_data_def bytes_of_str_def)
  have fq: "fold set_qual (banner_props (connect_data (device_banner w))) y =
      y\<lparr>product := Some (bytes_of_str ''occam''), tmodel := Some (bytes_of_str ''Nexus 4''),
        device := Some (bytes_of_str ''mako'')\<rparr>"
    by (simp add: connect_data_props [OF assms(7)] set_qual_def qual_overwrite_def bytes_of_str_def Let_def)
  have "\<exists>v'. parse_banner (payload cp) u v = Inr v' \<and>
    trans v' u = Some (y\<lparr>product := Some (bytes_of_str ''occam''), tmodel := Some (bytes_of_str ''Nexus 4''),
      device := Some (bytes_of_str ''mako''), connection_state := banner_state (device_banner w)\<rparr>)"
    using assms(9) by (simp add: parse_banner_def cs tw fq tupd_def tget_def set_state_def ws_def set_ws_def)
  with h on cp(2,3) eff show ?thesis by blast
qed

section \<open>An example\<close>

definition demo_transport :: atransport where
  "demo_transport = \<lparr>fd_read = -1, fd_write = -1, transport_read = -1, transport_write = -1, ref_count = 0,
     sync_token = 1, connection_state = CS_OFFLINE, online = False, ttype = kTransportUsb, usb = Some 3, tsfd = -1,
     serial = None, product = None, tmodel = None, device = None, devpath = None, adb_port = 0, kicked = False,
     token = replicate TOKEN_SIZE 0, auth_fde = None, failed_auth_attempts = 0\<rparr>"

definition demo_adbd :: adbd where
  "demo_adbd = \<lparr>vw = demo_vworld, trans = [0 \<mapsto> demo_transport], transport_list = [0], next_trans = 1, reg_pipe = [], reg_ok = True,
     auth_enabled = False, device_banner = bytes_of_str ''device'', framework_fd = 5, key_list = [[1]],
     urandom = [], fw_write_ok = True, slept_ms = 0\<rparr>"

lemma demo_ainv: "ainv demo_adbd" "ainv (demo_adbd\<lparr>auth_enabled := True\<rparr>)"
  by (simp_all add: ainv_def demo_adbd_def demo_env_ok demo_transport_def connect_data_def bytes_of_str_def
      MAX_PAYLOAD_def)

definition demo_packet :: "u32 \<Rightarrow> u32 \<Rightarrow> nat \<Rightarrow> byte list \<Rightarrow> apacket" where
  "demo_packet c a0 len d = \<lparr>pkt_len = 0, pkt_ptr = 0,
     msg = \<lparr>command = c, arg0 = a0, arg1 = 0, data_length = of_nat len, data_check = 0, magic = 0\<rparr>, data = d\<rparr>"

lemma demo_ws: "pipe_ok (ws demo_adbd) t" "trans demo_adbd 0 = Some demo_transport"
  by (simp_all add: ws_def demo_adbd_def demo_vworld_def demo_jworld_def demo_world_def start_world_def)

theorem handshake_roundtrip_witness:
  "\<exists>w' cp. handle_cnxn (demo_packet A_CNXN 0 7 (bytes_of_str ''host::'' @ [0])) 0 demo_adbd = Inr w' \<and>
     is_online 0 w' \<and> effects (ws w') = effects (ws demo_adbd) @ [Sent 0 cp] \<and> sealed cp"
proof -
  have "c_string (data (demo_packet A_CNXN 0 7 (bytes_of_str ''host::'' @ [0]))) = Some (bytes_of_str ''host::'')"
    by (simp add: demo_packet_def c_string_def bytes_of_str_def)
  from handshake_roundtrip [OF demo_ainv(1) _ demo_ws _ this _ _ demo_ws(2)] show ?thesis
    by (auto simp: demo_adbd_def demo_transport_def bytes_of_str_def)
qed

section \<open>Properties\<close>

text \<open>
  C1: Whatever packets arrive on a transport, in whatever order, and whatever the services
  answer, the daemon handles them without a fault and its invariant (every socket with
  its peer, its lists and its queue in order, every list of processes and of transports) holds
  afterwards. Packets that passed the checks of the link layer are assumed, a connection
  banner that is terminated, and a public key that is not empty.
\<close>

theorem packets_safe:
  assumes "ainv w" and "t \<in> dom (trans w)"
    and "\<forall>(env, p) \<in> set ps. env_ok env \<and> arrived p \<and> (command (msg p) = A_CNXN \<longrightarrow> 0 \<in> set (data p)) \<and>
      (command (msg p) = A_AUTH \<and> arg0 (msg p) = ADB_AUTH_RSAPUBLICKEY \<longrightarrow> data_length (msg p) \<noteq> 0)"
  shows "safe_res (\<lambda>w'. ainv w' \<and> dom (trans w') = dom (trans w)) (handle_packets RSA_verify ps t w)"
  using assms
proof (induction ps arbitrary: w)
  case Nil
  then show ?case by simp
next
  case (Cons e ps)
  obtain env p where [simp]: "e = (env, p)" by (cases e)
  have a: "env_ok env" "arrived p" "acceptable p w" using Cons.prems(3) by (auto simp: acceptable_def)
  have "safe_res (\<lambda>w'. ainv w' \<and> dom (trans w') = dom (trans w)) (handle_packets RSA_verify ps t w1)"
    if k: "keeps w w1" for w1
  proof -
    have "safe_res (\<lambda>w'. ainv w' \<and> dom (trans w') = dom (trans w1)) (handle_packets RSA_verify ps t w1)"
      by (rule Cons.IH) (use Cons.prems keepsD [OF k] in auto)
    then show ?thesis using k by (simp add: keeps_def)
  qed
  from safe_res_seq [OF handle_packet_keeps [OF Cons.prems(1) a(1) Cons.prems(2) a(2,3)] this]
  show ?case by simp
qed

theorem packets_safe_witness:
  "safe_res (\<lambda>w'. ainv w' \<and> dom (trans w') = dom (trans demo_adbd)) (handle_packets (\<lambda>_ _ _. False)
     [(demo_env, demo_packet A_CNXN 0 7 (replicate MAX_PAYLOAD 0)),
      (demo_env, demo_packet A_OPEN 9 7 (bytes_of_str ''jdwp'' @ replicate 4092 0)),
      (demo_env, demo_packet A_WRTE 9 4096 (replicate MAX_PAYLOAD 7))] 0 demo_adbd)"
  by (rule packets_safe [OF demo_ainv(1)])
    (simp_all add: demo_ws dom_def demo_env_ok demo_packet_def arrived_def wf_packet_def MAX_PAYLOAD_def
      bytes_of_str_def, auto simp: command_defs)

text \<open>
  C36: The two packets that are excluded above do make the daemon read outside the payload:
  a connection banner without a zero byte, which the string functions of the banner parser run past,
  and an empty public key while the framework is connected, whose last byte is read at
  index minus one. Neither is stopped by the checks of the link layer.
\<close>

theorem unchecked_payloads_fault:
  assumes "trans w t = Some x"
  shows "(connection_state x = CS_OFFLINE \<and> command (msg p) = A_CNXN \<and> 0 \<notin> set (data p) \<longrightarrow>
      handle_packet env RSA_verify p t w = Inl (Fault OutOfBounds)) \<and>
    (command (msg p) = A_AUTH \<and> arg0 (msg p) = ADB_AUTH_RSAPUBLICKEY \<and> data_length (msg p) = 0 \<and> framework_fd w \<ge> 0 \<longrightarrow>
      handle_packet env RSA_verify p t w = Inl (Fault OutOfBounds))"
proof -
  have "A_CNXN \<noteq> A_SYNC" "A_AUTH \<noteq> A_SYNC" "A_AUTH \<noteq> A_CNXN" by (simp_all add: command_defs)
  moreover have "ADB_AUTH_RSAPUBLICKEY \<noteq> ADB_AUTH_TOKEN" "ADB_AUTH_RSAPUBLICKEY \<noteq> ADB_AUTH_SIGNATURE"
    by (simp_all add: ADB_AUTH_RSAPUBLICKEY_def ADB_AUTH_TOKEN_def ADB_AUTH_SIGNATURE_def)
  ultimately show ?thesis
    using assms by (simp add: handle_packet_def Let_def handle_cnxn_def parse_banner_def c_string_def tget_def
        handle_auth_def adb_auth_confirm_key_def)
qed

theorem unchecked_payloads_fault_witness:
  "handle_packet demo_env (\<lambda>_ _ _. False) (demo_packet A_CNXN 0 4096 (replicate 4096 65)) 0 demo_adbd =
     Inl (Fault OutOfBounds) \<and>
   handle_packet demo_env (\<lambda>_ _ _. False) (demo_packet A_AUTH ADB_AUTH_RSAPUBLICKEY 0 (replicate 4096 0)) 0 demo_adbd =
     Inl (Fault OutOfBounds)"
  using unchecked_payloads_fault [OF demo_ws(2), of "demo_packet A_CNXN 0 4096 (replicate 4096 65)" demo_env]
    unchecked_payloads_fault [OF demo_ws(2), of "demo_packet A_AUTH ADB_AUTH_RSAPUBLICKEY 0 (replicate 4096 0)" demo_env]
  by (simp add: demo_packet_def demo_transport_def) (simp add: demo_adbd_def)

end
