(* ===== verification/Auth_Runs.thy ===== *)
theory Auth_Runs
  imports Adb_Safety
begin

text \<open>
  Who comes online when authentication is enabled. \<open>handle_online\<close> is called in two ways: by a packet of the host
  (\<open>handle_packet\<close> in \<open>src/adb.c\<close>) and by the answer of the framework, which asks the user (\<open>adb_auth_event\<close> in
  \<open>src/adb_auth_client.c\<close>). A run of the daemon is any sequence of packets of all transports, answers on the events that
  are installed, and new connections of the framework.

  The sources set \<open>auth_enabled\<close> to 0, where it is defined and again in \<open>adb_main\<close> (\<open>src/adb.c\<close>), so the daemon as it is built
  never asks for a key; what is shown here is what the code does for the other value.
\<close>

section \<open>Flags of a transport\<close>

definition flag :: "(atransport \<Rightarrow> bool) \<Rightarrow> nat \<Rightarrow> adbd \<Rightarrow> bool" where
  "flag g t w = (case trans w t of None \<Rightarrow> False | Some x \<Rightarrow> g x)"

lemma is_online_flag: "is_online = flag online"
  by (simp add: fun_eq_iff is_online_def flag_def)

lemma on_socks_trans: "on_socks f w = Inr w' \<Longrightarrow> trans w' = trans w"
  by (auto simp: on_socks_def seq_eq_Inr)

lemma flag_cong: "trans w' = trans w \<Longrightarrow> flag g u w' = flag g u w"
  by (simp add: flag_def)

lemma on_socks_flag: "on_socks f w = Inr w' \<Longrightarrow> flag g u w' = flag g u w"
  by (rule flag_cong [OF on_socks_trans])

lemma tupd_flag:
  assumes "tupd t f w = Inr w'" and "\<And>x. g (f x) \<Longrightarrow> g x" and "flag g u w'"
  shows "flag g u w"
proof -
  from assms(1) obtain x where x: "trans w t = Some x" "w' = w\<lparr>trans := (trans w)(t := Some (f x))\<rparr>"
    by (auto simp: tupd_def seq_eq_Inr tget_def split: option.splits)
  show ?thesis using assms(2) [of x] assms(3) unfolding x(2) flag_def by (cases "u = t") (auto simp: x(1))
qed

lemma auth_kept:
  "tupd t f w = Inr w' \<Longrightarrow> auth_enabled w' = auth_enabled w"
  "on_socks h w = Inr w' \<Longrightarrow> auth_enabled w' = auth_enabled w"
  "set_state t cs w = Inr w' \<Longrightarrow> auth_enabled w' = auth_enabled w"
  by (auto simp: tupd_def on_socks_def set_state_def seq_eq_Inr)

text \<open>
  A flag that none of the changes sets which a transport goes through before it is accepted: going offline, a new challenge, a
  failed attempt, the properties of the banner.
\<close>

locale transport_flag =
  fixes g :: "atransport \<Rightarrow> bool"
  assumes not_by_state: "g (x\<lparr>connection_state := cs\<rparr>) \<Longrightarrow> g x"
    and not_by_offline: "g (x\<lparr>online := False\<rparr>) \<Longrightarrow> g x"
    and not_by_token: "g (x\<lparr>token := bs\<rparr>) \<Longrightarrow> g x"
    and not_by_attempt: "g (x\<lparr>failed_auth_attempts := n\<rparr>) \<Longrightarrow> g x"
    and not_by_qual: "g (set_qual k x) \<Longrightarrow> g x"
begin

lemma set_state_flag:
  assumes "set_state t cs w = Inr w'" and "flag g u w'"
  shows "flag g u w"
proof -
  from assms(1) obtain w1 where u: "tupd t (\<lambda>x. x\<lparr>connection_state := cs\<rparr>) w = Inr w1" and e: "trans w' = trans w1"
    by (auto simp: set_state_def seq_eq_Inr)
  have f: "flag g u w1" using assms(2) flag_cong [OF e] by blast
  show ?thesis by (rule tupd_flag [OF u _ f]) (erule not_by_state)
qed

lemma handle_offline_flag:
  assumes "handle_offline t w = Inr w'" and "flag g u w'"
  shows "flag g u w"
proof -
  from assms(1) obtain w1 where u: "tupd t (\<lambda>x. x\<lparr>online := False\<rparr>) w = Inr w1" and e: "trans w' = trans w1"
    by (auto simp: handle_offline_def seq_eq_Inr dest: on_socks_trans)
  have f: "flag g u w1" using assms(2) flag_cong [OF e] by blast
  show ?thesis by (rule tupd_flag [OF u _ f]) (erule not_by_offline)
qed

lemma send_auth_request_flag:
  assumes "send_auth_request t w = Inr w'" and "flag g u w'"
  shows "flag g u w"
proof -
  from assms(1) obtain ok w1 where k: "adb_auth_generate_token t w = Inr (ok, w1)" and e: "trans w' = trans w1"
    by (auto simp: send_auth_request_def seq_eq_Inr Let_def split: if_splits dest: on_socks_trans)
  have f: "flag g u w1" using assms(2) flag_cong [OF e] by blast
  consider "trans w1 = trans w" | bs k where "tupd t (\<lambda>x. x\<lparr>token := bs\<rparr>) (w\<lparr>urandom := k\<rparr>) = Inr w1"
    using k by (auto simp: adb_auth_generate_token_def seq_eq_Inr split: list.splits option.splits)
  then show ?thesis
  proof cases
    case 1
    then show ?thesis using f flag_cong by blast
  next
    case 2
    have "flag g u (w\<lparr>urandom := k\<rparr>)" by (rule tupd_flag [OF 2 _ f]) (erule not_by_token)
    then show ?thesis by (simp add: flag_def)
  qed
qed

lemma parse_banner_flag:
  assumes "parse_banner d t w = Inr w'" and "flag g u w'"
  shows "flag g u w"
proof -
  from assms(1) obtain b w1 where u: "tupd t (\<lambda>x. fold set_qual (banner_props b) x) w = Inr w1"
    and s: "set_state t (banner_state (takeWhile (\<lambda>b. b \<noteq> 58) b)) w1 = Inr w'"
    by (auto simp: parse_banner_def seq_eq_Inr split: option.splits)
  have q: "g (fold set_qual qs x) \<Longrightarrow> g x" for qs x
    by (induction qs arbitrary: x) (auto dest: not_by_qual)
  show ?thesis by (rule tupd_flag [OF u _ set_state_flag [OF s assms(2)]]) (erule q)
qed

lemma handle_cnxn_flag:
  assumes "handle_cnxn p t w = Inr w'" and "auth_enabled w" and "flag g u w'"
  shows "flag g u w"
proof -
  from assms(1) obtain x w1 w2 where x: "tget t w = Inr x"
    and w1: "(if connection_state x \<noteq> CS_OFFLINE then seq (set_state t CS_OFFLINE w) (handle_offline t) else Inr w) = Inr w1"
    and w2: "parse_banner (data p) t w1 = Inr w2"
    and w': "(if \<not> auth_enabled w2 then seq (handle_online t w2) (send_connect t) else send_auth_request t w2) = Inr w'"
    by (auto simp: handle_cnxn_def seq_eq_Inr)
  have "auth_enabled w1 = auth_enabled w"
    using w1 by (auto simp: seq_eq_Inr handle_offline_def split: if_splits dest!: auth_kept)
  moreover have "auth_enabled w2 = auth_enabled w1"
    using w2 by (auto simp: parse_banner_def seq_eq_Inr split: option.splits dest!: auth_kept)
  ultimately have "send_auth_request t w2 = Inr w'" using w' assms(2) by simp
  then have "flag g u w1"
    using send_auth_request_flag assms(3) parse_banner_flag [OF w2] by blast
  then show ?thesis
    using w1 by (auto simp: seq_eq_Inr split: if_splits dest: handle_offline_flag set_state_flag)
qed

text \<open>Only an authentication packet may set such a flag.\<close>

lemma packet_flag:
  assumes e: "handle_packet env RSA_verify p t w = Inr w'" and "auth_enabled w"
    and on: "flag g u w'" and off: "\<not> flag g u w"
  shows "command (msg p) = A_AUTH \<and> handle_auth RSA_verify p t w = Inr w'"
proof -
  have sync: "flag g u w" if "handle_sync p t w = Inr w'"
    using that on by (auto simp: handle_sync_def seq_eq_Inr split: if_splits
        dest!: on_socks_flag dest: handle_offline_flag set_state_flag)
  have iff: "flag g u w" if "if_online t f w = Inr w'" for f
    using that on by (auto simp: if_online_def seq_eq_Inr split: if_splits dest!: on_socks_flag)
  have opn: "flag g u w" if o: "handle_open env p t w = Inr w'"
  proof -
    from o have "w' = w \<or> (\<exists>f v. on_socks f (w\<lparr>vw := v\<rparr>) = Inr w')"
      unfolding handle_open_def by (auto simp: seq_eq_Inr Let_def split: if_splits option.splits)
    then show ?thesis using on by (auto dest!: on_socks_flag simp: flag_def)
  qed
  show ?thesis
    using assms sync iff opn handle_cnxn_flag [of p t w w' u]
    by (auto simp: handle_packet_def Let_def split: if_splits)
qed

lemma failed_attempt_flag:
  assumes "tupd t (\<lambda>x. x\<lparr>failed_auth_attempts := failed_auth_attempts x + 1\<rparr>) w = Inr w1" and "send_auth_request t w1 = Inr w'"
    and "flag g u w'"
  shows "flag g u w"
  by (rule tupd_flag [OF assms(1) _ send_auth_request_flag [OF assms(2,3)]]) (erule not_by_attempt)

end

definition watched :: "atransport \<Rightarrow> bool" where "watched x \<longleftrightarrow> auth_fde x \<noteq> None"

lemma set_qual_flags [simp]: "online (set_qual k x) = online x" "auth_fde (set_qual k x) = auth_fde x"
  by (auto simp: set_qual_def Let_def)

interpretation onl: transport_flag online
  by unfold_locales auto

interpretation wat: transport_flag watched
  by unfold_locales (auto simp: watched_def)

section \<open>The authentication packets\<close>

lemma verified_trans:
  assumes "adb_auth_verified t w = Inr w'"
  obtains x where "trans w t = Some x" "trans w' = (trans w)(t := Some (x\<lparr>online := True\<rparr>))" "auth_enabled w' = auth_enabled w"
proof -
  from assms obtain w1 where u: "tupd t (\<lambda>x. x\<lparr>online := True\<rparr>) w = Inr w1" and s: "send_connect t w1 = Inr w'"
    by (auto simp: adb_auth_verified_def handle_online_def seq_eq_Inr)
  from u obtain x where x: "trans w t = Some x" "w1 = w\<lparr>trans := (trans w)(t := Some (x\<lparr>online := True\<rparr>))\<rparr>"
    by (auto simp: tupd_def seq_eq_Inr tget_def split: option.splits)
  have "trans w' = trans w1" "auth_enabled w' = auth_enabled w1"
    using s by (auto simp: send_connect_def seq_eq_Inr Let_def dest: on_socks_trans auth_kept)
  with x that show ?thesis by simp
qed

text \<open>A signature counts only if it has the right length and one of the keys verifies it.\<close>

definition sig_verified :: "rsa_verify \<Rightarrow> apacket \<Rightarrow> nat \<Rightarrow> adbd \<Rightarrow> bool" where
  "sig_verified RSA_verify p t w \<longleftrightarrow> command (msg p) = A_AUTH \<and> arg0 (msg p) = ADB_AUTH_SIGNATURE \<and>
     length (payload p) = RSANUMBYTES \<and>
     (\<exists>x. trans w t = Some x \<and> (\<exists>key \<in> set (key_list w). RSA_verify key (payload p) (token x)))"

text \<open>A key that the framework is asked about.\<close>

definition offers_key :: "apacket \<Rightarrow> bool" where
  "offers_key p \<longleftrightarrow> command (msg p) = A_AUTH \<and> arg0 (msg p) = ADB_AUTH_RSAPUBLICKEY"

lemma confirm_key_trans:
  assumes "adb_auth_confirm_key p t w = Inr w'"
  shows "auth_enabled w' = auth_enabled w \<and> (trans w' = trans w \<or>
    (\<exists>x fd. trans w t = Some x \<and> trans w' = (trans w)(t := Some (x\<lparr>auth_fde := Some fd\<rparr>))))"
proof -
  from assms consider "w' = w"
    | (asked) e e1 e2 w1 w2 where "on_socks (\<lambda>st. Inr (emit e st)) w = Inr w1"
        "tupd t (\<lambda>x. x\<lparr>auth_fde := Some (framework_fd w1)\<rparr>) w1 = Inr w2" "on_socks (\<lambda>st. Inr (emit e2 (emit e1 st))) w2 = Inr w'"
    by (auto simp: adb_auth_confirm_key_def Let_def seq_eq_Inr split: if_splits)
  then show ?thesis
  proof cases
    case asked
    have "trans w1 = trans w" "trans w' = trans w2" using on_socks_trans asked by blast+
    moreover have "auth_enabled w' = auth_enabled w" using asked auth_kept by metis
    ultimately show ?thesis using asked(2) by (auto simp: tupd_def seq_eq_Inr tget_def split: option.splits)
  qed simp
qed

text \<open>The three outcomes of an authentication packet.\<close>

lemma handle_auth_cases:
  assumes e: "handle_auth RSA_verify p t w = Inr w'"
  obtains (nothing) "w' = w"
    | (good) w1 where "adb_auth_verified t w = Inr w1" "tupd t (\<lambda>x. x\<lparr>failed_auth_attempts := 0\<rparr>) w1 = Inr w'"
        "arg0 (msg p) = ADB_AUTH_SIGNATURE" "command (msg p) = A_AUTH \<Longrightarrow> sig_verified RSA_verify p t w"
    | (bad) w0 w1 where "trans w0 = trans w" "auth_enabled w0 = auth_enabled w"
        "tupd t (\<lambda>x. x\<lparr>failed_auth_attempts := failed_auth_attempts x + 1\<rparr>) w0 = Inr w1" "send_auth_request t w1 = Inr w'"
    | (key) "arg0 (msg p) = ADB_AUTH_RSAPUBLICKEY" "adb_auth_confirm_key p t w = Inr w'"
proof -
  have ne: "ADB_AUTH_SIGNATURE \<noteq> ADB_AUTH_TOKEN" "ADB_AUTH_RSAPUBLICKEY \<noteq> ADB_AUTH_TOKEN"
    by (simp_all add: ADB_AUTH_SIGNATURE_def ADB_AUTH_TOKEN_def ADB_AUTH_RSAPUBLICKEY_def)
  consider "arg0 (msg p) = ADB_AUTH_SIGNATURE" | "arg0 (msg p) = ADB_AUTH_RSAPUBLICKEY" "arg0 (msg p) \<noteq> ADB_AUTH_SIGNATURE"
    | "arg0 (msg p) \<noteq> ADB_AUTH_SIGNATURE" "arg0 (msg p) \<noteq> ADB_AUTH_RSAPUBLICKEY" by blast
  then show thesis
  proof cases
    case 1
    with e ne obtain x where x: "trans w t = Some x" "tget t w = Inr x"
      by (auto simp: handle_auth_def seq_eq_Inr tget_def split: option.splits)
    show thesis
    proof (cases "adb_auth_verify RSA_verify (key_list w) (token x) (payload p)")
      case True
      with e 1 ne x obtain w1 where "adb_auth_verified t w = Inr w1"
        "tupd t (\<lambda>x. x\<lparr>failed_auth_attempts := 0\<rparr>) w1 = Inr w'" by (auto simp: handle_auth_def seq_eq_Inr)
      with True 1 x show thesis
        by (intro good) (auto simp: sig_verified_def adb_auth_verify_def verify_from_iff split: if_splits)
    next
      case False
      let ?w = "if failed_auth_attempts x > 10 then w\<lparr>slept_ms := slept_ms w + 1000\<rparr> else w"
      from e 1 ne x False obtain w1 where
        "tupd t (\<lambda>x. x\<lparr>failed_auth_attempts := failed_auth_attempts x + 1\<rparr>) ?w = Inr w1" "send_auth_request t w1 = Inr w'"
        by (auto simp: handle_auth_def seq_eq_Inr Let_def)
      then show thesis by (intro bad) auto
    qed
  next
    case 2
    with e ne key show thesis by (simp add: handle_auth_def)
  next
    case 3
    with e have "w' = w" by (auto simp: handle_auth_def send_auth_publickey_def split: if_splits)
    then show thesis by (rule nothing)
  qed
qed

lemma handle_auth_online:
  assumes e: "handle_auth RSA_verify p t w = Inr w'" and c: "command (msg p) = A_AUTH"
    and on: "is_online u w'" and off: "\<not> is_online u w"
  shows "u = t \<and> sig_verified RSA_verify p t w"
  using e
proof (cases rule: handle_auth_cases)
  case nothing
  with on off show ?thesis by simp
next
  case (good w1)
  have "is_online u w1" using tupd_flag [OF good(2), of online] on by (simp add: is_online_flag)
  with off have "u = t" by (rule_tac verified_trans [OF good(1)]) (auto simp: is_online_def split: if_splits)
  with good(4) c show ?thesis by simp
next
  case (bad w0 w1)
  with onl.failed_attempt_flag [OF bad(3,4)] on off flag_cong [OF bad(1)] show ?thesis by (simp add: is_online_flag)
next
  case key
  from confirm_key_trans [OF key(2)] on off show ?thesis
    by (auto simp: is_online_def split: if_splits option.splits)
qed

lemma handle_auth_watched:
  assumes e: "handle_auth RSA_verify p t w = Inr w'" and on: "flag watched u w'" and off: "\<not> flag watched u w"
  shows "u = t \<and> arg0 (msg p) = ADB_AUTH_RSAPUBLICKEY"
  using e
proof (cases rule: handle_auth_cases)
  case nothing
  with on off show ?thesis by simp
next
  case (good w1)
  have "flag watched u w1" using tupd_flag [OF good(2), of watched] on by (simp add: watched_def)
  with off show ?thesis
    by (rule_tac verified_trans [OF good(1)]) (auto simp: flag_def watched_def split: if_splits option.splits)
next
  case (bad w0 w1)
  with wat.failed_attempt_flag [OF bad(3,4) on] off flag_cong [OF bad(1)] show ?thesis by simp
next
  case key
  from confirm_key_trans [OF key(2)] on off have "u = t" by (auto simp: flag_def split: if_splits option.splits)
  with key(1) show ?thesis by simp
qed

section \<open>Runs\<close>

text \<open>What happened, in order: a packet with the state it met, an answer of the framework, a connection of the framework.\<close>

datatype auth_event = FromHost nat apacket adbd | FromFramework nat "byte list sysret" | FrameworkConnects

text \<open>\<open>adb_auth_event\<close> is only called for a transport whose event is installed.\<close>

inductive auth_run :: "rsa_verify \<Rightarrow> adbd \<Rightarrow> auth_event list \<Rightarrow> adbd \<Rightarrow> bool" for V w0 where
  run_start: "auth_run V w0 [] w0"
| run_packet: "auth_run V w0 es w \<Longrightarrow> handle_packet env V p t w = Inr w' \<Longrightarrow> auth_run V w0 (es @ [FromHost t p w]) w'"
| run_answer: "auth_run V w0 es w \<Longrightarrow> flag watched t w \<Longrightarrow> adb_auth_event ev r files t w = Inr w' \<Longrightarrow>
    auth_run V w0 (es @ [FromFramework t r]) w'"
| run_listen: "auth_run V w0 es w \<Longrightarrow> auth_run V w0 (es @ [FrameworkConnects]) (adb_auth_listener c w)"

lemma auth_event_cases:
  assumes "adb_auth_event ev r files t w = Inr w'"
  obtains (nothing) "trans w' = trans w" "auth_enabled w' = auth_enabled w"
    | (gone) x where "trans w t = Some x" "trans w' = (trans w)(t := Some (x\<lparr>auth_fde := None\<rparr>))" "auth_enabled w' = auth_enabled w"
    | (ok) x where "r = Got (bytes_of_str ''OK'')" "trans w t = Some x" "trans w' = (trans w)(t := Some (x\<lparr>online := True\<rparr>))"
        "auth_enabled w' = auth_enabled w"
proof (cases "ev AND FDE_READ = 0")
  case True
  with assms have e: "w' = w" by (simp add: adb_auth_event_def)
  show thesis by (rule nothing) (simp_all add: e)
next
  case ev: False
  show thesis
  proof (cases r)
    case (Got bs)
    show thesis
    proof (cases "bs = bytes_of_str ''OK''")
      case True
      with assms ev Got obtain keys where "adb_auth_verified t (w\<lparr>key_list := keys\<rparr>) = Inr w'"
        by (auto simp: adb_auth_event_def seq_eq_Inr)
      from verified_trans [OF this] ok True Got show thesis by auto
    next
      case False
      with assms ev Got have e: "w' = w" by (simp add: adb_auth_event_def)
      show thesis by (rule nothing) (simp_all add: e)
    qed
  next
    case (Failed e)
    with assms ev obtain w1 f where w1: "tupd t (\<lambda>x. x\<lparr>auth_fde := None\<rparr>) w = Inr w1" "on_socks f (w1\<lparr>framework_fd := -1\<rparr>) = Inr w'"
      by (auto simp: adb_auth_event_def seq_eq_Inr)
    then have "trans w' = trans w1" "auth_enabled w' = auth_enabled w1" using on_socks_trans auth_kept(2) by fastforce+
    with w1(1) gone show thesis by (auto simp: tupd_def seq_eq_Inr tget_def split: option.splits)
  qed
qed

lemma send_auth_request_auth: "send_auth_request t w = Inr w' \<Longrightarrow> auth_enabled w' = auth_enabled w"
  by (auto simp: send_auth_request_def adb_auth_generate_token_def seq_eq_Inr Let_def
      split: if_splits list.splits option.splits dest!: auth_kept)

lemma handle_packet_auth:
  assumes "handle_packet env V p t w = Inr w'"
  shows "auth_enabled w' = auth_enabled w"
proof -
  have off: "handle_offline u v = Inr v' \<Longrightarrow> auth_enabled v' = auth_enabled v" for u v v'
    by (auto simp: handle_offline_def seq_eq_Inr dest!: auth_kept)
  have ban: "parse_banner d u v = Inr v' \<Longrightarrow> auth_enabled v' = auth_enabled v" for d u v v'
    by (auto simp: parse_banner_def seq_eq_Inr split: option.splits dest!: auth_kept)
  have onl: "handle_online u v = Inr v1 \<Longrightarrow> send_connect u v1 = Inr v' \<Longrightarrow> auth_enabled v' = auth_enabled v" for u v v1 v'
    by (auto simp: handle_online_def send_connect_def seq_eq_Inr Let_def dest!: auth_kept)
  have "auth_enabled w' = auth_enabled w" if "handle_sync p t w = Inr w'"
    using that by (auto simp: handle_sync_def seq_eq_Inr split: if_splits dest!: auth_kept off)
  moreover have "auth_enabled w' = auth_enabled w" if "handle_cnxn p t w = Inr w'"
    using that by (auto simp: handle_cnxn_def seq_eq_Inr split: if_splits
        dest!: auth_kept off ban send_auth_request_auth dest: onl)
  moreover have "auth_enabled w' = auth_enabled w" if a: "handle_auth V p t w = Inr w'"
    using a by (cases rule: handle_auth_cases)
      (auto dest!: auth_kept send_auth_request_auth confirm_key_trans elim!: verified_trans)
  moreover have "auth_enabled w' = auth_enabled w" if "handle_open env p t w = Inr w'"
    using that unfolding handle_open_def by (auto simp: seq_eq_Inr Let_def split: if_splits option.splits dest!: auth_kept)
  moreover have "auth_enabled w' = auth_enabled w" if "if_online t f w = Inr w'" for f
    using that by (auto simp: if_online_def seq_eq_Inr split: if_splits dest!: auth_kept)
  ultimately show ?thesis using assms by (auto simp: handle_packet_def Let_def split: if_splits)
qed

lemma run_auth: "auth_run V w0 es w \<Longrightarrow> auth_enabled w = auth_enabled w0"
proof (induction rule: auth_run.induct)
  case (run_answer es w t ev r files w')
  from run_answer.hyps(3) run_answer.IH show ?case by (cases rule: auth_event_cases) simp_all
qed (auto simp: adb_auth_listener_def dest: handle_packet_auth split: sum.split)

lemma run_watched:
  assumes "auth_run V w0 es w" and "auth_enabled w0" and "flag watched u w" and "\<not> flag watched u w0"
  shows "\<exists>p v. FromHost u p v \<in> set es \<and> offers_key p"
  using assms(1,3)
proof (induction rule: auth_run.induct)
  case run_start
  with assms(4) show ?case by simp
next
  case (run_packet es w env p t w')
  show ?case
  proof (cases "flag watched u w")
    case False
    have "auth_enabled w" using run_auth [OF run_packet.hyps(1)] assms(2) by simp
    from wat.packet_flag [OF run_packet.hyps(2) this run_packet.prems False] have a: "command (msg p) = A_AUTH"
      "handle_auth V p t w = Inr w'" by blast+
    from handle_auth_watched [OF a(2) run_packet.prems False] a(1) have "FromHost u p w \<in> set (es @ [FromHost t p w])" "offers_key p"
      by (simp_all add: offers_key_def)
    then show ?thesis by blast
  qed (use run_packet.IH in auto)
next
  case (run_answer es w t ev r files w')
  from run_answer.hyps(3) have "flag watched u w"
    by (cases rule: auth_event_cases) (use run_answer.prems in \<open>auto simp: flag_def watched_def split: if_splits option.splits\<close>)
  then show ?case using run_answer.IH by auto
next
  case (run_listen es w c)
  then have "flag watched u w" by (auto simp: adb_auth_listener_def flag_def split: sum.splits)
  then show ?case using run_listen.IH by auto
qed

text \<open>Why a transport is online.\<close>

definition authorised :: "rsa_verify \<Rightarrow> nat \<Rightarrow> auth_event list \<Rightarrow> bool" where
  "authorised V u es \<longleftrightarrow>
     (\<exists>p v. FromHost u p v \<in> set es \<and> sig_verified V p u v) \<or>
     (\<exists>before later p v. es = before @ FromFramework u (Got (bytes_of_str ''OK'')) # later \<and>
        FromHost u p v \<in> set before \<and> offers_key p)"

lemma authorised_more: "authorised V u es \<Longrightarrow> authorised V u (es @ [e])"
  unfolding authorised_def by (elim disjE exE conjE) (auto, metis append_Cons append_assoc)

text \<open>
  C3: With authentication enabled, a transport comes online in one of two ways. Either a packet of
  this transport carried a signature, of the right length, of the challenge it had been sent, which a key on the list of keys
  at that time verified; or the framework answered \<open>OK\<close> on the event of this transport, after the transport had offered a
  public key. This holds for every run of packets of any transports, answers and connections of the framework in any
  order.
\<close>

theorem online_needs_key:
  assumes "auth_run V w0 es w" and "auth_enabled w0" and "\<forall>t. \<not> flag watched t w0"
    and "is_online u w" and "\<not> is_online u w0"
  shows "authorised V u es"
  using assms(1,4)
proof (induction rule: auth_run.induct)
  case run_start
  with assms(5) show ?case by simp
next
  case (run_packet es w env p t w')
  show ?case
  proof (cases "is_online u w")
    case False
    have "auth_enabled w" using run_auth [OF run_packet.hyps(1)] assms(2) by simp
    from onl.packet_flag [OF run_packet.hyps(2) this] run_packet.prems False
    have "command (msg p) = A_AUTH" "handle_auth V p t w = Inr w'" by (auto simp: is_online_flag)
    from handle_auth_online [OF this(2,1) run_packet.prems False] have "FromHost u p w \<in> set (es @ [FromHost t p w])"
      "sig_verified V p u w" by simp_all
    then show ?thesis unfolding authorised_def by blast
  qed (use run_packet.IH authorised_more in blast)
next
  case (run_answer es w t ev r files w')
  show ?case
  proof (cases "is_online u w")
    case False
    from run_answer.hyps(3) have "u = t \<and> r = Got (bytes_of_str ''OK'')"
      by (cases rule: auth_event_cases) (use run_answer.prems False in \<open>auto simp: is_online_def split: if_splits option.splits\<close>)
    moreover obtain p v where "FromHost t p v \<in> set es" "offers_key p"
      using run_watched [OF run_answer.hyps(1) assms(2) run_answer.hyps(2)] assms(3) by blast
    ultimately show ?thesis unfolding authorised_def by blast
  qed (use run_answer.IH authorised_more in blast)
next
  case (run_listen es w c)
  then have "is_online u w" by (auto simp: adb_auth_listener_def is_online_def split: sum.splits)
  then show ?case using run_listen.IH authorised_more by blast
qed

lemma verified_goes_online:
  assumes "ainv w" and "pipe_ok (ws w) t" and "trans w t = Some x"
  shows "\<exists>w'. adb_auth_verified t w = Inr w' \<and> trans w' t = Some (x\<lparr>online := True\<rparr>)"
proof -
  let ?w = "w\<lparr>trans := (trans w)(t := Some (x\<lparr>online := True\<rparr>))\<rparr>"
  have "ws ?w = ws w" by (simp add: ws_def)
  with send_connect_eq [of ?w t] ainvD [OF assms(1)] sinvD(9) [OF ainvD(2) [OF assms(1)]] assms(2,3)
  show ?thesis by (auto simp: adb_auth_verified_def handle_online_def tupd_def tget_def)
qed

definition demo_secure :: adbd where "demo_secure = demo_adbd\<lparr>auth_enabled := True\<rparr>"

definition demo_signature :: apacket where
  "demo_signature = demo_packet A_AUTH ADB_AUTH_SIGNATURE 256 (replicate 4096 9)"

theorem online_needs_key_witness:
  "\<exists>w. auth_run (\<lambda>key _ _. key = [1]) demo_secure [FromHost 0 demo_signature demo_secure] w \<and> is_online 0 w \<and>
     authorised (\<lambda>key _ _. key = [1]) 0 [FromHost 0 demo_signature demo_secure]"
proof -
  let ?V = "\<lambda>key (_ :: byte list) (_ :: byte list). key = [1 :: byte]"
  have t: "trans demo_secure 0 = Some demo_transport" "key_list demo_secure = [[1]]" "auth_enabled demo_secure"
    by (simp_all add: demo_secure_def demo_adbd_def)
  have "pipe_ok (ws demo_secure) 0" using demo_ws by (simp add: demo_secure_def ws_def)
  from verified_goes_online [OF demo_ainv(2) [folded demo_secure_def] this t(1)] obtain w1
    where w1: "adb_auth_verified 0 demo_secure = Inr w1" "trans w1 0 = Some (demo_transport\<lparr>online := True\<rparr>)" by blast
  have v: "adb_auth_verify ?V (key_list demo_secure) (token demo_transport) (payload demo_signature)"
    by (simp add: adb_auth_verify_def t payload_def demo_signature_def demo_packet_def RSANUMBYTES_def min_def)
  have "\<exists>w'. handle_packet demo_env ?V demo_signature 0 demo_secure = Inr w' \<and> is_online 0 w'"
    using w1 v t(1) by (simp add: handle_packet_def Let_def command_defs handle_auth_def demo_signature_def demo_packet_def tget_def
        ADB_AUTH_SIGNATURE_def ADB_AUTH_TOKEN_def tupd_def is_online_def)
  then obtain w' where w': "handle_packet demo_env ?V demo_signature 0 demo_secure = Inr w'" "is_online 0 w'" by blast
  have r: "auth_run ?V demo_secure [FromHost 0 demo_signature demo_secure] w'"
    using run_packet [OF run_start w'(1)] by simp
  have "\<not> is_online 0 demo_secure" "\<forall>t. \<not> flag watched t demo_secure"
    by (auto simp: is_online_def flag_def watched_def demo_secure_def demo_adbd_def demo_transport_def)
  with online_needs_key [OF r t(3) _ w'(2)] r w'(2) show ?thesis by blast
qed

end
