(* ===== verification/Transport_Threads.thy ===== *)
theory Transport_Threads
  imports Packet "HOL-Library.Sublist"
begin

text \<open>
  The two threads of a transport (\<open>output_thread\<close>, \<open>input_thread\<close> in \<open>src/transport.c\<close>) and the
  main thread between them, as an interleaving of steps. The mutex \<open>transport_lock\<close> makes the
  sections it protects one step each. The threads stop the way the code does: the first
  one to finish only drops its reference, the second one closes the transport and asks the
  main thread to free it.
\<close>

section \<open>State\<close>

text \<open>
  Where a thread is: in its loop, about to send the final \<open>SYNC\<close>, at the three points of
  \<open>kick_transport\<close> (the test without the lock, the test and set under the lock, the call), before
  \<open>transport_unref\<close>, finished.
\<close>

datatype ophase = OStart | OPump | OOffline | OTest | OLock | OKick | OUnref | ODone

datatype iphase = IPump | IClose | ITest | ILock | IKick | IUnref | IDone

text \<open>
  One transport. \<open>to_main\<close> and \<open>to_io\<close> are the packets in the two pipes; \<open>kicks\<close>, \<open>closes\<close> and
  \<open>removes\<close> count the calls of \<open>t->kick\<close>, \<open>t->close\<close> and \<open>remove_transport\<close>; \<open>received\<close> is what
  \<open>read_from_remote\<close> has delivered, \<open>accepted\<close> what the main thread has taken, \<open>relayed\<close> what was
  given to \<open>write_to_remote\<close>. \<open>pipe_down\<close> is set once a write into the pipe to the main thread failed.
\<close>

record tio =
  oph :: ophase
  iph :: iphase
  tok :: u32
  active :: bool
  to_main :: "apacket list"
  to_io :: "apacket list"
  refs :: int
  kicked_flag :: bool
  kicks :: nat
  closes :: nat
  removes :: nat
  received :: "apacket list"
  accepted :: "apacket list"
  relayed :: "apacket list"
  pipe_down :: bool

text \<open>The transport as \<open>transport_registration_func\<close> leaves it: two references and two threads.\<close>

definition tio_start :: "tio \<Rightarrow> bool" where
  "tio_start s \<longleftrightarrow> oph s = OStart \<and> iph s = IPump \<and> \<not> active s \<and> to_main s = [] \<and> to_io s = [] \<and> refs s = 2 \<and>
     \<not> kicked_flag s \<and> kicks s = 0 \<and> closes s = 0 \<and> removes s = 0 \<and> received s = [] \<and> accepted s = [] \<and>
     relayed s = [] \<and> \<not> pipe_down s"

definition sync_packet :: "byte list \<Rightarrow> u32 \<Rightarrow> u32 \<Rightarrow> apacket" where
  "sync_packet mem a0 a1 =
     (let p = get_apacket mem in
      p\<lparr>msg := (msg p)\<lparr>command := A_SYNC, arg0 := a0, arg1 := a1, magic := A_SYNC XOR 0xffffffff\<rparr>\<rparr>)"

section \<open>Steps\<close>

definition unref :: "tio \<Rightarrow> tio" where
  "unref s =
     (let s = s\<lparr>refs := refs s - 1\<rparr> in
      if refs s = 0 then
        let s = (if kicked_flag s then s else s\<lparr>kicked_flag := True, kicks := kicks s + 1\<rparr>) in
        s\<lparr>closes := closes s + 1, removes := removes s + 1\<rparr>
      else s)"

text \<open>
  A step of the output thread. \<open>ok\<close> is whether \<open>write_packet\<close> succeeds, \<open>r\<close> the result of
  \<open>read_from_remote\<close>, \<open>mem\<close> the contents of a fresh packet.
\<close>

definition out_step :: "bool \<Rightarrow> apacket option \<Rightarrow> byte list \<Rightarrow> tio \<Rightarrow> tio" where
  "out_step ok r mem s =
     (case oph s of
        OStart \<Rightarrow>
          let s = s\<lparr>tok := tok s + 1\<rparr> in
          if ok then s\<lparr>to_main := to_main s @ [sync_packet mem 1 (tok s)], oph := OPump\<rparr>
          else s\<lparr>oph := OTest, pipe_down := True\<rparr>
      | OPump \<Rightarrow>
          (case r of
             Some p \<Rightarrow>
               let s = s\<lparr>received := received s @ [p]\<rparr> in
               if ok then s\<lparr>to_main := to_main s @ [p]\<rparr> else s\<lparr>oph := OTest, pipe_down := True\<rparr>
           | None \<Rightarrow> s\<lparr>oph := OOffline\<rparr>)
      | OOffline \<Rightarrow>
          if ok then s\<lparr>to_main := to_main s @ [sync_packet mem 0 0], oph := OTest\<rparr>
          else s\<lparr>oph := OTest, pipe_down := True\<rparr>
      | OTest \<Rightarrow> s\<lparr>oph := (if kicked_flag s then OUnref else OLock)\<rparr>
      | OLock \<Rightarrow> if kicked_flag s then s\<lparr>oph := OUnref\<rparr> else s\<lparr>kicked_flag := True, oph := OKick\<rparr>
      | OKick \<Rightarrow> s\<lparr>kicks := kicks s + 1, oph := OUnref\<rparr>
      | OUnref \<Rightarrow> (unref s)\<lparr>oph := ODone\<rparr>
      | ODone \<Rightarrow> s)"

text \<open>A step of the input thread; \<open>fail\<close> is whether \<open>read_packet\<close> fails.\<close>

definition in_step :: "bool \<Rightarrow> tio \<Rightarrow> tio" where
  "in_step fail s =
     (case iph s of
        IPump \<Rightarrow>
          if fail then s\<lparr>iph := IClose\<rparr>
          else (case to_io s of
             [] \<Rightarrow> s
           | p # ps \<Rightarrow>
               let s = s\<lparr>to_io := ps\<rparr> in
               if command (msg p) = A_SYNC then
                 if arg0 (msg p) = 0 then s\<lparr>iph := IClose\<rparr>
                 else if arg1 (msg p) = tok s then s\<lparr>active := True\<rparr>
                 else s
               else if active s then s\<lparr>relayed := relayed s @ [p]\<rparr>
               else s)
      | IClose \<Rightarrow> s\<lparr>iph := ITest\<rparr>
      | ITest \<Rightarrow> s\<lparr>iph := (if kicked_flag s then IUnref else ILock)\<rparr>
      | ILock \<Rightarrow> if kicked_flag s then s\<lparr>iph := IUnref\<rparr> else s\<lparr>kicked_flag := True, iph := IKick\<rparr>
      | IKick \<Rightarrow> s\<lparr>kicks := kicks s + 1, iph := IUnref\<rparr>
      | IUnref \<Rightarrow> (unref s)\<lparr>iph := IDone\<rparr>
      | IDone \<Rightarrow> s)"

text \<open>
  The main thread takes a packet from its pipe (\<open>transport_socket_events\<close>); \<open>handle_packet\<close> sends
  a \<open>SYNC\<close> back into the other pipe. It may also send any other packet at any time.
\<close>

definition main_take :: "tio \<Rightarrow> tio" where
  "main_take s =
     (case to_main s of
        [] \<Rightarrow> s
      | p # ps \<Rightarrow>
          let s = s\<lparr>to_main := ps, accepted := accepted s @ [p]\<rparr> in
          if command (msg p) = A_SYNC then s\<lparr>to_io := to_io s @ [p]\<rparr> else s)"

inductive tstep :: "tio \<Rightarrow> tio \<Rightarrow> bool" where
  out: "oph s \<noteq> ODone \<Longrightarrow> tstep s (out_step ok r mem s)"
| inp: "iph s \<noteq> IDone \<Longrightarrow> fail \<or> to_io s \<noteq> [] \<or> iph s \<noteq> IPump \<Longrightarrow> tstep s (in_step fail s)"
| take: "to_main s \<noteq> [] \<Longrightarrow> tstep s (main_take s)"
| send: "command (msg p) \<noteq> A_SYNC \<Longrightarrow> tstep s (s\<lparr>to_io := to_io s @ [p]\<rparr>)"

inductive_cases tstepE: "tstep s s'"

inductive reach :: "tio \<Rightarrow> bool" where
  start: "tio_start s \<Longrightarrow> reach s"
| step: "reach s \<Longrightarrow> tstep s s' \<Longrightarrow> reach s'"

section \<open>References, kicks and the final close\<close>

definition ref_inv :: "tio \<Rightarrow> bool" where
  "ref_inv s \<longleftrightarrow>
     refs s = (if oph s = ODone then 0 else 1) + (if iph s = IDone then 0 else 1) \<and>
     closes s = (if oph s = ODone \<and> iph s = IDone then 1 else 0) \<and> removes s = closes s \<and>
     kicks s + (if oph s = OKick then 1 else 0) + (if iph s = IKick then 1 else 0) = (if kicked_flag s then 1 else 0) \<and>
     (oph s = OUnref \<or> oph s = ODone \<longrightarrow> kicked_flag s) \<and> (iph s = IUnref \<or> iph s = IDone \<longrightarrow> kicked_flag s)"

lemma ref_inv_start: "tio_start s \<Longrightarrow> ref_inv s"
  by (simp add: tio_start_def ref_inv_def)

lemma ref_inv_out: "ref_inv s \<Longrightarrow> oph s \<noteq> ODone \<Longrightarrow> ref_inv (out_step ok r mem s)"
  by (cases "oph s") (auto simp: ref_inv_def out_step_def unref_def Let_def split: option.splits if_splits)

lemma ref_inv_in: "ref_inv s \<Longrightarrow> iph s \<noteq> IDone \<Longrightarrow> ref_inv (in_step fail s)"
  by (cases "iph s") (auto simp: ref_inv_def in_step_def unref_def Let_def split: list.splits if_splits)

lemma ref_inv_take: "ref_inv s \<Longrightarrow> ref_inv (main_take s)"
proof -
  have "oph (main_take s) = oph s" "iph (main_take s) = iph s" "refs (main_take s) = refs s"
    "closes (main_take s) = closes s" "removes (main_take s) = removes s" "kicks (main_take s) = kicks s"
    "kicked_flag (main_take s) = kicked_flag s"
    by (auto simp: main_take_def Let_def split: list.splits)
  then show "ref_inv s \<Longrightarrow> ref_inv (main_take s)" unfolding ref_inv_def by simp
qed

lemma ref_inv_step: "tstep s s' \<Longrightarrow> ref_inv s \<Longrightarrow> ref_inv s'"
  by (erule tstepE) (simp_all add: ref_inv_out ref_inv_in ref_inv_take, simp add: ref_inv_def)

lemma reach_ref_inv: "reach s \<Longrightarrow> ref_inv s"
  by (induction rule: reach.induct) (auto intro: ref_inv_start ref_inv_step)

section \<open>The stream to the main thread\<close>

text \<open>What has been written to the main thread so far, by the place the output thread has reached.\<close>

definition stream_inv :: "tio \<Rightarrow> bool" where
  "stream_inv s \<longleftrightarrow>
     (if oph s = OStart then accepted s @ to_main s = [] \<and> received s = []
      else (\<exists>mem mem'. prefix (accepted s @ to_main s) (sync_packet mem 1 (tok s) # received s @ [sync_packet mem' 0 0])) \<and>
        (\<not> pipe_down s \<longrightarrow> (\<exists>mem mem'. accepted s @ to_main s = sync_packet mem 1 (tok s) # received s @
           (if oph s = OPump \<or> oph s = OOffline then [] else [sync_packet mem' 0 0])))) \<and>
     (oph s = OStart \<or> oph s = OPump \<or> oph s = OOffline \<longrightarrow> \<not> pipe_down s)"

lemma stream_inv_frame:
  "stream_inv s \<Longrightarrow> oph s' = oph s \<Longrightarrow> accepted s' @ to_main s' = accepted s @ to_main s \<Longrightarrow> received s' = received s \<Longrightarrow>
     tok s' = tok s \<Longrightarrow> pipe_down s' = pipe_down s \<Longrightarrow> stream_inv s'"
  by (simp add: stream_inv_def)

lemma stream_inv_late:
  "stream_inv s \<Longrightarrow> oph s \<notin> {OStart, OPump, OOffline} \<Longrightarrow> oph s' \<notin> {OStart, OPump, OOffline} \<Longrightarrow>
     accepted s' @ to_main s' = accepted s @ to_main s \<Longrightarrow> received s' = received s \<Longrightarrow>
     tok s' = tok s \<Longrightarrow> pipe_down s' = pipe_down s \<Longrightarrow> stream_inv s'"
  by (simp add: stream_inv_def)

lemma unref_fields [simp]:
  "oph (unref s) = oph s" "iph (unref s) = iph s" "accepted (unref s) = accepted s" "to_main (unref s) = to_main s"
  "to_io (unref s) = to_io s" "received (unref s) = received s" "tok (unref s) = tok s"
  "pipe_down (unref s) = pipe_down s" "active (unref s) = active s" "relayed (unref s) = relayed s"
  by (simp_all add: unref_def Let_def)

lemma stream_inv_out:
  assumes inv: "stream_inv s" and "oph s \<noteq> ODone"
  shows "stream_inv (out_step ok r mem s)"
proof (cases "oph s")
  case OStart
  with inv show ?thesis by (auto simp: stream_inv_def out_step_def Let_def)
next
  case OPump
  with inv obtain m where m: "accepted s @ to_main s = sync_packet m 1 (tok s) # received s" and d: "\<not> pipe_down s"
    by (auto simp: stream_inv_def)
  have a: "accepted s @ to_main s @ ps = sync_packet m 1 (tok s) # received s @ ps" for ps
    using m by (metis append_assoc append_Cons)
  show ?thesis
  proof (cases r)
    case None
    with OPump inv show ?thesis by (auto simp: stream_inv_def out_step_def)
  next
    case (Some p)
    show ?thesis
      unfolding stream_inv_def using OPump d m
      by (auto simp: out_step_def Some Let_def a intro!: exI [of _ m])
  qed
next
  case OOffline
  with inv obtain m where m: "accepted s @ to_main s = sync_packet m 1 (tok s) # received s" and d: "\<not> pipe_down s"
    by (auto simp: stream_inv_def)
  have a: "accepted s @ to_main s @ ps = sync_packet m 1 (tok s) # received s @ ps" for ps
    using m by (metis append_assoc append_Cons)
  show ?thesis
    unfolding stream_inv_def using OOffline d m
    by (auto simp: out_step_def Let_def a)
next
  case OTest
  with stream_inv_late [OF inv] show ?thesis by (simp add: out_step_def)
next
  case OLock
  with stream_inv_late [OF inv] show ?thesis by (simp add: out_step_def)
next
  case OKick
  with stream_inv_late [OF inv] show ?thesis by (simp add: out_step_def)
next
  case OUnref
  with stream_inv_late [OF inv] show ?thesis by (simp add: out_step_def)
qed (use assms in simp)

lemma stream_inv_in: "stream_inv s \<Longrightarrow> stream_inv (in_step fail s)"
  by (erule stream_inv_frame) (auto simp: in_step_def Let_def split: iphase.splits list.splits)

lemma stream_inv_take: "stream_inv s \<Longrightarrow> stream_inv (main_take s)"
  by (erule stream_inv_frame) (auto simp: main_take_def Let_def split: list.splits)

lemma stream_inv_step: "tstep s s' \<Longrightarrow> stream_inv s \<Longrightarrow> stream_inv s'"
  by (erule tstepE) (simp_all add: stream_inv_out stream_inv_in stream_inv_take, simp add: stream_inv_def)

lemma reach_stream_inv: "reach s \<Longrightarrow> stream_inv s"
  by (induction rule: reach.induct) (simp add: stream_inv_def tio_start_def, rule stream_inv_step)

section \<open>Shutting down\<close>

definition offline_sync :: "apacket \<Rightarrow> bool" where
  "offline_sync p \<longleftrightarrow> command (msg p) = A_SYNC \<and> arg0 (msg p) = 0"

lemma offline_sync_packet: "offline_sync (sync_packet mem 0 0)"
  by (simp add: offline_sync_def sync_packet_def Let_def)

definition stop_inv :: "tio \<Rightarrow> bool" where
  "stop_inv s \<longleftrightarrow> (oph s \<notin> {OStart, OPump, OOffline} \<and> \<not> pipe_down s \<longrightarrow>
     iph s \<noteq> IPump \<or> (\<exists>p \<in> set (to_main s) \<union> set (to_io s). offline_sync p))"

lemma stop_inv_out: "stop_inv s \<Longrightarrow> stop_inv (out_step ok r mem s)"
  using offline_sync_packet [of mem]
  by (cases "oph s") (auto simp: stop_inv_def out_step_def Let_def split: option.splits)

lemma stop_inv_in: "stop_inv s \<Longrightarrow> stop_inv (in_step fail s)"
  by (cases "iph s") (auto simp: stop_inv_def in_step_def Let_def offline_sync_def split: list.splits)

lemma stop_inv_take: "stop_inv s \<Longrightarrow> stop_inv (main_take s)"
  by (auto simp: stop_inv_def main_take_def Let_def offline_sync_def split: list.splits)

lemma stop_inv_send: "stop_inv s \<Longrightarrow> stop_inv (s\<lparr>to_io := to_io s @ [p]\<rparr>)"
  by (auto simp: stop_inv_def)

lemma stop_inv_step: "tstep s s' \<Longrightarrow> stop_inv s \<Longrightarrow> stop_inv s'"
  by (erule tstepE) (simp_all add: stop_inv_out stop_inv_in stop_inv_take stop_inv_send)

lemma reach_stop_inv: "reach s \<Longrightarrow> stop_inv s"
  by (induction rule: reach.induct) (simp add: stop_inv_def tio_start_def, rule stop_inv_step)

text \<open>How far a run is from the end when the other side is gone and every thread goes on.\<close>

fun orank :: "ophase \<Rightarrow> nat" where
  "orank OStart = 14" | "orank OPump = 10" | "orank OOffline = 9" | "orank OTest = 5" | "orank OLock = 4"
| "orank OKick = 3" | "orank OUnref = 2" | "orank ODone = 0"

fun irank :: "iphase \<Rightarrow> nat" where
  "irank IPump = 9" | "irank IClose = 6" | "irank ITest = 5" | "irank ILock = 4" | "irank IKick = 3"
| "irank IUnref = 2" | "irank IDone = 0"

definition remaining :: "tio \<Rightarrow> nat" where
  "remaining s = orank (oph s) + irank (iph s) + 3 * length (to_main s) + length (to_io s)"

lemma out_progress: "oph s \<noteq> ODone \<Longrightarrow> remaining (out_step True None mem s) < remaining s"
  by (cases "oph s") (auto simp: remaining_def out_step_def Let_def)

lemma in_progress:
  "iph s \<noteq> IDone \<Longrightarrow> iph s \<noteq> IPump \<or> to_io s \<noteq> [] \<Longrightarrow> remaining (in_step False s) < remaining s"
  by (cases "iph s") (auto simp: remaining_def in_step_def Let_def split: list.splits)

lemma take_progress: "to_main s \<noteq> [] \<Longrightarrow> remaining (main_take s) < remaining s"
  by (auto simp: remaining_def main_take_def Let_def split: list.splits)

lemma pipe_kept:
  "pipe_down (out_step True None mem s) = pipe_down s" "pipe_down (in_step fail s) = pipe_down s"
  "pipe_down (main_take s) = pipe_down s"
  by (auto simp: out_step_def in_step_def main_take_def Let_def split: ophase.splits iphase.splits list.splits)

text \<open>
  The steps when the other side is gone: \<open>read_from_remote\<close> fails, the pipes of the program itself work, so that \<open>read_packet\<close> only
  returns with a packet that is in the pipe, and the main thread sends nothing of its own.
\<close>

inductive quiet_step :: "tio \<Rightarrow> tio \<Rightarrow> bool" where
  q_out: "oph s \<noteq> ODone \<Longrightarrow> quiet_step s (out_step True None mem s)"
| q_in: "iph s \<noteq> IDone \<Longrightarrow> iph s \<noteq> IPump \<or> to_io s \<noteq> [] \<Longrightarrow> quiet_step s (in_step False s)"
| q_take: "to_main s \<noteq> [] \<Longrightarrow> quiet_step s (main_take s)"

inductive_cases quiet_stepE: "quiet_step s s'"

lemma quiet_tstep: "quiet_step s s' \<Longrightarrow> tstep s s'"
  by (erule quiet_stepE) (auto intro: tstep.intros)

lemma quiet_progress: "quiet_step s s' \<Longrightarrow> remaining s' < remaining s"
  by (erule quiet_stepE) (auto intro: out_progress in_progress take_progress)

lemma quiet_pipe: "quiet_step s s' \<Longrightarrow> pipe_down s' = pipe_down s"
  by (erule quiet_stepE) (auto simp: pipe_kept)

lemma quiet_run:
  "quiet_step\<^sup>*\<^sup>* s s' \<Longrightarrow> reach s \<Longrightarrow> \<not> pipe_down s \<Longrightarrow> reach s' \<and> \<not> pipe_down s'"
  by (induction rule: rtranclp_induct) (auto intro: reach.step quiet_tstep simp: quiet_pipe)

lemma quiet_stops: "\<exists>s'. quiet_step\<^sup>*\<^sup>* s s' \<and> (\<nexists>s''. quiet_step s' s'')"
proof (induction s rule: measure_induct_rule [of remaining])
  case (less s)
  show ?case
  proof (cases "\<exists>s1. quiet_step s s1")
    case True
    then obtain s1 where s1: "quiet_step s s1" by blast
    from less [OF quiet_progress [OF this]] s1 show ?thesis by (meson converse_rtranclp_into_rtranclp)
  qed blast
qed

text \<open>A state in which nobody can go on is one in which the transport is closed: the input thread is always woken.\<close>

lemma quiet_end:
  assumes r: "reach s" and "\<not> pipe_down s" and stuck: "\<And>s'. \<not> quiet_step s s'"
  shows "closes s = 1 \<and> removes s = 1"
proof -
  have o: "oph s = ODone" using stuck q_out [of s "[]"] by blast
  have m: "to_main s = []" using stuck q_take [of s] by blast
  have "iph s = IDone"
  proof (rule ccontr)
    assume "iph s \<noteq> IDone"
    with stuck q_in [of s] have "iph s = IPump" "to_io s = []" by blast+
    with reach_stop_inv [OF r] o m assms(2) show False by (auto simp: stop_inv_def)
  qed
  with reach_ref_inv [OF r] o show ?thesis by (simp add: ref_inv_def)
qed

section \<open>Properties\<close>

text \<open>
  C6: However the two threads of a transport, the main thread and the failures of
  the device interleave, the transport is kicked at most once and closed at most once; it
  is closed, after having been kicked, and its removal is requested, exactly when both threads
  have finished.
\<close>

theorem transport_closed_once:
  assumes "reach s"
  shows "kicks s \<le> 1 \<and> closes s \<le> 1 \<and> removes s = closes s \<and>
    (closes s = 1 \<longleftrightarrow> oph s = ODone \<and> iph s = IDone) \<and> (closes s = 1 \<longrightarrow> kicks s = 1)"
  using reach_ref_inv [OF assms] unfolding ref_inv_def by (auto split: if_splits)

definition demo_tio :: tio where
  "demo_tio = \<lparr>oph = OStart, iph = IPump, tok = 1, active = False, to_main = [], to_io = [], refs = 2,
     kicked_flag = False, kicks = 0, closes = 0, removes = 0, received = [], accepted = [], relayed = [], pipe_down = False\<rparr>"

lemma demo_reach: "reach demo_tio"
  by (rule reach.start) (simp add: tio_start_def demo_tio_def)

lemma demo_reach2: "reach (out_step True None [] demo_tio)"
  by (rule reach.step [OF demo_reach]) (rule tstep.out, simp add: demo_tio_def)

theorem transport_closed_once_witness:
  "kicks (out_step True None [] demo_tio) \<le> 1 \<and> closes (out_step True None [] demo_tio) = 0"
  using transport_closed_once [OF demo_reach2]
  by (auto simp: out_step_def demo_tio_def Let_def)

text \<open>
  The main thread receives from a transport one \<open>SYNC\<close> that carries the current token, then
  the packets of the other side in the order in which they were read, then at most one \<open>SYNC\<close> that
  takes the transport offline; none is lost, duplicated or reordered, unless the pipe itself fails.
\<close>

theorem main_receives_in_order:
  assumes "reach s" and "oph s \<noteq> OStart"
  shows "(\<exists>mem mem'. prefix (accepted s) (sync_packet mem 1 (tok s) # received s @ [sync_packet mem' 0 0])) \<and>
    (\<not> pipe_down s \<longrightarrow> (\<exists>mem post. accepted s @ to_main s = sync_packet mem 1 (tok s) # received s @ post \<and>
       length post \<le> 1 \<and> (\<forall>p \<in> set post. offline_sync p)))"
proof
  from reach_stream_inv [OF assms(1)] assms(2) obtain mem mem'
    where "prefix (accepted s @ to_main s) (sync_packet mem 1 (tok s) # received s @ [sync_packet mem' 0 0])"
    by (auto simp: stream_inv_def)
  then show "\<exists>mem mem'. prefix (accepted s) (sync_packet mem 1 (tok s) # received s @ [sync_packet mem' 0 0])"
    by (meson append_prefixD)
  show "\<not> pipe_down s \<longrightarrow> (\<exists>mem post. accepted s @ to_main s = sync_packet mem 1 (tok s) # received s @ post \<and>
      length post \<le> 1 \<and> (\<forall>p \<in> set post. offline_sync p))"
  proof
    assume "\<not> pipe_down s"
    with reach_stream_inv [OF assms(1)] assms(2) obtain mem mem'
      where "accepted s @ to_main s = sync_packet mem 1 (tok s) # received s @
        (if oph s = OPump \<or> oph s = OOffline then [] else [sync_packet mem' 0 0])"
      by (auto simp: stream_inv_def)
    then show "\<exists>mem post. accepted s @ to_main s = sync_packet mem 1 (tok s) # received s @ post \<and>
        length post \<le> 1 \<and> (\<forall>p \<in> set post. offline_sync p)"
      using offline_sync_packet
      by (intro exI [of _ mem] exI [of _ "if oph s = OPump \<or> oph s = OOffline then [] else [sync_packet mem' 0 0]"]) simp
  qed
qed

theorem main_receives_in_order_witness:
  "\<exists>mem post. accepted (out_step True None [] demo_tio) @ to_main (out_step True None [] demo_tio) =
     sync_packet mem 1 2 # post"
  using main_receives_in_order [OF demo_reach2] by (auto simp: out_step_def demo_tio_def Let_def)

text \<open>
  C37: The shutdown protocol ends and does not get stuck. Take any state that can be reached with the pipe to
  the main thread working, and let the other side be gone: reading from it fails, the pipes of the program work, the main thread sends
  nothing more of its own. However the threads are scheduled from there, they take finitely many
  steps, and when nobody can go on the transport is closed and its removal requested; in particular the input
  thread, which waits for a packet, is always woken by the \<open>SYNC\<close> of the output thread.
\<close>

theorem shutdown_inevitable:
  assumes "reach s" and "\<not> pipe_down s"
  shows "(\<nexists>f. f 0 = s \<and> (\<forall>n. quiet_step (f n) (f (Suc n)))) \<and>
    (\<forall>s'. quiet_step\<^sup>*\<^sup>* s s' \<and> (\<nexists>s''. quiet_step s' s'') \<longrightarrow> closes s' = 1 \<and> removes s' = 1)"
proof
  show "\<nexists>f. f 0 = s \<and> (\<forall>n. quiet_step (f n) (f (Suc n)))"
  proof
    assume "\<exists>f. f 0 = s \<and> (\<forall>n. quiet_step (f n) (f (Suc n)))"
    then obtain f where "\<And>n. quiet_step (f n) (f (Suc n))" by blast
    then have "\<forall>n. (f (Suc n), f n) \<in> measure remaining" using quiet_progress by simp
    then show False using wf_iff_no_infinite_down_chain [THEN iffD1, OF wf_measure [of remaining]] by blast
  qed
  show "\<forall>s'. quiet_step\<^sup>*\<^sup>* s s' \<and> (\<nexists>s''. quiet_step s' s'') \<longrightarrow> closes s' = 1 \<and> removes s' = 1"
    using quiet_run [OF _ assms] quiet_end by blast
qed

theorem shutdown_inevitable_witness:
  "\<exists>s'. quiet_step\<^sup>*\<^sup>* demo_tio s' \<and> (\<nexists>s''. quiet_step s' s'') \<and> closes s' = 1 \<and> removes s' = 1"
  using shutdown_inevitable [OF demo_reach] quiet_stops [of demo_tio] by (auto simp: demo_tio_def)

end
