(* ===== verification/Transport.thy ===== *)
theory Transport
  imports Adb_Safety
begin

text \<open>
  Transports (\<open>src/transport.c\<close>, \<open>src/transport_usb.c\<close>, \<open>src/transport_local.c\<close>): how they come into
  being and go away, what the main thread does with the messages of the registration pipe, and
  the search for the transport a client asks for. The threads of a transport are in
  \<open>Transport_Threads\<close>; here each function is one step, as the lock makes it.
\<close>

section \<open>The functions of a transport\<close>

definition temit :: "effect \<Rightarrow> adbd \<Rightarrow> adbd" where
  "temit e w = set_ws (emit e (ws w)) w"

definition usb_remote_kick :: "nat \<Rightarrow> adbd \<Rightarrow> adbd res" where
  "usb_remote_kick t w = seq (tget t w) (\<lambda>x. Inr (temit (UsbKick (usb x)) w))"

definition usb_remote_close :: "nat \<Rightarrow> adbd \<Rightarrow> adbd res" where
  "usb_remote_close t w =
     seq (tget t w) (\<lambda>x. tupd t (\<lambda>x. x\<lparr>usb := None\<rparr>) (temit (UsbClose (usb x)) w))"

definition local_remote_kick :: "nat \<Rightarrow> adbd \<Rightarrow> adbd res" where
  "local_remote_kick t w =
     seq (tget t w) (\<lambda>x.
     seq (tupd t (\<lambda>x. x\<lparr>tsfd := -1\<rparr>) w) (\<lambda>w.
     Inr (temit (CloseFd (tsfd x)) (temit (Shutdown (tsfd x)) w))))"

definition close_pipes :: "atransport \<Rightarrow> adbd \<Rightarrow> adbd" where
  "close_pipes x w =
     temit (CloseFd (transport_write x)) (temit (CloseFd (transport_read x))
       (temit (CloseFd (fd_write x)) (temit (CloseFd (fd_read x)) w)))"

definition local_remote_close :: "nat \<Rightarrow> adbd \<Rightarrow> adbd res" where
  "local_remote_close t w = seq (tget t w) (\<lambda>x. Inr (close_pipes x w))"

text \<open>\<open>t->kick(t)\<close> and \<open>t->close(t)\<close>\<close>

definition transport_kick :: "nat \<Rightarrow> adbd \<Rightarrow> adbd res" where
  "transport_kick t w =
     seq (tget t w) (\<lambda>x. if ttype x = kTransportUsb then usb_remote_kick t w else local_remote_kick t w)"

definition transport_close :: "nat \<Rightarrow> adbd \<Rightarrow> adbd res" where
  "transport_close t w =
     seq (tget t w) (\<lambda>x. if ttype x = kTransportUsb then usb_remote_close t w else local_remote_close t w)"

definition kick_transport :: "nat option \<Rightarrow> adbd \<Rightarrow> adbd res" where
  "kick_transport t w =
     (case t of
        None \<Rightarrow> Inr w
      | Some t \<Rightarrow>
          seq (tget t w) (\<lambda>x.
          if kicked x then Inr w
          else seq (tupd t (\<lambda>x. x\<lparr>kicked := True\<rparr>) w) (transport_kick t)))"

section \<open>Registration\<close>

definition register_transport :: "nat \<Rightarrow> adbd \<Rightarrow> adbd res" where
  "register_transport t w =
     (if reg_ok w then Inr (w\<lparr>reg_pipe := reg_pipe w @ [(t, 1)]\<rparr>) else Inl (Exit (-1)))"

definition remove_transport :: "nat \<Rightarrow> adbd \<Rightarrow> adbd res" where
  "remove_transport t w =
     (if reg_ok w then Inr (w\<lparr>reg_pipe := reg_pipe w @ [(t, 0)]\<rparr>) else Inl (Exit (-1)))"

definition transport_unref_locked :: "nat \<Rightarrow> adbd \<Rightarrow> adbd res" where
  "transport_unref_locked t w =
     seq (tupd t (\<lambda>x. x\<lparr>ref_count := ref_count x - 1\<rparr>) w) (\<lambda>w.
     seq (tget t w) (\<lambda>x.
     if ref_count x = 0 then
       seq (if kicked x then Inr w else seq (tupd t (\<lambda>x. x\<lparr>kicked := True\<rparr>) w) (transport_kick t)) (\<lambda>w.
       seq (transport_close t w) (remove_transport t))
     else Inr w))"

definition transport_unref :: "nat option \<Rightarrow> adbd \<Rightarrow> adbd res" where
  "transport_unref t w = (case t of None \<Rightarrow> Inr w | Some t \<Rightarrow> transport_unref_locked t w)"

definition tfde_of :: "nat \<Rightarrow> nat" where "tfde_of t = t"

text \<open>
  What the kernel answers when a transport is started: the two pipes and the two threads.
\<close>

record start_env =
  io_to_main :: "(int \<times> int) option"
  main_to_io :: "(int \<times> int) option"
  input_ok :: bool
  output_ok :: bool

definition start_transport :: "start_env \<Rightarrow> nat \<Rightarrow> adbd \<Rightarrow> adbd res" where
  "start_transport env t w =
     seq (tupd t (\<lambda>x. x\<lparr>ref_count := 2\<rparr>) w) (\<lambda>w.
     case (io_to_main env, main_to_io env) of
       (Some (r0, r1), Some (s0, s1)) \<Rightarrow>
         seq (tupd t (\<lambda>x. x\<lparr>fd_read := s0, fd_write := r1, transport_read := r0, transport_write := s1\<rparr>) w) (\<lambda>w.
         let w = temit (FdOp (OpSet (tfde_of t) 1)) (temit (FdOp (OpInstall (tfde_of t) r0 TransportSocketEvents t)) w) in
         if \<not> input_ok env then Inl (Exit (-1))
         else
           let w = temit (InputThread t) w in
           if \<not> output_ok env then Inl (Exit (-1)) else Inr (temit (OutputThread t) w))
     | _ \<Rightarrow> Inl (Exit (-1)))"

text \<open>The transport leaves: its sockets, its event, its pipes, its place in the list, its memory.\<close>

definition drop_transport :: "nat \<Rightarrow> adbd \<Rightarrow> adbd res" where
  "drop_transport t w =
     seq (on_socks (close_all_sockets t) w) (\<lambda>w.
     seq (tget t w) (\<lambda>x.
     let w = close_pipes x (temit (FdOp (OpRemove (tfde_of t))) w);
         w = w\<lparr>transport_list := remove1 t (transport_list w)\<rparr> in
     seq (on_socks (run_transport_disconnects t) w) (\<lambda>w.
     Inr (w\<lparr>trans := (trans w)(t := None)\<rparr>))))"

definition enlist_transport :: "nat \<Rightarrow> adbd \<Rightarrow> adbd" where
  "enlist_transport t w =
     (let w = w\<lparr>transport_list := transport_list w @ [t]\<rparr> in
      set_ws ((ws w)\<lparr>remotes := (remotes (ws w))(t := [])\<rparr>) w)"

text \<open>A registration pipe from which nothing can be read ends the program.\<close>

definition transport_registration_func :: "start_env \<Rightarrow> u16 \<Rightarrow> adbd \<Rightarrow> adbd res" where
  "transport_registration_func env ev w =
     (if ev AND FDE_READ = 0 then Inr w
      else case reg_pipe w of
        [] \<Rightarrow> Inl (Exit (-1))
      | (t, action) # ms \<Rightarrow>
          let w = w\<lparr>reg_pipe := ms\<rparr> in
          if action = 0 then drop_transport t w
          else
            seq (tget t w) (\<lambda>x.
            seq (if connection_state x \<noteq> CS_NOPERM then start_transport env t w else Inr w) (\<lambda>w.
            Inr (enlist_transport t w))))"

definition init_transport_registration :: "(int \<times> int) option \<Rightarrow> nat \<Rightarrow> adbd \<Rightarrow> adbd res" where
  "init_transport_registration s fde w =
     (case s of
        None \<Rightarrow> Inl (Exit (-1))
      | Some (s0, s1) \<Rightarrow>
          Inr (temit (FdOp (OpSet fde 1)) (temit (FdOp (OpInstall fde s0 TransportRegistrationFunc 0)) w)))"

text \<open>An event on the pipe from the transport; \<open>p\<close> is what \<open>read_packet\<close> delivers.\<close>

definition transport_socket_events ::
  "svc_env \<Rightarrow> rsa_verify \<Rightarrow> u16 \<Rightarrow> apacket option \<Rightarrow> nat \<Rightarrow> adbd \<Rightarrow> adbd res" where
  "transport_socket_events env RSA_verify events p t w =
     (if events AND FDE_READ = 0 then Inr w
      else case p of None \<Rightarrow> Inr w | Some p \<Rightarrow> handle_packet env RSA_verify p t w)"

section \<open>New transports\<close>

definition zero_transport :: atransport where
  "zero_transport = \<lparr>fd_read = 0, fd_write = 0, transport_read = 0, transport_write = 0, ref_count = 0,
     sync_token = 0, connection_state = 0, online = False, ttype = kTransportUsb, usb = None, tsfd = 0,
     serial = None, product = None, tmodel = None, device = None, devpath = None, adb_port = 0, kicked = False,
     token = replicate TOKEN_SIZE 0, auth_fde = None, failed_auth_attempts = 0\<rparr>"

definition init_usb_transport :: "nat option \<Rightarrow> int \<Rightarrow> atransport \<Rightarrow> atransport" where
  "init_usb_transport h state x =
     x\<lparr>sync_token := 1, connection_state := state, ttype := kTransportUsb, usb := h\<rparr>"

text \<open>On the device \<open>init_socket_transport\<close> cannot fail.\<close>

definition init_socket_transport :: "int \<Rightarrow> int \<Rightarrow> bool \<Rightarrow> atransport \<Rightarrow> int \<times> atransport" where
  "init_socket_transport s port local x =
     (0, x\<lparr>tsfd := s, sync_token := 1, connection_state := CS_OFFLINE, ttype := kTransportLocal, adb_port := 0\<rparr>)"

definition new_transport :: "atransport \<Rightarrow> adbd \<Rightarrow> nat \<times> adbd" where
  "new_transport x w =
     (next_trans w, w\<lparr>trans := (trans w)(next_trans w := Some x), next_trans := next_trans w + 1\<rparr>)"

text \<open>\<open>addr\<close> prints the address of the transport, for one that has no serial number.\<close>

definition register_socket_transport ::
  "(nat \<Rightarrow> byte list) \<Rightarrow> int \<Rightarrow> byte list option \<Rightarrow> int \<Rightarrow> bool \<Rightarrow> adbd \<Rightarrow> adbd res" where
  "register_socket_transport addr s ser port local w =
     (let name = (case ser of None \<Rightarrow> bytes_of_str ''T-'' @ addr (next_trans w) | Some n \<Rightarrow> n) in
      case init_socket_transport s port local zero_transport of (r, x) \<Rightarrow>
      if r < 0 then Inr (temit (CloseFd s) w)
      else case new_transport (x\<lparr>serial := Some name\<rparr>) w of (t, w) \<Rightarrow> register_transport t w)"

definition register_usb_transport ::
  "nat option \<Rightarrow> byte list option \<Rightarrow> byte list option \<Rightarrow> bool \<Rightarrow> adbd \<Rightarrow> adbd res" where
  "register_usb_transport h ser path writeable w =
     (let x = init_usb_transport h (if writeable then CS_OFFLINE else CS_NOPERM) zero_transport;
          x = x\<lparr>serial := ser, devpath := path\<rparr> in
      case new_transport x w of (t, w) \<Rightarrow> register_transport t w)"

text \<open>The loop of \<open>unregister_usb_transport\<close>, which takes the first match off the list.\<close>

fun find_usb :: "nat option \<Rightarrow> nat list \<Rightarrow> adbd \<Rightarrow> nat option res" where
  "find_usb h [] w = Inr None"
| "find_usb h (t # ts) w =
     seq (tget t w) (\<lambda>x. if usb x = h \<and> connection_state x = CS_NOPERM then Inr (Some t) else find_usb h ts w)"

definition unregister_usb_transport :: "nat option \<Rightarrow> adbd \<Rightarrow> adbd res" where
  "unregister_usb_transport h w =
     seq (find_usb h (transport_list w) w) (\<lambda>r.
     case r of None \<Rightarrow> Inr w | Some t \<Rightarrow> Inr (w\<lparr>transport_list := remove1 t (transport_list w)\<rparr>))"

section \<open>Finding a transport\<close>

definition qual_char_is_invalid :: "byte \<Rightarrow> bool" where
  "qual_char_is_invalid ch =
     (if 65 \<le> ch \<and> ch \<le> 90 then False
      else if 97 \<le> ch \<and> ch \<le> 122 then False
      else if 48 \<le> ch \<and> ch \<le> 57 then False
      else True)"

text \<open>The two loops of \<open>qual_match\<close>; at the end of \<open>to_test\<close> they meet its zero byte.\<close>

fun match_prefix :: "byte list \<Rightarrow> byte list \<Rightarrow> byte list option" where
  "match_prefix [] ts = Some ts"
| "match_prefix (p # ps) [] = None"
| "match_prefix (p # ps) (c # ts) = (if p \<noteq> c then None else match_prefix ps ts)"

fun match_chars :: "bool \<Rightarrow> byte list \<Rightarrow> byte list \<Rightarrow> bool" where
  "match_chars sanitize [] ts = (ts = [])"
| "match_chars sanitize (q # qs) [] = False"
| "match_chars sanitize (q # qs) (c # ts) =
     (let ch = (if sanitize \<and> qual_char_is_invalid q then 95 else q) in
      if ch \<noteq> c then False else match_chars sanitize qs ts)"

definition qual_match :: "byte list option \<Rightarrow> byte list option \<Rightarrow> byte list option \<Rightarrow> bool \<Rightarrow> bool" where
  "qual_match to_test pfx qual sanitize_qual =
     (case to_test of
        None \<Rightarrow> qual = None \<or> qual = Some []
      | Some ts \<Rightarrow>
          if ts = [] then qual = None \<or> qual = Some []
          else case qual of
            None \<Rightarrow> False
          | Some q \<Rightarrow>
              (case (case pfx of None \<Rightarrow> Some ts | Some ps \<Rightarrow> match_prefix ps ts) of
                 None \<Rightarrow> False
               | Some ts \<Rightarrow> match_chars sanitize_qual q ts))"

definition serial_match :: "byte list \<Rightarrow> atransport \<Rightarrow> bool" where
  "serial_match ser x =
     (serial x = Some ser \<or> devpath x = Some ser \<or>
      qual_match (Some ser) (Some (bytes_of_str ''product:'')) (product x) False \<or>
      qual_match (Some ser) (Some (bytes_of_str ''model:'')) (tmodel x) True \<or>
      qual_match (Some ser) (Some (bytes_of_str ''device:'')) (device x) False)"

text \<open>
  One pass over the list: the result, the error text, whether it was ambiguous.
\<close>

definition too_many :: "transport_type \<Rightarrow> byte list option \<Rightarrow> string" where
  "too_many ty ser =
     (case ser of
        Some _ \<Rightarrow> ''more than one device''
      | None \<Rightarrow>
          (case ty of
             kTransportUsb \<Rightarrow> ''more than one device''
           | kTransportLocal \<Rightarrow> ''more than one emulator''
           | _ \<Rightarrow> ''more than one device and emulator''))"

definition wanted :: "transport_type \<Rightarrow> byte list option \<Rightarrow> atransport \<Rightarrow> bool" where
  "wanted ty ser x =
     (case ser of
        Some s \<Rightarrow> serial_match s x
      | None \<Rightarrow>
          (if ty = kTransportUsb \<and> ttype x = kTransportUsb then True
           else if ty = kTransportLocal \<and> ttype x = kTransportLocal then True
           else ty = kTransportAny))"

fun acquire_scan ::
  "transport_type \<Rightarrow> byte list option \<Rightarrow> nat list \<Rightarrow> nat option \<Rightarrow> string \<Rightarrow> adbd \<Rightarrow> (nat option \<times> string \<times> bool) res" where
  "acquire_scan ty ser [] result err w = Inr (result, err, False)"
| "acquire_scan ty ser (t # ts) result err w =
     seq (tget t w) (\<lambda>x.
     if connection_state x = CS_NOPERM then
       acquire_scan ty ser ts result ''insufficient permissions for device'' w
     else if wanted ty ser x then
       if result \<noteq> None then Inr (None, too_many ty ser, True)
       else acquire_scan ty ser ts (Some t) err w
     else acquire_scan ty ser ts result err w)"

text \<open>
  One attempt: \<open>Inr\<close> the transport, or \<open>Inl\<close> the error text and whether the function sleeps and
  tries again.
\<close>

definition acquire_once ::
  "int \<Rightarrow> transport_type \<Rightarrow> byte list option \<Rightarrow> adbd \<Rightarrow> (string \<times> bool + nat) res" where
  "acquire_once state ty ser w =
     seq (acquire_scan ty ser (transport_list w) None ''device not found'' w) (\<lambda>(result, err, ambiguous).
     let retry = (state \<noteq> CS_ANY \<and> (ser \<noteq> None \<or> \<not> ambiguous)) in
     case result of
       None \<Rightarrow> Inr (Inl (err, retry))
     | Some t \<Rightarrow>
         seq (tget t w) (\<lambda>x.
         if connection_state x = CS_OFFLINE then Inr (Inl (''device offline'', retry))
         else if state \<noteq> CS_ANY \<and> connection_state x \<noteq> state then Inr (Inl (''invalid device state'', retry))
         else Inr (Inr t)))"

text \<open>
  The retry loop sees the daemon at one moment after the other; \<open>None\<close> is that it is still
  waiting when the list of moments ends.
\<close>

fun acquire_one_transport ::
  "int \<Rightarrow> transport_type \<Rightarrow> byte list option \<Rightarrow> adbd list \<Rightarrow> (string + nat) option res" where
  "acquire_one_transport state ty ser [] = Inr None"
| "acquire_one_transport state ty ser (w # later) =
     seq (acquire_once state ty ser w) (\<lambda>r.
     case r of
       Inr t \<Rightarrow> Inr (Some (Inr t))
     | Inl (err, retry) \<Rightarrow>
         if retry then acquire_one_transport state ty ser later else Inr (Some (Inl err)))"

section \<open>What a search finds\<close>

lemma match_prefix_iff: "match_prefix ps ts = Some us \<longleftrightarrow> ts = ps @ us"
  by (induction ps ts rule: match_prefix.induct) auto

text \<open>The characters of a qualifier, with those that are not allowed replaced by an underscore.\<close>

definition sanitized :: "bool \<Rightarrow> byte list \<Rightarrow> byte list" where
  "sanitized b q = map (\<lambda>c. if b \<and> qual_char_is_invalid c then 95 else c) q"

lemma match_chars_iff: "match_chars b q ts \<longleftrightarrow> ts = sanitized b q"
  by (induction b q ts rule: match_chars.induct) (auto simp: sanitized_def Let_def)

lemma qual_match_iff:
  "ts \<noteq> [] \<Longrightarrow> qual_match (Some ts) (Some ps) q b \<longleftrightarrow> (\<exists>c. q = Some c \<and> ts = ps @ sanitized b c)"
proof -
  assume "ts \<noteq> []"
  moreover have "match_prefix ps ts = None \<longleftrightarrow> (\<nexists>us. ts = ps @ us)" 
    using match_prefix_iff [of ps ts] by (metis not_None_eq)
  ultimately show ?thesis
    using match_prefix_iff [of ps ts] by (auto simp: qual_match_def match_chars_iff split: option.splits)
qed

lemma serial_match_iff:
  "s \<noteq> [] \<Longrightarrow> serial_match s x \<longleftrightarrow>
     serial x = Some s \<or> devpath x = Some s \<or> (\<exists>q. product x = Some q \<and> s = bytes_of_str ''product:'' @ q) \<or>
     (\<exists>q. tmodel x = Some q \<and> s = bytes_of_str ''model:'' @ sanitized True q) \<or>
     (\<exists>q. device x = Some q \<and> s = bytes_of_str ''device:'' @ q)"
proof -
  have "sanitized False q = q" for q by (simp add: sanitized_def)
  then show "s \<noteq> [] \<Longrightarrow> ?thesis" by (simp add: serial_match_def qual_match_iff)
qed

text \<open>The transports that come into question, and the answer that only depends on them.\<close>

definition matches :: "transport_type \<Rightarrow> byte list option \<Rightarrow> adbd \<Rightarrow> nat list \<Rightarrow> nat list" where
  "matches ty ser w ts = filter (\<lambda>t. case trans w t of None \<Rightarrow> False | Some x \<Rightarrow>
     connection_state x \<noteq> CS_NOPERM \<and> wanted ty ser x) ts"

definition unusable :: "adbd \<Rightarrow> nat list \<Rightarrow> bool" where
  "unusable w ts \<longleftrightarrow> list_ex (\<lambda>t. case trans w t of None \<Rightarrow> False | Some x \<Rightarrow> connection_state x = CS_NOPERM) ts"

definition not_found :: "adbd \<Rightarrow> nat list \<Rightarrow> string \<Rightarrow> string" where
  "not_found w ts err = (if unusable w ts then ''insufficient permissions for device'' else err)"

lemma acquire_scan_eq:
  assumes "set ts \<subseteq> dom (trans w)"
  shows "\<exists>err'. (result = None \<and> matches ty ser w ts = [] \<longrightarrow> err' = not_found w ts err) \<and>
    acquire_scan ty ser ts result err w = Inr
     (case (case result of None \<Rightarrow> [] | Some t \<Rightarrow> [t]) @ matches ty ser w ts of
        [] \<Rightarrow> (None, err', False)
      | [t] \<Rightarrow> (Some t, err', False)
      | _ \<Rightarrow> (None, too_many ty ser, True))"
  using assms
proof (induction ts arbitrary: result err)
  case Nil
  then show ?case by (auto simp: matches_def not_found_def unusable_def split: option.splits)
next
  case (Cons t ts)
  then obtain x where x: "trans w t = Some x" by auto
  have d: "set ts \<subseteq> dom (trans w)" using Cons.prems by simp
  consider (bad) "connection_state x = CS_NOPERM"
    | (hit) "connection_state x \<noteq> CS_NOPERM" "wanted ty ser x"
    | (miss) "connection_state x \<noteq> CS_NOPERM" "\<not> wanted ty ser x" by blast
  then show ?case
  proof cases
    case bad
    from Cons.IH [OF d, of result "''insufficient permissions for device''"] bad x show ?thesis
      by (auto simp: tget_def matches_def not_found_def unusable_def)
  next
    case hit
    from Cons.IH [OF d, of "Some t" err] hit x show ?thesis
      by (cases result) (auto simp: tget_def matches_def)
  next
    case miss
    from Cons.IH [OF d, of result err] miss x show ?thesis
      by (auto simp: tget_def matches_def not_found_def unusable_def)
  qed
qed

text \<open>
  C38: The search for a transport finds the one that fits and has the state that is asked
  for, if there is exactly one; otherwise it says which of the reasons applies, and tries
  again exactly if a state was asked for and the request is not ambiguous or names a serial
  number. A serial number also fits by product, model (with its special characters replaced)
  or device.
\<close>

theorem acquire_finds_the_one:
  assumes "set (transport_list w) \<subseteq> dom (trans w)" and "ser \<noteq> Some []"
  shows "acquire_once state ty ser w = Inr
     (case matches ty ser w (transport_list w) of
        [] \<Rightarrow> Inl (not_found w (transport_list w) ''device not found'', state \<noteq> CS_ANY)
      | [t] \<Rightarrow>
          (case trans w t of
             None \<Rightarrow> Inr t
           | Some x \<Rightarrow>
               if connection_state x = CS_OFFLINE then Inl (''device offline'', state \<noteq> CS_ANY)
               else if state = CS_ANY \<or> connection_state x = state then Inr t
               else Inl (''invalid device state'', True))
      | _ \<Rightarrow> Inl (too_many ty ser, state \<noteq> CS_ANY \<and> ser \<noteq> None)) \<and>
    (\<forall>t x s. ser = Some s \<and> trans w t = Some x \<longrightarrow> (t \<in> set (matches ty ser w [t]) \<longleftrightarrow> connection_state x \<noteq> CS_NOPERM \<and>
       (serial x = Some s \<or> devpath x = Some s \<or> (\<exists>q. product x = Some q \<and> s = bytes_of_str ''product:'' @ q) \<or>
        (\<exists>q. tmodel x = Some q \<and> s = bytes_of_str ''model:'' @ sanitized True q) \<or>
        (\<exists>q. device x = Some q \<and> s = bytes_of_str ''device:'' @ q))))"
proof
  let ?ms = "matches ty ser w (transport_list w)"
  from acquire_scan_eq [OF assms(1), of None ty ser "''device not found''"] obtain err'
    where e: "?ms = [] \<Longrightarrow> err' = not_found w (transport_list w) ''device not found''"
      and s: "acquire_scan ty ser (transport_list w) None ''device not found'' w = Inr
        (case ?ms of [] \<Rightarrow> (None, err', False) | [t] \<Rightarrow> (Some t, err', False) | _ \<Rightarrow> (None, too_many ty ser, True))"
    by auto
  show "acquire_once state ty ser w = Inr
     (case ?ms of
        [] \<Rightarrow> Inl (not_found w (transport_list w) ''device not found'', state \<noteq> CS_ANY)
      | [t] \<Rightarrow>
          (case trans w t of
             None \<Rightarrow> Inr t
           | Some x \<Rightarrow>
               if connection_state x = CS_OFFLINE then Inl (''device offline'', state \<noteq> CS_ANY)
               else if state = CS_ANY \<or> connection_state x = state then Inr t
               else Inl (''invalid device state'', True))
      | _ \<Rightarrow> Inl (too_many ty ser, state \<noteq> CS_ANY \<and> ser \<noteq> None))"
  proof (cases ?ms)
    case Nil
    with e s show ?thesis by (simp add: acquire_once_def)
  next
    case (Cons t ts)
    have "set ?ms \<subseteq> set (transport_list w)" by (auto simp: matches_def)
    then have "t \<in> set (transport_list w)" by (simp add: Cons)
    then obtain x where "trans w t = Some x" using assms(1) by auto
    with Cons e s show ?thesis by (cases ts) (auto simp: acquire_once_def tget_def)
  qed
  show "\<forall>t x s. ser = Some s \<and> trans w t = Some x \<longrightarrow> (t \<in> set (matches ty ser w [t]) \<longleftrightarrow> connection_state x \<noteq> CS_NOPERM \<and>
       (serial x = Some s \<or> devpath x = Some s \<or> (\<exists>q. product x = Some q \<and> s = bytes_of_str ''product:'' @ q) \<or>
        (\<exists>q. tmodel x = Some q \<and> s = bytes_of_str ''model:'' @ sanitized True q) \<or>
        (\<exists>q. device x = Some q \<and> s = bytes_of_str ''device:'' @ q)))" (is "\<forall>t x s. _ \<longrightarrow> ?P t x s")
  proof (intro allI impI)
    fix t x s
    assume s: "ser = Some s \<and> trans w t = Some x"
    with assms(2) have "s \<noteq> []" by auto
    from serial_match_iff [OF this, of x] s show "?P t x s" by (simp add: matches_def wanted_def)
  qed
qed

theorem acquire_finds_the_one_witness:
  "acquire_once CS_ANY kTransportUsb None demo_adbd = Inr (Inl (''device offline'', False)) \<and>
   acquire_once CS_DEVICE kTransportLocal None demo_adbd = Inr (Inl (''device not found'', True))"
  using acquire_finds_the_one [of demo_adbd None CS_ANY kTransportUsb]
    acquire_finds_the_one [of demo_adbd None CS_DEVICE kTransportLocal]
  by (simp add: demo_adbd_def demo_transport_def matches_def wanted_def not_found_def unusable_def CS_defs)

section \<open>The list of transports\<close>

lemma temit_fields [simp]:
  "trans (temit e w) = trans w" "transport_list (temit e w) = transport_list w" "reg_pipe (temit e w) = reg_pipe w"
  "next_trans (temit e w) = next_trans w" "reg_ok (temit e w) = reg_ok w" "ws (temit e w) = emit e (ws w)"
  "remotes (ws (temit e w)) = remotes (ws w)" "ainv (temit e w) = ainv w" "tget t (temit e w) = tget t w"
  by (simp_all add: temit_def set_ws_def ws_def ainv_def jinv_def tget_def)

lemma set_ws_lists [simp]:
  "transport_list (set_ws st w) = transport_list w" "reg_pipe (set_ws st w) = reg_pipe w"
  "next_trans (set_ws st w) = next_trans w" "reg_ok (set_ws st w) = reg_ok w"
  by (simp_all add: set_ws_def)

lemma ainv_lists [simp]:
  "ainv (w\<lparr>transport_list := ts\<rparr>) = ainv w" "ainv (w\<lparr>reg_pipe := ms\<rparr>) = ainv w" "ainv (w\<lparr>next_trans := n\<rparr>) = ainv w"
  "ws (w\<lparr>transport_list := ts\<rparr>) = ws w" "ws (w\<lparr>reg_pipe := ms\<rparr>) = ws w" "ws (w\<lparr>trans := f\<rparr>) = ws w"
  "ws (w\<lparr>next_trans := n\<rparr>) = ws w"
  by (simp_all add: ainv_def ws_def)

text \<open>
  Every transport on the list is alive, once; a transport that is announced in the pipe is
  alive, and on the list exactly if it is to be removed; no socket is bound to a transport that is
  not on the list; addresses are fresh.
\<close>

definition tlinv :: "adbd \<Rightarrow> bool" where
  "tlinv w \<longleftrightarrow> ainv w \<and> distinct (transport_list w) \<and> set (transport_list w) \<subseteq> dom (trans w) \<and>
     distinct (map fst (reg_pipe w)) \<and>
     (\<forall>(t, a) \<in> set (reg_pipe w). t \<in> dom (trans w) \<and> (a = 0 \<longleftrightarrow> t \<in> set (transport_list w))) \<and>
     (\<forall>t. t \<notin> set (transport_list w) \<longrightarrow> remotes (ws w) t = []) \<and> (\<forall>t \<ge> next_trans w. trans w t = None)"

lemma tlinvD:
  assumes "tlinv w"
  shows "ainv w" "distinct (transport_list w)" "t \<in> set (transport_list w) \<Longrightarrow> t \<in> dom (trans w)"
    "distinct (map fst (reg_pipe w))" "(t, a) \<in> set (reg_pipe w) \<Longrightarrow> t \<in> dom (trans w)"
    "(t, a) \<in> set (reg_pipe w) \<Longrightarrow> a = 0 \<longleftrightarrow> t \<in> set (transport_list w)"
    "t \<notin> set (transport_list w) \<Longrightarrow> remotes (ws w) t = []" "next_trans w \<le> t \<Longrightarrow> trans w t = None"
  using assms by (auto simp: tlinv_def)

lemma register_keeps:
  assumes inv: "tlinv w" and x: "length (token x) = TOKEN_SIZE" and n: "new_transport x w = (t, w1)"
  shows "safe_res tlinv (register_transport t w1)"
proof -
  note D = tlinvD [OF inv]
  have t: "t = next_trans w" "w1 = w\<lparr>trans := (trans w)(t := Some x), next_trans := next_trans w + 1\<rparr>"
    using n by (auto simp: new_transport_def)
  have none: "trans w t = None" using D(8) t by simp
  have new: "t \<notin> set (transport_list w)" "\<And>a. (t, a) \<notin> set (reg_pipe w)" "remotes (ws w) t = []"
    using D(3) [of t] D(5) [of t] D(7) [of t] none by auto
  have "ainv w1" using D(1) x unfolding ainv_def t(2) by auto
  then have "tlinv (w1\<lparr>reg_pipe := reg_pipe w1 @ [(t, 1)]\<rparr>)"
    using inv new t(1) unfolding tlinv_def t(2)
    by (auto simp: image_iff split: if_splits)
  then show ?thesis by (simp add: register_transport_def)
qed

lemma tupd_eq: "trans w t = Some x \<Longrightarrow> tupd t f w = Inr (w\<lparr>trans := (trans w)(t := Some (f x))\<rparr>)"
  by (simp add: tupd_def tget_def)

text \<open>Changing the fields of a live transport or adding effects does not matter.\<close>

lemma tlinv_frame:
  assumes "tlinv w" and "ainv w'" and "transport_list w' = transport_list w" "reg_pipe w' = reg_pipe w"
    "next_trans w' = next_trans w" "dom (trans w') = dom (trans w)" "remotes (ws w') = remotes (ws w)"
  shows "tlinv w'"
proof -
  have "\<And>t. trans w' t = None \<longleftrightarrow> trans w t = None" using assms(6) by (metis domIff)
  with assms show ?thesis by (simp add: tlinv_def)
qed

lemma tupd_tlinv:
  assumes "tlinv w" and "trans w t = Some x" and "token (f x) = token x"
  shows "tlinv (w\<lparr>trans := (trans w)(t := Some (f x))\<rparr>)"
  by (rule tlinv_frame [OF assms(1)])
    (use tlinvD(1) [OF assms(1)] assms(2,3) in \<open>auto simp: ainv_def\<close>)

lemma temit_tlinv: "tlinv w \<Longrightarrow> tlinv (temit e w)"
  by (rule tlinv_frame [of w]) (simp_all add: tlinvD)

lemma start_transport_keeps:
  assumes inv: "tlinv w" and x: "trans w t = Some x"
  shows "safe_res (\<lambda>w'. tlinv w' \<and> transport_list w' = transport_list w \<and> reg_pipe w' = reg_pipe w \<and>
    dom (trans w') = dom (trans w) \<and> remotes (ws w') = remotes (ws w)) (start_transport env t w)"
proof -
  let ?x = "x\<lparr>ref_count := 2\<rparr>"
  let ?w = "w\<lparr>trans := (trans w)(t := Some ?x)\<rparr>"
  have i: "tlinv ?w" by (rule tupd_tlinv [where f = "\<lambda>x. x\<lparr>ref_count := 2\<rparr>", OF inv x]) simp
  have "tlinv (?w\<lparr>trans := (trans ?w)(t := Some (?x\<lparr>fd_read := a, fd_write := b, transport_read := c, transport_write := d\<rparr>))\<rparr>)"
    for a b c d
    by (rule tupd_tlinv [where f = "\<lambda>x. x\<lparr>fd_read := a, fd_write := b, transport_read := c, transport_write := d\<rparr>", OF i]) simp_all
  then show ?thesis
    using x by (auto simp: start_transport_def tupd_eq temit_tlinv Let_def split: option.splits prod.splits)
qed

lemma enlist_tlinv:
  assumes inv: "tlinv w" and t: "t \<in> dom (trans w)" "t \<notin> set (transport_list w)"
    and p: "t \<notin> fst ` set (reg_pipe w)"
  shows "tlinv (enlist_transport t w)"
proof -
  have "(ws w)\<lparr>remotes := (remotes (ws w))(t := [])\<rparr> = ws w"
    using tlinvD(7) [OF inv t(2)] by (simp add: fun_upd_idem)
  moreover have "set_ws (ws w) w = w" by (simp add: set_ws_def ws_def)
  ultimately have "enlist_transport t w = w\<lparr>transport_list := transport_list w @ [t]\<rparr>"
    by (simp add: enlist_transport_def Let_def set_ws_def ws_def)
  moreover have "(t, a) \<notin> set (reg_pipe w)" for a using p by (metis fst_conv imageI)
  then have "\<forall>(u, a) \<in> set (reg_pipe w). u \<in> dom (trans w) \<and> (a = 0 \<longleftrightarrow> u \<in> set (transport_list w @ [t]))"
    using tlinvD(5,6) [OF inv] by fastforce
  moreover have "distinct (transport_list w @ [t])" "set (transport_list w @ [t]) \<subseteq> dom (trans w)"
    using tlinvD(2,3) [OF inv] t by auto
  ultimately show ?thesis using inv unfolding tlinv_def by simp
qed

lemma close_all_shrinks:
  "close_all_sockets t st = Inr st' \<Longrightarrow>
     jdwp_pids st' = jdwp_pids st \<and> (\<forall>u. set (remotes st' u) \<subseteq> set (remotes st u))"
proof (induction t st rule: close_all_sockets.induct)
  case (1 t st)
  from "1.prems" obtain r where r: "find_bound t (slist st) st = Inr r"
    by (auto simp: close_all_sockets.simps [of t st] seq_eq_Inr)
  show ?case
  proof (cases r)
    case None
    with r "1.prems" show ?thesis by (simp add: close_all_sockets.simps [of t st])
  next
    case (Some a)
    with r "1.prems" obtain st1 where s1: "run_close LocalClose a st = Inr st1" "close_all_sockets t st1 = Inr st'"
      by (auto simp: close_all_sockets.simps [of t st] seq_eq_Inr simp del: run_close.simps)
    from "1.IH" [OF r Some s1] run_close_pids [OF s1(1)] rshrink.R_run_close [OF s1(1)] show ?thesis
      by (simp, blast)
  qed
qed

lemma dropped_tlinv:
  assumes inv: "tlinv w" and p: "t \<notin> fst ` set (reg_pipe w)" and a: "ainv w'"
    and f: "trans w' = (trans w)(t := None)" "transport_list w' = remove1 t (transport_list w)"
      "reg_pipe w' = reg_pipe w" "next_trans w' = next_trans w"
      "\<And>u. u = t \<or> u \<notin> set (transport_list w) \<Longrightarrow> remotes (ws w') u = []"
  shows "tlinv w' \<and> trans w' t = None \<and> t \<notin> set (transport_list w') \<and> remotes (ws w') t = []"
proof -
  note D = tlinvD [OF inv]
  have "\<forall>(u, b) \<in> set (reg_pipe w). u \<in> dom ((trans w)(t := None)) \<and> (b = 0 \<longleftrightarrow> u \<in> set (remove1 t (transport_list w)))"
    using D(2,5,6) p by (force simp: image_iff)
  moreover have "distinct (remove1 t (transport_list w))" using D(2) by simp
  moreover have "set (remove1 t (transport_list w)) \<subseteq> dom ((trans w)(t := None))" using D(2,3) by auto
  moreover have "\<forall>u. u \<notin> set (remove1 t (transport_list w)) \<longrightarrow> remotes (ws w') u = []" using f(5) D(2) by auto
  ultimately have "tlinv w'" using a D(4,8) unfolding tlinv_def f by simp
  then show ?thesis using f(5) [of t] D(2) by (simp add: f)
qed

lemma drop_transport_keeps:
  assumes inv: "tlinv w" and t: "t \<in> set (transport_list w)" "t \<notin> fst ` set (reg_pipe w)" and tr: "trackers (ws w) = []"
  shows "safe_res (\<lambda>w'. tlinv w' \<and> trans w' t = None \<and> t \<notin> set (transport_list w') \<and> remotes (ws w') t = [])
    (drop_transport t w)"
proof -
  note D = tlinvD [OF inv]
  note I = ainvD(2) [OF D(1)]
  show ?thesis
    unfolding drop_transport_def
  proof (rule safe_res_seq_eq)
    show "safe_res (keeps w) (on_socks (close_all_sockets t) w)"
      by (rule on_socks_keeps [where f = "close_all_sockets t", OF D(1) close_all_sockets_safe [OF I tr]]) (use close_all_shrinks in blast)
    fix w1
    assume e1: "on_socks (close_all_sockets t) w = Inr w1" and k1: "keeps w w1"
    from e1 obtain st1 where st1: "close_all_sockets t (ws w) = Inr st1" "w1 = set_ws st1 w"
      by (auto simp: on_socks_def seq_eq_Inr)
    have r1: "set (remotes (ws w1) u) \<subseteq> set (remotes (ws w) u)" for u
      using close_all_shrinks [OF st1(1)] st1(2) by simp
    from k1 have a1: "ainv w1" by (rule keepsD)
    from D(3) [OF t(1)] obtain x where x: "tget t w1 = Inr x" using st1(2) by (auto simp: tget_def)
    define w2 where "w2 = (close_pipes x (temit (FdOp (OpRemove (tfde_of t))) w1))
      \<lparr>transport_list := remove1 t (transport_list w)\<rparr>"
    have f2: "ainv w2" "trans w2 = trans w" "reg_pipe w2 = reg_pipe w" "next_trans w2 = next_trans w"
      "remotes (ws w2) = remotes (ws w1)" "transport_list w2 = remove1 t (transport_list w)"
      using a1 by (simp_all add: w2_def close_pipes_def st1(2))
    note I2 = ainvD(2) [OF f2(1)]
    have "safe_res (\<lambda>w'. tlinv w' \<and> trans w' t = None \<and> t \<notin> set (transport_list w') \<and> remotes (ws w') t = [])
      (seq (on_socks (run_transport_disconnects t) w2) (\<lambda>w. Inr (w\<lparr>trans := (trans w)(t := None)\<rparr>)))"
      unfolding on_socks_def seq_assoc
    proof (rule safe_res_seq_eq [OF run_transport_disconnects_all [OF I2, of t]])
      fix st3
      assume e3: "run_transport_disconnects t (ws w2) = Inr st3"
        and s3: "sinv st3 \<and> (\<forall>u. set (remotes st3 u) = set (remotes (ws w2) u) - set (remotes (ws w2) t))"
      let ?w = "(set_ws st3 w2)\<lparr>trans := (trans w2)(t := None)\<rparr>"
      have r3: "remotes st3 u = []" if "u = t \<or> u \<notin> set (transport_list w)" for u
      proof -
        have "set (remotes st3 u) \<subseteq> {}"
          using s3 r1 [of u] D(7) [of u] that f2(5) by (cases "u = t") auto
        then show ?thesis by simp
      qed
      have "ainv (set_ws st3 w2)"
        by (rule ainv_set_ws [OF f2(1)]) (use s3 transport_disconnects_pids [OF e3] in auto)
      then have "ainv ?w" by (auto simp: ainv_def)
      from dropped_tlinv [OF inv t(2) this] r3
      have "tlinv ?w \<and> trans ?w t = None \<and> t \<notin> set (transport_list ?w) \<and> remotes (ws ?w) t = []" by (simp add: f2)
      then show "safe_res (\<lambda>w'. tlinv w' \<and> trans w' t = None \<and> t \<notin> set (transport_list w') \<and> remotes (ws w') t = [])
          (seq (Inr (set_ws st3 w2)) (\<lambda>w. Inr (w\<lparr>trans := (trans w)(t := None)\<rparr>)))"
        by simp
    qed
    then show "safe_res (\<lambda>w'. tlinv w' \<and> trans w' t = None \<and> t \<notin> set (transport_list w') \<and> remotes (ws w') t = [])
      (seq (tget t w1) (\<lambda>x. let w = close_pipes x (temit (FdOp (OpRemove (tfde_of t))) w1);
         w = w\<lparr>transport_list := remove1 t (transport_list w)\<rparr> in
       seq (on_socks (run_transport_disconnects t) w) (\<lambda>w. Inr (w\<lparr>trans := (trans w)(t := None)\<rparr>))))"
      unfolding x seq_Inr Let_def by (simp add: w2_def close_pipes_def st1(2))
  qed
qed

lemma pop_tlinv:
  assumes "tlinv w" and "reg_pipe w = m # ms"
  shows "tlinv (w\<lparr>reg_pipe := ms\<rparr>)"
  using assms unfolding tlinv_def by simp

lemma registration_keeps:
  assumes inv: "tlinv w" and m: "reg_pipe w = (t, a) # ms" and tr: "a = 0 \<longrightarrow> trackers (ws w) = []"
  shows "safe_res (\<lambda>w'. tlinv w' \<and> (if a = 0 then trans w' t = None \<and> t \<notin> set (transport_list w') \<and> remotes (ws w') t = []
      else t \<in> set (transport_list w'))) (transport_registration_func env FDE_READ w)"
proof -
  let ?w = "w\<lparr>reg_pipe := ms\<rparr>"
  note P = pop_tlinv [OF inv m]
  have t: "t \<in> dom (trans w)" "a = 0 \<longleftrightarrow> t \<in> set (transport_list w)" "t \<notin> fst ` set ms"
    using tlinvD(5,6) [OF inv, of t a] tlinvD(4) [OF inv] m by auto
  have ev: "FDE_READ AND FDE_READ \<noteq> 0" by (simp add: FDE_READ_def)
  show ?thesis
  proof (cases "a = 0")
    case True
    with drop_transport_keeps [OF P] t tr m ev show ?thesis
      by (simp add: transport_registration_func_def)
  next
    case False
    from t(1) obtain x where x: "trans w t = Some x" by blast
    have en: "safe_res (\<lambda>w'. tlinv w' \<and> t \<in> set (transport_list w')) (Inr (enlist_transport t w1))"
      if "tlinv w1 \<and> transport_list w1 = transport_list ?w \<and> reg_pipe w1 = reg_pipe ?w \<and>
        dom (trans w1) = dom (trans ?w) \<and> remotes (ws w1) = remotes (ws ?w)" for w1
    proof -
      have "tlinv (enlist_transport t w1)" by (rule enlist_tlinv) (use that t False in auto)
      then show ?thesis by (simp add: enlist_transport_def Let_def)
    qed
    have "safe_res (\<lambda>w'. tlinv w' \<and> t \<in> set (transport_list w'))
      (seq (if connection_state x \<noteq> CS_NOPERM then start_transport env t ?w else Inr ?w)
        (\<lambda>w. Inr (enlist_transport t w)))"
    proof (cases "connection_state x = CS_NOPERM")
      case True
      with en [of ?w] P show ?thesis by simp
    next
      case False
      then show ?thesis using x by (simp add: safe_res_seq [OF start_transport_keeps [OF P, of t x env] en])
    qed
    with False x m ev show ?thesis by (simp add: transport_registration_func_def tget_def Let_def)
  qed
qed

text \<open>With nobody left to tell, no remote socket of the transport is alive.\<close>

lemma no_remotes:
  assumes "tlinv w" and "remotes (ws w) t = []" and "hp (ws w) b = Some u" and "close_op u = RemoteClose"
  shows "transport u \<noteq> Some t"
proof -
  have "sinv (ws w)" using assms(1) by (auto simp: tlinv_def ainv_def jinv_def ws_def)
  from sinvD(8) [OF this, of b t] assms(2-4) show ?thesis by auto
qed

text \<open>
  C4: Messages of the registration pipe are carried out without a fault and keep the list of
  transports consistent: a registered transport is on the list afterwards; a removed one
  is off the list and freed, and no remote socket refers to it any more. A removal is covered
  only while no process tracker (\<open>track-jdwp\<close>) is open: with one, \<open>close_all_sockets\<close> leaves a dangling
  tracker behind, as shown by \<open>tracker_dangles_after_close_all\<close>. A transport that
  registers itself, over USB or over a socket, keeps the list consistent as well.
\<close>

theorem registration_safe:
  assumes "tlinv w"
  shows "safe_res tlinv (register_usb_transport h ser path writeable w) \<and>
    safe_res tlinv (register_socket_transport addr s ser port local w) \<and>
    (\<forall>t a ms. reg_pipe w = (t, a) # ms \<and> (a = 0 \<longrightarrow> trackers (ws w) = []) \<longrightarrow>
       safe_res (\<lambda>w'. tlinv w' \<and> (if a = 0 then trans w' t = None \<and> t \<notin> set (transport_list w') \<and>
           (\<forall>b u. hp (ws w') b = Some u \<longrightarrow> close_op u = RemoteClose \<longrightarrow> transport u \<noteq> Some t)
         else t \<in> set (transport_list w'))) (transport_registration_func env FDE_READ w))"
proof -
  have z: "length (token zero_transport) = TOKEN_SIZE" by (simp add: zero_transport_def)
  have r: "safe_res tlinv (case new_transport x w of (t, w) \<Rightarrow> register_transport t w)"
    if "length (token x) = TOKEN_SIZE" for x
    using register_keeps [OF assms that] by (cases "new_transport x w") simp
  have "safe_res (\<lambda>w'. tlinv w' \<and> (if a = 0 then trans w' t = None \<and> t \<notin> set (transport_list w') \<and>
        (\<forall>b u. hp (ws w') b = Some u \<longrightarrow> close_op u = RemoteClose \<longrightarrow> transport u \<noteq> Some t)
      else t \<in> set (transport_list w'))) (transport_registration_func env FDE_READ w)"
    if "reg_pipe w = (t, a) # ms" "a = 0 \<longrightarrow> trackers (ws w) = []" for t a ms
    by (rule safe_res_mono [OF registration_keeps [OF assms that]]) (use no_remotes in \<open>auto split: if_splits\<close>)
  with r z show ?thesis
    by (simp add: register_usb_transport_def register_socket_transport_def init_usb_transport_def
        init_socket_transport_def Let_def)
qed

definition demo_listed :: adbd where
  "demo_listed = demo_adbd\<lparr>vw := demo_vworld\<lparr>jw := (jw demo_vworld)\<lparr>jsw := start_world\<lparr>jdwp_pids := [4660]\<rparr>\<rparr>\<rparr>,
     reg_pipe := [(0, 0)]\<rparr>"

lemma demo_tlinv: "tlinv demo_listed" "reg_pipe demo_listed = (0, 0) # []" "trackers (ws demo_listed) = []"
proof -
  have "jinv (jw (vw demo_listed))"
    using demo_env_ok(2) start_inv sinv_pids
    by (simp add: demo_listed_def jinv_def demo_vworld_def demo_jworld_def)
  then have "ainv demo_listed"
    using demo_ainv(1) by (simp add: ainv_def demo_listed_def demo_adbd_def)
  then show "tlinv demo_listed"
    by (simp add: tlinv_def) (simp add: demo_listed_def demo_adbd_def ws_def start_world_def)
  show "reg_pipe demo_listed = (0, 0) # []" "trackers (ws demo_listed) = []"
    by (simp_all add: demo_listed_def ws_def start_world_def)
qed

theorem registration_safe_witness:
  "safe_res tlinv (register_usb_transport (Some 3) None None True demo_listed) \<and>
   safe_res (\<lambda>w'. tlinv w' \<and> trans w' 0 = None \<and> 0 \<notin> set (transport_list w') \<and>
     (\<forall>b u. hp (ws w') b = Some u \<longrightarrow> close_op u = RemoteClose \<longrightarrow> transport u \<noteq> Some 0))
     (transport_registration_func \<lparr>io_to_main = None, main_to_io = None, input_ok = True, output_ok = True\<rparr> FDE_READ demo_listed)"
  using registration_safe [OF demo_tlinv(1), of "Some 3" None None True "\<lambda>_. []" 0 0 True
      "\<lparr>io_to_main = None, main_to_io = None, input_ok = True, output_ok = True\<rparr>"] demo_tlinv(2,3)
  by simp

definition pipe_closes :: "atransport \<Rightarrow> effect list" where
  "pipe_closes x = map CloseFd [fd_read x, fd_write x, transport_read x, transport_write x]"

text \<open>
  The four descriptors of a transport over a socket are closed twice: once by its own close
  function, in the thread that drops the last reference, and once more when the main
  thread removes the transport, when the numbers may already belong to somebody else.
\<close>

theorem local_pipes_closed_twice:
  assumes "trans w t = Some x" and "ttype x = kTransportLocal" and "ref_count x = 1" and "kicked x" and "reg_ok w"
    and "slist (ws w) = []" and "remotes (ws w) t = []"
  shows "\<exists>w1 w2. transport_unref (Some t) w = Inr w1 \<and> drop_transport t w1 = Inr w2 \<and>
    effects (ws w2) = effects (ws w) @ pipe_closes x @ FdOp (OpRemove (tfde_of t)) # pipe_closes x"
proof -
  let ?x = "x\<lparr>ref_count := 0\<rparr>"
  define w1 where "w1 = (close_pipes ?x (w\<lparr>trans := (trans w)(t := Some ?x)\<rparr>))\<lparr>reg_pipe := reg_pipe w @ [(t, 0)]\<rparr>"
  have u: "transport_unref (Some t) w = Inr w1"
    using assms(1-5) by (simp add: transport_unref_def transport_unref_locked_def tupd_eq tget_def transport_close_def
        local_remote_close_def remove_transport_def close_pipes_def w1_def)
  have f: "ws w1 = (ws w)\<lparr>effects := effects (ws w) @ pipe_closes x\<rparr>" "trans w1 t = Some ?x"
    by (simp_all add: w1_def close_pipes_def pipe_closes_def emit_def)
  have n: "close_all_sockets t st = Inr st" if "slist st = []" for st
    using that by (simp add: close_all_sockets.simps [of t st])
  have d: "run_transport_disconnects t st = Inr st" if "remotes st t = []" for st
    using that by (simp add: run_transport_disconnects_def)
  have "\<exists>w2. drop_transport t w1 = Inr w2 \<and>
      effects (ws w2) = effects (ws w) @ pipe_closes x @ FdOp (OpRemove (tfde_of t)) # pipe_closes x"
    using f n d assms(6,7)
    by (simp add: drop_transport_def on_socks_def tget_def close_pipes_def pipe_closes_def)
  with u show ?thesis by blast
qed

definition demo_tcp :: adbd where
  "demo_tcp = demo_listed\<lparr>trans := [0 \<mapsto> demo_transport\<lparr>ttype := kTransportLocal, ref_count := 1, kicked := True,
     fd_read := 21, fd_write := 22, transport_read := 23, transport_write := 24\<rparr>]\<rparr>"

theorem local_pipes_closed_twice_witness:
  "\<exists>w1 w2. transport_unref (Some 0) demo_tcp = Inr w1 \<and> drop_transport 0 w1 = Inr w2 \<and>
     effects (ws w2) = [CloseFd 21, CloseFd 22, CloseFd 23, CloseFd 24, FdOp (OpRemove (tfde_of 0)),
       CloseFd 21, CloseFd 22, CloseFd 23, CloseFd 24]"
proof -
  have "effects (ws demo_tcp) = []" "slist (ws demo_tcp) = []" "remotes (ws demo_tcp) 0 = []" "reg_ok demo_tcp"
    by (simp_all add: demo_tcp_def demo_listed_def demo_adbd_def ws_def start_world_def)
  with local_pipes_closed_twice [of demo_tcp 0 "demo_transport\<lparr>ttype := kTransportLocal, ref_count := 1, kicked := True,
     fd_read := 21, fd_write := 22, transport_read := 23, transport_write := 24\<rparr>"]
  show ?thesis by (simp add: demo_tcp_def pipe_closes_def)
qed

end
