(* ===== verification/Abort_Socket.thy ===== *)
theory Abort_Socket
  imports Prelude
begin

text \<open>
  Sockets whose blocking calls another thread can abort (\<open>src/abort_socket.c\<close>). A socket has a pipe of its
  own; every call first waits with \<open>poll\<close> on the socket and on the pipe. The state is the number of
  bytes in the pipe and the calls made on the descriptors; what the kernel answers is an argument.
\<close>

section \<open>State and answers\<close>

datatype aerr = Sys errno | INTR | INPROGRESS | TIMEDOUT | CANCELED | CONNABORTED | SockErr int

datatype iocall = Connected | Accepted | Read nat | Wrote "byte list" | ShutDown int | Closed int | FreedSock

record asock =
  as_fd :: int
  abort_fd0 :: int
  abort_fd1 :: int

record aworld =
  pipe_bytes :: nat
  calls :: "iocall list"
  aerrno :: aerr

definition did :: "iocall \<Rightarrow> aworld \<Rightarrow> aworld" where
  "did c w = w\<lparr>calls := calls w @ [c]\<rparr>"

text \<open>
  One answer of \<open>poll\<close>: an error, the end of the time, or the number of ready descriptors with the events
  of the socket. A call that is answered by nothing waits. Bytes in the pipe make the pipe ready,
  so that \<open>poll\<close> neither waits nor runs out of time.
\<close>

datatype poll_answer = PollIntr | PollFail errno | PollTimeout | PollReady int u32

definition POLLIN :: u32 where "POLLIN = 1"
definition POLLOUT :: u32 where "POLLOUT = 4"

datatype polled = PolledErr errno | PolledNone | PolledReady int u32 u32

fun poll_loop :: "nat \<Rightarrow> poll_answer list \<Rightarrow> polled option" where
  "poll_loop n [] = (if n > 0 then Some (PolledReady 1 0 POLLIN) else None)"
| "poll_loop n (PollIntr # k) = poll_loop n k"
| "poll_loop n (PollFail e # k) = Some (PolledErr e)"
| "poll_loop n (PollTimeout # k) = Some (if n > 0 then PolledReady 1 0 POLLIN else PolledNone)"
| "poll_loop n (PollReady r ev # k) = Some (PolledReady r ev (if n > 0 then POLLIN else 0))"

text \<open>The retry of a call that is interrupted: its first other result.\<close>

fun retry :: "(aerr + int) list \<Rightarrow> (aerr + int) option" where
  "retry [] = None"
| "retry (Inl INTR # k) = retry k"
| "retry (r # k) = Some r"

text \<open>The result of a call is its return value and the state; \<open>None\<close> when it does not return.\<close>

type_synonym aresult = "(int \<times> aworld) option"

definition failed :: "aerr \<Rightarrow> aworld \<Rightarrow> aresult" where
  "failed e w = Some (-1, w\<lparr>aerrno := e\<rparr>)"

definition finish :: "(aerr + int) option \<Rightarrow> aworld \<Rightarrow> aresult" where
  "finish r w = (case r of None \<Rightarrow> None | Some (Inl e) \<Rightarrow> failed e w | Some (Inr n) \<Rightarrow> Some (n, w))"

text \<open>The wait in front of every call: \<open>go\<close> continues with the result of \<open>poll\<close> and the events of the socket.\<close>

definition await :: "poll_answer list \<Rightarrow> aworld \<Rightarrow> (int \<Rightarrow> u32 \<Rightarrow> aresult) \<Rightarrow> aresult" where
  "await ps w go =
     (case poll_loop (pipe_bytes w) ps of
        None \<Rightarrow> None
      | Some (PolledErr e) \<Rightarrow> failed (Sys e) w
      | Some PolledNone \<Rightarrow> failed TIMEDOUT w
      | Some (PolledReady ret ev abort_ev) \<Rightarrow> if abort_ev \<noteq> 0 then failed CANCELED w else go ret ev)"

section \<open>The calls\<close>

definition asocket_accept :: "poll_answer list \<Rightarrow> (aerr + int) list \<Rightarrow> aworld \<Rightarrow> aresult" where
  "asocket_accept ps rs w =
     await ps w (\<lambda>ret ev.
       if ev \<noteq> 0 then
         if ev AND POLLIN \<noteq> 0 then finish (retry rs) (did Accepted w) else failed CONNABORTED w
       else Some (ret, w))"

definition asocket_read :: "nat \<Rightarrow> poll_answer list \<Rightarrow> (aerr + int) list \<Rightarrow> aworld \<Rightarrow> aresult" where
  "asocket_read count ps rs w =
     await ps w (\<lambda>ret ev.
       if ev \<noteq> 0 then
         if ev AND POLLIN \<noteq> 0 then finish (retry rs) (did (Read count) w) else failed CONNABORTED w
       else Some (ret, w))"

definition asocket_write :: "byte list \<Rightarrow> poll_answer list \<Rightarrow> (aerr + int) list \<Rightarrow> aworld \<Rightarrow> aresult" where
  "asocket_write buf ps rs w =
     await ps w (\<lambda>ret ev.
       if ev \<noteq> 0 then
         if ev AND POLLOUT \<noteq> 0 then finish (retry rs) (did (Wrote buf) w) else failed CONNABORTED w
       else Some (ret, w))"

text \<open>
  \<open>connect\<close> is tried first. After the wait, \<open>so\<close> is the answer of \<open>getsockopt\<close>: an error, or the pending
  error of the socket, which becomes the return value.
\<close>

definition asocket_connect :: "poll_answer list \<Rightarrow> (aerr + int) list \<Rightarrow> aerr + int \<Rightarrow> aworld \<Rightarrow> aresult" where
  "asocket_connect ps rs so w =
     (let w = did Connected w in
      case retry rs of
        None \<Rightarrow> None
      | Some (Inl INPROGRESS) \<Rightarrow>
          await ps w (\<lambda>ret ev.
            if ev \<noteq> 0 then
              if ev AND POLLOUT \<noteq> 0 then
                (case so of
                   Inl e \<Rightarrow> failed e w
                 | Inr ret \<Rightarrow> Some (ret, if ret \<noteq> 0 then w\<lparr>aerrno := SockErr ret\<rparr> else w))
              else failed CONNABORTED w
            else Some (ret, w))
      | Some (Inl e) \<Rightarrow> failed e w
      | Some (Inr n) \<Rightarrow> Some (n, w))"

text \<open>
  \<open>asocket_abort\<close>: the byte goes into the pipe unless it is full, which then holds bytes already
  (\<open>full\<close>).
\<close>

definition asocket_abort :: "bool \<Rightarrow> asock \<Rightarrow> aworld \<Rightarrow> aworld" where
  "asocket_abort full s w =
     (let w = did (ShutDown (as_fd s)) w in if full \<and> pipe_bytes w > 0 then w else w\<lparr>pipe_bytes := pipe_bytes w + 1\<rparr>)"

definition asocket_destroy :: "bool \<Rightarrow> asock \<Rightarrow> aworld \<Rightarrow> asock \<times> aworld" where
  "asocket_destroy full s w =
     (\<lparr>as_fd = -1, abort_fd0 = -1, abort_fd1 = -1\<rparr>,
      did FreedSock (did (Closed (as_fd s)) (did (Closed (abort_fd0 s)) (did (Closed (abort_fd1 s)) (asocket_abort full s w)))))"

text \<open>
  \<open>asocket_init\<close>: whether the flags could be read and set, the pipe, the same for its writing end,
  and whether there is memory. The descriptors of the pipe are the second part of the result.
\<close>

definition asocket_init :: "int \<Rightarrow> bool \<Rightarrow> bool \<Rightarrow> (int \<times> int) option \<Rightarrow> bool \<Rightarrow> bool \<Rightarrow> bool \<Rightarrow> asock option \<times> int list" where
  "asocket_init fd getfl setfl pipe getfl1 setfl1 malloc =
     (if \<not> getfl then (None, [])
      else if \<not> setfl then (None, [])
      else case pipe of
        None \<Rightarrow> (None, [])
      | Some (a0, a1) \<Rightarrow>
          if \<not> getfl1 then (None, [a0, a1])
          else if \<not> setfl1 then (None, [a0, a1])
          else if \<not> malloc then (None, [a0, a1])
          else (Some \<lparr>as_fd = fd, abort_fd0 = a0, abort_fd1 = a1\<rparr>, [a0, a1]))"

section \<open>Aborted calls\<close>

text \<open>The contract of the calls that wait first: once the pipe holds a byte, nothing is done on the socket.\<close>

locale abortable =
  fixes call :: "poll_answer list \<Rightarrow> (aerr + int) list \<Rightarrow> aworld \<Rightarrow> aresult"
  assumes waits_first: "\<exists>go. \<forall>ps rs w. call ps rs w = await ps w (go rs w)"
begin

lemma cancelled:
  assumes "pipe_bytes w > 0"
  shows "\<exists>e. call ps rs w = failed e w \<and> (e = CANCELED \<or> (\<exists>en. PollFail en \<in> set ps \<and> e = Sys en))"
proof -
  have "poll_loop (pipe_bytes w) ps = Some p \<Longrightarrow>
      (\<exists>r ev. p = PolledReady r ev POLLIN) \<or> (\<exists>en. PollFail en \<in> set ps \<and> p = PolledErr en)" for p
    using assms by (induction "pipe_bytes w" ps rule: poll_loop.induct) auto
  moreover have "poll_loop (pipe_bytes w) ps \<noteq> None"
    using assms by (induction "pipe_bytes w" ps rule: poll_loop.induct) auto
  ultimately show ?thesis
    using waits_first by (fastforce simp: await_def POLLIN_def)
qed

lemma returns_when_ready:
  assumes "call ps rs w = None" shows "pipe_bytes w = 0"
  using cancelled [of w ps rs] assms by (auto simp: failed_def)

end

interpretation a_accept: abortable asocket_accept
  by unfold_locales (auto simp: asocket_accept_def fun_eq_iff)

interpretation a_read: abortable "asocket_read count" for count
  by unfold_locales (auto simp: asocket_read_def fun_eq_iff)

interpretation a_write: abortable "asocket_write buf" for buf
  by unfold_locales (auto simp: asocket_write_def fun_eq_iff)


text \<open>The calls of a thread, and \<open>asocket_abort\<close> of another between them.\<close>

datatype acall = Accept | ReadCall nat | WriteCall "byte list"

fun run_call :: "acall \<Rightarrow> poll_answer list \<Rightarrow> (aerr + int) list \<Rightarrow> aworld \<Rightarrow> aresult" where
  "run_call Accept ps rs w = asocket_accept ps rs w"
| "run_call (ReadCall n) ps rs w = asocket_read n ps rs w"
| "run_call (WriteCall b) ps rs w = asocket_write b ps rs w"

lemma run_call_cancelled:
  "pipe_bytes w > 0 \<Longrightarrow>
   \<exists>e. run_call c ps rs w = failed e w \<and> (e = CANCELED \<or> (\<exists>en. PollFail en \<in> set ps \<and> e = Sys en))"
  by (cases c) (simp_all add: a_accept.cancelled a_read.cancelled a_write.cancelled)

fun run_calls :: "(acall \<times> poll_answer list \<times> (aerr + int) list) list \<Rightarrow> aworld \<Rightarrow> (int list \<times> aworld) option" where
  "run_calls [] w = Some ([], w)"
| "run_calls ((c, ps, rs) # cs) w =
     (case run_call c ps rs w of
        None \<Rightarrow> None
      | Some (r, w) \<Rightarrow> map_option (\<lambda>(rs, w). (r # rs, w)) (run_calls cs w))"

text \<open>
  After \<open>asocket_abort\<close>, accepting, reading and writing never wait and never touch the socket again, however
  often they are called: each of them returns -1 at once, because the byte in the pipe is never
  taken out.
\<close>

theorem aborted_for_ever:
  "\<exists>w'. run_calls cs (asocket_abort full s w) = Some (replicate (length cs) (-1), w') \<and>
     calls w' = calls w @ [ShutDown (as_fd s)]"
proof -
  have "\<exists>w'. run_calls cs w = Some (replicate (length cs) (-1), w') \<and> calls w' = calls w" if "pipe_bytes w > 0" for w
    using that
  proof (induction cs arbitrary: w)
    case (Cons c cs)
    obtain a ps rs where c: "c = (a, ps, rs)" by (cases c)
    obtain e where e: "run_call a ps rs w = Some (-1, w\<lparr>aerrno := e\<rparr>)"
      using run_call_cancelled [OF Cons.prems, of a ps rs] by (auto simp: failed_def)
    with Cons.IH [of "w\<lparr>aerrno := e\<rparr>"] Cons.prems c show ?case by auto
  qed simp
  moreover have "pipe_bytes (asocket_abort full s w) > 0" "calls (asocket_abort full s w) = calls w @ [ShutDown (as_fd s)]"
    by (simp_all add: asocket_abort_def did_def Let_def)
  ultimately show ?thesis by metis
qed

text \<open>
  The error is the one the interface promises: \<open>ECANCELED\<close>, unless \<open>poll\<close> itself fails.
\<close>

theorem aborted_call_cancelled:
  assumes "\<forall>en. PollFail en \<notin> set ps"
  shows "run_call c ps rs (asocket_abort full s w) =
    Some (-1, (asocket_abort full s w)\<lparr>aerrno := CANCELED\<rparr>)"
proof -
  have "pipe_bytes (asocket_abort full s w) > 0" by (simp add: asocket_abort_def did_def Let_def)
  from run_call_cancelled [OF this, of c ps rs] assms show ?thesis by (auto simp: failed_def)
qed

definition demo_aworld :: aworld where
  "demo_aworld = \<lparr>pipe_bytes = 0, calls = [], aerrno = INTR\<rparr>"

definition demo_asock :: asock where
  "demo_asock = \<lparr>as_fd = 3, abort_fd0 = 4, abort_fd1 = 5\<rparr>"

theorem aborted_call_cancelled_witness:
  "run_call (ReadCall 10) [PollIntr, PollReady 1 1] [Inr 10] (asocket_abort False demo_asock demo_aworld) =
     Some (-1, \<lparr>pipe_bytes = 1, calls = [ShutDown 3], aerrno = CANCELED\<rparr>) \<and>
   run_call (ReadCall 10) [PollIntr, PollReady 1 1] [Inr 10] demo_aworld = Some (10, demo_aworld\<lparr>calls := [Read 10]\<rparr>)"
  using aborted_call_cancelled [of "[PollIntr, PollReady 1 1]" "ReadCall 10" "[Inr 10]" False demo_asock demo_aworld]
  by (simp add: asocket_abort_def demo_asock_def demo_aworld_def did_def asocket_read_def await_def finish_def POLLIN_def)

text \<open>
  A connection that is refused after the wait is not reported as the interface says: the return value
  is the positive error number instead of -1.
\<close>

theorem connect_returns_error_number:
  assumes "retry rs = Some (Inl INPROGRESS)" and "poll_loop (pipe_bytes w) ps = Some (PolledReady 1 POLLOUT 0)" and "en > 0"
  shows "asocket_connect ps rs (Inr en) w = Some (en, (did Connected w)\<lparr>aerrno := SockErr en\<rparr>)"
  using assms by (simp add: asocket_connect_def await_def did_def POLLOUT_def Let_def)

theorem connect_returns_error_number_witness:
  "asocket_connect [PollReady 1 POLLOUT] [Inl INPROGRESS] (Inr 111) demo_aworld =
     Some (111, (did Connected demo_aworld)\<lparr>aerrno := SockErr 111\<rparr>)"
  by (rule connect_returns_error_number) (simp_all add: demo_aworld_def)

end
