(* ===== verification/Socket_Helpers.thy ===== *)
theory Socket_Helpers
  imports Prelude
begin

text \<open>
  The functions that make client and server sockets (\<open>src/socket_*.c\<close>). The answers of the kernel to the
  calls of one function are a record; the calls a function makes are recorded, so that it can be
  told which descriptors are left open.
\<close>

section \<open>Local addresses\<close>

text \<open>\<open>struct sockaddr_un\<close> has a family of two bytes and a path of 108.\<close>

definition SUN_PATH :: nat where "SUN_PATH = 108"
definition sizeof_sockaddr_un :: nat where "sizeof_sockaddr_un = 110"
definition offsetof_sun_path :: nat where "offsetof_sun_path = 2"

definition FILESYSTEM_SOCKET_PREFIX :: string where "FILESYSTEM_SOCKET_PREFIX = ''/tmp/''"
definition ANDROID_RESERVED_SOCKET_PREFIX :: string where "ANDROID_RESERVED_SOCKET_PREFIX = ''/dev/socket/''"

definition ANDROID_SOCKET_NAMESPACE_ABSTRACT :: int where "ANDROID_SOCKET_NAMESPACE_ABSTRACT = 0"
definition ANDROID_SOCKET_NAMESPACE_RESERVED :: int where "ANDROID_SOCKET_NAMESPACE_RESERVED = 1"
definition ANDROID_SOCKET_NAMESPACE_FILESYSTEM :: int where "ANDROID_SOCKET_NAMESPACE_FILESYSTEM = 2"

lemmas address_defs = SUN_PATH_def sizeof_sockaddr_un_def offsetof_sun_path_def FILESYSTEM_SOCKET_PREFIX_def
  ANDROID_RESERVED_SOCKET_PREFIX_def ANDROID_SOCKET_NAMESPACE_ABSTRACT_def ANDROID_SOCKET_NAMESPACE_RESERVED_def
  ANDROID_SOCKET_NAMESPACE_FILESYSTEM_def

text \<open>Bytes copied into the path, which was cleared before, from an offset on.\<close>

definition fill_path :: "nat \<Rightarrow> byte list \<Rightarrow> byte list res" where
  "fill_path i bs =
     (if i + length bs > SUN_PATH then Inl (Fault OutOfBounds)
      else Inr (replicate i 0 @ bs @ replicate (SUN_PATH - i - length bs) 0))"

text \<open>\<open>strcpy\<close> copies the final zero byte as well.\<close>

definition strcpy_path :: "byte list \<Rightarrow> byte list res" where
  "strcpy_path s = fill_path 0 (s @ [0])"

text \<open>
  The path and the length of the address, if there is one. \<open>linux_ns\<close> tells whether the build has
  the abstract namespace of Linux; a name is a string without zero bytes.
\<close>

definition socket_make_sockaddr_un :: "bool \<Rightarrow> byte list \<Rightarrow> int \<Rightarrow> (byte list \<times> nat) option res" where
  "socket_make_sockaddr_un linux_ns name ns =
     (let limit = sizeof_sockaddr_un - offsetof_sun_path - 1;
          addr = (\<lambda>namelen path. Inr (Some (path, namelen + offsetof_sun_path + 1))) in
      if ns = ANDROID_SOCKET_NAMESPACE_ABSTRACT \<and> linux_ns then
        if length name + 1 > SUN_PATH then Inr None
        else seq (fill_path 1 name) (addr (length name))
      else if ns = ANDROID_SOCKET_NAMESPACE_ABSTRACT then
        let s = bytes_of_str FILESYSTEM_SOCKET_PREFIX @ name in
        if length s > limit then Inr None else seq (strcpy_path s) (addr (length s))
      else if ns = ANDROID_SOCKET_NAMESPACE_RESERVED then
        let s = bytes_of_str ANDROID_RESERVED_SOCKET_PREFIX @ name in
        if length s > limit then Inr None else seq (strcpy_path s) (addr (length s))
      else if ns = ANDROID_SOCKET_NAMESPACE_FILESYSTEM then
        if length name > limit then Inr None else seq (strcpy_path name) (addr (length name))
      else Inr None)"

section \<open>Making sockets\<close>

datatype sock_type = SOCK_STREAM | SOCK_DGRAM

datatype inaddr = INADDR_LOOPBACK | INADDR_ANY | HostAddr "byte list"

datatype target = UnixAddr "byte list" nat | InetAddr inaddr "16 word"

datatype sock_call = NewSock int | Connect int target | Bind int target | Listen int nat | Unlink "byte list" | ReuseAddr int | CloseSock int

text \<open>What \<open>socket\<close>, \<open>connect\<close>, \<open>bind\<close>, \<open>listen\<close> and \<open>gethostbyname\<close> return.\<close>

record sock_env =
  new_socket :: int
  connect_ok :: bool
  bind_ok :: bool
  listen_ok :: bool
  host_addr :: "byte list option"

definition LISTEN_BACKLOG :: nat where "LISTEN_BACKLOG = 4"

type_synonym sock_result = "int \<times> sock_call list"

definition socket_local_client_connect :: "sock_env \<Rightarrow> bool \<Rightarrow> int \<Rightarrow> byte list \<Rightarrow> int \<Rightarrow> sock_result res" where
  "socket_local_client_connect env linux_ns fd name ns =
     seq (socket_make_sockaddr_un linux_ns name ns) (\<lambda>a.
     case a of
       None \<Rightarrow> Inr (-1, [])
     | Some (path, alen) \<Rightarrow> Inr (if connect_ok env then fd else -1, [Connect fd (UnixAddr path alen)]))"

definition socket_local_client :: "sock_env \<Rightarrow> bool \<Rightarrow> byte list \<Rightarrow> int \<Rightarrow> sock_result res" where
  "socket_local_client env linux_ns name ns =
     (let s = new_socket env in
      if s < 0 then Inr (-1, [])
      else
        seq (socket_local_client_connect env linux_ns s name ns) (\<lambda>(r, cs).
        if 0 > r then Inr (-1, NewSock s # cs @ [CloseSock s]) else Inr (s, NewSock s # cs)))"

definition socket_local_server_bind :: "sock_env \<Rightarrow> bool \<Rightarrow> int \<Rightarrow> byte list \<Rightarrow> int \<Rightarrow> sock_result res" where
  "socket_local_server_bind env linux_ns s name ns =
     seq (socket_make_sockaddr_un linux_ns name ns) (\<lambda>a.
     case a of
       None \<Rightarrow> Inr (-1, [])
     | Some (path, alen) \<Rightarrow>
         let un = (if \<not> linux_ns \<or> ns = ANDROID_SOCKET_NAMESPACE_RESERVED \<or> ns = ANDROID_SOCKET_NAMESPACE_FILESYSTEM
                   then [Unlink (takeWhile (\<lambda>b. b \<noteq> 0) path)] else []) in
         Inr (if bind_ok env then s else -1, un @ [ReuseAddr s, Bind s (UnixAddr path alen)]))"

text \<open>The end of all server functions: \<open>listen\<close> on a stream socket.\<close>

definition listen_on :: "sock_env \<Rightarrow> sock_type \<Rightarrow> int \<Rightarrow> sock_call list \<Rightarrow> sock_result" where
  "listen_on env type s cs =
     (if type = SOCK_STREAM then
        if listen_ok env then (s, cs @ [Listen s LISTEN_BACKLOG])
        else (-1, cs @ [Listen s LISTEN_BACKLOG, CloseSock s])
      else (s, cs))"

definition socket_local_server :: "sock_env \<Rightarrow> bool \<Rightarrow> byte list \<Rightarrow> int \<Rightarrow> sock_type \<Rightarrow> sock_result res" where
  "socket_local_server env linux_ns name ns type =
     (let s = new_socket env in
      if s < 0 then Inr (-1, [])
      else
        seq (socket_local_server_bind env linux_ns s name ns) (\<lambda>(err, cs).
        if err < 0 then Inr (-1, NewSock s # cs @ [CloseSock s]) else Inr (listen_on env type s (NewSock s # cs))))"

definition htons :: "int \<Rightarrow> 16 word" where
  "htons port = push_bit 8 (of_int port) OR drop_bit 8 (of_int port)"

definition inet_client :: "sock_env \<Rightarrow> inaddr \<Rightarrow> int \<Rightarrow> sock_result" where
  "inet_client env a port =
     (let s = new_socket env in
      if s < 0 then (-1, [])
      else
        let cs = [NewSock s, Connect s (InetAddr a (htons port))] in
        if connect_ok env then (s, cs) else (-1, cs @ [CloseSock s]))"

definition socket_loopback_client :: "sock_env \<Rightarrow> int \<Rightarrow> sock_result" where
  "socket_loopback_client env port = inet_client env INADDR_LOOPBACK port"

definition socket_network_client :: "sock_env \<Rightarrow> int \<Rightarrow> sock_result" where
  "socket_network_client env port =
     (case host_addr env of None \<Rightarrow> (-1, []) | Some a \<Rightarrow> inet_client env (HostAddr a) port)"

definition inet_server :: "sock_env \<Rightarrow> inaddr \<Rightarrow> int \<Rightarrow> sock_type \<Rightarrow> sock_result" where
  "inet_server env a port type =
     (let s = new_socket env in
      if s < 0 then (-1, [])
      else
        let cs = [NewSock s, ReuseAddr s, Bind s (InetAddr a (htons port))] in
        if \<not> bind_ok env then (-1, cs @ [CloseSock s]) else listen_on env type s cs)"

definition socket_loopback_server :: "sock_env \<Rightarrow> int \<Rightarrow> sock_type \<Rightarrow> sock_result" where
  "socket_loopback_server env port type = inet_server env INADDR_LOOPBACK port type"

definition socket_inaddr_any_server :: "sock_env \<Rightarrow> int \<Rightarrow> sock_type \<Rightarrow> sock_result" where
  "socket_inaddr_any_server env port type = inet_server env INADDR_ANY port type"

section \<open>Addresses are built inside the structure\<close>

lemma fill_path_length: "fill_path i bs = Inr p \<Longrightarrow> length p = SUN_PATH"
  by (auto simp: fill_path_def split: if_splits)

text \<open>The name in front of which the namespace puts its prefix.\<close>

definition full_name :: "bool \<Rightarrow> int \<Rightarrow> byte list \<Rightarrow> byte list" where
  "full_name linux_ns ns name =
     (if ns = ANDROID_SOCKET_NAMESPACE_ABSTRACT then (if linux_ns then [0] else bytes_of_str FILESYSTEM_SOCKET_PREFIX)
      else if ns = ANDROID_SOCKET_NAMESPACE_RESERVED then bytes_of_str ANDROID_RESERVED_SOCKET_PREFIX else []) @ name"

lemma make_sockaddr_un:
  "socket_make_sockaddr_un linux_ns name ns =
     (let p = full_name linux_ns ns name;
          room = (if ns = ANDROID_SOCKET_NAMESPACE_ABSTRACT \<and> linux_ns then SUN_PATH else SUN_PATH - 1) in
      if ns \<in> {ANDROID_SOCKET_NAMESPACE_ABSTRACT, ANDROID_SOCKET_NAMESPACE_RESERVED, ANDROID_SOCKET_NAMESPACE_FILESYSTEM} \<and> length p \<le> room
      then Inr (Some (p @ replicate (SUN_PATH - length p) 0,
        offsetof_sun_path + length p + (if ns = ANDROID_SOCKET_NAMESPACE_ABSTRACT \<and> linux_ns then 0 else 1)))
      else Inr None)"
proof -
  have z: "[0] @ replicate n (0 :: byte) = replicate (Suc n) 0" for n by simp
  have s: "strcpy_path p = Inr (p @ replicate (108 - length p) 0)" if "length p \<le> 107" for p
    using that replicate_Suc [of "107 - length p" "0 :: byte"] by (simp add: strcpy_path_def fill_path_def SUN_PATH_def Suc_diff_le [symmetric])
  show ?thesis
    by (simp add: socket_make_sockaddr_un_def full_name_def address_defs s Let_def) (auto simp: fill_path_def SUN_PATH_def)
qed

text \<open>
  An address is built without a store outside the structure, whatever the name: the call fails
  exactly for an unknown namespace or a name that does not fit, and otherwise the path holds the
  prefix of the namespace and the name, cut nowhere, with the length the kernel is told.
\<close>

theorem sockaddr_un_bounded:
  "socket_make_sockaddr_un linux_ns name ns =
     (let p = full_name linux_ns ns name;
          room = (if ns = ANDROID_SOCKET_NAMESPACE_ABSTRACT \<and> linux_ns then SUN_PATH else SUN_PATH - 1) in
      if ns \<in> {ANDROID_SOCKET_NAMESPACE_ABSTRACT, ANDROID_SOCKET_NAMESPACE_RESERVED, ANDROID_SOCKET_NAMESPACE_FILESYSTEM} \<and> length p \<le> room
      then Inr (Some (p @ replicate (SUN_PATH - length p) 0,
        offsetof_sun_path + length p + (if ns = ANDROID_SOCKET_NAMESPACE_ABSTRACT \<and> linux_ns then 0 else 1)))
      else Inr None)"
  by (rule make_sockaddr_un)

section \<open>No socket is lost\<close>

text \<open>The descriptors that are open after a sequence of calls.\<close>

fun left_open :: "sock_call list \<Rightarrow> int list \<Rightarrow> int list" where
  "left_open [] fds = fds"
| "left_open (NewSock s # cs) fds = left_open cs (s # fds)"
| "left_open (CloseSock s # cs) fds = left_open cs (remove1 s fds)"
| "left_open (_ # cs) fds = left_open cs fds"

lemma left_open_append [simp]: "left_open (cs @ ds) fds = left_open ds (left_open cs fds)"
  by (induction cs fds rule: left_open.induct) auto

text \<open>
  The contract of the functions that make a socket: they return without a fault, what they return is
  open, and a socket that is not returned has been closed.
\<close>

locale socket_maker =
  fixes make :: "sock_env \<Rightarrow> sock_result res"
  assumes makes: "\<exists>r cs. make env = Inr (r, cs) \<and> left_open cs [] = (if r < 0 then [] else [r])"
begin

lemma no_leak: "make env = Inr (r, cs) \<Longrightarrow> left_open cs [] = (if r < 0 then [] else [r])"
  using makes [of env] by auto

lemma no_fault: "safe_res (\<lambda>_. True) (make env)"
  using makes [of env] by auto

end

lemma connect_calls:
  obtains r cs where "socket_local_client_connect env linux_ns fd name ns = Inr (r, cs)" "r = fd \<or> r = -1"
    "left_open cs fds = fds"
  by (cases "socket_make_sockaddr_un linux_ns name ns")
    (auto simp: socket_local_client_connect_def make_sockaddr_un Let_def split: if_splits intro: that)

lemma bind_calls:
  obtains r cs where "socket_local_server_bind env linux_ns fd name ns = Inr (r, cs)" "r = fd \<or> r = -1"
    "left_open cs fds = fds"
  by (cases "socket_make_sockaddr_un linux_ns name ns")
    (auto simp: socket_local_server_bind_def make_sockaddr_un Let_def split: if_splits intro: that)

interpretation local_client: socket_maker "\<lambda>env. socket_local_client env linux_ns name ns" for linux_ns name ns
proof
  fix env
  obtain r cs where "socket_local_client_connect env linux_ns (new_socket env) name ns = Inr (r, cs)"
    "r = new_socket env \<or> r = -1" "left_open cs [new_socket env] = [new_socket env]"
    by (rule connect_calls)
  then show "\<exists>r cs. socket_local_client env linux_ns name ns = Inr (r, cs) \<and> left_open cs [] = (if r < 0 then [] else [r])"
    by (auto simp: socket_local_client_def Let_def)
qed

interpretation local_server: socket_maker "\<lambda>env. socket_local_server env linux_ns name ns type" for linux_ns name ns type
proof
  fix env
  obtain r cs where "socket_local_server_bind env linux_ns (new_socket env) name ns = Inr (r, cs)"
    "r = new_socket env \<or> r = -1" "left_open cs [new_socket env] = [new_socket env]"
    by (rule bind_calls)
  then show "\<exists>r cs. socket_local_server env linux_ns name ns type = Inr (r, cs) \<and> left_open cs [] = (if r < 0 then [] else [r])"
    by (auto simp: socket_local_server_def listen_on_def Let_def)
qed

interpretation loopback_client: socket_maker "\<lambda>env. Inr (socket_loopback_client env port)" for port
  by unfold_locales (auto simp: socket_loopback_client_def inet_client_def Let_def)

interpretation network_client: socket_maker "\<lambda>env. Inr (socket_network_client env port)" for port
  by unfold_locales (auto simp: socket_network_client_def inet_client_def Let_def split: option.split)

interpretation loopback_server: socket_maker "\<lambda>env. Inr (socket_loopback_server env port type)" for port type
  by unfold_locales (auto simp: socket_loopback_server_def inet_server_def listen_on_def Let_def)

interpretation any_server: socket_maker "\<lambda>env. Inr (socket_inaddr_any_server env port type)" for port type
  by unfold_locales (auto simp: socket_inaddr_any_server_def inet_server_def listen_on_def Let_def)

datatype maker = LocalClient "byte list" int | LocalServer "byte list" int sock_type | LoopbackClient int
  | NetworkClient int | LoopbackServer int sock_type | AnyServer int sock_type

fun run_maker :: "bool \<Rightarrow> maker \<Rightarrow> sock_env \<Rightarrow> sock_result res" where
  "run_maker ln (LocalClient name ns) env = socket_local_client env ln name ns"
| "run_maker ln (LocalServer name ns type) env = socket_local_server env ln name ns type"
| "run_maker ln (LoopbackClient port) env = Inr (socket_loopback_client env port)"
| "run_maker ln (NetworkClient port) env = Inr (socket_network_client env port)"
| "run_maker ln (LoopbackServer port type) env = Inr (socket_loopback_server env port type)"
| "run_maker ln (AnyServer port type) env = Inr (socket_inaddr_any_server env port type)"

text \<open>
  No function that makes a socket loses one: each of them returns, and the only descriptor that is
  open afterwards is the one it returns, whichever of its calls fails.
\<close>

theorem sockets_not_lost:
  "\<exists>r cs. run_maker ln m env = Inr (r, cs) \<and> left_open cs [] = (if r < 0 then [] else [r])"
  by (cases m) (simp_all only: run_maker.simps local_client.makes local_server.makes loopback_client.makes
      network_client.makes loopback_server.makes any_server.makes)

end
