(* ===== verification/Accept_Threads.thy ===== *)
theory Accept_Threads
  imports Transport Socket_Helpers
begin

text \<open>
  The threads that wait for hosts to connect (\<open>src/transport_local.c\<close>): \<open>server_socket_thread\<close> on a TCP port,
  \<open>qemu_socket_thread\<close> on the pipe of the emulator, \<open>local_connect\<close> and \<open>local_init\<close>. A thread never returns by
  itself; its loop runs over the answers of the kernel, and the result is the state when the next call
  waits, with the effects on the transports of the daemon.
\<close>

section \<open>TCP\<close>

definition register_host :: "(nat \<Rightarrow> byte list) \<Rightarrow> int \<Rightarrow> int \<Rightarrow> adbd \<Rightarrow> adbd res" where
  "register_host addr fd port w = register_socket_transport addr fd (Some (bytes_of_str ''host'')) port True w"

text \<open>
  The loop of \<open>server_socket_thread\<close> over the results of its calls, in order: while there is no server, the next
  result is the one of \<open>socket_inaddr_any_server\<close> (after a failure the thread sleeps and tries again), then
  they are the results of \<open>adb_socket_accept\<close>.
\<close>

fun server_loop :: "(nat \<Rightarrow> byte list) \<Rightarrow> int \<Rightarrow> int \<Rightarrow> int list \<Rightarrow> adbd \<Rightarrow> (int \<times> adbd) res" where
  "server_loop addr port serverfd [] w = Inr (serverfd, w)"
| "server_loop addr port serverfd (r # rs) w =
     (if serverfd = -1 then server_loop addr port r rs w
      else
        seq (if r \<ge> 0 then register_host addr r port w else Inr w) (\<lambda>w. server_loop addr port serverfd rs w))"

definition server_socket_thread :: "(nat \<Rightarrow> byte list) \<Rightarrow> int \<Rightarrow> int list \<Rightarrow> adbd \<Rightarrow> (int \<times> adbd) res" where
  "server_socket_thread addr port rs w = server_loop addr port (-1) rs w"

definition DEFAULT_ADB_LOCAL_TRANSPORT_PORT :: int where "DEFAULT_ADB_LOCAL_TRANSPORT_PORT = 5555"
definition LOCAL_CLIENT_PREFIX :: string where "LOCAL_CLIENT_PREFIX = ''emulator-''"

definition local_connect_arbitrary_ports ::
  "(nat \<Rightarrow> byte list) \<Rightarrow> sock_env \<Rightarrow> int \<Rightarrow> int \<Rightarrow> adbd \<Rightarrow> (int \<times> adbd) res" where
  "local_connect_arbitrary_ports addr env console_port port w =
     (let fd = fst (socket_loopback_client env port) in
      if fd \<ge> 0 then
        let number = (if console_port < 0 then 45 # dec_digits (nat (- console_port)) else dec_digits (nat console_port));
            buf = take 63 (bytes_of_str LOCAL_CLIENT_PREFIX @ number) in
        seq (register_socket_transport addr fd (Some buf) port True w) (\<lambda>w. Inr (0, w))
      else Inr (-1, w))"

definition local_connect :: "(nat \<Rightarrow> byte list) \<Rightarrow> sock_env \<Rightarrow> int \<Rightarrow> adbd \<Rightarrow> (int \<times> adbd) res" where
  "local_connect addr env port w = local_connect_arbitrary_ports addr env (port - 1) port w"

section \<open>The emulator\<close>

text \<open>
  \<open>qemu_pipe_open\<close>: the result of \<open>open\<close> and of the write that names the service. A write that fails leaves
  the descriptor open.
\<close>

definition qemu_pipe_open :: "int \<Rightarrow> int \<Rightarrow> byte list \<Rightarrow> int" where
  "qemu_pipe_open opened written name =
     (if name = [] then -1
      else
        let buff = take 255 (bytes_of_str ''pipe:'' @ name) in
        if opened < 0 then -1
        else if written \<noteq> int (length buff) + 1 then -1
        else opened)"

text \<open>
  One round: the result of the write of the request, the bytes that answer it (\<open>None\<close> for an error), and the
  descriptor of the next pipe.
\<close>

record qemu_round =
  accept_written :: int
  accept_reply :: "byte list option"
  next_pipe :: int

fun qemu_loop :: "(nat \<Rightarrow> byte list) \<Rightarrow> int \<Rightarrow> int \<Rightarrow> qemu_round list \<Rightarrow> adbd \<Rightarrow> adbd res" where
  "qemu_loop addr port fd [] w = Inr w"
| "qemu_loop addr port fd (q # qs) w =
     (if accept_written q = int (length (bytes_of_str ''accept'')) then
        seq (if accept_reply q = Some (bytes_of_str ''ok'')
             then seq (register_host addr fd port w) (\<lambda>w. Inr (temit (WriteFd fd (bytes_of_str ''start'')) w))
             else Inr (temit (CloseFd fd) w)) (\<lambda>w.
        if next_pipe q < 0 then Inr w else qemu_loop addr port (next_pipe q) qs w)
      else Inr w)"

text \<open>Without memory the thread ends; without the service it starts the TCP thread in its place.\<close>

definition qemu_socket_thread ::
  "(nat \<Rightarrow> byte list) \<Rightarrow> bool \<Rightarrow> int \<Rightarrow> int \<Rightarrow> qemu_round list \<Rightarrow> int list \<Rightarrow> adbd \<Rightarrow> adbd res" where
  "qemu_socket_thread addr malloc first port qs rs w =
     (if \<not> malloc then Inr w
      else if first < 0 then seq (server_socket_thread addr port rs w) (\<lambda>(_, w). Inr w)
      else qemu_loop addr port first qs w)"

datatype local_thread = ClientThread | QemuThread | ServerThread

definition local_init :: "bool \<Rightarrow> bool \<Rightarrow> bool \<Rightarrow> local_thread res" where
  "local_init host qemu_pipe started =
     (let func = (if host then ClientThread else if qemu_pipe then QemuThread else ServerThread) in
      if started then Inr func else Inl (Exit (-1)))"

section \<open>Every host gets a transport\<close>

text \<open>The descriptors of the hosts that were accepted.\<close>

fun accepted :: "int \<Rightarrow> int list \<Rightarrow> int list" where
  "accepted serverfd [] = []"
| "accepted serverfd (r # rs) =
     (if serverfd = -1 then accepted r rs else if r \<ge> 0 then r # accepted serverfd rs else accepted serverfd rs)"

fun accepted_qemu :: "int \<Rightarrow> qemu_round list \<Rightarrow> int list" where
  "accepted_qemu fd [] = []"
| "accepted_qemu fd (q # qs) =
     (if accept_written q = 6 then
        (if accept_reply q = Some (bytes_of_str ''ok'') then [fd] else []) @
        (if next_pipe q < 0 then [] else accepted_qemu (next_pipe q) qs)
      else [])"

text \<open>
  \<open>joined w fds w'\<close>: from \<open>w\<close> to \<open>w'\<close> the descriptors \<open>fds\<close> became new transports, in order, each announced once to the
  main thread.
\<close>

definition joined :: "adbd \<Rightarrow> int list \<Rightarrow> adbd \<Rightarrow> bool" where
  "joined w fds w' \<longleftrightarrow>
     next_trans w' = next_trans w + length fds \<and>
     reg_pipe w' = reg_pipe w @ map (\<lambda>t. (t, 1)) [next_trans w..<next_trans w'] \<and>
     map (\<lambda>t. map_option tsfd (trans w' t)) [next_trans w..<next_trans w'] = map Some fds \<and>
     (\<forall>t < next_trans w. trans w' t = trans w t) \<and> reg_ok w' = reg_ok w"

lemma joined_refl: "joined w [] w"
  by (simp add: joined_def)

lemma joined_trans:
  assumes "joined w fds w1" and "joined w1 gds w2"
  shows "joined w (fds @ gds) w2"
proof -
  have u: "[next_trans w..<next_trans w2] = [next_trans w..<next_trans w1] @ [next_trans w1..<next_trans w2]"
    using assms upt_add_eq_append [of "next_trans w" "next_trans w1" "length gds"] by (simp add: joined_def)
  have "map (\<lambda>t. map_option tsfd (trans w2 t)) [next_trans w..<next_trans w1] =
    map (\<lambda>t. map_option tsfd (trans w1 t)) [next_trans w..<next_trans w1]"
    using assms by (auto simp: joined_def)
  moreover have "\<dots> = map Some fds" using assms(1) unfolding joined_def by blast
  ultimately have "map (\<lambda>t. map_option tsfd (trans w2 t)) [next_trans w..<next_trans w2] = map Some (fds @ gds)"
    unfolding u map_append using assms(2) unfolding joined_def by metis
  moreover have "reg_pipe w2 = reg_pipe w @ map (\<lambda>t. (t, 1)) [next_trans w..<next_trans w2]"
    unfolding u map_append using assms unfolding joined_def by (metis append_assoc)
  ultimately show ?thesis using assms unfolding joined_def by (auto simp del: map_eq_conv)
qed

lemma register_host_joins:
  assumes "tlinv w" and "reg_ok w"
  shows "\<exists>w'. register_host addr fd port w = Inr w' \<and> tlinv w' \<and> joined w [fd] w'"
proof -
  let ?x = "snd (init_socket_transport fd port True zero_transport)\<lparr>serial := Some (bytes_of_str ''host'')\<rparr>"
  let ?w = "snd (new_transport ?x w)"
  have n: "new_transport ?x w = (next_trans w, ?w)" by (simp add: new_transport_def)
  have "length (token ?x) = TOKEN_SIZE" by (simp add: init_socket_transport_def zero_transport_def)
  from register_keeps [OF assms(1) this n] have "safe_res tlinv (register_transport (next_trans w) ?w)" .
  moreover have "register_transport (next_trans w) ?w = Inr (?w\<lparr>reg_pipe := reg_pipe ?w @ [(next_trans w, 1)]\<rparr>)"
    using assms(2) by (simp add: register_transport_def new_transport_def)
  moreover have "register_host addr fd port w = register_transport (next_trans w) ?w"
    by (simp add: register_host_def register_socket_transport_def init_socket_transport_def new_transport_def Let_def)
  ultimately show ?thesis
    by (auto simp: joined_def new_transport_def init_socket_transport_def)
qed

lemma temit_joins: "tlinv w \<Longrightarrow> tlinv (temit e w) \<and> joined w [] (temit e w)"
  using temit_tlinv [of w e] by (simp add: joined_def temit_def)

lemma server_loop_joins:
  "tlinv w \<Longrightarrow> reg_ok w \<Longrightarrow>
   \<exists>fd w'. server_loop addr port serverfd rs w = Inr (fd, w') \<and> tlinv w' \<and> joined w (accepted serverfd rs) w'"
proof (induction rs arbitrary: serverfd w)
  case Nil
  then show ?case by (auto simp: joined_refl)
next
  case (Cons r rs)
  consider "serverfd = -1" | "serverfd \<noteq> -1" "r < 0" | "serverfd \<noteq> -1" "0 \<le> r" by linarith
  then show ?case
  proof cases
    case 3
    obtain w1 where w1: "register_host addr r port w = Inr w1" "tlinv w1" "joined w [r] w1"
      using register_host_joins [OF Cons.prems] by blast
    moreover have "reg_ok w1" using w1(3) Cons.prems(2) by (simp add: joined_def)
    ultimately show ?thesis using Cons.IH [of w1 serverfd] 3 joined_trans [OF w1(3)] by fastforce
  qed (use Cons in auto)
qed

text \<open>
  Every host that connects over TCP gets a transport: whatever the order of failed attempts to open
  the server and failed accepts, the list of transports stays consistent, and the accepted
  descriptors become transports one by one, each announced to the main thread exactly once.
\<close>

theorem tcp_hosts_registered:
  assumes "tlinv w" and "reg_ok w"
  shows "\<exists>fd w'. server_socket_thread addr port rs w = Inr (fd, w') \<and> tlinv w' \<and> joined w (accepted (-1) rs) w'"
  using server_loop_joins [OF assms] by (simp add: server_socket_thread_def)

lemma demo_listed_reg_ok: "reg_ok demo_listed"
  by (simp add: demo_listed_def demo_adbd_def)

theorem tcp_hosts_registered_witness:
  "\<exists>fd w'. server_socket_thread (\<lambda>_. []) 5555 [-1, 7, 8, -1, 9] demo_listed = Inr (fd, w') \<and>
     joined demo_listed [8, 9] w'"
  using tcp_hosts_registered [OF demo_tlinv(1), of "\<lambda>_. []" 5555 "[-1, 7, 8, -1, 9]"] demo_listed_reg_ok by auto

lemma qemu_loop_joins:
  "tlinv w \<Longrightarrow> reg_ok w \<Longrightarrow>
   \<exists>w'. qemu_loop addr port fd qs w = Inr w' \<and> tlinv w' \<and> joined w (accepted_qemu fd qs) w'"
proof (induction qs arbitrary: fd w)
  case Nil
  then show ?case by (auto simp: joined_refl)
next
  case (Cons q qs)
  show ?case
  proof (cases "accept_written q = 6")
    case True
    let ?fds = "if accept_reply q = Some (bytes_of_str ''ok'') then [fd] else []"
    let ?step = "if accept_reply q = Some (bytes_of_str ''ok'')
             then seq (register_host addr fd port w) (\<lambda>w. Inr (temit (WriteFd fd (bytes_of_str ''start'')) w))
             else Inr (temit (CloseFd fd) w)"
    have "\<exists>w1. ?step = Inr w1 \<and> tlinv w1 \<and> joined w ?fds w1"
    proof (cases "accept_reply q = Some (bytes_of_str ''ok'')")
      case ok: True
      obtain w1 where w1: "register_host addr fd port w = Inr w1" "tlinv w1" "joined w [fd] w1"
        using register_host_joins [OF Cons.prems] by blast
      then show ?thesis
        using ok temit_joins [OF w1(2), of "WriteFd fd (bytes_of_str ''start'')"] joined_trans [OF w1(3), of "[]"] by auto
    qed (use temit_joins [OF Cons.prems(1), of "CloseFd fd"] in auto)
    then obtain w1 where w1: "?step = Inr w1" "tlinv w1" "joined w ?fds w1" by blast
    then have "reg_ok w1" using Cons.prems(2) by (simp add: joined_def)
    then obtain w' where w': "next_pipe q \<ge> 0 \<Longrightarrow> qemu_loop addr port (next_pipe q) qs w1 = Inr w'" "next_pipe q \<ge> 0 \<Longrightarrow> tlinv w'"
      "next_pipe q \<ge> 0 \<Longrightarrow> joined w (?fds @ accepted_qemu (next_pipe q) qs) w'"
      using Cons.IH [OF w1(2), of "next_pipe q"] joined_trans [OF w1(3)] by blast
    have "qemu_loop addr port fd (q # qs) w = (if next_pipe q < 0 then Inr w1 else qemu_loop addr port (next_pipe q) qs w1)"
      using True w1(1) by simp
    then show ?thesis using True w1(2,3) w' by (cases "next_pipe q < 0") auto
  qed (use Cons.prems joined_refl in auto)
qed

text \<open>
  The same holds in the emulator: every connection that answers \<open>ok\<close> becomes a transport, a refused one is
  closed; and when the service of the emulator is missing, the TCP thread takes over.
\<close>

theorem qemu_hosts_registered:
  assumes "tlinv w" and "reg_ok w"
  shows "\<exists>w'. qemu_socket_thread addr True first port qs rs w = Inr w' \<and> tlinv w' \<and>
    joined w (if first < 0 then accepted (-1) rs else accepted_qemu first qs) w'"
  using server_loop_joins [OF assms, of addr port "-1" rs] qemu_loop_joins [OF assms, of addr port first qs]
  by (auto simp: qemu_socket_thread_def server_socket_thread_def)

theorem qemu_hosts_registered_witness:
  "\<exists>w'. qemu_socket_thread (\<lambda>_. []) True 7 5555 [\<lparr>accept_written = 6, accept_reply = Some (bytes_of_str ''ok''), next_pipe = -1\<rparr>] [] demo_listed = Inr w' \<and>
     joined demo_listed [7] w'"
  using qemu_hosts_registered [OF demo_tlinv(1) demo_listed_reg_ok, of "\<lambda>_. []" 7 5555
      "[\<lparr>accept_written = 6, accept_reply = Some (bytes_of_str ''ok''), next_pipe = -1\<rparr>]" "[]"] by auto

end
