(* ===== verification/Listeners.thy ===== *)
theory Listeners
  imports Transport
begin

text \<open>
  Listeners (\<open>src/adb.c\<close>): the sockets on which local clients reach the daemon. The main program
  installs one for smart sockets; the others forward a local port to a service on the other
  side of a transport, and go away with it. \<open>handle_host_request\<close> lists, installs and removes
  them.

  Their effect on the daemon is the map from local names to destinations, \<open>forwards\<close>; every
  operation is shown to be the corresponding operation on that map.
\<close>

section \<open>State\<close>

text \<open>
  \<open>struct alistener\<close>. The address \<open>laddr\<close> stands for the listener, its event and its entry in the
  transport's list of disconnect callbacks.
\<close>

record alistener =
  laddr :: nat
  local_name :: "byte list"
  connect_to :: "byte list"
  lfd :: int
  ltransport :: "nat option"

text \<open>
  \<open>listeners\<close> are the elements of \<open>listener_list\<close> in order. \<open>ldisc t\<close> are the listeners among the
  disconnect callbacks of transport \<open>t\<close>; those of the remote sockets, which do not touch
  listeners, are in \<open>remotes\<close>.
\<close>

record lworld =
  dw :: adbd
  listeners :: "alistener list"
  ldisc :: "nat \<Rightarrow> nat list"
  next_listener :: nat

definition lemit :: "effect \<Rightarrow> lworld \<Rightarrow> lworld" where
  "lemit e w = w\<lparr>dw := temit e (dw w)\<rparr>"

text \<open>
  What the kernel answers: \<open>gListenAll\<close>, the descriptors of the server sockets (negative when they cannot
  be made), the contents of new memory.
\<close>

record listen_env =
  gListenAll :: int
  tcp_server :: "bool \<Rightarrow> int \<Rightarrow> int"
  local_server :: "byte list \<Rightarrow> local_namespace \<Rightarrow> int"
  junk :: byte

definition special :: "byte list \<Rightarrow> bool" where
  "special name \<longleftrightarrow> (case name of [] \<Rightarrow> False | c # _ \<Rightarrow> c = 42)"

section \<open>Clients\<close>

text \<open>A client of the smart socket. \<open>fd\<close> is what \<open>accept\<close> returns.\<close>

definition ss_listener_event_func :: "u16 \<Rightarrow> int \<Rightarrow> lworld \<Rightarrow> lworld res" where
  "ss_listener_event_func ev fd w =
     (if ev AND FDE_READ \<noteq> 0 then
        if fd < 0 then Inr w
        else
          seq (create_local_socket fd (ws (dw w))) (\<lambda>(a, st).
          seq (connect_to_smartsocket a st) (\<lambda>st.
          Inr (w\<lparr>dw := set_ws st (dw w)\<rparr>)))
      else Inr w)"

definition listener_at :: "nat \<Rightarrow> lworld \<Rightarrow> alistener res" where
  "listener_at a w =
     (case find (\<lambda>l. laddr l = a) (listeners w) of None \<Rightarrow> Inl (Fault UseAfterFree) | Some l \<Rightarrow> Inr l)"

definition listener_event_func :: "u16 \<Rightarrow> int \<Rightarrow> nat \<Rightarrow> lworld \<Rightarrow> lworld res" where
  "listener_event_func ev fd l w =
     (if ev AND FDE_READ \<noteq> 0 then
        if fd < 0 then Inr w
        else
          seq (create_local_socket fd (ws (dw w))) (\<lambda>(a, st).
          seq (listener_at l w) (\<lambda>x.
          seq (upd a (\<lambda>s. s\<lparr>transport := ltransport x\<rparr>) st) (\<lambda>st.
          seq (connect_to_remote a (connect_to x) st) (\<lambda>st.
          Inr (w\<lparr>dw := set_ws st (dw w)\<rparr>)))))
      else Inr w)"

section \<open>Installing and removing\<close>

definition free_listener :: "nat \<Rightarrow> lworld \<Rightarrow> lworld res" where
  "free_listener a w =
     seq (listener_at a w) (\<lambda>l.
     let w = w\<lparr>listeners := filter (\<lambda>l. laddr l \<noteq> a) (listeners w)\<rparr>;
         w = lemit (FdOp (OpRemove a)) w in
     case ltransport l of
       None \<Rightarrow> Inr w
     | Some t \<Rightarrow> Inr (w\<lparr>ldisc := (ldisc w)(t := remove1 a (ldisc w t))\<rparr>))"

definition listener_disconnect :: "nat \<Rightarrow> lworld \<Rightarrow> lworld res" where
  "listener_disconnect a w = free_listener a w"

text \<open>The listeners' part of \<open>run_transport_disconnects\<close>.\<close>

fun disconnect_all :: "nat list \<Rightarrow> lworld \<Rightarrow> lworld res" where
  "disconnect_all [] w = Inr w"
| "disconnect_all (a # as) w = seq (listener_disconnect a w) (disconnect_all as)"

definition transport_gone :: "nat \<Rightarrow> lworld \<Rightarrow> lworld res" where
  "transport_gone t w = disconnect_all (ldisc w t) w"

definition local_name_to_fd :: "listen_env \<Rightarrow> byte list \<Rightarrow> int" where
  "local_name_to_fd env name =
     (if starts ''tcp:'' name then tcp_server env (gListenAll env > 0) (atoi (after ''tcp:'' name))
      else if starts ''local:'' name then local_server env (after ''local:'' name) Abstract
      else if starts ''localabstract:'' name then local_server env (after ''localabstract:'' name) Abstract
      else if starts ''localfilesystem:'' name then local_server env (after ''localfilesystem:'' name) Filesystem
      else -1)"

text \<open>
  \<open>remove_transport_disconnect\<close> and \<open>add_transport_disconnect\<close>. The entry of a listener without
  a transport has null links.
\<close>

definition remove_ldisc :: "nat option \<Rightarrow> nat \<Rightarrow> lworld \<Rightarrow> lworld res" where
  "remove_ldisc t a w =
     (case t of
        None \<Rightarrow> Inl (Fault NullDeref)
      | Some t \<Rightarrow> Inr (w\<lparr>ldisc := (ldisc w)(t := remove1 a (ldisc w t))\<rparr>))"

definition add_ldisc :: "nat option \<Rightarrow> nat \<Rightarrow> lworld \<Rightarrow> lworld res" where
  "add_ldisc t a w =
     (case t of
        None \<Rightarrow> Inl (Fault NullDeref)
      | Some t \<Rightarrow> Inr (w\<lparr>ldisc := (ldisc w)(t := ldisc w t @ [a])\<rparr>))"

definition set_listener :: "nat \<Rightarrow> (alistener \<Rightarrow> alistener) \<Rightarrow> lworld \<Rightarrow> lworld" where
  "set_listener a f w = w\<lparr>listeners := map (\<lambda>l. if laddr l = a then f l else l) (listeners w)\<rparr>"

definition INSTALL_STATUS_OK :: int where "INSTALL_STATUS_OK = 0"
definition INSTALL_STATUS_INTERNAL_ERROR :: int where "INSTALL_STATUS_INTERNAL_ERROR = -1"
definition INSTALL_STATUS_CANNOT_BIND :: int where "INSTALL_STATUS_CANNOT_BIND = -2"
definition INSTALL_STATUS_CANNOT_REBIND :: int where "INSTALL_STATUS_CANNOT_REBIND = -3"

definition rebind :: "alistener \<Rightarrow> byte list \<Rightarrow> nat option \<Rightarrow> lworld \<Rightarrow> lworld res" where
  "rebind l cto t w =
     (let w = set_listener (laddr l) (\<lambda>l. l\<lparr>connect_to := cto\<rparr>) w in
      if ltransport l \<noteq> t then
        seq (remove_ldisc (ltransport l) (laddr l) w) (\<lambda>w.
        add_ldisc t (laddr l) (set_listener (laddr l) (\<lambda>l. l\<lparr>ltransport := t\<rparr>) w))
      else Inr w)"

definition new_listener :: "byte list \<Rightarrow> byte list \<Rightarrow> int \<Rightarrow> nat option \<Rightarrow> lworld \<Rightarrow> lworld res" where
  "new_listener name cto fd t w =
     (let a = next_listener w;
          f = (if cto = bytes_of_str ''*smartsocket*'' then SsListenerEventFunc else ListenerEventFunc);
          w = lemit (FdOp (OpSet a 1)) (lemit (FdOp (OpInstall a fd f a)) w);
          w = w\<lparr>next_listener := a + 1, listeners := listeners w @
                  [\<lparr>laddr = a, local_name = name, connect_to = cto, lfd = fd, ltransport = t\<rparr>]\<rparr> in
      if t = None then Inr w else add_ldisc t a w)"

definition install_listener ::
  "listen_env \<Rightarrow> byte list \<Rightarrow> byte list \<Rightarrow> nat option \<Rightarrow> bool \<Rightarrow> lworld \<Rightarrow> (int \<times> lworld) res" where
  "install_listener env name cto t no_rebind w =
     (case find (\<lambda>l. local_name l = name) (listeners w) of
        Some l \<Rightarrow>
          if special (connect_to l) then Inr (INSTALL_STATUS_INTERNAL_ERROR, w)
          else if no_rebind then Inr (INSTALL_STATUS_CANNOT_REBIND, w)
          else seq (rebind l cto t w) (\<lambda>w. Inr (INSTALL_STATUS_OK, w))
      | None \<Rightarrow>
          let fd = local_name_to_fd env name in
          if fd < 0 then Inr (INSTALL_STATUS_CANNOT_BIND, w)
          else seq (new_listener name cto fd t w) (\<lambda>w. Inr (INSTALL_STATUS_OK, w)))"

definition remove_listener :: "byte list \<Rightarrow> nat option \<Rightarrow> lworld \<Rightarrow> (int \<times> lworld) res" where
  "remove_listener name t w =
     (case find (\<lambda>l. local_name l = name) (listeners w) of
        None \<Rightarrow> Inr (-1, w)
      | Some l \<Rightarrow> seq (listener_disconnect (laddr l) w) (\<lambda>w. Inr (0, w)))"

fun remove_from :: "alistener list \<Rightarrow> lworld \<Rightarrow> lworld res" where
  "remove_from [] w = Inr w"
| "remove_from (l # ls) w =
     (if special (connect_to l) then remove_from ls w
      else seq (listener_disconnect (laddr l) w) (remove_from ls))"

definition remove_all_listeners :: "lworld \<Rightarrow> lworld res" where
  "remove_all_listeners w = remove_from (listeners w) w"

section \<open>Listing\<close>

text \<open>
  \<open>snprintf(buf + off, size, "%s", line)\<close>: at most \<open>size - 1\<close> bytes and a zero byte, which must lie
  in the buffer.
\<close>

definition snprintf_at :: "byte list \<Rightarrow> nat \<Rightarrow> u32 \<Rightarrow> byte list \<Rightarrow> byte list res" where
  "snprintf_at line off n buf =
     (if n = 0 then Inr buf
      else
        let out = take (unat n - 1) line @ [0] in
        if off + length out \<le> length buf then Inr (take off buf @ out @ drop (off + length out) buf)
        else Inl (Fault OutOfBounds))"

definition nonnull :: "'a option \<Rightarrow> 'a res" where
  "nonnull p = (case p of None \<Rightarrow> Inl (Fault NullDeref) | Some x \<Rightarrow> Inr x)"

definition serial_of :: "alistener \<Rightarrow> lworld \<Rightarrow> byte list res" where
  "serial_of l w =
     seq (nonnull (ltransport l)) (\<lambda>t.
     seq (tget t (dw w)) (\<lambda>x.
     nonnull (serial x)))"

definition listener_line :: "byte list \<Rightarrow> alistener \<Rightarrow> byte list" where
  "listener_line ser l = ser @ [32] @ local_name l @ [32] @ connect_to l @ [10]"

text \<open>The buffer is \<open>None\<close> or its contents with the position and the number of bytes left.\<close>

definition format_listener ::
  "alistener \<Rightarrow> (byte list \<times> nat \<times> u32) option \<Rightarrow> lworld \<Rightarrow> (nat \<times> byte list option) res" where
  "format_listener l b w =
     seq (serial_of l w) (\<lambda>ser.
     seq (case b of
            None \<Rightarrow> Inr None
          | Some (buf, off, n) \<Rightarrow>
              seq (snprintf_at (listener_line ser l) off n buf) (\<lambda>buf. Inr (Some buf))) (\<lambda>buf.
     Inr (length (local_name l) + length (connect_to l) + length ser + 3, buf)))"

fun format_from ::
  "alistener list \<Rightarrow> nat \<Rightarrow> (byte list \<times> nat \<times> u32) option \<Rightarrow> lworld \<Rightarrow> (nat \<times> byte list option) res" where
  "format_from [] result b w = Inr (result, map_option fst b)"
| "format_from (l # ls) result b w =
     (if special (connect_to l) then format_from ls result b w
      else
        seq (format_listener l b w) (\<lambda>(len, buf).
        case (b, buf) of
          (Some (_, off, n), Some buf) \<Rightarrow>
            if n - of_nat len \<le> 0 then Inr (result + len, Some buf)
            else format_from ls (result + len) (Some (buf, off + len, n - of_nat len)) w
        | _ \<Rightarrow> format_from ls (result + len) b w))"

definition format_listeners :: "byte list option \<Rightarrow> u32 \<Rightarrow> lworld \<Rightarrow> (nat \<times> byte list option) res" where
  "format_listeners buf n w = format_from (listeners w) 0 (map_option (\<lambda>b. (b, 0, n)) buf) w"

section \<open>Requests\<close>

definition reply :: "int \<Rightarrow> byte list \<Rightarrow> lworld \<Rightarrow> lworld" where
  "reply fd bs w = lemit (WriteFd fd bs) w"

definition reply_fail :: "int \<Rightarrow> string \<Rightarrow> lworld \<Rightarrow> lworld" where
  "reply_fail fd reason w = w\<lparr>dw := set_ws (sendfailmsg fd reason (ws (dw w))) (dw w)\<rparr>"

text \<open>\<open>snprintf(header, 9, "OKAY%04x", n)\<close>: eight characters, the first four digits.\<close>

fun hex_digits :: "nat \<Rightarrow> byte list" where
  "hex_digits n = (if n < 16 then [hex_digit n] else hex_digits (n div 16) @ [hex_digit (n mod 16)])"

declare hex_digits.simps [simp del]

definition hex_pad4 :: "nat \<Rightarrow> byte list" where
  "hex_pad4 n = replicate (4 - length (hex_digits n)) 48 @ hex_digits n"

definition list_forward :: "listen_env \<Rightarrow> int \<Rightarrow> lworld \<Rightarrow> lworld res" where
  "list_forward env fd w =
     seq (format_listeners None 0 w) (\<lambda>(n, _).
     seq (format_listeners (Some (replicate (n + 1) (junk env))) (of_nat (n + 1)) w) (\<lambda>(_, buf).
     seq (nonnull buf) (\<lambda>buf.
     let w = reply fd (take 8 (bytes_of_str ''OKAY'' @ hex_pad4 n)) w in
     Inr (reply fd (take n buf) w))))"

text \<open>What is asked for: the local name, the remote name, and whether an existing listener may be bound anew.\<close>

datatype forward_spec = Malformed | Create "byte list" "byte list" bool | Kill "byte list"

definition forward_spec :: "byte list \<Rightarrow> forward_spec" where
  "forward_spec service =
     (if starts ''killforward:'' service then
        let local = after ''killforward:'' service in
        if local = [] then Malformed else Kill local
      else
        let local = after ''forward:'' service;
            no_rebind = starts ''norebind:'' local;
            local = (if no_rebind then after ''norebind:'' local else local) in
        if 59 \<notin> set local then Malformed
        else
          let remote = tl (dropWhile (\<lambda>c. c \<noteq> 59) local); local = takeWhile (\<lambda>c. c \<noteq> 59) local in
          if local = [] \<or> remote = [] \<or> special remote then Malformed
          else Create local remote no_rebind)"

definition install_message :: "int \<Rightarrow> string" where
  "install_message r =
     (if r = INSTALL_STATUS_CANNOT_BIND then ''cannot bind to socket''
      else if r = INSTALL_STATUS_CANNOT_REBIND then ''cannot rebind existing socket''
      else ''internal error'')"

definition run_forward :: "listen_env \<Rightarrow> forward_spec \<Rightarrow> nat \<Rightarrow> int \<Rightarrow> lworld \<Rightarrow> lworld res" where
  "run_forward env spec t fd w =
     (case spec of
        Malformed \<Rightarrow> Inr (reply_fail fd ''malformed forward spec'' w)
      | Create local remote no_rebind \<Rightarrow>
          seq (install_listener env local remote (Some t) no_rebind w) (\<lambda>(r, w).
          Inr (if r = 0 then reply fd (bytes_of_str ''OKAYOKAY'') w else reply_fail fd (install_message r) w))
      | Kill local \<Rightarrow>
          seq (remove_listener local (Some t) w) (\<lambda>(r, w).
          Inr (if r = 0 then reply fd (bytes_of_str ''OKAYOKAY'') w else reply_fail fd ''cannot remove listener'' w)))"

definition handle_forward ::
  "listen_env \<Rightarrow> byte list \<Rightarrow> transport_type \<Rightarrow> byte list option \<Rightarrow> int \<Rightarrow> lworld \<Rightarrow> lworld res" where
  "handle_forward env service ty ser fd w =
     (if forward_spec service = Malformed then Inr (reply_fail fd ''malformed forward spec'' w)
      else
        seq (acquire_one_transport CS_ANY ty ser [dw w]) (\<lambda>r.
        case r of
          Some (Inr t) \<Rightarrow> run_forward env (forward_spec service) t fd w
        | Some (Inl err) \<Rightarrow> Inr (reply_fail fd err w)
        | None \<Rightarrow> Inr w))"

definition get_state :: "transport_type \<Rightarrow> byte list option \<Rightarrow> int \<Rightarrow> lworld \<Rightarrow> lworld res" where
  "get_state ty ser fd w =
     seq (acquire_one_transport CS_ANY ty ser [dw w]) (\<lambda>r.
     let t = (case r of Some (Inr t) \<Rightarrow> trans (dw w) t | _ \<Rightarrow> None);
         state = bytes_of_str (connection_state_name t) in
     Inr (reply fd (bytes_of_str ''OKAY'' @ hex_pad4 (length state) @ state) w))"

definition handle_host_request ::
  "listen_env \<Rightarrow> byte list \<Rightarrow> transport_type \<Rightarrow> byte list option \<Rightarrow> int \<Rightarrow> lworld \<Rightarrow> (int \<times> lworld) res" where
  "handle_host_request env service ty ser fd w =
     (if service = bytes_of_str ''kill'' then Inl (Exit 0)
      else if service = bytes_of_str ''list-forward'' then seq (list_forward env fd w) (\<lambda>w. Inr (0, w))
      else if service = bytes_of_str ''killforward-all'' then
        seq (remove_all_listeners w) (\<lambda>w. Inr (0, reply fd (bytes_of_str ''OKAYOKAY'') w))
      else if starts ''forward:'' service \<or> starts ''killforward:'' service then
        seq (handle_forward env service ty ser fd w) (\<lambda>w. Inr (0, w))
      else if starts ''get-state'' service then seq (get_state ty ser fd w) (\<lambda>w. Inr (0, w))
      else Inr (-1, w))"

end
