(* ===== verification/Forwarding.thy ===== *)
theory Forwarding
  imports Listeners Socket_Flow
begin

text \<open>
  What the listeners guarantee: every sequence of operations on them implements the same sequence
  on a map from local names to destinations, without a fault; a request for the list is
  answered with exactly the lines of that map.
\<close>

section \<open>The invariant\<close>

text \<open>
  Listeners have different addresses and names; one that forwards has a transport, and is among
  its disconnect callbacks.
\<close>

definition linv :: "lworld \<Rightarrow> bool" where
  "linv w \<longleftrightarrow> distinct (map laddr (listeners w)) \<and> distinct (map local_name (listeners w)) \<and>
     (\<forall>l \<in> set (listeners w). laddr l < next_listener w \<and> (special (connect_to l) \<or> ltransport l \<noteq> None)) \<and>
     (\<forall>t. distinct (ldisc w t) \<and> set (ldisc w t) = laddr ` {l \<in> set (listeners w). ltransport l = Some t})"

lemma linvD:
  assumes "linv w"
  shows "distinct (map laddr (listeners w))" "distinct (map local_name (listeners w))"
    "l \<in> set (listeners w) \<Longrightarrow> laddr l < next_listener w"
    "l \<in> set (listeners w) \<Longrightarrow> special (connect_to l) \<or> ltransport l \<noteq> None"
    "distinct (ldisc w t)" "set (ldisc w t) = laddr ` {l \<in> set (listeners w). ltransport l = Some t}"
  using assms by (auto simp: linv_def)

lemma lemit_fields [simp]:
  "listeners (lemit e w) = listeners w" "ldisc (lemit e w) = ldisc w" "next_listener (lemit e w) = next_listener w"
  "dw (lemit e w) = temit e (dw w)"
  by (simp_all add: lemit_def)

lemma linv_cong:
  "linv w \<Longrightarrow> listeners w' = listeners w \<Longrightarrow> ldisc w' = ldisc w \<Longrightarrow> next_listener w' = next_listener w \<Longrightarrow> linv w'"
  by (simp add: linv_def)

text \<open>Addresses and names identify a listener.\<close>

lemma laddr_inj: "linv w \<Longrightarrow> l \<in> set (listeners w) \<Longrightarrow> m \<in> set (listeners w) \<Longrightarrow> laddr l = laddr m \<Longrightarrow> l = m"
  using linvD(1) [of w] by (simp add: distinct_map inj_on_def)

lemma name_inj:
  "linv w \<Longrightarrow> l \<in> set (listeners w) \<Longrightarrow> m \<in> set (listeners w) \<Longrightarrow> local_name l = local_name m \<Longrightarrow> l = m"
  using linvD(2) [of w] by (simp add: distinct_map inj_on_def)

lemma find_unique:
  assumes "x \<in> set xs" and "P x" and "\<And>y. y \<in> set xs \<Longrightarrow> P y \<Longrightarrow> y = x"
  shows "find P xs = Some x"
proof (cases "find P xs")
  case None
  with assms(1,2) show ?thesis by (auto simp: find_None_iff)
next
  case (Some y)
  then have "y \<in> set xs" "P y" by (auto simp: find_Some_iff)
  with Some assms(3) show ?thesis by blast
qed

lemma find_snoc: "find P (xs @ [x]) = (case find P xs of None \<Rightarrow> if P x then Some x else None | Some y \<Rightarrow> Some y)"
  by (induction xs) auto

lemma listener_at_mem:
  assumes "linv w" and "l \<in> set (listeners w)"
  shows "listener_at (laddr l) w = Inr l"
  unfolding listener_at_def
  using find_unique [of l "listeners w" "\<lambda>m. laddr m = laddr l"] laddr_inj [OF assms(1)] assms(2) by simp

lemma find_name:
  assumes "linv w" and "l \<in> set (listeners w)"
  shows "find (\<lambda>m. local_name m = local_name l) (listeners w) = Some l"
  using find_unique [of l "listeners w" "\<lambda>m. local_name m = local_name l"] name_inj [OF assms(1)] assms(2) by simp

section \<open>The map of forwards\<close>

type_synonym fmap = "byte list \<rightharpoonup> byte list \<times> nat option"

definition forwards :: "lworld \<Rightarrow> fmap" where
  "forwards w name = map_option (\<lambda>l. (connect_to l, ltransport l)) (find (\<lambda>l. local_name l = name) (listeners w))"

lemma forwards_map_of: "forwards w = map_of (map (\<lambda>l. (local_name l, connect_to l, ltransport l)) (listeners w))"
proof
  fix name
  have "map_option (\<lambda>l. (connect_to l, ltransport l)) (find (\<lambda>l. local_name l = name) ls) =
      map_of (map (\<lambda>l. (local_name l, connect_to l, ltransport l)) ls) name" for ls
    by (induction ls) auto
  then show "forwards w name = map_of (map (\<lambda>l. (local_name l, connect_to l, ltransport l)) (listeners w)) name"
    by (simp add: forwards_def)
qed

lemma forwards_Some:
  assumes "linv w"
  shows "forwards w name = Some (cto, t) \<longleftrightarrow>
    (\<exists>l \<in> set (listeners w). local_name l = name \<and> connect_to l = cto \<and> ltransport l = t)"
proof -
  have "distinct (map fst (map (\<lambda>l. (local_name l, connect_to l, ltransport l)) (listeners w)))"
    using linvD(2) [OF assms] by (simp add: comp_def)
  from map_of_eq_Some_iff [OF this] show ?thesis by (auto simp: forwards_map_of)
qed

text \<open>Keeping some of the listeners restricts the map.\<close>

lemma forwards_filter:
  assumes "linv w" and "linv w'" and "listeners w' = filter P (listeners w)"
  shows "forwards w' name =
    (case find (\<lambda>l. local_name l = name) (listeners w) of
       None \<Rightarrow> None | Some l \<Rightarrow> if P l then Some (connect_to l, ltransport l) else None)"
proof (cases "find (\<lambda>l. local_name l = name) (listeners w)")
  case None
  then have "find (\<lambda>l. local_name l = name) (filter P (listeners w)) = None"
    by (auto simp: find_None_iff)
  with None show ?thesis using assms(3) by (simp add: forwards_def)
next
  case (Some l)
  then have l: "l \<in> set (listeners w)" "local_name l = name" by (auto simp: find_Some_iff)
  show ?thesis
  proof (cases "P l")
    case True
    then have "l \<in> set (listeners w')" using l assms(3) by simp
    from find_name [OF assms(2) this] show ?thesis using Some True l by (simp add: forwards_def)
  next
    case False
    have "find (\<lambda>l. local_name l = name) (listeners w') = None"
      using False l assms(3) name_inj [OF assms(1)] by (auto simp: find_None_iff)
    then show ?thesis using Some False by (simp add: forwards_def)
  qed
qed

section \<open>Removing listeners\<close>

text \<open>The operations leave the transports of the daemon alone.\<close>

definition same_transports :: "lworld \<Rightarrow> lworld \<Rightarrow> bool" where
  "same_transports w w' \<longleftrightarrow> trans (dw w') = trans (dw w) \<and> transport_list (dw w') = transport_list (dw w)"

lemma same_transports_refl [simp]: "same_transports w w"
  by (simp add: same_transports_def)

lemma same_transports_trans: "same_transports w w' \<Longrightarrow> same_transports w' w'' \<Longrightarrow> same_transports w w''"
  by (simp add: same_transports_def)

lemma same_transports_lemit [simp]: "same_transports w (lemit e w)"
  by (simp add: same_transports_def temit_def)

lemma free_listener_removes:
  assumes inv: "linv w" and l: "l \<in> set (listeners w)"
  obtains w' where "free_listener (laddr l) w = Inr w'" "linv w'" "same_transports w w'"
    "listeners w' = filter (\<lambda>m. laddr m \<noteq> laddr l) (listeners w)"
proof -
  note D = linvD [OF inv]
  let ?ls = "filter (\<lambda>m. laddr m \<noteq> laddr l) (listeners w)"
  define d where "d = (case ltransport l of None \<Rightarrow> ldisc w | Some t \<Rightarrow> (ldisc w)(t := remove1 (laddr l) (ldisc w t)))"
  define w' where "w' = (lemit (FdOp (OpRemove (laddr l))) w)\<lparr>listeners := ?ls, ldisc := d\<rparr>"
  have f: "free_listener (laddr l) w = Inr w'"
    using listener_at_mem [OF inv l]
    by (cases "ltransport l") (simp_all add: free_listener_def w'_def d_def lemit_def)
  have only: "ltransport m = ltransport l" if "m \<in> set (listeners w)" "laddr m = laddr l" for m
    using laddr_inj [OF inv that(1) l that(2)] by simp
  have "distinct (d t) \<and> set (d t) = laddr ` {m \<in> set ?ls. ltransport m = Some t}" for t
  proof (cases "ltransport l = Some t")
    case True
    then have "d t = remove1 (laddr l) (ldisc w t)" by (simp add: d_def)
    then show ?thesis using D(5) [of t] D(6) [of t] by (auto simp: set_remove1_eq)
  next
    case False
    then have "d t = ldisc w t" by (auto simp: d_def split: option.splits)
    then show ?thesis using D(5) [of t] D(6) [of t] only False by auto
  qed
  then have "linv w'"
    using D(1,2,3,4) by (simp add: linv_def w'_def distinct_map_filter)
  moreover have "same_transports w w'" by (simp add: same_transports_def w'_def temit_def)
  moreover have "listeners w' = ?ls" by (simp add: w'_def)
  ultimately show thesis using that f by blast
qed

lemma disconnect_all_removes:
  assumes "linv w" and "distinct as" and "set as \<subseteq> laddr ` set (listeners w)"
  shows "\<exists>w'. disconnect_all as w = Inr w' \<and> linv w' \<and> same_transports w w' \<and>
    listeners w' = filter (\<lambda>l. laddr l \<notin> set as) (listeners w)"
  using assms
proof (induction as arbitrary: w)
  case Nil
  then show ?case by simp
next
  case (Cons a as)
  from Cons.prems(3) obtain l where l: "l \<in> set (listeners w)" "a = laddr l" by auto
  from free_listener_removes [OF Cons.prems(1) l(1)] obtain w1
    where w1: "free_listener a w = Inr w1" "linv w1" "same_transports w w1"
      "listeners w1 = filter (\<lambda>m. laddr m \<noteq> a) (listeners w)" by (metis l(2))
  have "set as \<subseteq> laddr ` set (listeners w1)"
  proof
    fix b assume b: "b \<in> set as"
    then obtain m where "m \<in> set (listeners w)" "b = laddr m" using Cons.prems(3) by auto
    moreover from b Cons.prems(2) have "b \<noteq> a" by auto
    ultimately show "b \<in> laddr ` set (listeners w1)" by (auto simp: w1(4))
  qed
  with Cons.IH [OF w1(2)] Cons.prems(2) obtain w2 where
    w2: "disconnect_all as w1 = Inr w2" "linv w2" "same_transports w1 w2"
      "listeners w2 = filter (\<lambda>l. laddr l \<notin> set as) (listeners w1)" by auto
  then show ?case
    using w1 same_transports_trans [OF w1(3) w2(3)]
    by (auto simp: listener_disconnect_def intro!: filter_cong)
qed

lemma remove_from_eq: "remove_from ls = disconnect_all (map laddr (filter (\<lambda>l. \<not> special (connect_to l)) ls))"
  by (induction ls) (auto intro!: ext)

lemma remove_all_removes:
  assumes "linv w"
  shows "\<exists>w'. remove_all_listeners w = Inr w' \<and> linv w' \<and> same_transports w w' \<and>
    listeners w' = filter (\<lambda>l. special (connect_to l)) (listeners w)"
proof -
  let ?as = "map laddr (filter (\<lambda>l. \<not> special (connect_to l)) (listeners w))"
  have "distinct ?as" "set ?as \<subseteq> laddr ` set (listeners w)"
    using linvD(1) [OF assms] by (auto simp: distinct_map_filter)
  from disconnect_all_removes [OF assms this] obtain w' where
    w': "disconnect_all ?as w = Inr w'" "linv w'" "same_transports w w'"
      "listeners w' = filter (\<lambda>l. laddr l \<notin> set ?as) (listeners w)" by blast
  have "listeners w' = filter (\<lambda>l. special (connect_to l)) (listeners w)"
    unfolding w'(4) by (rule filter_cong) (use laddr_inj [OF assms] in auto)
  with w' show ?thesis by (simp add: remove_all_listeners_def remove_from_eq)
qed

lemma transport_gone_removes:
  assumes "linv w"
  shows "\<exists>w'. transport_gone t w = Inr w' \<and> linv w' \<and> same_transports w w' \<and>
    listeners w' = filter (\<lambda>l. ltransport l \<noteq> Some t) (listeners w)"
proof -
  note D = linvD [OF assms]
  have "set (ldisc w t) \<subseteq> laddr ` set (listeners w)" using D(6) [of t] by auto
  from disconnect_all_removes [OF assms D(5) this] obtain w' where
    w': "disconnect_all (ldisc w t) w = Inr w'" "linv w'" "same_transports w w'"
      "listeners w' = filter (\<lambda>l. laddr l \<notin> set (ldisc w t)) (listeners w)" by blast
  have "listeners w' = filter (\<lambda>l. ltransport l \<noteq> Some t) (listeners w)"
    unfolding w'(4) D(6) by (rule filter_cong) (use laddr_inj [OF assms] in auto)
  with w' show ?thesis by (simp add: transport_gone_def)
qed

section \<open>Installing listeners\<close>

lemma image_snoc:
  "f ` {m \<in> set (xs @ [x]). P m} = (if P x then insert (f x) (f ` {m \<in> set xs. P m}) else f ` {m \<in> set xs. P m})"
  by auto

lemma new_listener_adds:
  assumes inv: "linv w" and new: "name \<notin> local_name ` set (listeners w)" and t: "special cto \<or> t \<noteq> None"
  shows "\<exists>w'. new_listener name cto fd t w = Inr w' \<and> linv w' \<and> same_transports w w' \<and> listeners w' = listeners w @
    [\<lparr>laddr = next_listener w, local_name = name, connect_to = cto, lfd = fd, ltransport = t\<rparr>]"
proof -
  note D = linvD [OF inv]
  let ?l = "\<lparr>laddr = next_listener w, local_name = name, connect_to = cto, lfd = fd, ltransport = t\<rparr>"
  define d where "d = (case t of None \<Rightarrow> ldisc w | Some t \<Rightarrow> (ldisc w)(t := ldisc w t @ [next_listener w]))"
  have fresh: "next_listener w \<notin> laddr ` set (listeners w)" using D(3) by fastforce
  then have "next_listener w \<notin> laddr ` {m \<in> set (listeners w). P m}" for P by auto
  then have "distinct (d u) \<and> set (d u) = laddr ` {m \<in> set (listeners w @ [?l]). ltransport m = Some u}" for u
    unfolding image_snoc using D(5) [of u] D(6) [of u] by (cases t) (simp_all add: d_def)
  then have i: "linv (w'\<lparr>listeners := listeners w @ [?l], next_listener := next_listener w + 1, ldisc := d\<rparr>)" for w'
    using D(1-4) new fresh t by (auto simp: linv_def less_Suc_eq)
  show ?thesis
  proof (cases t)
    case None
    then show ?thesis
      using i [of "lemit (FdOp (OpSet (next_listener w) 1)) (lemit (FdOp (OpInstall (next_listener w) fd
        (if cto = bytes_of_str ''*smartsocket*'' then SsListenerEventFunc else ListenerEventFunc) (next_listener w))) w)"]
      by (simp add: new_listener_def Let_def d_def same_transports_def temit_def linv_def)
  next
    case (Some u)
    then show ?thesis
      using i [of "lemit (FdOp (OpSet (next_listener w) 1)) (lemit (FdOp (OpInstall (next_listener w) fd
        (if cto = bytes_of_str ''*smartsocket*'' then SsListenerEventFunc else ListenerEventFunc) (next_listener w))) w)"]
      by (simp add: new_listener_def Let_def d_def same_transports_def temit_def add_ldisc_def linv_def)
  qed
qed

text \<open>A listener whose destination and transport are replaced.\<close>

definition rebound :: "nat \<Rightarrow> byte list \<Rightarrow> nat option \<Rightarrow> alistener \<Rightarrow> alistener" where
  "rebound a cto t m = (if laddr m = a then m\<lparr>connect_to := cto, ltransport := t\<rparr> else m)"

lemma rebound_simps [simp]:
  "laddr (rebound a cto t m) = laddr m" "local_name (rebound a cto t m) = local_name m"
  "lfd (rebound a cto t m) = lfd m"
  by (simp_all add: rebound_def)

lemma keep_transport: "ltransport m = t \<Longrightarrow> m\<lparr>connect_to := c, ltransport := t\<rparr> = m\<lparr>connect_to := c\<rparr>"
  by (cases m) simp

lemma image_of_map:
  assumes "\<And>x. f (g x) = f x"
  shows "f ` {y \<in> set (map g xs). P y} = f ` {x \<in> set xs. P (g x)}"
proof -
  have "{y \<in> set (map g xs). P y} = g ` {x \<in> set xs. P (g x)}" by auto
  then show ?thesis by (simp add: image_image assms)
qed

lemma rebind_moves:
  assumes inv: "linv w" and l: "l \<in> set (listeners w)" "\<not> special (connect_to l)"
  shows "\<exists>w'. rebind l cto (Some t) w = Inr w' \<and> linv w' \<and> same_transports w w' \<and>
    listeners w' = map (rebound (laddr l) cto (Some t)) (listeners w)"
proof -
  note D = linvD [OF inv]
  from D(4) [OF l(1)] l(2) obtain u where u: "ltransport l = Some u" by auto
  let ?ls = "map (rebound (laddr l) cto (Some t)) (listeners w)"
  define d where "d = (if u = t then ldisc w
    else ((ldisc w)(u := remove1 (laddr l) (ldisc w u)))(t := ldisc w t @ [laddr l]))"
  have only: "m = l" if "m \<in> set (listeners w)" "laddr m = laddr l" for m
    using laddr_inj [OF inv that(1) l(1) that(2)] .
  have a: "laddr l \<in> set (ldisc w v) \<longleftrightarrow> v = u" for v
  proof
    assume "laddr l \<in> set (ldisc w v)"
    then obtain m where "m \<in> set (listeners w)" "laddr m = laddr l" "ltransport m = Some v"
      unfolding D(6) by auto
    with only [of m] u show "v = u" by simp
  qed (use l u in \<open>auto simp: D(6)\<close>)
  have moved: "ltransport (rebound (laddr l) cto (Some t) m) = Some v \<longleftrightarrow>
      (if laddr m = laddr l then v = t else ltransport m = Some v)" for m v
    by (auto simp: rebound_def)
  have b: "laddr ` {m \<in> set ?ls. ltransport m = Some v} =
      (if v = t then insert (laddr l) (set (ldisc w v)) else set (ldisc w v) - {laddr l})" for v
  proof -
    have "laddr ` {m \<in> set ?ls. ltransport m = Some v} =
        laddr ` {m \<in> set (listeners w). if laddr m = laddr l then v = t else ltransport m = Some v}"
      unfolding moved [symmetric] by (rule image_of_map) simp
    also have "\<dots> = (if v = t then insert (laddr l) (set (ldisc w v)) else set (ldisc w v) - {laddr l})"
      unfolding D(6) using l(1) by (cases "v = t") auto
    finally show ?thesis .
  qed
  have "distinct (d v) \<and> set (d v) = laddr ` {m \<in> set ?ls. ltransport m = Some v}" for v
    unfolding b using a [of v] D(5) [of v] by (auto simp: d_def set_remove1_eq)
  then have i: "linv (w\<lparr>listeners := ?ls, ldisc := d\<rparr>)"
    using D(1-4) by (simp add: linv_def comp_def) (auto simp: rebound_def)
  have "rebind l cto (Some t) w = Inr (w\<lparr>listeners := ?ls, ldisc := d\<rparr>)"
  proof (cases "u = t")
    case True
    have tr: "ltransport m = Some t" if "m \<in> set (listeners w)" "laddr m = laddr l" for m
      using only [OF that] u True by simp
    then have "map (\<lambda>m. if laddr m = laddr l then m\<lparr>connect_to := cto\<rparr> else m) (listeners w) = ?ls"
      using tr by (simp add: rebound_def keep_transport)
    with True u show ?thesis by (simp add: rebind_def set_listener_def d_def)
  next
    case False
    have "map (\<lambda>m. if laddr m = laddr l then m\<lparr>ltransport := Some t\<rparr> else m)
        (map (\<lambda>m. if laddr m = laddr l then m\<lparr>connect_to := cto\<rparr> else m) (listeners w)) = ?ls"
      by (simp add: rebound_def)
    with False u show ?thesis
      by (simp add: rebind_def set_listener_def d_def remove_ldisc_def add_ldisc_def)
  qed
  with i show ?thesis by (auto simp: same_transports_def)
qed

section \<open>Operations on the map\<close>

datatype lop = Install "byte list" "byte list" "nat option" bool | Remove "byte list" | RemoveAll | Gone nat

text \<open>
  A listener without a transport is a special one, and is not installed over an existing one:
  the main program does it before anything else.
\<close>

fun lop_ok :: "lop \<Rightarrow> fmap \<Rightarrow> bool" where
  "lop_ok (Install name cto t no_rebind) m \<longleftrightarrow> t \<noteq> None \<or> special cto \<and> m name = None"
| "lop_ok _ m \<longleftrightarrow> True"

fun run_lop :: "listen_env \<Rightarrow> lop \<Rightarrow> lworld \<Rightarrow> (int \<times> lworld) res" where
  "run_lop env (Install name cto t no_rebind) w = install_listener env name cto t no_rebind w"
| "run_lop env (Remove name) w = remove_listener name None w"
| "run_lop env RemoveAll w = seq (remove_all_listeners w) (\<lambda>w. Inr (0, w))"
| "run_lop env (Gone t) w = seq (transport_gone t w) (\<lambda>w. Inr (0, w))"

text \<open>What each operation does to the map, and what it returns.\<close>

fun map_lop :: "listen_env \<Rightarrow> lop \<Rightarrow> fmap \<Rightarrow> int \<times> fmap" where
  "map_lop env (Install name cto t no_rebind) m =
     (case m name of
        None \<Rightarrow> if local_name_to_fd env name < 0 then (-2, m) else (0, m(name \<mapsto> (cto, t)))
      | Some (old, _) \<Rightarrow> if special old then (-1, m) else if no_rebind then (-3, m) else (0, m(name \<mapsto> (cto, t))))"
| "map_lop env (Remove name) m = (if m name = None then (-1, m) else (0, m(name := None)))"
| "map_lop env RemoveAll m = (0, \<lambda>n. case m n of Some (cto, t) \<Rightarrow> if special cto then Some (cto, t) else None | None \<Rightarrow> None)"
| "map_lop env (Gone t) m = (0, \<lambda>n. case m n of Some (cto, u) \<Rightarrow> if u = Some t then None else Some (cto, u) | None \<Rightarrow> None)"

section \<open>Every operation implements its counterpart on the map\<close>

lemma forwards_find: "forwards w name = None \<longleftrightarrow> find (\<lambda>l. local_name l = name) (listeners w) = None"
  by (simp add: forwards_def)

lemma install_refines:
  assumes inv: "linv w" and ok: "t \<noteq> None \<or> special cto \<and> forwards w name = None"
  shows "\<exists>r w'. install_listener env name cto t no_rebind w = Inr (r, w') \<and> linv w' \<and> same_transports w w' \<and>
    (r, forwards w') = map_lop env (Install name cto t no_rebind) (forwards w)"
proof (cases "find (\<lambda>l. local_name l = name) (listeners w)")
  case None
  then have n: "name \<notin> local_name ` set (listeners w)" "forwards w name = None"
    by (auto simp: find_None_iff forwards_def)
  show ?thesis
  proof (cases "local_name_to_fd env name < 0")
    case True
    with None n inv show ?thesis by (simp add: install_listener_def Let_def INSTALL_STATUS_CANNOT_BIND_def)
  next
    case False
    from ok have "special cto \<or> t \<noteq> None" by auto
    from new_listener_adds [OF inv n(1) this, of "local_name_to_fd env name"] obtain w' where
      w': "new_listener name cto (local_name_to_fd env name) t w = Inr w'" "linv w'" "same_transports w w'"
        "listeners w' = listeners w @ [\<lparr>laddr = next_listener w, local_name = name, connect_to = cto,
           lfd = local_name_to_fd env name, ltransport = t\<rparr>]" by blast
    have "forwards w' = (forwards w)(name \<mapsto> (cto, t))"
      using None by (auto simp: forwards_def w'(4) find_snoc fun_eq_iff split: option.splits)
    with None False n w' show ?thesis by (simp add: install_listener_def INSTALL_STATUS_OK_def)
  qed
next
  case (Some l)
  then have l: "l \<in> set (listeners w)" "local_name l = name" by (auto simp: find_Some_iff)
  from Some have f: "forwards w name = Some (connect_to l, ltransport l)" by (simp add: forwards_def)
  consider "special (connect_to l)" | "\<not> special (connect_to l)" no_rebind | "\<not> special (connect_to l)" "\<not> no_rebind"
    by blast
  then show ?thesis
  proof cases
    case 3
    from ok f obtain u where u: "t = Some u" by auto
    from rebind_moves [OF inv l(1) 3(1), of cto u] obtain w' where
      w': "rebind l cto t w = Inr w'" "linv w'" "same_transports w w'"
        "listeners w' = map (rebound (laddr l) cto t) (listeners w)" using u by blast
    have "forwards w' = (forwards w)(name \<mapsto> (cto, t))"
    proof
      fix n
      show "forwards w' n = ((forwards w)(name \<mapsto> (cto, t))) n"
      proof (cases "find (\<lambda>l. local_name l = n) (listeners w)")
        case None
        then have "find (\<lambda>l. local_name l = n) (listeners w') = None" by (simp add: find_None_iff w'(4))
        moreover from None l have "n \<noteq> name" by (auto simp: find_None_iff)
        ultimately show ?thesis using None by (simp add: forwards_def)
      next
        case (Some m)
        then have m: "m \<in> set (listeners w)" "local_name m = n" by (auto simp: find_Some_iff)
        then have "rebound (laddr l) cto t m \<in> set (listeners w')" by (simp add: w'(4))
        from find_name [OF w'(2) this] have
          "find (\<lambda>l. local_name l = n) (listeners w') = Some (rebound (laddr l) cto t m)" using m by simp
        moreover have "laddr m = laddr l \<longleftrightarrow> n = name"
          using laddr_inj [OF inv m(1) l(1)] name_inj [OF inv m(1) l(1)] m l by auto
        ultimately show ?thesis using Some by (simp add: forwards_def rebound_def)
      qed
    qed
    with 3 f w' Some show ?thesis by (simp add: install_listener_def INSTALL_STATUS_OK_def)
  qed (use Some f inv in \<open>simp_all add: install_listener_def INSTALL_STATUS_INTERNAL_ERROR_def INSTALL_STATUS_CANNOT_REBIND_def\<close>)
qed

lemma remove_refines:
  assumes inv: "linv w"
  shows "\<exists>r w'. remove_listener name t w = Inr (r, w') \<and> linv w' \<and> same_transports w w' \<and>
    (r, forwards w') = map_lop env (Remove name) (forwards w)"
proof (cases "find (\<lambda>l. local_name l = name) (listeners w)")
  case None
  with inv show ?thesis by (simp add: remove_listener_def forwards_find)
next
  case (Some l)
  then have l: "l \<in> set (listeners w)" "local_name l = name" by (auto simp: find_Some_iff)
  from free_listener_removes [OF inv l(1)] obtain w' where
    w': "free_listener (laddr l) w = Inr w'" "linv w'" "same_transports w w'"
      "listeners w' = filter (\<lambda>m. laddr m \<noteq> laddr l) (listeners w)" by blast
  have "forwards w' n = ((forwards w)(name := None)) n" for n
  proof (cases "find (\<lambda>l. local_name l = n) (listeners w)")
    case None
    then show ?thesis using forwards_filter [OF inv w'(2,4), of n] by (simp add: forwards_def)
  next
    case (Some m)
    then have m: "m \<in> set (listeners w)" "local_name m = n" by (auto simp: find_Some_iff)
    then have "laddr m = laddr l \<longleftrightarrow> n = name"
      using laddr_inj [OF inv m(1) l(1)] name_inj [OF inv m(1) l(1)] l by auto
    with Some show ?thesis using forwards_filter [OF inv w'(2,4), of n] by (simp add: forwards_def)
  qed
  then have "forwards w' = (forwards w)(name := None)" by blast
  with Some w' show ?thesis by (simp add: remove_listener_def listener_disconnect_def forwards_find)
qed

lemma remove_all_refines:
  assumes inv: "linv w"
  shows "\<exists>w'. remove_all_listeners w = Inr w' \<and> linv w' \<and> same_transports w w' \<and>
    (0, forwards w') = map_lop env RemoveAll (forwards w)"
proof -
  from remove_all_removes [OF inv] obtain w' where
    w': "remove_all_listeners w = Inr w'" "linv w'" "same_transports w w'"
      "listeners w' = filter (\<lambda>l. special (connect_to l)) (listeners w)" by blast
  have "forwards w' = snd (map_lop env RemoveAll (forwards w))"
    by (rule ext) (simp add: forwards_filter [OF inv w'(2,4)] forwards_def [of w] split: option.split)
  with w' show ?thesis by auto
qed

lemma gone_refines:
  assumes inv: "linv w"
  shows "\<exists>w'. transport_gone t w = Inr w' \<and> linv w' \<and> same_transports w w' \<and>
    (0, forwards w') = map_lop env (Gone t) (forwards w)"
proof -
  from transport_gone_removes [OF inv] obtain w' where
    w': "transport_gone t w = Inr w'" "linv w'" "same_transports w w'"
      "listeners w' = filter (\<lambda>l. ltransport l \<noteq> Some t) (listeners w)" by blast
  have "forwards w' = snd (map_lop env (Gone t) (forwards w))"
    by (rule ext) (simp add: forwards_filter [OF inv w'(2,4)] forwards_def [of w] split: option.split)
  with w' show ?thesis by auto
qed

lemma lop_refines:
  assumes "linv w" and "lop_ok op (forwards w)"
  shows "\<exists>r w'. run_lop env op w = Inr (r, w') \<and> linv w' \<and> (r, forwards w') = map_lop env op (forwards w)"
proof (cases op)
  case (Install name cto t nr)
  then show ?thesis using install_refines [OF assms(1), of t cto name env nr] assms(2) by auto
next
  case (Remove name)
  then show ?thesis using remove_refines [OF assms(1), of name None env] by auto
next
  case RemoveAll
  then show ?thesis using remove_all_refines [OF assms(1), of env] by auto
next
  case (Gone t)
  then show ?thesis using gone_refines [OF assms(1), of t env] by auto
qed

fun run_lops :: "listen_env \<Rightarrow> lop list \<Rightarrow> lworld \<Rightarrow> (int list \<times> lworld) res" where
  "run_lops env [] w = Inr ([], w)"
| "run_lops env (op # ops) w =
     seq (run_lop env op w) (\<lambda>(r, w).
     seq (run_lops env ops w) (\<lambda>(rs, w). Inr (r # rs, w)))"

fun map_lops :: "listen_env \<Rightarrow> lop list \<Rightarrow> fmap \<Rightarrow> int list \<times> fmap" where
  "map_lops env [] m = ([], m)"
| "map_lops env (op # ops) m =
     (case map_lop env op m of (r, m) \<Rightarrow> case map_lops env ops m of (rs, m) \<Rightarrow> (r # rs, m))"

fun lops_ok :: "listen_env \<Rightarrow> lop list \<Rightarrow> fmap \<Rightarrow> bool" where
  "lops_ok env [] m \<longleftrightarrow> True"
| "lops_ok env (op # ops) m \<longleftrightarrow> lop_ok op m \<and> lops_ok env ops (snd (map_lop env op m))"

text \<open>
  C8: Any sequence of operations on the listeners, from a state that has the invariant, runs without a
  fault and keeps the invariant, and what it returns and leaves behind is what the same
  sequence does to the map from local names to destinations: a name is bound to the destination
  asked for last, a special listener is never bound anew, the others are bound anew unless that
  is forbidden, and the listeners of a transport that goes away are gone.
\<close>

theorem listeners_refine_map:
  assumes "linv w" and "lops_ok env ops (forwards w)"
  shows "\<exists>rs w'. run_lops env ops w = Inr (rs, w') \<and> linv w' \<and> (rs, forwards w') = map_lops env ops (forwards w)"
  using assms
proof (induction ops arbitrary: w)
  case Nil
  then show ?case by simp
next
  case (Cons op ops)
  then obtain r w1 where w1: "run_lop env op w = Inr (r, w1)" "linv w1" "(r, forwards w1) = map_lop env op (forwards w)"
    using lop_refines [of w op env] by auto
  from w1(3) Cons.prems(2) have "lops_ok env ops (forwards w1)" by (simp add: prod_eq_iff)
  from Cons.IH [OF w1(2) this] obtain rs w2 where
    w2: "run_lops env ops w1 = Inr (rs, w2)" "linv w2" "(rs, forwards w2) = map_lops env ops (forwards w1)" by blast
  from w1 w2 show ?case by (simp flip: w1(3) w2(3))
qed

section \<open>Requests\<close>

text \<open>
  In addition every listed transport is alive, and the listeners refer to listed
  transports only.
\<close>

definition finv :: "lworld \<Rightarrow> bool" where
  "finv w \<longleftrightarrow> linv w \<and>
     (\<forall>t \<in> set (transport_list (dw w)). trans (dw w) t \<noteq> None) \<and>
     (\<forall>l \<in> set (listeners w). \<forall>t. ltransport l = Some t \<longrightarrow> t \<in> set (transport_list (dw w)))"

lemma finvD:
  assumes "finv w"
  shows "linv w" "t \<in> set (transport_list (dw w)) \<Longrightarrow> \<exists>x. trans (dw w) t = Some x"
    "l \<in> set (listeners w) \<Longrightarrow> ltransport l = Some t \<Longrightarrow> t \<in> set (transport_list (dw w))"
  using assms by (auto simp: finv_def)

lemma finv_fewer:
  assumes "finv w" and "linv w'" and "same_transports w w'" and "set (listeners w') \<subseteq> set (listeners w)"
  shows "finv w'"
  using assms by (auto simp: finv_def same_transports_def)

lemma finv_forwards:
  "linv w \<Longrightarrow> finv w \<longleftrightarrow>
    (\<forall>t \<in> set (transport_list (dw w)). trans (dw w) t \<noteq> None) \<and>
    (\<forall>name cto t. forwards w name = Some (cto, Some t) \<longrightarrow> t \<in> set (transport_list (dw w)))"
  by (simp add: finv_def forwards_Some) blast

lemma reply_fields [simp]:
  "listeners (reply fd bs w) = listeners w" "ldisc (reply fd bs w) = ldisc w" "next_listener (reply fd bs w) = next_listener w"
  "trans (dw (reply fd bs w)) = trans (dw w)" "transport_list (dw (reply fd bs w)) = transport_list (dw w)"
  "effects (ws (dw (reply fd bs w))) = effects (ws (dw w)) @ [WriteFd fd bs]"
  by (simp_all add: reply_def temit_def emit_def)

lemma reply_fail_fields [simp]:
  "listeners (reply_fail fd m w) = listeners w" "ldisc (reply_fail fd m w) = ldisc w"
  "next_listener (reply_fail fd m w) = next_listener w" "trans (dw (reply_fail fd m w)) = trans (dw w)"
  "transport_list (dw (reply_fail fd m w)) = transport_list (dw w)"
  by (simp_all add: reply_fail_def)

lemma linv_reply [simp]: "linv (reply fd bs w) = linv w" "linv (reply_fail fd m w) = linv w"
  by (simp_all add: linv_def)

lemma finv_reply [simp]: "finv (reply fd bs w) = finv w" "finv (reply_fail fd m w) = finv w"
  by (simp_all add: finv_def)

lemma acquire_any:
  assumes "set (transport_list w) \<subseteq> dom (trans w)"
  shows "\<exists>r. acquire_one_transport CS_ANY ty ser [w] = Inr (Some r) \<and> (\<forall>t. r = Inr t \<longrightarrow> t \<in> set (transport_list w))"
proof -
  let ?ms = "matches ty ser w (transport_list w)"
  from acquire_scan_eq [OF assms, of None ty ser "''device not found''"] obtain err'
    where s: "acquire_scan ty ser (transport_list w) None ''device not found'' w = Inr
        (case ?ms of [] \<Rightarrow> (None, err', False) | [t] \<Rightarrow> (Some t, err', False) | _ \<Rightarrow> (None, too_many ty ser, True))"
    by auto
  show ?thesis
  proof (cases ?ms)
    case Nil
    with s show ?thesis by (simp add: acquire_once_def)
  next
    case (Cons t ts)
    have "set ?ms \<subseteq> set (transport_list w)" by (auto simp: matches_def)
    then have t: "t \<in> set (transport_list w)" by (simp add: Cons)
    then obtain x where "trans w t = Some x" using assms by auto
    with Cons s t show ?thesis by (cases ts) (auto simp: acquire_once_def tget_def)
  qed
qed

lemma run_forward_safe:
  assumes inv: "finv w" and t: "t \<in> set (transport_list (dw w))"
  shows "safe_res finv (run_forward env spec t fd w)"
proof (cases spec)
  case Malformed
  with inv show ?thesis by (simp add: run_forward_def)
next
  case (Create local remote nr)
  from install_refines [OF finvD(1) [OF inv], of "Some t" remote local env nr] obtain r w' where
    w': "install_listener env local remote (Some t) nr w = Inr (r, w')" "linv w'" "same_transports w w'"
      "(r, forwards w') = map_lop env (Install local remote (Some t) nr) (forwards w)" by auto
  have "forwards w' = forwards w \<or> forwards w' = (forwards w)(local \<mapsto> (remote, Some t))"
    using w'(4) by (auto split: option.splits if_splits)
  then have "finv w'"
    using inv t w'(3) finv_forwards [OF finvD(1) [OF inv]] finv_forwards [OF w'(2)]
    by (auto simp: same_transports_def split: if_splits)
  with w'(1) show ?thesis by (simp add: run_forward_def Create)
next
  case (Kill local)
  from remove_refines [OF finvD(1) [OF inv], of local "Some t" env] obtain r w' where
    w': "remove_listener local (Some t) w = Inr (r, w')" "linv w'" "same_transports w w'"
      "(r, forwards w') = map_lop env (Remove local) (forwards w)" by blast
  then have "forwards w' = forwards w \<or> forwards w' = (forwards w)(local := None)" by (auto split: if_splits)
  then have "finv w'"
    using inv w'(3) finv_forwards [OF finvD(1) [OF inv]] finv_forwards [OF w'(2)]
    by (auto simp: same_transports_def split: if_splits)
  with w'(1) show ?thesis by (simp add: run_forward_def Kill)
qed

lemma handle_forward_safe:
  assumes inv: "finv w"
  shows "safe_res finv (handle_forward env service ty ser fd w)"
proof -
  have "set (transport_list (dw w)) \<subseteq> dom (trans (dw w))" using finvD(2) [OF inv] by fastforce
  from acquire_any [OF this, of ty ser] obtain r where
    r: "acquire_one_transport CS_ANY ty ser [dw w] = Inr (Some r)" "\<forall>t. r = Inr t \<longrightarrow> t \<in> set (transport_list (dw w))"
    by blast
  show ?thesis
  proof (cases r)
    case (Inl e)
    with r inv show ?thesis by (simp add: handle_forward_def del: acquire_one_transport.simps)
  next
    case (Inr t)
    with r inv show ?thesis
      using run_forward_safe [OF inv, of t] by (simp add: handle_forward_def del: acquire_one_transport.simps)
  qed
qed

section \<open>The list of forwards\<close>

definition known_serial :: "alistener \<Rightarrow> lworld \<Rightarrow> byte list" where
  "known_serial l w =
     (case ltransport l of
        None \<Rightarrow> []
      | Some t \<Rightarrow> (case trans (dw w) t of None \<Rightarrow> [] | Some x \<Rightarrow> (case serial x of None \<Rightarrow> [] | Some s \<Rightarrow> s)))"

definition forward_lines :: "lworld \<Rightarrow> alistener list \<Rightarrow> byte list" where
  "forward_lines w ls =
     concat (map (\<lambda>l. listener_line (known_serial l w) l) (filter (\<lambda>l. \<not> special (connect_to l)) ls))"

lemma forward_lines_simps [simp]:
  "forward_lines w [] = []"
  "forward_lines w (l # ls) =
     (if special (connect_to l) then [] else listener_line (known_serial l w) l) @ forward_lines w ls"
  by (simp_all add: forward_lines_def)

lemma length_listener_line: "length (listener_line ser l) = length (local_name l) + length (connect_to l) + length ser + 3"
  by (simp add: listener_line_def)

definition has_serial :: "lworld \<Rightarrow> alistener \<Rightarrow> bool" where
  "has_serial w l \<longleftrightarrow> special (connect_to l) \<or> serial_of l w = Inr (known_serial l w)"

text \<open>A forward through a transport that has no serial number.\<close>

definition nameless :: "lworld \<Rightarrow> alistener \<Rightarrow> bool" where
  "nameless w l \<longleftrightarrow> \<not> special (connect_to l) \<and>
     (\<exists>t x. ltransport l = Some t \<and> trans (dw w) t = Some x \<and> serial x = None)"

lemma finv_has_serial:
  assumes "finv w" and "l \<in> set (listeners w)"
  shows "if nameless w l then \<not> special (connect_to l) \<and> serial_of l w = Inl (Fault NullDeref) else has_serial w l"
proof (cases "special (connect_to l)")
  case False
  with linvD(4) [OF finvD(1) [OF assms(1)] assms(2)] obtain t where t: "ltransport l = Some t" by auto
  from finvD(2) [OF assms(1) finvD(3) [OF assms t]] obtain x where "trans (dw w) t = Some x" by blast
  with t False show ?thesis
    by (cases "serial x") (simp_all add: has_serial_def nameless_def serial_of_def known_serial_def nonnull_def tget_def)
qed (simp add: has_serial_def nameless_def)

text \<open>Without a buffer only the length is computed.\<close>

lemma format_from_None:
  assumes "\<forall>l \<in> set ls. has_serial w l"
  shows "format_from ls r None w = Inr (r + length (forward_lines w ls), None)"
  using assms
  by (induction ls arbitrary: r)
    (auto simp: has_serial_def format_listener_def length_listener_line)

lemma format_from_nameless:
  assumes "\<forall>l \<in> set ls. if nameless w l then \<not> special (connect_to l) \<and> serial_of l w = Inl (Fault NullDeref) else has_serial w l"
    and "\<exists>l \<in> set ls. nameless w l"
  shows "format_from ls r None w = Inl (Fault NullDeref)"
  using assms
proof (induction ls arbitrary: r)
  case (Cons l ls)
  show ?case
  proof (cases "nameless w l")
    case True
    with Cons.prems(1) show ?thesis by (simp add: format_listener_def)
  next
    case False
    with Cons show ?thesis by (auto simp: has_serial_def format_listener_def)
  qed
qed simp

text \<open>A buffer with room for all lines and the final zero byte is filled with them, line by line.\<close>

lemma format_from_Some:
  assumes "\<forall>l \<in> set ls. has_serial w l" and "off + unat n = length buf" and "length (forward_lines w ls) < unat n"
  shows "\<exists>buf'. format_from ls r (Some (buf, off, n)) w = Inr (r + length (forward_lines w ls), Some buf') \<and>
    take (off + length (forward_lines w ls)) buf' = take off buf @ forward_lines w ls"
  using assms
proof (induction ls arbitrary: r buf off n)
  case Nil
  then show ?case by simp
next
  case (Cons l ls)
  show ?case
  proof (cases "special (connect_to l)")
    case True
    with Cons show ?thesis by simp
  next
    case False
    let ?line = "listener_line (known_serial l w) l" and ?k = "length (listener_line (known_serial l w) l)"
    let ?m = "n - of_nat ?k"
    define buf1 where "buf1 = take off buf @ (?line @ [0]) @ drop (off + ?k + 1) buf"
    from False Cons.prems have k: "?k < unat n" by simp
    then have kw: "unat (of_nat ?k :: u32) = ?k" using unsigned_less [of n, where ?'a = nat] by (simp add: unat_u32)
    then have m: "unat ?m = unat n - ?k" using k by (simp add: unat_sub word_le_nat_alt)
    with k have m0: "?m \<noteq> 0" by (metis unat_0 zero_less_diff less_irrefl)
    have len: "length buf1 = length buf" "take (off + ?k) buf1 = take off buf @ ?line"
      using Cons.prems(2) k by (auto simp: buf1_def)
    have n0: "n \<noteq> 0" using k by auto
    have sn: "snprintf_at ?line off n buf = Inr buf1"
      using Cons.prems(2) k n0 by (simp add: snprintf_at_def buf1_def Let_def)
    have "serial_of l w = Inr (known_serial l w)" using Cons.prems(1) False by (simp add: has_serial_def)
    with sn have f: "format_listener l (Some (buf, off, n)) w = Inr (?k, Some buf1)"
      by (simp add: format_listener_def length_listener_line)
    have "off + ?k + unat ?m = length buf1" "length (forward_lines w ls) < unat ?m"
      using Cons.prems(2,3) False k m len(1) by simp_all
    from Cons.IH [OF _ this, of "r + ?k"] Cons.prems(1) obtain buf' where
      b: "format_from ls (r + ?k) (Some (buf1, off + ?k, ?m)) w = Inr (r + ?k + length (forward_lines w ls), Some buf')"
        "take (off + ?k + length (forward_lines w ls)) buf' = take (off + ?k) buf1 @ forward_lines w ls" by auto
    then show ?thesis using False f m0 len(2) by (auto simp: add.assoc)
  qed
qed

lemma list_forward_lines:
  assumes inv: "finv w" and n: "length (forward_lines w (listeners w)) < 2 ^ 31" and k: "\<forall>l \<in> set (listeners w). \<not> nameless w l"
  shows "list_forward env fd w = Inr (reply fd (forward_lines w (listeners w))
    (reply fd (take 8 (bytes_of_str ''OKAY'' @ hex_pad4 (length (forward_lines w (listeners w))))) w))"
proof -
  let ?L = "forward_lines w (listeners w)"
  let ?buf = "replicate (length ?L + 1) (junk env)"
  have s: "\<forall>l \<in> set (listeners w). has_serial w l" using finv_has_serial [OF inv] k by fastforce
  have u: "unat (of_nat (length ?L + 1) :: u32) = length ?L + 1" using n by (subst unat_u32) simp_all
  from format_from_Some [OF s, of 0 "of_nat (length ?L + 1)" ?buf 0] u obtain buf' where
    "format_from (listeners w) 0 (Some (?buf, 0, of_nat (length ?L + 1))) w = Inr (length ?L, Some buf')"
    "take (length ?L) buf' = ?L" by auto
  with format_from_None [OF s, of 0] show ?thesis
    by (simp add: list_forward_def format_listeners_def nonnull_def Let_def)
qed

lemma list_forward_nameless:
  assumes "finv w" and "\<exists>l \<in> set (listeners w). nameless w l"
  shows "list_forward env fd w = Inl (Fault NullDeref)"
  using format_from_nameless [OF _ assms(2), of 0] finv_has_serial [OF assms(1)]
  by (simp add: list_forward_def format_listeners_def)

lemma hex_pad4_hex4: "n < 65536 \<Longrightarrow> hex_pad4 n = hex4 n"
proof -
  assume n: "n < 65536"
  have z: "hex_digit 0 = 48" by (simp add: hex_digit_def)
  have d: "n div 16 div 16 = n div 256" "n div 256 div 16 = n div 4096"
    by (simp_all flip: div_mult2_eq)
  note H = hex_digits.simps [of n] hex_digits.simps [of "n div 16"] hex_digits.simps [of "n div 256"]
    hex_digits.simps [of "n div 4096"]
  consider "n < 16" | "16 \<le> n" "n < 256" | "256 \<le> n" "n < 4096" | "4096 \<le> n" by linarith
  then show ?thesis
  proof cases
    case 1
    then show ?thesis by (simp add: hex_pad4_def hex4_def H z numeral_3_eq_3)
  next
    case 2
    then have "n div 16 < 16" by simp
    with 2 show ?thesis by (simp add: hex_pad4_def hex4_def H z numeral_2_eq_2)
  next
    case 3
    then have "\<not> n div 16 < 16" "n div 256 < 16" by simp_all
    with 3 show ?thesis by (simp add: hex_pad4_def hex4_def H z d)
  next
    case 4
    then have "\<not> n div 16 < 16" "\<not> n div 256 < 16" "n div 4096 < 16" using n by simp_all
    with 4 show ?thesis by (simp add: hex_pad4_def hex4_def H d)
  qed
qed

text \<open>
  C40: The host requests that both builds have (\<open>list-forward\<close>, \<open>killforward-all\<close>, \<open>forward:\<close>, \<open>killforward:\<close>,
  \<open>get-state\<close>; \<open>kill\<close> ends the process, and any other name is refused): each of them, well formed or not, is answered without a
  fault in a state that has the invariant, and keeps it, as long as the list of forwards fits into memory. The one
  exception is \<open>list-forward\<close> while there is a forward through a transport without a serial number, as
  the ones over USB on the device are: it follows the null pointer.
\<close>

theorem host_requests_safe:
  assumes "finv w" and "length (forward_lines w (listeners w)) < 2 ^ 31"
  shows "if service = bytes_of_str ''list-forward'' \<and> (\<exists>l \<in> set (listeners w). nameless w l)
    then handle_host_request env service ty ser fd w = Inl (Fault NullDeref)
    else safe_res (\<lambda>(r, w'). finv w') (handle_host_request env service ty ser fd w)"
proof -
  have "\<exists>r. acquire_one_transport CS_ANY ty ser [dw w] = Inr (Some r)"
    using acquire_any [of "dw w" ty ser] finvD(2) [OF assms(1)] by fastforce
  then obtain r where r: "acquire_one_transport CS_ANY ty ser [dw w] = Inr (Some r)" by blast
  have st: "safe_res finv (get_state ty ser fd w)"
    using assms(1) r by (simp add: get_state_def Let_def del: acquire_one_transport.simps)
  have fw: "safe_res finv (handle_forward env service ty ser fd w)" by (rule handle_forward_safe [OF assms(1)])
  obtain w' where "remove_all_listeners w = Inr w'" "linv w'" "same_transports w w'"
    "listeners w' = filter (\<lambda>l. special (connect_to l)) (listeners w)"
    using remove_all_removes [OF finvD(1) [OF assms(1)]] by blast
  then have all: "safe_res finv (remove_all_listeners w)" using finv_fewer [OF assms(1), of w'] by auto
  have lift: "safe_res (\<lambda>(r, w'). finv w') (seq m (\<lambda>w. Inr (0 :: int, w)))" if "safe_res finv m" for m
    by (rule safe_res_seq [OF that]) simp
  have lift': "safe_res (\<lambda>(r, w'). finv w') (seq m (\<lambda>w. Inr (0 :: int, reply fd bs w)))" if "safe_res finv m" for m bs
    by (rule safe_res_seq [OF that]) simp
  have k: "bytes_of_str ''list-forward'' \<noteq> bytes_of_str ''kill''" by (simp add: bytes_of_str_def)
  show ?thesis
  proof (cases "\<exists>l \<in> set (listeners w). nameless w l")
    case True
    then have "list_forward env fd w = Inl (Fault NullDeref)" by (rule list_forward_nameless [OF assms(1)])
    with True k show ?thesis
      unfolding handle_host_request_def using lift' [OF all] lift [OF fw] lift [OF st] assms(1) by auto
  next
    case False
    then have "safe_res finv (list_forward env fd w)" using assms(1) by (simp add: list_forward_lines [OF assms])
    from lift [OF this] False show ?thesis
      unfolding handle_host_request_def using lift' [OF all] lift [OF fw] lift [OF st] assms(1) by auto
  qed
qed

text \<open>
  The request \<open>list-forward\<close> is answered with the length in four hexadecimal digits and exactly one
  line per forward, in the order of the listeners: the first pass computes the size and the
  second fills the buffer without leaving it.
\<close>

theorem list_forward_complete:
  assumes "finv w" and "length (forward_lines w (listeners w)) < 65536" and "\<forall>l \<in> set (listeners w). \<not> nameless w l"
  shows "\<exists>w'. handle_host_request env (bytes_of_str ''list-forward'') ty ser fd w = Inr (0, w') \<and>
    effects (ws (dw w')) = effects (ws (dw w)) @
      [WriteFd fd (bytes_of_str ''OKAY'' @ hex4 (length (forward_lines w (listeners w)))),
       WriteFd fd (forward_lines w (listeners w))] \<and> listeners w' = listeners w"
proof -
  have "bytes_of_str ''list-forward'' \<noteq> bytes_of_str ''kill''" by (simp add: bytes_of_str_def)
  moreover have "length (bytes_of_str ''OKAY'' @ hex4 n) = 8" for n by (simp add: hex4_def bytes_of_str_def)
  ultimately show ?thesis
    using list_forward_lines [OF assms(1) _ assms(3), of env fd] hex_pad4_hex4 [OF assms(2)] assms(2)
    by (simp add: handle_host_request_def)
qed

section \<open>Clients\<close>

lemma sock_ready_local:
  "hp st a = Some s \<Longrightarrow> ready_op s = LocalReady \<Longrightarrow> sock_ready a st = Inr (emit (FdOp (OpAdd (fde_of a) 1)) st)"
  by (simp add: sock_ready_def sock_Some local_socket_ready_def)

lemma connect_to_smartsocket_links:
  assumes new: "new_sock a st0 st" and a: "hp st a = Some s" "close_op s = LocalClose"
  shows "\<exists>st'. connect_to_smartsocket a st = Inr st' \<and> sinv st' \<and> jdwp_pids st' = jdwp_pids st0"
proof -
  from new a have s: "sock_ok s" "listed s" "\<not> closing s" "peer s = None" and i: "sinv_except {a} st"
    and none: "\<And>b t. hp st b = Some t \<Longrightarrow> peer t \<noteq> Some a" and j: "jdwp_pids st = jdwp_pids st0"
    unfolding new_sock_def by auto
  define q where "q = length (heap st)"
  define r where "r = zero_sock\<lparr>enqueue_op := SmartEnqueue, ready_op := SmartReady, close_op := SmartClose\<rparr>"
  define st1 where "st1 = st\<lparr>heap := heap st @ [Some r]\<rparr>"
  have n: "hp st q = None" unfolding q_def by (rule hp_alloc)
  with a have qa: "q \<noteq> a" by auto
  have h1: "hp st1 = (hp st)(q := Some r)" by (simp add: st1_def q_def hp_alloc)
  let ?s = "s\<lparr>peer := Some q\<rparr>" and ?r = "r\<lparr>peer := Some a\<rparr>"
  define st2 where "st2 = setk a (Some ?s) st1"
  have h2: "hp st2 = (hp st1)(a := Some ?s)"
    unfolding st2_def by (rule hp_setk) (use a qa in \<open>simp add: h1\<close>)
  define st3 where "st3 = setk q (Some ?r) st2"
  have h2q: "hp st2 q = Some r" using qa by (simp add: h2 h1)
  have h3: "hp st3 = (hp st2)(q := Some ?r)" unfolding st3_def by (rule hp_setk) (simp add: h2q)
  have u: "upd a (\<lambda>s. s\<lparr>peer := Some q\<rparr>) st1 = Inr st2" "upd q (\<lambda>s. s\<lparr>peer := Some a\<rparr>) st2 = Inr st3"
    unfolding st2_def st3_def using a qa h2q by (auto intro!: upd_Some simp: h1 st2_def)
  have ok: "sock_ok ?s" "sock_ok ?r" using s a(2)
    by (auto simp: sock_ok_def ops_ok_def local_kind_def r_def)
  have f: "hp st3 = (hp st)(a := Some ?s, q := Some ?r)" using qa by (auto simp: h3 h2 h1 fun_eq_iff)
  have o: "slist st3 = slist st" "clist st3 = clist st" "trackers st3 = trackers st" "fresh st3 = fresh st"
    "remotes st3 = remotes st" "jdwp_pids st3 = jdwp_pids st"
    by (simp_all add: st3_def st2_def st1_def setk_def)
  have "sinv st3"
    by (rule link_inv [OF i a(1) s(2,3) none n ok(1) _ _ _ _ ok(2) _ _ _ _ f o(1-3) _ o(4)])
      (use s a(2) o(5) in \<open>simp_all add: r_def listed_def\<close>)
  moreover have "sock_ready a st3 = Inr (emit (FdOp (OpAdd (fde_of a) 1)) st3)"
    by (rule sock_ready_local [of _ _ ?s]) (use qa a(2) s(1) in \<open>auto simp: f sock_ok_def ops_ok_def\<close>)
  ultimately show ?thesis
    using u j o(6) quiet_inv [of st3 "emit (FdOp (OpAdd (fde_of a) 1)) st3"]
    by (simp add: connect_to_smartsocket_def create_smart_socket_def alloc_def flip: q_def r_def st1_def)
qed

lemma new_local_inv:
  assumes new: "new_sock a st0 st" and a: "hp st a = Some s" "close_op s = LocalClose"
  shows "sinv st"
proof -
  from new a have i: "sinv_except {a} st" and "peer s = None" unfolding new_sock_def by auto
  with a have ok: "peer_ok st a s" by (simp add: peer_ok_def local_kind_def)
  have "peer_ok st b t" if "hp st b = Some t" for b t
    using that ok a sinvD(10) [OF i, of b t] by (cases "b = a") auto
  with i show ?thesis by (simp add: sinv_except_def)
qed

lemma transport_upd_inv:
  assumes "sinv st" and a: "hp st a = Some s" "close_op s = LocalClose"
  shows "\<exists>st'. upd a (\<lambda>s. s\<lparr>transport := t\<rparr>) st = Inr st' \<and> sinv st' \<and> hp st' a = Some (s\<lparr>transport := t\<rparr>) \<and>
    jdwp_pids st' = jdwp_pids st"
proof -
  have "sock_ok (s\<lparr>transport := t\<rparr>)" using sinvD(3) [OF assms(1) a(1)] a(2) by (simp add: sock_ok_def local_kind_def)
  from upd_inv [where f = "\<lambda>s. s\<lparr>transport := t\<rparr>", OF assms(1) a(1) this] a(2)
  show ?thesis by (simp add: setk_def)
qed

text \<open>
  Accepting a client, on the smart socket or on a forwarded port, creates its sockets without a
  fault and keeps the invariants of the daemon and of the listeners, for every listener
  that is installed and every event.
\<close>

theorem clients_accepted_safe:
  assumes "ainv (dw w)" and "linv w" and "l \<in> set (listeners w)"
  shows "safe_res (\<lambda>w'. ainv (dw w') \<and> linv w') (ss_listener_event_func ev fd w) \<and>
    safe_res (\<lambda>w'. ainv (dw w') \<and> linv w') (listener_event_func ev fd (laddr l) w)"
proof (cases "ev AND FDE_READ \<noteq> 0 \<and> \<not> fd < 0")
  case False
  with assms show ?thesis by (simp add: ss_listener_event_func_def listener_event_func_def)
next
  case True
  let ?st = "ws (dw w)"
  have keep: "linv (w\<lparr>dw := d\<rparr>)" for d using assms(2) by (simp add: linv_def)
  from create_local_socket_new(1) [OF ainvD(2) [OF assms(1)], of fd] obtain a st1 s where
    c: "create_local_socket fd ?st = Inr (a, st1)" and n: "new_sock a ?st st1" and s: "hp st1 a = Some s" "close_op s = LocalClose"
    by blast
  have j: "jdwp_pids st1 = jdwp_pids ?st" using n by (simp add: new_sock_def)
  from connect_to_smartsocket_links [OF n s] obtain st2 where
    "connect_to_smartsocket a st1 = Inr st2" "sinv st2" "jdwp_pids st2 = jdwp_pids ?st" by blast
  then have A: "safe_res (\<lambda>w'. ainv (dw w') \<and> linv w') (ss_listener_event_func ev fd w)"
    using True c keep ainv_set_ws [OF assms(1)] by (simp add: ss_listener_event_func_def)
  from transport_upd_inv [OF new_local_inv [OF n s] s, of "ltransport l"] obtain st3 where
    u: "upd a (\<lambda>s. s\<lparr>transport := ltransport l\<rparr>) st1 = Inr st3" "sinv st3"
      "hp st3 a = Some (s\<lparr>transport := ltransport l\<rparr>)" "jdwp_pids st3 = jdwp_pids st1" by blast
  have "safe_res (\<lambda>st. ainv (set_ws st (dw w))) (connect_to_remote a (connect_to l) st3)"
    by (rule safe_res_mono [OF connect_to_remote_safe [OF sinvD(9) [OF u(2)] u(3)]])
      (use u(2,4) j in \<open>auto simp: quiet_def intro!: ainv_set_ws [OF assms(1)] elim: quiet_inv [rotated]\<close>)
  then have "safe_res (\<lambda>w'. ainv (dw w') \<and> linv w')
      (seq (connect_to_remote a (connect_to l) st3) (\<lambda>st. Inr (w\<lparr>dw := set_ws st (dw w)\<rparr>)))"
    by (rule safe_res_seq) (simp add: keep)
  with A True c u(1) listener_at_mem [OF assms(2,3)] show ?thesis
    by (simp add: listener_event_func_def)
qed

lemma c_string_prefix: "0 \<notin> set name \<Longrightarrow> c_string (name @ 0 # rest) = Some name"
  by (induction name) (auto simp: c_string_def)

lemma connect_to_remote_sends:
  assumes a: "hp st a = Some s" "transport s = Some t" and "pipe_ok st t"
    and l: "length (fresh st) = MAX_PAYLOAD" "length name + 1 < MAX_PAYLOAD"
  shows "\<exists>q. connect_to_remote a name st = Inr (emit (Sent t q) st) \<and> command (msg q) = A_OPEN \<and>
    arg0 (msg q) = sid s \<and> payload q = name @ [0]"
proof -
  have u: "unat (of_nat (length name + 1) :: u32) = length name + 1"
    by (rule unat_u32) (use l in \<open>simp add: MAX_PAYLOAD_def\<close>)
  show ?thesis
    using assms u
    by (auto simp: connect_to_remote_def sock_Some Let_def command_packet_def get_apacket_def blit_def
        send_packet_def packet_seal_def data_sum_eq payload_def)
qed

lemma smart_connect_sends:
  assumes a: "hp st a = Some s" "close_op s = SmartClose" "peer s = Some q" and q: "hp st q = Some u" "q \<noteq> a"
    and t: "pipe_ok st t" "length (fresh st) = MAX_PAYLOAD"
    and d: "c_string (drop 4 d) = Some name" "length name + 1 < MAX_PAYLOAD"
  shows "\<exists>pk st'. smart_connect a t d st = Inr (1, st') \<and> effects st' = effects st @ [Sent t pk] \<and>
    command (msg pk) = A_OPEN \<and> arg0 (msg pk) = sid u \<and> payload pk = name @ [0] \<and>
    hp st' = (hp st)(q := Some (u\<lparr>ready_op := LocalReadyNotify, close_op := LocalCloseNotify, peer := None,
      transport := Some t\<rparr>), a := None)"
proof -
  let ?u = "u\<lparr>ready_op := LocalReadyNotify, close_op := LocalCloseNotify, peer := None, transport := Some t\<rparr>"
  define st1 where "st1 = setk q (Some ?u) st"
  have h1: "hp st1 = (hp st)(q := Some ?u)" using q(1) by (simp add: st1_def hp_setk)
  have f: "pipe_ok st1 = pipe_ok st" "fresh st1 = fresh st" "effects st1 = effects st" by (simp_all add: st1_def setk_def)
  have "hp st1 q = Some ?u" by (simp add: h1)
  from connect_to_remote_sends [OF this, of t name] t d(2) f obtain pk where
    pk: "connect_to_remote q name st1 = Inr (emit (Sent t pk) st1)" "command (msg pk) = A_OPEN" "arg0 (msg pk) = sid u"
      "payload pk = name @ [0]" by auto
  let ?st2 = "emit (Sent t pk) st1" and ?s = "s\<lparr>peer := None\<rparr>"
  have h2: "hp ?st2 a = Some s" using a(1) q(2) by (simp add: h1)
  let ?st3 = "setk a (Some ?s) ?st2"
  have h3: "hp ?st3 = (hp ?st2)(a := Some ?s)" using h2 by (simp add: hp_setk)
  have c: "sock_close a ?st3 = Inr (setk a None ?st3)"
    using h3 a(2) by (simp add: sock_close_def sock_Some free_Some)
  have h4: "hp (setk a None ?st3) = (hp ?st3)(a := None)" using h3 by (simp add: hp_setk)
  have "smart_connect a t d st = Inr (1, setk a None ?st3)"
    using a(1,3) q d(1) upd_Some [OF q(1)] upd_Some [OF h2] pk(1) c
    by (simp add: smart_connect_def sock_Some flip: st1_def)
  moreover have "effects (setk a None ?st3) = effects st @ [Sent t pk]"
    by (simp add: setk_def emit_def f)
  moreover have "hp (setk a None ?st3) = (hp st)(q := Some ?u, a := None)"
    using q(2) by (simp add: h4 h3 h1 fun_upd_twist)
  ultimately show ?thesis using pk by blast
qed

text \<open>The two sockets of a new client are at the end of the heap.\<close>

lemma accept_smart_client:
  fixes st :: sworld and fd :: int
  defines "a \<equiv> length (heap st)"
  defines "l \<equiv> zero_sock\<lparr>sid := next_id st, sfd := fd, write_fd := fd, peer := Some (a + 1)\<rparr>"
    and "r \<equiv> zero_sock\<lparr>enqueue_op := SmartEnqueue, ready_op := SmartReady, close_op := SmartClose, peer := Some a\<rparr>"
  shows "seq (create_local_socket fd st) (\<lambda>(a, st). connect_to_smartsocket a st) = Inr
    (st\<lparr>heap := heap st @ [Some l, Some r], next_id := next_id st + 1, slist := slist st @ [a],
      effects := effects st @ [FdOp (OpInstall (fde_of a) fd local_socket_event_func a), FdOp (OpAdd (fde_of a) 1)]\<rparr>)"
proof -
  have [simp]: "a < length (heap st @ xs) \<longleftrightarrow> xs \<noteq> []" "(heap st @ x # xs) ! a = x"
    "(heap st @ x # xs)[a := y] = heap st @ y # xs" "a + 1 < length (heap st @ x # xs) \<longleftrightarrow> xs \<noteq> []"
    "(heap st @ x # y # xs)[Suc a := z] = heap st @ x # z # xs" "(heap st @ x # y # xs) ! Suc a = y" for x y z xs
    by (auto simp: a_def nth_append list_update_append)
  show ?thesis
    unfolding l_def r_def
    by (simp add: create_local_socket_def alloc_def install_local_socket_def upd_def sock_def connect_to_smartsocket_def
        create_smart_socket_def sock_ready_def local_socket_ready_def emit_def zero_sock_def flip: a_def)
qed

lemma length_hex4: "length (hex4 n) = 4"
  by (simp add: hex4_def)

text \<open>A request with its length in front, complete in one packet, as both builds take it apart.\<close>

lemma request_facts:
  assumes p: "length (data p) = MAX_PAYLOAD" "data p = hex4 (length name) @ name @ rest" "pkt_len p = of_nat (length name + 4)"
    and n: "0 < length name" "length name \<le> 1024" "0 \<notin> set name"
  shows "unhex (data p) 4 = Inr (of_nat (length name))"
    "\<not> of_nat (length name) < (1 :: u32)" "\<not> of_nat (length name) > (1024 :: u32)" "\<not> pkt_len p < 4"
    "\<not> of_nat (length name) + 4 > pkt_len p" "\<not> unat (of_nat (length name) + 4 :: u32) \<ge> length (data p)"
    "c_string (drop 4 ((data p)[unat (of_nat (length name) + 4 :: u32) := 0])) = Some name"
proof -
  let ?n = "of_nat (length name) :: u32"
  show "unhex (data p) 4 = Inr ?n" using unhex_hex4 [of "length name" "name @ rest"] p(2) n(2) by simp
  have un: "unat ?n = length name" by (rule unat_u32) (use n(2) in simp)
  then have u4: "unat (?n + 4) = length name + 4" using n(2) by (simp add: unat_word_ariths)
  have "rest \<noteq> []" using p(1,2) n(2) by (auto simp: hex4_def MAX_PAYLOAD_def)
  then have "(data p)[unat (?n + 4) := 0] = hex4 (length name) @ name @ 0 # tl rest"
    unfolding u4 p(2) by (cases rest) (simp_all add: length_hex4 list_update_append)
  then show "c_string (drop 4 ((data p)[unat (?n + 4) := 0])) = Some name"
    using c_string_prefix [OF n(3)] by (simp add: hex4_def)
  show "\<not> ?n < 1" "\<not> ?n > 1024" "\<not> pkt_len p < 4" "\<not> ?n + 4 > pkt_len p" "\<not> unat (?n + 4) \<ge> length (data p)"
    using n un u4 p(1,3) by (simp_all add: word_less_nat_alt MAX_PAYLOAD_def)
qed

lemma smart_enqueue_sends:
  assumes a: "hp st a = Some r" "close_op r = SmartClose" "peer r = Some q" "pkts r = []" "transport r = None"
    and q: "hp st q = Some u" "q \<noteq> a"
    and t: "acquire st = Inr t" "\<not> offline st t" "pipe_ok st t" "length (fresh st) = MAX_PAYLOAD"
    and p: "length (data p) = MAX_PAYLOAD" "data p = hex4 (length name) @ name @ rest" "pkt_len p = of_nat (length name + 4)"
    and n: "0 < length name" "length name \<le> 1024" "0 \<notin> set name"
  shows "\<exists>pk st'. smart_socket_enqueue a p st = Inr (1, st') \<and> effects st' = effects st @ [Sent t pk] \<and>
    command (msg pk) = A_OPEN \<and> arg0 (msg pk) = sid u \<and> payload pk = name @ [0] \<and>
    hp st' = (hp st)(q := Some (u\<lparr>ready_op := LocalReadyNotify, close_op := LocalCloseNotify, peer := None,
      transport := Some t\<rparr>), a := None)"
proof -
  let ?n = "of_nat (length name) :: u32"
  let ?d = "(data p)[unat (?n + 4) := 0]"
  note rf = request_facts [OF p n]
  define r1 r2 where "r1 = r\<lparr>pkts := [p]\<rparr>" and "r2 = r1\<lparr>transport := Some t, pkts := [p\<lparr>data := ?d\<rparr>]\<rparr>"
  define st1 st2 where "st1 = setk a (Some r1) st" and "st2 = setk a (Some r2) st1"
  have h1: "hp st1 = (hp st)(a := Some r1)" unfolding st1_def by (rule hp_setk) (simp add: a)
  have h2: "hp st2 = (hp st)(a := Some r2)" unfolding st2_def by (subst hp_setk) (simp_all add: h1)
  have f: "acquire st1 = Inr t" "offline st2 = offline st" "pipe_ok st2 = pipe_ok st" "fresh st2 = fresh st"
    "effects st2 = effects st" using t(1) by (simp_all add: st2_def st1_def)
  have up: "upd a (\<lambda>s. s\<lparr>pkts := [p]\<rparr>) st = Inr st1"
    "upd a (\<lambda>s. s\<lparr>transport := Some t, pkts := [p\<lparr>data := ?d\<rparr>]\<rparr>) st1 = Inr st2"
    using upd_Some [OF a(1)] upd_Some [of st1 a r1] h1 by (simp_all add: st1_def st2_def r1_def r2_def)
  have "smart_request a p st1 = smart_connect a t ?d st2"
    using rf(1-6) up(2) h1 a(5) f t(2) by (simp add: smart_request_def sock_Some Let_def r1_def)
  then have e: "smart_socket_enqueue a p st = smart_connect a t ?d st2"
    using a up(1) by (simp add: smart_socket_enqueue_def sock_Some)
  have "hp st2 a = Some r2" "hp st2 q = Some u" "close_op r2 = SmartClose" "peer r2 = Some q"
    using h2 q a by (simp_all add: r2_def r1_def)
  from smart_connect_sends [OF this(1,3,4,2) q(2) _ _ rf(7)] f t n(2) show ?thesis
    unfolding e by (simp add: h2 MAX_PAYLOAD_def fun_upd_twist)
qed

text \<open>
  A client that connects to the smart socket and sends a service name with its length in front
  makes the daemon send exactly one packet, which asks the other side to open that name for the client's
  socket; the smart socket is gone and the client's socket waits for the answer.
\<close>

theorem client_request_opens:
  assumes "0 \<le> fd" and "ws (dw w) = st" and "acquire st = Inr t" and "\<not> offline st t" and "pipe_ok st t"
    and "length (fresh st) = MAX_PAYLOAD"
    and "length (data p) = MAX_PAYLOAD" and "data p = hex4 (length name) @ name @ rest"
    and "pkt_len p = of_nat (length name + 4)" and "0 < length name" "length name \<le> 1024" "0 \<notin> set name"
  shows "\<exists>w1 st2 q. ss_listener_event_func FDE_READ fd w = Inr w1 \<and>
    smart_socket_enqueue (length (heap st) + 1) p (ws (dw w1)) = Inr (1, st2) \<and>
    effects st2 = effects st @ [FdOp (OpInstall (fde_of (length (heap st))) fd local_socket_event_func (length (heap st))),
      FdOp (OpAdd (fde_of (length (heap st))) 1), Sent t q] \<and>
    command (msg q) = A_OPEN \<and> arg0 (msg q) = next_id st \<and> payload q = name @ [0] \<and>
    hp st2 = (hp st)(length (heap st) := Some (zero_sock\<lparr>sid := next_id st, sfd := fd, write_fd := fd,
      ready_op := LocalReadyNotify, close_op := LocalCloseNotify, transport := Some t\<rparr>))"
proof -
  let ?a = "length (heap st)"
  let ?l = "zero_sock\<lparr>sid := next_id st, sfd := fd, write_fd := fd, peer := Some (?a + 1)\<rparr>"
  let ?r = "zero_sock\<lparr>enqueue_op := SmartEnqueue, ready_op := SmartReady, close_op := SmartClose, peer := Some ?a\<rparr>"
  define st1 where "st1 = st\<lparr>heap := heap st @ [Some ?l, Some ?r], next_id := next_id st + 1, slist := slist st @ [?a],
      effects := effects st @ [FdOp (OpInstall (fde_of ?a) fd local_socket_event_func ?a), FdOp (OpAdd (fde_of ?a) 1)]\<rparr>"
  define w1 where "w1 = w\<lparr>dw := set_ws st1 (dw w)\<rparr>"
  from accept_smart_client [of fd st] obtain b st0 where
    "create_local_socket fd st = Inr (b, st0)" "connect_to_smartsocket b st0 = Inr st1"
    by (auto simp: seq_eq_Inr st1_def)
  then have A: "ss_listener_event_func FDE_READ fd w = Inr w1"
    using assms(1,2) by (simp add: ss_listener_event_func_def FDE_READ_def w1_def)
  have h1: "hp st1 = (hp st)(?a := Some ?l, ?a + 1 := Some ?r)"
    by (auto simp: hp_def st1_def fun_eq_iff nth_append less_Suc_eq)
  have none: "hp st ?a = None" "hp st (?a + 1) = None" by (simp_all add: hp_def)
  obtain pk st' where c: "smart_socket_enqueue (?a + 1) p st1 = Inr (1, st')" "effects st' = effects st1 @ [Sent t pk]"
    "command (msg pk) = A_OPEN" "arg0 (msg pk) = next_id st" "payload pk = name @ [0]"
    "hp st' = (hp st1)(?a := Some (?l\<lparr>ready_op := LocalReadyNotify, close_op := LocalCloseNotify, peer := None,
       transport := Some t\<rparr>), ?a + 1 := None)"
    using smart_enqueue_sends [of st1 "?a + 1" ?r ?a ?l t p name rest] assms h1
    by (auto simp: st1_def)
  have "?l\<lparr>ready_op := LocalReadyNotify, close_op := LocalCloseNotify, peer := None, transport := Some t\<rparr> =
      zero_sock\<lparr>sid := next_id st, sfd := fd, write_fd := fd, ready_op := LocalReadyNotify,
        close_op := LocalCloseNotify, transport := Some t\<rparr>" by (simp add: zero_sock_def)
  then have "hp st' = (hp st)(?a := Some (zero_sock\<lparr>sid := next_id st, sfd := fd, write_fd := fd,
      ready_op := LocalReadyNotify, close_op := LocalCloseNotify, transport := Some t\<rparr>))"
    unfolding c(6) h1 using none by (auto simp: fun_eq_iff)
  with A c show ?thesis
    by (intro exI [of _ w1] exI [of _ st'] exI [of _ pk] conjI) (simp_all add: w1_def st1_def)
qed

section \<open>Concrete runs\<close>

definition demo_listen :: listen_env where
  "demo_listen = \<lparr>gListenAll = 0, tcp_server = \<lambda>_ _. 7, local_server = \<lambda>_ _. -1, junk = 170\<rparr>"

text \<open>The smart socket and one forward, from \<open>tcp:1\<close> to \<open>tcp:2\<close> on transport 0 with the serial number \<open>X\<close>.\<close>

definition demo_fwd :: lworld where
  "demo_fwd = \<lparr>dw = demo_adbd\<lparr>trans := [0 \<mapsto> demo_transport\<lparr>serial := Some [88]\<rparr>], transport_list := [0]\<rparr>,
     listeners =
       [\<lparr>laddr = 0, local_name = bytes_of_str ''tcp:5037'', connect_to = bytes_of_str ''*smartsocket*'', lfd = 6, ltransport = None\<rparr>,
        \<lparr>laddr = 1, local_name = bytes_of_str ''tcp:1'', connect_to = bytes_of_str ''tcp:2'', lfd = 7, ltransport = Some 0\<rparr>],
     ldisc = (\<lambda>_. [])(0 := [1]), next_listener = 2\<rparr>"

lemma demo_finv: "finv demo_fwd"
  by (auto simp: finv_def linv_def demo_fwd_def special_def bytes_of_str_def demo_adbd_def image_iff
      Bex_def conj_disj_distribR ex_disj_distrib)

lemma demo_lines: "forward_lines demo_fwd (listeners demo_fwd) = bytes_of_str ''X tcp:1 tcp:2'' @ [10]"
  by (simp add: demo_fwd_def special_def bytes_of_str_def listener_line_def known_serial_def)

theorem listeners_refine_map_witness:
  "\<exists>w'. run_lops demo_listen [Install (bytes_of_str ''tcp:1'') (bytes_of_str ''tcp:3'') (Some 0) True,
       Install (bytes_of_str ''tcp:5037'') (bytes_of_str ''tcp:3'') (Some 0) False, Gone 0,
       Remove (bytes_of_str ''tcp:1'')] demo_fwd = Inr ([-3, -1, 0, -1], w')"
proof -
  let ?ops = "[Install (bytes_of_str ''tcp:1'') (bytes_of_str ''tcp:3'') (Some 0) True,
     Install (bytes_of_str ''tcp:5037'') (bytes_of_str ''tcp:3'') (Some 0) False, Gone 0, Remove (bytes_of_str ''tcp:1'')]"
  have f: "forwards demo_fwd (bytes_of_str ''tcp:1'') = Some (bytes_of_str ''tcp:2'', Some 0)"
    "forwards demo_fwd (bytes_of_str ''tcp:5037'') = Some (bytes_of_str ''*smartsocket*'', None)"
    by (simp_all add: forwards_def demo_fwd_def bytes_of_str_def)
  have sp: "\<not> special (bytes_of_str ''tcp:2'')" "special (bytes_of_str ''*smartsocket*'')"
    by (simp_all add: special_def bytes_of_str_def)
  have "lops_ok demo_listen ?ops (forwards demo_fwd)" by simp
  from listeners_refine_map [OF finvD(1) [OF demo_finv] this] f sp show ?thesis by auto
qed

lemma demo_named: "\<forall>l \<in> set (listeners demo_fwd). \<not> nameless demo_fwd l"
  by (simp add: demo_fwd_def nameless_def special_def bytes_of_str_def)

definition demo_unnamed :: lworld where
  "demo_unnamed = demo_fwd\<lparr>dw := (dw demo_fwd)\<lparr>trans := (trans (dw demo_fwd))(0 \<mapsto> demo_transport\<lparr>serial := None\<rparr>)\<rparr>\<rparr>"

lemma demo_unnamed_ok: "finv demo_unnamed" "\<exists>l \<in> set (listeners demo_unnamed). nameless demo_unnamed l"
    "length (forward_lines demo_unnamed (listeners demo_unnamed)) < 2 ^ 31"
proof -
  show "finv demo_unnamed"
    using demo_finv by (auto simp: finv_def linv_def demo_unnamed_def)
  show "\<exists>l \<in> set (listeners demo_unnamed). nameless demo_unnamed l"
    by (simp add: demo_unnamed_def demo_fwd_def nameless_def special_def bytes_of_str_def)
  show "length (forward_lines demo_unnamed (listeners demo_unnamed)) < 2 ^ 31"
    by (simp add: demo_unnamed_def demo_fwd_def special_def bytes_of_str_def listener_line_def known_serial_def)
qed

theorem host_requests_safe_witness:
  "safe_res (\<lambda>(r, w'). finv w') (handle_host_request demo_listen (bytes_of_str ''forward:tcp:4;tcp:5'') kTransportAny None 3 demo_fwd) \<and>
   handle_host_request demo_listen (bytes_of_str ''list-forward'') kTransportAny None 3 demo_unnamed = Inl (Fault NullDeref)"
proof
  have "length (forward_lines demo_fwd (listeners demo_fwd)) < 2 ^ 31" by (simp add: demo_lines bytes_of_str_def)
  from host_requests_safe [OF demo_finv this, of "bytes_of_str ''forward:tcp:4;tcp:5''" demo_listen kTransportAny None 3]
  show "safe_res (\<lambda>(r, w'). finv w')
      (handle_host_request demo_listen (bytes_of_str ''forward:tcp:4;tcp:5'') kTransportAny None 3 demo_fwd)"
    using demo_named by simp
  from host_requests_safe [OF demo_unnamed_ok(1,3), of "bytes_of_str ''list-forward''" demo_listen kTransportAny None 3]
  show "handle_host_request demo_listen (bytes_of_str ''list-forward'') kTransportAny None 3 demo_unnamed = Inl (Fault NullDeref)"
    using demo_unnamed_ok(2) by simp
qed

theorem list_forward_complete_witness:
  "\<exists>w'. handle_host_request demo_listen (bytes_of_str ''list-forward'') kTransportAny None 3 demo_fwd = Inr (0, w') \<and>
     WriteFd 3 (bytes_of_str ''X tcp:1 tcp:2'' @ [10]) \<in> set (effects (ws (dw w')))"
  using list_forward_complete [OF demo_finv _ demo_named, of demo_listen kTransportAny None 3]
  by (auto simp: demo_lines bytes_of_str_def)

lemma demo_fwd_ainv: "ainv (dw demo_fwd)"
  using demo_ainv(1) by (simp add: ainv_def demo_fwd_def demo_adbd_def demo_transport_def)

theorem clients_accepted_safe_witness:
  "safe_res (\<lambda>w'. ainv (dw w') \<and> linv w') (listener_event_func FDE_READ 9 1 demo_fwd)"
  using clients_accepted_safe [OF demo_fwd_ainv finvD(1) [OF demo_finv], of "listeners demo_fwd ! 1" FDE_READ 9]
  by (simp add: demo_fwd_def)

theorem client_request_opens_witness:
  "\<exists>w1 st2 q. ss_listener_event_func FDE_READ 9 demo_fwd = Inr w1 \<and>
     smart_socket_enqueue 3 (demo_bytes (bytes_of_str ''0006shell:'')) (ws (dw w1)) = Inr (1, st2) \<and>
     Sent 0 q \<in> set (effects st2) \<and> payload q = bytes_of_str ''shell:'' @ [0]"
proof -
  have d: "ws (dw demo_fwd) = demo_world\<lparr>jdwp_pids := [4660]\<rparr>"
    by (simp add: demo_fwd_def ws_def demo_adbd_def demo_vworld_def demo_jworld_def)
  let ?p = "demo_bytes (bytes_of_str ''0006shell:'')" and ?name = "bytes_of_str ''shell:''"
  have p: "length (data ?p) = MAX_PAYLOAD" "data ?p = hex4 (length ?name) @ ?name @ replicate (MAX_PAYLOAD - 10) 0"
    "pkt_len ?p = of_nat (length ?name + 4)" "0 < length ?name" "length ?name \<le> 1024" "0 \<notin> set ?name"
    by (simp_all add: hex4_def hex_digit_def demo_bytes_def get_apacket_def bytes_of_str_def MAX_PAYLOAD_def)
  have e: "acquire (ws (dw demo_fwd)) = Inr 0" "\<not> offline (ws (dw demo_fwd)) 0" "pipe_ok (ws (dw demo_fwd)) 0"
    "length (fresh (ws (dw demo_fwd))) = MAX_PAYLOAD" "length (heap (ws (dw demo_fwd))) = 2"
    by (simp_all add: d demo_world_def start_world_def)
  have three: "(2 :: nat) + 1 = 3" by simp
  from client_request_opens [OF _ refl e(1-4) p, of 9, unfolded e(5) three] obtain w1 st2 q where
    "ss_listener_event_func FDE_READ 9 demo_fwd = Inr w1" "smart_socket_enqueue 3 ?p (ws (dw w1)) = Inr (1, st2)"
    "effects st2 = effects (ws (dw demo_fwd)) @ [FdOp (OpInstall (fde_of 2) 9 local_socket_event_func 2),
      FdOp (OpAdd (fde_of 2) 1), Sent 0 q]" "payload q = ?name @ [0]" by auto
  then show ?thesis by (intro exI [of _ w1] exI [of _ st2] exI [of _ q]) simp
qed

end
