(* ===== verification/File_Sync.thy ===== *)
theory File_Sync
  imports Sysio Packet
begin

text \<open>
  The file service (\<open>src/file_sync_service.c\<close>): the loop over the requests of one client, which
  looks at files, lists directories, stores and delivers files. It reads from one descriptor and
  writes to another; both are streams as in \<open>Sysio\<close>, so every call may be cut short,
  interrupted, refused or not return.
\<close>

section \<open>Computations that may stop or not return\<close>

type_synonym 'a sy = "'a res option"

definition sret :: "'a \<Rightarrow> 'a sy" where "sret x = Some (Inr x)"

definition sbind :: "'a sy \<Rightarrow> ('a \<Rightarrow> 'b sy) \<Rightarrow> 'b sy" where
  "sbind m f = (case m of None \<Rightarrow> None | Some (Inl e) \<Rightarrow> Some (Inl e) | Some (Inr x) \<Rightarrow> f x)"

lemma sbind_simps [simp]:
  "sbind None f = None" "sbind (Some (Inl e)) f = Some (Inl e)" "sbind (Some (Inr x)) f = f x" "sbind (sret x) f = f x"
  by (simp_all add: sbind_def sret_def)

lemma sbind_cong [fundef_cong]:
  "m = m' \<Longrightarrow> (\<And>x. m' = Some (Inr x) \<Longrightarrow> f x = f' x) \<Longrightarrow> sbind m f = sbind m' f'"
  by (auto simp: sbind_def split: option.splits sum.splits)

lemma sbind_eq: "sbind m f = Some (Inr y) \<longleftrightarrow> (\<exists>x. m = Some (Inr x) \<and> f x = Some (Inr y))"
  by (auto simp: sbind_def split: option.splits sum.splits)

lemma sret_eq [simp]: "sret x = Some (Inr y) \<longleftrightarrow> x = y" "sret x = sret y \<longleftrightarrow> x = y"
  by (simp_all add: sret_def)

section \<open>Messages\<close>

definition MKID :: "string \<Rightarrow> u32" where "MKID s = of_le32 (bytes_of_str s)"

definition ID_STAT :: u32 where "ID_STAT = MKID ''STAT''"
definition ID_LIST :: u32 where "ID_LIST = MKID ''LIST''"
definition ID_SEND :: u32 where "ID_SEND = MKID ''SEND''"
definition ID_RECV :: u32 where "ID_RECV = MKID ''RECV''"
definition ID_DENT :: u32 where "ID_DENT = MKID ''DENT''"
definition ID_DONE :: u32 where "ID_DONE = MKID ''DONE''"
definition ID_DATA :: u32 where "ID_DATA = MKID ''DATA''"
definition ID_OKAY :: u32 where "ID_OKAY = MKID ''OKAY''"
definition ID_FAIL :: u32 where "ID_FAIL = MKID ''FAIL''"
definition ID_QUIT :: u32 where "ID_QUIT = MKID ''QUIT''"

lemmas ID_defs = ID_STAT_def ID_LIST_def ID_SEND_def ID_RECV_def ID_DENT_def ID_DONE_def ID_DATA_def ID_OKAY_def
  ID_FAIL_def ID_QUIT_def MKID_def

definition SYNC_DATA_MAX :: nat where "SYNC_DATA_MAX = 65536"

text \<open>The members of the union \<open>syncmsg\<close> as they lie in memory.\<close>

definition data_msg :: "u32 \<Rightarrow> u32 \<Rightarrow> byte list" where
  "data_msg i sz = le32 i @ le32 sz"

definition stat_msg :: "u32 \<Rightarrow> u32 \<Rightarrow> u32 \<Rightarrow> u32 \<Rightarrow> byte list" where
  "stat_msg i mode sz time = le32 i @ le32 mode @ le32 sz @ le32 time"

definition dent_msg :: "u32 \<Rightarrow> u32 \<Rightarrow> u32 \<Rightarrow> u32 \<Rightarrow> u32 \<Rightarrow> byte list" where
  "dent_msg i mode sz time namelen = stat_msg i mode sz time @ le32 namelen"

section \<open>State and environment\<close>

text \<open>What the service does to the file system, in order.\<close>

datatype fs_event =
    MadeDir "byte list"
  | Opened bool "byte list" u32 int
  | OpenedRead "byte list" int
  | Wrote int "byte list"
  | Closed int
  | Unlinked "byte list"
  | Utimed "byte list" u32
  | MadeLink "byte list" "byte list"

text \<open>
  The service: its two streams and what it has written, its buffer, its log, and the answers to
  come of \<open>open\<close>, \<open>mkdir\<close>, \<open>symlink\<close> and of the reads and writes on the file that is open.
\<close>

record sync =
  rin :: "rd_answer list"
  wans :: "wr_answer list"
  wout :: "byte list"
  buf :: "byte list"
  fslog :: "fs_event list"
  opens :: "(errno + int) list"
  mkdir_ans :: "errno option list"
  link_ans :: "errno option list"
  file_wans :: "wr_answer list"
  file_rin :: "rd_answer list"

text \<open>
  What can be asked of the file system: \<open>readdir\<close> gives the descriptor of the directory that \<open>opendir\<close> opens and the names in it;
  \<open>write_errno\<close> is \<open>errno\<close> after a failed write.
\<close>

record sync_env =
  lstat :: "byte list \<Rightarrow> (u32 \<times> u32 \<times> u32) option"
  readdir :: "byte list \<Rightarrow> (int \<times> byte list list) option"
  strerror :: "errno \<Rightarrow> byte list"
  write_errno :: errno
  buffers :: "bool \<times> bool"

definition note_fs :: "fs_event \<Rightarrow> sync \<Rightarrow> sync" where
  "note_fs e st = st\<lparr>fslog := fslog st @ [e]\<rparr>"

text \<open>\<open>readx(rfd, ...)\<close> and \<open>writex(wfd, ...)\<close>\<close>

definition sread :: "nat \<Rightarrow> sync \<Rightarrow> (byte list option \<times> sync) sy" where
  "sread n st = (case readx n (rin st) of None \<Rightarrow> None | Some (r, k) \<Rightarrow> sret (r, st\<lparr>rin := k\<rparr>))"

definition swrite :: "byte list \<Rightarrow> sync \<Rightarrow> (bool \<times> sync) sy" where
  "swrite bs st =
     (case writex bs (wans st) of (out, r, k) \<Rightarrow>
        (case r of None \<Rightarrow> None | Some ok \<Rightarrow> sret (ok, st\<lparr>wout := wout st @ out, wans := k\<rparr>)))"

text \<open>Two writes joined by \<open>||\<close>.\<close>

definition swrite2 :: "byte list \<Rightarrow> byte list \<Rightarrow> sync \<Rightarrow> (bool \<times> sync) sy" where
  "swrite2 a b st = sbind (swrite a st) (\<lambda>(ok, st). if ok then swrite b st else sret (False, st))"

text \<open>\<open>readx(rfd, buffer, len)\<close> and \<open>writex(fd, buffer, len)\<close>\<close>

definition put_buf :: "byte list \<Rightarrow> sync \<Rightarrow> sync sy" where
  "put_buf bs st = (case blit bs (buf st) of Inl e \<Rightarrow> Some (Inl e) | Inr b \<Rightarrow> sret (st\<lparr>buf := b\<rparr>))"

definition read_buffer :: "nat \<Rightarrow> sync \<Rightarrow> (bool \<times> sync) sy" where
  "read_buffer n st =
     sbind (sread n st) (\<lambda>(r, st).
     case r of
       None \<Rightarrow> sret (False, st)
     | Some bs \<Rightarrow> sbind (put_buf bs st) (\<lambda>st. sret (True, st)))"

definition file_write :: "int \<Rightarrow> byte list \<Rightarrow> sync \<Rightarrow> (bool \<times> sync) sy" where
  "file_write fd bs st =
     (case writex bs (file_wans st) of (out, r, k) \<Rightarrow>
        (case r of None \<Rightarrow> None | Some ok \<Rightarrow> sret (ok, note_fs (Wrote fd out) (st\<lparr>file_wans := k\<rparr>))))"

section \<open>Small helpers\<close>

text \<open>\<open>mkdirs\<close> makes every proper prefix that ends before a slash, from the second character on.\<close>

fun dir_ends :: "nat \<Rightarrow> byte list \<Rightarrow> nat list" where
  "dir_ends i [] = []"
| "dir_ends i (c # cs) = (if c = 47 then i # dir_ends (Suc i) cs else dir_ends (Suc i) cs)"

fun mkdir_each :: "byte list \<Rightarrow> nat list \<Rightarrow> sync \<Rightarrow> (int \<times> sync) sy" where
  "mkdir_each name [] st = sret (0, st)"
| "mkdir_each name (i # is) st =
     (case mkdir_ans st of
        [] \<Rightarrow> None
      | None # k \<Rightarrow> mkdir_each name is (note_fs (MadeDir (take i name)) (st\<lparr>mkdir_ans := k\<rparr>))
      | Some e # k \<Rightarrow>
          if e \<noteq> EEXIST then sret (-1, st\<lparr>mkdir_ans := k\<rparr>) else mkdir_each name is (st\<lparr>mkdir_ans := k\<rparr>))"

definition mkdirs :: "byte list \<Rightarrow> sync \<Rightarrow> (int \<times> sync) sy" where
  "mkdirs name st =
     (if take 1 name \<noteq> [47] then sret (-1, st) else mkdir_each name (dir_ends 1 (drop 1 name)) st)"

definition fail_message :: "byte list \<Rightarrow> sync \<Rightarrow> (int \<times> sync) sy" where
  "fail_message reason st =
     sbind (swrite2 (data_msg ID_FAIL (of_nat (length reason))) reason st) (\<lambda>(ok, st).
     sret (if ok then 0 else -1, st))"

definition fail_errno :: "sync_env \<Rightarrow> errno \<Rightarrow> sync \<Rightarrow> (int \<times> sync) sy" where
  "fail_errno env e st = fail_message (strerror env e) st"

section \<open>Looking at files\<close>

definition do_stat :: "sync_env \<Rightarrow> byte list \<Rightarrow> sync \<Rightarrow> (int \<times> sync) sy" where
  "do_stat env path st =
     sbind (swrite (case lstat env path of
              None \<Rightarrow> stat_msg ID_STAT 0 0 0
            | Some (mode, sz, time) \<Rightarrow> stat_msg ID_STAT mode sz time) st) (\<lambda>(ok, st).
     sret (if ok then 0 else -1, st))"

text \<open>
  The loop over the entries of a directory. A name is copied behind the path into a buffer of
  \<open>path_len + 257\<close> bytes.
\<close>

fun list_entries :: "sync_env \<Rightarrow> byte list \<Rightarrow> byte list list \<Rightarrow> sync \<Rightarrow> (bool \<times> sync) sy" where
  "list_entries env path [] st = sret (True, st)"
| "list_entries env path (name # names) st =
     (let len = length name in
      if len \<ge> 256 then list_entries env path names st
      else if length path + 1 + len + 1 > length path + 257 then Some (Inl (Fault OutOfBounds))
      else case lstat env (path @ 47 # name) of
        None \<Rightarrow> list_entries env path names st
      | Some (mode, sz, time) \<Rightarrow>
          sbind (swrite2 (dent_msg ID_DENT mode sz time (of_nat len)) name st) (\<lambda>(ok, st).
          if ok then list_entries env path names st else sret (False, st)))"

definition do_list :: "sync_env \<Rightarrow> byte list \<Rightarrow> sync \<Rightarrow> (int \<times> sync) sy" where
  "do_list env path st =
     sbind (case readdir env path of
              None \<Rightarrow> sret (True, st)
            | Some (fd, names) \<Rightarrow>
                sbind (list_entries env path names (note_fs (OpenedRead path fd) st)) (\<lambda>(ok, st).
                sret (ok, note_fs (Closed fd) st))) (\<lambda>(ok, st).
     if \<not> ok then sret (-1, st)
     else sbind (swrite (dent_msg ID_DONE 0 0 0 0) st) (\<lambda>(ok, st). sret (if ok then 0 else -1, st)))"

section \<open>Storing a file\<close>

definition adb_open_mode :: "bool \<Rightarrow> byte list \<Rightarrow> u32 \<Rightarrow> sync \<Rightarrow> ((errno + int) \<times> sync) sy" where
  "adb_open_mode create path mode st =
     (case opens st of
        [] \<Rightarrow> None
      | Inl e # k \<Rightarrow> sret (Inl e, st\<lparr>opens := k\<rparr>)
      | Inr fd # k \<Rightarrow> sret (Inr fd, note_fs (Opened create path mode fd) (st\<lparr>opens := k\<rparr>)))"

definition open_for_send :: "byte list \<Rightarrow> u32 \<Rightarrow> sync \<Rightarrow> ((errno + int) \<times> sync) sy" where
  "open_for_send path mode st =
     sbind (adb_open_mode True path mode st) (\<lambda>(r, st).
     sbind (if r = Inl ENOENT then sbind (mkdirs path st) (\<lambda>(_, st). adb_open_mode True path mode st)
            else sret (r, st)) (\<lambda>(r, st).
     if r = Inl EEXIST then adb_open_mode False path mode st else sret (r, st)))"

text \<open>The label \<open>fail\<close>, and what follows the loop.\<close>

definition send_fail :: "byte list \<Rightarrow> int option \<Rightarrow> sync \<Rightarrow> (int \<times> sync) sy" where
  "send_fail path fd st =
     (let st = (case fd of None \<Rightarrow> st | Some f \<Rightarrow> note_fs (Closed f) st) in
      sret (-1, note_fs (Unlinked path) st))"

definition send_okay :: "sync \<Rightarrow> (int \<times> sync) sy" where
  "send_okay st = sbind (swrite (data_msg ID_OKAY 0) st) (\<lambda>(ok, st). sret (if ok then 0 else -1, st))"

definition send_done :: "byte list \<Rightarrow> int option \<Rightarrow> u32 \<Rightarrow> sync \<Rightarrow> (int \<times> sync) sy" where
  "send_done path fd timestamp st =
     (case fd of
        None \<Rightarrow> sret (0, st)
      | Some f \<Rightarrow> send_okay (note_fs (Utimed path timestamp) (note_fs (Closed f) st)))"

text \<open>
  One data message has arrived: it goes into the buffer and from there into the file. The
  result is the descriptor to go on with, or \<open>Inl\<close> the value the function returns.
\<close>

definition store_chunk ::
  "sync_env \<Rightarrow> byte list \<Rightarrow> int option \<Rightarrow> nat \<Rightarrow> sync \<Rightarrow> ((int + int option) \<times> sync) sy" where
  "store_chunk env path fd len st =
     sbind (read_buffer len st) (\<lambda>(ok, st).
     if \<not> ok then sbind (send_fail path fd st) (\<lambda>(r, st). sret (Inl r, st))
     else case fd of
       None \<Rightarrow> sret (Inr None, st)
     | Some f \<Rightarrow>
         sbind (file_write f (take len (buf st)) st) (\<lambda>(ok, st).
         if ok then sret (Inr (Some f), st)
         else
           sbind (fail_errno env (write_errno env) (note_fs (Unlinked path) (note_fs (Closed f) st))) (\<lambda>(r, st).
           sret (if r \<noteq> 0 then Inl (-1) else Inr None, st))))"

section \<open>What is left of the input\<close>

definition left :: "sync \<Rightarrow> nat" where "left st = length (stream (rin st))"

lemma note_fs_fields [simp]:
  "rin (note_fs e st) = rin st" "wans (note_fs e st) = wans st" "wout (note_fs e st) = wout st" "buf (note_fs e st) = buf st"
  "fslog (note_fs e st) = fslog st @ [e]" "opens (note_fs e st) = opens st" "mkdir_ans (note_fs e st) = mkdir_ans st"
  "link_ans (note_fs e st) = link_ans st" "file_wans (note_fs e st) = file_wans st" "file_rin (note_fs e st) = file_rin st"
  by (simp_all add: note_fs_def)

lemma swrite_rin: "swrite bs st = Some (Inr (ok, st')) \<Longrightarrow> rin st' = rin st"
  by (auto simp: swrite_def split: option.splits prod.splits)

lemma swrite2_rin: "swrite2 a b st = Some (Inr (ok, st')) \<Longrightarrow> rin st' = rin st"
  by (auto simp: swrite2_def sbind_eq split: if_splits dest!: swrite_rin)

lemma fail_message_rin: "fail_message m st = Some (Inr (r, st')) \<Longrightarrow> rin st' = rin st"
  by (auto simp: fail_message_def sbind_eq dest!: swrite2_rin)

lemma fail_errno_rin: "fail_errno env e st = Some (Inr (r, st')) \<Longrightarrow> rin st' = rin st"
  by (auto simp: fail_errno_def dest: fail_message_rin)

lemma sread_left:
  "sread n st = Some (Inr (Some bs, st')) \<Longrightarrow> left st = n + left st' \<and> length bs = n"
  by (auto simp: sread_def left_def split: option.splits prod.splits dest!: readx_SomeD)

lemma read_buffer_True:
  assumes "read_buffer n st = Some (Inr (True, st'))"
  obtains bs st1 b where "sread n st = Some (Inr (Some bs, st1))" "blit bs (buf st1) = Inr b" "st' = st1\<lparr>buf := b\<rparr>"
proof -
  from assms obtain r st1 where r: "sread n st = Some (Inr (r, st1))" by (auto simp: read_buffer_def sbind_eq)
  with assms show ?thesis
    by (cases r; cases "blit (the r) (buf st1)") (auto simp: read_buffer_def put_buf_def intro: that)
qed

lemma read_buffer_left: "read_buffer n st = Some (Inr (True, st')) \<Longrightarrow> left st' \<le> left st"
  by (erule read_buffer_True) (auto dest!: sread_left simp: left_def)

lemma file_write_rin: "file_write f bs st = Some (Inr (ok, st')) \<Longrightarrow> rin st' = rin st"
  by (auto simp: file_write_def split: option.splits prod.splits)

lemma store_chunk_left:
  assumes "store_chunk env path fd len st = Some (Inr (Inr fd', st'))"
  shows "left st' \<le> left st"
proof -
  from assms obtain ok st1 where b: "read_buffer len st = Some (Inr (ok, st1))"
    by (auto simp: store_chunk_def sbind_eq)
  with assms have ok: "ok" by (auto simp: store_chunk_def sbind_eq send_fail_def Let_def split: if_splits)
  have "rin st' = rin st1"
  proof (cases fd)
    case None
    with assms b ok show ?thesis by (simp add: store_chunk_def)
  next
    case (Some f)
    with assms b ok obtain ok2 st2 where w: "file_write f (take len (buf st1)) st1 = Some (Inr (ok2, st2))"
      by (auto simp: store_chunk_def sbind_eq)
    with assms b ok Some file_write_rin [OF w] show ?thesis
      by (cases ok2) (auto simp: store_chunk_def sbind_eq dest!: fail_errno_rin)
  qed
  with read_buffer_left [of len st st1] b ok show ?thesis by (simp add: left_def)
qed

section \<open>The loop over data messages\<close>

function send_loop :: "sync_env \<Rightarrow> byte list \<Rightarrow> int option \<Rightarrow> sync \<Rightarrow> (int \<times> sync) sy" where
  "send_loop env path fd st =
     sbind (sread 8 st) (\<lambda>(r, st).
     case r of
       None \<Rightarrow> send_fail path fd st
     | Some bs \<Rightarrow>
         let i = of_le32 bs; len = unat (of_le32 (drop 4 bs)) in
         if i \<noteq> ID_DATA then
           if i = ID_DONE then send_done path fd (of_le32 (drop 4 bs)) st
           else sbind (fail_message (bytes_of_str ''invalid data message'') st) (\<lambda>(_, st). send_fail path fd st)
         else if len > SYNC_DATA_MAX then
           sbind (fail_message (bytes_of_str ''oversize data message'') st) (\<lambda>(_, st). send_fail path fd st)
         else
           sbind (store_chunk env path fd len st) (\<lambda>(r, st).
           case r of Inl ret \<Rightarrow> sret (ret, st) | Inr fd \<Rightarrow> send_loop env path fd st))"
  by pat_completeness auto
termination
  by (relation "measure (\<lambda>(env, path, fd, st). left st)")
    (auto dest!: sread_left store_chunk_left)

declare send_loop.simps [simp del]

definition handle_send_file :: "sync_env \<Rightarrow> byte list \<Rightarrow> u32 \<Rightarrow> sync \<Rightarrow> (int \<times> sync) sy" where
  "handle_send_file env path mode st =
     sbind (open_for_send path mode st) (\<lambda>(r, st).
     case r of
       Inr fd \<Rightarrow> send_loop env path (Some fd) st
     | Inl e \<Rightarrow>
         sbind (fail_errno env e st) (\<lambda>(r, st).
         if r \<noteq> 0 then sret (-1, st) else send_loop env path None st))"

section \<open>Making a link\<close>

text \<open>\<open>symlink\<close> reads its target from the buffer up to the first zero byte.\<close>

definition sym_link :: "byte list \<Rightarrow> sync \<Rightarrow> (errno option \<times> sync) sy" where
  "sym_link path st =
     (case c_string (buf st) of
        None \<Rightarrow> Some (Inl (Fault OutOfBounds))
      | Some target \<Rightarrow>
          (case link_ans st of
             [] \<Rightarrow> None
           | None # k \<Rightarrow> sret (None, note_fs (MadeLink target path) (st\<lparr>link_ans := k\<rparr>))
           | Some e # k \<Rightarrow> sret (Some e, st\<lparr>link_ans := k\<rparr>)))"

definition link_done :: "sync \<Rightarrow> (int \<times> sync) sy" where
  "link_done st =
     sbind (sread 8 st) (\<lambda>(r, st).
     case r of
       None \<Rightarrow> sret (-1, st)
     | Some bs \<Rightarrow>
         if of_le32 bs = ID_DONE then send_okay st
         else sbind (fail_message (bytes_of_str ''invalid data message: expected ID_DONE'') st) (\<lambda>(_, st). sret (-1, st)))"

definition handle_send_link :: "sync_env \<Rightarrow> byte list \<Rightarrow> sync \<Rightarrow> (int \<times> sync) sy" where
  "handle_send_link env path st =
     sbind (sread 8 st) (\<lambda>(r, st).
     case r of
       None \<Rightarrow> sret (-1, st)
     | Some bs \<Rightarrow>
         if of_le32 bs \<noteq> ID_DATA then
           sbind (fail_message (bytes_of_str ''invalid data message: expected ID_DATA'') st) (\<lambda>(_, st). sret (-1, st))
         else
           let len = unat (of_le32 (drop 4 bs)) in
           if len > SYNC_DATA_MAX then
             sbind (fail_message (bytes_of_str ''oversize data message'') st) (\<lambda>(_, st). sret (-1, st))
           else
             sbind (read_buffer len st) (\<lambda>(ok, st).
             if \<not> ok then sret (-1, st)
             else
               sbind (sym_link path st) (\<lambda>(r, st).
               sbind (if r = Some ENOENT then sbind (mkdirs path st) (\<lambda>(_, st). sym_link path st)
                      else sret (r, st)) (\<lambda>(r, st).
               case r of
                 Some e \<Rightarrow> sbind (fail_errno env e st) (\<lambda>(_, st). sret (-1, st))
               | None \<Rightarrow> link_done st))))"

section \<open>A request to store\<close>

text \<open>\<open>strtoul\<close> with base 0 on a 32-bit target: the value, and whether it was out of range.\<close>

fun digit_val :: "byte \<Rightarrow> nat option" where
  "digit_val c =
     (if 48 \<le> c \<and> c \<le> 57 then Some (unat c - 48)
      else if 97 \<le> c \<and> c \<le> 122 then Some (unat c - 87)
      else if 65 \<le> c \<and> c \<le> 90 then Some (unat c - 55)
      else None)"

fun digits_from :: "nat \<Rightarrow> nat \<Rightarrow> byte list \<Rightarrow> nat" where
  "digits_from base acc [] = acc"
| "digits_from base acc (c # cs) =
     (case digit_val c of
        None \<Rightarrow> acc
      | Some d \<Rightarrow> if d < base then digits_from base (acc * base + d) cs else acc)"

definition is_hex_start :: "byte list \<Rightarrow> bool" where
  "is_hex_start s =
     (case s of
        z # x # c # _ \<Rightarrow> z = 48 \<and> (x = 120 \<or> x = 88) \<and> (case digit_val c of None \<Rightarrow> False | Some d \<Rightarrow> d < 16)
      | _ \<Rightarrow> False)"

definition strtoul0 :: "byte list \<Rightarrow> u32 \<times> bool" where
  "strtoul0 s =
     (let s = dropWhile is_space s;
          neg = (take 1 s = [45]);
          s = (if take 1 s = [45] \<or> take 1 s = [43] then drop 1 s else s);
          n = (if is_hex_start s then digits_from 16 0 (drop 2 s)
               else if take 1 s = [48] then digits_from 8 0 s
               else digits_from 10 0 s) in
      if n \<ge> 2 ^ 32 then (0xffffffff, True) else (if neg then - of_nat n else of_nat n, False))"

text \<open>\<open>strrchr(path, ',')\<close>: what comes before the last comma and what comes after it.\<close>

definition split_last :: "byte list \<Rightarrow> (byte list \<times> byte list) option" where
  "split_last s =
     (if 44 \<in> set s then
        let r = rev s in Some (rev (drop 1 (dropWhile (\<lambda>c. c \<noteq> 44) r)), rev (takeWhile (\<lambda>c. c \<noteq> 44) r))
      else None)"

definition S_ISLNK :: "u32 \<Rightarrow> bool" where "S_ISLNK m \<longleftrightarrow> m AND 61440 = 40960"

text \<open>The path, the permissions and whether a link is to be made.\<close>

definition send_target :: "byte list \<Rightarrow> byte list \<times> u32 \<times> bool" where
  "send_target name =
     (case split_last name of
        None \<Rightarrow> (name, 420, False)
      | Some (path, txt) \<Rightarrow>
          (case strtoul0 txt of (mode, over) \<Rightarrow>
             if over then (path, 420, False) else (path, mode AND 511, S_ISLNK mode)))"

definition spread_mode :: "u32 \<Rightarrow> u32" where
  "spread_mode m = (let m = m OR (drop_bit 3 m AND 56) in m OR (drop_bit 3 m AND 7))"

definition do_send :: "sync_env \<Rightarrow> byte list \<Rightarrow> sync \<Rightarrow> (int \<times> sync) sy" where
  "do_send env name st =
     (case send_target name of (path, mode, is_link) \<Rightarrow>
      let st = note_fs (Unlinked path) st in
      if is_link then handle_send_link env path st else handle_send_file env path (spread_mode mode) st)"

section \<open>Delivering a file\<close>

lemma put_buf_eq: "put_buf bs st = Some (Inr st') \<Longrightarrow> st' = st\<lparr>buf := buf st'\<rparr>"
  by (auto simp: put_buf_def split: sum.splits)

lemma put_buf_file: "put_buf bs st = Some (Inr st') \<Longrightarrow> file_rin st' = file_rin st"
  by (auto simp: put_buf_def split: sum.splits)

lemma swrite2_file: "swrite2 a b st = Some (Inr (ok, st')) \<Longrightarrow> file_rin st' = file_rin st"
  by (auto simp: swrite2_def sbind_eq swrite_def split: if_splits option.splits prod.splits)

function recv_loop :: "sync_env \<Rightarrow> int \<Rightarrow> sync \<Rightarrow> (int \<times> sync) sy" where
  "recv_loop env fd st =
     (case adb_read SYNC_DATA_MAX (file_rin st) of
        None \<Rightarrow> None
      | Some (Failed e, k) \<Rightarrow>
          sbind (fail_errno env e (st\<lparr>file_rin := k\<rparr>)) (\<lambda>(r, st). sret (r, note_fs (Closed fd) st))
      | Some (Got bs, k) \<Rightarrow>
          if bs = [] then
            sbind (swrite (data_msg ID_DONE 0) (note_fs (Closed fd) (st\<lparr>file_rin := k\<rparr>))) (\<lambda>(ok, st).
            sret (if ok then 0 else -1, st))
          else
            sbind (put_buf bs (st\<lparr>file_rin := k\<rparr>)) (\<lambda>st.
            sbind (swrite2 (data_msg ID_DATA (of_nat (length bs))) bs st) (\<lambda>(ok, st).
            if ok then recv_loop env fd st else sret (-1, note_fs (Closed fd) st))))"
  by pat_completeness auto

termination
  by (relation "measure (\<lambda>(env, fd, st). length (stream (file_rin st)))")
    (auto simp: SYNC_DATA_MAX_def dest!: put_buf_file swrite2_file adb_read_Got_stream)

declare recv_loop.simps [simp del]

definition do_recv :: "sync_env \<Rightarrow> byte list \<Rightarrow> sync \<Rightarrow> (int \<times> sync) sy" where
  "do_recv env path st =
     (case opens st of
        [] \<Rightarrow> None
      | Inl e # k \<Rightarrow>
          sbind (fail_errno env e (st\<lparr>opens := k\<rparr>)) (\<lambda>(r, st). sret (if r \<noteq> 0 then -1 else 0, st))
      | Inr fd # k \<Rightarrow> recv_loop env fd (note_fs (OpenedRead path fd) (st\<lparr>opens := k\<rparr>)))"

section \<open>The service\<close>

lemma swrite_left: "swrite bs st = Some (Inr (ok, st')) \<Longrightarrow> left st' = left st"
  by (simp add: left_def swrite_rin)

lemma send_okay_left: "send_okay st = Some (Inr (r, st')) \<Longrightarrow> left st' = left st"
  by (auto simp: send_okay_def sbind_eq dest!: swrite_left)

lemma send_done_left: "send_done path fd ts st = Some (Inr (r, st')) \<Longrightarrow> left st' = left st"
  by (auto simp: send_done_def split: option.splits dest!: send_okay_left) (simp add: left_def)

lemma send_fail_ret: "send_fail path fd st = Some (Inr (r, st')) \<Longrightarrow> r = -1"
  by (simp add: send_fail_def Let_def)

lemma send_loop_left: "send_loop env path fd st = Some (Inr (0, st')) \<Longrightarrow> left st' \<le> left st"
proof (induction env path fd st rule: send_loop.induct)
  case (1 env path fd st)
  from "1.prems" obtain r st1 where r: "sread 8 st = Some (Inr (r, st1))"
    by (auto simp: send_loop.simps [of env path fd st] sbind_eq)
  show ?case
  proof (cases r)
    case None
    with r "1.prems" show ?thesis by (auto simp: send_loop.simps [of env path fd st] dest: send_fail_ret)
  next
    case (Some bs)
    let ?i = "of_le32 bs" and ?len = "unat (of_le32 (drop 4 bs))"
    have l: "left st1 \<le> left st" using sread_left r Some by fastforce
    consider (fin) "?i = ID_DONE" "?i \<noteq> ID_DATA" | (bad) "?i \<noteq> ID_DONE" "?i \<noteq> ID_DATA"
      | (big) "?i = ID_DATA" "?len > SYNC_DATA_MAX" | (chunk) "?i = ID_DATA" "\<not> ?len > SYNC_DATA_MAX" by blast
    then show ?thesis
    proof cases
      case fin
      with r Some "1.prems" l show ?thesis
        by (auto simp: send_loop.simps [of env path fd st] Let_def dest!: send_done_left)
    next
      case bad
      with r Some "1.prems" show ?thesis
        by (auto simp: send_loop.simps [of env path fd st] Let_def sbind_eq dest!: send_fail_ret)
    next
      case big
      with r Some "1.prems" show ?thesis
        by (auto simp: send_loop.simps [of env path fd st] Let_def sbind_eq dest!: send_fail_ret)
    next
      case chunk
      with r Some "1.prems" obtain x st2 where c: "store_chunk env path fd ?len st1 = Some (Inr (x, st2))"
        and x: "(case x of Inl ret \<Rightarrow> sret (ret, st2) | Inr fd \<Rightarrow> send_loop env path fd st2) = Some (Inr (0, st'))"
        by (auto simp: send_loop.simps [of env path fd st] Let_def sbind_eq)
      show ?thesis
      proof (cases x)
        case (Inl ret)
        with c x have "ret = 0" by simp
        with c Inl show ?thesis
          by (auto simp: store_chunk_def sbind_eq send_fail_def Let_def split: if_splits option.splits)
      next
        case (Inr fd')
        from "1.IH" [of "(r, st1)" r st1 bs ?i ?len "(x, st2)" x st2 fd'] r Some chunk c Inr x
        have "left st' \<le> left st2" by simp
        with store_chunk_left [of env path fd ?len st1 fd' st2] c Inr l show ?thesis by simp
      qed
    qed
  qed
qed

lemma adb_open_mode_rin: "adb_open_mode c path mode st = Some (Inr (r, st')) \<Longrightarrow> rin st' = rin st"
  by (auto simp: adb_open_mode_def split: list.splits sum.splits)

lemma mkdir_each_rin: "mkdir_each name is st = Some (Inr (r, st')) \<Longrightarrow> rin st' = rin st"
  by (induction name "is" st rule: mkdir_each.induct) (auto split: list.splits option.splits if_splits)

lemma mkdirs_rin: "mkdirs name st = Some (Inr (r, st')) \<Longrightarrow> rin st' = rin st"
  by (auto simp: mkdirs_def split: if_splits dest: mkdir_each_rin)

lemma open_for_send_rin:
  assumes "open_for_send path mode st = Some (Inr (r, st'))"
  shows "rin st' = rin st"
proof -
  from assms obtain r1 st1 r2 st2 where
    1: "adb_open_mode True path mode st = Some (Inr (r1, st1))" and
    2: "(if r1 = Inl ENOENT then sbind (mkdirs path st1) (\<lambda>(_, st). adb_open_mode True path mode st)
         else sret (r1, st1)) = Some (Inr (r2, st2))" and
    3: "(if r2 = Inl EEXIST then adb_open_mode False path mode st2 else sret (r2, st2)) = Some (Inr (r, st'))"
    by (auto simp: open_for_send_def sbind_eq)
  have "rin st2 = rin st1"
    using 2 by (auto simp: sbind_eq split: if_splits dest!: mkdirs_rin adb_open_mode_rin)
  moreover have "rin st' = rin st2" using 3 by (auto split: if_splits dest: adb_open_mode_rin)
  ultimately show ?thesis using adb_open_mode_rin [OF 1] by simp
qed

lemma handle_send_file_left:
  assumes "handle_send_file env path mode st = Some (Inr (0, st'))"
  shows "left st' \<le> left st"
proof -
  from assms obtain r st1 where o: "open_for_send path mode st = Some (Inr (r, st1))"
    by (auto simp: handle_send_file_def sbind_eq)
  have l: "left st1 = left st" using open_for_send_rin [OF o] by (simp add: left_def)
  show ?thesis
  proof (cases r)
    case (Inr fd)
    with assms o l show ?thesis by (auto simp: handle_send_file_def dest: send_loop_left)
  next
    case (Inl e)
    with assms o obtain st2 where f: "fail_errno env e st1 = Some (Inr (0, st2))"
      and s: "send_loop env path None st2 = Some (Inr (0, st'))"
      by (auto simp: handle_send_file_def sbind_eq split: if_splits)
    from send_loop_left [OF s] fail_errno_rin [OF f] l show ?thesis by (simp add: left_def)
  qed
qed

lemma sym_link_rin: "sym_link path st = Some (Inr (r, st')) \<Longrightarrow> rin st' = rin st"
  by (auto simp: sym_link_def split: option.splits list.splits)

lemma link_done_left: "link_done st = Some (Inr (0, st')) \<Longrightarrow> left st' \<le> left st"
  by (auto simp: link_done_def sbind_eq split: option.splits if_splits dest!: sread_left send_okay_left)

lemma handle_send_link_left:
  assumes "handle_send_link env path st = Some (Inr (0, st'))"
  shows "left st' \<le> left st"
proof -
  from assms obtain r st1 where r: "sread 8 st = Some (Inr (r, st1))"
    by (auto simp: handle_send_link_def sbind_eq)
  with assms obtain bs where bs: "r = Some bs" by (cases r) (auto simp: handle_send_link_def)
  let ?len = "unat (of_le32 (drop 4 bs))"
  have i: "of_le32 bs = ID_DATA" "\<not> ?len > SYNC_DATA_MAX"
    using assms r bs by (auto simp: handle_send_link_def sbind_eq Let_def split: if_splits)
  with assms r bs obtain ok st2 where b: "read_buffer ?len st1 = Some (Inr (ok, st2))"
    by (auto simp: handle_send_link_def sbind_eq Let_def)
  with assms r bs i have ok: "ok" by (cases ok) (simp_all add: handle_send_link_def Let_def)
  with assms r bs i b obtain x1 st3 x2 st4 where
    3: "sym_link path st2 = Some (Inr (x1, st3))" and
    4: "(if x1 = Some ENOENT then sbind (mkdirs path st3) (\<lambda>(_, st). sym_link path st) else sret (x1, st3)) =
      Some (Inr (x2, st4))" and
    5: "(case x2 of Some e \<Rightarrow> sbind (fail_errno env e st4) (\<lambda>(_, st). sret (-1, st)) | None \<Rightarrow> link_done st4) =
      Some (Inr (0, st'))"
    by (auto simp: handle_send_link_def sbind_eq Let_def)
  have "rin st4 = rin st3" using 4 by (auto simp: sbind_eq split: if_splits dest!: mkdirs_rin sym_link_rin)
  then have "left st4 = left st2" using sym_link_rin [OF 3] by (simp add: left_def)
  moreover have "left st' \<le> left st4"
    using 5 by (auto simp: sbind_eq split: option.splits dest: link_done_left)
  moreover have "left st2 \<le> left st1" using read_buffer_left [of ?len st1 st2] b ok by simp
  moreover have "left st1 \<le> left st" using sread_left r bs by fastforce
  ultimately show ?thesis by simp
qed

lemma do_send_left: "do_send env name st = Some (Inr (0, st')) \<Longrightarrow> left st' \<le> left st"
  by (auto simp: do_send_def Let_def split: prod.splits if_splits
      dest!: handle_send_link_left handle_send_file_left) (simp_all add: left_def)

lemma do_stat_left: "do_stat env path st = Some (Inr (r, st')) \<Longrightarrow> left st' = left st"
  by (auto simp: do_stat_def sbind_eq dest!: swrite_left)

lemma list_entries_left: "list_entries env path names st = Some (Inr (r, st')) \<Longrightarrow> left st' = left st"
proof (induction names arbitrary: st)
  case (Cons n ns)
  show ?case
  proof (cases "lstat env (path @ 47 # n)")
    case None
    with Cons show ?thesis by (auto simp: Let_def split: if_splits)
  next
    case (Some x)
    then obtain mode sz time where x: "lstat env (path @ 47 # n) = Some (mode, sz, time)" by (cases x) auto
    show ?thesis
    proof (cases "length n \<ge> 256")
      case True
      with Cons show ?thesis by simp
    next
      case False
      with Cons.prems x obtain ok st1 where
        w: "swrite2 (dent_msg ID_DENT mode sz time (of_nat (length n))) n st = Some (Inr (ok, st1))" and
        l: "(if ok then list_entries env path ns st1 else sret (False, st1)) = Some (Inr (r, st'))"
        by (auto simp: sbind_eq)
      have "left st1 = left st" using swrite2_rin [OF w] by (simp add: left_def)
      with l Cons.IH [of st1] show ?thesis by (cases ok) auto
    qed
  qed
qed (simp add: left_def)

lemma do_list_left: "do_list env path st = Some (Inr (r, st')) \<Longrightarrow> left st' = left st"
  unfolding do_list_def sbind_eq
  by (cases "readdir env path") (auto simp: sbind_eq left_def note_fs_def split: if_splits
      dest!: list_entries_left [unfolded left_def] swrite_left [unfolded left_def])

lemma recv_loop_left: "recv_loop env fd st = Some (Inr (r, st')) \<Longrightarrow> left st' = left st"
proof (induction env fd st rule: recv_loop.induct)
  case (1 env fd st)
  from "1.prems" obtain a k where a: "adb_read SYNC_DATA_MAX (file_rin st) = Some (a, k)"
    by (auto simp: recv_loop.simps [of env fd st] split: option.splits)
  show ?case
  proof (cases a)
    case (Failed e)
    with a "1.prems" show ?thesis
      by (auto simp: recv_loop.simps [of env fd st] sbind_eq left_def dest!: fail_errno_rin)
  next
    case (Got bs)
    show ?thesis
    proof (cases "bs = []")
      case True
      with a Got "1.prems" show ?thesis
        by (auto simp: recv_loop.simps [of env fd st] sbind_eq left_def dest!: swrite_rin)
    next
      case False
      with a Got "1.prems" obtain st1 ok st2 where p: "put_buf bs (st\<lparr>file_rin := k\<rparr>) = Some (Inr st1)"
        and w: "swrite2 (data_msg ID_DATA (of_nat (length bs))) bs st1 = Some (Inr (ok, st2))"
        and l: "(if ok then recv_loop env fd st2 else sret (-1, note_fs (Closed fd) st2)) = Some (Inr (r, st'))"
        by (auto simp: recv_loop.simps [of env fd st] sbind_eq)
      have "rin st2 = rin st"
        using swrite2_rin [OF w] put_buf_eq [OF p] by (metis (no_types, lifting) sync.select_convs(1) sync.surjective sync.update_convs(4,10))
      then show ?thesis
        using l "1.IH" [of "(a, k)" a k bs st1 "(ok, st2)" ok st2] a Got False p w
        by (cases ok) (auto simp: left_def)
    qed
  qed
qed

lemma do_recv_left: "do_recv env path st = Some (Inr (r, st')) \<Longrightarrow> left st' = left st"
  unfolding do_recv_def
  by (auto simp: sbind_eq split: list.splits sum.splits dest!: fail_errno_rin recv_loop_left) (simp_all add: left_def)

text \<open>
  One request: the header and the name, which goes with a zero byte into a buffer of 1025
  bytes, then the operation. The result tells whether the service goes on.
\<close>

definition dispatch :: "sync_env \<Rightarrow> u32 \<Rightarrow> byte list \<Rightarrow> sync \<Rightarrow> (int \<times> sync) sy" where
  "dispatch env i name st =
     (if i = ID_STAT then do_stat env name st
      else if i = ID_LIST then do_list env name st
      else if i = ID_SEND then do_send env name st
      else if i = ID_RECV then do_recv env name st
      else if i = ID_QUIT then sret (-1, st)
      else sbind (fail_message (bytes_of_str ''unknown command'') st) (\<lambda>(_, st). sret (-1, st)))"

definition stop_with :: "string \<Rightarrow> sync \<Rightarrow> (bool \<times> sync) sy" where
  "stop_with reason st = sbind (fail_message (bytes_of_str reason) st) (\<lambda>(_, st). sret (False, st))"

definition one_request :: "sync_env \<Rightarrow> sync \<Rightarrow> (bool \<times> sync) sy" where
  "one_request env st =
     sbind (sread 8 st) (\<lambda>(r, st).
     case r of
       None \<Rightarrow> stop_with ''command read failure'' st
     | Some bs \<Rightarrow>
         let namelen = unat (of_le32 (drop 4 bs)) in
         if namelen > 1024 then stop_with ''invalid namelen'' st
         else
           sbind (sread namelen st) (\<lambda>(r, st).
           case r of
             None \<Rightarrow> stop_with ''filename read failure'' st
           | Some name \<Rightarrow>
               if length name + 1 > 1025 then Some (Inl (Fault OutOfBounds))
               else
                 sbind (dispatch env (of_le32 bs) (takeWhile (\<lambda>c. c \<noteq> 0) name) st) (\<lambda>(ret, st).
                 sret (ret = 0, st))))"

lemma dispatch_left: "dispatch env i name st = Some (Inr (0, st')) \<Longrightarrow> left st' \<le> left st"
  by (auto simp: dispatch_def sbind_eq split: if_splits
      dest: do_stat_left do_list_left do_recv_left do_send_left)

lemma one_request_left:
  assumes "one_request env st = Some (Inr (True, st'))"
  shows "left st' < left st"
proof -
  from assms obtain r st1 where r: "sread 8 st = Some (Inr (r, st1))" by (auto simp: one_request_def sbind_eq)
  with assms obtain bs where bs: "r = Some bs" by (cases r) (auto simp: one_request_def stop_with_def sbind_eq)
  let ?n = "unat (of_le32 (drop 4 bs))"
  have n: "\<not> ?n > 1024" using assms r bs by (auto simp: one_request_def stop_with_def sbind_eq Let_def split: if_splits)
  with assms r bs obtain r2 st2 where r2: "sread ?n st1 = Some (Inr (r2, st2))"
    by (auto simp: one_request_def sbind_eq Let_def)
  with assms r bs n obtain name where name: "r2 = Some name"
    by (cases r2) (auto simp: one_request_def stop_with_def sbind_eq Let_def)
  with assms r bs n r2 obtain ret where d: "dispatch env (of_le32 bs) (takeWhile (\<lambda>c. c \<noteq> 0) name) st2 = Some (Inr (ret, st'))"
    "ret = 0" by (auto simp: one_request_def sbind_eq Let_def split: if_splits)
  from dispatch_left [of env _ _ st2 st'] d have "left st' \<le> left st2" by simp
  moreover have "left st = 8 + left st1" using sread_left r bs by fastforce
  moreover have "left st2 \<le> left st1" using sread_left r2 name by fastforce
  ultimately show ?thesis by simp
qed

function file_sync_loop :: "sync_env \<Rightarrow> sync \<Rightarrow> sync sy" where
  "file_sync_loop env st =
     sbind (one_request env st) (\<lambda>(go, st). if go then file_sync_loop env st else sret st)"
  by pat_completeness auto
termination
  by (relation "measure (\<lambda>(env, st). left st)") (auto dest: one_request_left)

declare file_sync_loop.simps [simp del]

text \<open>The two buffers are allocated first; at the end both descriptors are closed.\<close>

definition file_sync_service :: "sync_env \<Rightarrow> int \<Rightarrow> int \<Rightarrow> sync \<Rightarrow> sync sy" where
  "file_sync_service env rfd wfd st =
     sbind (if fst (buffers env) \<and> snd (buffers env) then file_sync_loop env st else sret st) (\<lambda>st.
     sret (note_fs (Closed wfd) (note_fs (Closed rfd) st)))"

end
