(* ===== verification/File_Transfer.thy ===== *)
theory File_Transfer
  imports File_Sync
begin

text \<open>
  What the file service guarantees: a file that is sent is stored byte for byte and one that is
  asked for is delivered byte for byte; each request closes the file it opened; and how
  the target of a link is read past its end.
\<close>

section \<open>Streams that keep going\<close>

text \<open>A descriptor that accepts something at every call, and how many calls it has left.\<close>

definition open_pipe :: "wr_answer list \<Rightarrow> bool" where
  "open_pipe k \<longleftrightarrow> (\<forall>a \<in> set k. \<exists>n. a = Room (Suc n) \<or> a = WrErr EINTR)"

definition room :: "wr_answer list \<Rightarrow> nat" where
  "room k = length (filter (\<lambda>a. a \<noteq> WrErr EINTR) k)"

lemma writex_room:
  "open_pipe k \<Longrightarrow> length bs \<le> room k \<Longrightarrow>
     \<exists>k'. writex bs k = (bs, Some True, k') \<and> open_pipe k' \<and> room k \<le> room k' + length bs"
proof (induction k arbitrary: bs)
  case Nil
  then show ?case by (simp add: writex.simps room_def)
next
  case (Cons a k)
  have k: "open_pipe k" using Cons.prems(1) by (simp add: open_pipe_def)
  consider (empty) "bs = []" | (intr) "bs \<noteq> []" "a = WrErr EINTR" | (some) n where "bs \<noteq> []" "a = Room (Suc n)"
    using Cons.prems(1) by (auto simp: open_pipe_def)
  then show ?case
  proof cases
    case empty
    with Cons.prems show ?thesis by (simp add: writex.simps)
  next
    case intr
    with Cons.prems(2) Cons.IH [OF k, of bs] show ?thesis by (simp add: writex_EINTR room_def)
  next
    case some
    let ?m = "min (Suc n) (length bs)"
    have m: "0 < ?m" "?m \<le> length bs" using some by auto
    have "length (drop ?m bs) \<le> room k" using some m Cons.prems(2) by (simp add: room_def)
    from Cons.IH [OF k this] obtain k' where k': "writex (drop ?m bs) k = (drop ?m bs, Some True, k')" "open_pipe k'"
      "room k \<le> room k' + length (drop ?m bs)" by blast
    have "writex bs (a # k) = (bs, Some True, k')" using k'(1) some writex_Room [of bs "Suc n" k] by simp
    moreover have "room (a # k) = Suc (room k)" "length (drop ?m bs) + ?m = length bs" using some by (simp_all add: room_def)
    then have "room (a # k) \<le> room k' + length bs" using k'(3) m(1) by linarith
    ultimately show ?thesis using k'(2) by blast
  qed
qed

lemma swrite_room:
  assumes "open_pipe (wans st)" and "length bs \<le> room (wans st)"
  shows "\<exists>k'. swrite bs st = sret (True, st\<lparr>wout := wout st @ bs, wans := k'\<rparr>) \<and> open_pipe k' \<and>
    room (wans st) \<le> room k' + length bs"
  using writex_room [OF assms] by (auto simp: swrite_def)

lemma file_write_room:
  assumes "open_pipe (file_wans st)" and "length bs \<le> room (file_wans st)"
  shows "\<exists>k'. file_write fd bs st = sret (True, note_fs (Wrote fd bs) (st\<lparr>file_wans := k'\<rparr>)) \<and> open_pipe k' \<and>
    room (file_wans st) \<le> room k' + length bs"
  using writex_room [OF assms] by (auto simp: file_write_def)

lemma sread_stream:
  assumes "stream (rin st) = bs @ rest"
  shows "\<exists>k. sread (length bs) st = sret (Some bs, st\<lparr>rin := k\<rparr>) \<and> stream k = rest"
  using readx_enough [of "length bs" "rin st"] assms by (auto simp: sread_def)

section \<open>Sending a file\<close>

definition chunk_msg :: "byte list \<Rightarrow> byte list" where
  "chunk_msg c = data_msg ID_DATA (of_nat (length c)) @ c"

lemma data_msg_facts [simp]:
  "length (data_msg i n) = 8" "of_le32 (data_msg i n) = i" "of_le32 (drop 4 (data_msg i n)) = n"
  by (simp_all add: data_msg_def)

lemma ID_distinct: "ID_DATA \<noteq> ID_DONE" "ID_DONE \<noteq> ID_DATA"
  by (simp_all add: ID_defs bytes_of_str_def)

lemma send_loop_stores:
  assumes "stream (rin st) = concat (map chunk_msg cs) @ data_msg ID_DONE ts @ rest"
    and "\<forall>c \<in> set cs. length c \<le> SYNC_DATA_MAX" and "length (buf st) = SYNC_DATA_MAX"
    and "open_pipe (file_wans st)" and "length (concat cs) \<le> room (file_wans st)"
    and "open_pipe (wans st)" and "8 \<le> room (wans st)"
  shows "\<exists>st'. send_loop env path (Some fd) st = sret (0, st') \<and>
    fslog st' = fslog st @ map (Wrote fd) cs @ [Closed fd, Utimed path ts] \<and>
    wout st' = wout st @ data_msg ID_OKAY 0 \<and> stream (rin st') = rest"
  using assms
proof (induction cs arbitrary: st)
  case Nil
  from sread_stream [of st "data_msg ID_DONE ts" rest] Nil.prems(1) obtain k
    where k: "sread 8 st = sret (Some (data_msg ID_DONE ts), st\<lparr>rin := k\<rparr>)" "stream k = rest" by auto
  let ?st = "note_fs (Utimed path ts) (note_fs (Closed fd) (st\<lparr>rin := k\<rparr>))"
  from swrite_room [of ?st "data_msg ID_OKAY 0"] Nil.prems(6,7) obtain k'
    where "swrite (data_msg ID_OKAY 0) ?st = sret (True, ?st\<lparr>wout := wout ?st @ data_msg ID_OKAY 0, wans := k'\<rparr>)" by auto
  with k show ?case
    by (simp add: send_loop.simps [of env path "Some fd" st] ID_distinct send_done_def send_okay_def)
next
  case (Cons c cs)
  let ?rest = "concat (map chunk_msg cs) @ data_msg ID_DONE ts @ rest"
  have c: "length c \<le> SYNC_DATA_MAX" using Cons.prems(2) by simp
  then have u: "unat (of_nat (length c) :: u32) = length c"
    by (intro unat_u32) (simp add: SYNC_DATA_MAX_def)
  from sread_stream [of st "data_msg ID_DATA (of_nat (length c))" "c @ ?rest"] Cons.prems(1) obtain k
    where k: "sread 8 st = sret (Some (data_msg ID_DATA (of_nat (length c))), st\<lparr>rin := k\<rparr>)" "stream k = c @ ?rest"
    by (auto simp: chunk_msg_def [of c])
  from sread_stream [of "st\<lparr>rin := k\<rparr>" c ?rest] k(2) obtain k2
    where k2: "sread (length c) (st\<lparr>rin := k\<rparr>) = sret (Some c, st\<lparr>rin := k2\<rparr>)" "stream k2 = ?rest" by auto
  let ?b = "c @ drop (length c) (buf st)"
  let ?st = "st\<lparr>rin := k2, buf := ?b\<rparr>"
  have rb: "read_buffer (length c) (st\<lparr>rin := k\<rparr>) = sret (True, ?st)"
    using k2(1) c Cons.prems(3) by (simp add: read_buffer_def put_buf_def blit_def)
  from file_write_room [of ?st c fd] Cons.prems(4,5) obtain k3
    where k3: "file_write fd c ?st = sret (True, note_fs (Wrote fd c) (?st\<lparr>file_wans := k3\<rparr>))" "open_pipe k3"
      "room (file_wans st) \<le> room k3 + length c" by auto
  let ?st3 = "note_fs (Wrote fd c) (?st\<lparr>file_wans := k3\<rparr>)"
  have sc: "store_chunk env path (Some fd) (length c) (st\<lparr>rin := k\<rparr>) = sret (Inr (Some fd), ?st3)"
    using rb k3(1) by (simp add: store_chunk_def)
  have "\<exists>st'. send_loop env path (Some fd) ?st3 = sret (0, st') \<and>
      fslog st' = fslog ?st3 @ map (Wrote fd) cs @ [Closed fd, Utimed path ts] \<and>
      wout st' = wout ?st3 @ data_msg ID_OKAY 0 \<and> stream (rin st') = rest"
    by (rule Cons.IH) (use Cons.prems k2(2) k3(2,3) c in auto)
  moreover have "send_loop env path (Some fd) st = send_loop env path (Some fd) ?st3"
    using k(1) sc u c by (simp add: send_loop.simps [of env path "Some fd" st])
  ultimately show ?case by auto
qed

section \<open>Delivering a file\<close>

text \<open>The file ends, and reading it does not fail.\<close>

fun clean_eof :: "rd_answer list \<Rightarrow> bool" where
  "clean_eof [] = False"
| "clean_eof (Chunk bs # k) = (bs = [] \<or> clean_eof k)"
| "clean_eof (RdErr e # k) = (e = EINTR \<and> clean_eof k)"

lemma adb_read_clean:
  "clean_eof k \<Longrightarrow> 0 < n \<Longrightarrow>
     \<exists>bs k'. adb_read n k = Some (Got bs, k') \<and> length bs \<le> n \<and>
       (if bs = [] then stream k = [] else stream k = bs @ stream k' \<and> clean_eof k')"
proof (induction k)
  case (Cons a k)
  show ?case
  proof (cases a)
    case (Chunk bs)
    show ?thesis
    proof (cases "bs = []")
      case True
      with Chunk show ?thesis by simp
    next
      case False
      with Chunk Cons.prems show ?thesis
        by (intro exI [of _ "take n bs"] exI [of _ "if length bs \<le> n then k else Chunk (drop n bs) # k"]) auto
    qed
  next
    case (RdErr e)
    with Cons.prems have a: "a = RdErr EINTR" and k: "clean_eof k" by simp_all
    have "adb_read n (a # k) = adb_read n k" "stream (a # k) = stream k" by (simp_all add: a)
    then show ?thesis using Cons.IH [OF k Cons.prems(2)] by (simp only:)
  qed
qed simp

lemma swrite2_room:
  assumes "open_pipe (wans st)" and "length a + length b \<le> room (wans st)"
  shows "\<exists>k'. swrite2 a b st = sret (True, st\<lparr>wout := wout st @ a @ b, wans := k'\<rparr>) \<and> open_pipe k' \<and>
    room (wans st) \<le> room k' + length a + length b"
proof -
  from swrite_room [of st a] assms obtain k1 where k1: "swrite a st = sret (True, st\<lparr>wout := wout st @ a, wans := k1\<rparr>)"
    "open_pipe k1" "room (wans st) \<le> room k1 + length a" by auto
  from swrite_room [of "st\<lparr>wout := wout st @ a, wans := k1\<rparr>" b] k1 assms(2) obtain k2 where
    k2: "swrite b (st\<lparr>wout := wout st @ a, wans := k1\<rparr>) = sret (True, st\<lparr>wout := wout st @ a @ b, wans := k2\<rparr>)"
    "open_pipe k2" "room k1 \<le> room k2 + length b" by auto
  show ?thesis
    by (intro exI [of _ k2] conjI) (use k1 k2 in \<open>simp_all add: swrite2_def\<close>)
qed

lemma recv_loop_delivers:
  assumes "clean_eof (file_rin st)" and "length (buf st) = SYNC_DATA_MAX"
    and "open_pipe (wans st)" and "9 * length (stream (file_rin st)) + 8 \<le> room (wans st)"
  shows "\<exists>cs st'. recv_loop env fd st = sret (0, st') \<and> concat cs = stream (file_rin st) \<and>
    (\<forall>c \<in> set cs. length c \<le> SYNC_DATA_MAX) \<and> fslog st' = fslog st @ [Closed fd] \<and>
    wout st' = wout st @ concat (map chunk_msg cs) @ data_msg ID_DONE 0"
  using assms
proof (induction "length (stream (file_rin st))" arbitrary: st rule: less_induct)
  case less
  have max: "0 < SYNC_DATA_MAX" by (simp add: SYNC_DATA_MAX_def)
  from adb_read_clean [OF less.prems(1) max] obtain bs k
    where a: "adb_read SYNC_DATA_MAX (file_rin st) = Some (Got bs, k)" "length bs \<le> SYNC_DATA_MAX"
      "if bs = [] then stream (file_rin st) = [] else stream (file_rin st) = bs @ stream k \<and> clean_eof k" by blast
  show ?case
  proof (cases "bs = []")
    case True
    let ?st = "note_fs (Closed fd) (st\<lparr>file_rin := k\<rparr>)"
    from swrite_room [of ?st "data_msg ID_DONE 0"] less.prems(3,4) obtain k'
      where "swrite (data_msg ID_DONE 0) ?st = sret (True, ?st\<lparr>wout := wout st @ data_msg ID_DONE 0, wans := k'\<rparr>)" by auto
    with a True show ?thesis
      by (intro exI [of _ "[]"] exI [of _ "?st\<lparr>wout := wout st @ data_msg ID_DONE 0, wans := k'\<rparr>"])
        (simp add: recv_loop.simps [of env fd st])
  next
    case False
    let ?b = "bs @ drop (length bs) (buf st)"
    let ?st = "st\<lparr>file_rin := k, buf := ?b\<rparr>"
    have pb: "put_buf bs (st\<lparr>file_rin := k\<rparr>) = sret ?st" using a(2) less.prems(2) by (simp add: put_buf_def blit_def)
    have pos: "0 < length bs" and str: "stream (file_rin st) = bs @ stream k" "clean_eof k" using False a(3) by simp_all
    have "length (data_msg ID_DATA (of_nat (length bs))) + length bs \<le> room (wans ?st)"
      using less.prems(4) str(1) pos by simp
    from swrite2_room [of ?st, OF _ this] less.prems(3) obtain k2
      where w: "swrite2 (data_msg ID_DATA (of_nat (length bs))) bs ?st =
          sret (True, ?st\<lparr>wout := wout st @ chunk_msg bs, wans := k2\<rparr>)"
        and k2: "open_pipe k2" "room (wans st) \<le> room k2 + 8 + length bs" by (auto simp: chunk_msg_def)
    let ?st2 = "?st\<lparr>wout := wout st @ chunk_msg bs, wans := k2\<rparr>"
    have r2: "9 * length (stream k) + 8 \<le> room k2" using less.prems(4) str(1) k2(2) pos by (simp, linarith)
    have "\<exists>cs st'. recv_loop env fd ?st2 = sret (0, st') \<and> concat cs = stream (file_rin ?st2) \<and>
        (\<forall>c \<in> set cs. length c \<le> SYNC_DATA_MAX) \<and> fslog st' = fslog ?st2 @ [Closed fd] \<and>
        wout st' = wout ?st2 @ concat (map chunk_msg cs) @ data_msg ID_DONE 0"
      by (rule less.hyps) (use less.prems(2) a(2) pos str k2(1) r2 in auto)
    then obtain cs st' where cs: "recv_loop env fd ?st2 = sret (0, st')" "concat cs = stream k"
      "\<forall>c \<in> set cs. length c \<le> SYNC_DATA_MAX" "fslog st' = fslog st @ [Closed fd]"
      "wout st' = wout st @ chunk_msg bs @ concat (map chunk_msg cs) @ data_msg ID_DONE 0" by auto
    moreover have "recv_loop env fd st = recv_loop env fd ?st2"
      using a(1) False pb w by (simp add: recv_loop.simps [of env fd st])
    ultimately show ?thesis
      using a(2) str(1) by (intro exI [of _ "bs # cs"] exI [of _ st']) simp
  qed
qed

section \<open>Pulling and pushing\<close>

text \<open>What reached a file, by the log.\<close>

fun file_bytes :: "int \<Rightarrow> fs_event list \<Rightarrow> byte list" where
  "file_bytes fd [] = []"
| "file_bytes fd (Wrote f bs # es) = (if f = fd then bs else []) @ file_bytes fd es"
| "file_bytes fd (_ # es) = file_bytes fd es"

lemma file_bytes_append [simp]: "file_bytes fd (es @ fs) = file_bytes fd es @ file_bytes fd fs"
  by (induction fd es rule: file_bytes.induct) auto

lemma file_bytes_wrote [simp]: "file_bytes fd (map (Wrote fd) cs) = concat cs"
  by (induction cs) auto

text \<open>A device that can take the file: it opens it, has its buffer, and its descriptors accept data.\<close>

definition can_store :: "int \<Rightarrow> nat \<Rightarrow> sync \<Rightarrow> bool" where
  "can_store fd n st \<longleftrightarrow> take 1 (opens st) = [Inr fd] \<and> length (buf st) = SYNC_DATA_MAX \<and>
     open_pipe (file_wans st) \<and> n \<le> room (file_wans st) \<and> open_pipe (wans st) \<and> 8 \<le> room (wans st)"

definition can_deliver :: "int \<Rightarrow> sync \<Rightarrow> bool" where
  "can_deliver fd st \<longleftrightarrow> take 1 (opens st) = [Inr fd] \<and> clean_eof (file_rin st) \<and> length (buf st) = SYNC_DATA_MAX \<and>
     open_pipe (wans st) \<and> 9 * length (stream (file_rin st)) + 8 \<le> room (wans st)"

lemma handle_send_file_stores:
  assumes "can_store fd (length (concat cs)) st"
    and "stream (rin st) = concat (map chunk_msg cs) @ data_msg ID_DONE ts @ rest" and "\<forall>c \<in> set cs. length c \<le> SYNC_DATA_MAX"
  shows "\<exists>st'. handle_send_file env path mode st = sret (0, st') \<and>
    fslog st' = fslog st @ Opened True path mode fd # map (Wrote fd) cs @ [Closed fd, Utimed path ts] \<and>
    wout st' = wout st @ data_msg ID_OKAY 0 \<and> stream (rin st') = rest"
proof -
  from assms(1) obtain k where k: "opens st = Inr fd # k"
    by (cases "opens st") (auto simp: can_store_def)
  let ?st = "note_fs (Opened True path mode fd) (st\<lparr>opens := k\<rparr>)"
  have "handle_send_file env path mode st = send_loop env path (Some fd) ?st"
    by (simp add: handle_send_file_def open_for_send_def adb_open_mode_def k)
  moreover have "\<exists>st'. send_loop env path (Some fd) ?st = sret (0, st') \<and>
      fslog st' = fslog ?st @ map (Wrote fd) cs @ [Closed fd, Utimed path ts] \<and>
      wout st' = wout ?st @ data_msg ID_OKAY 0 \<and> stream (rin st') = rest"
    by (rule send_loop_stores) (use assms in \<open>simp_all add: can_store_def\<close>)
  ultimately show ?thesis by auto
qed

lemma do_recv_delivers:
  assumes "can_deliver fd st"
  shows "\<exists>cs st'. do_recv env path st = sret (0, st') \<and> concat cs = stream (file_rin st) \<and>
    (\<forall>c \<in> set cs. length c \<le> SYNC_DATA_MAX) \<and> fslog st' = fslog st @ [OpenedRead path fd, Closed fd] \<and>
    wout st' = wout st @ concat (map chunk_msg cs) @ data_msg ID_DONE 0"
proof -
  from assms obtain k where k: "opens st = Inr fd # k"
    by (cases "opens st") (auto simp: can_deliver_def)
  let ?st = "note_fs (OpenedRead path fd) (st\<lparr>opens := k\<rparr>)"
  have "do_recv env path st = recv_loop env fd ?st" by (simp add: do_recv_def k)
  moreover have "\<exists>cs st'. recv_loop env fd ?st = sret (0, st') \<and> concat cs = stream (file_rin ?st) \<and>
      (\<forall>c \<in> set cs. length c \<le> SYNC_DATA_MAX) \<and> fslog st' = fslog ?st @ [Closed fd] \<and>
      wout st' = wout ?st @ concat (map chunk_msg cs) @ data_msg ID_DONE 0"
    by (rule recv_loop_delivers) (use assms in \<open>simp_all add: can_deliver_def\<close>)
  ultimately show ?thesis by auto
qed

text \<open>
  C9: A file that is fetched from one device and whose bytes on the wire are sent to another
  one is stored there byte for byte, however the kernels cut the streams into pieces: the
  second device acknowledges it, has written exactly the contents, and has closed the file; the
  first one has closed its file too.
\<close>

theorem pull_push_roundtrip:
  assumes "can_deliver fd a" and "can_store fd' (length (stream (file_rin a))) b"
  shows "\<exists>a'. do_recv env path a = sret (0, a') \<and> fslog a' = fslog a @ [OpenedRead path fd, Closed fd] \<and>
    (\<forall>rest. wout a @ stream (rin b) = wout a' @ rest \<longrightarrow>
      (\<exists>b' es. handle_send_file env' path' mode b = sret (0, b') \<and>
         fslog b' = fslog b @ Opened True path' mode fd' # es @ [Closed fd', Utimed path' 0] \<and>
         file_bytes fd' es = stream (file_rin a) \<and> wout b' = wout b @ data_msg ID_OKAY 0 \<and> stream (rin b') = rest))"
proof -
  from do_recv_delivers [OF assms(1), of env path] obtain cs a'
    where a': "do_recv env path a = sret (0, a')" "concat cs = stream (file_rin a)"
      "\<forall>c \<in> set cs. length c \<le> SYNC_DATA_MAX" "fslog a' = fslog a @ [OpenedRead path fd, Closed fd]"
      "wout a' = wout a @ concat (map chunk_msg cs) @ data_msg ID_DONE 0" by blast
  have "\<exists>b' es. handle_send_file env' path' mode b = sret (0, b') \<and>
      fslog b' = fslog b @ Opened True path' mode fd' # es @ [Closed fd', Utimed path' 0] \<and>
      file_bytes fd' es = stream (file_rin a) \<and> wout b' = wout b @ data_msg ID_OKAY 0 \<and> stream (rin b') = rest"
    if "wout a @ stream (rin b) = wout a' @ rest" for rest
  proof -
    have "stream (rin b) = concat (map chunk_msg cs) @ data_msg ID_DONE 0 @ rest" using that a'(5) by simp
    from handle_send_file_stores [OF _ this a'(3), of fd' env' path' mode] assms(2) a'(2) obtain b'
      where "handle_send_file env' path' mode b = sret (0, b')"
        "fslog b' = fslog b @ Opened True path' mode fd' # map (Wrote fd') cs @ [Closed fd', Utimed path' 0]"
        "wout b' = wout b @ data_msg ID_OKAY 0" "stream (rin b') = rest" by auto
    then show ?thesis using a'(2) by (intro exI [of _ b'] exI [of _ "map (Wrote fd') cs"]) simp
  qed
  with a' show ?thesis by blast
qed

definition demo_sync :: sync where
  "demo_sync = \<lparr>rin = [], wans = replicate 100 (Room 3), wout = [], buf = replicate SYNC_DATA_MAX 0, fslog = [],
     opens = [Inr 5], mkdir_ans = [], link_ans = [], file_wans = replicate 9 (Room 2), file_rin = [Chunk [1, 2], RdErr EINTR, Chunk [3], Chunk []]\<rparr>"

definition demo_sync_env :: sync_env where
  "demo_sync_env = \<lparr>lstat = (\<lambda>_. None), readdir = (\<lambda>_. None), strerror = (\<lambda>_. []), write_errno = Eother 28,
     buffers = (True, True)\<rparr>"

lemma demo_pipes: "open_pipe (replicate n (Room (Suc m)))" "room (replicate n (Room (Suc m))) = n"
  by (auto simp: open_pipe_def room_def)

lemma demo_delivers: "can_deliver 5 demo_sync" "stream (file_rin demo_sync) = [1, 2, 3]"
  using demo_pipes [of 100 2] by (simp_all add: can_deliver_def demo_sync_def numeral_3_eq_3)

lemma demo_stores: "can_store 5 3 (demo_sync\<lparr>rin := k\<rparr>)"
  using demo_pipes [of 100 2] demo_pipes [of 9 1] by (simp add: can_store_def demo_sync_def numeral_3_eq_3 numeral_2_eq_2)

theorem pull_push_roundtrip_witness:
  "\<exists>a' b' es. do_recv demo_sync_env [47, 97] demo_sync = sret (0, a') \<and>
     handle_send_file demo_sync_env [47, 98] 420 (demo_sync\<lparr>rin := [Chunk (wout a')]\<rparr>) = sret (0, b') \<and>
     fslog b' = Opened True [47, 98] 420 5 # es @ [Closed 5, Utimed [47, 98] 0] \<and> file_bytes 5 es = [1, 2, 3]"
proof -
  from do_recv_delivers [OF demo_delivers(1), of demo_sync_env "[47, 97]"] obtain cs a1
    where a1: "do_recv demo_sync_env [47, 97] demo_sync = sret (0, a1)"
      "wout a1 = wout demo_sync @ concat (map chunk_msg cs) @ data_msg ID_DONE 0" by blast
  let ?b = "demo_sync\<lparr>rin := [Chunk (wout a1)]\<rparr>"
  have "wout a1 \<noteq> []" using a1(2) by (simp add: data_msg_def le32_def)
  then have s: "wout demo_sync @ stream (rin ?b) = wout a1 @ []" by (simp add: demo_sync_def)
  have "can_store 5 (length (stream (file_rin demo_sync))) ?b" 
    using demo_stores unfolding demo_delivers(2) by (simp add: numeral_3_eq_3)
  from pull_push_roundtrip [OF demo_delivers(1) this, of demo_sync_env "[47, 97]" demo_sync_env "[47, 98]" 420]
  obtain a' where "do_recv demo_sync_env [47, 97] demo_sync = sret (0, a')"
    and p: "\<And>rest. wout demo_sync @ stream (rin ?b) = wout a' @ rest \<Longrightarrow>
      \<exists>b' es. handle_send_file demo_sync_env [47, 98] 420 ?b = sret (0, b') \<and>
        fslog b' = fslog ?b @ Opened True [47, 98] 420 5 # es @ [Closed 5, Utimed [47, 98] 0] \<and>
        file_bytes 5 es = [1, 2, 3]" unfolding demo_delivers(2) by blast
  then have "a' = a1" using a1(1) by simp
  with p s obtain b' es where "handle_send_file demo_sync_env [47, 98] 420 ?b = sret (0, b')"
    "fslog b' = fslog ?b @ Opened True [47, 98] 420 5 # es @ [Closed 5, Utimed [47, 98] 0]"
    "file_bytes 5 es = [1, 2, 3]" by blast
  with a1(1) show ?thesis by (auto simp: demo_sync_def)
qed

section \<open>Links\<close>

text \<open>
  The text of a link is used without an end: the service reads it into its buffer but does
  not terminate it, so the target continues with whatever an earlier transfer has left
  behind, up to the next zero byte; if there is none the service reads past the buffer.
\<close>

theorem link_target_runs_on:
  assumes "stream (rin st) = data_msg ID_DATA (of_nat (length tgt)) @ tgt @ data_msg ID_DONE ts @ rest"
    and "length tgt \<le> SYNC_DATA_MAX" and "length (buf st) = SYNC_DATA_MAX" and "0 \<notin> set tgt"
    and "link_ans st = None # k" and "open_pipe (wans st)" and "8 \<le> room (wans st)"
  shows "if 0 \<in> set (drop (length tgt) (buf st)) then
      \<exists>st'. handle_send_link env path st = sret (0, st') \<and>
        fslog st' = fslog st @ [MadeLink (tgt @ takeWhile (\<lambda>c. c \<noteq> 0) (drop (length tgt) (buf st))) path]
    else handle_send_link env path st = Some (Inl (Fault OutOfBounds))"
proof -
  let ?b = "tgt @ drop (length tgt) (buf st)"
  have u: "unat (of_nat (length tgt) :: u32) = length tgt"
    by (rule unat_u32) (use assms(2) in \<open>simp add: SYNC_DATA_MAX_def\<close>)
  from sread_stream [of st "data_msg ID_DATA (of_nat (length tgt))"] assms(1) obtain k1
    where k1: "sread 8 st = sret (Some (data_msg ID_DATA (of_nat (length tgt))), st\<lparr>rin := k1\<rparr>)"
      "stream k1 = tgt @ data_msg ID_DONE ts @ rest" by auto
  from sread_stream [of "st\<lparr>rin := k1\<rparr>" tgt] k1(2) obtain k2
    where k2: "sread (length tgt) (st\<lparr>rin := k1\<rparr>) = sret (Some tgt, st\<lparr>rin := k2\<rparr>)"
      "stream k2 = data_msg ID_DONE ts @ rest" by auto
  have rb: "read_buffer (length tgt) (st\<lparr>rin := k1\<rparr>) = sret (True, st\<lparr>rin := k2, buf := ?b\<rparr>)"
    using k2(1) assms(2,3) by (simp add: read_buffer_def put_buf_def blit_def)
  show ?thesis
  proof (cases "0 \<in> set (drop (length tgt) (buf st))")
    case False
    then have "c_string ?b = None" using assms(4) by (simp add: c_string_def)
    with k1(1) rb u assms(2) False show ?thesis by (simp add: handle_send_link_def sym_link_def)
  next
    case True
    let ?t = "tgt @ takeWhile (\<lambda>c. c \<noteq> 0) (drop (length tgt) (buf st))"
    let ?st = "note_fs (MadeLink ?t path) (st\<lparr>rin := k2, buf := ?b, link_ans := k\<rparr>)"
    have "takeWhile (\<lambda>c. c \<noteq> 0) ?b = ?t" 
      by (rule takeWhile_append2) (use assms(4) in blast)
    with True have "c_string ?b = Some ?t" by (simp add: c_string_def)
    then have sl: "sym_link path (st\<lparr>rin := k2, buf := ?b\<rparr>) = sret (None, ?st)"
      using assms(5) by (simp add: sym_link_def)
    from sread_stream [of ?st "data_msg ID_DONE ts" rest] k2(2) obtain k3
      where k3: "sread 8 ?st = sret (Some (data_msg ID_DONE ts), ?st\<lparr>rin := k3\<rparr>)" by auto
    from swrite_room [of "?st\<lparr>rin := k3\<rparr>" "data_msg ID_OKAY 0"] assms(6,7) obtain k4
      where "swrite (data_msg ID_OKAY 0) (?st\<lparr>rin := k3\<rparr>) =
        sret (True, (?st\<lparr>rin := k3\<rparr>)\<lparr>wout := wout (?st\<lparr>rin := k3\<rparr>) @ data_msg ID_OKAY 0, wans := k4\<rparr>)" by auto
    with k3 have "\<exists>st'. link_done ?st = sret (0, st') \<and> fslog st' = fslog ?st"
      by (simp add: link_done_def send_okay_def)
    with k1(1) rb sl u assms(2) True show ?thesis by (simp add: handle_send_link_def)
  qed
qed

theorem link_target_runs_on_witness:
  "\<exists>st'. handle_send_link demo_sync_env [47, 98]
     (demo_sync\<lparr>rin := [Chunk (data_msg ID_DATA 1 @ [120] @ data_msg ID_DONE 0)], link_ans := [None],
        buf := 55 # 56 # replicate (SYNC_DATA_MAX - 2) 0\<rparr>) = sret (0, st') \<and>
     fslog st' = [MadeLink [120, 56] [47, 98]]"
proof -
  let ?st = "demo_sync\<lparr>rin := [Chunk (data_msg ID_DATA 1 @ [120] @ data_msg ID_DONE 0)], link_ans := [None],
        buf := 55 # 56 # replicate (SYNC_DATA_MAX - 2) 0\<rparr>"
  have "stream (rin ?st) = data_msg ID_DATA (of_nat (length [120 :: byte])) @ [120] @ data_msg ID_DONE 0 @ []" by simp
  moreover have "SYNC_DATA_MAX - 2 = Suc 65533" by (simp add: SYNC_DATA_MAX_def)
  ultimately show ?thesis
    using link_target_runs_on [of ?st "[120]" 0 "[]" "[]" demo_sync_env "[47, 98]"] demo_pipes [of 100 2]
    by (simp add: demo_sync_def SYNC_DATA_MAX_def numeral_3_eq_3)
qed

section \<open>Every file is closed\<close>

text \<open>The openings and closings in a log.\<close>

fun fds_used :: "fs_event list \<Rightarrow> (bool \<times> int) list" where
  "fds_used [] = []"
| "fds_used (Opened c p m fd # es) = (True, fd) # fds_used es"
| "fds_used (OpenedRead p fd # es) = (True, fd) # fds_used es"
| "fds_used (Closed fd # es) = (False, fd) # fds_used es"
| "fds_used (_ # es) = fds_used es"

lemma fds_used_append [simp]: "fds_used (es @ fs) = fds_used es @ fds_used fs"
  by (induction es rule: fds_used.induct) auto

lemma swrite_log: "swrite bs st = Some (Inr (ok, st')) \<Longrightarrow> fslog st' = fslog st"
  by (auto simp: swrite_def split: option.splits prod.splits)

lemma swrite2_log: "swrite2 a b st = Some (Inr (ok, st')) \<Longrightarrow> fslog st' = fslog st"
  by (auto simp: swrite2_def sbind_eq split: if_splits dest!: swrite_log)

lemma fail_message_log: "fail_message m st = Some (Inr (r, st')) \<Longrightarrow> fslog st' = fslog st"
  by (auto simp: fail_message_def sbind_eq dest!: swrite2_log)

lemma fail_errno_log: "fail_errno env e st = Some (Inr (r, st')) \<Longrightarrow> fslog st' = fslog st"
  by (auto simp: fail_errno_def dest: fail_message_log)

lemma sread_log: "sread n st = Some (Inr (r, st')) \<Longrightarrow> fslog st' = fslog st"
  by (auto simp: sread_def split: option.splits)

lemma put_buf_log: "put_buf bs st = Some (Inr st') \<Longrightarrow> fslog st' = fslog st"
  by (auto simp: put_buf_def split: sum.splits)

lemma read_buffer_log: "read_buffer n st = Some (Inr (r, st')) \<Longrightarrow> fslog st' = fslog st"
  by (auto simp: read_buffer_def sbind_eq split: option.splits dest!: sread_log put_buf_log)

lemma send_okay_log: "send_okay st = Some (Inr (r, st')) \<Longrightarrow> fslog st' = fslog st"
  by (auto simp: send_okay_def sbind_eq dest!: swrite_log)

lemmas quiet_log = swrite_log swrite2_log fail_message_log fail_errno_log sread_log put_buf_log read_buffer_log send_okay_log

lemma file_write_fds: "file_write f bs st = Some (Inr (ok, st')) \<Longrightarrow> fds_used (fslog st') = fds_used (fslog st)"
  by (auto simp: file_write_def split: option.splits prod.splits)

definition closing_of :: "int option \<Rightarrow> (bool \<times> int) list" where
  "closing_of fd = (case fd of None \<Rightarrow> [] | Some f \<Rightarrow> [(False, f)])"

lemma send_fail_fds:
  "send_fail path fd st = Some (Inr (r, st')) \<Longrightarrow> fds_used (fslog st') = fds_used (fslog st) @ closing_of fd"
  by (auto simp: send_fail_def Let_def closing_of_def split: option.splits)

lemma send_done_fds:
  "send_done path fd ts st = Some (Inr (r, st')) \<Longrightarrow> fds_used (fslog st') = fds_used (fslog st) @ closing_of fd"
  by (auto simp: send_done_def closing_of_def split: option.splits dest!: send_okay_log)

lemma store_chunk_fds:
  assumes "store_chunk env path fd len st = Some (Inr (x, st'))"
  shows "fds_used (fslog st') @ (case x of Inl _ \<Rightarrow> [] | Inr fd' \<Rightarrow> closing_of fd') =
    fds_used (fslog st) @ closing_of fd"
proof -
  from assms obtain ok st1 where b: "read_buffer len st = Some (Inr (ok, st1))"
    by (auto simp: store_chunk_def sbind_eq)
  note l = read_buffer_log [OF b]
  show ?thesis
  proof (cases ok)
    case False
    with assms b l show ?thesis by (auto simp: store_chunk_def sbind_eq dest!: send_fail_fds)
  next
    case ok: True
    show ?thesis
    proof (cases fd)
      case None
      with assms b l ok show ?thesis by (auto simp: store_chunk_def)
    next
      case (Some f)
      with assms b ok obtain ok2 st2 where w: "file_write f (take len (buf st1)) st1 = Some (Inr (ok2, st2))"
        by (auto simp: store_chunk_def sbind_eq)
      note l2 = file_write_fds [OF w]
      show ?thesis
      proof (cases ok2)
        case True
        with assms b l ok Some w l2 show ?thesis by (auto simp: store_chunk_def)
      next
        case False
        with assms b ok Some w obtain r where
          "fail_errno env (write_errno env) (note_fs (Unlinked path) (note_fs (Closed f) st2)) = Some (Inr (r, st'))"
          and x: "x = (if r \<noteq> 0 then Inl (-1) else Inr None)"
          by (auto simp: store_chunk_def sbind_eq)
        from fail_errno_log [OF this(1)] l l2 x Some show ?thesis by (simp add: closing_of_def)
      qed
    qed
  qed
qed

lemma send_loop_fds:
  "send_loop env path fd st = Some (Inr (r, st')) \<Longrightarrow> fds_used (fslog st') = fds_used (fslog st) @ closing_of fd"
proof (induction env path fd st rule: send_loop.induct)
  case (1 env path fd st)
  from "1.prems" obtain a st1 where a: "sread 8 st = Some (Inr (a, st1))"
    by (auto simp: send_loop.simps [of env path fd st] sbind_eq)
  note l = sread_log [OF a]
  show ?case
  proof (cases a)
    case None
    with a l "1.prems" show ?thesis by (auto simp: send_loop.simps [of env path fd st] dest!: send_fail_fds)
  next
    case (Some bs)
    let ?i = "of_le32 bs" and ?len = "unat (of_le32 (drop 4 bs))"
    consider (fin) "?i = ID_DONE" "?i \<noteq> ID_DATA" | (bad) "?i \<noteq> ID_DONE" "?i \<noteq> ID_DATA"
      | (big) "?i = ID_DATA" "?len > SYNC_DATA_MAX" | (chunk) "?i = ID_DATA" "\<not> ?len > SYNC_DATA_MAX" by blast
    then show ?thesis
    proof cases
      case fin
      with a Some "1.prems" l show ?thesis
        by (auto simp: send_loop.simps [of env path fd st] Let_def dest!: send_done_fds)
    next
      case bad
      with a Some "1.prems" l show ?thesis
        by (auto simp: send_loop.simps [of env path fd st] Let_def sbind_eq dest!: send_fail_fds fail_message_log)
    next
      case big
      with a Some "1.prems" l show ?thesis
        by (auto simp: send_loop.simps [of env path fd st] Let_def sbind_eq dest!: send_fail_fds fail_message_log)
    next
      case chunk
      with a Some "1.prems" obtain x st2 where c: "store_chunk env path fd ?len st1 = Some (Inr (x, st2))"
        and x: "(case x of Inl ret \<Rightarrow> sret (ret, st2) | Inr fd \<Rightarrow> send_loop env path fd st2) = Some (Inr (r, st'))"
        by (auto simp: send_loop.simps [of env path fd st] Let_def sbind_eq)
      note sc = store_chunk_fds [OF c]
      show ?thesis
      proof (cases x)
        case (Inl ret)
        with x sc l show ?thesis by simp
      next
        case (Inr fd')
        from "1.IH" [of "(a, st1)" a st1 bs ?i ?len "(x, st2)" x st2 fd'] a Some chunk c Inr x
        have "fds_used (fslog st') = fds_used (fslog st2) @ closing_of fd'" by simp
        with sc Inr l show ?thesis by simp
      qed
    qed
  qed
qed

lemma recv_loop_fds:
  "recv_loop env fd st = Some (Inr (r, st')) \<Longrightarrow> fds_used (fslog st') = fds_used (fslog st) @ [(False, fd)]"
proof (induction env fd st rule: recv_loop.induct)
  case (1 env fd st)
  from "1.prems" obtain a k where a: "adb_read SYNC_DATA_MAX (file_rin st) = Some (a, k)"
    by (auto simp: recv_loop.simps [of env fd st] split: option.splits)
  show ?case
  proof (cases a)
    case (Failed e)
    with a "1.prems" show ?thesis by (auto simp: recv_loop.simps [of env fd st] sbind_eq dest!: fail_errno_log)
  next
    case (Got bs)
    show ?thesis
    proof (cases "bs = []")
      case True
      with a Got "1.prems" show ?thesis by (auto simp: recv_loop.simps [of env fd st] sbind_eq dest!: swrite_log)
    next
      case False
      with a Got "1.prems" obtain st1 ok st2 where p: "put_buf bs (st\<lparr>file_rin := k\<rparr>) = Some (Inr st1)"
        and w: "swrite2 (data_msg ID_DATA (of_nat (length bs))) bs st1 = Some (Inr (ok, st2))"
        and l: "(if ok then recv_loop env fd st2 else sret (-1, note_fs (Closed fd) st2)) = Some (Inr (r, st'))"
        by (auto simp: recv_loop.simps [of env fd st] sbind_eq)
      have "fslog st2 = fslog st" using swrite2_log [OF w] put_buf_log [OF p] by simp
      then show ?thesis
        using l "1.IH" [of "(a, k)" a k bs st1 "(ok, st2)" ok st2] a Got False p w by (cases ok) auto
    qed
  qed
qed

definition opening_of :: "errno + int \<Rightarrow> (bool \<times> int) list" where
  "opening_of r = (case r of Inl _ \<Rightarrow> [] | Inr fd \<Rightarrow> [(True, fd)])"

lemma adb_open_mode_fds:
  "adb_open_mode c path mode st = Some (Inr (r, st')) \<Longrightarrow> fds_used (fslog st') = fds_used (fslog st) @ opening_of r"
  by (auto simp: adb_open_mode_def opening_of_def split: list.splits sum.splits)

lemma mkdir_each_fds: "mkdir_each name is st = Some (Inr (r, st')) \<Longrightarrow> fds_used (fslog st') = fds_used (fslog st)"
  by (induction name "is" st rule: mkdir_each.induct) (auto split: list.splits option.splits if_splits)

lemma mkdirs_fds: "mkdirs name st = Some (Inr (r, st')) \<Longrightarrow> fds_used (fslog st') = fds_used (fslog st)"
  by (auto simp: mkdirs_def split: if_splits dest: mkdir_each_fds)

lemma open_for_send_fds:
  assumes "open_for_send path mode st = Some (Inr (r, st'))"
  shows "fds_used (fslog st') = fds_used (fslog st) @ opening_of r"
proof -
  from assms obtain r1 st1 r2 st2 where
    1: "adb_open_mode True path mode st = Some (Inr (r1, st1))" and
    2: "(if r1 = Inl ENOENT then sbind (mkdirs path st1) (\<lambda>(_, st). adb_open_mode True path mode st)
         else sret (r1, st1)) = Some (Inr (r2, st2))" and
    3: "(if r2 = Inl EEXIST then adb_open_mode False path mode st2 else sret (r2, st2)) = Some (Inr (r, st'))"
    by (auto simp: open_for_send_def sbind_eq)
  have "fds_used (fslog st2) = fds_used (fslog st) @ opening_of r2"
    using 2 adb_open_mode_fds [OF 1]
    by (auto simp: sbind_eq opening_of_def split: if_splits dest!: mkdirs_fds adb_open_mode_fds)
  then show ?thesis using 3 by (auto simp: opening_of_def split: if_splits dest!: adb_open_mode_fds)
qed

text \<open>Each file is closed before the next one is opened.\<close>

fun balanced :: "(bool \<times> int) list \<Rightarrow> bool" where
  "balanced [] = True"
| "balanced ((a, f) # (b, g) # ds) = (a \<and> \<not> b \<and> f = g \<and> balanced ds)"
| "balanced _ = False"

lemma balanced_append: "balanced ds \<Longrightarrow> balanced es \<Longrightarrow> balanced (ds @ es)"
  by (induction ds rule: balanced.induct) auto

definition closes_all :: "sync \<Rightarrow> sync \<Rightarrow> bool" where
  "closes_all st st' \<longleftrightarrow> (\<exists>ds. balanced ds \<and> fds_used (fslog st') = fds_used (fslog st) @ ds)"

lemma closes_all_same: "fds_used (fslog st') = fds_used (fslog st) \<Longrightarrow> closes_all st st'"
  unfolding closes_all_def by (intro exI [of _ "[]"]) simp

lemma closes_all_trans: "closes_all st st' \<Longrightarrow> closes_all st' st'' \<Longrightarrow> closes_all st st''"
  unfolding closes_all_def by (metis append_assoc balanced_append)

lemma handle_send_file_fds:
  assumes "handle_send_file env path mode st = Some (Inr (r, st'))"
  shows "closes_all st st'"
proof -
  from assms obtain a st1 where o: "open_for_send path mode st = Some (Inr (a, st1))"
    by (auto simp: handle_send_file_def sbind_eq)
  note l = open_for_send_fds [OF o]
  show ?thesis
  proof (cases a)
    case (Inr fd)
    with assms o have "send_loop env path (Some fd) st1 = Some (Inr (r, st'))" by (simp add: handle_send_file_def)
    from send_loop_fds [OF this] l Inr show ?thesis
      unfolding closes_all_def by (intro exI [of _ "[(True, fd), (False, fd)]"]) (simp add: closing_of_def opening_of_def)
  next
    case (Inl e)
    with assms o obtain q st2 where f: "fail_errno env e st1 = Some (Inr (q, st2))"
      and s: "(if q \<noteq> 0 then sret (-1, st2) else send_loop env path None st2) = Some (Inr (r, st'))"
      by (auto simp: handle_send_file_def sbind_eq)
    have "fds_used (fslog st') = fds_used (fslog st2)"
      using s by (auto simp: closing_of_def split: if_splits dest!: send_loop_fds)
    with fail_errno_log [OF f] l Inl show ?thesis by (intro closes_all_same) (simp add: opening_of_def)
  qed
qed

lemma sym_link_fds: "sym_link path st = Some (Inr (r, st')) \<Longrightarrow> fds_used (fslog st') = fds_used (fslog st)"
  by (auto simp: sym_link_def split: option.splits list.splits)

lemma link_done_fds: "link_done st = Some (Inr (r, st')) \<Longrightarrow> fds_used (fslog st') = fds_used (fslog st)"
  by (auto simp: link_done_def sbind_eq split: option.splits if_splits dest!: quiet_log)

lemma make_link_fds:
  assumes "sbind (sym_link path st) (\<lambda>(r, st).
    sbind (if r = Some ENOENT then sbind (mkdirs path st) (\<lambda>(_, st). sym_link path st) else sret (r, st)) (\<lambda>(r, st).
    case r of Some e \<Rightarrow> sbind (fail_errno env e st) (\<lambda>(_, st). sret (-1, st)) | None \<Rightarrow> link_done st)) = Some (Inr (r, st'))"
  shows "fds_used (fslog st') = fds_used (fslog st)"
proof -
  from assms obtain x1 st3 x2 st4 where
    3: "sym_link path st = Some (Inr (x1, st3))" and
    4: "(if x1 = Some ENOENT then sbind (mkdirs path st3) (\<lambda>(_, st). sym_link path st) else sret (x1, st3)) =
      Some (Inr (x2, st4))" and
    5: "(case x2 of Some e \<Rightarrow> sbind (fail_errno env e st4) (\<lambda>(_, st). sret (-1, st)) | None \<Rightarrow> link_done st4) =
      Some (Inr (r, st'))"
    by (auto simp: sbind_eq)
  have "fds_used (fslog st4) = fds_used (fslog st3)"
    using 4 by (auto simp: sbind_eq split: if_splits dest!: mkdirs_fds sym_link_fds)
  moreover have "fds_used (fslog st') = fds_used (fslog st4)"
    using 5 by (cases x2) (auto simp: sbind_eq dest!: link_done_fds fail_errno_log)
  ultimately show ?thesis using sym_link_fds [OF 3] by simp
qed

lemma handle_send_link_fds:
  assumes "handle_send_link env path st = Some (Inr (r, st'))"
  shows "closes_all st st'"
proof (rule closes_all_same)
  from assms obtain a st1 where a: "sread 8 st = Some (Inr (a, st1))"
    by (auto simp: handle_send_link_def sbind_eq)
  note l = sread_log [OF a]
  show "fds_used (fslog st') = fds_used (fslog st)"
  proof (cases a)
    case None
    with assms a l show ?thesis by (simp add: handle_send_link_def)
  next
    case (Some bs)
    let ?len = "unat (of_le32 (drop 4 bs))"
    show ?thesis
    proof (cases "of_le32 bs \<noteq> ID_DATA \<or> ?len > SYNC_DATA_MAX")
      case True
      with assms a Some l show ?thesis
        by (auto simp: handle_send_link_def sbind_eq Let_def split: if_splits dest!: fail_message_log)
    next
      case False
      with assms a Some obtain ok st2 where b: "read_buffer ?len st1 = Some (Inr (ok, st2))"
        by (auto simp: handle_send_link_def sbind_eq Let_def)
      with assms a Some False l read_buffer_log [OF b] show ?thesis
        by (cases ok) (auto simp: handle_send_link_def Let_def dest!: make_link_fds)
    qed
  qed
qed

lemma do_send_fds: "do_send env name st = Some (Inr (r, st')) \<Longrightarrow> closes_all st st'"
proof -
  assume d: "do_send env name st = Some (Inr (r, st'))"
  obtain path mode is_link where t: "send_target name = (path, mode, is_link)" by (cases "send_target name")
  have "closes_all (note_fs (Unlinked path) st) st'"
    using d by (cases is_link) (auto simp: do_send_def t Let_def dest: handle_send_link_fds handle_send_file_fds)
  then show ?thesis by (simp add: closes_all_def)
qed

lemma do_recv_fds: "do_recv env path st = Some (Inr (r, st')) \<Longrightarrow> closes_all st st'"
proof -
  assume d: "do_recv env path st = Some (Inr (r, st'))"
  then obtain a k where k: "opens st = a # k" by (cases "opens st") (auto simp: do_recv_def)
  show ?thesis
  proof (cases a)
    case (Inl e)
    with d k show ?thesis by (auto simp: do_recv_def sbind_eq intro!: closes_all_same dest!: fail_errno_log)
  next
    case (Inr fd)
    with d k have "recv_loop env fd (note_fs (OpenedRead path fd) (st\<lparr>opens := k\<rparr>)) = Some (Inr (r, st'))"
      by (simp add: do_recv_def)
    from recv_loop_fds [OF this] show ?thesis
      unfolding closes_all_def by (intro exI [of _ "[(True, fd), (False, fd)]"]) simp
  qed
qed

lemma list_entries_log: "list_entries env path names st = Some (Inr (r, st')) \<Longrightarrow> fslog st' = fslog st"
proof (induction names arbitrary: st)
  case (Cons n ns)
  show ?case
  proof (cases "length n \<ge> 256 \<or> lstat env (path @ 47 # n) = None")
    case True
    with Cons show ?thesis by (auto simp: Let_def split: if_splits)
  next
    case False
    then obtain mode sz time where x: "lstat env (path @ 47 # n) = Some (mode, sz, time)" by auto
    with False Cons.prems obtain ok st1 where
      w: "swrite2 (dent_msg ID_DENT mode sz time (of_nat (length n))) n st = Some (Inr (ok, st1))" and
      l: "(if ok then list_entries env path ns st1 else sret (False, st1)) = Some (Inr (r, st'))"
      by (auto simp: sbind_eq)
    with Cons.IH [of st1] swrite2_log [OF w] show ?thesis by (cases ok) auto
  qed
qed simp

lemma do_list_fds:
  assumes d: "do_list env path st = Some (Inr (r, st'))"
  shows "closes_all st st'"
proof (cases "readdir env path")
  case None
  with d show ?thesis by (auto simp: do_list_def sbind_eq intro!: closes_all_same dest!: swrite_log split: if_splits)
next
  case (Some x)
  obtain fd names where x: "x = (fd, names)" by (cases x)
  let ?st = "note_fs (OpenedRead path fd) st"
  from d Some x obtain ok st1 where l: "list_entries env path names ?st = Some (Inr (ok, st1))"
    and r: "(if \<not> ok then sret (-1, note_fs (Closed fd) st1) else sbind (swrite (dent_msg ID_DONE 0 0 0 0) (note_fs (Closed fd) st1))
      (\<lambda>(ok, st). sret (if ok then 0 else -1, st))) = Some (Inr (r, st'))"
    by (auto simp: do_list_def sbind_eq)
  have "fslog st' = fslog (note_fs (Closed fd) st1)"
    using r by (auto simp: sbind_eq split: if_splits dest!: swrite_log)
  then have "fds_used (fslog st') = fds_used (fslog st) @ [(True, fd), (False, fd)]"
    using list_entries_log [OF l] by (simp add: note_fs_def)
  then show ?thesis unfolding closes_all_def by (intro exI [of _ "[(True, fd), (False, fd)]"]) simp
qed

lemma do_stat_fds: "do_stat env path st = Some (Inr (r, st')) \<Longrightarrow> closes_all st st'"
  by (auto simp: do_stat_def sbind_eq intro!: closes_all_same dest!: swrite_log)

lemma unknown_fds:
  "sbind (fail_message m st) (\<lambda>(_, st). sret (-1, st)) = Some (Inr (r, st')) \<Longrightarrow> closes_all st st'"
  by (auto simp: sbind_eq intro!: closes_all_same dest!: fail_message_log)

lemma dispatch_fds: "dispatch env i name st = Some (Inr (r, st')) \<Longrightarrow> closes_all st st'"
  by (auto simp: dispatch_def closes_all_same split: if_splits
      dest: do_stat_fds do_list_fds do_send_fds do_recv_fds unknown_fds)

lemma one_request_fds:
  assumes "one_request env st = Some (Inr (go, st'))"
  shows "closes_all st st'"
proof -
  have stop: "fslog s' = fslog s" if "stop_with m s = Some (Inr (g, s'))" for m s g s'
    using that by (auto simp: stop_with_def sbind_eq dest: fail_message_log)
  from assms obtain a st1 where a: "sread 8 st = Some (Inr (a, st1))" by (auto simp: one_request_def sbind_eq)
  note l = sread_log [OF a]
  show ?thesis
  proof (cases a)
    case None
    with assms a l show ?thesis by (auto simp: one_request_def intro!: closes_all_same dest!: stop)
  next
    case (Some bs)
    let ?n = "unat (of_le32 (drop 4 bs))"
    show ?thesis
    proof (cases "?n > 1024")
      case True
      with assms a Some l show ?thesis by (auto simp: one_request_def Let_def intro!: closes_all_same dest!: stop)
    next
      case False
      with assms a Some obtain x st2 where x: "sread ?n st1 = Some (Inr (x, st2))"
        by (auto simp: one_request_def sbind_eq Let_def)
      note l2 = sread_log [OF x]
      show ?thesis
      proof (cases x)
        case None
        with assms a Some False x l l2 show ?thesis
          by (auto simp: one_request_def Let_def intro!: closes_all_same dest!: stop)
      next
        case name: (Some name)
        with assms a Some False x obtain r where
          "dispatch env (of_le32 bs) (takeWhile (\<lambda>c. c \<noteq> 0) name) st2 = Some (Inr (r, st'))"
          by (auto simp: one_request_def sbind_eq Let_def split: if_splits)
        from dispatch_fds [OF this] l l2 show ?thesis by (simp add: closes_all_def)
      qed
    qed
  qed
qed

lemma file_sync_loop_fds: "file_sync_loop env st = Some (Inr st') \<Longrightarrow> closes_all st st'"
proof (induction env st rule: file_sync_loop.induct)
  case (1 env st)
  from "1.prems" obtain go st1 where o: "one_request env st = Some (Inr (go, st1))"
    and l: "(if go then file_sync_loop env st1 else sret st1) = Some (Inr st')"
    by (auto simp: file_sync_loop.simps [of env st] sbind_eq)
  note c = one_request_fds [OF o]
  show ?case
  proof (cases go)
    case True
    with "1.IH" [of "(go, st1)" go st1] o l c show ?thesis by (auto intro: closes_all_trans)
  next
    case False
    with l c show ?thesis by simp
  qed
qed

text \<open>
  C10: Whatever a client sends and whatever fails, when the file service returns it has closed every
  file and directory it opened, each one before it opened the next, exactly once, and then its two
  descriptors.
\<close>

theorem file_service_closes:
  assumes "file_sync_service env rfd wfd st = sret st'" and "fslog st = []"
  shows "\<exists>ds. balanced ds \<and> fds_used (fslog st') = ds @ [(False, rfd), (False, wfd)]"
proof -
  from assms(1) obtain st1 where
    s: "(if fst (buffers env) \<and> snd (buffers env) then file_sync_loop env st else sret st) = Some (Inr st1)"
    and e: "st' = note_fs (Closed wfd) (note_fs (Closed rfd) st1)"
    unfolding sret_def by (auto simp: file_sync_service_def sbind_eq split: if_splits)
  have "closes_all st st1" using s file_sync_loop_fds by (auto split: if_splits intro: closes_all_same)
  with assms(2) e show ?thesis by (auto simp: closes_all_def)
qed

theorem file_service_closes_witness:
  "\<exists>st' ds. file_sync_service demo_sync_env 3 4 (demo_sync\<lparr>rin := [Chunk (data_msg ID_QUIT 0)]\<rparr>) = sret st' \<and>
     balanced ds \<and> fds_used (fslog st') = ds @ [(False, 3), (False, 4)]"
proof -
  let ?st = "demo_sync\<lparr>rin := [Chunk (data_msg ID_QUIT 0)]\<rparr>"
  have ne: "data_msg ID_QUIT 0 \<noteq> []" by (simp add: data_msg_def le32_def)
  from sread_stream [of ?st "data_msg ID_QUIT 0" "[]"] ne obtain k
    where k: "sread 8 ?st = sret (Some (data_msg ID_QUIT 0), ?st\<lparr>rin := k\<rparr>)" by auto
  have z: "sread 0 (?st\<lparr>rin := k\<rparr>) = sret (Some [], ?st\<lparr>rin := k\<rparr>)" by (simp add: sread_def readx.simps)
  have "one_request demo_sync_env ?st = sret (False, ?st\<lparr>rin := k\<rparr>)"
    using k z by (simp add: one_request_def dispatch_def ID_defs bytes_of_str_def)
  then have "\<exists>st'. file_sync_service demo_sync_env 3 4 ?st = sret st'"
    by (simp add: file_sync_service_def file_sync_loop.simps [of _ ?st] demo_sync_env_def)
  with file_service_closes [of demo_sync_env 3 4 ?st] show ?thesis by (auto simp: demo_sync_def)
qed

end
