(* ===== verification/Fs_Config.thy ===== *)
theory Fs_Config
  imports Prelude
begin

text \<open>
  Owners and permissions of the files and directories of an image (\<open>include/android_filesystem_config.h\<close>):
  the numbers of the users and groups, the two tables of rules and \<open>fs_config\<close>, which looks a path
  up. The users of the Motorola build are not compiled. A mode is written in hexadecimal.
\<close>

section \<open>Users and groups\<close>

definition AID_ROOT :: nat where "AID_ROOT = 0"
definition AID_SYSTEM :: nat where "AID_SYSTEM = 1000"
definition AID_RADIO :: nat where "AID_RADIO = 1001"
definition AID_BLUETOOTH :: nat where "AID_BLUETOOTH = 1002"
definition AID_GRAPHICS :: nat where "AID_GRAPHICS = 1003"
definition AID_INPUT :: nat where "AID_INPUT = 1004"
definition AID_AUDIO :: nat where "AID_AUDIO = 1005"
definition AID_CAMERA :: nat where "AID_CAMERA = 1006"
definition AID_LOG :: nat where "AID_LOG = 1007"
definition AID_COMPASS :: nat where "AID_COMPASS = 1008"
definition AID_MOUNT :: nat where "AID_MOUNT = 1009"
definition AID_WIFI :: nat where "AID_WIFI = 1010"
definition AID_ADB :: nat where "AID_ADB = 1011"
definition AID_INSTALL :: nat where "AID_INSTALL = 1012"
definition AID_MEDIA :: nat where "AID_MEDIA = 1013"
definition AID_DHCP :: nat where "AID_DHCP = 1014"
definition AID_SDCARD_RW :: nat where "AID_SDCARD_RW = 1015"
definition AID_VPN :: nat where "AID_VPN = 1016"
definition AID_KEYSTORE :: nat where "AID_KEYSTORE = 1017"
definition AID_USB :: nat where "AID_USB = 1018"
definition AID_DRM :: nat where "AID_DRM = 1019"
definition AID_MDNSR :: nat where "AID_MDNSR = 1020"
definition AID_GPS :: nat where "AID_GPS = 1021"
definition AID_MEDIA_RW :: nat where "AID_MEDIA_RW = 1023"
definition AID_MTP :: nat where "AID_MTP = 1024"
definition AID_DRMRPC :: nat where "AID_DRMRPC = 1026"
definition AID_NFC :: nat where "AID_NFC = 1027"
definition AID_SDCARD_R :: nat where "AID_SDCARD_R = 1028"
definition AID_SHELL :: nat where "AID_SHELL = 32011"
definition AID_CACHE :: nat where "AID_CACHE = 2001"
definition AID_DIAG :: nat where "AID_DIAG = 2002"
definition AID_NET_BT_ADMIN :: nat where "AID_NET_BT_ADMIN = 3001"
definition AID_NET_BT :: nat where "AID_NET_BT = 3002"
definition AID_INET :: nat where "AID_INET = 3003"
definition AID_NET_RAW :: nat where "AID_NET_RAW = 3004"
definition AID_NET_ADMIN :: nat where "AID_NET_ADMIN = 3005"
definition AID_NET_BW_STATS :: nat where "AID_NET_BW_STATS = 3006"
definition AID_NET_BW_ACCT :: nat where "AID_NET_BW_ACCT = 3007"
definition AID_NET_BT_STACK :: nat where "AID_NET_BT_STACK = 3008"
definition AID_QCOM_ONCRPC :: nat where "AID_QCOM_ONCRPC = 3009"
definition AID_QCOM_DIAG :: nat where "AID_QCOM_DIAG = 3010"
definition AID_MISC :: nat where "AID_MISC = 9998"
definition AID_NOBODY :: nat where "AID_NOBODY = 9999"
definition AID_APP :: nat where "AID_APP = 10000"

lemmas aid_defs = AID_ROOT_def AID_SYSTEM_def AID_RADIO_def AID_BLUETOOTH_def AID_GRAPHICS_def AID_INPUT_def AID_AUDIO_def AID_CAMERA_def AID_LOG_def AID_COMPASS_def AID_MOUNT_def AID_WIFI_def AID_ADB_def AID_INSTALL_def AID_MEDIA_def AID_DHCP_def AID_SDCARD_RW_def AID_VPN_def AID_KEYSTORE_def AID_USB_def AID_DRM_def AID_MDNSR_def AID_GPS_def AID_MEDIA_RW_def AID_MTP_def AID_DRMRPC_def AID_NFC_def AID_SDCARD_R_def AID_SHELL_def AID_CACHE_def AID_DIAG_def AID_NET_BT_ADMIN_def AID_NET_BT_def AID_INET_def AID_NET_RAW_def AID_NET_ADMIN_def AID_NET_BW_STATS_def AID_NET_BW_ACCT_def AID_NET_BT_STACK_def AID_QCOM_ONCRPC_def AID_QCOM_DIAG_def AID_MISC_def AID_NOBODY_def AID_APP_def

text \<open>\<open>android_ids\<close>: the names of the users.\<close>

definition android_ids :: "(string \<times> nat) list" where
  "android_ids =
     [(''root'', AID_ROOT),
      (''system'', AID_SYSTEM),
      (''radio'', AID_RADIO),
      (''bluetooth'', AID_BLUETOOTH),
      (''graphics'', AID_GRAPHICS),
      (''input'', AID_INPUT),
      (''audio'', AID_AUDIO),
      (''camera'', AID_CAMERA),
      (''log'', AID_LOG),
      (''compass'', AID_COMPASS),
      (''mount'', AID_MOUNT),
      (''wifi'', AID_WIFI),
      (''dhcp'', AID_DHCP),
      (''adb'', AID_ADB),
      (''install'', AID_INSTALL),
      (''media'', AID_MEDIA),
      (''drm'', AID_DRM),
      (''mdnsr'', AID_MDNSR),
      (''nfc'', AID_NFC),
      (''drmrpc'', AID_DRMRPC),
      (''shell'', AID_SHELL),
      (''cache'', AID_CACHE),
      (''diag'', AID_DIAG),
      (''net_bt_admin'', AID_NET_BT_ADMIN),
      (''net_bt'', AID_NET_BT),
      (''net_bt_stack'', AID_NET_BT_STACK),
      (''sdcard_r'', AID_SDCARD_R),
      (''sdcard_rw'', AID_SDCARD_RW),
      (''media_rw'', AID_MEDIA_RW),
      (''vpn'', AID_VPN),
      (''keystore'', AID_KEYSTORE),
      (''usb'', AID_USB),
      (''mtp'', AID_MTP),
      (''gps'', AID_GPS),
      (''inet'', AID_INET),
      (''net_raw'', AID_NET_RAW),
      (''net_admin'', AID_NET_ADMIN),
      (''net_bw_stats'', AID_NET_BW_STATS),
      (''net_bw_acct'', AID_NET_BW_ACCT),
      (''qcom_oncrpc'', AID_QCOM_ONCRPC),
      (''qcom_diag'', AID_QCOM_DIAG),
      (''misc'', AID_MISC),
      (''nobody'', AID_NOBODY)]"

section \<open>The rules\<close>

record fs_path_config =
  rmode :: u32
  ruid :: nat
  rgid :: nat
  rprefix :: "string option"

definition rule :: "u32 \<Rightarrow> nat \<Rightarrow> nat \<Rightarrow> string option \<Rightarrow> fs_path_config" where
  "rule m u g p = \<lparr>rmode = m, ruid = u, rgid = g, rprefix = p\<rparr>"

definition android_dirs :: "fs_path_config list" where
  "android_dirs =
     [rule 0x1f8 AID_SYSTEM AID_CACHE (Some ''cache''),
      rule 0x1f9 AID_SYSTEM AID_SYSTEM (Some ''data/app''),
      rule 0x1f9 AID_SYSTEM AID_SYSTEM (Some ''data/app-private''),
      rule 0x1f9 AID_SYSTEM AID_SYSTEM (Some ''data/dalvik-cache''),
      rule 0x1f9 AID_SYSTEM AID_SYSTEM (Some ''data/data''),
      rule 0x1f9 AID_SHELL AID_SHELL (Some ''data/local/tmp''),
      rule 0x1f9 AID_SHELL AID_SHELL (Some ''data/local''),
      rule 0x3f9 AID_SYSTEM AID_MISC (Some ''data/misc''),
      rule 0x1f8 AID_DHCP AID_DHCP (Some ''data/misc/dhcp''),
      rule 0x1fd AID_MEDIA_RW AID_MEDIA_RW (Some ''data/media''),
      rule 0x1fd AID_MEDIA_RW AID_MEDIA_RW (Some ''data/media/Music''),
      rule 0x1f9 AID_SYSTEM AID_SYSTEM (Some ''data''),
      rule 0x1e8 AID_ROOT AID_SHELL (Some ''sbin''),
      rule 0x1ed AID_ROOT AID_ROOT (Some ''system/addon.d''),
      rule 0x1ed AID_ROOT AID_SHELL (Some ''system/bin''),
      rule 0x1ed AID_ROOT AID_SHELL (Some ''system/vendor''),
      rule 0x1ed AID_ROOT AID_SHELL (Some ''system/xbin''),
      rule 0x1ed AID_ROOT AID_ROOT (Some ''system/etc/ppp''),
      rule 0x1ff AID_ROOT AID_ROOT (Some ''sdcard''),
      rule 0x1ed AID_ROOT AID_ROOT None]"

definition android_files :: "fs_path_config list" where
  "android_files =
     [rule 0x120 AID_ROOT AID_SHELL (Some ''system/etc/init.goldfish.rc''),
      rule 0x168 AID_ROOT AID_SHELL (Some ''system/etc/init.goldfish.sh''),
      rule 0x120 AID_ROOT AID_SHELL (Some ''system/etc/init.trout.rc''),
      rule 0x168 AID_ROOT AID_SHELL (Some ''system/etc/init.ril''),
      rule 0x168 AID_ROOT AID_SHELL (Some ''system/etc/init.testmenu''),
      rule 0x168 AID_DHCP AID_SHELL (Some ''system/etc/dhcpcd/dhcpcd-run-hooks''),
      rule 0x120 AID_BLUETOOTH AID_BLUETOOTH (Some ''system/etc/dbus.conf''),
      rule 0x124 AID_RADIO AID_AUDIO (Some ''system/etc/AudioPara4.csv''),
      rule 0x16d AID_ROOT AID_ROOT (Some ''system/etc/ppp/*''),
      rule 0x16d AID_ROOT AID_ROOT (Some ''system/etc/rc.*''),
      rule 0x1ed AID_ROOT AID_ROOT (Some ''system/addon.d/*''),
      rule 0x1a4 AID_SYSTEM AID_SYSTEM (Some ''data/app/*''),
      rule 0x1a4 AID_MEDIA_RW AID_MEDIA_RW (Some ''data/media/*''),
      rule 0x1a4 AID_SYSTEM AID_SYSTEM (Some ''data/app-private/*''),
      rule 0x1a4 AID_APP AID_APP (Some ''data/data/*''),
      rule 0x5ed AID_ROOT AID_NET_RAW (Some ''system/bin/ping''),
      rule 0x5e8 AID_ROOT AID_INET (Some ''system/bin/netcfg''),
      rule 0xded AID_ROOT AID_ROOT (Some ''system/xbin/su''),
      rule 0xded AID_ROOT AID_ROOT (Some ''system/xbin/librank''),
      rule 0xded AID_ROOT AID_ROOT (Some ''system/xbin/procrank''),
      rule 0xded AID_ROOT AID_ROOT (Some ''system/xbin/procmem''),
      rule 0xded AID_ROOT AID_ROOT (Some ''system/xbin/tcpdump''),
      rule 0x9f8 AID_ROOT AID_RADIO (Some ''system/bin/pppd-ril''),
      rule 0xde8 AID_ROOT AID_SHELL (Some ''system/bin/run-as''),
      rule 0xde8 AID_ROOT AID_SYSTEM (Some ''system/bin/rebootcmd''),
      rule 0x1ed AID_ROOT AID_SHELL (Some ''system/bin/*''),
      rule 0x1ed AID_ROOT AID_ROOT (Some ''system/lib/valgrind/*''),
      rule 0x1ed AID_ROOT AID_SHELL (Some ''system/xbin/*''),
      rule 0x1ed AID_ROOT AID_SHELL (Some ''system/vendor/bin/*''),
      rule 0x1e8 AID_ROOT AID_SHELL (Some ''sbin/*''),
      rule 0x1ed AID_ROOT AID_ROOT (Some ''bin/*''),
      rule 0x1e8 AID_ROOT AID_SHELL (Some ''init*''),
      rule 0x1e8 AID_ROOT AID_SHELL (Some ''charger*''),
      rule 0x1e8 AID_ROOT AID_SHELL (Some ''sbin/fs_mgr''),
      rule 0x1a0 AID_ROOT AID_SHELL (Some ''fstab.*''),
      rule 0x1ed AID_ROOT AID_SHELL (Some ''system/etc/init.d/*''),
      rule 0x1a4 AID_ROOT AID_ROOT None]"

text \<open>The names and the numbers determine each other.\<close>

lemma android_ids_unique: "distinct (map fst android_ids) \<and> distinct (map snd android_ids)"
  by (simp add: android_ids_def aid_defs)

text \<open>\<open>strncmp(s, t, n) == 0\<close>.\<close>

fun strncmp_eq :: "string \<Rightarrow> string \<Rightarrow> nat \<Rightarrow> bool" where
  "strncmp_eq s t 0 = True"
| "strncmp_eq [] [] (Suc n) = True"
| "strncmp_eq (c # s) (d # t) (Suc n) = (c = d \<and> strncmp_eq s t n)"
| "strncmp_eq _ _ (Suc n) = False"

text \<open>The loop of \<open>fs_config\<close>: the first rule that applies, or the one without a prefix that ends the table.\<close>

fun scan_rules :: "bool \<Rightarrow> string \<Rightarrow> fs_path_config list \<Rightarrow> fs_path_config res" where
  "scan_rules dir path [] = Inl (Fault OutOfBounds)"
| "scan_rules dir path (pc # rules) =
     (case rprefix pc of
        None \<Rightarrow> Inr pc
      | Some p \<Rightarrow>
          let plen = length path; len = length p in
          if dir then
            if plen < len then scan_rules dir path rules
            else if strncmp_eq p path len then Inr pc
            else scan_rules dir path rules
          else if len = 0 then Inl (Fault OutOfBounds)
          else if p ! (len - 1) = CHR ''*'' then
            if strncmp_eq p path (len - 1) then Inr pc else scan_rules dir path rules
          else if plen = len \<and> strncmp_eq p path len then Inr pc
          else scan_rules dir path rules)"

text \<open>The result is the user, the group and the new mode.\<close>

definition fs_config :: "string \<Rightarrow> bool \<Rightarrow> u32 \<Rightarrow> (nat \<times> nat \<times> u32) res" where
  "fs_config path dir mode =
     seq (scan_rules dir path (if dir then android_dirs else android_files)) (\<lambda>pc.
     Inr (ruid pc, rgid pc, mode AND NOT 0xfff OR rmode pc))"

section \<open>The first rule that covers the path\<close>

lemma strncmp_eq_take [simp]: "strncmp_eq s t n \<longleftrightarrow> take n s = take n t"
  by (induction s t n rule: strncmp_eq.induct) auto

text \<open>
  The contract of the tables: a rule for directories covers every path that starts with it; one
  for files the path itself or, when it ends in a star, every path that starts with what is before
  the star.
\<close>

definition covers :: "bool \<Rightarrow> string \<Rightarrow> fs_path_config \<Rightarrow> bool" where
  "covers dir path pc =
     (case rprefix pc of
        None \<Rightarrow> True
      | Some p \<Rightarrow>
          if dir then prefix p path
          else if last p = CHR ''*'' then prefix (butlast p) path
          else path = p)"

lemma prefix_take: "prefix p path \<longleftrightarrow> length p \<le> length path \<and> take (length p) path = p"
  by (auto simp: prefix_def) (metis append_take_drop_id)

lemma scan_rules_find:
  assumes "\<forall>pc\<in>set rules. rprefix pc \<noteq> Some []"
  shows "scan_rules dir path rules =
    (case find (covers dir path) rules of None \<Rightarrow> Inl (Fault OutOfBounds) | Some pc \<Rightarrow> Inr pc)"
  using assms
proof (induction rules)
  case (Cons pc rules)
  have "take (length p - 1) p = take (length p - 1) path \<longleftrightarrow> prefix (butlast p) path" for p
    by (auto simp: prefix_take butlast_conv_take) (metis length_take length_butlast butlast_conv_take min.absorb2 min.cobounded1 diff_le_self)+
  then show ?case
    using Cons
    by (cases "rprefix pc") (auto simp: covers_def Let_def prefix_take last_conv_nth)
qed simp

lemma tables_end: "\<exists>pc\<in>set (if dir then android_dirs else android_files). rprefix pc = None"
  by (simp add: android_dirs_def android_files_def rule_def)

lemma tables_prefix: "\<forall>pc\<in>set (if dir then android_dirs else android_files). rprefix pc \<noteq> Some []"
  by (simp add: android_dirs_def android_files_def rule_def)

lemma tables_find:
  obtains pc where "find (covers dir path) (if dir then android_dirs else android_files) = Some pc"
    "pc \<in> set (if dir then android_dirs else android_files)" "covers dir path pc"
proof -
  obtain pc where "find (covers dir path) (if dir then android_dirs else android_files) = Some pc"
    using tables_end [of dir] by (cases "find (covers dir path) (if dir then android_dirs else android_files)")
      (auto simp: find_None_iff covers_def)
  then show thesis using that by (metis find_Some_iff nth_mem)
qed

lemma fs_config_find:
  assumes "find (covers dir path) (if dir then android_dirs else android_files) = Some pc"
  shows "fs_config path dir mode = Inr (ruid pc, rgid pc, mode AND NOT 0xfff OR rmode pc)"
  using assms by (simp add: fs_config_def scan_rules_find [OF tables_prefix])

text \<open>
  \<open>fs_config\<close> gives a path the owner and the permissions of the first rule that covers it, for
  every path, and keeps the type bits of the mode: the loop never runs past its table.
\<close>

theorem fs_config_first_match:
  "\<exists>pc. find (covers dir path) (if dir then android_dirs else android_files) = Some pc \<and>
     fs_config path dir mode = Inr (ruid pc, rgid pc, mode AND NOT 0xfff OR rmode pc)"
  using tables_find [of dir path] fs_config_find by metis

section \<open>Files with the set-user-id bit\<close>

definition setuid_files :: "string list" where
  "setuid_files = [''system/xbin/su'', ''system/xbin/librank'', ''system/xbin/procrank'', ''system/xbin/procmem'',
     ''system/xbin/tcpdump'', ''system/bin/pppd-ril'', ''system/bin/run-as'', ''system/bin/rebootcmd'']"

lemma setuid_bit: "((m :: u32) AND NOT 0xfff OR r) AND 0x800 = r AND 0x800"
  by (simp add: bit.conj_disj_distrib2 and.assoc)

lemma dirs_not_setuid: "\<forall>pc\<in>set android_dirs. rmode pc AND 0x800 = 0"
  by (simp add: android_dirs_def rule_def)

lemma files_setuid:
  "\<forall>pc\<in>set android_files. rmode pc AND 0x800 \<noteq> 0 \<longrightarrow>
     rprefix pc \<in> Some ` set setuid_files \<and> ruid pc = AID_ROOT"
  by (simp add: android_files_def rule_def setuid_files_def)

lemma setuid_no_star: "\<forall>p\<in>set setuid_files. last p \<noteq> CHR ''*''"
  by (simp add: setuid_files_def)

text \<open>
  The set-user-id bit is only ever given to the eight files the table lists for it, and never to a
  directory; a prefix or a wildcard gives it to no other path.
\<close>

theorem fs_config_setuid_only_listed:
  assumes "fs_config path dir mode = Inr (u, g, m)" and "m AND 0x800 \<noteq> 0"
  shows "\<not> dir \<and> u = AID_ROOT \<and> path \<in> set setuid_files"
proof -
  obtain pc where pc: "find (covers dir path) (if dir then android_dirs else android_files) = Some pc"
    "pc \<in> set (if dir then android_dirs else android_files)" "covers dir path pc"
    by (rule tables_find)
  from fs_config_find [OF pc(1), of mode] assms have r: "rmode pc AND 0x800 \<noteq> 0" "u = ruid pc"
    using setuid_bit [of mode "rmode pc"] by auto
  with pc(2) dirs_not_setuid have d: "\<not> dir" by auto
  with r pc(2) files_setuid obtain p where "rprefix pc = Some p" "p \<in> set setuid_files" "ruid pc = AID_ROOT"
    by fastforce
  with pc(3) d r setuid_no_star show ?thesis by (auto simp: covers_def)
qed

theorem fs_config_setuid_only_listed_witness:
  "fs_config ''system/xbin/su'' False 0x8000 = Inr (AID_ROOT, AID_ROOT, 0x8ded) \<and>
   ''system/xbin/su'' \<in> set setuid_files"
proof -
  have f: "fs_config ''system/xbin/su'' False 0x8000 = Inr (AID_ROOT, AID_ROOT, 0x8ded)"
    by (simp add: fs_config_def android_files_def rule_def Let_def numeral_eq_Suc)
  from fs_config_setuid_only_listed [OF f] show ?thesis using f by simp
qed

section \<open>Rules that are never reached\<close>

lemma covers_dir_mono:
  "rprefix pc = Some p \<Longrightarrow> rprefix qc = Some q \<Longrightarrow> prefix p q \<Longrightarrow> covers True path qc \<Longrightarrow> covers True path pc"
  by (auto simp: covers_def intro: prefix_order.trans)

lemma find_before: "find P (pre @ x # post) = Some y \<Longrightarrow> P x \<Longrightarrow> y = x \<or> y \<in> set pre"
  by (induction pre) (auto split: if_splits)

text \<open>
  The directory table is not sorted the way its comment asks for: \<open>data/misc\<close> stands before
  \<open>data/misc/dhcp\<close>, so the rule for the DHCP client is never used, and no directory is given to it.
\<close>

theorem fs_config_dhcp_unreachable: "fs_config path True mode \<noteq> Inr (u, AID_DHCP, m)"
proof -
  obtain pc where pc: "find (covers True path) android_dirs = Some pc" "pc \<in> set android_dirs" "covers True path pc"
    using tables_find [of True path] by auto
  let ?dhcp = "rule 0x1f8 AID_DHCP AID_DHCP (Some ''data/misc/dhcp'')"
  let ?misc = "rule 0x3f9 AID_SYSTEM AID_MISC (Some ''data/misc'')"
  have "\<forall>r\<in>set android_dirs. rgid r = AID_DHCP \<longrightarrow> r = ?dhcp"
    by (simp add: android_dirs_def rule_def aid_defs)
  moreover have "pc \<noteq> ?dhcp"
  proof
    assume d: "pc = ?dhcp"
    have "covers True path ?misc"
      by (rule covers_dir_mono [OF _ _ _ pc(3) [unfolded d]]) (simp_all add: rule_def, rule prefixI [of _ _ "''/dhcp''"], simp)
    moreover obtain pre post where "android_dirs = pre @ ?misc # post" "?dhcp \<notin> set pre"
      by (rule that [of "take 7 android_dirs" "drop 8 android_dirs"]) (simp_all add: android_dirs_def rule_def aid_defs)
    ultimately show False
      using pc(1) d find_before [of "covers True path" pre ?misc post ?dhcp] by (auto simp: rule_def aid_defs)
  qed
  ultimately show ?thesis using fs_config_find [of True path pc mode] pc by auto
qed

end
