(* ===== verification/Zip.thy ===== *)
theory Zip
  imports Prelude
begin

text \<open>
  Reading zip archives (\<open>src/centraldir.c\<close>, \<open>src/zipfile.c\<close>). The archive is one array in memory; a pointer into it
  is the offset from its start, a 32-bit number as on the target, so that offsets taken from
  the archive wrap round as they do there. Every byte that is read must lie in the array.
  Decompression is done by zlib, which is an argument.
\<close>

section \<open>Bytes and numbers\<close>

definition byte_at :: "byte list \<Rightarrow> u32 \<Rightarrow> byte res" where
  "byte_at buf p = (if unat p < length buf then Inr (buf ! unat p) else Inl (Fault OutOfBounds))"

fun bytes_at :: "nat \<Rightarrow> byte list \<Rightarrow> u32 \<Rightarrow> byte list res" where
  "bytes_at 0 buf p = Inr []"
| "bytes_at (Suc n) buf p = seq (byte_at buf p) (\<lambda>b. seq (bytes_at n buf (p + 1)) (\<lambda>bs. Inr (b # bs)))"

definition read_le_int :: "byte list \<Rightarrow> u32 \<Rightarrow> u32 res" where
  "read_le_int buf p = seq (bytes_at 4 buf p) (\<lambda>bs. Inr (of_le32 bs))"

definition read_le_short :: "byte list \<Rightarrow> u32 \<Rightarrow> u32 res" where
  "read_le_short buf p = seq (bytes_at 2 buf p) (\<lambda>bs. Inr (of_le16 bs))"

definition CD_SIGNATURE :: u32 where "CD_SIGNATURE = 0x06054b50"
definition EOCD_LEN :: nat where "EOCD_LEN = 22"
definition MAX_EOCD_SEARCH :: nat where "MAX_EOCD_SEARCH = 65535 + EOCD_LEN"
definition ENTRY_SIGNATURE :: u32 where "ENTRY_SIGNATURE = 0x02014b50"
definition ENTRY_LEN :: nat where "ENTRY_LEN = 46"
definition LFH_SIZE :: nat where "LFH_SIZE = 30"

section \<open>Archives\<close>

record zipentry =
  fileNameLength :: u32
  fileName :: "u32 option"
  compressionMethod :: u32
  uncompressedSize :: u32
  compressedSize :: u32
  zdata :: u32

text \<open>\<open>entries\<close> is the linked list, from its head.\<close>

record zipfile =
  zbuf :: "byte list"
  disknum :: u32
  diskWithCentralDir :: u32
  entryCount :: u32
  totalEntryCount :: u32
  centralDirSize :: u32
  centralDirOffest :: u32
  commentLen :: u32
  comment :: "u32 option"
  entries :: "zipentry list"

text \<open>The results \<open>None\<close> stand for the return value -1.\<close>

definition read_central_dir_values :: "zipfile \<Rightarrow> u32 \<Rightarrow> int \<Rightarrow> zipfile option res" where
  "read_central_dir_values file p len =
     (if len < int EOCD_LEN then Inr None
      else
        seq (read_le_short (zbuf file) (p + 0x04)) (\<lambda>d.
        seq (read_le_short (zbuf file) (p + 0x06)) (\<lambda>dc.
        seq (read_le_short (zbuf file) (p + 0x08)) (\<lambda>n.
        seq (read_le_short (zbuf file) (p + 0x0a)) (\<lambda>t.
        seq (read_le_int (zbuf file) (p + 0x0c)) (\<lambda>sz.
        seq (read_le_int (zbuf file) (p + 0x10)) (\<lambda>off.
        seq (read_le_short (zbuf file) (p + 0x14)) (\<lambda>c.
        let file = file\<lparr>disknum := d, diskWithCentralDir := dc, entryCount := n, totalEntryCount := t,
              centralDirSize := sz, centralDirOffest := off, commentLen := c\<rparr> in
        if c = 0 then Inr (Some file)
        else if int EOCD_LEN + uint c > len then Inr None
        else Inr (Some (file\<lparr>comment := Some (p + of_nat EOCD_LEN)\<rparr>))))))))))"

text \<open>
  One entry at \<open>p\<close>, with the position behind it. The remaining length \<open>len\<close> is tested but not
  changed. Fields that are read into unused variables lie between the others.
\<close>

definition read_central_directory_entry :: "zipfile \<Rightarrow> u32 \<Rightarrow> int \<Rightarrow> (zipentry \<times> u32) option res" where
  "read_central_directory_entry file p len =
     (if len < int ENTRY_LEN then Inr None
      else
        seq (read_le_int (zbuf file) p) (\<lambda>sig.
        if sig \<noteq> ENTRY_SIGNATURE then Inr None
        else
          seq (read_le_short (zbuf file) (p + 0x0a)) (\<lambda>m.
          seq (read_le_int (zbuf file) (p + 0x14)) (\<lambda>csize.
          seq (read_le_int (zbuf file) (p + 0x18)) (\<lambda>usize.
          seq (read_le_short (zbuf file) (p + 0x1c)) (\<lambda>nl.
          seq (read_le_short (zbuf file) (p + 0x1e)) (\<lambda>xl.
          seq (read_le_short (zbuf file) (p + 0x20)) (\<lambda>cl.
          seq (read_le_int (zbuf file) (p + 0x2a)) (\<lambda>off.
          let name = p + of_nat ENTRY_LEN; q = name + nl + xl + cl in
          seq (read_le_short (zbuf file) (off + 0x1c)) (\<lambda>lxl.
          Inr (Some (\<lparr>fileNameLength = nl, fileName = if nl \<noteq> 0 then Some name else None, compressionMethod = m,
            uncompressedSize = usize, compressedSize = csize,
            zdata = off + of_nat LFH_SIZE + nl + lxl\<rparr>, q))))))))))))"

text \<open>The search for the end of the directory, backwards from \<open>p\<close>.\<close>

fun scan_eocd :: "byte list \<Rightarrow> nat \<Rightarrow> nat \<Rightarrow> nat option res" where
  "scan_eocd buf start p =
     (if p < start then Inr None
      else
        seq (byte_at buf (of_nat p)) (\<lambda>b.
        seq (if b = 0x50 then read_le_int buf (of_nat p) else Inr 0) (\<lambda>sig.
        if sig = CD_SIGNATURE then Inr (Some p)
        else case p of 0 \<Rightarrow> Inr None | Suc q \<Rightarrow> scan_eocd buf start q)))"

declare scan_eocd.simps [simp del]

fun read_entries :: "nat \<Rightarrow> u32 \<Rightarrow> int \<Rightarrow> zipfile \<Rightarrow> zipfile option res" where
  "read_entries 0 p len file = Inr (Some file)"
| "read_entries (Suc n) p len file =
     seq (read_central_directory_entry file p len) (\<lambda>r.
     case r of
       None \<Rightarrow> Inr None
     | Some (e, q) \<Rightarrow> read_entries n q len (file\<lparr>entries := e # entries file\<rparr>))"

definition read_central_dir :: "zipfile \<Rightarrow> zipfile option res" where
  "read_central_dir file =
     (let buf = zbuf file; bufsize = length buf in
      if bufsize < EOCD_LEN then Inr None
      else
        let start = (if bufsize > MAX_EOCD_SEARCH then bufsize - MAX_EOCD_SEARCH else 0) in
        seq (scan_eocd buf start (bufsize - 4)) (\<lambda>r.
        case r of
          None \<Rightarrow> Inr None
        | Some eocd \<Rightarrow>
            seq (read_central_dir_values file (of_nat eocd) (int bufsize - int eocd)) (\<lambda>r.
            case r of
              None \<Rightarrow> Inr None
            | Some file \<Rightarrow>
                if disknum file \<noteq> 0 \<or> diskWithCentralDir file \<noteq> 0 \<or> entryCount file \<noteq> totalEntryCount file
                then Inr None
                else
                  let p = centralDirOffest file; len = sint (of_nat bufsize - p) in
                  read_entries (unat (totalEntryCount file)) p len file)))"

definition init_zipfile :: "byte list \<Rightarrow> zipfile option res" where
  "init_zipfile data =
     read_central_dir \<lparr>zbuf = data, disknum = 0, diskWithCentralDir = 0, entryCount = 0, totalEntryCount = 0,
       centralDirSize = 0, centralDirOffest = 0, commentLen = 0, comment = None, entries = []\<rparr>"

section \<open>Using an archive\<close>

text \<open>
  \<open>memcmp(name, buf + p, n) == 0\<close> for a C string, whose list includes the final zero byte: the
  comparison stops at the first difference.
\<close>

fun same_bytes :: "byte list \<Rightarrow> byte list \<Rightarrow> u32 \<Rightarrow> nat \<Rightarrow> bool res" where
  "same_bytes name buf p 0 = Inr True"
| "same_bytes name buf p (Suc n) =
     (case name of
        [] \<Rightarrow> Inl (Fault OutOfBounds)
      | c # cs \<Rightarrow> seq (byte_at buf p) (\<lambda>b. if c = b then same_bytes cs buf (p + 1) n else Inr False))"

definition matches_name :: "byte list \<Rightarrow> byte list \<Rightarrow> zipentry \<Rightarrow> bool res" where
  "matches_name name buf e =
     (case fileName e of
        None \<Rightarrow> if fileNameLength e = 0 then Inr True else Inl (Fault NullDeref)
      | Some p \<Rightarrow> same_bytes (name @ [0]) buf p (unat (fileNameLength e)))"

fun lookup_from :: "byte list \<Rightarrow> byte list \<Rightarrow> zipentry list \<Rightarrow> zipentry option res" where
  "lookup_from name buf [] = Inr None"
| "lookup_from name buf (e # es) =
     seq (matches_name name buf e) (\<lambda>hit. if hit then Inr (Some e) else lookup_from name buf es)"

definition lookup_zipentry :: "zipfile \<Rightarrow> byte list \<Rightarrow> zipentry option res" where
  "lookup_zipentry file name = lookup_from name (zbuf file) (entries file)"

definition get_zipentry_size :: "zipentry \<Rightarrow> u32" where
  "get_zipentry_size e = uncompressedSize e"

definition get_zipentry_name :: "zipfile \<Rightarrow> zipentry \<Rightarrow> byte list res" where
  "get_zipentry_name file e =
     (case fileName e of
        None \<Rightarrow> if fileNameLength e = 0 then Inr [] else Inl (Fault NullDeref)
      | Some p \<Rightarrow> bytes_at (unat (fileNameLength e)) (zbuf file) p)"

text \<open>
  \<open>decompress_zipentry\<close> into a buffer of the given size. zlib gets the compressed bytes and the room,
  and returns the bytes it produced if the stream was complete.
\<close>

definition STORED :: u32 where "STORED = 0"
definition DEFLATED :: u32 where "DEFLATED = 8"

definition decompress_zipentry ::
  "(byte list \<Rightarrow> nat \<Rightarrow> byte list option) \<Rightarrow> zipfile \<Rightarrow> zipentry \<Rightarrow> nat \<Rightarrow> byte list option res" where
  "decompress_zipentry inflate file e bufsize =
     (if compressionMethod e = STORED then
        seq (bytes_at (unat (uncompressedSize e)) (zbuf file) (zdata e)) (\<lambda>bs.
        if length bs \<le> bufsize then Inr (Some bs) else Inl (Fault OutOfBounds))
      else if compressionMethod e = DEFLATED then
        seq (bytes_at (unat (compressedSize e)) (zbuf file) (zdata e)) (\<lambda>bs. Inr (inflate bs bufsize))
      else Inr None)"

text \<open>\<open>iterate_zipfile\<close>: the cookie is the rest of the list, \<open>None\<close> before the first call and after the last.\<close>

definition iterate_zipfile :: "zipfile \<Rightarrow> zipentry list option \<Rightarrow> zipentry option \<times> zipentry list option" where
  "iterate_zipfile file cookie =
     (let rest = (case cookie of None \<Rightarrow> entries file | Some es \<Rightarrow> tl es) in
      case rest of [] \<Rightarrow> (None, None) | e # _ \<Rightarrow> (Some e, Some rest))"

end
