(* ===== verification/Zip_Roundtrip.thy ===== *)
theory Zip_Roundtrip
  imports Zip
begin

text \<open>
  An archive laid out as the format prescribes is read back completely: every entry with its
  name and contents. The flaws of the reader are recorded as theorems: names are looked up by
  prefix, and offsets in the directory are followed without a check.
\<close>

section \<open>The format\<close>

text \<open>
  A file: its name and its contents, whether they are compressed, and the fields that a writer may add: extra
  bytes behind the local header, extra bytes and a comment behind the entry of the directory.
\<close>

record zfile =
  zname :: "byte list"
  zcontents :: "byte list"
  zdeflated :: bool
  zlocal_extra :: "byte list"
  zextra :: "byte list"
  zremark :: "byte list"

text \<open>A writer: any checksum, which the reader ignores, the compression, and the comment of the archive.\<close>

record zwriter =
  zcrc :: "byte list \<Rightarrow> u32"
  zdeflate :: "byte list \<Rightarrow> byte list"
  zcomment :: "byte list"

definition packed :: "zwriter \<Rightarrow> zfile \<Rightarrow> byte list" where
  "packed wr f = (if zdeflated f then zdeflate wr (zcontents f) else zcontents f)"

definition zmethod :: "zfile \<Rightarrow> nat" where
  "zmethod f = (if zdeflated f then 8 else 0)"

definition local_header :: "zwriter \<Rightarrow> zfile \<Rightarrow> byte list" where
  "local_header wr f =
     le32 0x04034b50 @ le16 20 @ le16 0 @ le16 (zmethod f) @ le16 0 @ le16 0 @ le32 (zcrc wr (zcontents f)) @
     le32 (of_nat (length (packed wr f))) @ le32 (of_nat (length (zcontents f))) @
     le16 (length (zname f)) @ le16 (length (zlocal_extra f))"

definition local_file :: "zwriter \<Rightarrow> zfile \<Rightarrow> byte list" where
  "local_file wr f = local_header wr f @ zname f @ zlocal_extra f @ packed wr f"

definition dir_header :: "zwriter \<Rightarrow> u32 \<Rightarrow> zfile \<Rightarrow> byte list" where
  "dir_header wr off f =
     le32 ENTRY_SIGNATURE @ le16 20 @ le16 20 @ le16 0 @ le16 (zmethod f) @ le16 0 @ le16 0 @ le32 (zcrc wr (zcontents f)) @
     le32 (of_nat (length (packed wr f))) @ le32 (of_nat (length (zcontents f))) @ le16 (length (zname f)) @
     le16 (length (zextra f)) @ le16 (length (zremark f)) @ le16 0 @ le16 0 @ le32 0 @ le32 off"

definition dir_entry :: "zwriter \<Rightarrow> u32 \<Rightarrow> zfile \<Rightarrow> byte list" where
  "dir_entry wr off f = dir_header wr off f @ zname f @ zextra f @ zremark f"

fun directory :: "zwriter \<Rightarrow> nat \<Rightarrow> zfile list \<Rightarrow> byte list" where
  "directory wr off [] = []"
| "directory wr off (f # fs) = dir_entry wr (of_nat off) f @ directory wr (off + length (local_file wr f)) fs"

definition end_record :: "nat \<Rightarrow> nat \<Rightarrow> nat \<Rightarrow> byte list \<Rightarrow> byte list" where
  "end_record n sz off c =
     le32 CD_SIGNATURE @ le16 0 @ le16 0 @ le16 n @ le16 n @ le32 (of_nat sz) @ le32 (of_nat off) @ le16 (length c) @ c"

definition locals :: "zwriter \<Rightarrow> zfile list \<Rightarrow> byte list" where
  "locals wr fs = concat (map (local_file wr) fs)"

definition zip_bytes :: "zwriter \<Rightarrow> zfile list \<Rightarrow> byte list" where
  "zip_bytes wr fs =
     locals wr fs @ directory wr 0 fs @
     end_record (length fs) (length (directory wr 0 fs)) (length (locals wr fs)) (zcomment wr)"

lemma format_lengths [simp]:
  "length (local_header wr f) = 30" "length (dir_header wr off f) = 46" "length (end_record n sz i c) = 22 + length c"
  by (simp_all add: local_header_def dir_header_def end_record_def)

text \<open>
  What the fields can hold; and the signature of the end record, which the reader looks for from the end, is not in the
  comment.
\<close>

definition zfile_ok :: "zfile \<Rightarrow> bool" where
  "zfile_ok f \<longleftrightarrow> length (zname f) < 65536 \<and> length (zlocal_extra f) < 65536 \<and> length (zextra f) < 65536 \<and>
     length (zremark f) < 65536"

definition comment_ok :: "byte list \<Rightarrow> bool" where
  "comment_ok c \<longleftrightarrow> length c < 0x4b00 \<and> (\<forall>j < length c. take 4 (drop j c) \<noteq> [0x50, 0x4b, 0x05, 0x06])"

section \<open>Reading inside the archive\<close>

lemma unat_add_small: "unat p + n < 2 ^ 32 \<Longrightarrow> unat (p + of_nat n :: u32) = unat p + n"
  by (simp add: unat_word_ariths unsigned_of_nat take_bit_nat_eq_self unat_u32)

lemma bytes_at_inside:
  "unat p + n \<le> length buf \<Longrightarrow> length buf < 2 ^ 32 \<Longrightarrow> bytes_at n buf p = Inr (take n (drop (unat p) buf))"
proof (induction n buf p rule: bytes_at.induct)
  case (2 n buf p)
  then have l: "unat p < length buf" by simp
  have "unat (p + 1) = unat p + 1" using unat_add_small [of p 1] 2 by simp
  with 2 l show ?case by (simp add: byte_at_def Cons_nth_drop_Suc [symmetric])
qed simp

text \<open>An object \<open>xs\<close> at offset \<open>length pre\<close> of the archive.\<close>

definition object_at :: "byte list \<Rightarrow> nat \<Rightarrow> byte list \<Rightarrow> bool" where
  "object_at buf i xs \<longleftrightarrow> length buf < 2 ^ 31 \<and> (\<exists>pre post. buf = pre @ xs @ post \<and> length pre = i)"

lemma object_bytes:
  assumes "object_at buf i xs" and "j + n \<le> length xs"
  shows "bytes_at n buf (of_nat (i + j)) = Inr (take n (drop j xs))"
proof -
  from assms(1) obtain pre post where b: "buf = pre @ xs @ post" "length pre = i" "length buf < 2 ^ 31"
    by (auto simp: object_at_def)
  with assms(2) have "i + j < 2 ^ 32" by simp
  then have u: "unat (of_nat (i + j) :: u32) = i + j" by (rule unat_u32)
  have "bytes_at n buf (of_nat (i + j)) = Inr (take n (drop (i + j) buf))"
    using bytes_at_inside [of "of_nat (i + j)" n buf] u b assms(2) by simp
  with b assms(2) show ?thesis by simp
qed

lemma object_short:
  assumes "object_at buf i xs" and "numeral k + 2 \<le> length xs"
  shows "read_le_short buf (of_nat i + numeral k) = Inr (of_le16 (take 2 (drop (numeral k) xs)))"
  using object_bytes [OF assms] by (simp add: read_le_short_def)

lemma object_int:
  assumes "object_at buf i xs" and "numeral k + 4 \<le> length xs"
  shows "read_le_int buf (of_nat i + numeral k) = Inr (of_le32 (take 4 (drop (numeral k) xs)))"
  using object_bytes [OF assms] by (simp add: read_le_int_def)

lemma object_int_start:
  assumes "object_at buf i xs" and "4 \<le> length xs"
  shows "read_le_int buf (of_nat i) = Inr (of_le32 (take 4 xs))"
  using object_bytes [of buf i xs 0 4] assms by (simp add: read_le_int_def)

lemma object_part: "object_at buf i (xs @ ys) \<Longrightarrow> object_at buf i xs" "object_at buf i (xs @ ys) \<Longrightarrow> object_at buf (i + length xs) ys"
  unfolding object_at_def by (force intro: exI [of _ "pre @ xs" for pre])+

lemma of_le16_le16_Nil [simp]: "n < 65536 \<Longrightarrow> of_le16 (le16 n) = of_nat n"
  using of_le16_le16 [of n "[]"] by simp

lemma of_le16_le16_0 [simp]: "of_le16 (le16 0) = 0"
  using of_le16_le16_Nil [of 0] by simp


section \<open>Finding the end record\<close>

lemma object_byte:
  assumes "object_at buf i xs" and "j < length xs"
  shows "byte_at buf (of_nat (i + j)) = Inr (xs ! j)"
proof -
  have "bytes_at 1 buf (of_nat (i + j)) = Inr (take 1 (drop j xs))"
    by (rule object_bytes) (use assms in simp_all)
  with assms(2) show ?thesis
    by (cases "byte_at buf (of_nat (i + j))") (simp_all add: Cons_nth_drop_Suc [symmetric])
qed

lemma object_int_at:
  assumes "object_at buf i xs" and "j + 4 \<le> length xs"
  shows "read_le_int buf (of_nat (i + j)) = Inr (of_le32 (take 4 (drop j xs)))"
  using object_bytes [OF assms] by (simp add: read_le_int_def)

lemma signature_bytes: "length bs = 4 \<Longrightarrow> of_le32 bs = CD_SIGNATURE \<longleftrightarrow> bs = [0x50, 0x4b, 0x05, 0x06]"
  using le32_of_le32 [of bs] by (auto simp: CD_SIGNATURE_def le32_def)

lemma scan_step:
  assumes "object_at buf i xs" and "j + 4 \<le> length xs" and "start \<le> i + j"
    and "take 4 (drop j xs) \<noteq> [0x50, 0x4b, 0x05, 0x06]" and "0 < i + j"
  shows "scan_eocd buf start (i + j) = scan_eocd buf start (i + j - 1)"
proof -
  have "byte_at buf (of_nat (i + j)) = Inr (xs ! j)"
    by (rule object_byte) (use assms in simp_all)
  moreover have "read_le_int buf (of_nat (i + j)) = Inr (of_le32 (take 4 (drop j xs)))"
    by (rule object_int_at) (use assms in simp_all)
  moreover have "of_le32 (take 4 (drop j xs)) \<noteq> CD_SIGNATURE"
    using assms(2,4) by (subst signature_bytes) simp_all
  moreover have "(0 :: u32) \<noteq> CD_SIGNATURE" by (simp add: CD_SIGNATURE_def)
  ultimately show ?thesis
    using assms(3,5) by (subst scan_eocd.simps) (auto split: nat.split)
qed

lemma scan_skip:
  assumes "object_at buf i xs" and "k + 4 \<le> length xs" and "start \<le> i"
    and "\<And>j. 0 < j \<Longrightarrow> j \<le> k \<Longrightarrow> take 4 (drop j xs) \<noteq> [0x50, 0x4b, 0x05, 0x06]"
  shows "scan_eocd buf start (i + k) = scan_eocd buf start i"
  using assms(2,4)
proof (induction k)
  case (Suc k)
  have "scan_eocd buf start (i + Suc k) = scan_eocd buf start (i + Suc k - 1)"
    by (rule scan_step [OF assms(1)]) (use Suc.prems assms(3) in simp_all)
  also have "\<dots> = scan_eocd buf start i" using Suc by simp
  finally show ?case .
qed simp

lemma high_byte_0: "n < 2 ^ 24 \<Longrightarrow> ucast (drop_bit 24 (of_nat n :: u32)) = (0 :: byte)"
proof -
  assume "n < 2 ^ 24"
  then have "unat (drop_bit 24 (of_nat n :: u32)) = 0"
    by (simp only: unat_drop_bit_eq) (simp add: unat_u32 drop_bit_eq_div)
  then show ?thesis by (simp add: unat_eq_0)
qed

lemma high_byte_neq: "n < 0x4b00 \<Longrightarrow> b \<in> {0x4b, 0x50} \<Longrightarrow> (of_nat (n div 256) :: byte) \<noteq> b"
proof -
  assume n: "n < 0x4b00" and b: "b \<in> {0x4b, 0x50}"
  from n have "unat (of_nat (n div 256) :: byte) = n div 256"
    by (simp add: unsigned_of_nat take_bit_nat_eq_self)
  moreover have "n div 256 < 0x4b" using n by simp
  ultimately show ?thesis using b by auto
qed

lemma record_window:
  assumes "n < 0x4b00" and "sz < 2 ^ 24" and "off < 2 ^ 24" and "length c < 0x4b00" and "0 < j" and "j < 22"
  shows "take 4 (drop j (end_record n sz off c)) \<noteq> [0x50, 0x4b, 0x05, 0x06]"
proof -
  have "j \<in> {1, 2, 3, 4, 5, 6, 7, 8, 9, 10, 11, 12, 13, 14, 15, 16, 17, 18, 19, 20, 21}"
    using assms(5,6) unfolding insert_iff empty_iff by presburger
  moreover have "of_nat (n div 256) \<noteq> (0x4b :: byte)" "of_nat (n div 256) \<noteq> (0x50 :: byte)"
    "of_nat (length c div 256) \<noteq> (0x4b :: byte)" "of_nat (length c div 256) \<noteq> (0x50 :: byte)"
    using high_byte_neq [OF assms(1)] high_byte_neq [OF assms(4)] by simp_all
  ultimately show ?thesis
    using high_byte_0 [OF assms(2)] high_byte_0 [OF assms(3)]
    by (elim insertE emptyE) (simp_all add: end_record_def le16_def le32_def CD_SIGNATURE_def)
qed

lemma end_record_unique:
  assumes "n < 0x4b00" and "sz < 2 ^ 24" and "off < 2 ^ 24" and "comment_ok c" and "0 < j" and "j \<le> 18 + length c"
  shows "take 4 (drop j (end_record n sz off c)) \<noteq> [0x50, 0x4b, 0x05, 0x06]"
proof (cases "j < 22")
  case True
  then show ?thesis using record_window [of n sz off c j] assms by (simp add: comment_ok_def)
next
  case False
  have "drop j (end_record n sz off c) = drop (j - 22) c"
  proof -
    let ?r = "le32 CD_SIGNATURE @ le16 0 @ le16 0 @ le16 n @ le16 n @ le32 (of_nat sz) @ le32 (of_nat off) @ le16 (length c)"
    have "end_record n sz off c = ?r @ c" "length ?r = 22" by (simp_all add: end_record_def)
    then show ?thesis using False by (simp only: drop_append) simp
  qed
  moreover have "j - 22 < length c" using False assms(6) by simp
  ultimately show ?thesis using assms(4) by (auto simp: comment_ok_def)
qed

lemma scan_finds:
  assumes o: "object_at buf i (end_record n sz off c)" and l: "length buf = i + 22 + length c"
    and "n < 0x4b00" "sz < 2 ^ 24" "off < 2 ^ 24" "comment_ok c" and s: "start \<le> i"
  shows "scan_eocd buf start (length buf - 4) = Inr (Some i)"
proof -
  have "length buf - 4 = i + (18 + length c)" using l by simp
  then have "scan_eocd buf start (length buf - 4) = scan_eocd buf start (i + (18 + length c))" by (simp only:)
  also have "\<dots> = scan_eocd buf start i"
    by (rule scan_skip [OF o]) (use s end_record_unique assms in auto)
  also have "\<dots> = Inr (Some i)"
    using object_byte [OF o, of 0] object_int_at [OF o, of 0] s
    by (subst scan_eocd.simps) (simp add: end_record_def CD_SIGNATURE_def le32_def)
  finally show ?thesis .
qed

section \<open>Reading the directory\<close>

text \<open>\<open>entry_of buf e f\<close>: the entry \<open>e\<close> describes the file \<open>f\<close>, whose name and contents are in the archive.\<close>

definition entry_of :: "zwriter \<Rightarrow> byte list \<Rightarrow> zipentry \<Rightarrow> zfile \<Rightarrow> bool" where
  "entry_of wr buf e f \<longleftrightarrow>
     length (zname f) < 65536 \<and> fileNameLength e = of_nat (length (zname f)) \<and>
     (if zname f = [] then fileName e = None else \<exists>a. fileName e = Some (of_nat a) \<and> object_at buf a (zname f)) \<and>
     compressionMethod e = (if zdeflated f then DEFLATED else STORED) \<and>
     uncompressedSize e = of_nat (length (zcontents f)) \<and> compressedSize e = of_nat (length (packed wr f)) \<and>
     (\<exists>a. zdata e = of_nat a \<and> object_at buf a (packed wr f))"

lemma object_small: "object_at buf i xs \<Longrightarrow> i + length xs < 2 ^ 31"
  by (auto simp: object_at_def)

lemma object_whole:
  assumes "object_at buf a xs" shows "bytes_at (length xs) buf (of_nat a) = Inr xs"
  using object_bytes [OF assms, of 0 "length xs"] by simp

lemma of_nat_u32_0: "n < 2 ^ 32 \<Longrightarrow> of_nat n = (0 :: u32) \<longleftrightarrow> n = 0"
  using unat_u32 [of n] by auto

lemma entry_name:
  assumes e: "entry_of wr (zbuf z) e f" shows "get_zipentry_name z e = Inr (zname f)"
proof (cases "zname f = []")
  case False
  with e obtain a where a: "fileName e = Some (of_nat a)" "object_at (zbuf z) a (zname f)"
    "fileNameLength e = of_nat (length (zname f))" "length (zname f) < 65536"
    by (auto simp: entry_of_def)
  then show ?thesis using object_whole [OF a(2)] by (simp add: get_zipentry_name_def unat_u32)
qed (use e in \<open>simp add: entry_of_def get_zipentry_name_def\<close>)

lemma entry_contents:
  assumes e: "entry_of wr (zbuf z) e f" and "length (zcontents f) \<le> bufsize"
    and "zdeflated f \<longrightarrow> inflate (zdeflate wr (zcontents f)) bufsize = Some (zcontents f)"
  shows "decompress_zipentry inflate z e bufsize = Inr (Some (zcontents f))"
proof -
  from e obtain a where a: "zdata e = of_nat a" "object_at (zbuf z) a (packed wr f)"
    "compressionMethod e = (if zdeflated f then DEFLATED else STORED)" "uncompressedSize e = of_nat (length (zcontents f))"
    "compressedSize e = of_nat (length (packed wr f))"
    by (auto simp: entry_of_def)
  from object_small [OF a(2)] have "unat (of_nat (length (packed wr f)) :: u32) = length (packed wr f)"
    by (intro unat_u32) simp
  with a object_whole [OF a(2)] assms(2,3) show ?thesis
    by (cases "zdeflated f") (simp_all add: decompress_zipentry_def packed_def STORED_def DEFLATED_def)
qed

lemma local_extra:
  assumes "object_at buf a (local_file wr f)" and "length (zlocal_extra f) < 65536"
  shows "read_le_short buf (of_nat a + 0x1c) = Inr (of_nat (length (zlocal_extra f)))"
proof -
  have o: "object_at buf a (local_header wr f)" using assms object_part(1) by (simp add: local_file_def)
  have "of_le16 (take 2 (drop 28 (local_header wr f))) = of_nat (length (zlocal_extra f))"
    using assms(2) by (simp add: local_header_def)
  then show ?thesis by (simp add: object_short [OF o])
qed

lemma dir_header_fields:
  assumes "object_at buf i (dir_header wr off f)" and "zfile_ok f"
  shows "read_le_int buf (of_nat i) = Inr ENTRY_SIGNATURE"
    "read_le_short buf (of_nat i + 0x0a) = Inr (if zdeflated f then DEFLATED else STORED)"
    "read_le_int buf (of_nat i + 0x14) = Inr (of_nat (length (packed wr f)))"
    "read_le_int buf (of_nat i + 0x18) = Inr (of_nat (length (zcontents f)))"
    "read_le_short buf (of_nat i + 0x1c) = Inr (of_nat (length (zname f)))"
    "read_le_short buf (of_nat i + 0x1e) = Inr (of_nat (length (zextra f)))"
    "read_le_short buf (of_nat i + 0x20) = Inr (of_nat (length (zremark f)))"
    "read_le_int buf (of_nat i + 0x2a) = Inr off"
  using assms
  by (simp_all add: object_int_start [OF assms(1)] object_int [OF assms(1)] object_short [OF assms(1)])
    (simp_all add: dir_header_def STORED_def DEFLATED_def zmethod_def zfile_ok_def)

lemma read_entry:
  assumes d: "object_at (zbuf z) i (dir_entry wr (of_nat off) f)"
    and l: "object_at (zbuf z) off (local_file wr f)" and n: "zfile_ok f" and len: "46 \<le> len"
  shows "\<exists>e. read_central_directory_entry z (of_nat i) len =
      Inr (Some (e, of_nat (i + length (dir_entry wr (of_nat off) f)))) \<and> entry_of wr (zbuf z) e f"
proof -
  have o: "object_at (zbuf z) i (dir_header wr (of_nat off) f)" "object_at (zbuf z) (i + 46) (zname f)"
    using object_part(1) [of "zbuf z" i "dir_header wr (of_nat off) f"] d
      object_part(1) [OF object_part(2) [of "zbuf z" i "dir_header wr (of_nat off) f"]]
    by (auto simp: dir_entry_def)
  have k: "length (zname f) < 65536" "length (zlocal_extra f) < 65536" using n by (simp_all add: zfile_ok_def)
  note h = dir_header_fields [OF o(1) n] local_extra [OF l k(2)]
  have "object_at (zbuf z) (off + 30 + length (zname f) + length (zlocal_extra f)) (packed wr f)"
    using object_part(2) [of _ _ "local_header wr f @ zname f @ zlocal_extra f"] l by (simp add: local_file_def add.assoc)
  moreover have "of_nat (length (zname f)) = (0 :: u32) \<longleftrightarrow> zname f = []"
    using k(1) of_nat_u32_0 [of "length (zname f)"] by simp
  ultimately show ?thesis
    using len k(1) h o(2)
    by (auto simp: read_central_directory_entry_def entry_of_def dir_entry_def Let_def ENTRY_LEN_def LFH_SIZE_def add_ac
        intro: exI [of _ "i + 46"] exI [of _ "off + 30 + length (zname f) + length (zlocal_extra f)"])
qed

lemma read_all_entries:
  assumes "object_at (zbuf z) i (directory wr off fs)" and "object_at (zbuf z) off (locals wr fs)"
    and "\<forall>f\<in>set fs. zfile_ok f" and "fs \<noteq> [] \<longrightarrow> 46 \<le> len"
  shows "\<exists>es. read_entries (length fs) (of_nat i) len z = Inr (Some (z\<lparr>entries := rev es @ entries z\<rparr>)) \<and>
    list_all2 (entry_of wr (zbuf z)) es fs"
  using assms
proof (induction fs arbitrary: i off z)
  case (Cons f fs)
  let ?d = "dir_entry wr (of_nat off) f"
  let ?i = "i + length ?d" and ?off = "off + length (local_file wr f)"
  have d: "object_at (zbuf z) i ?d" "object_at (zbuf z) ?i (directory wr ?off fs)"
    using object_part [of _ _ ?d "directory wr ?off fs"] Cons.prems(1) by simp_all
  have l: "object_at (zbuf z) off (local_file wr f)" "object_at (zbuf z) ?off (locals wr fs)"
    using object_part [of _ _ "local_file wr f" "locals wr fs"] Cons.prems(2) by (simp_all add: locals_def)
  obtain e where e: "read_central_directory_entry z (of_nat i) len = Inr (Some (e, of_nat ?i))" "entry_of wr (zbuf z) e f"
    using read_entry [OF d(1) l(1)] Cons.prems(3,4) by auto
  let ?z = "z\<lparr>entries := e # entries z\<rparr>"
  obtain es where "read_entries (length fs) (of_nat ?i) len ?z = Inr (Some (?z\<lparr>entries := rev es @ entries ?z\<rparr>))"
    "list_all2 (entry_of wr (zbuf z)) es fs"
    using Cons.IH [of ?z ?i ?off] d(2) l(2) Cons.prems(3,4) by auto
  with e show ?case by (auto simp del: of_nat_add intro!: exI [of _ "e # es"])
qed (rule exI [of _ "[]"], simp)

section \<open>Opening an archive\<close>

lemma end_record_fields:
  assumes "object_at buf i (end_record n sz off c)" and "n < 65536" and "length c < 65536"
  shows "read_le_short buf (of_nat i + 0x04) = Inr 0" "read_le_short buf (of_nat i + 0x06) = Inr 0"
    "read_le_short buf (of_nat i + 0x08) = Inr (of_nat n)" "read_le_short buf (of_nat i + 0x0a) = Inr (of_nat n)"
    "read_le_int buf (of_nat i + 0x0c) = Inr (of_nat sz)" "read_le_int buf (of_nat i + 0x10) = Inr (of_nat off)"
    "read_le_short buf (of_nat i + 0x14) = Inr (of_nat (length c))"
  using assms by (simp_all add: object_int [OF assms(1)] object_short [OF assms(1)]) (simp_all add: end_record_def)

lemma sint_small: "n < 2 ^ 31 \<Longrightarrow> sint (of_nat n :: u32) = int n"
  by (simp add: signed_of_nat signed_take_bit_int_eq_self)

lemma open_archive:
  assumes o: "object_at buf i (end_record n sz off c)" and l: "length buf = i + 22 + length c"
    and "n < 0x4b00" "sz < 2 ^ 24" "off < 2 ^ 24" "off \<le> i" and c: "comment_ok c"
  obtains z where "init_zipfile buf = read_entries n (of_nat off) (int (length buf) - int off) z"
    "zbuf z = buf" "entries z = []"
proof -
  have cl: "length c < 65536" using c by (simp add: comment_ok_def)
  define z where "z = \<lparr>zbuf = buf, disknum = 0, diskWithCentralDir = 0, entryCount = of_nat n, totalEntryCount = of_nat n,
       centralDirSize = of_nat sz, centralDirOffest = of_nat off, commentLen = of_nat (length c),
       comment = if c = [] then None else Some (of_nat i + of_nat EOCD_LEN), entries = []\<rparr>"
  let ?start = "if length buf > MAX_EOCD_SEARCH then length buf - MAX_EOCD_SEARCH else 0"
  have scan: "scan_eocd buf ?start (length buf - 4) = Inr (Some i)"
    by (rule scan_finds [OF o l]) (use assms cl in \<open>auto simp: MAX_EOCD_SEARCH_def EOCD_LEN_def\<close>)
  have n: "unat (of_nat n :: u32) = n" using assms(3) by (intro unat_u32) simp
  have b: "length buf - off < 2 ^ 31" using o by (auto simp: object_at_def)
  have "of_nat (length buf) - of_nat off = (of_nat (length buf - off) :: u32)" using assms l by (simp add: of_nat_diff)
  then have len: "sint (of_nat (length buf) - of_nat off :: u32) = int (length buf) - int off"
    using sint_small [OF b] assms l by (simp add: of_nat_diff)
  have "unat (of_nat (length c) :: u32) = length c" using cl by (intro unat_u32) simp
  then have u: "uint (of_nat (length c) :: u32) = int (length c)" by (metis uint_nat)
  have z: "of_nat (length c) = (0 :: u32) \<longleftrightarrow> c = []" using of_nat_u32_0 [of "length c"] cl by simp
  have "init_zipfile buf = read_entries n (of_nat off) (int (length buf) - int off) z"
    using scan n len l end_record_fields [OF o _ cl] assms(3) u z
    by (cases "c = []") (simp_all add: init_zipfile_def read_central_dir_def read_central_dir_values_def Let_def EOCD_LEN_def z_def)
  then show thesis by (rule that) (simp_all add: z_def)
qed

lemma zip_reads:
  assumes files: "\<forall>f\<in>set fs. zfile_ok f" and n: "length fs < 0x4b00" and c: "comment_ok (zcomment wr)"
    and small: "length (zip_bytes wr fs) < 2 ^ 24"
  obtains z es where "init_zipfile (zip_bytes wr fs) = Inr (Some z)" "entries z = rev es"
    "list_all2 (entry_of wr (zbuf z)) es fs"
proof -
  let ?b = "zip_bytes wr fs" and ?d = "directory wr 0 fs" and ?l = "locals wr fs"
  have z: "object_at ?b 0 ?l" "object_at ?b (length ?l) ?d"
      "object_at ?b (length ?l + length ?d) (end_record (length fs) (length ?d) (length ?l) (zcomment wr))"
    using small by (auto simp: object_at_def zip_bytes_def intro: exI [of _ "?l @ ?d"])
  have len: "length ?b = length ?l + length ?d + 22 + length (zcomment wr)" by (simp add: zip_bytes_def)
  obtain z where z1: "init_zipfile ?b = read_entries (length fs) (of_nat (length ?l)) (int (length ?b) - int (length ?l)) z"
    "zbuf z = ?b" "entries z = []"
    by (rule open_archive [OF z(3) len n _ _ _ c]) (use small len in auto)
  have "fs \<noteq> [] \<longrightarrow> 46 \<le> length ?d" by (cases fs) (auto simp: dir_entry_def)
  then have "fs \<noteq> [] \<longrightarrow> 46 \<le> int (length ?b) - int (length ?l)" by (auto simp: len)
  from read_all_entries [of z "length ?l" wr 0 fs, OF _ _ files this] z z1
  obtain es where "init_zipfile ?b = Inr (Some (z\<lparr>entries := rev es\<rparr>))" "list_all2 (entry_of wr ?b) es fs" by auto
  with z1 show thesis by (intro that [of "z\<lparr>entries := rev es\<rparr>" es]) simp_all
qed


definition demo_zfile :: "byte list \<Rightarrow> byte list \<Rightarrow> bool \<Rightarrow> zfile" where
  "demo_zfile name contents defl = \<lparr>zname = name, zcontents = contents, zdeflated = defl, zlocal_extra = [9, 9],
     zextra = [8], zremark = [104, 105]\<rparr>"

definition demo_writer :: zwriter where
  "demo_writer = \<lparr>zcrc = (\<lambda>_. 7), zdeflate = (\<lambda>bs. 1 # bs), zcomment = [80, 75, 5, 7]\<rparr>"


lemma demo_comment: "comment_ok (zcomment demo_writer)"
  by (simp add: comment_ok_def demo_writer_def less_Suc_eq all_conj_distrib numeral_eq_Suc)


section \<open>Looking up a name\<close>

lemma same_bytes_prefix:
  assumes "object_at buf a xs" and "0 \<notin> set xs"
  shows "same_bytes (name @ [0]) buf (of_nat a) (length xs) = Inr (prefix xs name)"
  using assms
proof (induction xs arbitrary: a name)
  case (Cons x xs)
  have b: "byte_at buf (of_nat a) = Inr x" using object_byte [OF Cons.prems(1), of 0] by simp
  have "object_at buf (Suc a) xs" using object_part(2) [of buf a "[x]" xs] Cons.prems(1) by simp
  from Cons.IH [OF this] Cons.prems(2) b show ?case
    by (cases name) (auto simp: add.commute)
qed simp

lemma matches_prefix:
  assumes e: "entry_of wr buf e f" and "0 \<notin> set (zname f)"
  shows "matches_name name buf e = Inr (prefix (zname f) name)"
proof (cases "zname f = []")
  case False
  with e obtain a where a: "fileName e = Some (of_nat a)" "object_at buf a (zname f)"
    "fileNameLength e = of_nat (length (zname f))" "length (zname f) < 65536"
    by (auto simp: entry_of_def)
  then show ?thesis
    using same_bytes_prefix [OF a(2) assms(2)] by (simp add: matches_name_def unat_u32)
qed (use e in \<open>simp add: entry_of_def matches_name_def\<close>)

lemma lookup_first:
  "list_all2 (entry_of wr buf) es fs \<Longrightarrow> \<forall>f\<in>set fs. 0 \<notin> set (zname f) \<Longrightarrow>
   (case find (\<lambda>f. prefix (zname f) name) fs of
      None \<Rightarrow> lookup_from name buf es = Inr None
    | Some f \<Rightarrow> \<exists>e. lookup_from name buf es = Inr (Some e) \<and> entry_of wr buf e f)"
  by (induction es fs rule: list_all2_induct) (auto simp: matches_prefix split: option.splits)

text \<open>
  Looking a name up does not compare whole names: the result is the last file of the archive whose
  name is a prefix of the one asked for, and null only when there is none. A file is therefore
  found under every longer name, and an entry with an empty name hides all files before it.
\<close>

theorem zip_lookup_prefix:
  assumes "\<forall>f\<in>set fs. zfile_ok f \<and> \<not> zdeflated f \<and> 0 \<notin> set (zname f)" and "length fs < 0x4b00"
    and "comment_ok (zcomment wr)" and "length (zip_bytes wr fs) < 2 ^ 24"
  shows "\<exists>z. init_zipfile (zip_bytes wr fs) = Inr (Some z) \<and>
    (case find (\<lambda>f. prefix (zname f) name) (rev fs) of
       None \<Rightarrow> lookup_zipentry z name = Inr None
     | Some f \<Rightarrow> \<exists>e. lookup_zipentry z name = Inr (Some e) \<and> get_zipentry_name z e = Inr (zname f) \<and>
         decompress_zipentry inflate z e (length (zcontents f)) = Inr (Some (zcontents f)))"
proof -
  have files: "\<forall>f\<in>set fs. zfile_ok f" using assms(1) by simp
  obtain z es where z: "init_zipfile (zip_bytes wr fs) = Inr (Some z)" "entries z = rev es"
    "list_all2 (entry_of wr (zbuf z)) es fs" by (rule zip_reads [OF files assms(2-4)])
  have stored: "\<not> zdeflated f" if "find (\<lambda>f. prefix (zname f) name) (rev fs) = Some f" for f
  proof -
    have "f \<in> set fs" using that by (auto simp: find_Some_iff rev_nth)
    with assms(1) show ?thesis by blast
  qed
  from lookup_first [of wr "zbuf z" "rev es" "rev fs" name] z assms(1) show ?thesis
    by (auto simp: lookup_zipentry_def entry_name entry_contents stored split: option.split)
qed

theorem zip_lookup_prefix_witness:
  "\<exists>z e. init_zipfile (zip_bytes demo_writer [demo_zfile [97] [1] False]) = Inr (Some z) \<and>
    lookup_zipentry z [97, 98] = Inr (Some e) \<and> get_zipentry_name z e = Inr [97]"
proof -
  let ?fs = "[demo_zfile [97] [1] False]"
  have "length (zip_bytes demo_writer ?fs) < 2 ^ 24"
    by (simp add: zip_bytes_def locals_def local_file_def dir_entry_def packed_def demo_zfile_def demo_writer_def)
  from zip_lookup_prefix [OF _ _ demo_comment this, of "[97, 98]" "\<lambda>_ _. None"] show ?thesis
    by (auto simp: zfile_ok_def demo_zfile_def)
qed

section \<open>A flaw\<close>

text \<open>
  The offset of the local header in a directory entry is followed without a check: an archive of
  one entry whose offset points outside makes opening it read past the end.
\<close>

theorem zip_offset_unchecked:
  assumes "zfile_ok f" and "buf = dir_entry wr off f @ end_record 1 (length (dir_entry wr off f)) 0 []"
    and "length buf \<le> unat (off + 0x1c)"
  shows "init_zipfile buf = Inl (Fault OutOfBounds)"
proof -
  let ?e = "dir_entry wr off f"
  have len: "length ?e < 2 ^ 18" using assms(1) by (simp add: dir_entry_def zfile_ok_def)
  have "\<exists>post. buf = dir_header wr off f @ post" using assms(2) by (simp add: dir_entry_def)
  then have o: "object_at buf (length ?e) (end_record 1 (length ?e) 0 [])" "object_at buf 0 (dir_header wr off f)"
  proof -
    have b: "length buf < 2 ^ 31" using len assms(2) by simp
    then show "object_at buf (length ?e) (end_record 1 (length ?e) 0 [])"
      using assms(2) unfolding object_at_def by (intro conjI exI [of _ ?e] exI [of _ "[]"]) simp_all
    show "object_at buf 0 (dir_header wr off f)"
      using b \<open>\<exists>post. buf = dir_header wr off f @ post\<close> by (auto simp: object_at_def)
  qed
  have s: "length buf = length ?e + 22 + length ([] :: byte list)" "1 < (0x4b00 :: nat)" "length ?e < 2 ^ 24"
    "0 < (2 :: nat) ^ 24" "0 \<le> length ?e" "comment_ok []"
    using len assms(2) by (simp_all add: comment_ok_def)
  obtain z where z: "init_zipfile buf = read_entries 1 (of_nat 0) (int (length buf) - int 0) z" "zbuf z = buf" "entries z = []"
    by (rule open_archive [OF o(1) s])
  have "read_le_short buf (off + 0x1c) = Inl (Fault OutOfBounds)"
    using assms(3) by (simp add: read_le_short_def byte_at_def numeral_2_eq_2)
  moreover have "46 \<le> length buf" using assms(2) by (simp add: dir_entry_def)
  ultimately show ?thesis
    using dir_header_fields [OF o(2) assms(1)] z by (simp add: read_central_directory_entry_def ENTRY_LEN_def Let_def)
qed

theorem zip_offset_unchecked_witness:
  "init_zipfile (dir_entry demo_writer 100 (demo_zfile [97] [] False) @ end_record 1 50 0 []) = Inl (Fault OutOfBounds)"
proof -
  have "length (dir_entry demo_writer 100 (demo_zfile [97] [] False)) = 50" by (simp add: dir_entry_def demo_zfile_def)
  with zip_offset_unchecked [OF _ refl, of "demo_zfile [97] [] False" demo_writer 100] show ?thesis
    by (simp add: zfile_ok_def demo_zfile_def)
qed

end
