(* ===== verification/Startup.thy ===== *)
theory Startup
  imports Accept_Threads Fs_Config
begin

text \<open>
  The main program (\<open>main\<close>, \<open>adb_main\<close> and what they call in \<open>src/adb.c\<close>): the trace mask, the log files, giving up
  root, and the order in which the parts of the daemon are initialised before the event loop runs.
  The initialisers themselves are modelled in the theories of their components; here each one is a
  step of a log.
\<close>

section \<open>Tracing\<close>

text \<open>\<open>AdbTrace\<close>: the bits of the mask.\<close>

datatype AdbTrace = TRACE_ADB | TRACE_SOCKETS | TRACE_PACKETS | TRACE_TRANSPORT | TRACE_RWX | TRACE_USB | TRACE_SYNC
  | TRACE_SYSDEPS | TRACE_JDWP | TRACE_SERVICES | TRACE_AUTH

fun trace_bit :: "AdbTrace \<Rightarrow> nat" where
  "trace_bit TRACE_ADB = 0" | "trace_bit TRACE_SOCKETS = 1" | "trace_bit TRACE_PACKETS = 2" | "trace_bit TRACE_TRANSPORT = 3"
| "trace_bit TRACE_RWX = 4" | "trace_bit TRACE_USB = 5" | "trace_bit TRACE_SYNC = 6" | "trace_bit TRACE_SYSDEPS = 7"
| "trace_bit TRACE_JDWP = 8" | "trace_bit TRACE_SERVICES = 9" | "trace_bit TRACE_AUTH = 10"

definition trace_tags :: "(string \<times> nat) list" where
  "trace_tags = [(''1'', 0), (''all'', 0), (''adb'', trace_bit TRACE_ADB), (''sockets'', trace_bit TRACE_SOCKETS),
     (''packets'', trace_bit TRACE_PACKETS), (''rwx'', trace_bit TRACE_RWX), (''usb'', trace_bit TRACE_USB),
     (''sync'', trace_bit TRACE_SYNC), (''sysdeps'', trace_bit TRACE_SYSDEPS), (''transport'', trace_bit TRACE_TRANSPORT),
     (''jdwp'', trace_bit TRACE_JDWP), (''services'', trace_bit TRACE_SERVICES), (''auth'', trace_bit TRACE_AUTH)]"

definition is_sep :: "char \<Rightarrow> bool" where
  "is_sep c \<longleftrightarrow> c \<in> set '' ,:;''"

definition word_end :: "string \<Rightarrow> string" where
  "word_end p = dropWhile (\<lambda>c. \<not> is_sep c) p"

lemma word_end_simps [simp]: "word_end [] = []" "word_end (c # p) = (if is_sep c then c # p else word_end p)"
  by (simp_all add: word_end_def)

lemma word_end_shorter: "p \<noteq> [] \<Longrightarrow> length (tl (word_end p)) < length p"
proof -
  assume "p \<noteq> []"
  moreover have "length (word_end p) \<le> length p" by (simp add: word_end_def length_dropWhile_le)
  ultimately show ?thesis by (cases "word_end p") auto
qed

text \<open>The loop over the words of \<open>ADB_TRACE\<close>; a tag whose flag is 0 sets every bit and ends it.\<close>

function trace_loop :: "string \<Rightarrow> u32 \<Rightarrow> u32" where
  "trace_loop p tmask =
     (if p = [] then tmask
      else
        case map_of trace_tags (takeWhile (\<lambda>c. \<not> is_sep c) p) of
          None \<Rightarrow> trace_loop (tl (word_end p)) tmask
        | Some flag \<Rightarrow> if flag = 0 then NOT 0 else trace_loop (tl (word_end p)) (tmask OR push_bit flag 1))"
  by pat_completeness auto
termination
  by (relation "measure (\<lambda>(p, m). length p)") (auto simp: word_end_shorter simp del: length_tl)

declare trace_loop.simps [simp del]

definition adb_trace_init :: "string option \<Rightarrow> u32 \<Rightarrow> u32" where
  "adb_trace_init env tmask = (case env of None \<Rightarrow> tmask | Some p \<Rightarrow> trace_loop p tmask)"

definition ADB_TRACING :: "u32 \<Rightarrow> AdbTrace \<Rightarrow> bool" where
  "ADB_TRACING tmask t \<longleftrightarrow> bit tmask (trace_bit t)"

text \<open>The pipe to the emulator that trace messages go to, \<open>adb_debug_qemu\<close>, and the bytes written to it.\<close>

definition adb_qemu_trace_init :: "int \<Rightarrow> int \<Rightarrow> int \<Rightarrow> int \<times> int" where
  "adb_qemu_trace_init opened written debug_qemu =
     (if debug_qemu \<ge> 0 then (0, debug_qemu)
      else
        let fd = qemu_pipe_open opened written (bytes_of_str ''qemud:adb-debug'') in
        (if fd \<ge> 0 then 0 else -1, fd))"

definition adb_qemu_trace :: "bool \<Rightarrow> int \<Rightarrow> byte list \<Rightarrow> (int \<times> byte list) option" where
  "adb_qemu_trace malloc debug_qemu m =
     (if malloc \<and> debug_qemu \<ge> 0 then Some (debug_qemu, take 1023 m) else None)"

section \<open>Starting the daemon\<close>

definition DEFAULT_ADB_PORT :: int where "DEFAULT_ADB_PORT = 5037"

datatype capability = CAP_SYS_BOOT | OtherCap nat

datatype bstep = Umask | AtExitCleanup | IgnoreSigpipe | InitRegistration | InitAuth | SetStorage "byte list"
  | KeepCaps | InitGroups "byte list" | SetGid nat | SetUid nat | CapSet | InstallListener "byte list" "byte list"
  | UsbInit | LocalInit int | InitJdwp | SayOk | LogTo "byte list" | EventLoop | UsbCleanup

record boot =
  buid :: nat
  bgid :: nat
  bcaps :: "capability set"
  steps :: "bstep list"
  adb_debug_qemu :: int

definition bdo :: "bstep \<Rightarrow> boot \<Rightarrow> boot" where
  "bdo s b = b\<lparr>steps := steps b @ [s]\<rparr>"

text \<open>
  How the daemon was built, and what the system answers: the user and the shadow entry of the
  shell user, and whether each call succeeds.
\<close>

record boot_env =
  allow_root :: bool
  no_listener :: bool
  no_pty :: bool
  adb_external_storage :: "byte list option"
  keepcaps_ok :: bool
  shell_user :: "byte list option"
  shell_password :: "byte list option"
  setgid_ok :: bool
  setuid_ok :: bool
  capset_ok :: bool
  listener_ok :: bool
  usb_there :: bool
  log_there :: bool
  qemu_opened :: int
  qemu_written :: int

definition build_local_name :: "nat \<Rightarrow> int \<Rightarrow> byte list" where
  "build_local_name room port =
     take (room - 1) (bytes_of_str ''tcp:'' @ (if port < 0 then 45 # dec_digits (nat (- port)) else dec_digits (nat port)))"

text \<open>The build that allows root returns before it looks at any property.\<close>

definition should_drop_privileges :: "boot_env \<Rightarrow> bool" where
  "should_drop_privileges env = (\<not> allow_root env)"

text \<open>
  Becoming the shell user. Neither the user nor its shadow entry is checked before it is used; a
  password is a C string, so the list is empty for an empty one.
\<close>

definition check_password :: "boot_env \<Rightarrow> boot \<Rightarrow> boot res" where
  "check_password env b =
     (if allow_root env then Inr b
      else case shell_password env of
        None \<Rightarrow> Inl (Fault NullDeref)
      | Some pw \<Rightarrow> if pw = [] then Inl (Exit 127) else if hd pw = 33 then Inl (Exit 127) else Inr b)"

definition drop_privileges :: "boot_env \<Rightarrow> boot \<Rightarrow> boot res" where
  "drop_privileges env b =
     (if \<not> keepcaps_ok env then Inl (Exit 1)
      else case shell_user env of
        None \<Rightarrow> Inl (Fault NullDeref)
      | Some name \<Rightarrow>
          let b = bdo (InitGroups name) (bdo KeepCaps b) in
          seq (check_password env b) (\<lambda>b.
          if \<not> setgid_ok env then Inl (Exit 1)
          else
            let b = bdo (SetGid AID_SHELL) (b\<lparr>bgid := AID_SHELL\<rparr>) in
            if \<not> setuid_ok env then Inl (Exit 1)
            else
              let b = bdo (SetUid AID_SHELL) (b\<lparr>buid := AID_SHELL\<rparr>) in
              Inr (bdo CapSet (if capset_ok env then b\<lparr>bcaps := {CAP_SYS_BOOT}\<rparr> else b))))"

definition install_smartsocket :: "boot_env \<Rightarrow> int \<Rightarrow> boot \<Rightarrow> boot res" where
  "install_smartsocket env server_port b =
     (if no_listener env then Inr b
      else if listener_ok env
      then Inr (bdo (InstallListener (build_local_name 30 server_port) (bytes_of_str ''*smartsocket*'')) b)
      else Inl (Exit 1))"

definition start_logging :: "boot_env \<Rightarrow> boot \<Rightarrow> boot" where
  "start_logging env b = bdo (LogTo (bytes_of_str (if log_there env then ''/tmp/adb.log'' else ''/dev/null''))) b"

text \<open>The property that would select a device log is not read: the function returns at once.\<close>

definition start_device_log :: "boot \<Rightarrow> boot" where
  "start_device_log b = b"

text \<open>
  \<open>adb_auth_init\<close>: the keys are loaded; the control socket, if there is one that listens, gets \<open>adb_auth_listener\<close> as its
  handler. The result is that descriptor.
\<close>

definition adb_auth_init :: "byte list list option list \<Rightarrow> int \<Rightarrow> bool \<Rightarrow> adbd \<Rightarrow> (int option \<times> adbd) res" where
  "adb_auth_init files control_socket listening w =
     seq (adb_auth_reload_keys files) (\<lambda>keys.
     Inr (if control_socket < 0 \<or> \<not> listening then None else Some control_socket, w\<lparr>key_list := keys\<rparr>))"

definition auth_enabled :: bool where "auth_enabled = False"

definition adb_main :: "boot_env \<Rightarrow> bool \<Rightarrow> int \<Rightarrow> boot \<Rightarrow> boot res" where
  "adb_main env is_daemon server_port b =
     (let b = bdo InitRegistration (bdo IgnoreSigpipe (bdo AtExitCleanup (bdo Umask b)));
          b = (if auth_enabled then bdo InitAuth b else b);
          b = (case adb_external_storage env of None \<Rightarrow> b | Some dir \<Rightarrow> bdo (SetStorage dir) b) in
      seq (if should_drop_privileges env then drop_privileges env b else install_smartsocket env server_port b) (\<lambda>b.
      let b = (if usb_there env then bdo UsbInit b else bdo (LocalInit DEFAULT_ADB_LOCAL_TRANSPORT_PORT) b);
          b = (if no_pty env then b else bdo InitJdwp b);
          b = (if is_daemon then start_logging env (bdo SayOk b) else b) in
      Inr (bdo UsbCleanup (bdo EventLoop b))))"

text \<open>\<open>main\<close>: the banner the daemon announces itself with, and the mode.\<close>

definition main :: "boot_env \<Rightarrow> byte list list \<Rightarrow> boot \<Rightarrow> (byte list \<times> bool \<times> boot) res" where
  "main env argv b =
     (let recovery = length argv > 1 \<and> argv ! 1 = bytes_of_str ''recovery'';
          banner = bytes_of_str (if recovery then ''recovery'' else ''device'');
          b = b\<lparr>adb_debug_qemu := snd (adb_qemu_trace_init (qemu_opened env) (qemu_written env) (adb_debug_qemu b))\<rparr> in
      seq (adb_main env False DEFAULT_ADB_PORT (start_device_log b)) (\<lambda>b. Inr (banner, recovery, b)))"

section \<open>The trace mask\<close>

fun trace_words :: "string \<Rightarrow> string \<Rightarrow> string list" where
  "trace_words cur [] = [rev cur]"
| "trace_words cur (c # p) = (if is_sep c then rev cur # trace_words [] p else trace_words (c # cur) p)"

definition named_bits :: "string list \<Rightarrow> u32" where
  "named_bits wds = fold (\<lambda>w m. case map_of trace_tags w of None \<Rightarrow> m | Some flag \<Rightarrow> m OR push_bit flag 1) wds 0"

lemma trace_words_split:
  "trace_words cur p =
     (let w = rev cur @ takeWhile (\<lambda>c. \<not> is_sep c) p in
      case word_end p of [] \<Rightarrow> [w] | _ # r \<Rightarrow> w # trace_words [] r)"
proof (induction p arbitrary: cur)
  case (Cons c p)
  then show ?case by (cases "is_sep c"; cases "word_end p") (simp_all add: Let_def)
qed simp

text \<open>The words that switch everything on.\<close>

definition wants_all :: "string list \<Rightarrow> bool" where
  "wants_all wds \<longleftrightarrow> (\<exists>w\<in>set wds. w \<in> {''1'', ''all'', ''adb''})"

lemma flag_0: "map_of trace_tags w = Some 0 \<longleftrightarrow> w \<in> {''1'', ''all'', ''adb''}"
  by (simp add: trace_tags_def)

definition add_named :: "string list \<Rightarrow> u32 \<Rightarrow> u32" where
  "add_named wds m = fold (\<lambda>w m. case map_of trace_tags w of None \<Rightarrow> m | Some flag \<Rightarrow> m OR push_bit flag 1) wds m"

lemma add_named_Cons:
  "add_named (w # wds) m = add_named wds (case map_of trace_tags w of None \<Rightarrow> m | Some flag \<Rightarrow> m OR push_bit flag 1)"
  by (simp add: add_named_def)

lemma wants_all_Cons: "wants_all (w # wds) \<longleftrightarrow> map_of trace_tags w = Some 0 \<or> wants_all wds"
  by (simp add: wants_all_def flag_0)

lemma trace_loop_words:
  "trace_loop p m = (if wants_all (trace_words [] p) then NOT 0 else add_named (trace_words [] p) m)"
proof (induction "length p" arbitrary: p m rule: less_induct)
  case less
  have nil: "map_of trace_tags [] = None" by (simp add: trace_tags_def)
  show ?case
  proof (cases "p = []")
    case True
    then show ?thesis by (simp add: trace_loop.simps wants_all_Cons add_named_Cons nil) (simp add: wants_all_def add_named_def)
  next
    case False
    define w where "w = takeWhile (\<lambda>c. \<not> is_sep c) p"
    let ?wds = "if word_end p = [] then [] else trace_words [] (tl (word_end p))"
    have wds: "trace_words [] p = w # ?wds"
      by (subst trace_words_split) (simp add: Let_def w_def split: list.split)
    have rest: "trace_loop (tl (word_end p)) m' = (if wants_all ?wds then NOT 0 else add_named ?wds m')" for m'
      using less [of "tl (word_end p)" m'] word_end_shorter [OF False]
      by (cases "word_end p = []") (simp_all add: trace_loop.simps [of "[]"] wants_all_def add_named_def)
    have e: "trace_loop p m = (case map_of trace_tags w of
        None \<Rightarrow> trace_loop (tl (word_end p)) m
      | Some flag \<Rightarrow> if flag = 0 then NOT 0 else trace_loop (tl (word_end p)) (m OR push_bit flag 1))"
      using False by (subst trace_loop.simps) (simp add: w_def)
    show ?thesis
      unfolding e rest wds wants_all_Cons add_named_Cons by (simp split: option.split)
  qed
qed

lemma add_named_zero: "add_named wds 0 = named_bits wds"
  by (simp add: add_named_def named_bits_def)

text \<open>
  The trace mask is the one the words of \<open>ADB_TRACE\<close> name, in any order and with any separators and empty
  words between them. The word \<open>adb\<close>, however, whose bit has the number 0, is taken for \<open>all\<close>: it switches
  on every tag.
\<close>

theorem trace_mask_words:
  "adb_trace_init (Some p) 0 =
     (if wants_all (trace_words [] p) then NOT 0 else named_bits (trace_words [] p)) \<and>
   (''adb'' \<in> set (trace_words [] p) \<longrightarrow> (\<forall>t. ADB_TRACING (adb_trace_init (Some p) 0) t))"
proof -
  have "trace_bit t < 32" for t by (cases t) simp_all
  then show ?thesis
    by (auto simp: adb_trace_init_def trace_loop_words add_named_zero ADB_TRACING_def wants_all_def bit_simps)
qed

theorem trace_mask_words_witness:
  "ADB_TRACING (adb_trace_init (Some ''usb,adb'') 0) TRACE_JDWP \<and> adb_trace_init (Some ''usb;rwx'') 0 = 0x30"
proof -
  have w: "trace_words [] ''usb,adb'' = [''usb'', ''adb'']" "trace_words [] ''usb;rwx'' = [''usb'', ''rwx'']"
    by (simp_all add: is_sep_def)
  show ?thesis
    using trace_mask_words [of "''usb,adb''"] trace_mask_words [of "''usb;rwx''"] unfolding w
    by (simp add: wants_all_def named_bits_def trace_tags_def push_bit_eq_mult) (simp add: ADB_TRACING_def)
qed

section \<open>The secure build\<close>

lemma bdo_simps [simp]: "buid (bdo s b) = buid b" "bgid (bdo s b) = bgid b" "bcaps (bdo s b) = bcaps b"
  "steps (bdo s b) = steps b @ [s]"
  by (simp_all add: bdo_def)

lemma drop_privileges_drops:
  assumes "drop_privileges env b = Inr b'" and "\<not> allow_root env"
  shows "\<exists>name pw. shell_user env = Some name \<and> shell_password env = Some pw \<and> pw \<noteq> [] \<and> hd pw \<noteq> 33 \<and>
    buid b' = AID_SHELL \<and> bgid b' = AID_SHELL \<and> bcaps b' = (if capset_ok env then {CAP_SYS_BOOT} else bcaps b) \<and>
    steps b' = steps b @ [KeepCaps, InitGroups name, SetGid AID_SHELL, SetUid AID_SHELL, CapSet]"
  using assms by (auto simp: drop_privileges_def check_password_def Let_def seq_eq_Inr split: if_splits option.splits)

text \<open>
  C29: In a build that does not allow root, the daemon serves nobody as root: whenever it gets as far as
  its event loop, it has become the shell user before, which has a password that is not locked,
  with no capability but the one to reboot if the kernel could set that, and it listens on no local port.
\<close>

theorem secure_build_unprivileged:
  assumes "\<not> allow_root env" and "adb_main env is_daemon port b = Inr b'" and "steps b = []"
  shows "buid b' = AID_SHELL \<and> bgid b' = AID_SHELL \<and> bcaps b' = (if capset_ok env then {CAP_SYS_BOOT} else bcaps b) \<and>
    (\<exists>pw. shell_password env = Some pw \<and> pw \<noteq> [] \<and> hd pw \<noteq> 33) \<and>
    (\<forall>name target. InstallListener name target \<notin> set (steps b')) \<and>
    (\<exists>pre post. steps b' = pre @ SetUid AID_SHELL # CapSet # post \<and>
       EventLoop \<in> set post \<and> {UsbInit, LocalInit DEFAULT_ADB_LOCAL_TRANSPORT_PORT, InitJdwp, EventLoop} \<inter> set pre = {})"
proof -
  define b1 where "b1 = (case adb_external_storage env of
      None \<Rightarrow> bdo InitRegistration (bdo IgnoreSigpipe (bdo AtExitCleanup (bdo Umask b)))
    | Some dir \<Rightarrow> bdo (SetStorage dir) (bdo InitRegistration (bdo IgnoreSigpipe (bdo AtExitCleanup (bdo Umask b)))))"
  have c1: "bcaps b1 = bcaps b" by (simp add: b1_def split: option.splits)
  have s1: "set (steps b1) \<subseteq> {Umask, AtExitCleanup, IgnoreSigpipe, InitRegistration} \<union> range SetStorage"
    using assms(3) by (auto simp: b1_def split: option.splits)
  from assms(1,2) obtain b2 where d: "drop_privileges env b1 = Inr b2"
    and b': "b' = bdo UsbCleanup (bdo EventLoop
      (let b = (if usb_there env then bdo UsbInit b2 else bdo (LocalInit DEFAULT_ADB_LOCAL_TRANSPORT_PORT) b2);
           b = (if no_pty env then b else bdo InitJdwp b) in
       if is_daemon then start_logging env (bdo SayOk b) else b))"
    by (auto simp: adb_main_def should_drop_privileges_def auth_enabled_def seq_eq_Inr Let_def b1_def)
  from drop_privileges_drops [OF d assms(1)] obtain name pw where p: "shell_password env = Some pw" "pw \<noteq> []" "hd pw \<noteq> 33"
    "buid b2 = AID_SHELL" "bgid b2 = AID_SHELL" "bcaps b2 = (if capset_ok env then {CAP_SYS_BOOT} else bcaps b)"
    "steps b2 = (steps b1 @ [KeepCaps, InitGroups name, SetGid AID_SHELL]) @ SetUid AID_SHELL # [CapSet]" by (auto simp: c1)
  define post where "post = drop (length (steps b2)) (steps b')"
  have post: "steps b' = steps b2 @ post" "EventLoop \<in> set post" "\<forall>n t. InstallListener n t \<notin> set post"
    by (auto simp: b' post_def Let_def start_logging_def)
  have "\<exists>pre post. steps b' = pre @ SetUid AID_SHELL # CapSet # post \<and>
       EventLoop \<in> set post \<and> {UsbInit, LocalInit DEFAULT_ADB_LOCAL_TRANSPORT_PORT, InitJdwp, EventLoop} \<inter> set pre = {}"
    using post p(7) s1 by (intro exI [of _ "steps b1 @ [KeepCaps, InitGroups name, SetGid AID_SHELL]"] exI [of _ post]) auto
  moreover have "\<forall>n t. InstallListener n t \<notin> set (steps b')" using post p(7) s1 by auto
  moreover have "buid b' = AID_SHELL \<and> bgid b' = AID_SHELL \<and> bcaps b' = (if capset_ok env then {CAP_SYS_BOOT} else bcaps b)"
    using p by (simp add: b' Let_def start_logging_def)
  ultimately show ?thesis using p by auto
qed

definition demo_boot_env :: boot_env where
  "demo_boot_env = \<lparr>allow_root = False, no_listener = True, no_pty = True, adb_external_storage = None, keepcaps_ok = True,
     shell_user = Some [97], shell_password = Some [120], setgid_ok = True, setuid_ok = True, capset_ok = True, listener_ok = True,
     usb_there = True, log_there = True, qemu_opened = -1, qemu_written = 0\<rparr>"

definition demo_boot :: boot where
  "demo_boot = \<lparr>buid = 0, bgid = 0, bcaps = {CAP_SYS_BOOT, OtherCap 1}, steps = [], adb_debug_qemu = -1\<rparr>"

theorem secure_build_unprivileged_witness:
  "\<exists>b'. adb_main demo_boot_env False DEFAULT_ADB_PORT demo_boot = Inr b' \<and> buid b' = AID_SHELL \<and> bcaps b' = {CAP_SYS_BOOT}"
proof -
  have "\<exists>b'. adb_main demo_boot_env False DEFAULT_ADB_PORT demo_boot = Inr b'"
    by (simp add: adb_main_def demo_boot_env_def should_drop_privileges_def drop_privileges_def check_password_def Let_def)
  then obtain b' where "adb_main demo_boot_env False DEFAULT_ADB_PORT demo_boot = Inr b'" by blast
  from secure_build_unprivileged [OF _ this] this show ?thesis by (simp add: demo_boot_env_def demo_boot_def)
qed

end
