(* ===== verification/Tracing.thy ===== *)
theory Tracing
  imports Listeners
begin

text \<open>
  What the tracing prints of a packet: \<open>dump_hex\<close> and \<open>dump_packet\<close> (\<open>src/transport.c\<close>), \<open>print_packet\<close> (\<open>src/adb.c\<close>). The line of
  \<open>dump_hex\<close> is built in an array on the stack; every read and every store is checked.
\<close>

section \<open>The first bytes of a packet\<close>

definition MAX_DUMP_HEX_LEN :: nat where "MAX_DUMP_HEX_LEN = 16"

definition hex2 :: "byte \<Rightarrow> byte list" where
  "hex2 b = [hex_digit (unat b div 16), hex_digit (unat b mod 16)]"

definition poke :: "nat \<Rightarrow> byte list \<Rightarrow> byte list \<Rightarrow> byte list res" where
  "poke off bs buf =
     (if off + length bs \<le> length buf then Inr (take off buf @ bs @ drop (off + length bs) buf) else Inl (Fault OutOfBounds))"

definition peek :: "byte list \<Rightarrow> nat \<Rightarrow> byte res" where
  "peek mem i = (if i < length mem then Inr (mem ! i) else Inl (Fault OutOfBounds))"

text \<open>The two loops, over the indices that are left; \<open>sprintf\<close> stores a zero behind the digits.\<close>

fun hex_loop :: "byte list \<Rightarrow> nat list \<Rightarrow> nat \<Rightarrow> byte list \<Rightarrow> (nat \<times> byte list) res" where
  "hex_loop mem [] pb buf = Inr (pb, buf)"
| "hex_loop mem (nn # ns) pb buf =
     seq (peek mem nn) (\<lambda>b. seq (poke pb (hex2 b @ [0]) buf) (\<lambda>buf. hex_loop mem ns (pb + 2) buf))"

definition shown :: "byte \<Rightarrow> byte" where
  "shown c = (if c < 32 \<or> c > 127 then 46 else c)"

fun char_loop :: "byte list \<Rightarrow> nat list \<Rightarrow> nat \<Rightarrow> byte list \<Rightarrow> (nat \<times> byte list) res" where
  "char_loop mem [] pb buf = Inr (pb, buf)"
| "char_loop mem (nn # ns) pb buf =
     seq (peek mem nn) (\<lambda>b. seq (poke pb [shown b] buf) (\<lambda>buf. char_loop mem ns (pb + 1) buf))"

text \<open>\<open>len\<close> is a \<open>size_t\<close> that is read as an \<open>int\<close>; \<open>stack\<close> is what the array holds. The result is the text.\<close>

definition dump_hex :: "byte list \<Rightarrow> byte list \<Rightarrow> u32 \<Rightarrow> byte list res" where
  "dump_hex stack mem len =
     (let len2 = sint len; len2 = (if len2 > int MAX_DUMP_HEX_LEN then int MAX_DUMP_HEX_LEN else len2);
          buffer = take (MAX_DUMP_HEX_LEN * 2 + 1 + MAX_DUMP_HEX_LEN + 1) stack; ns = [0..<nat len2] in
      seq (hex_loop mem ns 0 buffer) (\<lambda>(pb, buffer).
      seq (poke pb [32, 0] buffer) (\<lambda>buffer.
      seq (char_loop mem ns (pb + 1) buffer) (\<lambda>(pb, buffer).
      seq (poke pb [0] buffer) (\<lambda>buffer.
      Inr (takeWhile (\<lambda>b. b \<noteq> 0) buffer))))))"

section \<open>A packet\<close>

definition command_byte :: "u32 \<Rightarrow> nat \<Rightarrow> u32" where
  "command_byte c n = drop_bit (n * 8) c AND 255"

definition is_ascii :: "u32 \<Rightarrow> bool" where
  "is_ascii b \<longleftrightarrow> \<not> (b < 32 \<or> b \<ge> 127)"

definition hex_pad8 :: "nat \<Rightarrow> byte list" where
  "hex_pad8 n = replicate (8 - length (hex_digits n)) 48 @ hex_digits n"

definition command_text :: "u32 \<Rightarrow> byte list" where
  "command_text c =
     (if \<forall>n < 4. is_ascii (command_byte c n) then map (\<lambda>n. ucast (command_byte c n)) [0..<4]
      else hex_pad8 (unat c))"

definition arg_text :: "u32 \<Rightarrow> byte list" where
  "arg_text a = (if a < 256 then dec_digits (unat a) else bytes_of_str ''0x'' @ hex_digits (unat a))"

definition dump_packet :: "byte list \<Rightarrow> byte list \<Rightarrow> byte list \<Rightarrow> apacket \<Rightarrow> byte list res" where
  "dump_packet stack name func p =
     (let m = msg p; len = sint (data_length m);
          number = (if len < 0 then 45 # dec_digits (nat (- len)) else dec_digits (nat len)) in
      seq (dump_hex stack (data p) (data_length m)) (\<lambda>t.
      Inr (name @ bytes_of_str '': '' @ func @ bytes_of_str '': ['' @ command_text (command m) @ bytes_of_str ''] arg0='' @
        arg_text (arg0 m) @ bytes_of_str '' arg1='' @ arg_text (arg1 m) @ bytes_of_str '' (len='' @ number @ bytes_of_str '') '' @
        t @ [10])))"

definition DUMPMAX :: nat where "DUMPMAX = 32"

definition packet_tag :: "u32 \<Rightarrow> string" where
  "packet_tag c =
     (if c = A_SYNC then ''SYNC''
      else if c = A_CNXN then ''CNXN''
      else if c = A_OPEN then ''OPEN''
      else if c = A_OKAY then ''OKAY''
      else if c = A_CLSE then ''CLSE''
      else if c = A_WRTE then ''WRTE''
      else if c = A_AUTH then ''AUTH''
      else ''????'')"

fun peek_all :: "byte list \<Rightarrow> nat \<Rightarrow> byte list res" where
  "peek_all x 0 = Inr []"
| "peek_all x (Suc k) =
     seq (peek x 0) (\<lambda>c. seq (peek_all (tl x) k) (\<lambda>cs. Inr ((if 32 \<le> c \<and> c < 127 then c else 46) # cs)))"

definition print_packet :: "byte list \<Rightarrow> apacket \<Rightarrow> byte list res" where
  "print_packet label p =
     (let m = msg p; n = data_length m; count = (if n > of_nat DUMPMAX then DUMPMAX else unat n) in
      seq (peek_all (data p) count) (\<lambda>cs.
      Inr (label @ bytes_of_str '': '' @ bytes_of_str (packet_tag (command m)) @ [32] @ hex_pad8 (unat (arg0 m)) @ [32] @
        hex_pad8 (unat (arg1 m)) @ [32] @ hex_pad4 (unat n) @ [32, 34] @ cs @
        (if n > of_nat DUMPMAX then [10] else [34, 10]))))"

section \<open>The line stays in its array\<close>

lemma poke_fits: "off + length bs \<le> length buf \<Longrightarrow> \<exists>r. poke off bs buf = Inr (take off buf @ bs @ r) \<and> length r = length buf - off - length bs"
  by (simp add: poke_def)

lemma length_hex2 [simp]: "length (hex2 b) = 2"
  by (simp add: hex2_def)

lemma hex_loop_text:
  assumes "\<forall>n \<in> set ns. n < length mem" and "length buf = pb + room" and "2 * length ns < room"
  shows "\<exists>r. hex_loop mem ns pb buf = Inr (pb + 2 * length ns, take pb buf @ concat (map (\<lambda>n. hex2 (mem ! n)) ns) @ r) \<and>
    length r = room - 2 * length ns"
  using assms
proof (induction ns arbitrary: pb buf room)
  case Nil
  then show ?case by (intro exI [of _ "drop pb buf"]) simp
next
  case (Cons n ns)
  let ?b = "take pb buf @ (hex2 (mem ! n) @ [0]) @ drop (pb + 3) buf"
  have p: "poke pb (hex2 (mem ! n) @ [0]) buf = Inr ?b" using Cons.prems by (simp add: poke_def numeral_3_eq_3)
  have "\<exists>r. hex_loop mem ns (pb + 2) ?b =
      Inr (pb + 2 + 2 * length ns, take (pb + 2) ?b @ concat (map (\<lambda>n. hex2 (mem ! n)) ns) @ r) \<and> length r = room - 2 - 2 * length ns"
    by (rule Cons.IH) (use Cons.prems in auto)
  moreover have "take (pb + 2) ?b = take pb buf @ hex2 (mem ! n)" using Cons.prems by simp
  ultimately show ?case using p Cons.prems by (simp add: peek_def)
qed

lemma char_loop_text:
  assumes "\<forall>n \<in> set ns. n < length mem" and "length buf = pb + room" and "length ns < room"
  shows "\<exists>r. char_loop mem ns pb buf = Inr (pb + length ns, take pb buf @ map (\<lambda>n. shown (mem ! n)) ns @ r) \<and>
    length r = room - length ns"
  using assms
proof (induction ns arbitrary: pb buf room)
  case Nil
  then show ?case by (intro exI [of _ "drop pb buf"]) simp
next
  case (Cons n ns)
  let ?b = "take pb buf @ [shown (mem ! n)] @ drop (pb + 1) buf"
  have p: "poke pb [shown (mem ! n)] buf = Inr ?b" using Cons.prems by (simp add: poke_def)
  have "\<exists>r. char_loop mem ns (pb + 1) ?b =
      Inr (pb + 1 + length ns, take (pb + 1) ?b @ map (\<lambda>n. shown (mem ! n)) ns @ r) \<and> length r = room - 1 - length ns"
    by (rule Cons.IH) (use Cons.prems in auto)
  moreover have "take (pb + 1) ?b = take pb buf @ [shown (mem ! n)]" using Cons.prems by simp
  ultimately show ?case using p Cons.prems by (simp add: peek_def)
qed

lemma hex_digit_nonzero: "n < 16 \<Longrightarrow> hex_digit n \<noteq> 0"
proof -
  assume "n < 16"
  then have "unat (of_nat (48 + n) :: byte) = 48 + n" "unat (of_nat (87 + n) :: byte) = 87 + n"
    by (simp_all only: unsigned_of_nat) (simp_all add: take_bit_nat_eq_self)
  then have "unat (hex_digit n) \<noteq> 0" by (simp add: hex_digit_def)
  then show ?thesis by auto
qed

lemma hex2_nonzero: "0 \<notin> set (hex2 b)"
proof -
  have "unat b < 2 ^ LENGTH(8)" by (rule unsigned_less)
  then have "unat b div 16 < 16" "unat b mod 16 < 16" by (simp_all add: less_mult_imp_div_less)
  then show ?thesis using hex_digit_nonzero by (force simp: hex2_def)
qed

lemma shown_nonzero: "shown b \<noteq> 0"
  by (auto simp: shown_def)

lemma length_hex2s: "length (concat (map (\<lambda>n. hex2 (mem ! n)) ns)) = 2 * length ns"
  by (induction ns) (simp_all add: hex2_def)

text \<open>
  \<open>dump_hex\<close> never leaves its fifty bytes, whatever length it is given: it reads at most the first sixteen bytes of the packet and
  prints their digits, a blank and the characters.
\<close>

theorem dump_hex_bounded:
  assumes "length stack \<ge> 50" and "nat (min 16 (sint len)) \<le> length mem"
  shows "dump_hex stack mem len = Inr (concat (map hex2 (take (nat (min 16 (sint len))) mem)) @ 32 #
    map shown (take (nat (min 16 (sint len))) mem))"
proof -
  define k where "k = nat (min 16 (sint len))"
  let ?ns = "[0..<k]" and ?buf = "take 50 stack"
  let ?h = "concat (map (\<lambda>n. hex2 (mem ! n)) ?ns)" and ?c = "map (\<lambda>n. shown (mem ! n)) ?ns"
  have k: "k \<le> 16" "k \<le> length mem" using assms(2) by (simp_all add: k_def)
  have k3: "k < 49 - 2 * k" using k(1) by simp
  have lh: "length ?h = 2 * k" using length_hex2s [of mem ?ns] by simp
  obtain r1 where 1: "hex_loop mem ?ns 0 ?buf = Inr (2 * k, ?h @ r1)" "length r1 = 50 - 2 * k"
    using hex_loop_text [of ?ns mem ?buf 0 50] k assms(1) by auto
  obtain r2 where 2: "poke (2 * k) [32, 0] (?h @ r1) = Inr (?h @ [32, 0] @ r2)" "length r2 = 48 - 2 * k"
    using poke_fits [of "2 * k" "[32, 0]" "?h @ r1"] 1(2) k(1) lh by auto
  obtain r3 where 3: "char_loop mem ?ns (2 * k + 1) (?h @ [32, 0] @ r2) = Inr (2 * k + 1 + k, (?h @ [32]) @ ?c @ r3)"
      "length r3 = 49 - 2 * k - k"
    using char_loop_text [of ?ns mem "?h @ [32, 0] @ r2" "2 * k + 1" "49 - 2 * k"] 2(2) k k3 lh by auto
  obtain r4 where 4: "poke (2 * k + 1 + k) [0] ((?h @ [32]) @ ?c @ r3) = Inr (((?h @ [32]) @ ?c) @ 0 # r4)"
    using poke_fits [of "2 * k + 1 + k" "[0]" "(?h @ [32]) @ ?c @ r3"] 3(2) k(1) lh by auto
  have z: "0 \<notin> set ((?h @ [32]) @ ?c)"
    using hex2_nonzero shown_nonzero [symmetric] by (simp add: image_iff)
  have "takeWhile (\<lambda>b. b \<noteq> 0) (((?h @ [32]) @ ?c) @ 0 # r4) = (?h @ [32]) @ ?c"
    by (subst takeWhile_append2) (use z in auto)
  moreover have "(if sint len > int MAX_DUMP_HEX_LEN then int MAX_DUMP_HEX_LEN else sint len) = min 16 (sint len)"
    by (simp add: MAX_DUMP_HEX_LEN_def min_def)
  ultimately have "dump_hex stack mem len = Inr ((?h @ [32]) @ ?c)"
    using 1(1) 2(1) 3(1) 4 by (simp add: dump_hex_def Let_def k_def [symmetric] MAX_DUMP_HEX_LEN_def)
  moreover have "take k mem = map (\<lambda>n. mem ! n) ?ns" using k(2) by (simp add: list_eq_iff_nth_eq)
  ultimately show ?thesis by (simp add: k_def [symmetric] comp_def)
qed

theorem dump_hex_bounded_witness:
  "dump_hex (replicate 50 7) (bytes_of_str ''OK'' @ [0]) 3 = Inr (bytes_of_str ''4f4b00 OK.'')"
proof -
  have "sint (3 :: u32) = 3" by simp
  then show ?thesis using dump_hex_bounded [of "replicate 50 7" 3 "bytes_of_str ''OK'' @ [0]"]
    by (simp add: bytes_of_str_def hex2_def hex_digit_def shown_def)
qed

lemma command_text_eq:
  "command_text c =
     (if is_ascii (command_byte c 0) \<and> is_ascii (command_byte c 1) \<and> is_ascii (command_byte c 2) \<and> is_ascii (command_byte c 3)
      then [ucast (command_byte c 0), ucast (command_byte c 1), ucast (command_byte c 2), ucast (command_byte c 3)]
      else hex_pad8 (unat c))"
proof -
  have "(\<forall>n < 4. P n) \<longleftrightarrow> P 0 \<and> P 1 \<and> P 2 \<and> P (3 :: nat)" for P
    by (simp add: All_less_Suc numeral_eq_Suc) auto
  moreover have "[0..<4] = [0, 1, 2, 3]" by (simp add: upt_rec)
  ultimately show ?thesis by (simp add: command_text_def)
qed

lemmas tag_defs = packet_tag_def A_SYNC_def A_CNXN_def A_OPEN_def A_OKAY_def A_CLSE_def A_WRTE_def A_AUTH_def

lemma command_texts:
  "command_text A_SYNC = bytes_of_str ''SYNC''" "command_text A_CNXN = bytes_of_str ''CNXN''"
  "command_text A_OPEN = bytes_of_str ''OPEN''" "command_text A_OKAY = bytes_of_str ''OKAY''"
  "command_text A_CLSE = bytes_of_str ''CLSE''" "command_text A_WRTE = bytes_of_str ''WRTE''"
  "command_text A_AUTH = bytes_of_str ''AUTH''"
  by (simp_all add: command_text_eq command_byte_def is_ascii_def tag_defs bytes_of_str_def)

text \<open>Both ways of tracing a packet name the commands of the protocol alike.\<close>

theorem command_text_is_tag:
  assumes "packet_tag c \<noteq> ''????''"
  shows "command_text c = bytes_of_str (packet_tag c)"
  using assms command_texts by (auto simp: packet_tag_def split: if_splits)

theorem command_text_is_tag_witness: "command_text A_WRTE = bytes_of_str ''WRTE''"
  using command_text_is_tag [of A_WRTE] by (simp add: tag_defs)

end
