(* ===== verification/Device_List.thy ===== *)
theory Device_List
  imports Forwarding
begin

text \<open>
  The list of devices that the host build of \<open>src/transport.c\<close> prints: \<open>list_transports\<close> with what it calls, and the
  message a tracker of devices gets. The text is printed into an array; \<open>p\<close> is the offset of the
  next line and every store is checked against the array. Sizes are \<open>size_t\<close> and wrap around.
\<close>

section \<open>Printing\<close>

definition statename :: "atransport \<Rightarrow> string" where
  "statename x =
     (let s = connection_state x in
      if s = CS_OFFLINE then ''offline''
      else if s = CS_BOOTLOADER then ''bootloader''
      else if s = CS_DEVICE then ''device''
      else if s = CS_HOST then ''host''
      else if s = CS_RECOVERY then ''recovery''
      else if s = CS_SIDELOAD then ''sideload''
      else if s = CS_NOPERM then ''no permissions''
      else ''unknown'')"

text \<open>The loop of \<open>add_qual\<close> over the characters it has printed, by the pointer and the number that is left.\<close>

fun sanitize_chars :: "nat \<Rightarrow> nat \<Rightarrow> byte list \<Rightarrow> byte list res" where
  "sanitize_chars cp 0 buf = Inr buf"
| "sanitize_chars cp (Suc k) buf =
     (if cp < length buf
      then sanitize_chars (cp + 1) k (if qual_char_is_invalid (buf ! cp) then buf[cp := 95] else buf)
      else Inl (Fault OutOfBounds))"

text \<open>The array, the offset and the room that is left.\<close>

type_synonym out = "byte list \<times> nat \<times> u32"

definition add_qual :: "string \<Rightarrow> byte list option \<Rightarrow> bool \<Rightarrow> out \<Rightarrow> out res" where
  "add_qual pre qual sanitize_qual = (\<lambda>(buf, off, n).
     case qual of
       None \<Rightarrow> Inr (buf, off, n)
     | Some q \<Rightarrow>
         if n = 0 \<or> q = [] then Inr (buf, off, n)
         else
           let line = bytes_of_str pre @ q; len = length line in
           seq (snprintf_at line off n buf) (\<lambda>buf.
           seq (if sanitize_qual then sanitize_chars (off + length pre) (len - length pre) buf else Inr buf) (\<lambda>buf.
           Inr (buf, off + len, n - of_nat len))))"

definition shown_serial :: "atransport \<Rightarrow> byte list" where
  "shown_serial x =
     (case serial x of None \<Rightarrow> bytes_of_str ''????????????'' | Some s \<Rightarrow> if s = [] then bytes_of_str ''????????????'' else s)"

text \<open>\<open>"%-22s %s"\<close>\<close>

definition long_head :: "atransport \<Rightarrow> byte list" where
  "long_head x = shown_serial x @ replicate (22 - length (shown_serial x)) 32 @ [32] @ bytes_of_str (statename x)"

definition format_transport :: "atransport \<Rightarrow> bool \<Rightarrow> out \<Rightarrow> (u32 \<times> byte list) res" where
  "format_transport x long_listing = (\<lambda>(buf, off, bufsize).
     if \<not> long_listing then
       let line = shown_serial x @ [9] @ bytes_of_str (statename x) @ [10] in
       seq (snprintf_at line off bufsize buf) (\<lambda>buf. Inr (of_nat (length line), buf))
     else
       seq (snprintf_at (long_head x) off bufsize buf) (\<lambda>buf.
       seq (add_qual '' '' (devpath x) False (buf, off + length (long_head x), bufsize - of_nat (length (long_head x)))) (\<lambda>b.
       seq (add_qual '' product:'' (product x) False b) (\<lambda>b.
       seq (add_qual '' model:'' (tmodel x) True b) (\<lambda>b.
       seq (add_qual '' device:'' (device x) False b) (\<lambda>(buf, off, remaining).
       seq (snprintf_at [10] off remaining buf) (\<lambda>buf.
       Inr (bufsize - (remaining - 1), buf))))))))"

text \<open>The loop of \<open>list_transports\<close> and the final zero; the length that \<open>format_transport\<close> returns is read as an \<open>int\<close>.\<close>

fun list_from :: "bool \<Rightarrow> nat list \<Rightarrow> int \<Rightarrow> int \<Rightarrow> byte list \<Rightarrow> adbd \<Rightarrow> (int \<times> byte list) res" where
  "list_from long_listing [] p e buf w =
     (if 0 \<le> p \<and> p < int (length buf) then Inr (p, buf[nat p := 0]) else Inl (Fault OutOfBounds))"
| "list_from long_listing (t # ts) p e buf w =
     (if p < 0 then Inl (Fault OutOfBounds)
      else
        seq (tget t w) (\<lambda>x.
        seq (format_transport x long_listing (buf, nat p, of_int (e - p))) (\<lambda>(len, buf).
        if p + sint len \<ge> e then list_from long_listing [] p e buf w
        else list_from long_listing ts (p + sint len) e buf w)))"

definition list_transports :: "byte list \<Rightarrow> nat \<Rightarrow> bool \<Rightarrow> adbd \<Rightarrow> (int \<times> byte list) res" where
  "list_transports buf bufsize long_listing w = list_from long_listing (transport_list w) 0 (int bufsize) buf w"

definition list_transports_msg :: "byte list \<Rightarrow> nat \<Rightarrow> adbd \<Rightarrow> (int \<times> byte list) res" where
  "list_transports_msg buffer bufferlen w =
     seq (list_transports (drop 4 buffer) (bufferlen - 4) False w) (\<lambda>(len, rest).
     Inr (len + 4, take 4 (hex_pad4 (nat len)) @ rest))"

text \<open>The answer to \<open>devices\<close> and \<open>devices-l\<close>: \<open>snprintf(buf, 4096, "OKAY%04x%s", ...)\<close> on the list.\<close>

definition okay_text :: "byte list \<Rightarrow> byte list" where
  "okay_text s = take 4095 (bytes_of_str ''OKAY'' @ hex_pad4 (length s) @ s)"

definition host_devices :: "bool \<Rightarrow> int \<Rightarrow> lworld \<Rightarrow> lworld res" where
  "host_devices use_long fd w =
     seq (list_transports (replicate 4096 0) 4096 use_long (dw w)) (\<lambda>(_, buffer).
     Inr (reply fd (okay_text (takeWhile (\<lambda>b. b \<noteq> 0) buffer)) w))"

section \<open>What is printed\<close>

text \<open>
  \<open>prints line off n buf buf'\<close>: \<open>line\<close> was printed at \<open>off\<close> with room \<open>n\<close>: nothing before it and behind the room changed,
  and a line that is shorter than the room is there completely.
\<close>

definition prints :: "byte list \<Rightarrow> nat \<Rightarrow> nat \<Rightarrow> byte list \<Rightarrow> byte list \<Rightarrow> bool" where
  "prints line off n buf buf' \<longleftrightarrow>
     length buf' = length buf \<and> take off buf' = take off buf \<and> drop (off + n) buf' = drop (off + n) buf \<and>
     (length line < n \<longrightarrow> take (off + length line) buf' = take off buf @ line)"

lemma prints_refl: "0 < n \<Longrightarrow> prints [] off n buf buf"
  by (simp add: prints_def)

lemma snprintf_at_prints:
  assumes "0 < n" and "off + unat n \<le> length buf"
  obtains buf' where "snprintf_at line off n buf = Inr buf'" and "prints line off (unat n) buf buf'"
proof -
  have u: "0 < unat n" using assms(1) by (simp add: unat_gt_0 word_neq_0_conv)
  define out where "out = take (unat n - 1) line @ [0 :: byte]"
  have l: "length out \<le> unat n" using u by (simp add: out_def)
  define buf' where "buf' = take off buf @ out @ drop (off + length out) buf"
  have "snprintf_at line off n buf = Inr buf'"
    using assms l unfolding snprintf_at_def Let_def out_def [symmetric] buf'_def by auto
  moreover have "prints line off (unat n) buf buf'"
  proof -
    have "drop (off + unat n) buf' = drop (unat n - length out) (drop (off + length out) buf)"
      using assms(2) l by (simp add: buf'_def)
    also have "\<dots> = drop (off + unat n) buf" using l by (simp add: add.commute)
    finally have "drop (off + unat n) buf' = drop (off + unat n) buf" .
    moreover have "length line < unat n \<Longrightarrow> out = line @ [0]" by (simp add: out_def)
    ultimately show ?thesis
      using assms(2) l by (auto simp: prints_def buf'_def)
  qed
  ultimately show thesis by (rule that)
qed

lemma prints_append:
  assumes 1: "prints a off n buf buf1" and 2: "prints b (off + length a) (n - length a) buf1 buf2" and "length a < n"
  shows "prints (a @ b) off n buf buf2"
proof -
  have "take off buf2 = take off (take (off + length a) buf2)" by (simp add: min_def)
  also have "\<dots> = take off buf1" using 2 by (simp add: prints_def min_def)
  finally have "take off buf2 = take off buf" using 1 by (simp add: prints_def)
  moreover have "off + length a + (n - length a) = off + n" using assms(3) by simp
  ultimately show ?thesis
    using assms by (auto simp: prints_def add.assoc)
qed

lemma prints_mono: "prints line off n buf buf' \<Longrightarrow> length line < n \<Longrightarrow> take (off + length line) buf' = take off buf @ line"
  by (simp add: prints_def)

section \<open>Lines\<close>

definition short_line :: "atransport \<Rightarrow> byte list" where
  "short_line x = shown_serial x @ [9] @ bytes_of_str (statename x) @ [10]"

definition qual_text :: "string \<Rightarrow> byte list option \<Rightarrow> bool \<Rightarrow> byte list" where
  "qual_text pre qual b =
     (case qual of None \<Rightarrow> [] | Some q \<Rightarrow> if q = [] then [] else bytes_of_str pre @ sanitized b q)"

definition long_line :: "atransport \<Rightarrow> byte list" where
  "long_line x = long_head x @ qual_text '' '' (devpath x) False @ qual_text '' product:'' (product x) False @
     qual_text '' model:'' (tmodel x) True @ qual_text '' device:'' (device x) False @ [10]"

definition line_of :: "bool \<Rightarrow> atransport \<Rightarrow> byte list" where
  "line_of b x = (if b then long_line x else short_line x)"

text \<open>The lines that fit into \<open>n\<close> bytes together with the final zero; the first one that does not ends the list.\<close>

fun fitting :: "nat \<Rightarrow> byte list list \<Rightarrow> byte list" where
  "fitting n [] = []"
| "fitting n (l # ls) = (if length l < n then l @ fitting (n - length l) ls else [])"

lemma length_fitting: "0 < n \<Longrightarrow> length (fitting n ls) < n"
proof (induction ls arbitrary: n)
  case (Cons l ls)
  show ?case using Cons.IH [of "n - length l"] Cons.prems by auto
qed simp

lemma fitting_all: "length (concat ls) < n \<Longrightarrow> fitting n ls = concat ls"
  by (induction ls arbitrary: n) auto

lemma sanitize_chars_eq:
  "cp + k \<le> length buf \<Longrightarrow>
   sanitize_chars cp k buf = Inr (take cp buf @ sanitized True (take k (drop cp buf)) @ drop (cp + k) buf)"
proof (induction cp k buf rule: sanitize_chars.induct)
  case (1 cp buf)
  then show ?case by (simp add: sanitized_def)
next
  case (2 cp k buf)
  let ?c = "if qual_char_is_invalid (buf ! cp) then 95 else buf ! cp"
  let ?buf = "buf[cp := ?c]"
  from 2 have c: "cp < length buf" by simp
  have b: "(if qual_char_is_invalid (buf ! cp) then buf[cp := 95] else buf) = ?buf" by simp
  have IH: "sanitize_chars (cp + 1) k ?buf =
      Inr (take (cp + 1) ?buf @ sanitized True (take k (drop (cp + 1) ?buf)) @ drop (cp + 1 + k) ?buf)"
    using 2 c b by simp
  have "take (cp + 1) ?buf = take cp buf @ [?c]" using c by (simp add: take_Suc_conv_app_nth)
  moreover have "drop (cp + 1) ?buf = drop (cp + 1) buf" "drop (cp + 1 + k) ?buf = drop (cp + 1 + k) buf" by simp_all
  moreover have "take (Suc k) (drop cp buf) = buf ! cp # take k (drop (cp + 1) buf)"
    using c by (simp add: Cons_nth_drop_Suc [symmetric])
  ultimately show ?case using c IH by (simp add: b sanitized_def)
qed

lemma room_left:
  assumes "k < unat (n :: u32)"
  shows "unat (n - of_nat k) = unat n - k" and "0 < n - of_nat k"
proof -
  have k: "unat (of_nat k :: u32) = k"
  proof (rule unat_u32)
    have "unat n < 2 ^ LENGTH(32)" by (rule unsigned_less)
    with assms show "k < 2 ^ 32" by simp
  qed
  then have "(of_nat k :: u32) \<le> n" using assms by (simp add: word_le_nat_alt)
  with k show "unat (n - of_nat k) = unat n - k" by (simp add: unat_sub)
  with assms have "unat (n - of_nat k) \<noteq> 0" by simp
  then show "0 < n - of_nat k" by (metis unat_0 word_gt_0)
qed

lemma sanitized_simps [simp]: "sanitized b [] = []" "length (sanitized b q) = length q" "sanitized False q = q"
  by (simp_all add: sanitized_def)

lemma add_qual_prints:
  assumes n: "0 < n" "off + unat n \<le> length buf" and l: "length (qual_text pre q b) < unat n"
  obtains buf' where "add_qual pre q b (buf, off, n) =
      Inr (buf', off + length (qual_text pre q b), n - of_nat (length (qual_text pre q b)))"
    and "prints (qual_text pre q b) off (unat n) buf buf'"
proof (cases "q = None \<or> q = Some []")
  case True
  then have "qual_text pre q b = []" by (auto simp: qual_text_def)
  moreover have "add_qual pre q b (buf, off, n) = Inr (buf, off, n)" using True by (auto simp: add_qual_def)
  ultimately show thesis using n unat_gt_0 [of n] by (intro that [of buf]) (auto simp: prints_def)
next
  case False
  then obtain c where q: "q = Some c" "c \<noteq> []" by auto
  let ?line = "bytes_of_str pre @ c"
  have len: "length (qual_text pre q b) = length ?line" using q by (simp add: qual_text_def)
  obtain buf1 where b1: "snprintf_at ?line off n buf = Inr buf1" and p: "prints ?line off (unat n) buf buf1"
    using snprintf_at_prints [OF n] by blast
  have t: "take (off + length ?line) buf1 = take off buf @ ?line"
    using p l len by (simp add: prints_def)
  have lb: "length buf1 = length buf" using p by (simp add: prints_def)
  show thesis
  proof (cases b)
    case False
    then have "qual_text pre q b = ?line" using q by (simp add: qual_text_def)
    moreover have "add_qual pre q b (buf, off, n) = Inr (buf1, off + length ?line, n - of_nat (length ?line))"
      using q n b1 False by (simp add: add_qual_def Let_def)
    ultimately show thesis using p by (intro that [of buf1]) simp_all
  next
    case True
    have qt: "qual_text pre q b = bytes_of_str pre @ sanitized True c" using q True by (simp add: qual_text_def)
    have fits: "off + length pre + length c \<le> length buf1" using n l len lb by simp
    define buf2 where "buf2 = take (off + length pre) buf1 @ sanitized True (take (length c) (drop (off + length pre) buf1)) @
      drop (off + length pre + length c) buf1"
    have "take (off + length pre) buf1 = take (off + length pre) (take (off + length ?line) buf1)" by (simp add: min_def)
    also have "\<dots> = take off buf @ bytes_of_str pre"
      using n by (simp only: t) simp
    finally have a: "take (off + length pre) buf1 = take off buf @ bytes_of_str pre" .
    have "take (length c) (drop (off + length pre) buf1) = drop (off + length pre) (take (off + length ?line) buf1)"
      by (simp add: drop_take)
    also have "\<dots> = c" using n by (simp only: t) simp
    finally have c: "take (length c) (drop (off + length pre) buf1) = c" .
    have "add_qual pre q b (buf, off, n) = Inr (buf2, off + length ?line, n - of_nat (length ?line))"
      using q n b1 True sanitize_chars_eq [OF fits] by (simp add: add_qual_def Let_def buf2_def)
    moreover have "prints (qual_text pre q b) off (unat n) buf buf2"
      using n l p lb fits unfolding prints_def qt buf2_def a c
      by (auto simp: add.assoc add.commute [of "unat n"])
    ultimately show thesis using len by (intro that [of buf2]) simp_all
  qed
qed

lemma format_transport_short:
  assumes "0 < n" and "off + unat n \<le> length buf"
  obtains buf' where "format_transport x False (buf, off, n) = Inr (of_nat (length (short_line x)), buf')"
    and "prints (short_line x) off (unat n) buf buf'"
proof -
  obtain buf' where "snprintf_at (short_line x) off n buf = Inr buf'" "prints (short_line x) off (unat n) buf buf'"
    using snprintf_at_prints [OF assms] by blast
  then show thesis by (intro that [of buf']) (simp_all add: format_transport_def Let_def short_line_def)
qed

text \<open>The qualifiers of the long listing, one after the other, behind the text \<open>a\<close> that is already printed.\<close>

fun add_quals :: "(string \<times> byte list option \<times> bool) list \<Rightarrow> out \<Rightarrow> out res" where
  "add_quals [] b = Inr b"
| "add_quals ((pre, q, s) # qs) b = seq (add_qual pre q s b) (add_quals qs)"

definition quals_text :: "(string \<times> byte list option \<times> bool) list \<Rightarrow> byte list" where
  "quals_text qs = concat (map (\<lambda>(pre, q, s). qual_text pre q s) qs)"

lemma quals_text_simps [simp]:
  "quals_text [] = []" "quals_text ((pre, q, s) # qs) = qual_text pre q s @ quals_text qs"
  by (simp_all add: quals_text_def)

definition quals :: "atransport \<Rightarrow> (string \<times> byte list option \<times> bool) list" where
  "quals x = [('' '', devpath x, False), ('' product:'', product x, False), ('' model:'', tmodel x, True),
     ('' device:'', device x, False)]"

lemma add_quals_prints:
  assumes "prints a off (unat n) buf buf1" and "off + unat n \<le> length buf" and "length (a @ quals_text qs) < unat n"
  shows "\<exists>buf2. add_quals qs (buf1, off + length a, n - of_nat (length a)) =
      Inr (buf2, off + length (a @ quals_text qs), n - of_nat (length (a @ quals_text qs))) \<and>
    prints (a @ quals_text qs) off (unat n) buf buf2"
  using assms
proof (induction qs arbitrary: a buf1)
  case (Cons c qs)
  obtain pre q s where c: "c = (pre, q, s)" by (cases c) auto
  let ?q = "qual_text pre q s" and ?n = "n - of_nat (length a)"
  have l: "length a + length ?q < unat n" using Cons.prems(3) by (simp add: c)
  have r: "unat ?n = unat n - length a" "0 < ?n" using room_left [of "length a" n] l by simp_all
  have "off + length a + unat ?n \<le> length buf1" using Cons.prems r l by (simp add: prints_def)
  moreover have "length ?q < unat ?n" using r l by simp
  ultimately obtain buf2 where q: "add_qual pre q s (buf1, off + length a, ?n) =
      Inr (buf2, off + length a + length ?q, ?n - of_nat (length ?q))"
    and p2: "prints ?q (off + length a) (unat ?n) buf1 buf2"
    using add_qual_prints [OF r(2)] by blast
  have "prints (a @ ?q) off (unat n) buf buf2"
    using Cons.prems(1) p2 l r by (intro prints_append [of a _ _ _ buf1]) simp_all
  from Cons.IH [OF this Cons.prems(2)] Cons.prems(3) q show ?case by (simp add: c algebra_simps)
qed simp

lemma format_transport_long:
  assumes n: "off + unat n \<le> length buf" and l: "length (long_line x) < unat n"
  obtains buf' where "format_transport x True (buf, off, n) = Inr (of_nat (length (long_line x)), buf')"
    and "prints (long_line x) off (unat n) buf buf'"
proof -
  let ?h = "long_head x"
  let ?body = "?h @ quals_text (quals x)"
  have line: "long_line x = ?body @ [10]" by (simp add: long_line_def quals_def)
  have "0 < n" using l by (metis less_nat_zero_code unat_0 word_gt_0)
  then obtain b0 where b0: "snprintf_at ?h off n buf = Inr b0" "prints ?h off (unat n) buf b0"
    using snprintf_at_prints n by blast
  let ?n = "n - of_nat (length ?body)"
  obtain b4 where b4: "add_quals (quals x) (b0, off + length ?h, n - of_nat (length ?h)) = Inr (b4, off + length ?body, ?n)"
      "prints ?body off (unat n) buf b4"
    using add_quals_prints [OF b0(2) n, of "quals x"] l by (auto simp: line)
  have r: "unat ?n = unat n - length ?body" "0 < ?n"
    using room_left [of "length ?body" n] l by (simp_all add: line)
  have "off + length ?body + unat ?n \<le> length b4" using n r(1) l b4(2) by (simp add: prints_def line)
  then obtain b5 where b5: "snprintf_at [10] (off + length ?body) ?n b4 = Inr b5"
      "prints [10] (off + length ?body) (unat ?n) b4 b5"
    using snprintf_at_prints r(2) by blast
  have "prints (?body @ [10]) off (unat n) buf b5"
    using b4(2) b5(2) l r(1) by (intro prints_append [of ?body _ _ _ b4]) (simp_all add: line)
  moreover have "format_transport x True (buf, off, n) =
      seq (snprintf_at ?h off n buf) (\<lambda>b. seq (add_quals (quals x) (b, off + length ?h, n - of_nat (length ?h)))
        (\<lambda>(b, off, r). seq (snprintf_at [10] off r b) (\<lambda>b. Inr (n - (r - 1), b))))"
    by (simp add: format_transport_def quals_def seq_assoc)
  then have "format_transport x True (buf, off, n) = Inr (n - (?n - 1), b5)"
    using b0(1) b4(1) b5(1) by simp
  ultimately show thesis by (intro that [of b5]) (simp_all add: line)
qed

section \<open>The list\<close>

definition device_lines :: "bool \<Rightarrow> adbd \<Rightarrow> byte list list" where
  "device_lines long_listing w = map (\<lambda>t. line_of long_listing (the (trans w t))) (transport_list w)"

lemma format_transport_line:
  assumes "0 < n" and "off + unat n \<le> length buf" and "long_listing \<Longrightarrow> length (line_of long_listing x) < unat n"
  obtains buf' where "format_transport x long_listing (buf, off, n) = Inr (of_nat (length (line_of long_listing x)), buf')"
    and "prints (line_of long_listing x) off (unat n) buf buf'"
  using assms format_transport_short [OF assms(1,2), of x] format_transport_long [OF assms(2), of x]
  by (cases long_listing) (auto simp: line_of_def)

lemma sint_of_nat_u32: "k < 2 ^ 31 \<Longrightarrow> sint (of_nat k :: u32) = int k"
  by (simp add: signed_of_nat signed_take_bit_int_eq_self)

lemma final_zero:
  assumes "0 < room" and "off + room \<le> length buf"
  shows "\<exists>buf'. list_from b [] (int off) (int (off + room)) buf w = Inr (int off, buf') \<and> length buf' = length buf \<and>
    drop (off + room) buf' = drop (off + room) buf \<and> (\<exists>rest. buf' = take off buf @ 0 # rest)"
proof -
  have "buf[off := 0] = take off buf @ 0 # drop (Suc off) buf"
    using assms by (simp add: upd_conv_take_nth_drop)
  then have "\<exists>rest. buf[off := 0] = take off buf @ 0 # rest" by blast
  with assms show ?thesis by (intro exI [of _ "buf[off := 0]"]) simp
qed

text \<open>
  The loop, from an offset where the text printed so far ends: \<open>room\<close> bytes are left. A long list has to fit; of a short one
  the lines that fit are printed.
\<close>

lemma list_from_text:
  assumes "set ts \<subseteq> dom (trans w)" and "0 < room" and "off + room \<le> length buf" and "room < 2 ^ 31"
    and "\<forall>t \<in> set ts. length (line_of b (the (trans w t))) < 2 ^ 31"
    and "b \<longrightarrow> length (concat (map (\<lambda>t. line_of b (the (trans w t))) ts)) < room"
  shows "\<exists>buf'. list_from b ts (int off) (int (off + room)) buf w =
      Inr (int off + int (length (fitting room (map (\<lambda>t. line_of b (the (trans w t))) ts))), buf') \<and>
    length buf' = length buf \<and> drop (off + room) buf' = drop (off + room) buf \<and>
    (\<exists>rest. buf' = take off buf @ fitting room (map (\<lambda>t. line_of b (the (trans w t))) ts) @ 0 # rest)"
  using assms
proof (induction ts arbitrary: off room buf)
  case Nil
  then show ?case using final_zero [of room off buf b w] by simp
next
  case (Cons t ts)
  from Cons.prems(1) obtain x where x: "trans w t = Some x" by auto
  let ?l = "line_of b x" and ?n = "of_nat room :: u32"
  have n: "unat ?n = room" using Cons.prems(4) by (intro unat_u32) simp
  then have n0: "0 < ?n" using Cons.prems(2) by (metis less_not_refl unat_0 word_gt_0)
  have "off + unat ?n \<le> length buf" using Cons.prems(3) n by simp
  then obtain buf1 where f: "format_transport x b (buf, off, ?n) = Inr (of_nat (length ?l), buf1)"
      and p: "prints ?l off room buf buf1"
    by (rule format_transport_line [OF n0, of off buf b x]) (use Cons.prems(6) x n in auto)
  have len: "sint (of_nat (length ?l) :: u32) = int (length ?l)"
    using Cons.prems(5) x by (intro sint_of_nat_u32) simp
  have lb: "length buf1 = length buf" "drop (off + room) buf1 = drop (off + room) buf" "take off buf1 = take off buf"
    using p by (simp_all add: prints_def)
  have step: "list_from b (t # ts) (int off) (int (off + room)) buf w =
      (if int off + int (length ?l) \<ge> int (off + room) then list_from b [] (int off) (int (off + room)) buf1 w
       else list_from b ts (int (off + length ?l)) (int (off + length ?l + (room - length ?l))) buf1 w)"
    using f by (simp add: tget_def x len)
  show ?case
  proof (cases "length ?l < room")
    case False
    then show ?thesis using step final_zero [of room off buf1 b w] Cons.prems(2,3) lb x by simp
  next
    case True
    have "take (off + length ?l) buf1 = take off buf @ ?l" using p True by (simp add: prints_def)
    moreover have "\<exists>buf'. list_from b ts (int (off + length ?l)) (int (off + length ?l + (room - length ?l))) buf1 w =
        Inr (int (off + length ?l) + int (length (fitting (room - length ?l) (map (\<lambda>t. line_of b (the (trans w t))) ts))), buf') \<and>
        length buf' = length buf1 \<and>
        drop (off + length ?l + (room - length ?l)) buf' = drop (off + length ?l + (room - length ?l)) buf1 \<and>
        (\<exists>rest. buf' = take (off + length ?l) buf1 @ fitting (room - length ?l) (map (\<lambda>t. line_of b (the (trans w t))) ts) @ 0 # rest)"
      by (rule Cons.IH) (use Cons.prems True lb x in auto)
    ultimately show ?thesis using step True lb x by (simp add: algebra_simps)
  qed
qed

text \<open>The transports on the list are there, and their texts are C strings of a size that an \<open>int\<close> can count.\<close>

definition listable :: "bool \<Rightarrow> adbd \<Rightarrow> bool" where
  "listable b w \<longleftrightarrow> set (transport_list w) \<subseteq> dom (trans w) \<and> (\<forall>l \<in> set (device_lines b w). length l < 2 ^ 31)"

lemma list_transports_fitting:
  assumes "listable b w" and "0 < n" and "n \<le> length buf" and "n < 2 ^ 31"
    and "b \<longrightarrow> length (concat (device_lines b w)) < n"
  shows "\<exists>rest. list_transports buf n b w =
      Inr (int (length (fitting n (device_lines b w))), fitting n (device_lines b w) @ 0 # rest) \<and>
    length (fitting n (device_lines b w)) + Suc (length rest) = length buf \<and>
    drop n (fitting n (device_lines b w) @ 0 # rest) = drop n buf"
  using list_from_text [of "transport_list w" w n 0 buf b] assms
  by (auto simp: listable_def device_lines_def list_transports_def)

text \<open>
  The list of devices never leaves its buffer: the short list has the lines that fit, in the order of
  the transports, up to the first that does not, and a final zero; the long list has all
  lines when they fit. What lies behind the given size is not changed.
\<close>

theorem list_transports_bounded:
  assumes "listable b w" and "0 < n" and "n \<le> length buf" and "n < 2 ^ 31"
    and "b \<longrightarrow> length (concat (device_lines b w)) < n"
  shows "\<exists>len buf'. list_transports buf n b w = Inr (int len, buf') \<and> len < n \<and> length buf' = length buf \<and>
    take len buf' = fitting n (device_lines b w) \<and> buf' ! len = 0 \<and> drop n buf' = drop n buf \<and>
    (length (concat (device_lines b w)) < n \<longrightarrow> take len buf' = concat (device_lines b w))"
proof -
  let ?t = "fitting n (device_lines b w)"
  obtain rest where r: "list_transports buf n b w = Inr (int (length ?t), ?t @ 0 # rest)"
    "length ?t + Suc (length rest) = length buf" "drop n (?t @ 0 # rest) = drop n buf"
    using list_transports_fitting [OF assms] by blast
  then show ?thesis
    using length_fitting [OF assms(2)] fitting_all [of "device_lines b w" n]
    by (intro exI [of _ "length ?t"] exI [of _ "?t @ 0 # rest"]) auto
qed

definition demo_device :: "string \<Rightarrow> atransport" where
  "demo_device s = zero_transport\<lparr>serial := Some (bytes_of_str s), connection_state := CS_DEVICE, tmodel := Some (bytes_of_str ''A-1'')\<rparr>"

definition demo_devices :: adbd where
  "demo_devices = demo_adbd\<lparr>trans := [1 \<mapsto> demo_device ''usb1'', 2 \<mapsto> demo_device ''usb2''], transport_list := [1, 2]\<rparr>"

lemma demo_devices_lines:
  "device_lines False demo_devices = [bytes_of_str ''usb1'' @ [9] @ bytes_of_str ''device'' @ [10],
     bytes_of_str ''usb2'' @ [9] @ bytes_of_str ''device'' @ [10]]"
  by (simp add: device_lines_def demo_devices_def demo_device_def line_of_def short_line_def shown_serial_def statename_def
      CS_OFFLINE_def CS_BOOTLOADER_def CS_DEVICE_def bytes_of_str_def)

lemma demo_devices_listable: "listable False demo_devices"
  using demo_devices_lines by (simp add: listable_def) (simp add: demo_devices_def)

theorem list_transports_bounded_witness:
  "\<exists>len buf'. list_transports (replicate 20 1) 20 False demo_devices = Inr (int len, buf') \<and>
     take len buf' = bytes_of_str ''usb1'' @ [9] @ bytes_of_str ''device'' @ [10]"
  using list_transports_bounded [OF demo_devices_listable, of 20 "replicate 20 1"]
  by (auto simp: demo_devices_lines)

text \<open>The answer to \<open>devices\<close>: the lines are C strings, so the text ends at the first zero.\<close>

definition printable :: "bool \<Rightarrow> adbd \<Rightarrow> bool" where
  "printable b w \<longleftrightarrow> 0 \<notin> set (concat (device_lines b w))"

lemma set_fitting: "set (fitting n ls) \<subseteq> set (concat ls)"
  by (induction ls arbitrary: n) (auto split: if_splits)

lemma host_devices_text:
  assumes "listable b (dw w)" and "printable b (dw w)" and "b \<longrightarrow> length (concat (device_lines b (dw w))) < 4096"
  shows "host_devices b fd w = Inr (reply fd (okay_text (fitting 4096 (device_lines b (dw w)))) w)"
proof -
  let ?t = "fitting 4096 (device_lines b (dw w))"
  obtain rest where r: "list_transports (replicate 4096 0) 4096 b (dw w) = Inr (int (length ?t), ?t @ 0 # rest)"
    using list_transports_fitting [OF assms(1), of 4096 "replicate 4096 0"] assms(3) by auto
  have "0 \<notin> set ?t" using assms(2) set_fitting [of 4096 "device_lines b (dw w)"] by (auto simp: printable_def)
  then have "takeWhile (\<lambda>b. b \<noteq> 0) (?t @ 0 # rest) = ?t"
    by (subst takeWhile_append2) auto
  with r show ?thesis by (simp add: host_devices_def)
qed

text \<open>
  The answer to a request for the list of devices announces the length of the list that follows, as long as it has at
  most 4087 characters.
\<close>

theorem devices_answer_complete:
  assumes "listable b (dw w)" and "printable b (dw w)" and "length (concat (device_lines b (dw w))) \<le> 4087"
  shows "host_devices b fd w = Inr (reply fd (bytes_of_str ''OKAY'' @ hex4 (length (concat (device_lines b (dw w)))) @
      concat (device_lines b (dw w))) w) \<and>
    unhex (hex4 (length (concat (device_lines b (dw w)))) @ concat (device_lines b (dw w))) 4 =
      Inr (of_nat (length (concat (device_lines b (dw w)))))"
proof -
  let ?l = "concat (device_lines b (dw w))"
  have f: "fitting 4096 (device_lines b (dw w)) = ?l" using assms(3) by (intro fitting_all) simp
  have h: "hex_pad4 (length ?l) = hex4 (length ?l)" "length (hex4 (length ?l)) = 4"
    using assms(3) by (simp_all add: hex_pad4_hex4 hex4_def)
  then have "okay_text ?l = bytes_of_str ''OKAY'' @ hex4 (length ?l) @ ?l"
    using assms(3) by (simp add: okay_text_def)
  moreover have "unhex (hex4 (length ?l) @ ?l) 4 = Inr (of_nat (length ?l))"
    using assms(3) by (intro unhex_hex4) simp
  moreover have "b \<longrightarrow> length ?l < 4096" by (rule impI) (use assms(3) in linarith)
  ultimately show ?thesis using host_devices_text [OF assms(1,2), of fd] f by presburger
qed

theorem devices_answer_complete_witness:
  "host_devices False 3 (demo_fwd\<lparr>dw := demo_devices\<rparr>) = Inr (reply 3 (bytes_of_str ''OKAY0018'' @
     (bytes_of_str ''usb1'' @ [9] @ bytes_of_str ''device'' @ [10]) @ bytes_of_str ''usb2'' @ [9] @ bytes_of_str ''device'' @ [10])
     (demo_fwd\<lparr>dw := demo_devices\<rparr>))"
  using devices_answer_complete [of False "demo_fwd\<lparr>dw := demo_devices\<rparr>" 3] demo_devices_listable
  by (simp add: demo_devices_lines printable_def bytes_of_str_def hex4_def hex_digit_def)

text \<open>
  A longer list is cut by the \<open>snprintf\<close> that puts the length in front: the answer announces more characters than follow, and
  the client waits for the rest.
\<close>

theorem devices_answer_cut:
  assumes "listable False (dw w)" and "printable False (dw w)" and "4087 < length (fitting 4096 (device_lines False (dw w)))"
  shows "\<exists>sent. host_devices False fd w = Inr (reply fd (bytes_of_str ''OKAY'' @
      hex4 (length (fitting 4096 (device_lines False (dw w)))) @ sent) w) \<and>
    length sent < length (fitting 4096 (device_lines False (dw w)))"
proof -
  let ?l = "fitting 4096 (device_lines False (dw w))"
  have l: "length ?l < 4096" by (rule length_fitting) simp
  then have "hex_pad4 (length ?l) = hex4 (length ?l)" "length (hex4 (length ?l)) = 4"
    by (simp_all add: hex_pad4_hex4 hex4_def)
  then have "okay_text ?l = bytes_of_str ''OKAY'' @ hex4 (length ?l) @ take 4087 ?l"
    by (simp add: okay_text_def)
  with host_devices_text [OF assms(1,2), of fd] assms(3) show ?thesis by auto
qed

lemma snprintf_at_outside: "length buf \<le> off \<Longrightarrow> 0 < n \<Longrightarrow> snprintf_at line off n buf = Inl (Fault OutOfBounds)"
  by (auto simp: snprintf_at_def Let_def)

lemma add_quals_outside:
  assumes "length buf \<le> off" and "0 < n"
  shows "add_quals qs (buf, off, n) = Inr (buf, off, n) \<or> add_quals qs (buf, off, n) = Inl (Fault OutOfBounds)"
proof (induction qs)
  case (Cons c qs)
  then show ?case using assms snprintf_at_outside [OF assms]
    by (cases c) (auto simp: add_qual_def Let_def split: option.splits)
qed simp

text \<open>
  A device whose serial number is longer than the room that is left makes the long list leave the buffer: the room that
  is left is unsigned and becomes huge, so the rest of the line is written behind the end.
\<close>

theorem long_list_overruns:
  assumes w: "transport_list w = t # ts" "trans w t = Some x" and n: "0 < n" "length buf = n" "n < 2 ^ 31"
    and h: "n < length (long_head x)" "length (long_head x) < 2 ^ 32"
  shows "list_transports buf n True w = Inl (Fault OutOfBounds)"
proof -
  let ?n = "of_nat n :: u32" and ?h = "long_head x"
  let ?r = "?n - of_nat (length ?h)"
  have u: "unat ?n = n" using n(3) by (intro unat_u32) simp
  then have "0 < ?n" using n(1) by (metis less_not_refl unat_0 word_gt_0)
  then obtain b0 where b0: "snprintf_at ?h 0 ?n buf = Inr b0" "prints ?h 0 n buf b0"
    using snprintf_at_prints [of ?n 0 buf ?h] n(2) u by auto
  have out: "length b0 \<le> length ?h" using b0(2) n(2) h(1) by (simp add: prints_def)
  have "unat (of_nat (length ?h) :: u32) = length ?h" using h(2) by (rule unat_u32)
  then have "?n \<noteq> of_nat (length ?h)" using u h(1) by (metis less_not_refl)
  then have r: "0 < ?r" by (simp add: word_gt_0)
  have "format_transport x True (buf, 0, ?n) =
      seq (add_quals (quals x) (b0, length ?h, ?r)) (\<lambda>(b, off, r). seq (snprintf_at [10] off r b) (\<lambda>b. Inr (?n - (r - 1), b)))"
    using b0(1) by (simp add: format_transport_def quals_def seq_assoc)
  also have "\<dots> = Inl (Fault OutOfBounds)"
    using add_quals_outside [OF out r, of "quals x"] snprintf_at_outside [OF out r] by auto
  finally show ?thesis by (simp add: list_transports_def w tget_def)
qed

theorem long_list_overruns_witness:
  "list_transports (replicate 20 0) 20 True demo_devices = Inl (Fault OutOfBounds)"
proof -
  have "length (long_head (demo_device ''usb1'')) = 29"
    by (simp add: long_head_def shown_serial_def demo_device_def statename_def CS_OFFLINE_def CS_BOOTLOADER_def CS_DEVICE_def
        bytes_of_str_def)
  then show ?thesis
    by (intro long_list_overruns [where t = 1 and ts = "[2]" and x = "demo_device ''usb1''"])
      (simp_all add: demo_devices_def)
qed

theorem devices_answer_cut_witness:
  "\<exists>sent. host_devices False 3 (demo_fwd\<lparr>dw := demo_adbd\<lparr>trans := [1 \<mapsto> demo_device (replicate 4080 (CHR ''a''))], transport_list := [1]\<rparr>\<rparr>) =
     Inr (reply 3 (bytes_of_str ''OKAY'' @ hex4 4088 @ sent)
       (demo_fwd\<lparr>dw := demo_adbd\<lparr>trans := [1 \<mapsto> demo_device (replicate 4080 (CHR ''a''))], transport_list := [1]\<rparr>\<rparr>)) \<and>
     length sent < 4088"
proof -
  let ?w = "demo_fwd\<lparr>dw := demo_adbd\<lparr>trans := [1 \<mapsto> demo_device (replicate 4080 (CHR ''a''))], transport_list := [1]\<rparr>\<rparr>"
  have l: "device_lines False (dw ?w) = [replicate 4080 97 @ [9] @ bytes_of_str ''device'' @ [10]]"
    by (simp add: device_lines_def demo_device_def line_of_def short_line_def shown_serial_def statename_def
      CS_OFFLINE_def CS_BOOTLOADER_def CS_DEVICE_def bytes_of_str_def)
  have f: "fitting 4096 (device_lines False (dw ?w)) = replicate 4080 97 @ [9] @ bytes_of_str ''device'' @ [10]"
    unfolding l by simp
  have "length (fitting 4096 (device_lines False (dw ?w))) = 4088" unfolding f by simp
  moreover have "listable False (dw ?w)" using l by (simp add: listable_def)
  moreover have "printable False (dw ?w)" unfolding printable_def l by (simp add: bytes_of_str_def)
  ultimately show ?thesis using devices_answer_cut [of ?w 3] by simp
qed

end
