(* ===== verification/Host_Names.thy ===== *)
theory Host_Names
  imports Transport
begin

text \<open>
  How a request names the device it is for (\<open>src/sockets.c\<close>): \<open>skip_host_serial\<close> finds the end of a serial number, which
  may contain colons itself, and the host build of \<open>smart_socket_enqueue\<close> splits a request into the kind of transport,
  the serial number and the request proper. Strings are the lists of their characters; a pointer into one
  is an offset.
\<close>

section \<open>The end of a serial number\<close>

definition colon :: byte where "colon = 58"

definition colon_at :: "byte list \<Rightarrow> nat option" where
  "colon_at s = (if colon \<in> set s then Some (length (takeWhile (\<lambda>b. b \<noteq> colon) s)) else None)"

definition serial_prefixes :: "string list" where
  "serial_prefixes = [''usb:'', ''product:'', ''model:'', ''device:'']"

text \<open>Behind the first colon: a port is a number that is followed by another colon.\<close>

definition port_end :: "byte list \<Rightarrow> nat \<Rightarrow> nat" where
  "port_end service first =
     (let rest = drop (first + 1) service; serial_end = first + 1 + length (takeWhile is_digit rest) in
      if rest \<noteq> [] \<and> is_digit (hd rest) \<and> serial_end < length service \<and> service ! serial_end = colon
      then serial_end else first)"

definition skip_host_serial :: "byte list \<Rightarrow> nat option" where
  "skip_host_serial service =
     (case find (\<lambda>p. starts p service) serial_prefixes of
        Some p \<Rightarrow> map_option (\<lambda>i. length p + i) (colon_at (drop (length p) service))
      | None \<Rightarrow> map_option (port_end service) (colon_at service))"

section \<open>The parts of a request\<close>

text \<open>The serial number, the kind of transport and the request; \<open>None\<close> for a request that is not for the host.\<close>

definition host_request :: "byte list \<Rightarrow> (byte list option \<times> transport_type \<times> byte list) option" where
  "host_request service =
     (if starts ''host-serial:'' service then
        let service = after ''host-serial:'' service in
        case skip_host_serial service of
          None \<Rightarrow> Some (None, kTransportAny, service)
        | Some e \<Rightarrow> Some (Some (take e service), kTransportAny, drop (e + 1) service)
      else if starts ''host-usb:'' service then Some (None, kTransportUsb, after ''host-usb:'' service)
      else if starts ''host-local:'' service then Some (None, kTransportLocal, after ''host-local:'' service)
      else if starts ''host:'' service then Some (None, kTransportAny, after ''host:'' service)
      else None)"

section \<open>Every serial number is found again\<close>

text \<open>
  The serial numbers a client can use: a qualifier with a value, a name and a port, or a name without a colon. A name that is
  one of the qualifiers is taken for it, and a request that starts with a number and a colon is taken for a port.
\<close>

definition has_qualifier :: "byte list \<Rightarrow> bool" where
  "has_qualifier ser \<longleftrightarrow> (\<exists>p \<in> set serial_prefixes. \<exists>v. ser = bytes_of_str p @ v \<and> colon \<notin> set v)"

definition with_port :: "byte list \<Rightarrow> bool" where
  "with_port ser \<longleftrightarrow>
     (\<exists>host port. ser = host @ colon # port \<and> colon \<notin> set host \<and> port \<noteq> [] \<and> (\<forall>b \<in> set port. is_digit b))"

definition plain_name :: "byte list \<Rightarrow> bool" where
  "plain_name ser \<longleftrightarrow> colon \<notin> set ser \<and> ser @ [colon] \<notin> bytes_of_str ` set serial_prefixes"

definition looks_like_port :: "byte list \<Rightarrow> bool" where
  "looks_like_port req \<longleftrightarrow>
     (\<exists>ds rest. req = ds @ colon # rest \<and> ds \<noteq> [] \<and> (\<forall>b \<in> set ds. is_digit b))"

lemma until_colon: "colon \<notin> set s \<Longrightarrow> takeWhile (\<lambda>b. b \<noteq> colon) (s @ colon # t) = s"
  by (subst takeWhile_append2) auto

lemma colon_at_append: "colon \<notin> set s \<Longrightarrow> colon_at (s @ colon # t) = Some (length s)"
  by (simp add: colon_at_def until_colon)

lemma colon_no_digit [simp]: "\<not> is_digit colon"
  by (simp add: is_digit_def colon_def)

lemma prefix_to_colon:
  assumes "colon \<notin> set a" and "colon \<notin> set b"
  shows "prefix (a @ [colon]) (b @ colon # t) \<longleftrightarrow> a = b"
proof
  assume "prefix (a @ [colon]) (b @ colon # t)"
  then obtain u where "b @ colon # t = a @ colon # u" by (auto simp: prefix_def)
  then have "takeWhile (\<lambda>c. c \<noteq> colon) (b @ colon # t) = takeWhile (\<lambda>c. c \<noteq> colon) (a @ colon # u)" by simp
  with assms show "a = b" by (simp add: until_colon)
qed simp

lemma prefixes_end: "p \<in> set serial_prefixes \<Longrightarrow> \<exists>a. bytes_of_str p = a @ [colon] \<and> colon \<notin> set a"
  by (auto simp: serial_prefixes_def bytes_of_str_def colon_def)

lemma starts_prefix:
  assumes "p \<in> set serial_prefixes" and "q \<in> set serial_prefixes"
  shows "starts q (bytes_of_str p @ r) \<longleftrightarrow> q = p"
proof -
  obtain a b where ab: "bytes_of_str p = a @ [colon]" "bytes_of_str q = b @ [colon]" "colon \<notin> set a" "colon \<notin> set b"
    using prefixes_end assms by meson
  then have "starts q (bytes_of_str p @ r) \<longleftrightarrow> bytes_of_str q = bytes_of_str p"
    using prefix_to_colon [OF ab(4,3), of r] by (auto simp: starts_def)
  then show ?thesis by (metis str_of_bytes_of_str)
qed

lemma find_prefix:
  assumes "p \<in> set serial_prefixes"
  shows "find (\<lambda>q. starts q (bytes_of_str p @ r)) serial_prefixes = Some p"
proof -
  have "find (\<lambda>q. starts q (bytes_of_str p @ r)) serial_prefixes = find (\<lambda>q. q = p) serial_prefixes"
    using starts_prefix [OF assms] by (intro find_cong) auto
  also have "\<dots> = Some p" using assms by (auto simp: serial_prefixes_def)
  finally show ?thesis .
qed

text \<open>Without a qualifier the first colon and the digits behind it decide.\<close>

lemma skip_host_serial_plain:
  assumes "colon \<notin> set a" and "a @ [colon] \<notin> bytes_of_str ` set serial_prefixes"
  shows "skip_host_serial (a @ colon # t) = Some (port_end (a @ colon # t) (length a))"
proof -
  have "\<not> starts p (a @ colon # t)" if p: "p \<in> set serial_prefixes" for p
    using prefixes_end [OF p] prefix_to_colon assms p by (force simp: starts_def)
  then have "find (\<lambda>p. starts p (a @ colon # t)) serial_prefixes = None" by (simp add: find_None_iff)
  then show ?thesis using colon_at_append [OF assms(1)] by (simp add: skip_host_serial_def)
qed

lemma skip_host_serial_qualifier:
  assumes "p \<in> set serial_prefixes" and "colon \<notin> set v"
  shows "skip_host_serial (bytes_of_str p @ v @ colon # t) = Some (length p + length v)"
  using find_prefix [OF assms(1), of "v @ colon # t"] colon_at_append [OF assms(2)] by (simp add: skip_host_serial_def)

lemma port_end_port:
  assumes "port \<noteq> []" and "\<forall>b \<in> set port. is_digit b"
  shows "port_end (a @ colon # port @ colon # t) (length a) = length a + 1 + length port"
proof -
  have "takeWhile is_digit (port @ colon # t) = port" using assms(2) by (simp add: takeWhile_append2)
  moreover have "is_digit (hd port)" using assms by simp
  ultimately show ?thesis using assms(1) by (simp add: port_end_def nth_append)
qed

lemma port_end_none:
  assumes "\<not> looks_like_port t"
  shows "port_end (a @ colon # t) (length a) = length a"
proof (rule ccontr)
  let ?ds = "takeWhile is_digit t"
  assume "\<not> ?thesis"
  then have t: "t \<noteq> []" "is_digit (hd t)" "length ?ds < length t" "t ! length ?ds = colon"
    by (auto simp: port_end_def Let_def nth_append split: if_splits)
  then have "t = ?ds @ colon # drop (Suc (length ?ds)) t"
    by (metis append_take_drop_id Cons_nth_drop_Suc takeWhile_eq_take)
  moreover have "?ds \<noteq> []" using t by (cases t) auto
  ultimately have "looks_like_port t" unfolding looks_like_port_def by (metis set_takeWhileD)
  with assms show False by simp
qed

text \<open>
  C24: A request for a device by its serial number is taken apart as it was put together: the serial number may be a name, a
  host and a port, or a qualifier such as \<open>usb:\<close> with a value.
\<close>

theorem host_serial_roundtrip:
  assumes "has_qualifier ser \<or> with_port ser \<or> plain_name ser \<and> \<not> looks_like_port req"
  shows "host_request (bytes_of_str ''host-serial:'' @ ser @ colon # req) = Some (Some ser, kTransportAny, req)"
proof -
  have "skip_host_serial (ser @ colon # req) = Some (length ser)"
  proof (cases "has_qualifier ser")
    case True
    then show ?thesis using skip_host_serial_qualifier by (force simp: has_qualifier_def)
  next
    case False
    show ?thesis
    proof (cases "with_port ser")
      case True
      then obtain host port where s: "ser = host @ colon # port" "colon \<notin> set host" "port \<noteq> []" "\<forall>b \<in> set port. is_digit b"
        by (auto simp: with_port_def)
      have "colon \<notin> set port" using s(4) colon_no_digit by blast
      then have "host @ [colon] \<notin> bytes_of_str ` set serial_prefixes"
        using False s(1) unfolding has_qualifier_def by (metis append.assoc append_Cons append_Nil imageE)
      with skip_host_serial_plain [OF s(2), of "port @ colon # req"] port_end_port [OF s(3,4)] s(1) show ?thesis by simp
    next
      case False
      with \<open>\<not> has_qualifier ser\<close> assms have "plain_name ser" "\<not> looks_like_port req" by auto
      then show ?thesis using skip_host_serial_plain [of ser req] port_end_none [of req ser]
        by (simp add: plain_name_def)
    qed
  qed
  then show ?thesis by (simp add: host_request_def starts_def after_def)
qed

theorem host_serial_roundtrip_witness:
  "host_request (bytes_of_str ''host-serial:10.0.0.2:5555:get-state'') =
     Some (Some (bytes_of_str ''10.0.0.2:5555''), kTransportAny, bytes_of_str ''get-state'')"
proof -
  have "with_port (bytes_of_str ''10.0.0.2:5555'')"
    unfolding with_port_def
    by (rule exI [of _ "bytes_of_str ''10.0.0.2''"], rule exI [of _ "bytes_of_str ''5555''"])
      (simp add: bytes_of_str_def colon_def is_digit_def)
  then show ?thesis
    using host_serial_roundtrip [of "bytes_of_str ''10.0.0.2:5555''" "bytes_of_str ''get-state''"]
    by (simp add: bytes_of_str_def colon_def)
qed

text \<open>
  A device whose serial number is the name of a qualifier cannot be addressed: its name is skipped and the search
  goes on in the request.
\<close>

theorem serial_named_like_qualifier:
  assumes "p \<in> set serial_prefixes" and "colon \<notin> set req"
  shows "host_request (bytes_of_str ''host-serial:'' @ bytes_of_str p @ req) =
    Some (None, kTransportAny, bytes_of_str p @ req)"
proof -
  from find_prefix [OF assms(1), of req] have "skip_host_serial (bytes_of_str p @ req) = None"
    using assms(2) by (simp add: skip_host_serial_def colon_at_def)
  then show ?thesis by (simp add: host_request_def starts_def after_def)
qed

theorem serial_named_like_qualifier_witness:
  "host_request (bytes_of_str ''host-serial:device:get-state'') =
     Some (None, kTransportAny, bytes_of_str ''device:get-state'')"
  using serial_named_like_qualifier [of "''device:''" "bytes_of_str ''get-state''"]
  by (simp add: serial_prefixes_def bytes_of_str_def colon_def)

end
