(* ===== verification/Emulators.thy ===== *)
theory Emulators
  imports Accept_Threads Device_List Host_Names
begin

text \<open>
  The host build: the table of emulators of \<open>src/transport_local.c\<close>, \<open>connect_device\<close> and \<open>connect_emulator\<close> of \<open>src/adb.c\<close> and the
  requests that only the host answers. The state is the one of the listeners with the table; a slot
  holds the address of a transport, so that looking at a transport that was freed is a fault.
\<close>

section \<open>State\<close>

definition ADB_LOCAL_TRANSPORT_MAX :: nat where "ADB_LOCAL_TRANSPORT_MAX = 16"

record hworld =
  lw :: lworld
  local_transports :: "nat option list"

definition ad :: "hworld \<Rightarrow> adbd" where "ad h = dw (lw h)"

definition set_ad :: "adbd \<Rightarrow> hworld \<Rightarrow> hworld" where
  "set_ad w h = h\<lparr>lw := (lw h)\<lparr>dw := w\<rparr>\<rparr>"

definition on_ad :: "(adbd \<Rightarrow> adbd res) \<Rightarrow> hworld \<Rightarrow> hworld res" where
  "on_ad f h = seq (f (ad h)) (\<lambda>w. Inr (set_ad w h))"

text \<open>
  What the kernel answers: the calls of the network clients, the contents of uninitialised memory, the
  address of a transport as it is printed.
\<close>

record host_env =
  hlisten :: listen_env
  net :: sock_env
  loopback :: sock_env
  adbhost :: "byte list option"
  byte99 :: byte
  port_junk :: int
  addr_text :: "nat \<Rightarrow> byte list"

section \<open>The table of emulators\<close>

fun find_emulator_from :: "nat option list \<Rightarrow> int \<Rightarrow> adbd \<Rightarrow> nat option res" where
  "find_emulator_from [] port w = Inr None"
| "find_emulator_from (None # ts) port w = find_emulator_from ts port w"
| "find_emulator_from (Some t # ts) port w =
     seq (tget t w) (\<lambda>x. if adb_port x = port then Inr (Some t) else find_emulator_from ts port w)"

definition find_emulator_transport_by_adb_port :: "int \<Rightarrow> hworld \<Rightarrow> nat option res" where
  "find_emulator_transport_by_adb_port port h = find_emulator_from (local_transports h) port (ad h)"

fun available_from :: "nat \<Rightarrow> nat option list \<Rightarrow> int" where
  "available_from i [] = -1"
| "available_from i (None # ts) = int i"
| "available_from i (Some t # ts) = available_from (i + 1) ts"

definition get_available_local_transport_index :: "hworld \<Rightarrow> int" where
  "get_available_local_transport_index h = available_from 0 (local_transports h)"

definition init_socket_transport_host ::
  "nat \<Rightarrow> int \<Rightarrow> int \<Rightarrow> bool \<Rightarrow> atransport \<Rightarrow> hworld \<Rightarrow> (int \<times> atransport \<times> hworld) res" where
  "init_socket_transport_host t s port local x h =
     (let x = snd (init_socket_transport s port local x) in
      if \<not> local then Inr (0, x, h)
      else
        let x = x\<lparr>adb_port := port\<rparr> in
        seq (find_emulator_transport_by_adb_port port h) (\<lambda>existing.
        let index = get_available_local_transport_index h in
        if existing \<noteq> None then Inr (-1, x, h)
        else if index < 0 then Inr (-1, x, h)
        else Inr (0, x, h\<lparr>local_transports := (local_transports h)[nat index := Some t]\<rparr>)))"

definition register_socket_transport_host ::
  "host_env \<Rightarrow> int \<Rightarrow> byte list option \<Rightarrow> int \<Rightarrow> bool \<Rightarrow> hworld \<Rightarrow> hworld res" where
  "register_socket_transport_host env s ser port local h =
     (let t = next_trans (ad h);
          name = (case ser of None \<Rightarrow> bytes_of_str ''T-'' @ addr_text env t | Some n \<Rightarrow> n) in
      seq (init_socket_transport_host t s port local zero_transport h) (\<lambda>(r, x, h).
      if r < 0 then Inr (set_ad (temit (CloseFd s) (ad h)) h)
      else on_ad (\<lambda>w. case new_transport (x\<lparr>serial := Some name\<rparr>) w of (t, w) \<Rightarrow> register_transport t w) h))"

text \<open>The loop of \<open>remote_kick\<close> over the table: the first slot with the transport is cleared.\<close>

fun clear_slot :: "nat \<Rightarrow> nat option list \<Rightarrow> nat option list" where
  "clear_slot t [] = []"
| "clear_slot t (s # ss) = (if s = Some t then None # ss else s # clear_slot t ss)"

definition remote_kick_host :: "nat \<Rightarrow> hworld \<Rightarrow> hworld res" where
  "remote_kick_host t h =
     seq (on_ad (local_remote_kick t) h) (\<lambda>h. Inr (h\<lparr>local_transports := clear_slot t (local_transports h)\<rparr>))"

definition transport_kick_host :: "nat \<Rightarrow> hworld \<Rightarrow> hworld res" where
  "transport_kick_host t h =
     seq (tget t (ad h)) (\<lambda>x. if ttype x = kTransportUsb then on_ad (usb_remote_kick t) h else remote_kick_host t h)"

definition kick_transport_host :: "nat \<Rightarrow> hworld \<Rightarrow> hworld res" where
  "kick_transport_host t h =
     seq (tget t (ad h)) (\<lambda>x.
     if kicked x then Inr h
     else seq (on_ad (tupd t (\<lambda>x. x\<lparr>kicked := True\<rparr>)) h) (transport_kick_host t))"

definition transport_unref_host :: "nat \<Rightarrow> hworld \<Rightarrow> hworld res" where
  "transport_unref_host t h =
     seq (on_ad (tupd t (\<lambda>x. x\<lparr>ref_count := ref_count x - 1\<rparr>)) h) (\<lambda>h.
     seq (tget t (ad h)) (\<lambda>x.
     if ref_count x = 0 then
       seq (kick_transport_host t h) (\<lambda>h. on_ad (\<lambda>w. seq (transport_close t w) (remove_transport t)) h)
     else Inr h))"

section \<open>Lists of transports\<close>

fun find_transport_from :: "nat list \<Rightarrow> byte list \<Rightarrow> adbd \<Rightarrow> nat option res" where
  "find_transport_from [] ser w = Inr None"
| "find_transport_from (t # ts) ser w =
     seq (tget t w) (\<lambda>x. if serial x = Some ser then Inr (Some t) else find_transport_from ts ser w)"

definition find_transport :: "byte list \<Rightarrow> hworld \<Rightarrow> nat option res" where
  "find_transport ser h = find_transport_from (transport_list (ad h)) ser (ad h)"

text \<open>
  The list of transports is a list of addresses here: taking one off is what the assignments to the links do when the transport is
  on the list, or was taken off and its neighbours are still the same. What they do when a transport
  is taken off a second time is the subject of \<open>Transport_Ring\<close>.
\<close>

definition unlink :: "nat \<Rightarrow> hworld \<Rightarrow> hworld" where
  "unlink t h = set_ad ((ad h)\<lparr>transport_list := remove1 t (transport_list (ad h))\<rparr>) h"

definition unregister_transport :: "nat \<Rightarrow> hworld \<Rightarrow> hworld res" where
  "unregister_transport t h = seq (kick_transport_host t (unlink t h)) (transport_unref_host t)"

fun unregister_tcp_from :: "nat list \<Rightarrow> hworld \<Rightarrow> hworld res" where
  "unregister_tcp_from [] h = Inr h"
| "unregister_tcp_from (t # ts) h =
     seq (tget t (ad h)) (\<lambda>x.
     if ttype x = kTransportLocal \<and> adb_port x = 0 then
       seq (kick_transport_host t (unlink t h)) (\<lambda>h. seq (transport_unref_host t h) (unregister_tcp_from ts))
     else unregister_tcp_from ts h)"

definition unregister_all_tcp_transports :: "hworld \<Rightarrow> hworld res" where
  "unregister_all_tcp_transports h = unregister_tcp_from (transport_list (ad h)) h"

fun close_usb_from :: "nat list \<Rightarrow> hworld \<Rightarrow> hworld res" where
  "close_usb_from [] h = Inr h"
| "close_usb_from (t # ts) h = seq (kick_transport_host t h) (close_usb_from ts)"

definition close_usb_devices :: "hworld \<Rightarrow> hworld res" where
  "close_usb_devices h = close_usb_from (transport_list (ad h)) h"

section \<open>Connecting\<close>

definition dec_int :: "int \<Rightarrow> byte list" where
  "dec_int n = (if n < 0 then 45 # dec_digits (nat (- n)) else dec_digits (nat n))"

definition local_connect_ports_host :: "host_env \<Rightarrow> int \<Rightarrow> int \<Rightarrow> hworld \<Rightarrow> (int \<times> hworld) res" where
  "local_connect_ports_host env console_port port h =
     (let fd = (case adbhost env of None \<Rightarrow> -1 | Some host \<Rightarrow> fst (socket_network_client (net env) port));
          fd = (if fd < 0 then fst (socket_loopback_client (loopback env) port) else fd) in
      if fd \<ge> 0 then
        let buf = take 63 (bytes_of_str LOCAL_CLIENT_PREFIX @ dec_int console_port) in
        seq (register_socket_transport_host env fd (Some buf) port True h) (\<lambda>h. Inr (0, h))
      else Inr (-1, h))"

definition local_connect_host :: "host_env \<Rightarrow> int \<Rightarrow> hworld \<Rightarrow> (int \<times> hworld) res" where
  "local_connect_host env port h = local_connect_ports_host env (port - 1) port h"

text \<open>\<open>client_socket_thread\<close>: one environment for each of the attempts, on every second port.\<close>

fun client_loop :: "host_env list \<Rightarrow> int \<Rightarrow> hworld \<Rightarrow> hworld res" where
  "client_loop [] port h = Inr h"
| "client_loop (env # envs) port h = seq (local_connect_host env port h) (\<lambda>(_, h). client_loop envs (port + 2) h)"

definition client_socket_thread :: "(nat \<Rightarrow> host_env) \<Rightarrow> hworld \<Rightarrow> hworld res" where
  "client_socket_thread envs h = client_loop (map envs [0..<ADB_LOCAL_TRANSPORT_MAX]) DEFAULT_ADB_LOCAL_TRANSPORT_PORT h"

text \<open>
  \<open>connect_device\<close>: the host name is copied into an array of 100 bytes, of which \<open>strncpy\<close> sets 99; what is before
  the first zero is used as the name. The result is the message, cut to the buffer of the caller.
\<close>

definition hostbuf :: "host_env \<Rightarrow> byte list \<Rightarrow> nat option \<Rightarrow> byte list" where
  "hostbuf env host i =
     (let b = take 99 (host @ replicate 99 0) @ [byte99 env] in case i of None \<Rightarrow> b | Some i \<Rightarrow> b[i := 0])"

definition message :: "string \<Rightarrow> byte list \<Rightarrow> byte list" where
  "message s bs = take 4095 (bytes_of_str s @ bs)"

definition connect_host :: "host_env \<Rightarrow> byte list \<Rightarrow> byte list \<Rightarrow> int \<Rightarrow> hworld \<Rightarrow> (byte list \<times> hworld) res" where
  "connect_host env host name port h =
     (let ser = take 99 (name @ [colon] @ dec_int port) in
      seq (find_transport ser h) (\<lambda>known.
      if known \<noteq> None then Inr (message ''already connected to '' ser, h)
      else
        let fd = fst (socket_network_client (net env) port) in
        if fd < 0 then Inr (message ''unable to connect to '' (host @ [colon] @ dec_int port), h)
        else
          seq (register_socket_transport_host env fd (Some ser) port False h) (\<lambda>h.
          Inr (message ''connected to '' ser, h))))"

definition connect_device :: "host_env \<Rightarrow> byte list \<Rightarrow> hworld \<Rightarrow> (byte list \<times> hworld) res" where
  "connect_device env host h =
     (let portstr = colon_at host in
      if (case portstr of None \<Rightarrow> False | Some i \<Rightarrow> i \<ge> 100) then Inr (message ''bad host name '' host, h)
      else
        let scanned = (case portstr of None \<Rightarrow> Scanned DEFAULT_ADB_LOCAL_TRANSPORT_PORT | Some i \<Rightarrow> scan_dec (drop (i + 1) host)) in
        if scanned = ScanNone then Inr (message ''bad port number '' (drop (the portstr) host), h)
        else
          let port = (case scanned of Scanned n \<Rightarrow> n | _ \<Rightarrow> port_junk env) in
          case c_string (hostbuf env host portstr) of
            None \<Rightarrow> Inl (Fault OutOfBounds)
          | Some name \<Rightarrow> connect_host env host name port h)"

text \<open>\<open>strtol(s, NULL, 0)\<close> with a \<open>long\<close> of 32 bits: blanks, a sign, \<open>0x\<close> or \<open>0\<close> for the base, digits; the value is clamped.\<close>

definition digit_value :: "byte \<Rightarrow> nat option" where
  "digit_value b =
     (if is_digit b then Some (unat b - 48)
      else if 97 \<le> b \<and> b \<le> 122 then Some (unat b - 87)
      else if 65 \<le> b \<and> b \<le> 90 then Some (unat b - 55)
      else None)"

fun base_value :: "nat \<Rightarrow> byte list \<Rightarrow> nat \<Rightarrow> nat" where
  "base_value base [] n = n"
| "base_value base (b # bs) n =
     (case digit_value b of None \<Rightarrow> n | Some d \<Rightarrow> if d < base then base_value base bs (n * base + d) else n)"

definition is_hex :: "byte \<Rightarrow> bool" where
  "is_hex b \<longleftrightarrow> (case digit_value b of None \<Rightarrow> False | Some d \<Rightarrow> d < 16)"

fun magnitude :: "byte list \<Rightarrow> nat" where
  "magnitude (z # x # d # ds) =
     (if z = 48 \<and> (x = 120 \<or> x = 88) \<and> is_hex d then base_value 16 (d # ds) 0
      else if z = 48 then base_value 8 (x # d # ds) 0
      else base_value 10 (z # x # d # ds) 0)"
| "magnitude ds = base_value (if ds \<noteq> [] \<and> hd ds = 48 then 8 else 10) ds 0"

definition strtol :: "byte list \<Rightarrow> int" where
  "strtol s =
     (case dropWhile is_space s of
        [] \<Rightarrow> 0
      | c # r \<Rightarrow>
          let v = (if c = 45 then - int (magnitude r) else if c = 43 then int (magnitude r) else int (magnitude (c # r))) in
          max (- (2 ^ 31)) (min (2 ^ 31 - 1) v))"

definition comma_at :: "byte list \<Rightarrow> nat option" where
  "comma_at s = (if 44 \<in> set s then Some (length (takeWhile (\<lambda>b. b \<noteq> 44) s)) else None)"

definition connect_emulator :: "host_env \<Rightarrow> byte list \<Rightarrow> hworld \<Rightarrow> (byte list \<times> hworld) res" where
  "connect_emulator env port_spec h =
     (case comma_at port_spec of
        None \<Rightarrow> Inr (message ''unable to parse '' ([39] @ port_spec @ [39] @ bytes_of_str '' as <console port>,<adb port>''), h)
      | Some i \<Rightarrow>
          let console_port = strtol (take i port_spec); port = strtol (drop (i + 1) port_spec);
              ports = dec_int console_port @ [44] @ dec_int port in
          if \<not> (console_port > 0 \<and> port > 0) then
            Inr (message ''Invalid port numbers: Expected positive numbers, got '' ([39] @ port_spec @ [39]), h)
          else
            seq (find_emulator_transport_by_adb_port port h) (\<lambda>known.
            if known \<noteq> None then
              Inr (message ''Emulator on port '' (dec_int port @ bytes_of_str '' already registered.''), h)
            else if get_available_local_transport_index h < 0 then Inr (message ''Cannot accept more emulators.'' [], h)
            else
              seq (local_connect_ports_host env console_port port h) (\<lambda>(r, h).
              if r = 0 then Inr (message ''Connected to emulator on ports '' ports, h)
              else Inr (message ''Could not connect to emulator on ports '' ports, h))))"

section \<open>The requests of the host\<close>

definition hreply :: "int \<Rightarrow> byte list \<Rightarrow> hworld \<Rightarrow> hworld" where
  "hreply fd bs h = h\<lparr>lw := reply fd bs (lw h)\<rparr>"

text \<open>\<open>transport...\<close>: the transport that the client talks to from now on.\<close>

definition switch_type :: "byte list \<Rightarrow> byte list option \<Rightarrow> transport_type \<times> byte list option" where
  "switch_type service ser =
     (if starts ''transport-usb'' service then (kTransportUsb, ser)
      else if starts ''transport-local'' service then (kTransportLocal, ser)
      else if starts ''transport-any'' service then (kTransportAny, ser)
      else if starts ''transport:'' service then (kTransportAny, Some (after ''transport:'' service))
      else (kTransportAny, ser))"

text \<open>A search that accepts any state does not wait.\<close>

definition acquire_now :: "transport_type \<Rightarrow> byte list option \<Rightarrow> hworld \<Rightarrow> (string + nat) res" where
  "acquire_now ty ser h =
     seq (acquire_one_transport CS_ANY ty ser [ad h]) (\<lambda>r. Inr (case r of Some x \<Rightarrow> x | None \<Rightarrow> Inl []))"

definition switch_transport :: "byte list \<Rightarrow> byte list option \<Rightarrow> int \<Rightarrow> hworld \<Rightarrow> (nat option \<times> hworld) res" where
  "switch_transport service ser fd h =
     (case switch_type service ser of (ty, ser) \<Rightarrow>
      seq (acquire_now ty ser h) (\<lambda>r.
      case r of
        Inr t \<Rightarrow> Inr (Some t, hreply fd (bytes_of_str ''OKAY'') h)
      | Inl err \<Rightarrow> Inr (None, h\<lparr>lw := reply_fail fd err (lw h)\<rparr>)))"

definition disconnect_device :: "byte list \<Rightarrow> hworld \<Rightarrow> (byte list \<times> hworld) res" where
  "disconnect_device ser h =
     (if ser = [] then seq (unregister_all_tcp_transports h) (\<lambda>h. Inr ([], h))
      else
        let ser = (if colon \<in> set ser then ser else take 98 (ser @ bytes_of_str '':5555'')) in
        seq (find_transport ser h) (\<lambda>t.
        case t of
          Some t \<Rightarrow> seq (unregister_transport t h) (\<lambda>h. Inr ([], h))
        | None \<Rightarrow> Inr (message ''No such device '' ser, h)))"

text \<open>\<open>get-serialno\<close> and \<open>get-devpath\<close>: a text of the one transport, or \<open>unknown\<close>.\<close>

definition text_of_transport ::
  "(atransport \<Rightarrow> byte list option) \<Rightarrow> transport_type \<Rightarrow> byte list option \<Rightarrow> hworld \<Rightarrow> byte list res" where
  "text_of_transport f ty ser h =
     seq (acquire_now ty ser h) (\<lambda>r.
     case r of
       Inl _ \<Rightarrow> Inr (bytes_of_str ''unknown'')
     | Inr t \<Rightarrow> seq (tget t (ad h)) (\<lambda>x. Inr (case f x of None \<Rightarrow> bytes_of_str ''unknown'' | Some s \<Rightarrow> s)))"

definition ADB_SERVER_VERSION :: nat where "ADB_SERVER_VERSION = 31"

text \<open>
  The branches of \<open>handle_host_request\<close> that only the host has, in front of the others. The result has the
  value of the function and the transport the client switched to. \<open>kill\<close> ends the process; the \<open>OKAY\<close> it writes to
  the client before has no state to be recorded in.
\<close>

definition handle_host_request_host ::
  "host_env \<Rightarrow> byte list \<Rightarrow> transport_type \<Rightarrow> byte list option \<Rightarrow> int \<Rightarrow> hworld \<Rightarrow> (int \<times> nat option \<times> hworld) res" where
  "handle_host_request_host env service ty ser fd h =
     (if service = bytes_of_str ''kill'' then Inl (Exit 0)
      else if starts ''transport'' service then
        seq (switch_transport service ser fd h) (\<lambda>(t, h). Inr (1, t, h))
      else if starts ''devices'' service then
        let opt = after ''devices'' service in
        if opt = bytes_of_str ''-l'' \<or> opt = [] then
          seq (host_devices (opt \<noteq> []) fd (lw h)) (\<lambda>w. Inr (0, None, h\<lparr>lw := w\<rparr>))
        else Inr (0, None, h)
      else if starts ''connect:'' service then
        let host = after ''connect:'' service in
        seq (if starts ''emu:'' host then connect_emulator env (after ''emu:'' host) h else connect_device env host h) (\<lambda>(m, h).
        Inr (0, None, hreply fd (okay_text m) h))
      else if starts ''disconnect:'' service then
        seq (disconnect_device (after ''disconnect:'' service) h) (\<lambda>(m, h). Inr (0, None, hreply fd (okay_text m) h))
      else if service = bytes_of_str ''version'' then
        Inr (0, None, hreply fd (okay_text (hex_pad4 ADB_SERVER_VERSION)) h)
      else if starts ''get-serialno'' service then
        seq (text_of_transport serial ty ser h) (\<lambda>s. Inr (0, None, hreply fd (okay_text s) h))
      else if starts ''get-devpath'' service then
        seq (text_of_transport devpath ty ser h) (\<lambda>s. Inr (0, None, hreply fd (okay_text s) h))
      else if starts ''emulator:'' service then
        seq (local_connect_host env (atoi (after ''emulator:'' service)) h) (\<lambda>(_, h). Inr (0, None, h))
      else
        seq (handle_host_request (hlisten env) service ty ser fd (lw h)) (\<lambda>(r, w). Inr (r, None, h\<lparr>lw := w\<rparr>)))"

end
