(* ===== verification/Host_Server.thy ===== *)
theory Host_Server
  imports Emulators
begin

text \<open>
  What the host build guarantees: the table of emulators never holds a transport that is gone or two for one port, however
  registrations, kicks and removals follow each other; what a request to connect does; and that a host name of 99
  characters or more is not terminated.
\<close>

section \<open>The invariant of the table\<close>

definition slots :: "hworld \<Rightarrow> nat list" where
  "slots h = concat (map (\<lambda>s. case s of None \<Rightarrow> [] | Some t \<Rightarrow> [t]) (local_transports h))"

definition port_of :: "hworld \<Rightarrow> nat \<Rightarrow> int" where
  "port_of h t = adb_port (the (trans (ad h) t))"

definition einv :: "hworld \<Rightarrow> bool" where
  "einv h \<longleftrightarrow>
     length (local_transports h) = ADB_LOCAL_TRANSPORT_MAX \<and> distinct (map (port_of h) (slots h)) \<and>
     (\<forall>t \<in> set (slots h). \<exists>x. trans (ad h) t = Some x \<and> ttype x = kTransportLocal \<and> \<not> kicked x) \<and>
     (\<forall>t \<ge> next_trans (ad h). trans (ad h) t = None) \<and>
     (\<forall>(t, a) \<in> set (reg_pipe (ad h)). t < next_trans (ad h) \<and> (a = 0 \<longrightarrow> t \<notin> set (slots h)))"

lemma ad_simps [simp]:
  "ad (set_ad w h) = w" "local_transports (set_ad w h) = local_transports h" "ad (h\<lparr>local_transports := ts\<rparr>) = ad h"
  "slots (set_ad w h) = slots h" "set_ad w (set_ad v h) = set_ad w h"
  "(set_ad w h)\<lparr>local_transports := ts\<rparr> = set_ad w (h\<lparr>local_transports := ts\<rparr>)"
  by (simp_all add: ad_def set_ad_def slots_def)

lemma slots_iff: "t \<in> set (slots h) \<longleftrightarrow> Some t \<in> set (local_transports h)"
  by (force simp: slots_def split: option.splits)

lemma einvD:
  assumes "einv h"
  shows "distinct (map (port_of h) (slots h))" "distinct (slots h)"
    "t \<in> set (slots h) \<Longrightarrow> \<exists>x. trans (ad h) t = Some x \<and> ttype x = kTransportLocal \<and> \<not> kicked x"
    "t \<ge> next_trans (ad h) \<Longrightarrow> trans (ad h) t = None" "length (local_transports h) = ADB_LOCAL_TRANSPORT_MAX"
    "(t, a) \<in> set (reg_pipe (ad h)) \<Longrightarrow> t < next_trans (ad h)"
    "(t, 0) \<in> set (reg_pipe (ad h)) \<Longrightarrow> t \<notin> set (slots h)"
  using assms distinct_map by (auto simp: einv_def)

lemma einv_fresh: "einv h \<Longrightarrow> next_trans (ad h) \<notin> set (slots h)"
  using einvD(3,4) [of h "next_trans (ad h)"] by auto

text \<open>
  A change of the transports that keeps the ports, the kinds and the flags of those in the table, and sends no
  message to the main thread.
\<close>

lemma einv_frame:
  assumes "einv h" and "next_trans w = next_trans (ad h)" and "\<And>t. t \<ge> next_trans w \<Longrightarrow> trans w t = None"
    and "\<And>t x. t \<in> set (slots h) \<Longrightarrow> trans (ad h) t = Some x \<Longrightarrow>
      \<exists>y. trans w t = Some y \<and> adb_port y = adb_port x \<and> ttype y = ttype x \<and> kicked y = kicked x"
    and "set (reg_pipe w) \<subseteq> set (reg_pipe (ad h))"
  shows "einv (set_ad w h)"
proof -
  have p: "port_of (set_ad w h) t = port_of h t" if "t \<in> set (slots h)" for t
    using einvD(3) [OF assms(1) that] assms(4) [OF that] by (force simp: port_of_def)
  then have "map (port_of (set_ad w h)) (slots h) = map (port_of h) (slots h)" by simp
  then have "distinct (map (port_of (set_ad w h)) (slots h))" using einvD(1) [OF assms(1)] by (simp only:)
  moreover have "\<exists>y. trans w t = Some y \<and> ttype y = kTransportLocal \<and> \<not> kicked y" if "t \<in> set (slots h)" for t
    using einvD(3) [OF assms(1) that] assms(4) [OF that] by force
  moreover have "\<forall>(t, a) \<in> set (reg_pipe w). t < next_trans w \<and> (a = 0 \<longrightarrow> t \<notin> set (slots h))"
    using assms(2,5) einvD(6,7) [OF assms(1)] by fastforce
  ultimately show ?thesis
    using assms(2,3) einvD(5) [OF assms(1)] by (simp add: einv_def)
qed

section \<open>Searching the table\<close>

lemma find_emulator_eq:
  assumes "\<forall>t. Some t \<in> set ts \<longrightarrow> trans w t \<noteq> None"
  shows "find_emulator_from ts port w =
    Inr (find (\<lambda>t. adb_port (the (trans w t)) = port) (concat (map (\<lambda>s. case s of None \<Rightarrow> [] | Some t \<Rightarrow> [t]) ts)))"
  using assms by (induction ts port w rule: find_emulator_from.induct) (auto simp: tget_def)

lemma find_emulator: "einv h \<Longrightarrow> find_emulator_transport_by_adb_port port h = Inr (find (\<lambda>t. port_of h t = port) (slots h))"
  using find_emulator_eq [of "local_transports h" "ad h" port] einvD(3) [of h]
  by (force simp: find_emulator_transport_by_adb_port_def slots_def [symmetric] port_of_def slots_iff)

lemma available_from_None: "None \<notin> set ts \<Longrightarrow> available_from i ts = -1"
  by (induction i ts rule: available_from.induct) auto

lemma available_from_Some:
  "None \<in> set ts \<Longrightarrow> \<exists>us vs. ts = us @ None # vs \<and> available_from i ts = int (i + length us)"
proof (induction i ts rule: available_from.induct)
  case (2 i ts)
  show ?case by (intro exI [of _ "[]"] exI [of _ ts]) simp
next
  case (3 i t ts)
  then obtain us vs where "ts = us @ None # vs" "available_from (i + 1) ts = int (i + 1 + length us)" by auto
  then show ?case by (intro exI [of _ "Some t # us"] exI [of _ vs]) simp
qed simp

section \<open>Registration\<close>

text \<open>A port that is taken and a table that is full refuse the transport.\<close>

definition refused :: "int \<Rightarrow> hworld \<Rightarrow> bool" where
  "refused port h \<longleftrightarrow> port \<in> port_of h ` set (slots h) \<or> None \<notin> set (local_transports h)"

lemma init_socket_transport_host_refused:
  assumes "einv h" and "refused port h"
  shows "\<exists>x. init_socket_transport_host t s port True z h = Inr (-1, x, h)"
proof -
  note f = find_emulator [OF assms(1), of port]
  show ?thesis
  proof (cases "find (\<lambda>t. port_of h t = port) (slots h)")
    case None
    then have "port \<notin> port_of h ` set (slots h)" by (auto simp: find_None_iff)
    with assms(2) have "get_available_local_transport_index h = -1"
      by (simp add: refused_def get_available_local_transport_index_def available_from_None)
    with f None show ?thesis by (simp add: init_socket_transport_host_def)
  next
    case (Some e)
    with f show ?thesis by (simp add: init_socket_transport_host_def)
  qed
qed

lemma init_socket_transport_host_accepted:
  assumes "einv h" and "\<not> refused port h"
  obtains us vs where "local_transports h = us @ None # vs"
    and "init_socket_transport_host t s port True z h =
      Inr (0, (snd (init_socket_transport s port True z))\<lparr>adb_port := port\<rparr>, h\<lparr>local_transports := us @ Some t # vs\<rparr>)"
proof -
  from assms(2) have p: "port \<notin> port_of h ` set (slots h)" and n: "None \<in> set (local_transports h)"
    by (auto simp: refused_def)
  from available_from_Some [OF n, of 0] obtain us vs where l: "local_transports h = us @ None # vs"
      "get_available_local_transport_index h = int (length us)"
    by (auto simp: get_available_local_transport_index_def)
  from p have "find (\<lambda>t. port_of h t = port) (slots h) = None" by (auto simp: find_None_iff)
  with find_emulator [OF assms(1), of port] l show thesis
    by (intro that [of us vs]) (simp_all add: init_socket_transport_host_def)
qed

text \<open>
  What registering an emulator does: it is refused and its descriptor closed, or it gets a free slot and is announced.
\<close>

lemma register_refused:
  assumes "einv h" and "refused port h"
  shows "register_socket_transport_host env s (Some name) port True h = Inr (set_ad (temit (CloseFd s) (ad h)) h)"
proof -
  obtain x where "init_socket_transport_host (next_trans (ad h)) s port True zero_transport h = Inr (-1, x, h)"
    using init_socket_transport_host_refused [OF assms] by blast
  then show ?thesis by (simp add: register_socket_transport_host_def Let_def)
qed

definition new_emulator :: "int \<Rightarrow> byte list \<Rightarrow> int \<Rightarrow> atransport" where
  "new_emulator s name port = (snd (init_socket_transport s port True zero_transport))\<lparr>adb_port := port, serial := Some name\<rparr>"

definition announced :: "atransport \<Rightarrow> adbd \<Rightarrow> adbd" where
  "announced x w = w\<lparr>trans := (trans w)(next_trans w \<mapsto> x), next_trans := next_trans w + 1,
     reg_pipe := reg_pipe w @ [(next_trans w, 1)]\<rparr>"

lemma register_accepted:
  assumes "einv h" and "\<not> refused port h" and "reg_ok (ad h)"
  obtains us vs where "local_transports h = us @ None # vs"
    and "register_socket_transport_host env s (Some name) port True h =
      Inr (set_ad (announced (new_emulator s name port) (ad h)) (h\<lparr>local_transports := us @ Some (next_trans (ad h)) # vs\<rparr>))"
proof -
  obtain us vs where l: "local_transports h = us @ None # vs"
    and i: "init_socket_transport_host (next_trans (ad h)) s port True zero_transport h =
      Inr (0, (snd (init_socket_transport s port True zero_transport))\<lparr>adb_port := port\<rparr>,
        h\<lparr>local_transports := us @ Some (next_trans (ad h)) # vs\<rparr>)"
    using init_socket_transport_host_accepted [OF assms(1,2)] by blast
  show thesis
    by (rule that [OF l]) (use i assms(3) in \<open>simp add: register_socket_transport_host_def Let_def on_ad_def new_transport_def
      register_transport_def announced_def new_emulator_def\<close>)
qed

lemma einv_announced:
  assumes h: "einv h" and l: "local_transports h = us @ None # vs" and p: "\<not> refused port h"
  shows "einv (set_ad (announced (new_emulator s name port) (ad h)) (h\<lparr>local_transports := us @ Some (next_trans (ad h)) # vs\<rparr>))"
    (is "einv ?h'")
proof -
  let ?f = "\<lambda>s. case s of None \<Rightarrow> [] | Some t \<Rightarrow> [t]" and ?n = "next_trans (ad h)"
  let ?us = "concat (map ?f us)" and ?vs = "concat (map ?f vs)"
  have s: "slots h = ?us @ ?vs" "slots ?h' = ?us @ ?n # ?vs" by (simp_all add: slots_def l)
  have fresh: "?n \<notin> set (?us @ ?vs)" using einv_fresh [OF h] by (simp add: s)
  have old: "trans (ad ?h') t = trans (ad h) t" "port_of ?h' t = port_of h t" if "t \<in> set (?us @ ?vs)" for t
    using that fresh by (auto simp: announced_def port_of_def)
  have new: "port_of ?h' ?n = port" "trans (ad ?h') ?n = Some (new_emulator s name port)"
    by (simp_all add: announced_def port_of_def new_emulator_def)
  have "port \<notin> port_of h ` set (?us @ ?vs)" using p by (simp add: refused_def s)
  then have "distinct (map (port_of h) ?us @ port # map (port_of h) ?vs)"
    using einvD(1) [OF h] by (simp only: s map_append distinct_append distinct.simps set_map set_append) auto
  moreover have "map (port_of ?h') (slots ?h') = map (port_of h) ?us @ port # map (port_of h) ?vs"
    unfolding s(2) map_append list.map using old(2) new(1) by (intro arg_cong2 [where f = append] arg_cong2 [where f = Cons]) simp_all
  ultimately have "distinct (map (port_of ?h') (slots ?h'))" by (simp only:)
  moreover have "\<exists>x. trans (ad ?h') t = Some x \<and> ttype x = kTransportLocal \<and> \<not> kicked x" if "t \<in> set (slots ?h')" for t
  proof (cases "t = ?n")
    case True
    then show ?thesis using new(2) by (simp add: new_emulator_def init_socket_transport_def zero_transport_def)
  next
    case False
    have t: "t \<in> set (?us @ ?vs)" using that False unfolding s(2) by simp
    then show ?thesis using einvD(3) [OF h, of t] old(1) [OF t] by (simp add: s(1))
  qed
  moreover have "length (local_transports ?h') = ADB_LOCAL_TRANSPORT_MAX" using einvD(5) [OF h] by (simp add: l)
  moreover have "\<forall>t \<ge> next_trans (ad ?h'). trans (ad ?h') t = None" using einvD(4) [OF h] by (simp add: announced_def)
  moreover have "\<forall>(t, a) \<in> set (reg_pipe (ad ?h')). t < next_trans (ad ?h') \<and> (a = 0 \<longrightarrow> t \<notin> set (slots ?h'))"
    using einvD(6,7) [OF h] unfolding s by (fastforce simp: announced_def)
  ultimately show ?thesis by (simp add: einv_def)
qed

section \<open>Kicks\<close>

lemma slots_clear: "slots (h\<lparr>local_transports := clear_slot t (local_transports h)\<rparr>) = remove1 t (slots h)"
proof -
  have "concat (map (\<lambda>s. case s of None \<Rightarrow> [] | Some t \<Rightarrow> [t]) (clear_slot t ss)) =
      remove1 t (concat (map (\<lambda>s. case s of None \<Rightarrow> [] | Some t \<Rightarrow> [t]) ss))" for ss
    by (induction t ss rule: clear_slot.induct) (auto split: option.splits)
  then show ?thesis by (simp add: slots_def)
qed

lemma length_clear_slot [simp]: "length (clear_slot t ss) = length ss"
  by (induction t ss rule: clear_slot.induct) auto

lemma einv_clear:
  assumes "einv h"
  shows "einv (h\<lparr>local_transports := clear_slot t (local_transports h)\<rparr>)"
  using assms unfolding einv_def slots_clear
  by (auto simp: port_of_def [abs_def] distinct_map intro: inj_on_subset dest: in_set_remove1 [THEN iffD1, rotated] notin_set_remove1)

text \<open>Kicking a live transport: it loses its slot and is marked; nothing else in the table changes.\<close>

lemma kick_transport_host_safe:
  assumes h: "einv h" and x: "trans (ad h) t = Some x"
  obtains h' y where "kick_transport_host t h = Inr h'" "einv h'" "slots h' = remove1 t (slots h)"
    "trans (ad h') = (trans (ad h))(t \<mapsto> y)" "kicked y" "adb_port y = adb_port x" "ttype y = ttype x" "ref_count y = ref_count x"
    "next_trans (ad h') = next_trans (ad h)" "reg_ok (ad h') = reg_ok (ad h)" "transport_list (ad h') = transport_list (ad h)"
    "reg_pipe (ad h') = reg_pipe (ad h)"
proof (cases "kicked x")
  case True
  then have "t \<notin> set (slots h)" using einvD(3) [OF h, of t] x by auto
  then have "remove1 t (slots h) = slots h" by (rule remove1_idem)
  moreover have "(trans (ad h))(t \<mapsto> x) = trans (ad h)" using x by auto
  ultimately show thesis using True h x by (intro that [of h x]) (simp_all add: kick_transport_host_def tget_def)
next
  case False
  have n: "t < next_trans (ad h)" using einvD(4) [OF h, of t] x by (cases "t < next_trans (ad h)") auto
  show thesis
  proof (cases "ttype x = kTransportUsb")
    case True
    then have t: "t \<notin> set (slots h)" using einvD(3) [OF h, of t] x by auto
    let ?y = "x\<lparr>kicked := True\<rparr>"
    let ?w = "temit (UsbKick (usb x)) ((ad h)\<lparr>trans := (trans (ad h))(t \<mapsto> ?y)\<rparr>)"
    have "kick_transport_host t h = Inr (set_ad ?w h)"
      using x False True by (simp add: kick_transport_host_def transport_kick_host_def on_ad_def tupd_def tget_def
          usb_remote_kick_def)
    moreover have "einv (set_ad ?w h)" using h t n einvD(4) [OF h] by (intro einv_frame) auto
    ultimately show thesis using t by (intro that [of "set_ad ?w h" ?y]) (simp_all add: remove1_idem)
  next
    case local: False
    let ?y = "x\<lparr>kicked := True, tsfd := -1\<rparr>" and ?h = "h\<lparr>local_transports := clear_slot t (local_transports h)\<rparr>"
    let ?w = "temit (CloseFd (tsfd x)) (temit (Shutdown (tsfd x)) ((ad h)\<lparr>trans := (trans (ad h))(t \<mapsto> ?y)\<rparr>))"
    have "kick_transport_host t h = Inr (set_ad ?w ?h)"
      using x False local by (simp add: kick_transport_host_def transport_kick_host_def remote_kick_host_def on_ad_def tupd_def
          tget_def local_remote_kick_def)
    moreover have "einv (set_ad ?w ?h)"
      using einv_clear [OF h] einvD(2) [OF h] einvD(4) [OF h] n by (intro einv_frame) (auto simp: slots_clear)
    ultimately show thesis by (intro that [of "set_ad ?w ?h" ?y]) (simp_all add: slots_clear)
  qed
qed

lemma einv_keep_table:
  assumes "einv h" and "trans (ad h) t = Some x" and "next_trans w = next_trans (ad h)"
    and "trans w = (trans (ad h))(t \<mapsto> y)" and "adb_port y = adb_port x" and "ttype y = ttype x" and "kicked y = kicked x"
    and "reg_pipe w = reg_pipe (ad h)"
  shows "einv (set_ad w h)"
proof (rule einv_frame [OF assms(1,3)])
  fix t'
  assume "t' \<ge> next_trans w"
  then have "trans (ad h) t' = None" using einvD(4) [OF assms(1)] assms(3) by simp
  with assms(2,4) show "trans w t' = None" by (auto simp: fun_upd_def)
next
  fix t' x'
  assume "trans (ad h) t' = Some x'"
  with assms(2,4,5,6,7) show "\<exists>y. trans w t' = Some y \<and> adb_port y = adb_port x' \<and> ttype y = ttype x' \<and> kicked y = kicked x'"
    by (cases "t' = t") simp_all
qed (simp add: assms(8))

lemma einv_post:
  assumes "einv h" and "t \<notin> set (slots h)" and "trans (ad h) t \<noteq> None"
  shows "einv (set_ad ((ad h)\<lparr>reg_pipe := reg_pipe (ad h) @ [(t, 0)]\<rparr>) h)"
proof -
  have "t < next_trans (ad h)" using einvD(4) [OF assms(1), of t] assms(3) by (cases "t < next_trans (ad h)") auto
  with assms(1,2) show ?thesis by (simp add: einv_def port_of_def [abs_def])
qed

text \<open>Giving up a reference: the last one kicks, closes and announces the removal.\<close>

lemma transport_unref_host_safe:
  assumes h: "einv h" and x: "trans (ad h) t = Some x"
  shows "safe_res (\<lambda>h'. einv h' \<and> set (slots h') \<subseteq> set (slots h) \<and> dom (trans (ad h')) = dom (trans (ad h)) \<and>
    transport_list (ad h') = transport_list (ad h)) (transport_unref_host t h)"
proof -
  let ?x = "x\<lparr>ref_count := ref_count x - 1\<rparr>"
  let ?h = "set_ad ((ad h)\<lparr>trans := (trans (ad h))(t \<mapsto> ?x)\<rparr>) h"
  have i: "einv ?h" by (rule einv_keep_table [OF h x, where y = ?x]) simp_all
  have d: "dom (trans (ad ?h)) = dom (trans (ad h))" using x by auto
  show ?thesis
  proof (cases "ref_count ?x = 0")
    case False
    then show ?thesis using i d x by (simp add: transport_unref_host_def on_ad_def tupd_def tget_def)
  next
    case True
    obtain h2 y where k: "kick_transport_host t ?h = Inr h2" "einv h2" "slots h2 = remove1 t (slots h)"
        "trans (ad h2) = (trans (ad ?h))(t \<mapsto> y)" "next_trans (ad h2) = next_trans (ad h)"
        "transport_list (ad h2) = transport_list (ad h)" "reg_pipe (ad h2) = reg_pipe (ad h)"
      by (rule kick_transport_host_safe [OF i, of t ?x]) auto
    have y: "trans (ad h2) t = Some y" using k(4) by simp
    have u: "transport_unref_host t h = on_ad (\<lambda>w. seq (transport_close t w) (remove_transport t)) h2"
      using x True k(1) by (simp add: transport_unref_host_def on_ad_def tupd_def tget_def)
    have "\<exists>w z. transport_close t (ad h2) = Inr w \<and> trans w = (trans (ad h2))(t \<mapsto> z) \<and> adb_port z = adb_port y \<and>
        ttype z = ttype y \<and> kicked z = kicked y \<and> next_trans w = next_trans (ad h2) \<and> transport_list w = transport_list (ad h2) \<and>
        reg_pipe w = reg_pipe (ad h2)"
    proof (cases "ttype y = kTransportUsb")
      case True
      then show ?thesis using y by (intro exI [of _ "temit (UsbClose (usb y)) (ad h2) \<lparr>trans := (trans (ad h2))(t \<mapsto> y\<lparr>usb := None\<rparr>)\<rparr>"]
            exI [of _ "y\<lparr>usb := None\<rparr>"]) (simp add: transport_close_def usb_remote_close_def tget_def tupd_def)
    next
      case False
      then show ?thesis using y by (intro exI [of _ "close_pipes y (ad h2)"] exI [of _ y])
          (auto simp: transport_close_def local_remote_close_def close_pipes_def tget_def)
    qed
    then obtain w z where w: "transport_close t (ad h2) = Inr w" "trans w = (trans (ad h2))(t \<mapsto> z)"
        "adb_port z = adb_port y" "ttype z = ttype y" "kicked z = kicked y" "next_trans w = next_trans (ad h2)"
        "transport_list w = transport_list (ad h2)" "reg_pipe w = reg_pipe (ad h2)" by blast
    have iw: "einv (set_ad w h2)" by (rule einv_keep_table [OF k(2) y, where y = z]) (use w in simp_all)
    have "t \<notin> set (slots (set_ad w h2))" using einvD(2) [OF h] k(3) by simp
    then have "einv (set_ad (w\<lparr>reg_pipe := reg_pipe w @ [(t, 0)]\<rparr>) h2)"
      using einv_post [OF iw, of t] w(2) by simp
    moreover have "dom (trans w) = dom (trans (ad h))" using w(2) k(4) x by auto
    ultimately show ?thesis using u w k(3,6) by (auto simp: on_ad_def remove_transport_def dest: set_remove1_subset [THEN subsetD])
  qed
qed

section \<open>Every order of operations\<close>

text \<open>
  What happens to the table and the transports, in any order: emulators and devices are registered, transports are kicked and
  unregistered, a thread gives up its reference, the main thread takes a message off the registration pipe, which
  starts a transport or frees one, and the rest of the program changes transports without touching their port, their
  kind and the mark. No condition says that a transport that is freed has left the table: that
  only a transport that was kicked is ever announced for removal is a part of the invariant.
\<close>

definition tview :: "atransport option \<Rightarrow> (int \<times> transport_type \<times> bool) option" where
  "tview = map_option (\<lambda>x. (adb_port x, ttype x, kicked x))"

inductive hreach :: "hworld \<Rightarrow> bool" where
  start: "local_transports h = replicate ADB_LOCAL_TRANSPORT_MAX None \<Longrightarrow> \<forall>t \<ge> next_trans (ad h). trans (ad h) t = None \<Longrightarrow>
    reg_pipe (ad h) = [] \<Longrightarrow> hreach h"
| register: "hreach h \<Longrightarrow> register_socket_transport_host env s ser port local h = Inr h' \<Longrightarrow> hreach h'"
| register_usb: "hreach h \<Longrightarrow> on_ad (register_usb_transport u ser path writeable) h = Inr h' \<Longrightarrow> hreach h'"
| kick: "hreach h \<Longrightarrow> trans (ad h) t \<noteq> None \<Longrightarrow> kick_transport_host t h = Inr h' \<Longrightarrow> hreach h'"
| unref: "hreach h \<Longrightarrow> trans (ad h) t \<noteq> None \<Longrightarrow> transport_unref_host t h = Inr h' \<Longrightarrow> hreach h'"
| unregister: "hreach h \<Longrightarrow> trans (ad h) t \<noteq> None \<Longrightarrow> unregister_transport t h = Inr h' \<Longrightarrow> hreach h'"
| message: "hreach h \<Longrightarrow> on_ad (transport_registration_func senv FDE_READ) h = Inr h' \<Longrightarrow> hreach h'"
| other: "hreach h \<Longrightarrow> next_trans w = next_trans (ad h) \<Longrightarrow> reg_pipe w = reg_pipe (ad h) \<Longrightarrow>
    \<forall>t. tview (trans w t) = tview (trans (ad h) t) \<Longrightarrow> hreach (set_ad w h)"

text \<open>What a message does: a removal frees its transport; a registration keeps the port, the kind and the mark of all.\<close>

lemma tupd_frame:
  assumes "tupd t f w = Inr w'" and "\<And>x. tview (Some (f x)) = tview (Some x)"
  shows "next_trans w' = next_trans w" "reg_pipe w' = reg_pipe w" "tview (trans w' u) = tview (trans w u)"
  using assms by (auto simp: tupd_def tget_def seq_eq_Inr split: option.splits)

lemma start_frame:
  assumes "start_transport senv t w = Inr w'"
  shows "next_trans w' = next_trans w \<and> reg_pipe w' = reg_pipe w \<and> (\<forall>u. tview (trans w' u) = tview (trans w u))"
proof -
  obtain r0 r1 s0 s1 where p: "io_to_main senv = Some (r0, r1)" "main_to_io senv = Some (s0, s1)"
    using assms by (cases "io_to_main senv"; cases "main_to_io senv") (auto simp: start_transport_def seq_eq_Inr)
  from assms obtain w1 w2 where
    u: "tupd t (\<lambda>x. x\<lparr>ref_count := 2\<rparr>) w = Inr w1"
      "tupd t (\<lambda>x. x\<lparr>fd_read := s0, fd_write := r1, transport_read := r0, transport_write := s1\<rparr>) w1 = Inr w2"
    and w': "next_trans w' = next_trans w2" "reg_pipe w' = reg_pipe w2" "trans w' = trans w2"
    by (auto simp: start_transport_def p seq_eq_Inr Let_def split: if_splits)
  note f1 = tupd_frame [OF u(1)] and f2 = tupd_frame [OF u(2)]
  show ?thesis using w' f1 f2 by (simp add: tview_def)
qed

lemma registration_frame:
  assumes "transport_registration_func senv FDE_READ w = Inr w'"
  shows "\<exists>t a ms. reg_pipe w = (t, a) # ms \<and> reg_pipe w' = ms \<and> next_trans w' = next_trans w \<and>
    (if a = 0 then trans w' = (trans w)(t := None) else \<forall>u. tview (trans w' u) = tview (trans w u))"
proof -
  have r: "FDE_READ AND FDE_READ \<noteq> 0" by (simp add: FDE_READ_def)
  with assms obtain t a ms where m: "reg_pipe w = (t, a) # ms" by (auto simp: transport_registration_func_def split: list.splits)
  let ?w = "w\<lparr>reg_pipe := ms\<rparr>"
  have "reg_pipe w' = ms \<and> next_trans w' = next_trans w \<and>
      (if a = 0 then trans w' = (trans w)(t := None) else \<forall>u. tview (trans w' u) = tview (trans w u))"
  proof (cases "a = 0")
    case True
    with assms m have "drop_transport t ?w = Inr w'" by (simp add: transport_registration_func_def FDE_READ_def)
    then show ?thesis using True
      by (auto simp: drop_transport_def on_socks_def seq_eq_Inr Let_def close_pipes_def)
  next
    case False
    with assms m obtain w1 where "w' = enlist_transport t w1" "w1 = ?w \<or> start_transport senv t ?w = Inr w1"
      by (auto simp: transport_registration_func_def Let_def FDE_READ_def seq_eq_Inr split: if_splits)
    with start_frame [of senv t ?w w1] False show ?thesis
      by (auto simp: enlist_transport_def Let_def)
  qed
  with m show ?thesis by blast
qed

lemma einv_attach:
  assumes "einv h"
  shows "einv (set_ad (announced x (ad h)) h)"
proof -
  have f: "next_trans (ad h) \<notin> set (slots h)" by (rule einv_fresh [OF assms])
  have "map (port_of (set_ad (announced x (ad h)) h)) (slots h) = map (port_of h) (slots h)"
    using f by (auto simp: port_of_def announced_def)
  then have "distinct (map (port_of (set_ad (announced x (ad h)) h)) (slots h))" using einvD(1) [OF assms] by (simp only:)
  moreover have "\<forall>(t, a) \<in> set (reg_pipe (announced x (ad h))). t < next_trans (announced x (ad h)) \<and> (a = 0 \<longrightarrow> t \<notin> set (slots h))"
    using einvD(6,7) [OF assms] by (fastforce simp: announced_def)
  ultimately show ?thesis using assms f einvD(3) [OF assms] by (auto simp: einv_def announced_def)
qed

lemma register_safe:
  assumes "einv h"
  shows "safe_res einv (register_socket_transport_host env s ser port local h)"
proof (cases "local")
  case False
  then show ?thesis
    using einv_attach [OF assms]
    by (simp add: register_socket_transport_host_def Let_def init_socket_transport_host_def on_ad_def new_transport_def
        register_transport_def announced_def)
next
  case True
  obtain name where n: "register_socket_transport_host env s ser port local h =
      register_socket_transport_host env s (Some name) port True h"
    using True by (cases ser) (simp_all add: register_socket_transport_host_def Let_def)
  show ?thesis
  proof (cases "refused port h")
    case True
    have "einv (set_ad (temit (CloseFd s) (ad h)) h)" using assms by (intro einv_frame) (auto dest: einvD(4))
    with register_refused [OF assms True] n show ?thesis by simp
  next
    case False
    show ?thesis
    proof (cases "reg_ok (ad h)")
      case True
      from register_accepted [OF assms False True, of env s name] einv_announced [OF assms _ False, of _ _ s name] n
      show ?thesis by fastforce
    next
      case r: False
      from init_socket_transport_host_accepted [OF assms False, of "next_trans (ad h)" s zero_transport] n r show ?thesis
        by (fastforce simp: register_socket_transport_host_def Let_def on_ad_def new_transport_def register_transport_def)
    qed
  qed
qed

lemma unregister_safe:
  assumes "einv h" and "trans (ad h) t \<noteq> None"
  shows "safe_res einv (unregister_transport t h)"
proof -
  obtain x where x: "trans (ad (unlink t h)) t = Some x" using assms(2) by (auto simp: unlink_def)
  have "einv (unlink t h)" unfolding unlink_def using assms(1) by (intro einv_frame) (auto dest: einvD(4))
  then obtain h' y where k: "kick_transport_host t (unlink t h) = Inr h'" "einv h'" "trans (ad h') = (trans (ad (unlink t h)))(t \<mapsto> y)"
    using kick_transport_host_safe [OF _ x] by metis
  have "safe_res einv (transport_unref_host t h')"
    by (rule safe_res_mono [OF transport_unref_host_safe [OF k(2), of t y]]) (use k(3) in auto)
  with k(1) show ?thesis by (simp add: unregister_transport_def)
qed

lemma tview_Some: "tview z = tview (Some x) \<Longrightarrow> \<exists>y. z = Some y \<and> adb_port y = adb_port x \<and> ttype y = ttype x \<and> kicked y = kicked x"
  by (cases z) (auto simp: tview_def)

lemma tview_None [simp]: "tview z = tview None \<longleftrightarrow> z = None"
  by (simp add: tview_def)

lemma einv_view:
  assumes "einv h" and "next_trans w = next_trans (ad h)" and "set (reg_pipe w) \<subseteq> set (reg_pipe (ad h))"
    and "\<And>t. tview (trans w t) = tview (trans (ad h) t)"
  shows "einv (set_ad w h)"
proof (rule einv_frame [OF assms(1,2) _ _ assms(3)])
  show "trans w t = None" if "t \<ge> next_trans w" for t
    using assms(4) [of t] einvD(4) [OF assms(1), of t] that assms(2) by simp
  show "\<exists>y. trans w t = Some y \<and> adb_port y = adb_port x \<and> ttype y = ttype x \<and> kicked y = kicked x"
    if "trans (ad h) t = Some x" for t x
    using assms(4) [of t] that by (auto dest: tview_Some)
qed

text \<open>A message keeps the invariant: a transport that is announced for removal is not in the table.\<close>

lemma einv_message:
  assumes h: "einv h" and m: "\<exists>t a ms. reg_pipe (ad h) = (t, a) # ms \<and> reg_pipe w = ms \<and> next_trans w = next_trans (ad h) \<and>
      (if a = 0 then trans w = (trans (ad h))(t := None) else \<forall>u. tview (trans w u) = tview (trans (ad h) u))"
  shows "einv (set_ad w h)"
proof -
  from m obtain t a ms where m: "reg_pipe (ad h) = (t, a) # ms" "reg_pipe w = ms" "next_trans w = next_trans (ad h)"
      "if a = 0 then trans w = (trans (ad h))(t := None) else \<forall>u. tview (trans w u) = tview (trans (ad h) u)" by blast
  show ?thesis
  proof (cases "a = 0")
    case True
    then have "t \<notin> set (slots h)" using einvD(7) [OF h, of t] m(1) by simp
    then show ?thesis
      by (intro einv_frame [OF h m(3)]) (use m True einvD(4) [OF h] in auto)
  next
    case False
    then show ?thesis by (intro einv_view [OF h m(3)]) (use m in auto)
  qed
qed

lemma hreach_einv: "hreach h \<Longrightarrow> einv h"
proof (induction h rule: hreach.induct)
  case (start h)
  then have "slots h = []" by (simp add: slots_def)
  with start show ?case by (simp add: einv_def)
next
  case (register h env s ser port local h')
  then show ?case using register_safe [of h env s ser port local] by simp
next
  case (kick h t h')
  then show ?case using kick_transport_host_safe [of h t] by (metis not_None_eq Inr_inject)
next
  case (unregister h t h')
  then show ?case using unregister_safe [of h t] by simp
next
  case (unref h t h')
  then obtain x where "trans (ad h) t = Some x" by blast
  with transport_unref_host_safe [OF unref.IH this] unref.hyps show ?case by simp
next
  case (register_usb h u ser path writeable h')
  then show ?case using einv_attach [OF register_usb.IH]
    by (auto simp: on_ad_def register_usb_transport_def new_transport_def register_transport_def Let_def announced_def
        split: if_splits)
next
  case (message h senv h')
  then obtain w where w: "transport_registration_func senv FDE_READ (ad h) = Inr w" "h' = set_ad w h"
    by (auto simp: on_ad_def seq_eq_Inr)
  show ?case unfolding w(2)
  proof (rule einv_message [OF message.IH])
    show "\<exists>t a ms. reg_pipe (ad h) = (t, a) # ms \<and> reg_pipe w = ms \<and> next_trans w = next_trans (ad h) \<and>
      (if a = 0 then trans w = (trans (ad h))(t := None) else \<forall>u. tview (trans w u) = tview (trans (ad h) u))"
      by (rule registration_frame [OF w(1)])
  qed
next
  case (other h w)
  then show ?case using einv_view [OF other.IH, of w] by simp
qed

text \<open>
  C23: However registrations, kicks, removals, released references and the messages of the registration pipe follow each
  other, the table of emulators has at most one transport for a port, all of them alive and not kicked, and neither a search nor a registration nor the removal of a live
  transport meets a transport that is gone.
\<close>

theorem emulator_table_safe:
  assumes "hreach h"
  shows "distinct (map (\<lambda>t. adb_port (the (trans (ad h) t))) (slots h)) \<and> length (slots h) \<le> 16 \<and>
    (\<forall>t. Some t \<in> set (local_transports h) \<longrightarrow> (\<exists>x. trans (ad h) t = Some x \<and> ttype x = kTransportLocal \<and> \<not> kicked x)) \<and>
    (\<forall>port. find_emulator_transport_by_adb_port port h = Inr (find (\<lambda>t. adb_port (the (trans (ad h) t)) = port) (slots h))) \<and>
    (\<forall>env s ser port local f. register_socket_transport_host env s ser port local h \<noteq> Inl (Fault f)) \<and>
    (\<forall>t f. trans (ad h) t \<noteq> None \<longrightarrow> unregister_transport t h \<noteq> Inl (Fault f))"
proof -
  have h: "einv h" by (rule hreach_einv [OF assms])
  have "length (concat (map (\<lambda>s. case s of None \<Rightarrow> [] | Some t \<Rightarrow> [t]) ss)) \<le> length ss" for ss :: "nat option list"
    by (induction ss) (auto split: option.splits)
  then have "length (slots h) \<le> 16" using einvD(5) [OF h] by (simp add: slots_def ADB_LOCAL_TRANSPORT_MAX_def) (metis)
  then show ?thesis
    using einvD(1) [OF h] einvD(3) [OF h] find_emulator [OF h] safe_res_not_fault [OF register_safe [OF h]]
      safe_res_not_fault [OF unregister_safe [OF h]]
    by (simp add: port_of_def [abs_def] slots_iff)
qed

text \<open>
  Registering an emulator takes a free slot and announces one transport with its port, or, when the port is taken or all
  sixteen slots are, closes the descriptor and changes nothing else.
\<close>

theorem emulator_registration:
  assumes "hreach h" and "reg_ok (ad h)"
  shows "if port \<in> port_of h ` set (slots h) \<or> None \<notin> set (local_transports h)
    then register_socket_transport_host env s (Some name) port True h = Inr (set_ad (temit (CloseFd s) (ad h)) h)
    else \<exists>h' x. register_socket_transport_host env s (Some name) port True h = Inr h' \<and>
      trans (ad h') = (trans (ad h))(next_trans (ad h) \<mapsto> x) \<and> adb_port x = port \<and> tsfd x = s \<and> serial x = Some name \<and>
      reg_pipe (ad h') = reg_pipe (ad h) @ [(next_trans (ad h), 1)] \<and>
      set (slots h') = insert (next_trans (ad h)) (set (slots h))"
proof (cases "refused port h")
  case True
  with register_refused [OF hreach_einv [OF assms(1)] True, of env s name] show ?thesis by (simp add: refused_def)
next
  case False
  have "\<exists>h' x. register_socket_transport_host env s (Some name) port True h = Inr h' \<and>
      trans (ad h') = (trans (ad h))(next_trans (ad h) \<mapsto> x) \<and> adb_port x = port \<and> tsfd x = s \<and> serial x = Some name \<and>
      reg_pipe (ad h') = reg_pipe (ad h) @ [(next_trans (ad h), 1)] \<and>
      set (slots h') = insert (next_trans (ad h)) (set (slots h))"
  proof -
    obtain us vs where l: "local_transports h = us @ None # vs" and e: "register_socket_transport_host env s (Some name) port True h =
        Inr (set_ad (announced (new_emulator s name port) (ad h)) (h\<lparr>local_transports := us @ Some (next_trans (ad h)) # vs\<rparr>))"
      using register_accepted [OF hreach_einv [OF assms(1)] False assms(2)] by blast
    show ?thesis unfolding e
      by (intro exI conjI, rule refl)
        (auto simp: announced_def new_emulator_def init_socket_transport_def slots_iff slots_def l)
  qed
  with False show ?thesis by (simp add: refused_def)
qed

section \<open>Connecting to a device\<close>

lemma scan_dec_dec_digits: "scan_dec (dec_digits n) = Scanned (int n)"
proof -
  from dec_digits_facts [of n "[]" 0] obtain c r where c: "dec_digits n = c # r" "is_digit c" "dec_value (c # r) 0 = n"
    by (cases "dec_digits n") auto
  have "\<not> is_space c" "c \<noteq> 45" "c \<noteq> 43" using c(2) by (auto simp: is_digit_def is_space_def word_le_nat_alt)
  with c show ?thesis by (simp add: scan_dec_def)
qed

lemma hostbuf_name:
  assumes "0 \<notin> set host" and "length host \<le> 99"
  shows "c_string (hostbuf env (host @ rest) (Some (length host))) = Some host"
proof -
  let ?b = "take 99 ((host @ rest) @ replicate 99 0) @ [byte99 env]"
  have "take (length host) ?b = host" using assms(2) by (simp add: min_def)
  moreover have "length host < length ?b" using assms(2) by simp
  ultimately have "hostbuf env (host @ rest) (Some (length host)) = host @ 0 # drop (Suc (length host)) ?b"
    unfolding hostbuf_def Let_def option.case by (metis upd_conv_take_nth_drop)
  moreover have "takeWhile (\<lambda>b. b \<noteq> 0) (host @ 0 # ys) = host" for ys
    using assms(1) by (subst takeWhile_append2) auto
  ultimately show ?thesis by (simp add: c_string_def)
qed

lemma find_transport_none:
  "\<forall>t \<in> set ts. \<exists>x. trans w t = Some x \<and> serial x \<noteq> Some ser \<Longrightarrow> find_transport_from ts ser w = Inr None"
  by (induction ts) (auto simp: tget_def)

text \<open>
  Connecting to a host and a port that is not known yet makes one new transport, whose serial number is the address, announces
  it once and says so.
\<close>

theorem connect_device_registers:
  assumes "colon \<notin> set host" and "0 \<notin> set host" and "length host \<le> 90" and "port < 65536"
    and "\<forall>t \<in> set (transport_list (ad h)). \<exists>x. trans (ad h) t = Some x \<and> serial x \<noteq> Some (host @ colon # dec_digits port)"
    and "fst (socket_network_client (net env) (int port)) = fd" and "fd \<ge> 0" and "reg_ok (ad h)"
  shows "\<exists>x. connect_device env (host @ colon # dec_digits port) h =
      Inr (bytes_of_str ''connected to '' @ host @ colon # dec_digits port, set_ad (announced x (ad h)) h) \<and>
    serial x = Some (host @ colon # dec_digits port) \<and> tsfd x = fd \<and> ttype x = kTransportLocal \<and> adb_port x = 0"
proof -
  let ?ser = "host @ colon # dec_digits port"
  have "length (dec_digits port) \<le> Suc 4" using assms(4) by (intro length_dec_digits) simp
  note len = this
  have "connect_device env ?ser h = connect_host env ?ser host (int port) h"
    using colon_at_append [OF assms(1), of "dec_digits port"] scan_dec_dec_digits [of port] assms(3)
      hostbuf_name [OF assms(2), of env "colon # dec_digits port"]
    by (simp add: connect_device_def)
  also have "\<dots> = seq (register_socket_transport_host env fd (Some ?ser) (int port) False h)
      (\<lambda>h. Inr (bytes_of_str ''connected to '' @ ?ser, h))"
    using find_transport_none [OF assms(5)] assms(3,6,7) len
    by (simp add: connect_host_def find_transport_def dec_int_def message_def Let_def)
  finally have c: "connect_device env ?ser h = \<dots>" .
  let ?x = "(snd (init_socket_transport fd (int port) False zero_transport))\<lparr>serial := Some ?ser\<rparr>"
  have "register_socket_transport_host env fd (Some ?ser) (int port) False h = Inr (set_ad (announced ?x (ad h)) h)"
    using assms(8) by (simp add: register_socket_transport_host_def Let_def init_socket_transport_host_def on_ad_def new_transport_def
        register_transport_def announced_def)
  with c show ?thesis by (intro exI [of _ ?x]) (simp add: init_socket_transport_def)
qed

text \<open>
  A host name of 99 characters or more without a port fills the array, \<open>strncpy\<close> does not terminate it, and what follows
  reads past its end unless the last byte happens to be zero.
\<close>

theorem connect_device_unterminated:
  assumes "colon \<notin> set host" and "0 \<notin> set host" and "length host \<ge> 99" and "byte99 env \<noteq> 0"
  shows "connect_device env host h = Inl (Fault OutOfBounds)"
proof -
  have "0 \<notin> set (hostbuf env host None)"
    using assms(2,3,4) in_set_takeD [of 0 99 host] by (auto simp: hostbuf_def)
  then have "c_string (hostbuf env host None) = None" by (simp add: c_string_def)
  then show ?thesis using assms(1) by (simp add: connect_device_def colon_at_def)
qed

section \<open>Witnesses\<close>

definition demo_net :: sock_env where
  "demo_net = \<lparr>new_socket = 7, connect_ok = True, bind_ok = True, listen_ok = True, host_addr = Some [10, 0, 0, 2]\<rparr>"

definition demo_host_env :: host_env where
  "demo_host_env = \<lparr>hlisten = demo_listen, net = demo_net, loopback = demo_net, adbhost = None, byte99 = 1, port_junk = 0,
     addr_text = (\<lambda>_. [])\<rparr>"

definition demo_host :: hworld where
  "demo_host = \<lparr>lw = demo_fwd\<lparr>dw := demo_devices\<lparr>next_trans := 3\<rparr>\<rparr>, local_transports = replicate ADB_LOCAL_TRANSPORT_MAX None\<rparr>"

lemma demo_host_reach: "hreach demo_host"
  by (rule hreach.start) (auto simp: demo_host_def ad_def demo_devices_def demo_adbd_def)

lemma demo_host_slots: "slots demo_host = []"
  by (simp add: slots_def demo_host_def)

lemma demo_host_ok: "reg_ok (ad demo_host)" "next_trans (ad demo_host) = 3" "None \<in> set (local_transports demo_host)"
  by (simp_all add: demo_host_def ad_def demo_devices_def demo_adbd_def ADB_LOCAL_TRANSPORT_MAX_def)

theorem emulator_registration_witness:
  "\<exists>h' x. register_socket_transport_host demo_host_env 7 (Some (bytes_of_str ''emulator-5554'')) 5555 True demo_host = Inr h' \<and>
     trans (ad h') 3 = Some x \<and> adb_port x = 5555 \<and> set (slots h') = {3}"
  using emulator_registration [OF demo_host_reach demo_host_ok(1), of 5555 demo_host_env 7 "bytes_of_str ''emulator-5554''"]
    demo_host_ok(2,3) by (auto simp: demo_host_slots)

theorem emulator_table_safe_witness:
  "\<exists>h'. register_socket_transport_host demo_host_env 7 (Some (bytes_of_str ''emulator-5554'')) 5555 True demo_host = Inr h' \<and>
     find_emulator_transport_by_adb_port 5555 h' = Inr (Some 3) \<and>
     (\<forall>f. unregister_transport 3 h' \<noteq> Inl (Fault f))"
proof -
  let ?n = "bytes_of_str ''emulator-5554''"
  have "\<not> refused 5555 demo_host" using demo_host_ok(3) by (simp add: refused_def demo_host_slots)
  then obtain us vs where l: "local_transports demo_host = us @ None # vs"
    and r: "register_socket_transport_host demo_host_env 7 (Some ?n) 5555 True demo_host =
      Inr (set_ad (announced (new_emulator 7 ?n 5555) (ad demo_host)) (demo_host\<lparr>local_transports := us @ Some 3 # vs\<rparr>))"
    using register_accepted [OF hreach_einv [OF demo_host_reach] _ demo_host_ok(1), of 5555 demo_host_env 7 ?n] demo_host_ok(2) by auto
  let ?h = "set_ad (announced (new_emulator 7 ?n 5555) (ad demo_host)) (demo_host\<lparr>local_transports := us @ Some 3 # vs\<rparr>)"
  have "hreach ?h" by (rule hreach.register [OF demo_host_reach r])
  note safe = emulator_table_safe [OF this]
  have "set (slots ?h) = insert 3 (set (slots demo_host))" by (auto simp: slots_iff l)
  moreover have "distinct (slots ?h)" by (rule einvD(2) [OF hreach_einv [OF \<open>hreach ?h\<close>]])
  ultimately have "slots ?h = [3]" using demo_host_slots distinct_card [of "slots ?h"]
    by (cases "slots ?h") (auto simp: card_insert_if)
  moreover have "trans (ad ?h) 3 = Some (new_emulator 7 ?n 5555)" using demo_host_ok(2) by (simp add: announced_def)
  moreover have "adb_port (new_emulator 7 ?n 5555) = 5555" by (simp add: new_emulator_def)
  ultimately show ?thesis using r safe by (intro exI [of _ ?h]) simp
qed

theorem connect_device_registers_witness:
  "\<exists>x. connect_device demo_host_env (bytes_of_str ''10.0.0.2'' @ colon # dec_digits 5555) demo_host =
     Inr (bytes_of_str ''connected to '' @ bytes_of_str ''10.0.0.2'' @ colon # dec_digits 5555,
       set_ad (announced x (ad demo_host)) demo_host) \<and> tsfd x = 7"
proof -
  have d: "dec_digits 5555 = [53, 53, 53, 53]" by (simp add: dec_digits.simps)
  have "\<forall>t \<in> set (transport_list (ad demo_host)). \<exists>x. trans (ad demo_host) t = Some x \<and>
      serial x \<noteq> Some (bytes_of_str ''10.0.0.2'' @ colon # dec_digits 5555)"
    by (simp add: demo_host_def ad_def demo_devices_def demo_device_def d bytes_of_str_def colon_def)
  moreover have "fst (socket_network_client (net demo_host_env) (int 5555)) = 7"
    by (simp add: demo_host_env_def demo_net_def socket_network_client_def inet_client_def)
  ultimately show ?thesis
    using connect_device_registers [of "bytes_of_str ''10.0.0.2''" 5555 demo_host demo_host_env 7] demo_host_ok(1)
    by (auto simp: bytes_of_str_def colon_def)
qed

theorem connect_device_unterminated_witness:
  "connect_device demo_host_env (replicate 99 97) demo_host = Inl (Fault OutOfBounds)"
  by (rule connect_device_unterminated) (simp_all add: colon_def demo_host_env_def)

end
