(* ===== verification/Host_Services.thy ===== *)
theory Host_Services
  imports Service_Delivery Transport
begin

text \<open>
  The services of the host build (\<open>src/services.c\<close>): \<open>dns_service\<close>, \<open>wait_for_state\<close> and the names that \<open>host_service_to_socket\<close> knows. A
  thread that waits for a device looks at the daemon at one moment after the other.
\<close>

section \<open>Threads\<close>

text \<open>\<open>addr\<close> is the address \<open>gethostbyname\<close> finds.\<close>

definition dns_service :: "(tenv \<Rightarrow> byte list option) \<Rightarrow> tenv \<Rightarrow> int \<Rightarrow> int \<Rightarrow> tworld \<Rightarrow> tworld run" where
  "dns_service addr env rfd wfd w =
     bindr (say wfd (case addr env of None \<Rightarrow> le32 0 | Some a \<Rightarrow> take 4 a) w) (\<lambda>w. Ret (close_both rfd wfd w))"

record state_info =
  si_transport :: transport_type
  si_serial :: "byte list option"
  si_state :: int

text \<open>\<open>sendfailmsg\<close> on a descriptor: the status with the length, then the reason.\<close>

definition send_fail_on :: "int \<Rightarrow> string \<Rightarrow> tworld \<Rightarrow> tworld run" where
  "send_fail_on fd reason w = bindr (say fd (take 8 (failmsg reason)) w) (say fd (drop 8 (failmsg reason)))"

definition wait_for_state :: "state_info \<Rightarrow> adbd list \<Rightarrow> tenv \<Rightarrow> int \<Rightarrow> int \<Rightarrow> tworld \<Rightarrow> tworld run" where
  "wait_for_state sinfo moments env rfd wfd w =
     (case acquire_one_transport (si_state sinfo) (si_transport sinfo) (si_serial sinfo) moments of
        Inl _ \<Rightarrow> Undef OverRun
      | Inr None \<Rightarrow> Hang
      | Inr (Some r) \<Rightarrow>
          bindr (case r of Inr t \<Rightarrow> say wfd (bytes_of_str ''OKAY'') w | Inl err \<Rightarrow> send_fail_on wfd err w) (\<lambda>w.
          Ret (close_on rfd (close_on wfd w))))"

datatype host_socket = DeviceTracker | WaitFor state_info

definition host_service_to_socket :: "byte list \<Rightarrow> byte list option \<Rightarrow> host_socket option" where
  "host_service_to_socket name ser =
     (if name = bytes_of_str ''track-devices'' then Some DeviceTracker
      else if starts ''wait-for-'' name then
        let name = after ''wait-for-'' name in
        if starts ''local'' name then Some (WaitFor \<lparr>si_transport = kTransportLocal, si_serial = ser, si_state = CS_DEVICE\<rparr>)
        else if starts ''usb'' name then Some (WaitFor \<lparr>si_transport = kTransportUsb, si_serial = ser, si_state = CS_DEVICE\<rparr>)
        else if starts ''any'' name then Some (WaitFor \<lparr>si_transport = kTransportAny, si_serial = ser, si_state = CS_DEVICE\<rparr>)
        else None
      else None)"

section \<open>Both close their descriptors once\<close>

lemma bindr_assoc: "bindr (bindr m f) g = bindr m (\<lambda>x. bindr (f x) g)"
  by (cases m) simp_all

interpretation dns: service_body "dns_service addr" "\<lambda>_. {}" for addr
  by unfold_locales (auto simp: dns_service_def tidies_def tidy_def intro!: quiet_binds)

interpretation wait_state: service_body "wait_for_state sinfo moments" "\<lambda>_. {}" for sinfo moments
  by unfold_locales (auto simp: wait_for_state_def send_fail_on_def tidies_def tidy_def bindr_assoc intro!: quiet_binds split: sum.split option.split)

section \<open>Waiting\<close>

lemma acquire_waits:
  assumes "\<forall>v \<in> set ms. \<exists>err. acquire_once st ty ser v = Inr (Inl (err, True))"
  shows "acquire_one_transport st ty ser (ms @ later) = acquire_one_transport st ty ser later"
  using assms by (induction ms) auto

text \<open>
  A client that waits for a device is told \<open>OKAY\<close> at the first moment at which the search finds it, however long that takes, and both
  descriptors are closed; before that it gets no answer.
\<close>

theorem wait_for_state_answers:
  assumes wait: "\<forall>v \<in> set ms. \<exists>err. acquire_once (si_state i) (si_transport i) (si_serial i) v = Inr (Inl (err, True))"
    and found: "acquire_once (si_state i) (si_transport i) (si_serial i) d = Inr (Inr t)"
    and room: "wk w wfd = Room n # k" "4 \<le> n"
  shows "(\<exists>w'. wait_for_state i (ms @ d # later) env rfd wfd w = Ret w' \<and> sent w' wfd = sent w wfd @ bytes_of_str ''OKAY'' \<and>
      fdlog w' = fdlog w @ [Closes wfd, Closes rfd]) \<and>
    wait_for_state i ms env rfd wfd w = Hang"
proof
  have "writex_on wfd (bytes_of_str ''OKAY'') w =
      Ret (True, w\<lparr>wk := (wk w)(wfd := k), sent := (sent w)(wfd := sent w wfd @ bytes_of_str ''OKAY'')\<rparr>)"
    by (rule writex_on_room [OF room(1)]) (use room(2) in \<open>simp_all add: bytes_of_str_def\<close>)
  then have "say wfd (bytes_of_str ''OKAY'') w = Ret (w\<lparr>wk := (wk w)(wfd := k), sent := (sent w)(wfd := sent w wfd @ bytes_of_str ''OKAY'')\<rparr>)"
    by (simp add: say_def)
  then show "\<exists>w'. wait_for_state i (ms @ d # later) env rfd wfd w = Ret w' \<and> sent w' wfd = sent w wfd @ bytes_of_str ''OKAY'' \<and>
      fdlog w' = fdlog w @ [Closes wfd, Closes rfd]"
    using acquire_waits [OF wait, of "d # later"] found by (simp add: wait_for_state_def close_on_def)
  show "wait_for_state i ms env rfd wfd w = Hang"
    using acquire_waits [OF wait, of "[]"] by (simp add: wait_for_state_def)
qed

definition demo_wait :: state_info where
  "demo_wait = \<lparr>si_transport = kTransportAny, si_serial = None, si_state = CS_DEVICE\<rparr>"

definition demo_there :: adbd where
  "demo_there = demo_adbd\<lparr>trans := [0 \<mapsto> zero_transport\<lparr>connection_state := CS_DEVICE\<rparr>], transport_list := [0]\<rparr>"

lemma demo_moments:
  "acquire_once CS_DEVICE kTransportAny None (demo_there\<lparr>transport_list := []\<rparr>) = Inr (Inl (''device not found'', True))"
  "acquire_once CS_DEVICE kTransportAny None demo_there = Inr (Inr 0)"
  by (simp_all add: acquire_once_def demo_there_def tget_def CS_DEVICE_def CS_ANY_def CS_OFFLINE_def CS_NOPERM_def wanted_def)

theorem wait_for_state_answers_witness:
  "\<exists>w'. wait_for_state demo_wait [demo_there\<lparr>transport_list := []\<rparr>, demo_there] demo_tenv 5 6 (demo_tworld (\<lambda>_. []) (\<lambda>_. [Room 4])) = Ret w' \<and>
     sent w' 6 = bytes_of_str ''OKAY'' \<and> fdlog w' = [Closes 6, Closes 5]"
  using wait_for_state_answers [of "[demo_there\<lparr>transport_list := []\<rparr>]" demo_wait demo_there 0
      "demo_tworld (\<lambda>_. []) (\<lambda>_. [Room 4])" 6 4 "[]" "[]" demo_tenv 5] demo_moments
  by (simp add: demo_wait_def) (simp add: demo_tworld_def)

end
