(* ===== verification/Init.thy ===== *)
theory Init
  imports Prelude
begin

text \<open>
  The first program of the system (\<open>src/init/init.c\<close>): it waits for the memory card, mounts the file systems, moves to the
  card, starts the script that starts the daemon, and becomes a shell. The system calls it makes are a log; the
  answers it looks at are a record. \<open>MountCard\<close> is the attempt to mount \<open>/dev/mmcblk0\<close> at \<open>/mnt\<close>, with its result.
\<close>

datatype icall =
    Usleep nat
  | MountCard bool
  | MountAt string string string
  | WriteErr string nat
  | Halted
  | PivotRoot string string
  | Chdir string
  | Umount string
  | Vfork
  | ExecShell

text \<open>What the kernel answers: whether the card is there and whether it can be mounted, in each round; whether the card has a
  shell; whether the shell can be started.\<close>

record init_env =
  card_there :: "nat \<Rightarrow> bool"
  card_mounts :: "nat \<Rightarrow> bool"
  shell_there :: bool
  shell_runs :: bool

text \<open>The loop over at most sixty rounds, by the number that is left.\<close>

fun wait_card :: "init_env \<Rightarrow> nat \<Rightarrow> icall list" where
  "wait_card env 0 = []"
| "wait_card env (Suc k) =
     (let i = 60 - Suc k in
      if card_there env i then
        if card_mounts env i then [MountCard True]
        else [MountCard False, Usleep 500000] @ wait_card env k
      else Usleep 500000 # wait_card env k)"

definition not_found_msg :: string where "not_found_msg = ''init: SD card /mnt/bin/sh not found'' @ [CHR 0x0A]"
definition halted_msg :: string where "halted_msg = ''init: halted'' @ [CHR 0x0A]"
definition failed_msg :: string where "failed_msg = ''init: exec /bin/sh failed'' @ [CHR 0x0A]"

definition moves :: "icall list" where
  "moves = [MountAt ''proc'' ''/mnt/proc'' ''proc'', MountAt ''sysfs'' ''/mnt/sys'' ''sysfs'',
     MountAt ''devtmpfs'' ''/mnt/dev'' ''devtmpfs'', MountAt ''devpts'' ''/mnt/dev/pts'' ''devpts'',
     MountAt ''configfs'' ''/mnt/sys/kernel/config'' ''configfs'', MountAt ''ramfs'' ''/mnt/var'' ''ramfs'',
     PivotRoot ''/mnt'' ''/mnt/oldroot'', Chdir ''/'', Umount ''/oldroot'']"

text \<open>The results of the later mounts are not looked at. A shell that runs replaces the program.\<close>

definition init_main :: "init_env \<Rightarrow> icall list" where
  "init_main env =
     wait_card env 60 @
     (if \<not> shell_there env then [WriteErr not_found_msg 35, WriteErr halted_msg 13, Halted]
      else moves @ [Vfork, ExecShell] @ (if shell_runs env then [] else [WriteErr failed_msg 25, Halted]))"

section \<open>What it does\<close>

definition slept :: "icall list \<Rightarrow> nat" where
  "slept cs = sum_list (map (\<lambda>c. case c of Usleep n \<Rightarrow> n | _ \<Rightarrow> 0) cs)"

lemma slept_simps [simp]:
  "slept [] = 0" "slept (cs @ ds) = slept cs + slept ds" "slept (c # cs) = (case c of Usleep n \<Rightarrow> n | _ \<Rightarrow> 0) + slept cs"
  by (simp_all add: slept_def)

lemma slept_wait_card: "slept (wait_card env k) \<le> k * 500000"
  by (induction env k rule: wait_card.induct) (auto simp: Let_def)

lemma wait_card_calls: "set (wait_card env k) \<subseteq> {Usleep 500000} \<union> range MountCard"
  by (induction env k rule: wait_card.induct) (auto simp: Let_def)

lemma mounted_iff:
  "k \<le> 60 \<Longrightarrow> MountCard True \<in> set (wait_card env k) \<longleftrightarrow>
     (\<exists>i. 60 - k \<le> i \<and> i < 60 \<and> card_there env i \<and> card_mounts env i)"
proof (induction k)
  case (Suc k)
  have r: "(\<exists>i. 60 - Suc k \<le> i \<and> i < 60 \<and> P i) \<longleftrightarrow> P (60 - Suc k) \<or> (\<exists>i. 60 - k \<le> i \<and> i < 60 \<and> P i)" for P
  proof -
    have a: "60 - Suc k \<le> i \<longleftrightarrow> i = 60 - Suc k \<or> 60 - k \<le> i" for i using Suc.prems by arith
    show ?thesis unfolding a by (auto simp del: diff_Suc_eq_diff_pred)
  qed
  have "MountCard True \<in> set (wait_card env (Suc k)) \<longleftrightarrow>
      card_there env (60 - Suc k) \<and> card_mounts env (60 - Suc k) \<or>
      MountCard True \<in> set (wait_card env k) \<and> \<not> (card_there env (60 - Suc k) \<and> card_mounts env (60 - Suc k))"
    by (simp add: Let_def)
  then show ?case using Suc r [of "\<lambda>i. card_there env i \<and> card_mounts env i"] by auto
qed simp

text \<open>
  The wait for the card ends after at most thirty seconds, and the card is mounted when that succeeds in one of the sixty rounds. The process for the
  daemon and the shell are started exactly when the card has a shell, once each, after the root was moved and in this order; otherwise
  the system is left alone and halts.
\<close>

theorem init_outcome:
  "slept (init_main env) \<le> 30 * 1000000 \<and>
   (MountCard True \<in> set (init_main env) \<longleftrightarrow> (\<exists>i < 60. card_there env i \<and> card_mounts env i)) \<and>
   (if shell_there env
    then \<exists>pre post. init_main env = pre @ moves @ [Vfork, ExecShell] @ post \<and> {Vfork, ExecShell} \<inter> set (pre @ moves @ post) = {} \<and>
      (shell_runs env \<longrightarrow> post = [])
    else {Vfork, ExecShell} \<inter> set (init_main env) = {} \<and> last (init_main env) = Halted)"
proof (intro conjI)
  show "slept (init_main env) \<le> 30 * 1000000"
    using slept_wait_card [of env 60] by (simp add: init_main_def moves_def)
  show "MountCard True \<in> set (init_main env) \<longleftrightarrow> (\<exists>i < 60. card_there env i \<and> card_mounts env i)"
    using mounted_iff [of 60 env] by (simp add: init_main_def moves_def)
  have pre: "{Vfork, ExecShell} \<inter> set (wait_card env 60) = {}" using wait_card_calls [of env 60] by auto
  show "if shell_there env
    then \<exists>pre post. init_main env = pre @ moves @ [Vfork, ExecShell] @ post \<and> {Vfork, ExecShell} \<inter> set (pre @ moves @ post) = {} \<and>
      (shell_runs env \<longrightarrow> post = [])
    else {Vfork, ExecShell} \<inter> set (init_main env) = {} \<and> last (init_main env) = Halted"
  proof (cases "shell_there env")
    case True
    let ?post = "if shell_runs env then [] else [WriteErr failed_msg 25, Halted]"
    have "init_main env = wait_card env 60 @ moves @ [Vfork, ExecShell] @ ?post" using True by (simp add: init_main_def)
    moreover have "{Vfork, ExecShell} \<inter> set (wait_card env 60 @ moves @ ?post) = {}" using pre by (simp add: moves_def)
    ultimately show ?thesis using True by (simp only: if_True) (metis)
  next
    case False
    then show ?thesis using pre by (auto simp: init_main_def)
  qed
qed

text \<open>Two of the three messages are written without their last character: the number given is one less than the length, so the line is
  not ended.\<close>

lemma init_messages:
  "WriteErr s n \<in> set (init_main env) \<Longrightarrow> take n s = (if s = halted_msg then s else butlast s)"
  using wait_card_calls [of env 60]
  by (auto simp: init_main_def moves_def not_found_msg_def halted_msg_def failed_msg_def split: if_splits)

theorem init_outcome_witness:
  "slept (init_main \<lparr>card_there = (\<lambda>i. i > 2), card_mounts = (\<lambda>_. True), shell_there = True, shell_runs = True\<rparr>) \<le> 30 * 1000000"
  using init_outcome [of "\<lparr>card_there = (\<lambda>i. i > 2), card_mounts = (\<lambda>_. True), shell_there = True, shell_runs = True\<rparr>"] by blast

end
