(* ===== verification/Sysdeps.thy ===== *)
theory Sysdeps
  imports Jdwp
begin

text \<open>
  The wrappers of \<open>include/sysdeps.h\<close> around system calls: retrying what a signal interrupted, opening files,
  accepting connections and making pairs of descriptors, with the flag that closes them when another program is started;
  and the functions on path names, in the Unix and in the Win32 variant. \<open>adb_read\<close> and \<open>adb_write\<close> are modelled with
  their callers (\<open>Sysio\<close>).

  \<open>adb_socketpair\<close> makes a pipe. Its users read from the first and write to the second descriptor, except the service
  that connects a debugger to a process, which needs both directions.
\<close>

section \<open>Descriptors\<close>

record fdinfo =
  can_read :: bool
  can_write :: bool
  cloexec :: bool

type_synonym ktable = "int \<rightharpoonup> fdinfo"

text \<open>\<open>TEMP_FAILURE_RETRY\<close>; the answers of the kernel come from a list, \<open>None\<close> means that a call does not return.\<close>

fun TEMP_FAILURE_RETRY :: "'a sysret list \<Rightarrow> ('a sysret \<times> 'a sysret list) option" where
  "TEMP_FAILURE_RETRY [] = None"
| "TEMP_FAILURE_RETRY (Failed e # k) = (if e = EINTR then TEMP_FAILURE_RETRY k else Some (Failed e, k))"
| "TEMP_FAILURE_RETRY (Got x # k) = Some (Got x, k)"

definition close_on_exec :: "int \<Rightarrow> ktable \<Rightarrow> ktable" where
  "close_on_exec fd t = (case t fd of None \<Rightarrow> t | Some i \<Rightarrow> t(fd \<mapsto> i\<lparr>cloexec := True\<rparr>))"

text \<open>The access mode is in the two low bits of the options: read, write, or both.\<close>

definition opened_fd :: "u32 \<Rightarrow> fdinfo" where
  "opened_fd options =
     \<lparr>can_read = options AND 3 \<noteq> 1, can_write = options AND 3 \<noteq> 0, cloexec = False\<rparr>"

text \<open>\<open>open\<close>, \<open>creat\<close> and \<open>accept\<close>: the number of the new descriptor, which the table gets, or an error.\<close>

definition sys_open :: "fdinfo \<Rightarrow> int sysret list \<Rightarrow> ktable \<Rightarrow> (int \<times> ktable \<times> int sysret list) option" where
  "sys_open i k t =
     (case TEMP_FAILURE_RETRY k of
        None \<Rightarrow> None
      | Some (Got fd, k) \<Rightarrow> Some (fd, t(fd \<mapsto> i), k)
      | Some (Failed _, k) \<Rightarrow> Some (-1, t, k))"

text \<open>Both branches of \<open>unix_open\<close> open the file; they differ only in the mode of a file that is created.\<close>

definition unix_open :: "u32 \<Rightarrow> int sysret list \<Rightarrow> ktable \<Rightarrow> (int \<times> ktable \<times> int sysret list) option" where
  "unix_open options k t = sys_open (opened_fd options) k t"

definition adb_open_mode :: "u32 \<Rightarrow> int sysret list \<Rightarrow> ktable \<Rightarrow> (int \<times> ktable \<times> int sysret list) option" where
  "adb_open_mode options k t = sys_open (opened_fd options) k t"

definition adb_open :: "u32 \<Rightarrow> int sysret list \<Rightarrow> ktable \<Rightarrow> (int \<times> ktable \<times> int sysret list) option" where
  "adb_open options k t =
     (case sys_open (opened_fd options) k t of
        None \<Rightarrow> None
      | Some (fd, t, k) \<Rightarrow> if fd < 0 then Some (-1, t, k) else Some (fd, close_on_exec fd t, k))"

definition adb_creat :: "int sysret list \<Rightarrow> ktable \<Rightarrow> (int \<times> ktable \<times> int sysret list) option" where
  "adb_creat k t =
     (case sys_open \<lparr>can_read = False, can_write = True, cloexec = False\<rparr> k t of
        None \<Rightarrow> None
      | Some (fd, t, k) \<Rightarrow> if fd < 0 then Some (-1, t, k) else Some (fd, close_on_exec fd t, k))"

definition adb_socket_accept :: "int sysret list \<Rightarrow> ktable \<Rightarrow> (int \<times> ktable \<times> int sysret list) option" where
  "adb_socket_accept k t =
     (case sys_open \<lparr>can_read = True, can_write = True, cloexec = False\<rparr> k t of
        None \<Rightarrow> None
      | Some (fd, t, k) \<Rightarrow> Some (fd, if fd \<ge> 0 then close_on_exec fd t else t, k))"

text \<open>\<open>pipe\<close>: the first descriptor reads what is written to the second.\<close>

definition sys_pipe :: "(int \<times> int) option \<Rightarrow> ktable \<Rightarrow> ((int \<times> int) \<times> ktable) option" where
  "sys_pipe answer t =
     (case answer of
        None \<Rightarrow> None
      | Some (r, w) \<Rightarrow> Some ((r, w), t(r \<mapsto> \<lparr>can_read = True, can_write = False, cloexec = False\<rparr>,
          w \<mapsto> \<lparr>can_read = False, can_write = True, cloexec = False\<rparr>)))"

text \<open>\<open>None\<close> stands for the result -1.\<close>

definition unix_socketpair :: "(int \<times> int) option \<Rightarrow> ktable \<Rightarrow> ((int \<times> int) \<times> ktable) option" where
  "unix_socketpair answer t = sys_pipe answer t"

definition adb_socketpair :: "(int \<times> int) option \<Rightarrow> ktable \<Rightarrow> ((int \<times> int) \<times> ktable) option" where
  "adb_socketpair answer t =
     (case sys_pipe answer t of
        None \<Rightarrow> None
      | Some ((s0, s1), t) \<Rightarrow> Some ((s0, s1), close_on_exec s1 (close_on_exec s0 t)))"

text \<open>The system's view of one write: a descriptor that is not open for writing is refused.\<close>

definition sys_write_ok :: "int \<Rightarrow> ktable \<Rightarrow> bool" where
  "sys_write_ok fd t \<longleftrightarrow> (\<exists>i. t fd = Some i \<and> can_write i)"

definition sys_read_ok :: "int \<Rightarrow> ktable \<Rightarrow> bool" where
  "sys_read_ok fd t \<longleftrightarrow> (\<exists>i. t fd = Some i \<and> can_read i)"

text \<open>
  \<open>adb_sleep_ms\<close>: the argument of \<open>usleep\<close> is computed as an \<open>int\<close>.
\<close>

definition adb_sleep_ms :: "int \<Rightarrow> u32 res" where
  "adb_sleep_ms mseconds =
     (if - (2 ^ 31) \<le> mseconds * 1000 \<and> mseconds * 1000 < 2 ^ 31 then Inr (of_int (mseconds * 1000))
      else Inl (Fault OutOfBounds))"

section \<open>Path names\<close>

fun first_at :: "byte \<Rightarrow> byte list \<Rightarrow> nat option" where
  "first_at c [] = None"
| "first_at c (b # bs) = (if b = c then Some 0 else map_option Suc (first_at c bs))"

fun last_at :: "byte \<Rightarrow> byte list \<Rightarrow> nat option" where
  "last_at c [] = None"
| "last_at c (b # bs) =
     (case last_at c bs of Some i \<Rightarrow> Some (Suc i) | None \<Rightarrow> if b = c then Some 0 else None)"

text \<open>Paths are C strings without the final zero; a result is the index of the separator.\<close>

definition adb_dirstart :: "byte list \<Rightarrow> nat option" where
  "adb_dirstart path = first_at 47 path"

definition adb_dirstop :: "byte list \<Rightarrow> nat option" where
  "adb_dirstop path = last_at 47 path"

definition adb_is_absolute_host_path :: "byte list \<Rightarrow> bool" where
  "adb_is_absolute_host_path path \<longleftrightarrow> (path @ [0]) ! 0 = 47"

definition later_of :: "nat option \<Rightarrow> nat option \<Rightarrow> nat option" where
  "later_of p p2 =
     (case p of
        None \<Rightarrow> p2
      | Some i \<Rightarrow> (case p2 of None \<Rightarrow> p | Some j \<Rightarrow> if j > i then p2 else p))"

definition adb_dirstart_win :: "byte list \<Rightarrow> nat option" where
  "adb_dirstart_win path = later_of (first_at 47 path) (first_at 92 path)"

definition adb_dirstop_win :: "byte list \<Rightarrow> nat option" where
  "adb_dirstop_win path = later_of (last_at 47 path) (last_at 92 path)"

definition is_letter :: "byte \<Rightarrow> bool" where
  "is_letter b \<longleftrightarrow> (65 \<le> b \<and> b \<le> 90) \<or> (97 \<le> b \<and> b \<le> 122)"

definition adb_is_absolute_host_path_win :: "byte list \<Rightarrow> bool" where
  "adb_is_absolute_host_path_win path \<longleftrightarrow>
     is_letter ((path @ [0]) ! 0) \<and> (path @ [0]) ! 1 = 58 \<and> (path @ [0]) ! 2 = 92"

text \<open>
  \<open>adb_unlink\<close> of the Win32 variant: the answers to \<open>unlink\<close>, \<open>chmod\<close> and \<open>unlink\<close> again, \<open>True\<close> for
  success; \<open>acces\<close> tells that the first failed with \<open>EACCES\<close>.
\<close>

definition adb_unlink_win :: "bool \<Rightarrow> bool \<Rightarrow> bool \<Rightarrow> bool \<Rightarrow> bool" where
  "adb_unlink_win first acces chmod again =
     (let rc = first in
      if \<not> rc \<and> acces then
        let rc = chmod in
        if rc then again else rc
      else rc)"

section \<open>Properties\<close>

text \<open>Retrying yields the first answer that is not an interruption, and returns exactly if there is one.\<close>

lemma retry_first:
  "TEMP_FAILURE_RETRY k = Some (r, k') \<longleftrightarrow> (\<exists>n. k = replicate n (Failed EINTR) @ r # k' \<and> r \<noteq> Failed EINTR)"
proof (induction k rule: TEMP_FAILURE_RETRY.induct)
  case (2 e k)
  show ?case
  proof (cases "e = EINTR")
    case True
    have "(\<exists>n. Failed EINTR # k = replicate n (Failed EINTR) @ r # k' \<and> r \<noteq> Failed EINTR) \<longleftrightarrow>
        (\<exists>n. k = replicate n (Failed EINTR) @ r # k' \<and> r \<noteq> Failed EINTR)"
      by (metis append_Cons append_Nil list.inject replicate_0 replicate_Suc not0_implies_Suc)
    with True 2 show ?thesis by simp
  next
    case False
    have "Failed e # k = replicate n (Failed EINTR) @ r # k' \<longleftrightarrow> n = 0 \<and> Failed e = r \<and> k = k'" for n
      using False by (cases n) auto
    with False show ?thesis by auto
  qed
next
  case (3 x k)
  have "Got x # k = replicate n (Failed EINTR) @ r # k' \<longleftrightarrow> n = 0 \<and> Got x = r \<and> k = k'" for n
    by (cases n) auto
  then show ?case by auto
qed simp

lemma close_on_exec_at: "close_on_exec fd t x = (if x = fd then map_option (\<lambda>i. i\<lparr>cloexec := True\<rparr>) (t x) else t x)"
  by (simp add: close_on_exec_def split: option.split)

lemma sys_open_shape:
  assumes "sys_open i k t = Some (fd, t', k')" and "\<forall>x. Got x \<in> set k \<longrightarrow> 0 \<le> x"
  shows "if fd < 0 then t' = t else t' = t(fd \<mapsto> i)"
proof -
  have "0 \<le> x" if "TEMP_FAILURE_RETRY k = Some (Got x, k1)" for x k1
    using that assms(2) by (auto simp: retry_first)
  with assms(1) show ?thesis
    by (auto simp: sys_open_def split: option.splits sysret.splits)
qed

text \<open>
  What the \<open>adb_\<close> functions open, create, accept or pair is closed when the daemon starts another program, and no other
  descriptor is touched; a failure changes nothing.
\<close>

theorem adb_descriptors_private:
  assumes "adb_open options k t = Some (fd, t', k') \<or> adb_creat k t = Some (fd, t', k') \<or>
    adb_socket_accept k t = Some (fd, t', k')" and "\<forall>x. Got x \<in> set k \<longrightarrow> 0 \<le> x"
  shows "if fd < 0 then t' = t else (\<exists>i. t' fd = Some i \<and> cloexec i) \<and> (\<forall>x. x \<noteq> fd \<longrightarrow> t' x = t x)"
  using assms(1) sys_open_shape [OF _ assms(2)]
  by (auto simp: adb_open_def adb_creat_def adb_socket_accept_def close_on_exec_at
      split: option.splits if_splits dest!: sys_open_shape [OF _ assms(2)])

theorem adb_descriptors_private_witness:
  "case adb_open 2 [Failed EINTR, Got 7] (\<lambda>_. None) of
     Some (fd, t, k) \<Rightarrow> fd = 7 \<and> (\<exists>i. t 7 = Some i \<and> cloexec i \<and> can_read i \<and> can_write i) | None \<Rightarrow> False"
proof -
  obtain t where t: "adb_open 2 [Failed EINTR, Got 7] (\<lambda>_. None) = Some (7, t, [])"
    "t 7 = Some \<lparr>can_read = True, can_write = True, cloexec = True\<rparr>"
    by (simp add: adb_open_def sys_open_def close_on_exec_def opened_fd_def)
  from adb_descriptors_private [of 2 "[Failed EINTR, Got 7]" "\<lambda>_. None" 7 t "[]"] t show ?thesis by simp
qed

text \<open>A file that a client sends is opened_fd without that flag.\<close>

theorem open_mode_inherited:
  assumes "adb_open_mode options k t = Some (fd, t', k')" and "0 \<le> fd"
  shows "\<exists>i. t' fd = Some i \<and> \<not> cloexec i"
  using assms by (auto simp: adb_open_mode_def sys_open_def opened_fd_def split: option.splits sysret.splits)

text \<open>
  The two descriptors of \<open>adb_socketpair\<close> are not equivalent: the first can only be read, the second only written.
\<close>

theorem socketpair_one_way:
  assumes "adb_socketpair (Some (s0, s1)) t = Some (s, t')" and "s0 \<noteq> s1"
  shows "s = (s0, s1) \<and> sys_read_ok s0 t' \<and> \<not> sys_write_ok s0 t' \<and> sys_write_ok s1 t' \<and> \<not> sys_read_ok s1 t' \<and>
    (\<exists>i j. t' s0 = Some i \<and> cloexec i \<and> t' s1 = Some j \<and> cloexec j)"
  using assms
  by (auto simp: adb_socketpair_def sys_pipe_def close_on_exec_at sys_read_ok_def sys_write_ok_def)

text \<open>
  So a debugger that connects to a process (\<open>jdwp:<pid>\<close>) cannot talk to it: the descriptor that the local socket gets
  refuses every write, and the one that is passed to the process cannot be read.
\<close>

theorem jdwp_connection_one_way:
  assumes "find (\<lambda>p. jpid p = pid) (procs w) = Some p" and "out_count p < MAX_OUT_FDS" and "out_count p < length (out_fds p)"
    and "adb_socketpair (Some (s0, s1)) t = Some (s, t')" and "s0 \<noteq> s1"
  shows "\<exists>w'. create_jdwp_connection_fd (Some s) pid w = Inr (s0, w') \<and> \<not> sys_write_ok s0 t' \<and> \<not> sys_read_ok s1 t'"
  using assms
  by (auto simp: create_jdwp_connection_fd_def Let_def adb_socketpair_def sys_pipe_def close_on_exec_at sys_read_ok_def
      sys_write_ok_def)

theorem jdwp_connection_one_way_witness:
  "\<exists>w'. create_jdwp_connection_fd (Some (30, 31)) 4660 demo_jworld = Inr (30, w') \<and>
     \<not> sys_write_ok 30 (snd (the (adb_socketpair (Some (30, 31)) (\<lambda>_. None))))"
proof -
  obtain t' where t: "adb_socketpair (Some (30, 31)) (\<lambda>_. None) = Some ((30, 31), t')"
    by (simp add: adb_socketpair_def sys_pipe_def)
  have "\<exists>p. find (\<lambda>p. jpid p = 4660) (procs demo_jworld) = Some p \<and> out_count p < MAX_OUT_FDS \<and> out_count p < length (out_fds p)"
    by (simp add: demo_jworld_def demo_proc_def MAX_OUT_FDS_def)
  with jdwp_connection_one_way [OF _ _ _ t] t show ?thesis by auto
qed

text \<open>Path names: \<open>adb_dirstop\<close> splits at the last separator, \<open>adb_dirstart\<close> at the first.\<close>

lemma first_at_split: "first_at c bs = Some i \<Longrightarrow> i < length bs \<and> bs ! i = c \<and> c \<notin> set (take i bs)"
  by (induction c bs arbitrary: i rule: first_at.induct) (auto split: if_splits)

lemma first_at_None: "first_at c bs = None \<longleftrightarrow> c \<notin> set bs"
  by (induction c bs rule: first_at.induct) auto

lemma last_at_None: "last_at c bs = None \<longleftrightarrow> c \<notin> set bs"
  by (induction c bs rule: last_at.induct) (auto split: option.splits)

lemma last_at_split: "last_at c bs = Some i \<Longrightarrow> i < length bs \<and> bs ! i = c \<and> c \<notin> set (drop (Suc i) bs)"
  by (induction c bs arbitrary: i rule: last_at.induct) (auto simp: last_at_None split: option.splits if_splits)

theorem dirstop_roundtrip:
  assumes "adb_dirstop path = Some i"
  shows "path = take i path @ [47] @ drop (Suc i) path \<and> 47 \<notin> set (drop (Suc i) path)"
  using last_at_split [of 47 path i] assms by (simp add: adb_dirstop_def id_take_nth_drop [symmetric] flip: id_take_nth_drop)
    (metis id_take_nth_drop)

text \<open>
  In the Win32 variant, where both separators are allowed, the last one is found right, but for the first one the later of the two
  first occurrences is taken: in \<open>a/b\c\<close> it is the backslash.
\<close>

lemma later_of_Some: "later_of p p2 = Some i \<longleftrightarrow> (p = Some i \<and> (\<forall>j. p2 = Some j \<longrightarrow> j \<le> i)) \<or>
   (p2 = Some i \<and> (\<forall>j. p = Some j \<longrightarrow> j < i))"
  by (auto simp: later_of_def split: option.splits)

theorem dirstop_win_last:
  assumes "adb_dirstop_win path = Some i"
  shows "(path ! i = 47 \<or> path ! i = 92) \<and> 47 \<notin> set (drop (Suc i) path) \<and> 92 \<notin> set (drop (Suc i) path)"
proof -
  have none: "c \<notin> set (drop (Suc i) path)" if "\<forall>j. last_at c path = Some j \<longrightarrow> j \<le> i" for c
  proof (cases "last_at c path")
    case None
    then have "c \<notin> set path" by (simp add: last_at_None)
    then show ?thesis using set_drop_subset [of "Suc i" path] by blast
  next
    case (Some j)
    with that last_at_split [OF Some] set_drop_subset_set_drop [of "Suc j" "Suc i" path] show ?thesis by auto
  qed
  from assms none [of 47] none [of 92] show ?thesis
    unfolding adb_dirstop_win_def later_of_Some using last_at_split by fastforce
qed

theorem dirstart_win_not_first: "adb_dirstart_win (bytes_of_str ''a/b'' @ [92] @ bytes_of_str ''c'') = Some 3"
  by (simp add: adb_dirstart_win_def bytes_of_str_def later_of_def)

end
