(* ===== verification/Polling.thy ===== *)
theory Polling
  imports Fdevent
begin

text \<open>
  The other back end of \<open>src/fdevent.c\<close>, built with \<open>CRAPTASTIC\<close>: \<open>epoll\<close> in place of
  \<open>select\<close>. The table, the pending list and the interface are shared with the variant of
  \<open>Fdevent\<close>; \<open>fdevent_init\<close>, \<open>fdevent_connect\<close>, \<open>fdevent_disconnect\<close>,
  \<open>fdevent_update\<close> and \<open>fdevent_process\<close> are the ones of lines 104 to 243, and the
  functions that call them are composed with these.

  The \<open>select\<close> variant is the specification: \<open>ep_rel\<close> relates a state of one variant to a
  state of the other, every operation keeps it, and so no call of \<open>epoll_ctl\<close> fails as long
  as no event is marked \<open>FDE_DONT_CLOSE\<close>. With that mark, which lives among the events, the
  variant believes that a descriptor is watched when it is not, and the program exits.
\<close>

section \<open>The interest list\<close>

text \<open>
  \<open>epoll_ctl\<close> as documented: the list keeps, for a descriptor, the events asked for and the
  pointer of the caller. Adding what is there, or changing or deleting what is not, fails.
  Memory is granted.
\<close>

type_synonym ep_event = "u32 \<times> nat"

datatype ep_ctl = EPOLL_CTL_ADD | EPOLL_CTL_MOD | EPOLL_CTL_DEL

definition epoll_ctl ::
    "int \<Rightarrow> ep_ctl \<Rightarrow> int \<Rightarrow> ep_event \<Rightarrow> (int \<rightharpoonup> ep_event) \<Rightarrow> (int \<rightharpoonup> ep_event) option" where
  "epoll_ctl epfd op fd ev m =
     (if epfd < 0 \<or> fd < 0 then None
      else case op of
          EPOLL_CTL_ADD \<Rightarrow> if m fd = None then Some (m(fd \<mapsto> ev)) else None
        | EPOLL_CTL_MOD \<Rightarrow> if m fd = None then None else Some (m(fd \<mapsto> ev))
        | EPOLL_CTL_DEL \<Rightarrow> if m fd = None then None else Some (m(fd := None)))"

definition EPOLLIN :: u32 where "EPOLLIN = 0x001"
definition EPOLLOUT :: u32 where "EPOLLOUT = 0x004"
definition EPOLLERR :: u32 where "EPOLLERR = 0x008"
definition EPOLLHUP :: u32 where "EPOLLHUP = 0x010"

lemmas epoll_defs = EPOLLIN_def EPOLLOUT_def EPOLLERR_def EPOLLHUP_def

text \<open>
  The static variables of the variant: those both variants have (\<open>ep_base\<close>, whose sets for
  \<open>select\<close> and \<open>select_n\<close> this variant does not have and never reads), the descriptor of
  the interest list, and the list itself.
\<close>

record epst =
  ep_base :: fdst
  epoll_fd :: int
  interest :: "int \<rightharpoonup> ep_event"

definition ep_start :: epst where
  "ep_start = \<lparr>ep_base = fd_start, epoll_fd = - 1, interest = (\<lambda>_. None)\<rparr>"

definition on_base :: "(fdst \<Rightarrow> fdst res) \<Rightarrow> epst \<Rightarrow> epst res" where
  "on_base f ep = seq (f (ep_base ep)) (\<lambda>st. Inr (ep\<lparr>ep_base := st\<rparr>))"

abbreviation ep_fde :: "epst \<Rightarrow> nat \<Rightarrow> fdevent" where
  "ep_fde ep a \<equiv> fdes (ep_base ep) a"

abbreviation upd_ep :: "nat \<Rightarrow> (fdevent \<Rightarrow> fdevent) \<Rightarrow> epst \<Rightarrow> epst" where
  "upd_ep a f ep \<equiv> ep\<lparr>ep_base := upd_fde a f (ep_base ep)\<rparr>"

section \<open>The back end\<close>

text \<open>\<open>efd\<close> is what \<open>epoll_create\<close> returns.\<close>

definition fdevent_init_ep :: "int \<Rightarrow> epst \<Rightarrow> epst res" where
  "fdevent_init_ep efd ep =
     (if efd < 0 then Inl (Exit 1)
      else Inr (ep\<lparr>epoll_fd := efd, interest := (\<lambda>_. None)\<rparr>))"

text \<open>The call in \<open>fdevent_connect\<close> is compiled out: an event enters the list when it asks
  for something.\<close>

definition fdevent_connect_ep :: "nat \<Rightarrow> epst \<Rightarrow> epst" where
  "fdevent_connect_ep a ep = ep"

text \<open>The result of the call in \<open>fdevent_disconnect\<close> is not looked at.\<close>

definition fdevent_disconnect_ep :: "nat \<Rightarrow> epst \<Rightarrow> epst" where
  "fdevent_disconnect_ep a ep =
     (case epoll_ctl (epoll_fd ep) EPOLL_CTL_DEL (fde_fd (ep_fde ep a)) (0, a) (interest ep) of
        None \<Rightarrow> ep
      | Some m \<Rightarrow> ep\<lparr>interest := m\<rparr>)"

definition epoll_events :: "u16 \<Rightarrow> u32" where
  "epoll_events events =
     (if events AND FDE_READ \<noteq> 0 then EPOLLIN else 0) OR
     (if events AND FDE_WRITE \<noteq> 0 then EPOLLOUT else 0) OR
     (if events AND FDE_ERROR \<noteq> 0 then EPOLLERR OR EPOLLHUP else 0)"

text \<open>A call of \<open>epoll_ctl\<close> whose failure ends the program.\<close>

definition ctl_or_exit :: "ep_ctl \<Rightarrow> int \<Rightarrow> ep_event \<Rightarrow> epst \<Rightarrow> epst res" where
  "ctl_or_exit op fd ev ep =
     (case epoll_ctl (epoll_fd ep) op fd ev (interest ep) of
        None \<Rightarrow> Inl (Exit 1)
      | Some m \<Rightarrow> Inr (ep\<lparr>interest := m\<rparr>))"

definition fdevent_update_ep :: "nat \<Rightarrow> u16 \<Rightarrow> epst \<Rightarrow> epst res" where
  "fdevent_update_ep a events ep =
     (let fd = fde_fd (ep_fde ep a);
          watched = fde_state (ep_fde ep a) AND FDE_EVENTMASK \<noteq> 0;
          ev = (epoll_events events, a);
          ep = upd_ep a (\<lambda>f. f\<lparr>fde_state := (fde_state f AND FDE_STATEMASK) OR events\<rparr>) ep in
      if watched then
        if fst ev \<noteq> 0 then ctl_or_exit EPOLL_CTL_MOD fd ev ep
        else ctl_or_exit EPOLL_CTL_DEL fd ev ep
      else
        if fst ev \<noteq> 0 then ctl_or_exit EPOLL_CTL_ADD fd ev ep
        else Inr ep)"

text \<open>What \<open>epoll_wait\<close> answers: pairs of events and the pointer given for them, or an error.\<close>

datatype ep_answer = EpEvents "ep_event list" | EpErr errno

definition fired :: "u32 \<Rightarrow> u16" where
  "fired m =
     (if m AND EPOLLIN \<noteq> 0 then FDE_READ else 0) OR
     (if m AND EPOLLOUT \<noteq> 0 then FDE_WRITE else 0) OR
     (if m AND (EPOLLERR OR EPOLLHUP) \<noteq> 0 then FDE_ERROR else 0)"

definition ep_mark :: "ep_event \<Rightarrow> fdst \<Rightarrow> fdst res" where
  "ep_mark ev st =
     (let a = snd ev;
          st = upd_fde a (\<lambda>f. f\<lparr>fde_events := fde_events f OR fired (fst ev)\<rparr>) st in
      if fde_events (fdes st a) \<noteq> 0 then
        if fde_state (fdes st a) AND FDE_PENDING \<noteq> 0 then Inr st
        else
          let st = upd_fde a (\<lambda>f. f\<lparr>fde_state := fde_state f OR FDE_PENDING\<rparr>) st in
          seq (fdevent_plist_enqueue list_pending a (plinks st)) (\<lambda>l.
          Inr (st\<lparr>plinks := l\<rparr>))
      else Inr st)"

fun ep_mark_all :: "ep_event list \<Rightarrow> fdst \<Rightarrow> fdst res" where
  "ep_mark_all [] st = Inr st"
| "ep_mark_all (ev # evs) st = seq (ep_mark ev st) (ep_mark_all evs)"

definition fdevent_process_ep :: "ep_answer \<Rightarrow> epst \<Rightarrow> epst res" where
  "fdevent_process_ep answer ep =
     (case answer of
        EpErr e \<Rightarrow> if e = EINTR then Inr ep else Inl (Exit 1)
      | EpEvents evs \<Rightarrow> on_base (ep_mark_all evs) ep)"

section \<open>The interface over this back end\<close>

definition fdevent_register_ep :: "int \<Rightarrow> nat \<Rightarrow> epst \<Rightarrow> epst res" where
  "fdevent_register_ep efd a ep =
     (let fd = fde_fd (ep_fde ep a) in
      if fd < 0 then Inl Abort
      else if fd \<ge> int (length (fd_table (ep_base ep))) then
        if fd > 32000 then Inl Abort
        else
          let oldmax = length (fd_table (ep_base ep)) in
          seq (if oldmax = 0 then fdevent_init_ep efd ep else Inr ep) (\<lambda>ep.
          let newmax = grow (if oldmax = 0 then 256 else oldmax) fd;
              table = fd_table (ep_base ep) @ replicate (newmax - oldmax) None in
          Inr (ep\<lparr>ep_base := (ep_base ep)\<lparr>fd_table := table[nat fd := Some a]\<rparr>\<rparr>))
      else Inr (ep\<lparr>ep_base := (ep_base ep)\<lparr>fd_table := (fd_table (ep_base ep))[nat fd := Some a]\<rparr>\<rparr>))"

definition fdevent_install_ep :: "int \<Rightarrow> nat \<Rightarrow> int \<Rightarrow> fd_func \<Rightarrow> nat \<Rightarrow> epst \<Rightarrow> epst res" where
  "fdevent_install_ep efd a fd func arg ep =
     (let ep = ep\<lparr>ep_base := upd_fde a (\<lambda>_. fdevent_zero\<lparr>fde_state := FDE_ACTIVE, fde_fd := fd,
            force_eof := False, fde_func := func, fde_arg := arg\<rparr>)
            ((ep_base ep)\<lparr>plinks := set_prv a None (set_nxt a None (plinks (ep_base ep)))\<rparr>)\<rparr> in
      seq (fdevent_register_ep efd a ep) (\<lambda>ep.
      let ep = fdevent_connect_ep a ep in
      Inr (upd_ep a (\<lambda>f. f\<lparr>fde_state := fde_state f OR FDE_ACTIVE\<rparr>) ep)))"

definition fdevent_create_ep :: "int \<Rightarrow> nat \<Rightarrow> int \<Rightarrow> fd_func \<Rightarrow> nat \<Rightarrow> epst \<Rightarrow> epst res" where
  "fdevent_create_ep efd a fd func arg ep =
     seq (fdevent_install_ep efd a fd func arg ep) (\<lambda>ep.
     Inr (upd_ep a (\<lambda>f. f\<lparr>fde_state := fde_state f OR FDE_CREATED\<rparr>) ep))"

definition fdevent_remove_ep :: "nat \<Rightarrow> epst \<Rightarrow> epst res" where
  "fdevent_remove_ep a ep =
     seq (if fde_state (ep_fde ep a) AND FDE_PENDING \<noteq> 0
          then on_base (\<lambda>st. seq (fdevent_plist_remove a (plinks st)) (\<lambda>l. Inr (st\<lparr>plinks := l\<rparr>))) ep
          else Inr ep) (\<lambda>ep.
     seq (if fde_state (ep_fde ep a) AND FDE_ACTIVE \<noteq> 0
          then on_base (fdevent_unregister a) (fdevent_disconnect_ep a ep)
          else Inr ep) (\<lambda>ep.
     Inr (upd_ep a (\<lambda>f. f\<lparr>fde_state := 0, fde_events := 0\<rparr>) ep)))"

definition fdevent_destroy_ep :: "nat option \<Rightarrow> epst \<Rightarrow> epst res" where
  "fdevent_destroy_ep p ep =
     (case p of
        None \<Rightarrow> Inr ep
      | Some a \<Rightarrow>
          if fde_state (ep_fde ep a) AND FDE_CREATED = 0 then Inl Abort else fdevent_remove_ep a ep)"

text \<open>The part of \<open>fdevent_set\<close> after the update, on the variables both variants have.\<close>

definition drop_wanted :: "nat \<Rightarrow> u16 \<Rightarrow> fdst \<Rightarrow> fdst res" where
  "drop_wanted a events st =
     (let st = upd_fde a (\<lambda>f. f\<lparr>fde_state := (fde_state f AND FDE_STATEMASK) OR events\<rparr>) st in
      if fde_state (fdes st a) AND FDE_PENDING \<noteq> 0 then
        let st = upd_fde a (\<lambda>f. f\<lparr>fde_events := fde_events f AND NOT events\<rparr>) st in
        if fde_events (fdes st a) = 0 then
          seq (fdevent_plist_remove a (plinks st)) (\<lambda>l.
          Inr (upd_fde a (\<lambda>f. f\<lparr>fde_state := fde_state f AND NOT FDE_PENDING\<rparr>)
            (st\<lparr>plinks := l\<rparr>)))
        else Inr st
      else Inr st)"

definition fdevent_set_ep :: "nat \<Rightarrow> u32 \<Rightarrow> epst \<Rightarrow> epst res" where
  "fdevent_set_ep a evs ep =
     (let events = ucast evs AND FDE_EVENTMASK in
      if fde_state (ep_fde ep a) AND FDE_EVENTMASK = events then Inr ep
      else
        seq (if fde_state (ep_fde ep a) AND FDE_ACTIVE \<noteq> 0 then fdevent_update_ep a events ep
             else Inr ep)
          (on_base (drop_wanted a events)))"

definition fdevent_add_ep :: "nat \<Rightarrow> u32 \<Rightarrow> epst \<Rightarrow> epst res" where
  "fdevent_add_ep a evs ep =
     fdevent_set_ep a (ucast (fde_state (ep_fde ep a) AND FDE_EVENTMASK) OR
       (evs AND ucast FDE_EVENTMASK)) ep"

definition fdevent_del_ep :: "nat \<Rightarrow> u32 \<Rightarrow> epst \<Rightarrow> epst res" where
  "fdevent_del_ep a evs ep =
     fdevent_set_ep a (ucast (fde_state (ep_fde ep a) AND FDE_EVENTMASK) AND
       NOT (evs AND ucast FDE_EVENTMASK)) ep"

fun do_op_ep :: "int \<Rightarrow> fd_op \<Rightarrow> epst \<Rightarrow> epst res" where
  "do_op_ep efd (OpInstall a fd f x) ep = fdevent_install_ep efd a fd f x ep"
| "do_op_ep efd (OpCreate a fd f x) ep = fdevent_create_ep efd a fd f x ep"
| "do_op_ep efd (OpRemove a) ep = fdevent_remove_ep a ep"
| "do_op_ep efd (OpDestroy a) ep = fdevent_destroy_ep (Some a) ep"
| "do_op_ep efd (OpSet a e) ep = fdevent_set_ep a e ep"
| "do_op_ep efd (OpAdd a e) ep = fdevent_add_ep a e ep"
| "do_op_ep efd (OpDel a e) ep = fdevent_del_ep a e ep"

section \<open>The two variants in step\<close>

text \<open>The variables both variants have.\<close>

definition shared :: "fdst \<Rightarrow> fdst" where
  "shared st = st\<lparr>read_fds := {}, write_fds := {}, error_fds := {}, select_n := 0\<rparr>"

text \<open>The interest list that corresponds to a state of the \<open>select\<close> variant.\<close>

definition entry :: "u16 \<Rightarrow> nat \<Rightarrow> ep_event option" where
  "entry state a = (if epoll_events state = 0 then None else Some (epoll_events state, a))"

definition watch_map :: "fdst \<Rightarrow> int \<rightharpoonup> ep_event" where
  "watch_map st fd =
     (if fd < 0 then None
      else case reg st (nat fd) of None \<Rightarrow> None | Some a \<Rightarrow> entry (fde_state (fdes st a)) a)"

text \<open>The events are among the three that a back end can watch.\<close>

definition FDE_OTHER :: u16 where "FDE_OTHER = 0x00f8"

definition plain :: "u16 \<Rightarrow> bool" where
  "plain events \<longleftrightarrow> events AND FDE_OTHER = 0"

definition ep_rel :: "fdst \<Rightarrow> epst \<Rightarrow> bool" where
  "ep_rel st ep \<longleftrightarrow> ep_base ep = shared st \<and> interest ep = watch_map st \<and>
     (fd_table st \<noteq> [] \<longrightarrow> 0 \<le> epoll_fd ep) \<and>
     (\<forall>a. active st a \<longrightarrow> plain (fde_state (fdes st a)))"

lemma shared_simps [simp]:
  "fdes (shared st) = fdes st" "plinks (shared st) = plinks st" "fd_table (shared st) = fd_table st"
  "closed (shared st) = closed st" "upd_fde a f (shared st) = shared (upd_fde a f st)"
  "(shared st)\<lparr>plinks := l\<rparr> = shared (st\<lparr>plinks := l\<rparr>)"
  "(shared st)\<lparr>fd_table := t\<rparr> = shared (st\<lparr>fd_table := t\<rparr>)"
  "(shared st)\<lparr>closed := c\<rparr> = shared (st\<lparr>closed := c\<rparr>)"
  "shared (st\<lparr>read_fds := r\<rparr>) = shared st" "shared (st\<lparr>write_fds := r\<rparr>) = shared st"
  "shared (st\<lparr>error_fds := r\<rparr>) = shared st" "shared (st\<lparr>select_n := n\<rparr>) = shared st"
  by (simp_all add: shared_def upd_fde_def)

lemma shared_start: "shared fd_start = fd_start"
  by (simp add: shared_def fd_start_def)

lemma epoll_events_0: "epoll_events x = 0 \<longleftrightarrow> \<not> bit x 0 \<and> \<not> bit x (Suc 0) \<and> \<not> bit x 2"
  by (simp add: epoll_events_def epoll_defs)

lemma FDE_OTHER_bits: "bit FDE_OTHER n \<longleftrightarrow> 3 \<le> n \<and> n \<le> 7"
proof -
  have eq: "FDE_OTHER = push_bit 3 (mask 5)"
    by (simp add: FDE_OTHER_def mask_eq_exp_minus_1)
  show ?thesis
    unfolding eq by (auto simp: bit_push_bit_iff bit_mask_iff)
qed

lemma EVENTMASK_bits: "bit FDE_EVENTMASK n \<longleftrightarrow> n \<le> 7"
proof -
  have eq: "FDE_EVENTMASK = mask 8"
    by (simp add: FDE_EVENTMASK_def mask_eq_exp_minus_1)
  show ?thesis
    unfolding eq by (auto simp: bit_mask_iff)
qed

lemma STATEMASK_bits: "bit FDE_STATEMASK n \<longleftrightarrow> 8 \<le> n \<and> n < 16"
proof -
  have eq: "FDE_STATEMASK = push_bit 8 (mask 8)"
    by (simp add: FDE_STATEMASK_def mask_eq_exp_minus_1)
  show ?thesis
    unfolding eq by (auto simp: bit_push_bit_iff bit_mask_iff)
qed

lemma plain_bits: "plain x \<longleftrightarrow> (\<forall>n. 3 \<le> n \<and> n \<le> 7 \<longrightarrow> \<not> bit x n)"
  unfolding plain_def bit_eq_iff using bit_imp_le_length [of x]
  by (auto simp: FDE_OTHER_bits)

text \<open>For plain events the variant's test for being watched is right.\<close>

lemma watched_iff:
  assumes "plain x"
  shows "x AND FDE_EVENTMASK = 0 \<longleftrightarrow> epoll_events x = 0"
proof
  assume "epoll_events x = 0"
  then have "\<not> bit x n" if "n \<le> 7" for n
    using assms that unfolding epoll_events_0 plain_bits
    by (metis One_nat_def Suc_leI le_neq_implies_less less_Suc0 less_2_cases_iff not_less
        numeral_2_eq_2 numeral_3_eq_3)
  then show "x AND FDE_EVENTMASK = 0"
    by (intro bit_word_eqI) (auto simp: EVENTMASK_bits)
next
  assume "x AND FDE_EVENTMASK = 0"
  then have "\<not> bit (x AND FDE_EVENTMASK) n" for n by simp
  from this [of 0] this [of "Suc 0"] this [of 2] show "epoll_events x = 0"
    unfolding epoll_events_0 by simp
qed

lemma epoll_events_cong:
  "bit x 0 = bit y 0 \<Longrightarrow> bit x (Suc 0) = bit y (Suc 0) \<Longrightarrow> bit x 2 = bit y 2 \<Longrightarrow>
     epoll_events x = epoll_events y"
  by (simp add: epoll_events_def)

section \<open>The map under the operations\<close>

lemma watch_map_cong:
  "reg st' = reg st \<Longrightarrow> fdes st' = fdes st \<Longrightarrow> watch_map st' = watch_map st"
  by (rule ext) (simp add: watch_map_def split: option.split)

lemma watch_map_upd:
  assumes inv: "fd_inv st xs" and act: "active st a"
    and f: "fdes st' = (fdes st)(a := F)" and r: "reg st' = reg st"
  shows "watch_map st' = (watch_map st)(fde_fd (fdes st a) := entry (fde_state F) a)"
proof
  fix fd
  have "reg st (nat fd) = Some a \<longleftrightarrow> fd = fde_fd (fdes st a)" if "0 \<le> fd"
    using fd_invD(5) [OF inv act] fd_invD(6) [OF inv, of "nat fd" a] that by auto
  then show "watch_map st' fd = ((watch_map st)(fde_fd (fdes st a) := entry (fde_state F) a)) fd"
    using fd_invD(5) [OF inv act] by (auto simp: watch_map_def f r split: option.split)
qed

lemma watch_map_active:
  assumes "fd_inv st xs" and "active st a"
  shows "watch_map st (fde_fd (fdes st a)) = entry (fde_state (fdes st a)) a"
  using fd_invD(5) [OF assms] by (simp add: watch_map_def)

lemma watch_map_upd_inactive:
  assumes "fd_inv st xs" and "\<not> active st a" and "fdes st' = (fdes st)(a := F)" and "reg st' = reg st"
  shows "watch_map st' = watch_map st"
proof
  fix fd
  have "reg st (nat fd) \<noteq> Some a"
    using fd_invD(6) [OF assms(1)] assms(2) by blast
  then show "watch_map st' fd = watch_map st fd"
    by (auto simp: watch_map_def assms split: option.split)
qed

lemma active_table: "fd_inv st xs \<Longrightarrow> active st a \<Longrightarrow> fd_table st \<noteq> []"
  using active_range(3) by fastforce

text \<open>\<open>fdevent_update\<close> in the two variants.\<close>

lemma fdevent_update_eq:
  assumes "fd_inv st xs" and "active st a"
  shows "\<exists>r w e. fdevent_update a events st = Inr ((upd_fde a (\<lambda>f. f\<lparr>fde_state :=
    (fde_state f AND FDE_STATEMASK) OR events\<rparr>) st)\<lparr>read_fds := r, write_fds := w, error_fds := e\<rparr>)"
  using active_range(1,4) [OF assms]
  by (simp add: fdevent_update_def Let_def fd_put_eq upd_fde_def upd_order) blast

lemma fdevent_update_ep_eq:
  assumes inv: "fd_inv st xs" and act: "active st a" and rel: "ep_rel st ep"
  shows "fdevent_update_ep a events ep = Inr (ep\<lparr>ep_base := shared (upd_fde a (\<lambda>f. f\<lparr>fde_state :=
      (fde_state f AND FDE_STATEMASK) OR events\<rparr>) st),
    interest := (watch_map st)(fde_fd (fdes st a) := entry events a)\<rparr>)"
proof -
  have e: "0 \<le> epoll_fd ep" "ep_base ep = shared st" "interest ep = watch_map st"
    "plain (fde_state (fdes st a))"
    using rel act active_table [OF inv act] by (auto simp: ep_rel_def)
  note [simp] = watch_map_active [OF inv act] watched_iff [OF e(4)]
  have fd: "\<not> fde_fd (fdes st a) < 0"
    using active_range(1) [OF inv act] by simp
  have id: "m = m(x := None)" if "m x = None" for m :: "int \<rightharpoonup> ep_event" and x
    using that by auto
  show ?thesis
    using e fd id [of "watch_map st" "fde_fd (fdes st a)"]
    by (auto simp: fdevent_update_ep_def Let_def ctl_or_exit_def epoll_ctl_def entry_def)
qed

text \<open>The rest of \<open>fdevent_set\<close> does not look at the back end.\<close>

lemma fdevent_set_split:
  "fdevent_set a evs st =
     (let events = ucast evs AND FDE_EVENTMASK in
      if fde_state (fdes st a) AND FDE_EVENTMASK = events then Inr st
      else seq (if fde_state (fdes st a) AND FDE_ACTIVE \<noteq> 0 then fdevent_update a events st
             else Inr st) (drop_wanted a events))"
  unfolding fdevent_set_def drop_wanted_def [abs_def] by (rule refl)

definition map_res :: "('a \<Rightarrow> 'b) \<Rightarrow> 'a res \<Rightarrow> 'b res" where
  "map_res f m = (case m of Inl e \<Rightarrow> Inl e | Inr x \<Rightarrow> Inr (f x))"

lemma map_res_simps [simp]: "map_res f (Inl e) = Inl e" "map_res f (Inr x) = Inr (f x)"
  by (simp_all add: map_res_def)

lemma drop_wanted_shared: "drop_wanted a events (shared st) = map_res shared (drop_wanted a events st)"
  by (cases "fdevent_plist_remove a (plinks st)") (simp_all add: drop_wanted_def Let_def)

text \<open>\<open>fdevent_set\<close> succeeds in both variants and keeps them in step.\<close>

lemma drop_wanted_table: "drop_wanted a events st = Inr st' \<Longrightarrow> fd_table st' = fd_table st"
  by (auto simp: drop_wanted_def Let_def seq_def split: if_splits sum.splits)

lemma after_set_bits:
  assumes "events = ucast evs AND FDE_EVENTMASK"
  shows "epoll_events (fde_state (after_set a events st)) = epoll_events events"
    "plain events \<Longrightarrow> plain (fde_state (after_set a events st))"
    "bit (fde_state (after_set a events st)) 8 = active st a"
proof -
  have "\<not> bit events n" if "8 \<le> n" for n
    using that by (simp add: assms EVENTMASK_bits)
  then show "epoll_events (fde_state (after_set a events st)) = epoll_events events"
    "bit (fde_state (after_set a events st)) 8 = active st a"
    by (auto simp: after_set_def Let_def epoll_events_def)
  show "plain (fde_state (after_set a events st))" if "plain events"
    using that by (auto simp: plain_bits after_set_def Let_def STATEMASK_bits)
qed

lemma set_in_step:
  assumes inv: "fd_inv st xs" and rel: "ep_rel st ep" and ev: "events = ucast evs AND FDE_EVENTMASK"
    and pl: "active st a \<Longrightarrow> plain events"
  shows "\<exists>st' ep'. fdevent_set a evs st = Inr st' \<and> fdevent_set_ep a evs ep = Inr ep' \<and> ep_rel st' ep'"
proof (cases "fde_state (fdes st a) AND FDE_EVENTMASK = events")
  case True
  with rel show ?thesis
    by (auto simp: fdevent_set_def fdevent_set_ep_def ev ep_rel_def)
next
  case new: False
  from fdevent_set_spec [OF inv ev, of a] new obtain st' where
    st': "fdevent_set a evs st = Inr st'" "fdes st' = (fdes st)(a := after_set a events st)"
      "reg st' = reg st" by auto
  note bits = after_set_bits [OF ev, of a st]
  have base: "ep_base ep = shared st" using rel by (simp add: ep_rel_def)
  have plain': "plain (fde_state (fdes st' b))" if "active st' b" for b
    using that rel bits(2,3) pl by (auto simp: st'(2) ep_rel_def split: if_splits)
  show ?thesis
  proof (cases "active st a")
    case act: True
    let ?st1 = "upd_fde a (\<lambda>f. f\<lparr>fde_state := (fde_state f AND FDE_STATEMASK) OR events\<rparr>) st"
    obtain r w e where "fdevent_update a events st =
        Inr (?st1\<lparr>read_fds := r, write_fds := w, error_fds := e\<rparr>)"
      using fdevent_update_eq [OF inv act, of events] by blast
    with st'(1) new act have dw:
      "drop_wanted a events (?st1\<lparr>read_fds := r, write_fds := w, error_fds := e\<rparr>) = Inr st'"
      by (simp add: fdevent_set_split ev [symmetric])
    then have "drop_wanted a events (shared ?st1) = Inr (shared st')"
      using drop_wanted_shared [of a events "?st1\<lparr>read_fds := r, write_fds := w, error_fds := e\<rparr>"]
      by simp
    then have "fdevent_set_ep a evs ep = Inr (ep\<lparr>ep_base := shared st',
        interest := (watch_map st)(fde_fd (fdes st a) := entry events a)\<rparr>)"
      using new act fdevent_update_ep_eq [OF inv act rel, of events]
      by (simp add: fdevent_set_ep_def ev [symmetric] base on_base_def)
    moreover have "watch_map st' = (watch_map st)(fde_fd (fdes st a) := entry events a)"
      using watch_map_upd [OF inv act st'(2,3)] bits(1) by (simp add: entry_def)
    moreover have "0 \<le> epoll_fd ep"
      using rel active_table [OF inv act] by (simp add: ep_rel_def)
    ultimately show ?thesis
      using st'(1) plain' by (simp add: ep_rel_def)
  next
    case act: False
    with st'(1) new have dw: "drop_wanted a events st = Inr st'"
      by (simp add: fdevent_set_split ev [symmetric])
    then have "fdevent_set_ep a evs ep = Inr (ep\<lparr>ep_base := shared st'\<rparr>)"
      using new act drop_wanted_shared [of a events st]
      by (simp add: fdevent_set_ep_def ev [symmetric] base on_base_def)
    moreover have "watch_map st' = watch_map st"
      by (rule watch_map_upd_inactive [OF inv act st'(2,3)])
    ultimately show ?thesis
      using st'(1) plain' rel drop_wanted_table [OF dw] by (simp add: ep_rel_def)
  qed
qed

section \<open>Registering and removing\<close>

text \<open>The table after \<open>fdevent_register\<close>, which both variants compute alike.\<close>

lemma register_in_step:
  assumes fd: "0 \<le> fde_fd (fdes st a)" "fde_fd (fdes st a) < int FD_SETSIZE"
    and ini: "fd_table st = [] \<Longrightarrow> read_fds st = {} \<and> write_fds st = {} \<and> error_fds st = {}"
    and ep: "ep_base ep = shared st" "0 \<le> efd"
  shows "\<exists>t. fdevent_register a st = Inr (st\<lparr>fd_table := t\<rparr>) \<and>
    fdevent_register_ep efd a ep = Inr ((if fd_table st = [] then
      ep\<lparr>epoll_fd := efd, interest := \<lambda>_. None\<rparr> else ep)\<lparr>ep_base := shared (st\<lparr>fd_table := t\<rparr>)\<rparr>)"
proof -
  have "fdevent_init st = st" if "fd_table st = []"
    using ini [OF that] by (simp add: fdevent_init_def)
  then show ?thesis
    using fd ep
    by (auto simp: fdevent_register_def fdevent_register_ep_def Let_def FD_SETSIZE_def
        fdevent_init_ep_def fdevent_init_def)
qed

lemma shared_connect: "shared (upd_fde b f (fdevent_connect a st)) = shared (upd_fde b f st)"
  by (simp add: fdevent_connect_def shared_def upd_fde_def)

lemma install_in_step:
  assumes inv: "fd_inv st xs" and rel: "ep_rel st ep" and ok: "can_install a fd st" and efd: "0 \<le> efd"
  shows "\<exists>st' ep'. fdevent_install a fd func arg st = Inr st' \<and>
    fdevent_install_ep efd a fd func arg ep = Inr ep' \<and> ep_rel st' ep' \<and>
    fde_state (fdes st' a) = FDE_ACTIVE"
proof -
  note D = fd_invD [OF inv]
  have ok': "a \<noteq> list_pending" "\<not> active st a" "0 \<le> fd" "fd < int FD_SETSIZE" "reg st (nat fd) = None"
    using ok by (auto simp: can_install_def)
  let ?F = "fdevent_zero\<lparr>fde_state := FDE_ACTIVE, fde_fd := fd, fde_func := func, fde_arg := arg\<rparr>"
  define st1 where "st1 = upd_fde a (\<lambda>_. fdevent_zero\<lparr>fde_state := FDE_ACTIVE, fde_fd := fd,
    force_eof := False, fde_func := func, fde_arg := arg\<rparr>)
    (st\<lparr>plinks := set_prv a None (set_nxt a None (plinks st))\<rparr>)"
  define ep1 where "ep1 = ep\<lparr>ep_base := shared st1\<rparr>"
  have base: "ep_base ep = shared st" using rel by (simp add: ep_rel_def)
  have tab: "fd_table st1 = fd_table st" by (simp add: st1_def)
  have "fd_table st1 = [] \<Longrightarrow> read_fds st1 = {} \<and> write_fds st1 = {} \<and> error_fds st1 = {}"
    using D(7,8,9) by (simp add: st1_def watches_def reg_def)
  then obtain t where t: "fdevent_register a st1 = Inr (st1\<lparr>fd_table := t\<rparr>)"
    "fdevent_register_ep efd a ep1 = Inr ((if fd_table st1 = [] then
       ep1\<lparr>epoll_fd := efd, interest := \<lambda>_. None\<rparr> else ep1)\<lparr>ep_base := shared (st1\<lparr>fd_table := t\<rparr>)\<rparr>)"
    using register_in_step [of st1 a ep1 efd] ok'(3,4) efd by (auto simp: st1_def ep1_def)
  from fdevent_install_spec [OF inv ok'(1-5), of func arg] obtain st' where st':
    "fdevent_install a fd func arg st = Inr st'" "fdes st' = (fdes st)(a := ?F)"
    "reg st' = (reg st)(nat fd := Some a)" by blast
  have sh: "st' = upd_fde a (\<lambda>f. f\<lparr>fde_state := fde_state f OR FDE_ACTIVE\<rparr>)
      (fdevent_connect a (st1\<lparr>fd_table := t\<rparr>))"
    using st'(1) t(1) by (simp add: fdevent_install_def Let_def st1_def [symmetric])
  have ep': "fdevent_install_ep efd a fd func arg ep = Inr ((if fd_table st = [] then
       ep\<lparr>epoll_fd := efd, interest := \<lambda>_. None\<rparr> else ep)\<lparr>ep_base := shared st'\<rparr>)"
    unfolding fdevent_install_ep_def base
    using t(2) tab by (simp add: Let_def st1_def [symmetric] ep1_def
        fdevent_connect_ep_def sh shared_connect)
  have wm: "watch_map st' = watch_map st"
  proof
    fix i
    have "reg st j \<noteq> Some a" for j using D(6) ok'(2) by blast
    moreover have "entry FDE_ACTIVE a = None"
      by (simp add: entry_def epoll_events_def)
    ultimately show "watch_map st' i = watch_map st i"
      using ok'(3,5) by (auto simp: watch_map_def st'(2,3) split: option.split)
  qed
  have "watch_map st = (\<lambda>_. None)" if "fd_table st = []"
    using that by (simp add: watch_map_def reg_def fun_eq_iff)
  moreover have "plain FDE_ACTIVE" by (simp add: plain_def FDE_ACTIVE_def FDE_OTHER_def)
  ultimately have "ep_rel st' ((if fd_table st = [] then ep\<lparr>epoll_fd := efd, interest := \<lambda>_. None\<rparr>
      else ep)\<lparr>ep_base := shared st'\<rparr>)"
    using rel efd wm by (auto simp: ep_rel_def st'(2))
  with st' ep' show ?thesis by simp
qed

lemma rel_upd_flag:
  assumes inv: "fd_inv st xs" and act: "active st a" and rel: "ep_rel st ep"
    and f: "epoll_events (fde_state (f (fdes st a))) = epoll_events (fde_state (fdes st a))"
      "plain (fde_state (f (fdes st a))) = plain (fde_state (fdes st a))"
      "bit (fde_state (f (fdes st a))) 8"
  shows "ep_rel (upd_fde a f st) (upd_ep a f ep)"
proof -
  have "watch_map (upd_fde a f st) = (watch_map st)(fde_fd (fdes st a) := entry (fde_state (f (fdes st a))) a)"
    by (rule watch_map_upd [OF inv act]) simp_all
  also have "\<dots> = watch_map st"
    using watch_map_active [OF inv act] f(1) by (simp add: entry_def fun_upd_idem)
  finally show ?thesis
    using rel act f by (auto simp: ep_rel_def)
qed

lemma flag_bits:
  "plain (x OR FDE_CREATED) = plain x" "epoll_events (x OR FDE_CREATED) = epoll_events x"
  "plain (x OR FDE_PENDING) = plain x" "epoll_events (x OR FDE_PENDING) = epoll_events x"
  "plain (x AND NOT FDE_PENDING) = plain x" "epoll_events (x AND NOT FDE_PENDING) = epoll_events x"
proof -
  have "FDE_CREATED AND FDE_OTHER = 0" "FDE_PENDING AND FDE_OTHER = 0"
    "NOT FDE_PENDING AND FDE_OTHER = FDE_OTHER"
    by (simp_all add: fde_defs FDE_OTHER_def)
  then show "plain (x OR FDE_CREATED) = plain x" "plain (x OR FDE_PENDING) = plain x"
    "plain (x AND NOT FDE_PENDING) = plain x"
    by (simp_all add: plain_def and.assoc bit.conj_disj_distrib2)
qed (simp_all add: epoll_events_def)

lemma create_in_step:
  assumes inv: "fd_inv st xs" and rel: "ep_rel st ep" and ok: "can_install a fd st" and efd: "0 \<le> efd"
  shows "\<exists>st' ep'. fdevent_create a fd func arg st = Inr st' \<and>
    fdevent_create_ep efd a fd func arg ep = Inr ep' \<and> ep_rel st' ep'"
proof -
  from install_in_step [OF assms] obtain st1 ep1 where
    st1: "fdevent_install a fd func arg st = Inr st1" "fdevent_install_ep efd a fd func arg ep = Inr ep1"
      "ep_rel st1 ep1" "fde_state (fdes st1 a) = FDE_ACTIVE" by blast
  from fdevent_install_spec [OF inv, of a fd func arg] ok st1(1) have inv1: "fd_inv st1 xs"
    by (auto simp: can_install_def)
  show ?thesis
    using st1 rel_upd_flag [OF inv1 _ st1(3), of a "\<lambda>f. f\<lparr>fde_state := fde_state f OR FDE_CREATED\<rparr>"]
    by (simp add: fdevent_create_def fdevent_create_ep_def flag_bits)
qed

lemma disconnect_ep_eq:
  assumes "0 \<le> epoll_fd ep" and "0 \<le> fde_fd (ep_fde ep a)"
  shows "fdevent_disconnect_ep a ep = ep\<lparr>interest := (interest ep)(fde_fd (ep_fde ep a) := None)\<rparr>"
  using assms by (auto simp: fdevent_disconnect_ep_def epoll_ctl_def fun_upd_idem)

lemma unregister_shared: "fdevent_unregister a (shared st) = map_res shared (fdevent_unregister a st)"
  by (simp add: fdevent_unregister_def Let_def)

lemma unlink_pending:
  assumes inv: "fd_inv st xs"
  obtains l where "(if pending st a then seq (fdevent_plist_remove a (plinks st)) (\<lambda>l. Inr (st\<lparr>plinks := l\<rparr>))
      else Inr st) = Inr (st\<lparr>plinks := l\<rparr>)"
    "pending st a \<Longrightarrow> fdevent_plist_remove a (plinks st) = Inr l" "\<not> pending st a \<Longrightarrow> l = plinks st"
proof (cases "pending st a")
  case True
  with fd_invD(2) [OF inv] plist.del_ring [OF fd_invD(1) [OF inv], of a] that show ?thesis by auto
next
  case False
  with that [of "plinks st"] show ?thesis by simp
qed

lemma remove_in_step:
  assumes inv: "fd_inv st xs" and rel: "ep_rel st ep"
  shows "\<exists>st' ep'. fdevent_remove a st = Inr st' \<and> fdevent_remove_ep a ep = Inr ep' \<and> ep_rel st' ep'"
proof (cases "active st a")
  case act: False
  let ?f = "\<lambda>f :: fdevent. f\<lparr>fde_state := 0, fde_events := 0\<rparr>"
  have np: "\<not> pending st a" using fd_invD(4) [OF inv] act by blast
  have "watch_map (upd_fde a ?f st) = watch_map st"
    by (rule watch_map_upd_inactive [OF inv act, where F = "?f (fdes st a)"]) simp_all
  then have "ep_rel (upd_fde a ?f st) (upd_ep a ?f ep)"
    using rel by (auto simp: ep_rel_def)
  with act np rel fdevent_remove_inactive [OF inv act] show ?thesis
    by (simp add: fdevent_remove_ep_def ep_rel_def)
next
  case act: True
  define fd where "fd = fde_fd (fdes st a)"
  have base: "ep_base ep = shared st" and ep: "0 \<le> epoll_fd ep" "0 \<le> fd"
    using rel active_table [OF inv act] active_range(1) [OF inv act] by (auto simp: ep_rel_def fd_def)
  from unlink_pending [OF inv, of a] obtain l where l:
    "(if pending st a then seq (fdevent_plist_remove a (plinks st)) (\<lambda>l. Inr (st\<lparr>plinks := l\<rparr>))
      else Inr st) = Inr (st\<lparr>plinks := l\<rparr>)"
    "pending st a \<Longrightarrow> fdevent_plist_remove a (plinks st) = Inr l" "\<not> pending st a \<Longrightarrow> l = plinks st"
    by blast
  obtain r w e n where dis: "fdevent_disconnect a (st\<lparr>plinks := l\<rparr>) =
      Inr (st\<lparr>plinks := l, read_fds := r, write_fds := w, error_fds := e, select_n := n\<rparr>)"
    using fdevent_disconnect_spec [OF inv act, of l] by blast
  from fdevent_remove_active [OF inv act] obtain st' where st': "fdevent_remove a st = Inr st'"
    "fdes st' = (fdes st)(a := after_remove a st)" "reg st' = (reg st)(nat fd := None)"
    by (auto simp: fd_def)
  with l(1) dis act obtain st2 where st2:
    "fdevent_unregister a (st\<lparr>plinks := l, read_fds := r, write_fds := w, error_fds := e, select_n := n\<rparr>) = Inr st2"
    "st' = upd_fde a (\<lambda>f. f\<lparr>fde_state := 0, fde_events := 0\<rparr>) st2"
    by (auto simp: fdevent_remove_def seq_def split: sum.splits)
  then have un: "fdevent_unregister a (shared (st\<lparr>plinks := l\<rparr>)) = Inr (shared st2)"
    using unregister_shared [of a "st\<lparr>plinks := l, read_fds := r, write_fds := w, error_fds := e, select_n := n\<rparr>"]
    by simp
  have "(if pending st a then on_base (\<lambda>st. seq (fdevent_plist_remove a (plinks st))
      (\<lambda>l. Inr (st\<lparr>plinks := l\<rparr>))) ep else Inr ep) = Inr (ep\<lparr>ep_base := shared (st\<lparr>plinks := l\<rparr>)\<rparr>)"
    using l(2,3) base by (auto simp: on_base_def)
  then have ep': "fdevent_remove_ep a ep =
      Inr (ep\<lparr>ep_base := shared st', interest := (watch_map st)(fd := None)\<rparr>)"
    using act un ep rel by (simp add: fdevent_remove_ep_def base disconnect_ep_eq on_base_def
        fd_def [symmetric] st2(2) ep_rel_def)
  have "watch_map st' = (watch_map st)(fd := None)"
  proof
    fix i
    have "reg st (nat i) \<noteq> Some a" if "0 \<le> i" "i \<noteq> fd"
      using fd_invD(6) [OF inv, of "nat i" a] that by (auto simp: fd_def)
    then show "watch_map st' i = ((watch_map st)(fd := None)) i"
      using ep(2) by (cases "i < 0"; cases "i = fd")
        (auto simp: watch_map_def st'(2,3) eq_nat_nat_iff split: option.split)
  qed
  then have "ep_rel st' (ep\<lparr>ep_base := shared st', interest := (watch_map st)(fd := None)\<rparr>)"
    using rel ep by (auto simp: ep_rel_def st'(2) after_remove_def)
  with st'(1) ep' show ?thesis by blast
qed

section \<open>All operations\<close>

text \<open>The events an operation asks for are plain.\<close>

fun op_plain :: "fd_op \<Rightarrow> bool" where
  "op_plain (OpSet a e) \<longleftrightarrow> plain (ucast e AND FDE_EVENTMASK)"
| "op_plain (OpAdd a e) \<longleftrightarrow> plain (ucast e AND FDE_EVENTMASK)"
| "op_plain _ \<longleftrightarrow> True"

lemma plain_add:
  "plain s \<Longrightarrow> plain (ucast (e :: u32) AND FDE_EVENTMASK) \<Longrightarrow>
     plain (ucast (ucast (s AND FDE_EVENTMASK) OR (e AND ucast FDE_EVENTMASK)) AND FDE_EVENTMASK)"
  by (auto simp: plain_bits bit_ucast_iff bit_or_iff bit_and_iff EVENTMASK_bits)

lemma plain_del:
  "plain s \<Longrightarrow>
     plain (ucast (ucast (s AND FDE_EVENTMASK) AND NOT ((e :: u32) AND ucast FDE_EVENTMASK)) AND FDE_EVENTMASK)"
  by (auto simp: plain_bits bit_ucast_iff bit_and_iff EVENTMASK_bits)

lemma op_in_step:
  assumes inv: "fd_inv st xs" and rel: "ep_rel st ep" and ok: "op_ok op st" "op_plain op"
    and efd: "0 \<le> efd"
  shows "\<exists>st' ep'. do_op op st = Inr st' \<and> do_op_ep efd op ep = Inr ep' \<and> ep_rel st' ep'"
proof -
  note set = set_in_step [OF inv rel refl]
  have base: "fdes (ep_base ep) = fdes st" using rel by (simp add: ep_rel_def)
  have pl: "active st a \<Longrightarrow> plain (fde_state (fdes st a))" for a
    using rel by (simp add: ep_rel_def)
  show ?thesis
  proof (cases op)
    case (OpInstall a fd f x)
    with install_in_step [OF inv rel, of a fd efd f x] ok efd show ?thesis by auto
  next
    case (OpCreate a fd f x)
    with create_in_step [OF inv rel, of a fd efd f x] ok efd show ?thesis by auto
  next
    case (OpRemove a)
    with remove_in_step [OF inv rel, of a] show ?thesis by auto
  next
    case (OpDestroy a)
    with remove_in_step [OF inv rel, of a] ok base show ?thesis
      by (auto simp: fdevent_destroy_def fdevent_destroy_ep_def)
  next
    case (OpSet a e)
    with set [of a e] ok show ?thesis by auto
  next
    case (OpAdd a e)
    with set [OF plain_add [OF pl]] ok show ?thesis
      by (auto simp: fdevent_add_def fdevent_add_ep_def base)
  next
    case (OpDel a e)
    with set [OF plain_del [OF pl]] show ?thesis
      by (auto simp: fdevent_del_def fdevent_del_ep_def base)
  qed
qed

section \<open>Collecting what \<open>epoll_wait\<close> reports\<close>

text \<open>
  What \<open>epoll_wait\<close> may answer: interruption, or distinct entries of the interest list, each
  with an event.
\<close>

definition epoll_ok :: "epst \<Rightarrow> ep_answer \<Rightarrow> bool" where
  "epoll_ok ep answer =
     (case answer of
        EpErr e \<Rightarrow> e = EINTR
      | EpEvents evs \<Rightarrow> length evs \<le> 256 \<and> distinct (map snd evs) \<and>
          (\<forall>ev \<in> set evs. \<exists>fd m. interest ep fd = Some (m, snd ev)))"

lemma ep_mark_eq:
  assumes inv: "fd_inv st xs" and act: "active st a"
  shows "ep_mark (m, a) st = fdevent_mark (nat (fde_fd (fdes st a))) (fired m) st"
proof -
  have t: "table_at st (int (nat (fde_fd (fdes st a)))) = Inr (Some a)"
    using active_range [OF inv act] by (simp add: table_at_def)
  show ?thesis
  proof (cases "fired m = 0")
    case True
    have "upd_fde a (\<lambda>f. f\<lparr>fde_events := fde_events f\<rparr>) st = st"
      by (simp add: upd_fde_def)
    with True fd_invD(3) [OF inv, of a] show ?thesis
      by (auto simp: ep_mark_def fdevent_mark_def Let_def)
  next
    case False
    with t show ?thesis
      by (simp add: ep_mark_def fdevent_mark_def Let_def or_eq_0_iff)
  qed
qed

lemma ep_mark_shared: "ep_mark ev (shared st) = map_res shared (ep_mark ev st)"
  by (cases "fdevent_plist_enqueue list_pending (snd ev) (plinks st)")
    (simp_all add: ep_mark_def Let_def)

text \<open>One report: the event gets its bits and becomes pending, and nothing else changes.\<close>

lemma mark_in_step:
  assumes inv: "fd_inv st xs" and act: "active st a" and rel: "ep_rel st (ep\<lparr>ep_base := shared st\<rparr>)"
  shows "\<exists>st'. ep_mark (m, a) st = Inr st' \<and>
    fd_inv st' (if fired m \<noteq> 0 \<and> \<not> pending st a then xs @ [a] else xs) \<and>
    fdes st' = (fdes st)(a := marked (fired m) (fdes st a)) \<and>
    ep_rel st' (ep\<lparr>ep_base := shared st'\<rparr>)"
proof -
  have "fired m \<noteq> 0 \<Longrightarrow> reg st (nat (fde_fd (fdes st a))) = Some a"
    using fd_invD(5) [OF inv act] by simp
  from fdevent_mark_spec [where events = "fired m", OF inv this] obtain st' where st':
    "ep_mark (m, a) st = Inr st'" "fd_inv st' (if fired m \<noteq> 0 \<and> \<not> pending st a then xs @ [a] else xs)"
    "fdes st' = (fdes st)(a := marked (fired m) (fdes st a))" "reg st' = reg st"
    unfolding ep_mark_eq [OF inv act] by (cases "fired m = 0") (auto simp: marked_def)
  have e: "epoll_events (fde_state (marked (fired m) (fdes st a))) = epoll_events (fde_state (fdes st a))"
    "plain (fde_state (marked (fired m) (fdes st a))) = plain (fde_state (fdes st a))"
    by (simp_all add: marked_def flag_bits)
  have "watch_map st' = (watch_map st)(fde_fd (fdes st a) := entry (fde_state (fdes st a)) a)"
    unfolding watch_map_upd [OF inv act st'(3,4)] using e(1) by (simp add: entry_def)
  then have "watch_map st' = watch_map st"
    using watch_map_active [OF inv act] by (simp add: fun_upd_idem)
  moreover have "0 \<le> epoll_fd ep"
    using rel active_table [OF inv act] by (simp add: ep_rel_def)
  ultimately have "ep_rel st' (ep\<lparr>ep_base := shared st'\<rparr>)"
    using rel e(2) act by (auto simp: ep_rel_def st'(3))
  with st' show ?thesis by blast
qed

text \<open>The bits reported for an event, and the events that become pending, in order.\<close>

definition bits_for :: "ep_event list \<Rightarrow> nat \<Rightarrow> u16" where
  "bits_for evs a = (case find (\<lambda>ev. snd ev = a) evs of None \<Rightarrow> 0 | Some ev \<Rightarrow> fired (fst ev))"

definition newly :: "fdst \<Rightarrow> ep_event list \<Rightarrow> nat list" where
  "newly st evs = map snd (filter (\<lambda>ev. fired (fst ev) \<noteq> 0 \<and> \<not> pending st (snd ev)) evs)"

lemma bits_for_notin: "a \<notin> snd ` set evs \<Longrightarrow> bits_for evs a = 0"
  by (auto simp: bits_for_def find_None_iff split: option.split dest!: find_Some_iff [THEN iffD1])

lemma mark_all_in_step:
  assumes "fd_inv st xs" and "distinct (map snd evs)" and "\<forall>ev\<in>set evs. active st (snd ev)"
    and "ep_rel st (ep\<lparr>ep_base := shared st\<rparr>)"
  shows "\<exists>st'. ep_mark_all evs st = Inr st' \<and> fd_inv st' (xs @ newly st evs) \<and>
    (\<forall>a. fdes st' a = marked (bits_for evs a) (fdes st a)) \<and> ep_rel st' (ep\<lparr>ep_base := shared st'\<rparr>)"
  using assms
proof (induction evs arbitrary: st xs)
  case Nil
  then show ?case by (simp add: newly_def bits_for_def marked_def)
next
  case (Cons ev evs)
  obtain m a where ev: "ev = (m, a)" by (cases ev)
  from mark_in_step [OF Cons.prems(1) _ Cons.prems(4), of a m] Cons.prems(3) obtain st1 where st1:
    "ep_mark (m, a) st = Inr st1" "fd_inv st1 (if fired m \<noteq> 0 \<and> \<not> pending st a then xs @ [a] else xs)"
    "fdes st1 = (fdes st)(a := marked (fired m) (fdes st a))" "ep_rel st1 (ep\<lparr>ep_base := shared st1\<rparr>)"
    by (auto simp: ev)
  have a: "a \<notin> snd ` set evs" "distinct (map snd evs)" using Cons.prems(2) by (auto simp: ev)
  have "active st1 (snd e)" if "e \<in> set evs" for e
    using that a(1) Cons.prems(3) by (auto simp: st1(3))
  with Cons.IH [OF st1(2) a(2) _ st1(4)] obtain st' where st': "ep_mark_all evs st1 = Inr st'"
    "fd_inv st' ((if fired m \<noteq> 0 \<and> \<not> pending st a then xs @ [a] else xs) @ newly st1 evs)"
    "\<And>b. fdes st' b = marked (bits_for evs b) (fdes st1 b)" "ep_rel st' (ep\<lparr>ep_base := shared st'\<rparr>)"
    by blast
  have "newly st1 evs = newly st evs"
    using a(1) by (auto simp: newly_def st1(3) intro!: filter_cong arg_cong [where f = "map snd"])
  moreover have "fdes st' b = marked (bits_for (ev # evs) b) (fdes st b)" for b
    using st'(3) [of b] bits_for_notin [OF a(1)]
    by (auto simp: st1(3) ev bits_for_def marked_def)
  ultimately show ?case
    using st1(1) st' by (auto simp: ev newly_def)
qed

lemma ep_mark_all_shared: "ep_mark_all evs (shared st) = map_res shared (ep_mark_all evs st)"
proof (induction evs arbitrary: st)
  case (Cons ev evs)
  then show ?case by (cases "ep_mark ev st") (simp_all add: ep_mark_shared)
qed simp

lemma watch_map_pointer:
  assumes "fd_inv st xs" and "watch_map st fd = Some (m, a)"
  shows "active st a"
  using assms fd_invD(6) [OF assms(1), of "nat fd" a]
  by (auto simp: watch_map_def entry_def split: if_splits option.splits)

lemma process_in_step:
  assumes inv: "fd_inv st xs" and rel: "ep_rel st ep" and ok: "epoll_ok ep (EpEvents evs)"
  shows "\<exists>st'. fdevent_process_ep (EpEvents evs) ep = Inr (ep\<lparr>ep_base := shared st'\<rparr>) \<and>
    fd_inv st' (xs @ newly st evs) \<and> (\<forall>a. fdes st' a = marked (bits_for evs a) (fdes st a)) \<and>
    ep_rel st' (ep\<lparr>ep_base := shared st'\<rparr>)"
proof -
  have b: "ep_base ep = shared st" "ep\<lparr>ep_base := shared st\<rparr> = ep"
    using rel by (simp_all add: ep_rel_def epst.equality)
  have "active st (snd ev)" if "ev \<in> set evs" for ev
    using that ok rel watch_map_pointer [OF inv]
    by (auto simp: epoll_ok_def ep_rel_def)
  then obtain st' where st': "ep_mark_all evs st = Inr st'" "fd_inv st' (xs @ newly st evs)"
    "\<forall>a. fdes st' a = marked (bits_for evs a) (fdes st a)" "ep_rel st' (ep\<lparr>ep_base := shared st'\<rparr>)"
    using mark_all_in_step [OF inv, of evs ep] ok rel b by (auto simp: epoll_ok_def)
  then show ?thesis
    by (intro exI [of _ st']) (simp add: fdevent_process_ep_def on_base_def b(1) ep_mark_all_shared)
qed

text \<open>A dispatch is the work of the shared part alone.\<close>

lemma called_shared: "called a (shared st) = shared (called a st)"
  by (simp add: called_def)

lemma dispatch_in_step:
  assumes inv: "fd_inv st (a # xs)" and rel: "ep_rel st ep"
  shows "\<exists>l. fdevent_plist_dequeue list_pending (plinks (ep_base ep)) = Inr (Some a, l) \<and>
    fdevent_call_fdfunc (\<lambda>_ _ _ _ st. Inr st) a ((ep_base ep)\<lparr>plinks := l\<rparr>) =
      Inr (shared (called a (st\<lparr>plinks := l\<rparr>))) \<and>
    fd_inv (called a (st\<lparr>plinks := l\<rparr>)) xs \<and>
    ep_rel (called a (st\<lparr>plinks := l\<rparr>)) (ep\<lparr>ep_base := shared (called a (st\<lparr>plinks := l\<rparr>))\<rparr>)"
proof -
  note D = fd_invD [OF inv]
  from dequeue_Cons [OF inv, of "\<lambda>_ _ _ _ st. Inr st"] obtain l where l:
    "fdevent_plist_dequeue list_pending (plinks st) = Inr (Some a, l)"
    "fd_inv (called a (st\<lparr>plinks := l\<rparr>)) xs" by blast
  have p: "pending st a" "active st a" using D(2) [of a] D(4) [of a] by simp_all
  let ?st = "called a (st\<lparr>plinks := l\<rparr>)"
  let ?F = "(fdes st a)\<lparr>fde_state := fde_state (fdes st a) AND NOT FDE_PENDING, fde_events := 0\<rparr>"
  have f: "fdes ?st = (fdes st)(a := ?F)" "reg ?st = reg st" "fd_table ?st = fd_table st"
    by (simp_all add: called_def)
  have "watch_map ?st = (watch_map st)(fde_fd (fdes st a) := entry (fde_state (fdes st a)) a)"
    unfolding watch_map_upd [OF inv p(2) f(1,2)] by (simp add: entry_def flag_bits)
  then have "watch_map ?st = watch_map st"
    using watch_map_active [OF inv p(2)] by (simp add: fun_upd_idem)
  then have "ep_rel ?st (ep\<lparr>ep_base := shared ?st\<rparr>)"
    using rel p(2) f by (auto simp: ep_rel_def flag_bits)
  moreover have "fdevent_call_fdfunc (\<lambda>_ _ _ _ st. Inr st) a ((shared st)\<lparr>plinks := l\<rparr>) = Inr (shared ?st)"
    using fdevent_call_fdfunc_eq [of "shared (st\<lparr>plinks := l\<rparr>)" a "\<lambda>_ _ _ _ st. Inr st"] p(1)
    by (simp add: called_shared)
  ultimately show ?thesis
    using l rel by (auto simp: ep_rel_def)
qed

section \<open>Sequences of operations\<close>

text \<open>
  What a variant of the event loop promises: in a good state every operation whose condition
  holds succeeds and leads to a good state. A client may then run any sequence of operations each
  of which is allowed in the state that the ones before it lead to.
\<close>

fun run_machine :: "(fd_op \<Rightarrow> 's \<Rightarrow> 's res) \<Rightarrow> fd_op list \<Rightarrow> 's \<Rightarrow> 's res" where
  "run_machine step [] s = Inr s"
| "run_machine step (op # ops) s = seq (step op s) (run_machine step ops)"

fun each_ok :: "(fd_op \<Rightarrow> 's \<Rightarrow> bool) \<Rightarrow> (fd_op \<Rightarrow> 's \<Rightarrow> 's res) \<Rightarrow> fd_op list \<Rightarrow> 's \<Rightarrow> bool" where
  "each_ok ok step [] s \<longleftrightarrow> True"
| "each_ok ok step (op # ops) s \<longleftrightarrow> ok op s \<and> (case step op s of Inl _ \<Rightarrow> True | Inr s' \<Rightarrow> each_ok ok step ops s')"

locale event_machine =
  fixes good :: "'s \<Rightarrow> bool" and ok :: "fd_op \<Rightarrow> 's \<Rightarrow> bool" and step :: "fd_op \<Rightarrow> 's \<Rightarrow> 's res"
  assumes step_good: "good s \<Longrightarrow> ok op s \<Longrightarrow> \<exists>s'. step op s = Inr s' \<and> good s'"
begin

lemma run_good:
  "good s \<Longrightarrow> each_ok ok step ops s \<Longrightarrow> \<exists>s'. run_machine step ops s = Inr s' \<and> good s'"
proof (induction ops arbitrary: s)
  case (Cons op ops)
  with step_good [OF Cons.prems(1)] obtain s1 where "step op s = Inr s1" "good s1" by auto
  with Cons.IH [of s1] Cons.prems(2) show ?case by simp
qed simp

end

definition op_ok_ep :: "fd_op \<Rightarrow> epst \<Rightarrow> bool" where
  "op_ok_ep op ep \<longleftrightarrow> op_ok op (ep_base ep) \<and> op_plain op"

lemma op_ok_shared: "op_ok op (shared st) = op_ok op st"
  by (cases op) (simp_all add: can_install_def reg_def)

lemma op_ok_ep_rel: "ep_rel st ep \<Longrightarrow> op_ok_ep op ep \<longleftrightarrow> op_ok op st \<and> op_plain op"
  by (simp add: op_ok_ep_def ep_rel_def op_ok_shared)

definition ep_good :: "epst \<Rightarrow> bool" where
  "ep_good ep \<longleftrightarrow> (\<exists>st xs. fd_inv st xs \<and> ep_rel st ep)"

interpretation select_machine: event_machine "\<lambda>st. \<exists>xs. fd_inv st xs" op_ok do_op
  by unfold_locales (use do_op_inv in blast)

interpretation epoll_machine: event_machine ep_good op_ok_ep "do_op_ep (int n)" for n
proof unfold_locales
  fix ep op
  assume "ep_good ep" and ok: "op_ok_ep op ep"
  then obtain st xs where st: "fd_inv st xs" "ep_rel st ep" by (auto simp: ep_good_def)
  with ok have "op_ok op st" "op_plain op" by (simp_all add: op_ok_ep_rel)
  with op_in_step [OF st, of op "int n"] do_op_inv [OF st(1), of op]
  show "\<exists>ep'. do_op_ep (int n) op ep = Inr ep' \<and> ep_good ep'"
    by (auto simp: ep_good_def) blast
qed

definition op_fine :: "fd_op \<Rightarrow> fdst \<Rightarrow> bool" where
  "op_fine op st \<longleftrightarrow> op_ok op st \<and> op_plain op"

lemma run_in_step:
  assumes "fd_inv st xs" and "ep_rel st ep" and "each_ok op_fine do_op ops st"
  shows "\<exists>st' ep' ys. run_machine do_op ops st = Inr st' \<and>
    run_machine (do_op_ep (int n)) ops ep = Inr ep' \<and> fd_inv st' ys \<and> ep_rel st' ep'"
  using assms
proof (induction ops arbitrary: st ep xs)
  case (Cons op ops)
  from Cons.prems(3) have ok: "op_ok op st" "op_plain op" by (simp_all add: op_fine_def)
  with op_in_step [OF Cons.prems(1,2), of op "int n"] do_op_inv [OF Cons.prems(1), of op]
  obtain st1 ep1 ys where s1: "do_op op st = Inr st1" "do_op_ep (int n) op ep = Inr ep1"
    "ep_rel st1 ep1" "fd_inv st1 ys" by auto
  from Cons.IH [OF s1(4,3)] Cons.prems(3) s1(1,2) show ?case by simp
qed auto

lemma ep_rel_start: "ep_rel fd_start ep_start"
  by (simp add: ep_rel_def ep_start_def shared_start)
    (simp add: fd_start_def fdevent_zero_def watch_map_def reg_def fun_eq_iff)

lemma watch_map_sets:
  assumes "fd_inv st xs"
  shows "(case watch_map st (int i) of None \<Rightarrow> 0 | Some (m, a) \<Rightarrow> m) =
    (if i \<in> read_fds st then EPOLLIN else 0) OR (if i \<in> write_fds st then EPOLLOUT else 0) OR
    (if i \<in> error_fds st then EPOLLERR OR EPOLLHUP else 0)"
  unfolding fd_invD(7,8,9) [OF assms]
  by (cases "reg st i") (auto simp: watch_map_def watches_def entry_def epoll_events_def)

section \<open>Reachable states\<close>

text \<open>The states of this variant: operations, polls and dispatches. \<open>n\<close> is the descriptor
  of the interest list.\<close>

inductive ep_reach :: "nat \<Rightarrow> epst \<Rightarrow> bool" for n where
  ep_reach_start: "ep_reach n ep_start"
| ep_reach_op: "ep_reach n ep \<Longrightarrow> op_ok_ep op ep \<Longrightarrow> do_op_ep (int n) op ep = Inr ep' \<Longrightarrow> ep_reach n ep'"
| ep_reach_poll: "ep_reach n ep \<Longrightarrow> epoll_ok ep answer \<Longrightarrow> fdevent_process_ep answer ep = Inr ep' \<Longrightarrow>
    ep_reach n ep'"
| ep_reach_dispatch: "ep_reach n ep \<Longrightarrow>
    fdevent_plist_dequeue list_pending (plinks (ep_base ep)) = Inr (Some a, l) \<Longrightarrow>
    fdevent_call_fdfunc (\<lambda>_ _ _ _ st. Inr st) a ((ep_base ep)\<lparr>plinks := l\<rparr>) = Inr st \<Longrightarrow>
    ep_reach n (ep\<lparr>ep_base := st\<rparr>)"

lemma process_ep_good:
  assumes "ep_good ep" and "epoll_ok ep answer"
  shows "\<exists>ep'. fdevent_process_ep answer ep = Inr ep' \<and> ep_good ep'"
proof (cases answer)
  case (EpEvents evs)
  from assms(1) obtain st xs where "fd_inv st xs" "ep_rel st ep" by (auto simp: ep_good_def)
  from process_in_step [OF this, of evs] assms(2) EpEvents show ?thesis
    by (auto simp: ep_good_def)
qed (use assms in \<open>simp add: epoll_ok_def fdevent_process_ep_def\<close>)

lemma ep_reach_good: "ep_reach n ep \<Longrightarrow> ep_good ep"
proof (induction rule: ep_reach.induct)
  case ep_reach_start
  show ?case using fd_inv_start ep_rel_start by (auto simp: ep_good_def)
next
  case (ep_reach_op ep op ep')
  then show ?case using epoll_machine.step_good [of ep op n] by auto
next
  case (ep_reach_poll ep answer ep')
  then show ?case using process_ep_good by fastforce
next
  case (ep_reach_dispatch ep a l st)
  then obtain s xs where s: "fd_inv s xs" "ep_rel s ep" by (auto simp: ep_good_def)
  then obtain b ys where xs: "xs = b # ys"
    using ep_reach_dispatch.hyps(2) dequeue_Nil [of s] by (cases xs) (auto simp: ep_rel_def)
  with dispatch_in_step [of s b ys ep] s ep_reach_dispatch.hyps show ?case
    by (auto simp: ep_good_def)
qed

section \<open>Properties\<close>

text \<open>
  C20: the two back ends watch the same events. Take any sequence of operations each of which
  keeps to the interface in the state it is called in and asks for plain events only, which
  leaves out \<open>FDE_DONT_CLOSE\<close> (with it this variant exits, see \<open>dont_close_exits\<close>). Run in both
  variants from their initial states, both succeed: no call of \<open>epoll_ctl\<close> whose result is checked
  fails (the one in \<open>fdevent_disconnect\<close> may, and is not checked). Afterwards the variables they
  share are equal, and the interest list holds for each descriptor exactly the events whose
  \<open>select\<close> sets contain it.
\<close>

theorem epoll_watches_like_select:
  assumes "each_ok op_fine do_op ops fd_start"
  shows "\<exists>st ep. run_machine do_op ops fd_start = Inr st \<and>
     run_machine (do_op_ep (int n)) ops ep_start = Inr ep \<and>
     ep_base ep = st\<lparr>read_fds := {}, write_fds := {}, error_fds := {}, select_n := 0\<rparr> \<and>
     (\<forall>i. (case interest ep (int i) of None \<Rightarrow> 0 | Some (m, a) \<Rightarrow> m) =
       (if i \<in> read_fds st then EPOLLIN else 0) OR (if i \<in> write_fds st then EPOLLOUT else 0) OR
       (if i \<in> error_fds st then EPOLLERR OR EPOLLHUP else 0))"
proof -
  from run_in_step [OF fd_inv_start ep_rel_start assms, of n] obtain st ep ys where
    "run_machine do_op ops fd_start = Inr st"
    "run_machine (do_op_ep (int n)) ops ep_start = Inr ep" "fd_inv st ys" "ep_rel st ep" by blast
  with watch_map_sets [of st ys] show ?thesis
    by (auto simp: ep_rel_def shared_def)
qed

definition demo_ops :: "fd_op list" where
  "demo_ops = [OpInstall 1 5 local_socket_event_func 0, OpAdd 1 1, OpAdd 1 2, OpDel 1 1, OpRemove 1]"

lemma demo_ops_ok: "each_ok op_fine do_op demo_ops fd_start"
proof -
  have i: "op_ok (OpInstall 1 5 local_socket_event_func 0) fd_start"
    by (simp add: can_install_def fd_start_def fdevent_zero_def FD_SETSIZE_def reg_def list_pending_def)
  have p: "op_plain (OpAdd 1 1)" "op_plain (OpAdd 1 2)"
    by (simp_all add: fde_defs plain_def FDE_OTHER_def)
  show ?thesis
    using i p by (simp add: demo_ops_def op_fine_def del: do_op.simps split: sum.splits)
qed

theorem epoll_watches_like_select_witness:
  "\<exists>st ep. run_machine do_op demo_ops fd_start = Inr st \<and>
     run_machine (do_op_ep (int 3)) demo_ops ep_start = Inr ep \<and>
     ep_base ep = st\<lparr>read_fds := {}, write_fds := {}, error_fds := {}, select_n := 0\<rparr> \<and>
     (\<forall>i. (case interest ep (int i) of None \<Rightarrow> 0 | Some (m, a) \<Rightarrow> m) =
       (if i \<in> read_fds st then EPOLLIN else 0) OR (if i \<in> write_fds st then EPOLLOUT else 0) OR
       (if i \<in> error_fds st then EPOLLERR OR EPOLLHUP else 0))"
  using epoll_watches_like_select [OF demo_ops_ok, of 3] .

text \<open>
  The \<open>epoll\<close> variant is safe. In every state it can reach, each plain operation
  whose condition holds succeeds, and so does every poll; neither exits nor faults.
\<close>

theorem epoll_reach_safe:
  assumes "ep_reach n ep"
  shows "(\<forall>op. op_ok_ep op ep \<longrightarrow> (\<exists>ep'. do_op_ep (int n) op ep = Inr ep')) \<and>
    (\<forall>answer. epoll_ok ep answer \<longrightarrow> (\<exists>ep'. fdevent_process_ep answer ep = Inr ep'))"
proof -
  note g = ep_reach_good [OF assms]
  from epoll_machine.step_good [OF g] process_ep_good [OF g] show ?thesis by blast
qed

text \<open>A run of the variant: an event installed and asked to read is on the interest list.\<close>

lemma epoll_demo:
  "case run_machine (do_op_ep 3) [OpInstall 1 5 local_socket_event_func 0, OpAdd 1 1] ep_start of
     Inr ep \<Rightarrow> interest ep 5 = Some (EPOLLIN, 1) \<and> epoll_fd ep = 3 | Inl _ \<Rightarrow> False"
proof -
  let ?op = "OpInstall 1 5 local_socket_event_func 0"
  have ok: "op_ok_ep ?op ep_start"
    by (simp add: op_ok_ep_def ep_start_def can_install_def fd_start_def fdevent_zero_def FD_SETSIZE_def
        reg_def list_pending_def)
  have g: "grow 256 5 = 256" by (subst grow.simps) simp
  obtain ep where ep: "do_op_ep 3 ?op ep_start = Inr ep" "epoll_fd ep = 3" "interest ep = (\<lambda>_. None)"
    "fde_state (ep_fde ep 1) = FDE_ACTIVE" "fde_fd (ep_fde ep 1) = 5"
    by (simp add: fdevent_install_ep_def fdevent_register_ep_def ep_start_def fd_start_def Let_def
        fdevent_init_ep_def g fdevent_zero_def fdevent_connect_ep_def)
  have e: "ucast (ucast (FDE_ACTIVE AND FDE_EVENTMASK) OR ((1 :: u32) AND ucast FDE_EVENTMASK)) AND FDE_EVENTMASK
      = FDE_READ" "FDE_ACTIVE AND FDE_EVENTMASK = 0" "FDE_READ \<noteq> 0"
    "FDE_ACTIVE \<noteq> 0" "\<not> bit FDE_READ 9" "op_plain (OpAdd 1 1)"
    by (simp_all add: fde_defs plain_def FDE_OTHER_def)
  have "epoll_events FDE_READ = EPOLLIN" "EPOLLIN \<noteq> 0"
    by (simp_all add: epoll_events_def FDE_READ_def epoll_defs)
  with ep e show ?thesis
    using ok
    by (simp add: op_ok_ep_def fdevent_add_ep_def fdevent_set_ep_def Let_def fdevent_update_ep_def
        ctl_or_exit_def epoll_ctl_def on_base_def drop_wanted_def)
qed

lemma epoll_reach_safe_witness:
  "(\<forall>op. op_ok_ep op ep_start \<longrightarrow> (\<exists>ep'. do_op_ep (int 3) op ep_start = Inr ep')) \<and>
    (\<forall>answer. epoll_ok ep_start answer \<longrightarrow> (\<exists>ep'. fdevent_process_ep answer ep_start = Inr ep'))"
  using epoll_reach_safe [OF ep_reach_start, of 3] .

text \<open>
  The condition on plain events is needed. An event that carries \<open>FDE_DONT_CLOSE\<close>, as the
  events of JDWP processes do, and is not on the interest list counts as watched; the first
  call that makes it ask for input changes an entry that is not there, and the program exits.
\<close>

theorem dont_close_exits:
  assumes "active (ep_base ep) a" and "bit (fde_state (ep_fde ep a)) 7"
    and "\<not> bit (fde_state (ep_fde ep a)) 0" and "interest ep (fde_fd (ep_fde ep a)) = None"
  shows "fdevent_add_ep a (ucast FDE_READ) ep = Inl (Exit 1)"
proof -
  let ?s = "fde_state (ep_fde ep a)"
  let ?e = "ucast (ucast (?s AND FDE_EVENTMASK) OR (ucast FDE_READ AND ucast FDE_EVENTMASK :: u32)) AND FDE_EVENTMASK :: u16"
  have "bit ?e 0" by (simp add: bit_ucast_iff bit_or_iff bit_and_iff FDE_READ_def)
  moreover have "\<not> bit (?s AND FDE_EVENTMASK) 0" "bit (?s AND FDE_EVENTMASK) 7"
    using assms(2,3) by simp_all
  ultimately have "?s AND FDE_EVENTMASK \<noteq> ?e" "?s AND FDE_EVENTMASK \<noteq> 0" "epoll_events ?e \<noteq> 0"
    by (metis, metis bit_0_eq bot_apply bot_bool_def, simp add: epoll_events_0)
  then show ?thesis
    using assms(1,4) unfolding fdevent_add_ep_def fdevent_set_ep_def
    by (simp add: Let_def fdevent_update_ep_def ctl_or_exit_def epoll_ctl_def)
qed

end
