(* ===== verification/Session.thy ===== *)
theory Session
  imports Socket_Flow Adb_Safety Link
begin

text \<open>
  One connection from end to end: packets come in on the link of a transport (\<open>remote_read\<close>), the protocol engine
  (\<open>handle_packet\<close>) finds the socket of the service, the socket writes to the descriptor of the service what it takes and keeps the
  rest until the event loop reports that it can write again, and every packet is acknowledged once. This
  theory composes \<open>Link\<close>, \<open>Adb\<close> and \<open>Sockets\<close>: the step relation \<open>session\<close> has the
  packets, the writable events and the kernel's willingness to take bytes as its steps, in any order the protocol allows.

  The sender follows the protocol: it sends the next packet only after the last one was acknowledged.
\<close>

section \<open>A descriptor that works\<close>

text \<open>Every write takes something, is interrupted or has to wait; none fails.\<close>

fun willing :: "wr_answer \<Rightarrow> bool" where
  "willing (Room n) \<longleftrightarrow> 0 < n"
| "willing (WrErr e) \<longleftrightarrow> e = EAGAIN \<or> e = EINTR"

definition healthy :: "wr_answer list \<Rightarrow> bool" where
  "healthy k = list_all willing k"

lemma adb_write_healthy:
  "healthy k \<Longrightarrow> bs \<noteq> [] \<Longrightarrow> adb_write bs k = Some (r, k') \<Longrightarrow>
     healthy k' \<and> (\<exists>n. r = Got n \<and> 0 < n \<or> r = Failed EAGAIN)"
  by (induction bs k rule: adb_write.induct) (auto simp: healthy_def)

lemma push_healthy:
  "healthy k \<Longrightarrow> push bs k = (out, rest, stop, k') \<Longrightarrow> stop \<noteq> Broken \<and> healthy k'"
proof (induction bs k arbitrary: out rest stop k' rule: push.induct)
  case (1 bs k)
  show ?case
  proof (cases "bs = []")
    case True
    with "1.prems" show ?thesis by (simp add: push.simps)
  next
    case ne: False
    show ?thesis
    proof (cases "adb_write bs k")
      case None
      with "1.prems" ne show ?thesis by (auto simp: push.simps [of bs k] healthy_def)
    next
      case (Some rk)
      obtain r k1 where rk: "rk = (r, k1)" by (cases rk)
      note h = adb_write_healthy [OF "1.prems"(1) ne Some [unfolded rk]]
      show ?thesis
      proof (cases r)
        case (Got n)
        obtain o1 r1 s1 k2 where p1: "push (drop n bs) k1 = (o1, r1, s1, k2)" by (cases "push (drop n bs) k1")
        from "1.IH" [OF ne Some rk [symmetric] Got _ _ p1] h Got have "s1 \<noteq> Broken \<and> healthy k2" by auto
        with "1.prems"(2) ne Some rk Got h p1 show ?thesis by (auto simp: push.simps [of bs k])
      next
        case (Failed e)
        with "1.prems"(2) ne Some rk h show ?thesis by (auto simp: push.simps [of bs k])
      qed
    qed
  qed
qed

lemma drain_healthy:
  "healthy k \<Longrightarrow> drain_pkts ps k = Inr (out, ps', stop, k') \<Longrightarrow> stop \<noteq> Broken \<and> healthy k'"
proof (induction ps arbitrary: k out ps' stop k')
  case (Cons p ps)
  obtain o1 r1 s1 k1 where p1: "push (unsent p) k = (o1, r1, s1, k1)" by (cases "push (unsent p) k")
  from push_healthy [OF Cons.prems(1) p1] have "s1 \<noteq> Broken" "healthy k1" by simp_all
  with Cons.prems(2) Cons.IH [OF \<open>healthy k1\<close>] p1 show ?case by (auto simp: seq_eq_Inr split: if_splits)
qed simp

section \<open>A connection\<close>

text \<open>The acknowledgements sent on a transport, with the ids of both sides.\<close>

fun acks :: "nat \<Rightarrow> effect list \<Rightarrow> (u32 \<times> u32) list" where
  "acks t [] = []"
| "acks t (Sent u p # es) =
     (if u = t \<and> command (msg p) = A_OKAY then [(arg0 (msg p), arg1 (msg p))] else []) @ acks t es"
| "acks t (_ # es) = acks t es"

lemma acks_append [simp]: "acks t (es @ es') = acks t es @ acks t es'"
  by (induction t es rule: acks.induct) simp_all

text \<open>
  \<open>connected a q t st\<close>: \<open>a\<close> is an open local socket that can be found by its id, \<open>q\<close> the remote socket for the other side on
  transport \<open>t\<close>, and the pipe of the transport takes packets.
\<close>

definition connected :: "nat \<Rightarrow> nat \<Rightarrow> nat \<Rightarrow> sworld \<Rightarrow> bool" where
  "connected a q t st \<longleftrightarrow>
     (\<exists>s u. hp st a = Some s \<and> hp st q = Some u \<and> a \<noteq> q \<and>
        enqueue_op s = LocalEnqueue \<and> \<not> closing s \<and> peer s = Some q \<and> (\<forall>p \<in> set (pkts s). pkt_ok p) \<and>
        ready_op u = RemoteReady \<and> peer u = Some a \<and> transport u = Some t \<and>
        find_local_socket (sid s) st = Inr (Some a)) \<and>
     pipe_ok st t \<and> length (fresh st) = MAX_PAYLOAD \<and> healthy (wscript st)"

lemma find_from_cong:
  "(\<And>b. map_option sid (hp st' b) = map_option sid (hp st b)) \<Longrightarrow> find_from as i st' = find_from as i st"
proof (induction as)
  case (Cons b as)
  from Cons.prems [of b] Cons.IH [OF Cons.prems] show ?case
    by (cases "hp st b"; cases "hp st' b") (simp_all add: sock_hp)
qed simp

text \<open>The queue and the environment may change.\<close>

lemma connected_frame:
  assumes c: "connected a q t st" and s: "hp st a = Some s" and h: "hp st' = (hp st)(a := Some (s\<lparr>pkts := ps\<rparr>))"
    and "\<forall>p \<in> set ps. pkt_ok p" and "slist st' = slist st" and "pipe_ok st' = pipe_ok st"
    and "fresh st' = fresh st" and "healthy (wscript st')"
  shows "connected a q t st'"
proof -
  have "map_option sid (hp st' b) = map_option sid (hp st b)" for b using s by (simp add: h)
  from find_from_cong [OF this] have "find_local_socket i st' = find_local_socket i st" for i
    by (simp add: find_local_socket_def assms(5))
  with c s assms(4,6,7,8) show ?thesis
    unfolding connected_def h by auto
qed

lemma connectedD:
  assumes "connected a q t st" and "hp st a = Some s" and "hp st q = Some u"
  shows "a \<noteq> q" "enqueue_op s = LocalEnqueue" "\<not> closing s" "peer s = Some q" "\<forall>p \<in> set (pkts s). pkt_ok p"
    "ready_op u = RemoteReady" "peer u = Some a" "transport u = Some t" "find_local_socket (sid s) st = Inr (Some a)"
    "pipe_ok st t" "length (fresh st) = MAX_PAYLOAD" "healthy (wscript st)"
  using assms unfolding connected_def by auto

lemma send_okay:
  "pipe_ok st t \<Longrightarrow> \<exists>p. send_packet (command_packet A_OKAY l r st) (Some t) st = Inr (emit (Sent t p) st) \<and>
     command (msg p) = A_OKAY \<and> arg0 (msg p) = l \<and> arg1 (msg p) = r"
  by (rule exI [of _ "(command_packet A_OKAY l r st)\<lparr>msg := (msg (command_packet A_OKAY l r st))\<lparr>magic :=
      A_OKAY XOR 0xffffffff, data_check := 0\<rparr>\<rparr>"])
    (simp add: send_packet_def packet_seal_def command_packet_def get_apacket_def zero_msg_def Let_def)

text \<open>The change to the other side of the connection that a step makes: none.\<close>

definition steps_to :: "nat \<Rightarrow> nat \<Rightarrow> nat \<Rightarrow> byte list \<Rightarrow> (u32 \<times> u32) list \<Rightarrow> sworld \<Rightarrow> sworld \<Rightarrow> bool" where
  "steps_to a q t bs ok st st' \<longleftrightarrow>
     (\<exists>s ps. hp st a = Some s \<and> hp st' = (hp st)(a := Some (s\<lparr>pkts := ps\<rparr>)) \<and>
        written (write_fd s) (effects st') @ concat (map unsent ps) =
          written (write_fd s) (effects st) @ backlog s @ bs \<and>
        acks t (effects st') = acks t (effects st) @ (if ps = [] then ok else [])) \<and>
     connected a q t st'"

lemma pkt_ok_advance: "wf_packet p \<Longrightarrow> in_packet (advance n p) \<Longrightarrow> pkt_ok (advance n p)"
  by (simp add: pkt_ok_def wf_packet_def advance_def)

lemma wrte_step:
  assumes c: "connected a q t st" and s: "hp st a = Some s" "pkts s = []" and u: "hp st q = Some u"
    and p: "arrived p" "arg1 (msg p) = sid s"
  shows "\<exists>st'. handle_wrte p t st = Inr st' \<and> steps_to a q t (payload p) [(sid s, arg0 (msg p))] st st'"
proof -
  note C = connectedD [OF c s(1) u]
  let ?p = "p\<lparr>pkt_len := data_length (msg p)\<rparr>"
  have ip: "in_packet (?p\<lparr>pkt_ptr := 0\<rparr>)" using p(1) by (simp add: arrived_def in_packet_def wf_packet_def)
  have pl: "take (unat (pkt_len ?p)) (data ?p) = payload p" by (simp add: payload_def)
  obtain out rest stop k where ps: "push (payload p) (wscript st) = (out, rest, stop, k)"
    by (cases "push (payload p) (wscript st)")
  from push_healthy [OF C(12) ps] have nb: "stop \<noteq> Broken" and hk: "healthy k" by simp_all
  note E = enqueue_shape [OF s ip ps [folded pl]]
  define st1 where "st1 = after_push out k s st"
  have f1: "hp st1 = hp st" "slist st1 = slist st" "pipe_ok st1 = pipe_ok st" "fresh st1 = fresh st" "wscript st1 = k"
    "effects st1 = effects st @ [WriteFd (write_fd s) out]"
    unfolding st1_def after_push_def by (simp, simp_all add: emit_def)
  have enq: "sock_enqueue a ?p st = local_socket_enqueue a ?p st"
    using C(2) s(1) by (simp add: sock_enqueue_def sock_Some)
  have hw: "handle_wrte p t st = seq (local_socket_enqueue a ?p st) (\<lambda>(r, st).
      if r = 0 then seq (sock a st) (\<lambda>s. send_ready (sid s) (arg0 (msg p)) t st) else Inr st)"
    using C(9) p(2) enq by (simp add: handle_wrte_def Let_def)
  show ?thesis
  proof (cases "rest = []")
    case True
    obtain pk where pk: "send_packet (command_packet A_OKAY (sid s) (arg0 (msg p)) st1) (Some t) st1 = Inr (emit (Sent t pk) st1)"
      "command (msg pk) = A_OKAY" "arg0 (msg pk) = sid s" "arg1 (msg pk) = arg0 (msg p)"
      using send_okay [of st1 t "sid s" "arg0 (msg p)"] C(10) f1(3) by auto
    have "handle_wrte p t st = Inr (emit (Sent t pk) st1)"
      using hw E(1) nb True pk(1) s(1) f1(1) by (simp add: st1_def [symmetric] sock_Some send_ready_def)
    moreover have "hp (emit (Sent t pk) st1) = (hp st)(a := Some (s\<lparr>pkts := []\<rparr>))"
      using s f1(1) by (auto simp: fun_eq_iff)
    moreover have "connected a q t (emit (Sent t pk) st1)"
      by (rule connected_frame [OF c s(1) calculation(2)]) (use f1 hk in \<open>simp_all add: emit_def\<close>)
    ultimately show ?thesis
      using E(3) True f1(6) pk s pl unfolding steps_to_def
      by (auto simp: emit_def backlog_def intro!: exI [of _ "emit (Sent t pk) st1"])
  next
    case False
    let ?q = "advance (length out) (?p\<lparr>pkt_ptr := 0\<rparr>)"
    let ?st2 = "emit (FdOp (OpAdd (fde_of a) 2)) (setk a (Some (s\<lparr>pkts := [?q]\<rparr>)) st1)"
    have "handle_wrte p t st = Inr ?st2"
      using hw E(1) nb False by (simp add: st1_def [symmetric])
    moreover have h2: "hp ?st2 = (hp st)(a := Some (s\<lparr>pkts := [?q]\<rparr>))"
      using s(1) f1(1) by (simp add: hp_setk)
    moreover have "connected a q t ?st2"
    proof (rule connected_frame [OF c s(1) h2])
      show "\<forall>p\<in>set [?q]. pkt_ok p"
        using E(4) p(1) pkt_ok_advance [of "?p\<lparr>pkt_ptr := 0\<rparr>" "length out"] by (simp add: arrived_def)
    qed (use f1 hk in \<open>simp_all add: emit_def setk_def\<close>)
    ultimately show ?thesis
      using E(2,3) f1(6) s pl unfolding steps_to_def
      by (intro exI [of _ ?st2]) (auto simp: emit_def setk_def backlog_def intro!: exI [of _ "[?q]"])
  qed
qed

lemma write_step:
  assumes c: "connected a q t st" and s: "hp st a = Some s" and u: "hp st q = Some u"
  shows "\<exists>st'. local_socket_write_event a st = Inr st' \<and> steps_to a q t [] [(sid s, sid u)] st st'"
proof -
  note C = connectedD [OF c s u]
  from drain_pkts_safe [OF C(5), of "wscript st"] obtain out ps stop k where
    d: "drain_pkts (pkts s) (wscript st) = Inr (out, ps, stop, k)" "\<forall>p \<in> set ps. pkt_ok p" "stop = Done \<longleftrightarrow> ps = []"
      "concat (map unsent (pkts s)) = out @ concat (map unsent ps)" by blast
  from drain_healthy [OF C(12) d(1)] have nb: "stop \<noteq> Broken" and hk: "healthy k" by simp_all
  define st1 where "st1 = setk a (Some (s\<lparr>pkts := ps\<rparr>)) (after_push out k s st)"
  have h1: "hp st1 = (hp st)(a := Some (s\<lparr>pkts := ps\<rparr>))"
    using s by (simp add: st1_def after_push_def hp_setk)
  have f1: "slist st1 = slist st" "pipe_ok st1 = pipe_ok st" "fresh st1 = fresh st" "wscript st1 = k"
    "effects st1 = effects st @ [WriteFd (write_fd s) out]"
    by (simp_all add: st1_def after_push_def emit_def setk_def)
  have ev: "local_socket_write_event a st = (case stop of Again \<Rightarrow> Inr st1 | Broken \<Rightarrow> sock_close a st1
      | Done \<Rightarrow> sock_ready q (emit (FdOp (OpDel (fde_of a) 2)) st1))"
    using s d(1) C(3,4) upd_Some [of "after_push out k s st" a s "\<lambda>s. s\<lparr>pkts := ps\<rparr>"]
    by (cases stop) (simp_all add: local_socket_write_event_def sock_Some st1_def after_push_def)
  show ?thesis
  proof (cases stop)
    case Again
    have "connected a q t st1"
      by (rule connected_frame [OF c s h1 d(2)]) (use f1 hk in simp_all)
    with ev Again d s h1 f1(5) show ?thesis
      unfolding steps_to_def by (auto simp: backlog_def intro!: exI [of _ st1])
  next
    case Done
    define st2 where "st2 = emit (FdOp (OpDel (fde_of a) 2)) st1"
    have h2: "hp st2 a = Some (s\<lparr>pkts := ps\<rparr>)" "hp st2 q = Some u"
      using h1 C(1) u by (simp_all add: st2_def)
    obtain pk where pk: "send_packet (command_packet A_OKAY (sid s) (sid u) st2) (Some t) st2 = Inr (emit (Sent t pk) st2)"
      "command (msg pk) = A_OKAY" "arg0 (msg pk) = sid s" "arg1 (msg pk) = sid u"
      using send_okay [of st2 t "sid s" "sid u"] C(10) f1(2) by (auto simp: st2_def emit_def)
    let ?st3 = "emit (Sent t pk) st2"
    have "local_socket_write_event a st = Inr ?st3"
      using ev Done h2 C(6,7,8) pk(1) by (simp add: st2_def [symmetric] sock_ready_def remote_socket_ready_def sock_Some)
    moreover have h3: "hp ?st3 = (hp st)(a := Some (s\<lparr>pkts := ps\<rparr>))" using h1 by (simp add: st2_def)
    moreover have "connected a q t ?st3"
      by (rule connected_frame [OF c s h3 d(2)]) (use f1 hk in \<open>simp_all add: st2_def emit_def\<close>)
    ultimately show ?thesis
      using d(3,4) Done s f1(5) pk unfolding steps_to_def
      by (intro exI [of _ ?st3]) (auto simp: st2_def emit_def backlog_def intro!: exI [of _ ps])
  qed (use nb in simp)
qed

section \<open>The step relation\<close>

text \<open>The two links a device has: the socket of the emulator or of TCP, and the FunctionFS endpoints of USB.\<close>

datatype link_kind = SocketLink | UsbLink

fun link_read :: "link_kind \<Rightarrow> apacket \<Rightarrow> rd_answer list \<Rightarrow> (apacket option \<times> rd_answer list) option res" where
  "link_read SocketLink = local_remote_read"
| "link_read UsbLink = usb_remote_read Ffs"

fun link_stream :: "link_kind \<Rightarrow> rd_answer list \<Rightarrow> byte list" where
  "link_stream SocketLink = stream"
| "link_stream UsbLink = ustream"

text \<open>What \<open>remote_read\<close> delivers is a packet as \<open>handle_packet\<close> expects it.\<close>

lemma packet_read_arrived:
  assumes "packet_read rd (get_apacket junk) k = Inr (Some (Some p, k'))" and "length junk = MAX_PAYLOAD"
  shows "arrived p"
proof -
  from assms(1) obtain h bs d where h: "check_header (get_apacket junk\<lparr>msg := dec_msg h\<rparr>)"
    "blit bs (data (get_apacket junk)) = Inr d" "p = (get_apacket junk)\<lparr>msg := dec_msg h, data := d\<rparr>"
    by (auto simp: packet_read_def Let_def seq_eq_Inr split: option.splits if_splits prod.splits)
  then show ?thesis
    using assms(2) by (auto simp: arrived_def wf_packet_def check_header_def blit_eq_Inr get_apacket_def)
qed

lemma link_read_arrived:
  assumes "link_read l (get_apacket junk) k = Inr (Some (Some p, k'))" and "length junk = MAX_PAYLOAD"
  shows "arrived p" "link_stream l k = wire p @ link_stream l k'"
proof -
  have wf: "wf_packet (get_apacket junk)" using assms(2) by (simp add: wf_packet_def get_apacket_def)
  show "arrived p" "link_stream l k = wire p @ link_stream l k'"
    using assms packet_read_arrived [of readx junk k p k'] packet_read_arrived [of ffs_rd junk k p k']
      sock.packet_read_safe [OF wf, of k] ffs.packet_read_safe [OF wf, of k]
    by (cases l, auto simp: local_remote_read_eq usb_remote_read_Ffs_eq)+
qed

text \<open>
  A session from the state \<open>w0\<close> and the stream \<open>k0\<close>: the packets received so far, the state now, and the stream that
  is left. \<open>i\<close> and \<open>r\<close> are the ids of the two sides.
\<close>

inductive session :: "link_kind \<Rightarrow> svc_env \<Rightarrow> rsa_verify \<Rightarrow> nat \<Rightarrow> nat \<Rightarrow> u32 \<Rightarrow> u32 \<Rightarrow> adbd \<Rightarrow> rd_answer list \<Rightarrow>
    apacket list \<Rightarrow> adbd \<Rightarrow> rd_answer list \<Rightarrow> bool"
  for l env V a t i r w0 k0 where
  session_start: "session l env V a t i r w0 k0 [] w0 k0"
| session_packet: "session l env V a t i r w0 k0 qs w k \<Longrightarrow> hp (ws w) a = Some s \<Longrightarrow> pkts s = [] \<Longrightarrow>
    link_read l (get_apacket junk) k = Inr (Some (Some p, k')) \<Longrightarrow> length junk = MAX_PAYLOAD \<Longrightarrow>
    command (msg p) = A_WRTE \<Longrightarrow> arg0 (msg p) = r \<Longrightarrow> arg1 (msg p) = i \<Longrightarrow>
    handle_packet env V p t w = Inr w' \<Longrightarrow> session l env V a t i r w0 k0 (qs @ [p]) w' k'"
| session_writable: "session l env V a t i r w0 k0 qs w k \<Longrightarrow> hp (ws w) a = Some s \<Longrightarrow> pkts s \<noteq> [] \<Longrightarrow>
    on_socks (local_socket_write_event a) w = Inr w' \<Longrightarrow> session l env V a t i r w0 k0 qs w' k"
| session_kernel: "session l env V a t i r w0 k0 qs w k \<Longrightarrow> healthy ws' \<Longrightarrow>
    session l env V a t i r w0 k0 qs (set_ws ((ws w)\<lparr>wscript := ws'\<rparr>) w) k"

lemma ws_simps [simp]: "ws (set_ws st w) = st" "trans (set_ws st w) = trans w"
  by (simp_all add: ws_def set_ws_def)

text \<open>The state of a session: what was written and queued, and how many packets are acknowledged.\<close>

definition session_inv :: "nat \<Rightarrow> nat \<Rightarrow> nat \<Rightarrow> asocket \<Rightarrow> asocket \<Rightarrow> adbd \<Rightarrow> apacket list \<Rightarrow> adbd \<Rightarrow> bool" where
  "session_inv a q t s0 u w0 qs w \<longleftrightarrow>
     (\<exists>ps. hp (ws w) a = Some (s0\<lparr>pkts := ps\<rparr>) \<and>
        written (write_fd s0) (effects (ws w)) @ concat (map unsent ps) =
          written (write_fd s0) (effects (ws w0)) @ concat (map payload qs) \<and>
        acks t (effects (ws w)) = acks t (effects (ws w0)) @
          replicate (length qs - (if ps = [] then 0 else 1)) (sid s0, sid u) \<and> (ps \<noteq> [] \<longrightarrow> qs \<noteq> [])) \<and>
     hp (ws w) q = Some u \<and> connected a q t (ws w) \<and> (\<exists>x. trans w t = Some x \<and> online x)"

lemma session_inv_step:
  assumes I: "session_inv a q t s0 u w0 qs w" and st: "steps_to a q t (payload p) [(sid s0, sid u)] (ws w) st'"
    and e: "hp (ws w) a = Some s" "pkts s = []"
  shows "session_inv a q t s0 u w0 (qs @ [p]) (set_ws st' w)"
proof -
  from I e have ps: "s = s0\<lparr>pkts := []\<rparr>"
    "written (write_fd s0) (effects (ws w)) = written (write_fd s0) (effects (ws w0)) @ concat (map payload qs)"
    "acks t (effects (ws w)) = acks t (effects (ws w0)) @ replicate (length qs) (sid s0, sid u)"
    and fr: "hp (ws w) q = Some u" "\<exists>x. trans w t = Some x \<and> online x"
    by (auto simp: session_inv_def)
  from st e obtain ps' where ps': "hp st' = (hp (ws w))(a := Some (s\<lparr>pkts := ps'\<rparr>))"
    "written (write_fd s) (effects st') @ concat (map unsent ps') = written (write_fd s) (effects (ws w)) @ payload p"
    "acks t (effects st') = acks t (effects (ws w)) @ (if ps' = [] then [(sid s0, sid u)] else [])" "connected a q t st'"
    by (auto simp: steps_to_def backlog_def)
  have "a \<noteq> q" using I unfolding session_inv_def connected_def by blast
  moreover have "replicate (length qs) x @ [x] = replicate (Suc (length qs)) x" for x :: "u32 \<times> u32"
    by (simp add: replicate_append_same)
  ultimately show ?thesis
    using ps ps' fr unfolding session_inv_def
    by (auto intro!: exI [of _ ps'])
qed

lemma session_inv_write:
  assumes I: "session_inv a q t s0 u w0 qs w" and st: "steps_to a q t [] [(sid s0, sid u)] (ws w) st'"
    and e: "hp (ws w) a = Some s" "pkts s \<noteq> []"
  shows "session_inv a q t s0 u w0 qs (set_ws st' w)"
proof -
  from I e obtain ps where ps: "ps \<noteq> []" "s = s0\<lparr>pkts := ps\<rparr>" "qs \<noteq> []"
    "written (write_fd s0) (effects (ws w)) @ concat (map unsent ps) =
       written (write_fd s0) (effects (ws w0)) @ concat (map payload qs)"
    "acks t (effects (ws w)) = acks t (effects (ws w0)) @ replicate (length qs - 1) (sid s0, sid u)"
    and fr: "hp (ws w) q = Some u" "\<exists>x. trans w t = Some x \<and> online x"
    by (auto simp: session_inv_def)
  from st e obtain ps' where ps': "hp st' = (hp (ws w))(a := Some (s\<lparr>pkts := ps'\<rparr>))"
    "written (write_fd s) (effects st') @ concat (map unsent ps') = written (write_fd s) (effects (ws w)) @ backlog s"
    "acks t (effects st') = acks t (effects (ws w)) @ (if ps' = [] then [(sid s0, sid u)] else [])" "connected a q t st'"
    by (auto simp: steps_to_def)
  have "a \<noteq> q" using I unfolding session_inv_def connected_def by blast
  moreover have "replicate (length qs - 1) x @ [x] = replicate (length qs) x" for x :: "u32 \<times> u32"
    using ps(3) by (cases qs) (simp_all add: replicate_append_same)
  ultimately show ?thesis
    using ps ps' fr unfolding session_inv_def
    by (auto simp: backlog_def intro!: exI [of _ ps'])
qed

lemma connected_kernel: "connected a q t st \<Longrightarrow> healthy k \<Longrightarrow> connected a q t (st\<lparr>wscript := k\<rparr>)"
  using find_from_cong [of "st\<lparr>wscript := k\<rparr>" st]
  by (auto simp: connected_def find_local_socket_def)

lemma handle_packet_wrte:
  assumes "command (msg p) = A_WRTE" and "trans w t = Some x" and "online x"
  shows "handle_packet env V p t w = on_socks (handle_wrte p t) w"
  using assms by (simp add: handle_packet_def Let_def A_SYNC_def A_CNXN_def A_AUTH_def A_OPEN_def A_OKAY_def
      A_CLSE_def A_WRTE_def if_online_def tget_def)

lemma packet_step:
  assumes I: "session_inv a q t s0 u w0 qs w" and e: "hp (ws w) a = Some s" "pkts s = []"
    and p: "arrived p" "command (msg p) = A_WRTE" "arg0 (msg p) = sid u" "arg1 (msg p) = sid s0"
  shows "\<exists>w'. handle_packet env V p t w = Inr w' \<and> session_inv a q t s0 u w0 (qs @ [p]) w'"
proof -
  from I obtain x where x: "trans w t = Some x" "online x" "connected a q t (ws w)" "hp (ws w) q = Some u"
    by (auto simp: session_inv_def)
  have "sid s = sid s0" using I e by (auto simp: session_inv_def)
  with wrte_step [OF x(3) e x(4) p(1)] p(3,4) obtain st' where
    "handle_wrte p t (ws w) = Inr st'" "steps_to a q t (payload p) [(sid s0, sid u)] (ws w) st'" by auto
  with session_inv_step [OF I _ e] handle_packet_wrte [OF p(2) x(1,2)] show ?thesis
    by (auto simp: on_socks_def)
qed

lemma writable_step:
  assumes I: "session_inv a q t s0 u w0 qs w" and e: "hp (ws w) a = Some s" "pkts s \<noteq> []"
  shows "\<exists>w'. on_socks (local_socket_write_event a) w = Inr w' \<and> session_inv a q t s0 u w0 qs w'"
proof -
  from I have x: "connected a q t (ws w)" "hp (ws w) q = Some u" by (auto simp: session_inv_def)
  have "sid s = sid s0" using I e by (auto simp: session_inv_def)
  with write_step [OF x(1) e(1) x(2)] obtain st' where
    "local_socket_write_event a (ws w) = Inr st'" "steps_to a q t [] [(sid s0, sid u)] (ws w) st'" by auto
  with session_inv_write [OF I _ e] show ?thesis by (auto simp: on_socks_def)
qed

lemma session_keeps:
  assumes "session l env V a t (sid s0) (sid u) w0 k0 qs w k"
    and "connected a q t (ws w0)" "hp (ws w0) a = Some s0" "pkts s0 = []" "hp (ws w0) q = Some u"
      "trans w0 t = Some x" "online x"
  shows "session_inv a q t s0 u w0 qs w \<and> link_stream l k0 = concat (map wire qs) @ link_stream l k"
  using assms(1)
proof (induction rule: session.induct)
  case session_start
  have "s0\<lparr>pkts := []\<rparr> = s0" using assms(4) by simp
  then show ?case using assms(2-) by (auto simp: session_inv_def intro!: exI [of _ "[]"])
next
  case (session_packet qs w k s junk p k' w')
  note R = link_read_arrived [OF session_packet.hyps(4,5)]
  from packet_step [OF conjunct1 [OF session_packet.IH] session_packet.hyps(2,3) R(1) session_packet.hyps(6,7,8), of env V]
    session_packet.IH session_packet.hyps(9) R(2) show ?case by auto
next
  case (session_writable qs w k s w')
  with writable_step [of a q t s0 u w0 qs w s] show ?case by auto
next
  case (session_kernel qs w k ws')
  then show ?case using connected_kernel [of a q t "ws w" ws']
    by (auto simp: session_inv_def)
qed

section \<open>Properties\<close>

text \<open>
  C2: what a peer writes into a connection comes out at the service, once, in order and acknowledged exactly. For every
  session on a link, in whatever way packets, writable events and partial writes alternate: the packets received are the
  beginning of the stream of the link, what was written to the descriptor of the service followed by what is still
  queued for it are their payloads in order, and each packet was acknowledged once, the last one only
  when all of it was written.
\<close>

theorem session_delivers:
  assumes "session l env V a t (sid s0) (sid u) w0 k0 qs w k"
    and "connected a q t (ws w0)" "hp (ws w0) a = Some s0" "pkts s0 = []" "hp (ws w0) q = Some u"
      "trans w0 t = Some x" "online x"
  shows "\<exists>s. hp (ws w) a = Some s \<and> link_stream l k0 = concat (map wire qs) @ link_stream l k \<and>
    written (write_fd s0) (effects (ws w)) @ backlog s =
      written (write_fd s0) (effects (ws w0)) @ concat (map payload qs) \<and>
    acks t (effects (ws w)) = acks t (effects (ws w0)) @
      replicate (if pkts s = [] then length qs else length qs - 1) (sid s0, sid u)"
  using session_keeps [OF assms] by (auto simp: session_inv_def backlog_def)

text \<open>
  C7: a session never gets stuck and never stops the daemon: as long as the queue is empty the next packet is accepted, and while
  something is queued the next writable event is handled; neither faults or exits.
\<close>

theorem session_never_stuck:
  assumes "session l env V a t (sid s0) (sid u) w0 k0 qs w k"
    and "connected a q t (ws w0)" "hp (ws w0) a = Some s0" "pkts s0 = []" "hp (ws w0) q = Some u"
      "trans w0 t = Some x" "online x"
  shows "\<exists>s. hp (ws w) a = Some s \<and>
    (pkts s = [] \<longrightarrow> (\<forall>p. arrived p \<and> command (msg p) = A_WRTE \<and> arg0 (msg p) = sid u \<and> arg1 (msg p) = sid s0 \<longrightarrow>
       (\<exists>w'. handle_packet env V p t w = Inr w'))) \<and>
    (pkts s \<noteq> [] \<longrightarrow> (\<exists>w'. on_socks (local_socket_write_event a) w = Inr w'))"
proof -
  from session_keeps [OF assms] have I: "session_inv a q t s0 u w0 qs w" by simp
  then obtain s where "hp (ws w) a = Some s" by (auto simp: session_inv_def)
  with packet_step [OF I] writable_step [OF I] show ?thesis by blast
qed

text \<open>A connection with an open socket, and one packet for it.\<close>

definition wrte_packet :: apacket where
  "wrte_packet = \<lparr>pkt_len = 0, pkt_ptr = 0,
     msg = \<lparr>command = A_WRTE, arg0 = 40, arg1 = 1, data_length = 3, data_check = 6,
       magic = A_WRTE XOR 0xffffffff\<rparr>,
     data = [1, 2, 3] @ replicate 4093 0\<rparr>"

definition open_adbd :: adbd where
  "open_adbd = set_ws demo_world (demo_adbd\<lparr>trans := [0 \<mapsto> demo_transport\<lparr>online := True\<rparr>]\<rparr>)"

lemma wrte_packet_facts:
  "sealed wrte_packet" "payload wrte_packet = [1, 2, 3]" "wf_packet (get_apacket (replicate MAX_PAYLOAD 7))"
  by (simp_all add: wrte_packet_def wf_packet_def sealed_def check_header_def payload_def
      MAX_PAYLOAD_def payload_sum_def get_apacket_def)

lemma open_ws: "ws open_adbd = demo_world" "trans open_adbd 0 = Some (demo_transport\<lparr>online := True\<rparr>)"
  by (simp_all add: open_adbd_def)

lemma open_connected: "connected 0 1 0 demo_world"
  unfolding connected_def
  by (simp add: demo_hp demo_local_def demo_remote_def zero_sock_def find_local_socket_def sock_hp)
    (simp add: demo_world_def start_world_def demo_local_def zero_sock_def healthy_def demo_hp sock_hp hp_def)

lemma demo_sids: "sid demo_local = 1" "sid demo_remote = 40" "pkts demo_local = []" "write_fd demo_local = 7"
  "effects demo_world = []"
  by (simp_all add: demo_local_def demo_remote_def zero_sock_def demo_world_def start_world_def)

theorem session_delivers_witness:
  "\<exists>p w k s. session UsbLink demo_env (\<lambda>_ _ _. False) 0 0 1 40 open_adbd [Chunk (wire wrte_packet)] [p] w k \<and> ustream k = [] \<and>
     hp (ws w) 0 = Some s \<and> written 7 (effects (ws w)) @ backlog s = [1, 2, 3]"
proof -
  let ?k0 = "[Chunk (wire wrte_packet)]" and ?env = demo_env and ?V = "\<lambda>_ _ _. False"
  have h: "hp (ws open_adbd) 0 = Some demo_local" "hp (ws open_adbd) 1 = Some demo_remote"
    by (simp_all add: open_ws demo_hp)
  have ust: "ustream ?k0 = wire wrte_packet @ []" by simp
  from ffs.packet_read_sealed [OF wrte_packet_facts(1,3) ust] obtain p k where
    p: "usb_remote_read Ffs (get_apacket (replicate MAX_PAYLOAD 7)) ?k0 = Inr (Some (Some p, k))"
      "same_packet p wrte_packet" "ustream k = []"
    by (auto simp: usb_remote_read_Ffs_eq)
  have m: "msg p = msg wrte_packet" "payload p = [1, 2, 3]"
    using p(2) wrte_packet_facts(2) by (simp_all add: same_packet_def)
  have start: "session UsbLink ?env ?V 0 0 1 40 open_adbd ?k0 [] open_adbd ?k0" by (rule session_start)
  have on: "online (demo_transport\<lparr>online := True\<rparr>)" by simp
  have c: "connected 0 1 0 (ws open_adbd)" using open_connected by (simp add: open_ws)
  have arr: "arrived p"
    using link_read_arrived(1) [of UsbLink "replicate MAX_PAYLOAD 7" ?k0 p k] p(1) by simp
  note keep = session_keeps [OF start [folded demo_sids(1,2)] c h(1) demo_sids(3) h(2) open_ws(2) on]
  obtain w where w: "handle_packet ?env ?V p 0 open_adbd = Inr w"
    using packet_step [OF conjunct1 [OF keep] h(1) demo_sids(3) arr, of ?env ?V] m
    by (auto simp: wrte_packet_def demo_sids)
  have "session UsbLink ?env ?V 0 0 1 40 open_adbd ?k0 ([] @ [p]) w k"
    by (rule session_packet [where junk = "replicate MAX_PAYLOAD 7", OF start h(1) demo_sids(3)]) (use p(1) m w in \<open>simp_all add: wrte_packet_def\<close>)
  then have s: "session UsbLink ?env ?V 0 0 1 40 open_adbd ?k0 [p] w k" by simp
  from session_delivers [OF s [folded demo_sids(1,2)] c h(1) demo_sids(3) h(2) open_ws(2) on] s p(3) m(2)
  show ?thesis by (auto simp: demo_sids open_ws)
qed

theorem session_never_stuck_witness:
  "\<exists>s. hp (ws open_adbd) 0 = Some s \<and>
    (pkts s = [] \<longrightarrow> (\<forall>p. arrived p \<and> command (msg p) = A_WRTE \<and> arg0 (msg p) = 40 \<and> arg1 (msg p) = 1 \<longrightarrow>
       (\<exists>w'. handle_packet demo_env (\<lambda>_ _ _. False) p 0 open_adbd = Inr w'))) \<and>
    (pkts s \<noteq> [] \<longrightarrow> (\<exists>w'. on_socks (local_socket_write_event 0) open_adbd = Inr w'))"
proof -
  have "connected 0 1 0 (ws open_adbd)" "hp (ws open_adbd) 0 = Some demo_local" "hp (ws open_adbd) 1 = Some demo_remote"
    using open_connected by (simp_all add: open_ws demo_hp)
  from session_never_stuck [OF session_start [where env = demo_env and V = "\<lambda>_ _ _. False"]
      this(1,2) demo_sids(3) this(3) open_ws(2)] show ?thesis
    by (simp add: demo_sids)
qed

end
