(* ===== verification/Session_Output.thy ===== *)
theory Session_Output
  imports Session
begin

text \<open>
  The other direction of a connection: what a service writes to its descriptor is read by the event handler of the local socket, at
  most one packet at a time, sent to the peer, and not read any further until the peer has acknowledged it. The packets that leave
  are sealed, carry the ids of both sides and together exactly the bytes that were read; read back from the link they give the
  same bytes.
\<close>

section \<open>Reading from the service\<close>

text \<open>All bytes the answers hold.\<close>

fun all_bytes :: "rd_answer list \<Rightarrow> byte list" where
  "all_bytes [] = []"
| "all_bytes (Chunk bs # k) = bs @ all_bytes k"
| "all_bytes (RdErr e # k) = all_bytes k"

lemma adb_read_bytes:
  "adb_read n k = Some (r, k') \<Longrightarrow> all_bytes k = (case r of Got bs \<Rightarrow> bs | Failed _ \<Rightarrow> []) @ all_bytes k'"
  by (induction n k rule: adb_read.induct) auto

lemma adb_read_none: "adb_read n k = None \<Longrightarrow> all_bytes k = []"
  by (induction n k rule: adb_read.induct) auto

lemma gather_bytes: "gather avail r k = (bs, eof, r', k') \<Longrightarrow> all_bytes k = bs @ all_bytes k'"
proof (induction avail r k arbitrary: bs eof r' k' rule: gather.induct)
  case (1 avail r k)
  show ?case
  proof (cases "avail = 0")
    case True
    with "1.prems" show ?thesis by (simp add: gather.simps)
  next
    case av: False
    show ?thesis
    proof (cases "adb_read avail k")
      case None
      with "1.prems" av adb_read_none [OF None] show ?thesis by (auto simp: gather.simps [of avail])
    next
      case (Some rk)
      obtain x k1 where rk: "rk = (x, k1)" by (cases rk)
      note b = adb_read_bytes [OF Some [unfolded rk]]
      show ?thesis
      proof (cases x)
        case (Got cs)
        obtain o1 e1 r1 k2 where g: "gather (avail - length cs) (int (length cs)) k1 = (o1, e1, r1, k2)"
          by (cases "gather (avail - length cs) (int (length cs)) k1")
        have "cs \<noteq> [] \<Longrightarrow> all_bytes k1 = o1 @ all_bytes k2"
          by (rule "1.IH" [OF av Some rk [symmetric] Got _ g])
        with "1.prems" av Some rk Got g b show ?thesis
          by (auto simp: gather.simps [of avail] split: if_splits)
      next
        case (Failed e)
        with "1.prems" av Some rk b show ?thesis by (auto simp: gather.simps [of avail])
      qed
    qed
  qed
qed

lemma gather_le: "gather avail r k = (bs, eof, r', k') \<Longrightarrow> length bs \<le> avail"
  using gather_length [of avail r k] by simp

section \<open>One read event\<close>

text \<open>The data packets sent on a transport.\<close>

fun wrtes :: "nat \<Rightarrow> effect list \<Rightarrow> apacket list" where
  "wrtes t [] = []"
| "wrtes t (Sent u p # es) = (if u = t \<and> command (msg p) = A_WRTE then [p] else []) @ wrtes t es"
| "wrtes t (_ # es) = wrtes t es"

lemma wrtes_append [simp]: "wrtes t (es @ es') = wrtes t es @ wrtes t es'"
  by (induction t es rule: wrtes.induct) simp_all

lemma list_packet_data:
  assumes "length bs \<le> MAX_PAYLOAD" and "length (fresh st) = MAX_PAYLOAD"
  shows "\<exists>p. list_packet bs st = Inr p \<and> wf_packet p \<and> unat (pkt_len p) = length bs \<and> take (length bs) (data p) = bs"
  using assms unat_u32 [of "length bs"]
  by (auto simp: list_packet_def get_apacket_def blit_def wf_packet_def MAX_PAYLOAD_def)

text \<open>A data packet between the two sides.\<close>

definition data_packet :: "u32 \<Rightarrow> u32 \<Rightarrow> apacket \<Rightarrow> bool" where
  "data_packet i r p \<longleftrightarrow> sealed p \<and> command (msg p) = A_WRTE \<and> arg0 (msg p) = i \<and> arg1 (msg p) = r"

lemma remote_enqueue_sends:
  assumes "hp st q = Some u" "peer u = Some a" "hp st a = Some s" "transport u = Some t" "pipe_ok st t"
    and "wf_packet p" "unat (pkt_len p) \<le> MAX_PAYLOAD"
  shows "\<exists>p'. remote_socket_enqueue q p st = Inr (1, emit (Sent t p') st) \<and>
    data_packet (sid s) (sid u) p' \<and> payload p' = take (unat (pkt_len p)) (data p)"
proof -
  let ?p = "p\<lparr>msg := (msg p)\<lparr>command := A_WRTE, arg0 := sid s, arg1 := sid u, data_length := pkt_len p\<rparr>\<rparr>"
  from packet_seal_sealed [of ?p] assms(6,7) obtain p' where p': "packet_seal ?p = Inr p'" "sealed p'"
    "payload p' = payload ?p" "command (msg p') = A_WRTE" "arg0 (msg p') = sid s" "arg1 (msg p') = sid u"
    by auto
  then show ?thesis
    using assms(1-5)
    by (intro exI [of _ p']) (simp add: remote_socket_enqueue_def sock_Some Let_def send_packet_def data_packet_def payload_def)
qed

text \<open>
  A read event on an open connection whose descriptor neither ends nor fails: nothing happens when there is nothing to read;
  otherwise one packet leaves and the descriptor is no longer watched for input.
\<close>

lemma read_step:
  assumes c: "connected a q t st" and s: "hp st a = Some s" and u: "hp st q = Some u" "enqueue_op u = RemoteEnqueue"
    and g: "gather MAX_PAYLOAD 0 k = (bs, False, r, k')"
  shows "if bs = [] then local_socket_read_event False k a st = Inr st
    else \<exists>p. local_socket_read_event False k a st = Inr (emit (FdOp (OpDel (fde_of a) 1)) (emit (Sent t p) st)) \<and>
      data_packet (sid s) (sid u) p \<and> payload p = bs"
proof (cases "bs = []")
  case True
  with g s connectedD(4) [OF c s u(1)] show ?thesis
    by (simp add: local_socket_read_event_def Let_def sock_Some)
next
  case False
  note C = connectedD [OF c s u(1)]
  from list_packet_data [OF gather_le [OF g] C(11)] obtain p where
    p: "list_packet bs st = Inr p" "wf_packet p" "unat (pkt_len p) = length bs" "take (length bs) (data p) = bs" by blast
  from remote_enqueue_sends [OF u(1) C(7) s C(8,10) p(2)] gather_le [OF g] p(3,4) obtain p' where
    p': "remote_socket_enqueue q p st = Inr (1, emit (Sent t p') st)" "data_packet (sid s) (sid u) p'" "payload p' = bs"
    by auto
  with g s u C(4) p(1) have "local_socket_read_event False k a st =
      Inr (emit (FdOp (OpDel (fde_of a) 1)) (emit (Sent t p') st))"
    using False by (simp add: local_socket_read_event_def Let_def sock_Some sock_enqueue_def)
  with False p'(2,3) show ?thesis by auto
qed

section \<open>The step relation\<close>

text \<open>
  From \<open>st0\<close> and the answers \<open>k0\<close> of the descriptor: all bytes the service has written so far, whether the socket waits for
  data (or for an acknowledgement), the state now and the answers that are left. An acknowledgement makes the
  socket ready again; the service may write more at any time.
\<close>

inductive sending :: "nat \<Rightarrow> nat \<Rightarrow> u32 \<Rightarrow> u32 \<Rightarrow> sworld \<Rightarrow> rd_answer list \<Rightarrow>
    byte list \<Rightarrow> bool \<Rightarrow> sworld \<Rightarrow> rd_answer list \<Rightarrow> bool"
  for a t i r st0 k0 where
  sending_start: "sending a t i r st0 k0 (all_bytes k0) True st0 k0"
| sending_read: "sending a t i r st0 k0 bs True st k \<Longrightarrow> gather MAX_PAYLOAD 0 k = (cs, False, n, k') \<Longrightarrow>
    local_socket_read_event False k a st = Inr st' \<Longrightarrow> sending a t i r st0 k0 bs (cs = []) st' k'"
| sending_okay: "sending a t i r st0 k0 bs False st k \<Longrightarrow> arg0 (msg p) = r \<Longrightarrow> arg1 (msg p) = i \<Longrightarrow>
    handle_okay p t st = Inr st' \<Longrightarrow> sending a t i r st0 k0 bs True st' k"
| sending_service: "sending a t i r st0 k0 bs b st k \<Longrightarrow>
    sending a t i r st0 k0 (bs @ all_bytes k') b st (k @ k')"

text \<open>Whether the event loop is asked to watch the descriptor of \<open>f\<close> for input.\<close>

fun watching :: "nat \<Rightarrow> bool \<Rightarrow> effect list \<Rightarrow> bool" where
  "watching f b [] = b"
| "watching f b (FdOp (OpAdd g e) # es) = watching f (if g = f \<and> e = 1 then True else b) es"
| "watching f b (FdOp (OpDel g e) # es) = watching f (if g = f \<and> e = 1 then False else b) es"
| "watching f b (_ # es) = watching f b es"

lemma watching_append [simp]: "watching f b (es @ es') = watching f (watching f b es) es'"
  by (induction f b es rule: watching.induct) simp_all

lemma all_bytes_append [simp]: "all_bytes (k @ k') = all_bytes k @ all_bytes k'"
  by (induction k rule: all_bytes.induct) simp_all

lemma okay_step:
  assumes c: "connected a q t st" and s: "hp st a = Some s" "ready_op s = LocalReady" and u: "hp st q = Some u"
    and p: "arg1 (msg p) = sid s"
  shows "handle_okay p t st = Inr (emit (FdOp (OpAdd (fde_of a) 1)) st)"
  using connectedD(4,9) [OF c s(1) u] s p
  by (simp add: handle_okay_def sock_Some sock_ready_def local_socket_ready_def)

definition sending_inv :: "nat \<Rightarrow> nat \<Rightarrow> nat \<Rightarrow> asocket \<Rightarrow> asocket \<Rightarrow> sworld \<Rightarrow> byte list \<Rightarrow> bool \<Rightarrow> sworld \<Rightarrow>
    rd_answer list \<Rightarrow> bool" where
  "sending_inv a q t s u st0 bs b st k \<longleftrightarrow>
     connected a q t st \<and> hp st a = Some s \<and> hp st q = Some u \<and>
     (\<exists>es. effects st = effects st0 @ es \<and> list_all (data_packet (sid s) (sid u)) (wrtes t es) \<and>
        bs = concat (map payload (wrtes t es)) @ all_bytes k \<and> watching (fde_of a) True es = b)"

lemma connected_emit: "connected a q t (emit e st) = connected a q t st"
proof -
  have "find_from as i (emit e st) = find_from as i st" for as i
    by (rule find_from_cong) simp
  then show ?thesis by (simp add: connected_def find_local_socket_def)
qed

lemma sending_read_inv:
  assumes I: "sending_inv a q t s u st0 bs True st k" and u: "enqueue_op u = RemoteEnqueue"
    and g: "gather MAX_PAYLOAD 0 k = (cs, False, n, k')"
  shows "\<exists>st'. local_socket_read_event False k a st = Inr st' \<and> sending_inv a q t s u st0 bs (cs = []) st' k'"
proof -
  from I obtain es where es: "connected a q t st" "hp st a = Some s" "hp st q = Some u" "effects st = effects st0 @ es"
    "list_all (data_packet (sid s) (sid u)) (wrtes t es)" "bs = concat (map payload (wrtes t es)) @ all_bytes k"
    "watching (fde_of a) True es"
    by (auto simp: sending_inv_def)
  note b = gather_bytes [OF g]
  note R = read_step [OF es(1-3) u g]
  show ?thesis
  proof (cases "cs = []")
    case True
    with R b es show ?thesis by (auto simp: sending_inv_def)
  next
    case False
    with R obtain p where p: "local_socket_read_event False k a st = Inr (emit (FdOp (OpDel (fde_of a) 1)) (emit (Sent t p) st))"
      "data_packet (sid s) (sid u) p" "payload p = cs" by auto
    let ?es = "es @ [Sent t p, FdOp (OpDel (fde_of a) 1)]"
    have "effects (emit (FdOp (OpDel (fde_of a) 1)) (emit (Sent t p) st)) = effects st0 @ ?es"
      using es(4) by (simp add: emit_def)
    moreover have "wrtes t ?es = wrtes t es @ [p]" using p(2) by (simp add: data_packet_def)
    ultimately show ?thesis
      using p es b False unfolding sending_inv_def
      by (intro exI [of _ "emit (FdOp (OpDel (fde_of a) 1)) (emit (Sent t p) st)"])
        (auto simp: connected_emit intro!: exI [of _ ?es])
  qed
qed

lemma sending_okay_inv:
  assumes I: "sending_inv a q t s u st0 bs b st k" and s: "ready_op s = LocalReady" and p: "arg1 (msg p) = sid s"
  shows "\<exists>st'. handle_okay p t st = Inr st' \<and> sending_inv a q t s u st0 bs True st' k"
proof -
  from I obtain es where es: "connected a q t st" "hp st a = Some s" "hp st q = Some u" "effects st = effects st0 @ es"
    "list_all (data_packet (sid s) (sid u)) (wrtes t es)" "bs = concat (map payload (wrtes t es)) @ all_bytes k"
    by (auto simp: sending_inv_def)
  let ?es = "es @ [FdOp (OpAdd (fde_of a) 1)]"
  have "effects (emit (FdOp (OpAdd (fde_of a) 1)) st) = effects st0 @ ?es"
    using es(4) by (simp add: emit_def)
  with okay_step [OF es(1,2) s es(3) p] es show ?thesis
    unfolding sending_inv_def by (auto simp: connected_emit intro!: exI [of _ ?es])
qed

lemma sending_keeps:
  assumes "sending a t (sid s) (sid u) st0 k0 bs b st k"
    and "connected a q t st0" "hp st0 a = Some s" "hp st0 q = Some u" "enqueue_op u = RemoteEnqueue" "ready_op s = LocalReady"
  shows "sending_inv a q t s u st0 bs b st k"
  using assms(1)
proof (induction rule: sending.induct)
  case sending_start
  then show ?case using assms(2-4) by (auto simp: sending_inv_def intro!: exI [of _ "[]"])
next
  case (sending_read bs st k cs n k' st')
  with sending_read_inv [OF sending_read.IH assms(5) sending_read.hyps(2)] show ?case by auto
next
  case (sending_okay bs st k p st')
  with sending_okay_inv [OF sending_okay.IH assms(6), of p] show ?case by auto
next
  case (sending_service bs b st k k')
  then show ?case by (auto simp: sending_inv_def)
qed

section \<open>Properties\<close>

text \<open>
  C5: what a service writes comes out at the other end of the link, once and in order. However the service's output is cut into reads
  and acknowledged: the data packets sent are sealed and carry the ids of both sides, their payloads followed by what is
  not read yet are the bytes the service wrote, the socket is watched for input exactly while no
  acknowledgement is outstanding; and when these packets go over the link, whatever way the kernel splits the writes and
  reads, the receiver gets exactly these bytes.
\<close>

theorem output_reaches_peer:
  assumes "sending a t (sid s) (sid u) st0 k0 bs b st k" and "effects st0 = []"
    and "connected a q t st0" "hp st0 a = Some s" "hp st0 q = Some u" "enqueue_op u = RemoteEnqueue" "ready_op s = LocalReady"
    and "packets_write local_remote_write (wrtes t (effects st)) wk = Some (out, wk')"
    and "stream rk = out" and "list_all wf_packet qs" and "length qs = length (wrtes t (effects st))"
  shows "\<exists>qs' rk'. packets_read local_remote_read qs rk = Some (qs', rk') \<and>
    concat (map payload qs') @ all_bytes k = bs \<and> list_all (\<lambda>p. arg0 (msg p) = sid s \<and> arg1 (msg p) = sid u) qs' \<and>
    watching (fde_of a) True (effects st) = b"
proof -
  let ?ps = "wrtes t (effects st)"
  from sending_keeps [OF assms(1,3-7)] assms(2) have I: "list_all (data_packet (sid s) (sid u)) ?ps"
    "bs = concat (map payload ?ps) @ all_bytes k" "watching (fde_of a) True (effects st) = b"
    by (auto simp: sending_inv_def)
  have sl: "list_all sealed ?ps" using I(1) by (auto simp: list_all_iff data_packet_def)
  have w: "out = concat (map wire ?ps)" by (rule sockw.packets_write_wire [OF sl assms(8)])
  obtain qs' rk' where q: "packets_read (packet_read readx) qs rk = Some (qs', rk')" "list_all2 same_packet qs' ?ps"
    using sock.packets_read_sealed [OF sl assms(10,11), of rk "[]"] w assms(9) by auto
  from q(2) have "map payload qs' = map payload ?ps"
    by (induction rule: list_all2_induct) (simp_all add: same_packet_def)
  moreover from q(2) I(1) have "list_all (\<lambda>p. arg0 (msg p) = sid s \<and> arg1 (msg p) = sid u) qs'"
    by (induction rule: list_all2_induct) (auto simp: same_packet_def data_packet_def)
  ultimately show ?thesis
    using q(1) I(2,3) by (simp add: local_remote_read_eq)
qed

text \<open>A service that has written two bytes.\<close>

lemma demo_gather: "gather MAX_PAYLOAD 0 [Chunk [5, 6]] = ([5, 6], False, -1, [])"
  by (simp add: MAX_PAYLOAD_def gather.simps [of 4096] gather.simps [of 4094])

lemma demo_write:
  assumes "data_packet i r p" and "payload p = [5, 6]"
  shows "packets_write local_remote_write [p] [Room 64] = Some (wire p, [])"
proof -
  have "unat (data_length (msg p)) \<le> length (data p)"
    using assms(1) by (simp add: data_packet_def sealed_def check_header_def wf_packet_def)
  moreover have "length (wire p) = 26" using assms(2) by (simp add: wire_def)
  ultimately show ?thesis
    using assms(2) by (simp add: local_remote_write_def wire_def writex.simps [of "_ @ _"] writex.simps [of "[]"])
qed

theorem output_reaches_peer_witness:
  "\<exists>st p out rk'. sending 0 0 1 40 demo_world [Chunk [5, 6]] [5, 6] False st [] \<and> wrtes 0 (effects st) = [p] \<and>
     packets_write local_remote_write [p] [Room 64] = Some (out, []) \<and>
     (\<exists>q. packets_read local_remote_read [get_apacket (replicate MAX_PAYLOAD 7)] [Chunk out] = Some ([q], rk') \<and> payload q = [5, 6])"
proof -
  have h: "hp demo_world 0 = Some demo_local" "hp demo_world 1 = Some demo_remote" by (simp_all add: demo_hp)
  have o: "enqueue_op demo_remote = RemoteEnqueue" "ready_op demo_local = LocalReady"
    by (simp_all add: demo_remote_def demo_local_def zero_sock_def)
  have start: "sending 0 0 1 40 demo_world [Chunk [5, 6]] [5, 6] True demo_world [Chunk [5, 6]]"
    using sending_start [of 0 0 1 40 demo_world "[Chunk [5, 6]]"] by simp
  note inv = sending_keeps [OF start [folded demo_sids(1,2)] open_connected h o]
  from sending_read_inv [OF inv o(1) demo_gather] obtain st where
    st: "local_socket_read_event False [Chunk [5, 6]] 0 demo_world = Inr st"
      "sending_inv 0 1 0 demo_local demo_remote demo_world [5, 6] False st []" by auto
  have s: "sending 0 0 1 40 demo_world [Chunk [5, 6]] [5, 6] False st []"
    using sending_read [OF start demo_gather st(1)] by simp
  from read_step [OF open_connected h o(1) demo_gather] st(1) obtain p where p: "data_packet 1 40 p" "payload p = [5, 6]"
    "st = emit (FdOp (OpDel (fde_of 0) 1)) (emit (Sent 0 p) demo_world)"
    by (auto simp: demo_sids)
  have w: "wrtes 0 (effects st) = [p]"
    using p(1) by (simp add: p(3) emit_def demo_sids data_packet_def)
  note wr = demo_write [OF p(1,2)]
  have ne: "wire p \<noteq> []" using p(2) by (simp add: wire_def)
  from output_reaches_peer [OF s [folded demo_sids(1,2)] demo_sids(5) open_connected h o, of "[Room 64]" "wire p" "[]"
      "[Chunk (wire p)]" "[get_apacket (replicate MAX_PAYLOAD 7)]"] w wr ne wrte_packet_facts(3)
  obtain qs' rk' where q: "packets_read local_remote_read [get_apacket (replicate MAX_PAYLOAD 7)] [Chunk (wire p)] = Some (qs', rk')"
    "concat (map payload qs') = [5, 6]" by auto
  from q(1) obtain q' where "qs' = [q']"
    by (auto split: sum.splits option.splits)
  with q s w wr show ?thesis by auto
qed

end
