(* ===== verification/Device_Trackers.thy ===== *)
theory Device_Trackers
  imports Device_List
begin

text \<open>
  The trackers of devices in the host build of \<open>src/transport.c\<close>: sockets of clients that asked for
  \<open>track-devices\<close> and get the list of devices whenever it changes. They form a chain of pointers, and
  sending to one may close its connection, which unlinks and frees the tracker while
  \<open>update_transports\<close> walks the chain.

  The connection of a tracker, its peer, is a local socket of \<open>Sockets\<close>. What matters of it here is whether it takes
  a packet or fails, in which case it closes itself and first the tracker: \<open>fails\<close> has the connections
  that do. What happens to the connections is logged in order. The program does all this in one thread, so the
  lock in \<open>device_tracker_remove\<close> is not modelled. Memory is granted.
\<close>

section \<open>State and operations\<close>

record device_tracker =
  dt_peer :: "nat option"
  update_needed :: bool
  dt_next :: "nat option"

datatype peer_event = PeerGot nat "byte list" | PeerClosed nat

record dtworld =
  dtheap :: "nat \<rightharpoonup> device_tracker"
  device_tracker_list :: "nat option"
  plog :: "peer_event list"
  fails :: "nat \<Rightarrow> bool"

definition tracker_at :: "nat \<Rightarrow> dtworld \<Rightarrow> device_tracker res" where
  "tracker_at a st = (case dtheap st a of None \<Rightarrow> Inl (Fault UseAfterFree) | Some t \<Rightarrow> Inr t)"

definition put_tracker :: "nat \<Rightarrow> device_tracker \<Rightarrow> dtworld \<Rightarrow> dtworld" where
  "put_tracker a t st = st\<lparr>dtheap := (dtheap st)(a \<mapsto> t)\<rparr>"

definition log_peer :: "peer_event \<Rightarrow> dtworld \<Rightarrow> dtworld" where
  "log_peer e st = st\<lparr>plog := plog st @ [e]\<rparr>"

text \<open>\<open>*pnode = v\<close>: \<open>pnode\<close> points at the head of the chain or at the link of a tracker.\<close>

definition store_link :: "nat option \<Rightarrow> nat option \<Rightarrow> dtworld \<Rightarrow> dtworld res" where
  "store_link pnode v st =
     (case pnode of
        None \<Rightarrow> Inr (st\<lparr>device_tracker_list := v\<rparr>)
      | Some b \<Rightarrow> seq (tracker_at b st) (\<lambda>t. Inr (put_tracker b (t\<lparr>dt_next := v\<rparr>) st)))"

text \<open>The loop of \<open>device_tracker_remove\<close>; \<open>None\<close> when the chain is a circle without the tracker.\<close>

partial_function (option) remove_node ::
    "nat \<Rightarrow> nat option \<Rightarrow> nat option \<Rightarrow> dtworld \<Rightarrow> dtworld res option" where
  "remove_node a pnode node st =
     (case node of
        None \<Rightarrow> Some (Inr st)
      | Some x \<Rightarrow>
          (case tracker_at x st of
             Inl e \<Rightarrow> Some (Inl e)
           | Inr t \<Rightarrow>
               if x = a then Some (store_link pnode (dt_next t) st)
               else remove_node a (Some x) (dt_next t) st))"

definition device_tracker_remove :: "nat \<Rightarrow> dtworld \<Rightarrow> dtworld res option" where
  "device_tracker_remove a st = remove_node a None (device_tracker_list st) st"

text \<open>Sequencing of steps that may not return.\<close>

definition andthen :: "dtworld res option \<Rightarrow> (dtworld \<Rightarrow> dtworld res option) \<Rightarrow> dtworld res option" where
  "andthen m k = (case m of None \<Rightarrow> None | Some (Inl e) \<Rightarrow> Some (Inl e) | Some (Inr st) \<Rightarrow> k st)"

text \<open>The peer loses its pointer to the tracker before it is closed, so it closes only itself.\<close>

definition device_tracker_close :: "nat \<Rightarrow> dtworld \<Rightarrow> dtworld res option" where
  "device_tracker_close a st =
     andthen (Some (seq (tracker_at a st) (\<lambda>t.
       Inr (case dt_peer t of None \<Rightarrow> st | Some q \<Rightarrow> log_peer (PeerClosed q) st)))) (\<lambda>st.
     andthen (device_tracker_remove a st) (\<lambda>st.
     Some (seq (tracker_at a st) (\<lambda>_. Inr (st\<lparr>dtheap := (dtheap st)(a := None)\<rparr>)))))"

text \<open>A tracker takes no input: it closes. The result is always -1.\<close>

definition device_tracker_enqueue :: "nat \<Rightarrow> dtworld \<Rightarrow> dtworld res option" where
  "device_tracker_enqueue a st = device_tracker_close a st"

text \<open>
  \<open>peer->enqueue\<close>: a connection that fails clears the pointer of the tracker to it, closes the tracker and
  then itself.
\<close>

definition peer_enqueue :: "nat \<Rightarrow> nat \<Rightarrow> byte list \<Rightarrow> dtworld \<Rightarrow> dtworld res option" where
  "peer_enqueue q a bytes st =
     (if fails st q then
        andthen (Some (seq (tracker_at a st) (\<lambda>t. Inr (put_tracker a (t\<lparr>dt_peer := None\<rparr>) st)))) (\<lambda>st.
        andthen (device_tracker_close a st) (\<lambda>st.
        Some (Inr (log_peer (PeerClosed q) st))))
      else Some (Inr (log_peer (PeerGot q bytes) st)))"

definition device_tracker_send :: "nat \<Rightarrow> byte list \<Rightarrow> int \<Rightarrow> dtworld \<Rightarrow> dtworld res option" where
  "device_tracker_send a buffer len st =
     (case tracker_at a st of
        Inl e \<Rightarrow> Some (Inl e)
      | Inr t \<Rightarrow>
          if len < 0 \<or> len > int (length buffer) \<or> len > int MAX_PAYLOAD then Some (Inl (Fault OutOfBounds))
          else (case dt_peer t of
              None \<Rightarrow> Some (Inl (Fault NullDeref))
            | Some q \<Rightarrow> peer_enqueue q a (take (nat len) buffer) st))"

text \<open>\<open>buf\<close> is the contents of the 1024 bytes that \<open>malloc\<close> returns, \<open>w\<close> the state with the transports.\<close>

definition device_tracker_ready :: "byte list \<Rightarrow> adbd \<Rightarrow> nat \<Rightarrow> dtworld \<Rightarrow> dtworld res option" where
  "device_tracker_ready buf w a st =
     (case tracker_at a st of
        Inl e \<Rightarrow> Some (Inl e)
      | Inr t \<Rightarrow>
          if update_needed t then
            let st = put_tracker a (t\<lparr>update_needed := False\<rparr>) st in
            (case list_transports_msg buf 1024 w of
               Inl e \<Rightarrow> Some (Inl e)
             | Inr (len, buffer) \<Rightarrow> device_tracker_send a buffer len st)
          else Some (Inr st))"

text \<open>\<open>a\<close> is the address that \<open>calloc\<close> returns.\<close>

definition create_device_tracker :: "nat \<Rightarrow> dtworld \<Rightarrow> dtworld" where
  "create_device_tracker a st =
     (put_tracker a \<lparr>dt_peer = None, update_needed = True, dt_next = device_tracker_list st\<rparr> st)
       \<lparr>device_tracker_list := Some a\<rparr>"

text \<open>The loop of \<open>update_transports\<close>, which reads the link before it sends.\<close>

partial_function (option) tell_trackers ::
    "byte list \<Rightarrow> int \<Rightarrow> nat option \<Rightarrow> dtworld \<Rightarrow> dtworld res option" where
  "tell_trackers buffer len tracker st =
     (case tracker of
        None \<Rightarrow> Some (Inr st)
      | Some a \<Rightarrow>
          (case tracker_at a st of
             Inl e \<Rightarrow> Some (Inl e)
           | Inr t \<Rightarrow>
               (case device_tracker_send a buffer len st of
                  None \<Rightarrow> None
                | Some (Inl e) \<Rightarrow> Some (Inl e)
                | Some (Inr st) \<Rightarrow> tell_trackers buffer len (dt_next t) st)))"

definition update_transports :: "byte list \<Rightarrow> adbd \<Rightarrow> dtworld \<Rightarrow> dtworld res option" where
  "update_transports buf w st =
     (case list_transports_msg buf 1024 w of
        Inl e \<Rightarrow> Some (Inl e)
      | Inr (len, buffer) \<Rightarrow> tell_trackers buffer len (device_tracker_list st) st)"

section \<open>The chain\<close>

text \<open>\<open>linked h p xs\<close>: from \<open>p\<close> the links lead through the trackers \<open>xs\<close> to the end.\<close>

fun linked :: "(nat \<rightharpoonup> device_tracker) \<Rightarrow> nat option \<Rightarrow> nat list \<Rightarrow> bool" where
  "linked h p [] \<longleftrightarrow> p = None"
| "linked h p (x # xs) \<longleftrightarrow> p = Some x \<and> (\<exists>t. h x = Some t \<and> linked h (dt_next t) xs)"

lemma linked_cong: "(\<And>x. x \<in> set xs \<Longrightarrow> map_option dt_next (h' x) = map_option dt_next (h x)) \<Longrightarrow> linked h' p xs = linked h p xs"
proof (induction xs arbitrary: p)
  case (Cons x xs)
  from Cons.prems [of x] have "map_option dt_next (h' x) = map_option dt_next (h x)" by simp
  moreover have "linked h' q xs = linked h q xs" for q
    by (rule Cons.IH) (use Cons.prems in simp)
  ultimately show ?case by (cases "h x"; cases "h' x") auto
qed simp

lemma linked_upd_other: "a \<notin> set xs \<Longrightarrow> linked (h(a := v)) p xs = linked h p xs"
  by (rule linked_cong) auto

lemma tracker_at_simps [simp]:
  "tracker_at a (put_tracker b t st) = (if a = b then Inr t else tracker_at a st)"
  "tracker_at a (log_peer e st) = tracker_at a st"
  "dtheap st a = Some t \<Longrightarrow> tracker_at a st = Inr t"
  "tracker_at a (st\<lparr>device_tracker_list := v\<rparr>) = tracker_at a st"
  by (simp_all add: tracker_at_def put_tracker_def log_peer_def)

lemma andthen_simps [simp]:
  "andthen (Some (Inr st)) k = k st" "andthen (Some (Inl e)) k = Some (Inl e)" "andthen None k = None"
  by (simp_all add: andthen_def)

text \<open>
  Removing the tracker \<open>a\<close> behind the trackers \<open>pre\<close>: the link that led to it, in the last of them or in
  the head, leads to its successor.
\<close>

lemma remove_node_chain:
  assumes "linked (dtheap st) node (xs @ a # ys)" and "a \<notin> set xs" and "dtheap st a = Some t"
    and "pnode = None \<or> (\<exists>b u. pnode = Some b \<and> dtheap st b = Some u)"
  shows "remove_node a pnode node st =
    Some (store_link (if xs = [] then pnode else Some (last xs)) (dt_next t) st)"
  using assms
proof (induction xs arbitrary: pnode node)
  case Nil
  then show ?case by (subst remove_node.simps) simp
next
  case (Cons x xs)
  then obtain u where u: "node = Some x" "dtheap st x = Some u" "linked (dtheap st) (dt_next u) (xs @ a # ys)" by auto
  have "remove_node a pnode node st = remove_node a (Some x) (dt_next u) st"
    using u(1,2) Cons.prems(2) by (subst remove_node.simps) simp
  also have "\<dots> = Some (store_link (if xs = [] then Some x else Some (last xs)) (dt_next t) st)"
    by (rule Cons.IH) (use u Cons.prems in auto)
  finally show ?case by simp
qed

lemma linked_cut:
  assumes "linked h p (zs @ z # a # ys)" and "distinct (zs @ z # a # ys)" and "h z = Some u" and "h a = Some t"
  shows "linked (h(z \<mapsto> u\<lparr>dt_next := dt_next t\<rparr>)) p (zs @ z # ys)"
  using assms
proof (induction zs arbitrary: p)
  case Nil
  then have "linked (h(z \<mapsto> u\<lparr>dt_next := dt_next t\<rparr>)) (dt_next t) ys"
    by (subst linked_upd_other) auto
  with Nil show ?case by (auto simp: fun_upd_def)
qed auto

text \<open>
  The chain is in order: it has no tracker twice, and all trackers are on it.
\<close>

definition trackers_ok :: "dtworld \<Rightarrow> nat list \<Rightarrow> bool" where
  "trackers_ok st xs \<longleftrightarrow> linked (dtheap st) (device_tracker_list st) xs \<and> distinct xs \<and> dom (dtheap st) = set xs"

definition conn_of :: "dtworld \<Rightarrow> nat \<Rightarrow> nat option" where
  "conn_of st a = (case dtheap st a of None \<Rightarrow> None | Some t \<Rightarrow> dt_peer t)"

lemma remove_ok:
  assumes ok: "trackers_ok st (xs @ a # ys)"
  shows "\<exists>st'. device_tracker_remove a st = Some (Inr st') \<and>
    linked (dtheap st') (device_tracker_list st') (xs @ ys) \<and> dom (dtheap st') = dom (dtheap st) \<and>
    dtheap st' a = dtheap st a \<and> (\<forall>b \<in> set ys. dtheap st' b = dtheap st b) \<and> conn_of st' = conn_of st \<and>
    plog st' = plog st \<and> fails st' = fails st"
proof -
  have ch: "linked (dtheap st) (device_tracker_list st) (xs @ a # ys)" and d: "distinct (xs @ a # ys)"
    and dom: "dom (dtheap st) = set (xs @ a # ys)"
    using ok by (simp_all add: trackers_ok_def)
  from dom obtain t where t: "dtheap st a = Some t" by auto
  have r: "device_tracker_remove a st = Some (store_link (if xs = [] then None else Some (last xs)) (dt_next t) st)"
    unfolding device_tracker_remove_def by (rule remove_node_chain [OF ch]) (use d t in auto)
  show ?thesis
  proof (cases xs rule: rev_cases)
    case Nil
    with r ch t show ?thesis by (auto simp: store_link_def conn_of_def fun_eq_iff)
  next
    case (snoc zs z)
    with dom obtain u where u: "dtheap st z = Some u" by auto
    let ?st = "put_tracker z (u\<lparr>dt_next := dt_next t\<rparr>) st"
    have "device_tracker_remove a st = Some (Inr ?st)"
      using r snoc u by (simp add: store_link_def)
    moreover have "linked (dtheap ?st) (device_tracker_list ?st) (xs @ ys)"
      using linked_cut [of "dtheap st" _ zs z a ys u t] ch d snoc u t by (simp add: put_tracker_def)
    moreover have "conn_of ?st = conn_of st"
      using u by (auto simp: conn_of_def put_tracker_def fun_eq_iff)
    ultimately show ?thesis
      using d snoc u by (auto simp: put_tracker_def)
  qed
qed

lemma close_ok:
  assumes ok: "trackers_ok st (xs @ a # ys)"
  shows "\<exists>st'. device_tracker_close a st = Some (Inr st') \<and> trackers_ok st' (xs @ ys) \<and>
    (\<forall>b \<in> set ys. dtheap st' b = dtheap st b) \<and> (\<forall>b. b \<noteq> a \<longrightarrow> conn_of st' b = conn_of st b) \<and>
    plog st' = plog st @ (case conn_of st a of None \<Rightarrow> [] | Some q \<Rightarrow> [PeerClosed q]) \<and> fails st' = fails st"
proof -
  from ok obtain t where t: "dtheap st a = Some t" by (auto simp: trackers_ok_def)
  define st1 where "st1 = (case dt_peer t of None \<Rightarrow> st | Some q \<Rightarrow> log_peer (PeerClosed q) st)"
  have f: "dtheap st1 = dtheap st" "device_tracker_list st1 = device_tracker_list st" "fails st1 = fails st"
    "plog st1 = plog st @ (case conn_of st a of None \<Rightarrow> [] | Some q \<Rightarrow> [PeerClosed q])" "conn_of st1 = conn_of st"
    using t by (auto simp: st1_def log_peer_def conn_of_def fun_eq_iff split: option.split)
  from ok f have "trackers_ok st1 (xs @ a # ys)" by (simp add: trackers_ok_def)
  from remove_ok [OF this] obtain st2 where st2: "device_tracker_remove a st1 = Some (Inr st2)"
    "linked (dtheap st2) (device_tracker_list st2) (xs @ ys)" "dom (dtheap st2) = dom (dtheap st)"
    "dtheap st2 a = Some t" "\<forall>b \<in> set ys. dtheap st2 b = dtheap st b" "conn_of st2 = conn_of st"
    "plog st2 = plog st1" "fails st2 = fails st"
    using f t by auto
  let ?st = "st2\<lparr>dtheap := (dtheap st2)(a := None)\<rparr>"
  have a: "a \<notin> set xs" "a \<notin> set ys" "distinct (xs @ ys)" "dom (dtheap st) = insert a (set (xs @ ys))"
    using ok by (auto simp: trackers_ok_def)
  have "device_tracker_close a st = Some (Inr ?st)"
    unfolding device_tracker_close_def using t st2(1,4) by (simp add: st1_def [symmetric])
  moreover have "trackers_ok ?st (xs @ ys)"
    using st2(2,3) a by (auto simp: trackers_ok_def linked_upd_other)
  moreover have "\<forall>b. b \<noteq> a \<longrightarrow> conn_of ?st b = conn_of st b"
    using st2(6) by (auto simp: conn_of_def fun_eq_iff split: option.splits)
  ultimately show ?thesis
    using st2 f(4) a(2) by auto
qed

text \<open>What one connection gets.\<close>

definition told :: "dtworld \<Rightarrow> byte list \<Rightarrow> nat \<Rightarrow> peer_event" where
  "told st bytes q = (if fails st q then PeerClosed q else PeerGot q bytes)"

lemma send_ok:
  assumes ok: "trackers_ok st (xs @ a # ys)" and q: "conn_of st a = Some q"
    and len: "0 \<le> len" "len \<le> int (length buffer)" "len \<le> int MAX_PAYLOAD"
  shows "\<exists>st'. device_tracker_send a buffer len st = Some (Inr st') \<and>
    trackers_ok st' (if fails st q then xs @ ys else xs @ a # ys) \<and>
    (\<forall>b \<in> set ys. dtheap st' b = dtheap st b) \<and> (\<forall>b. b \<noteq> a \<longrightarrow> conn_of st' b = conn_of st b) \<and>
    plog st' = plog st @ [told st (take (nat len) buffer) q] \<and> fails st' = fails st"
proof -
  from q obtain t where t: "dtheap st a = Some t" "dt_peer t = Some q"
    by (auto simp: conn_of_def split: option.splits)
  have send: "device_tracker_send a buffer len st = peer_enqueue q a (take (nat len) buffer) st"
    using t len by (simp add: device_tracker_send_def)
  show ?thesis
  proof (cases "fails st q")
    case False
    then show ?thesis
      using ok by (simp add: send peer_enqueue_def log_peer_def told_def trackers_ok_def conn_of_def)
  next
    case True
    define st1 where "st1 = put_tracker a (t\<lparr>dt_peer := None\<rparr>) st"
    have "linked (dtheap st1) (device_tracker_list st1) (xs @ a # ys) =
        linked (dtheap st) (device_tracker_list st) (xs @ a # ys)"
      unfolding st1_def put_tracker_def using t(1) by (simp) (rule linked_cong, auto)
    then have "trackers_ok st1 (xs @ a # ys)"
      using ok t(1) by (auto simp: trackers_ok_def st1_def put_tracker_def)
    from close_ok [OF this] obtain st2 where st2: "device_tracker_close a st1 = Some (Inr st2)"
      "trackers_ok st2 (xs @ ys)" "\<forall>b \<in> set ys. dtheap st2 b = dtheap st1 b"
      "\<forall>b. b \<noteq> a \<longrightarrow> conn_of st2 b = conn_of st1 b" "plog st2 = plog st" "fails st2 = fails st"
      by (auto simp: st1_def put_tracker_def conn_of_def)
    have "a \<notin> set ys" using ok by (simp add: trackers_ok_def)
    with st2 True t(1) show ?thesis
      unfolding send peer_enqueue_def
      by (auto simp: st1_def [symmetric] log_peer_def told_def trackers_ok_def conn_of_def)
        (auto simp: st1_def put_tracker_def)
  qed
qed

lemma tell_ok:
  assumes "trackers_ok st (ks @ ys)" and "linked (dtheap st) p ys" and "\<forall>a \<in> set ys. conn_of st a = Some (pr a)"
    and len: "0 \<le> len" "len \<le> int (length buffer)" "len \<le> int MAX_PAYLOAD"
  shows "\<exists>st'. tell_trackers buffer len p st = Some (Inr st') \<and>
    trackers_ok st' (ks @ filter (\<lambda>a. \<not> fails st (pr a)) ys) \<and>
    plog st' = plog st @ map (\<lambda>a. told st (take (nat len) buffer) (pr a)) ys"
  using assms(1-3)
proof (induction ys arbitrary: st ks p)
  case Nil
  then show ?case by (subst tell_trackers.simps) simp
next
  case (Cons a ys)
  from Cons.prems(2) obtain t where t: "p = Some a" "dtheap st a = Some t" "linked (dtheap st) (dt_next t) ys" by auto
  from send_ok [OF Cons.prems(1) _ len, of "pr a"] Cons.prems(3) obtain st1 where
    st1: "device_tracker_send a buffer len st = Some (Inr st1)"
      "trackers_ok st1 (if fails st (pr a) then ks @ ys else ks @ a # ys)"
      "\<forall>b \<in> set ys. dtheap st1 b = dtheap st b" "\<forall>b. b \<noteq> a \<longrightarrow> conn_of st1 b = conn_of st b"
      "plog st1 = plog st @ [told st (take (nat len) buffer) (pr a)]" "fails st1 = fails st"
    by auto
  let ?ks = "if fails st (pr a) then ks else ks @ [a]"
  have "a \<notin> set ys" using Cons.prems(1) by (simp add: trackers_ok_def)
  then have pr: "\<forall>b \<in> set ys. conn_of st1 b = Some (pr b)"
    using st1(4) Cons.prems(3) by (auto split: if_splits)
  have ok1: "trackers_ok st1 (?ks @ ys)" using st1(2) by (simp split: if_splits)
  have l1: "linked (dtheap st1) (dt_next t) ys"
    using t(3) linked_cong [of ys "dtheap st1" "dtheap st"] st1(3) by simp
  have "tell_trackers buffer len p st = tell_trackers buffer len (dt_next t) st1"
    using t(1,2) st1(1) by (subst tell_trackers.simps) simp
  with Cons.IH [OF ok1 l1 pr] show ?case
    using st1(5,6) by (simp add: told_def cong: if_cong split: if_splits)
qed

text \<open>The message a tracker is sent: the length and the lines that fit into 1019 bytes.\<close>

definition device_msg :: "adbd \<Rightarrow> byte list" where
  "device_msg w = (let t = fitting 1020 (device_lines False w) in hex4 (length t) @ t)"

lemma list_transports_msg_eq:
  assumes "listable False w" and "length buf = 1024"
  shows "\<exists>buffer. list_transports_msg buf 1024 w = Inr (int (length (device_msg w)), buffer) \<and>
    take (length (device_msg w)) buffer = device_msg w \<and> length (device_msg w) \<le> length buffer \<and>
    length (device_msg w) < 1024"
proof -
  let ?t = "fitting 1020 (device_lines False w)"
  obtain rest where r: "list_transports (drop 4 buf) 1020 False w = Inr (int (length ?t), ?t @ 0 # rest)"
    using list_transports_fitting [OF assms(1), of 1020 "drop 4 buf"] assms(2) by auto
  have l: "length ?t < 1020" by (rule length_fitting) simp
  then have "hex_pad4 (length ?t) = hex4 (length ?t)" "length (hex4 (length ?t)) = 4"
    by (simp_all add: hex_pad4_hex4 hex4_def)
  with r l show ?thesis
    by (auto simp: list_transports_msg_def device_msg_def Let_def)
qed

section \<open>Properties\<close>

text \<open>
  C21: every tracker is told when the list of devices changes. \<open>update_transports\<close> on a chain in
  order, whose trackers all have a connection, returns without a fault, although sending may unlink and free the
  tracker it has reached: each connection gets the current list once, in the order of the chain, or fails; exactly
  the trackers of the connections that failed are gone from the chain and freed.
\<close>

theorem update_tells_all_trackers:
  assumes "trackers_ok st xs" and "\<forall>a \<in> set xs. conn_of st a = Some (pr a)"
    and "listable False w" and "length buf = 1024"
  shows "\<exists>st'. update_transports buf w st = Some (Inr st') \<and>
    trackers_ok st' (filter (\<lambda>a. \<not> fails st (pr a)) xs) \<and>
    plog st' = plog st @ map (\<lambda>a. if fails st (pr a) then PeerClosed (pr a) else PeerGot (pr a) (device_msg w)) xs"
proof -
  from list_transports_msg_eq [OF assms(3,4)] obtain buffer where b:
    "list_transports_msg buf 1024 w = Inr (int (length (device_msg w)), buffer)"
    "take (length (device_msg w)) buffer = device_msg w" "length (device_msg w) \<le> length buffer"
    "length (device_msg w) < 1024" by blast
  have "linked (dtheap st) (device_tracker_list st) xs" using assms(1) by (simp add: trackers_ok_def)
  from tell_ok [of st "[]" xs, OF _ this assms(2), of "int (length (device_msg w))" buffer] assms(1) b
  show ?thesis by (simp add: update_transports_def told_def MAX_PAYLOAD_def)
qed

definition demo_trackers :: dtworld where
  "demo_trackers = \<lparr>dtheap = [1 \<mapsto> \<lparr>dt_peer = Some 11, update_needed = False, dt_next = None\<rparr>,
       2 \<mapsto> \<lparr>dt_peer = Some 12, update_needed = False, dt_next = Some 1\<rparr>],
     device_tracker_list = Some 2, plog = [], fails = (\<lambda>q. q = 12)\<rparr>"

theorem update_tells_all_trackers_witness:
  "\<exists>st'. update_transports (replicate 1024 7) demo_devices demo_trackers = Some (Inr st') \<and>
     trackers_ok st' [1] \<and> plog st' = [PeerClosed 12, PeerGot 11 (device_msg demo_devices)]"
proof -
  have "trackers_ok demo_trackers [2, 1]"
    by (auto simp: trackers_ok_def demo_trackers_def split: if_splits)
  from update_tells_all_trackers [OF this, of "\<lambda>a. a + 10" demo_devices "replicate 1024 7"]
    demo_devices_listable show ?thesis
    by (simp add: demo_trackers_def conn_of_def)
qed

text \<open>
  A new tracker goes to the front of the chain. The first time its connection is ready it is sent the list, later calls send
  nothing: further lists come from \<open>update_transports\<close>. Input from the connection closes it.
\<close>

lemma create_ok:
  assumes "trackers_ok st xs" and "a \<notin> dom (dtheap st)"
  shows "trackers_ok (create_device_tracker a st) (a # xs)"
proof -
  have "a \<notin> set xs" using assms by (simp add: trackers_ok_def)
  then show ?thesis
    using assms linked_upd_other [of a xs "dtheap st"]
    by (auto simp: trackers_ok_def create_device_tracker_def put_tracker_def)
qed

theorem tracker_ready_sends_once:
  assumes ok: "trackers_ok st (xs @ a # ys)" and t: "dtheap st a = Some t" "dt_peer t = Some q" "update_needed t"
    and q: "\<not> fails st q" and w: "listable False w" "length buf = 1024" "length buf' = 1024"
  shows "\<exists>st'. device_tracker_ready buf w a st = Some (Inr st') \<and> plog st' = plog st @ [PeerGot q (device_msg w)] \<and>
    trackers_ok st' (xs @ a # ys) \<and> device_tracker_ready buf' w' a st' = Some (Inr st')"
proof -
  from list_transports_msg_eq [OF w(1,2)] obtain buffer where b:
    "list_transports_msg buf 1024 w = Inr (int (length (device_msg w)), buffer)"
    "take (length (device_msg w)) buffer = device_msg w" "length (device_msg w) \<le> length buffer"
    "length (device_msg w) < 1024" by blast
  let ?st = "log_peer (PeerGot q (device_msg w)) (put_tracker a (t\<lparr>update_needed := False\<rparr>) st)"
  have "linked (dtheap ?st) (device_tracker_list ?st) (xs @ a # ys) =
      linked (dtheap st) (device_tracker_list st) (xs @ a # ys)"
    using t(1) by (simp add: put_tracker_def log_peer_def) (rule linked_cong, auto)
  then have "trackers_ok ?st (xs @ a # ys)"
    using ok t(1) by (auto simp: trackers_ok_def put_tracker_def log_peer_def)
  moreover have "fails (put_tracker a (t\<lparr>update_needed := False\<rparr>) st) = fails st"
    "plog ?st = plog st @ [PeerGot q (device_msg w)]"
    by (simp_all add: put_tracker_def log_peer_def)
  ultimately show ?thesis
    using t q b
    by (simp add: device_tracker_ready_def Let_def device_tracker_send_def peer_enqueue_def MAX_PAYLOAD_def)
qed

theorem tracker_input_closes:
  assumes "trackers_ok st (xs @ a # ys)" and "conn_of st a = Some q"
  shows "\<exists>st'. device_tracker_enqueue a st = Some (Inr st') \<and> trackers_ok st' (xs @ ys) \<and>
    plog st' = plog st @ [PeerClosed q]"
  using close_ok [OF assms(1)] assms(2) by (auto simp: device_tracker_enqueue_def)

end
