(* ===== verification/Launch_Server.thy ===== *)
theory Launch_Server
  imports Sockets
begin

text \<open>
  \<open>launch_server\<close> of \<open>src/adb.c\<close> (host build): the client starts the server as a process of its own and
  waits until the server has written \<open>"OK\n"\<close> on a pipe. All three variants: \<open>fork\<close>,
  \<open>vfork\<close> and \<open>CreateProcess\<close>.

  A process is its table of descriptors; a call that makes a second process yields what becomes of both. What the
  kernel answers (is there memory, a pipe, a process, what the pipe delivers) is an argument.
\<close>

section \<open>Processes and descriptors\<close>

datatype open_file = PipeRead | PipeWrite | OtherFile nat

type_synonym fdtab = "int \<rightharpoonup> open_file"

definition close_in :: "int \<Rightarrow> fdtab \<Rightarrow> fdtab" where
  "close_in fd t = t(fd := None)"

definition dup2_in :: "int \<Rightarrow> int \<Rightarrow> fdtab \<Rightarrow> fdtab" where
  "dup2_in old new t = (case t old of None \<Rightarrow> t | Some f \<Rightarrow> t(new \<mapsto> f))"

definition STDERR_FILENO :: int where "STDERR_FILENO = 2"

text \<open>
  \<open>path_mem\<close>: \<open>malloc\<close> succeeds; \<open>pipe_fds\<close>: what \<open>pipe\<close> returns; \<open>fork_ok\<close>: \<open>fork\<close> or
  \<open>vfork\<close> succeeds; \<open>exec_ok\<close>: \<open>execl\<close> does not return; \<open>ok_reads\<close>: the answers to the reads from the pipe.
\<close>

record launch_env =
  path_mem :: bool
  pipe_fds :: "(int \<times> int) option"
  fork_ok :: bool
  exec_ok :: bool
  ok_reads :: "rd_answer list"

text \<open>
  What becomes of the child: it runs the server with these arguments and descriptors, it comes back from
  \<open>launch_server\<close> with a result, or it ends.
\<close>

datatype child = NoChild | Serves "byte list list" fdtab | Returns int fdtab | Exits int

text \<open>The result in the parent, its descriptors, whether \<open>setsid\<close> was
  called, and the child.\<close>

record launched =
  l_ret :: int
  l_fds :: fdtab
  l_session :: bool
  l_child :: child

definition server_args :: "int \<Rightarrow> byte list list" where
  "server_args port =
     [bytes_of_str ''adb'', bytes_of_str ''-P'',
      take 29 (if port < 0 then 45 # dec_digits (nat (- port)) else dec_digits (nat port)),
      bytes_of_str ''fork-server'', bytes_of_str ''server'']"

text \<open>The table of the child when it calls \<open>execl\<close>.\<close>

definition child_fds :: "int \<Rightarrow> int \<Rightarrow> fdtab \<Rightarrow> fdtab" where
  "child_fds fd0 fd1 t = close_in fd1 (dup2_in fd1 STDERR_FILENO (close_in fd0 t))"

definition OK_MSG :: "byte list" where "OK_MSG = [79, 75, 10]"

text \<open>
  The parent after the fork: \<open>temp\<close> is initialised with \<open>ABC\<close>, so a short read leaves letters that do not match. \<open>None\<close>: the read never
  returns.
\<close>

definition wait_ok :: "int \<Rightarrow> int \<Rightarrow> rd_answer list \<Rightarrow> fdtab \<Rightarrow> child \<Rightarrow> launched option" where
  "wait_ok fd0 fd1 k t c =
     (let t = close_in fd1 t in
      case adb_read 3 k of
        None \<Rightarrow> None
      | Some (r, _) \<Rightarrow>
          let t = close_in fd0 t in
          (case r of
             Failed _ \<Rightarrow> Some \<lparr>l_ret = -1, l_fds = t, l_session = False, l_child = c\<rparr>
           | Got bs \<Rightarrow>
               let temp = bs @ drop (length bs) [65, 66, 67] in
               if length bs \<noteq> 3 \<or> temp ! 0 \<noteq> 79 \<or> temp ! 1 \<noteq> 75 \<or> temp ! 2 \<noteq> 10
               then Some \<lparr>l_ret = -1, l_fds = t, l_session = False, l_child = c\<rparr>
               else Some \<lparr>l_ret = 0, l_fds = t, l_session = True, l_child = c\<rparr>))"

section \<open>The variants\<close>

text \<open>The child of \<open>fork\<close>: when \<open>execl\<close> returns, it prints a message and runs on to the end of the function.\<close>

definition launch_server_fork :: "int \<Rightarrow> launch_env \<Rightarrow> fdtab \<Rightarrow> launched option" where
  "launch_server_fork port env t =
     (if \<not> path_mem env then
        Some \<lparr>l_ret = -1, l_fds = t, l_session = False, l_child = NoChild\<rparr>
      else case pipe_fds env of
          None \<Rightarrow> Some \<lparr>l_ret = -1, l_fds = t, l_session = False, l_child = NoChild\<rparr>
        | Some (fd0, fd1) \<Rightarrow>
            let t = t(fd0 \<mapsto> PipeRead, fd1 \<mapsto> PipeWrite) in
            if \<not> fork_ok env then
              Some \<lparr>l_ret = -1, l_fds = t, l_session = False, l_child = NoChild\<rparr>
            else
              wait_ok fd0 fd1 (ok_reads env) t
                (if exec_ok env then Serves (server_args port) (child_fds fd0 fd1 t)
                 else Returns 0 (child_fds fd0 fd1 t)))"

text \<open>The child of \<open>vfork\<close> ends when \<open>execl\<close> returns.\<close>

definition launch_server_vfork :: "int \<Rightarrow> launch_env \<Rightarrow> fdtab \<Rightarrow> launched option" where
  "launch_server_vfork port env t =
     (if \<not> path_mem env then
        Some \<lparr>l_ret = -1, l_fds = t, l_session = False, l_child = NoChild\<rparr>
      else case pipe_fds env of
          None \<Rightarrow> Some \<lparr>l_ret = -1, l_fds = t, l_session = False, l_child = NoChild\<rparr>
        | Some (fd0, fd1) \<Rightarrow>
            let t = t(fd0 \<mapsto> PipeRead, fd1 \<mapsto> PipeWrite) in
            if \<not> fork_ok env then
              Some \<lparr>l_ret = -1, l_fds = t, l_session = False, l_child = NoChild\<rparr>
            else
              wait_ok fd0 fd1 (ok_reads env) t
                (if exec_ok env then Serves (server_args port) (child_fds fd0 fd1 t)
                 else Exits 127))"

text \<open>
  The Win32 variant. A handle is open and may be inherited or not; \<open>CreateProcess\<close> gives the new process the
  handles that are inheritable, and two handles on the process and its thread to the caller. The arguments of the new process
  do not have the port.
\<close>

type_synonym handles = "int \<rightharpoonup> bool"

record win_env =
  pipe_handles :: "(int \<times> int) option"
  std_out :: "int option"
  std_err :: "int option"
  process_handles :: "(int \<times> int) option"
  read_file :: "byte list option"

record win_launched =
  w_ret :: int
  w_handles :: handles
  w_inherited :: "int set option"

definition no_inherit :: "int option \<Rightarrow> handles \<Rightarrow> handles" where
  "no_inherit h t = (case h of None \<Rightarrow> t | Some h \<Rightarrow> if t h = None then t else t(h \<mapsto> False))"

definition close_handle :: "int \<Rightarrow> handles \<Rightarrow> handles" where
  "close_handle h t = t(h := None)"

definition launch_server_win :: "win_env \<Rightarrow> handles \<Rightarrow> win_launched" where
  "launch_server_win env t =
     (case pipe_handles env of
        None \<Rightarrow> \<lparr>w_ret = -1, w_handles = t, w_inherited = None\<rparr>
      | Some (pr, pw) \<Rightarrow>
          let t = no_inherit (Some pr) (t(pr \<mapsto> True, pw \<mapsto> True));
              t = no_inherit (std_out env) t;
              t = no_inherit (std_err env) t;
              inherited = {h. t h = Some True} in
          case process_handles env of
            None \<Rightarrow> \<lparr>w_ret = -1, w_handles = close_handle pr (close_handle pw t), w_inherited = None\<rparr>
          | Some (hp, ht) \<Rightarrow>
              let t = close_handle pw (t(hp \<mapsto> False, ht \<mapsto> False));
                  t = close_handle ht (close_handle hp t);
                  t = close_handle pr t in
              (case read_file env of
                 None \<Rightarrow> \<lparr>w_ret = -1, w_handles = t, w_inherited = Some inherited\<rparr>
               | Some bs \<Rightarrow>
                   let temp = take 3 bs in
                   if length temp \<noteq> 3 \<or> temp ! 0 \<noteq> 79 \<or> temp ! 1 \<noteq> 75 \<or> temp ! 2 \<noteq> 10
                   then \<lparr>w_ret = -1, w_handles = t, w_inherited = Some inherited\<rparr>
                   else \<lparr>w_ret = 0, w_handles = t, w_inherited = Some inherited\<rparr>))"

section \<open>Properties\<close>

lemma got_ok_iff:
  "length bs = 3 \<and> (bs @ drop (length bs) [65, 66, 67]) ! 0 = 79 \<and> (bs @ drop (length bs) [65, 66, 67]) ! 1 = 75 \<and>
     (bs @ drop (length bs) [65, 66, 67]) ! 2 = 10 \<longleftrightarrow> bs = OK_MSG"
  by (cases bs; cases "tl bs"; cases "tl (tl bs)") (auto simp: OK_MSG_def)

lemma wait_ok_eq:
  assumes "adb_read 3 k = Some (r, k')"
  shows "wait_ok fd0 fd1 k t c = Some (if r = Got OK_MSG
    then \<lparr>l_ret = 0, l_fds = close_in fd0 (close_in fd1 t), l_session = True, l_child = c\<rparr>
    else \<lparr>l_ret = -1, l_fds = close_in fd0 (close_in fd1 t), l_session = False, l_child = c\<rparr>)"
proof (cases r)
  case (Got bs)
  with assms got_ok_iff [of bs] show ?thesis
    by (auto simp: wait_ok_def Let_def)
qed (use assms in \<open>simp add: wait_ok_def Let_def\<close>)

lemma child_fds_eq:
  "t fd0 = None \<Longrightarrow> t fd1 = None \<Longrightarrow> fd0 \<noteq> fd1 \<Longrightarrow> t 2 \<noteq> None \<Longrightarrow>
     child_fds fd0 fd1 (t(fd0 \<mapsto> PipeRead, fd1 \<mapsto> PipeWrite)) = t(2 \<mapsto> PipeWrite)"
  by (auto simp: child_fds_def close_in_def dup2_in_def STDERR_FILENO_def fun_eq_iff)

lemma parent_fds_eq:
  "t fd0 = None \<Longrightarrow> t fd1 = None \<Longrightarrow> close_in fd0 (close_in fd1 (t(fd0 \<mapsto> PipeRead, fd1 \<mapsto> PipeWrite))) = t"
  by (auto simp: close_in_def fun_eq_iff)

text \<open>Whether there is a child at all, and what a failed fork leaves open.\<close>

definition has_child :: "launch_env \<Rightarrow> bool" where
  "has_child env \<longleftrightarrow> path_mem env \<and> pipe_fds env \<noteq> None \<and> fork_ok env"

definition left_open :: "launch_env \<Rightarrow> fdtab \<Rightarrow> fdtab" where
  "left_open env t =
     (case pipe_fds env of
        Some (fd0, fd1) \<Rightarrow> if path_mem env \<and> \<not> fork_ok env then t(fd0 \<mapsto> PipeRead, fd1 \<mapsto> PipeWrite) else t
      | None \<Rightarrow> t)"

lemma launch_cases:
  assumes "\<forall>fd0 fd1. pipe_fds env = Some (fd0, fd1) \<longrightarrow> t fd0 = None \<and> t fd1 = None \<and> fd0 \<noteq> fd1"
    and "t STDERR_FILENO \<noteq> None" and "adb_read 3 (ok_reads env) = Some (r, k)"
  defines "ready \<equiv> has_child env \<and> r = Got OK_MSG"
  shows "launch_server_fork port env t = Some \<lparr>l_ret = if ready then 0 else -1, l_fds = left_open env t, l_session = ready,
      l_child = if \<not> has_child env then NoChild
        else if exec_ok env then Serves (server_args port) (t(STDERR_FILENO \<mapsto> PipeWrite))
        else Returns 0 (t(STDERR_FILENO \<mapsto> PipeWrite))\<rparr>"
    and "launch_server_vfork port env t = Some \<lparr>l_ret = if ready then 0 else -1, l_fds = left_open env t, l_session = ready,
      l_child = if \<not> has_child env then NoChild
        else if exec_ok env then Serves (server_args port) (t(STDERR_FILENO \<mapsto> PipeWrite)) else Exits 127\<rparr>"
proof -
  have c: "child_fds fd0 fd1 (t(fd0 \<mapsto> PipeRead, fd1 \<mapsto> PipeWrite)) = t(2 \<mapsto> PipeWrite)"
    "close_in fd0 (close_in fd1 (t(fd0 \<mapsto> PipeRead, fd1 \<mapsto> PipeWrite))) = t"
    if "pipe_fds env = Some (fd0, fd1)" for fd0 fd1
    using child_fds_eq [of t fd0 fd1] parent_fds_eq [of t fd0 fd1] assms(1,2) that by (auto simp: STDERR_FILENO_def)
  note defs = launch_server_fork_def launch_server_vfork_def Let_def wait_ok_eq [OF assms(3)] STDERR_FILENO_def
    has_child_def left_open_def ready_def
  show "launch_server_fork port env t = Some \<lparr>l_ret = if ready then 0 else -1, l_fds = left_open env t, l_session = ready,
      l_child = if \<not> has_child env then NoChild
        else if exec_ok env then Serves (server_args port) (t(STDERR_FILENO \<mapsto> PipeWrite))
        else Returns 0 (t(STDERR_FILENO \<mapsto> PipeWrite))\<rparr>"
    by (cases "pipe_fds env") (auto simp: defs c)
  show "launch_server_vfork port env t = Some \<lparr>l_ret = if ready then 0 else -1, l_fds = left_open env t, l_session = ready,
      l_child = if \<not> has_child env then NoChild
        else if exec_ok env then Serves (server_args port) (t(STDERR_FILENO \<mapsto> PipeWrite)) else Exits 127\<rparr>"
    by (cases "pipe_fds env") (auto simp: defs c)
qed

text \<open>
  C22: starting the server, on every branch of both Unix variants, for a client that has a standard error and a first read that
  returns. The client gets 0 exactly if there is memory, a pipe and a process and the first read that is not
  interrupted delivers the three bytes \<open>OK\n\<close>, and then it is in a session of its own; otherwise it gets -1. It keeps the descriptors it had before,
  unless the fork fails: then both ends of the pipe stay open. The server runs with the port in its arguments, the pipe as its
  standard error, and no other end of the pipe, so that the client sees the end of the pipe when the server
  dies. When the program cannot be run, the child of \<open>fork\<close> comes back from \<open>launch_server\<close> with 0, as if the server
  had been started, while the child of \<open>vfork\<close> ends with 127.
\<close>

theorem launch_server_outcome:
  assumes "\<forall>fd0 fd1. pipe_fds env = Some (fd0, fd1) \<longrightarrow> t fd0 = None \<and> t fd1 = None \<and> fd0 \<noteq> fd1"
    and "t STDERR_FILENO \<noteq> None" and "adb_read 3 (ok_reads env) = Some (r, k)"
  shows "\<exists>f v. launch_server_fork port env t = Some f \<and> launch_server_vfork port env t = Some v \<and>
    (\<forall>res\<in>{f, v}.
      (l_ret res = 0 \<longleftrightarrow> path_mem env \<and> pipe_fds env \<noteq> None \<and> fork_ok env \<and> r = Got OK_MSG) \<and>
      l_ret res \<in> {0, -1} \<and> (l_session res \<longleftrightarrow> l_ret res = 0) \<and>
      l_fds res = (case pipe_fds env of
          Some (fd0, fd1) \<Rightarrow> if path_mem env \<and> \<not> fork_ok env then t(fd0 \<mapsto> PipeRead, fd1 \<mapsto> PipeWrite) else t
        | None \<Rightarrow> t)) \<and>
    (if \<not> (path_mem env \<and> pipe_fds env \<noteq> None \<and> fork_ok env) then l_child f = NoChild \<and> l_child v = NoChild
     else if exec_ok env then l_child f = Serves (server_args port) (t(STDERR_FILENO \<mapsto> PipeWrite)) \<and> l_child v = l_child f
     else l_child f = Returns 0 (t(STDERR_FILENO \<mapsto> PipeWrite)) \<and> l_child v = Exits 127)"
  unfolding launch_cases [OF assms] by (simp add: has_child_def left_open_def)

definition demo_fds :: fdtab where
  "demo_fds = [0 \<mapsto> OtherFile 0, 1 \<mapsto> OtherFile 1, 2 \<mapsto> OtherFile 1]"

definition demo_launch :: launch_env where
  "demo_launch = \<lparr>path_mem = True, pipe_fds = Some (3, 4), fork_ok = True, exec_ok = True,
     ok_reads = [RdErr EINTR, Chunk [79, 75, 10]]\<rparr>"

theorem launch_server_outcome_witness:
  "(\<exists>f. launch_server_fork 5037 demo_launch demo_fds = Some f \<and> l_ret f = 0 \<and> l_fds f = demo_fds) \<and>
   (\<exists>v. launch_server_vfork 5037 (demo_launch\<lparr>fork_ok := False\<rparr>) demo_fds = Some v \<and> l_ret v = -1 \<and>
      l_fds v = demo_fds(3 \<mapsto> PipeRead, 4 \<mapsto> PipeWrite))"
  using launch_server_outcome [of demo_launch demo_fds "Got OK_MSG" "[]" 5037]
    launch_server_outcome [of "demo_launch\<lparr>fork_ok := False\<rparr>" demo_fds "Got OK_MSG" "[]" 5037]
  by (auto simp: demo_launch_def demo_fds_def STDERR_FILENO_def OK_MSG_def)

text \<open>When no process can be made, both ends of the pipe stay open in the client.\<close>

theorem failed_fork_leaks_pipe:
  assumes "path_mem env" and "pipe_fds env = Some (fd0, fd1)" and "\<not> fork_ok env"
  shows "\<exists>res. launch_server_fork port env t = Some res \<and> launch_server_vfork port env t = Some res \<and>
    l_ret res = -1 \<and> l_fds res = t(fd0 \<mapsto> PipeRead, fd1 \<mapsto> PipeWrite)"
  using assms by (simp add: launch_server_fork_def launch_server_vfork_def Let_def)

text \<open>
  When the program cannot be run, the child of \<open>fork\<close> returns from \<open>launch_server\<close> with 0, as if the server had
  been started, and goes on as a second client; the child of \<open>vfork\<close> ends.
\<close>

theorem failed_exec_returns_success:
  assumes "path_mem env" and "pipe_fds env = Some (fd0, fd1)" and "fork_ok env" and "\<not> exec_ok env"
    and "launch_server_fork port env t = Some res" and "launch_server_vfork port env t = Some res'"
  shows "(\<exists>t'. l_child res = Returns 0 t') \<and> l_child res' = Exits 127"
  using assms
  by (auto simp: launch_server_fork_def launch_server_vfork_def wait_ok_def Let_def
      split: option.splits prod.splits sysret.splits if_splits)

text \<open>
  When the client itself was started without a standard error, the pipe can get its number; the child then closes it
  right after the \<open>dup2\<close> that did nothing, and the server has no way to report that it is ready.
\<close>

theorem launch_without_stderr:
  assumes "t fd0 = None" and "fd0 \<noteq> 2"
  shows "child_fds fd0 2 (t(fd0 \<mapsto> PipeRead, 2 \<mapsto> PipeWrite)) = t(2 := None)"
  using assms by (auto simp: child_fds_def close_in_def dup2_in_def STDERR_FILENO_def fun_eq_iff)

text \<open>
  The Win32 variant gives the server the writing end of the pipe and never the reading end or the client's own output handles;
  whatever happens, the client keeps only the handles it had.
\<close>

theorem launch_win_handles:
  assumes "pipe_handles env = Some (pr, pw)" and "process_handles env = Some (hp, ht)"
    and "t pr = None" "t pw = None" "t hp = None" "t ht = None" "distinct [pr, pw, hp, ht]"
    and "std_out env = Some so" "t so \<noteq> None" "std_err env = Some se" "t se \<noteq> None"
  shows "\<exists>inh. w_inherited (launch_server_win env t) = Some inh \<and> pw \<in> inh \<and> pr \<notin> inh \<and> so \<notin> inh \<and> se \<notin> inh \<and>
    dom (w_handles (launch_server_win env t)) = dom t \<and>
    (w_ret (launch_server_win env t) = 0 \<longleftrightarrow> (\<exists>rest. read_file env = Some (OK_MSG @ rest)))"
proof -
  have "length (take 3 bs) = 3 \<and> take 3 bs ! 0 = 79 \<and> take 3 bs ! 1 = 75 \<and> take 3 bs ! 2 = 10 \<longleftrightarrow>
      (\<exists>rest. bs = OK_MSG @ rest)" for bs :: "byte list"
    by (cases bs; cases "tl bs"; cases "tl (tl bs)") (auto simp: OK_MSG_def)
  then have ok: "\<not> (length (take 3 bs) \<noteq> 3 \<or> take 3 bs ! 0 \<noteq> 79 \<or> take 3 bs ! 1 \<noteq> 75 \<or> take 3 bs ! 2 \<noteq> 10) \<longleftrightarrow>
      (\<exists>rest. bs = OK_MSG @ rest)" for bs :: "byte list"
    by blast
  have ne: "so \<noteq> pr" "so \<noteq> pw" "se \<noteq> pr" "se \<noteq> pw" "so \<noteq> hp" "so \<noteq> ht" "se \<noteq> hp" "se \<noteq> ht" using assms by auto
  define t3 where "t3 = no_inherit (std_err env) (no_inherit (std_out env) (no_inherit (Some pr) (t(pr \<mapsto> True, pw \<mapsto> True))))"
  have t3: "t3 = (\<lambda>h. if h = pr \<or> h = so \<or> h = se then Some False else if h = pw then Some True else t h)"
    using assms(3,4,7-11) ne by (auto simp: t3_def no_inherit_def fun_eq_iff)
  let ?h = "close_handle pr (close_handle ht (close_handle hp (close_handle pw (t3(hp \<mapsto> False, ht \<mapsto> False)))))"
  have "\<exists>n. launch_server_win env t = \<lparr>w_ret = n, w_handles = ?h, w_inherited = Some {h. t3 h = Some True}\<rparr> \<and>
      (n = 0 \<longleftrightarrow> (\<exists>rest. read_file env = Some (OK_MSG @ rest)))"
    using assms(1,2) ok unfolding launch_server_win_def
    by (cases "read_file env") (auto simp: Let_def t3_def [symmetric] simp del: length_take)
  moreover have "dom ?h = dom t"
    using assms(3-6,9,11) ne by (auto simp: t3 close_handle_def split: if_splits)
  ultimately show ?thesis
    using assms(7) ne by (auto simp: t3)
qed

end
