(* ===== verification/Zip_Dump.thy ===== *)
theory Zip_Dump
  imports Zip_Roundtrip Sockets
begin

text \<open>
  The rest of \<open>src/zipfile.c\<close>: printing the directory of an archive and giving its memory back. The list of
  entries of an opened archive is as long as its count says, so \<open>dump_zipfile\<close>, which counts, never runs past the end of the list.
\<close>

section \<open>Operations\<close>

text \<open>\<open>fwrite(entry->fileName, entry->fileNameLength, 1, to)\<close> writes the bytes that \<open>get_zipentry_name\<close> copies.\<close>

fun dump_from :: "nat \<Rightarrow> zipfile \<Rightarrow> zipentry list \<Rightarrow> byte list res" where
  "dump_from 0 z es = Inr []"
| "dump_from (Suc n) z es =
     (case es of
        [] \<Rightarrow> Inl (Fault NullDeref)
      | e # es \<Rightarrow>
          seq (get_zipentry_name z e) (\<lambda>name.
          seq (dump_from n z es) (\<lambda>rest.
          Inr (bytes_of_str ''  file '' @ [34] @ name @ [34, 10] @ rest))))"

definition dump_zipfile :: "zipfile \<Rightarrow> byte list res" where
  "dump_zipfile z =
     seq (dump_from (unat (entryCount z)) z (entries z)) (\<lambda>lines.
     Inr (bytes_of_str ''entryCount='' @ dec_digits (unat (entryCount z)) @ [10] @ lines))"

text \<open>
  Memory: \<open>blocks\<close> are the entries and archives that are allocated, by address; the entries of an archive are linked from its
  head. Freeing what is not allocated is a fault. \<open>None\<close>: the links run in a circle.
\<close>

record zmem =
  zlinks :: "nat \<rightharpoonup> nat option"
  zheads :: "nat \<rightharpoonup> nat option"

partial_function (option) release_entries :: "nat option \<Rightarrow> zmem \<Rightarrow> zmem res option" where
  "release_entries entry m =
     (case entry of
        None \<Rightarrow> Some (Inr m)
      | Some e \<Rightarrow>
          (case zlinks m e of
             None \<Rightarrow> Some (Inl (Fault UseAfterFree))
           | Some nx \<Rightarrow> release_entries nx (m\<lparr>zlinks := (zlinks m)(e := None)\<rparr>)))"

definition release_zipfile :: "nat \<Rightarrow> zmem \<Rightarrow> zmem res option" where
  "release_zipfile f m =
     (case zheads m f of
        None \<Rightarrow> Some (Inl (Fault UseAfterFree))
      | Some p \<Rightarrow>
          (case release_entries p m of
             Some (Inr m) \<Rightarrow> Some (Inr (m\<lparr>zheads := (zheads m)(f := None)\<rparr>))
           | r \<Rightarrow> r))"

section \<open>Printing\<close>

lemma read_entries_count:
  "read_entries n p len z = Inr (Some z') \<Longrightarrow>
     length (entries z') = n + length (entries z) \<and> entryCount z' = entryCount z"
  by (induction n p len z rule: read_entries.induct)
    (fastforce simp: seq_eq_Inr split: option.splits)+

lemma values_entries: "read_central_dir_values z p len = Inr (Some z') \<Longrightarrow> entries z' = entries z"
  unfolding read_central_dir_values_def Let_def
  by (auto simp only: seq_eq_Inr sum.simps option.simps split: if_split_asm) simp_all

lemma read_central_dir_count:
  assumes "read_central_dir z = Inr (Some z')" and "entries z = []"
  shows "length (entries z') = unat (entryCount z')"
proof -
  from assms(1) obtain eocd z1 p len where z1: "read_central_dir_values z (of_nat eocd) (int (length (zbuf z)) - int eocd) = Inr (Some z1)"
    "entryCount z1 = totalEntryCount z1" "read_entries (unat (totalEntryCount z1)) p len z1 = Inr (Some z')"
    unfolding read_central_dir_def Let_def seq_eq_Inr
    by (auto simp: seq_eq_Inr simp del: read_entries.simps split: option.split_asm if_split_asm)
  from read_entries_count [OF z1(3)] values_entries [OF z1(1)] z1(2) assms(2) show ?thesis by simp
qed

lemma init_zipfile_count:
  "init_zipfile buf = Inr (Some z) \<Longrightarrow> length (entries z) = unat (entryCount z)"
  unfolding init_zipfile_def by (erule read_central_dir_count) simp

lemma dump_from_text:
  assumes "list_all2 (\<lambda>e name. get_zipentry_name z e = Inr name) es names"
  shows "dump_from (length es) z es =
    Inr (concat (map (\<lambda>name. bytes_of_str ''  file '' @ [34] @ name @ [34, 10]) names))"
  using assms by (induction es names rule: list_all2_induct) simp_all

text \<open>
  The directory of an archive written as the format prescribes is printed completely: the number of files and
  their names, last first.
\<close>

theorem dump_lists_names:
  assumes "\<forall>f\<in>set fs. zfile_ok f" and "length fs < 0x4b00" and "comment_ok (zcomment wr)"
    and "length (zip_bytes wr fs) < 2 ^ 24"
  shows "\<exists>z. init_zipfile (zip_bytes wr fs) = Inr (Some z) \<and>
    dump_zipfile z = Inr (bytes_of_str ''entryCount='' @ dec_digits (length fs) @ [10] @
      concat (map (\<lambda>f. bytes_of_str ''  file '' @ [34] @ zname f @ [34, 10]) (rev fs)))"
proof -
  obtain z es where z: "init_zipfile (zip_bytes wr fs) = Inr (Some z)" "entries z = rev es"
    "list_all2 (entry_of wr (zbuf z)) es fs" by (rule zip_reads [OF assms])
  have n: "length es = unat (entryCount z)" "length es = length fs"
    using init_zipfile_count [OF z(1)] z(2) list_all2_lengthD [OF z(3)] by simp_all
  have "list_all2 (\<lambda>e name. get_zipentry_name z e = Inr name) (rev es) (map zname (rev fs))"
    using z(3) by (auto simp: list_all2_map2 list_all2_rev entry_name elim!: list_all2_mono)
  from dump_from_text [OF this] n z show ?thesis
    by (auto simp: dump_zipfile_def comp_def)
qed

theorem dump_lists_names_witness:
  "\<exists>z. init_zipfile (zip_bytes demo_writer [demo_zfile [97] [1, 2, 3] False, demo_zfile [98, 99] [] False]) = Inr (Some z) \<and>
    dump_zipfile z = Inr (bytes_of_str ''entryCount=2'' @ [10] @ bytes_of_str ''  file '' @ [34, 98, 99, 34, 10] @
      bytes_of_str ''  file '' @ [34, 97, 34, 10])"
proof -
  let ?fs = "[demo_zfile [97] [1, 2, 3] False, demo_zfile [98, 99] [] False]"
  have "length (zip_bytes demo_writer ?fs) < 2 ^ 24"
    by (simp add: zip_bytes_def locals_def local_file_def dir_entry_def packed_def demo_zfile_def demo_writer_def)
  from dump_lists_names [OF _ _ demo_comment this] show ?thesis
    by (simp add: zfile_ok_def) (simp add: demo_zfile_def dec_digits.simps bytes_of_str_def)
qed

text \<open>Whatever the contents, printing an opened archive does not run past the list of entries.\<close>

theorem dump_stays_in_list:
  assumes "init_zipfile buf = Inr (Some z)" and "\<forall>e \<in> set (entries z). \<exists>name. get_zipentry_name z e = Inr name"
  shows "\<exists>out. dump_zipfile z = Inr out"
proof -
  have "\<exists>out. dump_from (length es) z es = Inr out" if "set es \<subseteq> set (entries z)" for es
    using that assms(2) by (induction es) fastforce+
  from this [of "entries z"] init_zipfile_count [OF assms(1)] show ?thesis
    by (auto simp: dump_zipfile_def)
qed

section \<open>Giving memory back\<close>

fun zchain :: "zmem \<Rightarrow> nat option \<Rightarrow> nat list \<Rightarrow> bool" where
  "zchain m p [] \<longleftrightarrow> p = None"
| "zchain m p (e # es) \<longleftrightarrow> p = Some e \<and> (\<exists>nx. zlinks m e = Some nx \<and> zchain m nx es)"

lemma zchain_frame: "e \<notin> set es \<Longrightarrow> zchain (m\<lparr>zlinks := (zlinks m)(e := v)\<rparr>) p es = zchain m p es"
  by (induction es arbitrary: p) auto

lemma release_entries_all:
  "zchain m p es \<Longrightarrow> distinct es \<Longrightarrow>
     release_entries p m = Some (Inr (m\<lparr>zlinks := (\<lambda>e. if e \<in> set es then None else zlinks m e)\<rparr>))"
proof (induction es arbitrary: p m)
  case Nil
  then show ?case by (subst release_entries.simps) simp
next
  case (Cons e es)
  then obtain nx where nx: "p = Some e" "zlinks m e = Some nx" "zchain m nx es" by auto
  let ?m = "m\<lparr>zlinks := (zlinks m)(e := None)\<rparr>"
  have "release_entries p m = release_entries nx ?m"
    using nx by (subst release_entries.simps) simp
  also have "\<dots> = Some (Inr (?m\<lparr>zlinks := (\<lambda>x. if x \<in> set es then None else zlinks ?m x)\<rparr>))"
    by (rule Cons.IH) (use nx Cons.prems in \<open>simp_all add: zchain_frame\<close>)
  finally show ?case by (auto simp: fun_eq_iff)
qed

text \<open>
  Releasing an archive ends and frees exactly its entries and the archive itself, each once, and reads no link of an
  entry that is already freed.
\<close>

theorem release_frees_all:
  assumes "zheads m f = Some p" and "zchain m p es" and "distinct es"
  shows "release_zipfile f m = Some (Inr (m\<lparr>zlinks := (\<lambda>e. if e \<in> set es then None else zlinks m e),
    zheads := (zheads m)(f := None)\<rparr>))"
  using assms release_entries_all [OF assms(2,3)] by (simp add: release_zipfile_def)

end
