(* ===== verification/Host_Smart.thy ===== *)
theory Host_Smart
  imports Host_Server Host_Services Device_Trackers Forwarding
begin

text \<open>
  The smart socket of the host build (\<open>smart_socket_enqueue\<close> in \<open>src/sockets.c\<close> under \<open>ADB_HOST\<close>): a client's request is
  answered at once (\<open>handle_host_request\<close>), chooses the device for the requests that follow, or is handed over to a service of
  the host or to the device that was chosen.

  A tracker of devices lives in the state of \<open>Device_Trackers\<close>, which keeps the link between a tracker and its client
  (\<open>dt_peer\<close>) and stands for what the client does with the list; in the heap of the sockets the peer of such a client is
  empty.
\<close>

section \<open>State\<close>

record hsw =
  hh :: hworld
  dts :: dtworld
  waits :: "(state_info \<times> int \<times> int) list"

text \<open>The answers of the kernel: those of the requests, of starting a thread, and the memory for a tracker.\<close>

record hs_env =
  henv :: host_env
  thr_env :: svc_env
  tracker_mem :: nat
  msg_mem :: "byte list"

definition hs_ws :: "hsw \<Rightarrow> sworld" where "hs_ws w = ws (ad (hh w))"

definition set_hs_ws :: "sworld \<Rightarrow> hsw \<Rightarrow> hsw" where
  "set_hs_ws st w = w\<lparr>hh := set_ad (set_ws st (ad (hh w))) (hh w)\<rparr>"

definition on_hs :: "(sworld \<Rightarrow> sworld res) \<Rightarrow> hsw \<Rightarrow> hsw res" where
  "on_hs f w = seq (f (hs_ws w)) (\<lambda>st. Inr (set_hs_ws st w))"

definition ret_hs :: "(sworld \<Rightarrow> (int \<times> sworld) res) \<Rightarrow> hsw \<Rightarrow> (int \<times> hsw) res option" where
  "ret_hs f w = Some (seq (f (hs_ws w)) (\<lambda>(r, st). Inr (r, set_hs_ws st w)))"

section \<open>Services of the host\<close>

text \<open>\<open>create_service_thread(wait_for_state, sinfo, fds)\<close>\<close>

definition create_wait_thread :: "svc_env \<Rightarrow> state_info \<Rightarrow> hsw \<Rightarrow> (int \<times> int) option \<times> hsw" where
  "create_wait_thread env i w =
     (case (pipe_answer 0 env, pipe_answer 1 env) of
        (Some (svc_to_fw0, svc_to_fw1), Some (fw_to_svc0, fw_to_svc1)) \<Rightarrow>
          if thread_ok env then
            (Some (svc_to_fw0, fw_to_svc1), w\<lparr>waits := waits w @ [(i, fw_to_svc0, svc_to_fw1)]\<rparr>)
          else (None, set_hs_ws (fold (\<lambda>fd. emit (CloseFd fd)) [svc_to_fw0, svc_to_fw1, fw_to_svc0, fw_to_svc1] (hs_ws w)) w)
      | _ \<Rightarrow> (None, w))"

datatype host_sock = PlainSock nat | TrackerSock nat

definition create_host_service_socket ::
  "hs_env \<Rightarrow> byte list \<Rightarrow> byte list option \<Rightarrow> hsw \<Rightarrow> (host_sock option \<times> hsw) res" where
  "create_host_service_socket env name ser w =
     (case host_service_to_socket name ser of
        None \<Rightarrow> Inr (None, w)
      | Some DeviceTracker \<Rightarrow>
          Inr (Some (TrackerSock (tracker_mem env)), w\<lparr>dts := create_device_tracker (tracker_mem env) (dts w)\<rparr>)
      | Some (WaitFor i) \<Rightarrow>
          (case create_wait_thread (thr_env env) i w of
             (None, w) \<Rightarrow> Inr (None, w)
           | (Some (fd0, fd1), w) \<Rightarrow>
               seq (create_local_socket fd0 (emit (CloseFd fd1) (hs_ws w))) (\<lambda>(b, st).
               Inr (Some (PlainSock b), set_hs_ws st w))))"

text \<open>
  Binding the client \<open>q\<close> to the new socket: the acknowledgement, the pointers on both sides, the end of the smart
  socket \<open>a\<close>, and \<open>s2->ready(s2)\<close>. The result is \<open>None\<close> only if the chain of trackers is a circle.
\<close>

definition bind_client :: "hs_env \<Rightarrow> nat \<Rightarrow> nat \<Rightarrow> host_sock \<Rightarrow> hsw \<Rightarrow> (int \<times> hsw) res option" where
  "bind_client env a q s2 w =
     (case seq (on_hs (\<lambda>st.
         seq (sock q st) (\<lambda>qs.
         let st = emit (WriteFd (sfd qs) (bytes_of_str ''OKAY'')) st in
         seq (upd q (\<lambda>s. s\<lparr>ready_op := LocalReady, close_op := LocalClose,
                peer := (case s2 of PlainSock b \<Rightarrow> Some b | TrackerSock _ \<Rightarrow> None)\<rparr>) st) (\<lambda>st.
         seq (case s2 of PlainSock b \<Rightarrow> upd b (\<lambda>s. s\<lparr>peer := Some q\<rparr>) st | TrackerSock _ \<Rightarrow> Inr st) (\<lambda>st.
         seq (upd a (\<lambda>s. s\<lparr>peer := None\<rparr>) st) (sock_close a))))) w) (\<lambda>w.
       case s2 of
         PlainSock b \<Rightarrow> on_hs (sock_ready b) w
       | TrackerSock x \<Rightarrow>
           seq (tracker_at x (dts w)) (\<lambda>t. Inr (w\<lparr>dts := put_tracker x (t\<lparr>dt_peer := Some q\<rparr>) (dts w)\<rparr>))) of
        Inl e \<Rightarrow> Some (Inl e)
      | Inr w \<Rightarrow>
          (case s2 of
             PlainSock b \<Rightarrow> Some (Inr (0, w))
           | TrackerSock x \<Rightarrow>
               (case device_tracker_ready (msg_mem env) (ad (hh w)) x (dts w) of
                  None \<Rightarrow> None
                | Some (Inl e) \<Rightarrow> Some (Inl e)
                | Some (Inr d) \<Rightarrow> Some (Inr (0, w\<lparr>dts := d\<rparr>)))))"

section \<open>Requests\<close>

text \<open>
  A request for the host. After \<open>transport...\<close> the packet is emptied, so that the next request is collected in it; the smart
  socket keeps the transport.
\<close>

definition smart_host_request ::
  "hs_env \<Rightarrow> nat \<Rightarrow> apacket \<Rightarrow> byte list option \<times> transport_type \<times> byte list \<Rightarrow> hsw \<Rightarrow> (int \<times> hsw) res option" where
  "smart_host_request env a p req w =
     (case req of (ser, ty, service) \<Rightarrow>
      case seq (sock a (hs_ws w)) (\<lambda>s.
        seq (ptr (peer s)) (\<lambda>q.
        seq (sock q (hs_ws w)) (\<lambda>qs.
        seq (handle_host_request_host (henv env) service ty ser (sfd qs) (hh w)) (\<lambda>(r, t, h).
        seq (case t of None \<Rightarrow> Inr (w\<lparr>hh := h\<rparr>) | Some _ \<Rightarrow> on_hs (upd a (\<lambda>s. s\<lparr>transport := t\<rparr>)) (w\<lparr>hh := h\<rparr>)) (\<lambda>w.
        Inr (q, r, w)))))) of
        Inl e \<Rightarrow> Some (Inl e)
      | Inr (q, r, w) \<Rightarrow>
          if r = 0 then ret_hs (smart_fail a) w
          else if starts ''transport'' service then
            Some (seq (on_hs (upd a (\<lambda>s. s\<lparr>pkts := [p\<lparr>pkt_len := 0\<rparr>]\<rparr>)) w) (\<lambda>w. Inr (0, w)))
          else
            (case create_host_service_socket env service ser w of
               Inl e \<Rightarrow> Some (Inl e)
             | Inr (None, w) \<Rightarrow> ret_hs (smart_refuse a ''unknown host service'') w
             | Inr (Some s2, w) \<Rightarrow> bind_client env a q s2 w))"

text \<open>Any other request goes to the device that was chosen before.\<close>

definition smart_forward :: "nat \<Rightarrow> byte list \<Rightarrow> sworld \<Rightarrow> (int \<times> sworld) res" where
  "smart_forward a d st =
     seq (sock a st) (\<lambda>s.
     case transport s of
       None \<Rightarrow> smart_refuse a ''device offline (x)'' st
     | Some t \<Rightarrow> if offline st t then smart_refuse a ''device offline (x)'' st else smart_connect a t d st)"

definition smart_request_host :: "hs_env \<Rightarrow> nat \<Rightarrow> apacket \<Rightarrow> hsw \<Rightarrow> (int \<times> hsw) res option" where
  "smart_request_host env a p w =
     (if pkt_len p < 4 then Some (Inr (0, w))
      else
        case unhex (data p) 4 of
          Inl e \<Rightarrow> Some (Inl e)
        | Inr len \<Rightarrow>
            if len < 1 \<or> len > 1024 then ret_hs (smart_fail a) w
            else if len + 4 > pkt_len p then Some (Inr (0, w))
            else if unat (len + 4) \<ge> length (data p) then Some (Inl (Fault OutOfBounds))
            else
              let d = (data p)[unat (len + 4) := 0]; p = p\<lparr>data := d\<rparr> in
              (case on_hs (upd a (\<lambda>s. s\<lparr>pkts := [p]\<rparr>)) w of
                 Inl e \<Rightarrow> Some (Inl e)
               | Inr w \<Rightarrow>
                   (case c_string (drop 4 d) of
                      None \<Rightarrow> Some (Inl (Fault OutOfBounds))
                    | Some service \<Rightarrow>
                        (case host_request service of
                           Some req \<Rightarrow> smart_host_request env a p req w
                         | None \<Rightarrow> ret_hs (smart_forward a d) w))))"

definition smart_socket_enqueue_host :: "hs_env \<Rightarrow> nat \<Rightarrow> apacket \<Rightarrow> hsw \<Rightarrow> (int \<times> hsw) res option" where
  "smart_socket_enqueue_host env a p w =
     (case sock a (hs_ws w) of
        Inl e \<Rightarrow> Some (Inl e)
      | Inr s \<Rightarrow>
          (case pkts s of
             [] \<Rightarrow>
               (case on_hs (upd a (\<lambda>s. s\<lparr>pkts := [p]\<rparr>)) w of
                  Inl e \<Rightarrow> Some (Inl e)
                | Inr w \<Rightarrow> smart_request_host env a p w)
           | p0 # _ \<Rightarrow>
               if pkt_len p0 + pkt_len p > of_nat MAX_PAYLOAD then ret_hs (smart_fail a) w
               else
                 (case smart_merge p0 p of
                    Inl e \<Rightarrow> Some (Inl e)
                  | Inr p \<Rightarrow>
                      (case on_hs (upd a (\<lambda>s. s\<lparr>pkts := [p]\<rparr>)) w of
                         Inl e \<Rightarrow> Some (Inl e)
                       | Inr w \<Rightarrow> smart_request_host env a p w))))"

section \<open>What a request does\<close>

lemma hs_ws_simps [simp]:
  "hs_ws (set_hs_ws st w) = st" "set_hs_ws st (set_hs_ws st' w) = set_hs_ws st w"
  "waits (set_hs_ws st w) = waits w" "dts (set_hs_ws st w) = dts w" "hs_ws (w\<lparr>waits := x\<rparr>) = hs_ws w"
  "hs_ws (w\<lparr>dts := d\<rparr>) = hs_ws w" "waits (w\<lparr>hh := h\<rparr>) = waits w"
  "set_hs_ws st (w\<lparr>dts := d\<rparr>) = (set_hs_ws st w)\<lparr>dts := d\<rparr>"
  "set_hs_ws st (w\<lparr>waits := x\<rparr>) = (set_hs_ws st w)\<lparr>waits := x\<rparr>"
  by (simp_all add: hs_ws_def set_hs_ws_def ad_def set_ad_def ws_def set_ws_def)

lemma setk_setk [simp]: "setk a v (setk a u st) = setk a v st"
  by (simp add: setk_def)

lemma hs_ws_hh [simp]: "ad (hh (set_hs_ws st w)) = set_ws st (ad (hh w))"
  by (simp add: set_hs_ws_def)

text \<open>A complete request for the host is taken apart and passed on.\<close>

lemma host_dispatch:
  assumes a: "hp (hs_ws w) a = Some r" "pkts r = []"
    and p: "length (data p) = MAX_PAYLOAD" "data p = hex4 (length name) @ name @ rest" "pkt_len p = of_nat (length name + 4)"
    and n: "0 < length name" "length name \<le> 1024" "0 \<notin> set name"
    and req: "host_request name = Some req"
  shows "\<exists>p'. smart_socket_enqueue_host env a p w =
    smart_host_request env a p' req (set_hs_ws (setk a (Some (r\<lparr>pkts := [p']\<rparr>)) (hs_ws w)) w)"
proof -
  note f = request_facts [OF p n]
  let ?st = "setk a (Some (r\<lparr>pkts := [p]\<rparr>)) (hs_ws w)"
  have h: "hp ?st a = Some (r\<lparr>pkts := [p]\<rparr>)" using a by (simp add: hp_setk)
  show ?thesis
    using a f req by (simp add: smart_socket_enqueue_host_def smart_request_host_def sock_Some on_hs_def upd_Some h Let_def)
      blast
qed

text \<open>The services of the host are none of the requests that are answered at once.\<close>

lemma host_service_not_handled:
  assumes "host_service_to_socket service ser \<noteq> None"
  shows "handle_host_request_host env service ty ser fd h = Inr (-1, None, h)" "\<not> starts ''transport'' service"
proof -
  have "service = bytes_of_str ''track-devices'' \<or> (\<exists>k. service = bytes_of_str ''wait-for-'' @ k)"
    using assms by (auto simp: host_service_to_socket_def starts_def prefix_def split: if_splits)
  then have no: "service \<noteq> bytes_of_str ''kill''" "service \<noteq> bytes_of_str ''version''" "service \<noteq> bytes_of_str ''list-forward''"
      "service \<noteq> bytes_of_str ''killforward-all''"
    and ns: "\<not> starts ''transport'' service" "\<not> starts ''devices'' service" "\<not> starts ''connect:'' service" "\<not> starts ''disconnect:'' service"
      "\<not> starts ''get-serialno'' service" "\<not> starts ''get-devpath'' service" "\<not> starts ''emulator:'' service"
      "\<not> starts ''forward:'' service" "\<not> starts ''killforward:'' service" "\<not> starts ''get-state'' service"
    by (elim disjE exE; simp add: starts_def bytes_of_str_def)+
  then show "handle_host_request_host env service ty ser fd h = Inr (-1, None, h)" "\<not> starts ''transport'' service"
    by (simp_all add: handle_host_request_host_def handle_host_request_def)
qed

text \<open>The smart socket hands its client over and is gone.\<close>

lemma smart_released:
  assumes "hp st a = Some r" "close_op r = SmartClose"
  shows "seq (upd a (\<lambda>s. s\<lparr>peer := None\<rparr>) st) (sock_close a) = Inr (setk a None st)"
  using assms by (simp add: upd_Some sock_close_def sock_Some hp_setk free_Some)

lemma create_local_socket_eq:
  "create_local_socket fd st =
     (let b = length (sworld.heap st) in
      Inr (b, emit (FdOp (OpInstall (fde_of b) fd local_socket_event_func b))
        (st\<lparr>sworld.heap := sworld.heap st @ [Some (zero_sock\<lparr>sid := next_id st, sfd := fd, write_fd := fd\<rparr>)],
          next_id := next_id st + 1, slist := slist st @ [b]\<rparr>)))"
  by (simp add: create_local_socket_def alloc_def install_local_socket_def upd_def sock_def nth_append Let_def zero_sock_def)

text \<open>The part of \<open>bind_client\<close> on the sockets.\<close>

lemma rebind_plain:
  assumes "hp st a = Some r" "close_op r = SmartClose" "hp st q = Some u" "hp st b = Some x" "distinct [a, q, b]" "peer x = None"
    "ready_op x = LocalReady"
  shows "bind_client env a q (PlainSock b) (set_hs_ws st w) =
    Some (Inr (0, set_hs_ws (emit (FdOp (OpAdd (fde_of b) 1))
      (setk a None (setk b (Some (x\<lparr>peer := Some q\<rparr>)) (setk q (Some (u\<lparr>ready_op := LocalReady, close_op := LocalClose, peer := Some b\<rparr>))
        (emit (WriteFd (sfd u) (bytes_of_str ''OKAY'')) st))))) w))"
proof -
  let ?st = "emit (WriteFd (sfd u) (bytes_of_str ''OKAY'')) st"
  let ?u = "u\<lparr>ready_op := LocalReady, close_op := LocalClose, peer := Some b\<rparr>" and ?x = "x\<lparr>peer := Some q\<rparr>"
  define st1 st2 where "st1 = setk q (Some ?u) ?st" and "st2 = setk b (Some ?x) st1"
  have h1: "hp st1 = (hp st)(q := Some ?u)" unfolding st1_def using assms(3) by (subst hp_setk) simp_all
  have h2: "hp st2 = (hp st)(q := Some ?u, b := Some ?x)"
    unfolding st2_def using assms(4,5) h1 by (subst hp_setk) auto
  have h3: "hp (setk a None st2) = (hp st2)(a := None)" using assms(1,5) h2 by (subst hp_setk) auto
  have u: "upd q (\<lambda>s. s\<lparr>ready_op := LocalReady, close_op := LocalClose, peer := Some b\<rparr>) ?st = Inr st1"
    "upd b (\<lambda>s. s\<lparr>peer := Some q\<rparr>) st1 = Inr st2"
    "seq (upd a (\<lambda>s. s\<lparr>peer := None\<rparr>) st2) (sock_close a) = Inr (setk a None st2)"
    using assms h1 h2 smart_released [of st2 a r] by (simp_all add: upd_Some) (simp_all add: st1_def st2_def)
  have r: "sock_ready b (setk a None st2) = Inr (emit (FdOp (OpAdd (fde_of b) 1)) (setk a None st2))"
    using assms(5,7) h2 h3 by (simp add: sock_ready_def sock_Some local_socket_ready_def)
  show ?thesis
    using assms(3) by (simp add: bind_client_def on_hs_def sock_Some u r Let_def) (simp add: st1_def st2_def)
qed

text \<open>
  A client that waits for a device gets an acknowledgement and is connected to the output of a thread that waits with the serial number and
  the kind of device of the request; the input of the thread is closed, the smart socket is gone and the output is watched.
\<close>

theorem wait_request_hands_over:
  assumes a: "hp (hs_ws w) a = Some r" "pkts r = []" "peer r = Some q" "close_op r = SmartClose"
    and q: "hp (hs_ws w) q = Some u" "q \<noteq> a"
    and p: "length (data p) = MAX_PAYLOAD" "data p = hex4 (length name) @ name @ rest" "pkt_len p = of_nat (length name + 4)"
      "0 < length name" "length name \<le> 1024" "0 \<notin> set name"
    and req: "host_request name = Some (ser, ty, service)" "host_service_to_socket service ser = Some (WaitFor i)"
    and pipes: "pipe_answer 0 (thr_env env) = Some (s0, s1)" "pipe_answer 1 (thr_env env) = Some (f0, f1)" "thread_ok (thr_env env)"
    and b: "b = length (sworld.heap (hs_ws w))"
  shows "\<exists>w'. smart_socket_enqueue_host env a p w = Some (Inr (0, w')) \<and> waits w' = waits w @ [(i, f0, s1)] \<and>
    effects (hs_ws w') = effects (hs_ws w) @ [CloseFd f1, FdOp (OpInstall (fde_of b) s0 local_socket_event_func b),
      WriteFd (sfd u) (bytes_of_str ''OKAY''), FdOp (OpAdd (fde_of b) 1)] \<and>
    hp (hs_ws w') a = None \<and> hp (hs_ws w') q = Some (u\<lparr>ready_op := LocalReady, close_op := LocalClose, peer := Some b\<rparr>) \<and>
    (\<exists>x. hp (hs_ws w') b = Some x \<and> sfd x = s0 \<and> peer x = Some q)"
proof -
  obtain p' where e: "smart_socket_enqueue_host env a p w =
      smart_host_request env a p' (ser, ty, service) (set_hs_ws (setk a (Some (r\<lparr>pkts := [p']\<rparr>)) (hs_ws w)) w)"
    using host_dispatch [OF a(1,2) p req(1)] by blast
  let ?r = "r\<lparr>pkts := [p']\<rparr>"
  define st where "st = setk a (Some ?r) (hs_ws w)"
  have h: "hp st = (hp (hs_ws w))(a := Some ?r)" "length (sworld.heap st) = b" "effects st = effects (hs_ws w)"
    using a(1) by (simp_all add: st_def hp_setk b)
  let ?x = "zero_sock\<lparr>sid := next_id st, sfd := s0, write_fd := s0\<rparr>"
  define st1 where "st1 = emit (FdOp (OpInstall (fde_of b) s0 local_socket_event_func b))
      ((emit (CloseFd f1) st)\<lparr>sworld.heap := sworld.heap st @ [Some ?x], next_id := next_id st + 1, slist := slist st @ [b]\<rparr>)"
  have bn: "hp (hs_ws w) b = None" using hp_alloc(2) [of "hs_ws w"] b by simp
  have d: "distinct [a, q, b]" using a(1) q bn by auto
  have h1: "hp st1 = (hp st)(b := Some ?x)"
    using hp_alloc(1) [of "emit (CloseFd f1) st" ?x] h(2) by (simp add: st1_def)
  have c: "create_local_socket s0 (emit (CloseFd f1) st) = Inr (b, st1)"
    using h(2) by (simp add: create_local_socket_eq Let_def st1_def)
  note nh = host_service_not_handled [of service ser, unfolded req(2)]
  have "smart_host_request env a p' (ser, ty, service) (set_hs_ws st w) =
      bind_client env a q (PlainSock b) (set_hs_ws st1 (w\<lparr>waits := waits w @ [(i, f0, s1)]\<rparr>))"
    using a(3) q h(1) nh req(2) pipes c
    by (simp add: smart_host_request_def sock_Some create_host_service_socket_def create_wait_thread_def)
  also have "\<dots> = Some (Inr (0, set_hs_ws (emit (FdOp (OpAdd (fde_of b) 1))
      (setk a None (setk b (Some (?x\<lparr>peer := Some q\<rparr>)) (setk q (Some (u\<lparr>ready_op := LocalReady, close_op := LocalClose, peer := Some b\<rparr>))
        (emit (WriteFd (sfd u) (bytes_of_str ''OKAY'')) st1))))) (w\<lparr>waits := waits w @ [(i, f0, s1)]\<rparr>)))"
    by (rule rebind_plain [where r = ?r]) (use a(4) q d h(1) h1 in \<open>auto simp: zero_sock_def\<close>)
  finally show ?thesis
    unfolding e st_def [symmetric] using d q(1) h h1
    by (simp add: hp_setk) (simp add: st1_def emit_def)
qed

lemma rebind_tracker:
  assumes "hp st a = Some r" "close_op r = SmartClose" "hp st q = Some u" "a \<noteq> q" and "dtheap (dts w) x = Some t"
  defines "w' \<equiv> (set_hs_ws (setk a None (setk q (Some (u\<lparr>ready_op := LocalReady, close_op := LocalClose, peer := None\<rparr>))
      (emit (WriteFd (sfd u) (bytes_of_str ''OKAY'')) st))) w)\<lparr>dts := put_tracker x (t\<lparr>dt_peer := Some q\<rparr>) (dts w)\<rparr>"
  shows "bind_client env a q (TrackerSock x) (set_hs_ws st w) =
    (case device_tracker_ready (msg_mem env) (ad (hh w')) x (dts w') of
       None \<Rightarrow> None
     | Some (Inl e) \<Rightarrow> Some (Inl e)
     | Some (Inr d) \<Rightarrow> Some (Inr (0, w'\<lparr>dts := d\<rparr>)))"
proof -
  let ?st = "emit (WriteFd (sfd u) (bytes_of_str ''OKAY'')) st"
  let ?u = "u\<lparr>ready_op := LocalReady, close_op := LocalClose, peer := None\<rparr>"
  have h1: "hp (setk q (Some ?u) ?st) = (hp st)(q := Some ?u)" using assms(3) by (subst hp_setk) simp_all
  have u: "upd q (\<lambda>s. s\<lparr>ready_op := LocalReady, close_op := LocalClose, peer := None\<rparr>) ?st = Inr (setk q (Some ?u) ?st)"
    "seq (upd a (\<lambda>s. s\<lparr>peer := None\<rparr>) (setk q (Some ?u) ?st)) (sock_close a) = Inr (setk a None (setk q (Some ?u) ?st))"
    using assms(1-4) h1 smart_released [of "setk q (Some ?u) ?st" a r] by (simp_all add: upd_Some)
  show ?thesis
    unfolding w'_def using assms(3,5) by (simp add: bind_client_def on_hs_def sock_Some u Let_def tracker_at_def)
qed

lemma list_of_devices_socks [simp]:
  "listable b (set_ws st w) = listable b w" "device_msg (set_ws st w) = device_msg w"
  by (simp_all add: listable_def device_msg_def device_lines_def set_ws_def)

text \<open>
  A client that tracks devices gets an acknowledgement and, once, the list as it is now; its tracker is at the front of the
  chain, so it hears of each change after that.
\<close>

theorem track_request_gets_list:
  assumes a: "hp (hs_ws w) a = Some r" "pkts r = []" "peer r = Some q" "close_op r = SmartClose"
    and q: "hp (hs_ws w) q = Some u" "q \<noteq> a" "\<not> fails (dts w) q"
    and p: "length (data p) = MAX_PAYLOAD" "data p = hex4 (length name) @ name @ rest" "pkt_len p = of_nat (length name + 4)"
      "0 < length name" "length name \<le> 1024" "0 \<notin> set name"
    and req: "host_request name = Some (ser, ty, bytes_of_str ''track-devices'')"
    and mem: "tracker_mem env \<notin> dom (dtheap (dts w))" "length (msg_mem env) = 1024"
    and ok: "trackers_ok (dts w) xs" "listable False (ad (hh w))"
  shows "\<exists>w'. smart_socket_enqueue_host env a p w = Some (Inr (0, w')) \<and>
    trackers_ok (dts w') (tracker_mem env # xs) \<and>
    plog (dts w') = plog (dts w) @ [PeerGot q (device_msg (ad (hh w)))] \<and>
    effects (hs_ws w') = effects (hs_ws w) @ [WriteFd (sfd u) (bytes_of_str ''OKAY'')] \<and> hp (hs_ws w') a = None"
proof -
  let ?x = "tracker_mem env" and ?s = "bytes_of_str ''track-devices''"
  have hs: "host_service_to_socket ?s ser = Some DeviceTracker" by (simp add: host_service_to_socket_def)
  obtain p' where e: "smart_socket_enqueue_host env a p w =
      smart_host_request env a p' (ser, ty, ?s) (set_hs_ws (setk a (Some (r\<lparr>pkts := [p']\<rparr>)) (hs_ws w)) w)"
    using host_dispatch [OF a(1,2) p req] by blast
  let ?r = "r\<lparr>pkts := [p']\<rparr>"
  define st where "st = setk a (Some ?r) (hs_ws w)"
  have h: "hp st = (hp (hs_ws w))(a := Some ?r)" "effects st = effects (hs_ws w)"
    using a(1) by (simp_all add: st_def hp_setk)
  define w1 where "w1 = w\<lparr>dts := create_device_tracker ?x (dts w)\<rparr>"
  let ?t = "\<lparr>dt_peer = None, update_needed = True, dt_next = device_tracker_list (dts w)\<rparr>"
  have t: "dtheap (dts w1) ?x = Some ?t" by (simp add: w1_def create_device_tracker_def put_tracker_def)
  define st2 where "st2 = setk a None (setk q (Some (u\<lparr>ready_op := LocalReady, close_op := LocalClose, peer := None\<rparr>))
      (emit (WriteFd (sfd u) (bytes_of_str ''OKAY'')) st))"
  let ?d = "put_tracker ?x (?t\<lparr>dt_peer := Some q\<rparr>) (dts w1)"
  have "trackers_ok (dts w1) (?x # xs)" using create_ok [OF ok(1) mem(1)] by (simp add: w1_def)
  then have "trackers_ok ?d ([] @ ?x # xs)"
    using t by (auto simp: trackers_ok_def put_tracker_def linked_upd_other)
  moreover have "dtheap ?d ?x = Some (?t\<lparr>dt_peer := Some q\<rparr>)" "\<not> fails ?d q" "plog ?d = plog (dts w)"
    using q(3) by (simp_all add: put_tracker_def w1_def create_device_tracker_def)
  ultimately obtain d' where d': "device_tracker_ready (msg_mem env) (set_ws st2 (ad (hh w))) ?x ?d = Some (Inr d')"
    "plog d' = plog (dts w) @ [PeerGot q (device_msg (ad (hh w)))]" "trackers_ok d' (?x # xs)"
    using tracker_ready_sends_once [of ?d "[]" ?x xs "?t\<lparr>dt_peer := Some q\<rparr>" q "set_ws st2 (ad (hh w))"
        "msg_mem env" "msg_mem env"] ok(2) mem(2) by auto
  have "smart_host_request env a p' (ser, ty, ?s) (set_hs_ws st w) =
      bind_client env a q (TrackerSock ?x) (set_hs_ws st w1)"
    using a(3) q h(1) host_service_not_handled [of ?s ser, unfolded hs] hs
    by (simp add: smart_host_request_def sock_Some create_host_service_socket_def w1_def)
  also have "\<dots> = Some (Inr (0, (set_hs_ws st2 w1)\<lparr>dts := d'\<rparr>))"
    using rebind_tracker [of st a ?r q u w1 ?x ?t env] a(4) q(1,2) h(1) t d'(1)
    by (simp add: st2_def [symmetric]) (simp add: w1_def st2_def)
  finally show ?thesis
    unfolding e st_def [symmetric] using q h d'(2,3) by (simp add: st2_def hp_setk)
qed

section \<open>Instances\<close>

definition demo_client :: asocket where "demo_client = zero_sock\<lparr>sid := 1, sfd := 5, write_fd := 5, peer := Some 1\<rparr>"

definition demo_smart :: asocket where
  "demo_smart = zero_sock\<lparr>enqueue_op := SmartEnqueue, ready_op := SmartReady, close_op := SmartClose, peer := Some 0\<rparr>"

definition demo_hs :: hsw where
  "demo_hs = set_hs_ws (start_world\<lparr>sworld.heap := [Some demo_client, Some demo_smart]\<rparr>)
     \<lparr>hh = demo_host, dts = demo_trackers, waits = []\<rparr>"

definition demo_thr :: svc_env where
  "demo_thr = demo_env\<lparr>pipes := [Some (20, 21), Some (22, 23)], thread_ok := True\<rparr>"

definition demo_hs_env :: hs_env where
  "demo_hs_env = \<lparr>henv = demo_host_env, thr_env = demo_thr, tracker_mem = 7, msg_mem = replicate 1024 9\<rparr>"

lemma demo_hs_socks:
  "hp (hs_ws demo_hs) 1 = Some demo_smart" "hp (hs_ws demo_hs) 0 = Some demo_client"
  "length (sworld.heap (hs_ws demo_hs)) = 2" "effects (hs_ws demo_hs) = []"
  "pkts demo_smart = []" "peer demo_smart = Some 0" "close_op demo_smart = SmartClose"
  by (simp_all add: demo_hs_def hp_def demo_smart_def start_world_def)

lemma demo_request:
  assumes "length name \<le> 1024"
  shows "length (data (demo_bytes (hex4 (length name) @ name))) = MAX_PAYLOAD"
    "data (demo_bytes (hex4 (length name) @ name)) = hex4 (length name) @ name @ replicate (MAX_PAYLOAD - 4 - length name) 0"
    "pkt_len (demo_bytes (hex4 (length name) @ name)) = of_nat (length name + 4)"
  using assms by (simp_all add: demo_bytes_def get_apacket_def hex4_def MAX_PAYLOAD_def)

theorem wait_request_hands_over_witness:
  "\<exists>w'. smart_socket_enqueue_host demo_hs_env 1 (demo_bytes (bytes_of_str ''0015host-usb:wait-for-usb'')) demo_hs = Some (Inr (0, w')) \<and>
     waits w' = [(\<lparr>si_transport = kTransportUsb, si_serial = None, si_state = CS_DEVICE\<rparr>, 22, 21)] \<and> hp (hs_ws w') 1 = None"
proof -
  let ?name = "bytes_of_str ''host-usb:wait-for-usb''"
  have l: "length ?name \<le> 1024" "0 < length ?name" "0 \<notin> set ?name" by (simp_all add: bytes_of_str_def)
  have n: "hex4 (length ?name) @ ?name = bytes_of_str ''0015host-usb:wait-for-usb''"
    by (simp add: bytes_of_str_def hex4_def hex_digit_def)
  have r: "host_request ?name = Some (None, kTransportUsb, bytes_of_str ''wait-for-usb'')"
    by (simp add: host_request_def starts_def after_def bytes_of_str_def)
  have s: "host_service_to_socket (bytes_of_str ''wait-for-usb'') None =
      Some (WaitFor \<lparr>si_transport = kTransportUsb, si_serial = None, si_state = CS_DEVICE\<rparr>)"
    by (simp add: host_service_to_socket_def starts_def after_def bytes_of_str_def)
  have p: "pipe_answer 0 (thr_env demo_hs_env) = Some (20, 21)" "pipe_answer 1 (thr_env demo_hs_env) = Some (22, 23)"
    "thread_ok (thr_env demo_hs_env)"
    by (simp_all add: demo_hs_env_def demo_thr_def pipe_answer_def)
  have "waits demo_hs = []" by (simp add: demo_hs_def)
  then show ?thesis
    using wait_request_hands_over [OF demo_hs_socks(1,5,6,7,2) _ demo_request [OF l(1)] l(2,1,3) r s p refl]
    unfolding n by auto
qed

theorem track_request_gets_list_witness:
  "\<exists>w'. smart_socket_enqueue_host demo_hs_env 1 (demo_bytes (bytes_of_str ''0012host:track-devices'')) demo_hs = Some (Inr (0, w')) \<and>
     trackers_ok (dts w') [7, 2, 1] \<and> plog (dts w') = [PeerGot 0 (device_msg (ad demo_host))]"
proof -
  let ?name = "bytes_of_str ''host:track-devices''"
  have l: "length ?name \<le> 1024" "0 < length ?name" "0 \<notin> set ?name" by (simp_all add: bytes_of_str_def)
  have n: "hex4 (length ?name) @ ?name = bytes_of_str ''0012host:track-devices''"
    by (simp add: bytes_of_str_def hex4_def hex_digit_def)
  have r: "host_request ?name = Some (None, kTransportAny, bytes_of_str ''track-devices'')"
    by (simp add: host_request_def starts_def after_def bytes_of_str_def)
  have d: "\<not> fails (dts demo_hs) 0" "tracker_mem demo_hs_env \<notin> dom (dtheap (dts demo_hs))" "length (msg_mem demo_hs_env) = 1024"
    "plog (dts demo_hs) = []" "tracker_mem demo_hs_env = 7"
    by (simp_all add: demo_hs_def demo_trackers_def demo_hs_env_def)
  have t: "trackers_ok (dts demo_hs) [2, 1]"
    by (auto simp: trackers_ok_def demo_hs_def demo_trackers_def split: if_splits)
  have w: "listable False (ad (hh demo_hs))" "device_msg (ad (hh demo_hs)) = device_msg (ad demo_host)"
    using demo_devices_listable
    by (simp_all add: demo_hs_def) (simp add: demo_host_def ad_def listable_def device_lines_def demo_devices_def)
  show ?thesis
    using track_request_gets_list [OF demo_hs_socks(1,5,6,7,2) _ d(1) demo_request [OF l(1)] l(2,1,3) r d(2,3) t w(1)] d(4,5) w(2)
    unfolding n by auto
qed

end
