(* ===== verification/Event_Trace.thy ===== *)
theory Event_Trace
  imports Listeners
begin

text \<open>
  What a debug build of \<open>src/fdevent.c\<close> prints of its state: \<open>dump_fde\<close> one event, \<open>dump_all_fds\<close> the whole table of
  descriptors before and after \<open>select\<close>, in a buffer of six characters for each descriptor.
\<close>

section \<open>One event\<close>

text \<open>\<open>"FDE #%03d %c%c%c %s\n"\<close>\<close>

definition pad3 :: "nat \<Rightarrow> byte list" where
  "pad3 n = (let d = dec_digits n in replicate (3 - length d) 48 @ d)"

definition flag_char :: "char \<Rightarrow> u16 \<Rightarrow> u16 \<Rightarrow> byte list" where
  "flag_char c f s = (if s AND f \<noteq> 0 then bytes_of_str [c] else [32])"

definition dump_fde :: "fdevent \<Rightarrow> byte list \<Rightarrow> byte list" where
  "dump_fde f info =
     bytes_of_str ''FDE #'' @ pad3 (nat (fde_fd f)) @ [32] @ flag_char CHR ''R'' FDE_READ (fde_state f) @
     flag_char CHR ''W'' FDE_WRITE (fde_state f) @ flag_char CHR ''E'' FDE_ERROR (fde_state f) @ [32] @ info @ [10]"

section \<open>The table\<close>

text \<open>The buffer, the offset \<open>pb\<close> in it and \<open>max_chars\<close>; \<open>None\<close> stands for \<open>goto cleanup\<close>.\<close>

type_synonym trace_buf = "byte list \<times> nat \<times> u32"

definition SAFE_SPRINTF :: "byte list \<Rightarrow> trace_buf \<Rightarrow> trace_buf option res" where
  "SAFE_SPRINTF line = (\<lambda>(buf, pb, max_chars).
     seq (snprintf_at line pb max_chars buf) (\<lambda>buf.
     if line = [] then Inr None
     else if unat max_chars < length line then Inr None
     else Inr (Some (buf, pb + length line, max_chars - of_nat (length line)))))"

definition and_print :: "trace_buf option res \<Rightarrow> (trace_buf \<Rightarrow> trace_buf option res) \<Rightarrow> trace_buf option res" where
  "and_print m k = seq m (\<lambda>r. case r of None \<Rightarrow> Inr None | Some b \<Rightarrow> k b)"

text \<open>The loop from descriptor \<open>i\<close> on, \<open>n\<close> of them; \<open>bad\<close> are those for which \<open>fcntl\<close> fails.\<close>

fun dump_fds_from :: "nat \<Rightarrow> nat \<Rightarrow> nat option list \<Rightarrow> nat set \<Rightarrow> trace_buf \<Rightarrow> trace_buf option res" where
  "dump_fds_from 0 i table bad b = Inr (Some b)"
| "dump_fds_from (Suc n) i table bad b =
     (if i \<ge> length table then Inl (Fault OutOfBounds)
      else
        and_print (SAFE_SPRINTF (dec_digits i) b) (\<lambda>b.
        if table ! i = None then and_print (SAFE_SPRINTF (bytes_of_str ''? '') b) (dump_fds_from n (Suc i) table bad)
        else
          and_print (if i \<in> bad then SAFE_SPRINTF (bytes_of_str ''b'') b else Inr (Some b)) (\<lambda>b.
          and_print (SAFE_SPRINTF (bytes_of_str '' '') b) (dump_fds_from n (Suc i) table bad))))"

definition trace_size :: nat where "trace_size = FD_SETSIZE * 6 + 1"

text \<open>\<open>mem\<close> is what \<open>malloc\<close> returns; the result is the text between the braces, or \<open>None\<close> when the function gives up.\<close>

definition dump_all_fds :: "byte list \<Rightarrow> nat set \<Rightarrow> fdst \<Rightarrow> byte list option res" where
  "dump_all_fds mem bad st =
     seq (dump_fds_from (select_n st) 0 (fd_table st) bad (mem, 0, of_nat trace_size)) (\<lambda>r.
     case r of
       None \<Rightarrow> Inr None
     | Some (buf, _, _) \<Rightarrow> (case c_string buf of None \<Rightarrow> Inl (Fault OutOfBounds) | Some s \<Rightarrow> Inr (Some s)))"

section \<open>The buffer is large enough\<close>

definition fd_entry :: "nat option list \<Rightarrow> nat set \<Rightarrow> nat \<Rightarrow> byte list" where
  "fd_entry table bad i = dec_digits i @
     (if table ! i = None then bytes_of_str ''? '' else if i \<in> bad then bytes_of_str ''b '' else bytes_of_str '' '')"

text \<open>\<open>t\<close> has been printed so far.\<close>

definition printed :: "byte list \<Rightarrow> trace_buf \<Rightarrow> bool" where
  "printed t b \<longleftrightarrow> (\<exists>rest. b = (t @ rest, length t, of_nat (trace_size - length t)) \<and>
     length t + length rest = trace_size \<and> (t \<noteq> [] \<longrightarrow> rest \<noteq> [] \<and> hd rest = 0))"

lemma trace_size_u32: "n \<le> trace_size \<Longrightarrow> unat (of_nat n :: u32) = n"
  by (rule unat_u32) (simp add: trace_size_def FD_SETSIZE_def)

lemma print_fits:
  assumes "printed t b" and "line \<noteq> []" and "length t + length line < trace_size"
  shows "\<exists>b'. SAFE_SPRINTF line b = Inr (Some b') \<and> printed (t @ line) b'"
proof -
  from assms(1) obtain rest where b: "b = (t @ rest, length t, of_nat (trace_size - length t))"
    "length t + length rest = trace_size" by (auto simp: printed_def)
  let ?m = "of_nat (trace_size - length t) :: u32"
  have m: "unat ?m = trace_size - length t" by (rule trace_size_u32) simp
  then have nz: "?m \<noteq> 0" using assms(3) by auto
  have "take (unat ?m - 1) line = line" using m assms(3) by simp
  then have s: "snprintf_at line (length t) ?m (t @ rest) = Inr (t @ line @ [0] @ drop (Suc (length line)) rest)"
    using nz b(2) assms(3) by (simp add: snprintf_at_def)
  have "?m - of_nat (length line) = of_nat (trace_size - length (t @ line))"
    using assms(3) by (simp add: of_nat_diff algebra_simps)
  then have "SAFE_SPRINTF line b = Inr (Some ((t @ line) @ [0] @ drop (Suc (length line)) rest, length (t @ line),
      of_nat (trace_size - length (t @ line))))"
    using s m assms(2,3) b(1) by (simp add: SAFE_SPRINTF_def)
  then show ?thesis using b(2) assms(2,3) by (auto simp: printed_def)
qed

lemma dec_digits_short: "i < 1024 \<Longrightarrow> length (dec_digits i) \<le> 4 \<and> dec_digits i \<noteq> []"
  using length_dec_digits [of i 3] dec_digits_facts [of i "[]" 0] by simp

lemma dec_digits_nonzero: "0 \<notin> set (dec_digits n)"
  using dec_digits_facts [of n "[]" 0] by (auto simp: is_digit_def)

lemma fd_entry_facts:
  assumes "i < 1024"
  shows "length (fd_entry table bad i) \<le> 6" "fd_entry table bad i \<noteq> []" "0 \<notin> set (fd_entry table bad i)"
  using dec_digits_short [OF assms] dec_digits_nonzero [of i] by (simp_all add: fd_entry_def bytes_of_str_def)

lemma print_entry:
  assumes "printed t b" and "i < length table" and "i < 1024" and "length t + 6 < trace_size"
  shows "\<exists>b'. dump_fds_from (Suc n) i table bad b = dump_fds_from n (Suc i) table bad b' \<and>
    printed (t @ fd_entry table bad i) b'"
proof -
  note d = dec_digits_short [OF assms(3)]
  obtain b1 where b1: "SAFE_SPRINTF (dec_digits i) b = Inr (Some b1)" "printed (t @ dec_digits i) b1"
    using print_fits [OF assms(1), of "dec_digits i"] d assms(4) by auto
  have step: "\<exists>b'. SAFE_SPRINTF s c = Inr (Some b') \<and> printed (u @ s) b'"
    if "printed u c" "s \<noteq> []" "length u + length s \<le> length t + 6" for u s c
    using print_fits [OF that(1,2)] that(3) assms(4) by simp
  consider "table ! i = None" | "table ! i \<noteq> None" "i \<in> bad" | "table ! i \<noteq> None" "i \<notin> bad" by blast
  then show ?thesis
  proof cases
    case 1
    from step [OF b1(2), of "bytes_of_str ''? ''"] d obtain b2 where
      b2: "SAFE_SPRINTF (bytes_of_str ''? '') b1 = Inr (Some b2)" "printed (t @ dec_digits i @ bytes_of_str ''? '') b2"
      by (auto simp: bytes_of_str_def)
    show ?thesis by (rule exI [of _ b2]) (use 1 b1(1) b2 assms(2) in \<open>simp add: and_print_def fd_entry_def\<close>)
  next
    case 2
    from step [OF b1(2), of "bytes_of_str ''b''"] d obtain b2 where
      b2: "SAFE_SPRINTF (bytes_of_str ''b'') b1 = Inr (Some b2)" "printed (t @ dec_digits i @ bytes_of_str ''b'') b2"
      by (auto simp: bytes_of_str_def)
    from step [OF b2(2), of "bytes_of_str '' ''"] d obtain b3 where
      b3: "SAFE_SPRINTF (bytes_of_str '' '') b2 = Inr (Some b3)" "printed (t @ dec_digits i @ bytes_of_str ''b '') b3"
      by (auto simp: bytes_of_str_def)
    show ?thesis by (rule exI [of _ b3]) (use 2 b1(1) b2 b3 assms(2) in \<open>auto simp: and_print_def fd_entry_def\<close>)
  next
    case 3
    from step [OF b1(2), of "bytes_of_str '' ''"] d obtain b2 where
      b2: "SAFE_SPRINTF (bytes_of_str '' '') b1 = Inr (Some b2)" "printed (t @ dec_digits i @ bytes_of_str '' '') b2"
      by (auto simp: bytes_of_str_def)
    show ?thesis by (rule exI [of _ b2]) (use 3 b1(1) b2 assms(2) in \<open>auto simp: and_print_def fd_entry_def\<close>)
  qed
qed

lemma print_entries:
  assumes "printed t b" and "i + n \<le> length table" and "i + n \<le> 1024" and "length t \<le> 6 * i"
  shows "\<exists>b'. dump_fds_from n i table bad b = Inr (Some b') \<and>
    printed (t @ concat (map (fd_entry table bad) [i..<i + n])) b'"
  using assms
proof (induction n arbitrary: i t b)
  case 0
  then show ?case by simp
next
  case (Suc n)
  have "length t + 6 < trace_size" using Suc.prems(3,4) by (simp add: trace_size_def FD_SETSIZE_def)
  with print_entry [OF Suc.prems(1), of i table n bad] Suc.prems(2,3) obtain b' where
    b': "dump_fds_from (Suc n) i table bad b = dump_fds_from n (Suc i) table bad b'" "printed (t @ fd_entry table bad i) b'" by auto
  have "length (t @ fd_entry table bad i) \<le> 6 * Suc i"
    using fd_entry_facts(1) [of i table bad] Suc.prems(3,4) by simp
  moreover have "[i..<i + Suc n] = i # [Suc i..<Suc i + n]" by (simp add: upt_conv_Cons del: upt_Suc)
  ultimately show ?case using Suc.IH [OF b'(2), of "Suc i"] Suc.prems(2,3) b'(1) by (simp del: dump_fds_from.simps upt_Suc)
qed

text \<open>
  In every state the event layer can reach, with at least one descriptor, the trace lists all descriptors up to the highest one:
  the six characters for each are enough, the buffer is not overrun and nothing is cut off.
\<close>

theorem dump_all_fds_complete:
  assumes "fd_reach st" and "0 < select_n st" and "length mem = trace_size"
  shows "dump_all_fds mem bad st = Inr (Some (concat (map (fd_entry (fd_table st) bad) [0..<select_n st])))"
proof -
  from fd_reach_inv [OF assms(1)] obtain xs where "fd_inv st xs" by blast
  then have n: "select_n st \<le> length (fd_table st)" "select_n st \<le> 1024"
    using fd_invD(10,11) by (auto simp: FD_SETSIZE_def)
  let ?t = "concat (map (fd_entry (fd_table st) bad) [0..<select_n st])"
  have "printed [] (mem, 0, of_nat trace_size)" using assms(3) by (simp add: printed_def)
  from print_entries [OF this, of 0 "select_n st" "fd_table st" bad] n obtain b where
    b: "dump_fds_from (select_n st) 0 (fd_table st) bad (mem, 0, of_nat trace_size) = Inr (Some b)" "printed ?t b" by auto
  have "?t \<noteq> []" using assms(2) n(2) fd_entry_facts(2) [of 0 "fd_table st" bad] by (simp add: upt_conv_Cons)
  with b(2) obtain r where r: "fst b = ?t @ 0 # r" by (auto simp: printed_def neq_Nil_conv)
  have "0 \<notin> set ?t" using fd_entry_facts(3) n(2) by fastforce
  then have "c_string (fst b) = Some ?t" unfolding r by (auto simp: c_string_def takeWhile_append)
  with b(1) show ?thesis by (cases b) (simp add: dump_all_fds_def)
qed

theorem dump_all_fds_complete_witness:
  "dump_all_fds (replicate 6145 7) {} demo_fd = Inr (Some (bytes_of_str ''0? 1? 2? 3? 4? 5 ''))"
proof -
  have g: "grow 256 5 = 256" by (subst grow.simps) simp
  have "select_n demo_fd = 6 \<and> (\<forall>i < 6. fd_table demo_fd ! i = (if i = 5 then Some 1 else None))"
    by (simp add: demo_fd_def fdevent_install_def fdevent_register_def fdevent_connect_def fd_start_def fdevent_zero_def Let_def g
        fdevent_init_def nth_list_update)
  with dump_all_fds_complete [OF demo_fd_reach(1), of "replicate 6145 7" "{}"] show ?thesis
    by (simp add: trace_size_def FD_SETSIZE_def fd_entry_def upt_conv_Cons numeral_eq_Suc dec_digits.simps bytes_of_str_def)
qed

text \<open>Without a descriptor nothing is printed into the buffer, and the message shows what the memory held before.\<close>

theorem dump_no_fds:
  assumes "select_n st = 0" and "0 \<notin> set mem"
  shows "dump_all_fds mem bad st = Inl (Fault OutOfBounds)"
  using assms by (simp add: dump_all_fds_def c_string_def)

end
