(* ===== verification/Spec2Isabelle.thy ===== *)
theory Spec2Isabelle
  imports Prelude Sysio Packet Link Usb_Client Ring_Lists Fdevent Sockets Socket_Safety Socket_Flow Jdwp
    Services Mounts Service_Threads Service_Delivery Base64 Utils Auth Adb Adb_Safety Auth_Runs Transport_Threads Transport
    Transport_Ring
    Abort_Socket Socket_Helpers Accept_Threads Listeners Forwarding File_Sync File_Transfer Fs_Config
    Zip Zip_Roundtrip Startup Tracing Device_List Host_Names Emulators Host_Server Host_Services Init
    Sysdeps Polling Session Session_Output Device_Trackers Launch_Server Zip_Dump Host_Smart
    Event_Trace
begin

text \<open>
  A verification of \<open>adbd\<close>, the device side of the Android debug bridge, as ported to a
  microcontroller without an MMU (\<open>src/adbd\<close>; file names below are relative to that directory).

  \<^bold>\<open>The program.\<close> A \<^emph>\<open>transport\<close> is a connection to a host, over USB or a socket. Two threads
  per transport move packets between the link and a pipe to the main thread. The main thread runs an
  event loop over \<open>select\<close>; packets from a transport go to the protocol engine
  (\<open>handle_packet\<close>), which connects, authenticates and multiplexes streams. A stream is a pair
  of \<^emph>\<open>sockets\<close> that point at each other: a local one, which owns the descriptors of a service, and a remote
  one, which turns what it is given into packets. Opening a stream names a service; the
  services start threads or processes and return a descriptor. One of them, \<open>sync:\<close>,
  transfers files.

  \<^bold>\<open>Conventions.\<close> C integers are words at their width, or \<open>int\<close> where the code only compares
  them. A result is \<open>error + 'a\<close> (\<open>res\<close>): \<open>Inl (Fault f)\<close> is behaviour that C leaves undefined or
  that ends the program (null or freed pointer, access outside an array, abort), and safety
  theorems say that it is not reached. The kernel and the other programs are arguments:
  every system call is answered by the next element of a list of answers, so reads are cut
  short, interrupted or refused in all possible ways. A list that is used up stands for a call that does not
  return, which is the value \<open>None\<close> in \<open>Sysio\<close>, \<open>Link\<close> and \<open>File_Sync\<close> and \<open>Hang\<close> in \<open>Service_Threads\<close>; the round trips
  state that enough answers give a result. Effects that other parts only observe (closing a
  descriptor, changing an event, sending a packet) are appended to a list.

  \<^bold>\<open>Theories, in the order of the code's layers.\<close>

  \<^item> \<open>Prelude\<close>: types, results, C strings, little-endian words, collections of facts.

  \<^item> \<open>Sysio\<close>: \<open>adb_read\<close> and \<open>adb_write\<close> (\<open>include/sysdeps.h\<close>), \<open>readx\<close>, \<open>writex\<close>,
    \<open>read_packet\<close>, \<open>write_packet\<close>, the registration messages (\<open>src/transport.c\<close>).

  \<^item> \<open>Sysdeps\<close>: the other wrappers of \<open>include/sysdeps.h\<close>: opening, creating, accepting and pairing descriptors on a table of
    what each allows, and path names on both systems. Shown: what the wrappers open is closed on exec, except by
    \<open>adb_open_mode\<close>; a pair of descriptors is a pipe, so a connection to a debugged process works in one direction only.

  \<^item> \<open>Packet\<close>: \<open>struct amessage\<close> and \<open>struct apacket\<close> (\<open>include/adb.h\<close>), \<open>send_packet\<close>,
    \<open>check_header\<close>, \<open>check_data\<close>.

  \<^item> \<open>Link\<close>: \<open>remote_read\<close> and \<open>remote_write\<close> of \<open>src/transport_local.c\<close> and
    \<open>src/transport_usb.c\<close>, the endpoints of \<open>src/usb_linux_client.c\<close>. The locales \<open>byte_reader\<close>,
    \<open>byte_source\<close> and \<open>packet_writer\<close> are the contract between a packet reader and the descriptor
    below it; all endpoints are interpretations. Shown: accepted packets are well formed and inside
    the buffer on every input; packets written are read back in order.

  \<^item> \<open>Usb_Client\<close>: the descriptors of \<open>src/usb_linux_client.c\<close>: \<open>init_functionfs\<close>, the two open threads
    and the kicks as a step relation with failing system calls; \<open>used\<close> are the descriptors the process has elsewhere. Shown: no descriptor is leaked or
    closed twice and the daemon can always reconnect, as long as descriptor 0 is in use, and what goes wrong when it is not.

  \<^item> \<open>Ring_Lists\<close>: the circular lists of \<open>src/list.c\<close>, \<open>src/fdevent.c\<close>, \<open>src/sockets.c\<close> and
    \<open>src/transport.c\<close> as links between addresses. The locale \<open>ring_list\<close> is refinement to
    sequences; four implementations provide it. The theories above then use sequences.

  \<^item> \<open>Transport_Ring\<close>: the master list of \<open>src/transport.c\<close> with its pointers and the addresses that are alive, for the transports
    that are taken off it twice. Shown: when the second time is harmless, and that it loses a transport or writes into freed memory
    otherwise. The theories that have this list as a sequence do not see this.

  \<^item> \<open>Fdevent\<close>: \<open>src/fdevent.c\<close> (the \<open>select\<close> variant). Shown: the invariant holds in every
    reachable state and no operation aborts there; a turn of the loop ends; \<open>fdevent_process\<close>
    reports exactly what \<open>select\<close> found; a removed event is forgotten everywhere.

  \<^item> \<open>Polling\<close>: the \<open>epoll\<close> variant of the same file, with the kernel's interest list as a map. The locale
    \<open>event_machine\<close> is the contract of an event layer; both variants provide it. Shown: for all sequences of
    operations on plain events (\<open>each_ok\<close>) the two variants stay in step and watch the same events, and \<open>FDE_DONT_CLOSE\<close> breaks the \<open>epoll\<close> one.

  \<^item> \<open>Sockets\<close>, \<open>Socket_Safety\<close>, \<open>Socket_Flow\<close>: \<open>src/sockets.c\<close> over an explicit heap, in which
    freed sockets are \<open>None\<close>; function pointers are constructors with a dispatch. The locale
    \<open>close_rel\<close> derives frame properties of closing once for several relations; one of them, \<open>thins\<close>, says that
    sockets are only freed, closed or cut off from their peers. Shown:
    closing, events and the end of a transport are safe in every order, the end of a transport closes both ends of
    its streams, bytes are kept in order and none is lost, and three flaws.

  \<^item> \<open>Jdwp\<close>: \<open>src/jdwp_service.c\<close>. Shown: its handlers are safe, descriptors are passed first come
    first served, at most four wait.

  \<^item> \<open>Services\<close>: \<open>service_to_fd\<close> and everything it calls to start a service (\<open>src/services.c\<close>,
    \<open>src/backup_service.c\<close>, \<open>src/log_service.c\<close>).

  \<^item> \<open>Mounts\<close>: the table of mounts as \<open>src/remount_service.c\<close> and \<open>src/android_reboot.c\<close> read it. Shown: which
    entries they see, and that the wait before a reboot is bounded.

  \<^item> \<open>Service_Threads\<close>, \<open>Service_Delivery\<close>: the bodies of the service threads (\<open>src/services.c\<close>,
    \<open>src/framebuffer_service.c\<close>, \<open>src/log_service.c\<close>, \<open>src/remount_service.c\<close>, \<open>src/android_reboot.c\<close>). A run returns,
    waits for ever or uses a variable before it is set (\<open>run\<close>). What it opens and closes is recorded in order (\<open>fdlog\<close>); that the kernel
    gives out only numbers that are free at the time is a condition on that record (\<open>kernel_ok\<close>). A pipe whose writing
    end the process itself holds never ends (\<open>pipe_view\<close>). The locale \<open>service_body\<close> is the contract that a
    thread closes its two descriptors and nothing else; ten services provide it. Shown: an update is stored
    exactly or reported as failed, a screen of a suitable size and the log reach the client unchanged, and a
    screen of another size blocks the thread.

  \<^item> \<open>Base64\<close>, \<open>Auth\<close>: \<open>src/base64.c\<close>, \<open>src/adb_auth_client.c\<close>. Stores of the
    decoder outside its target are faults. Shown: bounds and round trip of
    base 64; the keys that are loaded are exactly the complete ones, and only these verify a signature. \<open>RSA_verify\<close> is an argument.

  \<^item> \<open>Utils\<close>: the bounded buffer of \<open>src/utils.c\<close> and \<open>src/load_file.c\<close>. Shown: additions stay inside the
    buffer, and a file is loaded completely or not at all.

  \<^item> \<open>Adb\<close>, \<open>Adb_Safety\<close>: \<open>handle_packet\<close> and the handshake (\<open>src/adb.c\<close>) on the state \<open>adbd\<close>, which
    contains transports, sockets, processes and keys. Shown: a sequence of accepted
    packets is handled without a fault, except for two payloads that are not checked; the banner round trip.

  \<^item> \<open>Auth_Runs\<close>: runs of packets from any transports, answers and connections of the framework. Shown: with authentication
    enabled a transport comes online only by a verified signature or by the consent of the framework to a key it
    offered. (\<open>adb_main\<close> as it is never enables authentication, see \<open>Startup\<close>.)

  \<^item> \<open>Session\<close>, \<open>Session_Output\<close>: the composition of \<open>Link\<close>, \<open>Adb\<close> and \<open>Sockets\<close> for one open stream, as step relations
    over packets, events, acknowledgements and answers of the kernel in any order. Shown: what a host sends comes
    out at the service and what the service writes comes out at the host, complete and in order, each packet is acknowledged
    once, at most one is on its way, and no step faults.

  \<^item> \<open>Transport_Threads\<close>: \<open>output_thread\<close>, \<open>input_thread\<close>, \<open>kick_transport\<close> and
    \<open>transport_unref\<close> as a step relation over all interleavings. Shown: one kick, one close,
    packets in order between two \<open>SYNC\<close> packets; and once the other side is gone (\<open>quiet_step\<close>) every schedule
    ends with the transport closed.

  \<^item> \<open>Transport\<close>: registration, removal, reference counts, \<open>acquire_one_transport\<close>
    (\<open>src/transport.c\<close>, \<open>src/transport_usb.c\<close>, \<open>src/transport_local.c\<close>).

  \<^item> \<open>Abort_Socket\<close>, \<open>Socket_Helpers\<close>: \<open>src/abort_socket.c\<close> and the six \<open>src/socket_*.c\<close>. The locales
    \<open>abortable\<close> and \<open>socket_maker\<close> state what the calls have in common. Shown: an aborted socket
    never blocks again, a local address stays inside its structure, and no descriptor is lost when a call fails.

  \<^item> \<open>Accept_Threads\<close>: the threads of \<open>src/transport_local.c\<close> that wait for hosts, with \<open>qemu_pipe_open\<close>
    (\<open>include/qemu_pipe.h\<close>). Shown: each host becomes one transport that is announced once.

  \<^item> \<open>Listeners\<close>, \<open>Forwarding\<close>: the listeners and host requests of \<open>src/adb.c\<close>. Shown: they implement a map
    from local names to destinations; the list of forwards is complete unless a forward goes through a transport without
    a serial number, which crashes it; a client's request becomes one \<open>OPEN\<close> packet.

  \<^item> \<open>File_Sync\<close>, \<open>File_Transfer\<close>: \<open>src/file_sync_service.c\<close>. Shown: a file pulled and pushed is
    stored byte for byte, every file and directory opened is closed once, and a flaw in the handling of
    links.

  \<^item> \<open>Fs_Config\<close>: the tables of \<open>include/android_filesystem_config.h\<close> and \<open>fs_config\<close>. Shown: the first rule
    that covers a path decides, only the listed files are set-user-id, and one rule is never used.

  \<^item> \<open>Zip\<close>, \<open>Zip_Roundtrip\<close>, \<open>Zip_Dump\<close>: \<open>src/zipfile.c\<close> and \<open>src/centraldir.c\<close> with \<open>inflate\<close> as an argument. Shown: an archive of stored and
    deflated files, with extra fields and comments, is read back; what a lookup finds; an offset that is not checked; the list is printed and freed completely.

  \<^item> \<open>Startup\<close>: \<open>main\<close>, \<open>adb_main\<close>, \<open>adb_auth_init\<close> and the trace mask of \<open>src/adb.c\<close> and \<open>src/adb_auth_client.c\<close>; the other initialisers are steps of a log. Shown:
    the mask is the one the words of \<open>ADB_TRACE\<close> name, except for \<open>adb\<close>, and a build that does not allow root
    has given it up before it serves anybody.

  \<^item> \<open>Tracing\<close>, \<open>Event_Trace\<close>: what \<open>dump_hex\<close>, \<open>dump_packet\<close> and \<open>print_packet\<close> print of a packet, \<open>dump_fde\<close> and \<open>dump_all_fds\<close> of the events
    (\<open>src/fdevent.c\<close>). Shown: the lines stay inside their arrays, both ways name the commands alike, and the
    list of descriptors is complete.

  \<^item> \<open>Host_Names\<close>, \<open>Device_List\<close>, \<open>Emulators\<close>, \<open>Host_Server\<close>, \<open>Host_Services\<close>, \<open>Device_Trackers\<close>, \<open>Host_Smart\<close>, \<open>Launch_Server\<close>: parts of the host build that share these files:
    \<open>skip_host_serial\<close> (\<open>src/sockets.c\<close>), the list of devices (\<open>src/transport.c\<close>), the table of emulators (\<open>src/transport_local.c\<close>),
    connecting and the host requests (\<open>src/adb.c\<close>), waiting for a device (\<open>src/services.c\<close>),
    the trackers of the list (\<open>src/transport.c\<close>), the smart socket of the host (\<open>src/sockets.c\<close>), starting the server in three variants (\<open>src/adb.c\<close>). Shown: serial numbers are found again,
    the list stays inside its buffer unless it is long and does not fit, the table has one live transport for a port in
    every order of registrations, kicks, dropped references and messages of the registration pipe, every tracker is told although telling it may free it, clients that wait for a device or track
    the list are handed over to the right service, what the client and the server get on every branch of starting the server, and an unterminated host name.

  \<^item> \<open>Init\<close>: \<open>src/init/init.c\<close>. Shown: a bounded wait, and what is started in which order.

  \<^bold>\<open>Bounds and termination.\<close> Loops that only depend on data are total functions. The loops over
  system calls recurse on the list of answers. \<open>fdevent_turn\<close> and \<open>run_close\<close> end by measures on the pending list and the
  peers. \<open>Transport_Threads\<close> uses no fuel: the relation has infinite runs as long as packets arrive,
  and none once the other side is gone, by a measure on the steps that remain. No definition takes fuel.

  \<^bold>\<open>Not modelled.\<close> Mutexes and threads as such, which appear as the interleavings of the theories about threads; wrappers of
  \<open>include/sysdeps.h\<close> that only pass their arguments on; code under \<open>#if 0\<close>; the redirection of the log files on Windows; zlib and the headers that come with the kernel or the
  C library. Memory allocation succeeds except where the code handles its failure in a branch of a modelled function
  that says so.
\<close>

end
